(* ===== verification/Prelude.thy ===== *)
theory Prelude
  imports Main "HOL-Library.Word" "HOL-Library.Monad_Syntax" "HOL-Library.Multiset"
begin

text \<open>
  Shared vocabulary of the development: the machine types of the Rust sources, checked and
  saturating arithmetic of the standard library, results with errors and panics, big-endian
  encoding of integers, and generic facts on lists and options.

  Conventions.  \<open>u8\<close>, \<open>u16\<close>, \<open>u32\<close>, \<open>u64\<close> are words of that width.  A \<open>usize\<close> is a \<open>nat\<close>;
  an operation that the code checks for overflow is checked here against \<open>2 ^ 64\<close> (the targets
  are 64-bit).  \<open>Vec\<close>, slices and \<open>VecDeque\<close> are lists.
\<close>

unbundle bit_operations_syntax

type_synonym u8 = "8 word"
type_synonym u16 = "16 word"
type_synonym u32 = "32 word"
type_synonym u64 = "64 word"
type_synonym i64 = "64 word"
type_synonym bytes = "u8 list"

named_theorems checked_simps \<open>characterisations of checked arithmetic\<close>
named_theorems byte_simps \<open>length and decoding of encoded integers\<close>
named_theorems outcome_simps \<open>evaluation of fallible computations\<close>

section \<open>Results: errors as values, panics as values\<close>

text \<open>
  A Rust function that returns \<open>Result<T, E>\<close> and may also panic (\<open>expect\<close>, an out-of-range
  index) is modelled by \<open>('e, 'a) outcome\<close>.  A function that only may panic returns an option.
\<close>

datatype 'e fault = Panic | Err 'e

type_synonym ('e, 'a) outcome = "'e fault + 'a"

definition bind_out :: "('e, 'a) outcome \<Rightarrow> ('a \<Rightarrow> ('e, 'b) outcome) \<Rightarrow> ('e, 'b) outcome" where
  "bind_out m k = (case m of Inl f \<Rightarrow> Inl f | Inr x \<Rightarrow> k x)"

definition ok_or :: "'e \<Rightarrow> 'a option \<Rightarrow> ('e, 'a) outcome" where
  "ok_or e m = (case m of None \<Rightarrow> Inl (Err e) | Some x \<Rightarrow> Inr x)"

definition or_panic :: "'a option \<Rightarrow> ('e, 'a) outcome" where
  "or_panic m = (case m of None \<Rightarrow> Inl Panic | Some x \<Rightarrow> Inr x)"

definition map_err :: "('e \<Rightarrow> 'f) \<Rightarrow> ('e, 'a) outcome \<Rightarrow> ('f, 'a) outcome" where
  "map_err g m = (case m of Inl Panic \<Rightarrow> Inl Panic | Inl (Err e) \<Rightarrow> Inl (Err (g e)) | Inr x \<Rightarrow> Inr x)"

lemma bind_out_simps [simp, outcome_simps]:
  "bind_out (Inl f) k = Inl f"
  "bind_out (Inr x) k = k x"
  by (simp_all add: bind_out_def)

lemma bind_out_Inr_iff:
  "bind_out m k = Inr y \<longleftrightarrow> (\<exists>x. m = Inr x \<and> k x = Inr y)"
  by (cases m) auto

lemma bind_out_Inl_iff:
  "bind_out m k = Inl f \<longleftrightarrow> m = Inl f \<or> (\<exists>x. m = Inr x \<and> k x = Inl f)"
  by (cases m) auto

lemma ok_or_Inr_iff [simp]: "ok_or e m = Inr x \<longleftrightarrow> m = Some x"
  by (cases m) (auto simp: ok_or_def)

lemma ok_or_Inl_iff [simp]: "ok_or e m = Inl f \<longleftrightarrow> m = None \<and> f = Err e"
  by (cases m) (auto simp: ok_or_def)

lemma ok_or_Some [simp, outcome_simps]: "ok_or e (Some x) = Inr x"
  by (simp add: ok_or_def)

lemma or_panic_Inr_iff [simp]: "or_panic m = Inr x \<longleftrightarrow> m = Some x"
  by (cases m) (auto simp: or_panic_def)

lemma or_panic_Inl_iff [simp]: "or_panic m = Inl f \<longleftrightarrow> m = None \<and> f = Panic"
  by (cases m) (auto simp: or_panic_def)

lemma or_panic_Some [simp, outcome_simps]: "or_panic (Some x) = Inr x"
  by (simp add: or_panic_def)

lemma map_err_Inr_iff [simp]: "map_err g m = Inr x \<longleftrightarrow> m = Inr x"
  by (auto simp: map_err_def split: sum.splits fault.splits)

lemma map_err_simps [simp, outcome_simps]:
  "map_err g (Inr x) = Inr x"
  "map_err g (Inl Panic) = Inl Panic"
  "map_err g (Inl (Err e)) = Inl (Err (g e))"
  by (simp_all add: map_err_def)

text \<open>\<open>iter().map(f).collect::<Result<Vec<_>, _>>()\<close>: the first error stops the traversal.\<close>

fun collect :: "('a \<Rightarrow> ('e, 'b) outcome) \<Rightarrow> 'a list \<Rightarrow> ('e, 'b list) outcome" where
  "collect f [] = Inr []"
| "collect f (x # xs) = bind_out (f x) (\<lambda>y. bind_out (collect f xs) (\<lambda>ys. Inr (y # ys)))"

lemma collect_Inr_length: "collect f xs = Inr ys \<Longrightarrow> length ys = length xs"
  by (induction xs arbitrary: ys) (auto simp: bind_out_Inr_iff)

lemma collect_Inr_nth:
  "collect f xs = Inr ys \<Longrightarrow> i < length xs \<Longrightarrow> f (xs ! i) = Inr (ys ! i)"
  by (induction xs arbitrary: ys i) (auto simp: bind_out_Inr_iff nth_Cons split: nat.splits)

lemma collect_Inr_eq_map:
  "collect f xs = Inr ys \<Longrightarrow> (\<And>x y. x \<in> set xs \<Longrightarrow> f x = Inr y \<Longrightarrow> y = g x) \<Longrightarrow> ys = map g xs"
  by (induction xs arbitrary: ys) (auto simp: bind_out_Inr_iff)

lemma collect_all_Inr:
  "(\<And>x. x \<in> set xs \<Longrightarrow> f x = Inr (g x)) \<Longrightarrow> collect f xs = Inr (map g xs)"
  by (induction xs) auto

text \<open>\<open>iter().try_fold(acc, f)\<close>.\<close>

fun try_fold :: "('a \<Rightarrow> 'b \<Rightarrow> ('e, 'a) outcome) \<Rightarrow> 'a \<Rightarrow> 'b list \<Rightarrow> ('e, 'a) outcome" where
  "try_fold f acc [] = Inr acc"
| "try_fold f acc (x # xs) = bind_out (f acc x) (\<lambda>acc'. try_fold f acc' xs)"

section \<open>Checked and saturating arithmetic\<close>

definition checked_add :: "'a::len word \<Rightarrow> 'a word \<Rightarrow> 'a word option" where
  "checked_add a b = (if unat a + unat b < 2 ^ LENGTH('a) then Some (a + b) else None)"

definition checked_sub :: "'a::len word \<Rightarrow> 'a word \<Rightarrow> 'a word option" where
  "checked_sub a b = (if b \<le> a then Some (a - b) else None)"

definition saturating_add :: "'a::len word \<Rightarrow> 'a word \<Rightarrow> 'a word" where
  "saturating_add a b = (if unat a + unat b < 2 ^ LENGTH('a) then a + b else - 1)"

definition saturating_sub :: "'a::len word \<Rightarrow> 'a word \<Rightarrow> 'a word" where
  "saturating_sub a b = (if b \<le> a then a - b else 0)"

definition usize_max :: nat where
  "usize_max = 2 ^ 64 - 1"

definition checked_add_usize :: "nat \<Rightarrow> nat \<Rightarrow> nat option" where
  "checked_add_usize a b = (if a + b \<le> usize_max then Some (a + b) else None)"

definition saturating_add_usize :: "nat \<Rightarrow> nat \<Rightarrow> nat" where
  "saturating_add_usize a b = min (a + b) usize_max"

text \<open>\<open>u32::try_from\<close> and \<open>u64::try_from\<close> of a \<open>usize\<close>.\<close>

definition try_u32 :: "nat \<Rightarrow> u32 option" where
  "try_u32 n = (if n < 2 ^ 32 then Some (word_of_nat n) else None)"

definition try_u64 :: "nat \<Rightarrow> u64 option" where
  "try_u64 n = (if n < 2 ^ 64 then Some (word_of_nat n) else None)"

lemma unat_plus_if_less:
  "unat (a :: 'a::len word) + unat b < 2 ^ LENGTH('a) \<Longrightarrow> unat (a + b) = unat a + unat b"
  by (simp add: unat_word_ariths)

lemma unat_word_of_nat_less:
  "n < 2 ^ LENGTH('a) \<Longrightarrow> unat (word_of_nat n :: 'a::len word) = n"
  by (simp add: unat_of_nat)

lemma checked_add_Some_iff [checked_simps]:
  "checked_add a b = Some c \<longleftrightarrow>
     unat a + unat b < 2 ^ LENGTH('a) \<and> unat (c :: 'a::len word) = unat a + unat b"
  by (auto simp: checked_add_def unat_plus_if_less word_unat_eq_iff)

lemma checked_add_None_iff [checked_simps]:
  "checked_add a (b :: 'a::len word) = None \<longleftrightarrow> 2 ^ LENGTH('a) \<le> unat a + unat b"
  by (auto simp: checked_add_def)

lemma checked_sub_Some_iff [checked_simps]:
  "checked_sub a b = Some c \<longleftrightarrow> unat b \<le> unat a \<and> unat (c :: 'a::len word) = unat a - unat b"
  by (auto simp: checked_sub_def word_le_nat_alt unat_sub word_unat_eq_iff)

lemma checked_sub_None_iff [checked_simps]:
  "checked_sub a (b :: 'a::len word) = None \<longleftrightarrow> unat a < unat b"
  by (auto simp: checked_sub_def word_le_nat_alt)

lemma checked_add_usize_Some_iff [checked_simps]:
  "checked_add_usize a b = Some c \<longleftrightarrow> a + b \<le> usize_max \<and> c = a + b"
  by (auto simp: checked_add_usize_def)

lemma try_u32_Some_iff [checked_simps]:
  "try_u32 n = Some w \<longleftrightarrow> n < 2 ^ 32 \<and> unat w = n"
  by (auto simp: try_u32_def unat_word_of_nat_less word_unat_eq_iff)

lemma try_u64_Some_iff [checked_simps]:
  "try_u64 n = Some w \<longleftrightarrow> n < 2 ^ 64 \<and> unat w = n"
  by (auto simp: try_u64_def unat_word_of_nat_less word_unat_eq_iff)

lemma unat_less_power: "unat (w :: 'a::len word) < 2 ^ LENGTH('a)"
  by (rule unsigned_less)

lemma unat_u32_bound [simp]: "unat (w :: u32) < 4294967296"
  using unat_less_power [of w] by simp

lemma unat_u64_bound [simp]: "unat (w :: u64) < 18446744073709551616"
  using unat_less_power [of w] by simp

lemma unat_u8_bound [simp]: "unat (w :: u8) < 256"
  using unat_less_power [of w] by simp

lemma unat_u16_bound [simp]: "unat (w :: u16) < 65536"
  using unat_less_power [of w] by simp

section \<open>Big-endian bytes\<close>

text \<open>\<open>to_be_bytes\<close> and \<open>from_be_bytes\<close>, over the value as a natural number.\<close>

primrec nat_be :: "nat \<Rightarrow> nat \<Rightarrow> bytes" where
  "nat_be 0 x = []"
| "nat_be (Suc n) x = nat_be n (x div 256) @ [word_of_nat x]"

definition be_nat :: "bytes \<Rightarrow> nat" where
  "be_nat bs = foldl (\<lambda>acc b. acc * 256 + unat b) 0 bs"

definition be16 :: "u16 \<Rightarrow> bytes" where
  "be16 w = nat_be 2 (unat w)"

definition be32 :: "u32 \<Rightarrow> bytes" where
  "be32 w = nat_be 4 (unat w)"

definition be64 :: "u64 \<Rightarrow> bytes" where
  "be64 w = nat_be 8 (unat w)"

lemma length_nat_be [simp, byte_simps]: "length (nat_be n x) = n"
  by (induction n arbitrary: x) auto

lemma length_be [simp, byte_simps]:
  "length (be16 a) = 2" "length (be32 b) = 4" "length (be64 c) = 8"
  by (simp_all add: be16_def be32_def be64_def)

lemma be_nat_append_single: "be_nat (bs @ [b]) = be_nat bs * 256 + unat b"
  by (simp add: be_nat_def)

lemma be_nat_Nil [simp]: "be_nat [] = 0"
  by (simp add: be_nat_def)

lemma unat_u8_of_nat: "unat (word_of_nat n :: u8) = n mod 256"
  by (simp add: unat_of_nat)

lemma be_nat_nat_be: "be_nat (nat_be n x) = x mod 256 ^ n"
proof (induction n arbitrary: x)
  case 0
  then show ?case by simp
next
  case (Suc n)
  have "be_nat (nat_be (Suc n) x) = (x div 256 mod 256 ^ n) * 256 + x mod 256"
    by (simp add: be_nat_append_single Suc.IH unat_u8_of_nat)
  also have "\<dots> = x mod 256 ^ Suc n"
    using mod_mult2_eq [of x 256 "256 ^ n"] by simp
  finally show ?case .
qed

lemma be_nat_less: "be_nat bs < 256 ^ length bs"
proof (induction bs rule: rev_induct)
  case Nil
  then show ?case by simp
next
  case (snoc b bs)
  have "be_nat bs * 256 + unat b < (be_nat bs + 1) * 256"
    by simp
  also have "\<dots> \<le> 256 ^ length bs * 256"
    using snoc.IH by (intro mult_le_mono) auto
  finally show ?case by (simp add: be_nat_append_single mult.commute)
qed

lemma nat_be_be_nat: "nat_be (length bs) (be_nat bs) = bs"
proof (induction bs rule: rev_induct)
  case Nil
  then show ?case by simp
next
  case (snoc b bs)
  have "unat (word_of_nat (be_nat bs * 256 + unat b) :: u8) = unat b"
    by (simp only: unat_u8_of_nat) simp
  then have "word_of_nat (be_nat bs * 256 + unat b) = b"
    by (simp only: word_unat_eq_iff)
  with snoc.IH show ?case by (simp add: be_nat_append_single del: of_nat_add of_nat_mult)
qed

lemma be_nat_be [simp, byte_simps]:
  "be_nat (be16 a) = unat a" "be_nat (be32 b) = unat b" "be_nat (be64 c) = unat c"
  by (simp_all add: be16_def be32_def be64_def be_nat_nat_be)

section \<open>Slices\<close>

text \<open>\<open>&v[a..b]\<close>; \<open>get_range\<close> is \<open>v.get(a..b)\<close>, which is \<open>None\<close> out of range.\<close>

definition slice :: "nat \<Rightarrow> nat \<Rightarrow> 'a list \<Rightarrow> 'a list" where
  "slice a b xs = take (b - a) (drop a xs)"

definition get_range :: "'a list \<Rightarrow> nat \<Rightarrow> nat \<Rightarrow> 'a list option" where
  "get_range xs a b = (if a \<le> b \<and> b \<le> length xs then Some (slice a b xs) else None)"

definition get_at :: "'a list \<Rightarrow> nat \<Rightarrow> 'a option" where
  "get_at xs i = (if i < length xs then Some (xs ! i) else None)"

definition get_from :: "'a list \<Rightarrow> nat \<Rightarrow> 'a list option" where
  "get_from xs a = (if a \<le> length xs then Some (drop a xs) else None)"

lemma length_slice [simp]: "b \<le> length xs \<Longrightarrow> length (slice a b xs) = b - a"
  by (simp add: slice_def)

lemma slice_append_left: "b \<le> length xs \<Longrightarrow> slice a b (xs @ ys) = slice a b xs"
  by (simp add: slice_def)

lemma slice_append_right:
  "length xs \<le> a \<Longrightarrow> slice a b (xs @ ys) = slice (a - length xs) (b - length xs) ys"
  by (simp add: slice_def)

lemma slice_middle: "slice (length xs) (length xs + length ys) (xs @ ys @ zs) = ys"
  by (simp add: slice_def)

lemma slice_0 [simp]: "slice 0 n xs = take n xs"
  by (simp add: slice_def)

lemma slice_slice_append: "a \<le> b \<Longrightarrow> b \<le> c \<Longrightarrow> slice a b xs @ slice b c xs = slice a c xs"
proof -
  assume "a \<le> b" "b \<le> c"
  then have "take (b - a) (drop a xs) @ take (c - b) (drop (b - a) (drop a xs))
      = take (b - a + (c - b)) (drop a xs)"
    by (simp only: take_add)
  with \<open>a \<le> b\<close> \<open>b \<le> c\<close> show ?thesis by (simp add: slice_def)
qed

section \<open>Lists\<close>

lemma sum_list_drop_nat: "sum_list (drop n xs) = sum_list xs - sum_list (take n (xs :: nat list))"
  using sum_list_append [of "take n xs" "drop n xs"] by simp

lemma sum_list_take_le: "sum_list (take n xs) \<le> sum_list (xs :: nat list)"
  using sum_list_append [of "take n xs" "drop n xs"] by simp

text \<open>\<open>iter().enumerate().filter(p).map(index).next_back()\<close> and \<open>iter().position(p)\<close>.\<close>

primrec last_index :: "('a \<Rightarrow> bool) \<Rightarrow> 'a list \<Rightarrow> nat option" where
  "last_index p [] = None"
| "last_index p (x # xs) =
     (case last_index p xs of Some i \<Rightarrow> Some (Suc i) | None \<Rightarrow> if p x then Some 0 else None)"

primrec position :: "('a \<Rightarrow> bool) \<Rightarrow> 'a list \<Rightarrow> nat option" where
  "position p [] = None"
| "position p (x # xs) = (if p x then Some 0 else map_option Suc (position p xs))"

lemma last_index_None_iff: "last_index p xs = None \<longleftrightarrow> (\<forall>x \<in> set xs. \<not> p x)"
  by (induction xs) (auto split: option.splits)

lemma last_index_Some_iff:
  "last_index p xs = Some i \<longleftrightarrow>
     i < length xs \<and> p (xs ! i) \<and> (\<forall>j. i < j \<longrightarrow> j < length xs \<longrightarrow> \<not> p (xs ! j))"
proof (induction xs arbitrary: i)
  case Nil
  then show ?case by simp
next
  case (Cons x xs)
  show ?case
  proof (cases "last_index p xs")
    case None
    then have "\<forall>j < length xs. \<not> p (xs ! j)" by (simp add: last_index_None_iff)
    with None show ?thesis by (cases i) (auto simp: nth_Cons split: nat.splits)
  next
    case (Some k)
    with Cons.IH [of k] have k: "k < length xs" "p (xs ! k)"
      "\<forall>j. k < j \<longrightarrow> j < length xs \<longrightarrow> \<not> p (xs ! j)" by auto
    have "i < length (x # xs) \<and> p ((x # xs) ! i)
        \<and> (\<forall>j. i < j \<longrightarrow> j < length (x # xs) \<longrightarrow> \<not> p ((x # xs) ! j)) \<longleftrightarrow> i = Suc k"
    proof (cases i)
      case 0
      with k show ?thesis by (auto dest: spec [where x = "Suc k"])
    next
      case (Suc m)
      have "last_index p xs = Some m \<longleftrightarrow> m = k" using Some by auto
      then show ?thesis using Suc Cons.IH [of m] by (auto simp: nth_Cons split: nat.splits)
    qed
    with Some show ?thesis by auto
  qed
qed

lemma position_Some_iff:
  "position p xs = Some i \<longleftrightarrow> i < length xs \<and> p (xs ! i) \<and> (\<forall>j < i. \<not> p (xs ! j))"
  by (induction xs arbitrary: i) (auto simp: nth_Cons less_Suc_eq_0_disj split: nat.splits)

lemma position_None_iff: "position p xs = None \<longleftrightarrow> (\<forall>x \<in> set xs. \<not> p x)"
  by (induction xs) auto

lemma position_rel: "list_all2 (\<lambda>x y. p x = q y) xs ys \<Longrightarrow> position p xs = position q ys"
  by (induction xs ys rule: list_all2_induct) auto

lemma last_index_rel: "list_all2 (\<lambda>x y. p x = q y) xs ys \<Longrightarrow> last_index p xs = last_index q ys"
  by (induction xs ys rule: list_all2_induct) auto

lemma map_eq_rel: "list_all2 (\<lambda>x y. f x = g y) xs ys \<Longrightarrow> map f xs = map g ys"
  by (induction xs ys rule: list_all2_induct) auto

section \<open>Decimal numerals\<close>

text \<open>\<open>to_string\<close> of an unsigned integer, and its inverse.\<close>

definition digit_char :: "nat \<Rightarrow> char" where
  "digit_char d = char_of (48 + d)"

fun decimal :: "nat \<Rightarrow> string" where
  "decimal n = (if n < 10 then [digit_char n] else decimal (n div 10) @ [digit_char (n mod 10)])"

declare decimal.simps [simp del]

definition undecimal :: "string \<Rightarrow> nat" where
  "undecimal cs = foldl (\<lambda>acc c. 10 * acc + (of_char c - 48)) 0 cs"

lemma of_char_digit: "d < 10 \<Longrightarrow> of_char (digit_char d) = (48 + d :: nat)"
  by (simp add: digit_char_def)

lemma undecimal_zeros: "undecimal (replicate k (digit_char 0) @ cs) = undecimal cs"
  by (induction k) (simp_all add: undecimal_def of_char_digit)

lemma undecimal_decimal: "undecimal (decimal n) = n"
proof (induction n rule: decimal.induct)
  case (1 n)
  show ?case
  proof (cases "n < 10")
    case True
    then show ?thesis by (simp add: decimal.simps [of n] undecimal_def of_char_digit)
  next
    case False
    with 1 have "undecimal (decimal (n div 10)) = n div 10" by simp
    with False show ?thesis
      by (simp add: decimal.simps [of n] undecimal_def of_char_digit)
  qed
qed

lemma decimal_inj [simp]: "decimal m = decimal n \<longleftrightarrow> m = n"
  by (metis undecimal_decimal)

section \<open>Stable sorting\<close>

text \<open>\<open>sort_by\<close> with a total order given as "less or equal": equal elements keep their order.\<close>

primrec insert_by :: "('a \<Rightarrow> 'a \<Rightarrow> bool) \<Rightarrow> 'a \<Rightarrow> 'a list \<Rightarrow> 'a list" where
  "insert_by le x [] = [x]"
| "insert_by le x (y # ys) = (if le x y then x # y # ys else y # insert_by le x ys)"

definition sort_by :: "('a \<Rightarrow> 'a \<Rightarrow> bool) \<Rightarrow> 'a list \<Rightarrow> 'a list" where
  "sort_by le xs = foldr (insert_by le) xs []"

lemma mset_insert_by [simp]: "mset (insert_by le x ys) = add_mset x (mset ys)"
  by (induction ys) auto

lemma set_insert_by [simp]: "set (insert_by le x ys) = insert x (set ys)"
  by (induction ys) auto

lemma mset_sort_by [simp]: "mset (sort_by le xs) = mset xs"
  by (induction xs) (auto simp: sort_by_def)

lemma set_sort_by [simp]: "set (sort_by le xs) = set xs"
  using mset_sort_by [of le xs] mset_eq_setD by blast

lemma length_sort_by [simp]: "length (sort_by le xs) = length xs"
  using mset_sort_by [of le xs] mset_eq_length by blast

lemma sorted_insert_by:
  assumes trans: "\<And>a b c. le a b \<Longrightarrow> le b c \<Longrightarrow> le a c" and total: "\<And>a b. le a b \<or> le b a"
  shows "sorted_wrt le ys \<Longrightarrow> sorted_wrt le (insert_by le x ys)"
  using total by (induction ys) (auto intro: trans)

lemma sorted_sort_by:
  assumes "\<And>a b c. le a b \<Longrightarrow> le b c \<Longrightarrow> le a c" "\<And>a b. le a b \<or> le b a"
  shows "sorted_wrt le (sort_by le xs)"
  by (induction xs) (simp_all add: sort_by_def sorted_insert_by [OF assms])

lemma sort_by_sorted: "sorted_wrt le xs \<Longrightarrow> sort_by le xs = xs"
proof (induction xs)
  case Nil
  then show ?case by (simp add: sort_by_def)
next
  case (Cons x xs)
  then show ?case by (cases xs) (auto simp: sort_by_def)
qed

end
