(* ===== verification/Float64.thy ===== *)
theory Float64
  imports Complex_Main Prelude
begin

text \<open>
  Rust's \<open>f64\<close>.  A value is a NaN, an infinity (its flag is the sign), the negative zero, or a
  finite number; every finite result is rounded to nearest, ties to even, at 53 bits of
  precision with the exponent range of binary64 (subnormals and overflow included).  The one
  abstraction is that all NaN payloads are the same value.  Comparisons are the IEEE ones (false
  on a NaN, the two zeros equal); \<open>f64_total_le\<close> is the order of \<open>total_cmp\<close>.
\<close>

datatype f64 = NaN | Infinity bool | NZero | Fin rat

section \<open>Rounding\<close>

fun ilog2 :: "nat \<Rightarrow> nat" where
  "ilog2 n = (if n < 2 then 0 else Suc (ilog2 (n div 2)))"

declare ilog2.simps [simp del]

lemma ilog2_bounds: "0 < n \<Longrightarrow> 2 ^ ilog2 n \<le> n \<and> n < 2 * 2 ^ ilog2 n"
proof (induction n rule: ilog2.induct)
  case (1 n)
  show ?case
  proof (cases "n < 2")
    case True
    with "1.prems" show ?thesis by (simp add: ilog2.simps [of n])
  next
    case False
    then have "0 < n div 2" by simp
    with "1.IH" False have "2 ^ ilog2 (n div 2) \<le> n div 2 \<and> n div 2 < 2 * 2 ^ ilog2 (n div 2)"
      by simp
    with False show ?thesis by (simp add: ilog2.simps [of n]) linarith
  qed
qed

text \<open>Powers of two with an integer exponent.\<close>

definition pow2 :: "int \<Rightarrow> rat" where
  "pow2 e = (if 0 \<le> e then 2 ^ nat e else 1 / 2 ^ nat (- e))"

lemma pow2_pos [simp]: "0 < pow2 e"
  by (simp add: pow2_def)

lemma pow2_nonzero [simp]: "pow2 e \<noteq> 0"
  using pow2_pos [of e] by linarith

lemma pow2_eq_power_int: "pow2 e = 2 powi e"
  by (simp add: pow2_def power_int_def power_one_over)

lemma pow2_add: "pow2 (a + b) = pow2 a * pow2 b"
  by (simp add: pow2_eq_power_int power_int_add)

lemma pow2_mono: "a \<le> b \<Longrightarrow> pow2 a \<le> pow2 b"
  by (simp add: pow2_eq_power_int power_int_increasing)

lemma pow2_1: "pow2 1 = 2"
  by (simp add: pow2_def)

lemma pow2_strict_mono: "a < b \<Longrightarrow> pow2 a < pow2 b"
proof -
  assume "a < b"
  then have "pow2 (a + 1) \<le> pow2 b" by (intro pow2_mono) simp
  moreover have "pow2 a < pow2 (a + 1)" by (simp add: pow2_add pow2_1)
  ultimately show ?thesis by simp
qed

text \<open>The exponent of a positive number: \<open>2 ^ e \<le> x < 2 ^ (e + 1)\<close>.\<close>

definition exponent :: "rat \<Rightarrow> int" where
  "exponent x =
     (let (p, q) = quotient_of x; e = int (ilog2 (nat p)) - int (ilog2 (nat q))
      in if pow2 e \<le> x then e else e - 1)"

lemma pow2_of_nat: "pow2 (int n) = 2 ^ n"
  by (simp add: pow2_def)

lemma exponent_bounds:
  assumes "0 < x"
  shows "pow2 (exponent x) \<le> x" and "x < pow2 (exponent x + 1)"
proof -
  obtain p q where pq: "quotient_of x = (p, q)" by (cases "quotient_of x")
  have q: "0 < q" using quotient_of_denom_pos [OF pq] .
  have x: "x = of_int p / of_int q" using quotient_of_div [OF pq] .
  have p: "0 < p" using assms q x by (simp add: zero_less_divide_iff)
  define a b where "a = ilog2 (nat p)" and "b = ilog2 (nat q)"
  have "2 ^ a \<le> nat p \<and> nat p < 2 * 2 ^ a" and "2 ^ b \<le> nat q \<and> nat q < 2 * 2 ^ b"
    using ilog2_bounds [of "nat p"] ilog2_bounds [of "nat q"] p q by (auto simp: a_def b_def)
  then have "of_nat (2 ^ a) \<le> (of_nat (nat p) :: rat) \<and> (of_nat (nat p) :: rat) < of_nat (2 * 2 ^ a)"
    and "of_nat (2 ^ b) \<le> (of_nat (nat q) :: rat) \<and> (of_nat (nat q) :: rat) < of_nat (2 * 2 ^ b)"
    by (simp_all only: of_nat_le_iff of_nat_less_iff)
  then have ab: "2 ^ a \<le> (of_int p :: rat)" "(of_int p :: rat) < 2 * 2 ^ a"
    "2 ^ b \<le> (of_int q :: rat)" "(of_int q :: rat) < 2 * 2 ^ b"
    using p q by simp_all
  have e: "pow2 (int a - int b) = 2 ^ a / 2 ^ b"
    by (simp add: pow2_eq_power_int power_int_diff)
  have lo: "2 ^ a / 2 ^ b < 2 * x"
  proof -
    have "2 ^ a * of_int q < of_int p * (2 * (2 ^ b :: rat))"
      using ab q by (intro mult_le_less_imp_less) auto
    then show ?thesis using q by (simp add: x field_simps)
  qed
  have hi: "x < 2 * (2 ^ a / 2 ^ b)"
  proof -
    have "of_int p * 2 ^ b < 2 * 2 ^ a * (of_int q :: rat)"
      using ab p by (intro mult_less_le_imp_less) auto
    then show ?thesis using q by (simp add: x field_simps)
  qed
  let ?e = "int a - int b"
  have ex: "exponent x = (if pow2 ?e \<le> x then ?e else ?e - 1)"
    by (simp add: exponent_def pq a_def b_def Let_def)
  have half: "pow2 (?e - 1) = pow2 ?e / 2"
    using pow2_add [of "?e - 1" 1] by (simp add: pow2_1)
  have dbl: "pow2 (?e + 1) = 2 * pow2 ?e"
    by (simp only: pow2_add pow2_1 mult.commute)
  show "pow2 (exponent x) \<le> x"
    using lo by (auto simp: ex half e)
  show "x < pow2 (exponent x + 1)"
    using hi by (auto simp: ex dbl e)
qed

text \<open>Round half to even, on rationals.\<close>

definition round_even :: "rat \<Rightarrow> int" where
  "round_even x =
     (let f = \<lfloor>x\<rfloor>; d = x - of_int f
      in if d < 1 / 2 then f else if 1 / 2 < d then f + 1 else if even f then f else f + 1)"

lemma round_even_cases: "round_even x = \<lfloor>x\<rfloor> \<or> round_even x = \<lfloor>x\<rfloor> + 1"
  by (simp add: round_even_def Let_def)

lemma round_even_of_int [simp]: "round_even (of_int n) = n"
  by (simp add: round_even_def)

lemma round_even_mono: "x \<le> y \<Longrightarrow> round_even x \<le> round_even y"
proof -
  assume xy: "x \<le> y"
  then have fl: "\<lfloor>x\<rfloor> \<le> \<lfloor>y\<rfloor>" by (rule floor_mono)
  show ?thesis
  proof (cases "\<lfloor>x\<rfloor> = \<lfloor>y\<rfloor>")
    case True
    with xy show ?thesis by (auto simp: round_even_def Let_def)
  next
    case False
    with fl have "\<lfloor>x\<rfloor> + 1 \<le> \<lfloor>y\<rfloor>" by simp
    with round_even_cases [of x] round_even_cases [of y] show ?thesis by linarith
  qed
qed

text \<open>Rounding a positive number: a multiple of the unit in the last place of its binade.\<close>

definition ulp_exp :: "rat \<Rightarrow> int" where
  "ulp_exp x = max (exponent x) (- 1022) - 52"

definition round_pos :: "rat \<Rightarrow> rat" where
  "round_pos x = of_int (round_even (x / pow2 (ulp_exp x))) * pow2 (ulp_exp x)"

definition round_rat :: "rat \<Rightarrow> rat" where
  "round_rat x = (if 0 < x then round_pos x else if x < 0 then - round_pos (- x) else 0)"

lemma round_pos_upper:
  assumes "0 < x" "x \<le> pow2 e" "- 1022 \<le> e" "ulp_exp x \<le> e"
  shows "round_pos x \<le> pow2 e"
proof -
  let ?u = "ulp_exp x"
  have "x / pow2 ?u \<le> pow2 e / pow2 ?u"
    using assms(2) by (intro divide_right_mono) (auto intro: less_imp_le)
  also have "\<dots> = of_int (2 ^ nat (e - ?u))"
    using assms(4) pow2_add [of "e - ?u" ?u] by (simp add: pow2_def [of "e - ?u"])
  finally have "round_even (x / pow2 ?u) \<le> 2 ^ nat (e - ?u)"
    using round_even_mono [of "x / pow2 ?u" "of_int (2 ^ nat (e - ?u))"]
    by (simp only: round_even_of_int)
  then have "(of_int (round_even (x / pow2 ?u)) :: rat) \<le> of_int (2 ^ nat (e - ?u))"
    by (simp only: of_int_le_iff)
  then have "round_pos x \<le> of_int (2 ^ nat (e - ?u)) * pow2 ?u"
    by (simp add: round_pos_def)
  also have "\<dots> = pow2 e"
    using assms(4) pow2_add [of "e - ?u" ?u] by (simp add: pow2_def [of "e - ?u"])
  finally show ?thesis .
qed

lemma round_pos_lower:
  assumes "0 < x" "pow2 e \<le> x" "ulp_exp x \<le> e"
  shows "pow2 e \<le> round_pos x"
proof -
  let ?u = "ulp_exp x"
  have eq: "pow2 e = of_int (2 ^ nat (e - ?u)) * pow2 ?u"
    using assms(3) pow2_add [of "e - ?u" ?u] by (simp add: pow2_def [of "e - ?u"])
  have "of_int (2 ^ nat (e - ?u)) \<le> x / pow2 ?u"
    using assms(2) eq by (simp add: pos_le_divide_eq)
  then have "2 ^ nat (e - ?u) \<le> round_even (x / pow2 ?u)"
    using round_even_mono [of "of_int (2 ^ nat (e - ?u))" "x / pow2 ?u"]
    by (simp only: round_even_of_int)
  then have "(of_int (2 ^ nat (e - ?u)) :: rat) \<le> of_int (round_even (x / pow2 ?u))"
    by (simp only: of_int_le_iff)
  then show ?thesis by (simp add: round_pos_def eq)
qed

lemma exponent_mono: "0 < x \<Longrightarrow> x \<le> y \<Longrightarrow> exponent x \<le> exponent y"
proof (rule ccontr)
  assume x: "0 < x" and xy: "x \<le> y" and n: "\<not> exponent x \<le> exponent y"
  then have "pow2 (exponent y + 1) \<le> pow2 (exponent x)" by (intro pow2_mono) simp
  with exponent_bounds [of x] exponent_bounds [of y] x xy show False by linarith
qed

lemma round_pos_nonneg: "0 < x \<Longrightarrow> 0 \<le> round_pos x"
proof -
  assume "0 < x"
  then have "round_even (of_int 0) \<le> round_even (x / pow2 (ulp_exp x))"
    by (intro round_even_mono) (simp add: less_imp_le)
  then have "0 \<le> round_even (x / pow2 (ulp_exp x))" by (simp only: round_even_of_int)
  then show ?thesis by (simp add: round_pos_def less_imp_le)
qed

lemma round_pos_mono:
  assumes "0 < x" "x \<le> y"
  shows "round_pos x \<le> round_pos y"
proof (cases "ulp_exp x = ulp_exp y")
  case True
  have "x / pow2 (ulp_exp y) \<le> y / pow2 (ulp_exp y)"
    using assms by (intro divide_right_mono) (auto intro: less_imp_le)
  from round_even_mono [OF this] True show ?thesis by (simp add: round_pos_def)
next
  case False
  have ey: "exponent x \<le> exponent y" using assms by (rule exponent_mono)
  with False have less: "exponent x < exponent y" "- 1022 < exponent y"
    by (auto simp: ulp_exp_def max_def split: if_splits)
  let ?e = "exponent y"
  have ux: "ulp_exp x \<le> ?e" and uy: "ulp_exp y \<le> ?e"
    using less by (auto simp: ulp_exp_def)
  have "x < pow2 (exponent x + 1)" using assms(1) by (rule exponent_bounds)
  also have "\<dots> \<le> pow2 ?e" using less by (intro pow2_mono) simp
  finally have "round_pos x \<le> pow2 ?e"
    using assms(1) less ux by (intro round_pos_upper) auto
  also have "\<dots> \<le> round_pos y"
    using assms uy exponent_bounds(1) [of y] by (intro round_pos_lower) auto
  finally show ?thesis .
qed

lemma round_rat_mono: "x \<le> y \<Longrightarrow> round_rat x \<le> round_rat y"
proof -
  assume xy: "x \<le> y"
  consider "0 < x" | "x \<le> 0" "0 \<le> y" | "y < 0" by linarith
  then show ?thesis
  proof cases
    case 1
    with xy show ?thesis by (simp add: round_rat_def round_pos_mono)
  next
    case 2
    then show ?thesis
      using round_pos_nonneg [of y] round_pos_nonneg [of "- x"] by (auto simp: round_rat_def)
  next
    case 3
    with xy show ?thesis using round_pos_mono [of "- y" "- x"] by (simp add: round_rat_def)
  qed
qed

lemma round_rat_0 [simp]: "round_rat 0 = 0"
  by (simp add: round_rat_def)

text \<open>The rounded result: infinite from \<open>2 ^ 1024\<close> on, and a negative zero on underflow.\<close>

definition f64_of_rat :: "rat \<Rightarrow> f64" where
  "f64_of_rat x =
     (let r = round_rat x
      in if pow2 1024 \<le> r then Infinity False else if r \<le> - pow2 1024 then Infinity True
         else if r = 0 \<and> x < 0 then NZero else Fin r)"

section \<open>Values and comparisons\<close>

definition f64_val :: "f64 \<Rightarrow> rat" where
  "f64_val x = (case x of Fin q \<Rightarrow> q | _ \<Rightarrow> 0)"

definition is_nan :: "f64 \<Rightarrow> bool" where
  "is_nan x = (x = NaN)"

definition is_finite :: "f64 \<Rightarrow> bool" where
  "is_finite x = (case x of Fin _ \<Rightarrow> True | NZero \<Rightarrow> True | _ \<Rightarrow> False)"

text \<open>Position on the extended line: \<open>-1\<close>, \<open>0\<close>, \<open>1\<close> for minus infinity, finite, infinity.\<close>

definition f64_rank :: "f64 \<Rightarrow> int" where
  "f64_rank x = (case x of Infinity s \<Rightarrow> if s then - 1 else 1 | _ \<Rightarrow> 0)"

definition fle :: "f64 \<Rightarrow> f64 \<Rightarrow> bool" where
  "fle x y \<longleftrightarrow> x \<noteq> NaN \<and> y \<noteq> NaN \<and>
     (f64_rank x < f64_rank y \<or> f64_rank x = f64_rank y \<and> f64_val x \<le> f64_val y)"

definition flt :: "f64 \<Rightarrow> f64 \<Rightarrow> bool" where
  "flt x y \<longleftrightarrow> x \<noteq> NaN \<and> y \<noteq> NaN \<and>
     (f64_rank x < f64_rank y \<or> f64_rank x = f64_rank y \<and> f64_val x < f64_val y)"

definition feq :: "f64 \<Rightarrow> f64 \<Rightarrow> bool" where
  "feq x y \<longleftrightarrow> fle x y \<and> fle y x"

text \<open>\<open>f64::total_cmp\<close>, as "less or equal": the negative zero is below zero, NaN on top.\<close>

definition f64_total_le :: "f64 \<Rightarrow> f64 \<Rightarrow> bool" where
  "f64_total_le x y \<longleftrightarrow> y = NaN \<or> (x \<noteq> NaN \<and>
     (f64_rank x < f64_rank y \<or> f64_rank x = f64_rank y \<and>
       (f64_val x < f64_val y \<or> f64_val x = f64_val y \<and> (x = NZero \<or> y \<noteq> NZero))))"

section \<open>Arithmetic\<close>

definition fneg :: "f64 \<Rightarrow> f64" where
  "fneg x = (case x of NaN \<Rightarrow> NaN | Infinity s \<Rightarrow> Infinity (\<not> s) | NZero \<Rightarrow> Fin 0
     | Fin q \<Rightarrow> if q = 0 then NZero else Fin (- q))"

definition fabs :: "f64 \<Rightarrow> f64" where
  "fabs x = (case x of NaN \<Rightarrow> NaN | Infinity s \<Rightarrow> Infinity False | NZero \<Rightarrow> Fin 0 | Fin q \<Rightarrow> Fin \<bar>q\<bar>)"

definition fadd :: "f64 \<Rightarrow> f64 \<Rightarrow> f64" where
  "fadd x y =
     (if x = NaN \<or> y = NaN then NaN
      else if f64_rank x \<noteq> 0 then if f64_rank y \<noteq> 0 \<and> f64_rank y \<noteq> f64_rank x then NaN else x
      else if f64_rank y \<noteq> 0 then y
      else if x = NZero \<and> y = NZero then NZero
      else f64_of_rat (f64_val x + f64_val y))"

definition fsub :: "f64 \<Rightarrow> f64 \<Rightarrow> f64" where
  "fsub x y = fadd x (fneg y)"

text \<open>The sign bit, and a finite result with a given sign when it is zero.\<close>

definition sign_bit :: "f64 \<Rightarrow> bool" where
  "sign_bit x = (case x of NaN \<Rightarrow> False | Infinity s \<Rightarrow> s | NZero \<Rightarrow> True | Fin q \<Rightarrow> q < 0)"

definition signed_zero :: "bool \<Rightarrow> f64" where
  "signed_zero s = (if s then NZero else Fin 0)"

definition fmul :: "f64 \<Rightarrow> f64 \<Rightarrow> f64" where
  "fmul x y =
     (let s = (sign_bit x \<noteq> sign_bit y)
      in if x = NaN \<or> y = NaN then NaN
         else if \<not> is_finite x \<or> \<not> is_finite y
           then if (is_finite x \<and> f64_val x = 0) \<or> (is_finite y \<and> f64_val y = 0) then NaN else Infinity s
         else if f64_val x * f64_val y = 0 then signed_zero s
         else f64_of_rat (f64_val x * f64_val y))"

definition fdiv :: "f64 \<Rightarrow> f64 \<Rightarrow> f64" where
  "fdiv x y =
     (let s = (sign_bit x \<noteq> sign_bit y)
      in if x = NaN \<or> y = NaN then NaN
         else if \<not> is_finite x then if is_finite y then Infinity s else NaN
         else if \<not> is_finite y then signed_zero s
         else if f64_val y = 0 then if f64_val x = 0 then NaN else Infinity s
         else if f64_val x = 0 then signed_zero s
         else f64_of_rat (f64_val x / f64_val y))"

text \<open>\<open>f64::max\<close> and \<open>f64::min\<close> ignore a NaN operand.\<close>

definition fmax :: "f64 \<Rightarrow> f64 \<Rightarrow> f64" where
  "fmax x y = (if x = NaN then y else if y = NaN then x else if flt x y then y else x)"

definition fmin :: "f64 \<Rightarrow> f64 \<Rightarrow> f64" where
  "fmin x y = (if x = NaN then y else if y = NaN then x else if flt y x then y else x)"

text \<open>Conversion from an integer, \<open>n as f64\<close>.\<close>

definition f64_of_int :: "int \<Rightarrow> f64" where
  "f64_of_int n = f64_of_rat (of_int n)"

definition f64_of_nat :: "nat \<Rightarrow> f64" where
  "f64_of_nat n = f64_of_rat (of_nat n)"

text \<open>\<open>iter().sum::<f64>()\<close>, which starts from \<open>-0.0\<close>.\<close>

definition fsum :: "f64 list \<Rightarrow> f64" where
  "fsum xs = foldl fadd NZero xs"

section \<open>Order facts\<close>

lemma fadd_not_nan: "fadd x y \<noteq> NaN \<Longrightarrow> x \<noteq> NaN \<and> y \<noteq> NaN"
  by (auto simp: fadd_def)

lemma fsub_not_nan: "fsub x y \<noteq> NaN \<Longrightarrow> x \<noteq> NaN \<and> y \<noteq> NaN"
  by (cases y) (auto simp: fsub_def fneg_def dest: fadd_not_nan)

lemma fle_trans: "fle x y \<Longrightarrow> fle y z \<Longrightarrow> fle x z"
  by (auto simp: fle_def)

lemma fle_refl_iff: "fle x x \<longleftrightarrow> x \<noteq> NaN"
  by (auto simp: fle_def)

lemma flt_imp_fle: "flt x y \<Longrightarrow> fle x y"
  by (auto simp: fle_def flt_def)

lemma fle_flt_trans: "fle x y \<Longrightarrow> flt y z \<Longrightarrow> flt x z"
  by (auto simp: fle_def flt_def)

lemma flt_fle_trans: "flt x y \<Longrightarrow> fle y z \<Longrightarrow> flt x z"
  by (auto simp: fle_def flt_def)

lemma not_fle: "x \<noteq> NaN \<Longrightarrow> y \<noteq> NaN \<Longrightarrow> \<not> fle x y \<longleftrightarrow> flt y x"
  by (auto simp: fle_def flt_def)

lemma fle_not_nan: "fle x y \<Longrightarrow> x \<noteq> NaN \<and> y \<noteq> NaN"
  by (simp add: fle_def)

lemma fle_fmax1: "x \<noteq> NaN \<Longrightarrow> fle x (fmax x y)"
  by (auto simp: fmax_def fle_refl_iff intro: flt_imp_fle)

lemma fle_fmax2: "y \<noteq> NaN \<Longrightarrow> fle y (fmax x y)"
  by (auto simp: fmax_def fle_refl_iff not_fle [symmetric] flt_def) (auto simp: fle_def flt_def)

lemma f64_total_le_trans: "f64_total_le x y \<Longrightarrow> f64_total_le y z \<Longrightarrow> f64_total_le x z"
  by (auto simp: f64_total_le_def)

lemma f64_total_le_linear: "f64_total_le x y \<or> f64_total_le y x"
  by (auto simp: f64_total_le_def)

lemma f64_total_le_imp_fle: "f64_total_le x y \<Longrightarrow> y \<noteq> NaN \<Longrightarrow> fle x y"
  by (auto simp: f64_total_le_def fle_def)

section \<open>Monotone rounding\<close>

lemma f64_of_rat_not_nan [simp]: "f64_of_rat x \<noteq> NaN"
  by (simp add: f64_of_rat_def Let_def)

lemma f64_of_rat_mono: "x \<le> y \<Longrightarrow> fle (f64_of_rat x) (f64_of_rat y)"
  using round_rat_mono [of x y] pow2_pos [of 1024]
  by (auto simp: f64_of_rat_def Let_def fle_def f64_rank_def f64_val_def)

lemma f64_of_rat_0 [simp]: "f64_of_rat 0 = Fin 0"
  using pow2_pos [of 1024] by (simp add: f64_of_rat_def not_le)

lemma f64_of_rat_nonneg: "0 \<le> x \<Longrightarrow> fle (Fin 0) (f64_of_rat x)"
  using f64_of_rat_mono [of 0 x] by simp

lemma f64_val_fneg: "f64_val (fneg x) = - f64_val x"
  by (cases x) (auto simp: fneg_def f64_val_def)

lemma f64_rank_fneg: "f64_rank (fneg x) = - f64_rank x"
  by (cases x) (auto simp: fneg_def f64_rank_def)

lemma fneg_nan_iff [simp]: "fneg x = NaN \<longleftrightarrow> x = NaN"
  by (cases x) (auto simp: fneg_def)

lemma f64_rank_range: "f64_rank x = - 1 \<or> f64_rank x = 0 \<or> f64_rank x = 1"
  by (cases x) (auto simp: f64_rank_def)

text \<open>Addition is monotone in each argument wherever neither sum is a NaN.\<close>

lemma fle_rank_less: "x \<noteq> NaN \<Longrightarrow> y \<noteq> NaN \<Longrightarrow> f64_rank x < f64_rank y \<Longrightarrow> fle x y"
  by (simp add: fle_def)

lemma f64_val_rank: "f64_rank x \<noteq> 0 \<Longrightarrow> f64_val x = 0"
  by (cases x) (auto simp: f64_rank_def f64_val_def)

lemma f64_rank_simps [simp]:
  "f64_rank (Infinity s) = (if s then - 1 else 1)" "f64_rank (Fin q) = 0" "f64_rank NZero = 0"
  "f64_rank NaN = 0"
  by (simp_all add: f64_rank_def)

lemma f64_val_simps [simp]:
  "f64_val (Infinity s) = 0" "f64_val (Fin q) = q" "f64_val NZero = 0" "f64_val NaN = 0"
  by (simp_all add: f64_val_def)

lemma f64_rank_nonzero: "f64_rank x \<noteq> 0 \<Longrightarrow> x = Infinity (f64_rank x < 0)"
  by (cases x) (auto simp: f64_rank_def)

lemma fle_Infinity_top: "x \<noteq> NaN \<Longrightarrow> fle x (Infinity False)"
  using f64_rank_range [of x] f64_val_rank [of x] by (auto simp: fle_def f64_val_def)

lemma fle_Infinity_bot: "x \<noteq> NaN \<Longrightarrow> fle (Infinity True) x"
  using f64_rank_range [of x] f64_val_rank [of x] by (auto simp: fle_def f64_val_def)

lemma fadd_finite_mono:
  assumes "f64_rank x = 0" "f64_rank y = 0" "f64_rank a = 0" "f64_rank b = 0"
    and "x \<noteq> NaN" "y \<noteq> NaN" "a \<noteq> NaN" "b \<noteq> NaN"
    and "f64_val x + f64_val y \<le> f64_val a + f64_val b"
  shows "fle (fadd x y) (fadd a b)"
proof -
  have eq: "fle (fadd x y) z \<longleftrightarrow> fle (f64_of_rat (f64_val x + f64_val y)) z"
    "fle z (fadd x y) \<longleftrightarrow> fle z (f64_of_rat (f64_val x + f64_val y))"
    if "f64_rank x = 0" "f64_rank y = 0" "x \<noteq> NaN" "y \<noteq> NaN" for x y z
    using that by (auto simp: fadd_def fle_def f64_val_def f64_rank_def)
  from assms show ?thesis by (simp add: eq f64_of_rat_mono)
qed

lemma fadd_mono_left:
  assumes xy: "fle x y" and nx: "fadd x z \<noteq> NaN" and ny: "fadd y z \<noteq> NaN"
  shows "fle (fadd x z) (fadd y z)"
proof -
  have nn: "x \<noteq> NaN" "y \<noteq> NaN" "z \<noteq> NaN"
    using nx ny by (auto simp: fadd_def)
  consider "f64_rank x = 0" "f64_rank y = 0" "f64_rank z = 0"
    | "fadd x z = Infinity True" | "fadd y z = Infinity False"
    using xy nn nx ny f64_rank_range [of x] f64_rank_range [of y] f64_rank_range [of z]
      f64_rank_nonzero [of x] f64_rank_nonzero [of y] f64_rank_nonzero [of z]
    by (auto simp: fadd_def fle_def split: if_splits)
  then show ?thesis
  proof cases
    case 1
    with xy nn show ?thesis by (intro fadd_finite_mono) (auto simp: fle_def)
  next
    case 2
    with ny show ?thesis by (simp add: fle_Infinity_bot)
  next
    case 3
    with nx show ?thesis by (simp add: fle_Infinity_top)
  qed
qed

lemma fadd_commute: "fadd x y = fadd y x"
  using f64_rank_nonzero [of x] f64_rank_nonzero [of y]
  by (auto simp: fadd_def add.commute)

lemma fneg_antimono: "fle x y \<Longrightarrow> fle (fneg y) (fneg x)"
  by (auto simp: fle_def f64_rank_fneg f64_val_fneg)

lemma fsub_antimono_right:
  assumes "fle x y" "fsub z x \<noteq> NaN" "fsub z y \<noteq> NaN"
  shows "fle (fsub z y) (fsub z x)"
  using assms fadd_mono_left [OF fneg_antimono [OF assms(1)], of z]
  by (simp add: fsub_def fadd_commute [of z])

lemma fsub_mono_left:
  assumes "fle x y" "fsub x z \<noteq> NaN" "fsub y z \<noteq> NaN"
  shows "fle (fsub x z) (fsub y z)"
  using assms fadd_mono_left [of x y "fneg z"] by (simp add: fsub_def)

lemma fsub_nonneg:
  assumes "fle y x" "fsub x y \<noteq> NaN"
  shows "fle (Fin 0) (fsub x y)"
proof -
  have nn: "x \<noteq> NaN" "y \<noteq> NaN" using assms(1) by (auto simp: fle_def)
  have "f64_rank x = 0 \<and> f64_rank y = 0 \<or> fsub x y = Infinity False"
    using assms by (cases x; cases y)
      (auto simp: fsub_def fadd_def fneg_def fle_def f64_rank_def f64_val_def split: if_splits)
  then show ?thesis
  proof (elim disjE conjE)
    assume 1: "f64_rank x = 0" "f64_rank y = 0"
    with assms nn have "0 \<le> f64_val x - f64_val y" by (auto simp: fle_def)
    from f64_of_rat_nonneg [OF this] 1 nn show ?thesis
      by (simp add: fsub_def fadd_def f64_rank_fneg f64_val_fneg fle_def)
  next
    assume "fsub x y = Infinity False"
    then show ?thesis by (simp add: fle_Infinity_top)
  qed
qed

section \<open>Exact results\<close>

text \<open>Integers up to \<open>2 ^ 53\<close> are represented exactly.\<close>

lemma round_even_Ints: "x \<in> \<int> \<Longrightarrow> of_int (round_even x) = x"
  by (auto elim!: Ints_cases)

lemma round_pos_Ints:
  assumes "x \<in> \<int>" "0 < x" "x < 2 ^ 53"
  shows "round_pos x = x"
proof -
  have "exponent x \<le> 52"
  proof (rule ccontr)
    assume "\<not> exponent x \<le> 52"
    then have "pow2 53 \<le> pow2 (exponent x)" by (intro pow2_mono) simp
    with exponent_bounds(1) [of x] assms show False by (simp add: pow2_def)
  qed
  then have u: "ulp_exp x \<le> 0" by (simp add: ulp_exp_def)
  then have "1 / pow2 (ulp_exp x) = 2 ^ nat (- ulp_exp x)"
    by (auto simp: pow2_def)
  then have "x / pow2 (ulp_exp x) = x * 2 ^ nat (- ulp_exp x)" by (simp add: divide_inverse)
  then have "x / pow2 (ulp_exp x) \<in> \<int>"
    using assms(1) by simp
  then show ?thesis by (simp add: round_pos_def round_even_Ints)
qed

lemma f64_of_rat_exact:
  assumes "x \<in> \<int>" "\<bar>x\<bar> < 2 ^ 53"
  shows "f64_of_rat x = Fin x"
proof -
  have "round_rat x = x"
    using assms round_pos_Ints [of x] round_pos_Ints [of "- x"]
    by (auto simp: round_rat_def)
  moreover have "pow2 53 \<le> pow2 1024" by (rule pow2_mono) simp
  then have "\<bar>x\<bar> < pow2 1024" using assms(2) by (simp add: pow2_def [of 53])
  ultimately show ?thesis by (auto simp: f64_of_rat_def Let_def)
qed

lemmas f64_eval = fsub_def fadd_def fneg_def fle_def flt_def fmax_def is_finite_def f64_of_rat_exact

end
