(* ===== verification/Segment.thy ===== *)
theory Segment
  imports Float64
begin

text \<open>
  Encoded media segments (crates/clipline-buffer/src/segment.rs): the sample index of a track,
  the slicing of a track's payload by that index, and the byte accounting of a segment.
\<close>

record sample_info =
  si_size :: u32
  si_duration_s :: f64
  si_is_sync :: bool

record track_samples =
  ts_pts_start_s :: "f64 option"
  ts_data :: bytes
  ts_samples :: "sample_info list"

record segment =
  sg_starts_with_keyframe :: bool
  sg_pts_start_s :: f64
  sg_duration_s :: f64
  sg_data :: bytes
  sg_samples :: "sample_info list"
  sg_audio :: "track_samples list"

datatype slice_error = SampleByteRangeOverflow | SampleExceedsTrackData

text \<open>
  The iterator of \<open>slice_samples\<close>: one result per sample.  On overflow of the running offset
  the code leaves \<open>offset\<close> as it was, and the closure's \<open>?\<close> yields that sample's error.
\<close>

fun slice_samples_from :: "nat \<Rightarrow> bytes \<Rightarrow> sample_info list \<Rightarrow> (slice_error + bytes) list" where
  "slice_samples_from off data [] = []"
| "slice_samples_from off data (s # ss) =
     (case checked_add_usize off (unat (si_size s)) of
        None \<Rightarrow> Inl SampleByteRangeOverflow # slice_samples_from off data ss
      | Some off' \<Rightarrow>
          (case get_range data off off' of None \<Rightarrow> Inl SampleExceedsTrackData | Some b \<Rightarrow> Inr b)
          # slice_samples_from off' data ss)"

definition slice_samples :: "bytes \<Rightarrow> sample_info list \<Rightarrow> (slice_error + bytes) list" where
  "slice_samples data samples = slice_samples_from 0 data samples"

definition track_sample_slices :: "track_samples \<Rightarrow> (slice_error + bytes) list" where
  "track_sample_slices t = slice_samples (ts_data t) (ts_samples t)"

definition segment_sample_slices :: "segment \<Rightarrow> (slice_error + bytes) list" where
  "segment_sample_slices s = slice_samples (sg_data s) (sg_samples s)"

definition segment_pts_end_s :: "segment \<Rightarrow> f64" where
  "segment_pts_end_s s = fadd (sg_pts_start_s s) (sg_duration_s s)"

definition segment_byte_len :: "segment \<Rightarrow> nat" where
  "segment_byte_len s = length (sg_data s) + sum_list (map (length \<circ> ts_data) (sg_audio s))"

section \<open>Slicing is the inverse of concatenation\<close>

text \<open>The index of a list of sample payloads.\<close>

definition indexes :: "sample_info list \<Rightarrow> bytes list \<Rightarrow> bool" where
  "indexes ss bs \<longleftrightarrow> map (unat \<circ> si_size) ss = map length bs"

lemma indexes_Cons:
  "indexes (s # ss) bs \<longleftrightarrow> (\<exists>b bs'. bs = b # bs' \<and> unat (si_size s) = length b \<and> indexes ss bs')"
  by (cases bs) (auto simp: indexes_def)

lemma slice_samples_from_indexes:
  "indexes ss bs \<Longrightarrow> length pre + length (concat bs) \<le> usize_max \<Longrightarrow>
     slice_samples_from (length pre) (pre @ concat bs @ suf) ss = map Inr bs"
proof (induction ss arbitrary: pre bs)
  case Nil
  then show ?case by (simp add: indexes_def)
next
  case (Cons s ss)
  from Cons.prems(1) obtain b bs' where b: "bs = b # bs'" "unat (si_size s) = length b" "indexes ss bs'"
    by (auto simp: indexes_Cons)
  have "slice_samples_from (length (pre @ b)) ((pre @ b) @ concat bs' @ suf) ss = map Inr bs'"
    using Cons.prems b by (intro Cons.IH) auto
  then show ?case
    using Cons.prems b slice_middle [of pre b "concat bs' @ suf"]
    by (simp add: checked_add_usize_def get_range_def)
qed

lemma slice_samples_indexes:
  assumes "indexes ss bs" "length (concat bs) \<le> usize_max"
  shows "slice_samples (concat bs) ss = map Inr bs"
  using slice_samples_from_indexes [of ss bs "[]" "[]"] assms by (simp add: slice_samples_def)

lemma length_slice_samples_from [simp]: "length (slice_samples_from off data ss) = length ss"
  by (induction ss arbitrary: off) (auto split: option.splits)

text \<open>A successful slicing reads the payload front to back, each sample at its recorded size.\<close>

lemma slice_samples_from_ok:
  "slice_samples_from off data ss = map Inr bs \<Longrightarrow> off \<le> length data \<Longrightarrow>
     indexes ss bs \<and> concat bs = take (length (concat bs)) (drop off data)
       \<and> off + length (concat bs) \<le> length data"
proof (induction ss arbitrary: off bs)
  case Nil
  then show ?case by (simp add: indexes_def)
next
  case (Cons s ss)
  let ?off = "off + unat (si_size s)"
  from Cons.prems obtain b bs' where b: "bs = b # bs'"
    and r: "get_range data off ?off = Some b"
    and rest: "slice_samples_from ?off data ss = map Inr bs'"
    by (cases bs) (auto simp: checked_add_usize_def split: option.splits if_splits)
  from r have off: "?off \<le> length data" and bb: "b = slice off ?off data"
    by (auto simp: get_range_def split: if_splits)
  from Cons.IH [OF rest off] have IH: "indexes ss bs'"
    "concat bs' = take (length (concat bs')) (drop ?off data)"
    "?off + length (concat bs') \<le> length data" by auto
  have lb: "length b = unat (si_size s)" using bb off by simp
  have "b @ concat bs' = take (length b + length (concat bs')) (drop off data)"
    unfolding take_add using IH(2) bb lb by (simp add: slice_def add.commute)
  with IH b lb show ?case by (simp add: indexes_def)
qed

end
