(* ===== verification/Planning.thy ===== *)
theory Planning
  imports Segment
begin

text \<open>
  Replay-window selection and eviction planning (crates/clipline-buffer/src/planning.rs).  The
  trait \<open>ReplayWindowSegment\<close> is a record of its four methods, passed as the first argument of
  the generic functions; its two implementations are given where the segment types are declared.
\<close>

record 'a window_ops =
  wo_starts_with_keyframe :: "'a \<Rightarrow> bool"
  wo_pts_start_s :: "'a \<Rightarrow> f64"
  wo_pts_end_s :: "'a \<Rightarrow> f64"
  wo_byte_len :: "'a \<Rightarrow> nat"

definition segment_ops :: "segment window_ops" where
  "segment_ops = \<lparr>wo_starts_with_keyframe = sg_starts_with_keyframe,
     wo_pts_start_s = sg_pts_start_s, wo_pts_end_s = segment_pts_end_s,
     wo_byte_len = segment_byte_len\<rparr>"

section \<open>Choosing the start of a saved window\<close>

text \<open>\<open>while i < xs.len() && p(xs[i]) { i += 1 }\<close>\<close>

function skip_while :: "('a \<Rightarrow> bool) \<Rightarrow> 'a list \<Rightarrow> nat \<Rightarrow> nat" where
  "skip_while p xs i = (if i < length xs \<and> p (xs ! i) then skip_while p xs (Suc i) else i)"
  by pat_completeness auto
termination
  by (relation "measure (\<lambda>(p, xs, i). length xs - i)") auto

declare skip_while.simps [simp del]

definition start_target :: "'a window_ops \<Rightarrow> 'a list \<Rightarrow> f64 \<Rightarrow> f64 option \<Rightarrow> f64" where
  "start_target T segs window_s exclude =
     (let t = fsub (wo_pts_end_s T (last segs)) window_s
      in case exclude of None \<Rightarrow> t | Some e \<Rightarrow> fmax t e)"

definition replay_window_start_index ::
  "'a window_ops \<Rightarrow> 'a list \<Rightarrow> f64 \<Rightarrow> f64 option \<Rightarrow> nat option" where
  "replay_window_start_index T segs window_s exclude =
     (if segs = [] then None else
      let target = start_target T segs window_s exclude;
          found = (case last_index (\<lambda>s. wo_starts_with_keyframe T s \<and> fle (wo_pts_start_s T s) target) segs
                   of Some i \<Rightarrow> Some i | None \<Rightarrow> position (wo_starts_with_keyframe T) segs)
      in case found of None \<Rightarrow> None
         | Some i \<Rightarrow>
             let j = (case exclude of None \<Rightarrow> i
                      | Some e \<Rightarrow> skip_while (\<lambda>s. \<not> wo_starts_with_keyframe T s) segs
                                   (skip_while (\<lambda>s. fle (wo_pts_end_s T s) e) segs i))
             in if j < length segs then Some j else None)"

text \<open>The body of both rings' \<open>save_window\<close>.\<close>

definition window_from :: "'a window_ops \<Rightarrow> 'a list \<Rightarrow> f64 \<Rightarrow> f64 option \<Rightarrow> 'a list" where
  "window_from T segs window_s exclude =
     (case replay_window_start_index T segs window_s exclude of None \<Rightarrow> [] | Some i \<Rightarrow> drop i segs)"

section \<open>Planning an eviction\<close>

fun eviction_loop :: "nat list \<Rightarrow> nat \<Rightarrow> nat \<Rightarrow> nat" where
  "eviction_loop [] committed max_bytes = 0"
| "eviction_loop (sz # sizes) committed max_bytes =
     (if committed \<le> max_bytes then 0 else Suc (eviction_loop sizes (committed - sz) max_bytes))"

definition eviction_count :: "nat list \<Rightarrow> nat \<Rightarrow> nat \<Rightarrow> nat \<Rightarrow> nat" where
  "eviction_count sizes current_bytes incoming_bytes max_bytes =
     eviction_loop sizes (saturating_add_usize current_bytes incoming_bytes) max_bytes"

definition by_duration :: "'a window_ops \<Rightarrow> 'a list \<Rightarrow> 'a \<Rightarrow> f64 \<Rightarrow> nat" where
  "by_duration T segs incoming retention_s =
     (if is_finite retention_s then
        let cutoff = fsub (wo_pts_end_s T incoming) (fmax retention_s (Fin 0))
        in if wo_starts_with_keyframe T incoming \<and> fle (wo_pts_start_s T incoming) cutoff
           then length segs
           else case last_index (\<lambda>s. wo_starts_with_keyframe T s \<and> fle (wo_pts_start_s T s) cutoff) segs
                of Some i \<Rightarrow> i | None \<Rightarrow> 0
      else 0)"

definition eviction_plan :: "'a window_ops \<Rightarrow> 'a list \<Rightarrow> nat \<Rightarrow> 'a \<Rightarrow> nat \<Rightarrow> f64 \<Rightarrow> nat" where
  "eviction_plan T segs current_bytes incoming max_bytes retention_s =
     (let by_bytes = eviction_count (map (wo_byte_len T) segs) current_bytes
            (wo_byte_len T incoming) max_bytes;
          by_dur = by_duration T segs incoming retention_s
      in if by_bytes \<le> by_dur then by_dur
         else case position (wo_starts_with_keyframe T) (drop by_bytes segs) of
             Some k \<Rightarrow> by_bytes + k
           | None \<Rightarrow> if wo_starts_with_keyframe T incoming then length segs else by_bytes)"

section \<open>Facts on the loops\<close>

lemma skip_while_ge: "i \<le> skip_while p xs i"
proof (induction p xs i rule: skip_while.induct)
  case (1 p xs i)
  then show ?case by (subst skip_while.simps) auto
qed

lemma skip_while_le: "i \<le> length xs \<Longrightarrow> skip_while p xs i \<le> length xs"
proof (induction p xs i rule: skip_while.induct)
  case (1 p xs i)
  then show ?case by (subst skip_while.simps) auto
qed

lemma skip_while_stop: "skip_while p xs i < length xs \<Longrightarrow> \<not> p (xs ! skip_while p xs i)"
proof (induction p xs i rule: skip_while.induct)
  case (1 p xs i)
  show ?case
  proof (cases "i < length xs \<and> p (xs ! i)")
    case True
    with 1 show ?thesis by (simp add: skip_while.simps [of p xs i])
  next
    case False
    with "1.prems" show ?thesis by (auto simp: skip_while.simps [of p xs i])
  qed
qed

lemma skip_while_drop:
  "n \<le> i \<Longrightarrow> n \<le> length xs \<Longrightarrow> skip_while p (drop n xs) (i - n) = skip_while p xs i - n"
proof (induction p xs i rule: skip_while.induct)
  case (1 p xs i)
  have nth: "i < length xs \<Longrightarrow> drop n xs ! (i - n) = xs ! i"
    using "1.prems" by (simp add: nth_drop)
  show ?case
  proof (cases "i < length xs \<and> p (xs ! i)")
    case True
    then have "skip_while p (drop n xs) (i - n) = skip_while p (drop n xs) (Suc i - n)"
      using nth "1.prems" by (subst skip_while.simps) (auto simp: Suc_diff_le)
    with 1 True show ?thesis by (simp add: skip_while.simps [of p xs i])
  next
    case False
    with nth "1.prems" show ?thesis
      by (auto simp: skip_while.simps [of p xs i] skip_while.simps [of p "drop n xs" "i - n"])
  qed
qed

lemma eviction_loop_le: "eviction_loop sizes c m \<le> length sizes"
  by (induction sizes c m rule: eviction_loop.induct) auto

text \<open>
  The byte plan is sufficient (unless everything is evicted) and minimal: no shorter prefix
  brings the ring under its budget.
\<close>

lemma eviction_loop_sufficient:
  "eviction_loop sizes c m < length sizes \<Longrightarrow>
     c - sum_list (take (eviction_loop sizes c m) sizes) \<le> m"
  by (induction sizes c m rule: eviction_loop.induct) (auto split: if_splits)

lemma eviction_loop_minimal:
  "k < eviction_loop sizes c m \<Longrightarrow> m < c - sum_list (take k sizes)"
proof (induction sizes c m arbitrary: k rule: eviction_loop.induct)
  case (1 c m)
  then show ?case by simp
next
  case (2 s sizes c m)
  then show ?case by (cases k) (auto split: if_splits)
qed

lemma eviction_count_le: "eviction_count sizes c i m \<le> length sizes"
  by (simp add: eviction_count_def eviction_loop_le)

lemma by_duration_le: "by_duration T segs inc r \<le> length segs"
  by (auto simp: by_duration_def Let_def last_index_Some_iff split: option.splits)

lemma eviction_plan_le: "eviction_plan T segs c inc m r \<le> length segs"
  using eviction_count_le [of "map (wo_byte_len T) segs" c "wo_byte_len T inc" m]
    by_duration_le [of T segs inc r]
  by (auto simp: eviction_plan_def Let_def position_Some_iff split: option.splits)

lemma eviction_plan_ge:
  "eviction_count (map (wo_byte_len T) segs) c (wo_byte_len T inc) m \<le> eviction_plan T segs c inc m r"
  using eviction_count_le [of "map (wo_byte_len T) segs" c "wo_byte_len T inc" m]
  by (auto simp: eviction_plan_def Let_def split: option.splits)

lemma sum_list_take_mono: "a \<le> b \<Longrightarrow> sum_list (take a xs) \<le> sum_list (take b (xs :: nat list))"
proof -
  assume "a \<le> b"
  then have "take b xs = take a xs @ take (b - a) (drop a xs)"
    by (metis le_add_diff_inverse take_add)
  then show ?thesis by simp
qed

text \<open>After an eviction the byte budget holds, unless only the incoming segment is left.\<close>

lemma eviction_plan_budget:
  assumes exact: "c = sum_list (map (wo_byte_len T) segs)"
    and fits: "c + wo_byte_len T inc \<le> usize_max"
    and n: "n = eviction_plan T segs c inc m r"
  shows "n = length segs \<or> sum_list (map (wo_byte_len T) (drop n segs)) + wo_byte_len T inc \<le> m"
proof (rule disjCI)
  let ?sizes = "map (wo_byte_len T) segs" and ?w = "wo_byte_len T inc"
  let ?b = "eviction_count ?sizes c ?w m"
  assume "\<not> sum_list (map (wo_byte_len T) (drop n segs)) + ?w \<le> m"
  moreover have "sum_list (map (wo_byte_len T) (drop n segs)) = c - sum_list (take n ?sizes)"
    using exact by (simp add: sum_list_drop_nat flip: drop_map)
  moreover have "sum_list (take n ?sizes) \<le> c"
    using exact by (simp add: sum_list_take_le)
  ultimately have "m < c + ?w - sum_list (take n ?sizes)" by linarith
  moreover have "sum_list (take ?b ?sizes) \<le> sum_list (take n ?sizes)"
    unfolding n by (intro sum_list_take_mono eviction_plan_ge)
  ultimately have "m < c + ?w - sum_list (take ?b ?sizes)" by linarith
  then have "\<not> ?b < length ?sizes"
    using eviction_loop_sufficient [of ?sizes "c + ?w" m] fits
    by (auto simp: eviction_count_def saturating_add_usize_def min_def)
  then have "length segs \<le> ?b" by simp
  also have "\<dots> \<le> n" unfolding n by (rule eviction_plan_ge)
  finally show "n = length segs" using eviction_plan_le [of T segs c inc m r] n by simp
qed

section \<open>Facts on saved windows\<close>

lemma window_from_keyframe:
  assumes "window_from T segs w ex \<noteq> []"
  shows "wo_starts_with_keyframe T (hd (window_from T segs w ex))"
proof -
  let ?key = "wo_starts_with_keyframe T"
  from assms obtain j where j: "replay_window_start_index T segs w ex = Some j"
    and win: "window_from T segs w ex = drop j segs"
    by (auto simp: window_from_def split: option.splits)
  from j have jl: "j < length segs"
    by (auto simp: replay_window_start_index_def Let_def split: if_splits option.splits)
  moreover from j jl have "?key (segs ! j)"
    using skip_while_stop [of "\<lambda>s. \<not> ?key s" segs]
    by (auto simp: replay_window_start_index_def Let_def last_index_Some_iff position_Some_iff
        split: if_splits option.splits)
  ultimately show ?thesis using win by (simp add: hd_drop_conv_nth)
qed

lemma window_from_suffix: "\<exists>pre. segs = pre @ window_from T segs w ex"
proof (cases "replay_window_start_index T segs w ex")
  case None
  then show ?thesis by (simp add: window_from_def)
next
  case (Some i)
  then have "segs = take i segs @ window_from T segs w ex" by (simp add: window_from_def)
  then show ?thesis by blast
qed

lemma window_from_empty:
  "window_from T segs w None = [] \<longleftrightarrow> (\<forall>s \<in> set segs. \<not> wo_starts_with_keyframe T s)"
  by (auto simp: window_from_def replay_window_start_index_def last_index_Some_iff position_Some_iff
      position_None_iff last_index_None_iff split: option.splits intro: nth_mem)

lemma window_from_covers:
  assumes key: "s \<in> set segs" "wo_starts_with_keyframe T s"
    and le: "fle (wo_pts_start_s T s) (fsub (wo_pts_end_s T (last segs)) w)"
  obtains i where "i < length segs" "window_from T segs w None = drop i segs"
    "wo_starts_with_keyframe T (segs ! i)"
    "fle (wo_pts_start_s T (segs ! i)) (fsub (wo_pts_end_s T (last segs)) w)"
    "\<And>j. i < j \<Longrightarrow> j < length segs \<Longrightarrow> wo_starts_with_keyframe T (segs ! j) \<Longrightarrow>
       \<not> fle (wo_pts_start_s T (segs ! j)) (fsub (wo_pts_end_s T (last segs)) w)"
proof -
  let ?p = "\<lambda>s. wo_starts_with_keyframe T s \<and>
    fle (wo_pts_start_s T s) (fsub (wo_pts_end_s T (last segs)) w)"
  have "last_index ?p segs \<noteq> None" using key le by (auto simp: last_index_None_iff)
  then obtain i where i: "last_index ?p segs = Some i" by auto
  then have "i < length segs" "?p (segs ! i)" "\<And>j. i < j \<Longrightarrow> j < length segs \<Longrightarrow> \<not> ?p (segs ! j)"
    by (auto simp: last_index_Some_iff)
  moreover from i \<open>i < length segs\<close> have "window_from T segs w None = drop i segs"
    by (auto simp: window_from_def replay_window_start_index_def start_target_def)
  ultimately show thesis using that by blast
qed

text \<open>Smart mode: with end times in order, nothing that ends at or before the limit is saved.\<close>

lemma window_from_exclude:
  assumes ordered: "sorted_wrt (\<lambda>a b. fle (wo_pts_end_s T a) (wo_pts_end_s T b)) segs"
    and s: "s \<in> set (window_from T segs w (Some e))"
  shows "\<not> fle (wo_pts_end_s T s) e"
proof -
  let ?past = "\<lambda>s. fle (wo_pts_end_s T s) e"
  from s obtain i k where
    k: "k = skip_while (\<lambda>s. \<not> wo_starts_with_keyframe T s) segs (skip_while ?past segs i)"
    and kl: "k < length segs" and sd: "s \<in> set (drop k segs)"
    by (auto simp: window_from_def replay_window_start_index_def Let_def
        split: if_splits option.splits)
  let ?i = "skip_while ?past segs i"
  have ik: "?i \<le> k" unfolding k by (rule skip_while_ge)
  from sd obtain m where m: "k \<le> m" "m < length segs" "s = segs ! m"
    using kl by (auto simp: in_set_conv_nth nth_drop) (metis add.commute le_add1 less_diff_conv)
  have stop: "\<not> ?past (segs ! ?i)" using ik kl by (intro skip_while_stop) simp
  show ?thesis
  proof (cases "?i = m")
    case True
    with stop m show ?thesis by simp
  next
    case False
    with ik m have "fle (wo_pts_end_s T (segs ! ?i)) (wo_pts_end_s T s)"
      using sorted_wrt_nth_less [OF ordered, of ?i m] by simp
    with stop show ?thesis by (blast intro: fle_trans)
  qed
qed

section \<open>Retention never hides footage from a save\<close>

lemma fsub_finite_not_nan: "x \<noteq> NaN \<Longrightarrow> is_finite y \<Longrightarrow> fsub x y \<noteq> NaN"
  by (cases y) (auto simp: fsub_def fadd_def fneg_def is_finite_def)

lemma is_finite_fmax: "is_finite x \<Longrightarrow> is_finite y \<Longrightarrow> is_finite (fmax x y)"
  by (auto simp: fmax_def)

lemma window_from_drop:
  assumes n: "n < length xs" and key: "wo_starts_with_keyframe T (xs ! n)"
    and le: "fle (wo_pts_start_s T (xs ! n)) (start_target T xs w ex)"
  shows "window_from T (drop n xs) w ex = window_from T xs w ex"
proof -
  let ?p = "\<lambda>s. wo_starts_with_keyframe T s \<and> fle (wo_pts_start_s T s) (start_target T xs w ex)"
  have tgt: "start_target T (drop n xs) w x = start_target T xs w x" for x
    using n by (simp add: start_target_def last_drop)
  have "last_index ?p xs \<noteq> None"
    using n key le nth_mem [OF n] unfolding last_index_None_iff by blast
  then obtain i where i: "last_index ?p xs = Some i" by blast
  then have ni: "n \<le> i" "i < length xs"
    using n key le by (auto simp: last_index_Some_iff not_less [symmetric])
  have "last_index ?p (drop n xs) = Some (i - n)"
    using i ni by (auto simp: last_index_Some_iff nth_drop)
  note idx = this i
  let ?f = "\<lambda>ys k e. skip_while (\<lambda>s. \<not> wo_starts_with_keyframe T s) ys
      (skip_while (\<lambda>s. fle (wo_pts_end_s T s) e) ys k)"
  have skip: "?f (drop n xs) (i - n) e = ?f xs i e - n" "n \<le> ?f xs i e" for e
    using ni skip_while_ge [of i "\<lambda>s. fle (wo_pts_end_s T s) e" xs]
      skip_while_ge [of "skip_while (\<lambda>s. fle (wo_pts_end_s T s) e) xs i"
        "\<lambda>s. \<not> wo_starts_with_keyframe T s" xs]
    by (simp_all add: skip_while_drop)
  show ?thesis
  proof (cases ex)
    case None
    with idx ni n show ?thesis
      by (simp add: window_from_def replay_window_start_index_def tgt)
  next
    case (Some e)
    have "?f (drop n xs) (i - n) e < length (drop n xs) \<longleftrightarrow> ?f xs i e < length xs"
      using skip n by (simp add: less_diff_conv2)
    with Some idx n skip show ?thesis
      by (simp add: window_from_def replay_window_start_index_def tgt)
  qed
qed

text \<open>A positive retention count points at a keyframe at or before the cutoff.\<close>

lemma by_duration_keyframe:
  assumes n: "n = by_duration T segs inc r" "n \<noteq> 0"
    and cutoff: "cutoff = fsub (wo_pts_end_s T inc) (fmax r (Fin 0))"
  shows "is_finite r \<and> n < length (segs @ [inc]) \<and> wo_starts_with_keyframe T ((segs @ [inc]) ! n)
    \<and> fle (wo_pts_start_s T ((segs @ [inc]) ! n)) cutoff"
proof -
  let ?p = "\<lambda>s. wo_starts_with_keyframe T s \<and> fle (wo_pts_start_s T s) cutoff"
  have fin: "is_finite r" using n by (auto simp: by_duration_def split: if_splits)
  then have eq: "n = (if ?p inc then length segs
      else case last_index ?p segs of Some i \<Rightarrow> i | None \<Rightarrow> 0)"
    using n(1) by (simp add: by_duration_def Let_def cutoff)
  show ?thesis
  proof (cases "?p inc")
    case True
    with fin eq show ?thesis by simp
  next
    case False
    with eq n(2) have "last_index ?p segs = Some n" by (auto split: option.splits)
    with fin show ?thesis by (auto simp: last_index_Some_iff nth_append)
  qed
qed

text \<open>
  An eviction leaves a ring that starts with a keyframe, whenever a keyframe is left at all.
\<close>

lemma eviction_plan_decodable:
  assumes n: "n = eviction_plan T segs c inc m r" and pos: "0 < n"
  shows "wo_starts_with_keyframe T (hd (drop n (segs @ [inc])))
    \<or> (\<forall>s \<in> set (drop n (segs @ [inc])). \<not> wo_starts_with_keyframe T s)"
proof -
  let ?key = "wo_starts_with_keyframe T" and ?xs = "segs @ [inc]"
  let ?b = "eviction_count (map (wo_byte_len T) segs) c (wo_byte_len T inc) m"
  let ?d = "by_duration T segs inc r"
  have nl: "n \<le> length segs" using n by (simp add: eviction_plan_le)
  have hd: "hd (drop n ?xs) = ?xs ! n" using nl by (subst hd_drop_conv_nth) auto
  show ?thesis
  proof (cases "?b \<le> ?d")
    case True
    then have "n = ?d" using n by (simp add: eviction_plan_def Let_def)
    then show ?thesis using by_duration_keyframe [of n T segs inc r] pos hd by simp
  next
    case False
    with n have eq: "n = (case position ?key (drop ?b segs) of Some k \<Rightarrow> ?b + k
        | None \<Rightarrow> if ?key inc then length segs else ?b)"
      by (simp add: eviction_plan_def Let_def)
    have bl: "?b \<le> length segs" using eviction_count_le [of "map (wo_byte_len T) segs"] by simp
    show ?thesis
    proof (cases "position ?key (drop ?b segs)")
      case None
      with eq bl hd show ?thesis by (cases "?key inc") (auto simp: position_None_iff)
    next
      case (Some k)
      then have "k < length segs - ?b" "?key (segs ! (?b + k))"
        by (auto simp: position_Some_iff)
      with eq Some hd show ?thesis by (simp add: nth_append)
    qed
  qed
qed

text \<open>What the retention limit evicts, no save within the retention would have returned.\<close>

lemma retention_transparent:
  assumes fin: "is_finite w" and wr: "fle w r"
    and n: "n = by_duration T segs inc r"
  shows "window_from T (drop n segs @ [inc]) w ex = window_from T (segs @ [inc]) w ex"
proof (cases "n = 0")
  case True
  then show ?thesis by simp
next
  case False
  let ?xs = "segs @ [inc]"
  define cutoff where "cutoff = fsub (wo_pts_end_s T inc) (fmax r (Fin 0))"
  have nth: "n < length ?xs" "wo_starts_with_keyframe T (?xs ! n)"
    "fle (wo_pts_start_s T (?xs ! n)) cutoff"
    using by_duration_keyframe [OF n False cutoff_def] by auto
  have cn: "cutoff \<noteq> NaN" using nth(3) by (auto simp: fle_def)
  have en: "wo_pts_end_s T inc \<noteq> NaN"
    using cn by (auto simp: cutoff_def fsub_def fadd_def)
  have "fle w (fmax r (Fin 0))"
    using wr fle_fmax1 [of r "Fin 0"] by (auto intro: fle_trans dest: fle_not_nan)
  then have base: "fle cutoff (fsub (wo_pts_end_s T inc) w)"
    using cn en fin unfolding cutoff_def
    by (intro fsub_antimono_right) (simp_all add: fsub_finite_not_nan)
  then have "fle cutoff (start_target T ?xs w ex)"
    using fle_fmax1 [of "fsub (wo_pts_end_s T inc) w"] fle_not_nan [OF base]
    by (auto simp: start_target_def Let_def split: option.splits intro: fle_trans)
  with nth have "fle (wo_pts_start_s T (?xs ! n)) (start_target T ?xs w ex)"
    by (blast intro: fle_trans)
  with nth have "window_from T (drop n ?xs) w ex = window_from T ?xs w ex"
    by (intro window_from_drop) auto
  then show ?thesis using nth(1) by simp
qed

end
