(* ===== verification/Replay_Cache.thy ===== *)
theory Replay_Cache
  imports Planning
begin

text \<open>
  The contract the in-memory ring and the disk ring share, as the recorder relies on it: a push
  evicts the planned prefix and appends, the byte counter follows, and a save reads the window
  the planner chose.  What a client may conclude from the contract is proved here once, and both
  rings are interpretations.
\<close>

locale replay_cache =
  fixes T :: "'a window_ops"
    and segs :: "'r \<Rightarrow> 'a list"
    and bytes :: "'r \<Rightarrow> nat"
    and budget :: "'r \<Rightarrow> nat"
    and retention :: "'r \<Rightarrow> f64"
    and pushed :: "'r \<Rightarrow> 'a \<Rightarrow> 'r \<Rightarrow> bool"
    and saved :: "'r \<Rightarrow> f64 \<Rightarrow> f64 option \<Rightarrow> 'a list"
  assumes pushed_segs: "pushed r s r' \<Longrightarrow>
      segs r' = drop (eviction_plan T (segs r) (bytes r) s (budget r) (retention r)) (segs r) @ [s]"
    and pushed_bytes: "pushed r s r' \<Longrightarrow>
      bytes r' = saturating_add_usize
        (bytes r - sum_list (map (wo_byte_len T)
           (take (eviction_plan T (segs r) (bytes r) s (budget r) (retention r)) (segs r))))
        (wo_byte_len T s)"
    and pushed_config: "pushed r s r' \<Longrightarrow> budget r' = budget r \<and> retention r' = retention r"
    and saved_window: "saved r w ex = window_from T (segs r) w ex"
begin

lemma push_exact:
  assumes p: "pushed r s r'" and exact: "bytes r = sum_list (map (wo_byte_len T) (segs r))"
    and fits: "bytes r + wo_byte_len T s \<le> usize_max"
  shows "bytes r' = sum_list (map (wo_byte_len T) (segs r'))"
proof -
  let ?n = "eviction_plan T (segs r) (bytes r) s (budget r) (retention r)"
  have "sum_list (map (wo_byte_len T) (drop ?n (segs r)))
      = bytes r - sum_list (map (wo_byte_len T) (take ?n (segs r)))"
    by (simp add: exact sum_list_drop_nat flip: drop_map take_map)
  moreover have "bytes r - x + wo_byte_len T s \<le> usize_max" for x
    using fits by linarith
  ultimately show ?thesis
    using pushed_segs [OF p] pushed_bytes [OF p]
    by (simp add: saturating_add_usize_def min_absorb1)
qed

lemma push_budget:
  assumes p: "pushed r s r'" and exact: "bytes r = sum_list (map (wo_byte_len T) (segs r))"
    and fits: "bytes r + wo_byte_len T s \<le> usize_max"
  shows "bytes r' \<le> budget r' \<or> segs r' = [s]"
  using eviction_plan_budget [OF exact fits refl, of "budget r" "retention r"]
    pushed_segs [OF p] push_exact [OF p exact fits] pushed_config [OF p]
  by auto

lemma push_newest: "pushed r s r' \<Longrightarrow> segs r' \<noteq> [] \<and> last (segs r') = s"
  by (simp add: pushed_segs)

lemma push_keeps_order: "pushed r s r' \<Longrightarrow> \<exists>old. segs r @ [s] = old @ segs r'"
  using pushed_segs [of r s r'] append_take_drop_id
  by (metis append.assoc)

text \<open>Unless the byte budget forces more, a push changes no save within the retention window.\<close>

lemma push_keeps_saves:
  assumes p: "pushed r s r'" and w: "is_finite w" "fle w (retention r)"
    and quiet: "eviction_count (map (wo_byte_len T) (segs r)) (bytes r) (wo_byte_len T s) (budget r)
      \<le> by_duration T (segs r) s (retention r)"
  shows "saved r' w ex = window_from T (segs r @ [s]) w ex"
proof -
  have "eviction_plan T (segs r) (bytes r) s (budget r) (retention r)
      = by_duration T (segs r) s (retention r)"
    using quiet by (simp add: eviction_plan_def Let_def)
  then show ?thesis
    using retention_transparent [OF w refl, of T "segs r" s ex] pushed_segs [OF p]
    by (simp add: saved_window)
qed

text \<open>A push that evicts leaves a decodable front, if anything decodable is left.\<close>

lemma push_decodable:
  assumes p: "pushed r s r'"
  shows "segs r' = segs r @ [s] \<or> wo_starts_with_keyframe T (hd (segs r'))
    \<or> (\<forall>x \<in> set (segs r'). \<not> wo_starts_with_keyframe T x)"
proof -
  let ?n = "eviction_plan T (segs r) (bytes r) s (budget r) (retention r)"
  have "segs r' = drop ?n (segs r @ [s])"
    using pushed_segs [OF p] by (simp add: eviction_plan_le)
  with eviction_plan_decodable [OF refl, of T "segs r" "bytes r" s "budget r" "retention r"]
  show ?thesis by (cases "?n = 0") auto
qed

lemma saved_decodable: "saved r w ex \<noteq> [] \<Longrightarrow> wo_starts_with_keyframe T (hd (saved r w ex))"
  by (simp add: saved_window window_from_keyframe)

lemma saved_suffix: "\<exists>pre. segs r = pre @ saved r w ex"
  by (simp add: saved_window window_from_suffix)

lemma saved_excludes:
  "sorted_wrt (\<lambda>a b. fle (wo_pts_end_s T a) (wo_pts_end_s T b)) (segs r) \<Longrightarrow>
     s \<in> set (saved r w (Some e)) \<Longrightarrow> \<not> fle (wo_pts_end_s T s) e"
  by (simp add: saved_window window_from_exclude)

end

end
