(* ===== verification/Ring.thy ===== *)
theory Ring
  imports Replay_Cache
begin

text \<open>
  The in-memory replay ring (crates/clipline-buffer/src/ring.rs): its state, its operations, the
  interpretation of the cache contract, and the invariants of every reachable ring.
\<close>

record replay_ring =
  rr_max_bytes :: nat
  rr_retention_s :: f64
  rr_segments :: "segment list"
  rr_bytes :: nat

definition ring_with_retention :: "nat \<Rightarrow> f64 \<Rightarrow> replay_ring" where
  "ring_with_retention max_bytes retention_s =
     \<lparr>rr_max_bytes = max_bytes, rr_retention_s = retention_s, rr_segments = [], rr_bytes = 0\<rparr>"

definition ring_new :: "nat \<Rightarrow> replay_ring" where
  "ring_new max_bytes = ring_with_retention max_bytes (Infinity False)"

lemma ring_with_retention_simps [simp]:
  "rr_max_bytes (ring_with_retention m ret) = m"
  "rr_retention_s (ring_with_retention m ret) = ret"
  "rr_segments (ring_with_retention m ret) = []"
  "rr_bytes (ring_with_retention m ret) = 0"
  by (simp_all add: ring_with_retention_def)

text \<open>One iteration of the eviction loop: \<open>if let Some(front) = pop_front() { ... }\<close>.\<close>

definition ring_pop_front :: "replay_ring \<Rightarrow> replay_ring" where
  "ring_pop_front r = (case rr_segments r of [] \<Rightarrow> r
     | front # rest \<Rightarrow> r\<lparr>rr_segments := rest, rr_bytes := rr_bytes r - segment_byte_len front\<rparr>)"

definition ring_push_shared :: "replay_ring \<Rightarrow> segment \<Rightarrow> replay_ring" where
  "ring_push_shared r seg =
     (let incoming_bytes = segment_byte_len seg;
          evict = eviction_plan segment_ops (rr_segments r) (rr_bytes r) seg (rr_max_bytes r)
                    (rr_retention_s r);
          r1 = (ring_pop_front ^^ evict) r
      in r1\<lparr>rr_bytes := saturating_add_usize (rr_bytes r1) incoming_bytes,
            rr_segments := rr_segments r1 @ [seg]\<rparr>)"

definition ring_push :: "replay_ring \<Rightarrow> segment \<Rightarrow> replay_ring" where
  "ring_push r seg = ring_push_shared r seg"

definition ring_len :: "replay_ring \<Rightarrow> nat" where
  "ring_len r = length (rr_segments r)"

definition ring_is_empty :: "replay_ring \<Rightarrow> bool" where
  "ring_is_empty r = (rr_segments r = [])"

definition ring_save_window :: "replay_ring \<Rightarrow> f64 \<Rightarrow> f64 option \<Rightarrow> segment list" where
  "ring_save_window r window_s exclude =
     (case replay_window_start_index segment_ops (rr_segments r) window_s exclude of
        None \<Rightarrow> [] | Some idx \<Rightarrow> drop idx (rr_segments r))"

definition ring_push_all :: "replay_ring \<Rightarrow> segment list \<Rightarrow> replay_ring" where
  "ring_push_all r ss = foldl ring_push r ss"

section \<open>The ring is a replay cache\<close>

lemma ring_pop_front_n:
  "n \<le> length (rr_segments r) \<Longrightarrow> (ring_pop_front ^^ n) r =
     r\<lparr>rr_segments := drop n (rr_segments r),
       rr_bytes := rr_bytes r - sum_list (map segment_byte_len (take n (rr_segments r)))\<rparr>"
proof (induction n)
  case 0
  then show ?case by simp
next
  case (Suc n)
  then have "drop n (rr_segments r) = rr_segments r ! n # drop (Suc n) (rr_segments r)"
    by (simp add: Cons_nth_drop_Suc)
  with Suc show ?case
    by (simp add: ring_pop_front_def take_Suc_conv_app_nth)
qed

lemma segment_ops_simps [simp]:
  "wo_starts_with_keyframe segment_ops = sg_starts_with_keyframe"
  "wo_pts_start_s segment_ops = sg_pts_start_s"
  "wo_pts_end_s segment_ops = segment_pts_end_s"
  "wo_byte_len segment_ops = segment_byte_len"
  by (simp_all add: segment_ops_def)

interpretation mem: replay_cache segment_ops rr_segments rr_bytes rr_max_bytes rr_retention_s
  "\<lambda>r s r'. r' = ring_push r s" ring_save_window
  by unfold_locales
    (simp_all add: ring_push_def ring_push_shared_def Let_def ring_pop_front_n eviction_plan_le
      ring_save_window_def window_from_def)

lemma ring_push_sorted:
  assumes "sorted_wrt P (rr_segments r @ [s])"
  shows "sorted_wrt P (rr_segments (ring_push r s))"
  using assms mem.push_keeps_order [OF refl, of r s] by (metis sorted_wrt_append)

section \<open>Reachable rings\<close>

definition ring_exact :: "replay_ring \<Rightarrow> bool" where
  "ring_exact r \<longleftrightarrow> rr_bytes r = sum_list (map segment_byte_len (rr_segments r))"

definition ring_bounded :: "replay_ring \<Rightarrow> bool" where
  "ring_bounded r \<longleftrightarrow> rr_bytes r \<le> rr_max_bytes r \<or> length (rr_segments r) \<le> 1"

lemma ring_push_invariants:
  assumes "ring_exact r" "rr_bytes r + segment_byte_len s \<le> usize_max"
  shows "ring_exact (ring_push r s) \<and> ring_bounded (ring_push r s)"
  using assms mem.push_exact [OF refl, of r s] mem.push_budget [OF refl, of r s]
  by (auto simp: ring_exact_def ring_bounded_def)

lemma ring_exact_bytes_le:
  assumes "ring_exact r" "rr_segments r = rest" "sum_list (map segment_byte_len rest) \<le> b"
  shows "rr_bytes r \<le> b"
  using assms by (simp add: ring_exact_def)

lemma ring_push_all_invariants:
  "ring_exact r \<Longrightarrow> ring_bounded r \<Longrightarrow>
     rr_bytes r + sum_list (map segment_byte_len ss) \<le> usize_max \<Longrightarrow>
     ring_exact (ring_push_all r ss) \<and> ring_bounded (ring_push_all r ss)
       \<and> (\<exists>old. rr_segments r @ ss = old @ rr_segments (ring_push_all r ss))"
proof (induction ss arbitrary: r)
  case Nil
  then show ?case by (simp add: ring_push_all_def)
next
  case (Cons s ss)
  let ?r = "ring_push r s"
  have inv: "ring_exact ?r \<and> ring_bounded ?r"
    using Cons.prems by (intro ring_push_invariants) auto
  obtain old where old: "rr_segments r @ [s] = old @ rr_segments ?r"
    using mem.push_keeps_order [OF refl, of r s] by auto
  have "sum_list (map segment_byte_len (rr_segments r @ [s]))
      = sum_list (map segment_byte_len (old @ rr_segments ?r))"
    by (simp only: old)
  then have "rr_bytes ?r \<le> rr_bytes r + segment_byte_len s"
    using inv Cons.prems(1) by (simp add: ring_exact_def)
  with Cons.prems inv obtain old' where rest: "ring_exact (ring_push_all ?r ss)"
    "ring_bounded (ring_push_all ?r ss)"
    "rr_segments ?r @ ss = old' @ rr_segments (ring_push_all ?r ss)"
    using Cons.IH [of ?r] by auto
  have eq: "ring_push_all r (s # ss) = ring_push_all ?r ss"
    by (simp add: ring_push_all_def)
  have "rr_segments r @ s # ss = old @ rr_segments ?r @ ss"
    using old by (metis append.assoc append_Cons append_Nil)
  also have "\<dots> = (old @ old') @ rr_segments (ring_push_all ?r ss)"
    using rest(3) by simp
  finally show ?case using rest(1,2) eq by auto
qed

lemma ring_push_all_config: "rr_max_bytes (ring_push_all r ss) = rr_max_bytes r"
proof (induction ss arbitrary: r)
  case (Cons s ss)
  then show ?case using mem.pushed_config [OF refl, of r s] by (simp add: ring_push_all_def)
qed (simp add: ring_push_all_def)

end
