(* ===== verification/Disk_Ring.thy ===== *)
theory Disk_Ring
  imports Ring
begin

text \<open>
  The disk replay ring (crates/clipline-buffer/src/disk.rs) over a file system that maps paths to
  contents.  Every I/O call of \<open>push_ref\<close> may fail: the environment says which ones do, what a
  failed write left behind, and whether the clean-up of \<open>OwnedFile\<close> succeeds.  The ring is shown
  to implement the in-memory ring, and to stay consistent with its files on every error path.
\<close>

type_synonym path = "string list"
type_synonym file_system = "path \<rightharpoonup> bytes"

record disk_track =
  dt_pts_start_s :: "f64 option"
  dt_offset :: nat
  dt_len :: nat
  dt_samples :: "sample_info list"

record disk_segment =
  ds_starts_with_keyframe :: bool
  ds_pts_start_s :: f64
  ds_duration_s :: f64
  ds_path :: path
  ds_byte_len :: nat
  ds_video_len :: nat
  ds_samples :: "sample_info list"
  ds_audio :: "disk_track list"

record disk_ring =
  dr_max_bytes :: nat
  dr_retention_s :: f64
  dr_dir :: path
  dr_segments :: "disk_segment list"
  dr_bytes :: nat
  dr_next_id :: nat

datatype io_error = CreateFailed | WriteFailed | FlushFailed | RenameFailed | RemoveFailed

text \<open>
  What the operating system does during one push: whether the temporary file is created, the
  contents left by a failed write (\<open>None\<close> when all writes succeed), whether flush and rename
  succeed, which of the eviction's removals succeed, and whether the clean-up removal does.
\<close>

record io_env =
  env_create :: bool
  env_write_fails :: "bytes option"
  env_flush :: bool
  env_rename :: bool
  env_remove :: "nat \<Rightarrow> bool"
  env_cleanup :: bool

section \<open>Segment file names\<close>

text \<open>\<open>format!("seg_{id:08}.bin")\<close> and the temporary name.\<close>

definition pad8 :: "nat \<Rightarrow> string" where
  "pad8 n = replicate (8 - length (decimal n)) (digit_char 0) @ decimal n"

definition seg_bin :: "path \<Rightarrow> nat \<Rightarrow> path" where
  "seg_bin dir n = dir @ [''seg_'' @ pad8 n @ ''.bin'']"

definition seg_tmp :: "path \<Rightarrow> nat \<Rightarrow> path" where
  "seg_tmp dir n = dir @ [''seg_'' @ pad8 n @ ''.tmp'']"

lemma pad8_inj [simp]: "pad8 m = pad8 n \<longleftrightarrow> m = n"
  by (metis pad8_def undecimal_decimal undecimal_zeros)

lemma seg_path_simps [simp]:
  "seg_bin d m = seg_bin d n \<longleftrightarrow> m = n" "seg_bin d m \<noteq> seg_tmp d n" "seg_tmp d m \<noteq> seg_bin d n"
  by (auto simp: seg_bin_def seg_tmp_def)

section \<open>Operations\<close>

text \<open>Offsets of the audio tracks, as the write loop accumulates them.\<close>

fun disk_layout :: "nat \<Rightarrow> track_samples list \<Rightarrow> disk_track list" where
  "disk_layout offset [] = []"
| "disk_layout offset (t # ts) =
     \<lparr>dt_pts_start_s = ts_pts_start_s t, dt_offset = offset, dt_len = length (ts_data t),
      dt_samples = ts_samples t\<rparr> # disk_layout (offset + length (ts_data t)) ts"

definition payload_of :: "segment \<Rightarrow> bytes" where
  "payload_of s = sg_data s @ concat (map ts_data (sg_audio s))"

definition stored_segment :: "path \<Rightarrow> segment \<Rightarrow> disk_segment" where
  "stored_segment path s =
     \<lparr>ds_starts_with_keyframe = sg_starts_with_keyframe s, ds_pts_start_s = sg_pts_start_s s,
      ds_duration_s = sg_duration_s s, ds_path = path, ds_byte_len = segment_byte_len s,
      ds_video_len = length (sg_data s), ds_samples = sg_samples s,
      ds_audio = disk_layout (length (sg_data s)) (sg_audio s)\<rparr>"

definition disk_pts_end_s :: "disk_segment \<Rightarrow> f64" where
  "disk_pts_end_s d = fadd (ds_pts_start_s d) (ds_duration_s d)"

definition disk_ops :: "disk_segment window_ops" where
  "disk_ops = \<lparr>wo_starts_with_keyframe = ds_starts_with_keyframe,
     wo_pts_start_s = ds_pts_start_s, wo_pts_end_s = disk_pts_end_s, wo_byte_len = ds_byte_len\<rparr>"

text \<open>\<open>Drop for OwnedFile\<close>: an armed owner removes its file, ignoring a failure.\<close>

definition drop_owned :: "io_env \<Rightarrow> path \<Rightarrow> file_system \<Rightarrow> file_system" where
  "drop_owned env p fs = (if env_cleanup env then fs(p := None) else fs)"

fun evict_files ::
  "(nat \<Rightarrow> bool) \<Rightarrow> nat \<Rightarrow> nat \<Rightarrow> disk_ring \<Rightarrow> file_system
     \<Rightarrow> (disk_ring \<times> file_system) \<times> (io_error, unit) outcome" where
  "evict_files ok k 0 r fs = ((r, fs), Inr ())"
| "evict_files ok k (Suc n) r fs =
     (case dr_segments r of
        [] \<Rightarrow> ((r, fs), Inl Panic)
      | front # rest \<Rightarrow>
          if ok k \<and> fs (ds_path front) \<noteq> None
          then evict_files ok (Suc k) n
                 (r\<lparr>dr_segments := rest, dr_bytes := dr_bytes r - ds_byte_len front\<rparr>)
                 (fs(ds_path front := None))
          else ((r, fs), Inl (Err RemoveFailed)))"

definition disk_push_ref ::
  "io_env \<Rightarrow> disk_ring \<Rightarrow> file_system \<Rightarrow> segment
     \<Rightarrow> (disk_ring \<times> file_system) \<times> (io_error, unit) outcome" where
  "disk_push_ref env r fs seg =
     (let path = seg_bin (dr_dir r) (dr_next_id r);
          tmp = seg_tmp (dr_dir r) (dr_next_id r)
      in if \<not> env_create env then ((r, fs), Inl (Err CreateFailed))
         else case env_write_fails env of
           Some partial \<Rightarrow>
             ((r, drop_owned env tmp (fs(tmp \<mapsto> partial))), Inl (Err WriteFailed))
         | None \<Rightarrow>
           let fs1 = fs(tmp \<mapsto> payload_of seg)
           in if \<not> env_flush env then ((r, drop_owned env tmp fs1), Inl (Err FlushFailed))
              else if \<not> env_rename env then ((r, drop_owned env tmp fs1), Inl (Err RenameFailed))
              else
                let fs2 = fs1(path \<mapsto> payload_of seg, tmp := None);
                    stored = stored_segment path seg;
                    evict = eviction_plan disk_ops (dr_segments r) (dr_bytes r) stored
                              (dr_max_bytes r) (dr_retention_s r)
                in case evict_files (env_remove env) 0 evict r fs2 of
                     ((r1, fs3), Inl e) \<Rightarrow> ((r1, drop_owned env path fs3), Inl e)
                   | ((r1, fs3), Inr _) \<Rightarrow>
                       ((r1\<lparr>dr_bytes := saturating_add_usize (dr_bytes r1) (ds_byte_len stored),
                            dr_segments := dr_segments r1 @ [stored],
                            dr_next_id := dr_next_id r1 + 1\<rparr>, fs3), Inr ()))"

definition disk_save_window :: "disk_ring \<Rightarrow> f64 \<Rightarrow> f64 option \<Rightarrow> disk_segment list" where
  "disk_save_window r window_s exclude =
     (case replay_window_start_index disk_ops (dr_segments r) window_s exclude of
        None \<Rightarrow> [] | Some idx \<Rightarrow> drop idx (dr_segments r))"

definition disk_ring_with_retention :: "nat \<Rightarrow> f64 \<Rightarrow> path \<Rightarrow> disk_ring" where
  "disk_ring_with_retention max_bytes retention_s dir =
     \<lparr>dr_max_bytes = max_bytes, dr_retention_s = retention_s, dr_dir = dir, dr_segments = [],
      dr_bytes = 0, dr_next_id = 0\<rparr>"

text \<open>The payload-free track views and the reads they describe.\<close>

record disk_track_ref =
  tr_pts_start_s :: "f64 option"
  tr_offset :: nat
  tr_byte_len :: nat
  tr_samples :: "sample_info list"

definition video_track :: "disk_segment \<Rightarrow> disk_track_ref" where
  "video_track d = \<lparr>tr_pts_start_s = Some (ds_pts_start_s d), tr_offset = 0,
     tr_byte_len = ds_video_len d, tr_samples = ds_samples d\<rparr>"

definition audio_tracks :: "disk_segment \<Rightarrow> disk_track_ref list" where
  "audio_tracks d = map (\<lambda>t. \<lparr>tr_pts_start_s = dt_pts_start_s t, tr_offset = dt_offset t,
     tr_byte_len = dt_len t, tr_samples = dt_samples t\<rparr>) (ds_audio d)"

datatype open_error = OpenFailed | UnexpectedEof

definition open_payload :: "file_system \<Rightarrow> disk_segment \<Rightarrow> open_error + bytes" where
  "open_payload fs d = (case fs (ds_path d) of None \<Rightarrow> Inl OpenFailed
     | Some content \<Rightarrow> if length content < ds_byte_len d then Inl UnexpectedEof else Inr content)"

definition read_track :: "bytes \<Rightarrow> disk_track_ref \<Rightarrow> bytes" where
  "read_track content t = slice (tr_offset t) (tr_offset t + tr_byte_len t) content"

end
