(* ===== verification/Disk_Refinement.thy ===== *)
theory Disk_Refinement
  imports Disk_Ring
begin

text \<open>
  The disk ring implements the in-memory ring: its segments, read back from their files, are the
  segments of the in-memory ring that received the same pushes, and every failed push leaves the
  two in agreement up to the segments already evicted.
\<close>

section \<open>Planning sees only four observations\<close>

definition same_view :: "'a window_ops \<Rightarrow> 'b window_ops \<Rightarrow> 'a \<Rightarrow> 'b \<Rightarrow> bool" where
  "same_view T U x y \<longleftrightarrow> wo_starts_with_keyframe T x = wo_starts_with_keyframe U y
     \<and> wo_pts_start_s T x = wo_pts_start_s U y \<and> wo_pts_end_s T x = wo_pts_end_s U y
     \<and> wo_byte_len T x = wo_byte_len U y"

lemma by_duration_view:
  assumes "list_all2 (same_view T U) xs ys" "same_view T U x y"
  shows "by_duration T xs x r = by_duration U ys y r"
proof -
  have "last_index (\<lambda>s. wo_starts_with_keyframe T s \<and> fle (wo_pts_start_s T s) c) xs
      = last_index (\<lambda>s. wo_starts_with_keyframe U s \<and> fle (wo_pts_start_s U s) c) ys" for c
    using assms(1) by (intro last_index_rel) (auto simp: same_view_def elim: list_all2_mono)
  then show ?thesis
    using assms list_all2_lengthD [OF assms(1)]
    by (simp add: by_duration_def same_view_def Let_def)
qed

lemma eviction_plan_view:
  assumes xs: "list_all2 (same_view T U) xs ys" and x: "same_view T U x y"
  shows "eviction_plan T xs c x m r = eviction_plan U ys c y m r"
proof -
  have "map (wo_byte_len T) xs = map (wo_byte_len U) ys"
    using xs by (intro map_eq_rel) (auto simp: same_view_def elim: list_all2_mono)
  moreover have "position (wo_starts_with_keyframe T) (drop k xs)
      = position (wo_starts_with_keyframe U) (drop k ys)" for k
    using list_all2_dropI [OF xs, of k]
    by (intro position_rel) (auto simp: same_view_def elim: list_all2_mono)
  ultimately show ?thesis
    using x by_duration_view [OF xs x] list_all2_lengthD [OF xs]
    by (simp add: eviction_plan_def same_view_def Let_def cong: option.case_cong)
qed

lemma skip_while_rel:
  "list_all2 (\<lambda>x y. p x = q y) xs ys \<Longrightarrow> skip_while p xs i = skip_while q ys i"
proof (induction p xs i rule: skip_while.induct)
  case (1 p xs i)
  note len = list_all2_lengthD [OF "1.prems"]
  show ?case
  proof (cases "i < length xs \<and> p (xs ! i)")
    case True
    with 1 len have "q (ys ! i)" by (auto simp: list_all2_conv_all_nth)
    with True 1 len show ?thesis by (simp add: skip_while.simps [of _ _ i])
  next
    case False
    with 1 len have "\<not> (i < length ys \<and> q (ys ! i))" by (auto simp: list_all2_conv_all_nth)
    with False len show ?thesis by (auto simp: skip_while.simps [of _ _ i])
  qed
qed

lemma start_index_view:
  assumes xs: "list_all2 (same_view T U) xs ys"
  shows "replay_window_start_index T xs w ex = replay_window_start_index U ys w ex"
proof (cases "xs = []")
  case True
  with xs show ?thesis by (simp add: replay_window_start_index_def)
next
  case False
  note len = list_all2_lengthD [OF xs]
  with False have ys: "ys \<noteq> []" by auto
  have "same_view T U (last xs) (last ys)"
    using xs False ys len by (simp add: last_conv_nth list_all2_conv_all_nth)
  then have tgt: "start_target T xs w ex = start_target U ys w ex"
    by (simp add: start_target_def same_view_def)
  have li: "last_index (\<lambda>s. wo_starts_with_keyframe T s \<and> fle (wo_pts_start_s T s) c) xs
      = last_index (\<lambda>s. wo_starts_with_keyframe U s \<and> fle (wo_pts_start_s U s) c) ys" for c
    using xs by (intro last_index_rel) (auto simp: same_view_def elim: list_all2_mono)
  have po: "position (wo_starts_with_keyframe T) xs = position (wo_starts_with_keyframe U) ys"
    using xs by (intro position_rel) (auto simp: same_view_def elim: list_all2_mono)
  have s1: "skip_while (\<lambda>s. fle (wo_pts_end_s T s) e) xs i
      = skip_while (\<lambda>s. fle (wo_pts_end_s U s) e) ys i" for e i
    using xs by (intro skip_while_rel) (auto simp: same_view_def elim: list_all2_mono)
  have s2: "skip_while (\<lambda>s. \<not> wo_starts_with_keyframe T s) xs i
      = skip_while (\<lambda>s. \<not> wo_starts_with_keyframe U s) ys i" for i
    using xs by (intro skip_while_rel) (auto simp: same_view_def elim: list_all2_mono)
  show ?thesis
    using False ys len by (simp add: replay_window_start_index_def tgt li po s1 s2 Let_def
        cong: option.case_cong)
qed

section \<open>A stored segment reads back as the original\<close>

definition represents :: "file_system \<Rightarrow> disk_segment \<Rightarrow> segment \<Rightarrow> bool" where
  "represents fs d s \<longleftrightarrow>
     d = stored_segment (ds_path d) s \<and> fs (ds_path d) = Some (payload_of s)"

lemma stored_path [simp]: "ds_path (stored_segment p s) = p"
  by (simp add: stored_segment_def)

lemma length_payload: "length (payload_of s) = segment_byte_len s"
  by (simp add: payload_of_def segment_byte_len_def length_concat comp_def)

lemma disk_layout_reads:
  "length pre = offset \<Longrightarrow>
   map (\<lambda>t. slice (dt_offset t) (dt_offset t + dt_len t) (pre @ concat (map ts_data ts)))
     (disk_layout offset ts) = map ts_data ts"
proof (induction ts arbitrary: pre offset)
  case Nil
  then show ?case by simp
next
  case (Cons t ts)
  have "map (\<lambda>d. slice (dt_offset d) (dt_offset d + dt_len d)
        ((pre @ ts_data t) @ concat (map ts_data ts)))
      (disk_layout (length (pre @ ts_data t)) ts) = map ts_data ts"
    by (rule Cons.IH) simp
  with Cons.prems slice_middle [of pre "ts_data t" "concat (map ts_data ts)"]
  show ?case by simp
qed

lemma stored_reads_back:
  "read_track (payload_of s) (video_track (stored_segment p s)) = sg_data s"
  "map (read_track (payload_of s)) (audio_tracks (stored_segment p s)) = map ts_data (sg_audio s)"
  using disk_layout_reads [of "sg_data s" "length (sg_data s)" "sg_audio s"]
  by (simp_all add: read_track_def video_track_def audio_tracks_def stored_segment_def
      payload_of_def comp_def)

lemma disk_layout_meta:
  "map dt_pts_start_s (disk_layout off ts) = map ts_pts_start_s ts"
  "map dt_samples (disk_layout off ts) = map ts_samples ts"
  by (induction ts arbitrary: off) auto

lemma stored_view: "same_view disk_ops segment_ops (stored_segment p s) s"
  by (simp add: same_view_def disk_ops_def disk_pts_end_s_def segment_pts_end_s_def stored_segment_def)

lemma represents_view: "represents fs d s \<Longrightarrow> same_view disk_ops segment_ops d s"
  by (metis represents_def stored_view)

section \<open>The simulation\<close>

definition disk_refines :: "disk_ring \<Rightarrow> file_system \<Rightarrow> replay_ring \<Rightarrow> bool" where
  "disk_refines r fs m \<longleftrightarrow> list_all2 (represents fs) (dr_segments r) (rr_segments m)
     \<and> dr_bytes r = rr_bytes m \<and> dr_max_bytes r = rr_max_bytes m
     \<and> dr_retention_s r = rr_retention_s m \<and> distinct (map ds_path (dr_segments r))
     \<and> (\<forall>d \<in> set (dr_segments r). \<exists>n < dr_next_id r. ds_path d = seg_bin (dr_dir r) n)"

lemma represents_other: "represents fs d s \<Longrightarrow> p \<noteq> ds_path d \<Longrightarrow> represents (fs(p := v)) d s"
  by (simp add: represents_def)

lemma represents_list_other:
  "list_all2 (represents fs) ds ss \<Longrightarrow> p \<notin> ds_path ` set ds \<Longrightarrow>
     list_all2 (represents (fs(p := v))) ds ss"
  by (induction ds ss rule: list_all2_induct) (auto intro: represents_other)

lemma disk_refines_other:
  "disk_refines r fs m \<Longrightarrow> p \<notin> ds_path ` set (dr_segments r) \<Longrightarrow> disk_refines r (fs(p := v)) m"
  by (simp add: disk_refines_def represents_list_other)

lemma disk_refines_fresh:
  assumes "disk_refines r fs m"
  shows "seg_bin (dr_dir r) (dr_next_id r) \<notin> ds_path ` set (dr_segments r)"
    and "seg_tmp (dr_dir r) n \<notin> ds_path ` set (dr_segments r)"
  using assms by (fastforce simp: disk_refines_def)+

lemma disk_refines_drop_owned:
  "disk_refines r fs m \<Longrightarrow> p \<notin> ds_path ` set (dr_segments r) \<Longrightarrow>
     disk_refines r (drop_owned env p fs) m"
  by (simp add: drop_owned_def disk_refines_other)

lemma disk_refines_pop:
  assumes ref: "disk_refines r fs m" and seg: "dr_segments r = front # rest"
  shows "fs (ds_path front) \<noteq> None"
    and "disk_refines (r\<lparr>dr_segments := rest, dr_bytes := dr_bytes r - ds_byte_len front\<rparr>)
       (fs(ds_path front := None)) (ring_pop_front m)"
proof -
  from ref seg obtain s ss where m: "rr_segments m = s # ss"
    and rep: "represents fs front s" "list_all2 (represents fs) rest ss"
    by (auto simp: disk_refines_def list_all2_Cons1)
  show "fs (ds_path front) \<noteq> None" using rep by (simp add: represents_def)
  have len: "ds_byte_len front = segment_byte_len s"
    using represents_view [OF rep(1)] by (simp add: same_view_def disk_ops_def)
  have "list_all2 (represents (fs(ds_path front := None))) rest ss"
    using rep(2) ref seg by (intro represents_list_other) (auto simp: disk_refines_def)
  with ref seg m len show "disk_refines (r\<lparr>dr_segments := rest,
      dr_bytes := dr_bytes r - ds_byte_len front\<rparr>) (fs(ds_path front := None)) (ring_pop_front m)"
    by (simp add: disk_refines_def ring_pop_front_def)
qed

lemma evict_files_refines:
  assumes "disk_refines r fs m" "n \<le> length (dr_segments r)"
    "evict_files ok k n r fs = ((r', fs'), res)"
  shows "\<exists>j \<le> n. disk_refines r' fs' ((ring_pop_front ^^ j) m)
     \<and> (res = Inr () \<and> j = n \<or> res = Inl (Err RemoveFailed))
     \<and> dr_next_id r' = dr_next_id r \<and> dr_dir r' = dr_dir r
     \<and> set (dr_segments r') \<subseteq> set (dr_segments r)
     \<and> (\<forall>p. p \<notin> ds_path ` set (dr_segments r) \<longrightarrow> fs' p = fs p)"
  using assms
proof (induction ok k n r fs arbitrary: m rule: evict_files.induct)
  case (1 ok k r fs)
  then show ?case by (intro exI [of _ 0]) auto
next
  case (2 ok k n r fs)
  from "2.prems"(2) obtain front rest where seg: "dr_segments r = front # rest"
    by (cases "dr_segments r") auto
  note pop = disk_refines_pop [OF "2.prems"(1) seg]
  show ?case
  proof (cases "ok k")
    case False
    with "2.prems" seg show ?thesis by (intro exI [of _ 0]) auto
  next
    case True
    let ?r = "r\<lparr>dr_segments := rest, dr_bytes := dr_bytes r - ds_byte_len front\<rparr>"
    have ev: "evict_files ok (Suc k) n ?r (fs(ds_path front := None)) = ((r', fs'), res)"
      using "2.prems"(3) seg True pop(1) by simp
    have "n \<le> length (dr_segments ?r)" using "2.prems"(2) seg by simp
    from "2.IH" [OF seg _ pop(2) this ev] True pop(1) obtain j where j: "j \<le> n"
      "disk_refines r' fs' ((ring_pop_front ^^ j) (ring_pop_front m))"
      "res = Inr () \<and> j = n \<or> res = Inl (Err RemoveFailed)"
      "dr_next_id r' = dr_next_id r" "dr_dir r' = dr_dir r" "set (dr_segments r') \<subseteq> set rest"
      "\<forall>p. p \<notin> ds_path ` set rest \<longrightarrow> fs' p = (fs(ds_path front := None)) p"
      by auto
    have "(ring_pop_front ^^ j) (ring_pop_front m) = (ring_pop_front ^^ Suc j) m"
      by (simp add: funpow_swap1)
    with j seg show ?thesis by (intro exI [of _ "Suc j"]) auto
  qed
qed

lemma disk_plan_eq:
  assumes "disk_refines r fs m"
  shows "eviction_plan disk_ops (dr_segments r) (dr_bytes r) (stored_segment p s) (dr_max_bytes r)
       (dr_retention_s r)
     = eviction_plan segment_ops (rr_segments m) (rr_bytes m) s (rr_max_bytes m) (rr_retention_s m)"
proof -
  have "list_all2 (same_view disk_ops segment_ops) (dr_segments r) (rr_segments m)"
    using assms by (auto simp: disk_refines_def intro: represents_view elim: list_all2_mono)
  moreover have "same_view disk_ops segment_ops (stored_segment p s) s"
    by (rule stored_view)
  ultimately show ?thesis
    using assms eviction_plan_view by (fastforce simp: disk_refines_def)
qed

lemma disk_refines_temporary:
  assumes "disk_refines r fs m"
  shows "disk_refines r (drop_owned env (seg_tmp (dr_dir r) n) (fs(seg_tmp (dr_dir r) n \<mapsto> c))) m"
  using assms disk_refines_fresh [OF assms]
  by (intro disk_refines_drop_owned disk_refines_other) auto

lemma disk_refines_renamed:
  assumes "disk_refines r fs m"
  shows "disk_refines r (fs(seg_tmp (dr_dir r) (dr_next_id r) \<mapsto> c,
     seg_bin (dr_dir r) (dr_next_id r) \<mapsto> c, seg_tmp (dr_dir r) (dr_next_id r) := None)) m"
  using assms disk_refines_fresh [OF assms] by (intro disk_refines_other) auto

text \<open>Appending the stored segment after a complete eviction is the memory ring's push.\<close>

lemma disk_refines_append:
  assumes ref: "disk_refines r fs m"
    and path: "p = seg_bin (dr_dir r) (dr_next_id r)" "fs p = Some (payload_of s)"
  shows "disk_refines
     (r\<lparr>dr_bytes := saturating_add_usize (dr_bytes r) (ds_byte_len (stored_segment p s)),
        dr_segments := dr_segments r @ [stored_segment p s], dr_next_id := dr_next_id r + 1\<rparr>) fs
     (m\<lparr>rr_bytes := saturating_add_usize (rr_bytes m) (segment_byte_len s),
        rr_segments := rr_segments m @ [s]\<rparr>)"
proof -
  have "represents fs (stored_segment p s) s"
    using path(2) by (simp add: represents_def)
  moreover have "ds_byte_len (stored_segment p s) = segment_byte_len s"
    by (simp add: stored_segment_def)
  moreover have "p \<notin> ds_path ` set (dr_segments r)"
    using disk_refines_fresh [OF ref] path(1) by simp
  ultimately show ?thesis
    using ref path(1) by (auto simp: disk_refines_def list_all2_appendI less_Suc_eq)
qed

lemma disk_push_refines:
  assumes ref: "disk_refines r fs m" and push: "disk_push_ref env r fs s = ((r', fs'), res)"
  shows "res = Inr () \<and> disk_refines r' fs' (ring_push m s)
     \<or> (\<exists>e j. res = Inl (Err e) \<and> j \<le> length (rr_segments m)
          \<and> (e \<noteq> RemoveFailed \<longrightarrow> j = 0) \<and> disk_refines r' fs' ((ring_pop_front ^^ j) m))"
proof -
  let ?tmp = "seg_tmp (dr_dir r) (dr_next_id r)" and ?bin = "seg_bin (dr_dir r) (dr_next_id r)"
  let ?fs2 = "fs(?tmp \<mapsto> payload_of s, ?bin \<mapsto> payload_of s, ?tmp := None)"
  let ?n = "eviction_plan segment_ops (rr_segments m) (rr_bytes m) s (rr_max_bytes m)
    (rr_retention_s m)"
  have early: ?thesis if "res = Inl (Err e)" "e \<noteq> RemoveFailed" "disk_refines r' fs' m" for e
    using that by (intro disjI2 exI [of _ e] exI [of _ 0]) auto
  consider "\<not> env_create env" | "env_create env" "env_write_fails env \<noteq> None"
    | "env_create env" "env_write_fails env = None" "\<not> (env_flush env \<and> env_rename env)"
    | "env_create env" "env_write_fails env = None" "env_flush env" "env_rename env"
    by blast
  then show ?thesis
  proof cases
    case 1
    with push ref show ?thesis by (intro early) (auto simp: disk_push_ref_def Let_def)
  next
    case 2
    with push disk_refines_temporary [OF ref] show ?thesis
      by (intro early [of WriteFailed]) (auto simp: disk_push_ref_def Let_def)
  next
    case 3
    with push disk_refines_temporary [OF ref] show ?thesis
      by (cases "env_flush env")
        (auto intro!: early simp: disk_push_ref_def Let_def)
  next
    case 4
    obtain r1 fs3 res1 where ev: "evict_files (env_remove env) 0 ?n r ?fs2 = ((r1, fs3), res1)"
      by (metis prod.exhaust)
    have n: "?n \<le> length (rr_segments m)" "length (dr_segments r) = length (rr_segments m)"
      using ref by (auto simp: eviction_plan_le disk_refines_def dest: list_all2_lengthD)
    from evict_files_refines [OF disk_refines_renamed [OF ref] _ ev] n
    obtain j where j: "j \<le> ?n" "disk_refines r1 fs3 ((ring_pop_front ^^ j) m)"
      "res1 = Inr () \<and> j = ?n \<or> res1 = Inl (Err RemoveFailed)"
      "dr_next_id r1 = dr_next_id r" "dr_dir r1 = dr_dir r"
      "\<forall>p. p \<notin> ds_path ` set (dr_segments r) \<longrightarrow> fs3 p = ?fs2 p"
      by auto
    have bin: "fs3 ?bin = Some (payload_of s)"
      using j(6) disk_refines_fresh(1) [OF ref] by simp
    from j(3) show ?thesis
    proof
      assume ok: "res1 = Inr () \<and> j = ?n"
      with 4 push ev have "res = Inr ()"
        and r': "r' = r1\<lparr>dr_bytes := saturating_add_usize (dr_bytes r1)
              (ds_byte_len (stored_segment ?bin s)),
            dr_segments := dr_segments r1 @ [stored_segment ?bin s],
            dr_next_id := dr_next_id r1 + 1\<rparr>" and fs': "fs' = fs3"
        by (auto simp: disk_push_ref_def Let_def disk_plan_eq [OF ref])
      moreover from j ok bin have "disk_refines r' fs3 (ring_push m s)"
        unfolding r' ring_push_def ring_push_shared_def Let_def
        by (intro disk_refines_append) auto
      ultimately show ?thesis by simp
    next
      assume err: "res1 = Inl (Err RemoveFailed)"
      with 4 push ev have "res = Inl (Err RemoveFailed)" "r' = r1" "fs' = drop_owned env ?bin fs3"
        by (auto simp: disk_push_ref_def Let_def disk_plan_eq [OF ref])
      moreover have "?bin \<notin> ds_path ` set (dr_segments r1)"
        using disk_refines_fresh(1) [OF j(2)] j(4,5) by simp
      ultimately show ?thesis
        using j n by (intro disjI2 exI [of _ RemoveFailed] exI [of _ j])
          (auto intro: disk_refines_drop_owned)
    qed
  qed
qed

section \<open>The disk ring is a replay cache\<close>

lemma evict_files_Inr:
  "evict_files ok k n r fs = ((r', fs'), Inr ()) \<Longrightarrow>
     r' = r\<lparr>dr_segments := drop n (dr_segments r),
       dr_bytes := dr_bytes r - sum_list (map ds_byte_len (take n (dr_segments r)))\<rparr>"
proof (induction ok k n r fs rule: evict_files.induct)
  case (1 ok k r fs)
  then show ?case by simp
next
  case (2 ok k n r fs)
  then show ?case by (cases "dr_segments r") (auto simp: fun_upd_def split: if_splits)
qed

lemma disk_ops_simps [simp]:
  "wo_starts_with_keyframe disk_ops = ds_starts_with_keyframe"
  "wo_pts_start_s disk_ops = ds_pts_start_s"
  "wo_pts_end_s disk_ops = disk_pts_end_s"
  "wo_byte_len disk_ops = ds_byte_len"
  by (simp_all add: disk_ops_def)

definition disk_pushed :: "disk_ring \<Rightarrow> disk_segment \<Rightarrow> disk_ring \<Rightarrow> bool" where
  "disk_pushed r d r' \<longleftrightarrow> (\<exists>env fs fs' s. disk_push_ref env r fs s = ((r', fs'), Inr ())
     \<and> d = stored_segment (seg_bin (dr_dir r) (dr_next_id r)) s)"

lemma disk_pushed_result:
  assumes "disk_pushed r d r'"
  defines "n \<equiv> eviction_plan disk_ops (dr_segments r) (dr_bytes r) d (dr_max_bytes r) (dr_retention_s r)"
  shows "dr_segments r' = drop n (dr_segments r) @ [d]
    \<and> dr_bytes r' = saturating_add_usize
        (dr_bytes r - sum_list (map ds_byte_len (take n (dr_segments r)))) (ds_byte_len d)
    \<and> dr_max_bytes r' = dr_max_bytes r \<and> dr_retention_s r' = dr_retention_s r"
proof -
  from assms(1) obtain env fs fs' s where
    push: "disk_push_ref env r fs s = ((r', fs'), Inr ())"
    and d: "d = stored_segment (seg_bin (dr_dir r) (dr_next_id r)) s"
    by (auto simp: disk_pushed_def)
  then obtain fs2 r1 fs3 where ev: "evict_files (env_remove env) 0 n r fs2 = ((r1, fs3), Inr ())"
    and r': "r' = r1\<lparr>dr_bytes := saturating_add_usize (dr_bytes r1) (ds_byte_len d),
      dr_segments := dr_segments r1 @ [d], dr_next_id := dr_next_id r1 + 1\<rparr>"
    by (auto simp: disk_push_ref_def Let_def n_def split: if_splits option.splits prod.splits sum.splits)
  show ?thesis using evict_files_Inr [OF ev] r' by simp
qed

interpretation disk: replay_cache disk_ops dr_segments dr_bytes dr_max_bytes dr_retention_s
  disk_pushed disk_save_window
proof unfold_locales
qed (use disk_pushed_result in \<open>simp_all add: disk_save_window_def window_from_def\<close>)

section \<open>Saves of every reachable disk ring\<close>

lemma disk_save_refines:
  assumes "disk_refines r fs m"
  shows "list_all2 (represents fs) (disk_save_window r w ex) (ring_save_window m w ex)"
proof -
  have rel: "list_all2 (represents fs) (dr_segments r) (rr_segments m)"
    using assms by (simp add: disk_refines_def)
  then have "list_all2 (same_view disk_ops segment_ops) (dr_segments r) (rr_segments m)"
    by (rule list_all2_mono) (rule represents_view)
  from start_index_view [OF this] rel show ?thesis
    by (auto simp: disk_save_window_def ring_save_window_def split: option.splits
        intro: list_all2_dropI)
qed

lemma stored_byte_len [simp]: "ds_byte_len (stored_segment p s) = segment_byte_len s"
  by (simp add: stored_segment_def)

lemma represents_open: "represents fs d s \<Longrightarrow> open_payload fs d = Inr (payload_of s)"
proof -
  assume "represents fs d s"
  then have "fs (ds_path d) = Some (payload_of s)" "ds_byte_len d = length (payload_of s)"
    by (simp_all add: represents_def length_payload) (metis stored_byte_len)
  then show ?thesis by (simp add: open_payload_def)
qed

text \<open>The rings a recorder can reach: any pushes, any failures of the operating system.\<close>

inductive disk_reachable :: "nat \<Rightarrow> f64 \<Rightarrow> path \<Rightarrow> disk_ring \<Rightarrow> file_system \<Rightarrow> bool"
  for budget :: nat and retention :: f64 and dir :: path where
  fresh_ring: "disk_reachable budget retention dir (disk_ring_with_retention budget retention dir) fs"
| pushed: "disk_reachable budget retention dir r fs \<Longrightarrow>
    disk_push_ref env r fs s = ((r', fs'), res) \<Longrightarrow> disk_reachable budget retention dir r' fs'"

lemma reachable_refines:
  "disk_reachable b ret dir r fs \<Longrightarrow> \<exists>m. disk_refines r fs m"
proof (induction rule: disk_reachable.induct)
  case (fresh_ring fs)
  have "disk_refines (disk_ring_with_retention b ret dir) fs (ring_with_retention b ret)"
    by (simp add: disk_refines_def disk_ring_with_retention_def ring_with_retention_def)
  then show ?case ..
next
  case (pushed r fs env s r' fs' res)
  then show ?case using disk_push_refines by blast
qed

lemma reachable_saves_read_back:
  assumes "disk_reachable b ret dir r fs" "d \<in> set (disk_save_window r w ex)"
  shows "\<exists>s. open_payload fs d = Inr (payload_of s) \<and> d = stored_segment (ds_path d) s"
proof -
  from reachable_refines [OF assms(1)] obtain m where "disk_refines r fs m" ..
  from disk_save_refines [OF this] assms(2) obtain s where "represents fs d s"
    by (fastforce simp: list_all2_conv_all_nth in_set_conv_nth)
  then have "open_payload fs d = Inr (payload_of s)" "d = stored_segment (ds_path d) s"
    by (simp_all add: represents_open) (simp add: represents_def)
  then show ?thesis by blast
qed
end
