(* ===== verification/Buffer_Properties.thy ===== *)
theory Buffer_Properties
  imports Disk_Refinement Ring
begin

text \<open>
  The properties of the replay buffer (crates/clipline-buffer): what a save returns, what a push
  may evict, the byte accounting of every reachable ring, and the disk ring as an implementation
  of the memory ring.  Each property is followed by an instance at a concrete input.
\<close>

section \<open>Concrete segments\<close>

text \<open>One second of media from second \<open>t\<close> on, \<open>n\<close> bytes of video and no samples.\<close>

definition sample_segment :: "bool \<Rightarrow> rat \<Rightarrow> nat \<Rightarrow> segment" where
  "sample_segment key t n = \<lparr>sg_starts_with_keyframe = key, sg_pts_start_s = Fin t,
     sg_duration_s = Fin 1, sg_data = replicate n 7, sg_samples = [], sg_audio = []\<rparr>"

definition sample_ring :: replay_ring where
  "sample_ring = \<lparr>rr_max_bytes = 100, rr_retention_s = Fin 3,
     rr_segments = [sample_segment True 0 2, sample_segment False 1 2, sample_segment True 2 2],
     rr_bytes = 6\<rparr>"

lemma sample_segment_simps [simp]:
  "sg_starts_with_keyframe (sample_segment key t n) = key"
  "sg_pts_start_s (sample_segment key t n) = Fin t"
  "segment_pts_end_s (sample_segment key t n) = fadd (Fin t) (Fin 1)"
  "segment_byte_len (sample_segment key t n) = n"
  by (simp_all add: sample_segment_def segment_pts_end_s_def segment_byte_len_def)

lemma sample_ring_simps [simp]:
  "rr_max_bytes sample_ring = 100" "rr_retention_s sample_ring = Fin 3" "rr_bytes sample_ring = 6"
  "rr_segments sample_ring =
     [sample_segment True 0 2, sample_segment False 1 2, sample_segment True 2 2]"
  by (simp_all add: sample_ring_def)

section \<open>Pushing\<close>

text \<open>
  C30: after any sequence of pushes into a new ring, the byte counter is exactly the size of what
  the ring holds, the ring holds a suffix of what was pushed, and it is within its byte budget
  unless one single segment alone exceeds it.
\<close>

theorem ring_run_exact_and_bounded:
  assumes "sum_list (map segment_byte_len ss) \<le> usize_max"
  shows "rr_bytes (ring_push_all (ring_with_retention m ret) ss)
      = sum_list (map segment_byte_len (rr_segments (ring_push_all (ring_with_retention m ret) ss)))
    \<and> (rr_bytes (ring_push_all (ring_with_retention m ret) ss) \<le> m
       \<or> ring_len (ring_push_all (ring_with_retention m ret) ss) \<le> 1)
    \<and> (\<exists>old. ss = old @ rr_segments (ring_push_all (ring_with_retention m ret) ss))"
proof -
  have "ring_exact (ring_with_retention m ret)" "ring_bounded (ring_with_retention m ret)"
    by (simp_all add: ring_exact_def ring_bounded_def)
  from ring_push_all_invariants [OF this, of ss] assms ring_push_all_config [of _ ss]
  show ?thesis
    by (auto simp: ring_exact_def ring_bounded_def ring_len_def)
qed

theorem ring_run_exact_and_bounded_witness:
  "\<exists>old. [sample_segment True 0 2, sample_segment True 1 2]
     = old @ rr_segments (ring_push_all (ring_with_retention 3 (Fin 9))
         [sample_segment True 0 2, sample_segment True 1 2])"
  using ring_run_exact_and_bounded [of "[sample_segment True 0 2, sample_segment True 1 2]" 3 "Fin 9"]
  by (simp add: usize_max_def)

text \<open>
  A push only drops old segments, and when it drops any, the ring starts with a keyframe
  again (so that the oldest footage stays decodable), unless it holds no keyframe at all.
\<close>

theorem ring_push_keeps_decodable_front:
  "(\<exists>old. rr_segments r @ [s] = old @ rr_segments (ring_push r s))
   \<and> (rr_segments (ring_push r s) = rr_segments r @ [s]
      \<or> sg_starts_with_keyframe (hd (rr_segments (ring_push r s)))
      \<or> list_all (Not \<circ> sg_starts_with_keyframe) (rr_segments (ring_push r s)))"
  using mem.push_keeps_order [OF refl, of r s] mem.push_decodable [OF refl, of r s]
  by (simp add: list_all_iff)

text \<open>
  The number of segments evicted for the byte budget is sufficient, or everything, and it is
  minimal: any smaller number leaves the ring over its budget.
\<close>

theorem eviction_count_sufficient_and_minimal:
  assumes "k < eviction_count sizes current incoming budget"
  shows "budget < saturating_add_usize current incoming - sum_list (take k sizes)
    \<and> (eviction_count sizes current incoming budget = length sizes
       \<or> saturating_add_usize current incoming
           - sum_list (take (eviction_count sizes current incoming budget) sizes) \<le> budget)"
  using assms eviction_loop_minimal eviction_loop_sufficient eviction_loop_le
  by (metis eviction_count_def le_neq_implies_less)

theorem eviction_count_sufficient_and_minimal_witness:
  "(20::nat) < saturating_add_usize 30 10 - sum_list (take 1 [10, 10, 10])"
  using eviction_count_sufficient_and_minimal [of 1 "[10, 10, 10]" 30 10 20]
  by (simp add: eviction_count_def saturating_add_usize_def usize_max_def)

text \<open>
  What is held of all that was pushed: everything, or a suffix that starts with a keyframe at or before
  the retention of the newest end.
\<close>

definition retained :: "f64 \<Rightarrow> segment list \<Rightarrow> segment list \<Rightarrow> bool" where
  "retained ret pushed held \<longleftrightarrow> (\<exists>old. pushed = old @ held
     \<and> (old = [] \<or> held \<noteq> [] \<and> is_finite ret \<and> sg_starts_with_keyframe (hd held)
          \<and> fle (sg_pts_start_s (hd held)) (fsub (segment_pts_end_s (last held)) (fmax ret (Fin 0)))))"

lemma retained_push:
  assumes held: "retained ret pushed held" and later: "held \<noteq> [] \<Longrightarrow> fle (segment_pts_end_s (last held)) (segment_pts_end_s s)"
    and n: "n = by_duration segment_ops held s ret"
  shows "retained ret (pushed @ [s]) (drop n held @ [s])"
proof -
  obtain old where old: "pushed = old @ held" "old = [] \<or> held \<noteq> [] \<and> is_finite ret \<and> sg_starts_with_keyframe (hd held)
      \<and> fle (sg_pts_start_s (hd held)) (fsub (segment_pts_end_s (last held)) (fmax ret (Fin 0)))"
    using held unfolding retained_def by blast
  show ?thesis
  proof (cases "n = 0")
    case True
    have "fle (sg_pts_start_s (hd held)) (fsub (segment_pts_end_s s) (fmax ret (Fin 0)))" if "old \<noteq> []"
    proof -
      have o: "held \<noteq> []" "is_finite ret"
        "fle (sg_pts_start_s (hd held)) (fsub (segment_pts_end_s (last held)) (fmax ret (Fin 0)))" using old(2) that by auto
      have "is_finite (fmax ret (Fin 0))" using o(2) by (intro is_finite_fmax) (simp_all add: is_finite_def)
      then have "fsub (segment_pts_end_s s) (fmax ret (Fin 0)) \<noteq> NaN"
        using fle_not_nan [OF later [OF o(1)]] by (intro fsub_finite_not_nan) simp_all
      then show ?thesis using fsub_mono_left [OF later [OF o(1)]] fle_not_nan [OF o(3)] o(3) by (blast intro: fle_trans)
    qed
    with True old show ?thesis unfolding retained_def by (intro exI [of _ old]) auto
  next
    case False
    have k: "is_finite ret" "n < length (held @ [s])" "sg_starts_with_keyframe ((held @ [s]) ! n)"
      "fle (sg_pts_start_s ((held @ [s]) ! n)) (fsub (segment_pts_end_s s) (fmax ret (Fin 0)))"
      using by_duration_keyframe [OF n False refl] by simp_all
    have "drop n (held @ [s]) = drop n held @ [s]" using k(2) by simp
    then have "hd (drop n held @ [s]) = (held @ [s]) ! n" using hd_drop_conv_nth [OF k(2)] by simp
    then show ?thesis unfolding retained_def using old(1) k by (intro exI [of _ "old @ take n held"]) simp
  qed
qed

lemma retained_save:
  assumes "retained ret pushed held" "is_finite w" "fle w ret"
  shows "window_from segment_ops held w ex = window_from segment_ops pushed w ex"
proof -
  obtain old where old: "pushed = old @ held" "old = [] \<or> held \<noteq> [] \<and> is_finite ret \<and> sg_starts_with_keyframe (hd held)
      \<and> fle (sg_pts_start_s (hd held)) (fsub (segment_pts_end_s (last held)) (fmax ret (Fin 0)))"
    using assms(1) unfolding retained_def by blast
  show ?thesis
  proof (cases "old = []")
    case False
    let ?cutoff = "fsub (segment_pts_end_s (last held)) (fmax ret (Fin 0))"
    have o: "held \<noteq> []" "sg_starts_with_keyframe (hd held)" "fle (sg_pts_start_s (hd held)) ?cutoff" using old(2) False by auto
    have front: "pushed ! length old = hd held" using o(1) old(1) by (simp add: nth_append hd_conv_nth)
    have nan: "?cutoff \<noteq> NaN" "segment_pts_end_s (last held) \<noteq> NaN" using fle_not_nan [OF o(3)] fsub_not_nan by blast+
    have "fle w (fmax ret (Fin 0))"
      using assms(3) fle_fmax1 [of ret "Fin 0"] by (auto intro: fle_trans dest: fle_not_nan)
    then have base: "fle ?cutoff (fsub (segment_pts_end_s (last held)) w)"
      using nan assms(2) by (intro fsub_antimono_right) (simp_all add: fsub_finite_not_nan)
    then have "fle ?cutoff (start_target segment_ops pushed w ex)"
      using fle_fmax1 [of "fsub (segment_pts_end_s (last held)) w"] fle_not_nan [OF base] o(1) old(1)
      by (auto simp: start_target_def Let_def split: option.splits intro: fle_trans)
    then have "fle (sg_pts_start_s (pushed ! length old)) (start_target segment_ops pushed w ex)"
      using o front by (auto intro: fle_trans)
    then have "window_from segment_ops (drop (length old) pushed) w ex = window_from segment_ops pushed w ex"
      using o front old(1) by (intro window_from_drop) auto
    then show ?thesis using old(1) by simp
  qed (use old in simp)
qed

text \<open>A run in which the byte budget never asks for more than the retention evicts anyway.\<close>

fun retention_governs :: "replay_ring \<Rightarrow> segment list \<Rightarrow> bool" where
  "retention_governs r [] \<longleftrightarrow> True"
| "retention_governs r (s # ss) \<longleftrightarrow>
     eviction_count (map segment_byte_len (rr_segments r)) (rr_bytes r) (segment_byte_len s) (rr_max_bytes r)
       \<le> by_duration segment_ops (rr_segments r) s (rr_retention_s r)
     \<and> retention_governs (ring_push r s) ss"

lemma retained_run:
  "retention_governs r ss \<Longrightarrow> retained (rr_retention_s r) pushed (rr_segments r)
     \<Longrightarrow> sorted_wrt (\<lambda>a b. fle (segment_pts_end_s a) (segment_pts_end_s b)) (rr_segments r @ ss)
     \<Longrightarrow> retained (rr_retention_s r) (pushed @ ss) (rr_segments (ring_push_all r ss))"
proof (induction ss arbitrary: r pushed)
  case (Cons s ss)
  let ?n = "by_duration segment_ops (rr_segments r) s (rr_retention_s r)"
  have "eviction_plan segment_ops (rr_segments r) (rr_bytes r) s (rr_max_bytes r) (rr_retention_s r) = ?n"
    using Cons.prems(1) by (simp add: eviction_plan_def Let_def)
  then have segs: "rr_segments (ring_push r s) = drop ?n (rr_segments r) @ [s]" using mem.pushed_segs [OF refl, of r s] by simp
  have ret: "rr_retention_s (ring_push r s) = rr_retention_s r" using mem.pushed_config [OF refl, of r s] by simp
  have later: "fle (segment_pts_end_s (last (rr_segments r))) (segment_pts_end_s s)" if "rr_segments r \<noteq> []"
    using Cons.prems(3) that by (auto simp: sorted_wrt_append)
  have "retained (rr_retention_s (ring_push r s)) (pushed @ [s]) (rr_segments (ring_push r s))"
    unfolding segs ret by (rule retained_push [OF Cons.prems(2) later refl])
  moreover have "sorted_wrt (\<lambda>a b. fle (segment_pts_end_s a) (segment_pts_end_s b)) (rr_segments (ring_push r s) @ ss)"
    using Cons.prems(3) unfolding segs by (auto simp: sorted_wrt_append dest: in_set_dropD intro: sorted_wrt_drop)
  ultimately show ?case using Cons.IH [of "ring_push r s" "pushed @ [s]"] Cons.prems(1) ret by (simp add: ring_push_all_def)
qed (simp add: ring_push_all_def)

text \<open>
  C31: the retention limit is invisible to saves.  Push any segments into a new ring, each ending no
  earlier than the one before, the byte budget at no push asking for more than the retention evicts
  anyway.  Whatever the pushes have evicted, at every point of the run a save of a window of finite
  length within the retention, also one that leaves out what was saved before, returns exactly what it
  would return had nothing ever been evicted.
\<close>

theorem ring_retention_is_transparent:
  assumes "is_finite w" "fle w ret"
    and "sorted_wrt (\<lambda>a b. fle (segment_pts_end_s a) (segment_pts_end_s b)) ss"
    and "retention_governs (ring_with_retention m ret) ss"
  shows "ring_save_window (ring_push_all (ring_with_retention m ret) ss) w ex
    = ring_save_window ((ring_with_retention m ret)\<lparr>rr_segments := ss\<rparr>) w ex"
proof -
  have "retained ret [] []" by (simp add: retained_def)
  then have "retained ret ss (rr_segments (ring_push_all (ring_with_retention m ret) ss))"
    using retained_run [OF assms(4), of "[]"] assms(3) by simp
  from retained_save [OF this assms(1,2)] show ?thesis by (simp add: mem.saved_window)
qed

theorem ring_retention_is_transparent_witness:
  "let ss = [sample_segment True 0 2, sample_segment False 1 2, sample_segment True 2 2, sample_segment True 5 2];
       r = ring_push_all (ring_with_retention 100 (Fin 3)) ss
   in length (rr_segments r) = 2 \<and> ring_save_window r (Fin 2) None = ring_save_window (r\<lparr>rr_segments := ss\<rparr>) (Fin 2) None"
proof -
  let ?r0 = "ring_with_retention 100 (Fin 3)"
  let ?ss = "[sample_segment True 0 2, sample_segment False 1 2, sample_segment True 2 2, sample_segment True 5 2]"
  have run: "ring_push_all ?r0 ?ss = ?r0\<lparr>rr_bytes := 4, rr_segments := [sample_segment True 2 2, sample_segment True 5 2]\<rparr>
      \<and> retention_governs ?r0 ?ss"
    by (simp add: ring_push_all_def ring_push_def ring_push_shared_def eviction_plan_def eviction_count_def by_duration_def Let_def
        saturating_add_usize_def usize_max_def f64_eval last_index_def ring_pop_front_def ring_with_retention_def)
  have "sorted_wrt (\<lambda>a b. fle (segment_pts_end_s a) (segment_pts_end_s b)) ?ss" by (simp add: f64_eval)
  from ring_retention_is_transparent [OF _ _ this, of "Fin 2" "Fin 3" 100 None] run
  show ?thesis by (simp add: f64_eval Let_def mem.saved_window)
qed

section \<open>Saving\<close>

text \<open>
  A saved window is a suffix of the ring, so it misses nothing up to the newest segment; it
  starts with a keyframe; and a save of the plain kind is empty only if the ring has no keyframe.
\<close>

theorem ring_save_is_decodable_suffix:
  "(\<exists>pre. rr_segments r = pre @ ring_save_window r w ex)
   \<and> (ring_save_window r w ex = [] \<or> sg_starts_with_keyframe (hd (ring_save_window r w ex)))
   \<and> (ring_save_window r w None = [] \<longleftrightarrow> list_all (Not \<circ> sg_starts_with_keyframe) (rr_segments r))"
proof -
  have "window_from segment_ops ss w None = [] \<longleftrightarrow> list_all (Not \<circ> sg_starts_with_keyframe) ss" for ss
    by (auto simp: window_from_empty list_all_iff)
  with mem.saved_suffix [of r w ex] mem.saved_decodable [of r w ex] show ?thesis
    by (auto simp: ring_save_window_def window_from_def)
qed

text \<open>
  A save reaches back far enough and no farther.  When some keyframe segment starts at least
  the requested time before the newest end, the saved window starts at such a segment, and no
  later keyframe segment starts early enough.
\<close>

theorem ring_save_covers_window:
  assumes "s \<in> set (rr_segments r)" "sg_starts_with_keyframe s"
    and "fle (sg_pts_start_s s) (fsub (segment_pts_end_s (last (rr_segments r))) w)"
  shows "fle (sg_pts_start_s (hd (ring_save_window r w None)))
      (fsub (segment_pts_end_s (last (rr_segments r))) w)
    \<and> list_all (\<lambda>s. sg_starts_with_keyframe s \<longrightarrow>
        \<not> fle (sg_pts_start_s s) (fsub (segment_pts_end_s (last (rr_segments r))) w))
      (tl (ring_save_window r w None))"
proof -
  let ?t = "fsub (segment_pts_end_s (last (rr_segments r))) w"
  obtain i where i: "i < length (rr_segments r)"
    "window_from segment_ops (rr_segments r) w None = drop i (rr_segments r)"
    "fle (sg_pts_start_s (rr_segments r ! i)) ?t"
    "\<And>j. i < j \<Longrightarrow> j < length (rr_segments r) \<Longrightarrow> sg_starts_with_keyframe (rr_segments r ! j) \<Longrightarrow>
       \<not> fle (sg_pts_start_s (rr_segments r ! j)) ?t"
    using assms window_from_covers [of s "rr_segments r" segment_ops w] by auto
  have "ring_save_window r w None = drop i (rr_segments r)"
    using i(2) by (simp add: ring_save_window_def window_from_def)
  with i(1,3,4) show ?thesis
    by (auto simp: hd_drop_conv_nth list_all_length nth_tl)
qed

theorem ring_save_covers_window_witness:
  "fle (sg_pts_start_s (hd (ring_save_window sample_ring (Fin 2) None)))
     (fsub (segment_pts_end_s (last (rr_segments sample_ring))) (Fin 2))"
  using ring_save_covers_window [of "sample_segment True 0 2" sample_ring "Fin 2"]
  by (simp add: f64_eval)

text \<open>
  In smart mode (a limit up to which footage was already saved), with the segments in
  chronological order, no saved segment ends at or before the limit.
\<close>

theorem ring_smart_save_excludes_saved:
  assumes "sorted_wrt (\<lambda>a b. fle (segment_pts_end_s a) (segment_pts_end_s b)) (rr_segments r)"
    and "s \<in> set (ring_save_window r w (Some e))"
  shows "\<not> fle (segment_pts_end_s s) e"
  using assms mem.saved_excludes [of r s w e] by simp

theorem ring_smart_save_excludes_saved_witness:
  "\<not> fle (segment_pts_end_s (sample_segment True 2 2)) (Fin 2)"
  by (rule ring_smart_save_excludes_saved [of sample_ring _ "Fin 3"])
    (simp_all add: ring_save_window_def replay_window_start_index_def start_target_def last_index_def
      skip_while.simps f64_eval)

section \<open>The disk ring\<close>

text \<open>
  C28: one push of the disk ring simulates one push of the memory ring.  If it succeeds, both
  rings again represent the same segments; if it fails, for whatever the operating system did,
  the disk ring still represents a memory ring: the old one, or, when a removal failed, the old
  one less the segments evicted until then.  It never panics.
\<close>

theorem disk_push_simulates_ring_push:
  assumes "disk_refines r fs m" and "disk_push_ref env r fs s = ((r', fs'), res)"
  shows "(res = Inr () \<and> disk_refines r' fs' (ring_push m s))
     \<or> (\<exists>e j. res = Inl (Err e) \<and> j \<le> ring_len m
          \<and> (e = RemoveFailed \<or> j = 0) \<and> disk_refines r' fs' ((ring_pop_front ^^ j) m))"
  using disk_push_refines [OF assms] by (auto simp: ring_len_def)

definition sample_env :: io_env where
  "sample_env = \<lparr>env_create = True, env_write_fails = None, env_flush = True, env_rename = False,
     env_remove = (\<lambda>_. True), env_cleanup = True\<rparr>"

theorem disk_push_simulates_ring_push_witness:
  "disk_refines (disk_ring_with_retention 9 (Fin 3) [''d'']) Map.empty (ring_with_retention 9 (Fin 3))
   \<and> (\<exists>e. snd (disk_push_ref sample_env (disk_ring_with_retention 9 (Fin 3) [''d'']) Map.empty
        (sample_segment True 0 2)) = Inl (Err e))"
proof -
  let ?r = "disk_ring_with_retention 9 (Fin 3) [''d'']" and ?s = "sample_segment True 0 2"
  have ref: "disk_refines ?r Map.empty (ring_with_retention 9 (Fin 3))"
    by (simp add: disk_refines_def disk_ring_with_retention_def)
  obtain r' fs' res where push: "disk_push_ref sample_env ?r Map.empty ?s = ((r', fs'), res)"
    by (metis prod.collapse)
  have "res \<noteq> Inr ()" using push by (auto simp: disk_push_ref_def sample_env_def Let_def)
  with disk_push_simulates_ring_push [OF ref push] ref push show ?thesis by auto
qed

text \<open>
  C34: every disk ring a recorder can reach, whatever failed on the way, represents a memory ring;
  a save of any window returns the segments the memory ring would return, and each of them opens
  and reads back, video and audio, as the original.
\<close>

theorem disk_ring_saves_read_back:
  assumes "disk_reachable budget ret dir r fs"
  shows "\<exists>m. disk_refines r fs m
    \<and> list_all2 (\<lambda>d s. open_payload fs d = Inr (payload_of s)
        \<and> read_track (payload_of s) (video_track d) = sg_data s
        \<and> map (read_track (payload_of s)) (audio_tracks d) = map ts_data (sg_audio s))
      (disk_save_window r w ex) (ring_save_window m w ex)"
proof -
  obtain m where m: "disk_refines r fs m" using reachable_refines [OF assms] ..
  have "open_payload fs d = Inr (payload_of s)
      \<and> read_track (payload_of s) (video_track d) = sg_data s
      \<and> map (read_track (payload_of s)) (audio_tracks d) = map ts_data (sg_audio s)"
    if "represents fs d s" for d s
    using that represents_open [OF that] stored_reads_back [of s "ds_path d"]
    by (simp add: represents_def)
  with disk_save_refines [OF m] m show ?thesis by (blast intro: list_all2_mono)
qed

text \<open>One segment pushed to the disk, with two bytes of video and one of audio, and then saved.\<close>

definition sample_stored :: segment where
  "sample_stored = (sample_segment True 0 2)\<lparr>sg_audio := [\<lparr>ts_pts_start_s = None, ts_data = [9], ts_samples = []\<rparr>]\<rparr>"

theorem disk_ring_saves_read_back_witness:
  "\<exists>r fs d s. disk_push_ref (sample_env\<lparr>env_rename := True\<rparr>) (disk_ring_with_retention 9 (Fin 3) [''d'']) Map.empty sample_stored = ((r, fs), Inr ())
     \<and> disk_save_window r (Fin 1) None = [d] \<and> open_payload fs d = Inr [7, 7, 9]
     \<and> payload_of s = [7, 7, 9] \<and> sg_data s = [7, 7] \<and> map ts_data (sg_audio s) = [[9]]"
proof -
  let ?r0 = "disk_ring_with_retention 9 (Fin 3) [''d'']" and ?env = "sample_env\<lparr>env_rename := True\<rparr>"
  have plan: "eviction_plan disk_ops [] c x m ret = 0" for c x m ret using eviction_plan_le [of disk_ops "[]" c x m ret] by simp
  have two: "replicate 2 (7 :: 8 word) = [7, 7]" by (simp add: numeral_2_eq_2)
  obtain r fs where push: "disk_push_ref ?env ?r0 Map.empty sample_stored = ((r, fs), Inr ())"
    and segs: "dr_segments r = [stored_segment (seg_bin [''d''] 0) sample_stored]" and stored: "fs (seg_bin [''d''] 0) = Some [7, 7, 9]"
    by (simp add: disk_push_ref_def sample_env_def disk_ring_with_retention_def plan
        sample_stored_def sample_segment_def payload_of_def two Let_def)
  let ?d = "stored_segment (seg_bin [''d''] 0) sample_stored"
  have saved: "disk_save_window r (Fin 1) None = [?d]"
    unfolding disk_save_window_def segs
    by (simp add: replay_window_start_index_def start_target_def last_index_def position_def disk_ops_def stored_segment_def sample_stored_def
        sample_segment_def disk_pts_end_s_def f64_eval)
  have d: "ds_path ?d = seg_bin [''d''] 0" "ds_byte_len ?d = 3" "video_track ?d = \<lparr>tr_pts_start_s = Some (Fin 0), tr_offset = 0, tr_byte_len = 2, tr_samples = []\<rparr>"
    "audio_tracks ?d = [\<lparr>tr_pts_start_s = None, tr_offset = 2, tr_byte_len = 1, tr_samples = []\<rparr>]"
    by (simp_all add: stored_segment_def sample_stored_def sample_segment_def video_track_def audio_tracks_def segment_byte_len_def two)
  obtain m where "list_all2 (\<lambda>d s. open_payload fs d = Inr (payload_of s) \<and> read_track (payload_of s) (video_track d) = sg_data s
      \<and> map (read_track (payload_of s)) (audio_tracks d) = map ts_data (sg_audio s)) [?d] (ring_save_window m (Fin 1) None)"
    using disk_ring_saves_read_back [OF disk_reachable.pushed [OF fresh_ring push], of "Fin 1" None] saved by auto
  then obtain s where s: "open_payload fs ?d = Inr (payload_of s)" "read_track (payload_of s) (video_track ?d) = sg_data s"
    "map (read_track (payload_of s)) (audio_tracks ?d) = map ts_data (sg_audio s)" by (auto simp: list_all2_Cons1)
  have "segment_byte_len sample_stored = 3" by (simp add: segment_byte_len_def sample_stored_def sample_segment_def)
  then have o: "open_payload fs ?d = Inr [7, 7, 9]" by (simp add: open_payload_def d(1) stored)
  then have p: "payload_of s = [7, 7, 9]" using s(1) by simp
  have "sg_data s = [7, 7]" "map ts_data (sg_audio s) = [[9]]"
    using s(2,3) unfolding p d by (simp_all add: read_track_def slice_def)
  with push saved o p show ?thesis by (intro exI [of _ r] exI [of _ fs] exI [of _ ?d] exI [of _ s] conjI)
qed

section \<open>Samples of a segment\<close>

text \<open>
  Cutting a payload at its sample index gives back exactly the samples it was built from;
  and whenever every cut succeeds, the cuts have the indexed sizes and are, in order, a prefix of
  the payload.
\<close>

theorem slice_samples_roundtrip:
  assumes "map (unat \<circ> si_size) ss = map length bs" "length (concat bs) \<le> usize_max"
  shows "slice_samples (concat bs) ss = map Inr bs
    \<and> (slice_samples data ss = map Inr cs \<longrightarrow>
         map (unat \<circ> si_size) ss = map length cs \<and> concat cs = take (length (concat cs)) data)"
  using slice_samples_indexes [of ss bs] slice_samples_from_ok [of 0 data ss cs] assms
  by (auto simp: indexes_def slice_samples_def)

theorem slice_samples_roundtrip_witness:
  "slice_samples [1, 2, 3] [\<lparr>si_size = 1, si_duration_s = Fin 1, si_is_sync = True\<rparr>,
     \<lparr>si_size = 2, si_duration_s = Fin 1, si_is_sync = False\<rparr>] = [Inr [1], Inr [2, 3]]"
  using slice_samples_roundtrip [of "[\<lparr>si_size = 1, si_duration_s = Fin 1, si_is_sync = True\<rparr>,
     \<lparr>si_size = 2, si_duration_s = Fin 1, si_is_sync = False\<rparr>]" "[[1], [2, 3]]" "[]" "[]"]
  by (simp add: usize_max_def)

end
