(* ===== verification/Schema.thy ===== *)
theory Schema
  imports Float64
begin

text \<open>
  The normalized event schema (crates/clipline-events/src/schema.rs) and the mapping of a game
  clock onto the recording timeline (crates/clipline-events/src/sync.rs).  Strings are lists of
  bytes, so equality and the search for an ASCII character are those of UTF-8 text.
\<close>

datatype game_id = LeagueOfLegends | Valorant | Cs2 | Osu

datatype event_kind =
    GameStart | MinionsSpawning | FirstBrick | TurretKilled | InhibKilled | DragonKill
  | HeraldKill | BaronKill | ChampionKill | ChampionAssist | ChampionDeath | Multikill | Ace
  | FirstBlood | GameEnd | Other

record game_event =
  ge_game_id :: game_id
  ge_kind :: event_kind
  ge_actor :: string
  ge_victim :: "string option"
  ge_assisters :: "string list"
  ge_subtype :: "string option"
  ge_game_time_s :: f64
  ge_recording_offset_s :: "f64 option"
  ge_importance :: u8
  ge_involves_local_player :: bool

definition is_review_event :: "game_event \<Rightarrow> bool" where
  "is_review_event e \<longleftrightarrow> ge_kind e \<in>
     {ChampionKill, ChampionAssist, ChampionDeath, TurretKilled, DragonKill, HeraldKill, BaronKill}"

section \<open>Clock anchors\<close>

text \<open>An \<open>Instant\<close> is a number of nanoseconds on the monotonic clock.\<close>

type_synonym instant = nat

datatype clock_sync_error = AnchorBeforeRecordingStart

record clock_anchor =
  ca_game_time_s :: f64
  ca_sampled_at :: instant

definition nanos_per_sec :: nat where
  "nanos_per_sec = 1000000000"

text \<open>\<open>Duration::as_secs_f64\<close>.\<close>

definition as_secs_f64 :: "nat \<Rightarrow> f64" where
  "as_secs_f64 nanos = fadd (f64_of_nat (nanos div nanos_per_sec))
     (fdiv (f64_of_nat (nanos mod nanos_per_sec)) (f64_of_nat nanos_per_sec))"

definition recording_offset_s ::
  "f64 \<Rightarrow> clock_anchor \<Rightarrow> instant \<Rightarrow> f64 \<Rightarrow> clock_sync_error + f64" where
  "recording_offset_s event_time_s anchor recording_t0 emit_latency_s =
     (if ca_sampled_at anchor < recording_t0 then Inl AnchorBeforeRecordingStart
      else Inr (fsub (fadd (fsub event_time_s (ca_game_time_s anchor))
                  (as_secs_f64 (ca_sampled_at anchor - recording_t0))) emit_latency_s))"

lemma recording_offset_error_iff:
  "(\<exists>e. recording_offset_s t a t0 l = Inl e) \<longleftrightarrow> ca_sampled_at a < t0"
  by (simp add: recording_offset_s_def)

text \<open>Events keep their order on the timeline.\<close>

lemma recording_offset_mono:
  assumes "fle t t'" and "recording_offset_s t a t0 l = Inr x" "recording_offset_s t' a t0 l = Inr y"
    and "x \<noteq> NaN" "y \<noteq> NaN"
  shows "fle x y"
proof -
  let ?g = "ca_game_time_s a" and ?e = "as_secs_f64 (ca_sampled_at a - t0)"
  have x: "x = fsub (fadd (fsub t ?g) ?e) l" and y: "y = fsub (fadd (fsub t' ?g) ?e) l"
    using assms(2,3) by (auto simp: recording_offset_s_def split: if_splits)
  have nn: "fadd (fsub t ?g) ?e \<noteq> NaN" "fadd (fsub t' ?g) ?e \<noteq> NaN"
    "fsub t ?g \<noteq> NaN" "fsub t' ?g \<noteq> NaN"
    using assms(4,5) x y by (auto dest: fsub_not_nan fadd_not_nan)
  from assms(1) have "fle (fsub t ?g) (fsub t' ?g)"
    using nn(3,4) by (rule fsub_mono_left)
  then have "fle (fadd (fsub t ?g) ?e) (fadd (fsub t' ?g) ?e)"
    using nn(1,2) by (rule fadd_mono_left)
  then show ?thesis
    unfolding x y using assms(4,5) x y by (intro fsub_mono_left) auto
qed

end
