(* ===== verification/Markers.thy ===== *)
theory Markers
  imports Schema
begin

text \<open>
  Marker accumulation and extraction into clips (crates/clipline-events/src/markers.rs): the log
  of a recording session, its pruning as media is evicted, and the markers of a saved clip.
\<close>

record clip_marker =
  cm_t_s :: f64
  cm_event :: game_event

record clip_bookmark =
  cb_t_s :: f64

record player_participant =
  pp_player_name :: string
  pp_champion_name :: string
  pp_team :: string

record player_summoner_spell =
  ss_name :: string
  ss_asset_key :: string

record player_item =
  pi_id :: u32
  pi_name :: string
  pi_slot :: "u32 option"

record player_summary =
  ps_champion_name :: string
  ps_kills :: u32
  ps_deaths :: u32
  ps_assists :: u32
  ps_creep_score :: "u32 option"
  ps_game_time_s :: "u32 option"
  ps_player_name :: string
  ps_team :: string
  ps_participants :: "player_participant list"
  ps_summoner_spells :: "player_summoner_spell list"
  ps_items :: "player_item list"

record clip_audio_track =
  at_id :: string
  at_track_index :: u32
  at_label :: string
  at_kind :: "string option"

record clip_play =
  cp_game_id :: game_id
  cp_source :: string
  cp_external_id :: string
  cp_url :: "string option"
  cp_beatmap_id :: "u32 option"
  cp_beatmapset_id :: "u32 option"
  cp_cover_url :: "string option"
  cp_title :: string
  cp_artist :: string
  cp_difficulty :: string
  cp_mapper :: "string option"
  cp_star_rating :: "f64 option"
  cp_mods :: "string list"
  cp_rank :: "string option"
  cp_passed :: bool
  cp_accuracy :: "f64 option"
  cp_max_combo :: "u32 option"
  cp_total_score :: "u64 option"
  cp_pp :: "f64 option"
  cp_started_at :: "string option"
  cp_ended_at :: string
  cp_derived_start :: bool
  cp_t_start_s :: f64
  cp_t_end_s :: "f64 option"

record clip_markers =
  ck_recording_start_s :: f64
  ck_duration_s :: f64
  ck_player_summary :: "player_summary option"
  ck_audio_tracks :: "clip_audio_track list"
  ck_plays :: "clip_play list"
  ck_markers :: "clip_marker list"
  ck_bookmarks :: "clip_bookmark list"

record marker_log =
  ml_events :: "game_event list"
  ml_bookmarks :: "f64 list"
  ml_retained_from_s :: "f64 option"

definition marker_log_new :: marker_log where
  "marker_log_new = \<lparr>ml_events = [], ml_bookmarks = [], ml_retained_from_s = None\<rparr>"

definition behind_front :: "marker_log \<Rightarrow> f64 \<Rightarrow> bool" where
  "behind_front l offset_s =
     (case ml_retained_from_s l of None \<Rightarrow> False | Some retained \<Rightarrow> flt offset_s retained)"

definition log_push :: "marker_log \<Rightarrow> game_event \<Rightarrow> marker_log" where
  "log_push l event =
     (case ge_recording_offset_s event of None \<Rightarrow> l
      | Some offset_s \<Rightarrow> if behind_front l offset_s then l
                         else l\<lparr>ml_events := ml_events l @ [event]\<rparr>)"

definition log_push_bookmark :: "marker_log \<Rightarrow> f64 \<Rightarrow> marker_log" where
  "log_push_bookmark l offset_s =
     (if \<not> is_finite offset_s then l
      else if behind_front l offset_s then l
      else l\<lparr>ml_bookmarks := ml_bookmarks l @ [offset_s]\<rparr>)"

definition log_retain_from :: "marker_log \<Rightarrow> f64 \<Rightarrow> marker_log" where
  "log_retain_from l retained_from_s =
     (if \<not> is_finite retained_from_s then l
      else let retained = (case ml_retained_from_s l of None \<Rightarrow> retained_from_s
             | Some current \<Rightarrow> fmax current retained_from_s)
           in l\<lparr>ml_retained_from_s := Some retained,
                ml_events := filter (\<lambda>e. case ge_recording_offset_s e of None \<Rightarrow> False
                  | Some off \<Rightarrow> fle retained off) (ml_events l),
                ml_bookmarks := filter (\<lambda>off. fle retained off) (ml_bookmarks l)\<rparr>)"

definition log_len :: "marker_log \<Rightarrow> nat" where
  "log_len l = length (ml_events l)"

definition marker_at :: "f64 \<Rightarrow> f64 \<Rightarrow> game_event \<Rightarrow> clip_marker option" where
  "marker_at start_s end_s e =
     (case ge_recording_offset_s e of None \<Rightarrow> None
      | Some off \<Rightarrow> if fle start_s off \<and> flt off end_s
                    then Some \<lparr>cm_t_s = fsub off start_s, cm_event = e\<rparr> else None)"

definition log_clip_markers :: "marker_log \<Rightarrow> f64 \<Rightarrow> f64 \<Rightarrow> clip_markers" where
  "log_clip_markers l start_s end_s =
     (let markers = List.map_filter (marker_at start_s end_s) (ml_events l);
          bookmarks = map (\<lambda>off. \<lparr>cb_t_s = fsub off start_s\<rparr>)
            (filter (\<lambda>off. fle start_s off \<and> flt off end_s) (ml_bookmarks l))
      in \<lparr>ck_recording_start_s = start_s, ck_duration_s = fsub end_s start_s,
          ck_player_summary = None, ck_audio_tracks = [], ck_plays = [], ck_markers = markers,
          ck_bookmarks = sort_by (\<lambda>a b. f64_total_le (cb_t_s a) (cb_t_s b)) bookmarks\<rparr>)"

section \<open>The log's invariant\<close>

text \<open>Every event is anchored, and nothing in the log lies behind the retained front.\<close>

definition log_inv :: "marker_log \<Rightarrow> bool" where
  "log_inv l \<longleftrightarrow>
     (\<forall>e \<in> set (ml_events l). \<exists>off. ge_recording_offset_s e = Some off \<and> \<not> behind_front l off)
     \<and> (\<forall>off \<in> set (ml_bookmarks l). is_finite off \<and> \<not> behind_front l off)
     \<and> (\<forall>r. ml_retained_from_s l = Some r \<longrightarrow> is_finite r)"

lemma behind_front_update [simp]:
  "behind_front (l\<lparr>ml_events := es\<rparr>) = behind_front l"
  "behind_front (l\<lparr>ml_bookmarks := bs\<rparr>) = behind_front l"
  by (simp_all add: behind_front_def fun_eq_iff)

lemma log_inv_new: "log_inv marker_log_new"
  by (simp add: log_inv_def marker_log_new_def)

lemma log_inv_push: "log_inv l \<Longrightarrow> log_inv (log_push l e)"
  by (auto simp: log_inv_def log_push_def split: option.splits)

lemma log_inv_push_bookmark: "log_inv l \<Longrightarrow> log_inv (log_push_bookmark l off)"
  by (auto simp: log_inv_def log_push_bookmark_def)

lemma fle_not_flt: "fle a b \<Longrightarrow> \<not> flt b a"
  by (auto simp: fle_def flt_def)

lemma is_finite_fmax': "is_finite x \<Longrightarrow> is_finite y \<Longrightarrow> is_finite (fmax x y)"
  by (simp add: fmax_def)

lemma log_inv_retain: "log_inv l \<Longrightarrow> log_inv (log_retain_from l r)"
  by (auto simp: log_inv_def log_retain_from_def behind_front_def Let_def is_finite_fmax'
      dest!: fle_not_flt split: option.splits if_splits)

datatype log_op = LogPush game_event | LogBookmark f64 | LogRetain f64

fun log_step :: "marker_log \<Rightarrow> log_op \<Rightarrow> marker_log" where
  "log_step l (LogPush e) = log_push l e"
| "log_step l (LogBookmark off) = log_push_bookmark l off"
| "log_step l (LogRetain r) = log_retain_from l r"

lemma log_run_inv: "log_inv l \<Longrightarrow> log_inv (foldl log_step l ops)"
proof (induction ops arbitrary: l)
  case (Cons op ops)
  then have "log_inv (log_step l op)"
    by (cases op) (auto intro: log_inv_push log_inv_push_bookmark log_inv_retain)
  then show ?case by (simp add: Cons.IH)
qed simp

text \<open>The retained front only moves forward.\<close>

lemma log_step_front_mono:
  assumes "ml_retained_from_s l = Some a" "a \<noteq> NaN"
  shows "\<exists>b. ml_retained_from_s (log_step l op) = Some b \<and> fle a b"
proof (cases op)
  case (LogPush e)
  with assms show ?thesis by (auto simp: log_push_def fle_refl_iff split: option.splits)
next
  case (LogBookmark off)
  with assms show ?thesis by (auto simp: log_push_bookmark_def fle_refl_iff)
next
  case (LogRetain r)
  with assms fle_fmax1 [of a r] show ?thesis by (auto simp: log_retain_from_def Let_def fle_refl_iff)
qed

section \<open>Markers of a clip\<close>

lemma clip_markers_set:
  "m \<in> set (ck_markers (log_clip_markers l s e)) \<longleftrightarrow>
     (\<exists>ev \<in> set (ml_events l). \<exists>off. ge_recording_offset_s ev = Some off \<and> fle s off \<and> flt off e
        \<and> m = \<lparr>cm_t_s = fsub off s, cm_event = ev\<rparr>)"
  by (auto simp: log_clip_markers_def Let_def List.map_filter_def marker_at_def image_iff
      split: option.splits if_splits)

lemma clip_marker_range:
  assumes m: "m \<in> set (ck_markers (log_clip_markers l s e))" and fin: "is_finite s" "is_finite e"
  shows "fle (Fin 0) (cm_t_s m)" and "fle (cm_t_s m) (ck_duration_s (log_clip_markers l s e))"
proof -
  from m obtain off where off: "fle s off" "flt off e" "cm_t_s m = fsub off s"
    by (auto simp: clip_markers_set)
  have nn: "off \<noteq> NaN" "e \<noteq> NaN" "s \<noteq> NaN" using off by (auto simp: fle_def flt_def)
  have "fsub off s \<noteq> NaN" "fsub e s \<noteq> NaN"
    using nn fin by (auto simp: fsub_def fadd_def fneg_def is_finite_def split: f64.splits)
  then show "fle (Fin 0) (cm_t_s m)"
    and "fle (cm_t_s m) (ck_duration_s (log_clip_markers l s e))"
    using off flt_imp_fle [OF off(2)]
    by (auto simp: log_clip_markers_def Let_def intro: fsub_nonneg fsub_mono_left)
qed

lemma clip_bookmarks_sorted:
  "sorted_wrt (\<lambda>a b. f64_total_le (cb_t_s a) (cb_t_s b)) (ck_bookmarks (log_clip_markers l s e))"
  unfolding log_clip_markers_def Let_def clip_markers.simps
  by (rule sorted_sort_by) (use f64_total_le_trans f64_total_le_linear in blast)+

lemma clip_bookmarks_mset:
  "mset (ck_bookmarks (log_clip_markers l s e)) = image_mset (\<lambda>off. \<lparr>cb_t_s = fsub off s\<rparr>)
     (filter_mset (\<lambda>off. fle s off \<and> flt off e) (mset (ml_bookmarks l)))"
  by (simp add: log_clip_markers_def Let_def)

text \<open>Pruning at a front that no clip will reach back over does not change the clip.\<close>

lemma retain_keeps_clip:
  assumes front: "fle r s" "\<And>c. ml_retained_from_s l = Some c \<Longrightarrow> fle c s"
  shows "log_clip_markers (log_retain_from l r) s e = log_clip_markers l s e"
proof -
  define q where "q = (case ml_retained_from_s l of None \<Rightarrow> r | Some c \<Rightarrow> fmax c r)"
  have q: "fle q s" using front by (auto simp: q_def fmax_def split: option.splits)
  have evs: "List.map_filter (marker_at s e) (filter (\<lambda>ev. case ge_recording_offset_s ev of
      None \<Rightarrow> False | Some off \<Rightarrow> fle q off) evs) = List.map_filter (marker_at s e) evs" for evs
    by (induction evs) (use q in \<open>auto simp: marker_at_def map_filter_simps
        split: option.splits intro: fle_trans\<close>)
  have bms: "filter (\<lambda>off. fle q off \<and> fle s off \<and> flt off e) bs
      = filter (\<lambda>off. fle s off \<and> flt off e) bs" for bs
    using q by (induction bs) (auto intro: fle_trans)
  show ?thesis
    by (cases "is_finite r")
      (simp_all add: log_clip_markers_def log_retain_from_def Let_def evs bms flip: q_def)
qed

end
