(* ===== verification/Lol_Tracker.thy ===== *)
theory Lol_Tracker
  imports Schema
begin

text \<open>
  The League of Legends adapter: raw Live Client events (crates/clipline-lol/src/raw.rs), the
  watermark over their identifiers (tracker.rs) and the queue table (queue.rs).
\<close>

section \<open>Raw events\<close>

record raw_event =
  re_event_id :: u64
  re_event_name :: string
  re_event_time :: f64
  re_killer_name :: "string option"
  re_victim_name :: "string option"
  re_assisters :: "string list"
  re_kill_streak :: "u32 option"
  re_dragon_type :: "string option"
  re_stolen :: "string option"
  re_turret_killed :: "string option"
  re_inhib_killed :: "string option"
  re_acer :: "string option"
  re_acing_team :: "string option"
  re_recipient :: "string option"
  re_result :: "string option"

section \<open>The event watermark\<close>

record event_tracker =
  et_last_seen :: "u64 option"
  et_last_game_time_s :: "f64 option"

definition tracker_default :: event_tracker where
  "tracker_default = \<lparr>et_last_seen = None, et_last_game_time_s = None\<rparr>"

definition clock_regression_grace_s :: f64 where
  "clock_regression_grace_s = Fin 5"

text \<open>\<open>events.iter().map(|e| e.event_id).max()\<close>\<close>

fun max_event_id :: "raw_event list \<Rightarrow> u64 option" where
  "max_event_id [] = None"
| "max_event_id (e # es) = Some (foldl (\<lambda>m e. max m (re_event_id e)) (re_event_id e) es)"

definition clock_regressed :: "event_tracker \<Rightarrow> f64 \<Rightarrow> bool" where
  "clock_regressed t game_time_s =
     (case et_last_game_time_s t of None \<Rightarrow> False
      | Some previous \<Rightarrow> is_finite game_time_s \<and> is_finite previous
          \<and> flt (fadd game_time_s clock_regression_grace_s) previous)"

definition event_ids_regressed :: "event_tracker \<Rightarrow> raw_event list \<Rightarrow> bool" where
  "event_ids_regressed t events =
     (case et_last_seen t of None \<Rightarrow> False
      | Some seen \<Rightarrow> (case max_event_id events of None \<Rightarrow> False | Some maximum \<Rightarrow> maximum < seen))"

definition prepare_poll :: "event_tracker \<Rightarrow> f64 \<Rightarrow> raw_event list \<Rightarrow> event_tracker \<times> bool" where
  "prepare_poll t game_time_s events =
     (let new_match = (clock_regressed t game_time_s \<or> event_ids_regressed t events);
          t1 = (if new_match then t\<lparr>et_last_seen := None\<rparr> else t);
          t2 = (if is_finite game_time_s \<and> fle (Fin 0) game_time_s
                then t1\<lparr>et_last_game_time_s := Some game_time_s\<rparr> else t1)
      in (t2, new_match))"

definition fresh :: "event_tracker \<Rightarrow> raw_event list \<Rightarrow> event_tracker \<times> raw_event list" where
  "fresh t events =
     (let out = sort_by (\<lambda>a b. re_event_id a \<le> re_event_id b)
            (filter (\<lambda>e. case et_last_seen t of None \<Rightarrow> True | Some seen \<Rightarrow> seen < re_event_id e) events)
      in (if out = [] then t else t\<lparr>et_last_seen := Some (re_event_id (last out))\<rparr>, out))"

text \<open>One poll as the poller drives the tracker, and a sequence of polls.\<close>

definition tracker_poll ::
  "event_tracker \<Rightarrow> f64 \<times> raw_event list \<Rightarrow> event_tracker \<times> raw_event list" where
  "tracker_poll t p = fresh (fst (prepare_poll t (fst p) (snd p))) (snd p)"

fun tracker_polls ::
  "event_tracker \<Rightarrow> (f64 \<times> raw_event list) list \<Rightarrow> event_tracker \<times> raw_event list list" where
  "tracker_polls t [] = (t, [])"
| "tracker_polls t (p # ps) =
     (case tracker_poll t p of (t', out) \<Rightarrow>
        case tracker_polls t' ps of (t'', outs) \<Rightarrow> (t'', out # outs))"

abbreviation ids_ascending :: "raw_event list \<Rightarrow> bool" where
  "ids_ascending \<equiv> sorted_wrt (\<lambda>a b. re_event_id a < re_event_id b)"

lemma fresh_sorted: "sorted (map re_event_id (snd (fresh t events)))"
proof -
  have "sorted_wrt (\<lambda>a b. re_event_id a \<le> re_event_id b) (snd (fresh t events))"
    unfolding fresh_def Let_def snd_conv by (rule sorted_sort_by) auto
  then show ?thesis by (simp add: sorted_wrt_map)
qed

lemma fresh_set:
  "set (snd (fresh t events)) = {e \<in> set events. \<forall>seen. et_last_seen t = Some seen \<longrightarrow> seen < re_event_id e}"
  by (auto simp: fresh_def Let_def split: option.splits)

lemma fresh_mset:
  "mset (snd (fresh t events)) = filter_mset (\<lambda>e. case et_last_seen t of None \<Rightarrow> True
     | Some seen \<Rightarrow> seen < re_event_id e) (mset events)"
  by (simp add: fresh_def Let_def)

lemma fresh_idle: "et_last_seen t = Some w \<Longrightarrow> \<forall>e \<in> set events. re_event_id e \<le> w \<Longrightarrow>
  fresh t events = (t, [])"
  by (auto simp: fresh_def Let_def sort_by_def filter_empty_conv not_less)

section \<open>Exactly-once delivery\<close>

definition watermark_at :: "event_tracker \<Rightarrow> raw_event list \<Rightarrow> bool" where
  "watermark_at t seen \<longleftrightarrow>
     et_last_seen t = (if seen = [] then None else Some (re_event_id (last seen)))"

lemma ids_ascending_le_last:
  "ids_ascending xs \<Longrightarrow> x \<in> set xs \<Longrightarrow> re_event_id x \<le> re_event_id (last xs)"
  by (induction xs) (auto simp: less_imp_le)

lemma fresh_suffix:
  assumes asc: "ids_ascending (seen @ new)" and wm: "watermark_at t seen"
  shows "snd (fresh t (seen @ new)) = new" and "watermark_at (fst (fresh t (seen @ new))) (seen @ new)"
proof -
  let ?p = "\<lambda>e. case et_last_seen t of None \<Rightarrow> True | Some w \<Rightarrow> w < re_event_id e"
  have "filter ?p seen = []"
    using asc wm ids_ascending_le_last [of seen]
    by (auto simp: watermark_at_def filter_empty_conv sorted_wrt_append not_less)
  moreover have "filter ?p new = new"
    using asc wm by (auto simp: watermark_at_def filter_id_conv sorted_wrt_append)
  moreover have "sort_by (\<lambda>a b. re_event_id a \<le> re_event_id b) new = new"
    using asc by (intro sort_by_sorted)
      (auto simp: sorted_wrt_append intro: sorted_wrt_mono_rel [of new, rotated])
  ultimately show *: "snd (fresh t (seen @ new)) = new"
    by (simp add: fresh_def Let_def)
  show "watermark_at (fst (fresh t (seen @ new))) (seen @ new)"
    using wm * by (auto simp: fresh_def Let_def watermark_at_def)
qed

lemma foldl_max_ge: "(m :: u64) \<le> foldl (\<lambda>m e. max m (re_event_id e)) m es"
  by (induction es arbitrary: m) (auto intro: order_trans [OF max.cobounded1])

lemma foldl_max_in: "e \<in> set es \<Longrightarrow> re_event_id e \<le> foldl (\<lambda>m e. max m (re_event_id e)) m es"
proof (induction es arbitrary: m)
  case (Cons x es)
  then show ?case
    using foldl_max_ge [of "max m (re_event_id x)" es] by (auto intro: order_trans)
qed simp

lemma max_event_id_ge: "e \<in> set es \<Longrightarrow> \<exists>m. max_event_id es = Some m \<and> re_event_id e \<le> m"
  by (cases es) (auto intro: foldl_max_in foldl_max_ge)

lemma no_id_regression: "watermark_at t seen \<Longrightarrow> \<not> event_ids_regressed t (seen @ new)"
  using max_event_id_ge [of "last seen" "seen @ new"]
  by (auto simp: watermark_at_def event_ids_regressed_def not_less split: option.splits)

text \<open>
  The polls of one match: each response extends the previous one, and the game clock does not
  run back by more than the grace.
\<close>

fun match_polls :: "event_tracker \<Rightarrow> raw_event list \<Rightarrow> (f64 \<times> raw_event list) list \<Rightarrow> bool" where
  "match_polls t seen [] = True"
| "match_polls t seen (p # ps) =
     (\<not> clock_regressed t (fst p) \<and> take (length seen) (snd p) = seen \<and> ids_ascending (snd p)
      \<and> match_polls (fst (tracker_poll t p)) (snd p) ps)"

lemma tracker_polls_exactly_once:
  "watermark_at t seen \<Longrightarrow> match_polls t seen ps \<Longrightarrow>
     seen @ concat (snd (tracker_polls t ps)) = (if ps = [] then seen else snd (last ps))"
proof (induction ps arbitrary: t seen)
  case Nil
  then show ?case by simp
next
  case (Cons p ps)
  obtain new where new: "snd p = seen @ new"
    using Cons.prems(2) by (metis append_take_drop_id match_polls.simps(2))
  let ?t = "fst (prepare_poll t (fst p) (snd p))"
  have "watermark_at ?t seen"
    using Cons.prems new no_id_regression [of t seen new]
    by (simp add: prepare_poll_def Let_def watermark_at_def)
  then have out: "snd (tracker_poll t p) = new" and wm: "watermark_at (fst (tracker_poll t p)) (snd p)"
    using Cons.prems new fresh_suffix [of seen new ?t] by (simp_all add: tracker_poll_def)
  have "match_polls (fst (tracker_poll t p)) (snd p) ps" using Cons.prems by simp
  from Cons.IH [OF wm this] out new show ?case
    by (auto split: prod.splits)
qed

text \<open>A detected new match delivers everything the response holds.\<close>

lemma new_match_delivers_all:
  "snd (prepare_poll t g es) \<Longrightarrow> mset (snd (tracker_poll t (g, es))) = mset es"
  by (auto simp: prepare_poll_def Let_def tracker_poll_def fresh_mset)

section \<open>Queues\<close>

datatype league_queue_category =
  RankedSoloDuo | RankedFlex | Normal | Aram | Arena | Custom | Replay | OtherQueue

record league_queue =
  lq_id :: u32
  lq_category :: league_queue_category
  lq_label :: string

definition replay_queue_id :: u32 where
  "replay_queue_id = - 1"

definition queue_from_id :: "u32 \<Rightarrow> league_queue" where
  "queue_from_id n =
     (let (category, label) =
        (if n = 0 then (Custom, ''Custom'')
         else if n = 400 then (Normal, ''Normal Draft'')
         else if n = 420 then (RankedSoloDuo, ''Ranked Solo/Duo'')
         else if n = 430 then (Normal, ''Normal Blind'')
         else if n = 440 then (RankedFlex, ''Ranked Flex'')
         else if n = 450 then (Aram, ''ARAM'')
         else if n = 480 then (Normal, ''Swiftplay'')
         else if n = 490 then (Normal, ''Quickplay'')
         else if n = 700 then (OtherQueue, ''Clash'')
         else if n = 720 then (OtherQueue, ''ARAM Clash'')
         else if n = 900 then (OtherQueue, ''ARURF'')
         else if n = 1020 then (OtherQueue, ''One for All'')
         else if n = 1300 then (OtherQueue, ''Nexus Blitz'')
         else if n = 1400 then (OtherQueue, ''Ultimate Spellbook'')
         else if n = 1700 \<or> n = 1710 then (Arena, ''Arena'')
         else if n = 1900 then (OtherQueue, ''Pick URF'')
         else if n = 2300 then (OtherQueue, ''Brawl'')
         else if n = 2400 then (Aram, ''ARAM: Mayhem'')
         else if n = replay_queue_id then (Replay, ''Replay'')
         else (OtherQueue, ''Other''))
      in \<lparr>lq_id = n, lq_category = category, lq_label = label\<rparr>)"

definition queue_replay :: league_queue where
  "queue_replay = queue_from_id replay_queue_id"

text \<open>Only the sentinel is a replay, so no live queue is taken for one.\<close>

lemma queue_replay_iff: "lq_category (queue_from_id n) = Replay \<longleftrightarrow> n = replay_queue_id"
  by (simp add: queue_from_id_def replay_queue_id_def)

end
