(* ===== verification/Lol_Normalize.thy ===== *)
theory Lol_Normalize
  imports Lol_Tracker
begin

text \<open>
  Normalization of raw events (crates/clipline-lol/src/normalize.rs) and one poll
  (crates/clipline-lol/src/poller.rs).  The Unicode tables behind \<open>str::trim\<close> and
  \<open>str::to_lowercase\<close> are an argument, \<open>text_ops\<close>; nothing is assumed of them.
\<close>

record text_ops =
  tx_trim :: "string \<Rightarrow> string"
  tx_to_lowercase :: "string \<Rightarrow> string"

text \<open>\<open>str::split_once('#')\<close>\<close>

definition split_once_hash :: "string \<Rightarrow> (string \<times> string) option" where
  "split_once_hash s = (case position (\<lambda>c. c = CHR ''#'') s of None \<Rightarrow> None
     | Some i \<Rightarrow> Some (take i s, drop (Suc i) s))"

record player_name_identity =
  pn_game_name :: string
  pn_full_riot_id :: "string option"

definition identity_new :: "text_ops \<Rightarrow> string \<Rightarrow> player_name_identity" where
  "identity_new tx name =
     (let trimmed = tx_trim tx name;
          (game_name0, tagline) = (case split_once_hash trimmed of None \<Rightarrow> (trimmed, None)
            | Some (g, t) \<Rightarrow> (tx_trim tx g, Some (tx_trim tx t)));
          game_name = tx_to_lowercase tx game_name0;
          full_riot_id = (case tagline of None \<Rightarrow> None
            | Some t \<Rightarrow> if game_name \<noteq> [] \<and> t \<noteq> [] \<and> CHR ''#'' \<notin> set t
                        then Some (game_name @ ''#'' @ tx_to_lowercase tx t) else None)
      in \<lparr>pn_game_name = game_name, pn_full_riot_id = full_riot_id\<rparr>)"

definition identity_is_empty :: "player_name_identity \<Rightarrow> bool" where
  "identity_is_empty p = (pn_game_name p = [])"

definition identity_has_tagline :: "player_name_identity \<Rightarrow> bool" where
  "identity_has_tagline p = (pn_full_riot_id p \<noteq> None)"

definition identity_exact_match :: "text_ops \<Rightarrow> player_name_identity \<Rightarrow> string \<Rightarrow> bool" where
  "identity_exact_match tx p candidate =
     (case (pn_full_riot_id p, pn_full_riot_id (identity_new tx candidate)) of
        (Some local, Some other) \<Rightarrow> local = other | _ \<Rightarrow> False)"

definition identity_matches :: "text_ops \<Rightarrow> player_name_identity \<Rightarrow> string \<Rightarrow> bool" where
  "identity_matches tx p candidate =
     (if identity_is_empty p then False
      else let c = identity_new tx candidate
           in if identity_is_empty c then False
              else case (pn_full_riot_id p, pn_full_riot_id c) of
                     (Some local, Some other) \<Rightarrow> local = other
                   | _ \<Rightarrow> pn_game_name p = pn_game_name c)"

definition local_player_boost :: u8 where
  "local_player_boost = 2"

definition base_importance :: "event_kind \<Rightarrow> u8" where
  "base_importance kind =
     (case kind of Ace \<Rightarrow> 8 | Multikill \<Rightarrow> 7 | BaronKill \<Rightarrow> 7 | DragonKill \<Rightarrow> 6 | FirstBlood \<Rightarrow> 6
      | ChampionKill \<Rightarrow> 5 | ChampionAssist \<Rightarrow> 5 | ChampionDeath \<Rightarrow> 5 | InhibKilled \<Rightarrow> 5
      | HeraldKill \<Rightarrow> 5 | TurretKilled \<Rightarrow> 4 | FirstBrick \<Rightarrow> 4 | GameEnd \<Rightarrow> 3
      | GameStart \<Rightarrow> 1 | MinionsSpawning \<Rightarrow> 1 | Other \<Rightarrow> 1)"

definition kind_of_name :: "string \<Rightarrow> event_kind" where
  "kind_of_name n =
     (if n = ''GameStart'' then GameStart else if n = ''MinionsSpawning'' then MinionsSpawning
      else if n = ''FirstBrick'' then FirstBrick else if n = ''TurretKilled'' then TurretKilled
      else if n = ''InhibKilled'' then InhibKilled else if n = ''DragonKill'' then DragonKill
      else if n = ''HeraldKill'' then HeraldKill else if n = ''BaronKill'' then BaronKill
      else if n = ''ChampionKill'' then ChampionKill else if n = ''Multikill'' then Multikill
      else if n = ''Ace'' then Ace else if n = ''FirstBlood'' then FirstBlood
      else if n = ''GameEnd'' then GameEnd else Other)"

definition or_else :: "'a option \<Rightarrow> 'a option \<Rightarrow> 'a option" where
  "or_else a b = (case a of None \<Rightarrow> b | Some _ \<Rightarrow> a)"

definition unwrap_or :: "'a \<Rightarrow> 'a option \<Rightarrow> 'a" where
  "unwrap_or d a = (case a of None \<Rightarrow> d | Some x \<Rightarrow> x)"

definition normalize_event :: "text_ops \<Rightarrow> raw_event \<Rightarrow> string \<Rightarrow> game_event" where
  "normalize_event tx raw local_player =
     (let kind0 = kind_of_name (re_event_name raw);
          actor0 = unwrap_or [] (or_else (or_else (re_killer_name raw) (re_acer raw)) (re_recipient raw));
          me = identity_new tx local_player;
          actor_is_local = identity_matches tx me actor0;
          local_assister = List.find (identity_matches tx me) (re_assisters raw);
          assisted = (local_assister \<noteq> None);
          was_victim = (case re_victim_name raw of None \<Rightarrow> False | Some v \<Rightarrow> identity_matches tx me v);
          kind = (if kind0 = ChampionKill \<and> was_victim then ChampionDeath
                  else if kind0 = ChampionKill \<and> assisted \<and> \<not> actor_is_local then ChampionAssist
                  else kind0);
          involves = (if kind = ChampionAssist \<or> kind = ChampionDeath then True
                      else if kind = ChampionKill then actor_is_local
                      else actor_is_local \<or> assisted \<or> was_victim);
          subtype = (case kind of DragonKill \<Rightarrow> re_dragon_type raw
            | Multikill \<Rightarrow> map_option (\<lambda>k. decimal (unat k)) (re_kill_streak raw)
            | TurretKilled \<Rightarrow> re_turret_killed raw | InhibKilled \<Rightarrow> re_inhib_killed raw
            | Ace \<Rightarrow> re_acing_team raw | GameEnd \<Rightarrow> re_result raw | _ \<Rightarrow> None);
          importance = min (base_importance kind + (if involves then local_player_boost else 0)) 10;
          actor = (if kind = ChampionAssist then unwrap_or (tx_trim tx local_player) local_assister
                   else actor0)
      in \<lparr>ge_game_id = LeagueOfLegends, ge_kind = kind, ge_actor = actor,
          ge_victim = re_victim_name raw, ge_assisters = re_assisters raw, ge_subtype = subtype,
          ge_game_time_s = re_event_time raw, ge_recording_offset_s = None,
          ge_importance = importance, ge_involves_local_player = involves\<rparr>)"

section \<open>Identity\<close>

text \<open>Two names denote one player symmetrically, although not transitively.\<close>

lemma identity_matches_sym:
  "identity_matches tx (identity_new tx a) b = identity_matches tx (identity_new tx b) a"
  by (auto simp: identity_matches_def Let_def split: option.splits)

lemma identity_exact_implies_match:
  assumes "identity_exact_match tx (identity_new tx a) b"
  shows "identity_matches tx (identity_new tx a) b"
proof -
  have "pn_full_riot_id (identity_new tx x) = Some y \<Longrightarrow> \<not> identity_is_empty (identity_new tx x)" for x y
    by (auto simp: identity_new_def identity_is_empty_def Let_def
        split: prod.splits option.splits if_splits)
  with assms show ?thesis
    by (auto simp: identity_exact_match_def identity_matches_def Let_def split: option.splits)
qed

section \<open>Classification\<close>

lemma kind_of_name_neq: "kind_of_name n \<noteq> ChampionAssist" "kind_of_name n \<noteq> ChampionDeath"
  by (simp_all add: kind_of_name_def)

text \<open>The importance never needs the clamp, and the local boost is exactly two.\<close>

lemma normalize_importance:
  "unat (ge_importance (normalize_event tx raw me)) =
     unat (base_importance (ge_kind (normalize_event tx raw me)))
       + (if ge_involves_local_player (normalize_event tx raw me) then 2 else 0)
   \<and> unat (ge_importance (normalize_event tx raw me)) \<le> 10"
proof -
  have clamp: "unat (min (base_importance k + (if b then local_player_boost else 0)) 10)
      = unat (base_importance k) + (if b then 2 else 0)
    \<and> unat (min (base_importance k + (if b then local_player_boost else 0)) 10) \<le> 10" for k b
    by (cases k; cases b) (simp_all add: base_importance_def local_player_boost_def min_def)
  have importance: "ge_importance (normalize_event tx raw me)
      = min (base_importance (ge_kind (normalize_event tx raw me))
          + (if ge_involves_local_player (normalize_event tx raw me) then local_player_boost else 0)) 10"
    unfolding normalize_event_def Let_def game_event.simps ..
  show ?thesis unfolding importance by (rule clamp)
qed

text \<open>How a champion kill is split by the local player's part in it.\<close>

lemma normalize_champion_kill:
  fixes tx raw me
  defines "p \<equiv> identity_new tx me"
  defines "victim \<equiv> (\<exists>v. re_victim_name raw = Some v \<and> identity_matches tx p v)"
  defines "killer \<equiv> identity_matches tx p
      (unwrap_or [] (or_else (or_else (re_killer_name raw) (re_acer raw)) (re_recipient raw)))"
  defines "assist \<equiv> (\<exists>a \<in> set (re_assisters raw). identity_matches tx p a)"
  assumes name: "re_event_name raw = ''ChampionKill''"
  shows "ge_kind (normalize_event tx raw me) =
      (if victim then ChampionDeath else if assist \<and> \<not> killer then ChampionAssist else ChampionKill)"
    and "ge_involves_local_player (normalize_event tx raw me) = (victim \<or> assist \<or> killer)"
proof -
  have kind: "kind_of_name ''ChampionKill'' = ChampionKill" by (simp add: kind_of_name_def)
  have v: "(case re_victim_name raw of None \<Rightarrow> False | Some v \<Rightarrow> identity_matches tx p v) = victim"
    by (simp add: victim_def split: option.splits)
  have a: "(List.find (identity_matches tx p) (re_assisters raw) \<noteq> None) = assist"
    by (auto simp: assist_def find_None_iff)
  show "ge_kind (normalize_event tx raw me) =
      (if victim then ChampionDeath else if assist \<and> \<not> killer then ChampionAssist else ChampionKill)"
    and "ge_involves_local_player (normalize_event tx raw me) = (victim \<or> assist \<or> killer)"
    unfolding normalize_event_def Let_def name kind game_event.simps p_def [symmetric] v a
      killer_def [symmetric]
    by auto
qed

text \<open>An assist names the local assister as its actor.\<close>

lemma normalize_assist_actor:
  assumes "ge_kind (normalize_event tx raw me) = ChampionAssist"
  shows "ge_actor (normalize_event tx raw me) \<in> set (re_assisters raw)
    \<and> identity_matches tx (identity_new tx me) (ge_actor (normalize_event tx raw me))"
proof -
  have "List.find (identity_matches tx (identity_new tx me)) (re_assisters raw) \<noteq> None"
    using assms kind_of_name_neq by (auto simp: normalize_event_def Let_def split: if_splits)
  then obtain a where "List.find (identity_matches tx (identity_new tx me)) (re_assisters raw) = Some a"
    by auto
  moreover from this assms have "ge_actor (normalize_event tx raw me) = a"
    by (simp add: normalize_event_def Let_def unwrap_or_def)
  ultimately show ?thesis by (auto simp: find_Some_iff)
qed

section \<open>One poll\<close>

datatype poll_error = RequestFailed | InvalidResponse

record poll_batch =
  pb_events :: "game_event list"
  pb_new_match :: bool

text \<open>
  The responses of the Live Client (a game time, then the event list) and the instant of the
  sample are inputs.  A failed request ends the poll before the tracker is touched.
\<close>

definition anchored ::
  "text_ops \<Rightarrow> clock_anchor \<Rightarrow> instant \<Rightarrow> f64 \<Rightarrow> string \<Rightarrow> raw_event \<Rightarrow> (poll_error, game_event) outcome" where
  "anchored tx anchor t0 emit_latency_s local_player raw =
     (case recording_offset_s (re_event_time raw) anchor t0 emit_latency_s of
        Inl _ \<Rightarrow> Inl (Err InvalidResponse)
      | Inr off \<Rightarrow> Inr ((normalize_event tx raw local_player)\<lparr>ge_recording_offset_s := Some off\<rparr>))"

definition poll_once_with_continuity ::
  "text_ops \<Rightarrow> unit + f64 \<Rightarrow> instant \<Rightarrow> unit + raw_event list \<Rightarrow> event_tracker \<Rightarrow> string \<Rightarrow> instant \<Rightarrow> f64
     \<Rightarrow> event_tracker \<times> (poll_error, poll_batch) outcome" where
  "poll_once_with_continuity tx game_time now data tracker local_player t0 emit_latency_s =
     (case game_time of
        Inl _ \<Rightarrow> (tracker, Inl (Err RequestFailed))
      | Inr game_time_s \<Rightarrow>
          let anchor = \<lparr>ca_game_time_s = game_time_s, ca_sampled_at = now\<rparr>
          in case recording_offset_s game_time_s anchor t0 (Fin 0) of
               Inl _ \<Rightarrow> (tracker, Inl (Err InvalidResponse))
             | Inr _ \<Rightarrow>
                 (case data of
                    Inl _ \<Rightarrow> (tracker, Inl (Err RequestFailed))
                  | Inr events \<Rightarrow>
                      let (t1, new_match) = prepare_poll tracker game_time_s events;
                          (t2, out) = fresh t1 events
                      in (t2, bind_out (collect (anchored tx anchor t0 emit_latency_s local_player) out)
                            (\<lambda>evs. Inr \<lparr>pb_events = evs, pb_new_match = new_match\<rparr>))))"

lemma anchored_after_t0:
  "t0 \<le> ca_sampled_at a \<Longrightarrow> \<exists>off. anchored tx a t0 l me raw =
     Inr ((normalize_event tx raw me)\<lparr>ge_recording_offset_s := Some off\<rparr>)"
  by (simp add: anchored_def recording_offset_s_def) blast

lemma collect_anchored:
  assumes "t0 \<le> ca_sampled_at a"
  shows "\<exists>evs. collect (anchored tx a t0 l me) raws = Inr evs
    \<and> map ge_game_time_s evs = map re_event_time raws
    \<and> (\<forall>e \<in> set evs. ge_recording_offset_s e \<noteq> None)"
proof (induction raws)
  case (Cons r raws)
  then obtain evs where "collect (anchored tx a t0 l me) raws = Inr evs"
    "map ge_game_time_s evs = map re_event_time raws" "\<forall>e \<in> set evs. ge_recording_offset_s e \<noteq> None"
    by blast
  moreover obtain off where "anchored tx a t0 l me r =
      Inr ((normalize_event tx r me)\<lparr>ge_recording_offset_s := Some off\<rparr>)"
    using anchored_after_t0 [OF assms] by blast
  moreover have "ge_game_time_s (normalize_event tx r me) = re_event_time r"
    by (simp add: normalize_event_def Let_def)
  ultimately show ?case by simp
qed simp

text \<open>A poll that fails leaves the tracker alone; one that succeeds advances it by one poll.\<close>

lemma poll_error_keeps_tracker:
  assumes "poll_once_with_continuity tx g now d t me t0 l = (t', Inl e)"
  shows "t' = t \<and> e \<noteq> Panic"
proof (cases "\<exists>gt es. g = Inr gt \<and> d = Inr es \<and> t0 \<le> now")
  case True
  then obtain gt es where g: "g = Inr gt" "d = Inr es" "t0 \<le> now" by blast
  obtain evs where "collect (anchored tx \<lparr>ca_game_time_s = gt, ca_sampled_at = now\<rparr> t0 l me)
      (snd (fresh (fst (prepare_poll t gt es)) es)) = Inr evs"
    using collect_anchored [of t0 "\<lparr>ca_game_time_s = gt, ca_sampled_at = now\<rparr>"] g(3) by force
  with assms g show ?thesis
    by (auto simp: poll_once_with_continuity_def Let_def recording_offset_s_def split: prod.splits)
next
  case False
  with assms show ?thesis
    by (auto simp: poll_once_with_continuity_def recording_offset_s_def Let_def
        split: sum.splits if_splits)
qed

lemma poll_ok_advances_tracker:
  assumes "poll_once_with_continuity tx g now d t me t0 l = (t', Inr b)"
  obtains gt es where "g = Inr gt" "d = Inr es" "t0 \<le> now" "t' = fst (tracker_poll t (gt, es))"
    "map ge_game_time_s (pb_events b) = map re_event_time (snd (tracker_poll t (gt, es)))"
    "\<forall>e \<in> set (pb_events b). ge_recording_offset_s e \<noteq> None"
    "pb_new_match b = snd (prepare_poll t gt es)"
proof -
  obtain gt es where g: "g = Inr gt" "d = Inr es" and t0: "t0 \<le> now"
    using assms by (cases g; cases d)
      (auto simp: poll_once_with_continuity_def recording_offset_s_def Let_def split: if_splits)
  from collect_anchored [of t0 "\<lparr>ca_game_time_s = gt, ca_sampled_at = now\<rparr>" tx l me
      "snd (tracker_poll t (gt, es))"] t0
  show thesis
    using assms g t0 that
    by (auto simp: poll_once_with_continuity_def recording_offset_s_def Let_def tracker_poll_def
        split: prod.splits)
qed

end
