(* ===== verification/Events_Properties.thy ===== *)
theory Events_Properties
  imports Markers Lol_Normalize
begin

text \<open>
  The properties of the event timeline (crates/clipline-events) and of the League of Legends
  adapter (crates/clipline-lol), each followed by an instance at a concrete input.
\<close>

section \<open>Concrete events\<close>

definition sample_raw :: "u64 \<Rightarrow> string \<Rightarrow> raw_event" where
  "sample_raw i n = \<lparr>re_event_id = i, re_event_name = n, re_event_time = Fin 0,
     re_killer_name = Some ''Ann'', re_victim_name = Some ''Bob'', re_assisters = [''Cat''],
     re_kill_streak = None, re_dragon_type = None, re_stolen = None, re_turret_killed = None,
     re_inhib_killed = None, re_acer = None, re_acing_team = None, re_recipient = None,
     re_result = None\<rparr>"

definition sample_event :: "rat \<Rightarrow> game_event" where
  "sample_event t = \<lparr>ge_game_id = LeagueOfLegends, ge_kind = Ace, ge_actor = [], ge_victim = None,
     ge_assisters = [], ge_subtype = None, ge_game_time_s = Fin 0,
     ge_recording_offset_s = Some (Fin t), ge_importance = 1, ge_involves_local_player = True\<rparr>"

definition sample_text :: text_ops where
  "sample_text = \<lparr>tx_trim = id, tx_to_lowercase = id\<rparr>"

lemma sample_raw_simps [simp]:
  "re_event_id (sample_raw i n) = i" "re_event_name (sample_raw i n) = n"
  "re_killer_name (sample_raw i n) = Some ''Ann''" "re_victim_name (sample_raw i n) = Some ''Bob''"
  "re_assisters (sample_raw i n) = [''Cat'']"
  by (simp_all add: sample_raw_def)

lemma sample_event_offset [simp]: "ge_recording_offset_s (sample_event t) = Some (Fin t)"
  by (simp add: sample_event_def)

section \<open>The recording timeline\<close>

text \<open>
  An event is placed on the recording's timeline exactly if the clock was sampled after the
  recording began, and placement keeps the order of the events' game times.
\<close>

theorem recording_offset_ordered:
  assumes "fle t t'"
  shows "(ca_sampled_at a < t0 \<longleftrightarrow> recording_offset_s t a t0 l = Inl AnchorBeforeRecordingStart)
    \<and> (\<forall>x y. recording_offset_s t a t0 l = Inr x \<and> recording_offset_s t' a t0 l = Inr y
         \<and> x \<noteq> NaN \<and> y \<noteq> NaN \<longrightarrow> fle x y)"
proof -
  have "ca_sampled_at a < t0 \<longleftrightarrow> recording_offset_s t a t0 l = Inl AnchorBeforeRecordingStart"
    by (simp add: recording_offset_s_def)
  with recording_offset_mono [OF assms, of a t0 l] show ?thesis by blast
qed

theorem recording_offset_ordered_witness:
  "recording_offset_s (Fin 1) \<lparr>ca_game_time_s = Fin 0, ca_sampled_at = 3\<rparr> 7 (Fin 0)
     = Inl AnchorBeforeRecordingStart"
  using recording_offset_ordered [of "Fin 1" "Fin 2" "\<lparr>ca_game_time_s = Fin 0, ca_sampled_at = 3\<rparr>" 7
      "Fin 0"]
  by (simp add: f64_eval)

section \<open>The marker log\<close>

text \<open>
  After any sequence of pushes, bookmarks and prunings of a new log, every event in it has a
  place on the timeline, every bookmark is finite, and nothing lies behind the pruned front.
\<close>

theorem marker_log_never_behind_front:
  "list_all (\<lambda>e. \<exists>off. ge_recording_offset_s e = Some off
        \<and> \<not> behind_front (foldl log_step marker_log_new ops) off)
      (ml_events (foldl log_step marker_log_new ops))
   \<and> list_all (\<lambda>off. is_finite off \<and> \<not> behind_front (foldl log_step marker_log_new ops) off)
      (ml_bookmarks (foldl log_step marker_log_new ops))"
  using log_run_inv [OF log_inv_new, of ops] by (simp add: log_inv_def list_all_iff)

text \<open>
  C35: the markers of a clip are exactly the logged events of its half-open range, each shifted to
  the clip's start; for finite limits every marker lies within the clip's duration.
\<close>

theorem clip_markers_exact:
  assumes "is_finite s" "is_finite e"
  shows "(m \<in> set (ck_markers (log_clip_markers l s e)) \<longleftrightarrow>
      (\<exists>ev off. ev \<in> set (ml_events l) \<and> ge_recording_offset_s ev = Some off \<and> fle s off \<and> flt off e
        \<and> m = \<lparr>cm_t_s = fsub off s, cm_event = ev\<rparr>))
    \<and> list_all (\<lambda>m. fle (Fin 0) (cm_t_s m) \<and> fle (cm_t_s m) (fsub e s))
        (ck_markers (log_clip_markers l s e))"
proof -
  have "ck_duration_s (log_clip_markers l s e) = fsub e s" by (simp add: log_clip_markers_def Let_def)
  then show ?thesis
    using clip_markers_set [of m l s e] clip_marker_range [OF _ assms, of _ l]
    by (auto simp: list_all_iff)
qed

theorem clip_markers_exact_witness:
  "list_all (\<lambda>m. fle (Fin 0) (cm_t_s m) \<and> fle (cm_t_s m) (fsub (Fin 9) (Fin 2)))
     (ck_markers (log_clip_markers (log_push marker_log_new (sample_event 5)) (Fin 2) (Fin 9)))"
  using clip_markers_exact [of "Fin 2" "Fin 9" _ "log_push marker_log_new (sample_event 5)"]
  by (simp add: is_finite_def)

text \<open>
  The bookmarks of a clip are exactly the logged ones of its range, shifted to the clip's
  start, with their multiplicities, in ascending order.
\<close>

theorem clip_bookmarks_exact_and_sorted:
  "mset (ck_bookmarks (log_clip_markers l s e)) = image_mset (\<lambda>off. \<lparr>cb_t_s = fsub off s\<rparr>)
      (filter_mset (\<lambda>off. fle s off \<and> flt off e) (mset (ml_bookmarks l)))
   \<and> sorted_wrt (\<lambda>a b. f64_total_le (cb_t_s a) (cb_t_s b)) (ck_bookmarks (log_clip_markers l s e))"
  by (simp add: clip_bookmarks_mset clip_bookmarks_sorted)

text \<open>
  Pruning the log at the start of the oldest footage never changes a clip that starts at or
  after it.
\<close>

theorem prune_keeps_clips:
  assumes "fle r s" "\<And>c. ml_retained_from_s l = Some c \<Longrightarrow> fle c s"
  shows "log_clip_markers (log_retain_from l r) s e = log_clip_markers l s e"
  using assms by (rule retain_keeps_clip)

theorem prune_keeps_clips_witness:
  "log_clip_markers (log_retain_from (log_push marker_log_new (sample_event 5)) (Fin 1)) (Fin 2) (Fin 9)
     = log_clip_markers (log_push marker_log_new (sample_event 5)) (Fin 2) (Fin 9)"
  by (rule prune_keeps_clips)
    (simp_all add: f64_eval log_push_def marker_log_new_def behind_front_def)

section \<open>Polling a match\<close>

text \<open>
  C33: over the polls of one match, in which every response begins with all the events of the previous
  one, the event ids of every response ascend strictly, and the game clock never jumps back by more than
  the grace, the tracker delivers every event exactly once and in order.
\<close>

theorem polls_deliver_exactly_once:
  assumes "match_polls tracker_default [] ps"
  shows "concat (snd (tracker_polls tracker_default ps)) = (if ps = [] then [] else snd (last ps))"
  using tracker_polls_exactly_once [OF _ assms]
  by (simp add: watermark_at_def tracker_default_def)

theorem polls_deliver_exactly_once_witness:
  "concat (snd (tracker_polls tracker_default
     [(Fin 1, [sample_raw 0 ''Ace'']), (Fin 2, [sample_raw 0 ''Ace'', sample_raw 1 ''Ace''])]))
   = [sample_raw 0 ''Ace'', sample_raw 1 ''Ace'']"
  using polls_deliver_exactly_once
    [of "[(Fin 1, [sample_raw 0 ''Ace'']), (Fin 2, [sample_raw 0 ''Ace'', sample_raw 1 ''Ace''])]"]
  by (simp add: tracker_default_def clock_regressed_def tracker_poll_def prepare_poll_def fresh_def
      event_ids_regressed_def f64_eval clock_regression_grace_s_def Let_def sort_by_def)

text \<open>
  When the game clock or the event identifiers run back, a new match is reported and every
  event of the response is delivered, however far the old watermark was.
\<close>

theorem new_match_is_delivered_whole:
  assumes "clock_regressed t g \<or> event_ids_regressed t es"
  shows "snd (prepare_poll t g es) \<and> mset (snd (tracker_poll t (g, es))) = mset es"
proof -
  have "snd (prepare_poll t g es)" using assms by (simp add: prepare_poll_def Let_def)
  then show ?thesis using new_match_delivers_all by simp
qed

theorem new_match_is_delivered_whole_witness:
  "mset (snd (tracker_poll \<lparr>et_last_seen = Some 9, et_last_game_time_s = Some (Fin 60)\<rparr>
     (Fin 1, [sample_raw 0 ''GameStart'']))) = {#sample_raw 0 ''GameStart''#}"
  using new_match_is_delivered_whole [of "\<lparr>et_last_seen = Some 9, et_last_game_time_s = Some (Fin 60)\<rparr>"
      "Fin 1" "[sample_raw 0 ''GameStart'']"]
  by (simp add: event_ids_regressed_def)

text \<open>
  C37: a poll that fails leaves the tracker as it was, so the next one delivers what this one
  missed; a poll that succeeds delivers the tracker's new events, all placed on the timeline.
\<close>

theorem poll_is_atomic:
  assumes "poll_once_with_continuity tx g now d t me t0 l = (t', res)"
  shows "(\<exists>e. res = Inl (Err e) \<and> t' = t)
    \<or> (\<exists>gt es b. g = Inr gt \<and> d = Inr es \<and> res = Inr b \<and> t' = fst (tracker_poll t (gt, es))
        \<and> map ge_game_time_s (pb_events b) = map re_event_time (snd (tracker_poll t (gt, es)))
        \<and> list_all (\<lambda>e. ge_recording_offset_s e \<noteq> None) (pb_events b))"
proof (cases res)
  case (Inl f)
  with assms poll_error_keeps_tracker [of tx g now d t me t0 l t' f] show ?thesis
    by (cases f) auto
next
  case (Inr b)
  with assms obtain gt es where "g = Inr gt" "d = Inr es" "t' = fst (tracker_poll t (gt, es))"
    "map ge_game_time_s (pb_events b) = map re_event_time (snd (tracker_poll t (gt, es)))"
    "\<forall>e \<in> set (pb_events b). ge_recording_offset_s e \<noteq> None"
    by (blast elim: poll_ok_advances_tracker)
  with Inr show ?thesis by (simp add: list_all_iff)
qed

theorem poll_is_atomic_witness:
  "\<exists>e. snd (poll_once_with_continuity sample_text (Inr (Fin 1)) 5 (Inl ()) tracker_default ''Ann'' 3
     (Fin 0)) = Inl (Err e)"
  using poll_is_atomic [of sample_text "Inr (Fin 1)" 5 "Inl ()" tracker_default "''Ann''" 3 "Fin 0",
      OF surjective_pairing]
  by auto

section \<open>Normalization\<close>

text \<open>
  A champion kill is the local player's death when they are the victim, otherwise their assist
  when they assisted and did not kill, otherwise a kill; and it involves the local player exactly
  when they are victim, assister or killer.
\<close>

theorem champion_kill_classified:
  assumes "re_event_name raw = ''ChampionKill''"
    and "victim = (\<exists>v. re_victim_name raw = Some v \<and> identity_matches tx (identity_new tx me) v)"
    and "killer = identity_matches tx (identity_new tx me)
      (unwrap_or [] (or_else (or_else (re_killer_name raw) (re_acer raw)) (re_recipient raw)))"
    and "assist = list_ex (identity_matches tx (identity_new tx me)) (re_assisters raw)"
  shows "ge_kind (normalize_event tx raw me) =
      (if victim then ChampionDeath else if assist \<and> \<not> killer then ChampionAssist else ChampionKill)
    \<and> ge_involves_local_player (normalize_event tx raw me) = (victim \<or> assist \<or> killer)"
  unfolding assms(2-4) list_ex_iff
  using normalize_champion_kill [OF assms(1), of tx me] by (intro conjI)

theorem champion_kill_classified_witness:
  "ge_kind (normalize_event sample_text (sample_raw 0 ''ChampionKill'') ''Cat'') = ChampionAssist"
  using champion_kill_classified [of "sample_raw 0 ''ChampionKill''" False sample_text "''Cat''" False True]
  by (simp add: identity_matches_def identity_new_def identity_is_empty_def sample_text_def
      split_once_hash_def or_else_def unwrap_or_def Let_def)

text \<open>
  An event's importance is the importance of its kind, raised by exactly two when the local
  player is involved; the clamp at ten never loses anything.
\<close>

theorem importance_is_unclamped:
  "unat (ge_importance (normalize_event tx raw me)) =
     unat (base_importance (ge_kind (normalize_event tx raw me)))
       + (if ge_involves_local_player (normalize_event tx raw me) then 2 else 0)
   \<and> unat (ge_importance (normalize_event tx raw me)) \<le> 10"
  by (rule normalize_importance)

text \<open>
  An assist names as its actor one of the event's assisters, and one that denotes the local
  player.
\<close>

theorem assist_names_local_assister:
  assumes "ge_kind (normalize_event tx raw me) = ChampionAssist"
  shows "ge_actor (normalize_event tx raw me) \<in> set (re_assisters raw)
    \<and> identity_matches tx (identity_new tx me) (ge_actor (normalize_event tx raw me))"
  using assms by (rule normalize_assist_actor)

theorem assist_names_local_assister_witness:
  "ge_actor (normalize_event sample_text (sample_raw 0 ''ChampionKill'') ''Cat'') \<in> {''Cat''}"
proof -
  have "ge_kind (normalize_event sample_text (sample_raw 0 ''ChampionKill'') ''Cat'') = ChampionAssist"
    by (simp add: normalize_event_def kind_of_name_def identity_matches_def identity_new_def
        identity_is_empty_def sample_text_def split_once_hash_def or_else_def unwrap_or_def Let_def)
  from assist_names_local_assister [OF this] show ?thesis by simp
qed

end
