(* ===== verification/Mp4_Boxes.thy ===== *)
theory Mp4_Boxes
  imports Float64
begin

text \<open>
  ISO-BMFF boxes (crates/clipline-mp4/src): building a box (boxes.rs), decoding a box header
  (box_header.rs) and walking a buffer (walker.rs).  Offsets and sizes are \<open>u64\<close> in the code and
  natural numbers here, with every checked operation's limit written out.  A \<open>Payload\<close> is the
  byte string it has collected; a chain of its builder calls is written as the concatenation of
  the big-endian encodings the calls append.
\<close>

section \<open>Building\<close>

text \<open>A byte-string literal \<open>b"..."\<close>.\<close>

definition ascii :: "string \<Rightarrow> bytes" where
  "ascii s = map of_char s"

lemma length_ascii [simp]: "length (ascii s) = length s"
  by (simp add: ascii_def)

definition checked_box_size :: "nat \<Rightarrow> u32 option" where
  "checked_box_size payload_len = Option.bind (checked_add_usize payload_len 8) try_u32"

text \<open>The \<open>expect\<close> on the box size is the \<open>None\<close> of this function.\<close>

definition mp4_box :: "bytes \<Rightarrow> bytes \<Rightarrow> bytes option" where
  "mp4_box fourcc payload = do {
     size \<leftarrow> checked_box_size (length payload);
     Some (be32 size @ fourcc @ payload)
   }"

definition full_box :: "bytes \<Rightarrow> u8 \<Rightarrow> u32 \<Rightarrow> bytes \<Rightarrow> bytes option" where
  "full_box fourcc version flags payload =
     mp4_box fourcc (version # slice 1 4 (be32 flags) @ payload)"

lemma checked_box_size_Some_iff [checked_simps]:
  "checked_box_size n = Some w \<longleftrightarrow> n + 8 < 2 ^ 32 \<and> unat w = n + 8"
  by (auto simp: checked_box_size_def checked_simps usize_max_def bind_eq_Some_conv)

lemma mp4_box_Some_iff:
  "mp4_box f p = Some b \<longleftrightarrow> (\<exists>w. unat w = length p + 8 \<and> length p + 8 < 2 ^ 32 \<and> b = be32 w @ f @ p)"
  by (auto simp: mp4_box_def checked_simps bind_eq_Some_conv)

lemma mp4_box_length: "mp4_box f p = Some b \<Longrightarrow> length b = 4 + length f + length p"
  by (auto simp: mp4_box_Some_iff)

lemma mp4_box_total: "length p + 8 < 2 ^ 32 \<Longrightarrow> \<exists>b. mp4_box f p = Some b"
  by (simp add: mp4_box_def checked_box_size_def checked_add_usize_def usize_max_def try_u32_def)

lemma full_box_length: "full_box f v fl p = Some b \<Longrightarrow> length b = 8 + length f + length p"
  by (auto simp: full_box_def dest: mp4_box_length)

section \<open>Box headers\<close>

datatype box_header_error = MissingLargeSize | SizeOverflow | InvalidExtent

record decoded_box_header =
  dh_size :: nat
  dh_payload_offset :: nat
  dh_end :: nat

definition u64_max :: nat where
  "u64_max = 2 ^ 64 - 1"

definition checked_add_u64 :: "nat \<Rightarrow> nat \<Rightarrow> nat option" where
  "checked_add_u64 a b = (if a + b \<le> u64_max then Some (a + b) else None)"

definition checked_sub_nat :: "nat \<Rightarrow> nat \<Rightarrow> nat option" where
  "checked_sub_nat a b = (if b \<le> a then Some (a - b) else None)"

definition uses_large_size :: "nat \<Rightarrow> bool" where
  "uses_large_size size32 = (size32 = 1)"

definition decode_box_header ::
  "nat \<Rightarrow> nat option \<Rightarrow> nat \<Rightarrow> nat \<Rightarrow> (box_header_error, decoded_box_header) outcome" where
  "decode_box_header size32 large_size offset limit =
     bind_out
       (if uses_large_size size32
        then bind_out (ok_or MissingLargeSize large_size) (\<lambda>l. Inr (l, 16))
        else if size32 = 0
        then bind_out (ok_or InvalidExtent (checked_sub_nat limit offset)) (\<lambda>s. Inr (s, 8))
        else Inr (size32, 8))
     (\<lambda>(size, header_len).
        bind_out (ok_or SizeOverflow (checked_add_u64 offset header_len)) (\<lambda>payload_offset.
        bind_out (ok_or SizeOverflow (checked_add_u64 offset size)) (\<lambda>end.
          if size < header_len \<or> limit < end then Inl (Err InvalidExtent)
          else Inr \<lparr>dh_size = size, dh_payload_offset = payload_offset, dh_end = end\<rparr>)))"

lemma checked_add_u64_Some_iff [checked_simps]:
  "checked_add_u64 a b = Some c \<longleftrightarrow> a + b \<le> u64_max \<and> c = a + b"
  by (auto simp: checked_add_u64_def)

lemma checked_sub_nat_Some_iff [checked_simps]:
  "checked_sub_nat a b = Some c \<longleftrightarrow> b \<le> a \<and> c = a - b"
  by (auto simp: checked_sub_nat_def)

text \<open>A decoded box makes progress, starts its payload inside itself and stays within the limit.\<close>

lemma decode_box_header_bounds:
  assumes "decode_box_header size32 large offset limit = Inr d"
  shows "offset + 8 \<le> dh_payload_offset d \<and> dh_payload_offset d \<le> dh_end d \<and> dh_end d \<le> limit
    \<and> dh_end d = offset + dh_size d"
  using assms
  by (auto simp: decode_box_header_def bind_out_Inr_iff checked_simps split: if_splits)

section \<open>Walking\<close>

record box_info =
  bi_fourcc :: bytes
  bi_offset :: nat
  bi_size :: nat
  bi_payload_offset :: nat

text \<open>
  One iteration of the loop of \<open>walk_range\<close>: the box at \<open>pos\<close> and the next position, or \<open>None\<close>
  where the code breaks.  The conversions to \<open>usize\<close> cannot fail on the 64-bit targets.
\<close>

definition walk_step :: "bytes \<Rightarrow> nat \<Rightarrow> nat \<Rightarrow> (box_info \<times> nat) option" where
  "walk_step buf end pos = do {
     header_end \<leftarrow> checked_add_u64 pos 8;
     if end < header_end \<or> length buf < header_end then None else do {
       let size32 = be_nat (slice pos (pos + 4) buf);
       let fourcc = slice (pos + 4) (pos + 8) buf;
       large_size \<leftarrow> (if uses_large_size size32 then do {
           large_header_end \<leftarrow> checked_add_u64 pos 16;
           if end < large_header_end \<or> length buf < large_header_end then None
           else Some (Some (be_nat (slice (pos + 8) (pos + 16) buf)))
         } else Some None);
       case decode_box_header size32 large_size pos end of
         Inl _ \<Rightarrow> None
       | Inr d \<Rightarrow> Some (\<lparr>bi_fourcc = fourcc, bi_offset = pos, bi_size = dh_size d,
                          bi_payload_offset = dh_payload_offset d\<rparr>, dh_end d)
     }
   }"

lemma case_sum_Some_iff:
  "(case m of Inl _ \<Rightarrow> None | Inr d \<Rightarrow> f d) = Some r \<longleftrightarrow> (\<exists>d. m = Inr d \<and> f d = Some r)"
  by (simp split: sum.splits)

lemma walk_step_bounds:
  assumes "walk_step buf end pos = Some (b, pos')"
  shows "bi_offset b = pos \<and> pos' = pos + bi_size b \<and> pos + 8 \<le> bi_payload_offset b
    \<and> bi_payload_offset b \<le> pos' \<and> pos' \<le> end \<and> bi_fourcc b = slice (pos + 4) (pos + 8) buf"
  using assms
  by (auto simp: walk_step_def Let_def bind_eq_Some_conv case_sum_Some_iff split: if_split_asm
      dest!: decode_box_header_bounds)

function walk_from :: "bytes \<Rightarrow> nat \<Rightarrow> nat \<Rightarrow> box_info list" where
  "walk_from buf end pos =
     (case walk_step buf end pos of None \<Rightarrow> [] | Some (b, pos') \<Rightarrow> b # walk_from buf end pos')"
  by pat_completeness auto
termination
  by (relation "measure (\<lambda>(buf, end, pos). end - pos)") (auto dest!: walk_step_bounds)

declare walk_from.simps [simp del]

definition walk_range :: "bytes \<Rightarrow> nat \<Rightarrow> nat \<Rightarrow> box_info list" where
  "walk_range buf pos end = walk_from buf (min end (length buf)) pos"

definition walk :: "bytes \<Rightarrow> box_info list" where
  "walk buf = walk_range buf 0 (length buf)"

definition children :: "bytes \<Rightarrow> box_info \<Rightarrow> box_info list" where
  "children buf parent = (case checked_add_u64 (bi_offset parent) (bi_size parent) of
     None \<Rightarrow> [] | Some end \<Rightarrow> walk_range buf (bi_payload_offset parent) end)"

definition find_box :: "box_info list \<Rightarrow> bytes \<Rightarrow> box_info option" where
  "find_box boxes fourcc = List.find (\<lambda>b. bi_fourcc b = fourcc) boxes"

definition movie_duration_s :: "bytes \<Rightarrow> f64 option" where
  "movie_duration_s buf = do {
     moov \<leftarrow> find_box (walk buf) (ascii ''moov'');
     mvhd \<leftarrow> find_box (children buf moov) (ascii ''mvhd'');
     let p = bi_payload_offset mvhd;
     version \<leftarrow> get_at buf p;
     (ts_off, dur_off, dur_is_64) \<leftarrow>
       (if version = 0 then Some (p + 12, p + 16, False)
        else if version = 1 then Some (p + 20, p + 24, True) else None);
     ts_bytes \<leftarrow> get_range buf ts_off (ts_off + 4);
     dur_bytes \<leftarrow> get_range buf dur_off (dur_off + (if dur_is_64 then 8 else 4));
     let timescale = f64_of_nat (be_nat ts_bytes);
     let duration = f64_of_nat (be_nat dur_bytes);
     if flt (Fin 0) timescale then Some (fdiv duration timescale) else None
   }"

section \<open>Facts on walking\<close>

text \<open>The boxes found are consecutive from \<open>pos\<close> on and lie within the range.\<close>

fun chained :: "nat \<Rightarrow> nat \<Rightarrow> box_info list \<Rightarrow> bool" where
  "chained end pos [] = True"
| "chained end pos (b # bs) = (bi_offset b = pos \<and> pos + 8 \<le> bi_payload_offset b
     \<and> bi_payload_offset b \<le> pos + bi_size b \<and> pos + bi_size b \<le> end
     \<and> chained end (pos + bi_size b) bs)"

lemma walk_from_chained: "chained end pos (walk_from buf end pos)"
proof (induction buf "end" pos rule: walk_from.induct)
  case (1 buf "end" pos)
  show ?case
  proof (cases "walk_step buf end pos")
    case None
    then show ?thesis by (simp add: walk_from.simps [of buf])
  next
    case (Some r)
    obtain b pos' where r: "r = (b, pos')" by (cases r)
    with Some walk_step_bounds [of buf "end" pos b pos'] "1.IH" [of r b pos'] show ?thesis
      by (simp add: walk_from.simps [of buf "end" pos])
  qed
qed

text \<open>Walking what \<open>mp4_box\<close> built finds each box, with its fourcc and its payload.\<close>

lemma walk_step_mp4_box:
  assumes box: "mp4_box f p = Some b" and f: "length f = 4"
    and buf: "buf = pre @ b @ post" "length buf \<le> u64_max"
    and fit: "length pre + length b \<le> end" "end \<le> length buf"
  shows "walk_step buf end (length pre) = Some (\<lparr>bi_fourcc = f, bi_offset = length pre,
    bi_size = length b, bi_payload_offset = length pre + 8\<rparr>, length pre + length b)"
proof -
  obtain w where w: "unat w = length p + 8" "length p + 8 < 2 ^ 32" "b = be32 w @ f @ p"
    using box by (auto simp: mp4_box_Some_iff)
  have size: "slice (length pre) (length pre + 4) buf = be32 w"
    using slice_middle [of pre "be32 w" "f @ p @ post"] buf(1) w(3) by simp
  have cc: "slice (length pre + 4) (length pre + 8) buf = f"
    using slice_middle [of "pre @ be32 w" f "p @ post"] buf(1) w(3) f by (simp add: add.commute)
  have lb: "length b = length p + 8" using w(3) f by simp
  then show ?thesis
    using buf(2) fit w(1) lb
    by (simp add: walk_step_def checked_add_u64_def size cc uses_large_size_def
        decode_box_header_def Let_def)
qed

text \<open>
  A reader's view of a buffer: the fourcc and the payload of every box \<open>walk\<close> finds.
\<close>

definition box_payload :: "bytes \<Rightarrow> box_info \<Rightarrow> bytes" where
  "box_payload buf b = slice (bi_payload_offset b) (bi_offset b + bi_size b) buf"

definition sections :: "bytes \<Rightarrow> (bytes \<times> bytes) list" where
  "sections buf = map (\<lambda>b. (bi_fourcc b, box_payload buf b)) (walk buf)"

abbreviation boxes_of :: "(bytes \<times> bytes) list \<Rightarrow> bytes list \<Rightarrow> bool" where
  "boxes_of \<equiv> list_all2 (\<lambda>i b. mp4_box (fst i) (snd i) = Some b \<and> length (fst i) = 4)"

lemma walk_from_end: "end \<le> pos \<Longrightarrow> walk_from buf end pos = []"
  by (simp add: walk_from.simps [of _ "end"] walk_step_def checked_add_u64_def)

lemma walk_from_box:
  assumes box: "mp4_box f p = Some b" "length f = 4"
    and buf: "buf = pre @ b @ post" "length buf \<le> u64_max"
    and fit: "length pre + length b \<le> end" "end \<le> length buf"
  shows "map (\<lambda>b. (bi_fourcc b, box_payload buf b)) (walk_from buf end (length pre))
    = (f, p) # map (\<lambda>b. (bi_fourcc b, box_payload buf b)) (walk_from buf end (length (pre @ b)))"
proof -
  obtain h where b: "b = h @ p" "length h = 8"
    using box by (auto simp: mp4_box_Some_iff)
  have "slice (length (pre @ h)) (length (pre @ h) + length p) ((pre @ h) @ p @ post) = p"
    by (rule slice_middle)
  then have "slice (length pre + 8) (length pre + length b) buf = p"
    using buf b by (simp add: add.assoc)
  with walk_step_mp4_box [OF box buf fit] show ?thesis
    by (simp add: walk_from.simps [of buf "end" "length pre"] box_payload_def)
qed

lemma walk_from_boxes:
  "boxes_of items bs \<Longrightarrow> buf = pre @ concat bs @ post \<Longrightarrow> length buf \<le> u64_max \<Longrightarrow>
   end = length pre + length (concat bs) \<Longrightarrow>
   map (\<lambda>b. (bi_fourcc b, box_payload buf b)) (walk_from buf end (length pre)) = items"
proof (induction items bs arbitrary: pre rule: list_all2_induct)
  case Nil
  then show ?case by (simp add: walk_from_end)
next
  case (Cons i items b bs)
  have "map (\<lambda>b. (bi_fourcc b, box_payload buf b)) (walk_from buf end (length (pre @ b))) = items"
    using Cons.prems by (intro Cons.IH) auto
  with Cons.prems Cons.hyps
    walk_from_box [of "fst i" "snd i" b buf pre "concat bs @ post" "end"]
  show ?case by simp
qed

lemma sections_boxes:
  assumes "boxes_of items bs" "length (concat bs) \<le> u64_max"
  shows "sections (concat bs) = items"
  using walk_from_boxes [OF assms(1), of "concat bs" "[]" "[]"] assms(2)
  by (simp add: sections_def walk_def walk_range_def)

lemma sections_box_append:
  assumes "mp4_box f p = Some b" "length f = 4" "length (b @ post) \<le> u64_max"
  shows "\<exists>rest. sections (b @ post) = (f, p) # rest"
  using walk_from_box [OF assms(1,2), of "b @ post" "[]" post "length (b @ post)"] assms(3)
  by (simp add: sections_def walk_def walk_range_def)

text \<open>The children of a container are the boxes its payload was built from.\<close>

lemma children_boxes:
  assumes items: "boxes_of items bs" and outer: "mp4_box f (concat bs) = Some b" "length f = 4"
    and buf: "buf = pre @ b @ post" "length buf \<le> u64_max"
    and parent: "bi_offset parent = length pre" "bi_size parent = length b"
      "bi_payload_offset parent = length pre + 8"
  shows "map (\<lambda>c. (bi_fourcc c, box_payload buf c)) (children buf parent) = items"
proof -
  obtain h where h: "b = h @ concat bs" "length h = 8"
    using outer by (auto simp: mp4_box_Some_iff)
  have "map (\<lambda>c. (bi_fourcc c, box_payload buf c)) (walk_from buf (length (pre @ h) + length (concat bs))
      (length (pre @ h))) = items"
    using buf h by (intro walk_from_boxes [OF items, where post = post]) auto
  moreover have "children buf parent = walk_from buf (length pre + length b) (length pre + 8)"
    using parent buf by (simp add: children_def checked_add_u64_def walk_range_def min_absorb1)
  ultimately show ?thesis using h by (simp add: add.assoc)
qed

end
