(* ===== verification/Mp4_Fragment.thy ===== *)
theory Mp4_Fragment
  imports Mp4_Boxes
begin

text \<open>
  Movie fragments (crates/clipline-mp4/src/fragment.rs): a \<open>moof\<close> with one \<open>traf\<close> per run and a
  shared \<open>mdat\<close>.  A data offset is an \<open>i32\<close> in the code that is never negative, here a natural
  number below \<open>2 ^ 31\<close>.  Whether the allocator grants a reservation is an argument.
\<close>

datatype fragment_error =
  SampleSizeExceedsU32 | PayloadSizeOverflow | SampleCountExceedsU32 | DataOffsetExceedsI32

definition flag_sync :: u32 where
  "flag_sync = 0x02000000"

definition flag_non_sync :: u32 where
  "flag_non_sync = 0x01010000"

record frag_sample =
  fs_data :: bytes
  fs_duration :: u32
  fs_is_sync :: bool

record frag_sample_info =
  fi_size :: u32
  fi_duration :: u32
  fi_is_sync :: bool

record track_run =
  tk_track_id :: u32
  tk_base_decode_time :: u64
  tk_samples :: "frag_sample list"

record track_run_info =
  ti_track_id :: u32
  ti_base_decode_time :: u64
  ti_samples :: "frag_sample_info list"

definition u32_max :: nat where
  "u32_max = 2 ^ 32 - 1"

definition mdat_header :: "nat \<Rightarrow> bytes option" where
  "mdat_header payload_len =
     (if payload_len \<le> u32_max - 8 then Some (be32 (word_of_nat (payload_len + 8)) @ ascii ''mdat'')
      else do {
        size \<leftarrow> checked_add_u64 payload_len 16;
        Some (be32 1 @ ascii ''mdat'' @ be64 (word_of_nat size))
      })"

definition mdat_header_len :: "nat \<Rightarrow> (fragment_error, nat) outcome" where
  "mdat_header_len payload_len =
     (if payload_len \<le> u32_max - 8 then Inr 8
      else bind_out (ok_or PayloadSizeOverflow (checked_add_u64 payload_len 16)) (\<lambda>_. Inr 16))"

definition trun_entry :: "frag_sample_info \<Rightarrow> bytes" where
  "trun_entry s = be32 (fi_duration s) @ be32 (fi_size s)
     @ be32 (if fi_is_sync s then flag_sync else flag_non_sync)"

definition traf :: "track_run_info \<Rightarrow> nat \<Rightarrow> bytes option" where
  "traf run data_offset = do {
     tfhd \<leftarrow> full_box (ascii ''tfhd'') 0 0x020000 (be32 (ti_track_id run));
     tfdt \<leftarrow> full_box (ascii ''tfdt'') 1 0 (be64 (ti_base_decode_time run));
     trun \<leftarrow> full_box (ascii ''trun'') 0 0x000701
       (be32 (word_of_nat (length (ti_samples run))) @ be32 (word_of_nat data_offset)
        @ concat (map trun_entry (ti_samples run)));
     mp4_box (ascii ''traf'') (tfhd @ tfdt @ trun)
   }"

fun trafs :: "track_run_info list \<Rightarrow> nat list \<Rightarrow> bytes list option" where
  "trafs (run # runs) (off # offs) = do {
     t \<leftarrow> traf run off;
     ts \<leftarrow> trafs runs offs;
     Some (t # ts)
   }"
| "trafs runs offs = Some []"

definition build_moof_multi :: "u32 \<Rightarrow> track_run_info list \<Rightarrow> nat list \<Rightarrow> bytes option" where
  "build_moof_multi sequence runs data_offsets = do {
     mfhd \<leftarrow> full_box (ascii ''mfhd'') 0 0 (be32 sequence);
     ts \<leftarrow> trafs runs data_offsets;
     mp4_box (ascii ''moof'') (mfhd @ concat ts)
   }"

definition try_i32 :: "nat \<Rightarrow> nat option" where
  "try_i32 n = (if n < 2 ^ 31 then Some n else None)"

definition add_size :: "nat \<Rightarrow> frag_sample_info \<Rightarrow> (fragment_error, nat) outcome" where
  "add_size tot s = ok_or PayloadSizeOverflow (checked_add_u64 tot (unat (fi_size s)))"

text \<open>The loop that assigns each run its offset; the last run's size is not needed.\<close>

fun data_offsets :: "nat \<Rightarrow> track_run_info list \<Rightarrow> (fragment_error, nat list) outcome" where
  "data_offsets acc [] = Inr []"
| "data_offsets acc [run] = Inr [acc]"
| "data_offsets acc (run # run' # runs) =
     bind_out (try_fold add_size 0 (ti_samples run)) (\<lambda>run_size.
     bind_out (ok_or PayloadSizeOverflow (checked_add_u64 acc run_size)) (\<lambda>next.
     bind_out (ok_or DataOffsetExceedsI32 (try_i32 next)) (\<lambda>acc'.
     bind_out (data_offsets acc' (run' # runs)) (\<lambda>offs. Inr (acc # offs)))))"

definition fragment_moof_multi :: "u32 \<Rightarrow> track_run_info list \<Rightarrow> (fragment_error, bytes) outcome" where
  "fragment_moof_multi sequence runs =
     (if \<exists>run \<in> set runs. try_u32 (length (ti_samples run)) = None
      then Inl (Err SampleCountExceedsU32)
      else
        bind_out (try_fold add_size 0 (concat (map ti_samples runs))) (\<lambda>total_payload.
        bind_out (mdat_header_len total_payload) (\<lambda>header_len.
        bind_out (or_panic (build_moof_multi sequence runs (replicate (length runs) 0))) (\<lambda>moof.
        bind_out (ok_or PayloadSizeOverflow (checked_add_usize (length moof) header_len)) (\<lambda>first_offset.
        bind_out (ok_or DataOffsetExceedsI32 (try_i32 first_offset)) (\<lambda>acc.
        bind_out (data_offsets acc runs) (\<lambda>offsets.
          or_panic (build_moof_multi sequence runs offsets))))))))"

definition sample_info_of :: "frag_sample \<Rightarrow> (fragment_error, frag_sample_info) outcome" where
  "sample_info_of s =
     bind_out (ok_or SampleSizeExceedsU32 (try_u32 (length (fs_data s)))) (\<lambda>size.
       Inr \<lparr>fi_size = size, fi_duration = fs_duration s, fi_is_sync = fs_is_sync s\<rparr>)"

definition fragment_multi ::
  "(nat \<Rightarrow> bool) \<Rightarrow> u32 \<Rightarrow> track_run list \<Rightarrow> (fragment_error, bytes) outcome" where
  "fragment_multi reserve sequence runs =
     bind_out (collect (\<lambda>run. collect sample_info_of (tk_samples run)) runs) (\<lambda>infos.
       let info_runs = map (\<lambda>(run, samples). \<lparr>ti_track_id = tk_track_id run,
             ti_base_decode_time = tk_base_decode_time run, ti_samples = samples\<rparr>) (zip runs infos)
       in
       bind_out (fragment_moof_multi sequence info_runs) (\<lambda>moof.
       bind_out (try_fold (\<lambda>tot s. ok_or PayloadSizeOverflow
                   (checked_add_usize tot (length (fs_data s))))
                 0 (concat (map tk_samples runs))) (\<lambda>total_payload.
       bind_out (or_panic (mdat_header total_payload)) (\<lambda>header.
       bind_out (ok_or PayloadSizeOverflow (do {
           n \<leftarrow> checked_add_usize (length moof) (length header);
           checked_add_usize n total_payload})) (\<lambda>capacity.
         if \<not> reserve capacity then Inl (Err PayloadSizeOverflow)
         else Inr (moof @ header @ concat (map fs_data (concat (map tk_samples runs)))))))))"

definition fragment ::
  "(nat \<Rightarrow> bool) \<Rightarrow> u32 \<Rightarrow> u64 \<Rightarrow> frag_sample list \<Rightarrow> (fragment_error, bytes) outcome" where
  "fragment reserve sequence base_decode_time samples =
     fragment_multi reserve sequence [\<lparr>tk_track_id = 1, tk_base_decode_time = base_decode_time,
       tk_samples = samples\<rparr>]"

section \<open>Sizes\<close>

lemma try_i32_Some_iff [checked_simps]: "try_i32 n = Some m \<longleftrightarrow> n < 2 ^ 31 \<and> m = n"
  by (auto simp: try_i32_def)

lemma try_fold_add_size:
  "try_fold add_size acc ss = Inr tot \<Longrightarrow>
     tot = acc + sum_list (map (unat \<circ> fi_size) ss) \<and> (ss \<noteq> [] \<longrightarrow> tot \<le> u64_max)"
proof (induction ss arbitrary: acc)
  case (Cons s ss)
  have "add_size acc s = Inr x \<longleftrightarrow> acc + unat (fi_size s) \<le> u64_max \<and> x = acc + unat (fi_size s)" for x
    by (simp add: add_size_def checked_simps)
  with Cons.prems have "acc + unat (fi_size s) \<le> u64_max"
    and rest: "try_fold add_size (acc + unat (fi_size s)) ss = Inr tot"
    by (auto simp: bind_out_Inr_iff)
  with Cons.IH [OF rest] rest show ?case by (cases ss) auto
qed simp

lemma length_trun_entry [simp]: "length (trun_entry s) = 12"
  by (simp add: trun_entry_def)

lemma traf_length:
  "traf run off = Some t \<Longrightarrow> length t = 8 + 16 + 20 + (20 + 12 * length (ti_samples run))"
  by (auto simp: traf_def bind_eq_Some_conv length_concat comp_def sum_list_triv
      dest!: full_box_length mp4_box_length)

lemma trafs_length:
  "trafs runs offs = Some ts \<Longrightarrow> length offs = length runs \<Longrightarrow>
     map length ts = map (\<lambda>run. 64 + 12 * length (ti_samples run)) runs"
proof (induction runs arbitrary: offs ts)
  case (Cons run runs)
  then show ?case by (cases offs) (auto simp: bind_eq_Some_conv dest!: traf_length)
qed simp

text \<open>The two passes agree: a moof's size does not depend on the offsets it carries.\<close>

lemma build_moof_length:
  assumes "build_moof_multi sq runs offs = Some m" "length offs = length runs"
  shows "length m = 24 + sum_list (map (\<lambda>run. 64 + 12 * length (ti_samples run)) runs)"
  using assms
  by (auto simp: build_moof_multi_def bind_eq_Some_conv length_concat
      dest!: full_box_length mp4_box_length trafs_length)

lemma data_offsets_length: "data_offsets acc runs = Inr offs \<Longrightarrow> length offs = length runs"
  by (induction acc runs arbitrary: offs rule: data_offsets.induct) (auto simp: bind_out_Inr_iff)

text \<open>Each run starts where the runs before it end.\<close>

lemma data_offsets_nth:
  "data_offsets acc runs = Inr offs \<Longrightarrow> i < length runs \<Longrightarrow>
     offs ! i = acc + sum_list (map (unat \<circ> fi_size) (concat (map ti_samples (take i runs))))
     \<and> (acc < 2 ^ 31 \<longrightarrow> offs ! i < 2 ^ 31)"
proof (induction acc runs arbitrary: offs i rule: data_offsets.induct)
  case (3 acc run run' runs)
  then obtain size rest where size: "try_fold add_size 0 (ti_samples run) = Inr size"
    and fit: "acc + size < 2 ^ 31" "acc + size \<le> u64_max"
    and rest: "data_offsets (acc + size) (run' # runs) = Inr rest" "offs = acc # rest"
    by (auto simp: bind_out_Inr_iff checked_simps)
  have "size = sum_list (map (unat \<circ> fi_size) (ti_samples run))"
    using try_fold_add_size [OF size] by simp
  with "3.IH" [of "acc + size" rest "i - 1"] size fit rest "3.prems" show ?case
    by (cases i) (auto simp: comp_def)
qed auto

lemma fragment_moof_multi_Inr:
  assumes "fragment_moof_multi sq runs = Inr moof"
  obtains offs header_len where
    "build_moof_multi sq runs offs = Some moof" "length offs = length runs"
    "mdat_header_len (sum_list (map (unat \<circ> fi_size) (concat (map ti_samples runs)))) = Inr header_len"
    "data_offsets (length moof + header_len) runs = Inr offs" "length moof + header_len < 2 ^ 31"
    "\<And>run. run \<in> set runs \<Longrightarrow> length (ti_samples run) < 2 ^ 32"
proof -
  from assms obtain tot header_len m0 offs where
    counts: "\<forall>run \<in> set runs. try_u32 (length (ti_samples run)) \<noteq> None"
    and tot: "try_fold add_size 0 (concat (map ti_samples runs)) = Inr tot"
    and hl: "mdat_header_len tot = Inr header_len"
    and m0: "build_moof_multi sq runs (replicate (length runs) 0) = Some m0"
    and offs: "data_offsets (length m0 + header_len) runs = Inr offs" "length m0 + header_len < 2 ^ 31"
    and moof: "build_moof_multi sq runs offs = Some moof"
    unfolding fragment_moof_multi_def
    by (clarsimp simp: bind_out_Inr_iff checked_simps split: if_split_asm)
  have tot_eq: "tot = sum_list (map (unat \<circ> fi_size) (concat (map ti_samples runs)))"
    using try_fold_add_size [OF tot] by simp
  have len: "length offs = length runs" using data_offsets_length [OF offs(1)] .
  have "length m0 = length moof"
    using build_moof_length [OF m0] build_moof_length [OF moof len] by simp
  then show thesis
    using that [OF moof len hl [unfolded tot_eq]] offs counts by (auto simp: try_u32_def split: if_splits)
qed

end
