(* ===== verification/Bit_Read.thy ===== *)
theory Bit_Read
  imports Prelude
begin

unbundle bit_operations_syntax

text \<open>
  The bit reader of the parameter-set parsers (crates/clipline-mp4/src/bitread.rs): single bits,
  fixed-width fields, Exp-Golomb codes, and the removal of emulation-prevention bytes.
\<close>

record bit_reader =
  br_data :: bytes
  br_pos :: nat

type_synonym 'a reading = "bit_reader \<Rightarrow> ('a \<times> bit_reader) option"

definition reader_new :: "bytes \<Rightarrow> bit_reader" where
  "reader_new data = \<lparr>br_data = data, br_pos = 0\<rparr>"

definition rbind :: "'a reading \<Rightarrow> ('a \<Rightarrow> 'b reading) \<Rightarrow> 'b reading" where
  "rbind m k r = (case m r of None \<Rightarrow> None | Some (x, r') \<Rightarrow> k x r')"

definition rreturn :: "'a \<Rightarrow> 'a reading" where
  "rreturn x r = Some (x, r)"

definition rfail :: "'a reading" where
  "rfail r = None"

definition read_bit :: "u32 reading" where
  "read_bit r = (case get_at (br_data r) (br_pos r div 8) of None \<Rightarrow> None
     | Some byte \<Rightarrow> Some (ucast (drop_bit (7 - br_pos r mod 8) byte AND 1),
                          r\<lparr>br_pos := br_pos r + 1\<rparr>))"

primrec read_bits_from :: "u32 \<Rightarrow> nat \<Rightarrow> u32 reading" where
  "read_bits_from out 0 = rreturn out"
| "read_bits_from out (Suc n) = rbind read_bit (\<lambda>b. read_bits_from (push_bit 1 out OR b) n)"

definition read_bits :: "nat \<Rightarrow> u32 reading" where
  "read_bits n = read_bits_from 0 n"

function count_zeros :: "nat \<Rightarrow> nat reading" where
  "count_zeros zeros r = (case read_bit r of None \<Rightarrow> None
     | Some (b, r') \<Rightarrow> if b = 0 then if zeros + 1 > 31 then None else count_zeros (zeros + 1) r'
                       else Some (zeros, r'))"
  by pat_completeness auto
termination
  by (relation "measure (\<lambda>(zeros, r). 32 - zeros)") auto

declare count_zeros.simps [simp del]

definition read_ue :: "u32 reading" where
  "read_ue = rbind (count_zeros 0) (\<lambda>zeros.
     if zeros = 0 then rreturn 0
     else rbind (read_bits zeros) (\<lambda>suffix. rreturn (push_bit zeros 1 - 1 + suffix)))"

fun unescape_from :: "nat \<Rightarrow> bytes \<Rightarrow> bytes" where
  "unescape_from zeros [] = []"
| "unescape_from zeros (b # bs) =
     (if 2 \<le> zeros \<and> b = 3 then unescape_from 0 bs
      else b # unescape_from (if b = 0 then zeros + 1 else 0) bs)"

definition unescape_rbsp :: "bytes \<Rightarrow> bytes" where
  "unescape_rbsp data = unescape_from 0 data"

section \<open>The bits still to be read\<close>

definition byte_bits :: "u8 \<Rightarrow> bool list" where
  "byte_bits b = map (\<lambda>i. bit b (7 - i)) [0..<8]"

definition bits_left :: "bit_reader \<Rightarrow> bool list" where
  "bits_left r = drop (br_pos r) (concat (map byte_bits (br_data r)))"

lemma length_byte_bits [simp]: "length (byte_bits b) = 8"
  by (simp add: byte_bits_def)

lemma nth_concat_bits:
  "i < 8 * length bs \<Longrightarrow> concat (map byte_bits bs) ! i = bit (bs ! (i div 8)) (7 - i mod 8)"
proof (induction bs arbitrary: i)
  case (Cons b bs)
  show ?case
  proof (cases "i < 8")
    case True
    then show ?thesis by (simp add: nth_append byte_bits_def del: upt_Suc)
  next
    case False
    then have "i div 8 = Suc ((i - 8) div 8)" "(i - 8) mod 8 = i mod 8"
      by (simp_all add: le_div_geq le_mod_geq)
    with False Cons show ?thesis by (simp add: nth_append)
  qed
qed simp

lemma length_concat_bits [simp]: "length (concat (map byte_bits bs)) = 8 * length bs"
  by (induction bs) auto

lemma read_bit_left:
  "read_bit r = (case bits_left r of [] \<Rightarrow> None
     | b # bs \<Rightarrow> Some (of_bool b, r\<lparr>br_pos := br_pos r + 1\<rparr>))"
proof (cases "br_pos r < 8 * length (br_data r)")
  case True
  then have i: "br_pos r div 8 < length (br_data r)" by simp
  have "bits_left r = concat (map byte_bits (br_data r)) ! br_pos r
      # drop (Suc (br_pos r)) (concat (map byte_bits (br_data r)))"
    using True by (simp add: bits_left_def Cons_nth_drop_Suc)
  moreover have "(ucast (drop_bit k (w :: u8) AND 1) :: u32) = of_bool (bit w k)" for k w
    by (rule bit_word_eqI) (auto simp: bit_simps)
  ultimately show ?thesis
    using i True by (simp add: read_bit_def get_at_def nth_concat_bits)
next
  case False
  then show ?thesis by (simp add: read_bit_def get_at_def bits_left_def)
qed

lemma bits_left_next:
  "bits_left r = b # bs \<Longrightarrow> bits_left (r\<lparr>br_pos := br_pos r + 1\<rparr>) = bs"
  by (simp add: bits_left_def) (metis drop_Suc drop_drop list.sel(3) plus_1_eq_Suc tl_drop)

text \<open>The value of a bit string, most significant bit first.\<close>

primrec bits_value :: "bool list \<Rightarrow> nat" where
  "bits_value [] = 0"
| "bits_value (b # bs) = of_bool b * 2 ^ length bs + bits_value bs"

lemma bits_value_append: "bits_value (xs @ ys) = bits_value xs * 2 ^ length ys + bits_value ys"
  by (induction xs) (auto simp: power_add algebra_simps)

lemma bits_value_less: "bits_value bs < 2 ^ length bs"
  by (induction bs) auto

text \<open>Reading succeeds exactly when enough bits are left, and takes them from the front.\<close>

lemma push_bit_or_of_bool:
  assumes "unat (w :: u32) < 2 ^ 31"
  shows "unat (push_bit 1 w OR of_bool b) = 2 * unat w + of_bool b"
proof -
  have "unat (w * 2) = 2 * unat w"
    using assms by (simp add: unat_word_ariths)
  moreover from this have "unat (w * 2 + of_bool b) = 2 * unat w + of_bool b"
    using assms by (cases b) (auto simp: unat_plus_if_less)
  ultimately show ?thesis by (cases b) (simp_all add: or_one_eq)
qed

lemma read_bits_from_left:
  "length bs = n \<Longrightarrow> bits_left r = bs @ rest \<Longrightarrow> (unat out + 1) * 2 ^ n \<le> 2 ^ 32 \<Longrightarrow>
     \<exists>w r'. read_bits_from out n r = Some (w, r') \<and> unat w = unat out * 2 ^ n + bits_value bs
       \<and> bits_left r' = rest"
proof (induction n arbitrary: bs r out)
  case 0
  then show ?case by (simp add: rreturn_def)
next
  case (Suc n)
  then obtain b bs' where bs: "bs = b # bs'" "length bs' = n" by (cases bs) auto
  let ?out = "push_bit 1 out OR (of_bool b :: u32)" and ?r = "r\<lparr>br_pos := br_pos r + 1\<rparr>"
  have left: "bits_left ?r = bs' @ rest" using Suc.prems(2) bs(1) bits_left_next by fastforce
  have fit: "(2 * unat out + 2) * 2 ^ n \<le> 2 ^ 32" using Suc.prems(3) by (simp add: algebra_simps)
  have "(2 * unat out + 2) * 1 \<le> (2 * unat out + 2) * 2 ^ n"
    by (rule mult_le_mono2) simp
  also note fit
  finally have "unat out < 2 ^ 31" by simp
  then have out: "unat ?out = 2 * unat out + of_bool b" by (rule push_bit_or_of_bool)
  have "(unat ?out + 1) * 2 ^ n \<le> (2 * unat out + 2) * 2 ^ n"
    unfolding out by (rule mult_le_mono1) (cases b; simp)
  with fit have "(unat ?out + 1) * 2 ^ n \<le> 2 ^ 32" by linarith
  from Suc.IH [OF bs(2) left this] obtain w r' where "read_bits_from ?out n ?r = Some (w, r')"
    "unat w = unat ?out * 2 ^ n + bits_value bs'" "bits_left r' = rest" by blast
  moreover have "read_bit r = Some (of_bool b, ?r)"
    using Suc.prems(2) bs(1) by (simp add: read_bit_left)
  ultimately show ?case
    using bs unfolding out by (simp add: rbind_def algebra_simps)
qed

lemma read_bits_left:
  assumes "bits_left r = bs @ rest" "length bs \<le> 32"
  obtains w r' where "read_bits (length bs) r = Some (w, r')" "unat w = bits_value bs"
    "bits_left r' = rest"
proof -
  have "(2 :: nat) ^ length bs \<le> 2 ^ 32" using assms(2) by (rule power_increasing) simp
  with read_bits_from_left [OF refl assms(1), of 0] that show thesis
    by (auto simp: read_bits_def)
qed

lemma read_bits_from_short: "length (bits_left r) < n \<Longrightarrow> read_bits_from out n r = None"
proof (induction n arbitrary: r out)
  case (Suc n)
  show ?case
  proof (cases "bits_left r")
    case Nil
    then show ?thesis by (simp add: rbind_def read_bit_left)
  next
    case (Cons b bs)
    with Suc.prems have "length (bits_left (r\<lparr>br_pos := br_pos r + 1\<rparr>)) < n"
      using bits_left_next [OF Cons] by simp
    then show ?thesis using Suc.IH Cons by (simp add: rbind_def read_bit_left)
  qed
qed simp

lemma read_bits_less:
  assumes "read_bits n r = Some (w, r')" "n \<le> 32"
  shows "unat w < 2 ^ n"
proof (cases "length (bits_left r) < n")
  case True
  with read_bits_from_short assms(1) show ?thesis by (simp add: read_bits_def)
next
  case False
  let ?bs = "take n (bits_left r)"
  have "bits_left r = ?bs @ drop n (bits_left r)" "length ?bs = n" using False by simp_all
  with assms read_bits_left [of r ?bs "drop n (bits_left r)"] have "unat w = bits_value ?bs"
    by (metis Pair_inject option.inject)
  then show ?thesis using bits_value_less [of ?bs] \<open>length ?bs = n\<close> by simp
qed

lemma read_bit_less: "read_bit r = Some (w, r') \<Longrightarrow> unat w < 2"
  by (auto simp: read_bit_left split: list.splits)

lemma rbind_Some_iff: "rbind m k r = Some y \<longleftrightarrow> (\<exists>x r'. m r = Some (x, r') \<and> k x r' = Some y)"
  by (auto simp: rbind_def split: option.splits)

section \<open>Exp-Golomb codes\<close>

text \<open>The code word of a number: the binary digits of its successor after as many zeros, less one.\<close>

definition ue_code :: "nat \<Rightarrow> bool list \<Rightarrow> bool list" where
  "ue_code zeros suffix = replicate zeros False @ True # suffix"

lemma count_zeros_left:
  "bits_left r = replicate k False @ True # rest \<Longrightarrow> z + k \<le> 31 \<Longrightarrow>
     \<exists>r'. count_zeros z r = Some (z + k, r') \<and> bits_left r' = rest"
proof (induction k arbitrary: z r)
  case 0
  then have "bits_left r = True # rest" by simp
  with bits_left_next [OF this] show ?case by (simp add: count_zeros.simps [of z] read_bit_left)
next
  case (Suc k)
  then have left: "bits_left r = False # (replicate k False @ True # rest)" by simp
  from Suc.IH [OF bits_left_next [OF left], of "z + 1"] Suc.prems(2) left show ?case
    by (simp add: count_zeros.simps [of z] read_bit_left)
qed

lemma read_ue_code:
  assumes left: "bits_left r = ue_code z suffix @ rest" and z: "length suffix = z" "z \<le> 31"
  obtains w r' where "read_ue r = Some (w, r')" "unat w = 2 ^ z - 1 + bits_value suffix"
    "bits_left r' = rest"
proof -
  obtain r1 where r1: "count_zeros 0 r = Some (z, r1)" "bits_left r1 = suffix @ rest"
    using count_zeros_left [of r z "suffix @ rest" 0] left z by (auto simp: ue_code_def)
  show thesis
  proof (cases "z = 0")
    case True
    with r1 z that [of 0 r1] show thesis by (simp add: read_ue_def rbind_def rreturn_def)
  next
    case False
    obtain w r2 where w: "read_bits z r1 = Some (w, r2)" "unat w = bits_value suffix" "bits_left r2 = rest"
      using read_bits_left [OF r1(2)] z by auto
    have p: "(2 :: nat) ^ z \<le> 2 ^ 31" using z(2) by (rule power_increasing) simp
    have "unat (push_bit z (1 :: u32)) = 2 ^ z"
      using p unat_word_of_nat_less [of "2 ^ z", where 'a = 32] by (simp add: push_bit_of_1)
    moreover have "(1 :: nat) \<le> 2 ^ z" by simp
    ultimately have "unat (push_bit z (1 :: u32) - 1) = 2 ^ z - 1"
      by (simp add: unat_sub_if' word_le_nat_alt)
    then have "unat (push_bit z 1 - 1 + w) = 2 ^ z - 1 + bits_value suffix"
      using w(2) p bits_value_less [of suffix] z(1) by (simp add: unat_plus_if_less)
    with r1 w False that show thesis by (simp add: read_ue_def rbind_def rreturn_def)
  qed
qed

section \<open>Emulation prevention\<close>

text \<open>The encoder's side: a 3 goes in front of every byte up to 3 that follows two zeros.\<close>

fun escape_from :: "nat \<Rightarrow> bytes \<Rightarrow> bytes" where
  "escape_from zeros [] = []"
| "escape_from zeros (b # bs) =
     (if 2 \<le> zeros \<and> b \<le> 3 then 3 # b # escape_from (if b = 0 then 1 else 0) bs
      else b # escape_from (if b = 0 then zeros + 1 else 0) bs)"

lemma unescape_escape: "unescape_from z (escape_from z bs) = bs"
proof (induction z bs rule: escape_from.induct)
  case (2 zeros b bs)
  then show ?case by (cases "b = 0") auto
qed simp

lemma unescape_length: "length (unescape_from z bs) \<le> length bs"
  by (induction z bs rule: unescape_from.induct) auto

end
