(* ===== verification/Mp4_Codecs.thy ===== *)
theory Mp4_Codecs
  imports Bit_Read Mp4_Boxes
begin

text \<open>
  Codec configuration boxes: \<open>hvcC\<close> (crates/clipline-mp4/src/hvcc.rs) and \<open>av1C\<close> (av1c.rs), with
  the parsers of the parameter sets they summarize.  \<open>r.f()?\<close> is a bind of the reader.
\<close>

section \<open>HEVC\<close>

record hevc_sps_info =
  hs_general_profile_space :: u8
  hs_general_tier_flag :: u8
  hs_general_profile_idc :: u8
  hs_general_profile_compatibility_flags :: u32
  hs_general_constraint_indicator_flags :: u64
  hs_general_level_idc :: u8
  hs_chroma_format_idc :: u8
  hs_bit_depth_luma_minus8 :: u8
  hs_bit_depth_chroma_minus8 :: u8
  hs_num_temporal_layers :: u8
  hs_temporal_id_nested :: u8

text \<open>\<open>for _ in 0..n { f()?; }\<close>\<close>

primrec repeat_read :: "nat \<Rightarrow> 'a reading \<Rightarrow> unit reading" where
  "repeat_read 0 f = rreturn ()"
| "repeat_read (Suc n) f = rbind f (\<lambda>_. repeat_read n f)"

text \<open>The presence flags of the sub-layers, and the skipping of their data.\<close>

primrec read_presence :: "nat \<Rightarrow> (bool \<times> bool) list reading" where
  "read_presence 0 = rreturn []"
| "read_presence (Suc n) = rbind read_bit (\<lambda>p. rbind read_bit (\<lambda>l.
     rbind (read_presence n) (\<lambda>rest. rreturn ((p = 1, l = 1) # rest))))"

primrec skip_sub_layers :: "(bool \<times> bool) list \<Rightarrow> unit reading" where
  "skip_sub_layers [] = rreturn ()"
| "skip_sub_layers (pl # rest) =
     rbind (if fst pl then rbind (read_bits 32) (\<lambda>_. rbind (read_bits 32) (\<lambda>_.
              rbind (read_bits 24) (\<lambda>_. rreturn ()))) else rreturn ()) (\<lambda>_.
     rbind (if snd pl then rbind (read_bits 8) (\<lambda>_. rreturn ()) else rreturn ()) (\<lambda>_.
       skip_sub_layers rest))"

definition try_u8 :: "u32 \<Rightarrow> u8 option" where
  "try_u8 w = (if unat w < 256 then Some (ucast w) else None)"

definition read_sps :: "hevc_sps_info reading" where
  "read_sps =
     rbind (read_bits 4) (\<lambda>_.
     rbind (read_bits 3) (\<lambda>max_sub_layers_minus1.
     if 6 < max_sub_layers_minus1 then rfail else
     rbind read_bit (\<lambda>temporal_id_nested.
     rbind (read_bits 2) (\<lambda>profile_space.
     rbind read_bit (\<lambda>tier_flag.
     rbind (read_bits 5) (\<lambda>profile_idc.
     rbind (read_bits 32) (\<lambda>compatibility.
     rbind (read_bits 32) (\<lambda>constraint_hi.
     rbind (read_bits 16) (\<lambda>constraint_lo.
     rbind (read_bits 8) (\<lambda>level_idc.
     rbind (read_presence (unat max_sub_layers_minus1)) (\<lambda>presence.
     rbind (if 0 < max_sub_layers_minus1 then repeat_read (8 - unat max_sub_layers_minus1) (read_bits 2)
            else rreturn ()) (\<lambda>_.
     rbind (skip_sub_layers presence) (\<lambda>_.
     rbind read_ue (\<lambda>_.
     rbind read_ue (\<lambda>chroma_format_idc.
     rbind (if chroma_format_idc = 3 then rbind read_bit (\<lambda>_. rreturn ()) else rreturn ()) (\<lambda>_.
     rbind read_ue (\<lambda>_.
     rbind read_ue (\<lambda>_.
     rbind read_bit (\<lambda>window.
     rbind (if window = 1 then repeat_read 4 read_ue else rreturn ()) (\<lambda>_.
     rbind read_ue (\<lambda>luma.
     rbind read_ue (\<lambda>chroma. \<lambda>r.
       do {
         cf \<leftarrow> try_u8 chroma_format_idc;
         bl \<leftarrow> try_u8 luma;
         bc \<leftarrow> try_u8 chroma;
         Some (\<lparr>hs_general_profile_space = ucast profile_space,
           hs_general_tier_flag = ucast tier_flag, hs_general_profile_idc = ucast profile_idc,
           hs_general_profile_compatibility_flags = compatibility,
           hs_general_constraint_indicator_flags = push_bit 16 (ucast constraint_hi) OR ucast constraint_lo,
           hs_general_level_idc = ucast level_idc, hs_chroma_format_idc = cf,
           hs_bit_depth_luma_minus8 = bl, hs_bit_depth_chroma_minus8 = bc,
           hs_num_temporal_layers = ucast max_sub_layers_minus1 + 1,
           hs_temporal_id_nested = ucast temporal_id_nested\<rparr>, r)
       }))))))))))))))))))))))"

definition parse_sps :: "bytes \<Rightarrow> hevc_sps_info option" where
  "parse_sps sps = do {
     body \<leftarrow> get_from sps 2;
     map_option fst (read_sps (reader_new (unescape_rbsp body)))
   }"

definition zero_sps_info :: hevc_sps_info where
  "zero_sps_info = \<lparr>hs_general_profile_space = 0, hs_general_tier_flag = 0,
     hs_general_profile_idc = 0, hs_general_profile_compatibility_flags = 0,
     hs_general_constraint_indicator_flags = 0, hs_general_level_idc = 0, hs_chroma_format_idc = 0,
     hs_bit_depth_luma_minus8 = 0, hs_bit_depth_chroma_minus8 = 0, hs_num_temporal_layers = 1,
     hs_temporal_id_nested = 0\<rparr>"

text \<open>A parameter set behind its 16-bit length, and one NAL array of \<open>hvcC\<close>.\<close>

definition sized_nal :: "bytes \<Rightarrow> bytes" where
  "sized_nal nal = be16 (word_of_nat (length nal)) @ nal"

definition nal_array :: "u8 \<Rightarrow> bytes list \<Rightarrow> bytes" where
  "nal_array nal_type nals =
     (0x80 OR nal_type) # be16 (word_of_nat (length nals)) @ concat (map sized_nal nals)"

definition hvcc_payload :: "hevc_sps_info \<Rightarrow> bytes list \<Rightarrow> bytes list \<Rightarrow> bytes list \<Rightarrow> bytes" where
  "hvcc_payload info vps sps pps =
     [1, push_bit 6 (hs_general_profile_space info) OR push_bit 5 (hs_general_tier_flag info)
         OR hs_general_profile_idc info]
     @ be32 (hs_general_profile_compatibility_flags info)
     @ be16 (ucast (drop_bit 32 (hs_general_constraint_indicator_flags info)))
     @ be32 (ucast (hs_general_constraint_indicator_flags info))
     @ [hs_general_level_idc info] @ be16 0xF000
     @ [0xFC, 0xFC OR hs_chroma_format_idc info, 0xF8 OR hs_bit_depth_luma_minus8 info,
        0xF8 OR hs_bit_depth_chroma_minus8 info] @ be16 0
     @ [push_bit 3 (hs_num_temporal_layers info) OR push_bit 2 (hs_temporal_id_nested info) OR 3, 3]
     @ nal_array 32 vps @ nal_array 33 sps @ nal_array 34 pps"

text \<open>Indexing an empty \<open>sps\<close> panics.\<close>

definition hvcc :: "bytes list \<Rightarrow> bytes list \<Rightarrow> bytes list \<Rightarrow> bytes option" where
  "hvcc vps sps pps = do {
     sps0 \<leftarrow> get_at sps 0;
     let info = (case parse_sps sps0 of None \<Rightarrow> zero_sps_info | Some i \<Rightarrow> i);
     mp4_box (ascii ''hvcC'') (hvcc_payload info vps sps pps)
   }"

section \<open>AV1\<close>

record av1_seq_info =
  av_seq_profile :: u8
  av_seq_level_idx_0 :: u8
  av_seq_tier_0 :: u8

text \<open>Skipping the leb128 size field: the position after its last byte.\<close>

function skip_leb128 :: "bytes \<Rightarrow> nat \<Rightarrow> nat option" where
  "skip_leb128 obu pos = (case get_at obu pos of None \<Rightarrow> None
     | Some b \<Rightarrow> if b AND 0x80 = 0 then Some (pos + 1) else skip_leb128 obu (pos + 1))"
  by pat_completeness auto
termination
  by (relation "measure (\<lambda>(obu, pos). length obu - pos)") (auto simp: get_at_def split: if_splits)

declare skip_leb128.simps [simp del]

definition read_optional :: "bool \<Rightarrow> unit reading \<Rightarrow> unit reading" where
  "read_optional present body = (if present then rbind read_bit (\<lambda>b. if b = 1 then body else rreturn ())
     else rreturn ())"

text \<open>\<open>timing_info()\<close>: whether a decoder model follows, and its buffer-delay length.\<close>

definition read_timing :: "(bool \<times> nat) reading" where
  "read_timing =
     rbind (read_bits 32) (\<lambda>_. rbind (read_bits 32) (\<lambda>_. rbind read_bit (\<lambda>equal.
     rbind (if equal = 1 then rbind read_ue (\<lambda>_. rreturn ()) else rreturn ()) (\<lambda>_.
     rbind read_bit (\<lambda>present.
       if present = 1
       then rbind (read_bits 5) (\<lambda>len. rbind (read_bits 32) (\<lambda>_. rbind (read_bits 5) (\<lambda>_.
              rbind (read_bits 5) (\<lambda>_. rreturn (True, unat len + 1)))))
       else rreturn (False, 0))))))"

definition read_sequence_header :: "av1_seq_info reading" where
  "read_sequence_header =
     rbind (read_bits 3) (\<lambda>profile. rbind read_bit (\<lambda>_. rbind read_bit (\<lambda>reduced.
       if reduced = 1
       then rbind (read_bits 5) (\<lambda>level.
              rreturn \<lparr>av_seq_profile = ucast profile, av_seq_level_idx_0 = ucast level,
                av_seq_tier_0 = 0\<rparr>)
       else
         rbind read_bit (\<lambda>timing.
         rbind (if timing = 1 then read_timing else rreturn (False, 0))
           (\<lambda>(decoder_model_info_present, buffer_delay_length).
         rbind read_bit (\<lambda>initial_display_delay_present.
         rbind (read_bits 5) (\<lambda>_. rbind (read_bits 12) (\<lambda>_. rbind (read_bits 5) (\<lambda>level.
         rbind (if 7 < level then read_bit else rreturn 0) (\<lambda>tier.
         rbind (read_optional decoder_model_info_present
                 (rbind (read_bits buffer_delay_length) (\<lambda>_.
                  rbind (read_bits buffer_delay_length) (\<lambda>_. rbind read_bit (\<lambda>_. rreturn ()))))) (\<lambda>_.
         rbind (read_optional (initial_display_delay_present = 1)
                 (rbind (read_bits 4) (\<lambda>_. rreturn ()))) (\<lambda>_.
           rreturn \<lparr>av_seq_profile = ucast profile, av_seq_level_idx_0 = ucast level,
             av_seq_tier_0 = ucast tier\<rparr>))))))))))))"

definition parse_sequence_header :: "bytes \<Rightarrow> av1_seq_info option" where
  "parse_sequence_header obu = do {
     header \<leftarrow> get_at obu 0;
     if header AND 0x80 \<noteq> 0 then None
     else if drop_bit 3 header AND 0x0F \<noteq> 1 then None
     else do {
       let pos = (if header AND 0x04 \<noteq> 0 then 2 else 1);
       pos \<leftarrow> (if header AND 0x02 \<noteq> 0 then skip_leb128 obu pos else Some pos);
       body \<leftarrow> get_from obu pos;
       map_option fst (read_sequence_header (reader_new body))
     }
   }"

definition av1c :: "bytes \<Rightarrow> bytes option" where
  "av1c sequence_header_obu =
     (let info = (case parse_sequence_header sequence_header_obu of
            None \<Rightarrow> \<lparr>av_seq_profile = 0, av_seq_level_idx_0 = 0, av_seq_tier_0 = 0\<rparr> | Some i \<Rightarrow> i)
      in mp4_box (ascii ''av1C'')
           ([0x81, push_bit 5 (av_seq_profile info) OR av_seq_level_idx_0 info,
             push_bit 7 (av_seq_tier_0 info) OR 0x0C, 0] @ sequence_header_obu))"

section \<open>Reading the parameter sets back\<close>

text \<open>A decoder's view: \<open>n\<close> length-prefixed NAL units, and one array of \<open>hvcC\<close>.\<close>

primrec take_nals :: "nat \<Rightarrow> bytes \<Rightarrow> bytes list \<times> bytes" where
  "take_nals 0 bs = ([], bs)"
| "take_nals (Suc n) bs =
     (let len = be_nat (take 2 bs) in apfst (Cons (slice 2 (2 + len) bs)) (take_nals n (drop (2 + len) bs)))"

definition take_array :: "bytes \<Rightarrow> (u8 \<times> bytes list) \<times> bytes" where
  "take_array bs = apfst (Pair (hd bs)) (take_nals (be_nat (slice 1 3 bs)) (drop 3 bs))"

abbreviation nals_fit :: "bytes list \<Rightarrow> bool" where
  "nals_fit nals \<equiv> length nals < 2 ^ 16 \<and> list_all (\<lambda>n. length n < 2 ^ 16) nals"

lemma take_nals_sized:
  "list_all (\<lambda>n. length n < 2 ^ 16) nals \<Longrightarrow>
     take_nals (length nals) (concat (map sized_nal nals) @ rest) = (nals, rest)"
proof (induction nals)
  case (Cons n nals)
  then have "be_nat (be16 (word_of_nat (length n))) = length n"
    by (simp add: unat_word_of_nat_less)
  with Cons show ?case
    using slice_middle [of "be16 (word_of_nat (length n))" n "concat (map sized_nal nals) @ rest"]
    by (simp add: sized_nal_def [of n] Let_def)
qed simp

lemma take_array_nal_array:
  assumes "nals_fit nals"
  shows "take_array (nal_array ty nals @ rest) = ((0x80 OR ty, nals), rest)"
proof -
  have "be_nat (be16 (word_of_nat (length nals))) = length nals"
    using assms by (simp add: unat_word_of_nat_less)
  moreover have "slice 1 3 ((0x80 OR ty) # be16 (word_of_nat (length nals)) @ r)
      = be16 (word_of_nat (length nals))" for r
    by (simp add: slice_def)
  ultimately show ?thesis
    using take_nals_sized [of nals rest] assms by (simp add: take_array_def nal_array_def)
qed

lemma hvcc_arrays:
  assumes box: "hvcc vps sps pps = Some b" and fit: "nals_fit vps" "nals_fit sps" "nals_fit pps"
  shows "\<exists>r1 r2. take_array (drop 31 b) = ((0xA0, vps), r1) \<and> take_array r1 = ((0xA1, sps), r2)
    \<and> take_array r2 = ((0xA2, pps), [])"
proof -
  obtain info where "mp4_box (ascii ''hvcC'') (hvcc_payload info vps sps pps) = Some b"
    using box by (auto simp: hvcc_def bind_eq_Some_conv Let_def)
  then obtain h where b: "b = h @ hvcc_payload info vps sps pps" "length h = 8"
    by (auto simp: mp4_box_Some_iff)
  have "drop 23 (hvcc_payload info vps sps pps) = nal_array 32 vps @ nal_array 33 sps @ nal_array 34 pps"
    by (simp add: hvcc_payload_def)
  then have "drop 31 b = nal_array 32 vps @ nal_array 33 sps @ nal_array 34 pps"
    using b by simp
  then show ?thesis
    using take_array_nal_array [OF fit(1), of 32] take_array_nal_array [OF fit(2), of 33]
      take_array_nal_array [OF fit(3), of 34 "[]"] by simp
qed

section \<open>The summary of \<open>av1C\<close>\<close>

text \<open>What a reading guarantees of the value it returns, established rule by rule.\<close>

definition yields :: "'a reading \<Rightarrow> ('a \<Rightarrow> bool) \<Rightarrow> bool" where
  "yields m P \<longleftrightarrow> (\<forall>r x r'. m r = Some (x, r') \<longrightarrow> P x)"

lemma yields_any: "yields m (\<lambda>_. True)"
  by (simp add: yields_def)

lemma yields_return: "P x \<Longrightarrow> yields (rreturn x) P"
  by (simp add: yields_def rreturn_def)

lemma yields_bits: "n \<le> 32 \<Longrightarrow> yields (read_bits n) (\<lambda>w. unat w < 2 ^ n)"
  by (auto simp: yields_def dest: read_bits_less)

lemma yields_bit: "yields read_bit (\<lambda>w. unat w < 2)"
  by (auto simp: yields_def dest: read_bit_less)

lemma yields_bind: "\<lbrakk>yields m Q; \<And>x. Q x \<Longrightarrow> yields (k x) P\<rbrakk> \<Longrightarrow> yields (rbind m k) P"
  by (fastforce simp: yields_def rbind_Some_iff)

lemma yields_skip: "(\<And>x. yields (k x) P) \<Longrightarrow> yields (rbind m k) P"
  by (rule yields_bind [OF yields_any])

lemma yields_if: "\<lbrakk>c \<Longrightarrow> yields m P; \<not> c \<Longrightarrow> yields m' P\<rbrakk> \<Longrightarrow> yields (if c then m else m') P"
  by simp

definition summary_fits :: "av1_seq_info \<Rightarrow> bool" where
  "summary_fits i \<longleftrightarrow> unat (av_seq_profile i) < 8 \<and> unat (av_seq_level_idx_0 i) < 32
     \<and> unat (av_seq_tier_0 i) < 2"

lemma unat_narrow_less: "unat (w :: u32) < n \<Longrightarrow> unat (ucast w :: u8) < n"
  by (simp add: unsigned_ucast_eq le_less_trans [OF take_bit_nat_less_eq_self])

lemma sequence_header_fits: "yields read_sequence_header summary_fits"
proof -
  have profile: "yields (read_bits 3) (\<lambda>w. unat w < 8)" and level: "yields (read_bits 5) (\<lambda>w. unat w < 32)"
    using yields_bits [of 3] yields_bits [of 5] by simp_all
  have tier: "yields (if 7 < l then read_bit else rreturn 0) (\<lambda>w. unat w < 2)" for l :: u32
    by (intro yields_if yields_bit yields_return) simp
  have fits: "summary_fits \<lparr>av_seq_profile = ucast p, av_seq_level_idx_0 = ucast l, av_seq_tier_0 = t'\<rparr>"
    if "unat (p :: u32) < 8" "unat (l :: u32) < 32" "unat t' < 2" for p l t'
    using that by (simp add: summary_fits_def unat_narrow_less)
  have full: "yields (rbind (read_bits 5) (\<lambda>level.
         rbind (if 7 < level then read_bit else rreturn 0) (\<lambda>tier.
         rbind (m level tier) (\<lambda>_. rbind (m' level tier) (\<lambda>_.
           rreturn \<lparr>av_seq_profile = ucast p, av_seq_level_idx_0 = ucast level,
             av_seq_tier_0 = ucast tier\<rparr>))))) summary_fits" if "unat (p :: u32) < 8" for p m m'
    by (rule yields_bind [OF level], rule yields_bind [OF tier], intro yields_skip yields_return)
      (simp add: fits that unat_narrow_less)
  have reduced: "yields (rbind (read_bits 5) (\<lambda>level.
         rreturn \<lparr>av_seq_profile = ucast p, av_seq_level_idx_0 = ucast level, av_seq_tier_0 = 0\<rparr>)) summary_fits"
    if "unat (p :: u32) < 8" for p
    by (rule yields_bind [OF level], rule yields_return) (simp add: fits that)
  show ?thesis
    unfolding read_sequence_header_def
    apply (rule yields_bind [OF profile])
    apply (rule yields_skip)+
    apply (rule yields_if)
     apply (erule reduced)
    apply (rule yields_skip)+
    subgoal by (auto intro!: yields_skip full simp: case_prod_beta)
    done
qed

lemma av1c_summary:
  assumes parse: "parse_sequence_header obu = Some i" and box: "av1c obu = Some b"
  shows "drop_bit 5 (b ! 9) = av_seq_profile i \<and> b ! 9 AND 31 = av_seq_level_idx_0 i
    \<and> drop_bit 7 (b ! 10) = av_seq_tier_0 i \<and> drop 12 b = obu"
proof -
  obtain r r' where "read_sequence_header r = Some (i, r')"
    using parse by (auto simp: parse_sequence_header_def bind_eq_Some_conv Let_def split: if_split_asm)
  then have fit: "unat (av_seq_profile i) < 8" "unat (av_seq_level_idx_0 i) < 32" "unat (av_seq_tier_0 i) < 2"
    using sequence_header_fits by (auto simp: yields_def summary_fits_def)
  have "list_all (\<lambda>p. list_all (\<lambda>l. drop_bit 5 (push_bit 5 (word_of_nat p) OR word_of_nat l :: u8) = word_of_nat p
      \<and> (push_bit 5 (word_of_nat p) OR word_of_nat l :: u8) AND 31 = word_of_nat l) [0..<32]) [0..<8]"
    by code_simp
  then have "drop_bit 5 (push_bit 5 (word_of_nat p) OR word_of_nat l :: u8) = word_of_nat p
      \<and> (push_bit 5 (word_of_nat p) OR word_of_nat l :: u8) AND 31 = word_of_nat l"
    if "p < 8" "l < 32" for p l
    using that unfolding list_all_iff by force
  from this [OF fit(1,2)] have pl: "drop_bit 5 (push_bit 5 (av_seq_profile i) OR av_seq_level_idx_0 i)
      = av_seq_profile i" "(push_bit 5 (av_seq_profile i) OR av_seq_level_idx_0 i) AND 31 = av_seq_level_idx_0 i"
    by simp_all
  have "list_all (\<lambda>t. drop_bit 7 (push_bit 7 (word_of_nat t) OR 0x0C :: u8) = word_of_nat t) [0..<2]"
    by code_simp
  then have "drop_bit 7 (push_bit 7 (word_of_nat t) OR 0x0C :: u8) = word_of_nat t" if "t < 2" for t
    using that unfolding list_all_iff by force
  from this [OF fit(3)] have tier: "drop_bit 7 (push_bit 7 (av_seq_tier_0 i) OR 0x0C) = av_seq_tier_0 i"
    by simp
  obtain h where "b = h @ [0x81, push_bit 5 (av_seq_profile i) OR av_seq_level_idx_0 i,
      push_bit 7 (av_seq_tier_0 i) OR 0x0C, 0] @ obu" "length h = 8"
    using box parse by (auto simp: av1c_def mp4_box_Some_iff)
  then show ?thesis using pl tier by (simp add: nth_append)
qed

end
