(* ===== verification/Mp4_Init.thy ===== *)
theory Mp4_Init
  imports Mp4_Codecs
begin

text \<open>
  The file header and the movie box (crates/clipline-mp4/src/init.rs): \<open>ftyp\<close>, the placeholder,
  the fragmented \<open>moov\<close>, and the track boxes that the finalized \<open>moov\<close> reuses with full sample
  tables.  Every builder is an option, \<open>None\<close> where a box would exceed its 32-bit size field or a
  parameter-set list is empty and the code panics.
\<close>

definition movie_timescale :: u32 where
  "movie_timescale = 720000"

definition matrix_bytes :: bytes where
  "matrix_bytes = concat (map be32 [0x00010000, 0, 0, 0, 0x00010000, 0, 0, 0, 0x40000000])"

record edit_list_entry =
  ee_duration_movie_ts :: u64
  ee_media_time :: i64

datatype video_codec_params =
    H264 "bytes list" "bytes list"
  | Hevc "bytes list" "bytes list" "bytes list"
  | Av1 bytes

record video_track_config =
  vt_width :: u16
  vt_height :: u16
  vt_timescale :: u32
  vt_codec :: video_codec_params

record audio_track_config =
  at_channels :: u16
  at_sample_rate :: u32
  at_pre_skip :: u16

datatype track_config = Video video_track_config | Audio audio_track_config

definition video_h264_with_parameter_sets ::
  "u16 \<Rightarrow> u16 \<Rightarrow> u32 \<Rightarrow> bytes list \<Rightarrow> bytes list \<Rightarrow> video_track_config" where
  "video_h264_with_parameter_sets width height timescale sps pps =
     \<lparr>vt_width = width, vt_height = height, vt_timescale = timescale, vt_codec = H264 sps pps\<rparr>"

definition video_h264 :: "u16 \<Rightarrow> u16 \<Rightarrow> u32 \<Rightarrow> bytes \<Rightarrow> bytes \<Rightarrow> video_track_config" where
  "video_h264 width height timescale sps pps =
     video_h264_with_parameter_sets width height timescale [sps] [pps]"

definition video_hevc_with_parameter_sets ::
  "u16 \<Rightarrow> u16 \<Rightarrow> u32 \<Rightarrow> bytes list \<Rightarrow> bytes list \<Rightarrow> bytes list \<Rightarrow> video_track_config" where
  "video_hevc_with_parameter_sets width height timescale vps sps pps =
     \<lparr>vt_width = width, vt_height = height, vt_timescale = timescale, vt_codec = Hevc vps sps pps\<rparr>"

definition video_hevc :: "u16 \<Rightarrow> u16 \<Rightarrow> u32 \<Rightarrow> bytes \<Rightarrow> bytes \<Rightarrow> bytes \<Rightarrow> video_track_config" where
  "video_hevc width height timescale vps sps pps =
     video_hevc_with_parameter_sets width height timescale [vps] [sps] [pps]"

definition video_av1 :: "u16 \<Rightarrow> u16 \<Rightarrow> u32 \<Rightarrow> bytes \<Rightarrow> video_track_config" where
  "video_av1 width height timescale sequence_header_obu =
     \<lparr>vt_width = width, vt_height = height, vt_timescale = timescale,
      vt_codec = Av1 sequence_header_obu\<rparr>"

definition track_timescale :: "track_config \<Rightarrow> u32" where
  "track_timescale t = (case t of Video v \<Rightarrow> vt_timescale v | Audio a \<Rightarrow> at_sample_rate a)"

section \<open>Top-level boxes\<close>

definition ftyp :: "bytes option" where
  "ftyp = mp4_box (ascii ''ftyp'')
     (ascii ''isom'' @ be32 512 @ ascii ''isom'' @ ascii ''iso6'' @ ascii ''mp41'')"

definition free_placeholder :: "bytes option" where
  "free_placeholder = mp4_box (ascii ''free'') (replicate 8 0)"

text \<open>\<open>u8::from(value > u32::MAX as u64)\<close>: version 1 boxes carry 64-bit times.\<close>

definition wide :: "u64 \<Rightarrow> bool" where
  "wide v = (0xFFFFFFFF < v)"

definition mvhd :: "u64 \<Rightarrow> u32 \<Rightarrow> bytes option" where
  "mvhd duration_movie_ts next_track_id =
     full_box (ascii ''mvhd'') (of_bool (wide duration_movie_ts)) 0
       ((if wide duration_movie_ts
         then be64 0 @ be64 0 @ be32 movie_timescale @ be64 duration_movie_ts
         else be32 0 @ be32 0 @ be32 movie_timescale @ be32 (ucast duration_movie_ts))
        @ be32 0x00010000 @ be16 0x0100 @ be16 0 @ be32 0 @ be32 0
        @ matrix_bytes @ concat (replicate 6 (be32 0)) @ be32 next_track_id)"

definition tkhd :: "u32 \<Rightarrow> u64 \<Rightarrow> u16 \<Rightarrow> u16 \<Rightarrow> u16 \<Rightarrow> bytes option" where
  "tkhd track_id duration_movie_ts volume width height =
     full_box (ascii ''tkhd'') (of_bool (wide duration_movie_ts)) 3
       ((if wide duration_movie_ts
         then be64 0 @ be64 0 @ be32 track_id @ be32 0 @ be64 duration_movie_ts
         else be32 0 @ be32 0 @ be32 track_id @ be32 0 @ be32 (ucast duration_movie_ts))
        @ be32 0 @ be32 0 @ be16 0 @ be16 0 @ be16 volume @ be16 0
        @ matrix_bytes @ be32 (push_bit 16 (ucast width)) @ be32 (push_bit 16 (ucast height)))"

definition mdhd :: "u32 \<Rightarrow> u64 \<Rightarrow> bytes option" where
  "mdhd timescale duration_media_ts =
     full_box (ascii ''mdhd'') (of_bool (wide duration_media_ts)) 0
       ((if wide duration_media_ts
         then be64 0 @ be64 0 @ be32 timescale @ be64 duration_media_ts
         else be32 0 @ be32 0 @ be32 timescale @ be32 (ucast duration_media_ts))
        @ be16 0x55C4 @ be16 0)"

definition edit_needs_wide :: "edit_list_entry \<Rightarrow> bool" where
  "edit_needs_wide e = (wide (ee_duration_movie_ts e) \<or> sint (ee_media_time e) < - (2 ^ 31)
     \<or> 2 ^ 31 - 1 < sint (ee_media_time e))"

definition edts :: "edit_list_entry list \<Rightarrow> bytes option" where
  "edts entries =
     (let version = list_ex edit_needs_wide entries
      in do {
        elst \<leftarrow> full_box (ascii ''elst'') (of_bool version) 0
          (be32 (word_of_nat (length entries)) @ concat (map (\<lambda>e.
             (if version then be64 (ee_duration_movie_ts e) @ be64 (ee_media_time e)
              else be32 (ucast (ee_duration_movie_ts e)) @ be32 (ucast (ee_media_time e)))
             @ be16 1 @ be16 0) entries));
        mp4_box (ascii ''edts'') elst
      })"

section \<open>Sample descriptions\<close>

definition dops :: "audio_track_config \<Rightarrow> bytes option" where
  "dops cfg = mp4_box (ascii ''dOps'')
     ([0, ucast (at_channels cfg)] @ be16 (at_pre_skip cfg) @ be32 (at_sample_rate cfg)
      @ be16 0 @ [0])"

definition opus_sample_entry :: "audio_track_config \<Rightarrow> bytes option" where
  "opus_sample_entry cfg = do {
     d \<leftarrow> dops cfg;
     mp4_box (ascii ''Opus'')
       (replicate 6 0 @ be16 1 @ be32 0 @ be32 0 @ be16 (at_channels cfg) @ be16 16 @ be16 0
        @ be16 0 @ be32 (push_bit 16 (at_sample_rate cfg)) @ d)
   }"

definition audio_stsd :: "audio_track_config \<Rightarrow> bytes option" where
  "audio_stsd cfg = do {
     e \<leftarrow> opus_sample_entry cfg;
     full_box (ascii ''stsd'') 0 0 (be32 1 @ e)
   }"

definition nclx_rec709_limited_colr :: "bytes option" where
  "nclx_rec709_limited_colr =
     mp4_box (ascii ''colr'') (ascii ''nclx'' @ be16 1 @ be16 1 @ be16 1 @ [0])"

definition visual_sample_entry :: "bytes \<Rightarrow> u16 \<Rightarrow> u16 \<Rightarrow> bytes \<Rightarrow> bytes option" where
  "visual_sample_entry fourcc width height codec_box = do {
     colr \<leftarrow> nclx_rec709_limited_colr;
     mp4_box fourcc
       (replicate 6 0 @ be16 1 @ be16 0 @ be16 0 @ be32 0 @ be32 0 @ be32 0
        @ be16 width @ be16 height @ be32 0x00480000 @ be32 0x00480000 @ be32 0 @ be16 1
        @ replicate 32 0 @ be16 0x0018 @ be16 0xFFFF @ codec_box @ colr)
   }"

definition unwrap_byte :: "u8 option \<Rightarrow> u8" where
  "unwrap_byte b = (case b of None \<Rightarrow> 0 | Some x \<Rightarrow> x)"

definition avcc_payload :: "bytes list \<Rightarrow> bytes list \<Rightarrow> bytes \<Rightarrow> bytes" where
  "avcc_payload sps pps primary_sps =
     [1, unwrap_byte (get_at primary_sps 1), unwrap_byte (get_at primary_sps 2),
      unwrap_byte (get_at primary_sps 3), 0xFF, 0xE0 OR word_of_nat (length sps)]
     @ concat (map sized_nal sps)
     @ [word_of_nat (length pps)] @ concat (map sized_nal pps)"

definition avcc :: "bytes list \<Rightarrow> bytes list \<Rightarrow> bytes option" where
  "avcc sps pps = do {
     primary_sps \<leftarrow> get_at sps 0;
     mp4_box (ascii ''avcC'') (avcc_payload sps pps primary_sps)
   }"

definition codec_box :: "video_codec_params \<Rightarrow> (bytes \<times> bytes) option" where
  "codec_box codec = (case codec of
       H264 sps pps \<Rightarrow> map_option (Pair (ascii ''avc1'')) (avcc sps pps)
     | Hevc vps sps pps \<Rightarrow> map_option (Pair (ascii ''hvc1'')) (hvcc vps sps pps)
     | Av1 obu \<Rightarrow> map_option (Pair (ascii ''av01'')) (av1c obu))"

definition stsd :: "video_track_config \<Rightarrow> bytes option" where
  "stsd cfg = do {
     (fourcc, box) \<leftarrow> codec_box (vt_codec cfg);
     e \<leftarrow> visual_sample_entry fourcc (vt_width cfg) (vt_height cfg) box;
     full_box (ascii ''stsd'') 0 0 (be32 1 @ e)
   }"

section \<open>Track boxes\<close>

definition mdia_generic ::
  "u32 \<Rightarrow> u64 \<Rightarrow> bytes \<Rightarrow> bytes \<Rightarrow> bytes \<Rightarrow> bytes \<Rightarrow> bytes \<Rightarrow> bytes option" where
  "mdia_generic timescale duration_media_ts handler handler_name media_header_box stsd_box stbl_tail
   = do {
     hd \<leftarrow> mdhd timescale duration_media_ts;
     hdlr \<leftarrow> full_box (ascii ''hdlr'') 0 0
       (be32 0 @ handler @ be32 0 @ be32 0 @ be32 0 @ handler_name);
     url \<leftarrow> full_box (ascii ''url '') 0 1 [];
     dref \<leftarrow> full_box (ascii ''dref'') 0 0 (be32 1 @ url);
     dinf \<leftarrow> mp4_box (ascii ''dinf'') dref;
     stbl \<leftarrow> mp4_box (ascii ''stbl'') (stsd_box @ stbl_tail);
     minf \<leftarrow> mp4_box (ascii ''minf'') (media_header_box @ dinf @ stbl);
     mp4_box (ascii ''mdia'') (hd @ hdlr @ minf)
   }"

text \<open>\<open>if !edits.is_empty() { t.extend(edts(edits)) }\<close>\<close>

definition optional_edts :: "edit_list_entry list \<Rightarrow> bytes option" where
  "optional_edts edits = (if edits = [] then Some [] else edts edits)"

definition video_trak_with_tables_and_edits ::
  "video_track_config \<Rightarrow> u32 \<Rightarrow> u64 \<Rightarrow> u64 \<Rightarrow> bytes \<Rightarrow> edit_list_entry list \<Rightarrow> bytes option" where
  "video_trak_with_tables_and_edits cfg track_id duration_movie_ts duration_media_ts stbl_tail edits
   = do {
     vmhd \<leftarrow> full_box (ascii ''vmhd'') 0 1 (be16 0 @ be16 0 @ be16 0 @ be16 0);
     tk \<leftarrow> tkhd track_id duration_movie_ts 0 (vt_width cfg) (vt_height cfg);
     ed \<leftarrow> optional_edts edits;
     sd \<leftarrow> stsd cfg;
     mdia \<leftarrow> mdia_generic (vt_timescale cfg) duration_media_ts (ascii ''vide'')
       (ascii ''Clipline Video'' @ [0]) vmhd sd stbl_tail;
     mp4_box (ascii ''trak'') (tk @ ed @ mdia)
   }"

definition video_trak_with_tables ::
  "video_track_config \<Rightarrow> u32 \<Rightarrow> u64 \<Rightarrow> u64 \<Rightarrow> bytes \<Rightarrow> bytes option" where
  "video_trak_with_tables cfg track_id duration_movie_ts duration_media_ts stbl_tail =
     video_trak_with_tables_and_edits cfg track_id duration_movie_ts duration_media_ts stbl_tail []"

definition audio_trak_with_tables_and_edits ::
  "audio_track_config \<Rightarrow> u32 \<Rightarrow> u64 \<Rightarrow> u64 \<Rightarrow> bytes \<Rightarrow> edit_list_entry list \<Rightarrow> bytes option" where
  "audio_trak_with_tables_and_edits cfg track_id duration_movie_ts duration_media_ts stbl_tail edits
   = do {
     smhd \<leftarrow> full_box (ascii ''smhd'') 0 0 (be16 0 @ be16 0);
     tk \<leftarrow> tkhd track_id duration_movie_ts 0x0100 0 0;
     ed \<leftarrow> optional_edts edits;
     sd \<leftarrow> audio_stsd cfg;
     mdia \<leftarrow> mdia_generic (at_sample_rate cfg) duration_media_ts (ascii ''soun'')
       (ascii ''Clipline Audio'' @ [0]) smhd sd stbl_tail;
     mp4_box (ascii ''trak'') (tk @ ed @ mdia)
   }"

definition audio_trak_with_tables ::
  "audio_track_config \<Rightarrow> u32 \<Rightarrow> u64 \<Rightarrow> u64 \<Rightarrow> bytes \<Rightarrow> bytes option" where
  "audio_trak_with_tables cfg track_id duration_movie_ts duration_media_ts stbl_tail =
     audio_trak_with_tables_and_edits cfg track_id duration_movie_ts duration_media_ts stbl_tail []"

definition empty_stbl_tail :: "bytes option" where
  "empty_stbl_tail = do {
     stts \<leftarrow> full_box (ascii ''stts'') 0 0 (be32 0);
     stsc \<leftarrow> full_box (ascii ''stsc'') 0 0 (be32 0);
     stsz \<leftarrow> full_box (ascii ''stsz'') 0 0 (be32 0 @ be32 0);
     stco \<leftarrow> full_box (ascii ''stco'') 0 0 (be32 0);
     Some (stts @ stsc @ stsz @ stco)
   }"

text \<open>\<open>xs.iter().map(f).collect()\<close> for a function that may panic.\<close>

fun map_opt :: "('a \<Rightarrow> 'b option) \<Rightarrow> 'a list \<Rightarrow> 'b list option" where
  "map_opt f [] = Some []"
| "map_opt f (x # xs) = do {
     y \<leftarrow> f x;
     ys \<leftarrow> map_opt f xs;
     Some (y # ys)
   }"

definition mvex_multi :: "u32 \<Rightarrow> bytes option" where
  "mvex_multi track_count = do {
     trexs \<leftarrow> map_opt (\<lambda>i. full_box (ascii ''trex'') 0 0
       (be32 (word_of_nat i) @ be32 1 @ be32 0 @ be32 0 @ be32 0)) [1..<unat track_count + 1];
     mp4_box (ascii ''mvex'') (concat trexs)
   }"

definition init_trak :: "nat \<times> track_config \<Rightarrow> bytes option" where
  "init_trak it = do {
     tail \<leftarrow> empty_stbl_tail;
     case snd it of
       Video v \<Rightarrow> video_trak_with_tables v (word_of_nat (fst it) + 1) 0 0 tail
     | Audio a \<Rightarrow> audio_trak_with_tables a (word_of_nat (fst it) + 1) 0 0 tail
   }"

definition moov_init_multi :: "track_config list \<Rightarrow> bytes option" where
  "moov_init_multi tracks = do {
     h \<leftarrow> mvhd 0 (word_of_nat (length tracks) + 1);
     traks \<leftarrow> map_opt init_trak (List.enumerate 0 tracks);
     mvex \<leftarrow> mvex_multi (word_of_nat (length tracks));
     mp4_box (ascii ''moov'') (h @ concat traks @ mvex)
   }"

definition moov_init :: "video_track_config \<Rightarrow> bytes option" where
  "moov_init cfg = moov_init_multi [Video cfg]"

section \<open>Reading \<open>avcC\<close> back\<close>

text \<open>The number of SPS entries is in the low five bits of the sixth byte.\<close>

lemma avcc_arrays:
  assumes box: "avcc sps pps = Some b"
    and fit: "length sps \<le> 31" "length pps \<le> 255" "nals_fit sps" "nals_fit pps"
  shows "\<exists>r. take_nals (unat (b ! 13 AND 31)) (drop 14 b) = (sps, r)
    \<and> take_nals (unat (hd r)) (tl r) = (pps, [])"
proof -
  obtain p where "mp4_box (ascii ''avcC'') (avcc_payload sps pps p) = Some b"
    using box by (auto simp: avcc_def bind_eq_Some_conv)
  then obtain h where b: "b = h @ avcc_payload sps pps p" "length h = 8"
    by (auto simp: mp4_box_Some_iff)
  have n: "unat (word_of_nat (length sps) :: u8) = length sps"
    "unat (word_of_nat (length pps) :: u8) = length pps"
    using fit by (simp_all add: unat_word_of_nat_less)
  have "list_all (\<lambda>n. (0xE0 OR word_of_nat n :: u8) AND 31 = word_of_nat n) [0..<32]"
    by code_simp
  then have "(0xE0 OR word_of_nat (length sps) :: u8) AND 31 = word_of_nat (length sps)"
    using fit(1) by (simp add: list_all_iff)
  moreover have "drop 14 b = concat (map sized_nal sps) @ word_of_nat (length pps) # concat (map sized_nal pps)"
    "b ! 13 = 0xE0 OR word_of_nat (length sps)"
    using b by (simp_all add: avcc_payload_def nth_append)
  ultimately show ?thesis
    using n fit(3,4) take_nals_sized [of sps "word_of_nat (length pps) # concat (map sized_nal pps)"]
      take_nals_sized [of pps "[]"] by simp
qed

end
