(* ===== verification/Mp4_Tracks.thy ===== *)
theory Mp4_Tracks
  imports Mp4_Fragment Mp4_Init
begin

text \<open>
  The bookkeeping of one track for the final \<open>moov\<close> (crates/clipline-mp4/src/writer.rs,
  \<open>TrackState\<close>).  Times are \<open>u64\<close> and counts \<open>u32\<close> in the code; here they are natural numbers,
  and every checked operation has its limit.  No operation changes the state when it fails, so
  each returns either its error or the new state.
\<close>

record timeline_run =
  tl_presentation_start :: nat
  tl_media_start :: nat
  tl_duration :: nat

record duration_run =
  dn_sample_count :: nat
  dn_sample_delta :: nat

record sample_to_chunk_run =
  sc_first_chunk :: nat
  sc_samples_per_chunk :: nat

datatype sync_sample_table = SyncAll | SyncListed "nat list"

record track_state =
  ks_cfg :: track_config
  ks_next_decode_time :: nat
  ks_media_duration :: nat
  ks_sample_count :: nat
  ks_sizes :: "nat list"
  ks_duration_runs :: "duration_run list"
  ks_sync_samples :: sync_sample_table
  ks_chunk_offsets :: "nat list"
  ks_stsc_runs :: "sample_to_chunk_run list"
  ks_timeline_runs :: "timeline_run list"

datatype writer_error = InvalidConfig | InvalidFragment fragment_error | SourceExhausted

definition track_state_new :: "track_config \<Rightarrow> track_state" where
  "track_state_new cfg = \<lparr>ks_cfg = cfg, ks_next_decode_time = 0, ks_media_duration = 0,
     ks_sample_count = 0, ks_sizes = [], ks_duration_runs = [], ks_sync_samples = SyncAll,
     ks_chunk_offsets = [], ks_stsc_runs = [], ks_timeline_runs = []\<rparr>"

definition checked_add_u32 :: "nat \<Rightarrow> nat \<Rightarrow> nat option" where
  "checked_add_u32 a b = (if a + b \<le> u32_max then Some (a + b) else None)"

definition checked_u32 :: "nat \<Rightarrow> nat option" where
  "checked_u32 n = (if n \<le> u32_max then Some n else None)"

lemma checked_u32_Some_iff [checked_simps]:
  "checked_add_u32 a b = Some c \<longleftrightarrow> a + b \<le> u32_max \<and> c = a + b"
  "checked_u32 n = Some m \<longleftrightarrow> n \<le> u32_max \<and> m = n"
  by (auto simp: checked_add_u32_def checked_u32_def)

section \<open>Recording\<close>

definition is_video :: "track_config \<Rightarrow> bool" where
  "is_video c = (case c of Video _ \<Rightarrow> True | Audio _ \<Rightarrow> False)"

text \<open>The last sample leaves its duration run and joins, or opens, one with the longer delta.\<close>

definition extend_last_sample :: "duration_run list \<Rightarrow> nat \<Rightarrow> duration_run list" where
  "extend_last_sample runs extended_delta =
     (let last_run = last runs;
          runs1 = (if 1 < dn_sample_count last_run
                   then butlast runs @ [last_run\<lparr>dn_sample_count := dn_sample_count last_run - 1\<rparr>]
                   else butlast runs)
      in if runs1 \<noteq> [] \<and> dn_sample_delta (last runs1) = extended_delta
         then butlast runs1 @ [(last runs1)\<lparr>dn_sample_count := dn_sample_count (last runs1) + 1\<rparr>]
         else runs1 @ [\<lparr>dn_sample_count = 1, dn_sample_delta = extended_delta\<rparr>])"

definition absorb_subframe_video_gap ::
  "track_state \<Rightarrow> nat \<Rightarrow> (writer_error, track_state \<times> bool) outcome" where
  "absorb_subframe_video_gap st decode_time =
     (if \<not> is_video (ks_cfg st) \<or> decode_time \<le> ks_next_decode_time st then Inr (st, False)
      else if ks_duration_runs st = [] then Inr (st, False)
      else
        let delta = dn_sample_delta (last (ks_duration_runs st));
            gap = decode_time - ks_next_decode_time st
        in if delta \<le> gap then Inr (st, False)
           else
             bind_out (ok_or InvalidConfig (checked_u32 gap)) (\<lambda>gap.
             bind_out (ok_or InvalidConfig (checked_add_u32 delta gap)) (\<lambda>extended_delta.
             bind_out (ok_or InvalidConfig (checked_add_u64 (ks_media_duration st) gap)) (\<lambda>media_duration.
             if ks_timeline_runs st = [] then Inl (Err InvalidConfig)
             else
               let run = last (ks_timeline_runs st)
               in bind_out (ok_or InvalidConfig (checked_add_u64 (tl_duration run) gap)) (\<lambda>timeline_duration.
                 Inr (st\<lparr>ks_duration_runs := extend_last_sample (ks_duration_runs st) extended_delta,
                         ks_media_duration := media_duration,
                         ks_timeline_runs := butlast (ks_timeline_runs st)
                           @ [run\<lparr>tl_duration := timeline_duration\<rparr>],
                         ks_next_decode_time := decode_time\<rparr>, True))))))"

definition advance_track :: "track_state \<Rightarrow> nat \<Rightarrow> (writer_error, track_state) outcome" where
  "advance_track st decode_time =
     (if decode_time < ks_next_decode_time st then Inl (Err InvalidConfig)
      else bind_out (absorb_subframe_video_gap st decode_time) (\<lambda>(st', absorbed).
        if absorbed then Inr st' else Inr (st'\<lparr>ks_next_decode_time := decode_time\<rparr>)))"

definition add_duration :: "nat \<Rightarrow> nat \<Rightarrow> (writer_error, nat) outcome" where
  "add_duration tot duration = ok_or InvalidConfig (checked_add_u64 tot duration)"

definition i64_max :: nat where
  "i64_max = 2 ^ 63 - 1"

definition record_run :: "track_state \<Rightarrow> nat list \<Rightarrow> (writer_error, track_state) outcome" where
  "record_run st durations =
     bind_out (try_fold add_duration 0 durations) (\<lambda>duration.
     bind_out (ok_or InvalidConfig (checked_add_u64 (ks_next_decode_time st) duration)) (\<lambda>_.
     let media_start = ks_media_duration st;
         pushed = st\<lparr>ks_timeline_runs := ks_timeline_runs st @
           [\<lparr>tl_presentation_start = ks_next_decode_time st, tl_media_start = media_start,
             tl_duration = duration\<rparr>]\<rparr>
     in if i64_max < media_start then Inl (Err InvalidConfig)
        else if ks_timeline_runs st = [] then Inr pushed
        else
          let previous = last (ks_timeline_runs st)
          in
          bind_out (ok_or InvalidConfig (checked_add_u64 (tl_presentation_start previous) (tl_duration previous)))
            (\<lambda>previous_presentation_end.
          bind_out (ok_or InvalidConfig (checked_add_u64 (tl_media_start previous) (tl_duration previous)))
            (\<lambda>previous_media_end.
            if previous_presentation_end = ks_next_decode_time st \<and> previous_media_end = media_start
            then bind_out (ok_or InvalidConfig (checked_add_u64 (tl_duration previous) duration)) (\<lambda>d.
              Inr (st\<lparr>ks_timeline_runs := butlast (ks_timeline_runs st) @ [previous\<lparr>tl_duration := d\<rparr>]\<rparr>))
            else Inr pushed))))"

definition record_chunk :: "track_state \<Rightarrow> nat \<Rightarrow> nat \<Rightarrow> (writer_error, track_state) outcome" where
  "record_chunk st offset sample_count =
     bind_out (ok_or InvalidConfig (checked_u32 sample_count)) (\<lambda>samples_per_chunk.
     if samples_per_chunk = 0 then Inl (Err InvalidConfig)
     else
       bind_out (ok_or InvalidConfig (do {
           n \<leftarrow> checked_add_usize (length (ks_chunk_offsets st)) 1;
           checked_u32 n})) (\<lambda>first_chunk.
       let runs = ks_stsc_runs st;
           runs' = (if runs = [] \<or> sc_samples_per_chunk (last runs) \<noteq> samples_per_chunk
                    then runs @ [\<lparr>sc_first_chunk = first_chunk, sc_samples_per_chunk = samples_per_chunk\<rparr>]
                    else runs)
       in Inr (st\<lparr>ks_stsc_runs := runs', ks_chunk_offsets := ks_chunk_offsets st @ [offset]\<rparr>)))"

definition push_duration :: "duration_run list \<Rightarrow> nat \<Rightarrow> (writer_error, duration_run list) outcome" where
  "push_duration runs duration =
     (if runs \<noteq> [] \<and> dn_sample_delta (last runs) = duration
      then bind_out (ok_or InvalidConfig (checked_add_u32 (dn_sample_count (last runs)) 1)) (\<lambda>c.
        Inr (butlast runs @ [(last runs)\<lparr>dn_sample_count := c\<rparr>]))
      else Inr (runs @ [\<lparr>dn_sample_count = 1, dn_sample_delta = duration\<rparr>]))"

definition push_sync :: "sync_sample_table \<Rightarrow> nat \<Rightarrow> bool \<Rightarrow> sync_sample_table" where
  "push_sync table sample_number is_sync = (case table of
       SyncAll \<Rightarrow> if is_sync then SyncAll else SyncListed [1..<sample_number]
     | SyncListed l \<Rightarrow> if is_sync then SyncListed (l @ [sample_number]) else SyncListed l)"

definition record_sample :: "track_state \<Rightarrow> frag_sample_info \<Rightarrow> (writer_error, track_state) outcome" where
  "record_sample st sample =
     (let duration = unat (fi_duration sample)
      in bind_out (ok_or InvalidConfig (checked_add_u32 (ks_sample_count st) 1)) (\<lambda>sample_number.
         bind_out (ok_or InvalidConfig (checked_add_u64 (ks_next_decode_time st) duration)) (\<lambda>next_decode_time.
         bind_out (ok_or InvalidConfig (checked_add_u64 (ks_media_duration st) duration)) (\<lambda>media_duration.
         bind_out (push_duration (ks_duration_runs st) duration) (\<lambda>runs.
           Inr (st\<lparr>ks_duration_runs := runs,
                   ks_sync_samples := push_sync (ks_sync_samples st) sample_number (fi_is_sync sample),
                   ks_sizes := ks_sizes st @ [unat (fi_size sample)],
                   ks_sample_count := sample_number,
                   ks_next_decode_time := next_decode_time,
                   ks_media_duration := media_duration\<rparr>))))))"

section \<open>The sample tables\<close>

text \<open>Dividing by a zero timescale panics; validated configurations never have one.\<close>

definition rescale_duration :: "nat \<Rightarrow> u32 \<Rightarrow> u32 \<Rightarrow> nat option" where
  "rescale_duration duration source_timescale target_timescale =
     (if source_timescale = 0 then None
      else Some (min (duration * unat target_timescale div unat source_timescale) u64_max))"

definition presentation_end :: "track_state \<Rightarrow> nat" where
  "presentation_end st =
     (if ks_timeline_runs st = [] then 0
      else case checked_add_u64 (tl_presentation_start (last (ks_timeline_runs st)))
                  (tl_duration (last (ks_timeline_runs st))) of None \<Rightarrow> 0 | Some e \<Rightarrow> e)"

definition duration_movie_ts :: "track_state \<Rightarrow> nat option" where
  "duration_movie_ts st =
     rescale_duration (presentation_end st) (track_timescale (ks_cfg st)) movie_timescale"

definition saturating_add_u64 :: "nat \<Rightarrow> nat \<Rightarrow> nat" where
  "saturating_add_u64 a b = min (a + b) u64_max"

text \<open>The loop of \<open>edit_list\<close>, with the presentation cursor; a gap becomes an empty edit.\<close>

fun edit_entries :: "u32 \<Rightarrow> nat \<Rightarrow> timeline_run list \<Rightarrow> edit_list_entry list option" where
  "edit_entries timescale cursor [] = Some []"
| "edit_entries timescale cursor (run # runs) = do {
     run_start \<leftarrow> rescale_duration (tl_presentation_start run) timescale movie_timescale;
     run_end \<leftarrow> rescale_duration (saturating_add_u64 (tl_presentation_start run) (tl_duration run))
       timescale movie_timescale;
     let gap = (if cursor < run_start
       then [\<lparr>ee_duration_movie_ts = word_of_nat (run_start - cursor), ee_media_time = - 1\<rparr>] else []);
     let duration = run_end - run_start;
     media \<leftarrow> (if 0 < duration then
         if tl_media_start run \<le> i64_max
         then Some [\<lparr>ee_duration_movie_ts = word_of_nat duration,
                     ee_media_time = word_of_nat (tl_media_start run)\<rparr>]
         else None
       else Some []);
     rest \<leftarrow> edit_entries timescale run_end runs;
     Some (gap @ media @ rest)
   }"

definition edit_list :: "track_state \<Rightarrow> edit_list_entry list option" where
  "edit_list st = do {
     entries \<leftarrow> edit_entries (track_timescale (ks_cfg st)) 0 (ks_timeline_runs st);
     if length entries = 1 \<and> ee_media_time (hd entries) = 0
        \<and> ks_timeline_runs st \<noteq> [] \<and> tl_presentation_start (hd (ks_timeline_runs st)) = 0
     then Some [] else Some entries
   }"

abbreviation be32n :: "nat \<Rightarrow> bytes" where
  "be32n n \<equiv> be32 (word_of_nat n)"

abbreviation be64n :: "nat \<Rightarrow> bytes" where
  "be64n n \<equiv> be64 (word_of_nat n)"

definition stts :: "track_state \<Rightarrow> bytes option" where
  "stts st = full_box (ascii ''stts'') 0 0 (be32n (length (ks_duration_runs st))
     @ concat (map (\<lambda>r. be32n (dn_sample_count r) @ be32n (dn_sample_delta r)) (ks_duration_runs st)))"

text \<open>Absent when every sample is a sync sample; the outer option is the panic of the box size.\<close>

definition stss :: "track_state \<Rightarrow> bytes option" where
  "stss st = (case ks_sync_samples st of SyncAll \<Rightarrow> Some []
     | SyncListed l \<Rightarrow> full_box (ascii ''stss'') 0 0 (be32n (length l) @ concat (map be32n l)))"

definition stsc :: "track_state \<Rightarrow> bytes option" where
  "stsc st = full_box (ascii ''stsc'') 0 0 (be32n (length (ks_stsc_runs st))
     @ concat (map (\<lambda>r. be32n (sc_first_chunk r) @ be32n (sc_samples_per_chunk r) @ be32 1)
         (ks_stsc_runs st)))"

definition stsz :: "track_state \<Rightarrow> bytes option" where
  "stsz st = full_box (ascii ''stsz'') 0 0 (be32 0 @ be32n (ks_sample_count st)
     @ concat (map be32n (ks_sizes st)))"

definition co64 :: "track_state \<Rightarrow> bytes option" where
  "co64 st = full_box (ascii ''co64'') 0 0 (be32n (length (ks_chunk_offsets st))
     @ concat (map be64n (ks_chunk_offsets st)))"

definition sample_tables :: "track_state \<Rightarrow> bytes option" where
  "sample_tables st = do {
     a \<leftarrow> stts st; b \<leftarrow> stss st; c \<leftarrow> stsc st; d \<leftarrow> stsz st; e \<leftarrow> co64 st;
     Some (a @ b @ c @ d @ e)
   }"

definition track_trak :: "track_state \<Rightarrow> u32 \<Rightarrow> bytes option" where
  "track_trak st track_id = do {
     tail \<leftarrow> sample_tables st;
     movie \<leftarrow> duration_movie_ts st;
     edits \<leftarrow> edit_list st;
     case ks_cfg st of
       Video v \<Rightarrow> video_trak_with_tables_and_edits v track_id (word_of_nat movie)
                   (word_of_nat (ks_media_duration st)) tail edits
     | Audio a \<Rightarrow> audio_trak_with_tables_and_edits a track_id (word_of_nat movie)
                   (word_of_nat (ks_media_duration st)) tail edits
   }"

end
