(* ===== verification/Mp4_Tables.thy ===== *)
theory Mp4_Tables
  imports Mp4_Tracks
begin

text \<open>
  What the sample tables of a track say, and that each recording step extends it by exactly the
  recorded sample, chunk or run.  \<open>track_ok\<close> is the invariant of every track state.
\<close>

section \<open>Reading the tables\<close>

definition expand_runs :: "duration_run list \<Rightarrow> nat list" where
  "expand_runs runs = concat (map (\<lambda>r. replicate (dn_sample_count r) (dn_sample_delta r)) runs)"

definition is_sync_in :: "sync_sample_table \<Rightarrow> nat \<Rightarrow> bool" where
  "is_sync_in tab i = (case tab of SyncAll \<Rightarrow> True | SyncListed l \<Rightarrow> i \<in> set l)"

definition sync_flags :: "track_state \<Rightarrow> bool list" where
  "sync_flags st = map (is_sync_in (ks_sync_samples st)) [1..<ks_sample_count st + 1]"

definition durations :: "track_state \<Rightarrow> nat list" where
  "durations st = expand_runs (ks_duration_runs st)"

text \<open>The number of samples of each of \<open>n\<close> chunks.\<close>

fun expand_chunks :: "sample_to_chunk_run list \<Rightarrow> nat \<Rightarrow> nat list" where
  "expand_chunks [] n = []"
| "expand_chunks [r] n = replicate (n + 1 - sc_first_chunk r) (sc_samples_per_chunk r)"
| "expand_chunks (r # r' # rs) n =
     replicate (sc_first_chunk r' - sc_first_chunk r) (sc_samples_per_chunk r) @ expand_chunks (r' # rs) n"

definition chunk_counts :: "track_state \<Rightarrow> nat list" where
  "chunk_counts st = expand_chunks (ks_stsc_runs st) (length (ks_chunk_offsets st))"

fun timeline_ok :: "nat \<Rightarrow> nat \<Rightarrow> timeline_run list \<Rightarrow> nat \<Rightarrow> nat \<Rightarrow> bool" where
  "timeline_ok m p [] m' p' = (m = m' \<and> p \<le> p')"
| "timeline_ok m p (r # rs) m' p' = (tl_media_start r = m \<and> p \<le> tl_presentation_start r
     \<and> timeline_ok (m + tl_duration r) (tl_presentation_start r + tl_duration r) rs m' p')"

fun chunk_runs_ok :: "nat \<Rightarrow> sample_to_chunk_run list \<Rightarrow> nat \<Rightarrow> bool" where
  "chunk_runs_ok lo [] n = True"
| "chunk_runs_ok lo (r # rs) n = (lo < sc_first_chunk r \<and> sc_first_chunk r \<le> n
     \<and> chunk_runs_ok (sc_first_chunk r) rs n)"

text \<open>The tables agree in length, and the decode times with the durations.\<close>

definition track_ok :: "track_state \<Rightarrow> bool" where
  "track_ok st \<longleftrightarrow> length (ks_sizes st) = ks_sample_count st
     \<and> length (durations st) = ks_sample_count st
     \<and> sum_list (durations st) = ks_media_duration st
     \<and> (\<forall>r \<in> set (ks_duration_runs st). 0 < dn_sample_count r)
     \<and> (\<forall>l. ks_sync_samples st = SyncListed l \<longrightarrow> set l \<subseteq> {1..ks_sample_count st})
     \<and> chunk_runs_ok 0 (ks_stsc_runs st) (length (ks_chunk_offsets st))
     \<and> length (chunk_counts st) = length (ks_chunk_offsets st)
     \<and> (ks_stsc_runs st = [] \<longleftrightarrow> ks_chunk_offsets st = [])"

definition decode_ok :: "track_state \<Rightarrow> bool" where
  "decode_ok st \<longleftrightarrow> timeline_ok 0 0 (ks_timeline_runs st) (ks_media_duration st) (ks_next_decode_time st)"

lemma track_state_new_ok: "track_ok (track_state_new cfg)" "decode_ok (track_state_new cfg)"
  by (simp_all add: track_ok_def decode_ok_def track_state_new_def durations_def expand_runs_def
      chunk_counts_def)

section \<open>One sample\<close>

lemma expand_runs_Nil [simp]: "expand_runs [] = []"
  by (simp add: expand_runs_def)

lemma expand_runs_append: "expand_runs (xs @ ys) = expand_runs xs @ expand_runs ys"
  by (simp add: expand_runs_def)

lemma expand_runs_single:
  "expand_runs [r] = replicate (dn_sample_count r) (dn_sample_delta r)"
  by (simp add: expand_runs_def)

lemma push_duration_expand:
  assumes "push_duration runs d = Inr runs'" "\<forall>r \<in> set runs. 0 < dn_sample_count r"
  shows "expand_runs runs' = expand_runs runs @ [d] \<and> (\<forall>r \<in> set runs'. 0 < dn_sample_count r)"
proof (cases "runs \<noteq> [] \<and> dn_sample_delta (last runs) = d")
  case True
  then obtain init r where r: "runs = init @ [r]" "dn_sample_delta r = d"
    by (metis append_butlast_last_id)
  with assms True have "runs' = init @ [r\<lparr>dn_sample_count := dn_sample_count r + 1\<rparr>]"
    by (auto simp: push_duration_def bind_out_Inr_iff checked_simps)
  with r assms(2) show ?thesis
    by (auto simp: expand_runs_append expand_runs_single replicate_append_same)
next
  case False
  with assms show ?thesis
    by (auto simp: push_duration_def expand_runs_append expand_runs_single)
qed

lemma push_sync_flags:
  assumes "\<forall>l. tab = SyncListed l \<longrightarrow> set l \<subseteq> {1..n}"
  shows "map (is_sync_in (push_sync tab (n + 1) k)) [1..<n + 2] = map (is_sync_in tab) [1..<n + 1] @ [k]"
    and "push_sync tab (n + 1) k = SyncListed l \<Longrightarrow> set l \<subseteq> {1..n + 1}"
  using assms
  by (cases tab; cases k; force simp: push_sync_def is_sync_in_def)+

lemma record_sample_view:
  assumes rec: "record_sample st s = Inr st'" and ok: "track_ok st"
  shows "track_ok st' \<and> durations st' = durations st @ [unat (fi_duration s)]
    \<and> sync_flags st' = sync_flags st @ [fi_is_sync s] \<and> ks_sizes st' = ks_sizes st @ [unat (fi_size s)]
    \<and> ks_next_decode_time st' = ks_next_decode_time st + unat (fi_duration s)
    \<and> ks_media_duration st' = ks_media_duration st + unat (fi_duration s)
    \<and> chunk_counts st' = chunk_counts st \<and> ks_chunk_offsets st' = ks_chunk_offsets st
    \<and> ks_timeline_runs st' = ks_timeline_runs st \<and> ks_cfg st' = ks_cfg st"
proof -
  obtain runs where runs: "push_duration (ks_duration_runs st) (unat (fi_duration s)) = Inr runs"
    and st': "st' = st\<lparr>ks_duration_runs := runs,
      ks_sync_samples := push_sync (ks_sync_samples st) (ks_sample_count st + 1) (fi_is_sync s),
      ks_sizes := ks_sizes st @ [unat (fi_size s)], ks_sample_count := ks_sample_count st + 1,
      ks_next_decode_time := ks_next_decode_time st + unat (fi_duration s),
      ks_media_duration := ks_media_duration st + unat (fi_duration s)\<rparr>"
    using rec by (auto simp: record_sample_def Let_def bind_out_Inr_iff checked_simps)
  have ok': "\<forall>r \<in> set (ks_duration_runs st). 0 < dn_sample_count r"
    "\<forall>l. ks_sync_samples st = SyncListed l \<longrightarrow> set l \<subseteq> {1..ks_sample_count st}"
    using ok by (simp_all add: track_ok_def)
  have d: "durations st' = durations st @ [unat (fi_duration s)]"
    "\<forall>r \<in> set runs. 0 < dn_sample_count r"
    using push_duration_expand [OF runs ok'(1)] st' by (simp_all add: durations_def)
  have f: "sync_flags st' = sync_flags st @ [fi_is_sync s]"
    using push_sync_flags(1) [OF ok'(2)] st' by (simp add: sync_flags_def)
  have l: "\<forall>l. ks_sync_samples st' = SyncListed l \<longrightarrow> set l \<subseteq> {1..ks_sample_count st'}"
    using push_sync_flags(2) [OF ok'(2)] st' by simp
  have c: "chunk_counts st' = chunk_counts st" using st' by (simp add: chunk_counts_def)
  have "track_ok st'"
    using ok d l c st' unfolding track_ok_def by simp
  with d f c st' show ?thesis by simp
qed

fun record_samples :: "frag_sample_info list \<Rightarrow> track_state \<Rightarrow> track_state \<times> (writer_error, unit) outcome" where
  "record_samples [] st = (st, Inr ())"
| "record_samples (s # ss) st = (case record_sample st s of Inl e \<Rightarrow> (st, Inl e)
     | Inr st' \<Rightarrow> record_samples ss st')"

lemma record_samples_view:
  "record_samples ss st = (st', Inr ()) \<Longrightarrow> track_ok st \<Longrightarrow>
     track_ok st' \<and> durations st' = durations st @ map (unat \<circ> fi_duration) ss
     \<and> sync_flags st' = sync_flags st @ map fi_is_sync ss
     \<and> ks_sizes st' = ks_sizes st @ map (unat \<circ> fi_size) ss
     \<and> ks_next_decode_time st' = ks_next_decode_time st + sum_list (map (unat \<circ> fi_duration) ss)
     \<and> ks_media_duration st' = ks_media_duration st + sum_list (map (unat \<circ> fi_duration) ss)
     \<and> chunk_counts st' = chunk_counts st \<and> ks_chunk_offsets st' = ks_chunk_offsets st
     \<and> ks_timeline_runs st' = ks_timeline_runs st \<and> ks_cfg st' = ks_cfg st"
proof (induction ss arbitrary: st)
  case (Cons s ss)
  then obtain st1 where st1: "record_sample st s = Inr st1" "record_samples ss st1 = (st', Inr ())"
    by (auto split: sum.splits)
  from record_sample_view [OF st1(1) Cons.prems(2)] Cons.IH [OF st1(2)] show ?case by simp
qed simp

section \<open>One chunk\<close>

lemma expand_chunks_append:
  "chunk_runs_ok lo rs n \<Longrightarrow> rs \<noteq> [] \<Longrightarrow> expand_chunks rs (n + 1) = expand_chunks rs n @ [sc_samples_per_chunk (last rs)]"
  by (induction rs n arbitrary: lo rule: expand_chunks.induct)
    (auto simp: Suc_diff_le replicate_append_same)

lemma expand_chunks_new_run:
  "chunk_runs_ok lo rs n \<Longrightarrow> rs \<noteq> [] \<Longrightarrow>
     expand_chunks (rs @ [\<lparr>sc_first_chunk = n + 1, sc_samples_per_chunk = c\<rparr>]) (n + 1)
       = expand_chunks rs n @ [c]"
  by (induction rs n arbitrary: lo rule: expand_chunks.induct) auto

lemma chunk_runs_ok_Suc: "chunk_runs_ok lo rs n \<Longrightarrow> chunk_runs_ok lo rs (n + 1)"
  by (induction lo rs n rule: chunk_runs_ok.induct) auto

lemma chunk_runs_ok_snoc:
  "chunk_runs_ok lo rs n \<Longrightarrow> lo \<le> n \<Longrightarrow>
     chunk_runs_ok lo (rs @ [\<lparr>sc_first_chunk = n + 1, sc_samples_per_chunk = c\<rparr>]) (n + 1)"
  by (induction lo rs n rule: chunk_runs_ok.induct) (auto intro: less_imp_le_nat)

lemma record_chunk_view:
  assumes rec: "record_chunk st off c = Inr st'" and ok: "track_ok st"
  shows "track_ok st' \<and> chunk_counts st' = chunk_counts st @ [c]
    \<and> ks_chunk_offsets st' = ks_chunk_offsets st @ [off] \<and> 0 < c
    \<and> durations st' = durations st \<and> sync_flags st' = sync_flags st \<and> ks_sizes st' = ks_sizes st
    \<and> ks_next_decode_time st' = ks_next_decode_time st
    \<and> ks_media_duration st' = ks_media_duration st
    \<and> ks_timeline_runs st' = ks_timeline_runs st \<and> ks_cfg st' = ks_cfg st"
proof -
  let ?n = "length (ks_chunk_offsets st)" and ?rs = "ks_stsc_runs st"
  define new where "new = (?rs = [] \<or> sc_samples_per_chunk (last ?rs) \<noteq> c)"
  have st': "st' = st\<lparr>ks_stsc_runs := (if new
      then ?rs @ [\<lparr>sc_first_chunk = ?n + 1, sc_samples_per_chunk = c\<rparr>] else ?rs),
      ks_chunk_offsets := ks_chunk_offsets st @ [off]\<rparr>" and c: "0 < c"
    using rec by (auto simp: record_chunk_def new_def bind_out_Inr_iff bind_eq_Some_conv checked_simps
        Let_def split: if_splits)
  have runs: "chunk_runs_ok 0 ?rs ?n" "?rs = [] \<longleftrightarrow> ?n = 0"
    "length (expand_chunks ?rs ?n) = ?n"
    using ok by (auto simp: track_ok_def chunk_counts_def)
  have counts: "chunk_counts st' = chunk_counts st @ [c]"
    using runs expand_chunks_append [OF runs(1)] expand_chunks_new_run [OF runs(1)] st'
    by (cases "?rs = []") (auto simp: chunk_counts_def new_def)
  have "chunk_runs_ok 0 (ks_stsc_runs st') (?n + 1)"
    using chunk_runs_ok_Suc [OF runs(1)] chunk_runs_ok_snoc [OF runs(1)] st' by simp
  with ok counts c st' show ?thesis
    by (simp add: track_ok_def durations_def sync_flags_def new_def)
qed

section \<open>One run of the timeline\<close>

lemma timeline_ok_snoc:
  "timeline_ok m p (rs @ [r]) m' p' \<longleftrightarrow> (\<exists>p0. timeline_ok m p rs (tl_media_start r) p0
     \<and> p0 \<le> tl_presentation_start r \<and> m' = tl_media_start r + tl_duration r
     \<and> tl_presentation_start r + tl_duration r \<le> p')"
  by (induction rs arbitrary: m p) auto

lemma timeline_ok_later: "timeline_ok m p rs m' p' \<Longrightarrow> p' \<le> p'' \<Longrightarrow> timeline_ok m p rs m' p''"
  by (induction rs arbitrary: m p) auto

lemma try_fold_durations:
  "try_fold add_duration acc ds = Inr d \<Longrightarrow> d = acc + sum_list ds"
proof (induction ds arbitrary: acc)
  case (Cons x ds)
  have "add_duration acc x = Inr y \<Longrightarrow> y = acc + x" for y
    by (simp add: add_duration_def checked_simps)
  with Cons show ?case by (fastforce simp: bind_out_Inr_iff)
qed simp

lemma record_run_view:
  assumes rec: "record_run st ds = Inr st'" and ok: "decode_ok st"
  shows "\<exists>runs. st' = st\<lparr>ks_timeline_runs := runs\<rparr>
    \<and> timeline_ok 0 0 runs (ks_media_duration st + sum_list ds) (ks_next_decode_time st + sum_list ds)"
proof -
  let ?m = "ks_media_duration st" and ?p = "ks_next_decode_time st" and ?d = "sum_list ds"
  let ?new = "\<lparr>tl_presentation_start = ?p, tl_media_start = ?m, tl_duration = ?d\<rparr>"
  let ?last = "last (ks_timeline_runs st)"
  have tl: "timeline_ok 0 0 (ks_timeline_runs st) ?m ?p" using ok by (simp add: decode_ok_def)
  then have pushed: "timeline_ok 0 0 (ks_timeline_runs st @ [?new]) (?m + ?d) (?p + ?d)"
    by (auto simp: timeline_ok_snoc)
  from rec consider "st' = st\<lparr>ks_timeline_runs := ks_timeline_runs st @ [?new]\<rparr>"
    | "ks_timeline_runs st \<noteq> []" "st' = st\<lparr>ks_timeline_runs := butlast (ks_timeline_runs st)
        @ [?last\<lparr>tl_duration := tl_duration ?last + ?d\<rparr>]\<rparr>"
      "tl_presentation_start ?last + tl_duration ?last = ?p"
    by (auto simp: record_run_def Let_def bind_out_Inr_iff checked_simps
        dest!: try_fold_durations split: if_splits)
  then show ?thesis
  proof cases
    case 1
    with pushed show ?thesis by blast
  next
    case 2
    obtain init r where r: "ks_timeline_runs st = init @ [r]"
      using 2(1) by (metis append_butlast_last_id)
    with tl 2(3) have "timeline_ok 0 0 (init @ [r\<lparr>tl_duration := tl_duration r + ?d\<rparr>]) (?m + ?d) (?p + ?d)"
      by (auto simp: timeline_ok_snoc)
    with 2(2) r show ?thesis by (intro exI conjI) simp_all
  qed
qed

section \<open>One fragment's worth of a track\<close>

definition after :: "(track_state \<Rightarrow> (writer_error, track_state) outcome) \<Rightarrow>
    (track_state \<Rightarrow> track_state \<times> (writer_error, unit) outcome) \<Rightarrow>
    track_state \<Rightarrow> track_state \<times> (writer_error, unit) outcome" where
  "after m k st = (case m st of Inl e \<Rightarrow> (st, Inl e) | Inr st' \<Rightarrow> k st')"

text \<open>The bookkeeping of one track in \<open>write_planned_fragment\<close>; an error keeps the steps before it.\<close>

definition record_track ::
  "track_state \<Rightarrow> nat \<Rightarrow> frag_sample_info list \<Rightarrow> track_state \<times> (writer_error, unit) outcome" where
  "record_track st sample_offset samples =
     after (\<lambda>st. record_run st (map (unat \<circ> fi_duration) samples))
       (after (\<lambda>st. record_chunk st sample_offset (length samples)) (record_samples samples)) st"

lemma record_track_view:
  assumes rec: "record_track st off ss = (st', Inr ())" and ok: "track_ok st" "decode_ok st"
  shows "track_ok st' \<and> decode_ok st' \<and> durations st' = durations st @ map (unat \<circ> fi_duration) ss
     \<and> sync_flags st' = sync_flags st @ map fi_is_sync ss
     \<and> ks_sizes st' = ks_sizes st @ map (unat \<circ> fi_size) ss
     \<and> chunk_counts st' = chunk_counts st @ [length ss]
     \<and> ks_chunk_offsets st' = ks_chunk_offsets st @ [off] \<and> ks_cfg st' = ks_cfg st
     \<and> ks_next_decode_time st' = ks_next_decode_time st + sum_list (map (unat \<circ> fi_duration) ss)"
proof -
  obtain st1 st2 where st1: "record_run st (map (unat \<circ> fi_duration) ss) = Inr st1"
    and st2: "record_chunk st1 off (length ss) = Inr st2" and st3: "record_samples ss st2 = (st', Inr ())"
    using rec by (auto simp: record_track_def after_def split: sum.splits)
  obtain runs where runs: "st1 = st\<lparr>ks_timeline_runs := runs\<rparr>"
    "timeline_ok 0 0 runs (ks_media_duration st + sum_list (map (unat \<circ> fi_duration) ss))
      (ks_next_decode_time st + sum_list (map (unat \<circ> fi_duration) ss))"
    using record_run_view [OF st1 ok(2)] by blast
  have "track_ok st1" "durations st1 = durations st" "sync_flags st1 = sync_flags st"
    "chunk_counts st1 = chunk_counts st"
    using ok(1) runs(1)
    by (simp_all add: track_ok_def durations_def sync_flags_def chunk_counts_def)
  with record_chunk_view [OF st2] record_samples_view [OF st3] runs show ?thesis
    by (simp add: decode_ok_def)
qed

section \<open>Absorbing a gap\<close>

lemma expand_extend_last:
  assumes "runs \<noteq> []" "\<forall>r \<in> set runs. 0 < dn_sample_count r"
  shows "expand_runs (extend_last_sample runs e) = butlast (expand_runs runs) @ [e]
    \<and> (\<forall>r \<in> set (extend_last_sample runs e). 0 < dn_sample_count r)"
proof -
  obtain init r where r: "runs = init @ [r]" using assms(1) by (metis append_butlast_last_id)
  then have pos: "0 < dn_sample_count r" "\<forall>r \<in> set init. 0 < dn_sample_count r"
    using assms(2) by auto
  define rs1 where "rs1 = (if 1 < dn_sample_count r
    then init @ [r\<lparr>dn_sample_count := dn_sample_count r - 1\<rparr>] else init)"
  obtain k where k: "dn_sample_count r = Suc k" using pos(1) gr0_conv_Suc by blast
  have "butlast (expand_runs runs) = expand_runs init @ replicate k (dn_sample_delta r)"
    using r k by (simp add: expand_runs_append expand_runs_single butlast_append
        replicate_append_same [symmetric])
  then have e1: "expand_runs rs1 = butlast (expand_runs runs)"
    using k by (auto simp: rs1_def expand_runs_append expand_runs_single)
  have p1: "\<forall>r \<in> set rs1. 0 < dn_sample_count r" using pos by (auto simp: rs1_def)
  have ext: "extend_last_sample runs e = (if rs1 \<noteq> [] \<and> dn_sample_delta (last rs1) = e
      then butlast rs1 @ [(last rs1)\<lparr>dn_sample_count := dn_sample_count (last rs1) + 1\<rparr>]
      else rs1 @ [\<lparr>dn_sample_count = 1, dn_sample_delta = e\<rparr>])"
    using r by (simp add: extend_last_sample_def rs1_def Let_def)
  show ?thesis
  proof (cases "rs1 \<noteq> [] \<and> dn_sample_delta (last rs1) = e")
    case True
    then obtain i2 r2 where r2: "rs1 = i2 @ [r2]" "dn_sample_delta r2 = e"
      by (metis append_butlast_last_id)
    with True e1 p1 ext show ?thesis
      by (auto simp: expand_runs_append expand_runs_single replicate_append_same [symmetric])
  next
    case False
    with e1 p1 ext show ?thesis
      by (auto simp: expand_runs_append expand_runs_single)
  qed
qed

lemma absorb_cases:
  assumes "absorb_subframe_video_gap st t = Inr (st1, absorbed)"
  shows "\<not> absorbed \<Longrightarrow> st1 = st"
    and "absorbed \<Longrightarrow> ks_duration_runs st \<noteq> [] \<and> ks_timeline_runs st \<noteq> []
      \<and> st1 = st\<lparr>ks_duration_runs := extend_last_sample (ks_duration_runs st)
          (dn_sample_delta (last (ks_duration_runs st)) + (t - ks_next_decode_time st)),
        ks_media_duration := ks_media_duration st + (t - ks_next_decode_time st),
        ks_timeline_runs := butlast (ks_timeline_runs st)
          @ [last (ks_timeline_runs st)\<lparr>tl_duration := tl_duration (last (ks_timeline_runs st))
               + (t - ks_next_decode_time st)\<rparr>],
        ks_next_decode_time := t\<rparr>"
  using assms unfolding absorb_subframe_video_gap_def Let_def
  by (auto simp: bind_out_Inr_iff checked_simps split: if_split_asm)

text \<open>
  Moving a track forward either leaves its samples alone, or lengthens the last sample by the gap.
\<close>

lemma advance_track_view:
  assumes adv: "advance_track st t = Inr st'" and ok: "track_ok st" "decode_ok st"
  shows "track_ok st' \<and> decode_ok st' \<and> ks_next_decode_time st' = t \<and> ks_next_decode_time st \<le> t
    \<and> (durations st' = durations st
       \<or> durations st \<noteq> [] \<and> durations st' = butlast (durations st)
           @ [last (durations st) + (t - ks_next_decode_time st)])
    \<and> sync_flags st' = sync_flags st \<and> ks_sizes st' = ks_sizes st
    \<and> chunk_counts st' = chunk_counts st \<and> ks_chunk_offsets st' = ks_chunk_offsets st
    \<and> ks_cfg st' = ks_cfg st"
proof -
  have t: "ks_next_decode_time st \<le> t"
    using adv by (auto simp: advance_track_def split: if_splits)
  with adv obtain r where "absorb_subframe_video_gap st t = Inr r"
    "(case r of (st1, absorbed) \<Rightarrow> if absorbed then Inr st1
       else Inr (st1\<lparr>ks_next_decode_time := t\<rparr>)) = (Inr st' :: (writer_error, track_state) outcome)"
    by (auto simp: advance_track_def bind_out_Inr_iff split: if_splits)
  then obtain st1 absorbed where ab: "absorb_subframe_video_gap st t = Inr (st1, absorbed)"
    and st': "st' = (if absorbed then st1 else st1\<lparr>ks_next_decode_time := t\<rparr>)"
    by (cases r) (auto split: if_splits)
  show ?thesis
  proof (cases absorbed)
    case False
    then have "st1 = st" using absorb_cases(1) [OF ab] by simp
    with False st' ok t show ?thesis
      by (auto simp: track_ok_def decode_ok_def durations_def sync_flags_def chunk_counts_def
          intro: timeline_ok_later)
  next
    case True
    let ?gap = "t - ks_next_decode_time st" and ?run = "last (ks_timeline_runs st)"
    let ?e = "dn_sample_delta (last (ks_duration_runs st)) + ?gap"
    have ne: "ks_duration_runs st \<noteq> []" "ks_timeline_runs st \<noteq> []"
      and st1: "st1 = st\<lparr>ks_duration_runs := extend_last_sample (ks_duration_runs st) ?e,
        ks_media_duration := ks_media_duration st + ?gap,
        ks_timeline_runs := butlast (ks_timeline_runs st)
          @ [?run\<lparr>tl_duration := tl_duration ?run + ?gap\<rparr>],
        ks_next_decode_time := t\<rparr>"
      using absorb_cases(2) [OF ab True] by blast+
    have pos: "\<forall>r \<in> set (ks_duration_runs st). 0 < dn_sample_count r"
      using ok(1) by (simp add: track_ok_def)
    obtain init r where r: "ks_duration_runs st = init @ [r]" "0 < dn_sample_count r"
      using ne(1) pos by (metis append_butlast_last_id in_set_conv_decomp)
    then have last: "durations st \<noteq> []" "last (durations st) = dn_sample_delta (last (ks_duration_runs st))"
      by (auto simp: durations_def expand_runs_append expand_runs_single)
    have d: "durations st' = butlast (durations st) @ [last (durations st) + ?gap]"
      "\<forall>r \<in> set (ks_duration_runs st'). 0 < dn_sample_count r"
      using expand_extend_last [OF ne(1) pos, of ?e] st1 st' True last by (simp_all add: durations_def)
    have sums: "sum_list (durations st') = sum_list (durations st) + ?gap"
      "length (durations st') = length (durations st)"
    proof -
      have "durations st = butlast (durations st) @ [last (durations st)]" using last(1) by simp
      then show "sum_list (durations st') = sum_list (durations st) + ?gap"
        unfolding d by (metis add.assoc sum_list.Cons sum_list.Nil sum_list_append add_0_right)
      show "length (durations st') = length (durations st)" unfolding d using last(1)
        by (simp add: d)
    qed
    obtain tls tl where tl: "ks_timeline_runs st = tls @ [tl]"
      using ne(2) by (metis append_butlast_last_id)
    then have "decode_ok st'"
      using ok(2) st1 st' True t by (auto simp: decode_ok_def timeline_ok_snoc)
    moreover have "track_ok st'"
      using ok(1) sums d st1 st' True by (simp add: track_ok_def chunk_counts_def)
    ultimately show ?thesis
      using d st1 st' True t last by (simp add: sync_flags_def chunk_counts_def)
  qed
qed

end
