(* ===== verification/Mp4_Demux.thy ===== *)
theory Mp4_Demux
  imports Mp4_Fragment
begin

text \<open>
  What a reader makes of a fragment.  \<open>demux_fragment\<close> is the specification: it walks the boxes,
  and reads each run's header fields, its sample table and, at the data offset, its samples.  The
  writer's output is shown to read back as the runs it was given.
\<close>

section \<open>The reader\<close>

definition field :: "nat \<Rightarrow> nat \<Rightarrow> bytes \<Rightarrow> nat" where
  "field a b bs = be_nat (slice a b bs)"

definition first_section :: "string \<Rightarrow> bytes \<Rightarrow> bytes" where
  "first_section n buf = (case List.find (\<lambda>s. fst s = ascii n) (sections buf) of
     None \<Rightarrow> [] | Some s \<Rightarrow> snd s)"

text \<open>Duration, size and sync flag of each of \<open>n\<close> entries of a sample table.\<close>

primrec read_entries :: "nat \<Rightarrow> bytes \<Rightarrow> (nat \<times> nat \<times> bool) list" where
  "read_entries 0 bs = []"
| "read_entries (Suc n) bs = (field 0 4 bs, field 4 8 bs, field 8 12 bs = unat flag_sync)
     # read_entries n (drop 12 bs)"

fun cut_samples :: "bytes \<Rightarrow> nat \<Rightarrow> (nat \<times> nat \<times> bool) list \<Rightarrow> (bytes \<times> nat \<times> bool) list" where
  "cut_samples buf pos [] = []"
| "cut_samples buf pos ((dur, len, sync) # es) =
     (slice pos (pos + len) buf, dur, sync) # cut_samples buf (pos + len) es"

definition demux_traf :: "bytes \<Rightarrow> bytes \<Rightarrow> nat \<times> nat \<times> (bytes \<times> nat \<times> bool) list" where
  "demux_traf buf tr =
     (let trun = first_section ''trun'' tr
      in (field 4 8 (first_section ''tfhd'' tr), field 4 12 (first_section ''tfdt'' tr),
          cut_samples buf (field 8 12 trun) (read_entries (field 4 8 trun) (drop 12 trun))))"

definition demux_fragment :: "bytes \<Rightarrow> (nat \<times> nat \<times> (bytes \<times> nat \<times> bool) list) list" where
  "demux_fragment buf = map (demux_traf buf \<circ> snd)
     (filter (\<lambda>s. fst s = ascii ''traf'') (sections (first_section ''moof'' buf)))"

section \<open>Reading what the writer wrote\<close>

lemma of_char_u8: "(of_char c :: u8) = word_of_nat (of_char c)"
  by (simp only: of_nat_of_char)

lemma unat_of_char [simp]: "unat (of_char c :: u8) = of_char c"
proof -
  have "(of_char c :: nat) < 256" by simp
  then show ?thesis by (simp only: of_char_u8) (simp add: unat_of_nat)
qed

lemma ascii_eq_iff [simp]: "ascii s = ascii t \<longleftrightarrow> s = t"
proof -
  have "inj (of_char :: char \<Rightarrow> u8)"
  proof (rule injI)
    fix c d :: char
    assume "of_char c = (of_char d :: u8)"
    then have "unat (of_char c :: u8) = unat (of_char d :: u8)" by simp
    then show "c = d" by simp
  qed
  then show ?thesis by (simp add: ascii_def inj_map_eq_map)
qed

lemma field_append_left: "b \<le> length xs \<Longrightarrow> field a b (xs @ ys) = field a b xs"
  by (simp add: field_def slice_append_left)

lemma field_append_right:
  "length xs \<le> a \<Longrightarrow> field a b (xs @ ys) = field (a - length xs) (b - length xs) ys"
  by (simp add: field_def slice_append_right)

lemma field_be [simp]:
  "field 0 4 (be32 w @ ys) = unat w" "field 0 8 (be64 v @ ys) = unat v"
  "field 0 4 (be32 w) = unat w" "field 0 8 (be64 v) = unat v"
  by (simp_all add: field_def)

lemma full_box_payload:
  assumes "full_box f v fl p = Some b"
  obtains h where "length h = 4" "mp4_box f (h @ p) = Some b"
  using assms that [of "v # slice 1 4 (be32 fl)"] by (simp add: full_box_def)

lemma mp4_box_small: "mp4_box f p = Some b \<Longrightarrow> length p < 2 ^ 32"
  by (auto simp: mp4_box_Some_iff)

lemma read_entries_trun:
  "read_entries (length ss) (concat (map trun_entry ss) @ rest)
     = map (\<lambda>s. (unat (fi_duration s), unat (fi_size s), fi_is_sync s)) ss"
proof (induction ss)
  case (Cons s ss)
  have flags: "unat (if fi_is_sync s then flag_sync else flag_non_sync) = unat flag_sync
      \<longleftrightarrow> fi_is_sync s"
    by (simp add: flag_sync_def flag_non_sync_def)
  have "field 4 8 (trun_entry s @ r) = unat (fi_size s)"
    "field 8 12 (trun_entry s @ r) = unat flag_sync \<longleftrightarrow> fi_is_sync s"
    "field 0 4 (trun_entry s @ r) = unat (fi_duration s)" for r
    by (simp_all add: trun_entry_def field_append_right flags)
  with Cons show ?case by simp
qed simp

text \<open>A track fragment reads back its header fields and its sample table.\<close>

lemma traf_reads:
  assumes traf: "traf run off = Some t" and off: "off < 2 ^ 32" "length (ti_samples run) < 2 ^ 32"
  obtains p where "mp4_box (ascii ''traf'') p = Some t"
    "demux_traf buf p = (unat (ti_track_id run), unat (ti_base_decode_time run), cut_samples buf off
       (map (\<lambda>s. (unat (fi_duration s), unat (fi_size s), fi_is_sync s)) (ti_samples run)))"
proof -
  let ?entries = "concat (map trun_entry (ti_samples run))"
  from traf obtain tfhd tfdt trun where
    boxes: "full_box (ascii ''tfhd'') 0 0x020000 (be32 (ti_track_id run)) = Some tfhd"
    "full_box (ascii ''tfdt'') 1 0 (be64 (ti_base_decode_time run)) = Some tfdt"
    "full_box (ascii ''trun'') 0 0x000701 (be32 (word_of_nat (length (ti_samples run)))
       @ be32 (word_of_nat off) @ ?entries) = Some trun"
    and t: "mp4_box (ascii ''traf'') (tfhd @ tfdt @ trun) = Some t"
    by (auto simp: traf_def bind_eq_Some_conv)
  obtain h1 h2 h3 where h: "length h1 = 4" "length h2 = 4" "length h3 = 4"
    "mp4_box (ascii ''tfhd'') (h1 @ be32 (ti_track_id run)) = Some tfhd"
    "mp4_box (ascii ''tfdt'') (h2 @ be64 (ti_base_decode_time run)) = Some tfdt"
    "mp4_box (ascii ''trun'') (h3 @ be32 (word_of_nat (length (ti_samples run)))
       @ be32 (word_of_nat off) @ ?entries) = Some trun"
    using boxes by (metis full_box_payload)
  have "sections (concat [tfhd, tfdt, trun]) = [(ascii ''tfhd'', h1 @ be32 (ti_track_id run)),
      (ascii ''tfdt'', h2 @ be64 (ti_base_decode_time run)), (ascii ''trun'',
       h3 @ be32 (word_of_nat (length (ti_samples run))) @ be32 (word_of_nat off) @ ?entries)]"
    using h mp4_box_small [OF t] by (intro sections_boxes) (auto simp: u64_max_def)
  then have secs: "sections (tfhd @ tfdt @ trun) = [(ascii ''tfhd'', h1 @ be32 (ti_track_id run)),
      (ascii ''tfdt'', h2 @ be64 (ti_base_decode_time run)), (ascii ''trun'',
       h3 @ be32 (word_of_nat (length (ti_samples run))) @ be32 (word_of_nat off) @ ?entries)]"
    by simp
  have "demux_traf buf (tfhd @ tfdt @ trun) = (unat (ti_track_id run),
      unat (ti_base_decode_time run), cut_samples buf off
       (map (\<lambda>s. (unat (fi_duration s), unat (fi_size s), fi_is_sync s)) (ti_samples run)))"
    using h off read_entries_trun [of "ti_samples run" "[]"]
    by (simp add: demux_traf_def first_section_def secs field_append_right unat_word_of_nat_less
        Let_def)
  with t show thesis by (rule that)
qed

lemma trafs_reads:
  "trafs runs offs = Some ts \<Longrightarrow> length offs = length runs \<Longrightarrow>
   (\<And>i. i < length runs \<Longrightarrow> offs ! i < 2 ^ 32 \<and> length (ti_samples (runs ! i)) < 2 ^ 32) \<Longrightarrow>
   \<exists>items. boxes_of items ts \<and> list_all (\<lambda>s. fst s = ascii ''traf'') items
     \<and> map (demux_traf buf \<circ> snd) items = map (\<lambda>(run, off). (unat (ti_track_id run),
         unat (ti_base_decode_time run), cut_samples buf off
           (map (\<lambda>s. (unat (fi_duration s), unat (fi_size s), fi_is_sync s)) (ti_samples run))))
         (zip runs offs)"
proof (induction runs arbitrary: offs ts)
  case Nil
  then show ?case by (intro exI [of _ "[]"]) auto
next
  case (Cons run runs)
  then obtain off offs' t ts' where o: "offs = off # offs'" "ts = t # ts'"
    and t: "traf run off = Some t" and ts': "trafs runs offs' = Some ts'"
    by (cases offs) (auto simp: bind_eq_Some_conv)
  obtain p where p: "mp4_box (ascii ''traf'') p = Some t"
    "demux_traf buf p = (unat (ti_track_id run), unat (ti_base_decode_time run), cut_samples buf off
       (map (\<lambda>s. (unat (fi_duration s), unat (fi_size s), fi_is_sync s)) (ti_samples run)))"
    using traf_reads [OF t, of buf] Cons.prems(3) [of 0] o by auto
  from Cons.IH [OF ts'] Cons.prems o obtain items where
    "boxes_of items ts'" "list_all (\<lambda>s. fst s = ascii ''traf'') items"
    "map (demux_traf buf \<circ> snd) items = map (\<lambda>(run, off). (unat (ti_track_id run),
         unat (ti_base_decode_time run), cut_samples buf off
           (map (\<lambda>s. (unat (fi_duration s), unat (fi_size s), fi_is_sync s)) (ti_samples run))))
         (zip runs offs')"
    by fastforce
  with p o show ?case by (intro exI [of _ "(ascii ''traf'', p) # items"]) (auto simp: comp_def)
qed

lemma moof_reads:
  assumes moof: "build_moof_multi sq runs offs = Some moof" and len: "length offs = length runs"
    and small: "\<And>i. i < length runs \<Longrightarrow> offs ! i < 2 ^ 32 \<and> length (ti_samples (runs ! i)) < 2 ^ 32"
    and buf: "buf = moof @ rest" "length buf \<le> u64_max"
  shows "demux_fragment buf = map (\<lambda>(run, off). (unat (ti_track_id run),
    unat (ti_base_decode_time run), cut_samples buf off
      (map (\<lambda>s. (unat (fi_duration s), unat (fi_size s), fi_is_sync s)) (ti_samples run))))
    (zip runs offs)"
proof -
  from moof obtain mfhd ts where
    mfhd: "full_box (ascii ''mfhd'') 0 0 (be32 sq) = Some mfhd"
    and ts: "trafs runs offs = Some ts"
    and m: "mp4_box (ascii ''moof'') (mfhd @ concat ts) = Some moof"
    by (auto simp: build_moof_multi_def bind_eq_Some_conv)
  obtain h where h: "mp4_box (ascii ''mfhd'') (h @ be32 sq) = Some mfhd"
    using mfhd by (metis full_box_payload)
  obtain items where items: "boxes_of items ts" "list_all (\<lambda>s. fst s = ascii ''traf'') items"
    and eq: "map (demux_traf buf \<circ> snd) items = map (\<lambda>(run, off). (unat (ti_track_id run),
         unat (ti_base_decode_time run), cut_samples buf off
           (map (\<lambda>s. (unat (fi_duration s), unat (fi_size s), fi_is_sync s)) (ti_samples run))))
         (zip runs offs)"
    using trafs_reads [OF ts len small, of buf] by blast
  have "sections (concat (mfhd # ts)) = (ascii ''mfhd'', h @ be32 sq) # items"
    using items(1) h mp4_box_small [OF m] by (intro sections_boxes) (auto simp: u64_max_def)
  then have secs: "sections (mfhd @ concat ts) = (ascii ''mfhd'', h @ be32 sq) # items" by simp
  obtain more where "sections buf = (ascii ''moof'', mfhd @ concat ts) # more"
    using sections_box_append [OF m, of rest] buf by auto
  then have "first_section ''moof'' buf = mfhd @ concat ts" by (simp add: first_section_def)
  moreover have "filter (\<lambda>s. fst s = ascii ''traf'') items = items"
    using items(2) by (auto simp: list_all_iff intro: filter_True)
  ultimately show ?thesis using secs eq by (simp add: demux_fragment_def)
qed

text \<open>Cutting at the sample sizes gives back the samples.\<close>

lemma cut_samples_concat:
  "map (\<lambda>e. fst (snd e)) es = map length bs \<Longrightarrow>
     cut_samples (pre @ concat bs @ post) (length pre) es = map (\<lambda>(b, d, _, k). (b, d, k)) (zip bs es)"
proof (induction es arbitrary: pre bs)
  case (Cons e es)
  obtain d s k where e: "e = (d, s, k)" by (cases e)
  obtain b bs' where b: "bs = b # bs'" "s = length b" using Cons.prems e by auto
  have "cut_samples ((pre @ b) @ concat bs' @ post) (length (pre @ b)) es
      = map (\<lambda>(b, d, _, k). (b, d, k)) (zip bs' es)"
    using Cons.prems b by (intro Cons.IH) simp
  moreover have "slice (length pre) (length pre + length b) (pre @ b @ concat bs' @ post) = b"
    by (rule slice_middle)
  ultimately show ?case using e b by simp
qed simp

section \<open>The round trip\<close>

lemma mdat_header_length:
  "mdat_header_len n = Inr l \<Longrightarrow> mdat_header n = Some h \<Longrightarrow> length h = l"
  by (auto simp: mdat_header_len_def mdat_header_def bind_out_Inr_iff bind_eq_Some_conv
      split: if_splits)

lemma sample_info_of_Inr:
  "sample_info_of s = Inr i \<longleftrightarrow> fi_duration i = fs_duration s \<and> fi_is_sync i = fs_is_sync s
     \<and> unat (fi_size i) = length (fs_data s)"
proof
  assume r: "fi_duration i = fs_duration s \<and> fi_is_sync i = fs_is_sync s
     \<and> unat (fi_size i) = length (fs_data s)"
  then have "try_u32 (length (fs_data s)) = Some (fi_size i)"
    using unat_less_power [of "fi_size i"] by (simp add: checked_simps)
  with r show "sample_info_of s = Inr i" by (simp add: sample_info_of_def)
qed (auto simp: sample_info_of_def bind_out_Inr_iff checked_simps)

definition run_infos :: "track_run list \<Rightarrow> frag_sample_info list list \<Rightarrow> track_run_info list" where
  "run_infos runs infos = map (\<lambda>(run, samples). \<lparr>ti_track_id = tk_track_id run,
     ti_base_decode_time = tk_base_decode_time run, ti_samples = samples\<rparr>) (zip runs infos)"

lemma collect_infos:
  "collect sample_info_of ss = Inr is \<Longrightarrow>
     map (unat \<circ> fi_size) is = map (length \<circ> fs_data) ss
     \<and> map (\<lambda>s. (unat (fi_duration s), fi_is_sync s)) is
       = map (\<lambda>s. (unat (fs_duration s), fs_is_sync s)) ss"
  by (induction ss arbitrary: "is") (auto simp: bind_out_Inr_iff sample_info_of_Inr)

lemma sizes_of_runs:
  "collect (\<lambda>run. collect sample_info_of (tk_samples run)) runs = Inr infos \<Longrightarrow>
     sum_list (map (unat \<circ> fi_size) (concat (map ti_samples (take i (run_infos runs infos)))))
       = length (concat (map fs_data (concat (map tk_samples (take i runs)))))"
proof (induction runs arbitrary: infos i)
  case Nil
  then show ?case by (simp add: run_infos_def)
next
  case (Cons run runs)
  then obtain x xs where x: "infos = x # xs" "collect sample_info_of (tk_samples run) = Inr x"
    "collect (\<lambda>run. collect sample_info_of (tk_samples run)) runs = Inr xs"
    by (auto simp: bind_out_Inr_iff)
  have "sum_list (map (unat \<circ> fi_size) x) = length (concat (map fs_data (tk_samples run)))"
    using collect_infos [OF x(2)] by (simp add: length_concat comp_def)
  with Cons.IH [OF x(3), of "i - 1"] x(1) show ?case
    by (cases i) (auto simp: run_infos_def comp_def)
qed

lemma try_fold_data:
  "try_fold (\<lambda>tot s. ok_or PayloadSizeOverflow (checked_add_usize tot (length (fs_data s)))) acc ss
     = Inr t \<Longrightarrow> t = acc + length (concat (map fs_data ss))"
proof (induction ss arbitrary: acc)
  case (Cons s ss)
  then have "try_fold (\<lambda>tot s. ok_or PayloadSizeOverflow (checked_add_usize tot (length (fs_data s))))
      (acc + length (fs_data s)) ss = Inr t"
    by (auto simp: bind_out_Inr_iff checked_simps)
  from Cons.IH [OF this] show ?case by simp
qed simp

lemma fragment_multi_Inr:
  assumes "fragment_multi reserve sq runs = Inr out"
  obtains infos moof header where
    "collect (\<lambda>run. collect sample_info_of (tk_samples run)) runs = Inr infos"
    "fragment_moof_multi sq (run_infos runs infos) = Inr moof"
    "mdat_header (length (concat (map fs_data (concat (map tk_samples runs))))) = Some header"
    "out = moof @ header @ concat (map fs_data (concat (map tk_samples runs)))"
    "length out \<le> u64_max"
  using assms that
  by (auto simp: fragment_multi_def bind_out_Inr_iff bind_eq_Some_conv checked_simps Let_def
      run_infos_def usize_max_def u64_max_def dest!: try_fold_data split: if_splits)

lemma demux_fragment_multi:
  assumes frag: "fragment_multi reserve sq runs = Inr out"
  shows "demux_fragment out = map (\<lambda>run. (unat (tk_track_id run), unat (tk_base_decode_time run),
    map (\<lambda>s. (fs_data s, unat (fs_duration s), fs_is_sync s)) (tk_samples run))) runs"
proof -
  let ?data = "\<lambda>runs. concat (map fs_data (concat (map tk_samples runs)))"
  obtain infos moof header where
    infos: "collect (\<lambda>run. collect sample_info_of (tk_samples run)) runs = Inr infos"
    and moof: "fragment_moof_multi sq (run_infos runs infos) = Inr moof"
    and header: "mdat_header (length (?data runs)) = Some header"
    and out: "out = moof @ header @ ?data runs" "length out \<le> u64_max"
    using fragment_multi_Inr [OF frag] .
  let ?infos = "run_infos runs infos"
  have li: "length infos = length runs" using collect_Inr_length [OF infos] .
  then have lr: "length ?infos = length runs" by (simp add: run_infos_def)
  obtain offs hl where build: "build_moof_multi sq ?infos offs = Some moof"
    and lo: "length offs = length ?infos"
    and hl: "mdat_header_len (sum_list (map (unat \<circ> fi_size) (concat (map ti_samples ?infos)))) = Inr hl"
    and offs: "data_offsets (length moof + hl) ?infos = Inr offs" "length moof + hl < 2 ^ 31"
    and count: "\<And>run. run \<in> set ?infos \<Longrightarrow> length (ti_samples run) < 2 ^ 32"
    by (rule fragment_moof_multi_Inr [OF moof]) (rule that)
  have "length header = hl"
    using mdat_header_length [OF hl] header sizes_of_runs [OF infos, of "length runs"] lr by simp
  then have off: "offs ! i = length (moof @ header @ ?data (take i runs))" if "i < length runs" for i
    using data_offsets_nth [OF offs(1), of i] that lr sizes_of_runs [OF infos, of i] by simp
  have small: "offs ! i < 2 ^ 32 \<and> length (ti_samples (?infos ! i)) < 2 ^ 32" if "i < length ?infos" for i
    using data_offsets_nth [OF offs(1) that] offs(2) count that by (auto simp: in_set_conv_nth)
  have demux: "demux_fragment out = map (\<lambda>(run, off). (unat (ti_track_id run),
      unat (ti_base_decode_time run), cut_samples out off
        (map (\<lambda>s. (unat (fi_duration s), unat (fi_size s), fi_is_sync s)) (ti_samples run))))
      (zip ?infos offs)"
    using moof_reads [OF build lo small] out by blast
  show ?thesis
  proof (rule nth_equalityI)
    show "length (demux_fragment out) = length (map (\<lambda>run. (unat (tk_track_id run),
        unat (tk_base_decode_time run),
        map (\<lambda>s. (fs_data s, unat (fs_duration s), fs_is_sync s)) (tk_samples run))) runs)"
      using demux lo lr by simp
  next
    fix i
    assume "i < length (demux_fragment out)"
    then have i: "i < length runs" using demux lo lr by simp
    let ?r = "runs ! i" and ?es = "map (\<lambda>s. (unat (fi_duration s), unat (fi_size s), fi_is_sync s)) (infos ! i)"
    have info: "collect sample_info_of (tk_samples ?r) = Inr (infos ! i)"
      using collect_Inr_nth [OF infos i] .
    have "?data runs = ?data (take i runs @ ?r # drop (Suc i) runs)"
      using id_take_nth_drop [OF i] by simp
    then have "out = (moof @ header @ ?data (take i runs)) @ concat (map fs_data (tk_samples ?r))
        @ ?data (drop (Suc i) runs)"
      using out(1) by simp
    then have "cut_samples out (offs ! i) ?es
        = map (\<lambda>(b, d, _, k). (b, d, k)) (zip (map fs_data (tk_samples ?r)) ?es)"
      using cut_samples_concat [of ?es "map fs_data (tk_samples ?r)"
          "moof @ header @ ?data (take i runs)" "?data (drop (Suc i) runs)"] collect_infos [OF info]
      by (simp add: off [OF i] comp_def)
    also have "\<dots> = map (\<lambda>s. (fs_data s, unat (fs_duration s), fs_is_sync s)) (tk_samples ?r)"
      using collect_infos [OF info] by (intro nth_equalityI) (auto simp: list_eq_iff_nth_eq)
    finally show "demux_fragment out ! i = map (\<lambda>run. (unat (tk_track_id run),
        unat (tk_base_decode_time run),
        map (\<lambda>s. (fs_data s, unat (fs_duration s), fs_is_sync s)) (tk_samples run))) runs ! i"
      using i li lo lr by (simp add: demux) (simp add: run_infos_def)
  qed
qed

end
