(* ===== verification/Mp4_Writer.thy ===== *)
theory Mp4_Writer
  imports Mp4_Tables Mp4_Demux
begin

text \<open>
  The hybrid MP4 writer (crates/clipline-mp4/src/writer.rs) over an in-memory cursor, the sink the
  repository's own tests use: configuration checks, fragments, and the finalization that hides the
  fragments in one \<open>mdat\<close>.  A sample source is its bytes.  An operation returns the writer it
  leaves, also when it fails.
\<close>

section \<open>The sink\<close>

record sink =
  sk_data :: bytes
  sk_pos :: nat

definition sink_new :: sink where
  "sink_new = \<lparr>sk_data = [], sk_pos = 0\<rparr>"

text \<open>\<open>Cursor<Vec<u8>>::write_all\<close> and \<open>seek(SeekFrom::Start(p))\<close>.\<close>

definition write_all :: "sink \<Rightarrow> bytes \<Rightarrow> sink" where
  "write_all s bs =
     (let before = take (sk_pos s) (sk_data s) @ replicate (sk_pos s - length (sk_data s)) 0
      in \<lparr>sk_data = before @ bs @ drop (sk_pos s + length bs) (sk_data s),
          sk_pos = sk_pos s + length bs\<rparr>)"

definition seek_start :: "sink \<Rightarrow> nat \<Rightarrow> sink" where
  "seek_start s p = s\<lparr>sk_pos := p\<rparr>"

text \<open>\<open>copy_exact\<close>, with the 64 KiB buffer of its callers.\<close>

definition copy_buf_len :: nat where
  "copy_buf_len = 64 * 1024"

function copy_exact :: "bytes \<Rightarrow> nat \<Rightarrow> nat \<Rightarrow> sink \<Rightarrow> sink \<times> (writer_error, unit) outcome" where
  "copy_exact source pos remaining w =
     (if remaining = 0 then (w, Inr ())
      else let n = min remaining copy_buf_len
           in if length source < pos + n then (w, Inl (Err SourceExhausted))
              else copy_exact source (pos + n) (remaining - n) (write_all w (slice pos (pos + n) source)))"
  by pat_completeness auto
termination
  by (relation "measure (\<lambda>(source, pos, remaining, w). remaining)") (auto simp: copy_buf_len_def)

declare copy_exact.simps [simp del]

section \<open>Configuration checks\<close>

definition u16_max :: nat where
  "u16_max = 65535"

definition validate_parameter_sets :: "bytes list \<Rightarrow> nat \<Rightarrow> (writer_error, unit) outcome" where
  "validate_parameter_sets sets max_count =
     (if sets = [] \<or> max_count < length sets then Inl (Err InvalidConfig)
      else if list_ex (\<lambda>s. s = [] \<or> u16_max < length s) sets then Inl (Err InvalidConfig)
      else Inr ())"

definition validate_track_config :: "track_config \<Rightarrow> (writer_error, unit) outcome" where
  "validate_track_config t = (case t of
       Video cfg \<Rightarrow>
         if vt_width cfg = 0 \<or> vt_height cfg = 0 then Inl (Err InvalidConfig)
         else if vt_timescale cfg = 0 then Inl (Err InvalidConfig)
         else (case vt_codec cfg of
             H264 sps pps \<Rightarrow> bind_out (validate_parameter_sets sps 31) (\<lambda>_. validate_parameter_sets pps 255)
           | Hevc vps sps pps \<Rightarrow> bind_out (validate_parameter_sets vps u16_max) (\<lambda>_.
               bind_out (validate_parameter_sets sps u16_max) (\<lambda>_. validate_parameter_sets pps u16_max))
           | Av1 obu \<Rightarrow> if obu = [] then Inl (Err InvalidConfig) else Inr ())
     | Audio cfg \<Rightarrow>
         if at_channels cfg = 0 \<or> 255 < at_channels cfg then Inl (Err InvalidConfig)
         else if at_sample_rate cfg = 0 \<or> 65535 < at_sample_rate cfg then Inl (Err InvalidConfig)
         else Inr ())"

definition validate_track_configs :: "track_config list \<Rightarrow> (writer_error, unit) outcome" where
  "validate_track_configs tracks =
     (if tracks = [] then Inl (Err InvalidConfig)
      else bind_out (collect validate_track_config tracks) (\<lambda>_. Inr ()))"

definition validate_nonzero_durations :: "u32 list \<Rightarrow> (writer_error, unit) outcome" where
  "validate_nonzero_durations ds =
     (if list_ex (\<lambda>d. d = 0) ds then Inl (Err InvalidConfig) else Inr ())"

section \<open>The writer\<close>

record mp4_writer =
  mw_w :: sink
  mw_tracks :: "track_state list"
  mw_free_offset :: nat
  mw_next_sequence :: u32

definition writer_new_multi :: "sink \<Rightarrow> track_config list \<Rightarrow> (writer_error, mp4_writer) outcome" where
  "writer_new_multi w tracks =
     bind_out (validate_track_configs tracks) (\<lambda>_.
     bind_out (or_panic ftyp) (\<lambda>ft.
     bind_out (or_panic free_placeholder) (\<lambda>fr.
     bind_out (or_panic (moov_init_multi tracks)) (\<lambda>moov.
       Inr \<lparr>mw_w = write_all (write_all (write_all w ft) fr) moov,
            mw_tracks = map track_state_new tracks, mw_free_offset = length ft,
            mw_next_sequence = 1\<rparr>))))"

definition writer_new :: "sink \<Rightarrow> video_track_config \<Rightarrow> (writer_error, mp4_writer) outcome" where
  "writer_new w cfg = writer_new_multi w [Video cfg]"

definition set_track_decode_time ::
  "mp4_writer \<Rightarrow> nat \<Rightarrow> nat \<Rightarrow> mp4_writer \<times> (writer_error, unit) outcome" where
  "set_track_decode_time mw track_index decode_time =
     (case get_at (mw_tracks mw) track_index of None \<Rightarrow> (mw, Inl (Err InvalidConfig))
      | Some state \<Rightarrow> (case advance_track state decode_time of
            Inl e \<Rightarrow> (mw, Inl e)
          | Inr state' \<Rightarrow> (mw\<lparr>mw_tracks := (mw_tracks mw)[track_index := state']\<rparr>, Inr ())))"

definition track_decode_time :: "mp4_writer \<Rightarrow> nat \<Rightarrow> (writer_error, nat) outcome" where
  "track_decode_time mw track_index =
     ok_or InvalidConfig (map_option ks_next_decode_time (get_at (mw_tracks mw) track_index))"

text \<open>The trait \<open>FragmentSampleMeta\<close> is the function that describes a sample.\<close>

definition fragment_info :: "frag_sample \<Rightarrow> (writer_error, frag_sample_info) outcome" where
  "fragment_info s = map_err InvalidFragment (sample_info_of s)"

record source_sample =
  ss_offset :: nat
  ss_size :: u32
  ss_duration :: u32
  ss_is_sync :: bool

definition source_fragment_info :: "source_sample \<Rightarrow> (writer_error, frag_sample_info) outcome" where
  "source_fragment_info s =
     Inr \<lparr>fi_size = ss_size s, fi_duration = ss_duration s, fi_is_sync = ss_is_sync s\<rparr>"

definition fragment_info_storage ::
  "('s \<Rightarrow> (writer_error, frag_sample_info) outcome) \<Rightarrow> 's list list \<Rightarrow> nat
     \<Rightarrow> (writer_error, frag_sample_info list list option) outcome" where
  "fragment_info_storage info per_track expected_tracks =
     (if length per_track \<noteq> expected_tracks then Inl (Err InvalidConfig)
      else if list_all (\<lambda>ss. ss = []) per_track then Inr None
      else
        bind_out (collect (collect info) per_track) (\<lambda>infos.
        bind_out (validate_nonzero_durations (map fi_duration (concat infos))) (\<lambda>_.
          Inr (Some infos))))"

fun write_payloads ::
  "(nat \<Rightarrow> nat \<Rightarrow> sink \<Rightarrow> sink \<times> (writer_error, unit) outcome) \<Rightarrow> (nat \<times> nat) list \<Rightarrow> sink
     \<Rightarrow> sink \<times> (writer_error, unit) outcome" where
  "write_payloads f [] w = (w, Inr ())"
| "write_payloads f ((track, sample) # rest) w = (case f track sample w of
     (w', Inl e) \<Rightarrow> (w', Inl e) | (w', Inr _) \<Rightarrow> write_payloads f rest w')"

definition payload_order :: "'s list list \<Rightarrow> (nat \<times> nat) list" where
  "payload_order infos = concat (map (\<lambda>(i, ss). map (Pair i) [0..<length ss]) (List.enumerate 0 infos))"

text \<open>The bookkeeping loop; each track's samples follow those of the tracks before it.\<close>

fun record_tracks ::
  "nat \<Rightarrow> frag_sample_info list list \<Rightarrow> track_state list
     \<Rightarrow> track_state list \<times> (writer_error, unit) outcome" where
  "record_tracks sample_offset (ss # sss) (st # sts) =
     (if ss = [] then apfst (Cons st) (record_tracks sample_offset sss sts)
      else case record_track st sample_offset ss of
          (st', Inl e) \<Rightarrow> (st' # sts, Inl e)
        | (st', Inr _) \<Rightarrow> apfst (Cons st')
            (record_tracks (sample_offset + sum_list (map (unat \<circ> fi_size) ss)) sss sts))"
| "record_tracks sample_offset sss sts = (sts, Inr ())"

definition planned_runs :: "frag_sample_info list list \<Rightarrow> track_state list \<Rightarrow> track_run_info list" where
  "planned_runs infos tracks =
     map (\<lambda>(i, ss). \<lparr>ti_track_id = word_of_nat i + 1,
            ti_base_decode_time = word_of_nat (ks_next_decode_time (tracks ! i)), ti_samples = ss\<rparr>)
       (filter (\<lambda>(i, ss). ss \<noteq> []) (List.enumerate 0 infos))"

definition write_planned_fragment ::
  "mp4_writer \<Rightarrow> frag_sample_info list list
     \<Rightarrow> (nat \<Rightarrow> nat \<Rightarrow> sink \<Rightarrow> sink \<times> (writer_error, unit) outcome)
     \<Rightarrow> mp4_writer \<times> (writer_error, unit) outcome" where
  "write_planned_fragment mw infos write_payload =
     (let prepared =
        bind_out (map_err InvalidFragment (try_fold add_size 0 (concat infos))) (\<lambda>total_payload.
        bind_out (map_err InvalidFragment (fragment_moof_multi (mw_next_sequence mw)
                    (planned_runs infos (mw_tracks mw)))) (\<lambda>moof.
        bind_out (or_panic (mdat_header total_payload)) (\<lambda>header. Inr (moof, header))))
      in case prepared of
           Inl e \<Rightarrow> (mw, Inl e)
         | Inr (moof, header) \<Rightarrow>
             let frag_start = sk_pos (mw_w mw);
                 w1 = write_all (write_all (mw_w mw) moof) header
             in (case write_payloads write_payload (payload_order infos) w1 of
                   (w2, Inl e) \<Rightarrow> (mw\<lparr>mw_w := w2\<rparr>, Inl e)
                 | (w2, Inr _) \<Rightarrow>
                     (case record_tracks (frag_start + length moof + length header) infos (mw_tracks mw) of
                        (sts, Inl e) \<Rightarrow> (mw\<lparr>mw_w := w2, mw_tracks := sts\<rparr>, Inl e)
                      | (sts, Inr _) \<Rightarrow>
                          (mw\<lparr>mw_w := w2, mw_tracks := sts,
                              mw_next_sequence := mw_next_sequence mw + 1\<rparr>, Inr ()))))"

definition write_sample ::
  "frag_sample list list \<Rightarrow> nat \<Rightarrow> nat \<Rightarrow> sink \<Rightarrow> sink \<times> (writer_error, unit) outcome" where
  "write_sample per_track track sample w = (write_all w (fs_data (per_track ! track ! sample)), Inr ())"

text \<open>
  The owned and the borrowed variant differ only in the ownership of the bytes.  An all-empty
  fragment is \<open>Ok\<close> and writes nothing.
\<close>

definition write_fragment_multi ::
  "mp4_writer \<Rightarrow> frag_sample list list \<Rightarrow> mp4_writer \<times> (writer_error, unit) outcome" where
  "write_fragment_multi mw per_track =
     (case fragment_info_storage fragment_info per_track (length (mw_tracks mw)) of
        Inl e \<Rightarrow> (mw, Inl e)
      | Inr None \<Rightarrow> (mw, Inr ())
      | Inr (Some infos) \<Rightarrow> write_planned_fragment mw infos (write_sample per_track))"

definition write_fragment_multi_borrowed ::
  "mp4_writer \<Rightarrow> frag_sample list list \<Rightarrow> mp4_writer \<times> (writer_error, unit) outcome" where
  "write_fragment_multi_borrowed mw per_track =
     (case fragment_info_storage fragment_info per_track (length (mw_tracks mw)) of
        Inl e \<Rightarrow> (mw, Inl e)
      | Inr None \<Rightarrow> (mw, Inr ())
      | Inr (Some infos) \<Rightarrow> write_planned_fragment mw infos (write_sample per_track))"

definition write_fragment ::
  "mp4_writer \<Rightarrow> frag_sample list \<Rightarrow> mp4_writer \<times> (writer_error, unit) outcome" where
  "write_fragment mw samples = write_fragment_multi mw [samples]"

definition copy_sample ::
  "(nat \<Rightarrow> bytes) \<Rightarrow> source_sample list list \<Rightarrow> nat \<Rightarrow> nat \<Rightarrow> sink
     \<Rightarrow> sink \<times> (writer_error, unit) outcome" where
  "copy_sample source per_track track sample w =
     (let s = per_track ! track ! sample
      in copy_exact (source track) (ss_offset s) (unat (ss_size s)) w)"

definition write_fragment_multi_from_source ::
  "mp4_writer \<Rightarrow> bytes \<Rightarrow> source_sample list list \<Rightarrow> mp4_writer \<times> (writer_error, unit) outcome" where
  "write_fragment_multi_from_source mw source per_track =
     (case fragment_info_storage source_fragment_info per_track (length (mw_tracks mw)) of
        Inl e \<Rightarrow> (mw, Inl e)
      | Inr None \<Rightarrow> (mw, Inr ())
      | Inr (Some infos) \<Rightarrow> write_planned_fragment mw infos (copy_sample (\<lambda>_. source) per_track))"

definition write_fragment_multi_from_sources ::
  "mp4_writer \<Rightarrow> bytes list \<Rightarrow> source_sample list list \<Rightarrow> mp4_writer \<times> (writer_error, unit) outcome" where
  "write_fragment_multi_from_sources mw sources per_track =
     (if length per_track \<noteq> length (mw_tracks mw) \<or> length sources \<noteq> length (mw_tracks mw)
      then (mw, Inl (Err InvalidConfig))
      else case fragment_info_storage source_fragment_info per_track (length (mw_tracks mw)) of
        Inl e \<Rightarrow> (mw, Inl e)
      | Inr None \<Rightarrow> (mw, Inr ())
      | Inr (Some infos) \<Rightarrow> write_planned_fragment mw infos (copy_sample (\<lambda>i. sources ! i) per_track))"

definition final_moov :: "mp4_writer \<Rightarrow> bytes option" where
  "final_moov mw = do {
     ds \<leftarrow> map_opt duration_movie_ts (mw_tracks mw);
     h \<leftarrow> mvhd (word_of_nat (fold max ds 0)) (word_of_nat (length (mw_tracks mw)) + 1);
     traks \<leftarrow> map_opt (\<lambda>(i, t). track_trak t (word_of_nat i + 1)) (List.enumerate 0 (mw_tracks mw));
     mp4_box (ascii ''moov'') (h @ concat traks)
   }"

definition finalize :: "mp4_writer \<Rightarrow> sink option" where
  "finalize mw = do {
     moov \<leftarrow> final_moov mw;
     let moov_offset = sk_pos (mw_w mw);
     let w1 = write_all (mw_w mw) moov;
     let hidden_span = moov_offset - mw_free_offset mw;
     Some (write_all (seek_start w1 (mw_free_offset mw))
       (be32 1 @ ascii ''mdat'' @ be64n hidden_span))
   }"

end
