(* ===== verification/Mp4_Writer_Correct.thy ===== *)
theory Mp4_Writer_Correct
  imports Mp4_Writer
begin

text \<open>
  The file a writer leaves, read through the sample tables of its tracks: every fragment adds
  exactly its samples, and finalization keeps them while hiding the fragments from a box walk.
\<close>

section \<open>Reading a track through its tables\<close>

fun cut_bytes :: "bytes \<Rightarrow> nat \<Rightarrow> nat list \<Rightarrow> bytes list" where
  "cut_bytes f pos [] = []"
| "cut_bytes f pos (n # ns) = slice pos (pos + n) f # cut_bytes f (pos + n) ns"

fun table_bytes :: "bytes \<Rightarrow> nat list \<Rightarrow> nat list \<Rightarrow> nat list \<Rightarrow> bytes list" where
  "table_bytes f (off # offs) (c # cs) ns = cut_bytes f off (take c ns) @ table_bytes f offs cs (drop c ns)"
| "table_bytes f offs cs ns = []"

text \<open>The samples of a track: bytes, duration and sync flag.\<close>

definition track_view :: "bytes \<Rightarrow> track_state \<Rightarrow> (bytes \<times> nat \<times> bool) list" where
  "track_view f st = zip (table_bytes f (ks_chunk_offsets st) (chunk_counts st) (ks_sizes st))
     (zip (durations st) (sync_flags st))"

text \<open>Every chunk lies between two file offsets.\<close>

fun located :: "nat \<Rightarrow> nat \<Rightarrow> nat list \<Rightarrow> nat list \<Rightarrow> nat list \<Rightarrow> bool" where
  "located lo hi (off # offs) (c # cs) ns = (lo \<le> off \<and> off + sum_list (take c ns) \<le> hi
     \<and> located lo hi offs cs (drop c ns))"
| "located lo hi offs cs ns = True"

lemma cut_bytes_cong:
  "(\<And>a b. lo \<le> a \<Longrightarrow> b \<le> hi \<Longrightarrow> slice a b f = slice a b g) \<Longrightarrow> lo \<le> pos \<Longrightarrow>
     pos + sum_list ns \<le> hi \<Longrightarrow> cut_bytes f pos ns = cut_bytes g pos ns"
  by (induction ns arbitrary: pos) auto

lemma table_bytes_cong:
  assumes "\<And>a b. lo \<le> a \<Longrightarrow> b \<le> hi \<Longrightarrow> slice a b f = slice a b g"
  shows "located lo hi offs cs ns \<Longrightarrow> table_bytes f offs cs ns = table_bytes g offs cs ns"
  using assms
  by (induction lo hi offs cs ns rule: located.induct) (auto intro: cut_bytes_cong)

lemma located_mono: "located lo hi offs cs ns \<Longrightarrow> hi \<le> hi' \<Longrightarrow> located lo hi' offs cs ns"
  by (induction lo hi offs cs ns rule: located.induct) auto

lemma located_snoc:
  "located lo hi offs cs ns \<Longrightarrow> length offs = length cs \<Longrightarrow> sum_list cs = length ns \<Longrightarrow>
   lo \<le> off \<Longrightarrow> off + sum_list ms \<le> hi \<Longrightarrow>
     located lo hi (offs @ [off]) (cs @ [length ms]) (ns @ ms)"
proof (induction lo hi offs cs ns rule: located.induct)
  case (1 lo hi off offs c cs ns)
  then show ?case by auto
qed auto

lemma table_bytes_snoc:
  "length offs = length cs \<Longrightarrow> sum_list cs = length ns \<Longrightarrow>
     table_bytes f (offs @ [off]) (cs @ [length ms]) (ns @ ms)
       = table_bytes f offs cs ns @ cut_bytes f off ms"
proof (induction offs arbitrary: cs ns)
  case (Cons o' offs)
  then obtain c cs' where c: "cs = c # cs'" by (cases cs) auto
  then have "sum_list cs' = length (drop c ns)" using Cons.prems(2) by simp
  with Cons.IH [of cs' "drop c ns"] Cons.prems c show ?case by simp
qed simp

lemma table_bytes_length:
  "length offs = length cs \<Longrightarrow> sum_list cs = length ns \<Longrightarrow> length (table_bytes f offs cs ns) = length ns"
proof (induction offs arbitrary: cs ns)
  case (Cons o' offs)
  have len: "length (cut_bytes f pos ms) = length ms" for pos ms
    by (induction ms arbitrary: pos) auto
  from Cons.prems obtain c cs' where c: "cs = c # cs'" by (cases cs) auto
  then have "sum_list cs' = length (drop c ns)" using Cons.prems(2) by simp
  with Cons.IH [of cs' "drop c ns"] Cons.prems c show ?case by (simp add: len)
qed simp

lemma cut_bytes_concat:
  "cut_bytes (pre @ concat bs @ post) (length pre) (map length bs) = bs"
proof (induction bs arbitrary: pre)
  case (Cons b bs)
  have "cut_bytes ((pre @ b) @ concat bs @ post) (length (pre @ b)) (map length bs) = bs"
    by (rule Cons.IH)
  moreover have "slice (length pre) (length pre + length b) (pre @ b @ concat bs @ post) = b"
    by (rule slice_middle)
  ultimately show ?case by simp
qed simp

section \<open>The writer's invariant\<close>

definition stream_ok :: "nat \<Rightarrow> nat \<Rightarrow> track_state \<Rightarrow> bool" where
  "stream_ok lo hi st \<longleftrightarrow> track_ok st \<and> decode_ok st
     \<and> sum_list (chunk_counts st) = ks_sample_count st
     \<and> located lo hi (ks_chunk_offsets st) (chunk_counts st) (ks_sizes st)"

definition writer_ok :: "mp4_writer \<Rightarrow> bool" where
  "writer_ok mw \<longleftrightarrow> sk_pos (mw_w mw) = length (sk_data (mw_w mw))
     \<and> (\<exists>ft fr rest. ftyp = Some ft \<and> free_placeholder = Some fr
          \<and> sk_data (mw_w mw) = ft @ fr @ rest \<and> mw_free_offset mw = length ft)
     \<and> (\<forall>st \<in> set (mw_tracks mw).
          stream_ok (mw_free_offset mw + 16) (length (sk_data (mw_w mw))) st)"

lemma write_all_end:
  "sk_pos w = length (sk_data w) \<Longrightarrow>
     write_all w bs = \<lparr>sk_data = sk_data w @ bs, sk_pos = length (sk_data w @ bs)\<rparr>"
  by (simp add: write_all_def)

lemma sync_flags_length: "length (sync_flags st) = ks_sample_count st"
  by (simp add: sync_flags_def)

text \<open>A track that records a chunk whose bytes lie at its offset gains exactly those samples.\<close>

lemma record_track_stream:
  assumes rec: "record_track st off ss = (st', Inr ())" and ok: "stream_ok lo hi st"
    and f: "f = pre @ concat bs @ post" "length pre = off" "map (unat \<circ> fi_size) ss = map length bs"
    and old: "\<And>a b. lo \<le> a \<Longrightarrow> b \<le> hi \<Longrightarrow> slice a b f = slice a b g"
    and lo: "lo \<le> off" "hi \<le> length f"
  shows "stream_ok lo (length f) st' \<and> track_view f st' = track_view g st
      @ zip bs (zip (map (unat \<circ> fi_duration) ss) (map fi_is_sync ss))"
proof -
  have tk: "track_ok st" "decode_ok st" and cnt: "sum_list (chunk_counts st) = ks_sample_count st"
    and loc: "located lo hi (ks_chunk_offsets st) (chunk_counts st) (ks_sizes st)"
    using ok by (simp_all add: stream_ok_def)
  note view = record_track_view [OF rec tk]
  have len: "length (ks_chunk_offsets st) = length (chunk_counts st)"
    "sum_list (chunk_counts st) = length (ks_sizes st)"
    "length (durations st) = length (ks_sizes st)" "length (sync_flags st) = length (ks_sizes st)"
    using tk(1) cnt by (simp_all add: track_ok_def sync_flags_length)
  have ns: "ks_sizes st' = ks_sizes st @ map length bs" "length ss = length (map length bs)"
    using view f(3) map_eq_imp_length_eq [OF f(3)] by simp_all
  have bytes: "table_bytes f (ks_chunk_offsets st') (chunk_counts st') (ks_sizes st')
      = table_bytes g (ks_chunk_offsets st) (chunk_counts st) (ks_sizes st) @ bs"
    using table_bytes_snoc [OF len(1,2), of f off "map length bs"] view ns
      cut_bytes_concat [of pre bs post] f(1,2) table_bytes_cong [OF old loc] by simp
  have "off + sum_list (map length bs) \<le> length f"
    using f(1,2) by (simp add: length_concat)
  then have "located lo (length f) (ks_chunk_offsets st') (chunk_counts st') (ks_sizes st')"
    using located_snoc [OF located_mono [OF loc lo(2)] len(1,2) lo(1), where ms = "map length bs"]
      view ns by simp
  moreover have "sum_list (chunk_counts st') = ks_sample_count st'"
  proof -
    have "sum_list (chunk_counts st') = length (ks_sizes st')" using view len(2) ns(1) ns(2) map_eq_imp_length_eq [OF f(3)] by simp
    moreover have "length (ks_sizes st') = ks_sample_count st'"
      using conjunct1 [OF view] by (simp add: track_ok_def)
    ultimately show ?thesis by simp
  qed
  ultimately have "stream_ok lo (length f) st'" using view by (simp add: stream_ok_def)
  moreover have "track_view f st' = track_view g st
      @ zip bs (zip (map (unat \<circ> fi_duration) ss) (map fi_is_sync ss))"
    using view bytes len table_bytes_length [OF len(1,2), of g] by (simp add: track_view_def)
  ultimately show ?thesis ..
qed

section \<open>All tracks of a fragment\<close>

lemma record_tracks_streams:
  "record_tracks (length pre) infos sts = (sts', Inr ()) \<Longrightarrow> length infos = length sts \<Longrightarrow>
   length bss = length infos \<Longrightarrow>
   (\<And>i. i < length infos \<Longrightarrow> map (unat \<circ> fi_size) (infos ! i) = map length (bss ! i)) \<Longrightarrow>
   f = pre @ concat (concat bss) @ post \<Longrightarrow>
   (\<And>a b. lo \<le> a \<Longrightarrow> b \<le> hi \<Longrightarrow> slice a b f = slice a b g) \<Longrightarrow> lo \<le> length pre \<Longrightarrow> hi \<le> length f \<Longrightarrow>
   (\<forall>st \<in> set sts. stream_ok lo hi st) \<Longrightarrow>
   list_all (stream_ok lo (length f)) sts'
   \<and> map (track_view f) sts' = map (\<lambda>(st, ss, bs). track_view g st
        @ zip bs (zip (map (unat \<circ> fi_duration) ss) (map fi_is_sync ss))) (zip sts (zip infos bss))"
proof (induction infos arbitrary: sts sts' bss pre)
  case Nil
  then show ?case by simp
next
  case (Cons ss infos)
  then obtain st sts1 bs bss1 where s: "sts = st # sts1" "bss = bs # bss1"
    by (cases sts; cases bss) auto
  have sizes: "map (unat \<circ> fi_size) ss = map length bs" using Cons.prems(4) [of 0] s by (simp add: comp_def)
  then have sum: "sum_list (map (unat \<circ> fi_size) ss) = length (concat bs)"
    by (simp add: length_concat)
  have f: "f = pre @ concat bs @ concat (concat bss1) @ post" using Cons.prems(5) s by simp
  have ok: "stream_ok lo hi st" using Cons.prems(9) s by simp
  have nil: "length (concat bs) = 0" if "ss = []" using sum that by simp
  obtain st1 where st1: "(ss = [] \<and> st1 = st) \<or> (ss \<noteq> [] \<and> record_track st (length pre) ss = (st1, Inr ()))"
    and rest: "record_tracks (length (pre @ concat bs)) infos sts1 = (tl sts', Inr ())"
    and sts': "sts' = st1 # tl sts'"
  proof (cases "ss = []")
    case True
    have e: "length (pre @ concat bs) = length pre" using nil [OF True] by (simp only: length_append)
    show thesis
      using True Cons.prems(1) s that [of st, unfolded e]
      by (auto simp: apfst_def map_prod_def split: prod.splits)
  next
    case False
    then obtain st1 where "record_track st (length pre) ss = (st1, Inr ())"
      using Cons.prems(1) s by (auto split: prod.splits sum.splits)
    then show thesis
      using False Cons.prems(1) s that [of st1] sum
      by (auto simp: apfst_def map_prod_def split: prod.splits)
  qed
  have first: "stream_ok lo (length f) st1 \<and> track_view f st1 = track_view g st
      @ zip bs (zip (map (unat \<circ> fi_duration) ss) (map fi_is_sync ss))"
  proof (cases "ss = []")
    case True
    with sizes have "bs = []" by simp
    have "located lo hi (ks_chunk_offsets st) (chunk_counts st) (ks_sizes st)"
      using ok by (simp add: stream_ok_def)
    from table_bytes_cong [OF Cons.prems(6) this] located_mono [OF this Cons.prems(8)]
    show ?thesis using True st1 ok \<open>bs = []\<close> by (simp add: stream_ok_def track_view_def)
  next
    case False
    with st1 record_track_stream [OF _ ok f refl sizes Cons.prems(6-8)] show ?thesis by simp
  qed
  have sz: "map (unat \<circ> fi_size) (infos ! i) = map length (bss1 ! i)" if "i < length infos" for i
    using Cons.prems(4) [of "Suc i"] s that by (simp add: comp_def)
  have "list_all (stream_ok lo (length f)) (tl sts')
   \<and> map (track_view f) (tl sts') = map (\<lambda>(st, ss, bs). track_view g st
        @ zip bs (zip (map (unat \<circ> fi_duration) ss) (map fi_is_sync ss))) (zip sts1 (zip infos bss1))"
  proof (rule Cons.IH [OF rest _ _ sz _ Cons.prems(6) _ Cons.prems(8)])
    show "length infos = length sts1" "length bss1 = length infos"
      using Cons.prems(2,3) s by simp_all
    show "f = (pre @ concat bs) @ concat (concat bss1) @ post" using f by simp
    show "lo \<le> length (pre @ concat bs)" using Cons.prems(7) by simp
    show "\<forall>st \<in> set sts1. stream_ok lo hi st" using Cons.prems(9) s by simp
  qed
  with first show ?case using s by (subst sts', subst (2) sts') simp
qed

section \<open>Writing the payload\<close>

abbreviation at_end :: "sink \<Rightarrow> bool" where
  "at_end w \<equiv> sk_pos w = length (sk_data w)"

lemma write_payloads_data:
  "write_payloads f order w = (w', Inr ()) \<Longrightarrow> at_end w \<Longrightarrow>
   (\<And>i j u v. (i, j) \<in> set order \<Longrightarrow> at_end u \<Longrightarrow> f i j u = (v, Inr ()) \<Longrightarrow> v = write_all u (d i j)) \<Longrightarrow>
   w' = \<lparr>sk_data = sk_data w @ concat (map (\<lambda>(i, j). d i j) order),
         sk_pos = length (sk_data w @ concat (map (\<lambda>(i, j). d i j) order))\<rparr>"
proof (induction order arbitrary: w)
  case (Cons ij order)
  obtain i j where ij: "ij = (i, j)" by (cases ij)
  obtain v where v: "f i j w = (v, Inr ())" "write_payloads f order v = (w', Inr ())"
    using Cons.prems(1) ij by (auto split: prod.splits sum.splits)
  have "v = write_all w (d i j)" using Cons.prems(2,3) v(1) ij by simp
  then have vd: "sk_data v = sk_data w @ d i j" "at_end v"
    using write_all_end [OF Cons.prems(2), of "d i j"] by simp_all
  from Cons.IH [OF v(2) vd(2)] Cons.prems(3) ij vd(1) show ?case by simp
qed simp

lemma enumerate_map: "List.enumerate 0 xs = map (\<lambda>i. (i, xs ! i)) [0..<length xs]"
  by (rule nth_equalityI) (auto simp: nth_enumerate_eq)

lemma concat_map_concat: "concat (map f (concat xss)) = concat (concat (map (map f) xss))"
  by (induction xss) auto

lemma payload_order_concat:
  "concat (map (\<lambda>(i, j). d i j) (payload_order infos))
     = concat (concat (map (\<lambda>i. map (d i) [0..<length (infos ! i)]) [0..<length infos]))"
  unfolding payload_order_def concat_map_concat enumerate_map by (simp add: comp_def)

section \<open>A fragment\<close>

text \<open>The bytes of the payload, by track; \<open>d i j\<close> are the bytes of sample \<open>j\<close> of track \<open>i\<close>.\<close>

definition payload_bytes :: "(nat \<Rightarrow> nat \<Rightarrow> bytes) \<Rightarrow> 's list list \<Rightarrow> bytes list list" where
  "payload_bytes d infos = map (\<lambda>i. map (d i) [0..<length (infos ! i)]) [0..<length infos]"

lemma payload_order_set:
  "(i, j) \<in> set (payload_order infos) \<longleftrightarrow> i < length infos \<and> j < length (infos ! i)"
  unfolding payload_order_def enumerate_map by force

lemma payload_bytes_nth:
  "i < length infos \<Longrightarrow> payload_bytes d infos ! i = map (d i) [0..<length (infos ! i)]"
  by (simp add: payload_bytes_def)

lemma length_payload_bytes [simp]: "length (payload_bytes d infos) = length infos"
  by (simp add: payload_bytes_def)

lemma ftyp_free_length:
  "free_placeholder = Some fr \<Longrightarrow> length fr = 16" "ftyp = Some ft \<Longrightarrow> length ft = 28"
  by (auto simp: free_placeholder_def ftyp_def dest!: mp4_box_length)

lemma planned_fragment_view:
  assumes ok: "writer_ok mw" and planned: "write_planned_fragment mw infos f = (mw', Inr ())"
    and len: "length infos = length (mw_tracks mw)"
    and payload: "\<And>i j u v. i < length infos \<Longrightarrow> j < length (infos ! i) \<Longrightarrow> at_end u \<Longrightarrow>
      f i j u = (v, Inr ()) \<Longrightarrow> v = write_all u (d i j)"
    and sizes: "\<And>i j. i < length infos \<Longrightarrow> j < length (infos ! i) \<Longrightarrow>
      length (d i j) = unat (fi_size (infos ! i ! j))"
  shows "writer_ok mw' \<and> map (track_view (sk_data (mw_w mw'))) (mw_tracks mw')
    = map (\<lambda>(st, ss, bs). track_view (sk_data (mw_w mw)) st
        @ zip bs (zip (map (unat \<circ> fi_duration) ss) (map fi_is_sync ss)))
        (zip (mw_tracks mw) (zip infos (payload_bytes d infos)))"
proof -
  let ?g = "sk_data (mw_w mw)"
  from ok obtain ft fr rest where hdr: "ftyp = Some ft" "free_placeholder = Some fr"
    "?g = ft @ fr @ rest" "mw_free_offset mw = length ft" and pos: "at_end (mw_w mw)"
    and streams: "\<forall>st \<in> set (mw_tracks mw). stream_ok (mw_free_offset mw + 16) (length ?g) st"
    by (auto simp: writer_ok_def)
  obtain moof header w2 sts where
    w2: "write_payloads f (payload_order infos)
      (write_all (write_all (mw_w mw) moof) header) = (w2, Inr ())"
    and sts: "record_tracks (length (?g @ moof @ header)) infos (mw_tracks mw) = (sts, Inr ())"
    and mw': "mw' = mw\<lparr>mw_w := w2, mw_tracks := sts, mw_next_sequence := mw_next_sequence mw + 1\<rparr>"
    using planned pos
    by (auto simp: write_planned_fragment_def Let_def add.assoc split: sum.splits prod.splits)
  let ?bss = "payload_bytes d infos"
  let ?f = "(?g @ moof @ header) @ concat (concat ?bss) @ []"
  have d: "sk_data w2 = ?f" and fin: "at_end w2"
    using write_payloads_data [OF w2, of d] payload pos
    by (auto simp: write_all_end payload_order_set payload_order_concat payload_bytes_def)
  have bytes: "map (unat \<circ> fi_size) (infos ! i) = map length (?bss ! i)" if "i < length infos" for i
    using that sizes by (intro nth_equalityI) (auto simp: payload_bytes_nth)
  have "list_all (stream_ok (mw_free_offset mw + 16) (length ?f)) sts
   \<and> map (track_view ?f) sts = map (\<lambda>(st, ss, bs). track_view ?g st
        @ zip bs (zip (map (unat \<circ> fi_duration) ss) (map fi_is_sync ss)))
        (zip (mw_tracks mw) (zip infos ?bss))"
  proof (rule record_tracks_streams [OF sts len _ bytes refl _ _ _ streams])
    show "length ?bss = length infos" by simp
    show "mw_free_offset mw + 16 \<le> length (?g @ moof @ header)"
      using hdr ftyp_free_length(1) by simp
    show "length ?g \<le> length ?f" by simp
    show "slice a b ?f = slice a b ?g" if "b \<le> length ?g" for a b
      using that by (simp add: slice_append_left)
  qed
  moreover have "\<exists>ft fr rest. ftyp = Some ft \<and> free_placeholder = Some fr
      \<and> ?f = ft @ fr @ rest \<and> mw_free_offset mw = length ft"
  proof -
    have "?f = ft @ fr @ (rest @ moof @ header @ concat (concat ?bss))" using hdr by simp
    with hdr show ?thesis by blast
  qed
  ultimately show ?thesis
    using mw' d fin by (simp add: writer_ok_def list_all_iff)
qed

text \<open>A fragment of samples in memory adds exactly those samples to every track.\<close>

definition sample_view :: "frag_sample \<Rightarrow> bytes \<times> nat \<times> bool" where
  "sample_view s = (fs_data s, unat (fs_duration s), fs_is_sync s)"

lemma fragment_info_storage_Some:
  assumes "fragment_info_storage info per_track n = Inr (Some infos)"
  shows "length per_track = n \<and> length infos = length per_track
    \<and> (\<forall>i < length per_track. length (infos ! i) = length (per_track ! i)
        \<and> (\<forall>j < length (per_track ! i). info (per_track ! i ! j) = Inr (infos ! i ! j)))"
proof -
  have c: "collect (collect info) per_track = Inr infos" and n: "length per_track = n"
    using assms by (auto simp: fragment_info_storage_def bind_out_Inr_iff split: if_splits)
  have "collect info (per_track ! i) = Inr (infos ! i)" if "i < length per_track" for i
    using collect_Inr_nth [OF c that] .
  with n collect_Inr_length [OF c] show ?thesis
    by (auto dest: collect_Inr_length collect_Inr_nth)
qed

lemma write_fragment_multi_view:
  assumes ok: "writer_ok mw" and wr: "write_fragment_multi mw per_track = (mw', Inr ())"
  shows "writer_ok mw' \<and> length per_track = length (mw_tracks mw)
    \<and> map (track_view (sk_data (mw_w mw'))) (mw_tracks mw')
    = map (\<lambda>(st, ss). track_view (sk_data (mw_w mw)) st @ map sample_view ss)
        (zip (mw_tracks mw) per_track)"
proof (cases "fragment_info_storage fragment_info per_track (length (mw_tracks mw))")
  case (Inl e)
  with wr show ?thesis by (simp add: write_fragment_multi_def)
next
  case (Inr r)
  show ?thesis
  proof (cases r)
    case None
    with Inr have empty: "length per_track = length (mw_tracks mw)" "list_all (\<lambda>ss. ss = []) per_track"
      by (auto simp: fragment_info_storage_def bind_out_Inr_iff split: if_splits)
    moreover have "mw' = mw" using wr Inr None by (simp add: write_fragment_multi_def)
    ultimately show ?thesis
      using ok by (auto intro!: nth_equalityI simp: list_all_length)
  next
    case (Some infos)
    note st = fragment_info_storage_Some [OF Inr [unfolded Some]]
    have info: "unat (fi_size (infos ! i ! j)) = length (fs_data (per_track ! i ! j))
        \<and> fi_duration (infos ! i ! j) = fs_duration (per_track ! i ! j)
        \<and> fi_is_sync (infos ! i ! j) = fs_is_sync (per_track ! i ! j)"
      if "i < length per_track" "j < length (per_track ! i)" for i j
      using st that by (simp add: fragment_info_def sample_info_of_Inr)
    let ?d = "\<lambda>i j. fs_data (per_track ! i ! j)"
    have "writer_ok mw' \<and> map (track_view (sk_data (mw_w mw'))) (mw_tracks mw')
      = map (\<lambda>(st, ss, bs). track_view (sk_data (mw_w mw)) st
          @ zip bs (zip (map (unat \<circ> fi_duration) ss) (map fi_is_sync ss)))
          (zip (mw_tracks mw) (zip infos (payload_bytes ?d infos)))"
      using wr Inr Some st info
      by (intro planned_fragment_view [OF ok, of infos "write_sample per_track"])
        (auto simp: write_fragment_multi_def write_sample_def)
    moreover have "zip (payload_bytes ?d infos ! i) (zip (map (unat \<circ> fi_duration) (infos ! i))
        (map fi_is_sync (infos ! i))) = map sample_view (per_track ! i)" if "i < length per_track" for i
      using that st info [OF that]
      by (intro nth_equalityI) (auto simp: payload_bytes_nth sample_view_def)
    ultimately show ?thesis
      using st by (auto intro!: nth_equalityI)
  qed
qed

end
