(* ===== verification/Mp4_Session.thy ===== *)
theory Mp4_Session
  imports Mp4_Writer_Correct
begin

text \<open>
  A whole recording: a new writer, any fragments and advances that succeed, and the finalization
  (crates/clipline-mp4/src/writer.rs).
\<close>

section \<open>A new writer\<close>

lemma track_view_new: "track_view f (track_state_new cfg) = []"
  by (simp add: track_view_def track_state_new_def chunk_counts_def)

lemma writer_new_ok:
  assumes "writer_new_multi sink_new tracks = Inr mw"
  shows "writer_ok mw \<and> length (mw_tracks mw) = length tracks
    \<and> (\<forall>st \<in> set (mw_tracks mw). \<forall>f. track_view f st = [])"
proof -
  obtain ft fr moov where boxes: "ftyp = Some ft" "free_placeholder = Some fr"
    and mw: "mw = \<lparr>mw_w = write_all (write_all (write_all sink_new ft) fr) moov,
      mw_tracks = map track_state_new tracks, mw_free_offset = length ft, mw_next_sequence = 1\<rparr>"
    using assms by (auto simp: writer_new_multi_def bind_out_Inr_iff)
  have w: "mw_w mw = \<lparr>sk_data = ft @ fr @ moov, sk_pos = length (ft @ fr @ moov)\<rparr>"
    by (simp add: mw sink_new_def write_all_def)
  have "stream_ok lo hi (track_state_new cfg)" for lo hi cfg
    using track_state_new_ok [of cfg]
    by (simp add: stream_ok_def) (simp add: track_state_new_def chunk_counts_def)
  then have "writer_ok mw" unfolding writer_ok_def w using boxes by (auto simp: mw)
  then show ?thesis by (simp add: mw track_view_new)
qed

section \<open>Advancing a track\<close>

text \<open>Advancing keeps every sample's bytes and flag; at most the last duration grows.\<close>

lemma advance_stream:
  assumes adv: "advance_track st t = Inr st'" and ok: "stream_ok lo hi st"
  shows "stream_ok lo hi st' \<and> map (\<lambda>(b, _, k). (b, k)) (track_view f st')
    = map (\<lambda>(b, _, k). (b, k)) (track_view f st)"
proof -
  have tk: "track_ok st" "decode_ok st" using ok by (simp_all add: stream_ok_def)
  note v = advance_track_view [OF adv tk]
  have counts: "ks_sample_count st = length (ks_sizes st) \<and> length (durations st) = ks_sample_count st"
    if "track_ok st" for st
    using that by (simp add: track_ok_def)
  have len: "ks_sample_count st' = ks_sample_count st"
    using v counts [OF tk(1)] counts [of st'] by presburger
  have dl: "length (durations st') = length (durations st)"
    using v len counts [OF tk(1)] counts [of st'] by presburger
  have strip: "map (\<lambda>(b, _, k). (b, k)) (zip bs (zip ds ks)) = zip bs (take (length ds) ks)" for bs :: "bytes list"
      and ds :: "nat list" and ks :: "bool list"
    by (induction bs arbitrary: ds ks; rename_tac ds ks; case_tac ds; case_tac ks) auto
  show ?thesis
    using v ok len dl by (simp add: stream_ok_def track_view_def strip)
qed

lemma set_track_decode_time_ok:
  assumes set: "set_track_decode_time mw i t = (mw', Inr ())" and ok: "writer_ok mw"
  shows "writer_ok mw' \<and> mw_w mw' = mw_w mw \<and> length (mw_tracks mw') = length (mw_tracks mw)
    \<and> map (\<lambda>st. map (\<lambda>(b, _, k). (b, k)) (track_view f st)) (mw_tracks mw')
      = map (\<lambda>st. map (\<lambda>(b, _, k). (b, k)) (track_view f st)) (mw_tracks mw)"
proof -
  obtain st' where i: "i < length (mw_tracks mw)"
    and adv: "advance_track (mw_tracks mw ! i) t = Inr st'"
    and mw': "mw' = mw\<lparr>mw_tracks := (mw_tracks mw)[i := st']\<rparr>"
    using set by (auto simp: set_track_decode_time_def get_at_def split: if_splits sum.splits)
  have "stream_ok (mw_free_offset mw + 16) (length (sk_data (mw_w mw))) (mw_tracks mw ! i)"
    using ok i by (auto simp: writer_ok_def)
  note st = advance_stream [OF adv this, of f]
  have "writer_ok mw'"
    using ok st mw' by (auto simp: writer_ok_def dest!: subsetD [OF set_update_subset_insert])
  moreover have "map g ((mw_tracks mw)[i := st']) = map g (mw_tracks mw)"
    if "g st' = g (mw_tracks mw ! i)" for g :: "track_state \<Rightarrow> (bytes \<times> bool) list"
    using that i by (simp add: map_update list_update_same_conv)
  ultimately show ?thesis using st mw' by simp
qed

section \<open>Finalization\<close>

lemma walk_step_large:
  assumes span: "16 \<le> n" "n \<le> u64_max"
    and buf: "buf = pre @ (be32 1 @ cc @ be64n n) @ rest" "length cc = 4" "length buf \<le> u64_max"
    and fit: "length pre + n \<le> end" "end \<le> length buf"
  shows "walk_step buf end (length pre) = Some (\<lparr>bi_fourcc = cc, bi_offset = length pre,
    bi_size = n, bi_payload_offset = length pre + 16\<rparr>, length pre + n)"
proof -
  have s1: "slice (length pre) (length pre + 4) buf = be32 1"
    using slice_middle [of pre "be32 1" "cc @ be64n n @ rest"] buf(1) by simp
  have s2: "slice (length pre + 4) (length pre + 8) buf = cc"
    using slice_middle [of "pre @ be32 1" cc "be64n n @ rest"] buf(1,2) by (simp add: add.commute)
  have s3: "slice (length pre + 8) (length pre + 16) buf = be64n n"
    using slice_middle [of "pre @ be32 1 @ cc" "be64n n" rest] buf(1,2) by (simp add: add.commute)
  have "unat (word_of_nat n :: u64) = n"
    using span(2) by (intro unat_word_of_nat_less) (simp add: u64_max_def)
  then show ?thesis
    using fit span buf(3)
    by (simp add: walk_step_def checked_add_u64_def s1 s2 s3 uses_large_size_def
        decode_box_header_def Let_def)
qed

text \<open>The bytes of a finalized file, and the boxes a walk finds in it.\<close>

lemma finalize_layout:
  assumes ok: "writer_ok mw" and fin: "finalize mw = Some w"
  obtains ft fr rest moov where "ftyp = Some ft" "length ft = 28" "length fr = 16"
    "sk_data (mw_w mw) = ft @ fr @ rest" "final_moov mw = Some moov"
    "sk_data w = ft @ (be32 1 @ ascii ''mdat'' @ be64n (16 + length rest)) @ rest @ moov"
proof -
  obtain ft fr rest where hdr: "ftyp = Some ft" "free_placeholder = Some fr"
    "sk_data (mw_w mw) = ft @ fr @ rest" "mw_free_offset mw = length ft" and pos: "at_end (mw_w mw)"
    using ok by (auto simp: writer_ok_def)
  obtain moov where moov: "final_moov mw = Some moov" using fin by (auto simp: finalize_def bind_eq_Some_conv)
  have fl: "length fr = 16" "length ft = 28" using hdr ftyp_free_length by auto
  have "sk_data w = ft @ (be32 1 @ ascii ''mdat'' @ be64n (16 + length rest)) @ rest @ moov"
    using fin moov pos hdr fl
    by (auto simp: finalize_def write_all_end Let_def seek_start_def) (simp add: write_all_def)
  with hdr(1,3) fl moov show thesis by (intro that) simp_all
qed

lemma finalize_walk:
  assumes ok: "writer_ok mw" and fin: "finalize mw = Some w" and small: "length (sk_data w) \<le> u64_max"
    and moov: "final_moov mw = Some moov"
  shows "walk (sk_data w) =
    [\<lparr>bi_fourcc = ascii ''ftyp'', bi_offset = 0, bi_size = 28, bi_payload_offset = 8\<rparr>,
     \<lparr>bi_fourcc = ascii ''mdat'', bi_offset = 28, bi_size = length (sk_data (mw_w mw)) - 28, bi_payload_offset = 44\<rparr>,
     \<lparr>bi_fourcc = ascii ''moov'', bi_offset = length (sk_data (mw_w mw)), bi_size = length moov,
       bi_payload_offset = length (sk_data (mw_w mw)) + 8\<rparr>]"
proof -
  obtain ft fr rest where ft: "ftyp = Some ft" "length ft = 28" and fr: "length fr = 16"
    and g: "sk_data (mw_w mw) = ft @ fr @ rest"
    and w: "sk_data w = ft @ (be32 1 @ ascii ''mdat'' @ be64n (16 + length rest)) @ rest @ moov"
    using finalize_layout [OF ok fin] moov by (metis option.inject)
  define n where "n = 16 + length rest"
  let ?h = "be32 1 @ ascii ''mdat'' @ be64n n"
  obtain mp where mbox: "mp4_box (ascii ''moov'') mp = Some moov"
    using moov by (auto simp: final_moov_def bind_eq_Some_conv)
  have len: "length (sk_data w) = 28 + n + length moov" "length (sk_data (mw_w mw)) = 28 + n"
    using w g ft(2) fr by (simp_all add: n_def)
  let ?stop = "length (sk_data w)"
  obtain fp where fbox: "mp4_box (ascii ''ftyp'') fp = Some ft" using ft(1) by (auto simp: ftyp_def)
  have step1: "walk_step (sk_data w) ?stop 0 = Some (\<lparr>bi_fourcc = ascii ''ftyp'', bi_offset = 0,
      bi_size = 28, bi_payload_offset = 8\<rparr>, 28)"
    using walk_step_mp4_box [OF fbox _ _ small, of "[]" "?h @ rest @ moov" ?stop] w ft(2)
    by (simp add: n_def)
  have step2: "walk_step (sk_data w) ?stop 28 = Some (\<lparr>bi_fourcc = ascii ''mdat'', bi_offset = 28,
      bi_size = n, bi_payload_offset = 44\<rparr>, 28 + n)"
    using walk_step_large [of n "sk_data w" ft "ascii ''mdat''" "rest @ moov" ?stop] w ft(2) small len
    by (simp add: n_def)
  have step3: "walk_step (sk_data w) ?stop (28 + n) = Some (\<lparr>bi_fourcc = ascii ''moov'',
      bi_offset = 28 + n, bi_size = length moov, bi_payload_offset = 28 + n + 8\<rparr>, ?stop)"
    using walk_step_mp4_box [OF mbox _ _ small, of "ft @ ?h @ rest" "[]" ?stop] w ft(2) len
    by (simp add: n_def add.assoc)
  show ?thesis
    by (simp add: walk_def walk_range_def walk_from.simps [of _ _ 0] walk_from.simps [of _ _ 28]
        walk_from.simps [of _ _ "28 + n"] step1 step2 step3 walk_from_end len(2) add.assoc)
qed

text \<open>Every track reads the same samples from the finalized file.\<close>

lemma finalize_view:
  assumes ok: "writer_ok mw" and fin: "finalize mw = Some w" and small: "length (sk_data w) \<le> u64_max"
  shows "map bi_fourcc (walk (sk_data w)) = [ascii ''ftyp'', ascii ''mdat'', ascii ''moov'']
    \<and> (\<forall>st \<in> set (mw_tracks mw). track_view (sk_data w) st = track_view (sk_data (mw_w mw)) st)"
proof -
  let ?g = "sk_data (mw_w mw)"
  obtain ft fr rest moov where fl: "length ft = 28" "length fr = 16" and g: "?g = ft @ fr @ rest"
    and moov: "final_moov mw = Some moov"
    and w: "sk_data w = ft @ (be32 1 @ ascii ''mdat'' @ be64n (16 + length rest)) @ rest @ moov"
    by (rule finalize_layout [OF ok fin]) (rule that)
  let ?h = "be32 1 @ ascii ''mdat'' @ be64n (16 + length rest)"
  have free: "mw_free_offset mw = 28" using ok ftyp_free_length(2) by (auto simp: writer_ok_def)
  have "track_view (sk_data w) st = track_view ?g st" if "st \<in> set (mw_tracks mw)" for st
  proof -
    have loc: "located 44 (length ?g) (ks_chunk_offsets st) (chunk_counts st) (ks_sizes st)"
      using ok that free by (auto simp: writer_ok_def stream_ok_def)
    have "slice a b (sk_data w) = slice a b ?g" if "44 \<le> a" "b \<le> length ?g" for a b
    proof -
      have "slice a b ((ft @ ?h) @ rest @ moov) = slice (a - 44) (b - 44) (rest @ moov)"
        using that fl by (subst slice_append_right) auto
      also have "\<dots> = slice (a - 44) (b - 44) rest"
        using that fl g by (intro slice_append_left) auto
      also have "\<dots> = slice a b ((ft @ fr) @ rest)"
        using that fl by (subst slice_append_right) auto
      finally show ?thesis using w g by simp
    qed
    from table_bytes_cong [OF this loc] show ?thesis by (simp add: track_view_def)
  qed
  with finalize_walk [OF ok fin small moov] show ?thesis by simp
qed

section \<open>A recording\<close>

datatype writer_op = WriteFragment "frag_sample list list" | AdvanceTrack nat nat

fun writer_run :: "mp4_writer \<Rightarrow> writer_op list \<Rightarrow> mp4_writer option" where
  "writer_run mw [] = Some mw"
| "writer_run mw (op # ops) =
     (case (case op of WriteFragment per_track \<Rightarrow> write_fragment_multi mw per_track
                     | AdvanceTrack i t \<Rightarrow> set_track_decode_time mw i t) of
        (mw', Inr _) \<Rightarrow> writer_run mw' ops
      | (_, Inl _) \<Rightarrow> None)"

text \<open>The samples of track \<open>i\<close> handed to the writer, bytes and sync flag, in order.\<close>

definition handed :: "writer_op list \<Rightarrow> nat \<Rightarrow> (bytes \<times> bool) list" where
  "handed ops i = concat (map (\<lambda>op. case op of
     WriteFragment per_track \<Rightarrow> map (\<lambda>s. (fs_data s, fs_is_sync s)) (per_track ! i)
   | AdvanceTrack _ _ \<Rightarrow> []) ops)"

definition media_view :: "bytes \<Rightarrow> track_state \<Rightarrow> (bytes \<times> bool) list" where
  "media_view f st = map (\<lambda>(b, _, k). (b, k)) (track_view f st)"

lemma writer_run_view:
  "writer_run mw ops = Some mw' \<Longrightarrow> writer_ok mw \<Longrightarrow>
     writer_ok mw' \<and> length (mw_tracks mw') = length (mw_tracks mw)
     \<and> (\<forall>i < length (mw_tracks mw). media_view (sk_data (mw_w mw')) (mw_tracks mw' ! i)
          = media_view (sk_data (mw_w mw)) (mw_tracks mw ! i) @ handed ops i)"
proof (induction ops arbitrary: mw)
  case Nil
  then show ?case by (simp add: handed_def)
next
  case (Cons op ops)
  show ?case
  proof (cases op)
    case (WriteFragment per_track)
    with Cons.prems(1) obtain mw1 where mw1: "write_fragment_multi mw per_track = (mw1, Inr ())"
      and run: "writer_run mw1 ops = Some mw'"
      by (auto split: prod.splits sum.splits)
    from write_fragment_multi_view [OF Cons.prems(2) mw1] have ok: "writer_ok mw1"
      and len: "length per_track = length (mw_tracks mw)"
      and view: "map (track_view (sk_data (mw_w mw1))) (mw_tracks mw1)
        = map (\<lambda>(st, ss). track_view (sk_data (mw_w mw)) st @ map sample_view ss)
            (zip (mw_tracks mw) per_track)" by auto
    have len1: "length (mw_tracks mw1) = length (mw_tracks mw)"
      using arg_cong [OF view, of length] len by simp
    have "media_view (sk_data (mw_w mw1)) (mw_tracks mw1 ! i)
        = media_view (sk_data (mw_w mw)) (mw_tracks mw ! i)
          @ map (\<lambda>s. (fs_data s, fs_is_sync s)) (per_track ! i)" if "i < length (mw_tracks mw)" for i
      using arg_cong [OF view, of "\<lambda>l. l ! i"] that len len1
      by (simp add: media_view_def sample_view_def)
    with Cons.IH [OF run ok] len1 WriteFragment show ?thesis by (simp add: handed_def)
  next
    case (AdvanceTrack i t)
    with Cons.prems(1) obtain mw1 where mw1: "set_track_decode_time mw i t = (mw1, Inr ())"
      and run: "writer_run mw1 ops = Some mw'"
      by (auto split: prod.splits sum.splits)
    note st = set_track_decode_time_ok [OF mw1 Cons.prems(2), of "sk_data (mw_w mw)"]
    then have len: "length (mw_tracks mw1) = length (mw_tracks mw)" and w: "mw_w mw1 = mw_w mw"
      and views: "map (\<lambda>st. map (\<lambda>(b, _, k). (b, k)) (track_view (sk_data (mw_w mw)) st)) (mw_tracks mw1)
        = map (\<lambda>st. map (\<lambda>(b, _, k). (b, k)) (track_view (sk_data (mw_w mw)) st)) (mw_tracks mw)"
      by blast+
    have "media_view (sk_data (mw_w mw1)) (mw_tracks mw1 ! j) = media_view (sk_data (mw_w mw)) (mw_tracks mw ! j)"
      if "j < length (mw_tracks mw)" for j
      using arg_cong [OF views, of "\<lambda>l. l ! j"] that len w by (simp add: media_view_def)
    with Cons.IH [OF run] st AdvanceTrack show ?thesis by (simp add: handed_def)
  qed
qed

lemma recording_view:
  assumes new: "writer_new_multi sink_new tracks = Inr mw" and run: "writer_run mw ops = Some mw'"
    and fin: "finalize mw' = Some w" and small: "length (sk_data w) \<le> u64_max"
  shows "map bi_fourcc (walk (sk_data w)) = [ascii ''ftyp'', ascii ''mdat'', ascii ''moov'']
    \<and> length (mw_tracks mw') = length tracks
    \<and> (\<forall>i < length tracks. media_view (sk_data w) (mw_tracks mw' ! i) = handed ops i)"
proof -
  note ok = writer_new_ok [OF new]
  note view = writer_run_view [OF run conjunct1 [OF ok]]
  note final = finalize_view [OF conjunct1 [OF view] fin small]
  have "media_view (sk_data w) (mw_tracks mw' ! i) = handed ops i" if "i < length tracks" for i
    using that ok view final by (simp add: media_view_def)
  with final view ok show ?thesis by simp
qed

end
