(* ===== verification/Mp4_Properties.thy ===== *)
theory Mp4_Properties
  imports Mp4_Session
begin

text \<open>
  The properties of the MP4 crate (crates/clipline-mp4): the finalized recording, fragments as a
  reader sees them, box walking, the track bookkeeping and the codec parsers.
\<close>

section \<open>Evaluating boxes\<close>

text \<open>A small box is its size, its fourcc and its payload; sizes stay symbolic in evaluations.\<close>

lemma mp4_box_eval:
  "length p + 8 < 2 ^ 32 \<Longrightarrow> mp4_box f p = Some (be32 (word_of_nat (length p + 8)) @ f @ p)"
  by (simp add: mp4_box_def checked_box_size_def checked_add_usize_def usize_max_def try_u32_def)

lemma full_box_eval:
  "length p + 12 < 2 ^ 32 \<Longrightarrow> full_box f v fl p
     = Some (be32 (word_of_nat (length p + 12)) @ f @ (v # slice 1 4 (be32 fl)) @ p)"
  by (simp add: full_box_def mp4_box_eval add.commute)

lemma length_matrix_bytes [simp]: "length matrix_bytes = 36"
  by (simp add: matrix_bytes_def)

definition sample_fragment :: "frag_sample list" where
  "sample_fragment = [\<lparr>fs_data = [1, 2, 3], fs_duration = 960, fs_is_sync = True\<rparr>,
     \<lparr>fs_data = [4, 5], fs_duration = 960, fs_is_sync = False\<rparr>]"

definition sample_opus :: track_config where
  "sample_opus = Audio \<lparr>at_channels = 2, at_sample_rate = 48000, at_pre_skip = 312\<rparr>"

lemma length_concat_replicate [simp]: "length (concat (replicate n xs)) = n * length xs"
  by (induction n) auto

lemmas mp4_eval = mp4_box_eval full_box_eval

lemmas init_eval = mp4_eval ftyp_def free_placeholder_def moov_init_multi_def mvhd_def wide_def
  enumerate_eq_zip init_trak_def empty_stbl_tail_def audio_trak_with_tables_def
  audio_trak_with_tables_and_edits_def tkhd_def optional_edts_def audio_stsd_def
  opus_sample_entry_def dops_def mdia_generic_def mdhd_def mvex_multi_def

lemmas fragment_eval = mp4_eval sample_info_of_def try_u32_def fragment_moof_multi_def
  add_size_def checked_add_u64_def u64_max_def mdat_header_len_def u32_max_def build_moof_multi_def
  traf_def checked_add_usize_def usize_max_def try_i32_def mdat_header_def trun_entry_def

lemma write_all_simps [simp]:
  "sk_pos (write_all w bs) = sk_pos w + length bs"
  "length (sk_data (write_all w bs)) = max (length (sk_data w)) (sk_pos w + length bs)"
  by (auto simp: write_all_def Let_def max_def)

lemma sample_writer_new:
  obtains mw where "writer_new_multi sink_new [sample_opus] = Inr mw"
    "mw_tracks mw = [track_state_new sample_opus]" "mw_next_sequence mw = 1"
    "mw_free_offset mw = 28" "sk_pos (mw_w mw) < 1000" "length (sk_data (mw_w mw)) < 1000"
  by (simp add: writer_new_multi_def validate_track_configs_def validate_track_config_def
      sample_opus_def sink_new_def init_eval)

lemma sample_writer_run:
  assumes "mw_tracks mw = [track_state_new sample_opus]" "mw_next_sequence mw = 1"
    "mw_free_offset mw = 28" "sk_pos (mw_w mw) < 1000" "length (sk_data (mw_w mw)) < 1000"
  obtains mw' w where "writer_run mw [WriteFragment [sample_fragment]] = Some mw'"
    "finalize mw' = Some w" "length (sk_data w) < 4000"
  using assms
  by (simp add: write_fragment_multi_def fragment_info_storage_def fragment_info_def
      sample_fragment_def validate_nonzero_durations_def write_planned_fragment_def planned_runs_def
      enumerate_eq_zip track_state_new_def fragment_eval payload_order_def write_sample_def
      record_track_def after_def record_run_def record_chunk_def record_sample_def add_duration_def
      checked_u32_def checked_add_u32_def push_duration_def push_sync_def i64_max_def Let_def
      finalize_def seek_start_def final_moov_def duration_movie_ts_def rescale_duration_def presentation_end_def sample_opus_def
      track_timescale_def movie_timescale_def track_trak_def sample_tables_def stts_def stss_def
      stsc_def stsz_def co64_def edit_list_def saturating_add_u64_def init_eval)

section \<open>Recordings\<close>

text \<open>
  A recording that was written and finalized without an error parses as \<open>ftyp\<close>, \<open>mdat\<close>,
  \<open>moov\<close>, and the sample tables of every track lead to exactly the samples handed to the writer
  for it, in order, with their bytes and their sync flags, whatever fragments they came in.
\<close>

theorem finalized_recording_reads_back:
  assumes "writer_new_multi sink_new tracks = Inr mw" and "writer_run mw ops = Some mw'"
    and "finalize mw' = Some w" and "length (sk_data w) \<le> u64_max"
  shows "map bi_fourcc (walk (sk_data w)) = [ascii ''ftyp'', ascii ''mdat'', ascii ''moov'']
    \<and> length (mw_tracks mw') = length tracks
    \<and> (\<forall>i < length tracks. media_view (sk_data w) (mw_tracks mw' ! i) = handed ops i)"
  using assms by (rule recording_view)

theorem finalized_recording_reads_back_witness:
  "\<exists>mw' w. finalize mw' = Some w \<and> media_view (sk_data w) (mw_tracks mw' ! 0)
     = [([1, 2, 3], True), ([4, 5], False)]"
proof -
  obtain mw where mw: "writer_new_multi sink_new [sample_opus] = Inr mw"
    "mw_tracks mw = [track_state_new sample_opus]" "mw_next_sequence mw = 1"
    "mw_free_offset mw = 28" "sk_pos (mw_w mw) < 1000" "length (sk_data (mw_w mw)) < 1000"
    by (rule sample_writer_new)
  obtain mw' w where run: "writer_run mw [WriteFragment [sample_fragment]] = Some mw'"
    "finalize mw' = Some w" "length (sk_data w) < 4000"
    using mw(2-) by (rule sample_writer_run)
  have "length (sk_data w) \<le> u64_max" using run(3) by (simp add: u64_max_def)
  from finalized_recording_reads_back [OF mw(1) run(1,2) this] run(2) show ?thesis
    by (auto simp: handed_def sample_fragment_def)
qed

text \<open>
  C32: a fragment reads back.  Whenever \<open>fragment_multi\<close> returns bytes, walking them and following
  each run's data offset and sample sizes gives the runs it was given, and nothing else.
\<close>

theorem fragment_reads_back:
  assumes "fragment_multi reserve sequence runs = Inr out"
  shows "demux_fragment out = map (\<lambda>run. (unat (tk_track_id run), unat (tk_base_decode_time run),
    map (\<lambda>s. (fs_data s, unat (fs_duration s), fs_is_sync s)) (tk_samples run))) runs"
  using assms by (rule demux_fragment_multi)

definition sample_run :: track_run where
  "sample_run = \<lparr>tk_track_id = 1, tk_base_decode_time = 7, tk_samples = sample_fragment\<rparr>"

theorem fragment_reads_back_witness:
  "\<exists>out. fragment_multi (\<lambda>_. True) 1 [sample_run] = Inr out
     \<and> demux_fragment out = [(1, 7, [([1, 2, 3], 960, True), ([4, 5], 960, False)])]"
proof -
  have "\<exists>out. fragment_multi (\<lambda>_. True) 1 [sample_run] = Inr out"
    by (simp add: fragment_multi_def sample_run_def sample_fragment_def fragment_eval)
  then obtain out where out: "fragment_multi (\<lambda>_. True) 1 [sample_run] = Inr out" ..
  from fragment_reads_back [OF out] out show ?thesis
    by (simp add: sample_run_def sample_fragment_def)
qed

text \<open>
  A fragment that the writer accepts adds exactly its samples to every track: read through the
  tables, each track has the samples it had and then the new ones, with bytes, durations and sync
  flags; and the writer's invariant holds again.
\<close>

theorem write_fragment_appends_samples:
  assumes "writer_ok mw" and "write_fragment_multi mw per_track = (mw', Inr ())"
  shows "writer_ok mw' \<and> map (track_view (sk_data (mw_w mw'))) (mw_tracks mw')
    = map (\<lambda>(st, ss). track_view (sk_data (mw_w mw)) st
        @ map (\<lambda>s. (fs_data s, unat (fs_duration s), fs_is_sync s)) ss)
      (zip (mw_tracks mw) per_track)"
  using write_fragment_multi_view [OF assms] by (simp add: sample_view_def [abs_def])

theorem write_fragment_appends_samples_witness:
  "\<exists>mw mw'. write_fragment_multi mw [sample_fragment] = (mw', Inr ())
     \<and> map (track_view (sk_data (mw_w mw'))) (mw_tracks mw')
       = [[([1, 2, 3], 960, True), ([4, 5], 960, False)]]"
proof -
  obtain mw where mw: "writer_new_multi sink_new [sample_opus] = Inr mw"
    "mw_tracks mw = [track_state_new sample_opus]" "mw_next_sequence mw = 1"
    "mw_free_offset mw = 28" "sk_pos (mw_w mw) < 1000" "length (sk_data (mw_w mw)) < 1000"
    by (rule sample_writer_new)
  obtain mw' w where "writer_run mw [WriteFragment [sample_fragment]] = Some mw'"
    "finalize mw' = Some w" "length (sk_data w) < 4000"
    using mw(2-) by (rule sample_writer_run)
  then have wr: "write_fragment_multi mw [sample_fragment] = (mw', Inr ())"
    by (auto split: prod.splits sum.splits)
  have ok: "writer_ok mw" using writer_new_ok [OF mw(1)] by simp
  from write_fragment_appends_samples [OF ok wr] mw(2) wr show ?thesis
    by (intro exI [of _ mw] exI [of _ mw']) (simp add: track_view_new sample_fragment_def)
qed

text \<open>
  Advancing a track moves its decode time there, never backward, and either leaves its sample
  durations alone or lengthens the last one by exactly the gap; the tables stay consistent.
\<close>

theorem advance_track_absorbs_gap:
  assumes "track_ok st" "decode_ok st" and "advance_track st t = Inr st'"
  shows "track_ok st' \<and> decode_ok st' \<and> ks_next_decode_time st' = t \<and> ks_next_decode_time st \<le> t
    \<and> (durations st' = durations st
       \<or> durations st' = butlast (durations st) @ [last (durations st) + (t - ks_next_decode_time st)])
    \<and> sync_flags st' = sync_flags st \<and> ks_sizes st' = ks_sizes st"
  using advance_track_view [OF assms(3,1,2)] by blast

theorem advance_track_absorbs_gap_witness:
  "\<exists>st'. advance_track (track_state_new sample_opus) 5 = Inr st' \<and> ks_next_decode_time st' = 5"
proof -
  have "\<exists>st'. advance_track (track_state_new sample_opus) 5 = Inr st'"
    by (simp add: advance_track_def absorb_subframe_video_gap_def track_state_new_def is_video_def
        sample_opus_def)
  then obtain st' where "advance_track (track_state_new sample_opus) 5 = Inr st'" ..
  with advance_track_absorbs_gap [OF track_state_new_ok this] show ?thesis by blast
qed

section \<open>Boxes\<close>

text \<open>
  Whatever the bytes, the boxes a walk reports follow one another from the start position,
  each contains its header and its payload's start, and none reaches beyond the range or the
  buffer.
\<close>

theorem walk_range_stays_inside:
  "chained (min end (length buf)) pos (walk_range buf pos end)"
  unfolding walk_range_def by (rule walk_from_chained)

text \<open>
  Walking a concatenation of boxes that \<open>mp4_box\<close> built finds each of them, with its fourcc
  and its payload.
\<close>

theorem walk_finds_built_boxes:
  assumes "list_all2 (\<lambda>i b. mp4_box (fst i) (snd i) = Some b \<and> length (fst i) = 4) items bs"
    and "length (concat bs) \<le> u64_max"
  shows "map (\<lambda>b. (bi_fourcc b, box_payload (concat bs) b)) (walk (concat bs)) = items"
  using sections_boxes [OF assms] by (simp add: sections_def)

theorem walk_finds_built_boxes_witness:
  "\<exists>b. mp4_box [1, 2, 3, 4] [5, 6] = Some b
     \<and> map (\<lambda>i. (bi_fourcc i, box_payload b i)) (walk b) = [([1, 2, 3, 4], [5, 6])]"
proof -
  obtain b where b: "mp4_box [1, 2, 3, 4] [5, 6] = Some b" by (simp add: mp4_box_eval)
  then have "length b = 10" by (auto dest: mp4_box_length)
  with walk_finds_built_boxes [of "[([1, 2, 3, 4], [5, 6])]" "[b]"] b show ?thesis
    by (simp add: u64_max_def)
qed

section \<open>Parameter sets\<close>

text \<open>
  \<open>ue\<close> decodes every Exp-Golomb code word of up to 31 leading zeros to its number, without
  wrapping around, and leaves the bits after it.
\<close>

theorem read_ue_decodes:
  assumes "bits_left r = replicate (length suffix) False @ True # suffix @ rest"
    and "length suffix \<le> 31"
  shows "\<exists>w r'. read_ue r = Some (w, r') \<and> unat w = 2 ^ length suffix - 1 + bits_value suffix
    \<and> bits_left r' = rest"
proof -
  have "bits_left r = ue_code (length suffix) suffix @ rest" using assms(1) by (simp add: ue_code_def)
  from read_ue_code [OF this refl assms(2)] show ?thesis by metis
qed

theorem read_ue_decodes_witness:
  "\<exists>w r'. read_ue (reader_new [0x50]) = Some (w, r') \<and> unat w = 1"
proof -
  have "byte_bits 0x50 = [False, True, False, True, False, False, False, False]"
    by (simp add: byte_bits_def upt_rec numeral_eq_Suc)
  then have "bits_left (reader_new [0x50]) = replicate (length [False]) False @ True # [False]
      @ [True, False, False, False, False]"
    by (simp add: bits_left_def reader_new_def)
  from read_ue_decodes [OF this] show ?thesis by auto
qed

text \<open>Removing emulation-prevention bytes undoes inserting them.\<close>

theorem unescape_undoes_escape:
  "unescape_rbsp (escape_from 0 bs) = bs"
  by (simp add: unescape_rbsp_def unescape_escape)

text \<open>
  The \<open>hvcC\<close> box lists the video, sequence and picture parameter sets whole and in order.
\<close>

theorem hvcc_reads_back:
  assumes "hvcc vps sps pps = Some b" "nals_fit vps" "nals_fit sps" "nals_fit pps"
  shows "\<exists>r1 r2. take_array (drop 31 b) = ((0xA0, vps), r1) \<and> take_array r1 = ((0xA1, sps), r2)
    \<and> take_array r2 = ((0xA2, pps), [])"
  using assms by (rule hvcc_arrays)

theorem hvcc_reads_back_witness:
  "\<exists>b r1 r2. hvcc [[0x40, 1]] [[0x42, 1, 1]] [[0x44, 1], []] = Some b
     \<and> take_array (drop 31 b) = ((0xA0, [[0x40, 1]]), r1) \<and> take_array r1 = ((0xA1, [[0x42, 1, 1]]), r2)
     \<and> take_array r2 = ((0xA2, [[0x44, 1], []]), [])"
proof -
  have "\<exists>b. hvcc [[0x40, 1]] [[0x42, 1, 1]] [[0x44, 1], []] = Some b"
    by (simp add: hvcc_def get_at_def mp4_eval hvcc_payload_def nal_array_def sized_nal_def Let_def)
  then obtain b where b: "hvcc [[0x40, 1]] [[0x42, 1, 1]] [[0x44, 1], []] = Some b" ..
  show ?thesis using b hvcc_reads_back [OF b] by simp
qed

text \<open>
  The \<open>avcC\<close> box states the number of parameter sets and lists them whole and in order, up
  to the 31 sequence and 255 picture parameter sets its counts have room for.
\<close>

theorem avcc_reads_back:
  assumes "avcc sps pps = Some b"
    and "length sps \<le> 31" "length pps \<le> 255" "nals_fit sps" "nals_fit pps"
  shows "\<exists>r. take_nals (unat (b ! 13 AND 31)) (drop 14 b) = (sps, r)
    \<and> take_nals (unat (hd r)) (tl r) = (pps, [])"
  using assms by (rule avcc_arrays)

theorem avcc_reads_back_witness:
  "\<exists>b r. avcc [[0x67, 100, 0, 31]] [[0x68, 9], [0x68]] = Some b
     \<and> take_nals (unat (b ! 13 AND 31)) (drop 14 b) = ([[0x67, 100, 0, 31]], r)
     \<and> take_nals (unat (hd r)) (tl r) = ([[0x68, 9], [0x68]], [])"
proof -
  have "\<exists>b. avcc [[0x67, 100, 0, 31]] [[0x68, 9], [0x68]] = Some b"
    by (simp add: avcc_def get_at_def mp4_eval avcc_payload_def sized_nal_def)
  then obtain b where b: "avcc [[0x67, 100, 0, 31]] [[0x68, 9], [0x68]] = Some b" ..
  show ?thesis using b avcc_reads_back [OF b] by simp
qed

text \<open>
  The \<open>av1C\<close> box of a sequence header that parses states its profile, level and tier in their
  bit fields without overlap, and carries the header unit unchanged.
\<close>

theorem av1c_states_the_header:
  assumes "parse_sequence_header obu = Some i" "av1c obu = Some b"
  shows "drop_bit 5 (b ! 9) = av_seq_profile i \<and> b ! 9 AND 31 = av_seq_level_idx_0 i
    \<and> drop_bit 7 (b ! 10) = av_seq_tier_0 i \<and> drop 12 b = obu"
  using assms by (rule av1c_summary)

theorem av1c_states_the_header_witness:
  "\<exists>b. av1c [0x0A, 2, 0x58, 0x80] = Some b \<and> drop_bit 5 (b ! 9) = 2 \<and> b ! 9 AND 31 = 2
     \<and> drop 12 b = [0x0A, 2, 0x58, 0x80]"
proof -
  have parse: "parse_sequence_header [0x0A, 2, 0x58, 0x80]
      = Some \<lparr>av_seq_profile = 2, av_seq_level_idx_0 = 2, av_seq_tier_0 = 0\<rparr>"
    by code_simp
  have "\<exists>b. av1c [0x0A, 2, 0x58, 0x80] = Some b"
    by (simp add: av1c_def parse mp4_eval)
  then obtain b where b: "av1c [0x0A, 2, 0x58, 0x80] = Some b" ..
  show ?thesis using b av1c_states_the_header [OF parse b] by simp
qed

end
