(* ===== verification/Mp4_Parse.thy ===== *)
theory Mp4_Parse
  imports Mp4_Session
begin

text \<open>
  Reading a finalized file back (crates/clipline-mp4/src/trim.rs, the parser): bounded reads, the
  codec configuration boxes, the sample tables, the edit list, tracks and the movie.  Positions
  are \<open>usize\<close> in the code; they start inside a box of the buffer and move by at most a few bytes
  past it before they are checked, so their unchecked additions do not wrap.  The kinds of error
  are kept, their message strings are not.
\<close>

datatype trim_error = InvalidRange | Unsupported | Corrupt | Io writer_error

abbreviation corrupt :: "(trim_error, 'a) outcome" where
  "corrupt \<equiv> Inl (Err Corrupt)"

abbreviation unsupported :: "(trim_error, 'a) outcome" where
  "unsupported \<equiv> Inl (Err Unsupported)"

type_synonym 'a parsed = "(trim_error, 'a) outcome"

section \<open>Bounded reads\<close>

definition be_u16 :: "bytes \<Rightarrow> u16" where
  "be_u16 bs = word_of_nat (be_nat bs)"

definition be_u32 :: "bytes \<Rightarrow> u32" where
  "be_u32 bs = word_of_nat (be_nat bs)"

definition be_u64 :: "bytes \<Rightarrow> u64" where
  "be_u64 bs = word_of_nat (be_nat bs)"

definition box_end :: "box_info \<Rightarrow> nat parsed" where
  "box_end b = ok_or Corrupt (checked_add_u64 (bi_offset b) (bi_size b))"

definition read_slice :: "bytes \<Rightarrow> nat \<Rightarrow> nat \<Rightarrow> nat \<Rightarrow> bytes parsed" where
  "read_slice input offset len limit =
     bind_out (ok_or Corrupt (checked_add_usize offset len)) (\<lambda>stop.
       if limit < stop then corrupt else ok_or Corrupt (get_range input offset stop))"

definition read_u16 :: "bytes \<Rightarrow> nat \<Rightarrow> u16 parsed" where
  "read_u16 input offset = ok_or Corrupt (map_option be_u16 (get_range input offset (offset + 2)))"

definition read_u32 :: "bytes \<Rightarrow> nat \<Rightarrow> u32 parsed" where
  "read_u32 input offset = ok_or Corrupt (map_option be_u32 (get_range input offset (offset + 4)))"

definition read_u64 :: "bytes \<Rightarrow> nat \<Rightarrow> u64 parsed" where
  "read_u64 input offset = ok_or Corrupt (map_option be_u64 (get_range input offset (offset + 8)))"

definition read_fourcc :: "bytes \<Rightarrow> nat \<Rightarrow> bytes parsed" where
  "read_fourcc input offset = ok_or Corrupt (get_range input offset (offset + 4))"

definition read_u16_bounded :: "bytes \<Rightarrow> nat \<Rightarrow> nat \<Rightarrow> u16 parsed" where
  "read_u16_bounded input offset limit = bind_out (read_slice input offset 2 limit) (\<lambda>bs. Inr (be_u16 bs))"

definition read_u32_bounded :: "bytes \<Rightarrow> nat \<Rightarrow> nat \<Rightarrow> u32 parsed" where
  "read_u32_bounded input offset limit = bind_out (read_slice input offset 4 limit) (\<lambda>bs. Inr (be_u32 bs))"

definition read_u64_bounded :: "bytes \<Rightarrow> nat \<Rightarrow> nat \<Rightarrow> u64 parsed" where
  "read_u64_bounded input offset limit = bind_out (read_slice input offset 8 limit) (\<lambda>bs. Inr (be_u64 bs))"

definition read_fourcc_bounded :: "bytes \<Rightarrow> nat \<Rightarrow> nat \<Rightarrow> bytes parsed" where
  "read_fourcc_bounded input offset limit = read_slice input offset 4 limit"

definition max_parsed_samples :: nat where
  "max_parsed_samples = 4000000"

definition validate_sample_count :: "nat \<Rightarrow> unit parsed" where
  "validate_sample_count n_entries = (if max_parsed_samples < n_entries then corrupt else Inr ())"

definition checked_mul_usize :: "nat \<Rightarrow> nat \<Rightarrow> nat option" where
  "checked_mul_usize a b = (if a * b \<le> usize_max then Some (a * b) else None)"

definition validate_table_entries :: "nat \<Rightarrow> nat \<Rightarrow> nat \<Rightarrow> nat \<Rightarrow> unit parsed" where
  "validate_table_entries n_entries start stop entry_size =
     bind_out (ok_or Corrupt (checked_mul_usize n_entries entry_size)) (\<lambda>byte_len.
     bind_out (ok_or Corrupt (checked_add_usize start byte_len)) (\<lambda>required_end.
       if stop < required_end then corrupt else Inr ()))"

section \<open>Boxes\<close>

definition child :: "bytes \<Rightarrow> box_info \<Rightarrow> bytes \<Rightarrow> box_info option" where
  "child input parent fourcc = find_box (children input parent) fourcc"

definition require_child :: "bytes \<Rightarrow> box_info \<Rightarrow> bytes \<Rightarrow> box_info parsed" where
  "require_child input parent fourcc = ok_or Unsupported (child input parent fourcc)"

text \<open>Every header error is a \<open>Corrupt\<close>.\<close>

definition header_trim_error :: "box_header_error \<Rightarrow> trim_error" where
  "header_trim_error e = Corrupt"

definition read_box_at :: "bytes \<Rightarrow> nat \<Rightarrow> nat \<Rightarrow> box_info parsed" where
  "read_box_at input offset limit =
     (if limit < offset + 8 \<or> length input < offset + 8 then corrupt
      else
        bind_out (read_u32 input offset) (\<lambda>size32.
        bind_out (read_fourcc input (offset + 4)) (\<lambda>fourcc.
        bind_out
          (if uses_large_size (unat size32)
           then if limit < offset + 16 \<or> length input < offset + 16 then corrupt
                else bind_out (read_u64 input (offset + 8)) (\<lambda>l. Inr (Some (unat l)))
           else Inr None) (\<lambda>large_size.
        bind_out (map_err header_trim_error (decode_box_header (unat size32) large_size offset limit))
          (\<lambda>decoded.
          if length input < dh_end decoded then corrupt
          else Inr \<lparr>bi_fourcc = fourcc, bi_offset = offset, bi_size = dh_size decoded,
                   bi_payload_offset = dh_payload_offset decoded\<rparr>)))))"

function find_box_between :: "bytes \<Rightarrow> nat \<Rightarrow> nat \<Rightarrow> bytes \<Rightarrow> box_info option parsed" where
  "find_box_between input offset stop fourcc =
     (if offset + 8 \<le> stop
      then case read_box_at input offset stop of Inl e \<Rightarrow> Inl e
        | Inr b \<Rightarrow> (case box_end b of Inl e \<Rightarrow> Inl e
            | Inr next \<Rightarrow>
                if bi_fourcc b = fourcc then Inr (Some b)
                else if next \<le> offset then corrupt
                else find_box_between input next stop fourcc)
      else Inr None)"
  by pat_completeness auto
termination
  by (relation "measure (\<lambda>(input, offset, stop, fourcc). stop - offset)") auto

declare find_box_between.simps [simp del]

section \<open>Headers\<close>

definition parse_header_timescale :: "bytes \<Rightarrow> box_info \<Rightarrow> u32 parsed" where
  "parse_header_timescale input header =
     (let p = bi_payload_offset header in
      bind_out (box_end header) (\<lambda>stop.
      bind_out (ok_or Corrupt (if p < stop then get_at input p else None)) (\<lambda>version.
      bind_out (if version = 0 then Inr (p + 12) else if version = 1 then Inr (p + 20) else unsupported)
        (\<lambda>ts_off.
      bind_out (read_u32_bounded input ts_off stop) (\<lambda>timescale.
        if timescale = 0 then corrupt else Inr timescale)))))"

definition parse_mdhd_timescale :: "bytes \<Rightarrow> box_info \<Rightarrow> u32 parsed" where
  "parse_mdhd_timescale input mdhd_box = parse_header_timescale input mdhd_box"

definition parse_hdlr :: "bytes \<Rightarrow> box_info \<Rightarrow> bytes parsed" where
  "parse_hdlr input hdlr =
     bind_out (box_end hdlr) (\<lambda>stop. read_fourcc_bounded input (bi_payload_offset hdlr + 8) stop)"

section \<open>Codec configurations\<close>

text \<open>\<open>n\<close> parameter sets, each behind its 16-bit length, and the position after them.\<close>

primrec read_nals :: "bytes \<Rightarrow> nat \<Rightarrow> nat \<Rightarrow> nat \<Rightarrow> (bytes list \<times> nat) parsed" where
  "read_nals input stop 0 pos = Inr ([], pos)"
| "read_nals input stop (Suc n) pos =
     bind_out (read_u16_bounded input pos stop) (\<lambda>len.
     bind_out (read_slice input (pos + 2) (unat len) stop) (\<lambda>data.
     bind_out (read_nals input stop n (pos + 2 + unat len)) (\<lambda>(nals, pos').
       Inr (data # nals, pos'))))"

definition parse_avcc :: "bytes \<Rightarrow> box_info \<Rightarrow> (bytes list \<times> bytes list) parsed" where
  "parse_avcc input avcc_box =
     (let p = bi_payload_offset avcc_box in
      bind_out (box_end avcc_box) (\<lambda>stop.
      if stop < p + 7 then corrupt
      else
        bind_out (or_panic (get_at input (p + 5))) (\<lambda>b.
        let sps_count = unat (b AND 0x1f) in
        if sps_count = 0 then unsupported
        else
          bind_out (read_nals input stop sps_count (p + 6)) (\<lambda>(sps, pos).
          bind_out (ok_or Corrupt (get_at input pos)) (\<lambda>pps_count.
          if pps_count = 0 then unsupported
          else
            bind_out (read_nals input stop (unat pps_count) (pos + 1)) (\<lambda>(pps, _).
              Inr (sps, pps)))))))"

text \<open>One array of \<open>hvcC\<close> after the other; arrays of other unit types are read and dropped.\<close>

type_synonym hevc_sets = "bytes list \<times> bytes list \<times> bytes list"

definition push_array :: "u8 \<Rightarrow> bytes list \<Rightarrow> hevc_sets \<Rightarrow> hevc_sets" where
  "push_array nal_type nals sets = (case sets of (vps, sps, pps) \<Rightarrow>
     if nal_type = 32 then (vps @ nals, sps, pps)
     else if nal_type = 33 then (vps, sps @ nals, pps)
     else if nal_type = 34 then (vps, sps, pps @ nals)
     else (vps, sps, pps))"

primrec read_arrays :: "bytes \<Rightarrow> nat \<Rightarrow> nat \<Rightarrow> nat \<Rightarrow> hevc_sets \<Rightarrow> hevc_sets parsed" where
  "read_arrays input stop 0 pos sets = Inr sets"
| "read_arrays input stop (Suc n) pos sets =
     bind_out (ok_or Corrupt (get_at input pos)) (\<lambda>b.
     bind_out (read_u16_bounded input (pos + 1) stop) (\<lambda>num_nalus.
     bind_out (read_nals input stop (unat num_nalus) (pos + 3)) (\<lambda>(nals, pos').
       read_arrays input stop n pos' (push_array (b AND 0x3F) nals sets))))"

definition parse_hvcc :: "bytes \<Rightarrow> box_info \<Rightarrow> hevc_sets parsed" where
  "parse_hvcc input hvcc_box =
     (let p = bi_payload_offset hvcc_box in
      bind_out (box_end hvcc_box) (\<lambda>stop.
      if stop < p + 23 then corrupt
      else
        bind_out (or_panic (get_at input (p + 22))) (\<lambda>num_arrays.
        bind_out (read_arrays input stop (unat num_arrays) (p + 23) ([], [], [])) (\<lambda>(vps, sps, pps).
          if vps = [] \<or> sps = [] \<or> pps = [] then unsupported else Inr (vps, sps, pps)))))"

definition parse_av1c :: "bytes \<Rightarrow> box_info \<Rightarrow> bytes parsed" where
  "parse_av1c input av1c_box =
     (let p = bi_payload_offset av1c_box in
      bind_out (box_end av1c_box) (\<lambda>stop.
      if stop < p + 4 then corrupt
      else
        bind_out (read_slice input (p + 4) (stop - (p + 4)) stop) (\<lambda>obu.
          if obu = [] then unsupported else Inr obu)))"

definition find_config :: "bytes \<Rightarrow> nat \<Rightarrow> nat \<Rightarrow> string \<Rightarrow> box_info parsed" where
  "find_config input offset stop name =
     bind_out (find_box_between input offset stop (ascii name)) (ok_or Unsupported)"

definition parse_video_stsd :: "bytes \<Rightarrow> box_info \<Rightarrow> u32 \<Rightarrow> track_config parsed" where
  "parse_video_stsd input entry timescale =
     (let p = bi_payload_offset entry in
      bind_out (box_end entry) (\<lambda>entry_end.
      if entry_end < p + 78 then corrupt
      else
        bind_out (read_u16 input (p + 24)) (\<lambda>width.
        bind_out (read_u16 input (p + 26)) (\<lambda>height.
        bind_out
          (if bi_fourcc entry = ascii ''avc1'' then
             bind_out (find_config input (p + 78) entry_end ''avcC'') (\<lambda>b.
             bind_out (parse_avcc input b) (\<lambda>(sps, pps). Inr (H264 sps pps)))
           else if bi_fourcc entry = ascii ''hvc1'' \<or> bi_fourcc entry = ascii ''hev1'' then
             bind_out (find_config input (p + 78) entry_end ''hvcC'') (\<lambda>b.
             bind_out (parse_hvcc input b) (\<lambda>(vps, sps, pps). Inr (Hevc vps sps pps)))
           else if bi_fourcc entry = ascii ''av01'' then
             bind_out (find_config input (p + 78) entry_end ''av1C'') (\<lambda>b.
             bind_out (parse_av1c input b) (\<lambda>obu. Inr (Av1 obu)))
           else unsupported) (\<lambda>codec.
          Inr (Video \<lparr>vt_width = width, vt_height = height, vt_timescale = timescale,
                      vt_codec = codec\<rparr>))))))"

definition parse_audio_stsd :: "bytes \<Rightarrow> box_info \<Rightarrow> track_config parsed" where
  "parse_audio_stsd input entry =
     (if bi_fourcc entry \<noteq> ascii ''Opus'' then unsupported
      else
        let p = bi_payload_offset entry in
        bind_out (box_end entry) (\<lambda>entry_end.
        if entry_end < p + 28 then corrupt
        else
          bind_out (read_u16 input (p + 16)) (\<lambda>channels.
          bind_out (find_config input (p + 28) entry_end ''dOps'') (\<lambda>dops_box.
          let dp = bi_payload_offset dops_box in
          bind_out (box_end dops_box) (\<lambda>dops_end.
          bind_out (read_u16_bounded input (dp + 2) dops_end) (\<lambda>pre_skip.
          bind_out (read_u32_bounded input (dp + 4) dops_end) (\<lambda>sample_rate.
            Inr (Audio \<lparr>at_channels = channels, at_sample_rate = sample_rate,
                        at_pre_skip = pre_skip\<rparr>)))))))) "

definition parse_stsd :: "bytes \<Rightarrow> box_info \<Rightarrow> bytes \<Rightarrow> u32 \<Rightarrow> track_config parsed" where
  "parse_stsd input stsd_box handler timescale =
     (let p = bi_payload_offset stsd_box in
      bind_out (box_end stsd_box) (\<lambda>stsd_end.
      bind_out (read_u32_bounded input (p + 4) stsd_end) (\<lambda>entry_count.
      if entry_count \<noteq> 1 then unsupported
      else
        bind_out (read_box_at input (p + 8) stsd_end) (\<lambda>entry.
        if handler = ascii ''vide'' then parse_video_stsd input entry timescale
        else if handler = ascii ''soun'' then parse_audio_stsd input entry
        else unsupported))))"

definition parse_track_cfg :: "bytes \<Rightarrow> box_info \<Rightarrow> track_config parsed" where
  "parse_track_cfg input trak =
     bind_out (require_child input trak (ascii ''mdia'')) (\<lambda>mdia.
     bind_out (require_child input mdia (ascii ''mdhd'')) (\<lambda>mdhd_box.
     bind_out (parse_mdhd_timescale input mdhd_box) (\<lambda>timescale.
     bind_out (require_child input mdia (ascii ''hdlr'')) (\<lambda>hdlr.
     bind_out (parse_hdlr input hdlr) (\<lambda>handler.
     bind_out (require_child input mdia (ascii ''minf'')) (\<lambda>minf.
     bind_out (require_child input minf (ascii ''stbl'')) (\<lambda>stbl.
     bind_out (require_child input stbl (ascii ''stsd'')) (\<lambda>stsd_box.
       parse_stsd input stsd_box handler timescale))))))))"

section \<open>Sample tables\<close>

text \<open>\<open>for _ in 0..n { out.push(f(pos)?); pos += stride; }\<close>\<close>

primrec read_each :: "(nat \<Rightarrow> 'a parsed) \<Rightarrow> nat \<Rightarrow> nat \<Rightarrow> nat \<Rightarrow> 'a list parsed" where
  "read_each f stride 0 pos = Inr []"
| "read_each f stride (Suc n) pos =
     bind_out (f pos) (\<lambda>x. bind_out (read_each f stride n (pos + stride)) (\<lambda>xs. Inr (x # xs)))"

text \<open>The loop of \<open>parse_stts\<close> over \<open>n\<close> runs.\<close>

primrec stts_runs :: "bytes \<Rightarrow> nat \<Rightarrow> nat \<Rightarrow> nat \<Rightarrow> u32 list \<Rightarrow> u32 list parsed" where
  "stts_runs input expected 0 pos out = Inr out"
| "stts_runs input expected (Suc n) pos out =
     bind_out (read_u32 input pos) (\<lambda>sample_count.
     bind_out (read_u32 input (pos + 4)) (\<lambda>delta.
     bind_out (ok_or Corrupt (checked_add_usize (length out) (unat sample_count))) (\<lambda>expanded.
     if expected < expanded \<or> max_parsed_samples < expanded then corrupt
     else stts_runs input expected n (pos + 8) (out @ replicate (unat sample_count) delta))))"

definition parse_stts :: "bytes \<Rightarrow> box_info \<Rightarrow> nat \<Rightarrow> u32 list parsed" where
  "parse_stts input stts_box expected =
     (let p = bi_payload_offset stts_box in
      bind_out (read_u32 input (p + 4)) (\<lambda>n_entries.
      bind_out (box_end stts_box) (\<lambda>stop.
      bind_out (validate_table_entries (unat n_entries) (p + 8) stop 8) (\<lambda>_.
      bind_out (validate_sample_count expected) (\<lambda>_.
      bind_out (stts_runs input expected (unat n_entries) (p + 8) []) (\<lambda>out.
        if length out \<noteq> expected then corrupt else Inr out))))))"

definition parse_stsz :: "bytes \<Rightarrow> box_info \<Rightarrow> u32 list parsed" where
  "parse_stsz input stsz_box =
     (let p = bi_payload_offset stsz_box in
      bind_out (read_u32 input (p + 4)) (\<lambda>sample_size.
      bind_out (read_u32 input (p + 8)) (\<lambda>sample_count.
      bind_out (validate_sample_count (unat sample_count)) (\<lambda>_.
      if sample_size \<noteq> 0 then Inr (replicate (unat sample_count) sample_size)
      else
        bind_out (box_end stsz_box) (\<lambda>stop.
        bind_out (validate_table_entries (unat sample_count) (p + 12) stop 4) (\<lambda>_.
          read_each (read_u32 input) 4 (unat sample_count) (p + 12)))))))"

primrec stss_entries :: "bytes \<Rightarrow> nat \<Rightarrow> nat \<Rightarrow> bool list \<Rightarrow> bool list parsed" where
  "stss_entries input 0 pos sync = Inr sync"
| "stss_entries input (Suc n) pos sync =
     bind_out (read_u32 input pos) (\<lambda>w.
     let k = unat w in
     if k = 0 \<or> length sync < k then corrupt
     else stss_entries input n (pos + 4) (sync[k - 1 := True]))"

definition parse_stss :: "bytes \<Rightarrow> box_info \<Rightarrow> nat \<Rightarrow> bool list parsed" where
  "parse_stss input stss_box sample_count =
     (let p = bi_payload_offset stss_box in
      bind_out (read_u32 input (p + 4)) (\<lambda>entry_count.
      bind_out (box_end stss_box) (\<lambda>stop.
      bind_out (validate_table_entries (unat entry_count) (p + 8) stop 4) (\<lambda>_.
      if sample_count < unat entry_count then corrupt
      else stss_entries input (unat entry_count) (p + 8) (replicate sample_count False)))))"

definition parse_co64 :: "bytes \<Rightarrow> box_info \<Rightarrow> u64 list parsed" where
  "parse_co64 input co64_box =
     (let p = bi_payload_offset co64_box in
      bind_out (read_u32 input (p + 4)) (\<lambda>n_entries.
      bind_out (box_end co64_box) (\<lambda>stop.
      bind_out (validate_sample_count (unat n_entries)) (\<lambda>_.
      bind_out (validate_table_entries (unat n_entries) (p + 8) stop 8) (\<lambda>_.
        read_each (read_u64 input) 8 (unat n_entries) (p + 8))))))"

definition parse_stco :: "bytes \<Rightarrow> box_info \<Rightarrow> u64 list parsed" where
  "parse_stco input stco_box =
     (let p = bi_payload_offset stco_box in
      bind_out (read_u32 input (p + 4)) (\<lambda>n_entries.
      bind_out (box_end stco_box) (\<lambda>stop.
      bind_out (validate_sample_count (unat n_entries)) (\<lambda>_.
      bind_out (validate_table_entries (unat n_entries) (p + 8) stop 4) (\<lambda>_.
        read_each (\<lambda>pos. bind_out (read_u32 input pos) (\<lambda>w. Inr (ucast w))) 4 (unat n_entries) (p + 8))))))"

text \<open>The inner \<open>while\<close> of \<open>parse_stsc\<close>, and its loop over the chunk numbers.\<close>

function stsc_seek :: "(u32 \<times> u32) list \<Rightarrow> nat \<Rightarrow> nat \<Rightarrow> nat" where
  "stsc_seek entries chunk_number entry_idx =
     (if entry_idx + 1 < length entries \<and> unat (fst (entries ! (entry_idx + 1))) \<le> chunk_number
      then stsc_seek entries chunk_number (entry_idx + 1) else entry_idx)"
  by pat_completeness auto
termination
  by (relation "measure (\<lambda>(entries, chunk_number, entry_idx). length entries - entry_idx)") auto

declare stsc_seek.simps [simp del]

primrec stsc_counts :: "(u32 \<times> u32) list \<Rightarrow> nat \<Rightarrow> nat list \<Rightarrow> u32 list" where
  "stsc_counts entries entry_idx [] = []"
| "stsc_counts entries entry_idx (chunk_number # chunks) =
     (let i = stsc_seek entries chunk_number entry_idx
      in snd (entries ! i) # stsc_counts entries i chunks)"

definition read_stsc_entry :: "bytes \<Rightarrow> nat \<Rightarrow> (u32 \<times> u32) parsed" where
  "read_stsc_entry input pos =
     bind_out (read_u32 input pos) (\<lambda>first_chunk.
     bind_out (read_u32 input (pos + 4)) (\<lambda>samples_per_chunk.
       if first_chunk = 0 \<or> samples_per_chunk = 0 then corrupt
       else Inr (first_chunk, samples_per_chunk)))"

definition parse_stsc :: "bytes \<Rightarrow> box_info \<Rightarrow> nat \<Rightarrow> u32 list parsed" where
  "parse_stsc input stsc_box chunk_count =
     (let p = bi_payload_offset stsc_box in
      bind_out (read_u32 input (p + 4)) (\<lambda>entry_count.
      if entry_count = 0 \<and> 0 < chunk_count then corrupt
      else
        bind_out (box_end stsc_box) (\<lambda>stop.
        bind_out (validate_sample_count (unat entry_count)) (\<lambda>_.
        bind_out (validate_table_entries (unat entry_count) (p + 8) stop 12) (\<lambda>_.
        bind_out (read_each (read_stsc_entry input) 12 (unat entry_count) (p + 8)) (\<lambda>entries.
        if chunk_count = 0 then Inr []
        else if entries = [] \<or> fst (hd entries) \<noteq> 1 then corrupt
        else Inr (stsc_counts entries 0 [1..<chunk_count + 1])))))))"

record sample_record =
  sr_offset :: nat
  sr_size :: u32
  sr_duration :: u32
  sr_is_sync :: bool
  sr_start_ticks :: nat

text \<open>
  The samples of one chunk, from \<open>offset\<close>; then chunk after chunk.  The three tables have the
  same length, which their parsers check; their remaining rows are the argument, and an index past
  the end is the panic.  At most four million
  durations are added, so \<open>start_ticks\<close> does not wrap.
\<close>

type_synonym table_rows = "(u32 \<times> u32 \<times> bool) list"

fun chunk_records :: "nat \<Rightarrow> nat \<Rightarrow> nat \<Rightarrow> nat \<Rightarrow> table_rows
    \<Rightarrow> (sample_record list \<times> nat \<times> table_rows) parsed" where
  "chunk_records source_len 0 offset start_ticks rows = Inr ([], start_ticks, rows)"
| "chunk_records source_len (Suc n) offset start_ticks [] = Inl Panic"
| "chunk_records source_len (Suc n) offset start_ticks ((len, duration, sync) # rows) =
     bind_out (ok_or Corrupt (checked_add_usize offset (unat len))) (\<lambda>stop.
     if source_len < stop then corrupt
     else bind_out (chunk_records source_len n stop (start_ticks + unat duration) rows)
       (\<lambda>(records, start_ticks', rows').
         Inr (\<lparr>sr_offset = offset, sr_size = len, sr_duration = duration, sr_is_sync = sync,
               sr_start_ticks = start_ticks\<rparr> # records, start_ticks', rows')))"

fun chunks_records :: "nat \<Rightarrow> (u64 \<times> u32) list \<Rightarrow> nat \<Rightarrow> table_rows \<Rightarrow> sample_record list parsed" where
  "chunks_records source_len [] start_ticks rows = Inr []"
| "chunks_records source_len ((chunk_offset, chunk_samples) # chunks) start_ticks rows =
     bind_out (chunk_records source_len (unat chunk_samples) (unat chunk_offset) start_ticks rows)
       (\<lambda>(records, start_ticks', rows').
     bind_out (chunks_records source_len chunks start_ticks' rows') (\<lambda>more. Inr (records @ more)))"

definition records_from_tables ::
  "nat \<Rightarrow> u32 list \<Rightarrow> u32 list \<Rightarrow> bool list \<Rightarrow> u64 list \<Rightarrow> u32 list \<Rightarrow> sample_record list parsed" where
  "records_from_tables source_len sizes durs sync chunk_offsets samples_per_chunk =
     (if sum_list (map unat samples_per_chunk) \<noteq> length sizes then corrupt
      else chunks_records source_len (zip chunk_offsets samples_per_chunk) 0
        (zip sizes (zip durs sync)))"

definition parse_sample_table :: "bytes \<Rightarrow> box_info \<Rightarrow> nat \<Rightarrow> sample_record list parsed" where
  "parse_sample_table input stbl source_len =
     bind_out (require_child input stbl (ascii ''stsz'')) (\<lambda>stsz_box.
     bind_out (parse_stsz input stsz_box) (\<lambda>sizes.
     bind_out (require_child input stbl (ascii ''stts'')) (\<lambda>stts_box.
     bind_out (parse_stts input stts_box (length sizes)) (\<lambda>durs.
     bind_out (case child input stbl (ascii ''stss'') of
         Some stss_box \<Rightarrow> parse_stss input stss_box (length sizes)
       | None \<Rightarrow> Inr (replicate (length sizes) True)) (\<lambda>sync.
     bind_out (require_child input stbl (ascii ''stsc'')) (\<lambda>stsc_box.
     bind_out (case child input stbl (ascii ''co64'') of
         Some co64_box \<Rightarrow> parse_co64 input co64_box
       | None \<Rightarrow> bind_out (require_child input stbl (ascii ''stco'')) (parse_stco input)) (\<lambda>offsets.
     bind_out (parse_stsc input stsc_box (length offsets)) (\<lambda>counts.
       records_from_tables source_len sizes durs sync offsets counts))))))))"

section \<open>Edit lists\<close>

record parsed_edit =
  pe_duration_movie_ts :: nat
  pe_media_time :: int

definition read_edit :: "bytes \<Rightarrow> nat \<Rightarrow> u8 \<Rightarrow> nat \<Rightarrow> parsed_edit parsed" where
  "read_edit input stop version pos =
     bind_out
       (if version = 1
        then bind_out (read_u64_bounded input pos stop) (\<lambda>d.
             bind_out (read_u64_bounded input (pos + 8) stop) (\<lambda>m. Inr (unat d, sint m, pos + 16)))
        else bind_out (read_u32_bounded input pos stop) (\<lambda>d.
             bind_out (read_u32_bounded input (pos + 4) stop) (\<lambda>m. Inr (unat d, sint m, pos + 8))))
       (\<lambda>(duration_movie_ts, media_time, rate_offset).
     bind_out (read_u32_bounded input rate_offset stop) (\<lambda>rate.
     if rate \<noteq> 0x00010000 then unsupported
     else if duration_movie_ts = 0 then corrupt
     else Inr \<lparr>pe_duration_movie_ts = duration_movie_ts, pe_media_time = media_time\<rparr>))"

definition parse_elst :: "bytes \<Rightarrow> box_info \<Rightarrow> parsed_edit list parsed" where
  "parse_elst input elst =
     (let p = bi_payload_offset elst in
      bind_out (box_end elst) (\<lambda>stop.
      bind_out (ok_or Corrupt (if p < stop then get_at input p else None)) (\<lambda>version.
      bind_out (if version = 0 then Inr 12 else if version = 1 then Inr 20 else unsupported) (\<lambda>entry_size.
      bind_out (read_u32_bounded input (p + 4) stop) (\<lambda>n_entries.
      bind_out (validate_table_entries (unat n_entries) (p + 8) stop entry_size) (\<lambda>_.
        read_each (read_edit input stop version) entry_size (unat n_entries) (p + 8)))))))"

text \<open>A \<open>u128\<close> product of a \<open>u64\<close> and a \<open>u32\<close> never overflows; a zero source timescale panics.\<close>

definition rescale_ticks :: "nat \<Rightarrow> u32 \<Rightarrow> u32 \<Rightarrow> nat parsed" where
  "rescale_ticks v source_timescale target_timescale =
     (if source_timescale = 0 then Inl Panic
      else let scaled = v * unat target_timescale div unat source_timescale
           in if scaled \<le> u64_max then Inr scaled else corrupt)"

text \<open>The samples an edit presents, moved to its place on the presentation timeline.\<close>

fun edit_samples :: "nat \<Rightarrow> nat \<Rightarrow> nat \<Rightarrow> nat \<Rightarrow> sample_record list \<Rightarrow> sample_record list parsed" where
  "edit_samples media_start presentation_start duration_scaled duration_scale [] = Inr []"
| "edit_samples media_start presentation_start duration_scaled duration_scale (s # ss) =
     bind_out (ok_or Unsupported (checked_sub_nat (sr_start_ticks s) media_start)) (\<lambda>relative_start.
     if duration_scaled \<le> relative_start * duration_scale then Inr []
     else
       bind_out (ok_or Corrupt (checked_add_u64 presentation_start relative_start)) (\<lambda>t.
       bind_out (edit_samples media_start presentation_start duration_scaled duration_scale ss) (\<lambda>more.
         Inr (s\<lparr>sr_start_ticks := t\<rparr> # more))))"

text \<open>One media edit: the samples it presents and the end of its media range.\<close>

definition media_edit ::
  "sample_record list \<Rightarrow> u32 \<Rightarrow> u32 \<Rightarrow> nat \<Rightarrow> nat \<Rightarrow> nat \<Rightarrow> (sample_record list \<times> nat) parsed" where
  "media_edit samples track_ts movie_ts presentation_start media_start duration =
     bind_out (ok_or Unsupported (position (\<lambda>s. sr_start_ticks s = media_start) samples)) (\<lambda>first.
     let duration_scaled = duration * unat track_ts in
     bind_out (edit_samples media_start presentation_start duration_scaled (unat movie_ts) (drop first samples))
       (\<lambda>mapped.
     if mapped = [] then unsupported
     else
       bind_out (or_panic (get_at samples (first + length mapped - 1))) (\<lambda>last_sample.
       bind_out (ok_or Corrupt (checked_add_u64 (sr_start_ticks last_sample) (unat (sr_duration last_sample))))
         (\<lambda>media_end.
       bind_out (ok_or Unsupported (checked_sub_nat media_end media_start)) (\<lambda>presented_media.
       if presented_media * unat movie_ts \<noteq> duration_scaled then unsupported
       else Inr (mapped, media_end))))))"

text \<open>The loop over the edits; \<open>None\<close> for the media end until a media edit was seen.\<close>

fun apply_edits ::
  "sample_record list \<Rightarrow> u32 \<Rightarrow> u32 \<Rightarrow> nat \<Rightarrow> nat option \<Rightarrow> parsed_edit list \<Rightarrow> sample_record list parsed" where
  "apply_edits samples track_ts movie_ts cursor previous_media_end [] = Inr []"
| "apply_edits samples track_ts movie_ts cursor previous_media_end (e # es) =
     bind_out (rescale_ticks cursor movie_ts track_ts) (\<lambda>presentation_start.
     bind_out (ok_or Corrupt (checked_add_u64 cursor (pe_duration_movie_ts e))) (\<lambda>cursor'.
     if pe_media_time e = - 1
     then apply_edits samples track_ts movie_ts cursor' previous_media_end es
     else if pe_media_time e < 0 then unsupported
     else if (case previous_media_end of None \<Rightarrow> False | Some m \<Rightarrow> nat (pe_media_time e) < m)
     then unsupported
     else
       bind_out (media_edit samples track_ts movie_ts presentation_start (nat (pe_media_time e))
           (pe_duration_movie_ts e)) (\<lambda>(mapped, media_end).
       bind_out (apply_edits samples track_ts movie_ts cursor' (Some media_end) es) (\<lambda>more.
         Inr (mapped @ more)))))"

definition apply_track_edit_list ::
  "bytes \<Rightarrow> box_info \<Rightarrow> sample_record list \<Rightarrow> u32 \<Rightarrow> u32 \<Rightarrow> sample_record list parsed" where
  "apply_track_edit_list input trak samples track_ts movie_ts =
     (case child input trak (ascii ''edts'') of
        None \<Rightarrow> Inr samples
      | Some edts_box \<Rightarrow>
          bind_out (require_child input edts_box (ascii ''elst'')) (\<lambda>elst.
          bind_out (parse_elst input elst) (\<lambda>edits.
          if edits = [] then corrupt
          else
            bind_out (apply_edits samples track_ts movie_ts 0 None edits) (\<lambda>output.
              if output = [] then unsupported else Inr output))))"

section \<open>The movie\<close>

record parsed_track =
  pt_cfg :: track_config
  pt_timescale :: u32
  pt_samples :: "sample_record list"

definition parse_track :: "bytes \<Rightarrow> nat \<Rightarrow> u32 \<Rightarrow> box_info \<Rightarrow> parsed_track parsed" where
  "parse_track input source_len movie_ts trak =
     bind_out (parse_track_cfg input trak) (\<lambda>cfg.
     bind_out (require_child input trak (ascii ''mdia'')) (\<lambda>mdia.
     bind_out (require_child input mdia (ascii ''mdhd'')) (\<lambda>mdhd_box.
     bind_out (parse_mdhd_timescale input mdhd_box) (\<lambda>timescale.
     bind_out (require_child input mdia (ascii ''minf'')) (\<lambda>minf.
     bind_out (require_child input minf (ascii ''stbl'')) (\<lambda>stbl.
     bind_out (parse_sample_table input stbl source_len) (\<lambda>samples.
     bind_out (apply_track_edit_list input trak samples timescale movie_ts) (\<lambda>samples.
       if samples = [] then unsupported
       else Inr \<lparr>pt_cfg = cfg, pt_timescale = timescale, pt_samples = samples\<rparr>))))))))"

text \<open>The finalized \<open>moov\<close> of a buffer and its children; a fragmented movie is refused.\<close>

definition finalized_moov :: "bytes \<Rightarrow> box_info list parsed" where
  "finalized_moov input =
     bind_out (ok_or Unsupported (find_box (walk input) (ascii ''moov''))) (\<lambda>moov.
     let moov_children = children input moov in
     if find_box moov_children (ascii ''mvex'') \<noteq> None then unsupported else Inr moov_children)"

definition traks :: "box_info list \<Rightarrow> box_info list" where
  "traks moov_children = filter (\<lambda>b. bi_fourcc b = ascii ''trak'') moov_children"

definition parse_movie_with_source_len :: "bytes \<Rightarrow> nat \<Rightarrow> parsed_track list parsed" where
  "parse_movie_with_source_len input source_len =
     bind_out (finalized_moov input) (\<lambda>moov_children.
     bind_out (ok_or Unsupported (find_box moov_children (ascii ''mvhd''))) (\<lambda>mvhd_box.
     bind_out (parse_header_timescale input mvhd_box) (\<lambda>movie_ts.
     bind_out (collect (parse_track input source_len movie_ts) (traks moov_children)) (\<lambda>tracks.
       if tracks = [] then unsupported else Inr tracks))))"

definition parse_movie :: "bytes \<Rightarrow> parsed_track list parsed" where
  "parse_movie input = parse_movie_with_source_len input (length input)"

definition finalized_movie_track_counts :: "bytes \<Rightarrow> (nat \<times> nat) parsed" where
  "finalized_movie_track_counts input =
     bind_out (finalized_moov input) (\<lambda>moov_children.
     bind_out (collect (parse_track_cfg input) (traks moov_children)) (\<lambda>cfgs.
     let video = length (filter is_video cfgs);
         audio = length (filter (\<lambda>c. \<not> is_video c) cfgs)
     in if video = 0 \<and> audio = 0 then unsupported else Inr (video, audio)))"

datatype media_video_codec = CodecH264 | CodecHevc | CodecAv1

definition codec_kind :: "video_codec_params \<Rightarrow> media_video_codec" where
  "codec_kind c = (case c of H264 _ _ \<Rightarrow> CodecH264 | Hevc _ _ _ \<Rightarrow> CodecHevc | Av1 _ \<Rightarrow> CodecAv1)"

definition finalized_movie_video_codecs :: "bytes \<Rightarrow> media_video_codec list parsed" where
  "finalized_movie_video_codecs input =
     bind_out (finalized_moov input) (\<lambda>moov_children.
     bind_out (collect (parse_track_cfg input) (traks moov_children)) (\<lambda>cfgs.
       Inr (concat (map (\<lambda>c. case c of Video v \<Rightarrow> [codec_kind (vt_codec v)] | Audio _ \<Rightarrow> []) cfgs))))"

section \<open>Reading the movie box from a file\<close>

text \<open>A file is its bytes; \<open>seek\<close> succeeds and \<open>read_exact\<close> fails past the end.\<close>

definition max_finalized_moov_bytes :: nat where
  "max_finalized_moov_bytes = 64 * 1024 * 1024"

definition read_exact_at :: "bytes \<Rightarrow> nat \<Rightarrow> nat \<Rightarrow> bytes parsed" where
  "read_exact_at reader offset len = ok_or (Io SourceExhausted) (get_range reader offset (offset + len))"

definition ends_by :: "nat \<Rightarrow> nat \<Rightarrow> nat \<Rightarrow> bool" where
  "ends_by offset len limit = (case checked_add_u64 offset len of None \<Rightarrow> False | Some stop \<Rightarrow> stop \<le> limit)"

definition read_top_level_box :: "bytes \<Rightarrow> nat \<Rightarrow> nat \<Rightarrow> box_info parsed" where
  "read_top_level_box reader offset limit =
     (if \<not> ends_by offset 8 limit then corrupt
      else
        bind_out (read_exact_at reader offset 8) (\<lambda>header.
        let size32 = unat (be_u32 (take 4 header)); fourcc = slice 4 8 header in
        bind_out
          (if uses_large_size size32
           then if \<not> ends_by offset 16 limit then corrupt
                else bind_out (read_exact_at reader (offset + 8) 8) (\<lambda>large. Inr (Some (unat (be_u64 large))))
           else Inr None) (\<lambda>large_size.
        bind_out (map_err header_trim_error (decode_box_header size32 large_size offset limit)) (\<lambda>decoded.
          Inr \<lparr>bi_fourcc = fourcc, bi_offset = offset, bi_size = dh_size decoded,
               bi_payload_offset = dh_payload_offset decoded\<rparr>))))"

definition read_box_bytes :: "bytes \<Rightarrow> box_info \<Rightarrow> bytes parsed" where
  "read_box_bytes reader b =
     (if max_finalized_moov_bytes < bi_size b then unsupported
      else read_exact_at reader (bi_offset b) (bi_size b))"

function find_moov_bytes :: "bytes \<Rightarrow> nat \<Rightarrow> bytes parsed" where
  "find_moov_bytes reader offset =
     (if offset < length reader
      then case read_top_level_box reader offset (length reader) of Inl e \<Rightarrow> Inl e
        | Inr top_box \<Rightarrow>
            if bi_fourcc top_box = ascii ''moov'' then read_box_bytes reader top_box
            else (case checked_add_u64 (bi_offset top_box) (bi_size top_box) of None \<Rightarrow> corrupt
              | Some next \<Rightarrow> if next \<le> offset then corrupt else find_moov_bytes reader next)
      else unsupported)"
  by pat_completeness auto
termination
  by (relation "measure (\<lambda>(reader, offset). length reader - offset)") auto

declare find_moov_bytes.simps [simp del]

definition read_finalized_moov_bytes :: "bytes \<Rightarrow> bytes parsed" where
  "read_finalized_moov_bytes reader = find_moov_bytes reader 0"

definition parse_movie_reader :: "bytes \<Rightarrow> parsed_track list parsed" where
  "parse_movie_reader reader =
     bind_out (read_finalized_moov_bytes reader) (\<lambda>moov. parse_movie_with_source_len moov (length reader))"

definition media_track_counts_reader :: "bytes \<Rightarrow> (nat \<times> nat) parsed" where
  "media_track_counts_reader reader =
     bind_out (read_finalized_moov_bytes reader) finalized_movie_track_counts"

end
