(* ===== verification/Mp4_Trim.thy ===== *)
theory Mp4_Trim
  imports Mp4_Parse
begin

text \<open>
  Keyframe-aligned trimming and stream-copy remuxing of finalized files
  (crates/clipline-mp4/src/trim.rs): choosing the range, collecting the samples, replaying them
  into a new writer run by run.  The in-memory functions take the bytes of the file; the file
  functions take what the system answers about source and target, return the bytes the target is
  replaced with, and copy samples instead of holding them.
\<close>

record trim_info =
  ti_requested_start_s :: f64
  ti_requested_end_s :: f64
  ti_aligned_start_s :: f64
  ti_aligned_end_s :: f64
  ti_duration_s :: f64

record trim_selection =
  tn_video_idx :: nat
  tn_start_idx :: nat
  tn_end_idx :: nat
  tn_aligned_start_s :: f64
  tn_aligned_end_s :: f64
  tn_aligned_start_ticks :: nat
  tn_aligned_end_ticks :: nat
  tn_video_timescale :: u32

section \<open>Records\<close>

text \<open>Unchecked \<open>u64\<close> addition wraps in the release profile.\<close>

definition wrapping_add_u64 :: "nat \<Rightarrow> nat \<Rightarrow> nat" where
  "wrapping_add_u64 a b = (a + b) mod 2 ^ 64"

definition record_end_s :: "sample_record \<Rightarrow> u32 \<Rightarrow> f64" where
  "record_end_s s timescale = fdiv (f64_of_nat (wrapping_add_u64 (sr_start_ticks s) (unat (sr_duration s))))
     (f64_of_nat (unat timescale))"

definition track_end_s :: "parsed_track \<Rightarrow> f64" where
  "track_end_s t = (if pt_samples t = [] then Fin 0 else record_end_s (last (pt_samples t)) (pt_timescale t))"

definition to_frag_sample :: "bytes \<Rightarrow> sample_record \<Rightarrow> frag_sample parsed" where
  "to_frag_sample input s =
     bind_out (ok_or Corrupt (checked_add_usize (sr_offset s) (unat (sr_size s)))) (\<lambda>stop.
     bind_out (ok_or Corrupt (get_range input (sr_offset s) stop)) (\<lambda>data.
       Inr \<lparr>fs_data = data, fs_duration = sr_duration s, fs_is_sync = sr_is_sync s\<rparr>))"

definition to_source_sample :: "sample_record \<Rightarrow> source_sample" where
  "to_source_sample s = \<lparr>ss_offset = sr_offset s, ss_size = sr_size s, ss_duration = sr_duration s,
     ss_is_sync = sr_is_sync s\<rparr>"

section \<open>The range\<close>

definition selection_info :: "trim_selection \<Rightarrow> f64 \<Rightarrow> f64 \<Rightarrow> trim_info" where
  "selection_info sel requested_start_s requested_end_s =
     \<lparr>ti_requested_start_s = requested_start_s, ti_requested_end_s = requested_end_s,
      ti_aligned_start_s = tn_aligned_start_s sel, ti_aligned_end_s = tn_aligned_end_s sel,
      ti_duration_s = fsub (tn_aligned_end_s sel) (tn_aligned_start_s sel)\<rparr>"

text \<open>The \<open>u128\<close> products of a \<open>u64\<close> and a \<open>u32\<close> do not overflow.\<close>

definition contains_start :: "trim_selection \<Rightarrow> nat \<Rightarrow> u32 \<Rightarrow> bool" where
  "contains_start sel start_ticks timescale =
     (let start = start_ticks * unat (tn_video_timescale sel);
          lower = tn_aligned_start_ticks sel * unat timescale;
          upper = tn_aligned_end_ticks sel * unat timescale
      in lower \<le> start \<and> start < upper)"

definition rebase_start :: "trim_selection \<Rightarrow> nat \<Rightarrow> u32 \<Rightarrow> nat parsed" where
  "rebase_start sel start_ticks timescale =
     (let start = start_ticks * unat (tn_video_timescale sel);
          origin = tn_aligned_start_ticks sel * unat timescale
      in bind_out (ok_or Corrupt (checked_sub_nat start origin)) (\<lambda>delta.
         if tn_video_timescale sel = 0 then Inl Panic
         else let rounded = (delta + unat (tn_video_timescale sel) div 2) div unat (tn_video_timescale sel)
              in if rounded \<le> u64_max then Inr rounded else corrupt))"

definition validate_range :: "f64 \<Rightarrow> f64 \<Rightarrow> unit parsed" where
  "validate_range start_s end_s =
     (if \<not> is_finite start_s \<or> \<not> is_finite end_s then Inl (Err InvalidRange)
      else if flt start_s (Fin 0) then Inl (Err InvalidRange)
      else if fle end_s start_s then Inl (Err InvalidRange)
      else Inr ())"

text \<open>The comparison with \<open>u64::MAX as f64\<close> lets \<open>2 ^ 64\<close> through, which the cast saturates.\<close>

definition in_timeline :: "f64 \<Rightarrow> bool" where
  "in_timeline ticks = (is_finite ticks \<and> \<not> flt ticks (Fin 0) \<and> \<not> flt (f64_of_nat u64_max) ticks)"

definition seconds_to_ticks_floor :: "f64 \<Rightarrow> u32 \<Rightarrow> nat parsed" where
  "seconds_to_ticks_floor seconds timescale =
     (let ticks = fmul seconds (f64_of_nat (unat timescale))
      in if \<not> in_timeline ticks then Inl (Err InvalidRange)
         else Inr (min (nat \<lfloor>f64_val ticks\<rfloor>) u64_max))"

definition seconds_to_ticks_ceil :: "f64 \<Rightarrow> u32 \<Rightarrow> nat parsed" where
  "seconds_to_ticks_ceil seconds timescale =
     (let ticks = fmul seconds (f64_of_nat (unat timescale))
      in if \<not> in_timeline ticks then Inl (Err InvalidRange)
         else Inr (min (nat \<lceil>f64_val ticks\<rceil>) u64_max))"

definition pick_start :: "sample_record list \<Rightarrow> nat \<Rightarrow> nat parsed" where
  "pick_start samples requested =
     ok_or Unsupported (case last_index (\<lambda>s. sr_is_sync s \<and> sr_start_ticks s \<le> requested) samples of
       Some i \<Rightarrow> Some i | None \<Rightarrow> position sr_is_sync samples)"

definition pick_end :: "sample_record list \<Rightarrow> nat \<Rightarrow> nat \<Rightarrow> nat" where
  "pick_end samples start_idx requested =
     (case position (\<lambda>s. sr_is_sync s \<and> requested \<le> sr_start_ticks s) (drop (start_idx + 1) samples) of
        Some j \<Rightarrow> start_idx + 1 + j | None \<Rightarrow> length samples)"

definition select_trim_range :: "parsed_track list \<Rightarrow> f64 \<Rightarrow> f64 \<Rightarrow> trim_selection parsed" where
  "select_trim_range movie start_s end_s =
     bind_out (ok_or Unsupported (position (\<lambda>t. is_video (pt_cfg t)) movie)) (\<lambda>video_idx.
     let video = movie ! video_idx; samples = pt_samples video; timescale = pt_timescale video in
     if fle (track_end_s video) start_s then Inl (Err InvalidRange)
     else
       bind_out (seconds_to_ticks_floor start_s timescale) (\<lambda>requested_start_ticks.
       bind_out (seconds_to_ticks_ceil end_s timescale) (\<lambda>requested_end_ticks.
       bind_out (pick_start samples requested_start_ticks) (\<lambda>start_idx.
       let end_idx = pick_end samples start_idx requested_end_ticks;
           aligned_start_ticks = sr_start_ticks (samples ! start_idx);
           aligned_end_ticks =
             (if end_idx < length samples then sr_start_ticks (samples ! end_idx)
              else if samples = [] then 0
              else wrapping_add_u64 (sr_start_ticks (last samples)) (unat (sr_duration (last samples))));
           aligned_start_s = fdiv (f64_of_nat aligned_start_ticks) (f64_of_nat (unat timescale));
           aligned_end_s = fdiv (f64_of_nat aligned_end_ticks) (f64_of_nat (unat timescale))
       in if fle aligned_end_s aligned_start_s then Inl (Err InvalidRange)
          else Inr \<lparr>tn_video_idx = video_idx, tn_start_idx = start_idx, tn_end_idx = end_idx,
                    tn_aligned_start_s = aligned_start_s, tn_aligned_end_s = aligned_end_s,
                    tn_aligned_start_ticks = aligned_start_ticks, tn_aligned_end_ticks = aligned_end_ticks,
                    tn_video_timescale = timescale\<rparr>))))"

text \<open>The records of a track that the selection takes.\<close>

definition selected_records :: "trim_selection \<Rightarrow> nat \<Rightarrow> parsed_track \<Rightarrow> sample_record list" where
  "selected_records sel idx track =
     (if idx = tn_video_idx sel then slice (tn_start_idx sel) (tn_end_idx sel) (pt_samples track)
      else filter (\<lambda>s. contains_start sel (sr_start_ticks s) (pt_timescale track)) (pt_samples track))"

definition rebased_starts :: "trim_selection \<Rightarrow> parsed_track \<Rightarrow> sample_record list \<Rightarrow> nat list parsed" where
  "rebased_starts sel track records =
     collect (\<lambda>s. rebase_start sel (sr_start_ticks s) (pt_timescale track)) records"

section \<open>Replaying samples at their times\<close>

text \<open>The loop of \<open>timed_ranges\<close> at index \<open>i\<close>: maximal runs without a gap, as half-open ranges.\<close>

fun timed_ranges_from :: "nat list \<Rightarrow> u32 list \<Rightarrow> nat \<Rightarrow> nat \<Rightarrow> (nat \<times> nat) list parsed" where
  "timed_ranges_from (start # starts) (duration # durs) range_start i =
     bind_out (ok_or Corrupt (checked_add_u64 start (unat duration))) (\<lambda>stop.
       case starts of
         [] \<Rightarrow> timed_ranges_from starts durs range_start (i + 1)
       | next_start # _ \<Rightarrow>
           if next_start < stop then unsupported
           else if next_start \<noteq> stop
           then bind_out (timed_ranges_from starts durs (i + 1) (i + 1)) (\<lambda>ranges.
                  Inr ((range_start, i + 1) # ranges))
           else timed_ranges_from starts durs range_start (i + 1))"
| "timed_ranges_from starts durs range_start i =
     Inr (if range_start < i then [(range_start, i)] else [])"

definition timed_ranges :: "nat list \<Rightarrow> u32 list \<Rightarrow> (nat \<times> nat) list parsed" where
  "timed_ranges starts durs =
     (if length starts \<noteq> length durs then corrupt else timed_ranges_from starts durs 0 0)"

definition prepare_timed_ranges ::
  "('s \<Rightarrow> u32) \<Rightarrow> 's list list \<Rightarrow> nat list list \<Rightarrow> (nat \<times> nat) list list parsed" where
  "prepare_timed_ranges duration samples starts =
     (if length samples \<noteq> length starts then corrupt
      else collect (\<lambda>(track, starts). timed_ranges starts (map duration track)) (zip samples starts))"

text \<open>
  The calls one iteration makes, in order: every track that has another run moves its decode time
  to the start of that run, then the fragment of all those runs is written.
\<close>

definition run_advances :: "nat list list \<Rightarrow> (nat \<times> nat) list list \<Rightarrow> nat \<Rightarrow> (nat \<times> nat) list" where
  "run_advances starts ranges run_index =
     concat (map (\<lambda>(track_index, track_ranges). case get_at track_ranges run_index of
         None \<Rightarrow> []
       | Some (a, _) \<Rightarrow> [(track_index, starts ! track_index ! a)]) (List.enumerate 0 ranges))"

definition run_samples :: "'s list list \<Rightarrow> (nat \<times> nat) list list \<Rightarrow> nat \<Rightarrow> 's list list" where
  "run_samples samples ranges run_index =
     map (\<lambda>(track, track_ranges). case get_at track_ranges run_index of
         None \<Rightarrow> []
       | Some (a, b) \<Rightarrow> slice a b track) (zip samples ranges)"

fun set_decode_times :: "mp4_writer \<Rightarrow> (nat \<times> nat) list \<Rightarrow> mp4_writer parsed" where
  "set_decode_times mw [] = Inr mw"
| "set_decode_times mw ((i, t) # rest) = (case set_track_decode_time mw i t of
       (mw', Inl e) \<Rightarrow> map_err Io (Inl e) | (mw', Inr _) \<Rightarrow> set_decode_times mw' rest)"

fun write_runs ::
  "(mp4_writer \<Rightarrow> 's list list \<Rightarrow> mp4_writer \<times> (writer_error, unit) outcome)
     \<Rightarrow> mp4_writer \<Rightarrow> 's list list \<Rightarrow> nat list list \<Rightarrow> (nat \<times> nat) list list \<Rightarrow> nat list \<Rightarrow> mp4_writer parsed" where
  "write_runs write_frag mw samples starts ranges [] = Inr mw"
| "write_runs write_frag mw samples starts ranges (run_index # runs) =
     bind_out (set_decode_times mw (run_advances starts ranges run_index)) (\<lambda>mw1.
       case write_frag mw1 (run_samples samples ranges run_index) of
         (mw2, Inl e) \<Rightarrow> map_err Io (Inl e)
       | (mw2, Inr _) \<Rightarrow> write_runs write_frag mw2 samples starts ranges runs)"

definition run_count :: "(nat \<times> nat) list list \<Rightarrow> nat" where
  "run_count ranges = fold max (map length ranges) 0"

definition write_timed_frag_samples ::
  "mp4_writer \<Rightarrow> frag_sample list list \<Rightarrow> nat list list \<Rightarrow> mp4_writer parsed" where
  "write_timed_frag_samples mw samples starts =
     bind_out (prepare_timed_ranges fs_duration samples starts) (\<lambda>ranges.
       write_runs write_fragment_multi mw samples starts ranges [0..<run_count ranges])"

definition write_timed_source_samples ::
  "mp4_writer \<Rightarrow> bytes \<Rightarrow> source_sample list list \<Rightarrow> nat list list \<Rightarrow> mp4_writer parsed" where
  "write_timed_source_samples mw source samples starts =
     bind_out (prepare_timed_ranges ss_duration samples starts) (\<lambda>ranges.
       write_runs (\<lambda>mw. write_fragment_multi_from_source mw source) mw samples starts ranges
         [0..<run_count ranges])"

definition write_timed_source_samples_from_sources ::
  "mp4_writer \<Rightarrow> bytes list \<Rightarrow> source_sample list list \<Rightarrow> nat list list \<Rightarrow> mp4_writer parsed" where
  "write_timed_source_samples_from_sources mw sources samples starts =
     bind_out (prepare_timed_ranges ss_duration samples starts) (\<lambda>ranges.
       write_runs (\<lambda>mw. write_fragment_multi_from_sources mw sources) mw samples starts ranges
         [0..<run_count ranges])"

section \<open>Trimming and remuxing\<close>

definition trim_keyframe_aligned :: "bytes \<Rightarrow> f64 \<Rightarrow> f64 \<Rightarrow> (bytes \<times> trim_info) parsed" where
  "trim_keyframe_aligned input start_s end_s =
     bind_out (validate_range start_s end_s) (\<lambda>_.
     bind_out (parse_movie input) (\<lambda>movie.
     bind_out (select_trim_range movie start_s end_s) (\<lambda>selection.
     bind_out (collect (\<lambda>(idx, track).
         let records = selected_records selection idx track in
         bind_out (rebased_starts selection track records) (\<lambda>starts.
         bind_out (collect (to_frag_sample input) records) (\<lambda>samples. Inr (starts, samples))))
       (List.enumerate 0 movie)) (\<lambda>per_track.
     bind_out (map_err Io (writer_new_multi sink_new (map pt_cfg movie))) (\<lambda>writer.
     bind_out (write_timed_frag_samples writer (map snd per_track) (map fst per_track)) (\<lambda>writer.
     bind_out (or_panic (finalize writer)) (\<lambda>out.
       Inr (sk_data out, selection_info selection start_s end_s))))))))"

text \<open>
  The file functions open the source and replace the target through a temporary file beside it.  What
  the system answers is an input: the canonical names, whether the target exists and is the source under
  another name (\<open>None\<close> when that cannot be told), the bytes of the source, whether the temporary file can
  be created, and whether it can be synced and moved to the target.
\<close>

datatype file_trim_error = Trimming trim_error | SameFile | FileIo

record file_answers =
  an_source_canonical :: "string option"
  an_target_canonical :: "string option"
  an_target_exists :: bool
  an_same_identity :: "bool option"
  an_source :: "bytes option"
  an_temp_created :: bool
  an_replaced :: bool

definition reject_same_file :: "file_answers \<Rightarrow> (file_trim_error, unit) outcome" where
  "reject_same_file a =
     bind_out (ok_or FileIo (an_source_canonical a)) (\<lambda>source_canonical.
     bind_out (if an_target_exists a then ok_or FileIo (an_same_identity a) else Inr False) (\<lambda>same_identity.
     let same_path = (an_target_canonical a = Some source_canonical)
     in if same_identity \<or> same_path then Inl (Err SameFile) else Inr ()))"

definition write_file_atomically :: "file_answers \<Rightarrow> (file_trim_error, bytes) outcome \<Rightarrow> (file_trim_error, bytes) outcome" where
  "write_file_atomically a written =
     (if \<not> an_temp_created a then Inl (Err FileIo)
      else bind_out written (\<lambda>content. if an_replaced a then Inr content else Inl (Err FileIo)))"

text \<open>The samples to copy, and the copying into the target file.\<close>

definition trim_source_samples ::
  "bytes \<Rightarrow> f64 \<Rightarrow> f64 \<Rightarrow> (parsed_track list \<times> trim_selection \<times> (nat list \<times> source_sample list) list) parsed" where
  "trim_source_samples source start_s end_s =
     bind_out (parse_movie_reader source) (\<lambda>movie.
     bind_out (select_trim_range movie start_s end_s) (\<lambda>selection.
     bind_out (collect (\<lambda>(idx, track).
         let records = selected_records selection idx track in
         bind_out (rebased_starts selection track records) (\<lambda>starts.
           Inr (starts, map to_source_sample records)))
       (List.enumerate 0 movie)) (\<lambda>per_track. Inr (movie, selection, per_track))))"

definition copy_into_target ::
  "bytes \<Rightarrow> track_config list \<Rightarrow> source_sample list list \<Rightarrow> nat list list \<Rightarrow> bytes parsed" where
  "copy_into_target source tracks per_track starts =
     bind_out (map_err Io (writer_new_multi sink_new tracks)) (\<lambda>writer.
     bind_out (write_timed_source_samples writer source per_track starts) (\<lambda>writer.
     bind_out (or_panic (finalize writer)) (\<lambda>out. Inr (sk_data out))))"

definition trim_keyframe_aligned_file :: "file_answers \<Rightarrow> f64 \<Rightarrow> f64 \<Rightarrow> (file_trim_error, bytes \<times> trim_info) outcome" where
  "trim_keyframe_aligned_file a start_s end_s =
     bind_out (map_err Trimming (validate_range start_s end_s)) (\<lambda>_.
     bind_out (reject_same_file a) (\<lambda>_.
     bind_out (ok_or FileIo (an_source a)) (\<lambda>source.
     bind_out (map_err Trimming (trim_source_samples source start_s end_s)) (\<lambda>(movie, selection, per_track).
     bind_out (write_file_atomically a
         (map_err Trimming (copy_into_target source (map pt_cfg movie) (map snd per_track) (map fst per_track)))) (\<lambda>out.
       Inr (out, selection_info selection start_s end_s))))))"

text \<open>A \<open>BTreeSet\<close> of the selected indices; only its members and their number matter.\<close>

definition selected_audio_index_set :: "parsed_track list \<Rightarrow> nat list \<Rightarrow> nat set parsed" where
  "selected_audio_index_set movie indices =
     (if card (set indices) \<noteq> length indices then Inl (Err InvalidRange)
      else let audio_count = length (filter (\<lambda>t. \<not> is_video (pt_cfg t)) movie)
           in if list_ex (\<lambda>i. audio_count \<le> i) indices then Inl (Err InvalidRange)
              else Inr (set indices))"

text \<open>The tracks a remux keeps: every video track and the selected audio tracks.\<close>

fun kept_tracks :: "nat set \<Rightarrow> nat \<Rightarrow> parsed_track list \<Rightarrow> parsed_track list" where
  "kept_tracks selected audio_idx [] = []"
| "kept_tracks selected audio_idx (t # ts) =
     (if is_video (pt_cfg t) then t # kept_tracks selected audio_idx ts
      else if audio_idx \<in> selected then t # kept_tracks selected (audio_idx + 1) ts
      else kept_tracks selected (audio_idx + 1) ts)"

definition track_starts :: "parsed_track \<Rightarrow> nat list" where
  "track_starts t = map sr_start_ticks (pt_samples t)"

definition remux_with_selected_audio_tracks :: "bytes \<Rightarrow> nat list \<Rightarrow> bytes parsed" where
  "remux_with_selected_audio_tracks input indices =
     bind_out (parse_movie input) (\<lambda>movie.
     bind_out (selected_audio_index_set movie indices) (\<lambda>selected.
     let kept = kept_tracks selected 0 movie in
     bind_out (collect (\<lambda>t. collect (to_frag_sample input) (pt_samples t)) kept) (\<lambda>samples.
     bind_out (map_err Io (writer_new_multi sink_new (map pt_cfg kept))) (\<lambda>writer.
     bind_out (write_timed_frag_samples writer samples (map track_starts kept)) (\<lambda>writer.
     bind_out (or_panic (finalize writer)) (\<lambda>out. Inr (sk_data out)))))))"

definition remux_with_selected_audio_tracks_file :: "file_answers \<Rightarrow> nat list \<Rightarrow> (file_trim_error, bytes) outcome" where
  "remux_with_selected_audio_tracks_file a indices =
     bind_out (reject_same_file a) (\<lambda>_.
     bind_out (ok_or FileIo (an_source a)) (\<lambda>source.
     bind_out (map_err Trimming (parse_movie_reader source)) (\<lambda>movie.
     bind_out (map_err Trimming (selected_audio_index_set movie indices)) (\<lambda>selected.
     let kept = kept_tracks selected 0 movie in
     write_file_atomically a (map_err Trimming (copy_into_target source (map pt_cfg kept)
       (map (\<lambda>t. map to_source_sample (pt_samples t)) kept) (map track_starts kept)))))))"

end
