(* ===== verification/Mp4_Parse_Tables.thy ===== *)
theory Mp4_Parse_Tables
  imports Mp4_Parse
begin

text \<open>
  The sample tables that the writer's track state builds read back through the parser
  (crates/clipline-mp4/src/trim.rs): each table on its own, then the sample records they describe.
\<close>

section \<open>Reading at a position\<close>

definition starts :: "bytes \<Rightarrow> nat \<Rightarrow> bytes \<Rightarrow> bool" where
  "starts buf pos bs \<longleftrightarrow> get_range buf pos (pos + length bs) = Some bs"

lemma starts_iff: "starts buf pos bs \<longleftrightarrow> pos + length bs \<le> length buf \<and> take (length bs) (drop pos buf) = bs"
  by (auto simp: starts_def get_range_def slice_def)

lemma starts_append:
  "starts buf pos (xs @ ys) \<longleftrightarrow> starts buf pos xs \<and> starts buf (pos + length xs) ys"
proof -
  have "take (length xs + length ys) (drop pos buf) = xs @ ys \<longleftrightarrow>
      take (length xs) (drop pos buf) = xs \<and> take (length ys) (drop (pos + length xs) buf) = ys"
    if "pos + length xs \<le> length buf"
    using that by (simp add: take_add add.commute append_eq_append_conv)
  then show ?thesis by (auto simp: starts_iff)
qed

lemma starts_Cons:
  "starts buf pos (x # ys) \<longleftrightarrow> get_at buf pos = Some x \<and> starts buf (pos + 1) ys"
  using starts_append [of buf pos "[x]" ys]
  by (auto simp: starts_iff get_at_def take_Suc_conv_app_nth drop_Suc hd_drop_conv_nth
      take_Suc split: if_splits)

lemma be_words [simp, byte_simps]:
  "be_u16 (be16 a) = a" "be_u32 (be32 b) = b" "be_u64 (be64 c) = c"
  by (simp_all add: be_u16_def be_u32_def be_u64_def)

named_theorems read_simps \<open>reads of what a buffer holds at a position\<close>

lemma read_starts [read_simps]:
  "starts buf pos (be16 a) \<Longrightarrow> read_u16 buf pos = Inr a"
  "starts buf pos (be32 b) \<Longrightarrow> read_u32 buf pos = Inr b"
  "starts buf pos (be64 c) \<Longrightarrow> read_u64 buf pos = Inr c"
  by (simp_all add: starts_def read_u16_def read_u32_def read_u64_def)

lemma read_slice_starts:
  assumes "starts buf pos bs" "pos + length bs \<le> limit" "length buf \<le> u64_max"
  shows "read_slice buf pos (length bs) limit = Inr bs"
proof -
  have "pos + length bs \<le> usize_max"
    using assms by (simp add: starts_iff usize_max_def u64_max_def)
  with assms show ?thesis by (simp add: read_slice_def checked_add_usize_def starts_def)
qed

lemma read_bounded_starts [read_simps]:
  assumes "length buf \<le> u64_max"
  shows "starts buf pos (be16 a) \<Longrightarrow> pos + 2 \<le> limit \<Longrightarrow> read_u16_bounded buf pos limit = Inr a"
    and "starts buf pos (be32 b) \<Longrightarrow> pos + 4 \<le> limit \<Longrightarrow> read_u32_bounded buf pos limit = Inr b"
    and "starts buf pos (be64 c) \<Longrightarrow> pos + 8 \<le> limit \<Longrightarrow> read_u64_bounded buf pos limit = Inr c"
    and "starts buf pos f \<Longrightarrow> length f = 4 \<Longrightarrow> pos + 4 \<le> limit \<Longrightarrow>
      read_fourcc_bounded buf pos limit = Inr f"
  using read_slice_starts [of buf pos "be16 a" limit] read_slice_starts [of buf pos "be32 b" limit]
    read_slice_starts [of buf pos "be64 c" limit] read_slice_starts [of buf pos f limit] assms
  by (simp_all add: read_u16_bounded_def read_u32_bounded_def read_u64_bounded_def
      read_fourcc_bounded_def)

section \<open>Boxes and their payloads\<close>

text \<open>A box of the buffer and its payload, which ends with the box.\<close>

definition holds :: "bytes \<Rightarrow> box_info \<Rightarrow> bytes \<Rightarrow> bool" where
  "holds buf b p \<longleftrightarrow> starts buf (bi_payload_offset b) p
     \<and> bi_payload_offset b + length p = bi_offset b + bi_size b \<and> length buf \<le> u64_max"

lemma holds_starts: "holds buf b p \<Longrightarrow> starts buf (bi_payload_offset b) p"
  by (simp add: holds_def)

lemma holds_end: "holds buf b p \<Longrightarrow> box_end b = Inr (bi_payload_offset b + length p)"
  by (auto simp: holds_def box_end_def checked_add_u64_def starts_iff)

lemma holds_small: "holds buf b p \<Longrightarrow> length buf \<le> u64_max \<and> bi_payload_offset b + length p \<le> length buf"
  by (simp add: holds_def starts_iff)

lemma table_entries_ok:
  "n * k \<le> m \<Longrightarrow> start + m \<le> stop \<Longrightarrow> stop \<le> u64_max \<Longrightarrow> validate_table_entries n start stop k = Inr ()"
  by (simp add: validate_table_entries_def checked_mul_usize_def checked_add_usize_def
      u64_max_def usize_max_def)

text \<open>A header, a count and entries of a fixed size: the loop reads every entry.\<close>

lemma read_each_starts:
  "starts buf pos (concat (map enc xs)) \<Longrightarrow> (\<And>x. x \<in> set xs \<Longrightarrow> length (enc x) = stride) \<Longrightarrow>
   (\<And>x pos. x \<in> set xs \<Longrightarrow> starts buf pos (enc x) \<Longrightarrow> f pos = Inr (g x)) \<Longrightarrow>
   read_each f stride (length xs) pos = Inr (map g xs)"
proof (induction xs arbitrary: pos)
  case (Cons x xs)
  then have "starts buf pos (enc x)" "starts buf (pos + stride) (concat (map enc xs))"
    by (simp_all add: starts_append)
  moreover from this(1) have "f pos = Inr (g x)" using Cons.prems(3) by simp
  moreover from calculation(2) have "read_each f stride (length xs) (pos + stride) = Inr (map g xs)"
    using Cons by simp
  ultimately show ?case by simp
qed simp

lemma length_concat_stride:
  "(\<And>x. x \<in> set xs \<Longrightarrow> length (enc x) = k) \<Longrightarrow> length (concat (map enc xs)) = length xs * k"
  by (induction xs) auto

text \<open>What a full box with a counted table gives its parser.\<close>

lemma counted_table:
  assumes box: "holds buf b (h @ be32n n @ body)" "length h = 4" and n: "n < 2 ^ 32"
    and len: "length body = n * k"
  shows "starts buf (bi_payload_offset b + 4) (be32n n)"
    and "starts buf (bi_payload_offset b + 8) body"
    and "box_end b = Inr (bi_payload_offset b + 8 + length body)"
    and "unat (word_of_nat n :: u32) = n"
    and "validate_table_entries n (bi_payload_offset b + 8) (bi_payload_offset b + 8 + length body) k = Inr ()"
  using holds_starts [OF box(1)] holds_end [OF box(1)] holds_small [OF box(1)] box(2) n len
  by (auto simp: starts_append add.assoc unat_word_of_nat_less intro: table_entries_ok)

lemma sample_count_ok: "n \<le> max_parsed_samples \<Longrightarrow> validate_sample_count n = Inr ()"
  by (simp add: validate_sample_count_def)

lemma max_parsed_small: "n \<le> max_parsed_samples \<Longrightarrow> n < 2 ^ 32"
  by (simp add: max_parsed_samples_def)

section \<open>Each table\<close>

lemma parse_stsz_reads:
  assumes box: "holds buf b (h @ be32 0 @ be32n (length ns) @ concat (map be32n ns))" "length h = 4"
    and n: "length ns \<le> max_parsed_samples"
  shows "parse_stsz buf b = Inr (map word_of_nat ns)"
proof -
  have box': "holds buf b ((h @ be32 0) @ be32n (length ns) @ concat (map be32n ns))"
    using box(1) by simp
  have len: "length (concat (map be32n ns)) = length ns * 4" by (rule length_concat_stride) simp
  have at: "starts buf (bi_payload_offset b + 4) (be32 0)"
    "starts buf (bi_payload_offset b + 8) (be32n (length ns))"
    "starts buf (bi_payload_offset b + 12) (concat (map be32n ns))"
    using holds_starts [OF box(1)] box(2) by (simp_all add: starts_append add.assoc)
  have stop: "box_end b = Inr (bi_payload_offset b + 12 + length (concat (map be32n ns)))"
    using holds_end [OF box(1)] box(2) by (simp add: add.assoc)
  have "validate_table_entries (length ns) (bi_payload_offset b + 12)
      (bi_payload_offset b + 12 + length (concat (map be32n ns))) 4 = Inr ()"
    using holds_small [OF box(1)] box(2) len by (intro table_entries_ok) auto
  moreover have "read_each (read_u32 buf) 4 (length ns) (bi_payload_offset b + 12)
      = Inr (map word_of_nat ns)"
    using at(3) by (intro read_each_starts [where enc = be32n]) (auto intro: read_starts)
  ultimately show ?thesis
    using at stop sample_count_ok [OF n] max_parsed_small [OF n]
    by (simp add: parse_stsz_def read_simps unat_word_of_nat_less)
qed

lemma parse_co64_reads:
  assumes box: "holds buf b (h @ be32n (length ns) @ concat (map be64n ns))" "length h = 4"
    and n: "length ns \<le> max_parsed_samples"
  shows "parse_co64 buf b = Inr (map word_of_nat ns)"
proof -
  have "length (concat (map be64n ns)) = length ns * 8" by (rule length_concat_stride) simp
  note t = counted_table [OF box max_parsed_small [OF n] this]
  have "read_each (read_u64 buf) 8 (length ns) (bi_payload_offset b + 8) = Inr (map word_of_nat ns)"
    using t(2) by (intro read_each_starts [where enc = be64n]) (auto intro: read_starts)
  then show ?thesis
    using t sample_count_ok [OF n] by (simp add: parse_co64_def read_simps)
qed

lemma stts_runs_reads:
  "starts buf pos (concat (map (\<lambda>r. be32n (dn_sample_count r) @ be32n (dn_sample_delta r)) runs)) \<Longrightarrow>
   length out + length (expand_runs runs) \<le> expected \<Longrightarrow> expected \<le> max_parsed_samples \<Longrightarrow>
   stts_runs buf expected (length runs) pos out = Inr (out @ map word_of_nat (expand_runs runs))"
proof (induction runs arbitrary: pos out)
  case (Cons r runs)
  let ?n = "dn_sample_count r" and ?d = "dn_sample_delta r"
  have e: "expand_runs (r # runs) = replicate ?n ?d @ expand_runs runs"
    using expand_runs_append [of "[r]" runs] by (simp add: expand_runs_single)
  have n: "unat (word_of_nat ?n :: u32) = ?n"
    using Cons.prems(2,3) e by (intro unat_word_of_nat_less) (simp add: max_parsed_samples_def)
  have at: "starts buf pos (be32n ?n)" "starts buf (pos + 4) (be32n ?d)"
    "starts buf (pos + 8) (concat (map (\<lambda>r. be32n (dn_sample_count r) @ be32n (dn_sample_delta r)) runs))"
    using Cons.prems(1) by (simp_all add: starts_append add.assoc)
  have "stts_runs buf expected (length runs) (pos + 8) (out @ replicate ?n (word_of_nat ?d))
      = Inr ((out @ replicate ?n (word_of_nat ?d)) @ map word_of_nat (expand_runs runs))"
    using at(3) Cons.prems(2,3) e by (intro Cons.IH) auto
  then show ?case
    using at n e Cons.prems(2,3)
    by (simp add: read_simps checked_add_usize_def max_parsed_samples_def usize_max_def)
qed simp

lemma parse_stts_reads:
  assumes box: "holds buf b (h @ be32n (length runs)
      @ concat (map (\<lambda>r. be32n (dn_sample_count r) @ be32n (dn_sample_delta r)) runs))" "length h = 4"
    and n: "length (expand_runs runs) \<le> max_parsed_samples" and pos: "\<forall>r \<in> set runs. 0 < dn_sample_count r"
  shows "parse_stts buf b (length (expand_runs runs)) = Inr (map word_of_nat (expand_runs runs))"
proof -
  have "length runs \<le> length (expand_runs runs)"
    using pos by (induction runs) (auto simp: expand_runs_def Suc_le_eq add_le_mono add.commute)
  with n have "length runs < 2 ^ 32" by (intro max_parsed_small) simp
  moreover have "length (concat (map (\<lambda>r. be32n (dn_sample_count r) @ be32n (dn_sample_delta r)) runs))
      = length runs * 8"
    by (rule length_concat_stride) simp
  ultimately have t: "starts buf (bi_payload_offset b + 4) (be32n (length runs))"
    "starts buf (bi_payload_offset b + 8)
       (concat (map (\<lambda>r. be32n (dn_sample_count r) @ be32n (dn_sample_delta r)) runs))"
    "box_end b = Inr (bi_payload_offset b + 8 + length runs * 8)"
    "unat (word_of_nat (length runs) :: u32) = length runs"
    "validate_table_entries (length runs) (bi_payload_offset b + 8)
       (bi_payload_offset b + 8 + length runs * 8) 8 = Inr ()"
    using counted_table [OF box] by metis+
  from stts_runs_reads [OF t(2), of "[]"] n t sample_count_ok [OF n] show ?thesis
    by (simp add: parse_stts_def read_simps)
qed


lemma stss_entries_reads:
  "starts buf pos (concat (map be32n l)) \<Longrightarrow> set l \<subseteq> {1..length sync} \<Longrightarrow> length sync < 2 ^ 32 \<Longrightarrow>
   stss_entries buf (length l) pos sync
     = Inr (map (\<lambda>i. sync ! i \<or> Suc i \<in> set l) [0..<length sync])"
proof (induction l arbitrary: pos sync)
  case Nil
  then show ?case by (simp add: map_nth)
next
  case (Cons k l)
  have k: "unat (word_of_nat k :: u32) = k" "0 < k" "k \<le> length sync"
    using Cons.prems(2,3) by (auto intro: unat_word_of_nat_less)
  have at: "starts buf pos (be32n k)" "starts buf (pos + 4) (concat (map be32n l))"
    using Cons.prems(1) by (simp_all add: starts_append)
  have "stss_entries buf (length l) (pos + 4) (sync[k - 1 := True])
      = Inr (map (\<lambda>i. sync[k - 1 := True] ! i \<or> Suc i \<in> set l) [0..<length sync])"
    using Cons.IH [OF at(2), of "sync[k - 1 := True]"] Cons.prems(2,3) by simp
  also have "map (\<lambda>i. sync[k - 1 := True] ! i \<or> Suc i \<in> set l) [0..<length sync]
      = map (\<lambda>i. sync ! i \<or> Suc i \<in> set (k # l)) [0..<length sync]"
    using k(2,3) by (intro map_cong) (auto simp: nth_list_update)
  finally show ?case using at(1) k by (simp add: read_simps)
qed

lemma parse_stss_reads:
  assumes box: "holds buf b (h @ be32n (length l) @ concat (map be32n l))" "length h = 4"
    and l: "set l \<subseteq> {1..n}" "distinct l" and n: "n \<le> max_parsed_samples"
  shows "parse_stss buf b n = Inr (map (is_sync_in (SyncListed l)) [1..<n + 1])"
proof -
  have le: "length l \<le> n"
    using card_mono [OF _ l(1)] distinct_card [OF l(2)] by simp
  with n have small: "length l < 2 ^ 32" by (intro max_parsed_small) simp
  have "length (concat (map be32n l)) = length l * 4" by (rule length_concat_stride) simp
  note t = counted_table [OF box small this]
  have "stss_entries buf (length l) (bi_payload_offset b + 8) (replicate n False)
      = Inr (map (\<lambda>i. replicate n False ! i \<or> Suc i \<in> set l) [0..<n])"
    using stss_entries_reads [OF t(2), of "replicate n False"] l(1) max_parsed_small [OF n] by simp
  also have "map (\<lambda>i. replicate n False ! i \<or> Suc i \<in> set l) [0..<n]
      = map (is_sync_in (SyncListed l)) (map Suc [0..<n])"
    by (simp add: is_sync_in_def)
  also have "map Suc [0..<n] = [1..<n + 1]" by (simp add: map_Suc_upt)
  finally show ?thesis using t le by (simp add: parse_stss_def read_simps)
qed

section \<open>Samples per chunk\<close>

definition stsc_pair :: "sample_to_chunk_run \<Rightarrow> u32 \<times> u32" where
  "stsc_pair r = (word_of_nat (sc_first_chunk r), word_of_nat (sc_samples_per_chunk r))"

lemma length_expand_chunks:
  "chunk_runs_ok lo (r # rs) n \<Longrightarrow> length (expand_chunks (r # rs) n) = n + 1 - sc_first_chunk r"
  by (induction rs arbitrary: lo r) auto

lemma expand_chunks_Cons:
  "chunk_runs_ok lo (r # rs) n \<Longrightarrow>
     expand_chunks (r # rs) n = sc_samples_per_chunk r # tl (expand_chunks (r # rs) n)"
  by (cases rs) (auto simp: Suc_diff_le not_le dest: less_imp_Suc_add)

lemma stsc_seek_here:
  "i + 1 < length entries \<Longrightarrow> c < unat (fst (entries ! (i + 1))) \<Longrightarrow> stsc_seek entries c i = i"
  by (simp add: stsc_seek.simps)

lemma stsc_seek_last: "length entries \<le> i + 1 \<Longrightarrow> stsc_seek entries c i = i"
  by (simp add: stsc_seek.simps)

lemma stsc_counts_expand:
  "\<lbrakk>chunk_runs_ok lo (r # rs) n; sc_first_chunk r \<le> c; n < 2 ^ 32;
    rs = [] \<or> c \<le> sc_first_chunk (hd rs); i = length done\<rbrakk> \<Longrightarrow>
   stsc_counts (map stsc_pair (done @ r # rs)) i [c..<n + 1]
     = map word_of_nat (drop (c - sc_first_chunk r) (expand_chunks (r # rs) n))"
proof (induction "n + 1 - c" arbitrary: c r rs "done" i lo)
  case 0
  then show ?case using length_expand_chunks [OF 0(2)] by simp
next
  case (Suc k)
  let ?E = "map stsc_pair (done @ r # rs)"
  have "c \<le> n" using Suc.hyps(2) by linarith
  then have c: "c < n + 1" "[c..<n + 1] = c # [c + 1..<n + 1]"
    by (simp_all add: upt_conv_Cons)
  have first: "unat (fst (stsc_pair r')) = sc_first_chunk r'" if "sc_first_chunk r' \<le> n" for r'
    using that Suc.prems(3) by (simp add: stsc_pair_def unat_word_of_nat_less)
  let ?X = "expand_chunks (r # rs) n" and ?k = "c - sc_first_chunk r"
  have "?k < length ?X" using length_expand_chunks [OF Suc.prems(1)] Suc.prems(2) c(1) by simp
  then have step: "drop ?k ?X = ?X ! ?k # drop (c + 1 - sc_first_chunk r) ?X"
    using Cons_nth_drop_Suc [of ?k ?X] Suc.prems(2) by (simp add: Suc_diff_le)
  show ?case
  proof (cases rs)
    case Nil
    then have "stsc_seek ?E c i = i" using Suc.prems(5) by (intro stsc_seek_last) simp
    moreover have "stsc_counts ?E i [c + 1..<n + 1]
        = map word_of_nat (drop (c + 1 - sc_first_chunk r) (expand_chunks (r # rs) n))"
      using Suc Nil by (intro Suc.hyps(1)) auto
    moreover have "?X ! ?k = sc_samples_per_chunk r"
      using Nil c(1) Suc.prems(2) by (simp add: nth_Cons')
    ultimately show ?thesis
      using c(2) Suc.prems(5) step by (simp add: stsc_pair_def nth_append del: upt_Suc)
  next
    case (Cons r' rs')
    then have ok': "chunk_runs_ok (sc_first_chunk r) (r' # rs') n" using Suc.prems(1) by simp
    have r': "sc_first_chunk r < sc_first_chunk r'" "sc_first_chunk r' \<le> n" using ok' by auto
    have nth: "?E ! (i + 1) = stsc_pair r'" "i + 1 < length ?E" "?E ! i = stsc_pair r"
      using Suc.prems(5) Cons by (simp_all add: nth_append)
    show ?thesis
    proof (cases "c < sc_first_chunk r'")
      case True
      with nth first [OF r'(2)] have "stsc_seek ?E c i = i" by (intro stsc_seek_here) simp_all
      moreover have "stsc_counts ?E i [c + 1..<n + 1]
          = map word_of_nat (drop (c + 1 - sc_first_chunk r) (expand_chunks (r # rs) n))"
        using Suc True Cons by (intro Suc.hyps(1)) auto
      moreover have "?X ! ?k = sc_samples_per_chunk r"
        using True Suc.prems(2) Cons diff_less_mono [OF True Suc.prems(2)] by (simp add: nth_append)
      ultimately show ?thesis
        using c(2) nth(3) step by (simp add: stsc_pair_def del: upt_Suc)
    next
      case False
      then have eq: "c = sc_first_chunk r'" using Suc.prems(4) Cons by simp
      have "stsc_seek ?E c i = stsc_seek ?E c (i + 1)"
        using nth first [OF r'(2)] eq by (subst stsc_seek.simps) simp
      also have "\<dots> = i + 1"
      proof (cases rs')
        case Nil
        then show ?thesis using Cons Suc.prems(5) by (intro stsc_seek_last) simp
      next
        case (Cons r2 rs2)
        then have "sc_first_chunk r' < sc_first_chunk r2" "sc_first_chunk r2 \<le> n" using ok' by auto
        moreover have "?E ! (i + 1 + 1) = stsc_pair r2" "i + 1 + 1 < length ?E"
          using \<open>rs = r' # rs'\<close> Cons Suc.prems(5) by (simp_all add: nth_append)
        ultimately show ?thesis using first [of r2] eq by (intro stsc_seek_here) simp_all
      qed
      finally have seek: "stsc_seek ?E c i = i + 1" .
      have "stsc_counts (map stsc_pair ((done @ [r]) @ r' # rs')) (i + 1) [c + 1..<n + 1]
          = map word_of_nat (drop (c + 1 - sc_first_chunk r') (expand_chunks (r' # rs') n))"
        using Suc.hyps(2) Suc.prems ok' eq Cons by (intro Suc.hyps(1) [OF _ ok']) (cases rs'; auto)+
      then have "stsc_counts ?E (i + 1) [c + 1..<n + 1] = map word_of_nat (tl (expand_chunks (r' # rs') n))"
        using eq Cons by (simp add: drop_Suc)
      moreover have "drop (c - sc_first_chunk r) (expand_chunks (r # rs) n) = expand_chunks (r' # rs') n"
        using eq Cons r'(1) by simp
      moreover have "map word_of_nat (expand_chunks (r' # rs') n)
          = word_of_nat (sc_samples_per_chunk r') # map (word_of_nat :: nat \<Rightarrow> u32) (tl (expand_chunks (r' # rs') n))"
        using expand_chunks_Cons [OF ok'] by (metis list.simps(9))
      ultimately show ?thesis using c(2) seek nth(1) by (simp add: stsc_pair_def del: upt_Suc)
    qed
  qed
qed


lemma parse_stsc_reads:
  assumes box: "holds buf b (h @ be32n (length runs) @ concat (map (\<lambda>r. be32n (sc_first_chunk r)
      @ be32n (sc_samples_per_chunk r) @ be32 1) runs))" "length h = 4"
    and ok: "chunk_runs_ok 0 runs n" "length (expand_chunks runs n) = n" "runs = [] \<longleftrightarrow> n = 0"
    and counts: "\<forall>r \<in> set runs. 0 < sc_samples_per_chunk r \<and> sc_samples_per_chunk r < 2 ^ 32"
    and n: "length runs \<le> n" "n \<le> max_parsed_samples"
  shows "parse_stsc buf b n = Inr (map word_of_nat (expand_chunks runs n))"
proof -
  let ?enc = "\<lambda>r. be32n (sc_first_chunk r) @ be32n (sc_samples_per_chunk r) @ be32 1"
  have small: "length runs < 2 ^ 32" "n < 2 ^ 32" using n max_parsed_small [of n] max_parsed_small [of "length runs"] by simp_all
  have "length (concat (map ?enc runs)) = length runs * 12" by (rule length_concat_stride) simp
  note t = counted_table [OF box small(1) this]
  have nz: "word_of_nat k \<noteq> (0 :: u32)" if "0 < k" "k < 2 ^ 32" for k
    using unat_word_of_nat_less [of k, where 'a = 32] that by auto
  have first: "0 < sc_first_chunk r \<and> sc_first_chunk r \<le> n" if "chunk_runs_ok lo rs n" "r \<in> set rs" for lo rs r
    using that by (induction rs arbitrary: lo) auto
  have "read_each (read_stsc_entry buf) 12 (length runs) (bi_payload_offset b + 8)
      = Inr (map stsc_pair runs)"
  proof (rule read_each_starts [OF t(2)])
    fix r pos
    assume r: "r \<in> set runs" and "starts buf pos (?enc r)"
    then have "starts buf pos (be32n (sc_first_chunk r))"
      "starts buf (pos + 4) (be32n (sc_samples_per_chunk r))"
      by (simp_all add: starts_append)
    then show "read_stsc_entry buf pos = Inr (stsc_pair r)"
      using nz [of "sc_first_chunk r"] nz [of "sc_samples_per_chunk r"] first [OF ok(1) r] counts r
        small(2) by (simp add: read_stsc_entry_def stsc_pair_def read_simps)
  qed simp
  then have read: "read_each (read_stsc_entry buf) 12 (length runs) (bi_payload_offset b + 8)
      = Inr (map stsc_pair runs)" .
  have vc: "validate_sample_count (length runs) = Inr ()" using n by (intro sample_count_ok) simp
  show ?thesis
  proof (cases runs)
    case Nil
    then show ?thesis using t read vc ok(3) by (simp add: parse_stsc_def read_simps)
  next
    case (Cons r rs)
    then have n0: "0 < n" using ok(3) by auto
    have "n + 1 - sc_first_chunk r = n" using ok(1,2) length_expand_chunks [of 0 r rs n] Cons by simp
    with n0 have r1: "sc_first_chunk r = 1" by arith
    have "stsc_counts (map stsc_pair ([] @ r # rs)) 0 [1..<n + 1]
        = map word_of_nat (drop (1 - sc_first_chunk r) (expand_chunks (r # rs) n))"
      using ok(1) Cons r1 small(2) by (intro stsc_counts_expand [where lo = 0]) (cases rs; auto)+
    then have "stsc_counts (map stsc_pair runs) 0 [1..<n + 1] = map word_of_nat (expand_chunks runs n)"
      using Cons r1 by simp
    moreover have "fst (hd (map stsc_pair runs)) = 1" using Cons r1 by (simp add: stsc_pair_def)
    moreover have "word_of_nat (length runs) \<noteq> (0 :: u32)" using Cons small(1) by (intro nz) auto
    ultimately show ?thesis
      using t read vc n0 Cons by (simp add: parse_stsc_def read_simps)
  qed
qed

section \<open>Records\<close>

text \<open>What a record says of the file: bytes, duration and sync flag.\<close>

definition record_view :: "bytes \<Rightarrow> sample_record \<Rightarrow> bytes \<times> nat \<times> bool" where
  "record_view f r = (slice (sr_offset r) (sr_offset r + unat (sr_size r)) f, unat (sr_duration r), sr_is_sync r)"

text \<open>The start times of samples with the given durations.\<close>

fun start_times :: "nat \<Rightarrow> nat list \<Rightarrow> nat list" where
  "start_times t [] = []"
| "start_times t (d # ds) = t # start_times (t + d) ds"

lemma length_start_times [simp]: "length (start_times t ds) = length ds"
  by (induction ds arbitrary: t) auto

lemma start_times_append:
  "start_times t (xs @ ys) = start_times t xs @ start_times (t + sum_list xs) ys"
  by (induction xs arbitrary: t) (auto simp: add.assoc)

definition table_rows :: "nat list \<Rightarrow> nat list \<Rightarrow> bool list \<Rightarrow> table_rows" where
  "table_rows ns ds ks = zip (map word_of_nat ns) (zip (map word_of_nat ds) ks)"

lemma chunk_records_reads:
  assumes "length ds = length ns" "length ks = length ns" "n \<le> length ns"
    and "\<forall>x \<in> set ns. x < 2 ^ 32" "\<forall>d \<in> set ds. d < 2 ^ 32"
    and "off + sum_list (take n ns) \<le> source_len" "source_len \<le> usize_max"
  shows "\<exists>rs. chunk_records source_len n off t (table_rows ns ds ks)
      = Inr (rs, t + sum_list (take n ds), table_rows (drop n ns) (drop n ds) (drop n ks))
    \<and> map (record_view f) rs = zip (cut_bytes f off (take n ns)) (zip (take n ds) (take n ks))
    \<and> map sr_start_ticks rs = start_times t (take n ds)"
  using assms
proof (induction n arbitrary: ns ds ks off t)
  case 0
  then show ?case by simp
next
  case (Suc n)
  then obtain x ns' d ds' k ks' where e: "ns = x # ns'" "ds = d # ds'" "ks = k # ks'"
    by (cases ns; cases ds; cases ks) auto
  have w: "unat (word_of_nat x :: u32) = x" "unat (word_of_nat d :: u32) = d"
    using Suc.prems(4,5) e by (simp_all add: unat_word_of_nat_less)
  from Suc.IH [of ds' ns' ks' "off + x" "t + d"] Suc.prems e
  obtain rs where "chunk_records source_len n (off + x) (t + d) (table_rows ns' ds' ks')
      = Inr (rs, t + d + sum_list (take n ds'), table_rows (drop n ns') (drop n ds') (drop n ks'))"
    "map (record_view f) rs = zip (cut_bytes f (off + x) (take n ns')) (zip (take n ds') (take n ks'))"
    "map sr_start_ticks rs = start_times (t + d) (take n ds')"
    by (auto simp: add.assoc)
  moreover have "record_view f \<lparr>sr_offset = off, sr_size = word_of_nat x, sr_duration = word_of_nat d,
      sr_is_sync = k, sr_start_ticks = t\<rparr> = (slice off (off + x) f, d, k)"
    using w by (simp add: record_view_def)
  ultimately show ?case
    using e w Suc.prems(6,7)
    by (simp add: table_rows_def checked_add_usize_def add.assoc)
qed

lemma zip_append_take:
  "length xs = n \<Longrightarrow> n \<le> length ys \<Longrightarrow> zip (xs @ xs') ys = zip xs (take n ys) @ zip xs' (drop n ys)"
  by (simp add: zip_append1)

lemma length_cut_bytes [simp]: "length (cut_bytes f pos ns) = length ns"
  by (induction ns arbitrary: pos) auto

lemma chunks_records_reads:
  assumes "length offs = length cs" "sum_list cs = length ns" "length ds = length ns" "length ks = length ns"
    and "\<forall>x \<in> set ns. x < 2 ^ 32" "\<forall>d \<in> set ds. d < 2 ^ 32" "\<forall>c \<in> set cs. c < 2 ^ 32"
    and "\<forall>off \<in> set offs. off < 2 ^ 64"
    and "located lo source_len offs cs ns" "source_len \<le> usize_max"
  shows "\<exists>rs. chunks_records source_len (zip (map word_of_nat offs) (map word_of_nat cs)) t (table_rows ns ds ks)
      = Inr rs \<and> map (record_view f) rs = zip (table_bytes f offs cs ns) (zip ds ks)
    \<and> map sr_start_ticks rs = start_times t ds"
  using assms
proof (induction offs arbitrary: cs ns ds ks t)
  case Nil
  then show ?case by simp
next
  case (Cons off offs)
  then obtain c cs' where cs: "cs = c # cs'" by (cases cs) auto
  have w: "unat (word_of_nat off :: u64) = off" "unat (word_of_nat c :: u32) = c"
    using Cons.prems(7,8) cs by (simp_all add: unat_word_of_nat_less)
  have c: "c \<le> length ns" "sum_list cs' = length ns - c" using Cons.prems(2) cs by simp_all
  obtain rs1 where r1: "chunk_records source_len c off t (table_rows ns ds ks)
      = Inr (rs1, t + sum_list (take c ds), table_rows (drop c ns) (drop c ds) (drop c ks))"
    "map (record_view f) rs1 = zip (cut_bytes f off (take c ns)) (zip (take c ds) (take c ks))"
    "map sr_start_ticks rs1 = start_times t (take c ds)"
    using chunk_records_reads [of ds ns ks c off source_len t f] Cons.prems cs c(1) by auto
  obtain rs2 where r2: "chunks_records source_len (zip (map word_of_nat offs) (map word_of_nat cs'))
      (t + sum_list (take c ds)) (table_rows (drop c ns) (drop c ds) (drop c ks)) = Inr rs2"
    "map (record_view f) rs2 = zip (table_bytes f offs cs' (drop c ns)) (zip (drop c ds) (drop c ks))"
    "map sr_start_ticks rs2 = start_times (t + sum_list (take c ds)) (drop c ds)"
    using Cons.IH [of cs' "drop c ns" "drop c ds" "drop c ks" "t + sum_list (take c ds)"] Cons.prems cs
      set_drop_subset [of c ns] set_drop_subset [of c ds] c(2) by (auto simp: subset_iff)
  have "zip (cut_bytes f off (take c ns) @ table_bytes f offs cs' (drop c ns)) (zip ds ks)
      = map (record_view f) (rs1 @ rs2)"
    using r1(2) r2(2) c(1) Cons.prems(3,4)
    by (subst zip_append_take [of _ c]) (simp_all add: take_zip drop_zip)
  moreover have "start_times t ds = map sr_start_ticks (rs1 @ rs2)"
    using start_times_append [of t "take c ds" "drop c ds"] r1(3) r2(3) by simp
  ultimately show ?case using r1(1) r2(1) w cs by simp
qed

end
