(* ===== verification/Mp4_Parse_Track.thy ===== *)
theory Mp4_Parse_Track
  imports Mp4_Parse_Tables
begin

text \<open>
  The boxes a track is written in read back (crates/clipline-mp4/src/trim.rs against init.rs and
  writer.rs): finding a child, the sample table box as a whole, and the fields of a track state
  that fit the widths of their tables.
\<close>

section \<open>Children\<close>

abbreviation holds_all :: "bytes \<Rightarrow> (bytes \<times> bytes) list \<Rightarrow> box_info list \<Rightarrow> bool" where
  "holds_all buf \<equiv> list_all2 (\<lambda>i c. bi_fourcc c = fst i \<and> holds buf c (snd i))"

lemma walk_from_holds:
  "boxes_of items bs \<Longrightarrow> starts buf pos (concat bs) \<Longrightarrow> length buf \<le> u64_max \<Longrightarrow>
   stop = pos + length (concat bs) \<Longrightarrow> holds_all buf items (walk_from buf stop pos)"
proof (induction items bs arbitrary: pos rule: list_all2_induct)
  case Nil
  then show ?case by (simp add: walk_from_end)
next
  case (Cons i items b bs)
  have at: "starts buf pos b" "starts buf (pos + length b) (concat bs)"
    using Cons.prems(1) by (simp_all add: starts_append)
  have buf: "buf = take pos buf @ b @ drop (pos + length b) buf" "length (take pos buf) = pos"
    using at(1) append_take_drop_id [of "length b" "drop pos buf"]
    by (auto simp: starts_iff add.commute)
  have "stop \<le> length buf" using Cons.prems by (simp add: starts_iff)
  with walk_step_mp4_box [OF conjunct1 [OF Cons.hyps(1)] conjunct2 [OF Cons.hyps(1)] buf(1) Cons.prems(2)]
  have step: "walk_step buf stop pos = Some (\<lparr>bi_fourcc = fst i, bi_offset = pos,
      bi_size = length b, bi_payload_offset = pos + 8\<rparr>, pos + length b)"
    using Cons.prems(3) buf(2) by simp
  obtain w where w: "b = be32 w @ fst i @ snd i" "length (fst i) = 4"
    using Cons.hyps(1) by (auto simp: mp4_box_Some_iff)
  then have "starts buf (pos + 8) (snd i)" using at(1) by (simp add: starts_append add.assoc)
  then have "holds buf \<lparr>bi_fourcc = fst i, bi_offset = pos, bi_size = length b, bi_payload_offset = pos + 8\<rparr> (snd i)"
    using w Cons.prems(2) by (simp add: holds_def)
  moreover have "holds_all buf items (walk_from buf stop (pos + length b))"
    using at(2) Cons.prems by (intro Cons.IH) auto
  ultimately show ?case by (simp add: walk_from.simps [of buf stop pos] step)
qed

lemma children_holds:
  assumes "holds buf parent (concat bs)" "boxes_of items bs"
  shows "holds_all buf items (children buf parent)"
proof -
  have "bi_offset parent + bi_size parent = bi_payload_offset parent + length (concat bs)"
    "bi_offset parent + bi_size parent \<le> length buf" "length buf \<le> u64_max"
    using assms(1) by (auto simp: holds_def starts_iff)
  then show ?thesis
    using walk_from_holds [OF assms(2) holds_starts [OF assms(1)], of "bi_offset parent + bi_size parent"]
    by (simp add: children_def checked_add_u64_def walk_range_def min_absorb1)
qed

lemma find_box_holds:
  assumes "holds_all buf items cs"
  shows "List.find (\<lambda>i. fst i = f) items = Some i \<Longrightarrow>
      \<exists>c. find_box cs f = Some c \<and> bi_fourcc c = f \<and> holds buf c (snd i)"
    and "List.find (\<lambda>i. fst i = f) items = None \<Longrightarrow> find_box cs f = None"
  using assms by (induction items cs rule: list_all2_induct) (auto simp: find_box_def split: if_splits)

lemma child_holds:
  assumes "holds buf parent (concat bs)" "boxes_of items bs"
  shows "List.find (\<lambda>i. fst i = f) items = Some i \<Longrightarrow>
      \<exists>c. child buf parent f = Some c \<and> bi_fourcc c = f \<and> holds buf c (snd i)"
    and "List.find (\<lambda>i. fst i = f) items = None \<Longrightarrow> child buf parent f = None"
  using find_box_holds [OF children_holds [OF assms]] by (auto simp: child_def)

lemma require_child_Some: "child buf parent f = Some c \<Longrightarrow> require_child buf parent f = Inr c"
  by (simp add: require_child_def)

section \<open>Widths\<close>

text \<open>What the parser's bounds need of a track state beyond \<open>track_ok\<close>.\<close>

definition table_ok :: "track_state \<Rightarrow> bool" where
  "table_ok st \<longleftrightarrow> (\<forall>x \<in> set (ks_sizes st). x < 2 ^ 32) \<and> (\<forall>d \<in> set (durations st). d < 2 ^ 32)
     \<and> (\<forall>l. ks_sync_samples st = SyncListed l \<longrightarrow> distinct l)
     \<and> (\<forall>r \<in> set (ks_stsc_runs st). 0 < sc_samples_per_chunk r \<and> sc_samples_per_chunk r < 2 ^ 32)"

lemma table_ok_new: "table_ok (track_state_new cfg)"
  by (simp add: table_ok_def track_state_new_def durations_def)

lemma record_sample_table_ok:
  assumes rec: "record_sample st s = Inr st'" and ok: "track_ok st" "table_ok st"
  shows "table_ok st'"
proof -
  have sync: "ks_sync_samples st' = push_sync (ks_sync_samples st) (ks_sample_count st + 1) (fi_is_sync s)"
    "ks_stsc_runs st' = ks_stsc_runs st"
    using rec by (auto simp: record_sample_def Let_def bind_out_Inr_iff checked_simps)
  have "distinct l" if "ks_sync_samples st' = SyncListed l" for l
    using that sync(1) ok
    by (auto simp: push_sync_def track_ok_def table_ok_def split: sync_sample_table.splits if_splits)
  with sync(2) record_sample_view [OF rec ok(1)] ok(2) show ?thesis by (simp add: table_ok_def)
qed

lemma record_samples_table_ok:
  "record_samples ss st = (st', Inr ()) \<Longrightarrow> track_ok st \<Longrightarrow> table_ok st \<Longrightarrow> table_ok st'"
proof (induction ss arbitrary: st)
  case (Cons s ss)
  then obtain st1 where st1: "record_sample st s = Inr st1" "record_samples ss st1 = (st', Inr ())"
    by (auto split: sum.splits)
  from record_sample_view [OF st1(1) Cons.prems(2)] record_sample_table_ok [OF st1(1) Cons.prems(2,3)]
    Cons.IH [OF st1(2)] show ?case by simp
qed simp

lemma record_chunk_table_ok:
  assumes rec: "record_chunk st off c = Inr st'" and ok: "track_ok st" "table_ok st"
  shows "table_ok st'"
proof -
  have "ks_sync_samples st' = ks_sync_samples st \<and> ks_sizes st' = ks_sizes st
    \<and> durations st' = durations st
    \<and> (\<forall>r \<in> set (ks_stsc_runs st'). r \<in> set (ks_stsc_runs st)
        \<or> (sc_samples_per_chunk r = c \<and> 0 < c \<and> c \<le> u32_max))"
    using rec by (auto simp: record_chunk_def bind_out_Inr_iff bind_eq_Some_conv checked_simps
        durations_def Let_def split: if_splits)
  with ok(2) show ?thesis by (fastforce simp: table_ok_def u32_max_def)
qed

lemma record_track_table_ok:
  assumes rec: "record_track st off ss = (st', Inr ())" and ok: "track_ok st" "decode_ok st" "table_ok st"
  shows "table_ok st'"
proof -
  obtain st1 st2 where st1: "record_run st (map (unat \<circ> fi_duration) ss) = Inr st1"
    and st2: "record_chunk st1 off (length ss) = Inr st2" and st3: "record_samples ss st2 = (st', Inr ())"
    using rec by (auto simp: record_track_def after_def split: sum.splits)
  obtain runs where "st1 = st\<lparr>ks_timeline_runs := runs\<rparr>"
    using record_run_view [OF st1 ok(2)] by blast
  then have ok1: "track_ok st1" "table_ok st1"
    using ok by (simp_all add: table_ok_def track_ok_def durations_def chunk_counts_def)
  show ?thesis
    using record_chunk_view [OF st2 ok1(1)] record_chunk_table_ok [OF st2 ok1]
      record_samples_table_ok [OF st3] by simp
qed

lemma advance_track_table_ok:
  assumes adv: "advance_track st t = Inr st'" and ok: "track_ok st" "table_ok st"
  shows "table_ok st'"
proof (cases "durations st' = durations st")
  case True
  have "ks_sync_samples st' = ks_sync_samples st \<and> ks_stsc_runs st' = ks_stsc_runs st \<and> ks_sizes st' = ks_sizes st"
    using adv unfolding advance_track_def absorb_subframe_video_gap_def Let_def
    by (auto simp: bind_out_Inr_iff checked_simps split: if_splits)
  with True ok(2) show ?thesis by (simp add: table_ok_def)
next
  case False
  let ?e = "dn_sample_delta (last (ks_duration_runs st)) + (t - ks_next_decode_time st)"
  have st': "ks_sync_samples st' = ks_sync_samples st \<and> ks_stsc_runs st' = ks_stsc_runs st
      \<and> ks_sizes st' = ks_sizes st \<and> ks_duration_runs st \<noteq> []
      \<and> ks_duration_runs st' = extend_last_sample (ks_duration_runs st) ?e \<and> ?e \<le> u32_max"
    using adv False unfolding advance_track_def absorb_subframe_video_gap_def Let_def
    by (auto simp: bind_out_Inr_iff checked_simps durations_def split: if_splits)
  have "\<forall>r \<in> set (ks_duration_runs st). 0 < dn_sample_count r" using ok(1) by (simp add: track_ok_def)
  with st' expand_extend_last [of "ks_duration_runs st" ?e]
  have "durations st' = butlast (durations st) @ [?e]" by (simp add: durations_def)
  with st' ok(2) show ?thesis
    by (auto simp: table_ok_def u32_max_def dest: in_set_butlastD)
qed

section \<open>The sample table box\<close>

definition full_header :: "u8 \<Rightarrow> u32 \<Rightarrow> bytes" where
  "full_header v flags = v # slice 1 4 (be32 flags)"

lemma length_full_header [simp]: "length (full_header v flags) = 4"
  by (simp add: full_header_def)

lemma full_box_mp4: "full_box f v flags p = mp4_box f (full_header v flags @ p)"
  by (simp add: full_box_def full_header_def)

text \<open>The fourcc and payload of the boxes in a sample table tail.\<close>

definition table_items :: "track_state \<Rightarrow> (bytes \<times> bytes) list" where
  "table_items st =
     [(ascii ''stts'', full_header 0 0 @ be32n (length (ks_duration_runs st))
        @ concat (map (\<lambda>r. be32n (dn_sample_count r) @ be32n (dn_sample_delta r)) (ks_duration_runs st)))]
     @ (case ks_sync_samples st of SyncAll \<Rightarrow> []
        | SyncListed l \<Rightarrow> [(ascii ''stss'', full_header 0 0 @ be32n (length l) @ concat (map be32n l))])
     @ [(ascii ''stsc'', full_header 0 0 @ be32n (length (ks_stsc_runs st))
          @ concat (map (\<lambda>r. be32n (sc_first_chunk r) @ be32n (sc_samples_per_chunk r) @ be32 1) (ks_stsc_runs st))),
        (ascii ''stsz'', full_header 0 0 @ be32 0 @ be32n (ks_sample_count st) @ concat (map be32n (ks_sizes st))),
        (ascii ''co64'', full_header 0 0 @ be32n (length (ks_chunk_offsets st)) @ concat (map be64n (ks_chunk_offsets st)))]"

lemma sample_tables_items:
  assumes "sample_tables st = Some tail"
  obtains bs where "tail = concat bs" "boxes_of (table_items st) bs"
proof -
  from assms obtain a b c d e where t: "stts st = Some a" "stss st = Some b" "stsc st = Some c"
    "stsz st = Some d" "co64 st = Some e" "tail = a @ b @ c @ d @ e"
    by (auto simp: sample_tables_def bind_eq_Some_conv)
  show thesis
  proof (cases "ks_sync_samples st")
    case SyncAll
    with t show thesis
      by (intro that [of "[a, c, d, e]"])
        (auto simp: table_items_def stts_def stss_def stsc_def stsz_def co64_def full_box_mp4)
  next
    case (SyncListed l)
    with t show thesis
      by (intro that [of "[a, b, c, d, e]"])
        (auto simp: table_items_def stts_def stss_def stsc_def stsz_def co64_def full_box_mp4)
  qed
qed

lemma find_tables:
  "List.find (\<lambda>i. fst i = ascii ''stts'') (table_items st) = Some (ascii ''stts'', full_header 0 0
     @ be32n (length (ks_duration_runs st))
     @ concat (map (\<lambda>r. be32n (dn_sample_count r) @ be32n (dn_sample_delta r)) (ks_duration_runs st)))"
  "List.find (\<lambda>i. fst i = ascii ''stss'') (table_items st) = (case ks_sync_samples st of SyncAll \<Rightarrow> None
     | SyncListed l \<Rightarrow> Some (ascii ''stss'', full_header 0 0 @ be32n (length l) @ concat (map be32n l)))"
  "List.find (\<lambda>i. fst i = ascii ''stsc'') (table_items st) = Some (ascii ''stsc'', full_header 0 0
     @ be32n (length (ks_stsc_runs st))
     @ concat (map (\<lambda>r. be32n (sc_first_chunk r) @ be32n (sc_samples_per_chunk r) @ be32 1) (ks_stsc_runs st)))"
  "List.find (\<lambda>i. fst i = ascii ''stsz'') (table_items st) = Some (ascii ''stsz'', full_header 0 0
     @ be32 0 @ be32n (ks_sample_count st) @ concat (map be32n (ks_sizes st)))"
  "List.find (\<lambda>i. fst i = ascii ''co64'') (table_items st) = Some (ascii ''co64'', full_header 0 0
     @ be32n (length (ks_chunk_offsets st)) @ concat (map be64n (ks_chunk_offsets st)))"
  by (cases "ks_sync_samples st"; simp add: table_items_def)+

lemma chunk_runs_length: "chunk_runs_ok lo rs n \<Longrightarrow> lo \<le> n \<Longrightarrow> length rs \<le> n - lo"
  by (induction lo rs n rule: chunk_runs_ok.induct) auto

lemma expand_chunks_in: "c \<in> set (expand_chunks rs n) \<Longrightarrow> \<exists>r \<in> set rs. c = sc_samples_per_chunk r"
  by (induction rs n rule: expand_chunks.induct) auto

lemma chunk_counts_bounds: "table_ok st \<Longrightarrow> c \<in> set (chunk_counts st) \<Longrightarrow> 0 < c \<and> c < 2 ^ 32"
  unfolding chunk_counts_def table_ok_def using expand_chunks_in by blast

lemma length_le_sum_list: "\<forall>c \<in> set cs. 0 < c \<Longrightarrow> length cs \<le> sum_list (cs :: nat list)"
  by (induction cs) (auto simp: Suc_le_eq)

lemma located_offset: "located lo hi offs cs ns \<Longrightarrow> length offs = length cs \<Longrightarrow> off \<in> set offs \<Longrightarrow> off \<le> hi"
  by (induction lo hi offs cs ns rule: located.induct) auto

lemma stream_lengths:
  assumes "stream_ok lo hi st"
  shows "length (ks_sizes st) = ks_sample_count st" "length (durations st) = ks_sample_count st"
    "length (sync_flags st) = ks_sample_count st" "length (chunk_counts st) = length (ks_chunk_offsets st)"
    "sum_list (chunk_counts st) = ks_sample_count st"
  using assms by (simp_all add: stream_ok_def track_ok_def sync_flags_length)

lemma stream_chunks:
  assumes "stream_ok lo hi st" "table_ok st"
  shows "length (ks_chunk_offsets st) \<le> ks_sample_count st"
  using stream_lengths [OF assms(1)] length_le_sum_list [of "chunk_counts st"]
    chunk_counts_bounds [OF assms(2)] by simp

text \<open>The records of \<open>records_from_tables\<close>, with every table read from one track state.\<close>

definition table_records :: "nat \<Rightarrow> track_state \<Rightarrow> sample_record list parsed" where
  "table_records source_len st = records_from_tables source_len (map word_of_nat (ks_sizes st))
     (map word_of_nat (durations st)) (sync_flags st) (map word_of_nat (ks_chunk_offsets st))
     (map word_of_nat (chunk_counts st))"

lemma table_records_view:
  assumes ok: "stream_ok lo source_len st" "table_ok st" and fit: "source_len \<le> u64_max"
  shows "\<exists>rs. table_records source_len st = Inr rs
    \<and> map (record_view f) rs = track_view f st \<and> map sr_start_ticks rs = start_times 0 (durations st)"
proof -
  note len = stream_lengths [OF ok(1)]
  have loc: "located lo source_len (ks_chunk_offsets st) (chunk_counts st) (ks_sizes st)"
    using ok(1) by (simp add: stream_ok_def)
  have counts: "\<forall>c \<in> set (chunk_counts st). c < 2 ^ 32" using chunk_counts_bounds [OF ok(2)] by simp
  have "\<forall>off \<in> set (ks_chunk_offsets st). off < 2 ^ 64"
    using located_offset [OF loc] len(4) fit by (force simp: u64_max_def)
  then have "\<exists>rs. chunks_records source_len (zip (map word_of_nat (ks_chunk_offsets st))
      (map word_of_nat (chunk_counts st))) 0 (table_rows (ks_sizes st) (durations st) (sync_flags st)) = Inr rs
    \<and> map (record_view f) rs = track_view f st \<and> map sr_start_ticks rs = start_times 0 (durations st)"
    unfolding track_view_def using len ok(2) counts loc fit
    by (intro chunks_records_reads [where lo = lo]) (simp_all add: table_ok_def usize_max_def u64_max_def)
  moreover have "sum_list (map unat (map (word_of_nat :: nat \<Rightarrow> u32) (chunk_counts st))) = ks_sample_count st"
    using counts len(5) by (simp add: comp_def unat_word_of_nat_less cong: map_cong)
  ultimately show ?thesis using len
    by (simp add: table_records_def records_from_tables_def table_rows_def)
qed

lemma parse_sync_reads:
  assumes boxes: "holds buf stbl (concat bs)" "boxes_of ((ascii ''stsd'', p) # table_items st) bs"
    and ok: "track_ok st" "table_ok st" and fit: "ks_sample_count st \<le> max_parsed_samples"
  shows "(case child buf stbl (ascii ''stss'') of
      Some stss_box \<Rightarrow> parse_stss buf stss_box (ks_sample_count st)
    | None \<Rightarrow> Inr (replicate (ks_sample_count st) True)) = Inr (sync_flags st)"
proof (cases "ks_sync_samples st")
  case SyncAll
  have "is_sync_in SyncAll = (\<lambda>_. True)" by (simp add: is_sync_in_def fun_eq_iff)
  moreover have "child buf stbl (ascii ''stss'') = None"
    using child_holds(2) [OF boxes, of "ascii ''stss''"] SyncAll by (simp add: find_tables)
  ultimately show ?thesis
    using SyncAll by (simp add: sync_flags_def map_replicate_const del: upt_Suc)
next
  case (SyncListed l)
  with child_holds(1) [OF boxes, of "ascii ''stss''"] obtain stss_box where
    "child buf stbl (ascii ''stss'') = Some stss_box"
    "holds buf stss_box (full_header 0 0 @ be32n (length l) @ concat (map be32n l))"
    by (fastforce simp: find_tables)
  moreover have "set l \<subseteq> {1..ks_sample_count st}" "distinct l"
    using SyncListed ok by (simp_all add: track_ok_def table_ok_def)
  ultimately show ?thesis
    using parse_stss_reads [of buf stss_box "full_header 0 0" l "ks_sample_count st"] SyncListed fit
    by (simp add: sync_flags_def)
qed

text \<open>The counted tables of a track state, each with the box it is in.\<close>

lemma parse_tables_read:
  assumes boxes: "holds buf stbl (concat bs)" "boxes_of ((ascii ''stsd'', p) # table_items st) bs"
    and ok: "stream_ok lo hi st" "table_ok st" and fit: "ks_sample_count st \<le> max_parsed_samples"
  obtains stsz_box stts_box stsc_box co64_box where
    "child buf stbl (ascii ''stsz'') = Some stsz_box" "child buf stbl (ascii ''stts'') = Some stts_box"
    "child buf stbl (ascii ''stsc'') = Some stsc_box" "child buf stbl (ascii ''co64'') = Some co64_box"
    "parse_stsz buf stsz_box = Inr (map word_of_nat (ks_sizes st))"
    "parse_stts buf stts_box (ks_sample_count st) = Inr (map word_of_nat (durations st))"
    "parse_co64 buf co64_box = Inr (map word_of_nat (ks_chunk_offsets st))"
    "parse_stsc buf stsc_box (length (ks_chunk_offsets st)) = Inr (map word_of_nat (chunk_counts st))"
proof -
  note find = child_holds(1) [OF boxes]
  note len = stream_lengths [OF ok(1)]
  have tk: "track_ok st" using ok(1) by (simp add: stream_ok_def)
  have chunks: "length (ks_chunk_offsets st) \<le> max_parsed_samples"
    using stream_chunks [OF ok] fit by simp
  obtain stsz_box stts_box stsc_box co64_box where child:
    "child buf stbl (ascii ''stsz'') = Some stsz_box" "child buf stbl (ascii ''stts'') = Some stts_box"
    "child buf stbl (ascii ''stsc'') = Some stsc_box" "child buf stbl (ascii ''co64'') = Some co64_box"
    and at: "holds buf stsz_box (full_header 0 0 @ be32 0 @ be32n (ks_sample_count st)
        @ concat (map be32n (ks_sizes st)))"
      "holds buf stts_box (full_header 0 0 @ be32n (length (ks_duration_runs st))
        @ concat (map (\<lambda>r. be32n (dn_sample_count r) @ be32n (dn_sample_delta r)) (ks_duration_runs st)))"
      "holds buf stsc_box (full_header 0 0 @ be32n (length (ks_stsc_runs st)) @ concat (map (\<lambda>r.
        be32n (sc_first_chunk r) @ be32n (sc_samples_per_chunk r) @ be32 1) (ks_stsc_runs st)))"
      "holds buf co64_box (full_header 0 0 @ be32n (length (ks_chunk_offsets st))
        @ concat (map be64n (ks_chunk_offsets st)))"
    using find [of "ascii ''stsz''"] find [of "ascii ''stts''"] find [of "ascii ''stsc''"]
      find [of "ascii ''co64''"] by (fastforce simp: find_tables)
  have sizes: "parse_stsz buf stsz_box = Inr (map word_of_nat (ks_sizes st))"
    using at(1) fit len(1) by (intro parse_stsz_reads [of _ _ "full_header 0 0"]) simp_all
  have pos: "\<forall>r \<in> set (ks_duration_runs st). 0 < dn_sample_count r" using tk by (simp add: track_ok_def)
  have durs: "parse_stts buf stts_box (ks_sample_count st) = Inr (map word_of_nat (durations st))"
    using parse_stts_reads [OF at(2) _ _ pos] fit len(2) by (simp add: durations_def)
  have offs: "parse_co64 buf co64_box = Inr (map word_of_nat (ks_chunk_offsets st))"
    using at(4) chunks by (intro parse_co64_reads [of _ _ "full_header 0 0"]) simp_all
  have runs: "chunk_runs_ok 0 (ks_stsc_runs st) (length (ks_chunk_offsets st))"
    "ks_stsc_runs st = [] \<longleftrightarrow> length (ks_chunk_offsets st) = 0"
    using tk by (simp_all add: track_ok_def)
  have "parse_stsc buf stsc_box (length (ks_chunk_offsets st)) = Inr (map word_of_nat (chunk_counts st))"
    using parse_stsc_reads [OF at(3) _ runs(1) _ runs(2)] ok(2) len(4) chunks chunk_runs_length [OF runs(1)]
    by (simp add: chunk_counts_def table_ok_def)
  with child sizes durs offs show thesis by (rule that)
qed

lemma parse_sample_table_reads:
  assumes tail: "sample_tables st = Some tail"
    and box: "holds buf stbl (sd @ tail)" "mp4_box (ascii ''stsd'') p = Some sd"
    and ok: "stream_ok lo hi st" "table_ok st" and fit: "ks_sample_count st \<le> max_parsed_samples"
  shows "parse_sample_table buf stbl source_len = table_records source_len st"
proof -
  obtain bs where bs: "tail = concat bs" "boxes_of (table_items st) bs"
    by (rule sample_tables_items [OF tail])
  have boxes: "holds buf stbl (concat (sd # bs))"
    "boxes_of ((ascii ''stsd'', p) # table_items st) (sd # bs)"
    using bs box by simp_all
  have tk: "track_ok st" using ok(1) by (simp add: stream_ok_def)
  show ?thesis
    by (rule parse_tables_read [OF boxes ok fit])
      (use parse_sync_reads [OF boxes tk ok(2) fit] stream_lengths [OF ok(1)] in
        \<open>simp add: parse_sample_table_def table_records_def require_child_Some cong: option.case_cong\<close>)
qed

end
