(* ===== verification/Mp4_Parse_Config.thy ===== *)
theory Mp4_Parse_Config
  imports Mp4_Parse_Track
begin

text \<open>
  The track configuration reads back: the sample descriptions and codec configuration boxes that
  init.rs writes, through the parser of crates/clipline-mp4/src/trim.rs.
\<close>

section \<open>A box at a position\<close>

lemma starts_drop: "starts buf pos bs \<Longrightarrow> k \<le> length bs \<Longrightarrow> starts buf (pos + k) (drop k bs)"
  using starts_append [of buf pos "take k bs" "drop k bs"] by simp

lemma read_box_at_starts:
  assumes box: "mp4_box f p = Some b" "length f = 4" and at: "starts buf pos b"
    and fit: "pos + length b \<le> limit" "limit \<le> length buf" "length buf \<le> u64_max"
  obtains bi where "read_box_at buf pos limit = Inr bi" "bi_fourcc bi = f" "holds buf bi p"
    "bi_payload_offset bi = pos + 8" "box_end bi = Inr (pos + length b)"
proof -
  obtain w where w: "unat w = length p + 8" "b = be32 w @ f @ p"
    using box by (auto simp: mp4_box_Some_iff)
  let ?bi = "\<lparr>bi_fourcc = f, bi_offset = pos, bi_size = length b, bi_payload_offset = pos + 8\<rparr>"
  have at': "starts buf pos (be32 w)" "starts buf (pos + 4) f" "starts buf (pos + 8) p"
    using at w(2) box(2) by (simp_all add: starts_append add.assoc)
  have "read_fourcc buf (pos + 4) = Inr f"
    using at'(2) box(2) by (simp add: read_fourcc_def starts_def add.assoc)
  then have "read_box_at buf pos limit = Inr ?bi"
    using at'(1) w fit box(2)
    by (simp add: read_box_at_def read_simps uses_large_size_def decode_box_header_def checked_add_u64_def)
  moreover have hb: "holds buf ?bi p" using at'(3) w box(2) fit(3) by (simp add: holds_def)
  moreover have "box_end ?bi = Inr (pos + length b)" using holds_end [OF hb] w box(2) by simp
  ultimately show thesis by (intro that) simp_all
qed

lemma find_config_starts:
  assumes box: "mp4_box (ascii n) p = Some b" "length n = 4" and at: "starts buf pos b"
    and fit: "pos + length b \<le> limit" "limit \<le> length buf" "length buf \<le> u64_max"
  obtains bi where "find_config buf pos limit n = Inr bi" "holds buf bi p"
proof -
  obtain bi where bi: "read_box_at buf pos limit = Inr bi" "bi_fourcc bi = ascii n" "holds buf bi p"
    "box_end bi = Inr (pos + length b)"
    using read_box_at_starts [OF box(1) _ at fit] box(2) by auto
  have "8 \<le> length b" using box by (auto simp: mp4_box_Some_iff)
  then have "find_box_between buf pos limit (ascii n) = Inr (Some bi)"
    using fit(1) bi by (simp add: find_box_between.simps [of buf pos])
  with bi(3) show thesis by (intro that) (simp_all add: find_config_def)
qed

section \<open>Parameter sets\<close>

lemma read_nals_starts:
  "starts buf pos (concat (map sized_nal nals)) \<Longrightarrow> list_all (\<lambda>n. length n < 2 ^ 16) nals \<Longrightarrow>
   pos + length (concat (map sized_nal nals)) \<le> stop \<Longrightarrow> length buf \<le> u64_max \<Longrightarrow>
   read_nals buf stop (length nals) pos = Inr (nals, pos + length (concat (map sized_nal nals)))"
proof (induction nals arbitrary: pos)
  case (Cons n nals)
  have w: "unat (word_of_nat (length n) :: u16) = length n"
    using Cons.prems(2) by (simp add: unat_word_of_nat_less)
  have at: "starts buf pos (be16 (word_of_nat (length n)))" "starts buf (pos + 2) n"
    "starts buf (pos + 2 + length n) (concat (map sized_nal nals))"
    using Cons.prems(1) by (simp_all add: sized_nal_def [of n] starts_append add.assoc)
  have "read_slice buf (pos + 2) (length n) stop = Inr n"
    using at(2) Cons.prems(3,4) by (intro read_slice_starts) (simp_all add: sized_nal_def [of n])
  moreover have "read_nals buf stop (length nals) (pos + 2 + length n)
      = Inr (nals, pos + 2 + length n + length (concat (map sized_nal nals)))"
    using at(3) Cons.prems by (intro Cons.IH) (simp_all add: sized_nal_def [of n])
  ultimately show ?case
    using at(1) w Cons.prems(3,4)
    by (simp add: read_simps sized_nal_def [of n] add.assoc)
qed simp

lemma parse_avcc_reads:
  assumes box: "holds buf b (avcc_payload sps pps primary)"
    and fit: "sps \<noteq> []" "pps \<noteq> []" "length sps \<le> 31" "length pps \<le> 255"
      "list_all (\<lambda>n. length n < 2 ^ 16) sps" "list_all (\<lambda>n. length n < 2 ^ 16) pps"
  shows "parse_avcc buf b = Inr (sps, pps)"
proof -
  let ?p = "bi_payload_offset b" and ?S = "concat (map sized_nal sps)" and ?P = "concat (map sized_nal pps)"
  let ?stop = "?p + 6 + length ?S + 1 + length ?P"
  have b5: "get_at buf (?p + 5) = Some (0xE0 OR word_of_nat (length sps))"
    using starts_drop [OF holds_starts [OF box], of 5] by (simp add: avcc_payload_def starts_Cons)
  have "starts buf (?p + 6) (?S @ word_of_nat (length pps) # ?P)"
    using starts_drop [OF holds_starts [OF box], of 6] by (simp add: avcc_payload_def)
  then have at: "starts buf (?p + 6) ?S" "get_at buf (?p + 6 + length ?S) = Some (word_of_nat (length pps))"
    "starts buf (?p + 6 + length ?S + 1) ?P"
    by (simp_all only: starts_append starts_Cons)
  have stop: "box_end b = Inr ?stop" using holds_end [OF box] by (simp add: avcc_payload_def)
  have small: "length buf \<le> u64_max" using holds_small [OF box] by simp
  have "list_all (\<lambda>n. unat ((0xE0 OR word_of_nat n :: u8) AND 0x1f) = n) [0..<32]" by code_simp
  then have n: "unat ((0xE0 OR word_of_nat (length sps) :: u8) AND 0x1f) = length sps"
    using fit(3) by (simp add: list_all_iff)
  have m: "unat (word_of_nat (length pps) :: u8) = length pps"
    using fit(4) by (simp add: unat_word_of_nat_less)
  then have m0: "word_of_nat (length pps) \<noteq> (0 :: u8)" using fit(2) by auto
  have "read_nals buf ?stop (length sps) (?p + 6) = Inr (sps, ?p + 6 + length ?S)"
    using at(1) fit(5) small by (intro read_nals_starts) simp_all
  moreover have "read_nals buf ?stop (length pps) (?p + 6 + length ?S + 1) = Inr (pps, ?stop)"
    using at(3) fit(6) small by (intro read_nals_starts) simp_all
  ultimately show ?thesis
    using at(2) b5 stop n m m0 fit(1) by (simp add: parse_avcc_def)
qed

lemma read_arrays_starts:
  assumes at: "starts buf pos (nal_array ty nals)" and fit: "nals_fit nals"
    and stop: "pos + length (nal_array ty nals) \<le> stop" and small: "length buf \<le> u64_max"
  shows "read_arrays buf stop (Suc n) pos sets
    = read_arrays buf stop n (pos + length (nal_array ty nals)) (push_array ((0x80 OR ty) AND 0x3F) nals sets)"
proof -
  let ?N = "concat (map sized_nal nals)"
  have at': "get_at buf pos = Some (0x80 OR ty)" "starts buf (pos + 1) (be16 (word_of_nat (length nals)))"
    "starts buf (pos + 3) ?N"
    using at starts_drop [OF at, of 3] by (simp_all add: nal_array_def starts_append starts_Cons)
  have len: "length (nal_array ty nals) = 3 + length ?N" by (simp add: nal_array_def)
  have w: "unat (word_of_nat (length nals) :: u16) = length nals"
    using fit by (simp add: unat_word_of_nat_less)
  have "read_nals buf stop (length nals) (pos + 3) = Inr (nals, pos + 3 + length ?N)"
    using at'(3) fit stop len small by (intro read_nals_starts) simp_all
  then show ?thesis
    using at'(1,2) w stop len small by (simp add: read_simps add.assoc)
qed

lemma parse_hvcc_reads:
  assumes box: "holds buf b (hvcc_payload info vps sps pps)"
    and ne: "vps \<noteq> []" "sps \<noteq> []" "pps \<noteq> []" and fit: "nals_fit vps" "nals_fit sps" "nals_fit pps"
  shows "parse_hvcc buf b = Inr (vps, sps, pps)"
proof -
  let ?p = "bi_payload_offset b"
  let ?V = "nal_array 32 vps" and ?S = "nal_array 33 sps" and ?P = "nal_array 34 pps"
  let ?stop = "?p + 23 + length ?V + length ?S + length ?P"
  have b22: "get_at buf (?p + 22) = Some 3"
    using starts_drop [OF holds_starts [OF box], of 22] by (simp add: hvcc_payload_def starts_Cons)
  have "starts buf (?p + 23) (?V @ ?S @ ?P)"
    using starts_drop [OF holds_starts [OF box], of 23] by (simp add: hvcc_payload_def)
  then have at: "starts buf (?p + 23) ?V" "starts buf (?p + 23 + length ?V) ?S"
    "starts buf (?p + 23 + length ?V + length ?S) ?P"
    by (simp_all only: starts_append)
  have stop: "box_end b = Inr ?stop" using holds_end [OF box] by (simp add: hvcc_payload_def)
  have small: "length buf \<le> u64_max" using holds_small [OF box] by simp
  have types: "(0x80 OR 32 :: u8) AND 0x3F = 32" "(0x80 OR 33 :: u8) AND 0x3F = 33"
    "(0x80 OR 34 :: u8) AND 0x3F = 34" by simp_all
  have "read_arrays buf ?stop (Suc (Suc (Suc 0))) (?p + 23) ([], [], []) = Inr (vps, sps, pps)"
    using read_arrays_starts [OF at(1) fit(1), of ?stop] read_arrays_starts [OF at(2) fit(2), of ?stop]
      read_arrays_starts [OF at(3) fit(3), of ?stop] small
    by (simp only: types) (simp add: push_array_def)
  then have "read_arrays buf ?stop 3 (?p + 23) ([], [], []) = Inr (vps, sps, pps)"
    by (simp only: numeral_3_eq_3)
  with b22 stop ne show ?thesis by (simp add: parse_hvcc_def)
qed

lemma parse_av1c_reads:
  assumes box: "holds buf b ([a, c, d, e] @ obu)" and ne: "obu \<noteq> []"
  shows "parse_av1c buf b = Inr obu"
proof -
  let ?p = "bi_payload_offset b"
  have at: "starts buf (?p + 4) obu" using starts_drop [OF holds_starts [OF box], of 4] by simp
  have stop: "box_end b = Inr (?p + 4 + length obu)" using holds_end [OF box] by simp
  have "read_slice buf (?p + 4) (length obu) (?p + 4 + length obu) = Inr obu"
    using at holds_small [OF box] by (intro read_slice_starts) simp_all
  with stop ne show ?thesis by (simp add: parse_av1c_def)
qed


section \<open>Sample entries\<close>

abbreviation valid_config :: "track_config \<Rightarrow> bool" where
  "valid_config cfg \<equiv> validate_track_config cfg = Inr ()"

lemma validate_parameter_sets_Inr:
  "validate_parameter_sets ns k = Inr () \<longleftrightarrow>
     ns \<noteq> [] \<and> length ns \<le> k \<and> list_all (\<lambda>n. n \<noteq> [] \<and> length n < 2 ^ 16) ns"
proof -
  have "u16_max < n \<longleftrightarrow> \<not> n < 2 ^ 16" for n by (auto simp: u16_max_def)
  then show ?thesis by (auto simp: validate_parameter_sets_def list_all_iff list_ex_iff)
qed

definition visual_header :: "u16 \<Rightarrow> u16 \<Rightarrow> bytes" where
  "visual_header width height = replicate 6 0 @ be16 1 @ be16 0 @ be16 0 @ be32 0 @ be32 0 @ be32 0
     @ be16 width @ be16 height @ be32 0x00480000 @ be32 0x00480000 @ be32 0 @ be16 1
     @ replicate 32 0 @ be16 0x0018 @ be16 0xFFFF"

lemma length_visual_header [simp]: "length (visual_header width height) = 78"
  by (simp add: visual_header_def)

lemma visual_sample_entry_box:
  assumes "visual_sample_entry fourcc width height b = Some e"
  obtains colr where "mp4_box fourcc (visual_header width height @ b @ colr) = Some e"
  using assms by (auto simp: visual_sample_entry_def visual_header_def bind_eq_Some_conv)

lemma visual_header_reads:
  assumes "holds buf e (visual_header width height @ rest)"
  shows "read_u16 buf (bi_payload_offset e + 24) = Inr width"
    and "read_u16 buf (bi_payload_offset e + 26) = Inr height"
    and "starts buf (bi_payload_offset e + 78) rest"
    and "box_end e = Inr (bi_payload_offset e + 78 + length rest)"
proof -
  note at = starts_drop [OF holds_starts [OF assms]]
  show "read_u16 buf (bi_payload_offset e + 24) = Inr width"
    using at [of 24] by (simp add: visual_header_def starts_append read_simps)
  show "read_u16 buf (bi_payload_offset e + 26) = Inr height"
    using at [of 26] by (simp add: visual_header_def starts_append read_simps)
  show "starts buf (bi_payload_offset e + 78) rest" using at [of 78] by simp
  show "box_end e = Inr (bi_payload_offset e + 78 + length rest)"
    using holds_end [OF assms] by simp
qed

lemma parse_video_stsd_reads:
  assumes codec: "codec_box (vt_codec cfg) = Some (fourcc, b)" and valid: "valid_config (Video cfg)"
    and e: "holds buf e (visual_header (vt_width cfg) (vt_height cfg) @ b @ colr)" "bi_fourcc e = fourcc"
  shows "parse_video_stsd buf e (vt_timescale cfg) = Inr (Video cfg)"
proof -
  let ?p = "bi_payload_offset e"
  note at = visual_header_reads [OF e(1)]
  have b: "starts buf (?p + 78) b" using at(3) by (simp add: starts_append)
  have fit: "?p + 78 + length b \<le> ?p + 78 + length (b @ colr)"
    "?p + 78 + length (b @ colr) \<le> length buf" "length buf \<le> u64_max"
    using holds_small [OF e(1)] by simp_all
  have cfg: "\<lparr>vt_width = vt_width cfg, vt_height = vt_height cfg, vt_timescale = vt_timescale cfg,
      vt_codec = vt_codec cfg\<rparr> = cfg" by simp
  show ?thesis
  proof (cases "vt_codec cfg")
    case (H264 sps pps)
    with codec obtain p where box: "mp4_box (ascii ''avcC'') (avcc_payload sps pps p) = Some b"
      and f: "fourcc = ascii ''avc1''"
      by (auto simp: codec_box_def avcc_def bind_eq_Some_conv)
    obtain bi where bi: "find_config buf (?p + 78) (?p + 78 + length (b @ colr)) ''avcC'' = Inr bi"
      "holds buf bi (avcc_payload sps pps p)"
      using find_config_starts [OF box _ b fit] by auto
    have "parse_avcc buf bi = Inr (sps, pps)"
      using valid H264 by (intro parse_avcc_reads [OF bi(2)])
        (auto simp: validate_track_config_def bind_out_Inr_iff validate_parameter_sets_Inr list_all_iff
          split: if_splits)
    then show ?thesis
      using at bi(1) H264 e(2) f cfg by (simp add: parse_video_stsd_def)
  next
    case (Hevc vps sps pps)
    with codec obtain info where box: "mp4_box (ascii ''hvcC'') (hvcc_payload info vps sps pps) = Some b"
      and f: "fourcc = ascii ''hvc1''"
      by (auto simp: codec_box_def hvcc_def bind_eq_Some_conv Let_def)
    obtain bi where bi: "find_config buf (?p + 78) (?p + 78 + length (b @ colr)) ''hvcC'' = Inr bi"
      "holds buf bi (hvcc_payload info vps sps pps)"
      using find_config_starts [OF box _ b fit] by auto
    have "parse_hvcc buf bi = Inr (vps, sps, pps)"
      using valid Hevc by (intro parse_hvcc_reads [OF bi(2)])
        (auto simp: validate_track_config_def bind_out_Inr_iff validate_parameter_sets_Inr list_all_iff
          u16_max_def split: if_splits)
    then show ?thesis
      using at bi(1) Hevc e(2) f cfg by (simp add: parse_video_stsd_def)
  next
    case (Av1 obu)
    with codec obtain x y where box: "mp4_box (ascii ''av1C'') ([0x81, x, y, 0] @ obu) = Some b"
      and f: "fourcc = ascii ''av01''"
      by (auto simp: codec_box_def av1c_def Let_def)
    obtain bi where bi: "find_config buf (?p + 78) (?p + 78 + length (b @ colr)) ''av1C'' = Inr bi"
      "holds buf bi ([0x81, x, y, 0] @ obu)"
      using find_config_starts [OF box _ b fit] by auto
    have "parse_av1c buf bi = Inr obu"
      using valid Av1 by (intro parse_av1c_reads [OF bi(2)])
        (auto simp: validate_track_config_def split: if_splits)
    then show ?thesis
      using at bi(1) Av1 e(2) f cfg by (simp add: parse_video_stsd_def)
  qed
qed

lemma parse_audio_stsd_reads:
  assumes entry: "opus_sample_entry cfg = Some eb" and e: "mp4_box (ascii ''Opus'') p = Some eb"
    "holds buf e p" "bi_fourcc e = ascii ''Opus''"
  shows "parse_audio_stsd buf e = Inr (Audio cfg)"
proof -
  let ?p = "bi_payload_offset e"
  let ?d = "[0, ucast (at_channels cfg)] @ be16 (at_pre_skip cfg) @ be32 (at_sample_rate cfg) @ be16 0 @ [0]"
  obtain d where d: "mp4_box (ascii ''dOps'') ?d = Some d"
    and eb: "mp4_box (ascii ''Opus'') (replicate 6 0 @ be16 1 @ be32 0 @ be32 0 @ be16 (at_channels cfg)
        @ be16 16 @ be16 0 @ be16 0 @ be32 (push_bit 16 (at_sample_rate cfg)) @ d) = Some eb"
    using entry by (auto simp: opus_sample_entry_def dops_def bind_eq_Some_conv)
  then have p: "p = replicate 6 0 @ be16 1 @ be32 0 @ be32 0 @ be16 (at_channels cfg)
        @ be16 16 @ be16 0 @ be16 0 @ be32 (push_bit 16 (at_sample_rate cfg)) @ d"
    using e(1) by (auto simp: mp4_box_Some_iff)
  have ch: "read_u16 buf (?p + 16) = Inr (at_channels cfg)"
    using starts_drop [OF holds_starts [OF e(2)], of 16] p by (simp add: starts_append read_simps)
  have at: "starts buf (?p + 28) d" using starts_drop [OF holds_starts [OF e(2)], of 28] p by simp
  have stop: "box_end e = Inr (?p + 28 + length d)" using holds_end [OF e(2)] p by simp
  have fit: "?p + 28 + length d \<le> length buf" "length buf \<le> u64_max"
    using holds_small [OF e(2)] p by simp_all
  obtain bi where bi: "find_config buf (?p + 28) (?p + 28 + length d) ''dOps'' = Inr bi" "holds buf bi ?d"
    using find_config_starts [OF d _ at _ fit] by auto
  let ?q = "bi_payload_offset bi"
  have q: "box_end bi = Inr (?q + 11)" "starts buf (?q + 2) (be16 (at_pre_skip cfg))"
    "starts buf (?q + 4) (be32 (at_sample_rate cfg))"
    using holds_end [OF bi(2)] starts_drop [OF holds_starts [OF bi(2)], of 2]
      starts_drop [OF holds_starts [OF bi(2)], of 4] by (simp_all add: starts_append)
  then have "read_u16_bounded buf (?q + 2) (?q + 11) = Inr (at_pre_skip cfg)"
    "read_u32_bounded buf (?q + 4) (?q + 11) = Inr (at_sample_rate cfg)"
    using fit(2) by (simp_all add: read_simps)
  then show ?thesis
    using e(3) ch stop bi(1) q(1) by (simp add: parse_audio_stsd_def)
qed

section \<open>The sample description\<close>

lemma stsd_entry_reads:
  assumes sd: "holds buf sd (full_header 0 0 @ be32 1 @ e)" and e: "mp4_box f p = Some e" "length f = 4"
  obtains entry where "holds buf entry p" "bi_fourcc entry = f"
    "parse_stsd buf sd (ascii ''vide'') = parse_video_stsd buf entry"
    "parse_stsd buf sd (ascii ''soun'') = (\<lambda>_. parse_audio_stsd buf entry)"
proof -
  let ?p = "bi_payload_offset sd"
  have at: "starts buf (?p + 4) (be32 1)" "starts buf (?p + 8) e"
    using starts_drop [OF holds_starts [OF sd], of 4] starts_drop [OF holds_starts [OF sd], of 8]
    by (simp_all add: starts_append)
  have stop: "box_end sd = Inr (?p + 8 + length e)" using holds_end [OF sd] by simp
  have small: "?p + 8 + length e \<le> length buf" "length buf \<le> u64_max"
    using holds_small [OF sd] by simp_all
  obtain entry where entry: "read_box_at buf (?p + 8) (?p + 8 + length e) = Inr entry"
    "bi_fourcc entry = f" "holds buf entry p"
    using read_box_at_starts [OF e at(2) _ small] by auto
  have "read_u32_bounded buf (?p + 4) (?p + 8 + length e) = Inr 1"
    using at(1) small(2) by (simp add: read_simps)
  with entry stop show thesis by (intro that) (simp_all add: parse_stsd_def fun_eq_iff)
qed

lemma parse_stsd_video:
  assumes sd: "Mp4_Init.stsd cfg = Some s" and valid: "valid_config (Video cfg)"
  obtains p where "mp4_box (ascii ''stsd'') p = Some s"
    "\<And>buf b. holds buf b p \<Longrightarrow> parse_stsd buf b (ascii ''vide'') (vt_timescale cfg) = Inr (Video cfg)"
proof -
  obtain fourcc box e where e: "codec_box (vt_codec cfg) = Some (fourcc, box)"
    "visual_sample_entry fourcc (vt_width cfg) (vt_height cfg) box = Some e"
    "full_box (ascii ''stsd'') 0 0 (be32 1 @ e) = Some s"
    using sd by (auto simp: Mp4_Init.stsd_def bind_eq_Some_conv)
  obtain colr where colr: "mp4_box fourcc (visual_header (vt_width cfg) (vt_height cfg) @ box @ colr) = Some e"
    by (rule visual_sample_entry_box [OF e(2)])
  have len: "length fourcc = 4"
    using e(1) by (auto simp: codec_box_def split: video_codec_params.splits)
  have "parse_stsd buf b (ascii ''vide'') (vt_timescale cfg) = Inr (Video cfg)"
    if b: "holds buf b (full_header 0 0 @ be32 1 @ e)" for buf b
  proof -
    obtain entry where entry: "holds buf entry (visual_header (vt_width cfg) (vt_height cfg) @ box @ colr)"
      "bi_fourcc entry = fourcc"
      "parse_stsd buf b (ascii ''vide'') = parse_video_stsd buf entry"
      by (rule stsd_entry_reads [OF b colr len]) (rule that)
    with parse_video_stsd_reads [OF e(1) valid entry(1,2)] show ?thesis by simp
  qed
  with e(3) show thesis by (intro that) (auto simp: full_box_mp4)
qed

lemma parse_stsd_audio:
  assumes sd: "audio_stsd cfg = Some s"
  obtains p where "mp4_box (ascii ''stsd'') p = Some s"
    "\<And>buf b ts. holds buf b p \<Longrightarrow> parse_stsd buf b (ascii ''soun'') ts = Inr (Audio cfg)"
proof -
  obtain e where e: "opus_sample_entry cfg = Some e" "full_box (ascii ''stsd'') 0 0 (be32 1 @ e) = Some s"
    using sd by (auto simp: audio_stsd_def bind_eq_Some_conv)
  obtain p where p: "mp4_box (ascii ''Opus'') p = Some e"
    using e(1) by (auto simp: opus_sample_entry_def bind_eq_Some_conv)
  have "parse_stsd buf b (ascii ''soun'') ts = Inr (Audio cfg)"
    if b: "holds buf b (full_header 0 0 @ be32 1 @ e)" for buf b ts
  proof -
    obtain entry where entry: "holds buf entry p" "bi_fourcc entry = ascii ''Opus''"
      "parse_stsd buf b (ascii ''soun'') = (\<lambda>_. parse_audio_stsd buf entry)"
      by (rule stsd_entry_reads [OF b p]) simp_all
    with parse_audio_stsd_reads [OF e(1) p entry(1,2)] show ?thesis by simp
  qed
  with e(2) show thesis by (intro that) (auto simp: full_box_mp4)
qed

end
