(* ===== verification/Mp4_Parse_Movie.thy ===== *)
theory Mp4_Parse_Movie
  imports Mp4_Parse_Config
begin

text \<open>
  A finalized file parses back to what its writer recorded (crates/clipline-mp4/src/trim.rs): the
  media box, a whole track box, and the movie, both in memory and through the bounded reader that
  loads only the \<open>moov\<close> box.
\<close>

section \<open>The media box\<close>

lemma header_timescale_reads:
  assumes box: "holds buf b (full_header (of_bool w) 0
      @ (if w then be64 0 @ be64 0 @ be32 ts @ r1 else be32 0 @ be32 0 @ be32 ts @ r2) @ r3)"
    and ts: "ts \<noteq> 0"
  shows "parse_header_timescale buf b = Inr ts"
proof -
  let ?p = "bi_payload_offset b" and ?off = "if w then 20 else 12"
  have v: "get_at buf ?p = Some (of_bool w)"
    using holds_starts [OF box] by (simp add: full_header_def starts_Cons)
  have at: "starts buf (?p + ?off) (be32 ts)"
    using starts_drop [OF holds_starts [OF box], of ?off] by (auto simp: starts_append split: if_splits)
  obtain stop where stop: "box_end b = Inr stop" "?p + ?off + 4 \<le> stop"
    using holds_end [OF box] by auto
  have "read_u32_bounded buf (?p + ?off) stop = Inr ts"
    using at stop(2) holds_small [OF box] by (simp add: read_simps)
  with v stop ts show ?thesis by (auto simp: parse_header_timescale_def split: if_splits)
qed

lemma mdhd_reads:
  assumes "mdhd ts dur = Some b"
  obtains p where "mp4_box (ascii ''mdhd'') p = Some b"
    "\<And>buf bi. holds buf bi p \<Longrightarrow> ts \<noteq> 0 \<Longrightarrow> parse_mdhd_timescale buf bi = Inr ts"
  using assms
  by (intro that [of "full_header (of_bool (wide dur)) 0
      @ (if wide dur then be64 0 @ be64 0 @ be32 ts @ be64 dur
         else be32 0 @ be32 0 @ be32 ts @ be32 (ucast dur)) @ be16 0x55C4 @ be16 0"])
    (simp_all add: mdhd_def full_box_mp4 parse_mdhd_timescale_def header_timescale_reads)

lemma mvhd_reads:
  assumes "mvhd dur n = Some b"
  obtains p where "mp4_box (ascii ''mvhd'') p = Some b"
    "\<And>buf bi. holds buf bi p \<Longrightarrow> parse_header_timescale buf bi = Inr movie_timescale"
proof -
  have "movie_timescale \<noteq> 0" by (simp add: movie_timescale_def)
  with assms show thesis
    by (intro that [of "full_header (of_bool (wide dur)) 0
        @ (if wide dur then be64 0 @ be64 0 @ be32 movie_timescale @ be64 dur
           else be32 0 @ be32 0 @ be32 movie_timescale @ be32 (ucast dur))
        @ be32 0x00010000 @ be16 0x0100 @ be16 0 @ be32 0 @ be32 0
        @ matrix_bytes @ concat (replicate 6 (be32 0)) @ be32 n"])
      (simp_all add: mvhd_def full_box_mp4 header_timescale_reads)
qed

lemma parse_hdlr_reads:
  assumes box: "holds buf b (full_header 0 0 @ be32 0 @ handler @ rest)" and h: "length handler = 4"
  shows "parse_hdlr buf b = Inr handler"
proof -
  have "starts buf (bi_payload_offset b + 8) handler"
    using starts_drop [OF holds_starts [OF box], of 8] by (simp add: starts_append)
  then show ?thesis
    using holds_end [OF box] holds_small [OF box] h by (simp add: parse_hdlr_def read_simps)
qed

text \<open>What the parser finds below a media box.\<close>

definition media_reads :: "bytes \<Rightarrow> box_info \<Rightarrow> u32 \<Rightarrow> bytes \<Rightarrow> bytes \<Rightarrow> bool" where
  "media_reads buf mdia ts handler table = (\<exists>hd hdlr minf stbl.
     require_child buf mdia (ascii ''mdhd'') = Inr hd \<and> parse_mdhd_timescale buf hd = Inr ts
     \<and> require_child buf mdia (ascii ''hdlr'') = Inr hdlr \<and> parse_hdlr buf hdlr = Inr handler
     \<and> require_child buf mdia (ascii ''minf'') = Inr minf
     \<and> require_child buf minf (ascii ''stbl'') = Inr stbl \<and> holds buf stbl table)"

lemma require_child_holds:
  assumes "holds buf parent (concat bs)" "boxes_of items bs" "List.find (\<lambda>i. fst i = f) items = Some (f, p)"
  obtains c where "require_child buf parent f = Inr c" "holds buf c p"
  using child_holds(1) [OF assms] by (auto simp: require_child_def)

lemma mdia_generic_reads:
  assumes m: "mdia_generic ts dur handler name media_header sd tail = Some m"
    and mh: "mp4_box (ascii n) mp = Some media_header" "n = ''vmhd'' \<or> n = ''smhd''"
    and ts: "ts \<noteq> 0" and h: "length handler = 4"
  obtains p where "mp4_box (ascii ''mdia'') p = Some m"
    "\<And>buf mdia. holds buf mdia p \<Longrightarrow> media_reads buf mdia ts handler (sd @ tail)"
proof -
  from m obtain hd hdlr dinf stbl minf dref where
    hd: "mdhd ts dur = Some hd"
    and hdlr: "full_box (ascii ''hdlr'') 0 0 (be32 0 @ handler @ be32 0 @ be32 0 @ be32 0 @ name) = Some hdlr"
    and dinf: "mp4_box (ascii ''dinf'') dref = Some dinf"
    and stbl: "mp4_box (ascii ''stbl'') (sd @ tail) = Some stbl"
    and minf: "mp4_box (ascii ''minf'') (media_header @ dinf @ stbl) = Some minf"
    and mdia: "mp4_box (ascii ''mdia'') (hd @ hdlr @ minf) = Some m"
    by (auto simp: mdia_generic_def bind_eq_Some_conv)
  obtain hp where hp: "mp4_box (ascii ''mdhd'') hp = Some hd"
    "\<And>buf bi. holds buf bi hp \<Longrightarrow> ts \<noteq> 0 \<Longrightarrow> parse_mdhd_timescale buf bi = Inr ts"
    by (rule mdhd_reads [OF hd]) (rule that)
  let ?lp = "full_header 0 0 @ be32 0 @ handler @ be32 0 @ be32 0 @ be32 0 @ name"
  let ?outer = "[(ascii ''mdhd'', hp), (ascii ''hdlr'', ?lp), (ascii ''minf'', media_header @ dinf @ stbl)]"
  let ?inner = "[(ascii n, mp), (ascii ''dinf'', dref), (ascii ''stbl'', sd @ tail)]"
  have "media_reads buf bi ts handler (sd @ tail)" if "holds buf bi (hd @ hdlr @ minf)" for buf bi
  proof -
    have outer: "holds buf bi (concat [hd, hdlr, minf])" "boxes_of ?outer [hd, hdlr, minf]"
      using that hp(1) hdlr minf by (simp_all add: full_box_mp4)
    obtain b1 where b1: "require_child buf bi (ascii ''mdhd'') = Inr b1" "holds buf b1 hp"
      by (rule require_child_holds [OF outer, of "ascii ''mdhd''" hp]) simp_all
    obtain b2 where b2: "require_child buf bi (ascii ''hdlr'') = Inr b2" "holds buf b2 ?lp"
      by (rule require_child_holds [OF outer, of "ascii ''hdlr''" ?lp]) simp_all
    obtain b3 where b3: "require_child buf bi (ascii ''minf'') = Inr b3"
      "holds buf b3 (media_header @ dinf @ stbl)"
      by (rule require_child_holds [OF outer, of "ascii ''minf''" "media_header @ dinf @ stbl"]) simp_all
    have inner: "holds buf b3 (concat [media_header, dinf, stbl])"
      "boxes_of ?inner [media_header, dinf, stbl]"
      using b3(2) mh dinf stbl by auto
    have "List.find (\<lambda>i. fst i = ascii ''stbl'') ?inner = Some (ascii ''stbl'', sd @ tail)"
      using mh(2) by auto
    from require_child_holds [OF inner this]
    obtain b4 where "require_child buf b3 (ascii ''stbl'') = Inr b4" "holds buf b4 (sd @ tail)" .
    with b1 b2 b3 hp(2) ts parse_hdlr_reads [OF b2(2) h] show ?thesis
      unfolding media_reads_def by blast
  qed
  with mdia show thesis by (rule that)
qed

section \<open>A track box\<close>

lemma optional_edts_boxes:
  assumes "optional_edts edits = Some ed"
  obtains "edits = []" "ed = []"
  | p where "edits \<noteq> []" "mp4_box (ascii ''edts'') p = Some ed"
  using assms by (cases "edits = []") (auto simp: optional_edts_def edts_def Let_def bind_eq_Some_conv)

lemma trak_children:
  assumes tk: "mp4_box (ascii ''tkhd'') tp = Some tk" and ed: "optional_edts edits = Some ed"
    and m: "mp4_box (ascii ''mdia'') mp = Some m" and trak: "holds buf trak (tk @ ed @ m)"
  obtains mdia where "require_child buf trak (ascii ''mdia'') = Inr mdia" "holds buf mdia mp"
    "edits = [] \<Longrightarrow> child buf trak (ascii ''edts'') = None"
    "\<And>p. mp4_box (ascii ''edts'') p = Some ed \<Longrightarrow>
       \<exists>b. child buf trak (ascii ''edts'') = Some b \<and> holds buf b p"
proof (rule optional_edts_boxes [OF ed])
  assume e: "edits = []" "ed = []"
  let ?items = "[(ascii ''tkhd'', tp), (ascii ''mdia'', mp)]"
  have boxes: "holds buf trak (concat [tk, m])" "boxes_of ?items [tk, m]"
    using trak e tk m by simp_all
  obtain mdia where "require_child buf trak (ascii ''mdia'') = Inr mdia" "holds buf mdia mp"
    by (rule require_child_holds [OF boxes, of "ascii ''mdia''" mp]) simp_all
  moreover have "child buf trak (ascii ''edts'') = None"
    by (rule child_holds(2) [OF boxes]) simp
  moreover have "\<not> mp4_box (ascii ''edts'') p = Some ed" for p
    using e by (auto dest: mp4_box_length)
  ultimately show thesis by (intro that) simp_all
next
  fix p
  assume e: "edits \<noteq> []" "mp4_box (ascii ''edts'') p = Some ed"
  let ?items = "[(ascii ''tkhd'', tp), (ascii ''edts'', p), (ascii ''mdia'', mp)]"
  have boxes: "holds buf trak (concat [tk, ed, m])" "boxes_of ?items [tk, ed, m]"
    using trak e tk m by simp_all
  obtain mdia where mdia: "require_child buf trak (ascii ''mdia'') = Inr mdia" "holds buf mdia mp"
    by (rule require_child_holds [OF boxes, of "ascii ''mdia''" mp]) simp_all
  have "\<exists>b. child buf trak (ascii ''edts'') = Some b \<and> holds buf b p"
    using child_holds(1) [OF boxes, of "ascii ''edts''"] by auto
  moreover have "p' = p" if "mp4_box (ascii ''edts'') p' = Some ed" for p'
    using that e(2) by (auto simp: mp4_box_Some_iff)
  ultimately show thesis using e(1) by (intro that [OF mdia]) auto
qed

text \<open>A track box of the writer: its configuration, timescale and sample table read back.\<close>

definition track_reads :: "bytes \<Rightarrow> box_info \<Rightarrow> track_config \<Rightarrow> bytes \<Rightarrow> bytes \<Rightarrow> bool" where
  "track_reads buf trak cfg sd tail = (\<exists>mdia. require_child buf trak (ascii ''mdia'') = Inr mdia
     \<and> media_reads buf mdia (track_timescale cfg)
         (if is_video cfg then ascii ''vide'' else ascii ''soun'') (sd @ tail))"

lemma tkhd_box: "tkhd a b c d e = Some tk \<Longrightarrow> \<exists>p. mp4_box (ascii ''tkhd'') p = Some tk"
  by (auto simp: tkhd_def full_box_mp4)

lemma valid_timescale: "valid_config cfg \<Longrightarrow> track_timescale cfg \<noteq> 0"
  by (auto simp: validate_track_config_def track_timescale_def split: track_config.splits if_splits)

lemma track_trak_boxes:
  assumes trak: "track_trak st tid = Some t" and valid: "valid_config (ks_cfg st)"
  obtains p sp sd tail ed edits where "mp4_box (ascii ''trak'') p = Some t"
    "sample_tables st = Some tail" "edit_list st = Some edits" "optional_edts edits = Some ed"
    "mp4_box (ascii ''stsd'') sp = Some sd"
    "\<And>buf b. holds buf b sp \<Longrightarrow> parse_stsd buf b (if is_video (ks_cfg st) then ascii ''vide'' else ascii ''soun'')
        (track_timescale (ks_cfg st)) = Inr (ks_cfg st)"
    "\<And>buf b. holds buf b p \<Longrightarrow> track_reads buf b (ks_cfg st) sd tail"
    "\<And>buf b. holds buf b p \<Longrightarrow> edits = [] \<Longrightarrow> child buf b (ascii ''edts'') = None"
    "\<And>buf b q. holds buf b p \<Longrightarrow> mp4_box (ascii ''edts'') q = Some ed \<Longrightarrow>
       \<exists>c. child buf b (ascii ''edts'') = Some c \<and> holds buf c q"
proof -
  note ts = valid_timescale [OF valid]
  obtain tail edits where te: "sample_tables st = Some tail" "edit_list st = Some edits"
    using trak by (auto simp: track_trak_def bind_eq_Some_conv)
  have "\<exists>tk ed sd m n mh mp dur handler name. mp4_box (ascii ''trak'') (tk @ ed @ m) = Some t
    \<and> (\<exists>tp. mp4_box (ascii ''tkhd'') tp = Some tk) \<and> optional_edts edits = Some ed
    \<and> mdia_generic (track_timescale (ks_cfg st)) dur handler name mh sd tail = Some m
    \<and> mp4_box (ascii n) mp = Some mh \<and> (n = ''vmhd'' \<or> n = ''smhd'')
    \<and> handler = (if is_video (ks_cfg st) then ascii ''vide'' else ascii ''soun'')
    \<and> (case ks_cfg st of Video v \<Rightarrow> Mp4_Init.stsd v = Some sd | Audio a \<Rightarrow> audio_stsd a = Some sd)"
  proof (cases "ks_cfg st")
    case (Video v)
    with trak te show ?thesis
      by (fastforce simp: track_trak_def video_trak_with_tables_and_edits_def bind_eq_Some_conv full_box_mp4
          track_timescale_def is_video_def dest: tkhd_box)
  next
    case (Audio a)
    with trak te show ?thesis
      by (fastforce simp: track_trak_def audio_trak_with_tables_and_edits_def bind_eq_Some_conv full_box_mp4
          track_timescale_def is_video_def dest: tkhd_box)
  qed
  then obtain tk ed sd m n mh mp dur handler name tp where
    t: "mp4_box (ascii ''trak'') (tk @ ed @ m) = Some t" and tk: "mp4_box (ascii ''tkhd'') tp = Some tk"
    and ed: "optional_edts edits = Some ed"
    and m: "mdia_generic (track_timescale (ks_cfg st)) dur handler name mh sd tail = Some m"
    and mh: "mp4_box (ascii n) mp = Some mh" "n = ''vmhd'' \<or> n = ''smhd''"
    and h: "handler = (if is_video (ks_cfg st) then ascii ''vide'' else ascii ''soun'')"
    and sd: "case ks_cfg st of Video v \<Rightarrow> Mp4_Init.stsd v = Some sd | Audio a \<Rightarrow> audio_stsd a = Some sd"
    by blast
  obtain sp where sp: "mp4_box (ascii ''stsd'') sp = Some sd"
    "\<And>buf b. holds buf b sp \<Longrightarrow> parse_stsd buf b handler (track_timescale (ks_cfg st)) = Inr (ks_cfg st)"
  proof (cases "ks_cfg st")
    case (Video v)
    with sd valid have "Mp4_Init.stsd v = Some sd" "valid_config (Video v)" by simp_all
    then show thesis
      by (rule parse_stsd_video) (rule that, use Video h in \<open>simp_all add: is_video_def track_timescale_def\<close>)
  next
    case (Audio a)
    with sd have "audio_stsd a = Some sd" by simp
    then show thesis
      by (rule parse_stsd_audio) (rule that, use Audio h in \<open>simp_all add: is_video_def track_timescale_def\<close>)
  qed
  obtain mdp where mdp: "mp4_box (ascii ''mdia'') mdp = Some m"
    "\<And>buf b. holds buf b mdp \<Longrightarrow> media_reads buf b (track_timescale (ks_cfg st)) handler (sd @ tail)"
    by (rule mdia_generic_reads [OF m mh ts]) (use h in \<open>auto intro: that\<close>)
  have reads: "track_reads buf b (ks_cfg st) sd tail \<and> (edits = [] \<longrightarrow> child buf b (ascii ''edts'') = None)
      \<and> (\<forall>q. mp4_box (ascii ''edts'') q = Some ed \<longrightarrow>
           (\<exists>c. child buf b (ascii ''edts'') = Some c \<and> holds buf c q))"
    if "holds buf b (tk @ ed @ m)" for buf b
    by (rule trak_children [OF tk ed mdp(1) that]) (use mdp(2) h in \<open>auto simp: track_reads_def\<close>)
  show thesis
    by (rule that [OF t te ed sp(1)]) (use sp(2) h reads in \<open>auto\<close>)
qed

section \<open>The movie\<close>

text \<open>A track parses to its configuration, timescale and the samples of its tables.\<close>

lemma parse_track_reads:
  assumes trak: "track_trak st tid = Some t" and valid: "valid_config (ks_cfg st)"
    and ok: "stream_ok lo hi st" "table_ok st" and fit: "ks_sample_count st \<le> max_parsed_samples"
  obtains p where "mp4_box (ascii ''trak'') p = Some t"
    "\<And>buf b. holds buf b p \<Longrightarrow> parse_track_cfg buf b = Inr (ks_cfg st)"
    "\<And>buf b source_len movie_ts. holds buf b p \<Longrightarrow> parse_track buf source_len movie_ts b =
       bind_out (table_records source_len st) (\<lambda>rs.
       bind_out (apply_track_edit_list buf b rs (track_timescale (ks_cfg st)) movie_ts) (\<lambda>samples.
         if samples = [] then unsupported
         else Inr \<lparr>pt_cfg = ks_cfg st, pt_timescale = track_timescale (ks_cfg st), pt_samples = samples\<rparr>))"
    "\<And>buf b. holds buf b p \<Longrightarrow> edit_list st = Some [] \<Longrightarrow> child buf b (ascii ''edts'') = None"
    "\<And>buf b edits ed q. holds buf b p \<Longrightarrow> edit_list st = Some edits \<Longrightarrow> optional_edts edits = Some ed \<Longrightarrow>
       mp4_box (ascii ''edts'') q = Some ed \<Longrightarrow>
       \<exists>c. child buf b (ascii ''edts'') = Some c \<and> holds buf c q"
proof (rule track_trak_boxes [OF trak valid])
  fix p sp sd tail ed edits
  let ?h = "if is_video (ks_cfg st) then ascii ''vide'' else ascii ''soun''"
  assume p: "mp4_box (ascii ''trak'') p = Some t" and te: "sample_tables st = Some tail"
    "edit_list st = Some edits" "optional_edts edits = Some ed"
    and sp: "mp4_box (ascii ''stsd'') sp = Some sd"
    and sd: "\<And>buf b. holds buf b sp \<Longrightarrow>
      parse_stsd buf b ?h (track_timescale (ks_cfg st)) = Inr (ks_cfg st)"
    and reads: "\<And>buf b. holds buf b p \<Longrightarrow> track_reads buf b (ks_cfg st) sd tail"
    and no_edts: "\<And>buf b. holds buf b p \<Longrightarrow> edits = [] \<Longrightarrow> child buf b (ascii ''edts'') = None"
    and edts: "\<And>buf b q. holds buf b p \<Longrightarrow> mp4_box (ascii ''edts'') q = Some ed \<Longrightarrow>
       \<exists>c. child buf b (ascii ''edts'') = Some c \<and> holds buf c q"
  have "parse_track_cfg buf b = Inr (ks_cfg st) \<and> parse_track buf source_len movie_ts b =
       bind_out (table_records source_len st) (\<lambda>rs.
       bind_out (apply_track_edit_list buf b rs (track_timescale (ks_cfg st)) movie_ts) (\<lambda>samples.
         if samples = [] then unsupported
         else Inr \<lparr>pt_cfg = ks_cfg st, pt_timescale = track_timescale (ks_cfg st), pt_samples = samples\<rparr>))"
    if b: "holds buf b p" for buf b source_len movie_ts
  proof -
    obtain mdia hd hdlr minf stbl where below:
      "require_child buf b (ascii ''mdia'') = Inr mdia" "require_child buf mdia (ascii ''mdhd'') = Inr hd"
      "parse_mdhd_timescale buf hd = Inr (track_timescale (ks_cfg st))"
      "require_child buf mdia (ascii ''hdlr'') = Inr hdlr" "parse_hdlr buf hdlr = Inr ?h"
      "require_child buf mdia (ascii ''minf'') = Inr minf" "require_child buf minf (ascii ''stbl'') = Inr stbl"
      and table: "holds buf stbl (sd @ tail)"
      using reads [OF b] by (auto simp: track_reads_def media_reads_def)
    obtain bs where bs: "tail = concat bs" "boxes_of (table_items st) bs"
      by (rule sample_tables_items [OF te(1)])
    have boxes: "holds buf stbl (concat (sd # bs))" "boxes_of ((ascii ''stsd'', sp) # table_items st) (sd # bs)"
      using table bs sp by simp_all
    obtain sdb where sdb: "require_child buf stbl (ascii ''stsd'') = Inr sdb" "holds buf sdb sp"
      by (rule require_child_holds [OF boxes, of "ascii ''stsd''" sp]) simp_all
    have "parse_track_cfg buf b = Inr (ks_cfg st)"
      using below sdb(1) sd [OF sdb(2)] by (simp add: parse_track_cfg_def)
    moreover note parse_sample_table_reads [OF te(1) table sp ok fit, of source_len]
    ultimately show ?thesis using below by (simp add: parse_track_def)
  qed
  then show thesis using te no_edts edts by (intro that [OF p]) auto
qed


section \<open>Edit lists\<close>

text \<open>An edit as the parser reads it.\<close>

definition edit_view :: "edit_list_entry \<Rightarrow> parsed_edit" where
  "edit_view e = \<lparr>pe_duration_movie_ts = unat (ee_duration_movie_ts e), pe_media_time = sint (ee_media_time e)\<rparr>"

definition elst_entry :: "bool \<Rightarrow> edit_list_entry \<Rightarrow> bytes" where
  "elst_entry wide_entry e = (if wide_entry then be64 (ee_duration_movie_ts e) @ be64 (ee_media_time e)
     else be32 (ucast (ee_duration_movie_ts e)) @ be32 (ucast (ee_media_time e))) @ be16 1 @ be16 0"

lemma rate_one: "be16 1 @ be16 0 = be32 0x00010000"
proof -
  have two: "2 = Suc (Suc 0)" and four: "4 = Suc (Suc (Suc (Suc 0)))" by simp_all
  have "nat_be 2 x = [word_of_nat (x div 256), word_of_nat x]" for x
    by (simp only: two nat_be.simps append.simps)
  moreover have "nat_be 4 x = [word_of_nat (x div 256 div 256 div 256), word_of_nat (x div 256 div 256),
      word_of_nat (x div 256), word_of_nat x]" for x
    by (simp only: four nat_be.simps append.simps)
  ultimately show ?thesis by (simp add: be16_def be32_def)
qed

lemma unat_narrow: "\<not> wide v \<Longrightarrow> unat (ucast v :: u32) = unat v"
  by (simp add: wide_def word_less_nat_alt unsigned_ucast_eq take_bit_nat_eq_self)

lemma sint_narrow:
  assumes "- (2 ^ 31) \<le> sint m" "sint m \<le> 2 ^ 31 - 1"
  shows "sint (ucast (m :: i64) :: u32) = sint m"
proof -
  have "sint (ucast m :: u32) = signed_take_bit 31 (sint m)"
    by (simp add: sint_uint unsigned_ucast_eq signed_take_bit_take_bit)
  with assms show ?thesis by (simp add: signed_take_bit_int_eq_self)
qed

lemma read_edit_starts:
  assumes at: "starts buf pos (elst_entry w e)" and narrow: "\<not> w \<Longrightarrow> \<not> edit_needs_wide e"
    and pos: "0 < ee_duration_movie_ts e" and stop: "pos + length (elst_entry w e) \<le> stop"
    and small: "length buf \<le> u64_max"
  shows "read_edit buf stop (of_bool w) pos = Inr (edit_view e)"
proof -
  have nz: "unat (ee_duration_movie_ts e) \<noteq> 0" using pos by (simp add: word_less_nat_alt)
  show ?thesis
  proof (cases w)
    case True
    have "starts buf pos (be64 (ee_duration_movie_ts e))" "starts buf (pos + 8) (be64 (ee_media_time e))"
      "starts buf (pos + 16) (be32 0x00010000)"
      using at True by (simp_all add: elst_entry_def rate_one starts_append add.assoc)
    then show ?thesis
      using True stop small nz by (simp add: read_edit_def read_simps edit_view_def elst_entry_def)
  next
    case False
    with narrow have n: "\<not> wide (ee_duration_movie_ts e)" "- (2 ^ 31) \<le> sint (ee_media_time e)"
      "sint (ee_media_time e) \<le> 2 ^ 31 - 1"
      by (auto simp: edit_needs_wide_def)
    have "starts buf pos (be32 (ucast (ee_duration_movie_ts e)))"
      "starts buf (pos + 4) (be32 (ucast (ee_media_time e)))" "starts buf (pos + 8) (be32 0x00010000)"
      using at False by (simp_all add: elst_entry_def rate_one starts_append add.assoc)
    then show ?thesis
      using False stop small nz unat_narrow [OF n(1)] sint_narrow [OF n(2,3)]
      by (simp add: read_edit_def read_simps edit_view_def elst_entry_def)
  qed
qed


lemma length_elst_entry: "length (elst_entry w e) = (if w then 20 else 12)"
  by (simp add: elst_entry_def)

lemma parse_elst_reads:
  assumes box: "holds buf b (full_header (of_bool w) 0 @ be32n (length edits) @ concat (map (elst_entry w) edits))"
    and narrow: "\<And>e. e \<in> set edits \<Longrightarrow> \<not> w \<Longrightarrow> \<not> edit_needs_wide e"
    and pos: "\<And>e. e \<in> set edits \<Longrightarrow> 0 < ee_duration_movie_ts e" and n: "length edits < 2 ^ 32"
  shows "parse_elst buf b = Inr (map edit_view edits)"
proof -
  let ?p = "bi_payload_offset b" and ?k = "if w then 20 else 12 :: nat"
  have len: "length (concat (map (elst_entry w) edits)) = length edits * ?k"
    by (rule length_concat_stride) (simp add: length_elst_entry)
  note t = counted_table [OF box _ n len, simplified]
  let ?stop = "?p + 8 + length (concat (map (elst_entry w) edits))"
  have small: "length buf \<le> u64_max" using holds_small [OF box] by simp
  have v: "get_at buf ?p = Some (of_bool w)"
    using holds_starts [OF box] by (simp add: full_header_def starts_Cons)
  have "read_u32_bounded buf (?p + 4) ?stop = Inr (word_of_nat (length edits))"
    using t(1) small by (simp add: read_simps)
  moreover have "pos + length (concat (map (elst_entry w) es)) \<le> ?stop \<Longrightarrow> set es \<subseteq> set edits \<Longrightarrow>
      starts buf pos (concat (map (elst_entry w) es)) \<Longrightarrow>
      read_each (read_edit buf ?stop (of_bool w)) ?k (length es) pos = Inr (map edit_view es)" for es pos
  proof (induction es arbitrary: pos)
    case (Cons e es)
    then have "read_edit buf ?stop (of_bool w) pos = Inr (edit_view e)"
      using narrow assms(3) small by (intro read_edit_starts) (auto simp: starts_append)
    moreover have "read_each (read_edit buf ?stop (of_bool w)) ?k (length es) (pos + ?k) = Inr (map edit_view es)"
      using Cons.prems by (intro Cons.IH) (auto simp: starts_append length_elst_entry)
    ultimately show ?case by simp
  qed simp
  then have "read_each (read_edit buf ?stop (of_bool w)) ?k (length edits) (?p + 8) = Inr (map edit_view edits)"
    using t(2) by simp
  ultimately show ?thesis
    using v t n len by (auto simp: parse_elst_def unat_word_of_nat_less)
qed

text \<open>What the writer's edit list makes of a track's samples.\<close>

definition edited :: "u32 \<Rightarrow> edit_list_entry list \<Rightarrow> sample_record list \<Rightarrow> sample_record list parsed" where
  "edited track_ts edits rs = (if edits = [] then Inr rs
     else bind_out (apply_edits rs track_ts movie_timescale 0 None (map edit_view edits)) (\<lambda>output.
       if output = [] then unsupported else Inr output))"

lemma apply_track_edit_list_reads:
  assumes ed: "optional_edts edits = Some ed" and pos: "\<And>e. e \<in> set edits \<Longrightarrow> 0 < ee_duration_movie_ts e"
    and none: "edits = [] \<Longrightarrow> child buf trak (ascii ''edts'') = None"
    and some: "\<And>q. mp4_box (ascii ''edts'') q = Some ed \<Longrightarrow>
       \<exists>c. child buf trak (ascii ''edts'') = Some c \<and> holds buf c q"
  shows "apply_track_edit_list buf trak rs ts movie_timescale = edited ts edits rs"
proof (cases "edits = []")
  case True
  with none show ?thesis by (simp add: apply_track_edit_list_def edited_def)
next
  case False
  let ?w = "list_ex edit_needs_wide edits"
  let ?body = "be32n (length edits) @ concat (map (elst_entry ?w) edits)"
  obtain elst where elst: "full_box (ascii ''elst'') (of_bool ?w) 0 ?body = Some elst"
    and edts: "mp4_box (ascii ''edts'') elst = Some ed"
    using ed False
    by (auto simp: optional_edts_def edts_def Let_def bind_eq_Some_conv elst_entry_def [abs_def])
  obtain c where c: "child buf trak (ascii ''edts'') = Some c" "holds buf c elst" using some [OF edts] by blast
  have boxes: "holds buf c (concat [elst])" "boxes_of [(ascii ''elst'', full_header (of_bool ?w) 0 @ ?body)] [elst]"
    using c(2) elst by (simp_all add: full_box_mp4)
  obtain b where b: "require_child buf c (ascii ''elst'') = Inr b" "holds buf b (full_header (of_bool ?w) 0 @ ?body)"
    by (rule require_child_holds [OF boxes, of "ascii ''elst''" "full_header (of_bool ?w) 0 @ ?body"]) simp_all
  have "length (concat (map (elst_entry ?w) edits)) = length edits * (if ?w then 20 else 12)"
    by (rule length_concat_stride) (simp add: length_elst_entry)
  moreover have "length ?body + 12 < 2 ^ 32" using elst by (auto simp: full_box_mp4 mp4_box_Some_iff)
  ultimately have "length edits < 2 ^ 32" by (simp split: if_splits)
  then have "parse_elst buf b = Inr (map edit_view edits)"
    by (intro parse_elst_reads [OF b(2)]) (auto simp: list_ex_iff pos)
  with b(1) c(1) False show ?thesis by (simp add: apply_track_edit_list_def edited_def)
qed

lemma edit_entries_positive:
  "edit_entries ts cursor runs = Some es \<Longrightarrow> e \<in> set es \<Longrightarrow> 0 < ee_duration_movie_ts e"
proof (induction runs arbitrary: cursor es)
  case (Cons r runs)
  have le: "rescale_duration d a b = Some x \<Longrightarrow> x \<le> u64_max" for d a b x
    by (auto simp: rescale_duration_def split: if_splits)
  have nz: "0 < (word_of_nat x :: u64)" if "0 < x" "x \<le> u64_max" for x
    using that unat_word_of_nat_less [of x, where 'a = 64]
    by (simp add: word_less_nat_alt u64_max_def)
  from Cons.prems(1) obtain a b rest media where r:
    "rescale_duration (tl_presentation_start r) ts movie_timescale = Some a"
    "rescale_duration (saturating_add_u64 (tl_presentation_start r) (tl_duration r)) ts movie_timescale = Some b"
    "edit_entries ts b runs = Some rest"
    "(if 0 < b - a then if tl_media_start r \<le> i64_max
         then Some [\<lparr>ee_duration_movie_ts = word_of_nat (b - a),
                     ee_media_time = word_of_nat (tl_media_start r)\<rparr>] else None
       else Some []) = Some media"
    "es = (if cursor < a then [\<lparr>ee_duration_movie_ts = word_of_nat (a - cursor), ee_media_time = - 1\<rparr>] else [])
       @ media @ rest"
    by (auto simp: bind_eq_Some_conv Let_def)
  from r(5) Cons.prems(2) consider "e \<in> set media" | "e \<in> set rest"
    | "cursor < a" "e = \<lparr>ee_duration_movie_ts = word_of_nat (a - cursor), ee_media_time = - 1\<rparr>"
    by (auto split: if_splits)
  then show ?case
  proof cases
    case 1
    with r(4) le [OF r(2)] show ?thesis by (auto intro!: nz simp del: of_nat_diff split: if_splits)
  next
    case 2
    with Cons.IH [OF r(3)] show ?thesis .
  next
    case 3
    with le [OF r(1)] show ?thesis by (auto intro!: nz simp del: of_nat_diff)
  qed
qed simp

lemma edit_list_positive: "edit_list st = Some es \<Longrightarrow> e \<in> set es \<Longrightarrow> 0 < ee_duration_movie_ts e"
  by (auto simp: edit_list_def bind_eq_Some_conv dest: edit_entries_positive split: if_splits)

section \<open>The movie\<close>

text \<open>The track a finalized track state parses to.\<close>

definition parsed_of :: "nat \<Rightarrow> track_state \<Rightarrow> parsed_track parsed" where
  "parsed_of source_len st =
     bind_out (table_records source_len st) (\<lambda>rs.
     bind_out (edited (track_timescale (ks_cfg st)) (case edit_list st of None \<Rightarrow> [] | Some es \<Rightarrow> es) rs) (\<lambda>samples.
       if samples = [] then unsupported
       else Inr \<lparr>pt_cfg = ks_cfg st, pt_timescale = track_timescale (ks_cfg st), pt_samples = samples\<rparr>))"

definition recordable :: "nat \<Rightarrow> nat \<Rightarrow> track_state \<Rightarrow> bool" where
  "recordable lo hi st \<longleftrightarrow> valid_config (ks_cfg st) \<and> stream_ok lo hi st \<and> table_ok st
     \<and> ks_sample_count st \<le> max_parsed_samples"

lemma trak_reads:
  assumes trak: "track_trak st tid = Some t" and ok: "recordable lo hi st"
  obtains p where "mp4_box (ascii ''trak'') p = Some t"
    "\<And>buf b. holds buf b p \<Longrightarrow> parse_track_cfg buf b = Inr (ks_cfg st)
       \<and> parse_track buf source_len movie_timescale b = parsed_of source_len st"
proof -
  obtain edits ed where e: "edit_list st = Some edits" "optional_edts edits = Some ed"
    using trak by (cases "ks_cfg st") (auto simp: track_trak_def video_trak_with_tables_and_edits_def
        audio_trak_with_tables_and_edits_def bind_eq_Some_conv)
  show thesis
  proof (rule parse_track_reads [OF trak, where lo = lo and hi = hi])
    fix p
    assume p: "mp4_box (ascii ''trak'') p = Some t"
      and cfg: "\<And>buf b. holds buf b p \<Longrightarrow> parse_track_cfg buf b = Inr (ks_cfg st)"
      and track: "\<And>buf b source_len movie_ts. holds buf b p \<Longrightarrow> parse_track buf source_len movie_ts b =
         bind_out (table_records source_len st) (\<lambda>rs.
         bind_out (apply_track_edit_list buf b rs (track_timescale (ks_cfg st)) movie_ts) (\<lambda>samples.
           if samples = [] then unsupported
           else Inr \<lparr>pt_cfg = ks_cfg st, pt_timescale = track_timescale (ks_cfg st), pt_samples = samples\<rparr>))"
      and none: "\<And>buf b. holds buf b p \<Longrightarrow> edit_list st = Some [] \<Longrightarrow> child buf b (ascii ''edts'') = None"
      and some: "\<And>buf b edits ed q. holds buf b p \<Longrightarrow> edit_list st = Some edits \<Longrightarrow>
         optional_edts edits = Some ed \<Longrightarrow> mp4_box (ascii ''edts'') q = Some ed \<Longrightarrow>
         \<exists>c. child buf b (ascii ''edts'') = Some c \<and> holds buf c q"
    have "apply_track_edit_list buf b rs (track_timescale (ks_cfg st)) movie_timescale
        = edited (track_timescale (ks_cfg st)) edits rs" if "holds buf b p" for buf b rs
      using e none [OF that] some [OF that]
      by (intro apply_track_edit_list_reads [OF e(2) edit_list_positive [OF e(1)]]) auto
    with cfg track e show thesis by (intro that [OF p]) (simp add: parsed_of_def)
  qed (use ok in \<open>simp_all add: recordable_def\<close>)
qed


text \<open>A payload of \<open>trak\<close> that parses to a given track state.\<close>

definition trak_payload :: "nat \<Rightarrow> track_state \<Rightarrow> bytes \<Rightarrow> bool" where
  "trak_payload source_len st p \<longleftrightarrow> (\<forall>buf b. holds buf b p \<longrightarrow> parse_track_cfg buf b = Inr (ks_cfg st)
     \<and> parse_track buf source_len movie_timescale b = parsed_of source_len st)"

lemma traks_read:
  "map_opt (\<lambda>(i, t). track_trak t (word_of_nat i + 1)) (List.enumerate k sts) = Some ts \<Longrightarrow>
   \<forall>st \<in> set sts. recordable lo hi st \<Longrightarrow>
   \<exists>items. boxes_of items ts \<and> list_all2 (\<lambda>st i. fst i = ascii ''trak'' \<and> trak_payload source_len st (snd i)) sts items"
proof (induction sts arbitrary: k ts)
  case (Cons st sts)
  then obtain t ts' where t: "track_trak st (word_of_nat k + 1) = Some t" "ts = t # ts'"
    "map_opt (\<lambda>(i, t). track_trak t (word_of_nat i + 1)) (List.enumerate (Suc k) sts) = Some ts'"
    by (auto simp: bind_eq_Some_conv)
  obtain items where "boxes_of items ts'"
    "list_all2 (\<lambda>st i. fst i = ascii ''trak'' \<and> trak_payload source_len st (snd i)) sts items"
    using Cons.IH [OF t(3)] Cons.prems(2) by auto
  moreover obtain p where "mp4_box (ascii ''trak'') p = Some t" "trak_payload source_len st p"
    by (rule trak_reads [OF t(1), of lo hi source_len])
      (use Cons.prems(2) in \<open>auto simp: trak_payload_def intro: that\<close>)
  ultimately show ?case
    using t(2) by (intro exI [of _ "(ascii ''trak'', p) # items"]) simp
qed simp

lemma collect_list_all2:
  "list_all2 (\<lambda>x y. f y = g x) xs ys \<Longrightarrow> collect f ys = collect g xs"
  by (induction xs ys rule: list_all2_induct) simp_all

text \<open>A buffer whose walk finds the final \<open>moov\<close> parses to the writer's tracks.\<close>

lemma parse_movie_reads:
  assumes moov: "final_moov mw = Some moov" and ok: "\<forall>st \<in> set (mw_tracks mw). recordable lo hi st"
    and ne: "mw_tracks mw \<noteq> []"
  obtains mp where "mp4_box (ascii ''moov'') mp = Some moov"
    "\<And>buf b. find_box (walk buf) (ascii ''moov'') = Some b \<Longrightarrow> holds buf b mp \<Longrightarrow>
       parse_movie_with_source_len buf source_len = collect (parsed_of source_len) (mw_tracks mw)
       \<and> finalized_movie_track_counts buf = Inr (length (filter is_video (map ks_cfg (mw_tracks mw))),
           length (filter (\<lambda>c. \<not> is_video c) (map ks_cfg (mw_tracks mw))))"
proof -
  from moov obtain d h ts where h: "mvhd (word_of_nat d) (word_of_nat (length (mw_tracks mw)) + 1) = Some h"
    and ts: "map_opt (\<lambda>(i, t). track_trak t (word_of_nat i + 1)) (List.enumerate 0 (mw_tracks mw)) = Some ts"
    and m: "mp4_box (ascii ''moov'') (h @ concat ts) = Some moov"
    by (auto simp: final_moov_def bind_eq_Some_conv)
  obtain hp where hp: "mp4_box (ascii ''mvhd'') hp = Some h"
    "\<And>buf bi. holds buf bi hp \<Longrightarrow> parse_header_timescale buf bi = Inr movie_timescale"
    by (rule mvhd_reads [OF h]) (rule that)
  obtain items where items: "boxes_of items ts"
    "list_all2 (\<lambda>st i. fst i = ascii ''trak'' \<and> trak_payload source_len st (snd i)) (mw_tracks mw) items"
    using traks_read [OF ts ok] by blast
  have "parse_movie_with_source_len buf source_len = collect (parsed_of source_len) (mw_tracks mw)
       \<and> finalized_movie_track_counts buf = Inr (length (filter is_video (map ks_cfg (mw_tracks mw))),
           length (filter (\<lambda>c. \<not> is_video c) (map ks_cfg (mw_tracks mw))))"
    if b: "find_box (walk buf) (ascii ''moov'') = Some b" "holds buf b (h @ concat ts)" for buf b
  proof -
    have kids: "holds_all buf ((ascii ''mvhd'', hp) # items) (children buf b)"
      using b(2) hp(1) items(1) children_holds [of buf b "h # ts" "(ascii ''mvhd'', hp) # items"] by simp
    then obtain hb cs where cs: "children buf b = hb # cs" "bi_fourcc hb = ascii ''mvhd''" "holds buf hb hp"
      "holds_all buf items cs"
      by (auto simp: list_all2_Cons1)
    have all: "list_all2 (\<lambda>st c. bi_fourcc c = ascii ''trak'' \<and> parse_track_cfg buf c = Inr (ks_cfg st)
        \<and> parse_track buf source_len movie_timescale c = parsed_of source_len st) (mw_tracks mw) cs"
      by (rule list_all2_trans [OF _ items(2) cs(4)]) (auto simp: trak_payload_def)
    have kinds: "\<forall>c \<in> set cs. bi_fourcc c = ascii ''trak''"
      using list_all2_lengthD [OF all] list_all2_nthD2 [OF all] by (auto simp: in_set_conv_nth)
    then have "find_box (children buf b) (ascii ''mvex'') = None"
      using cs(1,2) by (auto simp: find_box_def find_None_iff)
    then have fm: "finalized_moov buf = Inr (children buf b)" using b(1) by (simp add: finalized_moov_def)
    have tr: "traks (children buf b) = cs"
      using cs(1,2) kinds by (auto simp: traks_def intro!: filter_True)
    have "collect (parse_track buf source_len movie_timescale) cs = collect (parsed_of source_len) (mw_tracks mw)"
      by (rule collect_list_all2) (rule list_all2_mono [OF all], simp)
    moreover have "collect (parse_track_cfg buf) cs = collect (\<lambda>st. Inr (ks_cfg st)) (mw_tracks mw)"
      by (rule collect_list_all2) (rule list_all2_mono [OF all], simp)
    moreover have "collect (\<lambda>st. Inr (ks_cfg st)) (mw_tracks mw) = (Inr (map ks_cfg (mw_tracks mw)) :: track_config list parsed)"
      by (rule collect_all_Inr) simp
    moreover have "filter is_video (map ks_cfg (mw_tracks mw)) \<noteq> []
        \<or> filter (\<lambda>c. \<not> is_video c) (map ks_cfg (mw_tracks mw)) \<noteq> []"
      using ne by (auto simp: filter_empty_conv) (meson list.set_sel(1))
    moreover have "collect (parsed_of source_len) (mw_tracks mw) \<noteq> Inr []"
      using ne by (auto dest: collect_Inr_length)
    ultimately show ?thesis
      using fm tr cs(1-3) hp(2)
      by (auto simp: parse_movie_with_source_len_def finalized_movie_track_counts_def find_box_def
          bind_out_def split: sum.splits)
  qed
  with m show thesis by (rule that)
qed

end
