(* ===== verification/Mp4_Parse_File.thy ===== *)
theory Mp4_Parse_File
  imports Mp4_Parse_Movie
begin

text \<open>
  The round trip of a recording: a finalized file parses to the tracks of its writer, whether the
  file is in memory or only its \<open>moov\<close> box is loaded (crates/clipline-mp4/src/trim.rs).
\<close>

section \<open>The writer keeps its tables within their widths\<close>

abbreviation tables_ok :: "track_state list \<Rightarrow> bool" where
  "tables_ok sts \<equiv> \<forall>st \<in> set sts. track_ok st \<and> decode_ok st \<and> table_ok st"

lemma record_tracks_tables:
  "record_tracks off infos sts = (sts', Inr ()) \<Longrightarrow> tables_ok sts \<Longrightarrow>
     (\<forall>st \<in> set sts'. table_ok st) \<and> map ks_cfg sts' = map ks_cfg sts"
proof (induction off infos sts arbitrary: sts' rule: record_tracks.induct)
  case (1 off ss sss st sts)
  show ?case
  proof (cases "ss = []")
    case True
    with 1 show ?thesis by (fastforce simp: apfst_def map_prod_def split: prod.splits)
  next
    case False
    with "1.prems"(1) obtain st1 sts1 where st1: "record_track st off ss = (st1, Inr ())"
      and rest: "record_tracks (off + sum_list (map (unat \<circ> fi_size) ss)) sss sts = (sts1, Inr ())"
      and s: "sts' = st1 # sts1"
      by (auto simp: apfst_def map_prod_def split: prod.splits sum.splits)
    have "(\<forall>st \<in> set sts1. table_ok st) \<and> map ks_cfg sts1 = map ks_cfg sts"
      using "1.IH"(2) [OF False st1 [symmetric] refl rest] "1.prems"(2) by simp
    moreover have "table_ok st1" "ks_cfg st1 = ks_cfg st"
      using record_track_table_ok [OF st1] record_track_view [OF st1] "1.prems"(2) by simp_all
    ultimately show ?thesis using s by simp
  qed
qed auto

lemma writer_ok_tracks: "writer_ok mw \<Longrightarrow> st \<in> set (mw_tracks mw) \<Longrightarrow> track_ok st \<and> decode_ok st"
  by (auto simp: writer_ok_def stream_ok_def)

lemma planned_fragment_tables:
  assumes "write_planned_fragment mw infos f = (mw', Inr ())" "tables_ok (mw_tracks mw)"
  shows "(\<forall>st \<in> set (mw_tracks mw'). table_ok st) \<and> map ks_cfg (mw_tracks mw') = map ks_cfg (mw_tracks mw)"
  using assms by (auto simp: write_planned_fragment_def Let_def dest!: record_tracks_tables
      split: sum.splits prod.splits)

lemma write_fragment_multi_tables:
  assumes "write_fragment_multi mw per_track = (mw', Inr ())" "tables_ok (mw_tracks mw)"
  shows "(\<forall>st \<in> set (mw_tracks mw'). table_ok st) \<and> map ks_cfg (mw_tracks mw') = map ks_cfg (mw_tracks mw)"
  using assms planned_fragment_tables
  by (auto simp: write_fragment_multi_def split: sum.splits option.splits)

lemma set_track_decode_time_tables:
  assumes set: "set_track_decode_time mw i t = (mw', Inr ())" and ok: "tables_ok (mw_tracks mw)"
  shows "(\<forall>st \<in> set (mw_tracks mw'). table_ok st) \<and> map ks_cfg (mw_tracks mw') = map ks_cfg (mw_tracks mw)"
proof -
  obtain st' where i: "i < length (mw_tracks mw)"
    and adv: "advance_track (mw_tracks mw ! i) t = Inr st'"
    and mw': "mw' = mw\<lparr>mw_tracks := (mw_tracks mw)[i := st']\<rparr>"
    using set by (auto simp: set_track_decode_time_def get_at_def split: if_splits sum.splits)
  have st: "track_ok (mw_tracks mw ! i)" "decode_ok (mw_tracks mw ! i)" "table_ok (mw_tracks mw ! i)"
    using ok i by simp_all
  have "table_ok st'" "ks_cfg st' = ks_cfg (mw_tracks mw ! i)"
    using advance_track_table_ok [OF adv st(1,3)] advance_track_view [OF adv st(1,2)] by simp_all
  with ok i mw' show ?thesis
    by (auto simp: map_update list_update_same_conv dest!: subsetD [OF set_update_subset_insert])
qed

lemma writer_run_tables:
  "writer_run mw ops = Some mw' \<Longrightarrow> writer_ok mw \<Longrightarrow> \<forall>st \<in> set (mw_tracks mw). table_ok st \<Longrightarrow>
     (\<forall>st \<in> set (mw_tracks mw'). table_ok st) \<and> map ks_cfg (mw_tracks mw') = map ks_cfg (mw_tracks mw)"
proof (induction ops arbitrary: mw)
  case (Cons op ops)
  have ok: "tables_ok (mw_tracks mw)" using Cons.prems(2,3) writer_ok_tracks by blast
  show ?case
  proof (cases op)
    case (WriteFragment per_track)
    with Cons.prems(1) obtain mw1 where mw1: "write_fragment_multi mw per_track = (mw1, Inr ())"
      "writer_run mw1 ops = Some mw'" by (auto split: prod.splits sum.splits)
    with Cons.IH [OF mw1(2)] write_fragment_multi_tables [OF mw1(1) ok]
      write_fragment_multi_view [OF Cons.prems(2) mw1(1)] show ?thesis by simp
  next
    case (AdvanceTrack i t)
    with Cons.prems(1) obtain mw1 where mw1: "set_track_decode_time mw i t = (mw1, Inr ())"
      "writer_run mw1 ops = Some mw'" by (auto split: prod.splits sum.splits)
    with Cons.IH [OF mw1(2)] set_track_decode_time_tables [OF mw1(1) ok]
      set_track_decode_time_ok [OF mw1(1) Cons.prems(2)] show ?thesis by simp
  qed
qed simp

section \<open>The finalized file\<close>

lemma writer_new_valid:
  assumes "writer_new_multi sink_new tracks = Inr mw"
  shows "map ks_cfg (mw_tracks mw) = tracks \<and> tracks \<noteq> [] \<and> (\<forall>cfg \<in> set tracks. valid_config cfg)
    \<and> (\<forall>st \<in> set (mw_tracks mw). table_ok st)"
proof -
  have mw: "mw_tracks mw = map track_state_new tracks" and v: "validate_track_configs tracks = Inr ()"
    using assms by (auto simp: writer_new_multi_def bind_out_Inr_iff)
  from v obtain us where us: "collect validate_track_config tracks = Inr us" and ne: "tracks \<noteq> []"
    by (auto simp: validate_track_configs_def bind_out_Inr_iff split: if_splits)
  have "valid_config cfg" if "cfg \<in> set tracks" for cfg
    using that collect_Inr_nth [OF us] by (auto simp: in_set_conv_nth)
  moreover have "map ks_cfg (map track_state_new tracks) = tracks"
    by (simp add: map_idI track_state_new_def)
  ultimately show ?thesis using mw ne table_ok_new by auto
qed

lemma stream_ok_mono: "stream_ok lo hi st \<Longrightarrow> hi \<le> hi' \<Longrightarrow> stream_ok lo hi' st"
  by (auto simp: stream_ok_def intro: located_mono)

lemma moov_held:
  assumes box: "mp4_box (ascii ''moov'') mp = Some moov" and buf: "buf = pre @ moov" "length buf \<le> u64_max"
    and b: "bi_payload_offset b = length pre + 8" "bi_offset b = length pre" "bi_size b = length moov"
  shows "holds buf b mp"
proof -
  obtain w where "moov = be32 w @ ascii ''moov'' @ mp" using box by (auto simp: mp4_box_Some_iff)
  with buf b show ?thesis by (simp add: holds_def starts_iff)
qed

text \<open>The \<open>moov\<close> box of the finalized file, and its own bytes as a buffer.\<close>

lemma finalize_moov:
  assumes ok: "writer_ok mw" and fin: "finalize mw = Some w" and small: "length (sk_data w) \<le> u64_max"
    and moov: "final_moov mw = Some moov" and box: "mp4_box (ascii ''moov'') mp = Some moov"
  obtains b where "find_box (walk (sk_data w)) (ascii ''moov'') = Some b" "holds (sk_data w) b mp"
    "slice (bi_offset b) (bi_offset b + bi_size b) (sk_data w) = moov" "bi_size b = length moov"
    "length (sk_data w) = length (sk_data (mw_w mw)) + length moov"
proof -
  obtain ft fr rest where fl: "length ft = 28" "length fr = 16" and g: "sk_data (mw_w mw) = ft @ fr @ rest"
    and w: "sk_data w = ft @ (be32 1 @ ascii ''mdat'' @ be64n (16 + length rest)) @ rest @ moov"
    using finalize_layout [OF ok fin] moov by (metis option.inject)
  let ?pre = "ft @ (be32 1 @ ascii ''mdat'' @ be64n (16 + length rest)) @ rest"
  let ?b = "\<lparr>bi_fourcc = ascii ''moov'', bi_offset = length (sk_data (mw_w mw)), bi_size = length moov,
       bi_payload_offset = length (sk_data (mw_w mw)) + 8\<rparr>"
  have len: "length ?pre = length (sk_data (mw_w mw))" using fl g by simp
  have f: "sk_data w = ?pre @ moov" using w by simp
  have "find_box (walk (sk_data w)) (ascii ''moov'') = Some ?b"
    using finalize_walk [OF ok fin small moov] by (simp add: find_box_def)
  moreover have "holds (sk_data w) ?b mp" by (rule moov_held [OF box f small]) (use len in simp_all)
  moreover have "slice (bi_offset ?b) (bi_offset ?b + bi_size ?b) (sk_data w) = moov"
    using slice_middle [of ?pre moov "[]"] f len by simp
  moreover have "bi_size ?b = length moov" by simp
  moreover have "length (sk_data w) = length (sk_data (mw_w mw)) + length moov" using f len by simp
  ultimately show thesis by (rule that)
qed

lemma walk_moov:
  assumes "mp4_box (ascii ''moov'') mp = Some moov"
  obtains b where "find_box (walk moov) (ascii ''moov'') = Some b" "holds moov b mp"
proof -
  have "length moov < 2 ^ 32" using assms by (auto simp: mp4_box_Some_iff)
  then have "holds_all moov [(ascii ''moov'', mp)] (walk_from moov (0 + length (concat [moov])) 0)"
    using assms by (intro walk_from_holds [of _ "[moov]"]) (auto simp: starts_iff u64_max_def)
  then show thesis
    using that by (auto simp: walk_def walk_range_def list_all2_Cons1 find_box_def)
qed

section \<open>The reader that loads only the movie box\<close>

lemma read_top_level_box_walk:
  assumes step: "walk_step f (length f) pos = Some (b, pos')" and small: "length f \<le> u64_max"
  shows "read_top_level_box f pos (length f) = Inr b"
proof -
  let ?s = "be_nat (slice pos (pos + 4) f)"
  have word: "unat (be_u32 (slice pos (pos + 4) f)) = ?s" if "pos + 4 \<le> length f"
    using that be_nat_less [of "slice pos (pos + 4) f"] by (simp add: be_u32_def unat_word_of_nat_less)
  have word8: "unat (be_u64 (slice (pos + 8) (pos + 16) f)) = be_nat (slice (pos + 8) (pos + 16) f)"
    if "pos + 16 \<le> length f"
    using that be_nat_less [of "slice (pos + 8) (pos + 16) f"] by (simp add: be_u64_def unat_word_of_nat_less)
  have parts: "take 4 (slice pos (pos + 8) f) = slice pos (pos + 4) f"
    "slice 4 8 (slice pos (pos + 8) f) = slice (pos + 4) (pos + 8) f"
    by (simp_all add: slice_def min_def drop_take add.commute)
  have hdr: "pos + 8 \<le> length f" using step by (auto simp: walk_step_def bind_eq_Some_conv checked_simps split: if_splits)
  show ?thesis
  proof (cases "uses_large_size ?s")
    case True
    then have "pos + 16 \<le> length f"
      using step by (auto simp: walk_step_def bind_eq_Some_conv checked_simps Let_def split: if_splits)
    with True step hdr small show ?thesis
      by (auto simp: walk_step_def read_top_level_box_def ends_by_def checked_add_u64_def
          read_exact_at_def get_range_def parts word word8 Let_def add.assoc case_sum_Some_iff split: if_splits)
  next
    case False
    with step hdr small show ?thesis
      by (auto simp: walk_step_def read_top_level_box_def ends_by_def checked_add_u64_def
          read_exact_at_def get_range_def parts word Let_def case_sum_Some_iff split: if_splits)
  qed
qed

lemma find_moov_bytes_walk:
  "find_box (walk_from f (length f) pos) (ascii ''moov'') = Some b \<Longrightarrow> length f \<le> u64_max \<Longrightarrow>
     find_moov_bytes f pos = read_box_bytes f b"
proof (induction f pos rule: find_moov_bytes.induct)
  case (1 f pos)
  then obtain c pos' where step: "walk_step f (length f) pos = Some (c, pos')"
    by (auto simp: walk_from.simps [of f "length f" pos] find_box_def split: option.splits)
  note bounds = walk_step_bounds [OF step] and top = read_top_level_box_walk [OF step "1.prems"(2)]
  have pos: "pos < length f" using bounds by simp
  show ?case
  proof (cases "bi_fourcc c = ascii ''moov''")
    case True
    with "1.prems"(1) step have "c = b"
      by (simp add: walk_from.simps [of f "length f" pos] find_box_def)
    with True top pos show ?thesis by (simp add: find_moov_bytes.simps [of f pos])
  next
    case False
    with "1.prems"(1) step have "find_box (walk_from f (length f) pos') (ascii ''moov'') = Some b"
      by (simp add: walk_from.simps [of f "length f" pos] find_box_def)
    moreover have next_pos: "checked_add_u64 (bi_offset c) (bi_size c) = Some pos'"
      using bounds "1.prems"(2) by (simp add: checked_simps)
    ultimately have "find_moov_bytes f pos' = read_box_bytes f b"
      using "1.IH" [OF pos top False next_pos] bounds "1.prems"(2) by simp
    then show ?thesis
      using pos top False next_pos bounds by (simp add: find_moov_bytes.simps [of f pos])
  qed
qed

end
