(* ===== verification/Mp4_Timing.thy ===== *)
theory Mp4_Timing
  imports Mp4_Parse_File
begin

text \<open>
  Presentation times.  Each run of a track's timeline presents a block of its samples
  (crates/clipline-mp4/src/writer.rs); the edit list the writer makes of the runs, applied by the
  parser (trim.rs), gives every sample the decode time it was recorded at.
\<close>

section \<open>Runs and the blocks of samples they present\<close>

abbreviation covers :: "timeline_run list \<Rightarrow> nat list list \<Rightarrow> bool" where
  "covers \<equiv> list_all2 (\<lambda>r b. b \<noteq> [] \<and> (\<forall>d \<in> set b. 0 < d) \<and> sum_list b = tl_duration r)"

definition block_times :: "timeline_run list \<Rightarrow> nat list list \<Rightarrow> nat list" where
  "block_times runs blocks = concat (map (\<lambda>(r, b). start_times (tl_presentation_start r) b) (zip runs blocks))"

text \<open>The samples of a track are presented at the given times.\<close>

definition timed :: "track_state \<Rightarrow> nat list \<Rightarrow> bool" where
  "timed st ts \<longleftrightarrow> (\<exists>blocks. durations st = concat blocks \<and> covers (ks_timeline_runs st) blocks
     \<and> ts = block_times (ks_timeline_runs st) blocks)"

lemma timed_new: "timed (track_state_new cfg) []"
  unfolding timed_def by (rule exI [of _ "[]"]) (simp add: track_state_new_def durations_def block_times_def)

lemma block_times_snoc:
  "length runs = length blocks \<Longrightarrow>
     block_times (runs @ [r]) (blocks @ [b]) = block_times runs blocks @ start_times (tl_presentation_start r) b"
  by (simp add: block_times_def)

lemma record_run_cases:
  assumes "record_run st ds = Inr st'"
  obtains "st' = st\<lparr>ks_timeline_runs := ks_timeline_runs st @
      [\<lparr>tl_presentation_start = ks_next_decode_time st, tl_media_start = ks_media_duration st,
        tl_duration = sum_list ds\<rparr>]\<rparr>"
  | init r where "ks_timeline_runs st = init @ [r]"
      "st' = st\<lparr>ks_timeline_runs := init @ [r\<lparr>tl_duration := tl_duration r + sum_list ds\<rparr>]\<rparr>"
      "tl_presentation_start r + tl_duration r = ks_next_decode_time st"
proof -
  let ?last = "last (ks_timeline_runs st)"
  from assms consider "st' = st\<lparr>ks_timeline_runs := ks_timeline_runs st @
      [\<lparr>tl_presentation_start = ks_next_decode_time st, tl_media_start = ks_media_duration st,
        tl_duration = sum_list ds\<rparr>]\<rparr>"
    | "ks_timeline_runs st \<noteq> []" "st' = st\<lparr>ks_timeline_runs := butlast (ks_timeline_runs st)
        @ [?last\<lparr>tl_duration := tl_duration ?last + sum_list ds\<rparr>]\<rparr>"
      "tl_presentation_start ?last + tl_duration ?last = ks_next_decode_time st"
    by (auto simp: record_run_def Let_def bind_out_Inr_iff checked_simps
        dest!: try_fold_durations split: if_splits)
  then show thesis
  proof cases
    case 2
    then show thesis using that(2) [of "butlast (ks_timeline_runs st)" ?last] by simp
  qed (rule that(1))
qed

lemma covers_snoc:
  "covers (init @ [r]) blocks \<longleftrightarrow> (\<exists>bs b. blocks = bs @ [b] \<and> covers init bs
     \<and> b \<noteq> [] \<and> (\<forall>d \<in> set b. 0 < d) \<and> sum_list b = tl_duration r)"
proof
  assume "\<exists>bs b. blocks = bs @ [b] \<and> covers init bs
     \<and> b \<noteq> [] \<and> (\<forall>d \<in> set b. 0 < d) \<and> sum_list b = tl_duration r"
  then show "covers (init @ [r]) blocks" by (auto intro!: list_all2_appendI)
qed (auto simp: list_all2_append1 list_all2_Cons1)

lemma record_track_timed:
  assumes rec: "record_track st off ss = (st', Inr ())" and ok: "track_ok st" "decode_ok st"
    and timed: "timed st ts" and pos: "ss \<noteq> []" "\<forall>s \<in> set ss. fi_duration s \<noteq> 0"
  shows "timed st' (ts @ start_times (ks_next_decode_time st) (map (unat \<circ> fi_duration) ss))"
proof -
  let ?ds = "map (unat \<circ> fi_duration) ss"
  obtain st1 st2 where st1: "record_run st ?ds = Inr st1"
    and st2: "record_chunk st1 off (length ss) = Inr st2" and st3: "record_samples ss st2 = (st', Inr ())"
    using rec by (auto simp: record_track_def after_def split: sum.splits)
  obtain rs where "st1 = st\<lparr>ks_timeline_runs := rs\<rparr>" using record_run_view [OF st1 ok(2)] by blast
  then have ok1: "track_ok st1" using ok(1) by (simp add: track_ok_def durations_def chunk_counts_def)
  have runs: "ks_timeline_runs st' = ks_timeline_runs st1"
    using record_chunk_view [OF st2 ok1] record_samples_view [OF st3] by simp
  have durs: "durations st' = durations st @ ?ds" using record_track_view [OF rec ok] by simp
  have dpos: "\<forall>d \<in> set ?ds. 0 < d" using pos(2) by (auto simp: unat_gt_0)
  obtain blocks where b: "durations st = concat blocks" "covers (ks_timeline_runs st) blocks"
    "ts = block_times (ks_timeline_runs st) blocks"
    using timed by (auto simp: timed_def)
  show ?thesis
  proof (rule record_run_cases [OF st1])
    assume "st1 = st\<lparr>ks_timeline_runs := ks_timeline_runs st @
      [\<lparr>tl_presentation_start = ks_next_decode_time st, tl_media_start = ks_media_duration st,
        tl_duration = sum_list ?ds\<rparr>]\<rparr>"
    with b durs dpos pos(1) runs show ?thesis
      unfolding timed_def
      by (intro exI [of _ "blocks @ [?ds]"]) (auto simp: covers_snoc block_times_snoc list_all2_lengthD)
  next
    fix init r
    assume r: "ks_timeline_runs st = init @ [r]"
      "st1 = st\<lparr>ks_timeline_runs := init @ [r\<lparr>tl_duration := tl_duration r + sum_list ?ds\<rparr>]\<rparr>"
      "tl_presentation_start r + tl_duration r = ks_next_decode_time st"
    with b(2) obtain bs lb where l: "blocks = bs @ [lb]" "covers init bs" "lb \<noteq> []"
      "\<forall>d \<in> set lb. 0 < d" "sum_list lb = tl_duration r"
      by (auto simp: covers_snoc)
    with b r durs dpos runs show ?thesis
      unfolding timed_def
      by (intro exI [of _ "bs @ [lb @ ?ds]"])
        (auto simp: covers_snoc block_times_snoc list_all2_lengthD start_times_append)
  qed
qed

lemma start_times_last: "start_times t (ds @ [d]) = start_times t (ds @ [d'])"
  by (simp add: start_times_append)

lemma advance_track_timed:
  assumes adv: "advance_track st t = Inr st'" and ok: "track_ok st" "decode_ok st" and timed: "timed st ts"
  shows "timed st' ts"
proof -
  obtain st1 absorbed where ab: "absorb_subframe_video_gap st t = Inr (st1, absorbed)"
    and st': "st' = (if absorbed then st1 else st1\<lparr>ks_next_decode_time := t\<rparr>)"
    using adv by (fastforce simp: advance_track_def bind_out_Inr_iff split: if_splits prod.splits)
  show ?thesis
  proof (cases absorbed)
    case False
    with absorb_cases(1) [OF ab] st' timed show ?thesis by (simp add: timed_def durations_def)
  next
    case True
    let ?gap = "t - ks_next_decode_time st" and ?run = "last (ks_timeline_runs st)"
    let ?e = "dn_sample_delta (last (ks_duration_runs st)) + ?gap"
    note a = absorb_cases(2) [OF ab True]
    have pos: "\<forall>r \<in> set (ks_duration_runs st). 0 < dn_sample_count r" using ok(1) by (simp add: track_ok_def)
    have d': "durations st' = butlast (durations st) @ [?e]"
      using expand_extend_last [OF _ pos, of ?e] a st' True by (simp add: durations_def)
    obtain dr di where dr: "ks_duration_runs st = di @ [dr]" "0 < dn_sample_count dr"
      using a pos by (metis append_butlast_last_id in_set_conv_decomp)
    then have last: "durations st \<noteq> []" "last (durations st) = dn_sample_delta (last (ks_duration_runs st))"
      by (auto simp: durations_def expand_runs_append expand_runs_single)
    obtain init where init: "ks_timeline_runs st = init @ [?run]"
      using a by (metis append_butlast_last_id)
    obtain blocks where b: "durations st = concat blocks" "covers (init @ [?run]) blocks"
      "ts = block_times (init @ [?run]) blocks"
      using timed init by (auto simp: timed_def)
    then obtain bs lb where l: "blocks = bs @ [lb]" "covers init bs" "lb \<noteq> []"
      "\<forall>d \<in> set lb. 0 < d" "sum_list lb = tl_duration ?run"
      by (auto simp: covers_snoc)
    let ?lb = "butlast lb @ [last lb + ?gap]"
    have lb: "lb = butlast lb @ [last lb]" using l(3) by simp
    have e: "?e = last lb + ?gap" using last b(1) l(1,3) by simp
    have durs: "durations st' = concat (bs @ [?lb])"
      using d' e b(1) l(1,3) by (simp add: butlast_append)
    have runs': "ks_timeline_runs st' = init @ [?run\<lparr>tl_duration := tl_duration ?run + ?gap\<rparr>]"
      using a st' True init by (simp add: butlast_snoc [of init ?run, folded init])
    have "covers (ks_timeline_runs st') (bs @ [?lb])"
    proof -
      have "sum_list ?lb = tl_duration ?run + ?gap" using lb l(5) by (metis add.assoc sum_list.Cons sum_list.Nil sum_list_append add_0_right)
      moreover have "\<forall>d \<in> set ?lb. 0 < d" using l(3,4) by (auto dest: in_set_butlastD)
      ultimately show ?thesis using l(2) runs' by (auto simp: covers_snoc)
    qed
    moreover have "ts = block_times (ks_timeline_runs st') (bs @ [?lb])"
    proof -
      have "ts = block_times init bs @ start_times (tl_presentation_start ?run) (butlast lb @ [last lb])"
        using b(3) l(1) lb list_all2_lengthD [OF l(2)] by (simp add: block_times_snoc)
      also have "\<dots> = block_times (init @ [?run\<lparr>tl_duration := tl_duration ?run + ?gap\<rparr>]) (bs @ [?lb])"
        using list_all2_lengthD [OF l(2)] start_times_last [of _ "butlast lb" "last lb" "last lb + ?gap"]
        by (simp add: block_times_snoc)
      finally show ?thesis using runs' by simp
    qed
    ultimately show ?thesis using durs unfolding timed_def by blast
  qed
qed

section \<open>The schedule of a recording\<close>

text \<open>
  What a reader should find of track \<open>i\<close>: the bytes, sync flag and decode time of every sample
  handed to the writer.  The clock starts at zero, runs with the durations and is set by an
  advance; it knows nothing of fragments, runs or tables.
\<close>

fun scheduled :: "writer_op list \<Rightarrow> nat \<Rightarrow> nat \<Rightarrow> nat list" where
  "scheduled [] i t = []"
| "scheduled (WriteFragment per_track # ops) i t =
     (let ds = map (unat \<circ> fs_duration) (per_track ! i)
      in start_times t ds @ scheduled ops i (t + sum_list ds))"
| "scheduled (AdvanceTrack j t' # ops) i t = scheduled ops i (if i = j then t' else t)"

text \<open>The time the clock of track \<open>i\<close> shows at the end.\<close>

fun clock :: "writer_op list \<Rightarrow> nat \<Rightarrow> nat \<Rightarrow> nat" where
  "clock [] i t = t"
| "clock (WriteFragment per_track # ops) i t =
     clock ops i (t + sum_list (map (unat \<circ> fs_duration) (per_track ! i)))"
| "clock (AdvanceTrack j t' # ops) i t = clock ops i (if i = j then t' else t)"

lemma record_tracks_nth:
  "record_tracks off infos sts = (sts', Inr ()) \<Longrightarrow> length infos = length sts \<Longrightarrow> i < length sts \<Longrightarrow>
     length sts' = length sts \<and> (if infos ! i = [] then sts' ! i = sts ! i
       else \<exists>off'. record_track (sts ! i) off' (infos ! i) = (sts' ! i, Inr ()))"
proof (induction off infos sts arbitrary: sts' i rule: record_tracks.induct)
  case (1 off ss sss st sts)
  show ?case
  proof (cases "ss = []")
    case True
    with "1.prems"(1) obtain sts1 where rest: "record_tracks off sss sts = (sts1, Inr ())" "sts' = st # sts1"
      by (auto simp: apfst_def map_prod_def split: prod.splits)
    show ?thesis
    proof (cases i)
      case 0
      have "length sts1 = length sts"
        using "1.IH"(1) [OF True rest(1), of 0] "1.prems"(2) rest(1) by (cases sts) (auto simp: True)
      with 0 True rest(2) show ?thesis by simp
    next
      case (Suc j)
      with "1.IH"(1) [OF True rest(1), of j] "1.prems"(2,3) rest(2) show ?thesis by simp
    qed
  next
    case False
    with "1.prems"(1) obtain st1 sts1 where st1: "record_track st off ss = (st1, Inr ())"
      and rest: "record_tracks (off + sum_list (map (unat \<circ> fi_size) ss)) sss sts = (sts1, Inr ())"
      and s: "sts' = st1 # sts1"
      by (auto simp: apfst_def map_prod_def split: prod.splits sum.splits)
    note IH = "1.IH"(2) [OF False st1 [symmetric] refl rest]
    show ?thesis
    proof (cases i)
      case 0
      have "length sts1 = length sts"
        using IH [of 0] "1.prems"(2) rest by (cases sts) auto
      with 0 False st1 s show ?thesis by auto
    next
      case (Suc j)
      with IH [of j] "1.prems"(2,3) s show ?thesis by simp
    qed
  qed
qed auto

text \<open>What a successful fragment does to one track.\<close>

lemma write_fragment_multi_nth:
  assumes wr: "write_fragment_multi mw per_track = (mw', Inr ())" and i: "i < length (mw_tracks mw)"
    and len: "length per_track = length (mw_tracks mw)"
  obtains "per_track ! i = []" "mw_tracks mw' ! i = mw_tracks mw ! i"
  | off ss where "record_track (mw_tracks mw ! i) off ss = (mw_tracks mw' ! i, Inr ())" "ss \<noteq> []"
      "map fi_duration ss = map fs_duration (per_track ! i)" "\<forall>s \<in> set ss. fi_duration s \<noteq> 0"
proof (cases "fragment_info_storage fragment_info per_track (length (mw_tracks mw))")
  case (Inl e)
  with wr show ?thesis by (simp add: write_fragment_multi_def)
next
  case (Inr r)
  show ?thesis
  proof (cases r)
    case None
    with Inr have "list_all (\<lambda>ss. ss = []) per_track"
      by (auto simp: fragment_info_storage_def bind_out_Inr_iff split: if_splits)
    then have "per_track ! i = []" using i len by (simp add: list_all_length)
    moreover have "mw' = mw" using wr Inr None by (simp add: write_fragment_multi_def)
    ultimately show ?thesis using that(1) by simp
  next
    case (Some infos)
    then have s: "fragment_info_storage fragment_info per_track (length (mw_tracks mw)) = Inr (Some infos)"
      using Inr by simp
    note info = fragment_info_storage_Some [OF s]
    have "validate_nonzero_durations (map fi_duration (concat infos)) = Inr ()"
      using s by (auto simp: fragment_info_storage_def bind_out_Inr_iff split: if_splits)
    then have pos: "\<forall>s \<in> set (concat infos). fi_duration s \<noteq> 0"
      by (auto simp: validate_nonzero_durations_def list_ex_iff split: if_splits)
    obtain off where "record_tracks off infos (mw_tracks mw) = (mw_tracks mw', Inr ())"
      using wr s by (auto simp: write_fragment_multi_def write_planned_fragment_def Let_def
          split: sum.splits prod.splits)
    from record_tracks_nth [OF this _ i] info len
    have r: "if infos ! i = [] then mw_tracks mw' ! i = mw_tracks mw ! i
       else \<exists>off'. record_track (mw_tracks mw ! i) off' (infos ! i) = (mw_tracks mw' ! i, Inr ())" by simp
    have li: "length (infos ! i) = length (per_track ! i)" using info i len by simp
    have "map fi_duration (infos ! i) = map fs_duration (per_track ! i)"
      using info i len
      by (intro nth_equalityI) (auto simp: fragment_info_def sample_info_of_Inr)
    moreover have "\<forall>s \<in> set (infos ! i). fi_duration s \<noteq> 0" using pos info i len by auto
    ultimately show ?thesis using r li that by (cases "infos ! i = []") auto
  qed
qed

lemma writer_run_timed:
  "writer_run mw ops = Some mw' \<Longrightarrow> writer_ok mw \<Longrightarrow> i < length (mw_tracks mw) \<Longrightarrow>
   timed (mw_tracks mw ! i) ts \<Longrightarrow>
     timed (mw_tracks mw' ! i) (ts @ scheduled ops i (ks_next_decode_time (mw_tracks mw ! i)))
     \<and> ks_next_decode_time (mw_tracks mw' ! i) = clock ops i (ks_next_decode_time (mw_tracks mw ! i))"
proof (induction ops arbitrary: mw ts)
  case (Cons op ops)
  let ?st = "mw_tracks mw ! i"
  have ok: "track_ok ?st" "decode_ok ?st" using Cons.prems(2,3) writer_ok_tracks by auto
  show ?case
  proof (cases op)
    case (WriteFragment per_track)
    with Cons.prems(1) obtain mw1 where mw1: "write_fragment_multi mw per_track = (mw1, Inr ())"
      and run: "writer_run mw1 ops = Some mw'" by (auto split: prod.splits sum.splits)
    note view = write_fragment_multi_view [OF Cons.prems(2) mw1]
    let ?ds = "map (unat \<circ> fs_duration) (per_track ! i)"
    have len: "length (mw_tracks mw1) = length (mw_tracks mw)" "length per_track = length (mw_tracks mw)"
      using view arg_cong [of "map _ _" _ length] map_eq_imp_length_eq by force+
    have "timed (mw_tracks mw1 ! i) (ts @ start_times (ks_next_decode_time ?st) ?ds)
        \<and> ks_next_decode_time (mw_tracks mw1 ! i) = ks_next_decode_time ?st + sum_list ?ds"
    proof (rule write_fragment_multi_nth [OF mw1 Cons.prems(3) len(2)])
      fix off ss
      assume r: "record_track ?st off ss = (mw_tracks mw1 ! i, Inr ())" "ss \<noteq> []"
        "map fi_duration ss = map fs_duration (per_track ! i)" "\<forall>s \<in> set ss. fi_duration s \<noteq> 0"
      then have "map (unat \<circ> fi_duration) ss = ?ds" by (metis map_map)
      with record_track_timed [OF r(1) ok Cons.prems(4) r(2,4)] record_track_view [OF r(1) ok]
      show ?thesis by simp
    qed (use Cons.prems(4) in simp)
    with Cons.IH [OF run, of "ts @ start_times (ks_next_decode_time ?st) ?ds"] view len(1) Cons.prems(3)
      WriteFragment show ?thesis by (simp add: Let_def)
  next
    case (AdvanceTrack j t)
    with Cons.prems(1) obtain mw1 where mw1: "set_track_decode_time mw j t = (mw1, Inr ())"
      and run: "writer_run mw1 ops = Some mw'" by (auto split: prod.splits sum.splits)
    then obtain st' where j: "j < length (mw_tracks mw)" and adv: "advance_track (mw_tracks mw ! j) t = Inr st'"
      and t1: "mw_tracks mw1 = (mw_tracks mw)[j := st']"
      by (auto simp: set_track_decode_time_def get_at_def split: if_splits sum.splits)
    have "timed (mw_tracks mw1 ! i) ts \<and> ks_next_decode_time (mw_tracks mw1 ! i)
        = (if i = j then t else ks_next_decode_time ?st)"
      using advance_track_timed [of ?st t st' ts] advance_track_view [of ?st t st'] adv ok t1 j Cons.prems(3,4)
      by (cases "i = j") auto
    with Cons.IH [OF run, of ts] set_track_decode_time_ok [OF mw1 Cons.prems(2)] Cons.prems(3) AdvanceTrack
    show ?thesis by (cases "i = j") simp_all
  qed
qed simp


section \<open>The edit list of a timeline\<close>

text \<open>
  A track timescale that divides the movie timescale, \<open>k\<close> movie ticks to a track tick: the opus
  rate 48000 and the usual video timescales do.
\<close>

abbreviation divides :: "u32 \<Rightarrow> nat \<Rightarrow> bool" where
  "divides ts k \<equiv> unat ts * k = 720000"

lemma unat_movie_timescale [simp]: "unat movie_timescale = 720000"
  by (simp add: movie_timescale_def)

lemma divides_le: "divides ts k \<Longrightarrow> k \<le> 720000"
  by (metis dvd_imp_le dvd_triv_right zero_less_numeral)

lemma rescale_exact:
  assumes "divides ts k" "d * 720000 \<le> u64_max"
  shows "rescale_duration d ts movie_timescale = Some (d * k)"
proof -
  have ts: "0 < unat ts" using assms(1) by (cases "unat ts") auto
  have "d * 720000 = d * k * unat ts" using assms(1) by (simp add: mult.commute mult.left_commute)
  then have "d * 720000 div unat ts = d * k" using ts by (metis nonzero_mult_div_cancel_right neq0_conv)
  moreover have "d * k \<le> u64_max"
    using order_trans [OF mult_le_mono2 [OF divides_le [OF assms(1)]] assms(2)] .
  ultimately show ?thesis using ts by (auto simp: rescale_duration_def)
qed

lemma rescale_ticks_exact:
  assumes "divides ts k" "c \<le> u64_max"
  shows "rescale_ticks (c * k) movie_timescale ts = Inr c"
proof -
  have "c * k * unat ts = c * 720000" using assms(1) by (metis mult.assoc mult.commute)
  then have "c * k * unat ts div 720000 = c" by (metis nonzero_mult_div_cancel_right zero_neq_numeral)
  then show ?thesis using assms(2) by (simp add: rescale_ticks_def) (simp add: movie_timescale_def)
qed

fun edits_of :: "nat \<Rightarrow> nat \<Rightarrow> timeline_run list \<Rightarrow> parsed_edit list" where
  "edits_of k cursor [] = []"
| "edits_of k cursor (r # rs) =
     (if cursor < tl_presentation_start r
      then [\<lparr>pe_duration_movie_ts = (tl_presentation_start r - cursor) * k, pe_media_time = - 1\<rparr>] else [])
     @ \<lparr>pe_duration_movie_ts = tl_duration r * k, pe_media_time = int (tl_media_start r)\<rparr>
     # edits_of k (tl_presentation_start r + tl_duration r) rs"

lemma sint_word_of_nat: "n \<le> i64_max \<Longrightarrow> sint (word_of_nat n :: i64) = int n"
  by (simp add: i64_max_def signed_of_nat signed_take_bit_int_eq_self)

lemma timeline_ok_bounds:
  "timeline_ok m p rs m' p' \<Longrightarrow> m \<le> p \<Longrightarrow> p \<le> p' \<and> m' \<le> p' \<and>
     (\<forall>r \<in> set rs. tl_presentation_start r + tl_duration r \<le> p' \<and> tl_media_start r \<le> p')"
  by (induction rs arbitrary: m p) fastforce+

lemma edit_view_entry:
  "edit_view \<lparr>ee_duration_movie_ts = a, ee_media_time = b\<rparr>
     = \<lparr>pe_duration_movie_ts = unat a, pe_media_time = sint b\<rparr>"
  by (simp add: edit_view_def)

lemma edit_entries_view:
  assumes k: "divides ts k" and small: "p' * 720000 \<le> u64_max"
  shows "timeline_ok m c runs m' p' \<Longrightarrow> m \<le> c \<Longrightarrow> \<forall>r \<in> set runs. 0 < tl_duration r \<Longrightarrow>
    \<exists>es. edit_entries ts (c * k) runs = Some es \<and> map edit_view es = edits_of k c runs"
proof (induction runs arbitrary: m c)
  case (Cons r runs)
  let ?s = "tl_presentation_start r" and ?d = "tl_duration r"
  have k0: "0 < k" using k by (cases k) auto
  have b: "?s + ?d \<le> p'" "tl_media_start r \<le> p'" "c \<le> ?s"
    using timeline_ok_bounds [OF Cons.prems(1,2)] Cons.prems(1) by simp_all
  have mono: "x * 720000 \<le> u64_max" if "x \<le> p'" for x
    using mult_le_mono1 [OF that, of 720000] small by simp
  have kle: "x * k \<le> u64_max" if "x \<le> p'" for x
    using order_trans [OF mult_le_mono2 [OF divides_le [OF k]] mono [OF that]] .
  have word: "unat (word_of_nat (x * k) :: u64) = x * k" if "x \<le> p'" for x
    using kle [OF that] by (intro unat_word_of_nat_less) (simp add: u64_max_def)
  have resc: "rescale_duration ?s ts movie_timescale = Some (?s * k)"
    "rescale_duration (saturating_add_u64 ?s ?d) ts movie_timescale = Some ((?s + ?d) * k)"
  proof -
    have "saturating_add_u64 ?s ?d = ?s + ?d"
      using mono [OF b(1)] by (simp add: saturating_add_u64_def)
    then show "rescale_duration ?s ts movie_timescale = Some (?s * k)"
      "rescale_duration (saturating_add_u64 ?s ?d) ts movie_timescale = Some ((?s + ?d) * k)"
      using rescale_exact [OF k mono, of ?s] rescale_exact [OF k mono [OF b(1)]] b(1) by simp_all
  qed
  have mt: "tl_media_start r \<le> i64_max"
    using mono [OF b(2)] by (simp add: u64_max_def i64_max_def)
  obtain es where es: "edit_entries ts ((?s + ?d) * k) runs = Some es"
    "map edit_view es = edits_of k (?s + ?d) runs"
    using Cons.IH [of "m + ?d" "?s + ?d"] Cons.prems by auto
  have sub: "(?s + ?d) * k - ?s * k = ?d * k" "?s * k - c * k = (?s - c) * k"
    by (simp_all add: diff_mult_distrib add_mult_distrib)
  have d: "0 < ?d * k" using Cons.prems(3) k0 by simp
  have lt: "c * k < ?s * k \<longleftrightarrow> c < ?s" using k0 by simp
  show ?case
    using es resc d mt word [of ?d] word [of "?s - c"] b
    by (simp add: Let_def sub lt edit_view_entry sint_word_of_nat del: of_nat_mult)
qed simp

section \<open>Applying the edits\<close>

definition retime :: "sample_record list \<Rightarrow> nat list \<Rightarrow> sample_record list" where
  "retime rs ts = map (\<lambda>(r, t). r\<lparr>sr_start_ticks := t\<rparr>) (zip rs ts)"

lemma retime_append:
  "length rs = length ts \<Longrightarrow> retime (rs @ rs') (ts @ ts') = retime rs ts @ retime rs' ts'"
  by (simp add: retime_def)

lemma edit_samples_block:
  "map sr_start_ticks now = start_times (m + x) b \<Longrightarrow> \<forall>d \<in> set b. 0 < d \<Longrightarrow> x + sum_list b = d \<Longrightarrow>
   later = [] \<or> sr_start_ticks (hd later) = m + d \<Longrightarrow> s + d \<le> u64_max \<Longrightarrow>
   edit_samples m s (d * 720000) 720000 (now @ later) = Inr (retime now (start_times (s + x) b))"
proof (induction b arbitrary: now x)
  case Nil
  then show ?case by (cases later) (auto simp: checked_sub_nat_def retime_def)
next
  case (Cons e b)
  then obtain r now' where n: "now = r # now'" "sr_start_ticks r = m + x"
    "map sr_start_ticks now' = start_times (m + (x + e)) b"
    by (cases now) (auto simp: add.assoc)
  have "edit_samples m s (d * 720000) 720000 (now' @ later) = Inr (retime now' (start_times (s + (x + e)) b))"
    using Cons.prems n(3) by (intro Cons.IH) (auto simp: add.assoc)
  then show ?case
    using n(1,2) Cons.prems
    by (auto simp: checked_sub_nat_def checked_add_u64_def retime_def add.assoc)
qed

lemma start_times_last_end: "b \<noteq> [] \<Longrightarrow> last (start_times t b) + last b = t + sum_list b"
proof (induction b arbitrary: t)
  case (Cons d b)
  have "start_times (t + d) b = [] \<longleftrightarrow> b = []" by (metis length_0_conv length_start_times)
  with Cons.IH [of "t + d"] show ?case by simp
qed simp

lemma start_times_less: "x \<in> set (start_times t ds) \<Longrightarrow> \<forall>d \<in> set ds. 0 < d \<Longrightarrow> x < t + sum_list ds"
  by (induction ds arbitrary: t) (auto, metis add.assoc)

lemma media_edit_block:
  assumes k: "divides ts k" and times: "map sr_start_ticks now = start_times m b"
    "map (unat \<circ> sr_duration) now = b" and b: "b \<noteq> []" "\<forall>d \<in> set b. 0 < d" "sum_list b = d"
    and later: "later = [] \<or> sr_start_ticks (hd later) = m + d"
    and done_before: "\<forall>r \<in> set done. sr_start_ticks r < m" and fit: "s + d \<le> u64_max" "m + d \<le> u64_max"
  shows "media_edit (done @ now @ later) ts movie_timescale s m (d * k)
    = Inr (retime now (start_times s b), m + d)"
proof -
  have scaled: "d * k * unat ts = d * 720000" using k by (metis mult.assoc mult.commute)
  have ne: "now \<noteq> []" using times(2) b(1) by auto
  have "sr_start_ticks (hd now) = m" using times(1) ne b(1) by (cases now; cases b) auto
  moreover have "sr_start_ticks (done ! j) \<noteq> m" if "j < length done" for j
    using bspec [OF done_before nth_mem [OF that]] by simp
  ultimately have pos: "position (\<lambda>r. sr_start_ticks r = m) (done @ now @ later) = Some (length done)"
    using ne by (auto simp: position_Some_iff nth_append hd_conv_nth)
  have es: "edit_samples m s (d * 720000) 720000 (now @ later) = Inr (retime now (start_times s b))"
    using edit_samples_block [of now m 0 b d later s] times(1) b fit(1) later by simp
  have len: "length (retime now (start_times s b)) = length now"
    using arg_cong [OF times(2), of length] by (simp add: retime_def)
  then have "retime now (start_times s b) \<noteq> []" using ne by auto
  moreover have "get_at (done @ now @ later) (length done + length now - 1) = Some (last now)"
    using ne by (cases now rule: rev_cases) (auto simp: get_at_def nth_append)
  moreover have "sr_start_ticks (last now) + unat (sr_duration (last now)) = m + d"
  proof -
    have "last (start_times m b) = sr_start_ticks (last now)" "last b = unat (sr_duration (last now))"
      using times ne by (metis last_map, metis comp_apply last_map)
    with start_times_last_end [OF b(1), of m] b(3) show ?thesis by simp
  qed
  ultimately show ?thesis
    unfolding media_edit_def Let_def scaled using pos es len fit(2)
    by (simp add: checked_add_u64_def checked_sub_nat_def)
qed

lemma apply_edits_blocks:
  assumes k: "divides ts k" and small: "p' * 720000 \<le> u64_max"
  shows "timeline_ok m c runs m' p' \<Longrightarrow> m \<le> c \<Longrightarrow> covers runs blocks \<Longrightarrow>
    map sr_start_ticks rest = start_times m (concat blocks) \<Longrightarrow>
    map (unat \<circ> sr_duration) rest = concat blocks \<Longrightarrow> \<forall>r \<in> set done. sr_start_ticks r < m \<Longrightarrow>
    prev = None \<or> prev = Some m \<Longrightarrow>
    apply_edits (done @ rest) ts movie_timescale (c * k) prev (edits_of k c runs)
      = Inr (retime rest (block_times runs blocks))"
proof (induction runs arbitrary: m c blocks rest "done" prev)
  case Nil
  then show ?case by (simp add: retime_def)
next
  case (Cons r runs)
  let ?s = "tl_presentation_start r" and ?d = "tl_duration r"
  obtain b blocks' where bl: "blocks = b # blocks'" "b \<noteq> []" "\<forall>d \<in> set b. 0 < d" "sum_list b = ?d"
    "covers runs blocks'"
    using Cons.prems(3) by (auto simp: list_all2_Cons1)
  define now later where "now = take (length b) rest" and "later = drop (length b) rest"
  have rest: "rest = now @ later" by (simp add: now_def later_def)
  have times: "map sr_start_ticks now = start_times m b" "map sr_start_ticks later = start_times (m + ?d) (concat blocks')"
    "map (unat \<circ> sr_duration) now = b" "map (unat \<circ> sr_duration) later = concat blocks'"
    using Cons.prems(4,5) bl(1,4)
    by (simp_all add: now_def later_def take_map [symmetric] drop_map [symmetric] start_times_append
        comp_def del: map_map)
  have bounds: "?s + ?d \<le> p'" "m \<le> p'" "c \<le> ?s" "tl_media_start r = m" "m \<le> ?s"
    using timeline_ok_bounds [OF Cons.prems(1,2)] Cons.prems(1,2) by simp_all
  have p': "p' \<le> u64_max" using small by simp
  have hd_later: "later = [] \<or> sr_start_ticks (hd later) = m + ?d"
    using times(2) by (cases later; cases "concat blocks'") auto
  have kle: "x * k \<le> u64_max" if "x \<le> p'" for x
    using order_trans [OF mult_le_mono [OF that divides_le [OF k]] small] .
  have media: "media_edit (done @ rest) ts movie_timescale ?s m (?d * k) = Inr (retime now (start_times ?s b), m + ?d)"
    unfolding rest using bounds p' bl times hd_later Cons.prems(6)
    by (intro media_edit_block [OF k]) auto
  have "apply_edits ((done @ now) @ later) ts movie_timescale ((?s + ?d) * k) (Some (m + ?d))
      (edits_of k (?s + ?d) runs) = Inr (retime later (block_times runs blocks'))"
  proof (rule Cons.IH)
    have "sr_start_ticks r < m + ?d" if "r \<in> set now" for r
      using start_times_less [of _ m b] that times(1) bl(3,4) by (metis image_eqI list.set_map)
    moreover have "sr_start_ticks r < m + ?d" if "r \<in> set done" for r
      using that Cons.prems(6) by fastforce
    ultimately show "\<forall>r \<in> set (done @ now). sr_start_ticks r < m + ?d" by auto
  qed (use Cons.prems(1) bl(5) times bounds in \<open>auto simp: comp_def\<close>)
  then have IH: "apply_edits (done @ rest) ts movie_timescale ((?s + ?d) * k) (Some (m + ?d))
      (edits_of k (?s + ?d) runs) = Inr (retime later (block_times runs blocks'))"
    by (simp add: rest)
  have out: "retime rest (block_times (r # runs) blocks)
      = retime now (start_times ?s b) @ retime later (block_times runs blocks')"
    using arg_cong [OF times(3), of length] bl(1)
    by (simp add: rest block_times_def retime_append)
  have step: "apply_edits (done @ rest) ts movie_timescale (?s * k) prev
      (\<lparr>pe_duration_movie_ts = ?d * k, pe_media_time = int m\<rparr> # edits_of k (?s + ?d) runs)
    = Inr (retime rest (block_times (r # runs) blocks))"
    using rescale_ticks_exact [OF k, of ?s] media IH bounds p' kle [of "?s + ?d"] Cons.prems(7) out
    by (auto simp: checked_add_u64_def add_mult_distrib)
  show ?case
  proof (cases "c < ?s")
    case False
    then have "c = ?s" using bounds(3) by simp
    with step bounds(4) show ?thesis by simp
  next
    case True
    have "c * k + (?s - c) * k = ?s * k" using True by (simp add: add_mult_distrib [symmetric])
    then show ?thesis
      using True step bounds rescale_ticks_exact [OF k, of c] p' kle [of ?s]
      by (simp add: checked_add_u64_def)
  qed
qed

end
