(* ===== verification/Mp4_Roundtrip.thy ===== *)
theory Mp4_Roundtrip
  imports Mp4_Timing
begin

text \<open>
  The round trip of a whole recording: what was handed to the writer (writer.rs) is what the
  parser (trim.rs) reads from the finalized file, with every sample's bytes, sync flag and
  presentation time.
\<close>

lemma track_view_parts:
  assumes "stream_ok lo hi st"
  shows "map (\<lambda>v. fst (snd v)) (track_view f st) = durations st"
    and "length (track_view f st) = ks_sample_count st"
proof -
  note len = stream_lengths [OF assms]
  have "length (table_bytes f (ks_chunk_offsets st) (chunk_counts st) (ks_sizes st)) = ks_sample_count st"
    using table_bytes_length len by simp
  then show "map (\<lambda>v. fst (snd v)) (track_view f st) = durations st"
    "length (track_view f st) = ks_sample_count st"
    using len by (auto simp: track_view_def intro!: nth_equalityI)
qed

lemma length_block_times: "covers runs blocks \<Longrightarrow> length (block_times runs blocks) = length (concat blocks)"
  by (induction runs blocks rule: list_all2_induct) (simp_all add: block_times_def)

lemma timed_length: "timed st ts \<Longrightarrow> length ts = length (durations st)"
  by (auto simp: timed_def length_block_times)

lemma covers_positive: "covers runs blocks \<Longrightarrow> \<forall>r \<in> set runs. 0 < tl_duration r"
proof (induction runs blocks rule: list_all2_induct)
  case (Cons r runs b blocks)
  then have "0 < sum_list b" by (cases b) auto
  with Cons show ?case by simp
qed simp

text \<open>The edit list of a track moves every sample to its recorded time.\<close>

lemma edited_times:
  assumes ok: "decode_ok st" and timed: "timed st ts" and k: "divides (track_timescale (ks_cfg st)) k"
    and small: "ks_next_decode_time st * 720000 \<le> u64_max"
    and rs: "map (unat \<circ> sr_duration) rs = durations st" "map sr_start_ticks rs = start_times 0 (durations st)"
      "rs \<noteq> []"
  obtains es where "edit_list st = Some es" "edited (track_timescale (ks_cfg st)) es rs = Inr (retime rs ts)"
proof -
  let ?runs = "ks_timeline_runs st" and ?ts = "track_timescale (ks_cfg st)"
  obtain blocks where b: "durations st = concat blocks" "covers ?runs blocks" "ts = block_times ?runs blocks"
    using timed by (auto simp: timed_def)
  have tl: "timeline_ok 0 0 ?runs (ks_media_duration st) (ks_next_decode_time st)"
    using ok by (simp add: decode_ok_def)
  from edit_entries_view [OF k small tl _ covers_positive [OF b(2)]] obtain es where
    es: "edit_entries ?ts 0 ?runs = Some es" "map edit_view es = edits_of k 0 ?runs" by auto
  have apply_es: "apply_edits rs ?ts movie_timescale 0 None (map edit_view es) = Inr (retime rs ts)"
    using apply_edits_blocks [OF k small tl _ b(2), of rs "[]" None] rs(1,2) b(1,3) es(2) by simp
  have len: "length ts = length rs"
    using timed_length [OF timed] arg_cong [OF rs(1), of length] by simp
  then have ne: "retime rs ts \<noteq> []" using rs(3) by (auto simp: retime_def)
  show thesis
  proof (cases "length es = 1 \<and> ee_media_time (hd es) = 0 \<and> ?runs \<noteq> [] \<and> tl_presentation_start (hd ?runs) = 0")
    case True
    then obtain r runs' where r: "?runs = r # runs'" "tl_presentation_start r = 0" by (cases ?runs) auto
    have "length (edits_of k c runs) \<ge> length runs" for c runs
      by (induction runs arbitrary: c) (simp, simp add: le_SucI)
    then have "length runs' + 1 \<le> length es" using arg_cong [OF es(2), of length] r by (metis One_nat_def add.right_neutral add_Suc_right length_map list.size(4))
    then have "runs' = []" using True by simp
    with r b(2) obtain bl where bl: "blocks = [bl]" by (auto simp: list_all2_Cons1)
    have "ts = map sr_start_ticks rs"
      using b(1,3) bl r \<open>runs' = []\<close> rs(2) by (simp add: block_times_def)
    moreover have "retime rs (map sr_start_ticks rs) = rs"
      by (induction rs) (simp_all add: retime_def)
    ultimately have "edited ?ts [] rs = Inr (retime rs ts)" by (simp add: edited_def)
    moreover have "edit_list st = Some []" using es(1) True by (simp add: edit_list_def)
    ultimately show thesis using that by blast
  next
    case False
    then have "edit_list st = Some es" using es(1) by (auto simp: edit_list_def)
    moreover have "edited ?ts es rs = Inr (retime rs ts)"
    proof (cases "es = []")
      case True
      with apply_es ne have "retime rs ts = []" by simp
      with ne show ?thesis by simp
    next
      case False
      with apply_es ne show ?thesis by (simp add: edited_def)
    qed
    ultimately show thesis by (rule that)
  qed
qed

lemma record_view_retime:
  "length rs = length ts \<Longrightarrow> map (record_view f) (retime rs ts) = map (record_view f) rs
     \<and> map sr_start_ticks (retime rs ts) = ts"
  by (induction rs ts rule: list_induct2) (simp_all add: retime_def record_view_def)

text \<open>One track of a finalized file.\<close>

lemma parsed_of_track:
  assumes ok: "recordable lo source_len st" and timed: "timed st ts"
    and k: "divides (track_timescale (ks_cfg st)) k" and small: "ks_next_decode_time st * 720000 \<le> u64_max"
    and len: "source_len \<le> u64_max" and ne: "ks_sample_count st \<noteq> 0"
  shows "\<exists>rs. parsed_of source_len st = Inr \<lparr>pt_cfg = ks_cfg st,
      pt_timescale = track_timescale (ks_cfg st), pt_samples = rs\<rparr>
    \<and> map (record_view f) rs = track_view f st \<and> map sr_start_ticks rs = ts"
proof -
  have st: "stream_ok lo source_len st" "table_ok st" using ok by (simp_all add: recordable_def)
  obtain rs where rs: "table_records source_len st = Inr rs" "map (record_view f) rs = track_view f st"
    "map sr_start_ticks rs = start_times 0 (durations st)"
    using table_records_view [OF st len] by blast
  have "map (\<lambda>v. fst (snd v)) (map (record_view f) rs) = durations st"
    using track_view_parts(1) [OF st(1)] rs(2) by simp
  then have durs: "map (unat \<circ> sr_duration) rs = durations st" by (simp add: record_view_def comp_def)
  have nr: "length rs = ks_sample_count st"
    using arg_cong [OF durs, of length] stream_lengths(2) [OF st(1)] by simp
  have dec: "decode_ok st" using st(1) by (simp add: stream_ok_def)
  have "rs \<noteq> []" using nr ne by auto
  then obtain es where es: "edit_list st = Some es"
    "edited (track_timescale (ks_cfg st)) es rs = Inr (retime rs ts)"
    using edited_times [OF dec timed k small durs rs(3)] by blast
  have lt: "length rs = length ts"
    using timed_length [OF timed] nr stream_lengths(2) [OF st(1)] by simp
  then have "retime rs ts \<noteq> []" using nr ne by (auto simp: retime_def)
  with rs es have "parsed_of source_len st = Inr \<lparr>pt_cfg = ks_cfg st,
      pt_timescale = track_timescale (ks_cfg st), pt_samples = retime rs ts\<rparr>"
    by (simp add: parsed_of_def)
  with record_view_retime [OF lt, of f] rs(2) show ?thesis by auto
qed

section \<open>A recording\<close>

text \<open>The bytes, sync flag and start time of a parsed sample.\<close>

definition parsed_view :: "bytes \<Rightarrow> parsed_track \<Rightarrow> (bytes \<times> bool) list \<times> nat list" where
  "parsed_view f t = (map (\<lambda>(b, _, k). (b, k)) (map (record_view f) (pt_samples t)),
     map sr_start_ticks (pt_samples t))"

lemma collect_Inr_list:
  "(\<And>i. i < length xs \<Longrightarrow> \<exists>y. f (xs ! i) = Inr y \<and> P i y) \<Longrightarrow>
     \<exists>ys. collect f xs = Inr ys \<and> length ys = length xs \<and> (\<forall>i < length xs. P i (ys ! i))"
proof (induction xs arbitrary: P)
  case (Cons x xs)
  obtain y where y: "f x = Inr y" "P 0 y" using Cons.prems [of 0] by auto
  obtain ys where ys: "collect f xs = Inr ys" "length ys = length xs" "\<forall>i < length xs. P (Suc i) (ys ! i)"
    using Cons.IH [of "\<lambda>i. P (Suc i)"] Cons.prems [of "Suc _"] by auto
  have "P i ((y # ys) ! i)" if "i < Suc (length xs)" for i
    using that y(2) ys(3) by (cases i) auto
  with y(1) ys(1,2) show ?case by simp
qed simp

lemma recording_tracks:
  assumes new: "writer_new_multi sink_new tracks = Inr mw" and run: "writer_run mw ops = Some mw'"
    and fin: "finalize mw' = Some w" and small: "length (sk_data w) \<le> u64_max"
    and samples: "\<And>i. i < length tracks \<Longrightarrow> length (handed ops i) \<le> max_parsed_samples"
  shows "length (mw_tracks mw') = length tracks \<and> map ks_cfg (mw_tracks mw') = tracks
    \<and> (\<forall>st \<in> set (mw_tracks mw'). recordable 44 (length (sk_data w)) st)
    \<and> (\<forall>i < length tracks. timed (mw_tracks mw' ! i) (scheduled ops i 0)
         \<and> ks_next_decode_time (mw_tracks mw' ! i) = clock ops i 0
         \<and> ks_sample_count (mw_tracks mw' ! i) = length (handed ops i)
         \<and> media_view (sk_data w) (mw_tracks mw' ! i) = handed ops i)"
proof -
  note new_ok = writer_new_ok [OF new] and valid = writer_new_valid [OF new]
  have ok: "writer_ok mw" using new_ok by simp
  have mw: "mw_tracks mw = map track_state_new tracks"
    using new by (auto simp: writer_new_multi_def bind_out_Inr_iff)
  note run_ok = writer_run_view [OF run ok]
  have ok': "writer_ok mw'" using run_ok by simp
  note tables = writer_run_tables [OF run ok conjunct2 [OF conjunct2 [OF conjunct2 [OF valid]]]]
  have len: "length (mw_tracks mw') = length tracks" using run_ok new_ok by simp
  have cfgs: "map ks_cfg (mw_tracks mw') = tracks" using tables valid by simp
  obtain moov where moov: "final_moov mw' = Some moov" using fin by (auto simp: finalize_def bind_eq_Some_conv)
  obtain mp where "mp4_box (ascii ''moov'') mp = Some moov"
    using moov by (auto simp: final_moov_def bind_eq_Some_conv)
  then have le: "length (sk_data (mw_w mw')) \<le> length (sk_data w)"
    by (rule finalize_moov [OF ok' fin small moov]) simp
  have free: "mw_free_offset mw' = 28" using ok' ftyp_free_length(2) by (auto simp: writer_ok_def)
  have stream: "stream_ok 44 (length (sk_data w)) st" if "st \<in> set (mw_tracks mw')" for st
    using ok' that free le by (auto simp: writer_ok_def intro: stream_ok_mono)
  have view: "media_view (sk_data w) (mw_tracks mw' ! i) = handed ops i" if "i < length tracks" for i
    using recording_view [OF new run fin small] that by simp
  have cnt: "ks_sample_count (mw_tracks mw' ! i) = length (handed ops i)" if i: "i < length tracks" for i
    using track_view_parts(2) [OF stream, of "mw_tracks mw' ! i" "sk_data w"] i len
      arg_cong [OF view [OF i], of length] by (simp add: media_view_def)
  have "recordable 44 (length (sk_data w)) st" if st: "st \<in> set (mw_tracks mw')" for st
  proof -
    obtain i where i: "i < length tracks" "st = mw_tracks mw' ! i" using st len by (auto simp: in_set_conv_nth)
    have "ks_cfg st = tracks ! i" using arg_cong [OF cfgs, of "\<lambda>l. l ! i"] i len by simp
    then have "valid_config (ks_cfg st)" using valid i(1) by simp
    moreover have "ks_sample_count st \<le> max_parsed_samples" using cnt [OF i(1)] samples [OF i(1)] i(2) by simp
    ultimately show ?thesis using stream [OF st] tables st by (simp add: recordable_def)
  qed
  moreover have "timed (mw_tracks mw' ! i) (scheduled ops i 0)
      \<and> ks_next_decode_time (mw_tracks mw' ! i) = clock ops i 0" if i: "i < length tracks" for i
    using writer_run_timed [OF run ok, of i "[]"] i mw timed_new by (simp add: track_state_new_def)
  ultimately show ?thesis using len cfgs view cnt by blast
qed

text \<open>
  The movie a reader finds is the writer's tracks, one by one, whether it has the whole file or
  loads only the \<open>moov\<close> box.
\<close>

lemma recording_movie:
  assumes new: "writer_new_multi sink_new tracks = Inr mw" and run: "writer_run mw ops = Some mw'"
    and fin: "finalize mw' = Some w" and small: "length (sk_data w) \<le> u64_max"
    and samples: "\<And>i. i < length tracks \<Longrightarrow> length (handed ops i) \<le> max_parsed_samples"
  shows "parse_movie (sk_data w) = collect (parsed_of (length (sk_data w))) (mw_tracks mw')
    \<and> (length (sk_data w) - length (sk_data (mw_w mw')) \<le> max_finalized_moov_bytes \<longrightarrow>
       parse_movie_reader (sk_data w) = parse_movie (sk_data w))"
proof -
  let ?f = "sk_data w" and ?n = "length (sk_data w)"
  note tr = recording_tracks [OF new run fin small samples]
  have ok': "writer_ok mw'" using writer_run_view [OF run] writer_new_ok [OF new] by simp
  obtain moov where moov: "final_moov mw' = Some moov" using fin by (auto simp: finalize_def bind_eq_Some_conv)
  have rec: "\<forall>st \<in> set (mw_tracks mw'). recordable 44 ?n st" using tr by simp
  have ne: "mw_tracks mw' \<noteq> []" using tr writer_new_valid [OF new] by auto
  obtain mp where box: "mp4_box (ascii ''moov'') mp = Some moov" and parse:
    "\<And>buf b. find_box (walk buf) (ascii ''moov'') = Some b \<Longrightarrow> holds buf b mp \<Longrightarrow>
       parse_movie_with_source_len buf ?n = collect (parsed_of ?n) (mw_tracks mw')"
    by (rule parse_movie_reads [OF moov rec ne, where source_len = ?n]) (rule that, assumption, simp)
  obtain b where b: "find_box (walk ?f) (ascii ''moov'') = Some b" "holds ?f b mp"
    "slice (bi_offset b) (bi_offset b + bi_size b) ?f = moov" "bi_size b = length moov"
    "?n = length (sk_data (mw_w mw')) + length moov"
    by (rule finalize_moov [OF ok' fin small moov box]) (rule that)
  obtain mb where mb: "find_box (walk moov) (ascii ''moov'') = Some mb" "holds moov mb mp"
    by (rule walk_moov [OF box]) (rule that)
  have whole: "parse_movie ?f = collect (parsed_of ?n) (mw_tracks mw')"
    using parse [OF b(1,2)] by (simp add: parse_movie_def)
  have "parse_movie_reader ?f = parse_movie ?f"
    if "?n - length (sk_data (mw_w mw')) \<le> max_finalized_moov_bytes"
  proof -
    have "read_finalized_moov_bytes ?f = read_box_bytes ?f b"
      using find_moov_bytes_walk [of ?f 0 b] b(1) small
      by (simp add: read_finalized_moov_bytes_def walk_def walk_range_def)
    moreover have "bi_offset b + bi_size b \<le> ?n"
      using holds_small [OF b(2)] b(2) by (simp add: holds_def)
    then have "read_box_bytes ?f b = Inr moov"
      using that b(3-5) by (simp add: read_box_bytes_def read_exact_at_def get_range_def)
    ultimately show ?thesis
      using parse [OF mb] whole by (simp add: parse_movie_reader_def)
  qed
  with whole show ?thesis by simp
qed

lemma recording_parses:
  assumes new: "writer_new_multi sink_new tracks = Inr mw" and run: "writer_run mw ops = Some mw'"
    and fin: "finalize mw' = Some w" and small: "length (sk_data w) \<le> u64_max"
    and samples: "\<And>i. i < length tracks \<Longrightarrow> handed ops i \<noteq> [] \<and> length (handed ops i) \<le> max_parsed_samples"
    and rates: "\<And>i. i < length tracks \<Longrightarrow> unat (track_timescale (tracks ! i)) dvd 720000
      \<and> clock ops i 0 * 720000 \<le> u64_max"
  obtains ms where "parse_movie (sk_data w) = Inr ms" "length ms = length tracks"
    "\<And>i. i < length tracks \<Longrightarrow> pt_cfg (ms ! i) = tracks ! i
       \<and> pt_timescale (ms ! i) = track_timescale (tracks ! i)
       \<and> parsed_view (sk_data w) (ms ! i) = (handed ops i, scheduled ops i 0)
       \<and> map (record_view (sk_data w)) (pt_samples (ms ! i)) = track_view (sk_data w) (mw_tracks mw' ! i)"
proof -
  let ?f = "sk_data w" and ?n = "length (sk_data w)"
  note tr = recording_tracks [OF new run fin small conjunct2 [OF samples]]
  have rec: "\<forall>st \<in> set (mw_tracks mw'). recordable 44 ?n st" using tr by simp
  have "\<exists>t. parsed_of ?n (mw_tracks mw' ! i) = Inr t \<and> (pt_cfg t = tracks ! i
      \<and> pt_timescale t = track_timescale (tracks ! i) \<and> parsed_view ?f t = (handed ops i, scheduled ops i 0)
      \<and> map (record_view ?f) (pt_samples t) = track_view ?f (mw_tracks mw' ! i))"
    if i: "i < length (mw_tracks mw')" for i
  proof -
    let ?st = "mw_tracks mw' ! i"
    have it: "i < length tracks" using i tr by simp
    have cfg: "ks_cfg ?st = tracks ! i" using arg_cong [of _ _ "\<lambda>l. l ! i"] tr i by (metis nth_map)
    obtain k where k: "divides (track_timescale (ks_cfg ?st)) k"
      using rates [OF it] cfg by (auto simp: dvd_def)
    have "ks_sample_count ?st \<noteq> 0" using tr samples [OF it] it by simp
    with parsed_of_track [OF _ _ k, of 44 ?n "scheduled ops i 0" ?f] rec tr rates [OF it] it i small
    obtain rs where rs: "parsed_of ?n ?st = Inr \<lparr>pt_cfg = ks_cfg ?st,
        pt_timescale = track_timescale (ks_cfg ?st), pt_samples = rs\<rparr>"
      "map (record_view ?f) rs = track_view ?f ?st" "map sr_start_ticks rs = scheduled ops i 0"
      by auto
    have "map (\<lambda>(b, _, k). (b, k)) (map (record_view ?f) rs) = handed ops i"
      using rs(2) tr it by (simp add: media_view_def del: map_map)
    with rs cfg show ?thesis by (simp add: parsed_view_def del: map_map)
  qed
  from collect_Inr_list [where P = "\<lambda>i t. pt_cfg t = tracks ! i \<and> pt_timescale t = track_timescale (tracks ! i)
      \<and> parsed_view ?f t = (handed ops i, scheduled ops i 0)
      \<and> map (record_view ?f) (pt_samples t) = track_view ?f (mw_tracks mw' ! i)", OF this]
  obtain ms where ms: "collect (parsed_of ?n) (mw_tracks mw') = Inr ms" "length ms = length (mw_tracks mw')"
    "\<forall>i < length (mw_tracks mw'). pt_cfg (ms ! i) = tracks ! i \<and> pt_timescale (ms ! i) = track_timescale (tracks ! i)
       \<and> parsed_view ?f (ms ! i) = (handed ops i, scheduled ops i 0)
       \<and> map (record_view ?f) (pt_samples (ms ! i)) = track_view ?f (mw_tracks mw' ! i)"
    by auto
  have "parse_movie ?f = Inr ms"
    using recording_movie [OF new run fin small conjunct2 [OF samples]] ms(1) by simp
  then show thesis by (rule that) (use ms tr in auto)
qed

lemma apply_edits_empty: "apply_edits [] ts ms c prev es = Inr out \<Longrightarrow> out = []"
  by (induction es arbitrary: c prev out) (auto simp: bind_out_Inr_iff media_edit_def split: if_splits)

text \<open>A track without a sample makes the whole file unreadable.\<close>

lemma empty_track_unreadable:
  assumes new: "writer_new_multi sink_new tracks = Inr mw" and run: "writer_run mw ops = Some mw'"
    and fin: "finalize mw' = Some w" and small: "length (sk_data w) \<le> u64_max"
    and samples: "\<And>j. j < length tracks \<Longrightarrow> length (handed ops j) \<le> max_parsed_samples"
    and i: "i < length tracks" "handed ops i = []"
  shows "\<nexists>ms. parse_movie (sk_data w) = Inr ms"
proof
  let ?n = "length (sk_data w)"
  note tr = recording_tracks [OF new run fin small samples]
  assume "\<exists>ms. parse_movie (sk_data w) = Inr ms"
  then obtain ms where "collect (parsed_of ?n) (mw_tracks mw') = Inr ms"
    using recording_movie [OF new run fin small samples] by auto
  then obtain t where t: "parsed_of ?n (mw_tracks mw' ! i) = Inr t"
    using collect_Inr_nth i(1) tr by metis
  let ?st = "mw_tracks mw' ! i"
  have st: "stream_ok 44 ?n ?st" "table_ok ?st" using tr i(1) by (simp_all add: recordable_def)
  have zero: "ks_sample_count ?st = 0" using tr i by simp
  obtain rs where rs: "table_records ?n ?st = Inr rs" "map (record_view []) rs = track_view [] ?st"
    using table_records_view [OF st small] by blast
  have "rs = []" using arg_cong [OF rs(2), of length] track_view_parts(2) [OF st(1)] zero by simp
  have "edited ts es [] = Inr ss \<Longrightarrow> ss = []" for ts es ss
    by (auto simp: edited_def bind_out_Inr_iff dest: apply_edits_empty split: if_splits)
  with t rs(1) \<open>rs = []\<close> show False by (auto simp: parsed_of_def bind_out_Inr_iff split: if_splits)
qed

end
