(* ===== verification/Mp4_Trim_Runs.thy ===== *)
theory Mp4_Trim_Runs
  imports Mp4_Trim Mp4_Roundtrip
begin

text \<open>
  Replaying samples at their times (crates/clipline-mp4/src/trim.rs): the ranges of
  \<open>timed_ranges\<close> cover the samples in order and each one is without a gap, so a successful replay
  is a recording that hands every sample to the writer once, at its own time.
\<close>

section \<open>The ranges\<close>

text \<open>Without a gap: each sample ends where the next one starts.\<close>

definition gapless :: "nat list \<Rightarrow> u32 list \<Rightarrow> nat \<times> nat \<Rightarrow> bool" where
  "gapless ts ds = (\<lambda>(a, b). a < b \<and> slice a b ts = start_times (ts ! a) (map unat (slice a b ds)))"

lemma slice_snoc: "a \<le> i \<Longrightarrow> i < length xs \<Longrightarrow> slice a (Suc i) xs = slice a i xs @ [xs ! i]"
  by (simp add: slice_def Suc_diff_le take_Suc_conv_app_nth)

lemma start_times_snoc: "start_times t (ds @ [d]) = start_times t ds @ [t + sum_list ds]"
  by (simp add: start_times_append)

text \<open>The state of the loop: from \<open>a\<close> to \<open>i\<close> without a gap, and \<open>i\<close> itself follows.\<close>

definition run_open :: "nat list \<Rightarrow> u32 list \<Rightarrow> nat \<Rightarrow> nat \<Rightarrow> bool" where
  "run_open ts ds a i \<longleftrightarrow> a \<le> i
     \<and> slice a i ts = start_times (ts ! a) (map unat (slice a i ds))
     \<and> (i < length ts \<longrightarrow> ts ! i = ts ! a + sum_list (map unat (slice a i ds)))"

lemma run_open_step:
  assumes "run_open ts ds a i" "i < length ts" "length ds = length ts"
    "Suc i < length ts \<Longrightarrow> ts ! Suc i = ts ! i + unat (ds ! i)"
  shows "run_open ts ds a (Suc i)"
proof -
  have "map unat (slice a (Suc i) ds) = map unat (slice a i ds) @ [unat (ds ! i)]"
    using assms by (simp add: slice_snoc run_open_def)
  then show ?thesis using assms by (simp add: run_open_def slice_snoc start_times_snoc)
qed

lemma run_open_start: "run_open ts ds i i"
  by (simp add: run_open_def slice_def)

lemma timed_ranges_from_covers:
  "timed_ranges_from (drop i ts) (drop i ds) a i = Inr ranges \<Longrightarrow> length ds = length ts \<Longrightarrow> i \<le> length ts \<Longrightarrow>
   run_open ts ds a i \<Longrightarrow>
     list_all (gapless ts ds) ranges \<and> concat (map (\<lambda>(a, b). [a..<b]) ranges) = [a..<length ts]
     \<and> (\<forall>r \<in> set (butlast ranges). ts ! (snd r - 1) + unat (ds ! (snd r - 1)) < ts ! snd r)"
proof (induction "length ts - i" arbitrary: i a ranges)
  case 0
  then have i: "i = length ts" by simp
  with "0.prems" have "ranges = (if a < i then [(a, i)] else [])" by (auto split: if_splits)
  moreover have "a \<le> i" using "0.prems"(4) by (simp add: run_open_def)
  ultimately show ?case using "0.prems"(4) i by (simp add: gapless_def run_open_def)
next
  case (Suc n)
  have lt: "i < length ts" "i < length ds" using Suc.hyps(2) Suc.prems(2) by simp_all
  then have drops: "drop i ts = ts ! i # drop (Suc i) ts" "drop i ds = ds ! i # drop (Suc i) ds"
    by (simp_all add: Cons_nth_drop_Suc)
  let ?stop = "ts ! i + unat (ds ! i)"
  have stop: "?stop \<le> u64_max" using Suc.prems(1) by (auto simp: drops bind_out_Inr_iff checked_simps)
  show ?case
  proof (cases "Suc i < length ts")
    case False
    then have "drop (Suc i) ts = []" by simp
    with Suc.prems(1) stop have "timed_ranges_from (drop (Suc i) ts) (drop (Suc i) ds) a (Suc i) = Inr ranges"
      by (simp add: drops checked_add_u64_def)
    from Suc.hyps(1) [OF _ this] show ?thesis
      using Suc.hyps(2) Suc.prems(2) lt False run_open_step [OF Suc.prems(4)] by simp
  next
    case True
    then have hd: "drop (Suc i) ts = ts ! Suc i # drop (Suc (Suc i)) ts" by (simp add: Cons_nth_drop_Suc)
    have le: "?stop \<le> ts ! Suc i" using Suc.prems(1) stop by (auto simp: drops hd checked_add_u64_def split: if_splits)
    show ?thesis
    proof (cases "ts ! Suc i = ?stop")
      case True
      with Suc.prems(1) stop have "timed_ranges_from (drop (Suc i) ts) (drop (Suc i) ds) a (Suc i) = Inr ranges"
        by (simp add: drops hd checked_add_u64_def)
      from Suc.hyps(1) [OF _ this] show ?thesis
        using Suc.hyps(2) Suc.prems(2) lt True run_open_step [OF Suc.prems(4)] by simp
    next
      case False
      with Suc.prems(1) stop le obtain rs where
        rs: "timed_ranges_from (drop (Suc i) ts) (drop (Suc i) ds) (Suc i) (Suc i) = Inr rs"
        and ranges: "ranges = (a, Suc i) # rs"
        by (auto simp: drops hd checked_add_u64_def bind_out_Inr_iff)
      have IH: "list_all (gapless ts ds) rs \<and> concat (map (\<lambda>(a, b). [a..<b]) rs) = [Suc i..<length ts]
          \<and> (\<forall>r \<in> set (butlast rs). ts ! (snd r - 1) + unat (ds ! (snd r - 1)) < ts ! snd r)"
        using Suc.hyps(1) [OF _ rs] Suc.hyps(2) Suc.prems(2) lt run_open_start by simp
      have a: "a \<le> i" using Suc.prems(4) by (simp add: run_open_def)
      have ro: "run_open ts ds a i" by fact
      have "gapless ts ds (a, Suc i)"
        using ro a lt by (simp add: gapless_def run_open_def slice_snoc start_times_snoc)
      moreover have "[a..<Suc i] @ [Suc i..<length ts] = [a..<length ts]"
        using upt_add_eq_append [of a "Suc i" "length ts - Suc i"] a lt
        by (simp only: le_SucI le_add_diff_inverse Suc_leI)
      ultimately show ?thesis using IH False le by (simp add: ranges)
    qed
  qed
qed

lemma timed_ranges_cover:
  assumes "timed_ranges ts ds = Inr ranges"
  shows "length ds = length ts" "list_all (gapless ts ds) ranges"
    "concat (map (\<lambda>(a, b). [a..<b]) ranges) = [0..<length ts]"
    "\<forall>r \<in> set (butlast ranges). ts ! (snd r - 1) + unat (ds ! (snd r - 1)) < ts ! snd r"
  using assms timed_ranges_from_covers [of 0 ts ds 0 ranges]
  by (auto simp: timed_ranges_def run_open_start split: if_splits)


section \<open>A replay is a recording\<close>

definition run_ops :: "frag_sample list list \<Rightarrow> nat list list \<Rightarrow> (nat \<times> nat) list list \<Rightarrow> nat \<Rightarrow> writer_op list" where
  "run_ops samples begins ranges k =
     map (\<lambda>(i, t). AdvanceTrack i t) (run_advances begins ranges k) @ [WriteFragment (run_samples samples ranges k)]"

lemma set_decode_times_run:
  "set_decode_times mw adv = Inr mw1 \<Longrightarrow>
     writer_run mw (map (\<lambda>(i, t). AdvanceTrack i t) adv @ ops) = writer_run mw1 ops"
  by (induction mw adv rule: set_decode_times.induct) (auto simp: map_err_Inr_iff split: prod.splits sum.splits)

lemma write_runs_run:
  "write_runs write_fragment_multi mw samples begins ranges ks = Inr mw' \<Longrightarrow>
     writer_run mw (concat (map (run_ops samples begins ranges) ks)) = Some mw'"
proof (induction ks arbitrary: mw)
  case (Cons k ks)
  obtain mw1 where adv: "set_decode_times mw (run_advances begins ranges k) = Inr mw1"
    using Cons.prems by (auto simp: bind_out_Inr_iff)
  obtain mw2 r where wr2: "write_fragment_multi mw1 (run_samples samples ranges k) = (mw2, r)"
    by (cases "write_fragment_multi mw1 (run_samples samples ranges k)")
  have wr: "write_fragment_multi mw1 (run_samples samples ranges k) = (mw2, Inr ())"
    and rest: "write_runs write_fragment_multi mw2 samples begins ranges ks = Inr mw'"
    using Cons.prems adv wr2 by (cases r; simp add: map_err_Inr_iff)+
  from Cons.IH [OF rest] set_decode_times_run [OF adv] wr show ?case by (simp add: run_ops_def)
qed simp

text \<open>What the part of run \<open>k\<close> does to track \<open>i\<close>.\<close>

abbreviation run_part :: "(nat \<times> nat) list list \<Rightarrow> nat \<Rightarrow> nat \<Rightarrow> 'a list \<Rightarrow> 'a list" where
  "run_part ranges i k xs \<equiv> (case get_at (ranges ! i) k of None \<Rightarrow> [] | Some (a, b) \<Rightarrow> slice a b xs)"

lemma run_samples_nth:
  "i < length ranges \<Longrightarrow> length samples = length ranges \<Longrightarrow>
     run_samples samples ranges k ! i = run_part ranges i k (samples ! i)"
  by (simp add: run_samples_def)

lemma scheduled_append: "scheduled (a @ b) i t = scheduled a i t @ scheduled b i (clock a i t)"
  by (induction a i t rule: scheduled.induct) (simp_all add: Let_def)

lemma clock_append: "clock (a @ b) i t = clock b i (clock a i t)"
  by (induction a i t rule: clock.induct) simp_all

lemma scheduled_advances: "scheduled (map (\<lambda>(i, t). AdvanceTrack i t) adv) j t = []"
  by (induction adv arbitrary: t) auto

lemma clock_advances:
  "clock (map (\<lambda>(i, t). AdvanceTrack i t) (run_advances begins ranges k)) i t
     = (case get_at (ranges ! i) k of None \<Rightarrow> t | Some (a, _) \<Rightarrow> begins ! i ! a)"
  if "i < length ranges"
proof -
  let ?adv = "\<lambda>(i, rs). case get_at rs k of None \<Rightarrow> [] | Some (a, _) \<Rightarrow> [(i, begins ! i ! a)]"
  let ?go = "\<lambda>l. map (\<lambda>(i, t). AdvanceTrack i t) (concat (map ?adv l))"
  have other: "clock (?go l) i t = t" if "\<forall>x \<in> set l. fst x \<noteq> i" for l t
    using that by (induction l arbitrary: t) (auto simp: clock_append split: option.splits)
  have "List.enumerate 0 ranges = List.enumerate 0 (take i ranges) @ (i, ranges ! i)
      # List.enumerate (Suc i) (drop (Suc i) ranges)"
    using that arg_cong [OF id_take_nth_drop [OF that], of "List.enumerate 0"]
    by (simp add: enumerate_append_eq)
  moreover have "\<forall>x \<in> set (List.enumerate 0 (take i ranges)). fst x \<noteq> i"
    "\<forall>x \<in> set (List.enumerate (Suc i) (drop (Suc i) ranges)). fst x \<noteq> i"
    by (auto simp: in_set_enumerate_eq)
  ultimately show ?thesis
    by (simp add: run_advances_def clock_append other split: option.splits)
qed


text \<open>The runs of a track put together are the track.\<close>

lemma concat_parts:
  fixes xs :: "'a list"
  assumes "length rs \<le> n"
  shows "concat (map (\<lambda>k. case get_at rs k of None \<Rightarrow> [] | Some (a, b) \<Rightarrow> slice a b xs) [0..<n])
    = concat (map (\<lambda>(a, b). slice a b xs) rs)"
proof -
  let ?part = "\<lambda>k. case get_at rs k of None \<Rightarrow> [] | Some (a, b) \<Rightarrow> slice a b xs"
  obtain m where n: "n = length rs + m" using assms by (auto simp: le_iff_add)
  have "map ?part [0..<length rs] = map (\<lambda>(a, b). slice a b xs) rs"
    by (intro nth_equalityI) (simp_all add: get_at_def)
  moreover have "map ?part [length rs..<length rs + m] = map (\<lambda>k. []) [length rs..<length rs + m]"
    by (intro map_cong) (simp_all add: get_at_def)
  moreover have "concat (map (\<lambda>k. []) ks) = ([] :: 'a list)" for ks :: "nat list" by (induction ks) simp_all
  moreover have "[0..<n] = [0..<length rs] @ [length rs..<length rs + m]"
    unfolding n by (rule upt_add_eq_append) simp
  ultimately show ?thesis by (simp only: map_append concat_append append_Nil2)
qed

lemma slice_nths: "b \<le> length xs \<Longrightarrow> slice a b xs = map (nth xs) [a..<b]"
  by (intro nth_equalityI) (simp_all add: slice_def)

lemma cover_bounds:
  assumes cover: "concat (map (\<lambda>(a, b). [a..<b]) rs) = [0..<n]" and r: "(a, b) \<in> set rs" "a < b"
  shows "b \<le> n"
proof -
  have "x \<in> set (f r) \<Longrightarrow> r \<in> set rs \<Longrightarrow> x \<in> set (concat (map f rs))" for x r and f :: "nat \<times> nat \<Rightarrow> nat list"
    by auto
  from this [of "b - 1" "\<lambda>(a, b). [a..<b]" "(a, b)"] r have "b - 1 \<in> set [0..<n]"
    unfolding cover by simp
  then show ?thesis using r(2) by simp
qed

lemma cover_slices:
  assumes "concat (map (\<lambda>(a, b). [a..<b]) rs) = [0..<length xs]"
  shows "concat (map (\<lambda>(a, b). slice a b xs) rs) = xs"
proof -
  have "slice a b xs = map (nth xs) [a..<b]" if "(a, b) \<in> set rs" for a b
    using slice_nths cover_bounds [OF assms that] by (cases "a < b") (simp_all add: slice_def)
  then have "map (\<lambda>(a, b). slice a b xs) rs = map (map (nth xs)) (map (\<lambda>(a, b). [a..<b]) rs)"
    by (simp add: map_eq_conv case_prod_beta')
  then have "concat (map (\<lambda>(a, b). slice a b xs) rs) = map (nth xs) (concat (map (\<lambda>(a, b). [a..<b]) rs))"
    by (simp only: map_concat)
  then show ?thesis by (simp only: assms map_nth)
qed

lemma handed_append: "handed (a @ b) i = handed a i @ handed b i"
  by (simp add: handed_def)

abbreviation sample_bytes :: "frag_sample \<Rightarrow> bytes \<times> bool" where
  "sample_bytes s \<equiv> (fs_data s, fs_is_sync s)"

lemma get_at_mem: "get_at xs k = Some x \<Longrightarrow> x \<in> set xs"
  by (auto simp: get_at_def split: if_splits)

lemma slice_map: "slice a b (map f xs) = map f (slice a b xs)"
  by (simp add: slice_def take_map drop_map)

lemma run_handed:
  assumes "i < length ranges" "length samples = length ranges"
  shows "handed (run_ops samples begins ranges k) i = run_part ranges i k (map sample_bytes (samples ! i))"
proof -
  have "handed (map (\<lambda>(i, t). AdvanceTrack i t) adv) i = []" for adv
    by (induction adv) (auto simp: handed_def)
  moreover have "handed [WriteFragment (run_samples samples ranges k)] i
      = run_part ranges i k (map sample_bytes (samples ! i))"
    by (simp add: handed_def run_samples_nth [OF assms] slice_map split: option.split)
  ultimately show ?thesis by (simp only: run_ops_def handed_append append_Nil)
qed

lemma run_times:
  assumes i: "i < length ranges" "length samples = length ranges"
    and runs: "timed_ranges (begins ! i) (map fs_duration (samples ! i)) = Inr (ranges ! i)"
  shows "scheduled (run_ops samples begins ranges k) i t = run_part ranges i k (begins ! i)"
    "clock (run_ops samples begins ranges k) i t = (case get_at (ranges ! i) k of None \<Rightarrow> t
     | Some (a, b) \<Rightarrow> begins ! i ! (b - 1) + unat (fs_duration (samples ! i ! (b - 1))))"
proof -
  let ?ds = "map fs_duration (samples ! i)"
  note cover = timed_ranges_cover [OF runs]
  have part: "map (unat \<circ> fs_duration) (run_part ranges i k (samples ! i)) = run_part ranges i k (map unat ?ds)"
    by (simp add: slice_map split: option.split)
  show "scheduled (run_ops samples begins ranges k) i t = run_part ranges i k (begins ! i)"
  proof (cases "get_at (ranges ! i) k")
    case (Some r)
    obtain a b where r: "r = (a, b)" by (cases r)
    have "(a, b) \<in> set (ranges ! i)" using get_at_mem [OF Some] r by simp
    then have "gapless (begins ! i) ?ds (a, b)" using cover(2) by (simp add: list_all_iff)
    then show ?thesis
      using Some r part by (simp add: run_ops_def scheduled_append scheduled_advances clock_advances [OF i(1)]
          run_samples_nth [OF i] Let_def gapless_def slice_map)
  qed (use part in \<open>simp add: run_ops_def scheduled_append scheduled_advances run_samples_nth [OF i] Let_def\<close>)
  show "clock (run_ops samples begins ranges k) i t = (case get_at (ranges ! i) k of None \<Rightarrow> t
     | Some (a, b) \<Rightarrow> begins ! i ! (b - 1) + unat (fs_duration (samples ! i ! (b - 1))))"
  proof (cases "get_at (ranges ! i) k")
    case (Some r)
    obtain a b where r: "r = (a, b)" by (cases r)
    have mem: "(a, b) \<in> set (ranges ! i)" using get_at_mem [OF Some] r by simp
    then have g: "a < b" "slice a b (begins ! i) = start_times (begins ! i ! a) (map unat (slice a b ?ds))"
      using cover(2) by (auto simp: list_all_iff gapless_def)
    have b: "b \<le> length (begins ! i)" by (rule cover_bounds [OF cover(3) mem g(1)])
    let ?d = "map unat (slice a b ?ds)"
    have ne: "?d \<noteq> []" using g(1) b cover(1) by (simp add: slice_def)
    have "last (slice a b (begins ! i)) = begins ! i ! (b - 1)" "last ?d = unat (?ds ! (b - 1))"
      using g(1) b cover(1) by (simp_all add: slice_nths last_map)
    then have "begins ! i ! (b - 1) + unat (?ds ! (b - 1)) = begins ! i ! a + sum_list ?d"
      using start_times_last_end [OF ne, of "begins ! i ! a"] g(2) by simp
    then show ?thesis
      using Some r part g(1) b cover(1)
      by (simp add: run_ops_def clock_append clock_advances [OF i(1)] run_samples_nth [OF i] slice_map)
  qed (use part in \<open>simp add: run_ops_def clock_append clock_advances [OF i(1)] run_samples_nth [OF i]\<close>)
qed

text \<open>A track whose runs start within the replay is handed over whole and at its times.\<close>

lemma replay_track:
  assumes i: "i < length ranges" "length samples = length ranges"
    and runs: "timed_ranges (begins ! i) (map fs_duration (samples ! i)) = Inr (ranges ! i)"
    and n: "length (ranges ! i) \<le> n"
    and small: "\<And>j. j < length (samples ! i) \<Longrightarrow> begins ! i ! j + unat (fs_duration (samples ! i ! j)) \<le> bound"
  shows "handed (concat (map (run_ops samples begins ranges) [0..<n])) i = map sample_bytes (samples ! i)"
    "scheduled (concat (map (run_ops samples begins ranges) [0..<n])) i t = begins ! i"
    "t \<le> bound \<Longrightarrow> clock (concat (map (run_ops samples begins ranges) [0..<n])) i t \<le> bound"
proof -
  note cover = timed_ranges_cover [OF runs]
  have len: "length (samples ! i) = length (begins ! i)" using cover(1) by simp
  let ?ops = "\<lambda>ks. concat (map (run_ops samples begins ranges) ks)"
  have "handed (?ops ks) i = concat (map (\<lambda>k. run_part ranges i k (map sample_bytes (samples ! i))) ks)" for ks
  proof (induction ks)
    case (Cons k ks)
    then show ?case by (simp add: handed_append run_handed [OF i])
  qed (simp add: handed_def)
  then show "handed (?ops [0..<n]) i = map sample_bytes (samples ! i)"
    using concat_parts [OF n, of "map sample_bytes (samples ! i)"]
      cover_slices [of "ranges ! i" "map sample_bytes (samples ! i)"] cover(3) len
    by (simp only: length_map)
  have "scheduled (?ops ks) i t = concat (map (\<lambda>k. run_part ranges i k (begins ! i)) ks)" for ks t
  proof (induction ks arbitrary: t)
    case (Cons k ks)
    then show ?case by (simp add: scheduled_append run_times(1) [OF i runs])
  qed simp
  then show "scheduled (?ops [0..<n]) i t = begins ! i"
    using concat_parts [OF n, of "begins ! i"] cover_slices [OF cover(3)] by (simp only:)
  have step: "clock (run_ops samples begins ranges k) i t \<le> bound" if t: "t \<le> bound" for k t
  proof (cases "get_at (ranges ! i) k")
    case (Some r)
    obtain a b where r: "r = (a, b)" by (cases r)
    have mem: "(a, b) \<in> set (ranges ! i)" using get_at_mem [OF Some] r by simp
    then have "a < b" using cover(2) by (auto simp: list_all_iff gapless_def)
    with cover_bounds [OF cover(3) mem] len have "b - 1 < length (samples ! i)" by simp
    with Some r small show ?thesis by (simp add: run_times(2) [OF i runs])
  qed (use t in \<open>simp add: run_times(2) [OF i runs]\<close>)
  have "t \<le> bound \<Longrightarrow> clock (?ops ks) i t \<le> bound" for ks t
    by (induction ks arbitrary: t) (simp_all add: clock_append step)
  then show "t \<le> bound \<Longrightarrow> clock (?ops [0..<n]) i t \<le> bound" .
qed

text \<open>A successful replay of the samples is one run of the writer.\<close>

lemma prepare_ranges:
  assumes "prepare_timed_ranges dur samples begins = Inr ranges"
  shows "length samples = length begins" "length ranges = length begins"
    "i < length begins \<Longrightarrow> timed_ranges (begins ! i) (map dur (samples ! i)) = Inr (ranges ! i)"
proof -
  let ?f = "\<lambda>(track, starts). timed_ranges starts (map dur track)"
  have r: "length samples = length begins" "collect ?f (zip samples begins) = Inr ranges"
    using assms by (auto simp: prepare_timed_ranges_def split: if_splits)
  then show "length samples = length begins" "length ranges = length begins"
    using collect_Inr_length [OF r(2)] by simp_all
  show "i < length begins \<Longrightarrow> timed_ranges (begins ! i) (map dur (samples ! i)) = Inr (ranges ! i)"
    using collect_Inr_nth [OF r(2), of i] r(1) by simp
qed

lemma run_count_le: "i < length ranges \<Longrightarrow> length (ranges ! i) \<le> run_count ranges"
proof -
  have mono: "m \<le> fold max ns m" for m :: nat and ns 
  proof (induction ns arbitrary: m)
    case (Cons a ns)
    from Cons [of "max a m"] show ?case by simp
  qed simp
  have "n \<in> set ns \<Longrightarrow> n \<le> fold max ns m" for n m :: nat and ns
    by (induction ns arbitrary: m) (auto intro: order_trans [OF _ mono])
  then show "i < length ranges \<Longrightarrow> length (ranges ! i) \<le> run_count ranges" by (simp add: run_count_def)
qed

lemma write_timed_run:
  assumes wr: "write_timed_frag_samples mw samples begins = Inr mw'"
    and small: "\<And>i j. i < length begins \<Longrightarrow> j < length (samples ! i) \<Longrightarrow>
      begins ! i ! j + unat (fs_duration (samples ! i ! j)) \<le> bound"
  obtains ops where "writer_run mw ops = Some mw'" "length samples = length begins"
    "\<And>i. i < length begins \<Longrightarrow> handed ops i = map sample_bytes (samples ! i)
       \<and> scheduled ops i 0 = begins ! i \<and> clock ops i 0 \<le> bound"
proof -
  obtain ranges where p: "prepare_timed_ranges fs_duration samples begins = Inr ranges"
    and w: "write_runs write_fragment_multi mw samples begins ranges [0..<run_count ranges] = Inr mw'"
    using wr by (auto simp: write_timed_frag_samples_def bind_out_Inr_iff)
  note r = prepare_ranges [OF p]
  show thesis
  proof (rule that [OF write_runs_run [OF w] r(1)])
    fix i assume i: "i < length begins"
    then show "handed (concat (map (run_ops samples begins ranges) [0..<run_count ranges])) i = map sample_bytes (samples ! i)
       \<and> scheduled (concat (map (run_ops samples begins ranges) [0..<run_count ranges])) i 0 = begins ! i
       \<and> clock (concat (map (run_ops samples begins ranges) [0..<run_count ranges])) i 0 \<le> bound"
      using replay_track [of i ranges samples begins "run_count ranges" bound] r run_count_le small by simp
  qed
qed

end
