(* ===== verification/Mp4_Trim_Copy.thy ===== *)
theory Mp4_Trim_Copy
  imports Mp4_Trim_Runs
begin

text \<open>
  Reading samples and copying them are the same (crates/clipline-mp4/src/trim.rs, writer.rs): the
  parser returns only samples that lie in the file, \<open>copy_exact\<close> writes the bytes of its range, so
  a file operation produces what the in-memory operation does.
\<close>

section \<open>Every sample lies in the file\<close>

definition in_file :: "nat \<Rightarrow> sample_record \<Rightarrow> bool" where
  "in_file n s \<longleftrightarrow> sr_offset s + unat (sr_size s) \<le> n"

lemma chunk_records_in_file:
  "chunk_records n k off t rows = Inr (rs, t', rows') \<Longrightarrow> list_all (in_file n) rs"
  by (induction n k off t rows arbitrary: rs t' rows' rule: chunk_records.induct)
    (auto simp: bind_out_Inr_iff in_file_def checked_simps split: if_splits)

lemma chunks_records_in_file:
  "chunks_records n chunks t rows = Inr rs \<Longrightarrow> list_all (in_file n) rs"
  by (induction n chunks t rows arbitrary: rs rule: chunks_records.induct)
    (auto simp: bind_out_Inr_iff dest: chunk_records_in_file)

lemma parse_sample_table_in_file:
  "parse_sample_table input stbl n = Inr rs \<Longrightarrow> list_all (in_file n) rs"
  by (auto simp: parse_sample_table_def records_from_tables_def bind_out_Inr_iff
      dest: chunks_records_in_file split: if_splits)

lemma edit_samples_in_file:
  "edit_samples m p d k rs = Inr out \<Longrightarrow> list_all (in_file n) rs \<Longrightarrow> list_all (in_file n) out"
  by (induction rs arbitrary: out) (auto simp: bind_out_Inr_iff in_file_def split: if_splits)

lemma media_edit_in_file:
  "media_edit rs ts ms p m d = Inr (out, e) \<Longrightarrow> list_all (in_file n) rs \<Longrightarrow> list_all (in_file n) out"
  by (auto simp: media_edit_def bind_out_Inr_iff Let_def list_all_iff split: if_splits
      dest!: edit_samples_in_file [where n = n] in_set_dropD)

lemma apply_edits_in_file:
  "apply_edits rs ts ms c prev es = Inr out \<Longrightarrow> list_all (in_file n) rs \<Longrightarrow> list_all (in_file n) out"
proof (induction es arbitrary: c prev out)
  case (Cons e es)
  from Cons.prems(1) consider c' prev' where "apply_edits rs ts ms c' prev' es = Inr out"
    | p m d mapped e' c' prev' more where "media_edit rs ts ms p m d = Inr (mapped, e')"
      "apply_edits rs ts ms c' prev' es = Inr more" "out = mapped @ more"
    by (auto simp: bind_out_Inr_iff split: if_splits)
  then show ?case
  proof cases
    case 1
    with Cons.IH Cons.prems(2) show ?thesis by blast
  next
    case 2
    with Cons.IH [OF 2(2)] media_edit_in_file [OF 2(1)] Cons.prems(2) show ?thesis by simp
  qed
qed simp

lemma apply_track_edit_list_in_file:
  "apply_track_edit_list input trak rs ts ms = Inr out \<Longrightarrow> list_all (in_file n) rs \<Longrightarrow> list_all (in_file n) out"
  by (auto simp: apply_track_edit_list_def bind_out_Inr_iff split: option.splits if_splits
      dest: apply_edits_in_file)

lemma parse_track_in_file:
  assumes "parse_track input n ts trak = Inr track"
  shows "list_all (in_file n) (pt_samples track) \<and> pt_samples track \<noteq> []"
proof -
  obtain stbl rs timescale where "parse_sample_table input stbl n = Inr rs"
    "apply_track_edit_list input trak rs timescale ts = Inr (pt_samples track)" "pt_samples track \<noteq> []"
    using assms by (fastforce simp: parse_track_def bind_out_Inr_iff split: if_splits)
  with parse_sample_table_in_file apply_track_edit_list_in_file show ?thesis by blast
qed

lemma parse_movie_in_file:
  assumes "parse_movie_with_source_len input n = Inr movie" "track \<in> set movie"
  shows "list_all (in_file n) (pt_samples track) \<and> pt_samples track \<noteq> []"
proof -
  obtain boxes ts where c: "collect (parse_track input n ts) boxes = Inr movie"
    using assms(1) by (auto simp: parse_movie_with_source_len_def bind_out_Inr_iff split: if_splits)
  obtain i where i: "i < length movie" "track = movie ! i" using assms(2) by (auto simp: in_set_conv_nth)
  with collect_Inr_nth [OF c, of i] collect_Inr_length [OF c] parse_track_in_file show ?thesis by metis
qed

section \<open>Copying a range\<close>

lemma copy_exact_write:
  "pos + n \<le> length source \<Longrightarrow> at_end w \<Longrightarrow>
     copy_exact source pos n w = (write_all w (slice pos (pos + n) source), Inr ())"
proof (induction source pos n w rule: copy_exact.induct)
  case (1 source pos n w)
  show ?case
  proof (cases "n = 0")
    case True
    with "1.prems" show ?thesis by (simp add: copy_exact.simps [of _ _ 0] write_all_end slice_def)
  next
    case False
    let ?k = "min n copy_buf_len"
    let ?w = "write_all w (slice pos (pos + ?k) source)"
    have w: "at_end ?w" using "1.prems"(2) by (simp add: write_all_end)
    have "copy_exact source (pos + ?k) (n - ?k) ?w
        = (write_all ?w (slice (pos + ?k) (pos + ?k + (n - ?k)) source), Inr ())"
      using "1.prems"(1) False w by (intro "1.IH") simp_all
    moreover have "slice pos (pos + ?k) source @ slice (pos + ?k) (pos + n) source = slice pos (pos + n) source"
      by (rule slice_slice_append) simp_all
    ultimately show ?thesis
      using False "1.prems" by (simp add: copy_exact.simps [of _ _ n] Let_def write_all_end)
  qed
qed

definition frag_of :: "bytes \<Rightarrow> sample_record \<Rightarrow> frag_sample" where
  "frag_of f s = \<lparr>fs_data = slice (sr_offset s) (sr_offset s + unat (sr_size s)) f,
     fs_duration = sr_duration s, fs_is_sync = sr_is_sync s\<rparr>"

lemma to_frag_sample_in_file:
  "in_file (length f) s \<Longrightarrow> length f \<le> u64_max \<Longrightarrow> to_frag_sample f s = Inr (frag_of f s)"
  by (simp add: in_file_def to_frag_sample_def frag_of_def checked_add_usize_def get_range_def
      usize_max_def u64_max_def)

lemma fragment_info_frag_of:
  "in_file (length f) s \<Longrightarrow> fragment_info (frag_of f s) = source_fragment_info (to_source_sample s)"
  by (simp add: in_file_def fragment_info_def source_fragment_info_def sample_info_of_Inr
      to_source_sample_def frag_of_def slice_def)


section \<open>A copied fragment is a written one\<close>

lemma write_payloads_cong:
  "(\<And>i j u. (i, j) \<in> set order \<Longrightarrow> at_end u \<Longrightarrow> f i j u = (write_all u (d i j), Inr ())
      \<and> g i j u = (write_all u (d i j), Inr ())) \<Longrightarrow> at_end w \<Longrightarrow>
     write_payloads f order w = write_payloads g order w"
  by (induction order arbitrary: w) (fastforce simp: write_all_end)+

lemma write_planned_fragment_cong:
  assumes "\<And>i j u. (i, j) \<in> set (payload_order infos) \<Longrightarrow> at_end u \<Longrightarrow>
      f i j u = (write_all u (d i j), Inr ()) \<and> g i j u = (write_all u (d i j), Inr ())"
    and at: "at_end (mw_w mw)"
  shows "write_planned_fragment mw infos f = write_planned_fragment mw infos g"
proof -
  have fg: "write_payloads f (payload_order infos) (write_all (write_all (mw_w mw) a) b)
      = write_payloads g (payload_order infos) (write_all (write_all (mw_w mw) a) b)" for a b
    using at by (intro write_payloads_cong [OF assms(1)]) (simp_all add: write_all_end)
  show ?thesis unfolding write_planned_fragment_def Let_def fg ..
qed

lemma collect_cong: "(\<And>x. x \<in> set xs \<Longrightarrow> f x = g x) \<Longrightarrow> collect f xs = collect g xs"
  by (induction xs) auto

lemma collect_map: "collect f (map g xs) = collect (\<lambda>x. f (g x)) xs"
  by (induction xs) auto

abbreviation all_in_file :: "bytes \<Rightarrow> sample_record list list \<Rightarrow> bool" where
  "all_in_file f recs \<equiv> list_all (list_all (in_file (length f))) recs"

lemma fragment_storage_copy:
  assumes "all_in_file f recs"
  shows "fragment_info_storage fragment_info (map (map (frag_of f)) recs) n
    = fragment_info_storage source_fragment_info (map (map to_source_sample) recs) n"
proof -
  have "collect (\<lambda>ss. collect fragment_info (map (frag_of f) ss)) recs
      = collect (\<lambda>ss. collect source_fragment_info (map to_source_sample ss)) recs"
    using assms fragment_info_frag_of by (intro collect_cong) (auto simp: list_all_iff collect_map intro!: collect_cong)
  then show ?thesis by (simp add: fragment_info_storage_def collect_map list_all_iff)
qed

lemma fragment_storage_lengths:
  assumes "fragment_info_storage info per_track n = Inr (Some infos)"
  shows "length infos = length per_track" "i < length per_track \<Longrightarrow> length (infos ! i) = length (per_track ! i)"
proof -
  have "collect (collect info) per_track = Inr infos"
    using assms by (auto simp: fragment_info_storage_def bind_out_Inr_iff split: if_splits)
  from collect_Inr_length [OF this] collect_Inr_nth [OF this, of i]
  show "length infos = length per_track" "i < length per_track \<Longrightarrow> length (infos ! i) = length (per_track ! i)"
    using collect_Inr_length by auto
qed

lemma copied_fragment:
  assumes at: "at_end (mw_w mw)" and recs: "all_in_file f recs"
  shows "write_fragment_multi_from_source mw f (map (map to_source_sample) recs)
    = write_fragment_multi mw (map (map (frag_of f)) recs)"
proof -
  have "write_planned_fragment mw infos (copy_sample (\<lambda>_. f) (map (map to_source_sample) recs))
      = write_planned_fragment mw infos (write_sample (map (map (frag_of f)) recs))"
    if s: "fragment_info_storage fragment_info (map (map (frag_of f)) recs) n = Inr (Some infos)" for n infos
  proof (rule write_planned_fragment_cong [OF _ at])
    fix i j and u :: sink
    assume "(i, j) \<in> set (payload_order infos)" and u: "at_end u"
    then have ij: "i < length recs" "j < length (recs ! i)"
      using fragment_storage_lengths [OF s] by (auto simp: payload_order_set)
    then have "in_file (length f) (recs ! i ! j)" using recs by (auto simp: list_all_length)
    with ij u show "copy_sample (\<lambda>_. f) (map (map to_source_sample) recs) i j u
        = (write_all u (slice (sr_offset (recs ! i ! j)) (sr_offset (recs ! i ! j) + unat (sr_size (recs ! i ! j))) f), Inr ())
      \<and> write_sample (map (map (frag_of f)) recs) i j u
        = (write_all u (slice (sr_offset (recs ! i ! j)) (sr_offset (recs ! i ! j) + unat (sr_size (recs ! i ! j))) f), Inr ())"
      by (simp add: copy_sample_def write_sample_def to_source_sample_def frag_of_def in_file_def copy_exact_write)
  qed
  then show ?thesis
    by (simp add: write_fragment_multi_from_source_def write_fragment_multi_def
        fragment_storage_copy [OF recs] split: sum.split option.split)
qed

section \<open>A copied replay\<close>

lemma run_samples_map: "run_samples (map (map g) recs) ranges k = map (map g) (run_samples recs ranges k)"
  by (auto simp: run_samples_def zip_map1 slice_map split: option.splits)

lemma slice_all: "list_all P xs \<Longrightarrow> list_all P (slice a b xs)"
  by (auto simp: list_all_iff slice_def dest!: in_set_takeD in_set_dropD)

lemma run_samples_all: "list_all (list_all P) recs \<Longrightarrow> list_all (list_all P) (run_samples recs ranges k)"
proof -
  assume "list_all (list_all P) recs"
  then have "list_all P (run_samples recs ranges k ! i)" if "i < length (run_samples recs ranges k)" for i
    using that slice_all [of P] by (simp add: run_samples_def list_all_length split: option.split prod.split)
  then show ?thesis by (simp add: list_all_length)
qed

lemma set_decode_times_ok: "set_decode_times mw adv = Inr mw' \<Longrightarrow> writer_ok mw \<Longrightarrow> writer_ok mw'"
  by (induction mw adv rule: set_decode_times.induct)
    (auto split: prod.splits sum.splits dest: set_track_decode_time_ok)

lemma copied_runs:
  "writer_ok mw \<Longrightarrow> all_in_file f recs \<Longrightarrow>
     write_runs (\<lambda>mw. write_fragment_multi_from_source mw f) mw (map (map to_source_sample) recs) begins ranges ks
       = write_runs write_fragment_multi mw (map (map (frag_of f)) recs) begins ranges ks"
proof (induction ks arbitrary: mw)
  case (Cons k ks)
  show ?case
  proof (cases "set_decode_times mw (run_advances begins ranges k)")
    case (Inr mw1)
    then have ok: "writer_ok mw1" using set_decode_times_ok Cons.prems(1) by blast
    then have "at_end (mw_w mw1)" by (auto simp: writer_ok_def)
    note copy = copied_fragment [OF this run_samples_all [OF Cons.prems(2)], of ranges k]
    show ?thesis
    proof (cases "write_fragment_multi mw1 (map (map (frag_of f)) (run_samples recs ranges k))")
      case (Pair mw2 r)
      show ?thesis
      proof (cases r)
        case (Inr u)
        then have "writer_ok mw2" using write_fragment_multi_view [OF ok] Pair by auto
        from Cons.IH [OF this Cons.prems(2)] show ?thesis
          using \<open>set_decode_times mw _ = Inr mw1\<close> Pair Inr copy by (simp add: run_samples_map)
      qed (use Inr Pair copy in \<open>simp add: run_samples_map\<close>)
    qed
  qed simp
qed simp

lemma copied_replay:
  assumes "writer_ok mw" "all_in_file f recs"
  shows "write_timed_source_samples mw f (map (map to_source_sample) recs) begins
    = write_timed_frag_samples mw (map (map (frag_of f)) recs) begins"
proof -
  have "prepare_timed_ranges ss_duration (map (map to_source_sample) recs) begins
      = prepare_timed_ranges fs_duration (map (map (frag_of f)) recs) begins"
    by (auto simp: prepare_timed_ranges_def zip_map1 collect_map comp_def to_source_sample_def frag_of_def
        intro!: collect_cong)
  then show ?thesis
    using copied_runs [OF assms] by (simp add: write_timed_source_samples_def write_timed_frag_samples_def)
qed

end
