(* ===== verification/Mp4_Trim_Correct.thy ===== *)
theory Mp4_Trim_Correct
  imports Mp4_Trim_Copy
begin

text \<open>
  What a trim keeps (crates/clipline-mp4/src/trim.rs): the range it selects, the times it moves the
  samples to, and the file it writes, which the parser reads back as the selected samples.
\<close>

section \<open>The selected range\<close>

lemma pick_start_Inr:
  assumes "pick_start samples r = Inr a"
  shows "a < length samples" "sr_is_sync (samples ! a)"
    "if \<exists>s \<in> set samples. sr_is_sync s \<and> sr_start_ticks s \<le> r
     then sr_start_ticks (samples ! a) \<le> r
       \<and> (\<forall>j. a < j \<longrightarrow> j < length samples \<longrightarrow> sr_is_sync (samples ! j) \<longrightarrow> r < sr_start_ticks (samples ! j))
     else \<forall>j < a. \<not> sr_is_sync (samples ! j)"
proof -
  let ?p = "\<lambda>s. sr_is_sync s \<and> sr_start_ticks s \<le> r"
  have "a < length samples \<and> sr_is_sync (samples ! a) \<and> (if \<exists>s \<in> set samples. ?p s
     then sr_start_ticks (samples ! a) \<le> r
       \<and> (\<forall>j. a < j \<longrightarrow> j < length samples \<longrightarrow> sr_is_sync (samples ! j) \<longrightarrow> r < sr_start_ticks (samples ! j))
     else \<forall>j < a. \<not> sr_is_sync (samples ! j))"
  proof (cases "last_index ?p samples")
    case None
    then have "\<not> (\<exists>s \<in> set samples. ?p s)" by (auto simp: last_index_None_iff)
    moreover have "position sr_is_sync samples = Some a" using assms None by (simp add: pick_start_def)
    ultimately show ?thesis by (auto simp: position_Some_iff)
  next
    case (Some i)
    then have "i = a" using assms by (simp add: pick_start_def)
    with Some have a: "a < length samples" "?p (samples ! a)"
      "\<forall>j. a < j \<and> j < length samples \<longrightarrow> \<not> ?p (samples ! j)"
      by (auto simp: last_index_Some_iff)
    then have "\<exists>s \<in> set samples. ?p s" using nth_mem by blast
    with a show ?thesis by (auto simp: not_le)
  qed
  then show "a < length samples" "sr_is_sync (samples ! a)"
    "if \<exists>s \<in> set samples. ?p s then sr_start_ticks (samples ! a) \<le> r
       \<and> (\<forall>j. a < j \<longrightarrow> j < length samples \<longrightarrow> sr_is_sync (samples ! j) \<longrightarrow> r < sr_start_ticks (samples ! j))
     else \<forall>j < a. \<not> sr_is_sync (samples ! j)"
    by blast+
qed

lemma pick_end_bounds:
  assumes "a < length samples"
  shows "a < pick_end samples a r" "pick_end samples a r \<le> length samples"
    "pick_end samples a r < length samples \<Longrightarrow> sr_is_sync (samples ! pick_end samples a r)
       \<and> r \<le> sr_start_ticks (samples ! pick_end samples a r)"
    "a < j \<Longrightarrow> j < pick_end samples a r \<Longrightarrow> sr_is_sync (samples ! j) \<Longrightarrow> sr_start_ticks (samples ! j) < r"
proof -
  let ?p = "\<lambda>s. sr_is_sync s \<and> r \<le> sr_start_ticks s"
  let ?b = "pick_end samples a r"
  have "a < ?b \<and> ?b \<le> length samples \<and> (?b < length samples \<longrightarrow> ?p (samples ! ?b))
    \<and> (\<forall>j. a < j \<and> j < ?b \<longrightarrow> \<not> ?p (samples ! j))"
  proof (cases "position ?p (drop (a + 1) samples)")
    case None
    then have "\<not> ?p (samples ! j)" if "a < j" "j < length samples" for j
      using that nth_mem [of "j - (a + 1)" "drop (a + 1) samples"]
      by (auto simp: position_None_iff)
    with assms None show ?thesis by (auto simp: pick_end_def)
  next
    case (Some k)
    then have k: "k < length samples - (a + 1)" "?p (samples ! (a + 1 + k))"
      "\<forall>j < k. \<not> ?p (samples ! (a + 1 + j))"
      using assms by (auto simp: position_Some_iff)
    have "\<not> ?p (samples ! j)" if "a < j" "j < a + 1 + k" for j
      using k(3) that by (metis Suc_eq_plus1 Suc_leI add_less_cancel_left le_add_diff_inverse)
    with k Some show ?thesis by (auto simp: pick_end_def)
  qed
  then show "a < ?b" "?b \<le> length samples" "?b < length samples \<Longrightarrow> sr_is_sync (samples ! ?b) \<and> r \<le> sr_start_ticks (samples ! ?b)"
    "a < j \<Longrightarrow> j < ?b \<Longrightarrow> sr_is_sync (samples ! j) \<Longrightarrow> sr_start_ticks (samples ! j) < r"
    by (auto simp: not_le)
qed

text \<open>The parts of a selection.\<close>

lemma select_trim_range_Inr:
  assumes "select_trim_range movie s e = Inr sel"
  obtains v lo hi where "position (\<lambda>t. is_video (pt_cfg t)) movie = Some (tn_video_idx sel)"
    "v = movie ! tn_video_idx sel"
    "seconds_to_ticks_floor s (pt_timescale v) = Inr lo" "seconds_to_ticks_ceil e (pt_timescale v) = Inr hi"
    "pick_start (pt_samples v) lo = Inr (tn_start_idx sel)"
    "tn_end_idx sel = pick_end (pt_samples v) (tn_start_idx sel) hi"
    "tn_aligned_start_ticks sel = sr_start_ticks (pt_samples v ! tn_start_idx sel)"
    "tn_end_idx sel < length (pt_samples v) \<Longrightarrow>
       tn_aligned_end_ticks sel = sr_start_ticks (pt_samples v ! tn_end_idx sel)"
    "tn_end_idx sel = length (pt_samples v) \<Longrightarrow> tn_aligned_end_ticks sel =
       wrapping_add_u64 (sr_start_ticks (last (pt_samples v))) (unat (sr_duration (last (pt_samples v))))"
    "tn_video_timescale sel = pt_timescale v"
    "\<not> fle (tn_aligned_end_s sel) (tn_aligned_start_s sel)"
proof -
  from assms obtain vi lo hi a where
    p: "position (\<lambda>t. is_video (pt_cfg t)) movie = Some vi"
      "seconds_to_ticks_floor s (pt_timescale (movie ! vi)) = Inr lo"
      "seconds_to_ticks_ceil e (pt_timescale (movie ! vi)) = Inr hi"
      "pick_start (pt_samples (movie ! vi)) lo = Inr a"
    and sel: "tn_video_idx sel = vi" "tn_start_idx sel = a" "tn_end_idx sel = pick_end (pt_samples (movie ! vi)) a hi"
      "tn_aligned_start_ticks sel = sr_start_ticks (pt_samples (movie ! vi) ! a)"
      "tn_aligned_end_ticks sel = (if pick_end (pt_samples (movie ! vi)) a hi < length (pt_samples (movie ! vi))
        then sr_start_ticks (pt_samples (movie ! vi) ! pick_end (pt_samples (movie ! vi)) a hi)
        else if pt_samples (movie ! vi) = [] then 0
        else wrapping_add_u64 (sr_start_ticks (last (pt_samples (movie ! vi))))
          (unat (sr_duration (last (pt_samples (movie ! vi))))))"
      "tn_video_timescale sel = pt_timescale (movie ! vi)" "\<not> fle (tn_aligned_end_s sel) (tn_aligned_start_s sel)"
    by (auto simp: select_trim_range_def bind_out_Inr_iff Let_def split: if_splits)
  have "pt_samples (movie ! vi) \<noteq> []" using pick_start_Inr(1) [OF p(4)] by auto
  with p sel show thesis by (intro that [of "movie ! vi" lo hi]) (simp_all split: if_splits)
qed

section \<open>Moving a sample\<close>

lemma nearest:
  fixes p q a h v :: nat
  assumes "p \<le> q - a + h" "q - a + h < p + v" "a \<le> q" "h = v div 2"
  shows "2 * \<bar>int p - (int q - int a)\<bar> \<le> int v"
proof -
  obtain d where d: "q = a + d" using assms(3) by (auto simp: le_iff_add)
  with assms have "p \<le> d + h" "d + h < p + v" "2 * h \<le> v" "v \<le> 2 * h + 1" by simp_all
  then have "2 * (p - d) \<le> v" "2 * (d - p) \<le> v" by linarith+
  then have "2 * \<bar>int p - int d\<bar> \<le> int v" by (cases "p \<le> d") (simp_all add: of_nat_diff)
  with d show ?thesis by simp
qed

text \<open>The time is rounded to the nearest tick and never moves past the old one.\<close>

lemma rebase_start_Inr:
  assumes "rebase_start sel t ts = Inr r"
  shows "r \<le> t" "r \<le> u64_max"
    "2 * \<bar>int (r * unat (tn_video_timescale sel))
        - (int (t * unat (tn_video_timescale sel)) - int (tn_aligned_start_ticks sel * unat ts))\<bar>
      \<le> int (unat (tn_video_timescale sel))"
proof -
  define v where "v = unat (tn_video_timescale sel)"
  define a where "a = tn_aligned_start_ticks sel * unat ts"
  have le: "a \<le> t * v" and v: "0 < v" and r: "r = (t * v - a + v div 2) div v" "r \<le> u64_max"
    using assms by (auto simp: rebase_start_def Let_def bind_out_Inr_iff v_def a_def checked_sub_nat_def
        unat_gt_0 split: if_splits)
  show "r \<le> u64_max" by (fact r)
  have "r * v \<le> t * v - a + v div 2" by (simp add: r(1))
  moreover have "t * v - a + v div 2 < r * v + v"
    using dividend_less_div_times [OF v, of "t * v - a + v div 2"] r(1) by simp
  ultimately show "2 * \<bar>int (r * v) - (int (t * v) - int a)\<bar> \<le> int v"
    by (rule nearest) (use le in simp_all)
  have "(t * v - a + v div 2) div v \<le> (t * v + v div 2) div v" by (intro div_le_mono) simp
  also have "\<dots> = t" using v by simp
  finally show "r \<le> t" using r(1) by simp
qed


section \<open>The file a replay writes\<close>

definition media :: "bytes \<Rightarrow> sample_record list \<Rightarrow> (bytes \<times> bool) list" where
  "media f rs = map (\<lambda>s. (slice (sr_offset s) (sr_offset s + unat (sr_size s)) f, sr_is_sync s)) rs"

lemma media_frag_of: "map sample_bytes (map (frag_of f) rs) = media f rs"
  by (simp add: media_def frag_of_def)

lemma parsed_view_media: "parsed_view f t = (media f (pt_samples t), map sr_start_ticks (pt_samples t))"
  by (simp add: parsed_view_def media_def record_view_def)

lemma media_length [simp]: "length (media f rs) = length rs"
  by (simp add: media_def)

lemma replay_run:
  assumes wr: "write_timed_frag_samples mw (map (map (frag_of f)) recs) begins = Inr mw'"
    and times: "\<And>i j. i < length recs \<Longrightarrow> j < length (recs ! i) \<Longrightarrow>
      (begins ! i ! j + unat (sr_duration (recs ! i ! j))) * 720000 \<le> u64_max"
  obtains ops where "writer_run mw ops = Some mw'"
    "\<And>i. i < length recs \<Longrightarrow> handed ops i = media f (recs ! i) \<and> scheduled ops i 0 = begins ! i
       \<and> clock ops i 0 * 720000 \<le> u64_max"
proof -
  obtain ranges where "prepare_timed_ranges fs_duration (map (map (frag_of f)) recs) begins = Inr ranges"
    using wr by (auto simp: write_timed_frag_samples_def bind_out_Inr_iff)
  then have len: "length recs = length begins" using prepare_ranges(1) by force
  have le: "x \<le> u64_max div 720000 \<longleftrightarrow> x * 720000 \<le> u64_max" for x
    by (simp add: less_eq_div_iff_mult_less_eq)
  show thesis
  proof (rule write_timed_run [OF wr, of "u64_max div 720000"])
    fix i j assume "i < length begins" "j < length (map (map (frag_of f)) recs ! i)"
    then show "begins ! i ! j + unat (fs_duration (map (map (frag_of f)) recs ! i ! j)) \<le> u64_max div 720000"
      using times [of i j] len by (simp add: le frag_of_def)
  next
    fix ops assume "writer_run mw ops = Some mw'"
      and "\<And>i. i < length begins \<Longrightarrow> handed ops i = map sample_bytes (map (map (frag_of f)) recs ! i)
        \<and> scheduled ops i 0 = begins ! i \<and> clock ops i 0 \<le> u64_max div 720000"
    with len show thesis by (intro that [of ops]) (simp_all add: le media_frag_of [symmetric])
  qed
qed

lemma replay_parses:
  assumes new: "writer_new_multi sink_new cfgs = Inr mw"
    and wr: "write_timed_frag_samples mw (map (map (frag_of f)) recs) begins = Inr mw'"
    and fin: "finalize mw' = Some w" and small: "length (sk_data w) \<le> u64_max" and len: "length recs = length cfgs"
    and samples: "\<And>i. i < length cfgs \<Longrightarrow> length (recs ! i) \<le> max_parsed_samples"
    and rates: "\<And>i. i < length cfgs \<Longrightarrow> unat (track_timescale (cfgs ! i)) dvd 720000"
    and times: "\<And>i j. i < length recs \<Longrightarrow> j < length (recs ! i) \<Longrightarrow>
      (begins ! i ! j + unat (sr_duration (recs ! i ! j))) * 720000 \<le> u64_max"
  shows "if \<forall>rs \<in> set recs. rs \<noteq> []
    then \<exists>ms. parse_movie (sk_data w) = Inr ms \<and> length ms = length cfgs
      \<and> (\<forall>i < length cfgs. pt_cfg (ms ! i) = cfgs ! i \<and> pt_timescale (ms ! i) = track_timescale (cfgs ! i)
          \<and> parsed_view (sk_data w) (ms ! i) = (media f (recs ! i), begins ! i))
    else \<nexists>ms. parse_movie (sk_data w) = Inr ms"
proof -
  obtain ops where run: "writer_run mw ops = Some mw'"
    and ops: "\<And>i. i < length recs \<Longrightarrow> handed ops i = media f (recs ! i) \<and> scheduled ops i 0 = begins ! i
       \<and> clock ops i 0 * 720000 \<le> u64_max"
    by (rule replay_run [OF wr]) (rule times, assumption+, rule that, assumption+)
  have few: "\<And>i. i < length cfgs \<Longrightarrow> length (handed ops i) \<le> max_parsed_samples"
    using ops samples len by simp
  show ?thesis
  proof (cases "\<forall>rs \<in> set recs. rs \<noteq> []")
    case True
    then have "\<And>i. i < length cfgs \<Longrightarrow> handed ops i \<noteq> []"
      using ops len by (metis length_0_conv media_length nth_mem)
    with few rates ops len obtain ms where "parse_movie (sk_data w) = Inr ms" "length ms = length cfgs"
      "\<And>i. i < length cfgs \<Longrightarrow> pt_cfg (ms ! i) = cfgs ! i \<and> pt_timescale (ms ! i) = track_timescale (cfgs ! i)
         \<and> parsed_view (sk_data w) (ms ! i) = (handed ops i, scheduled ops i 0)"
      by (auto intro: recording_parses [OF new run fin small])
    with True ops len show ?thesis by auto
  next
    case False
    then obtain i where "i < length cfgs" "recs ! i = []" using len by (auto simp: in_set_conv_nth)
    with empty_track_unreadable [OF new run fin small few] ops len False show ?thesis by (simp add: media_def)
  qed
qed

section \<open>Trimming\<close>

lemma selected_all:
  "list_all P (pt_samples track) \<Longrightarrow> list_all P (selected_records sel i track)"
  by (cases "i = tn_video_idx sel") (simp_all add: selected_records_def slice_all, simp add: list_all_iff)

text \<open>What a successful trim did.\<close>

lemma trim_parts:
  assumes "trim_keyframe_aligned f s e = Inr (out, info)" and small: "length f \<le> u64_max"
  obtains movie sel begins mw mw' w where "parse_movie f = Inr movie" "select_trim_range movie s e = Inr sel"
    "info = selection_info sel s e" "length begins = length movie"
    "\<And>i. i < length movie \<Longrightarrow> rebased_starts sel (movie ! i) (selected_records sel i (movie ! i)) = Inr (begins ! i)"
    "writer_new_multi sink_new (map pt_cfg movie) = Inr mw"
    "write_timed_frag_samples mw (map (map (frag_of f))
       (map (\<lambda>i. selected_records sel i (movie ! i)) [0..<length movie])) begins = Inr mw'"
    "finalize mw' = Some w" "out = sk_data w"
proof -
  let ?F = "\<lambda>sel (idx, track). let records = selected_records sel idx track in
         bind_out (rebased_starts sel track records) (\<lambda>starts.
         bind_out (collect (to_frag_sample f) records) (\<lambda>samples. Inr (starts, samples)))"
  from assms(1) obtain movie sel per_track mw mw' w where p: "parse_movie f = Inr movie"
    "select_trim_range movie s e = Inr sel" "info = selection_info sel s e"
    "writer_new_multi sink_new (map pt_cfg movie) = Inr mw"
    "finalize mw' = Some w" "out = sk_data w"
    and c: "collect (?F sel) (List.enumerate 0 movie) = Inr per_track"
    and wr: "write_timed_frag_samples mw (map snd per_track) (map fst per_track) = Inr mw'"
    by (auto simp: trim_keyframe_aligned_def bind_out_Inr_iff)
  have len: "length per_track = length movie" using collect_Inr_length [OF c] by simp
  have parts: "rebased_starts sel (movie ! i) (selected_records sel i (movie ! i)) = Inr (fst (per_track ! i))
      \<and> snd (per_track ! i) = map (frag_of f) (selected_records sel i (movie ! i))" if i: "i < length movie" for i
  proof -
    have r: "rebased_starts sel (movie ! i) (selected_records sel i (movie ! i)) = Inr (fst (per_track ! i))"
      "collect (to_frag_sample f) (selected_records sel i (movie ! i)) = Inr (snd (per_track ! i))"
      using collect_Inr_nth [OF c, of i] i
      by (cases "per_track ! i"; auto simp: nth_enumerate_eq Let_def bind_out_Inr_iff)+
    have "list_all (in_file (length f)) (pt_samples (movie ! i))"
      using parse_movie_in_file [of f "length f" movie "movie ! i"] p(1) i by (simp add: parse_movie_def)
    then have "list_all (in_file (length f)) (selected_records sel i (movie ! i))"
      by (rule selected_all)
    then have "collect (to_frag_sample f) (selected_records sel i (movie ! i))
        = Inr (map (frag_of f) (selected_records sel i (movie ! i)))"
      using to_frag_sample_in_file small by (intro collect_all_Inr) (auto simp: list_all_iff)
    with r show ?thesis by simp
  qed
  have "map snd per_track = map (map (frag_of f)) (map (\<lambda>i. selected_records sel i (movie ! i)) [0..<length movie])"
    using parts len by (intro nth_equalityI) simp_all
  with p wr parts len show thesis by (intro that [of movie sel "map fst per_track" mw mw' w]) simp_all
qed

text \<open>A sample of a track moves to its time relative to the first kept frame.\<close>

lemma rebased_nth:
  assumes "rebased_starts sel track rs = Inr ts" "j < length rs"
  shows "rebase_start sel (sr_start_ticks (rs ! j)) (pt_timescale track) = Inr (ts ! j)"
    "ts ! j \<le> sr_start_ticks (rs ! j)"
proof -
  show r: "rebase_start sel (sr_start_ticks (rs ! j)) (pt_timescale track) = Inr (ts ! j)"
    using collect_Inr_nth [OF assms(1) [unfolded rebased_starts_def] assms(2)] .
  show "ts ! j \<le> sr_start_ticks (rs ! j)" by (rule rebase_start_Inr(1) [OF r])
qed

lemma trimmed_file_parses:
  assumes trim: "trim_keyframe_aligned f s e = Inr (out, info)" and small: "length f \<le> u64_max" "length out \<le> u64_max"
    and movie: "parse_movie f = Inr movie" and sel: "select_trim_range movie s e = Inr sel"
    and tracks: "\<And>track. track \<in> set movie \<Longrightarrow> length (pt_samples track) \<le> max_parsed_samples
      \<and> unat (track_timescale (pt_cfg track)) dvd 720000
      \<and> (\<forall>r \<in> set (pt_samples track). (sr_start_ticks r + unat (sr_duration r)) * 720000 \<le> u64_max)"
  defines "kept \<equiv> \<lambda>i. selected_records sel i (movie ! i)"
  shows "if \<forall>i < length movie. kept i \<noteq> []
    then \<exists>ms. parse_movie out = Inr ms \<and> length ms = length movie
      \<and> (\<forall>i < length movie. pt_cfg (ms ! i) = pt_cfg (movie ! i)
          \<and> media out (pt_samples (ms ! i)) = media f (kept i)
          \<and> rebased_starts sel (movie ! i) (kept i) = Inr (map sr_start_ticks (pt_samples (ms ! i))))
    else \<nexists>ms. parse_movie out = Inr ms"
proof -
  let ?recs = "map kept [0..<length movie]"
  obtain begins mw mw' w where b: "length begins = length movie"
    "\<And>i. i < length movie \<Longrightarrow> rebased_starts sel (movie ! i) (kept i) = Inr (begins ! i)"
    and new: "writer_new_multi sink_new (map pt_cfg movie) = Inr mw"
    and wr: "write_timed_frag_samples mw (map (map (frag_of f)) ?recs) begins = Inr mw'"
    and fin: "finalize mw' = Some w" and out: "out = sk_data w"
  proof (rule trim_parts [OF trim small(1)], goal_cases)
    case (1 movie' sel' begins mw mw' w)
    moreover have "movie' = movie" using 1 movie by simp
    moreover have "sel' = sel" using 1 sel \<open>movie' = movie\<close> by simp
    ultimately show ?case by (intro 1(1) [of begins mw mw' w]) (simp_all add: kept_def)
  qed
  have kept: "length (kept i) \<le> length (pt_samples (movie ! i))"
    "list_all P (pt_samples (movie ! i)) \<Longrightarrow> list_all P (kept i)" for i P
    by (auto simp: kept_def selected_all) (simp add: selected_records_def slice_def min_le_iff_disj)
  have times: "(begins ! i ! j + unat (sr_duration (?recs ! i ! j))) * 720000 \<le> u64_max"
    if "i < length ?recs" "j < length (?recs ! i)" for i j
  proof -
    have ij: "i < length movie" "j < length (kept i)" using that by simp_all
    have "list_all (\<lambda>r. (sr_start_ticks r + unat (sr_duration r)) * 720000 \<le> u64_max) (kept i)"
      using tracks [of "movie ! i"] ij(1) by (intro kept(2)) (simp add: list_all_iff)
    then have "(sr_start_ticks (kept i ! j) + unat (sr_duration (kept i ! j))) * 720000 \<le> u64_max"
      using ij(2) by (simp add: list_all_length)
    with rebased_nth(2) [OF b(2) [OF ij(1)] ij(2)] ij show ?thesis by simp
  qed
  have few: "length (?recs ! i) \<le> max_parsed_samples" if "i < length (map pt_cfg movie)" for i
    using that kept(1) [of i] tracks [of "movie ! i"] by (simp add: order_trans)
  have rates: "unat (track_timescale (map pt_cfg movie ! i)) dvd 720000" if "i < length (map pt_cfg movie)" for i
    using that tracks [of "movie ! i"] by simp
  have "(\<forall>rs \<in> set ?recs. rs \<noteq> []) \<longleftrightarrow> (\<forall>i < length movie. kept i \<noteq> [])" by auto
  with replay_parses [OF new wr fin small(2) [unfolded out] _ few rates times] b(2) out
  show ?thesis by (auto simp: parsed_view_media)
qed


section \<open>Trimming and remuxing through files\<close>

text \<open>A collection of times and samples whose samples cannot fail.\<close>

lemma collect_pairs:
  assumes "\<And>x. x \<in> set xs \<Longrightarrow> f x = bind_out (g x) (\<lambda>t. Inr (t, h x))"
  shows "collect f xs = bind_out (collect g xs) (\<lambda>ts. Inr (zip ts (map h xs)))"
  using assms
proof (induction xs)
  case (Cons x xs)
  then show ?case by (cases "g x"; cases "collect g xs") auto
qed simp

abbreviation selection_of :: "trim_selection \<Rightarrow> parsed_track list \<Rightarrow> sample_record list list" where
  "selection_of sel movie \<equiv> map (\<lambda>(i, t). selected_records sel i t) (List.enumerate 0 movie)"

lemma trim_memory_parts:
  assumes "\<And>t. t \<in> set movie \<Longrightarrow> list_all (in_file (length f)) (pt_samples t)" "length f \<le> u64_max"
  shows "collect (\<lambda>(idx, track).
         let records = selected_records sel idx track in
         bind_out (rebased_starts sel track records) (\<lambda>begins.
         bind_out (collect (to_frag_sample f) records) (\<lambda>samples. Inr (begins, samples))))
       (List.enumerate 0 movie)
    = bind_out (collect (\<lambda>(i, t). rebased_starts sel t (selected_records sel i t)) (List.enumerate 0 movie))
        (\<lambda>ts. Inr (zip ts (map (map (frag_of f)) (selection_of sel movie))))"
proof -
  have "collect (to_frag_sample f) (selected_records sel i t) = Inr (map (frag_of f) (selected_records sel i t))"
    if "(i, t) \<in> set (List.enumerate 0 movie)" for i t
  proof -
    have "t \<in> set movie" using that by (auto simp: in_set_enumerate_eq)
    then have "list_all (in_file (length f)) (selected_records sel i t)" using assms(1) selected_all by blast
    then show ?thesis
      using to_frag_sample_in_file assms(2) by (intro collect_all_Inr) (auto simp: list_all_iff)
  qed
  then show ?thesis
    by (subst collect_pairs [where h = "\<lambda>(i, t). map (frag_of f) (selected_records sel i t)"
        and g = "\<lambda>(i, t). rebased_starts sel t (selected_records sel i t)"])
      (auto simp: Let_def comp_def case_prod_beta')
qed

lemma trim_file_parts:
  "collect (\<lambda>(idx, track).
         let records = selected_records sel idx track in
         bind_out (rebased_starts sel track records) (\<lambda>begins. Inr (begins, map to_source_sample records)))
       (List.enumerate 0 movie)
    = bind_out (collect (\<lambda>(i, t). rebased_starts sel t (selected_records sel i t)) (List.enumerate 0 movie))
        (\<lambda>ts. Inr (zip ts (map (map to_source_sample) (selection_of sel movie))))"
  by (subst collect_pairs [where h = "\<lambda>(i, t). map to_source_sample (selected_records sel i t)"
        and g = "\<lambda>(i, t). rebased_starts sel t (selected_records sel i t)"])
      (auto simp: Let_def comp_def case_prod_beta')

lemma selection_in_file:
  "(\<And>t. t \<in> set movie \<Longrightarrow> list_all (in_file (length f)) (pt_samples t)) \<Longrightarrow> all_in_file f (selection_of sel movie)"
  by (auto simp: list_all_iff [of _ "map _ _"] in_set_enumerate_eq intro!: selected_all)

lemma bind_map_err_Inl [simp]:
  "bind_out (map_err g (Inl a)) k = Inl (case a of Panic \<Rightarrow> Panic | Err e \<Rightarrow> Err (g e))"
  by (cases a) simp_all

lemma bind_out_assoc: "bind_out (bind_out m k) h = bind_out m (\<lambda>x. bind_out (k x) h)"
  by (simp add: bind_out_def split: sum.splits)

lemma map_err_bind: "map_err g (bind_out m k) = bind_out (map_err g m) (\<lambda>x. map_err g (k x))"
  by (simp add: bind_out_def map_err_def split: sum.splits fault.splits)

lemma map_err_Inr [simp]: "map_err g (Inr x) = Inr x"
  by (simp add: map_err_def)

text \<open>What is left of a file operation when source and target differ and the system refuses nothing.\<close>

definition trim_copied :: "bytes \<Rightarrow> f64 \<Rightarrow> f64 \<Rightarrow> (bytes \<times> trim_info) parsed" where
  "trim_copied source start_s end_s =
     bind_out (validate_range start_s end_s) (\<lambda>_.
     bind_out (trim_source_samples source start_s end_s) (\<lambda>(movie, selection, per_track).
     bind_out (copy_into_target source (map pt_cfg movie) (map snd per_track) (map fst per_track)) (\<lambda>out.
       Inr (out, selection_info selection start_s end_s))))"

definition remux_copied :: "bytes \<Rightarrow> nat list \<Rightarrow> bytes parsed" where
  "remux_copied source indices =
     bind_out (parse_movie_reader source) (\<lambda>movie.
     bind_out (selected_audio_index_set movie indices) (\<lambda>selected.
     let kept = kept_tracks selected 0 movie in
     copy_into_target source (map pt_cfg kept) (map (\<lambda>t. map to_source_sample (pt_samples t)) kept) (map track_starts kept)))"

definition distinct_files :: "file_answers \<Rightarrow> bool" where
  "distinct_files a \<longleftrightarrow> an_source_canonical a \<noteq> None \<and> an_target_canonical a \<noteq> an_source_canonical a
     \<and> (an_target_exists a \<longrightarrow> an_same_identity a = Some False)"

definition same_file :: "file_answers \<Rightarrow> bool" where
  "same_file a \<longleftrightarrow> an_source_canonical a \<noteq> None \<and> (an_target_exists a \<longrightarrow> an_same_identity a \<noteq> None)
     \<and> (an_target_canonical a = an_source_canonical a \<or> an_target_exists a \<and> an_same_identity a = Some True)"

lemma distinct_files_accepted: "distinct_files a \<Longrightarrow> reject_same_file a = Inr ()"
  by (auto simp: distinct_files_def reject_same_file_def ok_or_def)

lemma same_file_rejected: "same_file a \<Longrightarrow> reject_same_file a = Inl (Err SameFile)"
  by (auto simp: same_file_def reject_same_file_def ok_or_def)

lemma trim_file_copies:
  assumes "distinct_files a" "an_source a = Some f" "an_temp_created a" "an_replaced a"
  shows "trim_keyframe_aligned_file a s e = map_err Trimming (trim_copied f s e)"
proof -
  have w: "write_file_atomically a r = r" for r
    using assms(3,4) by (cases r) (simp_all add: write_file_atomically_def)
  show ?thesis
    by (simp add: trim_keyframe_aligned_file_def trim_copied_def distinct_files_accepted [OF assms(1)] ok_or_def assms(2) w
        map_err_bind case_prod_beta')
qed

lemma remux_file_copies:
  assumes "distinct_files a" "an_source a = Some f" "an_temp_created a" "an_replaced a"
  shows "remux_with_selected_audio_tracks_file a indices = map_err Trimming (remux_copied f indices)"
proof -
  have w: "write_file_atomically a r = r" for r
    using assms(3,4) by (cases r) (simp_all add: write_file_atomically_def)
  show ?thesis
    by (simp add: remux_with_selected_audio_tracks_file_def remux_copied_def distinct_files_accepted [OF assms(1)] ok_or_def assms(2) w
        map_err_bind Let_def)
qed

lemma trim_file_is_trim:
  assumes reader: "parse_movie_reader f = parse_movie f" and small: "length f \<le> u64_max"
  shows "trim_copied f s e = trim_keyframe_aligned f s e"
proof (cases "parse_movie f")
  case (Inr movie)
  then have files: "\<And>t. t \<in> set movie \<Longrightarrow> list_all (in_file (length f)) (pt_samples t)"
    using parse_movie_in_file [of f "length f" movie] by (simp add: parse_movie_def)
  show ?thesis
  proof (cases "select_trim_range movie s e")
    case sel: (Inr sel)
    show ?thesis
    proof (cases "collect (\<lambda>(i, t). rebased_starts sel t (selected_records sel i t)) (List.enumerate 0 movie)")
      case ts: (Inr ts)
      then have len: "length ts = length movie" using collect_Inr_length by fastforce
      show ?thesis
      proof (cases "writer_new_multi sink_new (map pt_cfg movie)")
        case (Inr mw)
        then have "writer_ok mw" using writer_new_ok by blast
        from copied_replay [OF this selection_in_file [OF files]] show ?thesis
          unfolding trim_copied_def trim_source_samples_def copy_into_target_def bind_out_assoc trim_keyframe_aligned_def
          by (simp add: reader \<open>parse_movie f = Inr movie\<close> sel trim_memory_parts [OF files small] trim_file_parts ts len Inr)
      qed (simp add: trim_copied_def trim_source_samples_def copy_into_target_def bind_out_assoc trim_keyframe_aligned_def reader Inr sel
          trim_memory_parts [OF files small] trim_file_parts ts)
    qed (simp add: trim_copied_def trim_source_samples_def copy_into_target_def bind_out_assoc trim_keyframe_aligned_def reader Inr sel
        trim_memory_parts [OF files small] trim_file_parts)
  qed (simp add: trim_copied_def trim_source_samples_def copy_into_target_def bind_out_assoc trim_keyframe_aligned_def reader Inr)
qed (simp add: trim_copied_def trim_source_samples_def copy_into_target_def bind_out_assoc trim_keyframe_aligned_def reader)


lemma selected_audio_index_set_eq:
  "selected_audio_index_set movie indices =
     (if distinct indices \<and> (\<forall>i \<in> set indices. i < length (filter (\<lambda>t. \<not> is_video (pt_cfg t)) movie))
      then Inr (set indices) else Inl (Err InvalidRange))"
proof -
  have "card (set indices) = length indices \<longleftrightarrow> distinct indices"
    using card_distinct distinct_card by metis
  then show ?thesis by (auto simp: selected_audio_index_set_def Let_def list_ex_iff linorder_not_less [symmetric])
qed

text \<open>The tracks a remux keeps, in order: a video track, or an audio track by its number.\<close>

lemma kept_tracks_nths:
  "kept_tracks selected k ts = nths ts {i. i < length ts \<and> (is_video (pt_cfg (ts ! i))
     \<or> k + length (filter (\<lambda>t. \<not> is_video (pt_cfg t)) (take i ts)) \<in> selected)}"
proof (induction ts arbitrary: k)
  case (Cons t ts)
  let ?keep = "\<lambda>k ts. {i. i < length ts \<and> (is_video (pt_cfg (ts ! i))
     \<or> k + length (filter (\<lambda>t. \<not> is_video (pt_cfg t)) (take i ts)) \<in> selected)}"
  have "{j. Suc j \<in> ?keep k (t # ts)} = ?keep (if is_video (pt_cfg t) then k else k + 1) ts"
    by auto
  moreover have "0 \<in> ?keep k (t # ts) \<longleftrightarrow> is_video (pt_cfg t) \<or> k \<in> selected" by simp
  ultimately show ?case using Cons.IH by (simp add: nths_Cons)
qed simp

lemma kept_tracks_subset: "set (kept_tracks selected k ts) \<subseteq> set ts"
  by (auto simp: kept_tracks_nths set_nths)

lemma remux_samples:
  assumes "parse_movie f = Inr movie" "length f \<le> u64_max" "set kept \<subseteq> set movie"
  shows "collect (\<lambda>t. collect (to_frag_sample f) (pt_samples t)) kept
      = Inr (map (map (frag_of f)) (map pt_samples kept))"
    "all_in_file f (map pt_samples kept)" "\<forall>rs \<in> set (map pt_samples kept). rs \<noteq> []"
proof -
  have files: "list_all (in_file (length f)) (pt_samples t) \<and> pt_samples t \<noteq> []" if "t \<in> set kept" for t
    using parse_movie_in_file [of f "length f" movie] assms(1,3) that by (auto simp: parse_movie_def)
  then show "all_in_file f (map pt_samples kept)" "\<forall>rs \<in> set (map pt_samples kept). rs \<noteq> []"
    by (auto simp: list_all_iff)
  have "collect (to_frag_sample f) (pt_samples t) = Inr (map (frag_of f) (pt_samples t))" if "t \<in> set kept" for t
    using files [OF that] to_frag_sample_in_file assms(2) by (intro collect_all_Inr) (auto simp: list_all_iff)
  then show "collect (\<lambda>t. collect (to_frag_sample f) (pt_samples t)) kept
      = Inr (map (map (frag_of f)) (map pt_samples kept))"
    by (subst collect_all_Inr [where g = "\<lambda>t. map (frag_of f) (pt_samples t)"]) (simp_all add: comp_def)
qed

lemma remux_file_is_remux:
  assumes reader: "parse_movie_reader f = parse_movie f" and small: "length f \<le> u64_max"
  shows "remux_copied f indices = remux_with_selected_audio_tracks f indices"
proof (cases "parse_movie f")
  case movie: (Inr movie)
  show ?thesis
  proof (cases "selected_audio_index_set movie indices")
    case sel: (Inr selected)
    let ?kept = "kept_tracks selected 0 movie"
    note samples = remux_samples [OF movie small kept_tracks_subset, of selected 0]
    show ?thesis
    proof (cases "writer_new_multi sink_new (map pt_cfg ?kept)")
      case (Inr mw)
      then have "writer_ok mw" using writer_new_ok by blast
      from copied_replay [OF this samples(2)] show ?thesis
        by (simp add: remux_copied_def copy_into_target_def bind_out_assoc remux_with_selected_audio_tracks_def reader
            movie sel samples(1) Inr comp_def Let_def)
    qed (simp add: remux_copied_def copy_into_target_def bind_out_assoc remux_with_selected_audio_tracks_def reader
        movie sel samples(1) Let_def)
  qed (simp add: remux_copied_def copy_into_target_def bind_out_assoc remux_with_selected_audio_tracks_def reader movie)
qed (simp add: remux_copied_def copy_into_target_def bind_out_assoc remux_with_selected_audio_tracks_def reader)

lemma remuxed_file_parses:
  assumes remux: "remux_with_selected_audio_tracks f indices = Inr out"
    and small: "length f \<le> u64_max" "length out \<le> u64_max" and movie: "parse_movie f = Inr movie"
    and tracks: "\<And>track. track \<in> set movie \<Longrightarrow> length (pt_samples track) \<le> max_parsed_samples
      \<and> unat (track_timescale (pt_cfg track)) dvd 720000
      \<and> (\<forall>r \<in> set (pt_samples track). (sr_start_ticks r + unat (sr_duration r)) * 720000 \<le> u64_max)"
  defines "kept \<equiv> kept_tracks (set indices) 0 movie"
  shows "\<exists>ms. parse_movie out = Inr ms \<and> length ms = length kept
      \<and> (\<forall>i < length kept. pt_cfg (ms ! i) = pt_cfg (kept ! i)
          \<and> parsed_view out (ms ! i) = parsed_view f (kept ! i))"
proof -
  have sub: "set kept \<subseteq> set movie" unfolding kept_def by (rule kept_tracks_subset)
  have sel: "selected_audio_index_set movie indices = Inr (set indices)"
    using remux movie by (auto simp: remux_with_selected_audio_tracks_def bind_out_Inr_iff
        selected_audio_index_set_eq split: if_splits)
  note samples = remux_samples [OF movie small(1) sub]
  obtain mw mw' w where new: "writer_new_multi sink_new (map pt_cfg kept) = Inr mw"
    and wr: "write_timed_frag_samples mw (map (map (frag_of f)) (map pt_samples kept)) (map track_starts kept) = Inr mw'"
    and fin: "finalize mw' = Some w" and out: "out = sk_data w"
    using remux movie sel samples(1) kept_def by (auto simp: remux_with_selected_audio_tracks_def bind_out_Inr_iff Let_def)
  have kept: "kept ! i \<in> set movie" if "i < length kept" for i using sub that by (meson nth_mem subsetD)
  have times: "(map track_starts kept ! i ! j + unat (sr_duration (map pt_samples kept ! i ! j))) * 720000 \<le> u64_max"
    if "i < length (map pt_samples kept)" "j < length (map pt_samples kept ! i)" for i j
    using tracks [OF kept [of i]] that by (simp add: track_starts_def)
  have few: "length (map pt_samples kept ! i) \<le> max_parsed_samples" if "i < length (map pt_cfg kept)" for i
    using tracks [OF kept [of i]] that by simp
  have rates: "unat (track_timescale (map pt_cfg kept ! i)) dvd 720000" if "i < length (map pt_cfg kept)" for i
    using tracks [OF kept [of i]] that by simp
  from replay_parses [OF new wr fin small(2) [unfolded out] _ few rates times] samples(3) out
  show ?thesis by (auto simp: parsed_view_media track_starts_def)
qed

end
