(* ===== verification/Mp4_Reader_Properties.thy ===== *)
theory Mp4_Reader_Properties
  imports Mp4_Properties Mp4_Trim_Correct
begin

text \<open>
  The properties of the finalized-file reader and of trimming and remuxing
  (crates/clipline-mp4/src/trim.rs).
\<close>

section \<open>A sample recording\<close>

text \<open>One AV1 track at one tick per second with two key frames of a second.\<close>

definition sample_av1 :: track_config where
  "sample_av1 = Video \<lparr>vt_width = 64, vt_height = 48, vt_timescale = 1,
     vt_codec = Av1 [0x0A, 2, 0x58, 0x80]\<rparr>"

definition sample_gop :: "frag_sample list" where
  "sample_gop = [\<lparr>fs_data = [1, 2, 3], fs_duration = 1, fs_is_sync = True\<rparr>,
     \<lparr>fs_data = [4, 5], fs_duration = 1, fs_is_sync = True\<rparr>]"

lemma parse_sample_av1:
  "parse_sequence_header [0x0A, 2, 0x58, 0x80]
     = Some \<lparr>av_seq_profile = 2, av_seq_level_idx_0 = 2, av_seq_tier_0 = 0\<rparr>"
  by code_simp

lemmas video_eval = init_eval video_trak_with_tables_def video_trak_with_tables_and_edits_def
  stsd_def visual_sample_entry_def nclx_rec709_limited_colr_def codec_box_def av1c_def parse_sample_av1

lemma sample_video_new:
  obtains mw where "writer_new_multi sink_new [sample_av1] = Inr mw"
    "mw_tracks mw = [track_state_new sample_av1]" "mw_next_sequence mw = 1"
    "mw_free_offset mw = 28" "sk_pos (mw_w mw) < 1000" "length (sk_data (mw_w mw)) < 1000"
  by (simp add: writer_new_multi_def validate_track_configs_def validate_track_config_def
      sample_av1_def sink_new_def video_eval)

lemmas write_eval = write_fragment_multi_def fragment_info_storage_def fragment_info_def
  validate_nonzero_durations_def write_planned_fragment_def planned_runs_def
  enumerate_eq_zip track_state_new_def fragment_eval payload_order_def write_sample_def
  record_track_def after_def record_run_def record_chunk_def record_sample_def add_duration_def
  checked_u32_def checked_add_u32_def push_duration_def push_sync_def i64_max_def Let_def

lemmas finalize_eval = finalize_def seek_start_def final_moov_def duration_movie_ts_def rescale_duration_def
  presentation_end_def track_timescale_def movie_timescale_def track_trak_def sample_tables_def stts_def stss_def
  stsc_def stsz_def co64_def edit_list_def saturating_add_u64_def

lemma sample_video_run:
  assumes "mw_tracks mw = [track_state_new sample_av1]" "mw_next_sequence mw = 1"
    "mw_free_offset mw = 28" "sk_pos (mw_w mw) < 1000" "length (sk_data (mw_w mw)) < 1000"
  obtains mw' w where "writer_run mw [WriteFragment [sample_gop]] = Some mw'"
    "finalize mw' = Some w" "length (sk_data w) < 4000"
  using assms
  by (simp add: write_eval sample_gop_def finalize_eval sample_av1_def video_eval)

lemma sample_video_durations:
  assumes "writer_run mw [WriteFragment [sample_gop]] = Some mw'"
    "mw_tracks mw = [track_state_new sample_av1]" "mw_next_sequence mw = 1"
    "mw_free_offset mw = 28" "sk_pos (mw_w mw) < 1000" "length (sk_data (mw_w mw)) < 1000"
  shows "durations (mw_tracks mw' ! 0) = [1, 1]"
proof -
  have "mw_tracks mw' = [\<lparr>ks_cfg = sample_av1, ks_next_decode_time = 2, ks_media_duration = 2,
      ks_sample_count = 2, ks_sizes = [3, 2], ks_duration_runs = [\<lparr>dn_sample_count = 2, dn_sample_delta = 1\<rparr>],
      ks_sync_samples = SyncAll, ks_chunk_offsets = [120 + sk_pos (mw_w mw)],
      ks_stsc_runs = [\<lparr>sc_first_chunk = 1, sc_samples_per_chunk = 2\<rparr>],
      ks_timeline_runs = [\<lparr>tl_presentation_start = 0, tl_media_start = 0, tl_duration = 2\<rparr>]\<rparr>]"
    using assms by (simp add: write_eval sample_gop_def) (auto simp: numeral_2_eq_2)
  then show ?thesis by (simp add: durations_def expand_runs_def numeral_2_eq_2)
qed

text \<open>The sample recording, finalized, and the movie read from it.\<close>

definition sample_records :: "nat \<Rightarrow> nat \<Rightarrow> sample_record list" where
  "sample_records a b =
     [\<lparr>sr_offset = a, sr_size = 3, sr_duration = 1, sr_is_sync = True, sr_start_ticks = 0\<rparr>,
      \<lparr>sr_offset = b, sr_size = 2, sr_duration = 1, sr_is_sync = True, sr_start_ticks = 1\<rparr>]"

lemma sample_movie:
  obtains mw mw' w a b where "writer_new_multi sink_new [sample_av1] = Inr mw"
    "writer_run mw [WriteFragment [sample_gop]] = Some mw'" "finalize mw' = Some w"
    "length (sk_data w) < 4000" "mw_tracks mw = [track_state_new sample_av1]"
    "parse_movie (sk_data w) = Inr [\<lparr>pt_cfg = sample_av1, pt_timescale = 1, pt_samples = sample_records a b\<rparr>]"
    "media (sk_data w) (sample_records a b) = [([1, 2, 3], True), ([4, 5], True)]"
proof -
  obtain mw where mw: "writer_new_multi sink_new [sample_av1] = Inr mw"
    "mw_tracks mw = [track_state_new sample_av1]" "mw_next_sequence mw = 1"
    "mw_free_offset mw = 28" "sk_pos (mw_w mw) < 1000" "length (sk_data (mw_w mw)) < 1000"
    by (rule sample_video_new)
  obtain mw' w where run: "writer_run mw [WriteFragment [sample_gop]] = Some mw'"
    "finalize mw' = Some w" "length (sk_data w) < 4000"
    using mw(2-) by (rule sample_video_run)
  have small: "length (sk_data w) \<le> u64_max" using run(3) by (simp add: u64_max_def)
  have ops: "handed [WriteFragment [sample_gop]] 0 = [([1, 2, 3], True), ([4, 5], True)]"
    "scheduled [WriteFragment [sample_gop]] 0 0 = [0, 1]" "clock [WriteFragment [sample_gop]] 0 0 = 2"
    by (simp_all add: handed_def sample_gop_def)
  obtain ms where ms: "parse_movie (sk_data w) = Inr ms" "length ms = 1" "pt_cfg (ms ! 0) = sample_av1"
    "pt_timescale (ms ! 0) = 1" "parsed_view (sk_data w) (ms ! 0) = ([([1, 2, 3], True), ([4, 5], True)], [0, 1])"
    "map (record_view (sk_data w)) (pt_samples (ms ! 0)) = track_view (sk_data w) (mw_tracks mw' ! 0)"
    by (rule recording_parses [OF mw(1) run(1,2) small])
      (use ops in \<open>simp_all add: max_parsed_samples_def u64_max_def sample_av1_def track_timescale_def\<close>)
  have "stream_ok 44 (length (sk_data w)) (mw_tracks mw' ! 0)"
    using recording_tracks [OF mw(1) run(1,2) small] ops(1) by (simp add: max_parsed_samples_def recordable_def)
  from track_view_parts(1) [OF this, of "sk_data w"] ms(6) sample_video_durations [OF run(1) mw(2-)]
  have "map (\<lambda>v. fst (snd v)) (map (record_view (sk_data w)) (pt_samples (ms ! 0))) = [1, 1]" by simp
  then have durs: "map (\<lambda>s. unat (sr_duration s)) (pt_samples (ms ! 0)) = [1, 1]"
    by (simp add: record_view_def comp_def)
  obtain t where t: "ms = [t]" using ms(2) by (cases ms) auto
  have "length (pt_samples t) = 2" using arg_cong [OF durs, of length] t by simp
  then obtain x y where xy: "pt_samples t = [x, y]" by (auto simp: numeral_2_eq_2 length_Suc_conv)
  have "in_file (length (sk_data w)) x" "in_file (length (sk_data w)) y"
    using parse_movie_in_file [of "sk_data w" "length (sk_data w)" ms t] ms(1) t xy by (simp_all add: parse_movie_def)
  moreover have m: "media (sk_data w) [x, y] = [([1, 2, 3], True), ([4, 5], True)]"
    "sr_start_ticks x = 0" "sr_start_ticks y = 1"
    using ms(5) t xy by (simp_all add: parsed_view_media)
  ultimately have "unat (sr_size x) = 3" "unat (sr_size y) = 2"
    by (auto simp: media_def in_file_def slice_def dest!: arg_cong [where f = length])
  then have "sr_size x = 3" "sr_size y = 2" "sr_duration x = 1" "sr_duration y = 1"
    using durs t xy by (simp_all add: word_unat_eq_iff)
  then have "pt_samples t = sample_records (sr_offset x) (sr_offset y)"
    using xy m by (cases x; cases y) (simp add: sample_records_def media_def)
  moreover from this have "t = \<lparr>pt_cfg = sample_av1, pt_timescale = 1,
      pt_samples = sample_records (sr_offset x) (sr_offset y)\<rparr>"
    using ms(3,4) t by (cases t) simp
  ultimately show thesis
    using ms(1) t m(1) xy mw(1,2) run by (intro that [of mw mw' w "sr_offset x" "sr_offset y"]) simp_all
qed

section \<open>A sample trim\<close>

definition sample_trim_selection :: trim_selection where
  "sample_trim_selection = \<lparr>tn_video_idx = 0, tn_start_idx = 1, tn_end_idx = 2, tn_aligned_start_s = Fin 1,
     tn_aligned_end_s = Fin 2, tn_aligned_start_ticks = 1, tn_aligned_end_ticks = 2, tn_video_timescale = 1\<rparr>"

lemma sample_f64: "f64_of_nat 0 = Fin 0" "f64_of_nat (Suc 0) = Fin 1" "f64_of_nat (Suc (Suc 0)) = Fin 2"
  "fdiv (Fin 2) (Fin 1) = Fin 2" "fdiv (Fin 1) (Fin 1) = Fin 1" "fle (Fin 2) (Fin 1) = False"
  "fmul (Fin 1) (Fin 1) = Fin 1" "fmul (Fin 2) (Fin 1) = Fin 2" "f64_val (Fin 1) = 1" "f64_val (Fin 2) = 2"
  by (simp_all add: f64_eval f64_of_nat_def fdiv_def fmul_def f64_val_def f64_rank_def)

lemma not_past_u64_max: "\<not> flt (f64_of_nat u64_max) (Fin 1)" "\<not> flt (f64_of_nat u64_max) (Fin 2)"
proof -
  have "fle (f64_of_nat (Suc 0)) (f64_of_nat u64_max)" "fle (f64_of_nat (Suc (Suc 0))) (f64_of_nat u64_max)"
    unfolding f64_of_nat_def by (rule f64_of_rat_mono; simp add: u64_max_def)+
  then show "\<not> flt (f64_of_nat u64_max) (Fin 1)" "\<not> flt (f64_of_nat u64_max) (Fin 2)"
    unfolding sample_f64 using fle_not_nan not_fle by blast+
qed

lemma sample_seconds: "seconds_to_ticks_floor (Fin 1) 1 = Inr 1" "seconds_to_ticks_ceil (Fin 2) 1 = Inr 2"
  using not_past_u64_max
  by (simp_all add: seconds_to_ticks_floor_def seconds_to_ticks_ceil_def in_timeline_def sample_f64
      is_finite_def flt_def u64_max_def)

lemma sample_select:
  "select_trim_range [\<lparr>pt_cfg = sample_av1, pt_timescale = 1, pt_samples = sample_records a b\<rparr>] (Fin 1) (Fin 2)
     = Inr sample_trim_selection"
  by (simp add: select_trim_range_def sample_av1_def sample_records_def track_end_s_def record_end_s_def is_video_def
      wrapping_add_u64_def pick_start_def pick_end_def sample_seconds sample_f64 sample_trim_selection_def Let_def)

text \<open>The writer run of that trim: the second sample alone, at time zero.\<close>

lemma sample_trim_run:
  assumes "mw_tracks mw = [track_state_new sample_av1]" "mw_next_sequence mw = 1"
    "mw_free_offset mw = 28" "sk_pos (mw_w mw) < 1000" "length (sk_data (mw_w mw)) < 1000"
  obtains mw' w where "write_timed_frag_samples mw
      [[\<lparr>fs_data = [4, 5], fs_duration = 1, fs_is_sync = True\<rparr>]] [[0]] = Inr mw'"
    "finalize mw' = Some w" "length (sk_data w) < 4000"
  using assms
  by (simp add: write_timed_frag_samples_def prepare_timed_ranges_def timed_ranges_def run_count_def
      run_advances_def run_samples_def get_at_def slice_def set_track_decode_time_def advance_track_def
      absorb_subframe_video_gap_def
      write_eval finalize_eval sample_av1_def video_eval)

lemma sample_trim_of:
  assumes "length f < 4000"
    "parse_movie f = Inr [\<lparr>pt_cfg = sample_av1, pt_timescale = 1, pt_samples = sample_records a b\<rparr>]"
    "media f (sample_records a b) = [([1, 2, 3], True), ([4, 5], True)]"
  shows "\<exists>out info. trim_keyframe_aligned f (Fin 1) (Fin 2) = Inr (out, info) \<and> length out < 4000"
proof -
  let ?t = "\<lparr>pt_cfg = sample_av1, pt_timescale = 1, pt_samples = sample_records a b\<rparr>"
  obtain mw where mw: "writer_new_multi sink_new [sample_av1] = Inr mw"
    "mw_tracks mw = [track_state_new sample_av1]" "mw_next_sequence mw = 1"
    "mw_free_offset mw = 28" "sk_pos (mw_w mw) < 1000" "length (sk_data (mw_w mw)) < 1000"
    by (rule sample_video_new)
  obtain mw' w where run: "write_timed_frag_samples mw
      [[\<lparr>fs_data = [4, 5], fs_duration = 1, fs_is_sync = True\<rparr>]] [[0]] = Inr mw'"
    "finalize mw' = Some w" "length (sk_data w) < 4000"
    using mw(2-) by (rule sample_trim_run)
  have "list_all (in_file (length f)) (sample_records a b)"
    using parse_movie_in_file [of f "length f" "[?t]" ?t] assms(2) by (simp add: parse_movie_def)
  then have "to_frag_sample f (sample_records a b ! 1) = Inr \<lparr>fs_data = [4, 5], fs_duration = 1, fs_is_sync = True\<rparr>"
    using to_frag_sample_in_file [of f "sample_records a b ! 1"] assms(1,3)
    by (simp add: sample_records_def media_def frag_of_def u64_max_def)
  moreover have "selected_records sample_trim_selection 0 ?t = [sample_records a b ! 1]"
    "rebased_starts sample_trim_selection ?t [sample_records a b ! 1] = Inr [0]"
    by (simp_all add: selected_records_def sample_trim_selection_def rebased_starts_def rebase_start_def
        sample_records_def slice_def checked_sub_nat_def)
  ultimately have "trim_keyframe_aligned f (Fin 1) (Fin 2)
      = Inr (sk_data w, selection_info sample_trim_selection (Fin 1) (Fin 2))"
    using assms(2) mw(1) run
    by (simp add: trim_keyframe_aligned_def validate_range_def is_finite_def sample_f64 flt_def f64_rank_def f64_val_def
        sample_select Let_def)
  then show ?thesis using run(3) by blast
qed

lemma sample_trim:
  obtains f out info a b where "trim_keyframe_aligned f (Fin 1) (Fin 2) = Inr (out, info)"
    "length f < 4000" "length out < 4000"
    "parse_movie f = Inr [\<lparr>pt_cfg = sample_av1, pt_timescale = 1, pt_samples = sample_records a b\<rparr>]"
    "media f (sample_records a b) = [([1, 2, 3], True), ([4, 5], True)]"
proof -
  obtain w0 :: sink and a b where f: "length (sk_data w0) < 4000"
    "parse_movie (sk_data w0) = Inr [\<lparr>pt_cfg = sample_av1, pt_timescale = 1, pt_samples = sample_records a b\<rparr>]"
    "media (sk_data w0) (sample_records a b) = [([1, 2, 3], True), ([4, 5], True)]"
    by (rule sample_movie) (rule that, assumption+)
  from sample_trim_of [OF this] f show thesis by (blast intro: that)
qed

section \<open>Recordings\<close>

text \<open>
  C1: a finalized recording round-trips.  When every track got at least one and at most
  \<open>MAX_PARSED_SAMPLES\<close> samples, its timescale divides the movie timescale 720000, and its clock
  stays within \<open>u64::MAX / 720000\<close> ticks, \<open>parse_movie\<close> accepts the file and returns, for every track,
  its configuration, its timescale, the bytes and sync flags handed to the writer in order, and
  the start times of a clock that runs with the durations and is set by the advances - whatever
  fragments, chunks, table runs and edit lists the writer made of them.
\<close>

theorem recording_round_trips:
  assumes "writer_new_multi sink_new tracks = Inr mw" "writer_run mw ops = Some mw'" "finalize mw' = Some w"
    and "length (sk_data w) \<le> u64_max"
    and "\<forall>i < length tracks. handed ops i \<noteq> [] \<and> length (handed ops i) \<le> max_parsed_samples
      \<and> unat (track_timescale (tracks ! i)) dvd 720000 \<and> clock ops i 0 * 720000 \<le> u64_max"
  shows "\<exists>ms. parse_movie (sk_data w) = Inr ms \<and> map pt_cfg ms = tracks
    \<and> map pt_timescale ms = map track_timescale tracks
    \<and> map (\<lambda>m. media (sk_data w) (pt_samples m)) ms = map (handed ops) [0..<length tracks]
    \<and> map (\<lambda>m. map sr_start_ticks (pt_samples m)) ms = map (\<lambda>i. scheduled ops i 0) [0..<length tracks]"
proof -
  obtain ms where "parse_movie (sk_data w) = Inr ms" "length ms = length tracks"
    "\<And>i. i < length tracks \<Longrightarrow> pt_cfg (ms ! i) = tracks ! i \<and> pt_timescale (ms ! i) = track_timescale (tracks ! i)
       \<and> parsed_view (sk_data w) (ms ! i) = (handed ops i, scheduled ops i 0)"
    by (rule recording_parses [OF assms(1-4)]) (use assms(5) in auto)
  then show ?thesis by (intro exI [of _ ms]) (auto simp: parsed_view_media intro!: nth_equalityI)
qed

theorem recording_round_trips_witness:
  "\<exists>w ms. parse_movie (sk_data (w :: sink)) = Inr ms \<and> map pt_cfg ms = [sample_av1]
     \<and> map (\<lambda>m. media (sk_data w) (pt_samples m)) ms = [[([1, 2, 3], True), ([4, 5], True)]]
     \<and> map (\<lambda>m. map sr_start_ticks (pt_samples m)) ms = [[0, 1]]"
proof -
  obtain mw mw' w where r: "writer_new_multi sink_new [sample_av1] = Inr mw"
    "writer_run mw [WriteFragment [sample_gop]] = Some mw'" "finalize mw' = Some w" "length (sk_data w) < 4000"
    by (rule sample_movie) (rule that, assumption+)
  have "length (sk_data w) \<le> u64_max" using r(4) by (simp add: u64_max_def)
  moreover have "handed [WriteFragment [sample_gop]] 0 = [([1, 2, 3], True), ([4, 5], True)]"
    "scheduled [WriteFragment [sample_gop]] 0 0 = [0, 1]" "clock [WriteFragment [sample_gop]] 0 0 = 2"
    by (simp_all add: handed_def sample_gop_def)
  moreover have "unat (track_timescale sample_av1) dvd 720000" by (simp add: sample_av1_def track_timescale_def)
  ultimately show ?thesis
    using recording_round_trips [OF r(1-3)] by (fastforce simp: max_parsed_samples_def u64_max_def)
qed

text \<open>
  C39: a recording with a track that got no sample cannot be read back: the writer finalizes it, and
  the parser refuses the whole file.
\<close>

theorem empty_track_is_unreadable:
  assumes "writer_new_multi sink_new tracks = Inr mw" "writer_run mw ops = Some mw'" "finalize mw' = Some w"
    and "length (sk_data w) \<le> u64_max" "\<forall>j < length tracks. length (handed ops j) \<le> max_parsed_samples"
    and "i < length tracks" "handed ops i = []"
  shows "\<nexists>ms. parse_movie (sk_data w) = Inr ms"
  using empty_track_unreadable [OF assms(1-4) _ assms(6,7)] assms(5) by blast

theorem empty_track_is_unreadable_witness:
  "\<exists>mw w. writer_new_multi sink_new [sample_av1] = Inr mw \<and> finalize mw = Some w
     \<and> (\<nexists>ms. parse_movie (sk_data w) = Inr ms)"
proof -
  obtain mw where mw: "writer_new_multi sink_new [sample_av1] = Inr mw"
    "mw_tracks mw = [track_state_new sample_av1]" "mw_next_sequence mw = 1"
    "mw_free_offset mw = 28" "sk_pos (mw_w mw) < 1000" "length (sk_data (mw_w mw)) < 1000"
    by (rule sample_video_new)
  obtain w where w: "finalize mw = Some w" "length (sk_data w) < 4000"
    using mw(2-) by (simp add: finalize_eval enumerate_eq_zip track_state_new_def sample_av1_def video_eval)
  have "\<nexists>ms. parse_movie (sk_data w) = Inr ms"
    by (rule empty_track_is_unreadable [OF mw(1) _ w(1), of "[]" 0]) (use w(2) in \<open>simp_all add: handed_def u64_max_def\<close>)
  with mw(1) w(1) show ?thesis by blast
qed

section \<open>Parsed movies\<close>

text \<open>
  C38: whatever bytes are parsed, every track of the result has a sample, and every sample lies
  within the length of the source the parser was told.
\<close>

theorem parsed_samples_lie_in_source:
  assumes "parse_movie_with_source_len input source_len = Inr movie" "track \<in> set movie"
  shows "pt_samples track \<noteq> [] \<and> (\<forall>s \<in> set (pt_samples track). sr_offset s + unat (sr_size s) \<le> source_len)"
  using parse_movie_in_file [OF assms] by (auto simp: list_all_iff in_file_def)

theorem parsed_samples_lie_in_source_witness:
  "\<exists>f :: bytes. \<exists>track. parse_movie f = Inr [track] \<and> length f < 4000
     \<and> (\<forall>s \<in> set (pt_samples track). sr_offset s + unat (sr_size s) < 4000)"
proof -
  obtain w :: sink and a b where f: "length (sk_data w) < 4000"
    "parse_movie (sk_data w) = Inr [\<lparr>pt_cfg = sample_av1, pt_timescale = 1, pt_samples = sample_records a b\<rparr>]"
    by (rule sample_movie) (rule that, assumption+)
  show ?thesis
    using f parsed_samples_lie_in_source [OF f(2) [unfolded parse_movie_def], of
        "\<lparr>pt_cfg = sample_av1, pt_timescale = 1, pt_samples = sample_records a b\<rparr>"]
    by (intro exI [of _ "sk_data w"] exI) (auto intro: le_less_trans)
qed

section \<open>Trimming\<close>

text \<open>
  C25: the range of a trim is cut at key frames of the first video track - no track before it is a
  video track - and no wider than needed.
  It starts at the last key frame at or before the requested start rounded down to a tick (at the
  first key frame when there is none), it ends before the first later key frame at or after the
  requested end rounded up, or at the end of the track, and it is not empty.
\<close>

theorem trim_range_is_keyframe_aligned:
  assumes "select_trim_range movie s e = Inr sel"
  shows "tn_video_idx sel < length movie \<and> is_video (pt_cfg (movie ! tn_video_idx sel))
    \<and> (\<forall>j < tn_video_idx sel. \<not> is_video (pt_cfg (movie ! j)))
    \<and> (let samples = pt_samples (movie ! tn_video_idx sel); a = tn_start_idx sel; b = tn_end_idx sel;
           timescale = pt_timescale (movie ! tn_video_idx sel)
       in a < b \<and> b \<le> length samples \<and> sr_is_sync (samples ! a)
        \<and> tn_aligned_start_ticks sel = sr_start_ticks (samples ! a)
        \<and> (\<exists>lo hi. seconds_to_ticks_floor s timescale = Inr lo \<and> seconds_to_ticks_ceil e timescale = Inr hi
            \<and> (if \<exists>k \<in> set samples. sr_is_sync k \<and> sr_start_ticks k \<le> lo
                then sr_start_ticks (samples ! a) \<le> lo
                  \<and> (\<forall>j. a < j \<longrightarrow> j < length samples \<longrightarrow> sr_is_sync (samples ! j) \<longrightarrow> lo < sr_start_ticks (samples ! j))
                else \<forall>j < a. \<not> sr_is_sync (samples ! j))
            \<and> (b < length samples \<longrightarrow> sr_is_sync (samples ! b) \<and> hi \<le> sr_start_ticks (samples ! b))
            \<and> (\<forall>j. a < j \<longrightarrow> j < b \<longrightarrow> sr_is_sync (samples ! j) \<longrightarrow> sr_start_ticks (samples ! j) < hi)))"
proof -
  obtain lo hi where v: "position (\<lambda>t. is_video (pt_cfg t)) movie = Some (tn_video_idx sel)"
    and ticks: "seconds_to_ticks_floor s (pt_timescale (movie ! tn_video_idx sel)) = Inr lo"
      "seconds_to_ticks_ceil e (pt_timescale (movie ! tn_video_idx sel)) = Inr hi"
    and a: "pick_start (pt_samples (movie ! tn_video_idx sel)) lo = Inr (tn_start_idx sel)"
    and b: "tn_end_idx sel = pick_end (pt_samples (movie ! tn_video_idx sel)) (tn_start_idx sel) hi"
    and start: "tn_aligned_start_ticks sel = sr_start_ticks (pt_samples (movie ! tn_video_idx sel) ! tn_start_idx sel)"
    using assms by (rule select_trim_range_Inr) (rule that, simp_all)
  have video: "tn_video_idx sel < length movie" "is_video (pt_cfg (movie ! tn_video_idx sel))"
    "\<forall>j < tn_video_idx sel. \<not> is_video (pt_cfg (movie ! j))"
    using v by (simp_all add: position_Some_iff)
  note from_a = pick_start_Inr [OF a] and to_b = pick_end_bounds [OF pick_start_Inr(1) [OF a], where r = hi, folded b]
  show ?thesis
    unfolding Let_def
  proof (intro conjI, goal_cases)
    case 8
    show ?case
      by (rule exI [of _ lo], rule exI [of _ hi], intro conjI allI impI;
          (rule ticks from_a to_b; assumption)?) (use to_b(3,4) in blast)+
  qed (rule video start from_a to_b)+
qed

theorem trim_range_is_keyframe_aligned_witness:
  "tn_start_idx sample_trim_selection < tn_end_idx sample_trim_selection
     \<and> sr_is_sync (sample_records 900 903 ! tn_start_idx sample_trim_selection)"
  using trim_range_is_keyframe_aligned [OF sample_select [of 900 903]]
  by (simp add: sample_trim_selection_def Let_def)

text \<open>
  C@: a kept sample moves to its time relative to the start of the range, rounded to the nearest
  tick of its own track: at most half a video tick off, never later than it was, and within
  \<open>u64\<close>.
\<close>

theorem trim_times_round_to_nearest:
  assumes "rebase_start sel start_ticks timescale = Inr rebased"
  shows "rebased \<le> start_ticks \<and> rebased \<le> u64_max
    \<and> 2 * \<bar>int (rebased * unat (tn_video_timescale sel))
        - (int (start_ticks * unat (tn_video_timescale sel)) - int (tn_aligned_start_ticks sel * unat timescale))\<bar>
      \<le> int (unat (tn_video_timescale sel))"
  using rebase_start_Inr [OF assms] by simp

theorem trim_times_round_to_nearest_witness:
  "rebase_start (sample_trim_selection\<lparr>tn_video_timescale := 90000, tn_aligned_start_ticks := 3001\<rparr>) 48960 48000
     = Inr 47359 \<and> 2 * \<bar>int (47359 * 90000) - (int (48960 * 90000) - int (3001 * 48000))\<bar> \<le> 90000"
proof -
  have "rebase_start (sample_trim_selection\<lparr>tn_video_timescale := 90000, tn_aligned_start_ticks := 3001\<rparr>) 48960 48000
     = Inr 47359"
    by (simp add: rebase_start_def checked_sub_nat_def u64_max_def)
  from this trim_times_round_to_nearest [OF this] show ?thesis by simp
qed

text \<open>
  The ranges of a timed replay cut the samples, in order and without a rest, into runs: inside
  a run every sample starts where the one before it ends, and between two runs there is a gap.
\<close>

theorem timed_ranges_partition:
  assumes "timed_ranges ts ds = Inr ranges"
  shows "concat (map (\<lambda>(a, b). slice a b ts) ranges) = ts \<and> concat (map (\<lambda>(a, b). slice a b ds) ranges) = ds
    \<and> (\<forall>(a, b) \<in> set ranges. a < b \<and> slice a b ts = start_times (ts ! a) (map unat (slice a b ds)))
    \<and> (\<forall>(a, b) \<in> set (butlast ranges). ts ! (b - 1) + unat (ds ! (b - 1)) < ts ! b)"
proof -
  note cover = timed_ranges_cover [OF assms]
  show ?thesis
    using cover cover_slices [OF cover(3)] cover_slices [of ranges ds]
    by (auto simp: list_all_iff gapless_def)
qed

theorem timed_ranges_partition_witness:
  "timed_ranges [0, 1, 5] [1, 1, 2] = Inr [(0, 2), (2, 3)] \<and> slice 0 2 [0, 1, 5] = start_times 0 [1, 1]"
proof -
  have "timed_ranges [0, 1, 5] [1, 1, 2] = Inr [(0, 2), (2, 3)]"
    by (simp add: timed_ranges_def checked_add_u64_def u64_max_def)
  from this timed_ranges_partition [OF this] show ?thesis by (simp add: slice_def)
qed

text \<open>
  C24: a trimmed file reads back as its selection.  Take a source in which no track has more than
  \<open>MAX_PARSED_SAMPLES\<close> samples, every track's timescale divides the movie timescale 720000, and no
  sample's end times 720000 exceeds 64 bits, source and target being no longer than 2^64 - 1 bytes.  When
  every track of the source keeps a sample, the trimmed file parses to the same tracks, and each track
  has exactly the selected samples of its source track - the video samples of the range, the other
  samples that start within it - with their bytes and sync flags and at their rebased times; otherwise
  the trim has produced a file that the parser refuses.
\<close>

theorem trimmed_file_reads_back:
  assumes "trim_keyframe_aligned f s e = Inr (out, info)" "length f \<le> u64_max" "length out \<le> u64_max"
    and "parse_movie f = Inr movie" "select_trim_range movie s e = Inr sel"
    and "\<forall>track \<in> set movie. length (pt_samples track) \<le> max_parsed_samples
      \<and> unat (track_timescale (pt_cfg track)) dvd 720000
      \<and> (\<forall>r \<in> set (pt_samples track). (sr_start_ticks r + unat (sr_duration r)) * 720000 \<le> u64_max)"
  shows "if \<forall>i < length movie. selected_records sel i (movie ! i) \<noteq> []
    then \<exists>ms. parse_movie out = Inr ms \<and> length ms = length movie
      \<and> (\<forall>i < length movie. pt_cfg (ms ! i) = pt_cfg (movie ! i)
          \<and> media out (pt_samples (ms ! i)) = media f (selected_records sel i (movie ! i))
          \<and> rebased_starts sel (movie ! i) (selected_records sel i (movie ! i))
              = Inr (map sr_start_ticks (pt_samples (ms ! i))))
    else \<nexists>ms. parse_movie out = Inr ms"
  by (rule trimmed_file_parses [OF assms(1-5)]) (use assms(6) in blast)

theorem trimmed_file_reads_back_witness:
  "\<exists>f out info ms. trim_keyframe_aligned f (Fin 1) (Fin 2) = Inr (out, info) \<and> parse_movie out = Inr ms
     \<and> map (\<lambda>m. media out (pt_samples m)) ms = [[([4, 5], True)]]
     \<and> map (\<lambda>m. map sr_start_ticks (pt_samples m)) ms = [[0]]"
proof -
  obtain f out info a b where f: "trim_keyframe_aligned f (Fin 1) (Fin 2) = Inr (out, info)"
    "length f < 4000" "length out < 4000"
    "parse_movie f = Inr [\<lparr>pt_cfg = sample_av1, pt_timescale = 1, pt_samples = sample_records a b\<rparr>]"
    "media f (sample_records a b) = [([1, 2, 3], True), ([4, 5], True)]"
    by (rule sample_trim) (rule that, assumption+)
  let ?t = "\<lparr>pt_cfg = sample_av1, pt_timescale = 1, pt_samples = sample_records a b\<rparr>"
  have sel: "selected_records sample_trim_selection 0 ?t = [sample_records a b ! 1]"
    "rebased_starts sample_trim_selection ?t [sample_records a b ! 1] = Inr [0]"
    "media f [sample_records a b ! 1] = [([4, 5], True)]"
    using f(5) by (simp_all add: selected_records_def sample_trim_selection_def rebased_starts_def rebase_start_def
        sample_records_def slice_def checked_sub_nat_def media_def)
  have "\<exists>ms. parse_movie out = Inr ms \<and> length ms = 1
    \<and> media out (pt_samples (ms ! 0)) = [([4, 5], True)] \<and> map sr_start_ticks (pt_samples (ms ! 0)) = [0]"
    using trimmed_file_reads_back [OF f(1) _ _ f(4) sample_select] f(2,3) sel
    by (simp add: u64_max_def max_parsed_samples_def sample_av1_def track_timescale_def sample_records_def)
      (metis Inr_inject)
  then show ?thesis using f(1) by (fastforce simp: length_Suc_conv)
qed

section \<open>Through files\<close>

text \<open>
  C27: on a finalized recording with at most \<open>MAX_PARSED_SAMPLES\<close> samples in a track, at most 2^64 - 1
  bytes and at most 64 MiB of \<open>moov\<close>, the operations on files do what the operations on bytes do: when
  source and target are different files and the system neither refuses the temporary file nor its move
  to the target, loading only the \<open>moov\<close> box and copying the samples in pieces gives the same target
  bytes, the same reported range and the same errors.  When the target is the source, by its canonical
  name or as the same file under another name, both operations refuse, the trim after it has checked
  the range.
\<close>

theorem file_operations_match_memory:
  assumes "writer_new_multi sink_new tracks = Inr mw" "writer_run mw ops = Some mw'" "finalize mw' = Some w"
    and "length (sk_data w) \<le> u64_max" "\<forall>i < length tracks. length (handed ops i) \<le> max_parsed_samples"
    and "length (sk_data w) - length (sk_data (mw_w mw')) \<le> max_finalized_moov_bytes"
    and "an_source a = Some (sk_data w)"
  shows "parse_movie_reader (sk_data w) = parse_movie (sk_data w)
    \<and> (distinct_files a \<and> an_temp_created a \<and> an_replaced a \<longrightarrow>
        trim_keyframe_aligned_file a s e = map_err Trimming (trim_keyframe_aligned (sk_data w) s e)
        \<and> remux_with_selected_audio_tracks_file a indices = map_err Trimming (remux_with_selected_audio_tracks (sk_data w) indices))
    \<and> (same_file a \<longrightarrow>
        trim_keyframe_aligned_file a s e = bind_out (map_err Trimming (validate_range s e)) (\<lambda>_. Inl (Err SameFile))
        \<and> remux_with_selected_audio_tracks_file a indices = Inl (Err SameFile))"
proof -
  have reader: "parse_movie_reader (sk_data w) = parse_movie (sk_data w)"
    using recording_movie [OF assms(1-4)] assms(5,6) by blast
  moreover have "trim_keyframe_aligned_file a s e = map_err Trimming (trim_keyframe_aligned (sk_data w) s e)"
    "remux_with_selected_audio_tracks_file a indices = map_err Trimming (remux_with_selected_audio_tracks (sk_data w) indices)"
    if "distinct_files a \<and> an_temp_created a \<and> an_replaced a"
    using that trim_file_copies remux_file_copies assms(7) trim_file_is_trim [OF reader assms(4)] remux_file_is_remux [OF reader assms(4)]
    by auto
  ultimately show ?thesis
    by (simp add: same_file_rejected trim_keyframe_aligned_file_def remux_with_selected_audio_tracks_file_def)
qed

text \<open>A new target beside the source, and then the source itself.\<close>

definition sample_answers :: "bytes \<Rightarrow> string \<Rightarrow> file_answers" where
  "sample_answers f target = \<lparr>an_source_canonical = Some ''a.mp4'', an_target_canonical = (if target = ''a.mp4'' then Some target else None),
     an_target_exists = (target = ''a.mp4''), an_same_identity = Some (target = ''a.mp4''), an_source = Some f,
     an_temp_created = True, an_replaced = True\<rparr>"

theorem file_operations_match_memory_witness:
  "\<exists>f out info. trim_keyframe_aligned_file (sample_answers f ''b.mp4'') (Fin 1) (Fin 2) = Inr (out, info)
     \<and> trim_keyframe_aligned f (Fin 1) (Fin 2) = Inr (out, info)
     \<and> trim_keyframe_aligned_file (sample_answers f ''a.mp4'') (Fin 1) (Fin 2) = Inl (Err SameFile)"
proof -
  obtain mw mw' w a b where r: "writer_new_multi sink_new [sample_av1] = Inr mw"
    "writer_run mw [WriteFragment [sample_gop]] = Some mw'" "finalize mw' = Some w" "length (sk_data w) < 4000"
    "parse_movie (sk_data w) = Inr [\<lparr>pt_cfg = sample_av1, pt_timescale = 1, pt_samples = sample_records a b\<rparr>]"
    "media (sk_data w) (sample_records a b) = [([1, 2, 3], True), ([4, 5], True)]"
    by (rule sample_movie) (rule that, assumption+)
  have few: "\<forall>i < length [sample_av1]. length (handed [WriteFragment [sample_gop]] i) \<le> max_parsed_samples"
    by (simp add: handed_def sample_gop_def max_parsed_samples_def)
  have small: "length (sk_data w) \<le> u64_max" "length (sk_data w) - length (sk_data (mw_w mw')) \<le> max_finalized_moov_bytes"
    using r(4) by (simp_all add: u64_max_def max_finalized_moov_bytes_def)
  have a: "an_source (sample_answers f p) = Some f" "distinct_files (sample_answers f ''b.mp4'')" "same_file (sample_answers f ''a.mp4'')"
    "an_temp_created (sample_answers f p)" "an_replaced (sample_answers f p)" for f p
    by (simp_all add: sample_answers_def distinct_files_def same_file_def)
  obtain out info where o: "trim_keyframe_aligned (sk_data w) (Fin 1) (Fin 2) = Inr (out, info)"
    using sample_trim_of [OF r(4-6)] by metis
  have valid: "validate_range (Fin 1) (Fin 2) = Inr ()" by (simp add: validate_range_def f64_eval)
  show ?thesis
    using file_operations_match_memory [OF r(1-3) small(1) few small(2) a(1), of "''b.mp4''" "Fin 1" "Fin 2"]
      file_operations_match_memory [OF r(1-3) small(1) few small(2) a(1), of "''a.mp4''" "Fin 1" "Fin 2"] a o valid
    by (intro exI [of _ "sk_data w"] exI [of _ out] exI [of _ info]) simp
qed

section \<open>Remuxing\<close>

text \<open>
  C26: a remux keeps every video track and the audio tracks whose numbers were selected, in their
  order, and the remuxed file parses to exactly those tracks with all their samples unchanged in
  bytes, sync flags and times - when, as in C24, no track of the source has more than
  \<open>MAX_PARSED_SAMPLES\<close> samples, every track's timescale divides the movie timescale 720000, no sample's
  end times 720000 exceeds 64 bits, and source and target are no longer than 2^64 - 1 bytes.
\<close>

theorem remuxed_file_reads_back:
  assumes "remux_with_selected_audio_tracks f indices = Inr out" "length f \<le> u64_max" "length out \<le> u64_max"
    and "parse_movie f = Inr movie"
    and "\<forall>track \<in> set movie. length (pt_samples track) \<le> max_parsed_samples
      \<and> unat (track_timescale (pt_cfg track)) dvd 720000
      \<and> (\<forall>r \<in> set (pt_samples track). (sr_start_ticks r + unat (sr_duration r)) * 720000 \<le> u64_max)"
  defines "audio_before \<equiv> \<lambda>i. length (filter (\<lambda>t. \<not> is_video (pt_cfg t)) (take i movie))"
  shows "\<exists>ms. parse_movie out = Inr ms
    \<and> map pt_cfg ms = map pt_cfg (nths movie {i. i < length movie \<and> (is_video (pt_cfg (movie ! i)) \<or> audio_before i \<in> set indices)})
    \<and> map (parsed_view out) ms = map (parsed_view f) (nths movie
        {i. i < length movie \<and> (is_video (pt_cfg (movie ! i)) \<or> audio_before i \<in> set indices)})"
proof -
  obtain ms where ms: "parse_movie out = Inr ms" "length ms = length (kept_tracks (set indices) 0 movie)"
    "\<forall>i < length (kept_tracks (set indices) 0 movie). pt_cfg (ms ! i) = pt_cfg (kept_tracks (set indices) 0 movie ! i)
       \<and> parsed_view out (ms ! i) = parsed_view f (kept_tracks (set indices) 0 movie ! i)"
    using remuxed_file_parses [OF assms(1-4)] assms(5) by blast
  have kept: "kept_tracks (set indices) 0 movie = nths movie
      {i. i < length movie \<and> (is_video (pt_cfg (movie ! i)) \<or> audio_before i \<in> set indices)}"
    by (simp add: kept_tracks_nths audio_before_def)
  have "map pt_cfg ms = map pt_cfg (kept_tracks (set indices) 0 movie)"
    "map (parsed_view out) ms = map (parsed_view f) (kept_tracks (set indices) 0 movie)"
    using ms(2,3) by (auto intro!: nth_equalityI)
  with ms(1) kept show ?thesis by auto
qed

lemma sample_remux_run:
  assumes "mw_tracks mw = [track_state_new sample_av1]" "mw_next_sequence mw = 1"
    "mw_free_offset mw = 28" "sk_pos (mw_w mw) < 1000" "length (sk_data (mw_w mw)) < 1000"
  obtains mw' w where "write_timed_frag_samples mw [sample_gop] [[0, 1]] = Inr mw'"
    "finalize mw' = Some w" "length (sk_data w) < 4000"
  using assms
  by (simp add: write_timed_frag_samples_def prepare_timed_ranges_def timed_ranges_def run_count_def
      run_advances_def run_samples_def get_at_def slice_def set_track_decode_time_def advance_track_def
      absorb_subframe_video_gap_def sample_gop_def
      write_eval finalize_eval sample_av1_def video_eval)

theorem remuxed_file_reads_back_witness:
  "\<exists>f out ms. remux_with_selected_audio_tracks f [] = Inr out \<and> parse_movie out = Inr ms
     \<and> map (parsed_view out) ms = [([([1, 2, 3], True), ([4, 5], True)], [0, 1])]"
proof -
  obtain w0 :: sink and a b where f: "length (sk_data w0) < 4000"
    "parse_movie (sk_data w0) = Inr [\<lparr>pt_cfg = sample_av1, pt_timescale = 1, pt_samples = sample_records a b\<rparr>]"
    "media (sk_data w0) (sample_records a b) = [([1, 2, 3], True), ([4, 5], True)]"
    by (rule sample_movie) (rule that, assumption+)
  let ?f = "sk_data w0" and ?t = "\<lparr>pt_cfg = sample_av1, pt_timescale = 1, pt_samples = sample_records a b\<rparr>"
  obtain mw where mw: "writer_new_multi sink_new [sample_av1] = Inr mw"
    "mw_tracks mw = [track_state_new sample_av1]" "mw_next_sequence mw = 1"
    "mw_free_offset mw = 28" "sk_pos (mw_w mw) < 1000" "length (sk_data (mw_w mw)) < 1000"
    by (rule sample_video_new)
  obtain mw' w where run: "write_timed_frag_samples mw [sample_gop] [[0, 1]] = Inr mw'"
    "finalize mw' = Some w" "length (sk_data w) < 4000"
    using mw(2-) by (rule sample_remux_run)
  have small: "length ?f \<le> u64_max" using f(1) by (simp add: u64_max_def)
  have "collect (to_frag_sample ?f) (sample_records a b) = Inr (map (frag_of ?f) (sample_records a b))"
    using remux_samples(1) [OF f(2) small, of "[?t]"] by (simp add: bind_out_Inr_iff)
  moreover have "map (frag_of ?f) (sample_records a b) = sample_gop"
    using f(3) by (simp add: media_def frag_of_def sample_records_def sample_gop_def)
  moreover have "kept_tracks {} 0 [?t] = [?t]" "track_starts ?t = [0, 1]"
    by (simp_all add: sample_av1_def is_video_def track_starts_def sample_records_def)
  ultimately have remux: "remux_with_selected_audio_tracks ?f [] = Inr (sk_data w)"
    using f(2) mw(1) run
    by (simp add: remux_with_selected_audio_tracks_def selected_audio_index_set_eq Let_def)
  have tracks: "\<forall>track \<in> set [?t]. length (pt_samples track) \<le> max_parsed_samples
      \<and> unat (track_timescale (pt_cfg track)) dvd 720000
      \<and> (\<forall>r \<in> set (pt_samples track). (sr_start_ticks r + unat (sr_duration r)) * 720000 \<le> u64_max)"
    by (simp add: sample_records_def max_parsed_samples_def sample_av1_def track_timescale_def u64_max_def)
  have "length (sk_data w) \<le> u64_max" using run(3) by (simp add: u64_max_def)
  from remuxed_file_reads_back [OF remux small this f(2) tracks] obtain ms where "parse_movie (sk_data w) = Inr ms"
    "map (parsed_view (sk_data w)) ms = map (parsed_view ?f) (nths [?t] {i. i < length [?t] \<and> (is_video (pt_cfg ([?t] ! i))
        \<or> length (filter (\<lambda>t. \<not> is_video (pt_cfg t)) (take i [?t])) \<in> set [])})"
    by blast
  then have "map (parsed_view (sk_data w)) ms = [([([1, 2, 3], True), ([4, 5], True)], [0, 1])]"
    using f(3) by (simp add: nths_Cons sample_av1_def is_video_def parsed_view_media) (simp add: sample_records_def)
  with remux \<open>parse_movie (sk_data w) = Inr ms\<close> show ?thesis
    by (intro exI [of _ ?f] exI [of _ "sk_data w"] exI [of _ ms]) simp
qed

end
