(* ===== verification/Annexb.thy ===== *)
theory Annexb
  imports Prelude
begin

text \<open>
  Annex B byte streams and their length-prefixed form
  (crates/clipline-capture/src/annexb.rs and hevc.rs): splitting a stream at its start codes,
  classifying the units, lifting the parameter sets out and rewriting an access unit as sample data.
\<close>

section \<open>Splitting at start codes\<close>

text \<open>
  \<open>data[i] == 0 && data[i + 1] == 0 && data[i + 2] == 1\<close>, and where the code that starts there
  begins, a zero byte before it included.
\<close>

definition start_code_at :: "bytes \<Rightarrow> nat \<Rightarrow> bool" where
  "start_code_at data i \<longleftrightarrow> data ! i = 0 \<and> data ! (i + 1) = 0 \<and> data ! (i + 2) = 1"

definition code_start_of :: "bytes \<Rightarrow> nat \<Rightarrow> nat" where
  "code_start_of data i = (if 0 < i \<and> data ! (i - 1) = 0 then i - 1 else i)"

text \<open>The scanning loop from position \<open>i\<close>: the pairs (payload start, code start).\<close>

function scan_starts :: "bytes \<Rightarrow> nat \<Rightarrow> (nat \<times> nat) list" where
  "scan_starts data i =
     (if i + 2 < length data
      then if start_code_at data i then (i + 3, code_start_of data i) # scan_starts data (i + 3)
           else scan_starts data (i + 1)
      else [])"
  by pat_completeness auto
termination by (relation "measure (\<lambda>(data, i). length data - i)") auto

declare scan_starts.simps [simp del]

text \<open>The second loop: each unit runs from its payload to the next code or the end.\<close>

fun units_between :: "bytes \<Rightarrow> (nat \<times> nat) list \<Rightarrow> bytes list" where
  "units_between data [] = []"
| "units_between data ((payload, code) # starts) =
     (let ending = (case starts of [] \<Rightarrow> length data | (_, next_code) # _ \<Rightarrow> next_code);
          rest = units_between data starts
      in if payload < ending then slice payload ending data # rest else rest)"

definition split_annexb :: "bytes \<Rightarrow> bytes list" where
  "split_annexb data = units_between data (scan_starts data 0)"

section \<open>H.264 units\<close>

definition nal_type :: "bytes \<Rightarrow> u8" where
  "nal_type nal = (case nal of [] \<Rightarrow> 0 | b # _ \<Rightarrow> b AND 0x1F)"

definition is_keyframe :: "bytes \<Rightarrow> bool" where
  "is_keyframe annexb = list_ex (\<lambda>unit. nal_type unit = 5) (split_annexb annexb)"

definition extract_sps_pps :: "bytes \<Rightarrow> (bytes \<times> bytes) option" where
  "extract_sps_pps annexb = do {
     let units = split_annexb annexb;
     sps \<leftarrow> find (\<lambda>u. nal_type u = 7) units;
     pps \<leftarrow> find (\<lambda>u. nal_type u = 8) units;
     Some (sps, pps)
   }"

text \<open>One unit behind its 32-bit length; \<open>as u32\<close> truncates.\<close>

definition length_prefixed :: "bytes \<Rightarrow> bytes" where
  "length_prefixed unit = be32 (word_of_nat (length unit)) @ unit"

definition annexb_to_avcc :: "bytes \<Rightarrow> bytes" where
  "annexb_to_avcc annexb =
     foldl (\<lambda>out unit. if nal_type unit \<in> {7, 8, 9} then out else out @ length_prefixed unit)
       [] (split_annexb annexb)"

definition even_dimensions :: "u32 \<Rightarrow> u32 \<Rightarrow> u32 \<times> u32" where
  "even_dimensions width height = (max (width AND NOT 1) 2, max (height AND NOT 1) 2)"

section \<open>HEVC units\<close>

definition hevc_nal_type :: "bytes \<Rightarrow> u8" where
  "hevc_nal_type nal = (case nal of [] \<Rightarrow> 0 | b # _ \<Rightarrow> drop_bit 1 b AND 0x3F)"

definition hevc_is_keyframe :: "bytes \<Rightarrow> bool" where
  "hevc_is_keyframe annexb =
     list_ex (\<lambda>u. 16 \<le> hevc_nal_type u \<and> hevc_nal_type u \<le> 23) (split_annexb annexb)"

definition extract_vps_sps_pps :: "bytes \<Rightarrow> (bytes \<times> bytes \<times> bytes) option" where
  "extract_vps_sps_pps annexb = do {
     let units = split_annexb annexb;
     vps \<leftarrow> find (\<lambda>u. hevc_nal_type u = 32) units;
     sps \<leftarrow> find (\<lambda>u. hevc_nal_type u = 33) units;
     pps \<leftarrow> find (\<lambda>u. hevc_nal_type u = 34) units;
     Some (vps, sps, pps)
   }"

definition annexb_to_hvcc_samples :: "bytes \<Rightarrow> bytes" where
  "annexb_to_hvcc_samples annexb =
     foldl (\<lambda>out unit. if 32 \<le> hevc_nal_type unit \<and> hevc_nal_type unit \<le> 38 then out
         else out @ length_prefixed unit)
       [] (split_annexb annexb)"

section \<open>A stream of units\<close>

text \<open>
  The encoder's side: units behind three- or four-byte start codes. A clean unit has no start code
  inside and no zero byte at its end, which a three-byte code would swallow.
\<close>

definition has_code :: "bytes \<Rightarrow> bool" where
  "has_code bs \<longleftrightarrow> list_ex (start_code_at bs) [0..<length bs - 2]"

definition clean :: "bytes \<Rightarrow> bool" where
  "clean u \<longleftrightarrow> u \<noteq> [] \<and> last u \<noteq> 0 \<and> \<not> has_code u"

definition start_code :: "bool \<Rightarrow> bytes" where
  "start_code long = (if long then [0, 0, 0, 1] else [0, 0, 1])"

definition annexb_stream :: "(bool \<times> bytes) list \<Rightarrow> bytes" where
  "annexb_stream us = concat (map (\<lambda>(long, u). start_code long @ u) us)"

primrec code_positions :: "nat \<Rightarrow> (bool \<times> bytes) list \<Rightarrow> (nat \<times> nat) list" where
  "code_positions p [] = []"
| "code_positions p (x # us) =
     (p + length (start_code (fst x)), p) # code_positions (p + length (start_code (fst x)) + length (snd x)) us"

lemma annexb_stream_simps [simp]:
  "annexb_stream [] = []"
  "annexb_stream (x # us) = start_code (fst x) @ snd x @ annexb_stream us"
  by (simp_all add: annexb_stream_def case_prod_beta)

lemma not_has_code_iff: "\<not> has_code bs \<longleftrightarrow> (\<forall>i. i + 2 < length bs \<longrightarrow> \<not> start_code_at bs i)"
  by (auto simp: has_code_def list_ex_iff)

lemma scan_starts_skip:
  assumes "i \<le> k" "\<And>j. i \<le> j \<Longrightarrow> j < k \<Longrightarrow> j + 2 < length data \<Longrightarrow> \<not> start_code_at data j"
  shows "scan_starts data i = scan_starts data k"
  using assms
proof (induction "k - i" arbitrary: i)
  case (Suc d)
  then have "i < k" by simp
  with Suc.hyps(1) [of "i + 1"] Suc.hyps(2) Suc.prems have IH: "scan_starts data (i + 1) = scan_starts data k"
    by simp
  show ?case
  proof (cases "i + 2 < length data")
    case True
    with Suc.prems \<open>i < k\<close> IH show ?thesis by (subst scan_starts.simps) auto
  next
    case False
    with \<open>i < k\<close> show ?thesis by (subst scan_starts.simps, subst (2) scan_starts.simps) simp
  qed
qed simp

text \<open>No code starts inside a clean unit, whatever follows it.\<close>

lemma no_code_in_clean:
  assumes "\<not> has_code u" "u = [] \<or> last u \<noteq> 0" "i < length u" "i + 2 < length (pre @ u @ rest)"
  shows "\<not> start_code_at (pre @ u @ rest) (length pre + i)"
proof -
  from assms(3) have "u \<noteq> []" by auto
  with assms(2) have z: "u ! (length u - 1) \<noteq> 0" by (simp add: last_conv_nth)
  consider "i + 2 < length u" | "i + 2 = length u" | "i + 1 = length u" using assms(3) by linarith
  then show ?thesis
  proof cases
    case 1
    then show ?thesis using assms(1) by (auto simp: not_has_code_iff start_code_at_def nth_append)
  next
    case 2
    then have "i + 1 = length u - 1" "i + 1 < length u" by auto
    with z show ?thesis by (auto simp: start_code_at_def nth_append)
  next
    case 3
    then have "i = length u - 1" by simp
    with z 3 show ?thesis by (auto simp: start_code_at_def nth_append)
  qed
qed

lemma scan_over_clean:
  assumes "\<not> has_code u" "u = [] \<or> last u \<noteq> 0"
  shows "scan_starts (pre @ u @ rest) (length pre) = scan_starts (pre @ u @ rest) (length pre + length u)"
proof (rule scan_starts_skip)
  fix j assume j: "length pre \<le> j" "j < length pre + length u" "j + 2 < length (pre @ u @ rest)"
  then have "\<not> start_code_at (pre @ u @ rest) (length pre + (j - length pre))"
    using assms by (intro no_code_in_clean) auto
  with j show "\<not> start_code_at (pre @ u @ rest) j" by simp
qed simp

lemma scan_code:
  assumes "pre = [] \<or> last pre \<noteq> 0"
  shows "scan_starts (pre @ start_code long @ rest) (length pre)
    = (length pre + length (start_code long), length pre)
      # scan_starts (pre @ start_code long @ rest) (length pre + length (start_code long))"
proof (cases long)
  case True
  let ?d = "pre @ start_code long @ rest"
  have at: "\<not> start_code_at ?d (length pre)" "start_code_at ?d (length pre + 1)"
    "code_start_of ?d (length pre + 1) = length pre"
    using True by (simp_all add: start_code_at_def code_start_of_def start_code_def nth_append)
  have "scan_starts ?d (length pre) = scan_starts ?d (length pre + 1)"
    using True at(1) by (subst scan_starts.simps) (simp add: start_code_def)
  also have "\<dots> = (length pre + 1 + 3, code_start_of ?d (length pre + 1)) # scan_starts ?d (length pre + 1 + 3)"
    using True at(2) by (subst scan_starts.simps) (simp add: start_code_def)
  finally show ?thesis using True at(3) by (simp add: start_code_def numeral_eq_Suc)
next
  case False
  let ?d = "pre @ start_code long @ rest"
  have "code_start_of ?d (length pre) = length pre"
    using assms by (auto simp: code_start_of_def nth_append last_conv_nth)
  then show ?thesis
    using False by (subst scan_starts.simps) (simp add: start_code_def start_code_at_def nth_append numeral_eq_Suc)
qed

lemma scan_stream:
  assumes "list_all (clean \<circ> snd) us" "pre = [] \<or> last pre \<noteq> 0"
  shows "scan_starts (pre @ annexb_stream us) (length pre) = code_positions (length pre) us"
  using assms
proof (induction us arbitrary: pre)
  case Nil
  then show ?case by (simp add: scan_starts.simps)
next
  case (Cons x us)
  let ?c = "start_code (fst x)" and ?u = "snd x"
  have u: "\<not> has_code ?u" "?u \<noteq> []" "last ?u \<noteq> 0" using Cons.prems(1) by (simp_all add: clean_def)
  have "scan_starts ((pre @ ?c) @ ?u @ annexb_stream us) (length (pre @ ?c))
      = scan_starts ((pre @ ?c) @ ?u @ annexb_stream us) (length (pre @ ?c) + length ?u)"
    using u by (intro scan_over_clean) auto
  also have "\<dots> = code_positions (length (pre @ ?c @ ?u)) us"
    using Cons.IH [of "pre @ ?c @ ?u"] Cons.prems(1) u by (simp add: add.assoc)
  finally show ?case
    using scan_code [OF Cons.prems(2), of "fst x" "?u @ annexb_stream us"] by (simp add: add.assoc)
qed

lemma units_between_stream:
  "list_all (clean \<circ> snd) us \<Longrightarrow>
     units_between (pre @ annexb_stream us) (code_positions (length pre) us) = map snd us"
proof (induction us arbitrary: pre)
  case (Cons x us)
  let ?c = "start_code (fst x)" and ?u = "snd x"
  have IH: "units_between (pre @ ?c @ ?u @ annexb_stream us) (code_positions (length pre + length ?c + length ?u) us)
      = map snd us"
    using Cons.IH [of "pre @ ?c @ ?u"] Cons.prems by (simp add: add.assoc)
  have "(case code_positions (length pre + length ?c + length ?u) us of
      [] \<Rightarrow> length (pre @ ?c @ ?u @ annexb_stream us) | (_, next_code) # _ \<Rightarrow> next_code)
      = length pre + length ?c + length ?u"
    by (cases us) simp_all
  moreover have "slice (length (pre @ ?c)) (length (pre @ ?c) + length ?u) ((pre @ ?c) @ ?u @ annexb_stream us) = ?u"
    by (rule slice_middle)
  ultimately show ?case using Cons.prems IH by (simp add: clean_def Let_def add.assoc)
qed simp

lemma split_annexb_stream:
  assumes "list_all (clean \<circ> snd) us" "\<not> has_code junk" "junk = [] \<or> last junk \<noteq> 0"
  shows "split_annexb (junk @ annexb_stream us) = map snd us"
proof -
  have "scan_starts (junk @ annexb_stream us) 0 = code_positions (length junk) us"
    using scan_over_clean [OF assms(2,3), of "[]" "annexb_stream us"] scan_stream [OF assms(1,3)] by simp
  then show ?thesis using units_between_stream [OF assms(1)] by (simp add: split_annexb_def)
qed

section \<open>Reading sample data back\<close>

text \<open>A player's view of sample data: the units behind their 32-bit lengths.\<close>

function sample_units :: "bytes \<Rightarrow> bytes list" where
  "sample_units bs =
     (if length bs < 4 then []
      else let len = be_nat (take 4 bs) in slice 4 (4 + len) bs # sample_units (drop (4 + len) bs))"
  by pat_completeness auto
termination by (relation "measure length") auto

declare sample_units.simps [simp del]

lemma sample_units_prefixed:
  assumes "length u < 2 ^ 32"
  shows "sample_units (length_prefixed u @ rest) = u # sample_units rest"
  using assms slice_middle [of "be32 (word_of_nat (length u))" u rest]
  by (subst sample_units.simps) (simp add: length_prefixed_def unat_word_of_nat_less)

lemma sample_units_concat:
  "list_all (\<lambda>u. length u < 2 ^ 32) us \<Longrightarrow> sample_units (concat (map length_prefixed us)) = us"
  by (induction us) (simp_all add: sample_units.simps [of "[]"] sample_units_prefixed)

lemma foldl_prefixed:
  "foldl (\<lambda>out u. if p u then out else out @ length_prefixed u) acc us
     = acc @ concat (map length_prefixed (filter (\<lambda>u. \<not> p u) us))"
  by (induction us arbitrary: acc) auto

text \<open>Every unit is a nonempty slice of the input.\<close>

lemma units_between_slices:
  "u \<in> set (units_between data starts) \<Longrightarrow> u \<noteq> [] \<longrightarrow> length u \<le> length data"
  by (induction data starts rule: units_between.induct) (auto simp: Let_def slice_def split: if_splits)

lemma units_between_short: "list_all (\<lambda>u. length u \<le> length data) (units_between data starts)"
  using units_between_slices by (fastforce simp: list_all_iff)

lemma split_annexb_short:
  "length data < 2 ^ 32 \<Longrightarrow> list_all (\<lambda>u. length u < 2 ^ 32) (filter p (split_annexb data))"
  using units_between_short [of data "scan_starts data 0"] by (auto simp: split_annexb_def list_all_iff)

lemma sample_units_filter:
  "length data < 2 ^ 32 \<Longrightarrow> sample_units (concat (map length_prefixed (filter p (split_annexb data))))
     = filter p (split_annexb data)"
  by (rule sample_units_concat [OF split_annexb_short])

lemma annexb_to_avcc_units:
  "length data < 2 ^ 32 \<Longrightarrow>
     sample_units (annexb_to_avcc data) = filter (\<lambda>u. nal_type u \<notin> {7, 8, 9}) (split_annexb data)"
  unfolding annexb_to_avcc_def foldl_prefixed append_Nil by (rule sample_units_filter)

lemma annexb_to_hvcc_units:
  "length data < 2 ^ 32 \<Longrightarrow> sample_units (annexb_to_hvcc_samples data)
     = filter (\<lambda>u. \<not> (32 \<le> hevc_nal_type u \<and> hevc_nal_type u \<le> 38)) (split_annexb data)"
  unfolding annexb_to_hvcc_samples_def foldl_prefixed append_Nil by (rule sample_units_filter)

end
