(* ===== verification/Framing.thy ===== *)
theory Framing
  imports Annexb
begin

text \<open>
  Streaming access-unit framers (crates/clipline-capture/src/framing.rs): the Annex B framer for
  H.264 and HEVC and the IVF framer for AV1. Both take the encoder's output in arbitrary chunks and
  hand out complete access units.
\<close>

definition max_framer_buffer :: nat where
  "max_framer_buffer = 32 * 1024 * 1024"

section \<open>Classifying a unit\<close>

datatype nal_kind = Aud | Vcl (first_slice: bool) | Other

definition h264_is_vcl :: "u8 \<Rightarrow> bool" where
  "h264_is_vcl first_byte \<longleftrightarrow> (let t = first_byte AND 0x1F in 1 \<le> t \<and> t \<le> 5)"

definition hevc_is_vcl :: "u8 \<Rightarrow> bool" where
  "hevc_is_vcl first_byte \<longleftrightarrow> drop_bit 1 first_byte AND 0x3F \<le> 31"

text \<open>The first-slice flag in the byte at \<open>at\<close>, when it is there or never will be.\<close>

definition slice_flag :: "bytes \<Rightarrow> nat \<Rightarrow> bool \<Rightarrow> bool option" where
  "slice_flag nal at complete = (case get_at nal at of
       Some byte \<Rightarrow> Some (byte AND 0x80 \<noteq> 0)
     | None \<Rightarrow> if complete then Some True else None)"

definition classify_h264_nal :: "bytes \<Rightarrow> bool \<Rightarrow> nal_kind option" where
  "classify_h264_nal nal complete = (case get_at nal 0 of
       None \<Rightarrow> if complete then Some Other else None
     | Some header \<Rightarrow>
         if header AND 0x1F = 9 then Some Aud
         else if h264_is_vcl header then map_option Vcl (slice_flag nal 1 complete)
         else Some Other)"

definition classify_hevc_nal :: "bytes \<Rightarrow> bool \<Rightarrow> nal_kind option" where
  "classify_hevc_nal nal complete = (case get_at nal 0 of
       None \<Rightarrow> if complete then Some Other else None
     | Some header \<Rightarrow>
         if drop_bit 1 header AND 0x3F = 35 then Some Aud
         else if hevc_is_vcl header then map_option Vcl (slice_flag nal 2 complete)
         else Some Other)"

section \<open>The Annex B framer\<close>

record annexb_framer =
  af_buf :: bytes
  af_scan_pos :: nat
  af_au_start :: "nat option"
  af_pending_code :: "(nat \<times> nat) option"
  af_pending_classified :: bool
  af_current_has_vcl :: bool
  af_next_au_start :: "nat option"
  af_classify_nal :: "bytes \<Rightarrow> bool \<Rightarrow> nal_kind option"

definition framer_new :: "(bytes \<Rightarrow> bool \<Rightarrow> nal_kind option) \<Rightarrow> annexb_framer" where
  "framer_new classify = \<lparr>af_buf = [], af_scan_pos = 0, af_au_start = None, af_pending_code = None,
     af_pending_classified = False, af_current_has_vcl = False, af_next_au_start = None,
     af_classify_nal = classify\<rparr>"

definition framer_h264 :: annexb_framer where
  "framer_h264 = framer_new classify_h264_nal"

definition framer_hevc :: annexb_framer where
  "framer_hevc = framer_new classify_hevc_nal"

definition framer_reset :: "annexb_framer \<Rightarrow> annexb_framer" where
  "framer_reset f = f\<lparr>af_buf := [], af_scan_pos := 0, af_au_start := None, af_pending_code := None,
     af_pending_classified := False, af_current_has_vcl := False, af_next_au_start := None\<rparr>"

text \<open>
  Slicing the buffer out of order would panic, which is the outcome \<open>None\<close>; the units of one call
  are collected in \<open>units\<close>.
\<close>

definition cut_unit :: "annexb_framer \<Rightarrow> nat \<Rightarrow> bytes list \<Rightarrow> (annexb_framer \<times> bytes list) option" where
  "cut_unit f boundary units = do {
     let start = (case af_au_start f of Some a \<Rightarrow> a | None \<Rightarrow> boundary);
     unit \<leftarrow> get_range (af_buf f) start boundary;
     Some (f\<lparr>af_au_start := Some boundary\<rparr>, units @ [unit])
   }"

definition apply_nal_kind ::
  "annexb_framer \<Rightarrow> nal_kind \<Rightarrow> nat \<Rightarrow> bytes list \<Rightarrow> (annexb_framer \<times> bytes list) option" where
  "apply_nal_kind f kind code_start units = (case kind of
       Aud \<Rightarrow> do {
         (f, units) \<leftarrow> (if af_current_has_vcl f then cut_unit f code_start units else Some (f, units));
         Some (f\<lparr>af_current_has_vcl := False, af_next_au_start := None\<rparr>, units)
       }
     | Vcl first \<Rightarrow> do {
         (f, units) \<leftarrow>
           (if first \<and> af_current_has_vcl f
            then cut_unit (f\<lparr>af_next_au_start := None\<rparr>)
                   (case af_next_au_start f of Some n \<Rightarrow> n | None \<Rightarrow> code_start) units
            else Some (f, units));
         Some (f\<lparr>af_current_has_vcl := True\<rparr>, units)
       }
     | Other \<Rightarrow>
         Some (if af_current_has_vcl f \<and> af_next_au_start f = None
               then f\<lparr>af_next_au_start := Some code_start\<rparr> else f, units))"

definition classify_pending ::
  "annexb_framer \<Rightarrow> nat \<Rightarrow> bool \<Rightarrow> bytes list \<Rightarrow> (annexb_framer \<times> bytes list) option" where
  "classify_pending f ending complete units =
     (if af_pending_classified f then Some (f, units)
      else case af_pending_code f of None \<Rightarrow> Some (f, units)
        | Some (code_start, payload_start) \<Rightarrow>
            (let nal = (case get_range (af_buf f) payload_start ending of None \<Rightarrow> [] | Some n \<Rightarrow> n)
             in case af_classify_nal f nal complete of None \<Rightarrow> Some (f, units)
                | Some kind \<Rightarrow> do {
                    (f, units) \<leftarrow> apply_nal_kind f kind code_start units;
                    Some (f\<lparr>af_pending_classified := True\<rparr>, units)
                  }))"

lemma apply_nal_kind_buf:
  "apply_nal_kind f kind c units = Some (f', units') \<Longrightarrow>
     af_buf f' = af_buf f \<and> af_classify_nal f' = af_classify_nal f \<and> af_scan_pos f' = af_scan_pos f
     \<and> af_pending_code f' = af_pending_code f \<and> af_pending_classified f' = af_pending_classified f"
  by (auto simp: apply_nal_kind_def cut_unit_def bind_eq_Some_conv Let_def
      split: nal_kind.splits if_split_asm)

lemma classify_pending_buf:
  "classify_pending f e complete units = Some (f', units') \<Longrightarrow>
     af_buf f' = af_buf f \<and> af_classify_nal f' = af_classify_nal f \<and> af_scan_pos f' = af_scan_pos f
     \<and> af_pending_code f' = af_pending_code f"
  by (auto simp: classify_pending_def bind_eq_Some_conv Let_def dest!: apply_nal_kind_buf
      split: if_split_asm option.split_asm)

text \<open>What the loop does at a start code.\<close>

definition at_start_code :: "annexb_framer \<Rightarrow> nat \<Rightarrow> bytes list \<Rightarrow> (annexb_framer \<times> bytes list) option" where
  "at_start_code f i units = do {
     let code_start = code_start_of (af_buf f) i;
     let f = (if af_au_start f = None then f\<lparr>af_au_start := Some code_start\<rparr> else f);
     (f, units) \<leftarrow> classify_pending f code_start True units;
     Some (f\<lparr>af_pending_code := Some (code_start, i + 3), af_pending_classified := False\<rparr>, units)
   }"

lemma at_start_code_buf:
  "at_start_code f i units = Some (f', units') \<Longrightarrow>
     af_buf f' = af_buf f \<and> af_classify_nal f' = af_classify_nal f \<and> af_scan_pos f' = af_scan_pos f
     \<and> af_pending_code f' = Some (code_start_of (af_buf f) i, i + 3) \<and> \<not> af_pending_classified f'"
  by (auto simp: at_start_code_def bind_eq_Some_conv Let_def dest!: classify_pending_buf split: if_split_asm)

text \<open>The loop: the framer, the position it stops at, and the units.\<close>

function scan_codes :: "annexb_framer \<Rightarrow> nat \<Rightarrow> bytes list \<Rightarrow> (annexb_framer \<times> nat \<times> bytes list) option" where
  "scan_codes f i units =
     (if i + 2 < length (af_buf f)
      then if start_code_at (af_buf f) i
           then case at_start_code f i units of None \<Rightarrow> None
             | Some (f, units) \<Rightarrow> scan_codes f (i + 3) units
           else scan_codes f (i + 1) units
      else Some (f, i, units))"
  by pat_completeness auto
termination
  by (relation "measure (\<lambda>(f, i, units). length (af_buf f) - i)") (auto dest!: at_start_code_buf)

declare scan_codes.simps [simp del]

text \<open>
  The drain at the end of a scan. The positions kept lie behind the drained bytes; a position before
  them, whose subtraction would wrap around, is the outcome \<open>None\<close>.
\<close>

definition shift_back :: "nat \<Rightarrow> nat \<Rightarrow> nat option" where
  "shift_back d p = (if d \<le> p then Some (p - d) else None)"

definition drain_emitted :: "annexb_framer \<Rightarrow> annexb_framer option" where
  "drain_emitted f = (case af_au_start f of
       None \<Rightarrow> Some f
     | Some d \<Rightarrow>
         if d = 0 then Some f
         else if length (af_buf f) < d then None
         else do {
           pending \<leftarrow> (case af_pending_code f of None \<Rightarrow> Some None
             | Some (code, payload) \<Rightarrow> do {
                 code \<leftarrow> shift_back d code; payload \<leftarrow> shift_back d payload; Some (Some (code, payload)) });
           nxt \<leftarrow> (case af_next_au_start f of None \<Rightarrow> Some None | Some n \<Rightarrow> map_option Some (shift_back d n));
           Some (f\<lparr>af_buf := drop d (af_buf f), af_scan_pos := af_scan_pos f - d, af_au_start := Some 0,
                   af_pending_code := pending, af_next_au_start := nxt\<rparr>)
         })"

definition scan_new_start_codes :: "annexb_framer \<Rightarrow> (annexb_framer \<times> bytes list) option" where
  "scan_new_start_codes f = do {
     (f, i, units) \<leftarrow> scan_codes f (min (af_scan_pos f) (length (af_buf f))) [];
     (f, units) \<leftarrow> classify_pending (f\<lparr>af_scan_pos := i\<rparr>) (length (af_buf f)) False units;
     f \<leftarrow> drain_emitted f;
     Some (f, units)
   }"

definition framer_push :: "annexb_framer \<Rightarrow> bytes \<Rightarrow> (annexb_framer \<times> bytes list) option" where
  "framer_push f bytes =
     (if max_framer_buffer < length (af_buf f) + length bytes then Some (framer_reset f, [])
      else scan_new_start_codes (f\<lparr>af_buf := af_buf f @ bytes\<rparr>))"

definition framer_flush :: "annexb_framer \<Rightarrow> annexb_framer \<times> bytes option" where
  "framer_flush f = (if af_buf f = [] then (f, None) else (framer_reset f, Some (af_buf f)))"

section \<open>The IVF framer\<close>

definition ivf_file_header_len :: nat where "ivf_file_header_len = 32"
definition ivf_frame_header_len :: nat where "ivf_frame_header_len = 12"

record ivf_framer =
  iv_buf :: bytes
  iv_header_consumed :: bool

definition ivf_new :: ivf_framer where
  "ivf_new = \<lparr>iv_buf = [], iv_header_consumed = False\<rparr>"

text \<open>\<open>u32::from_le_bytes\<close> of the first four bytes, as a \<open>usize\<close>.\<close>

definition le_size :: "bytes \<Rightarrow> nat" where
  "le_size bs = be_nat (rev (take 4 bs))"

function ivf_frames :: "bytes \<Rightarrow> bytes \<times> bytes list" where
  "ivf_frames buf =
     (if length buf < ivf_frame_header_len then (buf, [])
      else if max_framer_buffer < le_size buf then ([], [])
      else if length buf < ivf_frame_header_len + le_size buf then (buf, [])
      else apsnd (Cons (slice ivf_frame_header_len (ivf_frame_header_len + le_size buf) buf))
             (ivf_frames (drop (ivf_frame_header_len + le_size buf) buf)))"
  by pat_completeness auto
termination by (relation "measure length") (auto simp: ivf_frame_header_len_def)

declare ivf_frames.simps [simp del]

definition ivf_push :: "ivf_framer \<Rightarrow> bytes \<Rightarrow> ivf_framer \<times> bytes list" where
  "ivf_push f bytes =
     (let buf = iv_buf f @ bytes
      in if \<not> iv_header_consumed f \<and> length buf < ivf_file_header_len then (f\<lparr>iv_buf := buf\<rparr>, [])
         else let buf = (if iv_header_consumed f then buf else drop ivf_file_header_len buf);
                  (rest, units) = ivf_frames buf
              in (\<lparr>iv_buf = rest, iv_header_consumed = True\<rparr>, units))"

definition ivf_flush :: "ivf_framer \<Rightarrow> bytes option" where
  "ivf_flush f = None"

end
