(* ===== verification/Framer_Correct.thy ===== *)
theory Framer_Correct
  imports Framing
begin

text \<open>
  The Annex B framer against its input in chunks. The drained framer is a shifted view of one that
  keeps the whole stream; that one scans a stream in two chunks as it does in one, provided every
  unit is long enough to be classified; and it cuts the stream without losing a byte.
\<close>

section \<open>The invariant\<close>

text \<open>Positions are ordered: access unit, next access unit, pending code, its payload, scan position.\<close>

definition framer_inv :: "annexb_framer \<Rightarrow> nat \<Rightarrow> bool" where
  "framer_inv f i \<longleftrightarrow> i \<le> length (af_buf f) \<and>
     (case af_pending_code f of
        None \<Rightarrow> af_au_start f = None \<and> af_next_au_start f = None \<and> \<not> af_current_has_vcl f
      | Some (code, payload) \<Rightarrow> code + 3 \<le> payload \<and> payload \<le> i
          \<and> (\<exists>a. af_au_start f = Some a \<and> a \<le> code
              \<and> (case af_next_au_start f of None \<Rightarrow> True | Some n \<Rightarrow> a \<le> n \<and> n \<le> code)))"

lemma framer_inv_new: "framer_inv (framer_new c) 0"
  by (simp add: framer_inv_def framer_new_def)

lemma framer_inv_later: "framer_inv f i \<Longrightarrow> i \<le> j \<Longrightarrow> j \<le> length (af_buf f) \<Longrightarrow> framer_inv f j"
  by (auto simp: framer_inv_def split: option.splits)

lemma framer_inv_ext: "framer_inv f i \<Longrightarrow> framer_inv (f\<lparr>af_buf := af_buf f @ c\<rparr>) i"
  by (auto simp: framer_inv_def split: option.splits)

text \<open>Classifying the pending unit cuts at most once, at or before the pending code.\<close>

lemma apply_nal_kind_inv:
  assumes "framer_inv f i" "af_pending_code f = Some (code, payload)"
  shows "\<exists>f' units'. apply_nal_kind f kind code units = Some (f', units') \<and> framer_inv f' i"
proof -
  obtain a where a: "af_au_start f = Some a" "a \<le> code" "code \<le> length (af_buf f)" "i \<le> length (af_buf f)"
    "code + 3 \<le> payload" "payload \<le> i" "\<And>n. af_next_au_start f = Some n \<Longrightarrow> a \<le> n \<and> n \<le> code"
    using assms by (auto simp: framer_inv_def split: option.splits)
  then show ?thesis
    using assms(2)
    by (cases kind; cases "af_next_au_start f")
      (auto simp: apply_nal_kind_def cut_unit_def get_range_def framer_inv_def)
qed

definition mark_classified :: "annexb_framer \<Rightarrow> annexb_framer" where
  "mark_classified f = f\<lparr>af_pending_classified := True\<rparr>"

definition nal_upto :: "annexb_framer \<Rightarrow> nat \<Rightarrow> nat \<Rightarrow> bytes" where
  "nal_upto f payload e = (case get_range (af_buf f) payload e of None \<Rightarrow> [] | Some n \<Rightarrow> n)"

lemma framer_inv_mark [simp]: "framer_inv (mark_classified f) i = framer_inv f i"
  by (auto simp: framer_inv_def mark_classified_def split: option.splits)

lemma bind_map_fst: "Option.bind m (\<lambda>(f, us). Some (g f, us)) = map_option (\<lambda>(f, us). (g f, us)) m"
  by (cases m) auto

text \<open>The three cases of \<open>classify_pending\<close>.\<close>

lemma classify_pending_idle:
  "af_pending_code f = None \<or> af_pending_classified f \<Longrightarrow> classify_pending f e complete units = Some (f, units)"
  by (auto simp: classify_pending_def)

lemma classify_pending_undecided:
  "\<lbrakk>af_pending_code f = Some (code, payload); af_classify_nal f (nal_upto f payload e) complete = None\<rbrakk> \<Longrightarrow>
     classify_pending f e complete units = Some (f, units)"
  by (simp add: classify_pending_def nal_upto_def)

lemma classify_pending_decided:
  "\<lbrakk>af_pending_code f = Some (code, payload); \<not> af_pending_classified f;
    af_classify_nal f (nal_upto f payload e) complete = Some kind\<rbrakk> \<Longrightarrow>
     classify_pending f e complete units
       = map_option (\<lambda>(f, us). (mark_classified f, us)) (apply_nal_kind f kind code units)"
  by (simp add: classify_pending_def nal_upto_def mark_classified_def bind_map_fst)

lemma classify_pending_cases:
  obtains (idle) "af_pending_code f = None \<or> af_pending_classified f"
    | (undecided) code payload where "af_pending_code f = Some (code, payload)" "\<not> af_pending_classified f"
        "af_classify_nal f (nal_upto f payload e) complete = None"
    | (decided) code payload kind where "af_pending_code f = Some (code, payload)" "\<not> af_pending_classified f"
        "af_classify_nal f (nal_upto f payload e) complete = Some kind"
  by (cases "af_pending_code f"; cases "af_pending_classified f") (auto, metis option.exhaust)

lemma classify_pending_inv:
  assumes "framer_inv f i"
  shows "\<exists>f' units'. classify_pending f e complete units = Some (f', units') \<and> framer_inv f' i"
proof (cases rule: classify_pending_cases [where f = f and e = e and complete = complete])
  case idle
  with assms show ?thesis by (simp add: classify_pending_idle)
next
  case (undecided code payload)
  with assms show ?thesis by (simp add: classify_pending_undecided)
next
  case (decided code payload kind)
  with apply_nal_kind_inv [OF assms decided(1), of kind units] show ?thesis
    by (auto simp: classify_pending_decided)
qed

section \<open>The loop step\<close>

definition start_unit :: "annexb_framer \<Rightarrow> nat \<Rightarrow> annexb_framer" where
  "start_unit f c = (if af_au_start f = None then f\<lparr>af_au_start := Some c\<rparr> else f)"

definition new_code :: "nat \<Rightarrow> nat \<Rightarrow> annexb_framer \<Rightarrow> annexb_framer" where
  "new_code c p f = f\<lparr>af_pending_code := Some (c, p), af_pending_classified := False\<rparr>"

lemma at_start_code_eq:
  "at_start_code f i units = map_option (\<lambda>(f', us). (new_code (code_start_of (af_buf f) i) (i + 3) f', us))
     (classify_pending (start_unit f (code_start_of (af_buf f) i)) (code_start_of (af_buf f) i) True units)"
  by (simp add: at_start_code_def start_unit_def new_code_def Let_def bind_map_fst)

lemma code_start_bounds:
  assumes "start_code_at buf i"
  shows "code_start_of buf i \<le> i \<and> i \<le> code_start_of buf i + 1"
  by (auto simp: code_start_of_def)

lemma at_start_code_inv:
  assumes inv: "framer_inv f i" and i: "i + 2 < length (af_buf f)"
  shows "\<exists>f' units'. at_start_code f i units = Some (f', units') \<and> framer_inv f' (i + 3)"
proof -
  let ?c = "code_start_of (af_buf f) i"
  have c: "?c \<le> i" "i \<le> ?c + 1" by (auto simp: code_start_of_def)
  show ?thesis
  proof (cases "af_pending_code f")
    case None
    then show ?thesis
      using inv c i
      by (simp add: at_start_code_eq start_unit_def classify_pending_idle framer_inv_def new_code_def)
  next
    case (Some cp)
    then have start: "start_unit f ?c = f" using inv by (auto simp: start_unit_def framer_inv_def split: option.splits)
    obtain f' us' where f': "classify_pending f ?c True units = Some (f', us')" "framer_inv f' i"
      using classify_pending_inv [OF inv] by blast
    have "framer_inv (new_code ?c (i + 3) f') (i + 3)"
      using f'(2) classify_pending_buf [OF f'(1)] Some c i
      by (fastforce simp: framer_inv_def new_code_def split: option.splits)
    then show ?thesis using f'(1) start by (simp add: at_start_code_eq)
  qed
qed

lemma scan_codes_inv:
  "framer_inv f i \<Longrightarrow> \<exists>f' j us'. scan_codes f i units = Some (f', j, us') \<and> framer_inv f' j
     \<and> length (af_buf f) \<le> j + 2 \<and> i \<le> j \<and> af_buf f' = af_buf f \<and> af_classify_nal f' = af_classify_nal f"
proof (induction f i units rule: scan_codes.induct)
  case (1 f i units)
  show ?case
  proof (cases "i + 2 < length (af_buf f)")
    case more: True
    show ?thesis
    proof (cases "start_code_at (af_buf f) i")
      case True
      obtain f' us' where step: "at_start_code f i units = Some (f', us')" "framer_inv f' (i + 3)"
        using at_start_code_inv [OF "1.prems" more] by blast
      then show ?thesis
        using "1.IH"(1) [OF more True step(1) refl step(2)] more True at_start_code_buf [OF step(1)]
        by (subst scan_codes.simps) fastforce
    next
      case False
      then show ?thesis
        using "1.IH"(2) [OF more False] framer_inv_later [OF "1.prems", of "i + 1"] more
        by (subst scan_codes.simps) fastforce
    qed
  next
    case False
    with "1.prems" show ?thesis by (subst scan_codes.simps) simp
  qed
qed

section \<open>Views of a framer\<close>

text \<open>
  The framer with \<open>d\<close> leading bytes dropped, as the drain leaves it, and more input \<open>c\<close> behind its
  buffer. \<open>d\<close> never exceeds the start of the access unit.
\<close>

definition view :: "nat \<Rightarrow> bytes \<Rightarrow> annexb_framer \<Rightarrow> annexb_framer" where
  "view d c f = f\<lparr>af_buf := drop d (af_buf f @ c), af_scan_pos := af_scan_pos f - d,
     af_au_start := map_option (\<lambda>p. p - d) (af_au_start f),
     af_pending_code := map_option (map_prod (\<lambda>p. p - d) (\<lambda>p. p - d)) (af_pending_code f),
     af_next_au_start := map_option (\<lambda>p. p - d) (af_next_au_start f)\<rparr>"

definition droppable :: "nat \<Rightarrow> annexb_framer \<Rightarrow> bool" where
  "droppable d f \<longleftrightarrow> (case af_au_start f of None \<Rightarrow> d = 0 | Some a \<Rightarrow> d \<le> a)"

lemma view_simps [simp]:
  "af_buf (view d c f) = drop d (af_buf f @ c)"
  "af_scan_pos (view d c f) = af_scan_pos f - d"
  "af_au_start (view d c f) = map_option (\<lambda>p. p - d) (af_au_start f)"
  "af_pending_code (view d c f) = map_option (map_prod (\<lambda>p. p - d) (\<lambda>p. p - d)) (af_pending_code f)"
  "af_next_au_start (view d c f) = map_option (\<lambda>p. p - d) (af_next_au_start f)"
  "af_pending_classified (view d c f) = af_pending_classified f"
  "af_current_has_vcl (view d c f) = af_current_has_vcl f"
  "af_classify_nal (view d c f) = af_classify_nal f"
  by (simp_all add: view_def)

lemma view_mark: "view d c (mark_classified f) = mark_classified (view d c f)"
  by (simp add: view_def mark_classified_def)

lemma view_new_code:
  "d \<le> p \<Longrightarrow> view d c (new_code q (p + 3) f) = new_code (q - d) (p - d + 3) (view d c f)"
  by (simp add: view_def new_code_def)

lemma get_range_view:
  "\<lbrakk>d \<le> a; a \<le> b; b \<le> length buf\<rbrakk> \<Longrightarrow> get_range (drop d (buf @ c)) (a - d) (b - d) = get_range buf a b"
  by (simp add: get_range_def slice_def) arith

lemma nal_upto_view:
  assumes "d \<le> payload" "e \<le> length (af_buf f)" "d < payload"
  shows "nal_upto (view d c f) (payload - d) (e - d) = nal_upto f payload e"
proof (cases "payload \<le> e")
  case True
  with assms get_range_view [of d payload e "af_buf f" c] show ?thesis by (simp add: nal_upto_def)
next
  case False
  with assms have "\<not> payload - d \<le> e - d" by linarith
  with False show ?thesis by (simp add: nal_upto_def get_range_def)
qed

lemma view_fields:
  "view d c (f\<lparr>af_next_au_start := n\<rparr>) = (view d c f)\<lparr>af_next_au_start := map_option (\<lambda>p. p - d) n\<rparr>"
  "view d c (f\<lparr>af_au_start := n\<rparr>) = (view d c f)\<lparr>af_au_start := map_option (\<lambda>p. p - d) n\<rparr>"
  "view d c (f\<lparr>af_current_has_vcl := b\<rparr>) = (view d c f)\<lparr>af_current_has_vcl := b\<rparr>"
  by (simp_all add: view_def)

lemma cut_unit_view:
  assumes "af_au_start f = Some a" "d \<le> a" "a \<le> b" "b \<le> length (af_buf f)"
  shows "cut_unit (view d c f) (b - d) us = map_option (\<lambda>(f, us). (view d c f, us)) (cut_unit f b us)"
  using assms get_range_view [OF assms(2-4), of c]
  by (simp add: cut_unit_def Let_def get_range_def view_fields)

lemma apply_nal_kind_view:
  assumes inv: "framer_inv f i" and code: "af_pending_code f = Some (code, payload)" and d: "droppable d f"
  shows "apply_nal_kind (view d c f) kind (code - d) us
    = map_option (\<lambda>(f, us). (view d c f, us)) (apply_nal_kind f kind code us)"
proof -
  obtain a where a: "af_au_start f = Some a" "d \<le> a" "a \<le> code" "code \<le> length (af_buf f)"
    and n: "\<And>n. af_next_au_start f = Some n \<Longrightarrow> a \<le> n \<and> n \<le> length (af_buf f)"
    using inv code d by (fastforce simp: framer_inv_def droppable_def split: option.splits)
  have cut: "cut_unit (view d c f) (code - d) us = map_option (\<lambda>(f, us). (view d c f, us)) (cut_unit f code us)"
    using a by (intro cut_unit_view)
  have cut_next: "cut_unit ((view d c f)\<lparr>af_next_au_start := None\<rparr>) (b - d) us
      = map_option (\<lambda>(f, us). (view d c f, us)) (cut_unit (f\<lparr>af_next_au_start := None\<rparr>) b us)"
    if "a \<le> b" "b \<le> length (af_buf f)" for b
    using cut_unit_view [of "f\<lparr>af_next_au_start := None\<rparr>" a d b c us] a that by (simp add: view_fields)
  show ?thesis
  proof (cases kind)
    case Aud
    then show ?thesis using cut
      by (cases "cut_unit f code us") (auto simp: apply_nal_kind_def view_fields)
  next
    case (Vcl first)
    then show ?thesis
    proof (cases "af_next_au_start f")
      case None
      then show ?thesis using Vcl cut_next [of code] a
        by (cases "cut_unit (f\<lparr>af_next_au_start := None\<rparr>) code us") (auto simp: apply_nal_kind_def view_fields)
    next
      case (Some m)
      then show ?thesis using Vcl cut_next [of m] n [OF Some]
        by (cases "cut_unit (f\<lparr>af_next_au_start := None\<rparr>) m us") (auto simp: apply_nal_kind_def view_fields)
    qed
  next
    case Other
    then show ?thesis by (simp add: apply_nal_kind_def view_fields)
  qed
qed

lemma droppable_mark [simp]: "droppable d (mark_classified f) = droppable d f"
  by (simp add: droppable_def mark_classified_def)

lemma apply_nal_kind_droppable:
  "\<lbrakk>framer_inv f i; af_pending_code f = Some (code, payload); droppable d f;
    apply_nal_kind f kind code us = Some (f', us')\<rbrakk> \<Longrightarrow> droppable d f'"
  by (fastforce simp: framer_inv_def droppable_def apply_nal_kind_def cut_unit_def Let_def bind_eq_Some_conv
      split: option.split_asm nal_kind.split_asm if_split_asm)

lemma classify_pending_view:
  assumes inv: "framer_inv f i" and d: "droppable d f" and e: "e \<le> length (af_buf f)"
  shows "classify_pending (view d c f) (e - d) complete us
    = map_option (\<lambda>(f, us). (view d c f, us)) (classify_pending f e complete us)
    \<and> (\<forall>f' us'. classify_pending f e complete us = Some (f', us') \<longrightarrow> droppable d f')"
proof (cases rule: classify_pending_cases [where f = f and e = e and complete = complete])
  case idle
  with d show ?thesis by (auto simp: classify_pending_idle)
next
  case (undecided code payload)
  then have "d < payload" using inv d by (auto simp: framer_inv_def droppable_def split: option.splits)
  then show ?thesis
    using undecided d nal_upto_view [of d payload e f c] e by (simp add: classify_pending_undecided)
next
  case (decided code payload kind)
  then have "d < payload" using inv d by (auto simp: framer_inv_def droppable_def split: option.splits)
  then have "classify_pending (view d c f) (e - d) complete us
      = map_option (\<lambda>(f, us). (mark_classified f, us)) (apply_nal_kind (view d c f) kind (code - d) us)"
    using decided nal_upto_view [of d payload e f c] e by (intro classify_pending_decided) auto
  moreover have "classify_pending f e complete us
      = map_option (\<lambda>(f, us). (mark_classified f, us)) (apply_nal_kind f kind code us)"
    using decided by (intro classify_pending_decided)
  ultimately show ?thesis
    using apply_nal_kind_view [OF inv decided(1) d, of c kind us]
      apply_nal_kind_droppable [OF inv decided(1) d, of kind us]
    by (cases "apply_nal_kind f kind code us") (auto simp: view_mark)
qed

lemma start_code_at_view:
  "d \<le> i \<Longrightarrow> i + 2 < length buf \<Longrightarrow> start_code_at (drop d (buf @ c)) (i - d) = start_code_at buf i"
proof -
  assume "d \<le> i" "i + 2 < length buf"
  then have "Suc (Suc (i - d)) < length buf - d" by arith
  with \<open>d \<le> i\<close> show ?thesis by (simp add: start_code_at_def nth_append)
qed

lemma code_start_of_view:
  assumes "d = 0 \<or> d < i" "i < length buf"
  shows "code_start_of (drop d (buf @ c)) (i - d) = code_start_of buf i - d"
  using assms by (auto simp: code_start_of_def nth_append)

text \<open>Positions already scanned lie behind the dropped bytes.\<close>

lemma droppable_behind: "framer_inv f i \<Longrightarrow> droppable d f \<Longrightarrow> d = 0 \<or> d < i"
  by (auto simp: framer_inv_def droppable_def split: option.splits)

lemma at_start_code_view:
  assumes inv: "framer_inv f i" and d: "droppable d f" and i: "i + 2 < length (af_buf f)"
  shows "at_start_code (view d c f) (i - d) us
    = map_option (\<lambda>(f, us). (view d c f, us)) (at_start_code f i us)
    \<and> (\<forall>f' us'. at_start_code f i us = Some (f', us') \<longrightarrow> droppable d f')"
proof -
  let ?q = "code_start_of (af_buf f) i" and ?q' = "code_start_of (drop d (af_buf f @ c)) (i - d)"
  have behind: "d = 0 \<or> d < i" by (rule droppable_behind [OF inv d])
  have q': "?q' = ?q - d" using code_start_of_view [OF behind] i by simp
  have q: "?q \<le> i" "i \<le> ?q + 1" by (auto simp: code_start_of_def)
  let ?g = "start_unit f ?q"
  have g: "droppable d ?g" "view d c ?g = start_unit (view d c f) (?q - d)" "af_buf ?g = af_buf f"
    using d by (auto simp: start_unit_def droppable_def view_def)
  have ginv: "framer_inv ?g i \<or> af_pending_code ?g = None"
    using inv by (auto simp: start_unit_def framer_inv_def split: option.splits)
  have "classify_pending (view d c ?g) (?q - d) True us
      = map_option (\<lambda>(f, us). (view d c f, us)) (classify_pending ?g ?q True us)
      \<and> (\<forall>f' us'. classify_pending ?g ?q True us = Some (f', us') \<longrightarrow> droppable d f')"
    using ginv
  proof
    assume "framer_inv ?g i"
    then show ?thesis using g(1,3) q i by (intro classify_pending_view) auto
  next
    assume "af_pending_code ?g = None"
    then show ?thesis using g(1) by (simp add: classify_pending_idle)
  qed
  moreover have "at_start_code (view d c f) (i - d) us = map_option
      (\<lambda>(f', us). (new_code (?q - d) (i - d + 3) f', us)) (classify_pending (view d c ?g) (?q - d) True us)"
    by (simp only: at_start_code_eq view_simps q' g(2))
  moreover have "d \<le> i" using behind by auto
  moreover have "droppable d (new_code q p f')" if "droppable d f'" for q p f'
    using that by (simp add: droppable_def new_code_def)
  ultimately show ?thesis
    unfolding at_start_code_eq [of f]
    by (cases "classify_pending ?g ?q True us") (auto simp: view_new_code)
qed

lemma scan_codes_view:
  "framer_inv f i \<Longrightarrow> droppable d f \<Longrightarrow>
     scan_codes (view d c f) (i - d) us
       = Option.bind (scan_codes f i us) (\<lambda>(f', j, us'). scan_codes (view d c f') (j - d) us')
     \<and> (\<forall>f' j us'. scan_codes f i us = Some (f', j, us') \<longrightarrow> droppable d f')"
proof (induction f i us rule: scan_codes.induct)
  case (1 f i us)
  have behind: "d = 0 \<or> d < i" by (rule droppable_behind [OF "1.prems"])
  show ?case
  proof (cases "i + 2 < length (af_buf f)")
    case more: True
    then have here: "scan_codes (view d c f) (i - d) us =
        (if start_code_at (af_buf f) i
         then case at_start_code (view d c f) (i - d) us of None \<Rightarrow> None
           | Some (f, us) \<Rightarrow> scan_codes f (i + 3 - d) us
         else scan_codes (view d c f) (i + 1 - d) us)"
      using behind start_code_at_view [of d i "af_buf f" c]
      by (subst scan_codes.simps) (auto simp: Suc_diff_le add.commute split: option.splits)
    show ?thesis
    proof (cases "start_code_at (af_buf f) i")
      case True
      obtain f' us' where step: "at_start_code f i us = Some (f', us')" "framer_inv f' (i + 3)"
        using at_start_code_inv [OF "1.prems"(1) more] by blast
      note view = at_start_code_view [OF "1.prems" more, of c us]
      have "scan_codes f i us = scan_codes f' (i + 3) us'"
        using more True step by (subst scan_codes.simps) simp
      then show ?thesis
        using here True step view "1.IH"(1) [OF more True step(1) refl step(2)] by simp
    next
      case False
      have "scan_codes f i us = scan_codes f (i + 1) us"
        using more False by (subst scan_codes.simps) simp
      then show ?thesis
        using here False "1.IH"(2) [OF more False] framer_inv_later [OF "1.prems"(1), of "i + 1"] more "1.prems"(2)
        by simp
    qed
  next
    case False
    then have "scan_codes f i us = Some (f, i, us)" by (subst scan_codes.simps) simp
    with "1.prems"(2) show ?thesis by simp
  qed
qed

end
