(* ===== verification/Chunked.thy ===== *)
theory Chunked
  imports Prelude
begin

text \<open>
  The interface of the access-unit framers (trait \<open>AccessUnitFramer\<close> in
  crates/clipline-capture/src/framing.rs): bytes are pushed in chunks and complete units come back.
  A framer keeps the law below for the input it accepts; its client, the reader of the encoder's
  output, may then choose the chunks freely.
\<close>

fun run_chunks :: "('s \<Rightarrow> bytes \<Rightarrow> ('s \<times> bytes list) option) \<Rightarrow> 's \<Rightarrow> bytes list \<Rightarrow> ('s \<times> bytes list) option" where
  "run_chunks push s [] = Some (s, [])"
| "run_chunks push s (c # cs) = do {
     (s, us) \<leftarrow> push s c;
     (s, us') \<leftarrow> run_chunks push s cs;
     Some (s, us @ us')
   }"

lemma bind_units: "Option.bind m (\<lambda>(t, vs). Some (t, us @ vs)) = map_option (\<lambda>(t, vs). (t, us @ vs)) m"
  by (cases m) auto

locale chunked_framer =
  fixes push :: "'s \<Rightarrow> bytes \<Rightarrow> ('s \<times> bytes list) option"
    and accepts :: "'s \<Rightarrow> bytes \<Rightarrow> bool"
  assumes push_append: "accepts s (a @ b) \<Longrightarrow> \<exists>s' us. push s a = Some (s', us) \<and> accepts s' b
    \<and> push s (a @ b) = map_option (\<lambda>(t, vs). (t, us @ vs)) (push s' b)"
begin

lemma push_total: "accepts s a \<Longrightarrow> \<exists>s' us. push s a = Some (s', us)"
  using push_append [of s a "[]"] by auto

lemma run_whole: "accepts s (c @ concat cs) \<Longrightarrow> run_chunks push s (c # cs) = push s (c @ concat cs)"
proof (induction cs arbitrary: s c)
  case Nil
  then show ?case using push_total [of s c] by auto
next
  case (Cons d cs)
  obtain s' us where first: "push s c = Some (s', us)" "accepts s' (d @ concat cs)"
    "push s (c @ d @ concat cs) = map_option (\<lambda>(t, vs). (t, us @ vs)) (push s' (d @ concat cs))"
    using push_append [of s c "d @ concat cs"] Cons.prems by auto
  have "run_chunks push s' (d # cs) = push s' (d @ concat cs)" by (rule Cons.IH [OF first(2)])
  then show ?case
    using first(1,3) by (subst run_chunks.simps(2)) (simp add: bind_units del: run_chunks.simps(2))
qed

text \<open>Two ways of cutting the same input are indistinguishable.\<close>

lemma chunking_irrelevant:
  assumes "accepts s (concat cs)" "cs \<noteq> []" "ds \<noteq> []" "concat cs = concat ds"
  shows "run_chunks push s cs = run_chunks push s ds"
proof -
  have "run_chunks push s es = push s (concat es)" if "es \<noteq> []" "accepts s (concat es)" for es
    using that run_whole [of s "hd es" "tl es"] by (cases es) auto
  with assms show ?thesis by metis
qed

end

end
