(* ===== verification/Framer_Chunks.thy ===== *)
theory Framer_Chunks
  imports Framer_Correct Chunked "HOL-Library.Sublist"
begin

text \<open>
  One push of the Annex B framer as a step of the framer that keeps the whole stream, and two pushes
  as one.
\<close>

section \<open>Units collected so far, and the recorded scan position\<close>

text \<open>Neither the units already collected nor the recorded scan position influence an operation.\<close>

definition at_pos :: "nat \<Rightarrow> annexb_framer \<Rightarrow> annexb_framer" where
  "at_pos k f = f\<lparr>af_scan_pos := k\<rparr>"

lemma at_pos_simps [simp]:
  "af_buf (at_pos k f) = af_buf f" "af_scan_pos (at_pos k f) = k" "af_au_start (at_pos k f) = af_au_start f"
  "af_pending_code (at_pos k f) = af_pending_code f" "af_next_au_start (at_pos k f) = af_next_au_start f"
  "af_pending_classified (at_pos k f) = af_pending_classified f"
  "af_current_has_vcl (at_pos k f) = af_current_has_vcl f" "af_classify_nal (at_pos k f) = af_classify_nal f"
  "at_pos k (at_pos l f) = at_pos k f"
  by (simp_all add: at_pos_def)

lemma at_pos_fields:
  "at_pos k (f\<lparr>af_au_start := x\<rparr>) = (at_pos k f)\<lparr>af_au_start := x\<rparr>"
  "at_pos k (f\<lparr>af_next_au_start := x\<rparr>) = (at_pos k f)\<lparr>af_next_au_start := x\<rparr>"
  "at_pos k (f\<lparr>af_current_has_vcl := b\<rparr>) = (at_pos k f)\<lparr>af_current_has_vcl := b\<rparr>"
  "at_pos k (mark_classified f) = mark_classified (at_pos k f)"
  "at_pos k (new_code c p f) = new_code c p (at_pos k f)"
  "at_pos k (start_unit f c) = start_unit (at_pos k f) c"
  by (simp_all add: at_pos_def mark_classified_def new_code_def start_unit_def)

lemma framer_inv_at_pos [simp]: "framer_inv (at_pos k f) i = framer_inv f i"
  by (auto simp: framer_inv_def split: option.splits)

lemma droppable_at_pos [simp]: "droppable d (at_pos k f) = droppable d f"
  by (simp add: droppable_def)

definition embed :: "nat \<Rightarrow> bytes list \<Rightarrow> (annexb_framer \<times> bytes list) option \<Rightarrow> (annexb_framer \<times> bytes list) option" where
  "embed k us = map_option (\<lambda>(f, vs). (at_pos k f, us @ vs))"

lemma embed_simps [simp]: "embed k us None = None" "embed k us (Some (f, vs)) = Some (at_pos k f, us @ vs)"
  by (simp_all add: embed_def)

lemma cut_unit_embed: "cut_unit (at_pos k f) b (us @ vs) = embed k us (cut_unit f b vs)"
  by (cases "get_range (af_buf f) (case af_au_start f of None \<Rightarrow> b | Some a \<Rightarrow> a) b")
    (simp_all add: cut_unit_def Let_def at_pos_fields)

lemma apply_nal_kind_embed:
  "apply_nal_kind (at_pos k f) kind c (us @ vs) = embed k us (apply_nal_kind f kind c vs)"
proof -
  have cut: "cut_unit ((at_pos k f)\<lparr>af_next_au_start := None\<rparr>) b (us @ vs)
      = embed k us (cut_unit (f\<lparr>af_next_au_start := None\<rparr>) b vs)" for b
    using cut_unit_embed [of k "f\<lparr>af_next_au_start := None\<rparr>"] by (simp add: at_pos_fields)
  show ?thesis
  proof (cases kind)
    case Aud
    then show ?thesis using cut_unit_embed [of k f c us vs]
      by (cases "cut_unit f c vs") (auto simp: apply_nal_kind_def at_pos_fields)
  next
    case (Vcl first)
    then show ?thesis
      using cut [of "case af_next_au_start f of None \<Rightarrow> c | Some n \<Rightarrow> n"]
      by (cases "cut_unit (f\<lparr>af_next_au_start := None\<rparr>) (case af_next_au_start f of None \<Rightarrow> c | Some n \<Rightarrow> n) vs")
        (auto simp: apply_nal_kind_def at_pos_fields)
  qed (simp add: apply_nal_kind_def at_pos_fields)
qed

lemma classify_pending_embed:
  "classify_pending (at_pos k f) e complete (us @ vs) = embed k us (classify_pending f e complete vs)"
proof (cases rule: classify_pending_cases [where f = f and e = e and complete = complete])
  case (decided code payload kind)
  then have "classify_pending (at_pos k f) e complete (us @ vs)
      = map_option (\<lambda>(f, us). (mark_classified f, us)) (embed k us (apply_nal_kind f kind code vs))"
    by (subst classify_pending_decided) (auto simp: apply_nal_kind_embed nal_upto_def)
  then show ?thesis
    using decided by (cases "apply_nal_kind f kind code vs") (auto simp: classify_pending_decided at_pos_fields)
qed (auto simp: classify_pending_idle classify_pending_undecided nal_upto_def)

lemma at_start_code_embed: "at_start_code (at_pos k f) i (us @ vs) = embed k us (at_start_code f i vs)"
proof -
  let ?c = "code_start_of (af_buf f) i"
  show ?thesis
    using classify_pending_embed [of k "start_unit f ?c" ?c True us vs]
    by (cases "classify_pending (start_unit f ?c) ?c True vs") (auto simp: at_start_code_eq at_pos_fields)
qed

lemma scan_codes_embed:
  "scan_codes (at_pos k f) i (us @ vs)
     = map_option (\<lambda>(f', j, ws). (at_pos k f', j, us @ ws)) (scan_codes f i vs)"
proof (induction f i vs rule: scan_codes.induct)
  case (1 f i vs)
  show ?case
  proof (cases "i + 2 < length (af_buf f) \<and> start_code_at (af_buf f) i")
    case True
    then show ?thesis
      using "1.IH"(1) at_start_code_embed [of k f i us vs]
      by (subst (1 2) scan_codes.simps) (cases "at_start_code f i vs"; auto)
  next
    case False
    then show ?thesis using "1.IH"(2) by (subst (1 2) scan_codes.simps) auto
  qed
qed

section \<open>The framer that keeps the whole stream\<close>

definition scan_finish :: "annexb_framer \<Rightarrow> nat \<Rightarrow> bytes list \<Rightarrow> (annexb_framer \<times> bytes list) option" where
  "scan_finish f i us = Option.bind (scan_codes f i us) (\<lambda>(f, j, us).
     map_option (\<lambda>(f, us). (at_pos j f, us)) (classify_pending f (length (af_buf f)) False us))"

definition feed :: "annexb_framer \<Rightarrow> bytes \<Rightarrow> (annexb_framer \<times> bytes list) option" where
  "feed f c = scan_finish (view 0 c f) (af_scan_pos f) []"

definition front :: "annexb_framer \<Rightarrow> nat" where
  "front f = (case af_au_start f of None \<Rightarrow> 0 | Some a \<Rightarrow> a)"

lemma scan_finish_embed:
  "scan_finish (at_pos k f) i (us @ vs) = map_option (\<lambda>(f, ws). (f, us @ ws)) (scan_finish f i vs)"
proof (cases "scan_codes f i vs")
  case (Some x)
  obtain g j ws where x: "x = (g, j, ws)" by (cases x)
  show ?thesis
    using Some x scan_codes_embed [of k f i us vs] classify_pending_embed [of k g "length (af_buf g)" False us ws]
    by (cases "classify_pending g (length (af_buf g)) False ws") (auto simp: scan_finish_def)
qed (simp add: scan_finish_def scan_codes_embed)

lemma scan_finish_units: "scan_finish f i (us @ vs) = map_option (\<lambda>(f, ws). (f, us @ ws)) (scan_finish f i vs)"
  using scan_finish_embed [of "af_scan_pos f" f] by (simp add: at_pos_def)

lemma view_0_Nil [simp]: "view 0 [] f = f"
  by (simp add: view_def option.map_ident map_prod.identity)

lemma view_view_0: "d \<le> length (af_buf f) \<Longrightarrow> view d c (view 0 b f) = view d (b @ c) f"
  by (simp add: view_def option.map_comp comp_def option.map_ident map_prod.identity)

lemma framer_inv_view: "framer_inv f i \<Longrightarrow> framer_inv (view 0 c f) i"
  using framer_inv_ext [of f i c]
  by (simp add: view_def option.map_ident map_prod.identity framer_inv_def)

lemma droppable_front: "droppable (front f) f"
  by (simp add: droppable_def front_def split: option.split)

lemma droppable_le_front: "droppable d f \<Longrightarrow> d \<le> front f"
  by (simp add: droppable_def front_def split: option.splits)

lemma droppable_view_0 [simp]: "droppable d (view 0 c f) = droppable d f"
  by (simp add: droppable_def option.map_ident)

lemma front_le: "framer_inv f i \<Longrightarrow> front f \<le> i"
  by (auto simp: framer_inv_def front_def split: option.splits)

text \<open>The drain of a view moves the view up to the start of the access unit.\<close>

lemma drain_emitted_view:
  assumes inv: "framer_inv g i" and d: "droppable d g"
  shows "drain_emitted (view d [] g) = Some (view (front g) [] g)"
proof (cases "af_pending_code g")
  case None
  then have "af_au_start g = None" "af_next_au_start g = None" using inv by (auto simp: framer_inv_def)
  then show ?thesis using d by (simp add: drain_emitted_def front_def droppable_def)
next
  case (Some cp)
  obtain code payload where cp: "cp = (code, payload)" by (cases cp)
  obtain a where a: "af_au_start g = Some a" "a \<le> code" "code \<le> payload" "payload \<le> length (af_buf g)" "d \<le> a"
    and n: "\<And>n. af_next_au_start g = Some n \<Longrightarrow> a \<le> n"
    using inv d Some cp by (fastforce simp: framer_inv_def droppable_def split: option.splits)
  show ?thesis
  proof (cases "a = d")
    case True
    then show ?thesis using a by (simp add: drain_emitted_def front_def)
  next
    case False
    then show ?thesis using a n Some cp
      by (cases "af_next_au_start g") (auto simp: drain_emitted_def front_def shift_back_def view_def)
  qed
qed

text \<open>A push of a drained framer is a feeding of the one that keeps everything.\<close>

lemma framer_push_feed:
  assumes inv: "framer_inv g (af_scan_pos g)" and d: "droppable d g"
    and fits: "length (af_buf g) - d + length c \<le> max_framer_buffer"
  shows "\<exists>g' us. feed g c = Some (g', us) \<and> framer_push (view d [] g) c = Some (view (front g') [] g', us)
    \<and> framer_inv g' (af_scan_pos g') \<and> af_buf g' = af_buf g @ c"
proof -
  let ?p = "af_scan_pos g" and ?h = "view 0 c g"
  have p: "?p \<le> length (af_buf g)" using inv by (simp add: framer_inv_def)
  have dp: "d \<le> ?p" using d inv droppable_le_front front_le le_trans by blast
  have hinv: "framer_inv ?h ?p" using inv by (rule framer_inv_view)
  obtain f j us where scan: "scan_codes ?h ?p [] = Some (f, j, us)" "framer_inv f j"
    "length (af_buf ?h) \<le> j + 2" "?p \<le> j" "af_buf f = af_buf ?h"
    using scan_codes_inv [OF hinv] by blast
  obtain f' us' where fin: "classify_pending f (length (af_buf f)) False us = Some (f', us')" "framer_inv f' j"
    using classify_pending_inv [OF scan(2)] by blast
  note views = scan_codes_view [OF hinv, of d "[]" "[]"]
  have df: "droppable d f" using views d scan(1) by simp
  have vfin: "classify_pending (view d [] f) (length (af_buf f) - d) False us = Some (view d [] f', us')"
    and df': "droppable d f'"
    using classify_pending_view [OF scan(2) df, of "length (af_buf f)" "[]" False us] fin(1) by auto
  have stop: "scan_codes (view d [] f) (j - d) us = Some (view d [] f, j - d, us)"
    using scan(3,5) by (subst scan_codes.simps) auto
  have start: "(view d [] g)\<lparr>af_buf := af_buf (view d [] g) @ c\<rparr> = view d [] ?h"
    using dp p by (simp add: view_def option.map_comp comp_def option.map_ident map_prod.identity)
  have pos: "min (af_scan_pos (view d [] ?h)) (length (af_buf (view d [] ?h))) = ?p - d"
    using p by simp
  have vscan: "scan_codes (view d [] ?h) (?p - d) [] = Some (view d [] f, j - d, us)"
    using views d scan(1) stop by simp
  have repos: "(view d [] f)\<lparr>af_scan_pos := j - d\<rparr> = at_pos (j - d) (view d [] f)"
    by (simp add: at_pos_def)
  have atfin: "classify_pending (at_pos (j - d) (view d [] f)) (length (af_buf f) - d) False us
      = Some (at_pos (j - d) (view d [] f'), us')"
    using classify_pending_embed [of "j - d" "view d [] f" _ False "[]" us] vfin by simp
  have swap: "at_pos (j - d) (view d [] f') = view d [] (at_pos j f')"
    by (simp add: at_pos_def view_def)
  have drain: "drain_emitted (view d [] (at_pos j f')) = Some (view (front (at_pos j f')) [] (at_pos j f'))"
    using drain_emitted_view [of "at_pos j f'" j d] fin(2) df' by simp
  have len: "length (af_buf (view d [] f)) = length (af_buf f) - d" by simp
  have "scan_new_start_codes (view d [] ?h) = Some (view (front (at_pos j f')) [] (at_pos j f'), us')"
    unfolding scan_new_start_codes_def pos vscan
    by (simp only: bind.bind_lunit prod.case repos len atfin swap drain)
  then have push: "framer_push (view d [] g) c = Some (view (front (at_pos j f')) [] (at_pos j f'), us')"
    unfolding framer_push_def start using fits by simp
  have "feed g c = Some (at_pos j f', us')"
    using scan(1) fin(1) by (simp add: feed_def scan_finish_def)
  moreover have "af_buf f' = af_buf g @ c" using classify_pending_buf [OF fin(1)] scan(5) by simp
  ultimately show ?thesis using push fin(2) by auto
qed

text \<open>The framer that keeps everything takes any chunk, and never moves the start of the access unit back.\<close>

lemma feed_inv:
  assumes inv: "framer_inv g (af_scan_pos g)" and d: "droppable d g"
  shows "\<exists>g' us. feed g c = Some (g', us) \<and> framer_inv g' (af_scan_pos g') \<and> af_buf g' = af_buf g @ c \<and> droppable d g'"
proof -
  let ?p = "af_scan_pos g" and ?h = "view 0 c g"
  have hinv: "framer_inv ?h ?p" using inv by (rule framer_inv_view)
  obtain f j us where scan: "scan_codes ?h ?p [] = Some (f, j, us)" "framer_inv f j" "af_buf f = af_buf ?h"
    using scan_codes_inv [OF hinv] by blast
  obtain f' us' where fin: "classify_pending f (length (af_buf f)) False us = Some (f', us')" "framer_inv f' j"
    using classify_pending_inv [OF scan(2)] by blast
  have df: "droppable d f" using scan_codes_view [OF hinv, of d "[]" "[]"] d scan(1) by simp
  have "droppable d f'" using classify_pending_view [OF scan(2) df, of "length (af_buf f)" "[]" False us] fin(1) by auto
  moreover have "feed g c = Some (at_pos j f', us')" using scan(1) fin(1) by (simp add: feed_def scan_finish_def)
  moreover have "af_buf f' = af_buf g @ c" using classify_pending_buf [OF fin(1)] scan(3) by simp
  ultimately show ?thesis using fin(2) by auto
qed

section \<open>Early and late classification\<close>

text \<open>
  A classifier that has decided on a partial unit decides the same for every continuation that keeps
  its first three bytes. A stream is spaced when each start code has three bytes before the next.
\<close>

definition decides_early :: "(bytes \<Rightarrow> bool \<Rightarrow> nal_kind option) \<Rightarrow> bool" where
  "decides_early classify \<longleftrightarrow> (\<forall>nal nal' complete kind.
     classify nal False = Some kind \<longrightarrow> prefix (take 3 nal) nal' \<longrightarrow> classify nal' complete = Some kind)"

lemma decides_earlyD:
  "\<lbrakk>decides_early classify; classify nal False = Some kind; prefix (take 3 nal) nal'\<rbrakk> \<Longrightarrow>
     classify nal' complete = Some kind"
  unfolding decides_early_def by blast

fun spaced :: "(nat \<times> nat) list \<Rightarrow> bool" where
  "spaced ((payload, code) # (payload', code') # starts) \<longleftrightarrow>
     payload + 3 \<le> code' \<and> spaced ((payload', code') # starts)"
| "spaced starts \<longleftrightarrow> True"

lemma get_at_prefix: "prefix xs ys \<Longrightarrow> get_at xs i = Some x \<Longrightarrow> get_at ys i = Some x"
  by (auto simp: prefix_def get_at_def nth_append split: if_splits)

lemma get_at_take3: "i < 3 \<Longrightarrow> get_at (take 3 xs) i = get_at xs i"
  by (simp add: get_at_def)

lemma decides_early_h264: "decides_early classify_h264_nal"
  unfolding decides_early_def
proof (intro allI impI)
  fix nal nal' :: bytes and complete kind
  assume early: "classify_h264_nal nal False = Some kind" and p: "prefix (take 3 nal) nal'"
  have at: "get_at nal i = Some x \<Longrightarrow> i < 3 \<Longrightarrow> get_at nal' i = Some x" for i x
    using get_at_prefix [OF p] get_at_take3 by metis
  show "classify_h264_nal nal' complete = Some kind"
    using early at [of 0] at [of 1]
    by (auto simp: classify_h264_nal_def slice_flag_def split: option.split_asm if_split_asm)
qed

lemma decides_early_hevc: "decides_early classify_hevc_nal"
  unfolding decides_early_def
proof (intro allI impI)
  fix nal nal' :: bytes and complete kind
  assume early: "classify_hevc_nal nal False = Some kind" and p: "prefix (take 3 nal) nal'"
  have at: "get_at nal i = Some x \<Longrightarrow> i < 3 \<Longrightarrow> get_at nal' i = Some x" for i x
    using get_at_prefix [OF p] get_at_take3 by metis
  show "classify_hevc_nal nal' complete = Some kind"
    using early at [of 0] at [of 2]
    by (auto simp: classify_hevc_nal_def slice_flag_def split: option.split_asm if_split_asm)
qed

text \<open>The pending code in front of the codes still to come.\<close>

definition pending_starts :: "annexb_framer \<Rightarrow> (nat \<times> nat) list" where
  "pending_starts f = (case af_pending_code f of None \<Rightarrow> [] | Some (code, payload) \<Rightarrow> [(payload, code)])"

lemma nal_upto_ext_prefix:
  assumes "payload \<le> length (af_buf f)" "e \<le> length (af_buf f @ c)"
    and "payload + 3 \<le> e \<or> e = length (af_buf f @ c)"
  shows "prefix (take 3 (nal_upto f payload (length (af_buf f)))) (nal_upto (view 0 c f) payload e)"
proof -
  let ?n = "drop payload (af_buf f)"
  have early: "nal_upto f payload (length (af_buf f)) = ?n"
    using assms(1) by (simp add: nal_upto_def get_range_def slice_def)
  have "payload \<le> e" using assms by auto
  then have late: "nal_upto (view 0 c f) payload e = take (e - payload) (?n @ c)"
    using assms by (simp add: nal_upto_def get_range_def slice_def)
  have "min 3 (length ?n) \<le> e - payload" using assms by (auto simp: min_def)
  then have "take (min 3 (length ?n)) (take (e - payload) (?n @ c)) = take 3 ?n"
    by (simp add: min_def)
  then show ?thesis
    unfolding early late using take_is_prefix by metis
qed

lemma classify_late:
  assumes early: "decides_early (af_classify_nal f)" and inv: "framer_inv f i"
    and f1: "classify_pending f (length (af_buf f)) False us = Some (f1, us1)"
    and pending: "af_pending_code f = Some (code, payload)"
    and e: "e \<le> length (af_buf f @ c)" "payload + 3 \<le> e \<or> e = length (af_buf f @ c)"
    and changed: "(f1, us1) \<noteq> (f, us)"
  shows "classify_pending (view 0 c f) e complete us = Some (view 0 c f1, us1)
    \<and> classify_pending (view 0 c f1) e complete us1 = Some (view 0 c f1, us1)"
proof (cases rule: classify_pending_cases [where f = f and e = "length (af_buf f)" and complete = False])
  case (decided code' payload' kind)
  have cp: "code' = code" "payload' = payload" using decided(1) pending by simp_all
  have "payload \<le> length (af_buf f)" using inv pending by (simp add: framer_inv_def)
  then have "prefix (take 3 (nal_upto f payload (length (af_buf f)))) (nal_upto (view 0 c f) payload e)"
    using e by (intro nal_upto_ext_prefix)
  then have "af_classify_nal f (nal_upto (view 0 c f) payload e) complete = Some kind"
    by (rule decides_earlyD [OF early decided(3) [unfolded cp]])
  then have "classify_pending (view 0 c f) e complete us
      = map_option (\<lambda>(f, us). (mark_classified f, us)) (apply_nal_kind (view 0 c f) kind code us)"
    using classify_pending_decided [of "view 0 c f" code payload e complete kind us] decided(2) pending by simp
  moreover have "apply_nal_kind (view 0 c f) kind code us
      = map_option (\<lambda>(f, us). (view 0 c f, us)) (apply_nal_kind f kind code us)"
    using apply_nal_kind_view [OF inv pending, of 0] by (simp add: droppable_def split: option.split)
  moreover have "map_option (\<lambda>(f, us). (mark_classified f, us)) (apply_nal_kind f kind code us) = Some (f1, us1)"
    using f1 classify_pending_decided [OF decided, of us] cp by simp
  then obtain g where g: "apply_nal_kind f kind code us = Some (g, us1)" "f1 = mark_classified g"
    by auto
  ultimately have "classify_pending (view 0 c f) e complete us = Some (view 0 c f1, us1)"
    by (simp add: view_mark)
  moreover have "af_pending_classified (view 0 c f1)" by (simp add: g(2) mark_classified_def)
  ultimately show ?thesis by (simp add: classify_pending_idle)
next
  case idle
  then show ?thesis using f1 changed by (simp add: classify_pending_idle)
next
  case (undecided code' payload')
  then show ?thesis using f1 changed by (simp add: classify_pending_undecided)
qed

lemma scan_finish_early:
  assumes early: "decides_early (af_classify_nal f)" and inv: "framer_inv f i"
    and f1: "classify_pending f (length (af_buf f)) False us = Some (f1, us1)"
    and spaced: "spaced (pending_starts f @ scan_starts (af_buf f @ c) j)"
  shows "scan_finish (view 0 c f1) j us1 = scan_finish (view 0 c f) j us"
proof (cases "(f1, us1) = (f, us)")
  case False
  obtain code payload where pending: "af_pending_code f = Some (code, payload)"
    using False f1 by (cases "af_pending_code f") (auto simp: classify_pending_idle)
  have au: "af_au_start f \<noteq> None" using inv pending by (auto simp: framer_inv_def)
  have f1_same: "af_buf f1 = af_buf f" using classify_pending_buf [OF f1] by simp
  have inv1: "framer_inv f1 i" "af_pending_code f1 = af_pending_code f"
    using classify_pending_inv [OF inv, of "length (af_buf f)" False us] f1 classify_pending_buf [OF f1] by auto
  then have au1: "af_au_start f1 \<noteq> None" using pending by (auto simp: framer_inv_def)
  note late = classify_late [OF early inv f1 pending _ _ False]
  show ?thesis
    using spaced
  proof (induction "length (af_buf f @ c) - j" arbitrary: j rule: less_induct)
    case less
    let ?buf = "af_buf f @ c"
    have eq: "at_start_code (view 0 c f1) j us1 = at_start_code (view 0 c f) j us"
      if more: "j + 2 < length ?buf" and "start_code_at ?buf j"
    proof -
      let ?q = "code_start_of ?buf j"
      have "payload + 3 \<le> ?q"
        using less.prems that pending by (subst (asm) scan_starts.simps) (simp add: pending_starts_def)
      moreover have "?q \<le> length ?buf" using more by (auto simp: code_start_of_def)
      ultimately have "classify_pending (view 0 c f) ?q True us = classify_pending (view 0 c f1) ?q True us1"
        using late [of ?q c True] by simp
      then show ?thesis using au au1 f1_same by (auto simp: at_start_code_eq start_unit_def)
    qed
    show ?case
    proof (cases "j + 2 < length ?buf")
      case more: True
      show ?thesis
      proof (cases "start_code_at ?buf j")
        case True
        then show ?thesis using more eq f1_same
          by (simp add: scan_finish_def scan_codes.simps [of _ j])
      next
        case False
        then have "scan_starts ?buf j = scan_starts ?buf (j + 1)"
          using more by (subst scan_starts.simps) simp
        then have "scan_finish (view 0 c f1) (j + 1) us1 = scan_finish (view 0 c f) (j + 1) us"
          using less.prems more by (intro less.hyps) auto
        then show ?thesis using more False f1_same
          by (simp add: scan_finish_def scan_codes.simps [of _ j])
      qed
    next
      case False
      then show ?thesis
        using late [of "length ?buf" c False] f1_same
        by (simp add: scan_finish_def scan_codes.simps [of _ j])
    qed
  qed
qed simp

section \<open>Two chunks as one\<close>

lemma scan_starts_append: "\<exists>r. scan_starts (x @ y) j = scan_starts x j @ r"
proof (induction "length x - j" arbitrary: j rule: less_induct)
  case less
  show ?case
  proof (cases "j + 2 < length x")
    case more: True
    have same: "start_code_at (x @ y) j = start_code_at x j" "code_start_of (x @ y) j = code_start_of x j"
      using start_code_at_view [of 0 j x y] code_start_of_view [of 0 j x y] more by simp_all
    have IH: "\<exists>r. scan_starts (x @ y) (j + 3) = scan_starts x (j + 3) @ r"
      "\<exists>r. scan_starts (x @ y) (j + 1) = scan_starts x (j + 1) @ r"
      using less.hyps more by simp_all
    then show ?thesis
      using more same by (subst (1 2) scan_starts.simps) auto
  next
    case False
    then show ?thesis by (subst (2) scan_starts.simps) simp
  qed
qed

lemma spaced_append: "spaced (xs @ ys) \<Longrightarrow> spaced xs"
  by (induction xs rule: spaced.induct) auto

lemma spaced_Cons: "spaced (x # xs) \<Longrightarrow> spaced xs"
  by (cases x; cases xs) auto

lemma pending_new_code: "pending_starts (new_code q p f) = [(p, q)]"
  by (simp add: pending_starts_def new_code_def)

text \<open>Scanning moves the codes it meets from the ones to come to the pending one.\<close>

lemma scan_codes_spaced:
  "\<lbrakk>spaced (pending_starts f @ scan_starts (af_buf f @ c) i); scan_codes f i us = Some (f', j, us')\<rbrakk> \<Longrightarrow>
     spaced (pending_starts f' @ scan_starts (af_buf f @ c) j)"
proof (induction f i us rule: scan_codes.induct)
  case (1 f i us)
  show ?case
  proof (cases "i + 2 < length (af_buf f)")
    case more: True
    have same: "start_code_at (af_buf f @ c) i = start_code_at (af_buf f) i"
      "code_start_of (af_buf f @ c) i = code_start_of (af_buf f) i"
      using start_code_at_view [of 0 i "af_buf f" c] code_start_of_view [of 0 i "af_buf f" c] more by simp_all
    show ?thesis
    proof (cases "start_code_at (af_buf f) i")
      case True
      obtain g vs where step: "at_start_code f i us = Some (g, vs)"
        using "1.prems"(2) more True by (subst (asm) scan_codes.simps) (auto split: option.splits)
      then have g: "pending_starts g = [(i + 3, code_start_of (af_buf f) i)]" "af_buf g = af_buf f"
        using at_start_code_buf [OF step] by (simp_all add: pending_starts_def)
      have "scan_starts (af_buf f @ c) i = (i + 3, code_start_of (af_buf f) i) # scan_starts (af_buf f @ c) (i + 3)"
        using more True same by (subst scan_starts.simps) simp
      then have "spaced (pending_starts g @ scan_starts (af_buf g @ c) (i + 3))"
        using "1.prems"(1) g spaced_Cons
        by (cases "af_pending_code f") (auto simp: pending_starts_def)
      then show ?thesis
        using "1.IH"(1) [OF more True step refl] "1.prems"(2) more True step g
        by (simp add: scan_codes.simps [of f])
    next
      case False
      then have "scan_starts (af_buf f @ c) i = scan_starts (af_buf f @ c) (i + 1)"
        using more same by (subst scan_starts.simps) simp
      then show ?thesis
        using "1.IH"(2) [OF more False] "1.prems" more False by (simp add: scan_codes.simps [of f i])
    qed
  next
    case False
    then show ?thesis using "1.prems" by (subst (asm) scan_codes.simps) simp
  qed
qed

lemma pending_starts_view [simp]: "pending_starts (view 0 c f) = pending_starts f"
  by (simp add: pending_starts_def option.map_ident map_prod.identity)

lemma feed_feed:
  assumes early: "decides_early (af_classify_nal g)" and inv: "framer_inv g (af_scan_pos g)"
    and spaced: "spaced (pending_starts g @ scan_starts (af_buf g @ a @ b) (af_scan_pos g))"
    and first: "feed g a = Some (g1, us1)"
  shows "feed g (a @ b) = map_option (\<lambda>(h, us). (h, us1 @ us)) (feed g1 b)"
proof -
  let ?p = "af_scan_pos g" and ?h = "view 0 a g"
  have hinv: "framer_inv ?h ?p" using inv by (rule framer_inv_view)
  obtain f j us where scan: "scan_codes ?h ?p [] = Some (f, j, us)" "framer_inv f j"
    "af_buf f = af_buf ?h" "af_classify_nal f = af_classify_nal ?h"
    using scan_codes_inv [OF hinv] by blast
  obtain f1 where f1: "classify_pending f (length (af_buf f)) False us = Some (f1, us1)" "g1 = at_pos j f1"
    using first scan(1) by (auto simp: feed_def scan_finish_def)
  have "scan_codes (view 0 b ?h) ?p [] = scan_codes (view 0 b f) j us"
    using scan_codes_view [OF hinv, of 0 b "[]"] scan(1) by (simp add: droppable_def split: option.split)
  then have "feed g (a @ b) = scan_finish (view 0 b f) j us"
    by (simp add: feed_def scan_finish_def view_view_0)
  also have "\<dots> = scan_finish (view 0 b f1) j us1"
  proof (rule scan_finish_early [symmetric, OF _ scan(2) f1(1)])
    show "decides_early (af_classify_nal f)" using early scan(4) by simp
    show "spaced (pending_starts f @ scan_starts (af_buf f @ b) j)"
      using scan_codes_spaced [OF _ scan(1), of b] spaced scan(3) by simp
  qed
  also have "\<dots> = map_option (\<lambda>(h, us). (h, us1 @ us)) (feed g1 b)"
  proof -
    have "view 0 b g1 = at_pos j (view 0 b f1)" by (simp add: f1(2) view_def at_pos_def)
    moreover have "feed g1 b = scan_finish (view 0 b g1) j []" by (simp add: feed_def f1(2))
    moreover have "scan_finish (at_pos j (view 0 b f1)) j [] = scan_finish (view 0 b f1) j []"
      using scan_finish_embed [of j "view 0 b f1" j "[]" "[]"] by (simp add: option.map_id case_prod_beta)
    ultimately have "feed g1 b = scan_finish (view 0 b f1) j []" by simp
    then show ?thesis
      using scan_finish_units [of "view 0 b f1" j us1 "[]"] by simp
  qed
  finally show ?thesis .
qed

section \<open>Runs\<close>

text \<open>Pushing the chunks one by one, into the framer and into the one that keeps the whole stream.\<close>

definition framer_run :: "annexb_framer \<Rightarrow> bytes list \<Rightarrow> (annexb_framer \<times> bytes list) option" where
  "framer_run = run_chunks framer_push"

definition feed_run :: "annexb_framer \<Rightarrow> bytes list \<Rightarrow> (annexb_framer \<times> bytes list) option" where
  "feed_run = run_chunks feed"

lemma framer_run_feed_run:
  "\<lbrakk>framer_inv g (af_scan_pos g); length (af_buf g) + length (concat cs) \<le> max_framer_buffer\<rbrakk> \<Longrightarrow>
     \<exists>g' us. feed_run g cs = Some (g', us) \<and> framer_run (view (front g) [] g) cs = Some (view (front g') [] g', us)
       \<and> framer_inv g' (af_scan_pos g') \<and> af_buf g' = af_buf g @ concat cs"
proof (induction cs arbitrary: g)
  case (Cons c cs)
  have fits: "length (af_buf g) - front g + length c \<le> max_framer_buffer" using Cons.prems(2) by simp
  obtain h us where h: "feed g c = Some (h, us)" "framer_push (view (front g) [] g) c = Some (view (front h) [] h, us)"
    "framer_inv h (af_scan_pos h)" "af_buf h = af_buf g @ c"
    using framer_push_feed [OF Cons.prems(1) droppable_front fits] by blast
  then show ?case using Cons.IH [OF h(3)] Cons.prems(2) by (auto simp: framer_run_def feed_run_def)
qed (simp add: framer_run_def feed_run_def)

text \<open>The limit concerns what is pending when a chunk arrives, not the stream as a whole.\<close>

definition pending_fits :: "annexb_framer \<Rightarrow> bytes list \<Rightarrow> bool" where
  "pending_fits g cs \<longleftrightarrow> (\<forall>xs c ys h us. cs = xs @ c # ys \<longrightarrow> feed_run g xs = Some (h, us)
     \<longrightarrow> length (af_buf h) - front h + length c \<le> max_framer_buffer)"

lemma framer_run_pending:
  "\<lbrakk>framer_inv g (af_scan_pos g); pending_fits g cs\<rbrakk> \<Longrightarrow>
     \<exists>g' us. feed_run g cs = Some (g', us) \<and> framer_run (view (front g) [] g) cs = Some (view (front g') [] g', us)"
proof (induction cs arbitrary: g)
  case (Cons c cs)
  have fits: "length (af_buf g) - front g + length c \<le> max_framer_buffer"
    using Cons.prems(2) unfolding pending_fits_def by (auto simp: feed_run_def dest: spec [of _ "[]"])
  obtain h us where h: "feed g c = Some (h, us)" "framer_push (view (front g) [] g) c = Some (view (front h) [] h, us)"
    "framer_inv h (af_scan_pos h)" using framer_push_feed [OF Cons.prems(1) droppable_front fits] by blast
  have "pending_fits h cs"
    unfolding pending_fits_def
  proof (intro allI impI)
    fix xs d ys k vs assume s: "cs = xs @ d # ys" "feed_run h xs = Some (k, vs)"
    then have "feed_run g (c # xs) = Some (k, us @ vs)" using h(1) by (simp add: feed_run_def)
    then show "length (af_buf k) - front k + length d \<le> max_framer_buffer"
      using Cons.prems(2) s(1) unfolding pending_fits_def by (metis append_Cons)
  qed
  from Cons.IH [OF h(3) this] h(1,2) show ?case by (auto simp: framer_run_def feed_run_def)
qed (simp add: framer_run_def feed_run_def)

text \<open>
  Accepted input: the framer is the drained view of one that has kept a stream whose units, with the
  input behind it, are long enough to be classified, and that stays below the buffer ceiling.
\<close>

definition framer_accepts :: "annexb_framer \<Rightarrow> bytes \<Rightarrow> bool" where
  "framer_accepts f x \<longleftrightarrow> (\<exists>g. f = view (front g) [] g \<and> decides_early (af_classify_nal g)
     \<and> framer_inv g (af_scan_pos g) \<and> length (af_buf g) + length x \<le> max_framer_buffer
     \<and> spaced (pending_starts g @ scan_starts (af_buf g @ x) (af_scan_pos g)))"

lemma feed_spaced:
  assumes inv: "framer_inv g (af_scan_pos g)" and step: "feed g a = Some (h, us)"
    and spaced: "spaced (pending_starts g @ scan_starts (af_buf g @ a @ b) (af_scan_pos g))"
  shows "spaced (pending_starts h @ scan_starts (af_buf h @ b) (af_scan_pos h))
    \<and> af_classify_nal h = af_classify_nal g"
proof -
  let ?v = "view 0 a g"
  obtain f j vs f' where f: "scan_codes ?v (af_scan_pos g) [] = Some (f, j, vs)"
    and f': "classify_pending f (length (af_buf f)) False vs = Some (f', us)" "h = at_pos j f'"
    using step by (auto simp: feed_def scan_finish_def bind_eq_Some_conv)
  have "spaced (pending_starts f @ scan_starts (af_buf ?v @ b) j)"
    using scan_codes_spaced [OF _ f, of b] spaced by simp
  moreover have "af_buf f = af_buf ?v" "af_classify_nal f = af_classify_nal ?v"
    using scan_codes_inv [OF framer_inv_view [OF inv], of a "[]"] f by auto
  ultimately show ?thesis
    using classify_pending_buf [OF f'(1)] by (simp add: f'(2) pending_starts_def)
qed

interpretation annexb: chunked_framer framer_push framer_accepts
proof
  fix f a b assume "framer_accepts f (a @ b)"
  then obtain g where f: "f = view (front g) [] g" and early: "decides_early (af_classify_nal g)"
    and inv: "framer_inv g (af_scan_pos g)" and len: "length (af_buf g) + length (a @ b) \<le> max_framer_buffer"
    and spaced: "spaced (pending_starts g @ scan_starts (af_buf g @ a @ b) (af_scan_pos g))"
    by (auto simp: framer_accepts_def)
  have fits: "length (af_buf g) - front g + length a \<le> max_framer_buffer"
    "length (af_buf g) - front g + length (a @ b) \<le> max_framer_buffer"
    using len by simp_all
  obtain h us where h: "feed g a = Some (h, us)" "framer_push f a = Some (view (front h) [] h, us)"
    "framer_inv h (af_scan_pos h)" "af_buf h = af_buf g @ a"
    using framer_push_feed [OF inv droppable_front fits(1)] f by blast
  obtain k ws where k: "feed g (a @ b) = Some (k, ws)" "framer_push f (a @ b) = Some (view (front k) [] k, ws)"
    using framer_push_feed [OF inv droppable_front fits(2)] f by blast
  have hfits: "length (af_buf h) - front h + length b \<le> max_framer_buffer" using len h(4) by simp
  obtain l vs where l: "feed h b = Some (l, vs)"
    "framer_push (view (front h) [] h) b = Some (view (front l) [] l, vs)"
    using framer_push_feed [OF h(3) droppable_front hfits] by blast
  have "feed g (a @ b) = Some (l, us @ vs)" using feed_feed [OF early inv spaced h(1)] l(1) by simp
  then have "framer_push f (a @ b) = Some (view (front l) [] l, us @ vs)" using k by simp
  moreover have "framer_accepts (view (front h) [] h) b"
    using feed_spaced [OF inv h(1) spaced] early h(3,4) len by (auto simp: framer_accepts_def)
  ultimately show "\<exists>f' us. framer_push f a = Some (f', us) \<and> framer_accepts f' b
      \<and> framer_push f (a @ b) = map_option (\<lambda>(t, vs). (t, us @ vs)) (framer_push f' b)"
    using h(2) l(2) by auto
qed

text \<open>The framer that keeps everything accepts a stream of any length.\<close>

definition feed_accepts :: "annexb_framer \<Rightarrow> bytes \<Rightarrow> bool" where
  "feed_accepts g x \<longleftrightarrow> decides_early (af_classify_nal g) \<and> framer_inv g (af_scan_pos g)
     \<and> spaced (pending_starts g @ scan_starts (af_buf g @ x) (af_scan_pos g))"

interpretation whole_stream: chunked_framer feed feed_accepts
proof
  fix g a b assume "feed_accepts g (a @ b)"
  then have early: "decides_early (af_classify_nal g)" and inv: "framer_inv g (af_scan_pos g)"
    and spaced: "spaced (pending_starts g @ scan_starts (af_buf g @ a @ b) (af_scan_pos g))"
    by (simp_all add: feed_accepts_def)
  obtain h us where h: "feed g a = Some (h, us)" "framer_inv h (af_scan_pos h)"
    using feed_inv [OF inv droppable_front, of a] by blast
  have "feed_accepts h b" using feed_spaced [OF inv h(1) spaced] early h(2) by (simp add: feed_accepts_def)
  then show "\<exists>h us. feed g a = Some (h, us) \<and> feed_accepts h b
      \<and> feed g (a @ b) = map_option (\<lambda>(t, vs). (t, us @ vs)) (feed h b)"
    using h(1) feed_feed [OF early inv spaced h(1)] by blast
qed

lemma new_feed_accepts:
  "decides_early classify \<Longrightarrow> spaced (scan_starts x 0) \<Longrightarrow> feed_accepts (framer_new classify) x"
  using framer_inv_new [of classify] by (simp add: feed_accepts_def framer_new_def pending_starts_def)

lemma feed_run_whole:
  assumes "decides_early classify" "spaced (scan_starts (concat cs) 0)" "cs \<noteq> []"
  shows "feed_run (framer_new classify) cs = feed (framer_new classify) (concat cs)"
  using whole_stream.run_whole [of "framer_new classify" "hd cs" "tl cs"] new_feed_accepts [OF assms(1,2)] assms(3)
  by (cases cs) (simp_all add: feed_run_def)

lemma view_new [simp]: "view 0 [] (framer_new c) = framer_new c" "front (framer_new c) = 0"
  by (simp_all add: front_def framer_new_def)

lemma framer_new_accepts:
  assumes "decides_early classify" "spaced (scan_starts x 0)" "length x \<le> max_framer_buffer"
  shows "framer_accepts (framer_new classify) x"
  unfolding framer_accepts_def
  using assms framer_inv_new [of classify]
  by (intro exI [of _ "framer_new classify"]) (simp add: framer_new_def pending_starts_def)

lemma framer_run_whole:
  assumes "decides_early classify" "spaced (scan_starts (concat cs) 0)"
    and "length (concat cs) \<le> max_framer_buffer" "cs \<noteq> []"
  shows "framer_run (framer_new classify) cs = framer_push (framer_new classify) (concat cs)"
  using annexb.run_whole [of "framer_new classify" "hd cs" "tl cs"] framer_new_accepts [OF assms(1-3)] assms(4)
  by (cases cs) (simp_all add: framer_run_def)

end
