(* ===== verification/Framer_Units.thy ===== *)
theory Framer_Units
  imports Framer_Chunks
begin

text \<open>
  What the Annex B framer hands out: every byte from the first start code on, once and in order,
  and for a well-formed stream exactly its access units.
\<close>

section \<open>No byte is lost\<close>

definition held :: "bytes list \<Rightarrow> annexb_framer \<Rightarrow> bytes" where
  "held us f = concat us @ drop (front f) (af_buf f)"

definition lead :: "bytes \<Rightarrow> nat" where
  "lead s = (case scan_starts s 0 of [] \<Rightarrow> 0 | (_, code) # _ \<Rightarrow> code)"

lemma front_same:
  "front (mark_classified f) = front f" "front (at_pos k f) = front f" "front (new_code q p f) = front f"
  "front (f\<lparr>af_next_au_start := n\<rparr>) = front f" "front (f\<lparr>af_current_has_vcl := b\<rparr>) = front f"
  by (simp_all add: front_def mark_classified_def at_pos_def new_code_def)

lemma held_same [simp]:
  "held us (mark_classified f) = held us f" "held us (at_pos k f) = held us f"
  "held us (new_code q p f) = held us f" "held us (f\<lparr>af_next_au_start := n\<rparr>) = held us f"
  "held us (f\<lparr>af_current_has_vcl := b\<rparr>) = held us f"
  by (simp_all add: held_def front_same) (simp_all add: mark_classified_def new_code_def)

lemma slice_then_drop: "a \<le> b \<Longrightarrow> slice a b xs @ drop b xs = drop a xs"
  using append_take_drop_id [of "b - a" "drop a xs"] by (simp add: slice_def)

lemma cut_unit_held:
  assumes "cut_unit f b us = Some (f', us')" "af_au_start f = Some a"
  shows "held us' f' = held us f"
proof -
  have "a \<le> b" "f' = f\<lparr>af_au_start := Some b\<rparr>" "us' = us @ [slice a b (af_buf f)]"
    using assms by (auto simp: cut_unit_def get_range_def bind_eq_Some_conv split: if_splits)
  then show ?thesis using assms(2) slice_then_drop [of a b "af_buf f"] by (simp add: held_def front_def)
qed

lemma apply_nal_kind_held:
  "\<lbrakk>apply_nal_kind f kind c us = Some (f', us'); af_au_start f = Some a\<rbrakk> \<Longrightarrow> held us' f' = held us f"
  by (cases kind) (auto simp: apply_nal_kind_def bind_eq_Some_conv split: if_splits dest: cut_unit_held)

lemma classify_pending_held:
  assumes "framer_inv f i" "classify_pending f e complete us = Some (f', us')"
  shows "held us' f' = held us f"
proof (cases rule: classify_pending_cases [where f = f and e = e and complete = complete])
  case (decided code payload kind)
  then obtain a where "af_au_start f = Some a" using assms(1) by (auto simp: framer_inv_def)
  with decided assms(2) show ?thesis
    by (auto simp: classify_pending_decided dest: apply_nal_kind_held)
qed (use assms(2) in \<open>auto simp: classify_pending_idle classify_pending_undecided\<close>)

definition lossless :: "annexb_framer \<Rightarrow> nat \<Rightarrow> bytes list \<Rightarrow> bool" where
  "lossless f i us \<longleftrightarrow>
     (if af_au_start f = None then us = [] \<and> (\<forall>c. scan_starts (af_buf f @ c) 0 = scan_starts (af_buf f @ c) i)
      else scan_starts (af_buf f) 0 \<noteq> [] \<and> held us f = drop (lead (af_buf f)) (af_buf f))"

lemma lossless_classify:
  assumes inv: "framer_inv f i" and ok: "lossless f i us"
    and step: "classify_pending f e complete us = Some (f', us')"
  shows "lossless f' i us'"
proof (cases "af_pending_code f")
  case None
  then show ?thesis using ok step by (simp add: classify_pending_idle)
next
  case (Some cp)
  then have "af_au_start f \<noteq> None" "af_au_start f' \<noteq> None"
    using inv classify_pending_inv [OF inv, of e complete us] step classify_pending_buf [OF step]
    by (auto simp: framer_inv_def)
  then show ?thesis
    using ok classify_pending_held [OF inv step] classify_pending_buf [OF step] by (auto simp: lossless_def)
qed

lemma lossless_at_start_code:
  assumes inv: "framer_inv f i" and i: "i + 2 < length (af_buf f)" and code: "start_code_at (af_buf f) i"
    and ok: "lossless f i us" and step: "at_start_code f i us = Some (f', us')"
  shows "lossless f' (i + 3) us'"
proof (cases "af_au_start f")
  case None
  let ?q = "code_start_of (af_buf f) i"
  have "af_pending_code f = None" using inv None by (auto simp: framer_inv_def split: option.splits)
  then have f': "f' = new_code ?q (i + 3) (f\<lparr>af_au_start := Some ?q\<rparr>)" "us' = us"
    using step None by (auto simp: at_start_code_eq start_unit_def classify_pending_idle)
  have "scan_starts (af_buf f) 0 = scan_starts (af_buf f) i" "us = []"
    using ok None by (auto simp: lossless_def dest: spec [of _ "[]"])
  moreover have "scan_starts (af_buf f) i = (i + 3, ?q) # scan_starts (af_buf f) (i + 3)"
    using i code by (subst scan_starts.simps) simp
  ultimately show ?thesis
    by (simp add: f' lossless_def lead_def) (simp add: held_def front_def new_code_def)
next
  case (Some a)
  let ?q = "code_start_of (af_buf f) i"
  have start: "start_unit f ?q = f" using Some by (simp add: start_unit_def)
  obtain g where g: "classify_pending f ?q True us = Some (g, us')" "f' = new_code ?q (i + 3) g"
    using step start by (auto simp: at_start_code_eq)
  obtain p where "af_pending_code f = Some p" using inv Some by (auto simp: framer_inv_def split: option.splits)
  then have "af_au_start g \<noteq> None"
    using classify_pending_inv [OF inv, of ?q True us] g(1) classify_pending_buf [OF g(1)]
    by (auto simp: framer_inv_def)
  moreover have "lossless g i us'" by (rule lossless_classify [OF inv ok g(1)])
  ultimately have "scan_starts (af_buf g) 0 \<noteq> [] \<and> held us' g = drop (lead (af_buf g)) (af_buf g)"
    by (simp add: lossless_def)
  with \<open>af_au_start g \<noteq> None\<close> show ?thesis unfolding g(2) lossless_def by (auto simp: new_code_def held_def front_def)
qed

lemma lossless_skip:
  assumes "lossless f i us" "i + 2 < length (af_buf f)" "\<not> start_code_at (af_buf f) i"
  shows "lossless f (i + 1) us"
proof -
  have "scan_starts (af_buf f @ c) i = scan_starts (af_buf f @ c) (i + 1)" for c
    using assms(2,3) start_code_at_view [of 0 i "af_buf f" c] by (subst scan_starts.simps) simp
  with assms(1) show ?thesis by (simp add: lossless_def)
qed

lemma lossless_scan:
  "\<lbrakk>framer_inv f i; lossless f i us; scan_codes f i us = Some (f', j, us')\<rbrakk> \<Longrightarrow> lossless f' j us'"
proof (induction f i us rule: scan_codes.induct)
  case (1 f i us)
  show ?case
  proof (cases "i + 2 < length (af_buf f)")
    case more: True
    show ?thesis
    proof (cases "start_code_at (af_buf f) i")
      case True
      obtain g vs where g: "at_start_code f i us = Some (g, vs)" "framer_inv g (i + 3)"
        using at_start_code_inv [OF "1.prems"(1) more] by blast
      have "scan_codes g (i + 3) vs = Some (f', j, us')"
        using "1.prems"(3) more True g by (simp add: scan_codes.simps [of f])
      then show ?thesis
        using "1.IH"(1) [OF more True g(1) refl g(2)] lossless_at_start_code [OF "1.prems"(1) more True "1.prems"(2) g(1)]
        by blast
    next
      case False
      have "scan_codes f (i + 1) us = Some (f', j, us')"
        using "1.prems"(3) more False by (simp add: scan_codes.simps [of f i])
      then show ?thesis
        using "1.IH"(2) [OF more False] lossless_skip [OF "1.prems"(2) more False]
          framer_inv_later [OF "1.prems"(1), of "i + 1"] more by simp
    qed
  next
    case False
    then show ?thesis using "1.prems" by (subst (asm) scan_codes.simps) simp
  qed
qed

lemma lead_le: "scan_starts s j = (p, q) # r \<Longrightarrow> q \<le> length s"
proof (induction s j rule: scan_starts.induct)
  case (1 s j)
  then show ?case
    by (subst (asm) (3) scan_starts.simps) (auto simp: code_start_of_def split: if_splits)
qed

lemma lossless_view:
  assumes inv: "framer_inv f i" and "lossless f i us"
  shows "lossless (view 0 c f) i us"
proof (cases "af_au_start f")
  case None
  with assms(2) show ?thesis by (simp add: lossless_def option.map_ident)
next
  case (Some a)
  obtain p q r where starts: "scan_starts (af_buf f) 0 = (p, q) # r"
    using assms(2) Some by (cases "scan_starts (af_buf f) 0") (auto simp: lossless_def)
  obtain r' where starts': "scan_starts (af_buf f @ c) 0 = (p, q) # r'"
    using scan_starts_append [of "af_buf f" c 0] starts by auto
  have a: "front f \<le> length (af_buf f)" using front_le [OF inv] inv by (simp add: framer_inv_def)
  then have "held us (view 0 c f) = held us f @ c" by (simp add: held_def front_def option.map_ident)
  also have "\<dots> = drop q (af_buf f) @ c" using assms(2) Some starts by (simp add: lossless_def lead_def)
  also have "\<dots> = drop q (af_buf f @ c)" using lead_le [OF starts] by simp
  finally show ?thesis using Some starts' by (simp add: lossless_def lead_def option.map_ident)
qed

lemma lossless_at_pos [simp]: "lossless (at_pos k f) i us = lossless f i us"
  by (simp add: lossless_def)

lemma held_append: "held (vs @ us) f = concat vs @ held us f"
  by (simp add: held_def)

text \<open>A feeding keeps the invariant, for the units handed out before it too.\<close>

lemma lossless_feed:
  assumes inv: "framer_inv g (af_scan_pos g)" and ok: "lossless g (af_scan_pos g) vs"
    and step: "feed g c = Some (g', us)"
  shows "lossless g' (af_scan_pos g') (vs @ us) \<and> length (af_buf g') \<le> af_scan_pos g' + 2"
proof -
  let ?h = "view 0 c g" and ?p = "af_scan_pos g"
  have hinv: "framer_inv ?h ?p" using inv by (rule framer_inv_view)
  have "scan_finish ?h ?p vs = Some (g', vs @ us)"
    using step scan_finish_units [of ?h ?p vs "[]"] by (simp add: feed_def)
  then obtain f j ws where f: "scan_codes ?h ?p vs = Some (f, j, ws)"
    and fin: "map_option (\<lambda>(f, us). (at_pos j f, us)) (classify_pending f (length (af_buf f)) False ws)
      = Some (g', vs @ us)"
    unfolding scan_finish_def by (auto simp: bind_eq_Some_conv)
  from fin obtain f' where f': "classify_pending f (length (af_buf f)) False ws = Some (f', vs @ us)"
    "g' = at_pos j f'"
    by auto
  have finv: "framer_inv f j" "length (af_buf f) \<le> j + 2" using scan_codes_inv [OF hinv, of vs] f by auto
  have "lossless f j ws" by (rule lossless_scan [OF hinv lossless_view [OF inv ok] f])
  then have "lossless f' j (vs @ us)" by (rule lossless_classify [OF finv(1) _ f'(1)])
  then show ?thesis using f'(2) finv(2) classify_pending_buf [OF f'(1)] by simp
qed

lemma lossless_feed_run:
  "\<lbrakk>framer_inv g (af_scan_pos g); lossless g (af_scan_pos g) vs; length (af_buf g) \<le> af_scan_pos g + 2;
    length (af_buf g) + length (concat cs) \<le> max_framer_buffer; feed_run g cs = Some (g', us)\<rbrakk> \<Longrightarrow>
     lossless g' (af_scan_pos g') (vs @ us) \<and> length (af_buf g') \<le> af_scan_pos g' + 2"
proof (induction cs arbitrary: g vs us)
  case (Cons c cs)
  obtain h us1 us2 where run: "feed g c = Some (h, us1)" "feed_run h cs = Some (g', us2)" "us = us1 @ us2"
    using Cons.prems(5) by (auto simp: bind_eq_Some_conv feed_run_def)
  have fits: "length (af_buf g) - front g + length c \<le> max_framer_buffer" using Cons.prems(4) by simp
  have h: "framer_inv h (af_scan_pos h)" "af_buf h = af_buf g @ c"
    using framer_push_feed [OF Cons.prems(1) droppable_front fits] run(1) by auto
  show ?case
    using Cons.IH [OF h(1) _ _ _ run(2), of "vs @ us1"] lossless_feed [OF Cons.prems(1,2) run(1)] h(2) Cons.prems(4) run(3) by simp
qed (simp add: feed_run_def)

lemma framer_run_lossless:
  assumes "length (concat cs) \<le> max_framer_buffer"
  shows "\<exists>f us. framer_run (framer_new classify) cs = Some (f, us)
    \<and> concat us @ af_buf f = drop (lead (concat cs)) (concat cs)"
proof -
  let ?g = "framer_new classify"
  have g: "af_buf ?g = []" "af_scan_pos ?g = 0" "af_au_start ?g = None" by (simp_all add: framer_new_def)
  have inv: "framer_inv ?g (af_scan_pos ?g)" using framer_inv_new g by simp
  obtain g' us where r: "feed_run ?g cs = Some (g', us)" "framer_run ?g cs = Some (view (front g') [] g', us)"
    "af_buf g' = concat cs"
    using framer_run_feed_run [OF inv, of cs] assms g by auto
  have "lossless ?g (af_scan_pos ?g) []" using g by (simp add: lossless_def)
  from lossless_feed_run [OF inv this _ _ r(1)] have ok: "lossless g' (af_scan_pos g') us"
    "length (af_buf g') \<le> af_scan_pos g' + 2"
    using g assms by simp_all
  have "held us g' = drop (lead (concat cs)) (concat cs)"
  proof (cases "af_au_start g'")
    case None
    then have "scan_starts (af_buf g') 0 = scan_starts (af_buf g') (af_scan_pos g')" "us = []"
      using ok(1) by (auto simp: lossless_def dest: spec [of _ "[]"])
    moreover have "scan_starts (af_buf g') (af_scan_pos g') = []"
      using ok(2) by (subst scan_starts.simps) simp
    ultimately show ?thesis using None r(3) by (simp add: held_def front_def lead_def)
  next
    case (Some a)
    then show ?thesis using ok(1) r(3) by (simp add: lossless_def)
  qed
  then show ?thesis using r by (simp add: held_def)
qed

end
