(* ===== verification/Framer_Pictures.thy ===== *)
theory Framer_Pictures
  imports Framer_Units
begin

text \<open>
  Well-formed streams: units grouped into access units. The cuts depend on the kinds of the units and
  the positions of their codes only, and they fall between the access units.
\<close>

section \<open>Cuts from kinds and positions\<close>

type_synonym cut_state = "nat \<times> nat option \<times> bool"

fun cut_step :: "bytes \<Rightarrow> cut_state \<Rightarrow> nal_kind \<times> nat \<Rightarrow> cut_state \<times> bytes list" where
  "cut_step buf (a, n, v) (Aud, c) =
     (if v then ((c, None, False), [slice a c buf]) else ((a, None, False), []))"
| "cut_step buf (a, n, v) (Vcl first, c) =
     (if first \<and> v then (let b = (case n of Some m \<Rightarrow> m | None \<Rightarrow> c) in ((b, None, True), [slice a b buf]))
      else ((a, n, True), []))"
| "cut_step buf (a, n, v) (Other, c) = ((a, (if v \<and> n = None then Some c else n), v), [])"

fun cut_run :: "bytes \<Rightarrow> cut_state \<Rightarrow> (nal_kind \<times> nat) list \<Rightarrow> cut_state \<times> bytes list" where
  "cut_run buf s [] = (s, [])"
| "cut_run buf s (x # xs) =
     (let (s', us) = cut_step buf s x; (s'', us') = cut_run buf s' xs in (s'', us @ us'))"

definition in_cut_state :: "annexb_framer \<Rightarrow> cut_state \<Rightarrow> bool" where
  "in_cut_state f s \<longleftrightarrow> (case s of (a, n, v) \<Rightarrow>
     af_au_start f = Some a \<and> af_next_au_start f = n \<and> af_current_has_vcl f = v)"

lemma in_cut_state_same [simp]:
  "in_cut_state (mark_classified f) s = in_cut_state f s" "in_cut_state (at_pos k f) s = in_cut_state f s"
  "in_cut_state (new_code q p f) s = in_cut_state f s"
  by (simp_all add: in_cut_state_def mark_classified_def new_code_def)

lemma cut_run_append:
  "cut_run buf s (xs @ ys) =
     (let (s', us) = cut_run buf s xs; (s'', us') = cut_run buf s' ys in (s'', us @ us'))"
  by (induction xs arbitrary: s) (auto simp: case_prod_beta Let_def)

lemma apply_nal_kind_cut:
  assumes inv: "framer_inv f i" and code: "af_pending_code f = Some (c, payload)" and s: "in_cut_state f s"
  shows "\<exists>g. apply_nal_kind f kind c vs = Some (g, vs @ snd (cut_step (af_buf f) s (kind, c)))
    \<and> in_cut_state g (fst (cut_step (af_buf f) s (kind, c)))"
proof -
  obtain a n v where s3: "s = (a, n, v)" by (cases s)
  have a: "af_au_start f = Some a" "af_next_au_start f = n" "af_current_has_vcl f = v"
    "a \<le> c" "c \<le> length (af_buf f)" "\<And>m. n = Some m \<Longrightarrow> a \<le> m \<and> m \<le> length (af_buf f)"
    using s inv code by (fastforce simp: s3 in_cut_state_def framer_inv_def)+
  then show ?thesis
    by (cases kind; cases n)
      (auto simp: s3 apply_nal_kind_def cut_unit_def get_range_def in_cut_state_def)
qed

section \<open>Scanning a stream of clean units\<close>

lemma scan_codes_skip:
  assumes "i \<le> k" "k + 2 < length (af_buf f)" "\<And>j. i \<le> j \<Longrightarrow> j < k \<Longrightarrow> \<not> start_code_at (af_buf f) j"
  shows "scan_codes f i vs = scan_codes f k vs"
  using assms
proof (induction "k - i" arbitrary: i)
  case (Suc d)
  then have "scan_codes f i vs = scan_codes f (i + 1) vs" by (subst scan_codes.simps) simp
  with Suc show ?case by simp
qed simp

text \<open>The position at which a start code after a clean unit is found.\<close>

lemma scan_codes_to_code:
  assumes u: "clean u" and buf: "af_buf f = pre @ u @ start_code long @ rest"
  defines "q \<equiv> length pre + length u"
  shows "scan_codes f (length pre) vs
    = (case at_start_code f (q + length (start_code long) - 3) vs of None \<Rightarrow> None
       | Some (g, ws) \<Rightarrow> scan_codes g (q + length (start_code long)) ws)"
    and "code_start_of (af_buf f) (q + length (start_code long) - 3) = q"
proof -
  let ?j = "q + length (start_code long) - 3"
  have u': "\<not> has_code u" "u \<noteq> []" "last u \<noteq> 0" using u by (simp_all add: clean_def)
  have inside: "\<not> start_code_at (af_buf f) j" if "length pre \<le> j" "j < q" for j
  proof -
    have "3 \<le> length (start_code long)" by (simp add: start_code_def)
    then have "j - length pre < length u" "j - length pre + 2 < length (pre @ u @ start_code long @ rest)"
      using that by (auto simp: q_def)
    then show ?thesis
      using no_code_in_clean [OF u'(1), of "j - length pre" pre "start_code long @ rest"] u'(3) that(1)
      by (simp add: buf)
  qed
  have skip_zero: "\<not> start_code_at (af_buf f) q" if long
    using that by (simp add: buf q_def start_code_at_def start_code_def nth_append)
  have code: "start_code_at (af_buf f) ?j"
    by (cases long) (simp_all add: buf q_def start_code_at_def start_code_def nth_append)
  have j: "?j + 2 < length (af_buf f)" "length pre \<le> ?j" "?j + 3 = q + length (start_code long)"
    "?j = (if long then q + 1 else q)"
    by (simp_all add: buf q_def start_code_def)
  have "scan_codes f (length pre) vs = scan_codes f ?j vs"
  proof (rule scan_codes_skip [OF j(2,1)])
    fix k assume k: "length pre \<le> k" "k < ?j"
    then have "k < q \<or> k = q \<and> long" using j(4) by (auto split: if_splits)
    then show "\<not> start_code_at (af_buf f) k" using inside [OF k(1)] skip_zero by auto
  qed
  moreover have "scan_codes f ?j vs = (case at_start_code f ?j vs of None \<Rightarrow> None
       | Some (g, ws) \<Rightarrow> scan_codes g (?j + 3) ws)"
    using code j(1) by (subst scan_codes.simps) simp
  ultimately show "scan_codes f (length pre) vs
    = (case at_start_code f ?j vs of None \<Rightarrow> None
       | Some (g, ws) \<Rightarrow> scan_codes g (q + length (start_code long)) ws)"
    by (simp only: j(3))
  have "0 < q" "af_buf f ! (q - 1) = last u" using u'(2)
    by (cases u rule: rev_cases; simp add: buf q_def nth_append)+
  moreover have "af_buf f ! q = 0"
    by (simp add: buf q_def start_code_def nth_append)
  ultimately show "code_start_of (af_buf f) ?j = q"
    using j(4) u'(3) by (simp add: code_start_of_def)
qed

section \<open>A whole stream\<close>

text \<open>The kind of a unit that is long enough, and kinds and code positions along a stream.\<close>

definition kind_of :: "(bytes \<Rightarrow> bool \<Rightarrow> nal_kind option) \<Rightarrow> bytes \<Rightarrow> nal_kind" where
  "kind_of classify u = (case classify u True of None \<Rightarrow> Other | Some k \<Rightarrow> k)"

definition decides :: "(bytes \<Rightarrow> bool \<Rightarrow> nal_kind option) \<Rightarrow> bool" where
  "decides classify \<longleftrightarrow> (\<forall>u complete. 3 \<le> length u \<longrightarrow> classify u complete = Some (kind_of classify u))"

fun unit_codes :: "(bytes \<Rightarrow> bool \<Rightarrow> nal_kind option) \<Rightarrow> nat \<Rightarrow> (bool \<times> bytes) list \<Rightarrow> (nal_kind \<times> nat) list" where
  "unit_codes classify p [] = []"
| "unit_codes classify p ((long, u) # us) =
     (kind_of classify u, p) # unit_codes classify (p + length (start_code long) + length u) us"

definition unit_ok :: "bytes \<Rightarrow> bool" where
  "unit_ok u \<longleftrightarrow> clean u \<and> 3 \<le> length u"

lemma decides_h264: "decides classify_h264_nal"
  by (auto simp: decides_def kind_of_def classify_h264_nal_def slice_flag_def get_at_def)

lemma decides_hevc: "decides classify_hevc_nal"
  by (auto simp: decides_def kind_of_def classify_hevc_nal_def slice_flag_def get_at_def)

lemma classify_pending_cut:
  assumes dec: "decides (af_classify_nal f)" and inv: "framer_inv f i" and s: "in_cut_state f s"
    and p: "af_pending_code f = Some (c, payload)" "\<not> af_pending_classified f"
    and u: "nal_upto f payload e = u" "3 \<le> length u"
  shows "\<exists>g. classify_pending f e complete vs
      = Some (g, vs @ snd (cut_step (af_buf f) s (kind_of (af_classify_nal f) u, c)))
    \<and> in_cut_state g (fst (cut_step (af_buf f) s (kind_of (af_classify_nal f) u, c)))"
proof -
  have "af_classify_nal f (nal_upto f payload e) complete = Some (kind_of (af_classify_nal f) u)"
    using dec u by (simp add: decides_def)
  from classify_pending_decided [OF p this, of vs]
    apply_nal_kind_cut [OF inv p(1) s, of "kind_of (af_classify_nal f) u" vs]
  show ?thesis by auto
qed

lemma scan_codes_last:
  assumes u: "clean u" "3 \<le> length u" and buf: "af_buf f = pre @ u"
  shows "scan_codes f (length pre) vs = Some (f, length (af_buf f) - 2, vs)"
proof -
  define n where "n = length (af_buf f) - 3"
  have n: "length (af_buf f) = n + 3" "length pre \<le> n" using u(2) buf by (simp_all add: n_def)
  have u': "\<not> has_code u" "last u \<noteq> 0" using u(1) by (simp_all add: clean_def)
  have no: "\<not> start_code_at (af_buf f) j" if "length pre \<le> j" "j \<le> n" for j
  proof -
    have "j - length pre < length u" "j - length pre + 2 < length (pre @ u @ [])"
      using that n u(2) buf by auto
    then show ?thesis
      using no_code_in_clean [OF u'(1), of "j - length pre" pre "[]"] u'(2) that(1) by (simp add: buf)
  qed
  have "scan_codes f (length pre) vs = scan_codes f n vs"
    by (rule scan_codes_skip) (use n no in auto)
  also have "\<dots> = scan_codes f (n + 1) vs"
    using n no [of n] by (subst scan_codes.simps) simp
  also have "\<dots> = Some (f, n + 1, vs)"
    using n by (subst scan_codes.simps) simp
  finally show ?thesis using n by simp
qed

lemma scan_finish_last:
  assumes "decides (af_classify_nal f)" "unit_ok u" "af_buf f = pre @ start_code long @ u" "in_cut_state f s"
    and "af_pending_code f = Some (length pre, length (pre @ start_code long))" "\<not> af_pending_classified f"
    and "framer_inv f (length (pre @ start_code long))"
  shows "\<exists>g. scan_finish f (length (pre @ start_code long)) vs
         = Some (g, vs @ snd (cut_step (af_buf f) s (kind_of (af_classify_nal f) u, length pre)))
       \<and> in_cut_state g (fst (cut_step (af_buf f) s (kind_of (af_classify_nal f) u, length pre)))
       \<and> af_buf g = af_buf f"
proof -
  let ?p = "length (pre @ start_code long)" and ?k = "(kind_of (af_classify_nal f) u, length pre)"
  have ok: "clean u" "3 \<le> length u" using assms(2) by (simp_all add: unit_ok_def)
  have "nal_upto f ?p (length (af_buf f)) = u"
    using assms(3) by (simp add: nal_upto_def get_range_def slice_def)
  from classify_pending_cut [OF assms(1,7,4,5,6) this ok(2), of False vs]
  obtain g where g: "classify_pending f (length (af_buf f)) False vs = Some (g, vs @ snd (cut_step (af_buf f) s ?k))"
    "in_cut_state g (fst (cut_step (af_buf f) s ?k))"
    by blast
  have "scan_codes f ?p vs = Some (f, length (af_buf f) - 2, vs)"
    using ok assms(3) by (intro scan_codes_last) auto
  then show ?thesis using g classify_pending_buf [OF g(1)] by (simp add: scan_finish_def)
qed

lemma scan_finish_stream:
  "\<lbrakk>decides (af_classify_nal f); list_all (unit_ok \<circ> snd) ((long, u) # us);
    af_buf f = pre @ start_code long @ u @ annexb_stream us; in_cut_state f s;
    af_pending_code f = Some (length pre, length (pre @ start_code long)); \<not> af_pending_classified f;
    framer_inv f (length (pre @ start_code long))\<rbrakk> \<Longrightarrow>
     \<exists>g. scan_finish f (length (pre @ start_code long)) vs
         = Some (g, vs @ snd (cut_run (af_buf f) s (unit_codes (af_classify_nal f) (length pre) ((long, u) # us))))
       \<and> in_cut_state g (fst (cut_run (af_buf f) s (unit_codes (af_classify_nal f) (length pre) ((long, u) # us))))
       \<and> af_buf g = af_buf f"
proof (induction us arbitrary: f long u pre s vs)
  case Nil
  then show ?case using scan_finish_last [of f u pre long s vs] by (simp add: case_prod_beta)
next
  case (Cons x us)
  obtain long' u' where x: "x = (long', u')" by (cases x)
  let ?p = "length (pre @ start_code long)" and ?q = "length pre + length (start_code long) + length u"
  let ?k = "kind_of (af_classify_nal f) u"
  have ok: "clean u" "3 \<le> length u" using Cons.prems(2) by (simp_all add: unit_ok_def)
  have buf: "af_buf f = (pre @ start_code long) @ u @ start_code long' @ u' @ annexb_stream us"
    using Cons.prems(3) by (simp add: x)
  note to_code = scan_codes_to_code(1) [OF ok(1) buf, of vs] scan_codes_to_code(2) [OF ok(1) buf]
  have q: "?p + length u = ?q" by simp
  let ?j = "?q + length (start_code long') - 3"
  have nal: "nal_upto f ?p ?q = u"
    using buf by (simp add: nal_upto_def get_range_def slice_def)
  obtain g where g: "classify_pending f ?q True vs = Some (g, vs @ snd (cut_step (af_buf f) s (?k, length pre)))"
    "in_cut_state g (fst (cut_step (af_buf f) s (?k, length pre)))"
    using classify_pending_cut [OF Cons.prems(1,7,4,5,6) nal ok(2), of True vs] by blast
  have start: "start_unit f ?q = f"
    using Cons.prems(4) by (auto simp: start_unit_def in_cut_state_def split: prod.splits)
  let ?h = "new_code ?q (?q + length (start_code long')) g"
  have jj: "?j + 3 = ?q + length (start_code long')" "?j + 2 < length (af_buf f)" "?p \<le> ?j"
    using buf ok by (simp_all add: start_code_def)
  have step: "at_start_code f ?j vs = Some (?h, vs @ snd (cut_step (af_buf f) s (?k, length pre)))"
    using to_code(2) start g(1) jj(1) q by (simp add: at_start_code_eq)
  have hinv: "framer_inv ?h (?j + 3)"
    using at_start_code_inv [OF framer_inv_later [OF Cons.prems(7) jj(3)] jj(2), of vs] step jj(2) by simp
  have same: "af_buf ?h = af_buf f" "af_classify_nal ?h = af_classify_nal f"
    using at_start_code_buf [OF step] by simp_all
  let ?s' = "fst (cut_step (af_buf f) s (?k, length pre))"
  have "in_cut_state ?h ?s'" using g(2) by simp
  with Cons.IH [of ?h long' u' "pre @ start_code long @ u" ?s' "vs @ snd (cut_step (af_buf f) s (?k, length pre))"]
  have "\<exists>g. scan_finish ?h (?q + length (start_code long')) (vs @ snd (cut_step (af_buf f) s (?k, length pre)))
      = Some (g, (vs @ snd (cut_step (af_buf f) s (?k, length pre)))
          @ snd (cut_run (af_buf f) ?s' (unit_codes (af_classify_nal f) ?q ((long', u') # us))))
    \<and> in_cut_state g (fst (cut_run (af_buf f) ?s' (unit_codes (af_classify_nal f) ?q ((long', u') # us))))
    \<and> af_buf g = af_buf f"
    using Cons.prems(1,2) buf same hinv jj(1) by (simp add: x new_code_def add.assoc)
  moreover have "scan_finish f ?p vs = scan_finish ?h (?q + length (start_code long'))
      (vs @ snd (cut_step (af_buf f) s (?k, length pre)))"
    using to_code(1) step q by (simp add: scan_finish_def)
  ultimately show ?case by (simp add: x case_prod_beta Let_def)
qed

section \<open>Access units\<close>

text \<open>
  The kinds of an access unit: a delimiter perhaps, then parameter sets and the like, the first slice
  of the picture, its other slices.
\<close>

definition picture_kinds :: "nal_kind list \<Rightarrow> bool" where
  "picture_kinds ks \<longleftrightarrow>
     (case dropWhile (\<lambda>k. k = Other) (case ks of Aud # ks' \<Rightarrow> ks' | _ \<Rightarrow> ks) of
        Vcl True # slices \<Rightarrow> list_all (\<lambda>k. k = Vcl False) slices
      | _ \<Rightarrow> False)"

lemma picture_kinds_split:
  assumes "picture_kinds (map fst (xs :: (nal_kind \<times> nat) list))"
  obtains h os c t where "xs = h @ os @ (Vcl True, c) # t" "h = [] \<or> (\<exists>p. h = [(Aud, p)])"
    "list_all (\<lambda>x. fst x = Other) os" "list_all (\<lambda>x. fst x = Vcl False) t"
proof -
  have core: "\<exists>os c t. ys = os @ (Vcl True, c) # t \<and> list_all (\<lambda>x. fst x = Other) os \<and> list_all (\<lambda>x. fst x = Vcl False) t"
    if "case dropWhile (\<lambda>k. k = Other) (map fst ys) of Vcl True # slices \<Rightarrow> list_all (\<lambda>k. k = Vcl False) slices | _ \<Rightarrow> False"
    for ys :: "(nal_kind \<times> nat) list"
  proof -
    let ?p = "\<lambda>x. fst x = Other"
    have d: "dropWhile (\<lambda>k. k = Other) (map fst ys) = map fst (dropWhile ?p ys)" by (simp add: dropWhile_map comp_def)
    have "\<exists>c t. dropWhile ?p ys = (Vcl True, c) # t \<and> list_all (\<lambda>x. fst x = Vcl False) t"
    proof (cases "dropWhile ?p ys")
      case Nil
      with that show ?thesis unfolding d by simp
    next
      case (Cons y t)
      with that have "fst y = Vcl True" "list_all (\<lambda>x. fst x = Vcl False) t"
        unfolding d by (auto simp: list.pred_map comp_def split: nal_kind.splits bool.splits)
      then show ?thesis using Cons by (cases y) auto
    qed
    then obtain c t where "dropWhile ?p ys = (Vcl True, c) # t" "list_all (\<lambda>x. fst x = Vcl False) t"
      by blast
    moreover have "list_all ?p (takeWhile ?p ys)" by (auto simp: list_all_iff dest: set_takeWhileD)
    ultimately show ?thesis using takeWhile_dropWhile_id [of ?p ys] by metis
  qed
  show ?thesis
  proof (cases "\<exists>p ys. xs = (Aud, p) # ys")
    case True
    then obtain p ys where xs: "xs = (Aud, p) # ys" by blast
    from assms core [of ys] obtain os c t where "ys = os @ (Vcl True, c) # t"
      "list_all (\<lambda>x. fst x = Other) os" "list_all (\<lambda>x. fst x = Vcl False) t"
      by (auto simp: xs picture_kinds_def)
    with xs that [of "[(Aud, p)]" os c t] show ?thesis by simp
  next
    case False
    then have "(case map fst xs of Aud # ks' \<Rightarrow> ks' | _ \<Rightarrow> map fst xs) = map fst xs"
      by (cases xs) (auto split: nal_kind.splits)
    with assms core [of xs] obtain os c t where "xs = os @ (Vcl True, c) # t"
      "list_all (\<lambda>x. fst x = Other) os" "list_all (\<lambda>x. fst x = Vcl False) t"
      by (auto simp: picture_kinds_def)
    with that [of "[]" os c t] show ?thesis by simp
  qed
qed

lemma cut_slices: "list_all (\<lambda>x. fst x = Vcl False) t \<Longrightarrow> cut_run buf (a, n, True) t = ((a, n, True), [])"
  by (induction t) auto

lemma cut_others:
  "list_all (\<lambda>x. fst x = Other) os \<Longrightarrow> v \<longrightarrow> n \<noteq> None \<Longrightarrow> cut_run buf (a, n, v) os = ((a, n, v), [])"
  by (induction os) auto

text \<open>An access unit after a complete one is where the cut falls; after nothing, no cut is made.\<close>

lemma cut_picture:
  assumes "picture_kinds (map fst xs)"
  shows "cut_run buf (a, None, False) xs = ((a, None, True), [])"
    and "snd (hd xs) = p \<Longrightarrow> cut_run buf (a, None, True) xs = ((p, None, True), [slice a p buf])"
proof -
  obtain h os c t where xs: "xs = h @ os @ (Vcl True, c) # t" and h: "h = [] \<or> (\<exists>q. h = [(Aud, q)])"
    and os: "list_all (\<lambda>x. fst x = Other) os" and t: "list_all (\<lambda>x. fst x = Vcl False) t"
    using picture_kinds_split [OF assms] by blast
  show "cut_run buf (a, None, False) xs = ((a, None, True), [])"
    using h cut_others [OF os, of False None buf a] cut_slices [OF t] by (auto simp: xs cut_run_append)
  assume p: "snd (hd xs) = p"
  show "cut_run buf (a, None, True) xs = ((p, None, True), [slice a p buf])"
  proof (cases "h = []")
    case True
    show ?thesis
    proof (cases os)
      case Nil
      then show ?thesis using True p cut_slices [OF t] by (simp add: xs)
    next
      case (Cons o1 os')
      then have "o1 = (Other, p)" "list_all (\<lambda>x. fst x = Other) os'" using True p os by (auto simp: xs prod_eq_iff)
      then show ?thesis
        using True Cons cut_others [of os' True "Some p" buf a] cut_slices [OF t] by (simp add: xs cut_run_append)
    qed
  next
    case False
    then have "h = [(Aud, p)]" using h p by (auto simp: xs)
    then show ?thesis
      using cut_others [OF os, of False None buf p] cut_slices [OF t] by (simp add: xs cut_run_append)
  qed
qed

definition picture_ok :: "(bytes \<Rightarrow> bool \<Rightarrow> nal_kind option) \<Rightarrow> (bool \<times> bytes) list \<Rightarrow> bool" where
  "picture_ok classify au \<longleftrightarrow> list_all (unit_ok \<circ> snd) au \<and> picture_kinds (map (kind_of classify \<circ> snd) au)"

lemma unit_codes_append:
  "unit_codes cl p (xs @ ys) = unit_codes cl p xs @ unit_codes cl (p + length (annexb_stream xs)) ys"
  by (induction cl p xs rule: unit_codes.induct) (auto simp: add.assoc)

lemma unit_codes_kinds: "map fst (unit_codes cl p xs) = map (kind_of cl \<circ> snd) xs"
  by (induction cl p xs rule: unit_codes.induct) auto

lemma picture_ok_nonempty: "picture_ok cl au \<Longrightarrow> au \<noteq> []"
  by (auto simp: picture_ok_def picture_kinds_def)

lemma unit_codes_hd: "au \<noteq> [] \<Longrightarrow> snd (hd (unit_codes cl p au)) = p"
  by (cases au) auto

lemma annexb_stream_append [simp]: "annexb_stream (xs @ ys) = annexb_stream xs @ annexb_stream ys"
  by (simp add: annexb_stream_def)

lemma cut_pictures:
  "\<lbrakk>list_all (picture_ok cl) aus; buf = pre @ annexb_stream prev @ annexb_stream (concat aus)\<rbrakk> \<Longrightarrow>
     \<exists>a'. cut_run buf (length pre, None, True) (unit_codes cl (length (pre @ annexb_stream prev)) (concat aus))
       = ((a', None, True), map annexb_stream (butlast (prev # aus)))
     \<and> drop a' buf = annexb_stream (last (prev # aus))"
proof (induction aus arbitrary: pre prev)
  case (Cons au aus)
  let ?p = "length (pre @ annexb_stream prev)"
  have au: "picture_ok cl au" using Cons.prems(1) by simp
  have "cut_run buf (length pre, None, True) (unit_codes cl ?p au)
      = ((?p, None, True), [slice (length pre) ?p buf])"
    using au picture_ok_nonempty [OF au] unit_codes_hd
    by (intro cut_picture) (simp_all add: unit_codes_kinds picture_ok_def)
  moreover have "slice (length pre) ?p buf = annexb_stream prev"
    using slice_middle [of pre "annexb_stream prev"] Cons.prems(2) by simp
  moreover obtain a' where "cut_run buf (?p, None, True)
      (unit_codes cl (length ((pre @ annexb_stream prev) @ annexb_stream au)) (concat aus))
      = ((a', None, True), map annexb_stream (butlast (au # aus)))" "drop a' buf = annexb_stream (last (au # aus))"
    using Cons.IH [of "pre @ annexb_stream prev" au] Cons.prems by auto
  ultimately show ?case
    by (simp add: unit_codes_append cut_run_append add.assoc)
qed simp

section \<open>Every chunking of a well-formed stream\<close>

lemma spaced_positions:
  "list_all (\<lambda>x. 3 \<le> length (snd x)) us \<Longrightarrow> spaced (code_positions p us)"
proof (induction us arbitrary: p)
  case (Cons x us)
  then show ?case by (cases us) auto
qed simp

lemma feed_first:
  assumes dec: "decides cl" and ok: "list_all (unit_ok \<circ> snd) ((long, u) # us)"
    and s: "s = annexb_stream ((long, u) # us)"
  shows "\<exists>g. feed (framer_new cl) s = Some (g, snd (cut_run s (0, None, False) (unit_codes cl 0 ((long, u) # us))))
    \<and> in_cut_state g (fst (cut_run s (0, None, False) (unit_codes cl 0 ((long, u) # us)))) \<and> af_buf g = s"
proof -
  let ?f = "view 0 s (framer_new cl)"
  let ?h = "new_code 0 (length (start_code long)) (?f\<lparr>af_au_start := Some 0\<rparr>)"
  let ?j = "length (start_code long) - 3"
  have f: "af_buf ?f = s" "af_pending_code ?f = None" "af_au_start ?f = None" "framer_inv ?f 0"
    using framer_inv_view [OF framer_inv_new] by (simp_all add: framer_new_def)
  have s': "s = start_code long @ u @ annexb_stream us" by (simp add: s)
  have j: "?j = (if long then 1 else 0)" "?j + 3 = length (start_code long)" by (simp_all add: start_code_def)
  have "code_start_of s ?j = 0" "start_code_at s ?j" "?j + 2 < length s" "long \<Longrightarrow> \<not> start_code_at s 0"
    using s' by (cases long; simp add: start_code_def start_code_at_def code_start_of_def)+
  note at = this
  have step: "at_start_code ?f ?j [] = Some (?h, [])"
    using f at(1) j(2) by (simp add: at_start_code_eq start_unit_def classify_pending_idle)
  have "scan_codes ?f 0 [] = scan_codes ?f ?j []"
    using at(3,4) f(1) j(1) by (intro scan_codes_skip) (auto split: if_splits)
  also have "\<dots> = scan_codes ?h (?j + 3) []"
    using at(2,3) f(1) step by (subst scan_codes.simps) simp
  finally have scan: "feed (framer_new cl) s = scan_finish ?h (length ([] @ start_code long)) []"
    using j(2) by (simp add: feed_def scan_finish_def framer_new_def)
  have "framer_inv ?f ?j" using framer_inv_later [OF f(4), of ?j] at(3) f(1) by simp
  then have hinv: "framer_inv ?h (length ([] @ start_code long))"
    using at_start_code_inv [of ?f ?j "[]"] step at(3) f(1) j(2) by simp
  have h: "af_classify_nal ?h = cl" "af_buf ?h = s" "in_cut_state ?h (0, None, False)"
    "af_pending_code ?h = Some (length [], length ([] @ start_code long))" "\<not> af_pending_classified ?h"
    by (simp_all add: new_code_def framer_new_def in_cut_state_def)
  show ?thesis
    using scan_finish_stream [of ?h long u us "[]" "(0, None, False)" "[]"] dec ok hinv h s' unfolding scan by simp
qed

text \<open>Fed with whole access units, the framer hands out all but the last one.\<close>

lemma feed_pictures:
  assumes dec: "decides cl" and aus: "list_all (picture_ok cl) aus" "aus \<noteq> []"
  shows "\<exists>g a. feed (framer_new cl) (annexb_stream (concat aus)) = Some (g, map annexb_stream (butlast aus))
    \<and> af_buf g = annexb_stream (concat aus) \<and> af_au_start g = Some a
    \<and> drop a (annexb_stream (concat aus)) = annexb_stream (last aus)"
proof -
  obtain au aus' where aus': "aus = au # aus'" using aus(2) by (cases aus) auto
  let ?s = "annexb_stream (concat aus)"
  have au: "picture_ok cl au" using aus(1) aus' by simp
  obtain long u us where units: "concat aus = (long, u) # us"
    using picture_ok_nonempty [OF au] aus' by (cases au) auto
  have ok: "list_all (unit_ok \<circ> snd) (concat aus)"
    using aus(1) by (fastforce simp: list_all_iff picture_ok_def)
  obtain g where g: "feed (framer_new cl) ?s
      = Some (g, snd (cut_run ?s (0, None, False) (unit_codes cl 0 (concat aus))))"
    "in_cut_state g (fst (cut_run ?s (0, None, False) (unit_codes cl 0 (concat aus))))" "af_buf g = ?s"
    using feed_first [OF dec ok [unfolded units] refl] unfolding units by blast
  have "cut_run ?s (0, None, False) (unit_codes cl 0 au) = ((0, None, True), [])"
    using au by (intro cut_picture) (simp add: unit_codes_kinds picture_ok_def)
  moreover obtain a where a: "cut_run ?s (0, None, True) (unit_codes cl (length (annexb_stream au)) (concat aus'))
      = ((a, None, True), map annexb_stream (butlast aus))" "drop a ?s = annexb_stream (last aus)"
    using cut_pictures [of cl aus' ?s "[]" au] aus(1) by (auto simp: aus')
  ultimately have run: "cut_run ?s (0, None, False) (unit_codes cl 0 (concat aus))
      = ((a, None, True), map annexb_stream (butlast aus))"
    by (simp add: aus' unit_codes_append cut_run_append)
  have "af_au_start g = Some a" using g(2) run by (simp add: in_cut_state_def)
  with g(1,3) run a(2) show ?thesis by auto
qed

lemma picture_stream_nonempty: "picture_ok cl au \<Longrightarrow> annexb_stream au \<noteq> []"
  using picture_ok_nonempty [of cl au] by (cases au) (auto simp: start_code_def)

lemma pictures_spaced: "list_all (picture_ok cl) aus \<Longrightarrow> annexb_stream (concat aus) = x @ y \<Longrightarrow> spaced (scan_starts x 0)"
proof -
  assume aus: "list_all (picture_ok cl) aus" and x: "annexb_stream (concat aus) = x @ y"
  have ok: "list_all (unit_ok \<circ> snd) (concat aus)"
    using aus by (fastforce simp: list_all_iff picture_ok_def)
  have "scan_starts (x @ y) 0 = code_positions 0 (concat aus)"
    using scan_stream [of "concat aus" "[]"] ok x by (auto simp: list_all_iff unit_ok_def)
  then have "spaced (scan_starts (x @ y) 0)"
    using spaced_positions [of "concat aus" 0] ok by (auto simp: list_all_iff unit_ok_def)
  then show ?thesis using scan_starts_append [of x y 0] spaced_append by metis
qed

text \<open>What is pending at any point is less than two access units.\<close>

definition au_bytes :: "(bool \<times> bytes) list list \<Rightarrow> nat \<Rightarrow> nat" where
  "au_bytes aus i = (if i < length aus then length (annexb_stream (aus ! i)) else 0)"

lemma last_below:
  fixes f :: "nat \<Rightarrow> nat"
  assumes "f 0 \<le> L"
  shows "\<exists>k \<le> n. f k \<le> L \<and> (k < n \<longrightarrow> L < f (Suc k))"
proof (induction n)
  case (Suc n)
  then obtain k where k: "k \<le> n" "f k \<le> L" "k < n \<longrightarrow> L < f (Suc k)" by blast
  show ?case
  proof (cases "k < n")
    case False
    then have "k = n" using k(1) by simp
    then show ?thesis using k exI [of _ "Suc n"] exI [of _ n]
      by (cases "f (Suc n) \<le> L") (metis le_refl less_irrefl, metis le_SucI le_refl not_le)
  qed (use k in \<open>auto intro!: exI [of _ k]\<close>)
qed (use assms in simp)

lemma pictures_pending:
  assumes cl: "decides cl" "decides_early cl" and aus: "list_all (picture_ok cl) aus" "aus \<noteq> []"
    and s: "annexb_stream (concat aus) = concat xs @ y" and fed: "feed_run (framer_new cl) xs = Some (h, us)"
  shows "\<exists>i < length aus. length (af_buf h) - front h \<le> au_bytes aus i + au_bytes aus (Suc i)"
proof -
  let ?x = "concat xs" and ?new = "framer_new cl" and ?len = "\<lambda>k. length (annexb_stream (concat (take k aus)))"
  have new: "framer_inv ?new (af_scan_pos ?new)" "af_buf ?new = []" "af_scan_pos ?new = 0" "pending_starts ?new = []"
    using framer_inv_new [of cl] by (simp_all add: framer_new_def pending_starts_def)
  have buf: "af_buf h = ?x \<and> (xs \<noteq> [] \<longrightarrow> feed ?new ?x = Some (h, us))"
  proof (cases "xs = []")
    case True
    with fed new show ?thesis by (simp add: feed_run_def)
  next
    case False
    then have f: "feed ?new ?x = Some (h, us)" using feed_run_whole [OF cl(2) pictures_spaced [OF aus(1) s] False] fed by simp
    then show ?thesis using feed_inv [OF new(1) droppable_front, of ?x] new(2) by auto
  qed
  obtain k where k: "k \<le> length aus" "?len k \<le> length ?x" "k < length aus \<longrightarrow> length ?x < ?len (Suc k)"
    using last_below [of ?len "length ?x" "length aus"] by auto
  have next_len: "?len (Suc j) = ?len j + au_bytes aus j" if "j < length aus" for j
    using that by (simp add: take_Suc_conv_app_nth au_bytes_def)
  show ?thesis
  proof (cases k)
    case 0
    then show ?thesis using k(3) next_len [of 0] aus(2) buf by (intro exI [of _ 0]) auto
  next
    case (Suc i)
    let ?q = "annexb_stream (concat (take k aus))" and ?r = "drop (?len k) ?x"
    have i: "i < length aus" using k(1) Suc by simp
    have ok: "list_all (picture_ok cl) (take k aus)" "take k aus \<noteq> []" "last (take k aus) = aus ! i"
      using aus Suc i by (auto simp: list_all_iff take_Suc_conv_app_nth dest: in_set_takeD)
    have "annexb_stream (concat aus) = ?q @ annexb_stream (concat (drop k aus))"
      using annexb_stream_append [of "concat (take k aus)" "concat (drop k aus)"] by (metis append_take_drop_id concat_append)
    from arg_cong [OF this, of "take (?len k)"] have "take (?len k) ?x = ?q" using s k(2) by simp
    then have x: "?x = ?q @ ?r" using append_take_drop_id [of "?len k" ?x] by simp
    have qn: "?q \<noteq> []"
    proof -
      have "picture_ok cl (aus ! i)" using aus(1) i by (simp add: list_all_length)
      then show ?thesis using picture_stream_nonempty Suc i by (simp add: take_Suc_conv_app_nth)
    qed
    obtain g a where g: "feed ?new ?q = Some (g, map annexb_stream (butlast (take k aus)))" "af_buf g = ?q" "af_au_start g = Some a"
      "drop a ?q = annexb_stream (aus ! i)"
      using feed_pictures [OF cl(1) ok(1,2)] ok(3) by auto
    have ginv: "framer_inv g (af_scan_pos g)" using feed_inv [OF new(1) droppable_front, of ?q] g(1) by auto
    have early: "decides_early (af_classify_nal ?new)" using cl(2) by (simp add: framer_new_def)
    have "spaced (pending_starts ?new @ scan_starts (af_buf ?new @ ?q @ ?r) (af_scan_pos ?new))"
      using pictures_spaced [OF aus(1) s] new x by simp
    from feed_feed [OF early new(1) this g(1)] have "feed ?new ?x = map_option (\<lambda>(h, us'). (h, map annexb_stream (butlast (take k aus)) @ us')) (feed g ?r)"
      using x by simp
    moreover have "xs \<noteq> []" using qn x by auto
    ultimately obtain vs where r: "feed g ?r = Some (h, vs)" using buf by (cases "feed g ?r") auto
    have "front g \<le> front h" using feed_inv [OF ginv droppable_front, of ?r] r droppable_le_front by auto
    moreover have "front g = a" "length ?q - a = au_bytes aus i"
      using g(3) i by (simp_all add: front_def au_bytes_def flip: g(4))
    moreover have "a \<le> length ?q" using ginv g(2,3) front_le [OF ginv] by (simp add: front_def framer_inv_def)
    moreover have "length ?x - ?len k \<le> au_bytes aus (Suc i)"
    proof (cases "k < length aus")
      case True
      then show ?thesis using k(3) next_len [OF True] Suc by simp
    next
      case False
      then have "?len k = length (annexb_stream (concat aus))" by simp
      then show ?thesis using arg_cong [OF s, of length] by simp
    qed
    ultimately have "length ?x - front h \<le> au_bytes aus i + au_bytes aus (Suc i)"
      using k(2) by linarith
    then show ?thesis using i buf by auto
  qed
qed

lemma framer_run_pictures:
  assumes cl: "decides cl" "decides_early cl" and aus: "list_all (picture_ok cl) aus" "aus \<noteq> []"
    and cs: "concat cs = annexb_stream (concat aus)"
    and fits: "\<forall>i < length aus. \<forall>c \<in> set cs. au_bytes aus i + au_bytes aus (Suc i) + length c \<le> max_framer_buffer"
  shows "\<exists>f. framer_run (framer_new cl) cs = Some (f, map annexb_stream (butlast aus))
    \<and> snd (framer_flush f) = Some (annexb_stream (last aus))"
proof -
  let ?s = "annexb_stream (concat aus)" and ?new = "framer_new cl"
  have last_ok: "picture_ok cl (last aus)" using aus last_in_set by (auto simp: list_all_iff)
  then have "?s \<noteq> []"
    using picture_stream_nonempty [OF last_ok] aus(2) by (cases aus rule: rev_cases) auto
  then have "cs \<noteq> []" using cs by auto
  have inv: "framer_inv ?new (af_scan_pos ?new)" using framer_inv_new [of cl] by (simp add: framer_new_def)
  have "pending_fits ?new cs"
    unfolding pending_fits_def
  proof (intro allI impI)
    fix xs c ys h us assume x: "cs = xs @ c # ys" "feed_run ?new xs = Some (h, us)"
    have "?s = concat xs @ c @ concat ys" using cs x(1) by simp
    from pictures_pending [OF cl aus this x(2)] obtain i where i: "i < length aus"
      "length (af_buf h) - front h \<le> au_bytes aus i + au_bytes aus (Suc i)" by blast
    moreover have "au_bytes aus i + au_bytes aus (Suc i) + length c \<le> max_framer_buffer" using fits i(1) x(1) by auto
    ultimately show "length (af_buf h) - front h + length c \<le> max_framer_buffer" by linarith
  qed
  from framer_run_pending [OF inv this] obtain g us where g: "feed_run ?new cs = Some (g, us)"
    "framer_run ?new cs = Some (view (front g) [] g, us)" by auto
  have "spaced (scan_starts (concat cs) 0)" using pictures_spaced [OF aus(1), of "concat cs" "[]"] cs by simp
  then have whole: "feed ?new ?s = Some (g, us)" using feed_run_whole [OF cl(2) _ \<open>cs \<noteq> []\<close>] g(1) cs by simp
  obtain a where p: "us = map annexb_stream (butlast aus)" "af_buf g = ?s" "af_au_start g = Some a" "drop a ?s = annexb_stream (last aus)"
    using feed_pictures [OF cl(1) aus] whole by auto
  then have "af_buf (view (front g) [] g) = annexb_stream (last aus)" by (simp add: front_def)
  then show ?thesis using g(2) p(1) picture_stream_nonempty [OF last_ok] by (simp add: framer_flush_def)
qed

end
