(* ===== verification/Ivf_Correct.thy ===== *)
theory Ivf_Correct
  imports Framing Chunked
begin

text \<open>
  The IVF framer against its input in chunks: the chunking does not matter, and every frame of a
  well-formed stream comes out once, whole and in order.
\<close>

text \<open>A frame as the encoder writes it: little-endian size, eight timestamp bytes, payload.\<close>

definition ivf_frame :: "bytes \<times> bytes \<Rightarrow> bytes" where
  "ivf_frame x = rev (be32 (word_of_nat (length (snd x)))) @ fst x @ snd x"

definition ivf_frame_ok :: "bytes \<times> bytes \<Rightarrow> bool" where
  "ivf_frame_ok x \<longleftrightarrow> length (fst x) = 8 \<and> length (snd x) \<le> max_framer_buffer"

text \<open>No frame length beyond the ceiling is met in \<open>buf\<close>.\<close>

function ivf_sane :: "bytes \<Rightarrow> bool" where
  "ivf_sane buf =
     (if length buf < ivf_frame_header_len then True
      else if max_framer_buffer < le_size buf then False
      else if length buf < ivf_frame_header_len + le_size buf then True
      else ivf_sane (drop (ivf_frame_header_len + le_size buf) buf))"
  by pat_completeness auto
termination by (relation "measure length") (auto simp: ivf_frame_header_len_def)

declare ivf_sane.simps [simp del]

lemma le_size_append: "4 \<le> length a \<Longrightarrow> le_size (a @ b) = le_size a"
  by (simp add: le_size_def)

lemma ivf_sane_prefix: "ivf_sane (a @ b) \<Longrightarrow> ivf_sane a"
proof (induction a rule: ivf_sane.induct)
  case (1 a)
  show ?case
  proof (cases "length a < ivf_frame_header_len \<or> length a < ivf_frame_header_len + le_size a")
    case True
    moreover have "\<not> max_framer_buffer < le_size a" if "ivf_frame_header_len \<le> length a"
      using "1.prems" that le_size_append [of a b]
      by (subst (asm) ivf_sane.simps) (auto simp: ivf_frame_header_len_def split: if_splits)
    ultimately show ?thesis by (subst ivf_sane.simps) auto
  next
    case False
    then have len: "4 \<le> length a" by (simp add: ivf_frame_header_len_def)
    have "\<not> max_framer_buffer < le_size a"
      "ivf_sane (drop (ivf_frame_header_len + le_size a) a @ b)"
      using "1.prems" False by (subst (asm) ivf_sane.simps, simp add: le_size_append [OF len] split: if_splits)+
    with "1.IH" False show ?thesis by (subst ivf_sane.simps) auto
  qed
qed

lemma ivf_frames_append:
  "ivf_sane a \<Longrightarrow> ivf_frames (a @ b)
     = (let (r, us) = ivf_frames a; (r', us') = ivf_frames (r @ b) in (r', us @ us'))"
proof (induction a rule: ivf_frames.induct)
  case (1 a)
  show ?case
  proof (cases "length a < ivf_frame_header_len \<or> length a < ivf_frame_header_len + le_size a")
    case True
    moreover have "\<not> (\<not> length a < ivf_frame_header_len \<and> max_framer_buffer < le_size a)"
      using "1.prems" by (subst (asm) ivf_sane.simps) (auto split: if_splits)
    ultimately have "ivf_frames a = (a, [])" by (subst ivf_frames.simps) auto
    then show ?thesis by (simp add: case_prod_beta)
  next
    case False
    let ?n = "ivf_frame_header_len + le_size a"
    have len: "4 \<le> length a" using False by (simp add: ivf_frame_header_len_def)
    have small: "\<not> max_framer_buffer < le_size a" and sane: "ivf_sane (drop ?n a)"
      using "1.prems" False by (subst (asm) ivf_sane.simps, simp split: if_splits)+
    have a: "ivf_frames a = apsnd (Cons (slice ivf_frame_header_len ?n a)) (ivf_frames (drop ?n a))"
      using False small by (subst ivf_frames.simps) simp
    have "ivf_frames (a @ b)
        = apsnd (Cons (slice ivf_frame_header_len ?n a)) (ivf_frames (drop ?n a @ b))"
      using False small by (subst ivf_frames.simps) (simp add: le_size_append [OF len] slice_append_left)
    with "1.IH" [OF _ small _ sane] False a show ?thesis
      by (simp add: case_prod_beta Let_def apsnd_def map_prod_def)
  qed
qed

section \<open>Chunks\<close>

text \<open>What lies behind the file header.\<close>

definition ivf_content :: "ivf_framer \<Rightarrow> bytes" where
  "ivf_content f = (if iv_header_consumed f then iv_buf f else drop ivf_file_header_len (iv_buf f))"

lemma ivf_push_push:
  assumes "ivf_sane (ivf_content (f\<lparr>iv_buf := iv_buf f @ a\<rparr>))"
  shows "ivf_push f (a @ b)
    = (let (f', us) = ivf_push f a; (f'', us') = ivf_push f' b in (f'', us @ us'))"
proof (cases "\<not> iv_header_consumed f \<and> length (iv_buf f @ a) < ivf_file_header_len")
  case True
  then show ?thesis by (simp add: ivf_push_def Let_def case_prod_beta)
next
  case False
  let ?x = "if iv_header_consumed f then iv_buf f @ a else drop ivf_file_header_len (iv_buf f @ a)"
  have sane: "ivf_sane ?x" using assms by (simp add: ivf_content_def split: if_splits)
  have "(if iv_header_consumed f then iv_buf f @ a @ b else drop ivf_file_header_len (iv_buf f @ a @ b)) = ?x @ b"
    using False by auto
  then have "ivf_push f (a @ b) = (let (r, us) = ivf_frames (?x @ b) in (\<lparr>iv_buf = r, iv_header_consumed = True\<rparr>, us))"
    using False unfolding ivf_push_def Let_def by (cases "iv_header_consumed f") auto
  moreover have "ivf_push f a = (let (r, us) = ivf_frames ?x in (\<lparr>iv_buf = r, iv_header_consumed = True\<rparr>, us))"
    using False unfolding ivf_push_def Let_def by (cases "iv_header_consumed f") auto
  ultimately show ?thesis
    using ivf_frames_append [OF sane, of b] by (simp add: ivf_push_def Let_def case_prod_beta)
qed

text \<open>What is left after the complete frames is as sane as what came in.\<close>

lemma ivf_frames_sane: "ivf_sane (x @ b) \<Longrightarrow> ivf_sane (fst (ivf_frames x) @ b)"
proof (induction x rule: ivf_frames.induct)
  case (1 x)
  show ?case
  proof (cases "length x < ivf_frame_header_len \<or> length x < ivf_frame_header_len + le_size x")
    case True
    moreover have "\<not> (\<not> length x < ivf_frame_header_len \<and> max_framer_buffer < le_size x)"
      using ivf_sane_prefix [OF "1.prems"] by (subst (asm) ivf_sane.simps) (auto split: if_splits)
    ultimately have "ivf_frames x = (x, [])" by (subst ivf_frames.simps) auto
    then show ?thesis using "1.prems" by simp
  next
    case False
    let ?n = "ivf_frame_header_len + le_size x"
    have len: "4 \<le> length x" using False by (simp add: ivf_frame_header_len_def)
    have small: "\<not> max_framer_buffer < le_size x" and sane: "ivf_sane (drop ?n x @ b)"
      using "1.prems" False by (subst (asm) ivf_sane.simps, simp add: le_size_append [OF len] split: if_splits)+
    then show ?thesis
      using "1.IH" False by (subst ivf_frames.simps) simp
  qed
qed

definition ivf_accepts :: "ivf_framer \<Rightarrow> bytes \<Rightarrow> bool" where
  "ivf_accepts f x \<longleftrightarrow> ivf_sane (ivf_content (f\<lparr>iv_buf := iv_buf f @ x\<rparr>))"

definition ivf_pushed :: "ivf_framer \<Rightarrow> bytes \<Rightarrow> (ivf_framer \<times> bytes list) option" where
  "ivf_pushed f c = Some (ivf_push f c)"

lemma ivf_accepts_rest:
  assumes "ivf_accepts f (a @ b)"
  shows "ivf_accepts (fst (ivf_push f a)) b \<and> ivf_accepts f a"
proof (cases "\<not> iv_header_consumed f \<and> length (iv_buf f @ a) < ivf_file_header_len")
  case True
  have "ivf_sane []" by (simp add: ivf_sane.simps ivf_frame_header_len_def)
  moreover have "drop (ivf_file_header_len - length (iv_buf f)) a = []" using True by auto
  ultimately show ?thesis using True assms by (simp add: ivf_push_def ivf_accepts_def ivf_content_def)
next
  case False
  let ?x = "if iv_header_consumed f then iv_buf f @ a else drop ivf_file_header_len (iv_buf f @ a)"
  have "ivf_content (f\<lparr>iv_buf := iv_buf f @ a @ b\<rparr>) = ?x @ b"
    "ivf_content (f\<lparr>iv_buf := iv_buf f @ a\<rparr>) = ?x"
    using False by (auto simp: ivf_content_def)
  then have sane: "ivf_sane (?x @ b)" "ivf_accepts f a = ivf_sane ?x"
    using assms unfolding ivf_accepts_def by simp_all
  have "fst (ivf_push f a) = \<lparr>iv_buf = fst (ivf_frames ?x), iv_header_consumed = True\<rparr>"
    using False unfolding ivf_push_def Let_def by (cases "iv_header_consumed f") (auto simp: case_prod_beta)
  then show ?thesis
    using ivf_frames_sane [OF sane(1)] ivf_sane_prefix [OF sane(1)] sane(2)
    by (simp add: ivf_accepts_def ivf_content_def)
qed

interpretation ivf: chunked_framer ivf_pushed ivf_accepts
proof
  fix f a b assume acc: "ivf_accepts f (a @ b)"
  then have "ivf_sane (ivf_content (f\<lparr>iv_buf := iv_buf f @ a\<rparr>))"
    using ivf_accepts_rest by (simp add: ivf_accepts_def)
  from ivf_push_push [OF this, of b] ivf_accepts_rest [OF acc]
  show "\<exists>f' us. ivf_pushed f a = Some (f', us) \<and> ivf_accepts f' b
      \<and> ivf_pushed f (a @ b) = map_option (\<lambda>(t, vs). (t, us @ vs)) (ivf_pushed f' b)"
    by (simp add: ivf_pushed_def case_prod_beta Let_def prod_eq_iff)
qed

definition ivf_run :: "ivf_framer \<Rightarrow> bytes list \<Rightarrow> (ivf_framer \<times> bytes list) option" where
  "ivf_run = run_chunks ivf_pushed"

section \<open>Well-formed streams\<close>

lemma ivf_frame_parts:
  assumes "ivf_frame_ok x"
  shows "length (ivf_frame x) = ivf_frame_header_len + length (snd x)"
    "le_size (ivf_frame x @ rest) = length (snd x)"
    "slice ivf_frame_header_len (ivf_frame_header_len + length (snd x)) (ivf_frame x @ rest) = snd x"
proof -
  have "length (snd x) < 2 ^ 32" using assms by (simp add: ivf_frame_ok_def max_framer_buffer_def)
  then show "le_size (ivf_frame x @ rest) = length (snd x)"
    by (simp add: ivf_frame_def le_size_def unat_word_of_nat_less)
  show "length (ivf_frame x) = ivf_frame_header_len + length (snd x)"
    using assms by (simp add: ivf_frame_def ivf_frame_ok_def ivf_frame_header_len_def)
  show "slice ivf_frame_header_len (ivf_frame_header_len + length (snd x)) (ivf_frame x @ rest) = snd x"
    using assms slice_middle [of "rev (be32 (word_of_nat (length (snd x)))) @ fst x" "snd x" rest]
    by (simp add: ivf_frame_def ivf_frame_ok_def ivf_frame_header_len_def)
qed

lemma ivf_frames_stream:
  "list_all ivf_frame_ok fs \<Longrightarrow>
     ivf_frames (concat (map ivf_frame fs)) = ([], map snd fs) \<and> ivf_sane (concat (map ivf_frame fs))"
proof (induction fs)
  case Nil
  then show ?case
    by (simp add: ivf_frames.simps [of "[]"] ivf_sane.simps [of "[]"] ivf_frame_header_len_def)
next
  case (Cons x fs)
  then have ok: "ivf_frame_ok x" by simp
  note parts = ivf_frame_parts(1) [OF ok] ivf_frame_parts(2,3) [OF ok, of "concat (map ivf_frame fs)"]
  have small: "length (snd x) \<le> max_framer_buffer" using ok by (simp add: ivf_frame_ok_def)
  show ?case
    using Cons parts small by (subst ivf_frames.simps, subst ivf_sane.simps) simp
qed

lemma ivf_run_stream:
  assumes "length hdr = 32" "list_all ivf_frame_ok fs" "concat cs = hdr @ concat (map ivf_frame fs)"
  shows "ivf_run ivf_new cs = Some (\<lparr>iv_buf = [], iv_header_consumed = True\<rparr>, map snd fs)"
proof -
  note stream = ivf_frames_stream [OF assms(2)]
  have acc: "ivf_accepts ivf_new (concat cs)"
    using assms(1,3) stream
    by (simp add: ivf_accepts_def ivf_content_def ivf_new_def ivf_file_header_len_def)
  obtain c cs' where cs: "cs = c # cs'" using assms(1,3) by (cases cs) auto
  have "ivf_run ivf_new cs = Some (ivf_push ivf_new (concat cs))"
    using ivf.run_whole [of ivf_new c cs'] acc by (simp add: cs ivf_run_def ivf_pushed_def)
  also have "ivf_push ivf_new (concat cs) = (\<lparr>iv_buf = [], iv_header_consumed = True\<rparr>, map snd fs)"
    using assms(1,3) stream by (simp add: ivf_push_def ivf_new_def ivf_file_header_len_def Let_def)
  finally show ?thesis .
qed

end
