(* ===== verification/Av1_Obu.thy ===== *)
theory Av1_Obu
  imports Prelude
begin

text \<open>
  AV1 open bitstream units (crates/clipline-capture/src/av1.rs): walking a temporal unit, the
  sequence header for \<open>av1C\<close>, sample data without temporal delimiters, and keyframe detection.
\<close>

section \<open>Walking the units\<close>

definition obu_sequence_header :: u8 where "obu_sequence_header = 1"
definition obu_temporal_delimiter :: u8 where "obu_temporal_delimiter = 2"
definition obu_frame_header :: u8 where "obu_frame_header = 3"
definition obu_frame :: u8 where "obu_frame = 6"

record obu =
  ob_type :: u8
  ob_bytes :: bytes
  ob_payload :: bytes

text \<open>
  The loop of \<open>read_leb128\<close> over the eight byte positions: the value stays below \<open>2 ^ 56\<close>, so the
  shifts of the 64-bit \<open>usize\<close> lose nothing.
\<close>

primrec leb128_from :: "nat \<Rightarrow> bytes \<Rightarrow> nat \<Rightarrow> nat \<Rightarrow> (nat \<times> nat) option" where
  "leb128_from 0 data i value = None"
| "leb128_from (Suc k) data i value = do {
     byte \<leftarrow> get_at data i;
     let value = value OR push_bit (i * 7) (unat (byte AND 0x7F));
     if byte AND 0x80 = 0 then Some (value, i + 1) else leb128_from k data (i + 1) value
   }"

definition read_leb128 :: "bytes \<Rightarrow> (nat \<times> nat) option" where
  "read_leb128 data = leb128_from 8 data 0 0"

text \<open>One turn of the loop: the unit at \<open>start\<close> and the position after it.\<close>

definition obu_body :: "u8 \<Rightarrow> nat \<Rightarrow> nat" where
  "obu_body header start = (if header AND 0x04 \<noteq> 0 then start + 2 else start + 1)"

definition walk_obu :: "bytes \<Rightarrow> nat \<Rightarrow> (obu \<times> nat) option" where
  "walk_obu data start = do {
     header \<leftarrow> get_at data start;
     if header AND 0x80 \<noteq> 0 then None
     else do {
       let pos = obu_body header start;
       if header AND 0x02 = 0 then None
       else do {
         tail \<leftarrow> get_from data pos;
         (size, consumed) \<leftarrow> read_leb128 tail;
         let payload_start = pos + consumed;
         ending \<leftarrow> checked_add_usize payload_start size;
         if length data < ending then None
         else Some (\<lparr>ob_type = drop_bit 3 header AND 0x0F, ob_bytes = slice start ending data,
                     ob_payload = slice payload_start ending data\<rparr>, ending)
       }
     }
   }"

lemma leb128_consumes: "leb128_from k data i v = Some (w, n) \<Longrightarrow> i < n \<and> n \<le> length data"
  by (induction k arbitrary: i v)
    (auto simp: bind_eq_Some_conv Let_def get_at_def less_Suc_eq_le split: if_splits dest: Suc_leD Suc_lessD)

lemma walk_obu_advances:
  assumes "walk_obu data start = Some (ob, pos)"
  shows "start < pos \<and> pos \<le> length data \<and> ob_bytes ob = slice start pos data
    \<and> (\<exists>k. start < k \<and> k \<le> pos \<and> ob_payload ob = slice k pos data)"
proof -
  obtain h tail sz c where h: "get_at data start = Some h" "get_from data (obu_body h start) = Some tail"
    "read_leb128 tail = Some (sz, c)" "obu_body h start + c + sz \<le> length data"
    "pos = obu_body h start + c + sz" "ob_bytes ob = slice start pos data"
    "ob_payload ob = slice (obu_body h start + c) pos data"
    using assms unfolding walk_obu_def
    by (auto simp: bind_eq_Some_conv Let_def checked_simps not_less split: if_split_asm)
  moreover have "start < obu_body h start" by (simp add: obu_body_def)
  ultimately show ?thesis by (intro conjI exI [of _ "obu_body h start + c"]) auto
qed

function walk_obus_from :: "bytes \<Rightarrow> nat \<Rightarrow> obu list option" where
  "walk_obus_from data pos =
     (if pos < length data
      then case walk_obu data pos of None \<Rightarrow> None
        | Some (ob, pos') \<Rightarrow> map_option (Cons ob) (walk_obus_from data pos')
      else Some [])"
  by pat_completeness auto
termination
  by (relation "measure (\<lambda>(data, pos). length data - pos)") (auto dest!: walk_obu_advances)

declare walk_obus_from.simps [simp del]

definition walk_obus :: "bytes \<Rightarrow> obu list option" where
  "walk_obus data = walk_obus_from data 0"

section \<open>What is read from them\<close>

definition extract_sequence_header :: "bytes \<Rightarrow> bytes option" where
  "extract_sequence_header data = do {
     obus \<leftarrow> walk_obus data;
     map_option ob_bytes (find (\<lambda>ob. ob_type ob = obu_sequence_header) obus)
   }"

definition obus_to_av01_sample :: "bytes \<Rightarrow> bytes" where
  "obus_to_av01_sample data = (case walk_obus data of
       None \<Rightarrow> data
     | Some obus \<Rightarrow> foldl (\<lambda>out ob. if ob_type ob = obu_temporal_delimiter then out else out @ ob_bytes ob) [] obus)"

definition frame_is_keyframe :: "bytes \<Rightarrow> bool option" where
  "frame_is_keyframe data = do {
     obus \<leftarrow> walk_obus data;
     let reduced_still_picture =
       (case Option.bind (find (\<lambda>ob. ob_type ob = obu_sequence_header) obus) (\<lambda>ob. get_at (ob_payload ob) 0) of
          None \<Rightarrow> False | Some byte \<Rightarrow> byte AND 0x08 \<noteq> 0);
     frame \<leftarrow> find (\<lambda>ob. ob_type ob = obu_frame_header \<or> ob_type ob = obu_frame) obus;
     if reduced_still_picture then Some True
     else do {
       first \<leftarrow> get_at (ob_payload frame) 0;
       if first AND 0x80 \<noteq> 0 then Some False
       else Some (drop_bit 5 first AND 0x03 = 0)
     }
   }"

section \<open>The units partition the input\<close>

lemma walk_obus_from_partition:
  "walk_obus_from data pos = Some obus \<Longrightarrow> pos \<le> length data \<Longrightarrow>
     concat (map ob_bytes obus) = drop pos data \<and> (\<forall>ob \<in> set obus. ob_bytes ob \<noteq> [])"
proof (induction data pos arbitrary: obus rule: walk_obus_from.induct)
  case (1 data pos)
  show ?case
  proof (cases "pos < length data")
    case True
    then obtain ob pos' rest where step: "walk_obu data pos = Some (ob, pos')"
      "walk_obus_from data pos' = Some rest" "obus = ob # rest"
      using "1.prems"(1) by (subst (asm) walk_obus_from.simps) (auto split: option.splits)
    note adv = walk_obu_advances [OF step(1)]
    have "concat (map ob_bytes rest) = drop pos' data \<and> (\<forall>ob \<in> set rest. ob_bytes ob \<noteq> [])"
      using "1.IH" [OF True step(1) refl step(2)] adv by simp
    moreover have "slice pos pos' data @ drop pos' data = drop pos data"
      using adv by (simp add: slice_def flip: take_add) (metis add_diff_cancel_left' append_take_drop_id
          drop_drop le_add_diff_inverse less_imp_le add.commute)
    moreover have "slice pos pos' data \<noteq> []" using adv True by (auto simp: slice_def)
    ultimately show ?thesis using step(3) adv by simp
  next
    case False
    with "1.prems" show ?thesis by (subst (asm) walk_obus_from.simps) simp
  qed
qed

lemma walk_obus_partition:
  "walk_obus data = Some obus \<Longrightarrow> concat (map ob_bytes obus) = data \<and> (\<forall>ob \<in> set obus. ob_bytes ob \<noteq> [])"
  using walk_obus_from_partition [of data 0] by (simp add: walk_obus_def)

lemma foldl_kept:
  "foldl (\<lambda>out ob. if p ob then out else out @ ob_bytes ob) acc obus
     = acc @ concat (map ob_bytes (filter (\<lambda>ob. \<not> p ob) obus))"
  by (induction obus arbitrary: acc) auto

section \<open>The writer's side\<close>

text \<open>An unsigned LEB128 number, and a unit with its size field: type, extension byte, payload.\<close>

fun leb128 :: "nat \<Rightarrow> bytes" where
  "leb128 n = (if n < 128 then [word_of_nat n] else word_of_nat (n mod 128 + 128) # leb128 (n div 128))"

declare leb128.simps [simp del]

definition obu_header :: "u8 \<Rightarrow> bool \<Rightarrow> u8" where
  "obu_header ty ext = push_bit 3 ty OR (if ext then 4 else 0) OR 2"

definition obu_unit :: "u8 \<Rightarrow> u8 option \<Rightarrow> bytes \<Rightarrow> bytes" where
  "obu_unit ty ext payload =
     obu_header ty (ext \<noteq> None) # (case ext of None \<Rightarrow> [] | Some e \<Rightarrow> [e]) @ leb128 (length payload) @ payload"

lemma unat_and_0x7F: "unat (b AND 0x7F) = unat b mod 128" for b :: u8
proof -
  have "b AND 0x7F = take_bit 7 b" by (simp add: take_bit_eq_mask mask_eq_exp_minus_1)
  then show ?thesis by (simp only: unsigned_take_bit_eq) (simp add: take_bit_eq_mod)
qed
lemma and_0x80_eq_0_iff: "b AND 0x80 = 0 \<longleftrightarrow> unat b < 128" for b :: u8
proof -
  have "b AND 0x80 = 0 \<longleftrightarrow> \<not> bit b 7" using and_exp_eq_0_iff_not_bit [of b 7] by simp
  also have "\<dots> \<longleftrightarrow> \<not> bit (unat b) 7"
    by (simp only: bit_unsigned_iff) simp
  also have "\<dots> \<longleftrightarrow> even (unat b div 128)"
    by (simp add: bit_iff_odd)
  also have "\<dots> \<longleftrightarrow> unat b < 128" 
  proof -
    have "unat b div 128 < 2" using unat_u8_bound [of b] by (simp add: less_mult_imp_div_less)
    then show ?thesis by (cases "unat b div 128 = 0") (auto simp: div_eq_0_iff less_2_cases_iff)
  qed
  finally show ?thesis .
qed

lemma or_push_bit_nat: "v < 2 ^ j \<Longrightarrow> v OR push_bit j x = v + x * 2 ^ j" for v x :: nat
proof -
  assume "v < 2 ^ j"
  then have "take_bit j v = v" by (simp add: take_bit_nat_eq_self_iff)
  then have n: "bit v n \<Longrightarrow> n < j" for n by (metis bit_take_bit_iff)
  have "v AND push_bit j x = 0"
    by (rule bit_eqI) (auto simp: bit_simps dest: n)
  then show ?thesis by (simp add: disjunctive_add_eq_or [symmetric] push_bit_eq_mult)
qed

lemma leb128_step:
  assumes "v < 2 ^ (i * 7)" "b < 128"
  shows "v OR push_bit (i * 7) (unat ((word_of_nat b :: u8) AND 0x7F)) = v + b * 2 ^ (i * 7)"
    and "v OR push_bit (i * 7) (unat ((word_of_nat (b + 128) :: u8) AND 0x7F)) = v + b * 2 ^ (i * 7)"
  using assms unat_u8_of_nat [of "b + 128"]
  by (simp_all add: or_push_bit_nat unat_and_0x7F unat_u8_of_nat del: of_nat_add)

lemma leb128_from_leb128:
  assumes "n < 128 ^ k" "v < 2 ^ (length pre * 7)" "0 < k"
  shows "leb128_from k (pre @ leb128 n @ rest) (length pre) v
    = Some (v + n * 2 ^ (length pre * 7), length pre + length (leb128 n))"
  using assms
proof (induction k arbitrary: n v pre)
  case (Suc k)
  show ?case
  proof (cases "n < 128")
    case True
    then show ?thesis
      using leb128_step(1) [OF Suc.prems(2) True]
      by (subst leb128.simps, subst leb128.simps)
        (simp add: get_at_def nth_append Let_def and_0x80_eq_0_iff unat_u8_of_nat)
  next
    case False
    define b w where "b = n mod 128" and w: "w = (word_of_nat (b + 128) :: u8)"
    have "b < 128" by (simp add: b_def)
    have leb: "leb128 n = w # leb128 (n div 128)"
      using False by (subst leb128.simps) (simp add: b_def w)
    have uw: "\<not> w AND 0x80 = 0"
      using \<open>b < 128\<close> unat_u8_of_nat [of "b + 128"] by (simp add: w and_0x80_eq_0_iff del: of_nat_add)
    have step: "v OR push_bit (length pre * 7) (unat (w AND 0x7F)) = v + b * 2 ^ (length pre * 7)"
      unfolding w by (rule leb128_step(2) [OF Suc.prems(2) \<open>b < 128\<close>])
    have pw: "2 ^ (length (pre @ [w]) * 7) = 128 * (2 ^ (length pre * 7) :: nat)"
      by (simp add: power_add)
    have "v + b * 2 ^ (length pre * 7) < 2 ^ (length pre * 7) + 127 * 2 ^ (length pre * 7)"
      using Suc.prems(2) \<open>b < 128\<close> by (intro add_less_le_mono mult_right_mono) auto
    then have less: "v + b * 2 ^ (length pre * 7) < 2 ^ (length (pre @ [w]) * 7)"
      unfolding pw by simp
    have "n div 128 < 128 ^ k" using Suc.prems(1) by (simp add: less_mult_imp_div_less)
    moreover have "0 < k" using Suc.prems(1) False by (cases k) auto
    ultimately have IH: "leb128_from k (pre @ w # leb128 (n div 128) @ rest) (length pre + 1) (v + b * 2 ^ (length pre * 7))
        = Some (v + b * 2 ^ (length pre * 7) + n div 128 * (128 * 2 ^ (length pre * 7)),
            length pre + 1 + length (leb128 (n div 128)))"
      using Suc.IH [OF _ less] unfolding pw by simp
    have "b * X + n div 128 * (128 * X) = n * X" for X
      using distrib_right [of b "128 * (n div 128)" X]
      by (simp only: b_def mod_mult_div_eq mult.assoc mult.left_commute)
    then have sum: "v + b * X + n div 128 * (128 * X) = v + n * X" for X
      by (simp add: add.assoc)
    show ?thesis
      using uw step IH unfolding leb
      by (simp add: get_at_def nth_append Let_def sum)
  qed
qed simp

lemma read_leb128_leb128:
  "n < 2 ^ 56 \<Longrightarrow> read_leb128 (leb128 n @ rest) = Some (n, length (leb128 n))"
  using leb128_from_leb128 [of n 8 0 "[]" rest] by (simp add: read_leb128_def)

text \<open>The header byte keeps the type and the flags apart.\<close>

lemma obu_header_fields:
  assumes "unat ty < 16"
  shows "obu_header ty ext AND 0x80 = 0" "obu_header ty ext AND 0x02 \<noteq> 0"
    "obu_header ty ext AND 0x04 \<noteq> 0 \<longleftrightarrow> ext" "drop_bit 3 (obu_header ty ext) AND 0x0F = ty"
proof -
  have "list_all (\<lambda>n. list_all (\<lambda>e. let h = obu_header (word_of_nat n) e in h AND 0x80 = 0 \<and> h AND 0x02 \<noteq> 0
      \<and> (h AND 0x04 \<noteq> 0 \<longleftrightarrow> e) \<and> drop_bit 3 h AND 0x0F = word_of_nat n) [False, True]) [0..<16]"
    by code_simp
  then have "let h = obu_header (word_of_nat n) e in h AND 0x80 = 0 \<and> h AND 0x02 \<noteq> 0
      \<and> (h AND 0x04 \<noteq> 0 \<longleftrightarrow> e) \<and> drop_bit 3 h AND 0x0F = word_of_nat n" if "n < 16" for n e
    using that unfolding list_all_iff by (cases e) force+
  from this [OF assms, of ext] show "obu_header ty ext AND 0x80 = 0" "obu_header ty ext AND 0x02 \<noteq> 0"
    "obu_header ty ext AND 0x04 \<noteq> 0 \<longleftrightarrow> ext" "drop_bit 3 (obu_header ty ext) AND 0x0F = ty"
    by (simp_all add: Let_def)
qed

definition unit_of :: "u8 \<times> u8 option \<times> bytes \<Rightarrow> bytes" where
  "unit_of x = (case x of (ty, ext, payload) \<Rightarrow> obu_unit ty ext payload)"

definition obu_of :: "u8 \<times> u8 option \<times> bytes \<Rightarrow> obu" where
  "obu_of x = (case x of (ty, ext, payload) \<Rightarrow>
     \<lparr>ob_type = ty, ob_bytes = obu_unit ty ext payload, ob_payload = payload\<rparr>)"

definition obu_fits :: "u8 \<times> u8 option \<times> bytes \<Rightarrow> bool" where
  "obu_fits x = (case x of (ty, ext, payload) \<Rightarrow> unat ty < 16 \<and> length payload < 2 ^ 56)"

lemma walk_obu_unit:
  assumes fits: "obu_fits x" and small: "length (pre @ unit_of x @ rest) \<le> usize_max"
  shows "walk_obu (pre @ unit_of x @ rest) (length pre) = Some (obu_of x, length pre + length (unit_of x))"
proof -
  obtain ty ext payload where x: "x = (ty, ext, payload)" by (cases x)
  define h e l data where "h = obu_header ty (ext \<noteq> None)" "e = (case ext of None \<Rightarrow> [] | Some e \<Rightarrow> [e])"
    "l = leb128 (length payload)" "data = pre @ unit_of x @ rest"
  have u: "unit_of x = h # e @ l @ payload"
    by (simp add: x unit_of_def obu_unit_def h_e_l_data_def)
  have ty: "unat ty < 16" "length payload < 2 ^ 56" using fits by (simp_all add: x obu_fits_def)
  have flags: "h AND 0x80 = 0" "h AND 0x02 \<noteq> 0" "drop_bit 3 h AND 0x0F = ty"
    using obu_header_fields [OF ty(1), of "ext \<noteq> None"] by (simp_all add: h_e_l_data_def)
  have body: "obu_body h (length pre) = length (pre @ h # e)"
    using obu_header_fields(3) [OF ty(1), of "ext \<noteq> None"] by (cases ext) (simp_all add: obu_body_def h_e_l_data_def(1,2))
  have tail: "get_from data (length (pre @ h # e)) = Some (l @ payload @ rest)"
    using u by (simp add: h_e_l_data_def(4) get_from_def)
  have at: "get_at data (length pre) = Some h"
    using u by (simp add: h_e_l_data_def(4) get_at_def nth_append)
  have leb: "read_leb128 (l @ payload @ rest) = Some (length payload, length l)"
    unfolding h_e_l_data_def(3) by (rule read_leb128_leb128 [OF ty(2)])
  have lens: "length (pre @ h # e) + length l + length payload = length pre + length (unit_of x)"
    by (simp add: u)
  have all: "slice (length pre) (length pre + length (unit_of x)) data = unit_of x"
    unfolding h_e_l_data_def(4) by (rule slice_middle)
  have pay: "slice (length (pre @ h # e) + length l) (length pre + length (unit_of x)) data = payload"
    using slice_middle [of "pre @ h # e @ l" payload rest] u by (simp add: h_e_l_data_def(4) ac_simps)
  have fit: "checked_add_usize (length (pre @ h # e) + length l) (length payload)
      = Some (length pre + length (unit_of x))" "\<not> length data < length pre + length (unit_of x)"
    using small lens by (simp_all add: checked_add_usize_def h_e_l_data_def(4))
  have "walk_obu data (length pre) = Some (obu_of x, length pre + length (unit_of x))"
    unfolding walk_obu_def by (simp only: at body tail leb fit flags all pay Let_def bind.bind_lunit simp_thms
        if_False if_True prod.case) (simp add: obu_of_def x unit_of_def)
  then show ?thesis by (simp add: h_e_l_data_def(4))
qed

lemma unit_of_nonempty: "unit_of x \<noteq> []"
  by (cases x) (simp add: unit_of_def obu_unit_def)

lemma walk_obus_from_units:
  "list_all obu_fits xs \<Longrightarrow> length (pre @ concat (map unit_of xs)) \<le> usize_max \<Longrightarrow>
     walk_obus_from (pre @ concat (map unit_of xs)) (length pre) = Some (map obu_of xs)"
proof (induction xs arbitrary: pre)
  case Nil
  then show ?case by (simp add: walk_obus_from.simps)
next
  case (Cons x xs)
  let ?rest = "concat (map unit_of xs)"
  have "walk_obus_from (pre @ unit_of x @ ?rest) (length pre + length (unit_of x)) = Some (map obu_of xs)"
    using Cons.IH [of "pre @ unit_of x"] Cons.prems by simp
  moreover have "walk_obu (pre @ unit_of x @ ?rest) (length pre) = Some (obu_of x, length pre + length (unit_of x))"
    using Cons.prems by (intro walk_obu_unit) auto
  ultimately show ?case
    using unit_of_nonempty [of x] by (subst walk_obus_from.simps) simp
qed

lemma walk_obus_units:
  "list_all obu_fits xs \<Longrightarrow> length (concat (map unit_of xs)) \<le> usize_max \<Longrightarrow>
     walk_obus (concat (map unit_of xs)) = Some (map obu_of xs)"
  using walk_obus_from_units [of xs "[]"] by (simp add: walk_obus_def)

lemma obu_of_simps [simp]:
  "ob_type (obu_of x) = fst x" "ob_bytes (obu_of x) = unit_of x" "ob_payload (obu_of x) = snd (snd x)"
  by (cases x, simp add: obu_of_def unit_of_def)+

lemma sample_of_units:
  assumes "list_all obu_fits xs" "length (concat (map unit_of xs)) \<le> usize_max"
  shows "obus_to_av01_sample (concat (map unit_of xs)) = concat (map unit_of (filter (\<lambda>x. fst x \<noteq> 2) xs))"
  by (simp add: obus_to_av01_sample_def walk_obus_units [OF assms] foldl_kept obu_temporal_delimiter_def
      filter_map comp_def)

end
