(* ===== verification/Avsync.thy ===== *)
theory Avsync
  imports Segment "HOL-Library.Signed_Division"
begin

text \<open>
  Clocks and timeline validation (crates/clipline-capture/src/clock.rs and avsync.rs): capture ticks
  as seconds since the capture start, and the check of sealed segments against tolerances.
\<close>

section \<open>The relative clock\<close>

text \<open>Ticks are \<open>i64\<close>; the subtraction wraps around.\<close>

record relative_clock =
  rc_origin_ticks_100ns :: i64

definition clock_new :: "i64 \<Rightarrow> relative_clock" where
  "clock_new origin = \<lparr>rc_origin_ticks_100ns = origin\<rparr>"

definition clock_pts_s :: "relative_clock \<Rightarrow> i64 \<Rightarrow> f64" where
  "clock_pts_s c ticks =
     fdiv (f64_of_int (max (sint (ticks - rc_origin_ticks_100ns c)) 0)) (Fin 10000000)"

text \<open>Division by a zero frequency panics; the product fits the 128 bits it is computed in.\<close>

definition qpc_to_ticks_100ns :: "i64 \<Rightarrow> i64 \<Rightarrow> i64 option" where
  "qpc_to_ticks_100ns counter frequency =
     (if frequency = 0 then None
      else Some (word_of_int (sint counter * 10000000 sdiv sint frequency)))"

section \<open>Validation\<close>

record sync_tolerances =
  tl_max_video_gap_s :: f64
  tl_max_audio_segment_skew_s :: f64
  tl_max_total_drift_s :: f64

definition sync_tolerances_default :: sync_tolerances where
  "sync_tolerances_default = \<lparr>tl_max_video_gap_s = f64_of_rat (5 / 1000),
     tl_max_audio_segment_skew_s = f64_of_rat (45 / 1000), tl_max_total_drift_s = f64_of_rat (45 / 1000)\<rparr>"

record sync_report =
  sr_segments :: nat
  sr_video_duration_s :: f64
  sr_audio_duration_s :: "f64 list"
  sr_max_video_gap_s :: f64
  sr_max_audio_segment_skew_s :: f64
  sr_total_drift_s :: "f64 list"

datatype sync_violation =
    NotKeyframeLed nat
  | VideoGap nat f64
  | AudioSegmentSkew nat nat f64
  | TotalDrift nat f64

definition covered_s :: "track_samples \<Rightarrow> f64" where
  "covered_s track = fsum (map si_duration_s (ts_samples track))"

definition skew_violates :: "sync_tolerances \<Rightarrow> bool \<Rightarrow> f64 \<Rightarrow> bool" where
  "skew_violates tol final skew =
     (if final then flt (tl_max_audio_segment_skew_s tol) skew
      else flt (tl_max_audio_segment_skew_s tol) (fabs skew))"

text \<open>The inner loop over a segment's audio tracks; a track the report has no slot for panics.\<close>

fun check_audio :: "sync_tolerances \<Rightarrow> nat \<Rightarrow> bool \<Rightarrow> f64 \<Rightarrow> nat \<Rightarrow> track_samples list \<Rightarrow> sync_report
    \<Rightarrow> (sync_violation, sync_report) outcome" where
  "check_audio tol i final dur t [] report = Inr report"
| "check_audio tol i final dur t (track # tracks) report =
     (if length (sr_audio_duration_s report) \<le> t then Inl Panic
      else let covered = covered_s track;
               report = report\<lparr>sr_audio_duration_s := (sr_audio_duration_s report)
                 [t := fadd (sr_audio_duration_s report ! t) covered]\<rparr>;
               skew = fsub covered dur
           in if skew_violates tol final skew then Inl (Err (AudioSegmentSkew i t skew))
              else check_audio tol i final dur (t + 1) tracks
                (if final then report
                 else report\<lparr>sr_max_audio_segment_skew_s := fmax (sr_max_audio_segment_skew_s report) (fabs skew)\<rparr>))"

text \<open>The gap check of one segment against the end of the previous one.\<close>

definition check_gap :: "sync_tolerances \<Rightarrow> nat \<Rightarrow> f64 option \<Rightarrow> segment \<Rightarrow> sync_report
    \<Rightarrow> (sync_violation, sync_report) outcome" where
  "check_gap tol i prev_end seg report = (case prev_end of None \<Rightarrow> Inr report
     | Some ending \<Rightarrow>
         let gap = fabs (fsub (sg_pts_start_s seg) ending);
             report = report\<lparr>sr_max_video_gap_s := fmax (sr_max_video_gap_s report) gap\<rparr>
         in if flt (tl_max_video_gap_s tol) gap
            then Inl (Err (VideoGap i (fsub (sg_pts_start_s seg) ending))) else Inr report)"

fun check_segments :: "sync_tolerances \<Rightarrow> nat \<Rightarrow> f64 option \<Rightarrow> segment list \<Rightarrow> sync_report
    \<Rightarrow> (sync_violation, sync_report) outcome" where
  "check_segments tol i prev_end [] report = Inr report"
| "check_segments tol i prev_end (seg # segs) report =
     (if \<not> sg_starts_with_keyframe seg then Inl (Err (NotKeyframeLed i))
      else bind_out (check_gap tol i prev_end seg report) (\<lambda>report.
           bind_out (check_audio tol i (segs = []) (sg_duration_s seg) 0 (sg_audio seg)
               (report\<lparr>sr_video_duration_s := fadd (sr_video_duration_s report) (sg_duration_s seg)\<rparr>)) (\<lambda>report.
             check_segments tol (i + 1) (Some (segment_pts_end_s seg)) segs report)))"

fun check_drift :: "sync_tolerances \<Rightarrow> nat list \<Rightarrow> sync_report \<Rightarrow> (sync_violation, sync_report) outcome" where
  "check_drift tol [] report = Inr report"
| "check_drift tol (t # ts) report =
     (let drift = fsub (sr_audio_duration_s report ! t) (sr_video_duration_s report);
          report = report\<lparr>sr_total_drift_s := (sr_total_drift_s report)[t := drift]\<rparr>
      in if flt (tl_max_total_drift_s tol) (fabs drift) then Inl (Err (TotalDrift t drift))
         else check_drift tol ts report)"

definition validate_timeline ::
  "segment list \<Rightarrow> sync_tolerances \<Rightarrow> (sync_violation, sync_report) outcome" where
  "validate_timeline segments tol =
     (let tracks = (case segments of [] \<Rightarrow> 0 | s # _ \<Rightarrow> length (sg_audio s));
          report = \<lparr>sr_segments = length segments, sr_video_duration_s = Fin 0,
            sr_audio_duration_s = replicate tracks (Fin 0), sr_max_video_gap_s = Fin 0,
            sr_max_audio_segment_skew_s = Fin 0, sr_total_drift_s = replicate tracks (Fin 0)\<rparr>
      in bind_out (check_segments tol 0 None segments report) (check_drift tol [0..<tracks]))"

section \<open>What a report vouches for\<close>

definition gap_s :: "segment list \<Rightarrow> nat \<Rightarrow> f64" where
  "gap_s segs i = fsub (sg_pts_start_s (segs ! Suc i)) (segment_pts_end_s (segs ! i))"

definition skew_s :: "segment \<Rightarrow> nat \<Rightarrow> f64" where
  "skew_s seg t = fsub (covered_s (sg_audio seg ! t)) (sg_duration_s seg)"

text \<open>A segment that passes: led by a keyframe, close to the previous end, its audio in step.\<close>

definition segment_healthy :: "sync_tolerances \<Rightarrow> bool \<Rightarrow> f64 option \<Rightarrow> segment \<Rightarrow> bool" where
  "segment_healthy tol final prev_end seg \<longleftrightarrow> sg_starts_with_keyframe seg
     \<and> (\<forall>ending. prev_end = Some ending \<longrightarrow> \<not> flt (tl_max_video_gap_s tol) (fabs (fsub (sg_pts_start_s seg) ending)))
     \<and> (\<forall>t < length (sg_audio seg). \<not> skew_violates tol final (skew_s seg t))"

fun healthy_from :: "sync_tolerances \<Rightarrow> f64 option \<Rightarrow> segment list \<Rightarrow> bool" where
  "healthy_from tol prev_end [] \<longleftrightarrow> True"
| "healthy_from tol prev_end (seg # segs) \<longleftrightarrow>
     segment_healthy tol (segs = []) prev_end seg \<and> healthy_from tol (Some (segment_pts_end_s seg)) segs"

text \<open>Audio added up per track, as the loop adds it.\<close>

fun add_audio :: "f64 list \<Rightarrow> nat \<Rightarrow> track_samples list \<Rightarrow> f64 list" where
  "add_audio acc t [] = acc"
| "add_audio acc t (track # tracks) = add_audio (acc[t := fadd (acc ! t) (covered_s track)]) (t + 1) tracks"

definition audio_totals :: "nat \<Rightarrow> segment list \<Rightarrow> f64 list" where
  "audio_totals n segs = foldl (\<lambda>acc seg. add_audio acc 0 (sg_audio seg)) (replicate n (Fin 0)) segs"

definition video_total :: "segment list \<Rightarrow> f64" where
  "video_total segs = foldl (\<lambda>acc seg. fadd acc (sg_duration_s seg)) (Fin 0) segs"

lemma check_audio_ok:
  "check_audio tol i final dur t tracks report = Inr r \<Longrightarrow>
     sr_audio_duration_s r = add_audio (sr_audio_duration_s report) t tracks
     \<and> sr_video_duration_s r = sr_video_duration_s report \<and> sr_segments r = sr_segments report
     \<and> sr_total_drift_s r = sr_total_drift_s report
     \<and> (\<forall>k < length tracks. \<not> skew_violates tol final (fsub (covered_s (tracks ! k)) dur))"
  by (induction tol i final dur t tracks report rule: check_audio.induct)
    (auto simp: Let_def nth_Cons split: if_splits nat.splits)

lemma length_add_audio [simp]: "length (add_audio acc t tracks) = length acc"
  by (induction acc t tracks rule: add_audio.induct) auto

lemma check_gap_ok:
  "check_gap tol i prev_end seg report = Inr r \<Longrightarrow>
     sr_audio_duration_s r = sr_audio_duration_s report \<and> sr_video_duration_s r = sr_video_duration_s report
     \<and> sr_segments r = sr_segments report \<and> sr_total_drift_s r = sr_total_drift_s report
     \<and> (\<forall>ending. prev_end = Some ending \<longrightarrow> \<not> flt (tl_max_video_gap_s tol) (fabs (fsub (sg_pts_start_s seg) ending)))"
  by (auto simp: check_gap_def Let_def split: option.splits if_splits)

lemma check_segments_ok:
  "check_segments tol i prev_end segs report = Inr r \<Longrightarrow>
     healthy_from tol prev_end segs
     \<and> sr_audio_duration_s r = foldl (\<lambda>acc seg. add_audio acc 0 (sg_audio seg)) (sr_audio_duration_s report) segs
     \<and> sr_video_duration_s r = foldl (\<lambda>acc seg. fadd acc (sg_duration_s seg)) (sr_video_duration_s report) segs
     \<and> sr_segments r = sr_segments report \<and> sr_total_drift_s r = sr_total_drift_s report"
proof (induction tol i prev_end segs report rule: check_segments.induct)
  case (2 tol i prev_end seg segs report)
  from "2.prems" obtain r1 r2 where kf: "sg_starts_with_keyframe seg"
    and gap: "check_gap tol i prev_end seg report = Inr r1"
    and audio: "check_audio tol i (segs = []) (sg_duration_s seg) 0 (sg_audio seg)
      (r1\<lparr>sr_video_duration_s := fadd (sr_video_duration_s r1) (sg_duration_s seg)\<rparr>) = Inr r2"
    and rest: "check_segments tol (i + 1) (Some (segment_pts_end_s seg)) segs r2 = Inr r"
    by (auto simp: bind_out_Inr_iff split: if_splits)
  show ?case
    using "2.IH" [OF _ rest] kf check_gap_ok [OF gap] check_audio_ok [OF audio]
    by (simp add: segment_healthy_def skew_s_def)
qed simp

lemma check_drift_ok:
  "\<lbrakk>check_drift tol ts report = Inr r; distinct ts\<rbrakk> \<Longrightarrow>
     sr_audio_duration_s r = sr_audio_duration_s report \<and> sr_video_duration_s r = sr_video_duration_s report
     \<and> sr_segments r = sr_segments report
     \<and> (\<forall>t \<in> set ts. \<not> flt (tl_max_total_drift_s tol)
           (fabs (fsub (sr_audio_duration_s report ! t) (sr_video_duration_s report))))"
  by (induction tol ts report rule: check_drift.induct) (auto simp: Let_def split: if_splits)

lemma healthy_from_nth:
  "healthy_from tol prev_end segs \<Longrightarrow>
     (\<forall>i < length segs. sg_starts_with_keyframe (segs ! i)
        \<and> (\<forall>t < length (sg_audio (segs ! i)). \<not> skew_violates tol (Suc i = length segs) (skew_s (segs ! i) t)))
     \<and> (\<forall>i. Suc i < length segs \<longrightarrow> \<not> flt (tl_max_video_gap_s tol) (fabs (gap_s segs i)))"
proof (induction tol prev_end segs rule: healthy_from.induct)
  case (2 tol prev_end seg segs)
  then have IH: "(\<forall>i < length segs. sg_starts_with_keyframe (segs ! i)
        \<and> (\<forall>t < length (sg_audio (segs ! i)). \<not> skew_violates tol (Suc i = length segs) (skew_s (segs ! i) t)))
     \<and> (\<forall>i. Suc i < length segs \<longrightarrow> \<not> flt (tl_max_video_gap_s tol) (fabs (gap_s segs i)))"
    and seg: "segment_healthy tol (segs = []) prev_end seg"
    and first: "segs \<noteq> [] \<Longrightarrow> \<not> flt (tl_max_video_gap_s tol)
      (fabs (fsub (sg_pts_start_s (hd segs)) (segment_pts_end_s seg)))"
    by (auto simp: segment_healthy_def neq_Nil_conv)
  show ?case
  proof (intro conjI allI impI)
    fix i assume "i < length (seg # segs)"
    then show "sg_starts_with_keyframe ((seg # segs) ! i)"
      using IH seg by (cases i) (auto simp: segment_healthy_def)
  next
    fix i t assume "i < length (seg # segs)" "t < length (sg_audio ((seg # segs) ! i))"
    then show "\<not> skew_violates tol (Suc i = length (seg # segs)) (skew_s ((seg # segs) ! i) t)"
      using IH seg by (cases i) (auto simp: segment_healthy_def)
  next
    fix i assume "Suc i < length (seg # segs)"
    then show "\<not> flt (tl_max_video_gap_s tol) (fabs (gap_s (seg # segs) i))"
      using IH first by (cases i) (auto simp: gap_s_def hd_conv_nth)
  qed
qed simp

section \<open>Clock facts\<close>

lemma sint_no_wrap:
  assumes "- (2 ^ 63) \<le> sint a - sint b" "sint a - sint b < 2 ^ 63"
  shows "sint (a - b :: i64) = sint a - sint b"
proof -
  have "a - b = word_of_int (sint a - sint b)" by simp
  then have "sint (a - b) = signed_take_bit 63 (sint a - sint b)"
    by (simp only: signed_of_int) simp
  then show ?thesis using assms by (simp add: signed_take_bit_int_eq_self)
qed

lemma clock_pts_rounds:
  assumes "- (2 ^ 63) \<le> sint t - sint (rc_origin_ticks_100ns c)" "sint t - sint (rc_origin_ticks_100ns c) < 2 ^ 53"
  shows "clock_pts_s c t = f64_of_rat (of_int (max (sint t - sint (rc_origin_ticks_100ns c)) 0) / 10000000)"
proof -
  let ?n = "max (sint t - sint (rc_origin_ticks_100ns c)) 0"
  have "sint (t - rc_origin_ticks_100ns c) = sint t - sint (rc_origin_ticks_100ns c)"
    using assms by (intro sint_no_wrap) auto
  moreover have "f64_of_int ?n = Fin (of_int ?n)"
    unfolding f64_of_int_def using assms(2) by (intro f64_of_rat_exact) auto
  ultimately show ?thesis
    by (auto simp: clock_pts_s_def fdiv_def sign_bit_def is_finite_def signed_zero_def)
qed

lemma qpc_ticks_exact:
  assumes "0 \<le> sint counter" "0 < sint frequency" "sint counter * 10000000 div sint frequency < 2 ^ 63"
  shows "\<exists>w. qpc_to_ticks_100ns counter frequency = Some w
    \<and> sint w = sint counter * 10000000 div sint frequency"
proof -
  let ?q = "sint counter * 10000000 div sint frequency"
  have "frequency \<noteq> 0" using assms(2) by auto
  moreover have "sint counter * 10000000 sdiv sint frequency = ?q"
    using assms(1,2) by (cases "sint counter = 0") (simp_all add: signed_divide_int_def sgn_mult)
  moreover have "0 \<le> ?q" using assms(1,2) by (simp add: pos_imp_zdiv_nonneg_iff)
  then have "sint (word_of_int ?q :: i64) = ?q"
    using assms(3) by (simp add: signed_of_int signed_take_bit_int_eq_self)
  ultimately show ?thesis by (simp add: qpc_to_ticks_100ns_def)
qed

end
