(* ===== verification/Capture_Properties.thy ===== *)
theory Capture_Properties
  imports Framer_Pictures Ivf_Correct Av1_Obu Avsync
begin

text \<open>
  The properties of the capture crate's platform-neutral core (crates/clipline-capture): stream
  framing, bitstream conversion, clocks and the timeline check.
\<close>

section \<open>Framing\<close>

text \<open>A stream of two pictures, the second behind a parameter set, all H.264.\<close>

definition sample_pictures :: "(bool \<times> bytes) list list" where
  "sample_pictures =
     [[(True, [9, 0xF0, 1]), (True, [0x65, 0x88, 1]), (False, [0x65, 0x08, 2])],
      [(True, [0x67, 1, 2]), (False, [0x41, 0x9A, 3])]]"

lemma sample_pictures_ok: "list_all (picture_ok classify_h264_nal) sample_pictures"
  by code_simp

text \<open>
  C29: whatever the chunks in which a well-formed H.264 or HEVC stream arrives, and however long it is,
  the framer hands out exactly its access units, the last one on \<open>flush\<close> - as long as two successive
  access units together with one chunk are within the ceiling of 32 MiB, which bounds only the bytes that
  are pending when a chunk arrives.
\<close>

theorem framer_recovers_pictures:
  assumes "classify = classify_h264_nal \<or> classify = classify_hevc_nal"
    and "list_all (picture_ok classify) aus" "aus \<noteq> []"
    and "concat chunks = annexb_stream (concat aus)"
    and "\<forall>i < length aus. \<forall>c \<in> set chunks. length (annexb_stream (aus ! i))
      + (if Suc i < length aus then length (annexb_stream (aus ! Suc i)) else 0) + length c \<le> 32 * 1024 * 1024"
  shows "\<exists>f. framer_run (framer_new classify) chunks = Some (f, map annexb_stream (butlast aus))
    \<and> snd (framer_flush f) = Some (annexb_stream (last aus))"
proof -
  have "\<forall>i < length aus. \<forall>c \<in> set chunks. au_bytes aus i + au_bytes aus (Suc i) + length c \<le> max_framer_buffer"
    using assms(5) by (simp add: au_bytes_def max_framer_buffer_def)
  then show ?thesis
    using assms(1-4) decides_h264 decides_hevc decides_early_h264 decides_early_hevc
    by (intro framer_run_pictures) auto
qed

theorem framer_recovers_pictures_witness:
  "\<exists>f. framer_run framer_h264 [[0, 0, 0, 1, 9], [0xF0, 1, 0, 0, 0, 1, 0x65, 0x88, 1, 0], [],
       [0, 1, 0x65, 0x08, 2, 0, 0, 0, 1, 0x67, 1, 2, 0], [0, 1, 0x41, 0x9A, 3]]
     = Some (f, [[0, 0, 0, 1, 9, 0xF0, 1, 0, 0, 0, 1, 0x65, 0x88, 1, 0, 0, 1, 0x65, 0x08, 2]])
     \<and> snd (framer_flush f) = Some [0, 0, 0, 1, 0x67, 1, 2, 0, 0, 1, 0x41, 0x9A, 3]"
  using framer_recovers_pictures [OF disjI1 [OF refl] sample_pictures_ok,
      of "[[0, 0, 0, 1, 9], [0xF0, 1, 0, 0, 0, 1, 0x65, 0x88, 1, 0], [],
       [0, 1, 0x65, 0x08, 2, 0, 0, 0, 1, 0x67, 1, 2, 0], [0, 1, 0x41, 0x9A, 3]]"]
  by (simp add: sample_pictures_def start_code_def max_framer_buffer_def framer_h264_def)

text \<open>
  For any input at all up to the buffer ceiling, in any chunks, the framer never panics and never
  loses a byte: the units handed out and the buffer left are the input from its first start code on.
\<close>

theorem framer_loses_nothing:
  assumes "length (concat chunks) \<le> max_framer_buffer"
  shows "\<exists>f units. framer_run (framer_new classify) chunks = Some (f, units)
    \<and> concat units @ af_buf f = drop (lead (concat chunks)) (concat chunks)"
  using assms by (rule framer_run_lossless)

theorem framer_loses_nothing_witness:
  "\<exists>f units. framer_run framer_hevc [[7, 0, 0], [1, 0x40, 0], [0, 0, 1]] = Some (f, units)
     \<and> concat units @ af_buf f = [0, 0, 1, 0x40, 0, 0, 0, 1]"
proof -
  have "lead [7, 0, 0, 1, 0x40, 0, 0, 0, 1] = 1"
    by (simp add: lead_def scan_starts.simps start_code_at_def code_start_of_def)
  then show ?thesis
    using framer_loses_nothing [of "[[7, 0, 0], [1, 0x40, 0], [0, 0, 1]]" classify_hevc_nal]
    by (simp add: max_framer_buffer_def framer_hevc_def)
qed

text \<open>
  C36: the IVF framer hands out the payload of every frame once, whole and in order, whatever the
  chunks, and keeps nothing back.
\<close>

theorem ivf_recovers_frames:
  assumes "length header = 32" "list_all ivf_frame_ok frames"
    and "concat chunks = header @ concat (map ivf_frame frames)"
  shows "ivf_run ivf_new chunks = Some (\<lparr>iv_buf = [], iv_header_consumed = True\<rparr>, map snd frames)"
  using assms by (rule ivf_run_stream)

theorem ivf_recovers_frames_witness:
  "ivf_run ivf_new [replicate 20 7, replicate 12 7 @ [2, 0, 0], [0, 1, 1, 1, 1, 1, 1, 1], [1, 8], [9]]
     = Some (\<lparr>iv_buf = [], iv_header_consumed = True\<rparr>, [[8, 9]])"
proof -
  have frame: "ivf_frame (replicate 8 1, [8, 9]) = [2, 0, 0, 0, 1, 1, 1, 1, 1, 1, 1, 1, 8, 9]"
    by code_simp
  have "list_all ivf_frame_ok [(replicate 8 1, [8, 9])]"
    by (simp add: ivf_frame_ok_def max_framer_buffer_def)
  moreover have "concat [replicate 20 7, replicate 12 7 @ [2, 0, 0], [0, 1, 1, 1, 1, 1, 1, 1], [1, 8], [9]]
      = replicate 32 7 @ concat (map ivf_frame [(replicate 8 1, [8, 9])])"
    by (simp add: frame flip: replicate_add append_assoc)
  ultimately show ?thesis
    using ivf_recovers_frames [of "replicate 32 7" "[(replicate 8 1, [8, 9])]"
        "[replicate 20 7, replicate 12 7 @ [2, 0, 0], [0, 1, 1, 1, 1, 1, 1, 1], [1, 8], [9]]"] by simp
qed

section \<open>Bitstream conversion\<close>

text \<open>
  Splitting a stream at its start codes gives back the units it was written from, for three- and
  four-byte codes in any mixture and whatever comes before the first code.
\<close>

theorem split_annexb_recovers_units:
  assumes "list_all (clean \<circ> snd) units" "\<not> has_code junk" "junk = [] \<or> last junk \<noteq> 0"
  shows "split_annexb (junk @ annexb_stream units) = map snd units"
  using assms by (rule split_annexb_stream)

theorem split_annexb_recovers_units_witness:
  "split_annexb [5, 0, 0, 1, 0x67, 0, 0, 0, 1, 0x68, 0, 2] = [[0x67], [0x68, 0, 2]]"
proof -
  have "list_all (clean \<circ> snd) [(False, [0x67 :: u8]), (True, [0x68, 0, 2])]" "\<not> has_code [5]"
    by code_simp+
  from split_annexb_recovers_units [OF this] show ?thesis by (simp add: start_code_def)
qed

text \<open>
  Sample data for MP4 carries exactly the units of the access unit behind their lengths, without
  the parameter sets and delimiters: types 7 to 9 for H.264, 32 to 38 for HEVC.
\<close>

theorem samples_carry_the_units:
  assumes "length data < 2 ^ 32"
  shows "sample_units (annexb_to_avcc data) = filter (\<lambda>u. nal_type u \<notin> {7, 8, 9}) (split_annexb data)
    \<and> sample_units (annexb_to_hvcc_samples data)
      = filter (\<lambda>u. \<not> (32 \<le> hevc_nal_type u \<and> hevc_nal_type u \<le> 38)) (split_annexb data)"
  using annexb_to_avcc_units [OF assms] annexb_to_hvcc_units [OF assms] by blast

theorem samples_carry_the_units_witness:
  "sample_units (annexb_to_avcc [0, 0, 1, 0x67, 0, 0, 1, 0x65, 4]) = [[0x65, 4]]"
proof -
  have "split_annexb [0, 0, 1, 0x67, 0, 0, 1, 0x65, 4] = [[0x67], [0x65, 4]]"
    by code_simp
  moreover have "nal_type [0x67] = 7" "nal_type [0x65, 4] = 5"
    by code_simp+
  ultimately show ?thesis
    using samples_carry_the_units [of "[0, 0, 1, 0x67, 0, 0, 1, 0x65, 4]"] by simp
qed

text \<open>A temporal unit: a delimiter and a frame.\<close>

lemma sample_obus_bytes: "unit_of (2, None, []) = [0x12, 0]" "unit_of (6, None, [0x10]) = [0x32, 1, 0x10]"
  by (simp_all add: unit_of_def obu_unit_def obu_header_def leb128.simps)

lemma sample_obus_fit: "list_all obu_fits [(2, None, []), (6, None, [0x10])]"
  by (simp add: obu_fits_def)

text \<open>
  Walking an AV1 temporal unit finds every unit with its type, its bytes and its payload, and
  sample data is the stream with exactly its temporal delimiters left out.
\<close>

theorem walk_obus_recovers_units:
  assumes "list_all obu_fits units" "length (concat (map unit_of units)) \<le> usize_max"
  shows "walk_obus (concat (map unit_of units)) = Some (map obu_of units)
    \<and> obus_to_av01_sample (concat (map unit_of units)) = concat (map unit_of (filter (\<lambda>x. fst x \<noteq> 2) units))"
  using walk_obus_units [OF assms] sample_of_units [OF assms] by blast

theorem walk_obus_recovers_units_witness:
  "obus_to_av01_sample [0x12, 0, 0x32, 1, 0x10] = [0x32, 1, 0x10]"
  using walk_obus_recovers_units [OF sample_obus_fit] sample_obus_bytes by (simp add: usize_max_def)

text \<open>
  Whatever the input, the units a successful walk reports partition it: nothing is skipped,
  repeated or left over, and no unit is empty.
\<close>

theorem walk_obus_partitions:
  assumes "walk_obus data = Some obus"
  shows "concat (map ob_bytes obus) = data \<and> (\<forall>ob \<in> set obus. ob_bytes ob \<noteq> [])"
  using assms by (rule walk_obus_partition)

theorem walk_obus_partitions_witness:
  "\<exists>obus. walk_obus [0x12, 0, 0x32, 1, 0x10] = Some obus
     \<and> concat (map ob_bytes obus) = [0x12, 0, 0x32, 1, 0x10]"
proof -
  have "walk_obus [0x12, 0, 0x32, 1, 0x10] = Some (map obu_of [(2, None, []), (6, None, [0x10])])"
    using walk_obus_units [OF sample_obus_fit] sample_obus_bytes by (simp add: usize_max_def)
  then show ?thesis using walk_obus_partitions by blast
qed

section \<open>Clocks and timelines\<close>

text \<open>Two segments of a second each, with one audio track.\<close>

definition sample_timeline :: "segment list" where
  "sample_timeline = map (\<lambda>p. \<lparr>sg_starts_with_keyframe = True, sg_pts_start_s = Fin p, sg_duration_s = Fin 1,
     sg_data = [], sg_samples = [], sg_audio = [\<lparr>ts_pts_start_s = None, ts_data = [],
       ts_samples = [\<lparr>si_size = 0, si_duration_s = Fin 1, si_is_sync = True\<rparr>]\<rparr>]\<rparr>) [0, 1]"

text \<open>
  A timeline that validates starts every segment with a keyframe, leaves no gap above the
  tolerance between neighbours, keeps every audio track in step with its segment and, over the whole
  recording, with the video.
\<close>

theorem validated_timeline_is_healthy:
  assumes "validate_timeline segs tol = Inr report"
  shows "sr_segments report = length segs
    \<and> (\<forall>i < length segs. sg_starts_with_keyframe (segs ! i)
        \<and> (\<forall>t < length (sg_audio (segs ! i)).
             \<not> skew_violates tol (Suc i = length segs) (skew_s (segs ! i) t)))
    \<and> (\<forall>i. Suc i < length segs \<longrightarrow> \<not> flt (tl_max_video_gap_s tol) (fabs (gap_s segs i)))
    \<and> (segs \<noteq> [] \<longrightarrow> (\<forall>t < length (sg_audio (hd segs)). \<not> flt (tl_max_total_drift_s tol)
        (fabs (fsub (audio_totals (length (sg_audio (hd segs))) segs ! t) (video_total segs)))))"
proof -
  obtain r where segs: "check_segments tol 0 None segs \<lparr>sr_segments = length segs, sr_video_duration_s = Fin 0,
      sr_audio_duration_s = replicate (case segs of [] \<Rightarrow> 0 | s # _ \<Rightarrow> length (sg_audio s)) (Fin 0),
      sr_max_video_gap_s = Fin 0, sr_max_audio_segment_skew_s = Fin 0,
      sr_total_drift_s = replicate (case segs of [] \<Rightarrow> 0 | s # _ \<Rightarrow> length (sg_audio s)) (Fin 0)\<rparr> = Inr r"
    and drift: "check_drift tol [0..<(case segs of [] \<Rightarrow> 0 | s # _ \<Rightarrow> length (sg_audio s))] r = Inr report"
    using assms by (auto simp: validate_timeline_def Let_def bind_out_Inr_iff)
  show ?thesis
    using check_segments_ok [OF segs] check_drift_ok [OF drift] healthy_from_nth [of tol None segs]
    by (cases segs) (auto simp: audio_totals_def video_total_def)
qed

theorem validated_timeline_is_healthy_witness:
  "\<exists>report. validate_timeline sample_timeline \<lparr>tl_max_video_gap_s = Fin 1, tl_max_audio_segment_skew_s = Fin 1,
       tl_max_total_drift_s = Fin 1\<rparr> = Inr report \<and> sr_segments report = 2"
proof -
  have "\<exists>report. validate_timeline sample_timeline \<lparr>tl_max_video_gap_s = Fin 1, tl_max_audio_segment_skew_s = Fin 1,
       tl_max_total_drift_s = Fin 1\<rparr> = Inr report"
    by (simp add: sample_timeline_def validate_timeline_def check_gap_def segment_pts_end_s_def Let_def
        skew_violates_def covered_s_def fsum_def fabs_def f64_eval)
  then show ?thesis using validated_timeline_is_healthy by (fastforce simp: sample_timeline_def)
qed

text \<open>
  Presentation times are the correctly rounded seconds since the capture start, and zero for ticks
  before it, for the first \<open>2 ^ 53\<close> ticks of a recording (28 years).
\<close>

theorem clock_pts_correctly_rounded:
  assumes "- (2 ^ 63) \<le> sint t - sint (rc_origin_ticks_100ns c)" "sint t - sint (rc_origin_ticks_100ns c) < 2 ^ 53"
  shows "clock_pts_s c t = f64_of_rat (of_int (max (sint t - sint (rc_origin_ticks_100ns c)) 0) / 10000000)"
  using assms by (rule clock_pts_rounds)

theorem clock_pts_correctly_rounded_witness:
  "clock_pts_s (clock_new 5) 3 = Fin 0 \<and> clock_pts_s (clock_new 5) 20000005 = Fin 2"
  using clock_pts_correctly_rounded [of 3 "clock_new 5"] clock_pts_correctly_rounded [of 20000005 "clock_new 5"]
  by (simp add: clock_new_def f64_of_rat_exact)

text \<open>
  A performance-counter reading converts to the exact number of whole 100 ns ticks, at any uptime
  whose tick count fits 64 bits.
\<close>

theorem qpc_ticks_are_exact:
  assumes "0 \<le> sint counter" "0 < sint frequency" "sint counter * 10000000 div sint frequency < 2 ^ 63"
  shows "\<exists>w. qpc_to_ticks_100ns counter frequency = Some w
    \<and> sint w = sint counter * 10000000 div sint frequency"
  using assms by (rule qpc_ticks_exact)

theorem qpc_ticks_are_exact_witness:
  "\<exists>w. qpc_to_ticks_100ns 9223372036854775807 10000000 = Some w \<and> sint w = 9223372036854775807"
  using qpc_ticks_are_exact [of 9223372036854775807 10000000] by simp

end
