(* ===== verification/Pipeline_Time.thy ===== *)
theory Pipeline_Time
  imports Disk_Refinement Mp4_Trim_Copy Mp4_Roundtrip
begin

text \<open>
  The clock arithmetic of the recorder (crates/clipline-capture/src/pipeline.rs): how capture
  stamps in seconds become sample durations in ticks.  Every sample gets at least one tick, the
  ticks of a GOP add up to its rounded length, and no rounding error outlives a segment.
\<close>

section \<open>Packets, samples and errors\<close>

record encoded_packet =
  ep_data :: bytes
  ep_pts_s :: f64
  ep_duration_s :: f64
  ep_is_keyframe :: bool

record audio_packet =
  ap_data :: bytes
  ap_pts_s :: f64
  ap_duration_s :: f64

datatype capture_error = InitFailed | DeviceLost | Timeout | OperationTimeout

definition is_timeout :: "capture_error \<Rightarrow> bool" where
  "is_timeout e = (case e of Timeout \<Rightarrow> True | OperationTimeout \<Rightarrow> True | _ \<Rightarrow> False)"

text \<open>
  \<open>PipelineError\<close> with the kinds of its \<open>io::Error\<close>s; the messages are dropped.  The errors of the
  writer, of the disk ring and of reading a payload keep their own type.
\<close>

datatype pipeline_error =
    Capture capture_error
  | Backend
  | InvalidData
  | InvalidInput
  | AlreadyExists
  | BrokenPipe
  | DiskIo io_error
  | Mux writer_error
  | BadSlice slice_error
  | Payload open_error

type_synonym 'a piped = "(pipeline_error, 'a) outcome"

section \<open>Rounding\<close>

text \<open>\<open>x.round() as u64\<close>: half away from zero, negative values and NaN to 0, saturating.\<close>

definition round_u64 :: "f64 \<Rightarrow> nat" where
  "round_u64 x = (case x of NaN \<Rightarrow> 0 | Infinity s \<Rightarrow> if s then 0 else u64_max | NZero \<Rightarrow> 0
     | Fin q \<Rightarrow> min (nat \<lfloor>q + 1 / 2\<rfloor>) u64_max)"

text \<open>The literal \<open>1e-9\<close>.\<close>

definition nano :: f64 where
  "nano = f64_of_rat (1 / 10 ^ 9)"

text \<open>\<open>Ord::clamp\<close> panics on an empty range.\<close>

definition clamp :: "nat \<Rightarrow> nat \<Rightarrow> nat \<Rightarrow> nat piped" where
  "clamp x lo hi = (if hi < lo then Inl Panic else Inr (if x < lo then lo else if hi < x then hi else x))"

definition past_u64 :: "f64 \<Rightarrow> bool" where
  "past_u64 x = flt (f64_of_nat u64_max) x"

definition relative_pts_ticks :: "f64 \<Rightarrow> f64 \<Rightarrow> u32 \<Rightarrow> nat piped" where
  "relative_pts_ticks pts_s origin_s timescale =
     (let relative = fsub pts_s origin_s
      in if \<not> is_finite relative \<or> flt relative (fneg nano) then Inl (Err InvalidData)
         else let ticks = fmul (fmax relative (Fin 0)) (f64_of_nat (unat timescale))
              in if past_u64 ticks then Inl (Err InvalidData) else Inr (round_u64 ticks))"

section \<open>The durations of a sealed GOP\<close>

definition next_pts :: "f64 \<Rightarrow> encoded_packet list \<Rightarrow> f64" where
  "next_pts boundary rest = (case rest of [] \<Rightarrow> boundary | p # _ \<Rightarrow> ep_pts_s p)"

text \<open>At the end of the stream (an infinite boundary) the last sample keeps the encoder's duration.\<close>

fun open_durations :: "f64 \<Rightarrow> f64 \<Rightarrow> encoded_packet list \<Rightarrow> f64 list" where
  "open_durations boundary minimum [] = []"
| "open_durations boundary minimum (p # ps) =
     (let next_s = next_pts boundary ps
      in if is_finite next_s then fmax (fsub next_s (ep_pts_s p)) minimum else ep_duration_s p)
     # open_durations boundary minimum ps"

text \<open>
  The loop over the packets in ticks.  \<open>total_ticks\<close> is at least the number of samples, so
  \<open>total_ticks - remaining\<close> does not underflow and \<open>previous_end + 1\<close> does not overflow.
\<close>

fun sealed_ticks :: "f64 \<Rightarrow> f64 \<Rightarrow> f64 \<Rightarrow> nat \<Rightarrow> nat \<Rightarrow> encoded_packet list \<Rightarrow> nat list piped" where
  "sealed_ticks first_s boundary scale total_ticks previous_end [] = Inr []"
| "sealed_ticks first_s boundary scale total_ticks previous_end (p # ps) =
     (let next_s = next_pts boundary ps;
          desired_end_f = fmul (fsub next_s first_s) scale
      in if \<not> is_finite (fmul (fsub next_s (ep_pts_s p)) scale) then Inl (Err InvalidData)
         else if \<not> is_finite desired_end_f \<or> past_u64 desired_end_f then Inl (Err InvalidData)
         else
           bind_out (clamp (round_u64 (fmax desired_end_f (Fin 0))) (previous_end + 1) (total_ticks - length ps))
             (\<lambda>end_ticks.
           bind_out (sealed_ticks first_s boundary scale total_ticks end_ticks ps) (\<lambda>ticks.
             Inr ((end_ticks - previous_end) # ticks))))"

definition sealed_video_durations :: "encoded_packet list \<Rightarrow> f64 \<Rightarrow> u32 \<Rightarrow> f64 list piped" where
  "sealed_video_durations packets boundary timescale =
     (if timescale = 0 then Inl (Err InvalidData)
      else case packets of [] \<Rightarrow> Inr []
      | first # _ \<Rightarrow>
          let scale = f64_of_nat (unat timescale)
          in if \<not> is_finite boundary then Inr (open_durations boundary (fdiv (Fin 1) scale) packets)
             else
               let total_ticks_f = fmul (fsub boundary (ep_pts_s first)) scale
               in if \<not> is_finite total_ticks_f \<or> past_u64 total_ticks_f then Inl (Err InvalidData)
                  else
                    bind_out (sealed_ticks (ep_pts_s first) boundary scale
                        (max (round_u64 (fmax total_ticks_f (Fin 0))) (length packets)) 0 packets) (\<lambda>ticks.
                      Inr (map (\<lambda>d. fdiv (f64_of_nat d) scale) ticks)))"

section \<open>The durations of a written fragment\<close>

record fragment_timeline =
  fl_requested_start :: nat
  fl_write_start :: nat

text \<open>The total: every partial sum is finite and not negative.\<close>

fun total_seconds :: "f64 \<Rightarrow> sample_info list \<Rightarrow> f64 piped" where
  "total_seconds acc [] = Inr acc"
| "total_seconds acc (s # ss) =
     (let next_s = fadd acc (si_duration_s s)
      in if is_finite next_s \<and> fle (Fin 0) next_s then total_seconds next_s ss else Inl (Err InvalidData))"

fun quantized_ticks ::
  "nat \<Rightarrow> f64 \<Rightarrow> nat \<Rightarrow> f64 \<Rightarrow> nat \<Rightarrow> sample_info list \<Rightarrow> u32 list piped" where
  "quantized_ticks requested_start scale target_end elapsed_s previous_end [] = Inr []"
| "quantized_ticks requested_start scale target_end elapsed_s previous_end (s # ss) =
     (let elapsed_s = fadd elapsed_s (si_duration_s s);
          relative_end = fmul elapsed_s scale
      in if \<not> is_finite relative_end \<or> flt relative_end (Fin 0) then Inl (Err InvalidData)
         else
           bind_out (ok_or InvalidData (checked_add_u64 requested_start (round_u64 relative_end))) (\<lambda>desired_end.
           bind_out (clamp desired_end (previous_end + 1) (target_end - length ss)) (\<lambda>end_ticks.
           bind_out (ok_or InvalidData (try_u32 (end_ticks - previous_end))) (\<lambda>duration.
           bind_out (quantized_ticks requested_start scale target_end elapsed_s end_ticks ss) (\<lambda>more.
             Inr (duration # more))))))"

definition quantized_sample_durations :: "sample_info list \<Rightarrow> u32 \<Rightarrow> fragment_timeline \<Rightarrow> u32 list piped" where
  "quantized_sample_durations samples timescale timeline =
     (let scale = f64_of_nat (unat timescale) in
      bind_out (total_seconds (Fin 0) samples) (\<lambda>total_s.
      let relative_total_ticks = fmul total_s scale in
      if \<not> is_finite relative_total_ticks \<or> past_u64 relative_total_ticks then Inl (Err InvalidData)
      else
        bind_out (ok_or InvalidData
            (checked_add_u64 (fl_requested_start timeline) (round_u64 relative_total_ticks))) (\<lambda>requested_end.
        bind_out (ok_or InvalidData (checked_add_u64 (fl_write_start timeline) (length samples))) (\<lambda>minimum_end.
          quantized_ticks (fl_requested_start timeline) scale (max requested_end minimum_end) (Fin 0)
            (fl_write_start timeline) samples))))"

section \<open>Audio before the origin\<close>

record sample_selection =
  sl_first_sample :: nat
  sl_first_byte :: nat
  sl_pts_start_s :: "f64 option"

text \<open>The loop that skips the samples starting before the origin.\<close>

fun skip_before :: "f64 \<Rightarrow> sample_info list \<Rightarrow> nat \<Rightarrow> nat \<Rightarrow> f64 \<Rightarrow> (nat \<times> nat \<times> f64) piped" where
  "skip_before origin_s [] first_sample first_byte start_s = Inr (first_sample, first_byte, start_s)"
| "skip_before origin_s (s # ss) first_sample first_byte start_s =
     (if \<not> flt start_s (fsub origin_s nano) then Inr (first_sample, first_byte, start_s)
      else if \<not> is_finite (si_duration_s s) \<or> flt (si_duration_s s) (Fin 0) then Inl (Err InvalidData)
      else
        bind_out (ok_or InvalidData (checked_add_usize first_byte (unat (si_size s)))) (\<lambda>first_byte.
        let start_s = fadd start_s (si_duration_s s)
        in if \<not> is_finite start_s then Inl (Err InvalidData)
           else skip_before origin_s ss (first_sample + 1) first_byte start_s))"

definition no_selection :: sample_selection where
  "no_selection = \<lparr>sl_first_sample = 0, sl_first_byte = 0, sl_pts_start_s = None\<rparr>"

definition select_audio_after_replay_origin ::
  "f64 option \<Rightarrow> sample_info list \<Rightarrow> nat \<Rightarrow> f64 \<Rightarrow> sample_selection piped" where
  "select_audio_after_replay_origin pts_start_s samples payload_len origin_s =
     (if samples = [] then Inr no_selection
      else case pts_start_s of None \<Rightarrow> Inr no_selection
      | Some start_s \<Rightarrow>
          bind_out (skip_before origin_s samples 0 0 start_s) (\<lambda>(first_sample, first_byte, start_s).
            if payload_len < first_byte then Inl (Err InvalidData)
            else Inr \<lparr>sl_first_sample = first_sample, sl_first_byte = first_byte,
                      sl_pts_start_s = if first_sample < length samples then Some start_s else None\<rparr>))"

section \<open>Nothing is lost to rounding\<close>

lemma clamp_Inr: "lo \<le> hi \<Longrightarrow> \<exists>y. clamp x lo hi = Inr y \<and> lo \<le> y \<and> y \<le> hi \<and> (lo \<le> x \<longrightarrow> x \<le> hi \<longrightarrow> y = x)
    \<and> (hi \<le> x \<longrightarrow> y = hi) \<and> (x \<le> lo \<longrightarrow> y = lo)"
  by (auto simp: clamp_def)

text \<open>
  The ticks of a GOP: at least one for every packet, all of the total used, no panic.
\<close>

lemma sealed_ticks_total:
  assumes "sealed_ticks first_s boundary scale all_ticks prev ps = r" "prev + length ps \<le> all_ticks"
    "all_ticks = max (round_u64 (fmax (fmul (fsub boundary first_s) scale) (Fin 0))) n" "ps = [] \<longrightarrow> prev = all_ticks"
    "prev + length ps \<ge> n"
  shows "r \<noteq> Inl Panic \<and> (\<forall>ticks. r = Inr ticks \<longrightarrow>
    length ticks = length ps \<and> (\<forall>d \<in> set ticks. 0 < d) \<and> prev + sum_list ticks = all_ticks)"
  using assms
proof (induction ps arbitrary: prev r)
  case (Cons p ps)
  let ?desired = "round_u64 (fmax (fmul (fsub (next_pts boundary ps) first_s) scale) (Fin 0))"
  have room: "prev + 1 \<le> all_ticks - length ps" using Cons.prems(2) by auto
  obtain e where e: "clamp ?desired (prev + 1) (all_ticks - length ps) = Inr e" "prev + 1 \<le> e" "e \<le> all_ticks - length ps"
      "all_ticks - length ps \<le> ?desired \<longrightarrow> e = all_ticks - length ps" "?desired \<le> prev + 1 \<longrightarrow> e = prev + 1"
    using clamp_Inr [OF room] by metis
  have done_: "e = all_ticks" if "ps = []"
    using that e Cons.prems(3,5) by (auto simp: next_pts_def max_def split: if_splits)
  let ?r = "sealed_ticks first_s boundary scale all_ticks e ps"
  have fits: "e + length ps \<le> all_ticks" using e(3) room by linarith
  have more: "e + length ps \<ge> n" using e(2) Cons.prems(5) by simp
  have IH: "?r \<noteq> Inl Panic \<and> (\<forall>ticks. ?r = Inr ticks \<longrightarrow>
      length ticks = length ps \<and> (\<forall>d \<in> set ticks. 0 < d) \<and> e + sum_list ticks = all_ticks)"
    by (rule Cons.IH [OF refl fits Cons.prems(3) _ more]) (use done_ in simp)
  show ?case
    unfolding Cons.prems(1) [symmetric] using IH e(1,2)
    by (auto simp: Let_def bind_out_def split: sum.splits)
qed auto

lemma total_ticks_room: "length packets \<le> max k (length packets)" by simp

lemma sealed_ticks_of:
  assumes "packets \<noteq> []"
    "sealed_ticks (ep_pts_s (hd packets)) boundary scale
       (max (round_u64 (fmax (fmul (fsub boundary (ep_pts_s (hd packets))) scale) (Fin 0))) (length packets)) 0 packets = r"
  shows "r \<noteq> Inl Panic \<and> (\<forall>ticks. r = Inr ticks \<longrightarrow>
    length ticks = length packets \<and> (\<forall>d \<in> set ticks. 0 < d)
    \<and> sum_list ticks = max (round_u64 (fmax (fmul (fsub boundary (ep_pts_s (hd packets))) scale) (Fin 0))) (length packets))"
  using sealed_ticks_total [OF assms(2) _ refl] assms(1) by simp

text \<open>
  \<open>sealed_video_durations\<close> never panics; the durations of a GOP closed at a finite boundary are
  whole numbers of ticks, at least one each, and their ticks add up to the rounded GOP.
\<close>

theorem sealed_durations_exact:
  assumes "is_finite boundary" "packets \<noteq> []"
    "sealed_video_durations packets boundary timescale = Inr ds"
  obtains ticks where "ds = map (\<lambda>d. fdiv (f64_of_nat d) (f64_of_nat (unat timescale))) ticks"
    "length ticks = length packets" "\<forall>d \<in> set ticks. 0 < d"
    "sum_list ticks = max (round_u64 (fmax (fmul (fsub boundary (ep_pts_s (hd packets)))
        (f64_of_nat (unat timescale))) (Fin 0))) (length packets)"
proof -
  obtain ticks where t: "sealed_ticks (ep_pts_s (hd packets)) boundary (f64_of_nat (unat timescale))
       (max (round_u64 (fmax (fmul (fsub boundary (ep_pts_s (hd packets))) (f64_of_nat (unat timescale))) (Fin 0))) (length packets)) 0 packets
      = Inr ticks" "ds = map (\<lambda>d. fdiv (f64_of_nat d) (f64_of_nat (unat timescale))) ticks"
    using assms by (auto simp: sealed_video_durations_def Let_def bind_out_Inr_iff split: list.splits if_splits)
  show thesis by (rule that [OF t(2)]) (use sealed_ticks_of [OF assms(2) t(1)] in auto)
qed

lemma open_durations_length [simp]: "length (open_durations b m ps) = length ps"
  by (induction ps) auto

lemma sealed_durations_length:
  assumes "sealed_video_durations packets boundary timescale = Inr ds"
  shows "length ds = length packets"
proof (cases "is_finite boundary \<and> packets \<noteq> []")
  case True
  then show ?thesis using sealed_durations_exact assms by (metis length_map)
next
  case False
  then show ?thesis using assms
    by (auto simp: sealed_video_durations_def Let_def split: list.splits if_splits)
qed

theorem sealed_durations_no_panic: "sealed_video_durations packets boundary timescale \<noteq> Inl Panic"
proof (cases packets)
  case (Cons p ps)
  then show ?thesis
    using sealed_ticks_of [of packets boundary "f64_of_nat (unat timescale)", OF _ refl]
    by (auto simp: sealed_video_durations_def Let_def bind_out_def split: sum.splits)
qed (simp add: sealed_video_durations_def)

section \<open>The fragment's durations end where the timeline ends\<close>

fun run_end :: "nat \<Rightarrow> f64 \<Rightarrow> f64 \<Rightarrow> sample_info list \<Rightarrow> nat" where
  "run_end start scale elapsed_s [] = start + round_u64 (fmul elapsed_s scale)"
| "run_end start scale elapsed_s (s # ss) = run_end start scale (fadd elapsed_s (si_duration_s s)) ss"

lemma total_seconds_run_end:
  assumes "total_seconds acc ss = Inr t"
  shows "run_end start scale acc ss = start + round_u64 (fmul t scale)"
  using assms by (induction ss arbitrary: acc) (auto simp: Let_def split: if_splits)

lemma quantized_ticks_total:
  assumes "quantized_ticks start scale target elapsed prev ss = r"
    "prev + length ss \<le> target" "ss \<noteq> []"
    "target = max (run_end start scale elapsed ss) n" "n \<le> prev + length ss" "target \<le> u64_max"
  shows "r \<noteq> Inl Panic \<and> (\<forall>ds. r = Inr ds \<longrightarrow>
    length ds = length ss \<and> (\<forall>d \<in> set ds. 0 < unat d) \<and> prev + sum_list (map unat ds) = target)"
  using assms
proof (induction ss arbitrary: prev elapsed r)
  case (Cons s ss)
  let ?elapsed = "fadd elapsed (si_duration_s s)"
  let ?desired = "start + round_u64 (fmul ?elapsed scale)"
  have room: "prev + 1 \<le> target - length ss" using Cons.prems(2) by auto
  obtain e where e: "clamp ?desired (prev + 1) (target - length ss) = Inr e" "prev + 1 \<le> e" "e \<le> target - length ss"
      "target - length ss \<le> ?desired \<longrightarrow> e = target - length ss" "?desired \<le> prev + 1 \<longrightarrow> e = prev + 1"
    using clamp_Inr [OF room] by metis
  let ?r = "quantized_ticks start scale target ?elapsed e ss"
  have fits: "e + length ss \<le> target" using e(3) room by linarith
  have IH: "?r \<noteq> Inl Panic \<and> (\<forall>ds. ?r = Inr ds \<longrightarrow>
      length ds = length ss \<and> (\<forall>d \<in> set ds. 0 < unat d) \<and> e + sum_list (map unat ds) = target)"
  proof (cases "ss = []")
    case True
    have "e = target" using True e Cons.prems(4,5) by (auto simp: max_def split: if_splits)
    then show ?thesis using True by simp
  next
    case False
    show ?thesis
      by (rule Cons.IH [OF refl fits False _ _ Cons.prems(6)]) (use Cons.prems(4,5) e(2) in auto)
  qed
  have word: "unat d = e - prev" if "try_u32 (e - prev) = Some d" for d :: u32
    using that by (simp add: try_u32_Some_iff)
  show ?case
    unfolding Cons.prems(1) [symmetric] using IH e(1,2) word
    by (auto simp: Let_def bind_out_def ok_or_def checked_add_u64_def split: sum.splits option.splits if_splits)
qed auto

text \<open>
  The fragment timeline is exact: one duration for each sample, none zero, ending at the
  requested end of the run (or one tick per sample when the writer is ahead), so rounding never
  accumulates into drift.
\<close>

theorem quantized_durations_exact:
  assumes "quantized_sample_durations samples timescale timeline = Inr ds"
  obtains total_s where "total_seconds (Fin 0) samples = Inr total_s"
    "length ds = length samples" "\<forall>d \<in> set ds. 0 < unat d"
    "samples \<noteq> [] \<Longrightarrow> fl_write_start timeline + sum_list (map unat ds)
      = max (fl_requested_start timeline + round_u64 (fmul total_s (f64_of_nat (unat timescale))))
            (fl_write_start timeline + length samples)"
proof -
  obtain total_s where t: "total_seconds (Fin 0) samples = Inr total_s"
    and le: "fl_requested_start timeline + round_u64 (fmul total_s (f64_of_nat (unat timescale))) \<le> u64_max"
      "fl_write_start timeline + length samples \<le> u64_max"
    and q: "quantized_ticks (fl_requested_start timeline) (f64_of_nat (unat timescale))
       (max (fl_requested_start timeline + round_u64 (fmul total_s (f64_of_nat (unat timescale))))
            (fl_write_start timeline + length samples)) (Fin 0) (fl_write_start timeline) samples = Inr ds"
    using assms by (auto simp: quantized_sample_durations_def Let_def bind_out_Inr_iff ok_or_def checked_add_u64_def
        split: if_splits option.splits)
  have *: "length ds = length samples \<and> (\<forall>d \<in> set ds. 0 < unat d) \<and>
     fl_write_start timeline + sum_list (map unat ds)
      = max (fl_requested_start timeline + round_u64 (fmul total_s (f64_of_nat (unat timescale))))
            (fl_write_start timeline + length samples)" if ne: "samples \<noteq> []"
    using quantized_ticks_total [OF q _ ne, where n = "fl_write_start timeline + length samples"] le
    unfolding total_seconds_run_end [OF t] by auto
  show thesis
  proof (cases "samples = []")
    case True
    then show thesis using q by (intro that [OF t]) auto
  next
    case False
    then show thesis using * by (intro that [OF t]) auto
  qed
qed

end
