(* ===== verification/Pipeline_Save.thy ===== *)
theory Pipeline_Save
  imports Pipeline_Time
begin

text \<open>
  Saving a replay (crates/clipline-capture/src/pipeline.rs): the segments of the save window, from
  memory or from their files, become fragments of one hybrid MP4 whose clock starts at the window.

  The writer is a local of \<open>save_replay\<close>, and of the session thread, which drops it at the first
  error, so these operations return the writer only when they succeed.
\<close>

section \<open>Decode times\<close>

definition from_writer :: "mp4_writer \<times> (writer_error, unit) outcome \<Rightarrow> mp4_writer piped" where
  "from_writer r = map_err Mux (case r of (mw, Inl e) \<Rightarrow> Inl e | (mw, Inr _) \<Rightarrow> Inr mw)"

definition advance_track_decode_time ::
  "mp4_writer \<Rightarrow> nat \<Rightarrow> nat \<Rightarrow> (mp4_writer \<times> fragment_timeline) piped" where
  "advance_track_decode_time mw track_index requested =
     bind_out (map_err Mux (track_decode_time mw track_index)) (\<lambda>current.
     bind_out (if current < requested then from_writer (set_track_decode_time mw track_index requested)
               else Inr mw) (\<lambda>mw'.
       Inr (mw', \<lparr>fl_requested_start = requested, fl_write_start = max current requested\<rparr>)))"

definition audio_decode_time ::
  "f64 \<Rightarrow> sample_selection list \<Rightarrow> nat \<Rightarrow> audio_track_config \<Rightarrow> mp4_writer
     \<Rightarrow> (mp4_writer \<times> fragment_timeline) piped" where
  "audio_decode_time origin_s selections index cfg mw =
     (case Option.bind (get_at selections index) sl_pts_start_s of
        Some start_s \<Rightarrow> bind_out (relative_pts_ticks start_s origin_s (at_sample_rate cfg)) (\<lambda>requested.
          advance_track_decode_time mw (index + 1) requested)
      | None \<Rightarrow> bind_out (map_err Mux (track_decode_time mw (index + 1))) (\<lambda>current.
          Inr (mw, \<lparr>fl_requested_start = current, fl_write_start = current\<rparr>)))"

fun audio_decode_times ::
  "f64 \<Rightarrow> sample_selection list \<Rightarrow> nat \<Rightarrow> audio_track_config list \<Rightarrow> mp4_writer
     \<Rightarrow> (mp4_writer \<times> fragment_timeline list) piped" where
  "audio_decode_times origin_s selections index [] mw = Inr (mw, [])"
| "audio_decode_times origin_s selections index (cfg # cfgs) mw =
     bind_out (audio_decode_time origin_s selections index cfg mw) (\<lambda>(mw, timeline).
     bind_out (audio_decode_times origin_s selections (index + 1) cfgs mw) (\<lambda>(mw, timelines).
       Inr (mw, timeline # timelines)))"

definition set_segment_decode_times ::
  "mp4_writer \<Rightarrow> f64 \<Rightarrow> sample_selection list \<Rightarrow> video_track_config \<Rightarrow> audio_track_config list \<Rightarrow> f64
     \<Rightarrow> (mp4_writer \<times> fragment_timeline list) piped" where
  "set_segment_decode_times mw segment_pts_start_s selections video_cfg audio_cfgs origin_s =
     bind_out (relative_pts_ticks segment_pts_start_s origin_s (vt_timescale video_cfg)) (\<lambda>requested.
     bind_out (advance_track_decode_time mw 0 requested) (\<lambda>(mw, video).
     bind_out (audio_decode_times origin_s selections 0 audio_cfgs mw) (\<lambda>(mw, timelines).
       Inr (mw, video # timelines))))"

section \<open>The samples of a segment in memory\<close>

definition segment_audio_selections :: "segment \<Rightarrow> f64 option \<Rightarrow> sample_selection list piped" where
  "segment_audio_selections seg replay_origin_s =
     collect (\<lambda>t. case replay_origin_s of
         Some origin_s \<Rightarrow> select_audio_after_replay_origin (ts_pts_start_s t) (ts_samples t) (length (ts_data t)) origin_s
       | None \<Rightarrow> Inr \<lparr>sl_first_sample = 0, sl_first_byte = 0, sl_pts_start_s = ts_pts_start_s t\<rparr>) (sg_audio seg)"

fun fragment_ref :: "((slice_error + bytes) \<times> sample_info) \<times> u32 \<Rightarrow> frag_sample piped" where
  "fragment_ref ((Inl e, info), duration) = Inl (Err (BadSlice e))"
| "fragment_ref ((Inr bs, info), duration) =
     Inr \<lparr>fs_data = bs, fs_duration = duration, fs_is_sync = si_is_sync info\<rparr>"

definition quantized_fragment_refs ::
  "(slice_error + bytes) list \<Rightarrow> sample_info list \<Rightarrow> u32 \<Rightarrow> fragment_timeline \<Rightarrow> frag_sample list piped" where
  "quantized_fragment_refs slices samples timescale timeline =
     bind_out (quantized_sample_durations samples timescale timeline) (\<lambda>ds.
       collect fragment_ref (zip (zip slices samples) ds))"

definition audio_fragment_refs ::
  "sample_selection list \<Rightarrow> fragment_timeline list \<Rightarrow> nat \<Rightarrow> track_samples \<Rightarrow> audio_track_config
     \<Rightarrow> frag_sample list piped" where
  "audio_fragment_refs selections timelines index track cfg =
     bind_out (ok_or InvalidData (get_at selections index)) (\<lambda>selection.
     bind_out (ok_or InvalidData (get_from (ts_samples track) (sl_first_sample selection))) (\<lambda>samples.
     bind_out (ok_or InvalidData (get_at timelines (index + 1))) (\<lambda>timeline.
       quantized_fragment_refs (drop (sl_first_sample selection) (track_sample_slices track)) samples
         (at_sample_rate cfg) timeline)))"

text \<open>\<open>resize_with(n, Vec::new)\<close>.\<close>

definition resize :: "nat \<Rightarrow> 'a list list \<Rightarrow> 'a list list" where
  "resize n xss = take n xss @ replicate (n - length xss) []"

definition segment_fragment_refs ::
  "segment \<Rightarrow> sample_selection list \<Rightarrow> video_track_config \<Rightarrow> audio_track_config list
     \<Rightarrow> fragment_timeline list \<Rightarrow> frag_sample list list piped" where
  "segment_fragment_refs seg selections video_cfg audio_cfgs timelines =
     bind_out (ok_or InvalidData (get_at timelines 0)) (\<lambda>video_timeline.
     bind_out (quantized_fragment_refs (segment_sample_slices seg) (sg_samples seg) (vt_timescale video_cfg)
         video_timeline) (\<lambda>video.
     bind_out (collect (\<lambda>(index, track, cfg). audio_fragment_refs selections timelines index track cfg)
         (List.enumerate 0 (zip (sg_audio seg) audio_cfgs))) (\<lambda>audio.
       Inr (resize (1 + length audio_cfgs) (video # audio)))))"

definition write_memory_replay_segment ::
  "mp4_writer \<Rightarrow> segment \<Rightarrow> video_track_config \<Rightarrow> audio_track_config list \<Rightarrow> f64 \<Rightarrow> mp4_writer piped" where
  "write_memory_replay_segment mw seg video_cfg audio_cfgs origin_s =
     bind_out (segment_audio_selections seg (Some origin_s)) (\<lambda>selections.
     bind_out (set_segment_decode_times mw (sg_pts_start_s seg) selections video_cfg audio_cfgs origin_s)
       (\<lambda>(mw, timelines).
     bind_out (segment_fragment_refs seg selections video_cfg audio_cfgs timelines) (\<lambda>per_track.
       from_writer (write_fragment_multi_borrowed mw per_track))))"

section \<open>The samples of a segment on disk\<close>

text \<open>The closure that walks the offsets: an overflow or an offset past the track stops it.\<close>

fun source_samples_from :: "nat \<Rightarrow> nat \<Rightarrow> (sample_info \<times> u32) list \<Rightarrow> source_sample list piped" where
  "source_samples_from track_end offset [] = Inr []"
| "source_samples_from track_end offset ((info, duration) # rest) =
     bind_out (ok_or InvalidData (checked_add_u64 offset (unat (si_size info)))) (\<lambda>next_offset.
       if track_end < next_offset then Inl (Err InvalidData)
       else bind_out (source_samples_from track_end next_offset rest) (\<lambda>more.
         Inr (\<lparr>ss_offset = offset, ss_size = si_size info, ss_duration = duration,
                ss_is_sync = si_is_sync info\<rparr> # more)))"

definition quantized_source_samples ::
  "disk_track_ref \<Rightarrow> sample_selection \<Rightarrow> u32 \<Rightarrow> fragment_timeline \<Rightarrow> source_sample list piped" where
  "quantized_source_samples track selection timescale timeline =
     (if tr_byte_len track < sl_first_byte selection then Inl (Err InvalidData)
      else
        bind_out (ok_or InvalidData (get_from (tr_samples track) (sl_first_sample selection))) (\<lambda>samples.
        bind_out (quantized_sample_durations samples timescale timeline) (\<lambda>ds.
        bind_out (ok_or InvalidData (checked_add_u64 (tr_offset track) (tr_byte_len track))) (\<lambda>track_end.
        bind_out (ok_or InvalidData (checked_add_u64 (tr_offset track) (sl_first_byte selection))) (\<lambda>offset.
          source_samples_from track_end offset (zip samples ds))))))"

definition disk_audio_selections :: "disk_segment \<Rightarrow> f64 \<Rightarrow> sample_selection list piped" where
  "disk_audio_selections d origin_s =
     collect (\<lambda>t. select_audio_after_replay_origin (tr_pts_start_s t) (tr_samples t) (tr_byte_len t) origin_s)
       (audio_tracks d)"

definition disk_source_samples ::
  "disk_segment \<Rightarrow> sample_selection list \<Rightarrow> video_track_config \<Rightarrow> audio_track_config list
     \<Rightarrow> fragment_timeline list \<Rightarrow> source_sample list list piped" where
  "disk_source_samples d selections video_cfg audio_cfgs timelines =
     bind_out (ok_or InvalidData (get_at timelines 0)) (\<lambda>video_timeline.
     bind_out (quantized_source_samples (video_track d)
         \<lparr>sl_first_sample = 0, sl_first_byte = 0, sl_pts_start_s = tr_pts_start_s (video_track d)\<rparr>
         (vt_timescale video_cfg) video_timeline) (\<lambda>video.
     bind_out (collect (\<lambda>(index, (track, selection), cfg).
           bind_out (ok_or InvalidData (get_at timelines (index + 1))) (\<lambda>timeline.
             quantized_source_samples track selection (at_sample_rate cfg) timeline))
         (List.enumerate 0 (zip (zip (audio_tracks d) selections) audio_cfgs))) (\<lambda>audio.
       Inr (resize (1 + length audio_cfgs) (video # audio)))))"

definition write_disk_replay_segment ::
  "file_system \<Rightarrow> mp4_writer \<Rightarrow> disk_segment \<Rightarrow> video_track_config \<Rightarrow> audio_track_config list \<Rightarrow> f64
     \<Rightarrow> mp4_writer piped" where
  "write_disk_replay_segment fs mw d video_cfg audio_cfgs origin_s =
     bind_out (disk_audio_selections d origin_s) (\<lambda>selections.
     bind_out (set_segment_decode_times mw (ds_pts_start_s d) selections video_cfg audio_cfgs origin_s)
       (\<lambda>(mw, timelines).
     bind_out (disk_source_samples d selections video_cfg audio_cfgs timelines) (\<lambda>per_track.
       case open_payload fs d of
         Inl e \<Rightarrow> Inl (Err (Payload e))
       | Inr source \<Rightarrow> from_writer (write_fragment_multi_from_source mw source per_track))))"

section \<open>Storage and windows\<close>

datatype replay_storage = Memory replay_ring | Disk disk_ring

datatype replay_window = MemoryWindow "segment list" | DiskWindow "disk_segment list"

definition window_bounds_of :: "replay_window \<Rightarrow> (f64 \<times> f64) option" where
  "window_bounds_of w = (case w of
       MemoryWindow ss \<Rightarrow> if ss = [] then None else Some (sg_pts_start_s (hd ss), segment_pts_end_s (last ss))
     | DiskWindow ds \<Rightarrow> if ds = [] then None else Some (ds_pts_start_s (hd ds), disk_pts_end_s (last ds)))"

definition window_bytes :: "replay_window \<Rightarrow> nat" where
  "window_bytes w = (case w of MemoryWindow ss \<Rightarrow> sum_list (map segment_byte_len ss)
     | DiskWindow ds \<Rightarrow> sum_list (map ds_byte_len ds))"

definition storage_len :: "replay_storage \<Rightarrow> nat" where
  "storage_len st = (case st of Memory r \<Rightarrow> ring_len r | Disk r \<Rightarrow> length (dr_segments r))"

definition storage_bytes :: "replay_storage \<Rightarrow> nat" where
  "storage_bytes st = (case st of Memory r \<Rightarrow> rr_bytes r | Disk r \<Rightarrow> dr_bytes r)"

definition segment_span :: "(f64 \<times> f64) list \<Rightarrow> f64" where
  "segment_span spans = (case spans of [] \<Rightarrow> Fin 0
     | (first_start, first_end) # rest \<Rightarrow>
         foldl (\<lambda>_ (_, seg_end). fsub seg_end first_start) (fsub first_end first_start) rest)"

definition buffered_span_s :: "replay_storage \<Rightarrow> f64" where
  "buffered_span_s st = (case st of
       Memory r \<Rightarrow> segment_span (map (\<lambda>s. (sg_pts_start_s s, segment_pts_end_s s)) (rr_segments r))
     | Disk r \<Rightarrow> segment_span (map (\<lambda>d. (ds_pts_start_s d, disk_pts_end_s d)) (dr_segments r)))"

definition storage_save_window :: "replay_storage \<Rightarrow> f64 \<Rightarrow> f64 option \<Rightarrow> replay_window" where
  "storage_save_window st window_s exclude = (case st of
       Memory r \<Rightarrow> MemoryWindow (ring_save_window r window_s exclude)
     | Disk r \<Rightarrow> DiskWindow (disk_save_window r window_s exclude))"

definition save_window_bounds :: "replay_storage \<Rightarrow> f64 \<Rightarrow> f64 option \<Rightarrow> (f64 \<times> f64) option" where
  "save_window_bounds st window_s exclude = window_bounds_of (storage_save_window st window_s exclude)"

definition save_window_bytes :: "replay_storage \<Rightarrow> f64 \<Rightarrow> f64 option \<Rightarrow> nat" where
  "save_window_bytes st window_s exclude = window_bytes (storage_save_window st window_s exclude)"

section \<open>Saving\<close>

text \<open>\<open>(first - origin).abs() <= 1e-9\<close>.\<close>

definition replay_starts_at_stream_origin :: "f64 option \<Rightarrow> f64 \<Rightarrow> bool" where
  "replay_starts_at_stream_origin video_start_pts_s first_pts_start_s =
     (let origin = (case video_start_pts_s of None \<Rightarrow> first_pts_start_s | Some s \<Rightarrow> s);
          d = fsub first_pts_start_s origin
      in fle (fabs d) nano)"

definition mid_stream_replay_opus_pre_skip :: u16 where
  "mid_stream_replay_opus_pre_skip = 960"

fun write_segments :: "(mp4_writer \<Rightarrow> 's \<Rightarrow> mp4_writer piped) \<Rightarrow> 's list \<Rightarrow> mp4_writer \<Rightarrow> mp4_writer piped" where
  "write_segments write [] mw = Inr mw"
| "write_segments write (s # ss) mw = bind_out (write mw s) (write_segments write ss)"

definition replay_audio_cfgs :: "bool \<Rightarrow> audio_track_config list \<Rightarrow> audio_track_config list" where
  "replay_audio_cfgs starts_at_origin cfgs =
     map (\<lambda>cfg. if starts_at_origin then cfg else cfg\<lparr>at_pre_skip := mid_stream_replay_opus_pre_skip\<rparr>) cfgs"

text \<open>
  \<open>source_cfgs\<close> are the track configurations of the attached audio sources, \<open>video_cfg\<close> the
  encoder's; the result is the finalized file and the end of the saved footage.
\<close>

definition save_replay ::
  "file_system \<Rightarrow> replay_storage \<Rightarrow> f64 option \<Rightarrow> video_track_config \<Rightarrow> audio_track_config list
     \<Rightarrow> sink \<Rightarrow> f64 \<Rightarrow> f64 option \<Rightarrow> (sink \<times> f64) piped" where
  "save_replay fs st video_start_pts_s video_cfg source_cfgs w window_s exclude =
     (let window = storage_save_window st window_s exclude in
      case window_bounds_of window of
        None \<Rightarrow> Inl (Err InvalidInput)
      | Some (origin_s, end_pts) \<Rightarrow>
          let audio_cfgs = replay_audio_cfgs (replay_starts_at_stream_origin video_start_pts_s origin_s) source_cfgs
          in bind_out (map_err Mux (writer_new_multi w (Video video_cfg # map Audio audio_cfgs))) (\<lambda>mw.
             bind_out (case window of
                 MemoryWindow segs \<Rightarrow>
                   write_segments (\<lambda>mw s. write_memory_replay_segment mw s video_cfg audio_cfgs origin_s) segs mw
               | DiskWindow segs \<Rightarrow>
                   write_segments (\<lambda>mw d. write_disk_replay_segment fs mw d video_cfg audio_cfgs origin_s) segs mw) (\<lambda>mw.
             bind_out (or_panic (finalize mw)) (\<lambda>w. Inr (w, end_pts)))))"

end
