(* ===== verification/Pipeline_Save_Correct.thy ===== *)
theory Pipeline_Save_Correct
  imports Pipeline_Save
begin

text \<open>
  What a saved replay holds (crates/clipline-capture/src/pipeline.rs): every track of the file gets
  exactly the samples of the window, each segment's run starts at its capture time unless the
  writer is already past it, and a disk replay saves the very file a memory replay does.
\<close>

section \<open>The samples a segment contributes\<close>

text \<open>The start times of a track's samples, and the number of samples before the origin.\<close>

fun sample_starts :: "f64 \<Rightarrow> sample_info list \<Rightarrow> f64 list" where
  "sample_starts p [] = []"
| "sample_starts p (s # ss) = p # sample_starts (fadd p (si_duration_s s)) ss"

definition lead_in :: "f64 \<Rightarrow> track_samples \<Rightarrow> nat" where
  "lead_in origin_s t = (case ts_pts_start_s t of None \<Rightarrow> 0
     | Some p \<Rightarrow> length (takeWhile (\<lambda>x. flt x (fsub origin_s nano)) (sample_starts p (ts_samples t))))"

definition lead_start :: "f64 \<Rightarrow> track_samples \<Rightarrow> f64 option" where
  "lead_start origin_s t = (case ts_pts_start_s t of None \<Rightarrow> None
     | Some p \<Rightarrow> get_at (sample_starts p (ts_samples t)) (lead_in origin_s t))"

lemma length_sample_starts [simp]: "length (sample_starts p ss) = length ss"
  by (induction ss arbitrary: p) auto

lemma skip_before_spec:
  assumes "skip_before origin_s ss n b p = Inr (n', b', p')"
  shows "n' = n + length (takeWhile (\<lambda>x. flt x (fsub origin_s nano)) (sample_starts p ss))
    \<and> b' = b + sum_list (map (unat \<circ> si_size) (take (n' - n) ss))
    \<and> (n' - n < length ss \<longrightarrow> p' = sample_starts p ss ! (n' - n))"
  using assms
proof (induction ss arbitrary: n b p)
  case (Cons s ss)
  show ?case
  proof (cases "flt p (fsub origin_s nano)")
    case True
    with Cons.prems have step: "skip_before origin_s ss (n + 1) (b + unat (si_size s)) (fadd p (si_duration_s s)) = Inr (n', b', p')"
      by (auto simp: bind_out_Inr_iff checked_simps Let_def split: if_splits)
    from Cons.IH [OF step] True show ?thesis by (auto simp: take_Cons' nth_Cons')
  qed (use Cons.prems in auto)
qed auto

lemma select_audio_spec:
  assumes "select_audio_after_replay_origin (ts_pts_start_s t) (ts_samples t) n origin_s = Inr sel"
  shows "sl_first_sample sel = lead_in origin_s t \<and> sl_pts_start_s sel = lead_start origin_s t
    \<and> sl_first_byte sel = sum_list (map (unat \<circ> si_size) (take (lead_in origin_s t) (ts_samples t)))
    \<and> lead_in origin_s t \<le> length (ts_samples t)"
proof (cases "ts_samples t = [] \<or> ts_pts_start_s t = None")
  case True
  then show ?thesis using assms
    by (auto simp: select_audio_after_replay_origin_def no_selection_def lead_in_def lead_start_def get_at_def
        split: option.splits)
next
  case False
  then obtain p where p: "ts_pts_start_s t = Some p" "ts_samples t \<noteq> []" by auto
  with assms obtain n' b' p' where sk: "skip_before origin_s (ts_samples t) 0 0 p = Inr (n', b', p')"
    and sel: "sel = \<lparr>sl_first_sample = n', sl_first_byte = b',
      sl_pts_start_s = if n' < length (ts_samples t) then Some p' else None\<rparr>"
    by (auto simp: select_audio_after_replay_origin_def bind_out_Inr_iff split: if_splits)
  have "length (takeWhile (\<lambda>x. flt x (fsub origin_s nano)) (sample_starts p (ts_samples t))) \<le> length (ts_samples t)"
    using length_takeWhile_le [of _ "sample_starts p (ts_samples t)"] by simp
  with skip_before_spec [OF sk] show ?thesis
    by (auto simp: sel p lead_in_def lead_start_def get_at_def)
qed

text \<open>The track with index \<open>i\<close> in the file: video first, then the audio tracks.\<close>

definition segment_track :: "segment \<Rightarrow> nat \<Rightarrow> track_samples" where
  "segment_track s i = (case i of
       0 \<Rightarrow> \<lparr>ts_pts_start_s = Some (sg_pts_start_s s), ts_data = sg_data s, ts_samples = sg_samples s\<rparr>
     | Suc k \<Rightarrow> (case get_at (sg_audio s) k of Some t \<Rightarrow> t
         | None \<Rightarrow> \<lparr>ts_pts_start_s = None, ts_data = [], ts_samples = []\<rparr>))"

definition skipped :: "f64 \<Rightarrow> segment \<Rightarrow> nat \<Rightarrow> nat" where
  "skipped origin_s s i = (if i = 0 then 0 else lead_in origin_s (segment_track s i))"

definition first_pts :: "f64 \<Rightarrow> segment \<Rightarrow> nat \<Rightarrow> f64 option" where
  "first_pts origin_s s i =
     (if i = 0 then Some (sg_pts_start_s s) else lead_start origin_s (segment_track s i))"

definition segment_infos :: "f64 \<Rightarrow> segment \<Rightarrow> nat \<Rightarrow> sample_info list" where
  "segment_infos origin_s s i = drop (skipped origin_s s i) (ts_samples (segment_track s i))"

definition slice_bytes :: "slice_error + bytes \<Rightarrow> bytes" where
  "slice_bytes r = (case r of Inl _ \<Rightarrow> [] | Inr bs \<Rightarrow> bs)"

definition segment_media :: "f64 \<Rightarrow> segment \<Rightarrow> nat \<Rightarrow> (bytes \<times> bool) list" where
  "segment_media origin_s s i =
     zip (map slice_bytes (drop (skipped origin_s s i) (track_sample_slices (segment_track s i))))
       (map si_is_sync (segment_infos origin_s s i))"

section \<open>The clock of a track\<close>

definition pts_ticks :: "f64 \<Rightarrow> f64 \<Rightarrow> u32 \<Rightarrow> nat" where
  "pts_ticks pts_s origin_s timescale =
     round_u64 (fmul (fmax (fsub pts_s origin_s) (Fin 0)) (f64_of_nat (unat timescale)))"

definition seconds_ticks :: "sample_info list \<Rightarrow> u32 \<Rightarrow> nat" where
  "seconds_ticks infos timescale =
     round_u64 (fmul (foldl fadd (Fin 0) (map si_duration_s infos)) (f64_of_nat (unat timescale)))"

text \<open>Where a segment asks its run to start, and where it starts when the clock stands at \<open>now\<close>.\<close>

definition run_requested :: "f64 \<Rightarrow> u32 \<Rightarrow> segment \<Rightarrow> nat \<Rightarrow> nat \<Rightarrow> nat" where
  "run_requested origin_s timescale s i now = (case first_pts origin_s s i of
     None \<Rightarrow> now | Some p \<Rightarrow> pts_ticks p origin_s timescale)"

definition run_from :: "f64 \<Rightarrow> u32 \<Rightarrow> segment \<Rightarrow> nat \<Rightarrow> nat \<Rightarrow> nat" where
  "run_from origin_s timescale s i now = max now (run_requested origin_s timescale s i now)"

definition run_until :: "f64 \<Rightarrow> u32 \<Rightarrow> segment \<Rightarrow> nat \<Rightarrow> nat \<Rightarrow> nat" where
  "run_until origin_s timescale s i now =
     (let infos = segment_infos origin_s s i; start = run_from origin_s timescale s i now
      in if infos = [] then start
         else max (run_requested origin_s timescale s i now + seconds_ticks infos timescale)
                (start + length infos))"

text \<open>
  \<open>paced\<close>: the decode times \<open>ts\<close> of a track whose clock stands at \<open>now\<close>.  Every segment's samples
  start at \<open>run_from\<close>, each lasts at least a tick, and the last one ends at \<open>run_until\<close>.
\<close>

fun paced :: "f64 \<Rightarrow> u32 \<Rightarrow> nat \<Rightarrow> nat \<Rightarrow> segment list \<Rightarrow> nat list \<Rightarrow> bool" where
  "paced origin_s timescale i now [] ts \<longleftrightarrow> ts = []"
| "paced origin_s timescale i now (s # ss) ts \<longleftrightarrow>
     (\<exists>ds more. ts = start_times (run_from origin_s timescale s i now) ds @ more
        \<and> length ds = length (segment_infos origin_s s i) \<and> (\<forall>d \<in> set ds. 0 < d)
        \<and> run_from origin_s timescale s i now + sum_list ds = run_until origin_s timescale s i now
        \<and> paced origin_s timescale i (run_until origin_s timescale s i now) ss more)"

section \<open>Advancing the tracks\<close>

abbreviation decode_clock :: "mp4_writer \<Rightarrow> nat \<Rightarrow> nat" where
  "decode_clock mw i \<equiv> ks_next_decode_time (mw_tracks mw ! i)"

text \<open>
  \<open>advances_to mw mw' ops\<close>: advances that take \<open>mw\<close> to \<open>mw'\<close>; \<open>now i\<close> is where the clock of track
  \<open>i\<close> ends up.
\<close>

definition advances_to :: "mp4_writer \<Rightarrow> mp4_writer \<Rightarrow> (nat \<Rightarrow> nat) \<Rightarrow> writer_op list \<Rightarrow> bool" where
  "advances_to mw mw' now ops \<longleftrightarrow> writer_ok mw' \<and> length (mw_tracks mw') = length (mw_tracks mw)
     \<and> (\<forall>more. writer_run mw (ops @ more) = writer_run mw' more)
     \<and> (\<forall>i. handed ops i = [] \<and> scheduled ops i (decode_clock mw i) = []
          \<and> clock ops i (decode_clock mw i) = now i)
     \<and> (\<forall>i < length (mw_tracks mw). decode_clock mw' i = now i)"

lemma advances_to_refl: "writer_ok mw \<Longrightarrow> advances_to mw mw (decode_clock mw) []"
  by (simp add: advances_to_def handed_def)

lemma advances_to_trans:
  assumes "advances_to mw mw1 now1 ops1" "advances_to mw1 mw2 now2 ops2"
    "\<And>i. length (mw_tracks mw) \<le> i \<Longrightarrow> now1 i = decode_clock mw1 i"
  shows "advances_to mw mw2 now2 (ops1 @ ops2)"
proof -
  have now: "decode_clock mw1 i = now1 i" for i
    using assms(1,3) by (cases "i < length (mw_tracks mw)") (auto simp: advances_to_def)
  have "now2 i = clock ops2 i (now1 i)" "scheduled ops2 i (now1 i) = []" for i
    using assms(2) now by (simp_all add: advances_to_def)
  then show ?thesis using assms(1,2)
    by (simp add: advances_to_def handed_append clock_append scheduled_append)
qed

lemma advance_track_decode_time_to:
  assumes adv: "advance_track_decode_time mw j requested = Inr (mw', line)" and ok: "writer_ok mw"
  obtains ops where "advances_to mw mw' ((decode_clock mw) (j := max (decode_clock mw j) requested)) ops"
    "line = \<lparr>fl_requested_start = requested, fl_write_start = max (decode_clock mw j) requested\<rparr>"
    "j < length (mw_tracks mw)" "\<forall>k. k \<noteq> j \<longrightarrow> mw_tracks mw' ! k = mw_tracks mw ! k"
proof -
  have j: "j < length (mw_tracks mw)"
    and line: "line = \<lparr>fl_requested_start = requested, fl_write_start = max (decode_clock mw j) requested\<rparr>"
    and step: "(if decode_clock mw j < requested then from_writer (set_track_decode_time mw j requested) else Inr mw) = Inr mw'"
    using adv by (auto simp: advance_track_decode_time_def track_decode_time_def get_at_def bind_out_Inr_iff
        split: if_splits)
  show thesis
  proof (cases "decode_clock mw j < requested")
    case False
    then have "advances_to mw mw' ((decode_clock mw) (j := max (decode_clock mw j) requested)) []"
      using step ok advances_to_refl [OF ok] by (auto simp: fun_upd_idem)
    then show thesis using False step line j by (intro that) auto
  next
    case True
    then obtain u where set: "set_track_decode_time mw j requested = (mw', Inr u)"
      using step by (auto simp: from_writer_def split: prod.splits sum.splits)
    have u: "u = ()" by simp
    then obtain st' where st': "advance_track (mw_tracks mw ! j) requested = Inr st'"
      and mw': "mw' = mw\<lparr>mw_tracks := (mw_tracks mw)[j := st']\<rparr>"
      using set j by (auto simp: set_track_decode_time_def get_at_def split: if_splits sum.splits)
    have "ks_next_decode_time st' = requested"
      using advance_track_view [OF st'] writer_ok_tracks [OF ok] j by auto
    moreover have "writer_ok mw'" using set_track_decode_time_ok [of mw j requested mw'] set u ok by auto
    moreover have "writer_run mw (AdvanceTrack j requested # more) = writer_run mw' more" for more
      using set u by simp
    ultimately have "advances_to mw mw' ((decode_clock mw) (j := max (decode_clock mw j) requested)) [AdvanceTrack j requested]"
      using True mw' j by (auto simp: advances_to_def handed_def nth_list_update)
    then show thesis using line j mw' by (intro that) auto
  qed
qed


lemma relative_pts_ticks_Inr: "relative_pts_ticks p origin_s timescale = Inr n \<Longrightarrow> n = pts_ticks p origin_s timescale"
  by (auto simp: relative_pts_ticks_def pts_ticks_def Let_def split: if_splits)

definition asked :: "f64 \<Rightarrow> sample_selection list \<Rightarrow> nat \<Rightarrow> u32 \<Rightarrow> nat \<Rightarrow> nat" where
  "asked origin_s selections k timescale now =
     (case Option.bind (get_at selections k) sl_pts_start_s of None \<Rightarrow> now
      | Some p \<Rightarrow> pts_ticks p origin_s timescale)"

lemma audio_decode_time_to:
  assumes a: "audio_decode_time origin_s selections k cfg mw = Inr (mw', line)" and ok: "writer_ok mw"
  obtains ops where
    "advances_to mw mw' ((decode_clock mw) (k + 1 := max (decode_clock mw (k + 1))
       (asked origin_s selections k (at_sample_rate cfg) (decode_clock mw (k + 1))))) ops"
    "fl_requested_start line = asked origin_s selections k (at_sample_rate cfg) (decode_clock mw (k + 1))"
    "fl_write_start line = max (decode_clock mw (k + 1)) (fl_requested_start line)"
    "k + 1 < length (mw_tracks mw)" "\<forall>j. j \<noteq> k + 1 \<longrightarrow> mw_tracks mw' ! j = mw_tracks mw ! j"
proof (cases "Option.bind (get_at selections k) sl_pts_start_s")
  case None
  with a have r: "k + 1 < length (mw_tracks mw)" "mw' = mw"
    "line = \<lparr>fl_requested_start = decode_clock mw (k + 1), fl_write_start = decode_clock mw (k + 1)\<rparr>"
    by (auto simp: audio_decode_time_def track_decode_time_def get_at_def bind_out_Inr_iff split: if_splits)
  show thesis
    using advances_to_refl [OF ok] r None by (intro that [of "[]"]) (auto simp: asked_def fun_upd_idem)
next
  case (Some p)
  with a obtain requested where rq: "relative_pts_ticks p origin_s (at_sample_rate cfg) = Inr requested"
    and adv: "advance_track_decode_time mw (k + 1) requested = Inr (mw', line)"
    by (auto simp: audio_decode_time_def bind_out_Inr_iff)
  have "requested = asked origin_s selections k (at_sample_rate cfg) (decode_clock mw (k + 1))"
    using relative_pts_ticks_Inr [OF rq] Some by (simp add: asked_def)
  with advance_track_decode_time_to [OF adv ok] that show thesis by (metis fragment_timeline.select_convs)
qed

lemma audio_decode_times_to:
  assumes "audio_decode_times origin_s selections k cfgs mw = Inr (mw', lines)" "writer_ok mw"
  shows "\<exists>now ops. advances_to mw mw' now ops \<and> length lines = length cfgs
    \<and> (\<forall>j < length cfgs. k + j + 1 < length (mw_tracks mw)
        \<and> fl_requested_start (lines ! j)
            = asked origin_s selections (k + j) (at_sample_rate (cfgs ! j)) (decode_clock mw (k + j + 1))
        \<and> fl_write_start (lines ! j) = max (decode_clock mw (k + j + 1)) (fl_requested_start (lines ! j))
        \<and> now (k + j + 1) = fl_write_start (lines ! j))
    \<and> (\<forall>i. i \<le> k \<or> k + length cfgs < i \<longrightarrow> now i = decode_clock mw i)
    \<and> (\<forall>i. i \<le> k \<or> k + length cfgs < i \<longrightarrow> mw_tracks mw' ! i = mw_tracks mw ! i)"
  using assms
proof (induction cfgs arbitrary: k mw lines)
  case Nil
  then show ?case using advances_to_refl [of mw] by (intro exI [of _ "decode_clock mw"] exI [of _ "[]"]) auto
next
  case (Cons cfg cfgs)
  obtain mw1 line more where a: "audio_decode_time origin_s selections k cfg mw = Inr (mw1, line)"
    and r: "audio_decode_times origin_s selections (k + 1) cfgs mw1 = Inr (mw', more)" and l: "lines = line # more"
    using Cons.prems(1) by (auto simp: bind_out_Inr_iff)
  obtain ops1 where one: "advances_to mw mw1 ((decode_clock mw) (k + 1 := max (decode_clock mw (k + 1))
       (asked origin_s selections k (at_sample_rate cfg) (decode_clock mw (k + 1))))) ops1"
    "fl_requested_start line = asked origin_s selections k (at_sample_rate cfg) (decode_clock mw (k + 1))"
    "fl_write_start line = max (decode_clock mw (k + 1)) (fl_requested_start line)"
    "k + 1 < length (mw_tracks mw)" "\<forall>j. j \<noteq> k + 1 \<longrightarrow> mw_tracks mw1 ! j = mw_tracks mw ! j"
    by (rule audio_decode_time_to [OF a Cons.prems(2)]) (rule that, assumption+)
  have ok1: "writer_ok mw1" and len1: "length (mw_tracks mw1) = length (mw_tracks mw)"
    using one(1) by (simp_all add: advances_to_def)
  obtain now ops where IH: "advances_to mw1 mw' now ops" "length more = length cfgs"
    "\<forall>j < length cfgs. k + 1 + j + 1 < length (mw_tracks mw1)
        \<and> fl_requested_start (more ! j)
            = asked origin_s selections (k + 1 + j) (at_sample_rate (cfgs ! j)) (decode_clock mw1 (k + 1 + j + 1))
        \<and> fl_write_start (more ! j) = max (decode_clock mw1 (k + 1 + j + 1)) (fl_requested_start (more ! j))
        \<and> now (k + 1 + j + 1) = fl_write_start (more ! j)"
    "\<forall>i. i \<le> k + 1 \<or> k + 1 + length cfgs < i \<longrightarrow> now i = decode_clock mw1 i"
    "\<forall>i. i \<le> k + 1 \<or> k + 1 + length cfgs < i \<longrightarrow> mw_tracks mw' ! i = mw_tracks mw1 ! i"
    using Cons.IH [OF r ok1] by blast
  have now1: "decode_clock mw1 (k + 1) = fl_write_start line"
    using one(1-4) by (simp add: advances_to_def)
  have adv: "advances_to mw mw' now (ops1 @ ops)"
    by (rule advances_to_trans [OF one(1) IH(1)]) (use one(4,5) in auto)
  have "k + j + 1 < length (mw_tracks mw)
        \<and> fl_requested_start (lines ! j)
            = asked origin_s selections (k + j) (at_sample_rate ((cfg # cfgs) ! j)) (decode_clock mw (k + j + 1))
        \<and> fl_write_start (lines ! j) = max (decode_clock mw (k + j + 1)) (fl_requested_start (lines ! j))
        \<and> now (k + j + 1) = fl_write_start (lines ! j)" if "j < length (cfg # cfgs)" for j
  proof (cases j)
    case 0
    then show ?thesis using one l IH(4) now1 by simp
  next
    case (Suc j')
    then show ?thesis using IH(3) [rule_format, of j'] that one(5) len1 l by simp
  qed
  then show ?case
    using adv IH(2,4,5) one(5) l by (intro exI [of _ now] exI [of _ "ops1 @ ops"]) auto
qed

lemma set_segment_decode_times_to:
  assumes set: "set_segment_decode_times mw pts_s selections video_cfg audio_cfgs origin_s = Inr (mw', lines)"
    and ok: "writer_ok mw" and len: "length (mw_tracks mw) = 1 + length audio_cfgs"
  obtains ops now where "advances_to mw mw' now ops" "length lines = 1 + length audio_cfgs"
    "fl_requested_start (lines ! 0) = pts_ticks pts_s origin_s (vt_timescale video_cfg)"
    "\<And>j. j < length audio_cfgs \<Longrightarrow> fl_requested_start (lines ! (j + 1))
       = asked origin_s selections j (at_sample_rate (audio_cfgs ! j)) (decode_clock mw (j + 1))"
    "\<And>i. i < length lines \<Longrightarrow> fl_write_start (lines ! i) = max (decode_clock mw i) (fl_requested_start (lines ! i))
        \<and> now i = fl_write_start (lines ! i)"
proof -
  obtain requested mw1 video more where rq: "relative_pts_ticks pts_s origin_s (vt_timescale video_cfg) = Inr requested"
    and v: "advance_track_decode_time mw 0 requested = Inr (mw1, video)"
    and a: "audio_decode_times origin_s selections 0 audio_cfgs mw1 = Inr (mw', more)" and l: "lines = video # more"
    using set by (auto simp: set_segment_decode_times_def bind_out_Inr_iff)
  obtain ops1 where one: "advances_to mw mw1 ((decode_clock mw) (0 := max (decode_clock mw 0) requested)) ops1"
    "video = \<lparr>fl_requested_start = requested, fl_write_start = max (decode_clock mw 0) requested\<rparr>"
    "0 < length (mw_tracks mw)" "\<forall>k. k \<noteq> 0 \<longrightarrow> mw_tracks mw1 ! k = mw_tracks mw ! k"
    by (rule advance_track_decode_time_to [OF v ok]) (rule that, assumption+)
  have ok1: "writer_ok mw1" using one(1) by (simp add: advances_to_def)
  have now1: "decode_clock mw1 0 = fl_write_start video" using one(1-3) by (simp add: advances_to_def)
  obtain now ops where two: "advances_to mw1 mw' now ops" "length more = length audio_cfgs"
    "\<forall>j < length audio_cfgs. fl_requested_start (more ! j)
            = asked origin_s selections j (at_sample_rate (audio_cfgs ! j)) (decode_clock mw1 (j + 1))
        \<and> fl_write_start (more ! j) = max (decode_clock mw1 (j + 1)) (fl_requested_start (more ! j))
        \<and> now (j + 1) = fl_write_start (more ! j)"
    "\<forall>i. i \<le> 0 \<or> length audio_cfgs < i \<longrightarrow> now i = decode_clock mw1 i"
    using audio_decode_times_to [OF a ok1] by auto
  have adv: "advances_to mw mw' now (ops1 @ ops)"
    by (rule advances_to_trans [OF one(1) two(1)]) (use one(3,4) in auto)
  have "fl_write_start (lines ! i) = max (decode_clock mw i) (fl_requested_start (lines ! i))
        \<and> now i = fl_write_start (lines ! i)" if "i < length lines" for i
    using that l two one now1 by (cases i) auto
  then show thesis
    using adv l two(2,3) one relative_pts_ticks_Inr [OF rq] by (intro that [of now "ops1 @ ops"]) auto
qed

section \<open>One segment\<close>

lemma total_seconds_fold: "total_seconds acc ss = Inr t \<Longrightarrow> t = foldl fadd acc (map si_duration_s ss)"
  by (induction ss arbitrary: acc) (auto simp: Let_def split: if_splits)

abbreviation fragment_media :: "frag_sample list \<Rightarrow> (bytes \<times> bool) list" where
  "fragment_media fs \<equiv> map (\<lambda>f. (fs_data f, fs_is_sync f)) fs"

lemma quantized_fragment_refs_spec:
  assumes "quantized_fragment_refs slices samples timescale line = Inr refs" "length slices = length samples"
  shows "length refs = length samples
    \<and> fragment_media refs = zip (map slice_bytes slices) (map si_is_sync samples)
    \<and> (\<forall>f \<in> set refs. 0 < unat (fs_duration f))
    \<and> (samples \<noteq> [] \<longrightarrow> fl_write_start line + sum_list (map (unat \<circ> fs_duration) refs)
        = max (fl_requested_start line + seconds_ticks samples timescale) (fl_write_start line + length samples))"
proof -
  obtain ds where q: "quantized_sample_durations samples timescale line = Inr ds"
    and c: "collect fragment_ref (zip (zip slices samples) ds) = Inr refs"
    using assms(1) by (auto simp: quantized_fragment_refs_def bind_out_Inr_iff)
  obtain total_s where t: "total_seconds (Fin 0) samples = Inr total_s" "length ds = length samples"
    "\<forall>d \<in> set ds. 0 < unat d"
    "samples \<noteq> [] \<Longrightarrow> fl_write_start line + sum_list (map unat ds)
      = max (fl_requested_start line + round_u64 (fmul total_s (f64_of_nat (unat timescale))))
            (fl_write_start line + length samples)"
    by (rule quantized_durations_exact [OF q]) (rule that, assumption+)
  have "refs = map (\<lambda>((slice, info), duration). \<lparr>fs_data = slice_bytes slice, fs_duration = duration,
      fs_is_sync = si_is_sync info\<rparr>) (zip (zip slices samples) ds)"
    by (rule collect_Inr_eq_map [OF c]) (auto simp: slice_bytes_def elim!: fragment_ref.elims)
  then have "fragment_media refs = zip (map slice_bytes slices) (map si_is_sync samples)"
    "map fs_duration refs = ds" "length refs = length samples"
    using t(2) assms(2) by (auto intro!: nth_equalityI)
  moreover from this(2) have "map (unat \<circ> fs_duration) refs = map unat ds" by (metis map_map)
  moreover have "\<forall>f \<in> set refs. 0 < unat (fs_duration f)"
    using t(3) \<open>map fs_duration refs = ds\<close> by auto
  ultimately show ?thesis using t(4) by (simp add: seconds_ticks_def total_seconds_fold [OF t(1)])
qed

text \<open>Every track of the fragment, with the timeline the writer gave it.\<close>

lemma resize_nth: "length xss \<le> n \<Longrightarrow> i < n \<Longrightarrow> resize n xss ! i = (if i < length xss then xss ! i else [])"
  by (auto simp: resize_def nth_append)

lemma resize_length [simp]: "length (resize n xss) = n"
  by (simp add: resize_def)

definition track_ok_in :: "f64 \<Rightarrow> u32 \<Rightarrow> segment \<Rightarrow> nat \<Rightarrow> fragment_timeline \<Rightarrow> frag_sample list \<Rightarrow> bool" where
  "track_ok_in origin_s timescale seg i line refs \<longleftrightarrow>
     length refs = length (segment_infos origin_s seg i) \<and> fragment_media refs = segment_media origin_s seg i
     \<and> (\<forall>f \<in> set refs. 0 < unat (fs_duration f))
     \<and> (refs \<noteq> [] \<longrightarrow> fl_write_start line + sum_list (map (unat \<circ> fs_duration) refs)
        = max (fl_requested_start line + seconds_ticks (segment_infos origin_s seg i) timescale)
            (fl_write_start line + length refs))"

lemma slices_length [simp]: "length (track_sample_slices t) = length (ts_samples t)"
  by (simp add: track_sample_slices_def slice_samples_def)

lemma quantized_track_ok:
  assumes "quantized_fragment_refs (drop (skipped origin_s seg i) (track_sample_slices (segment_track seg i)))
      (segment_infos origin_s seg i) timescale line = Inr refs"
  shows "track_ok_in origin_s timescale seg i line refs"
proof -
  have "length (drop (skipped origin_s seg i) (track_sample_slices (segment_track seg i))) = length (segment_infos origin_s seg i)"
    by (simp add: segment_infos_def)
  note q = quantized_fragment_refs_spec [OF assms this]
  then have "refs \<noteq> [] \<longrightarrow> segment_infos origin_s seg i \<noteq> []" by auto
  with q show ?thesis by (auto simp: track_ok_in_def segment_media_def)
qed

lemma segment_selections_spec:
  assumes "segment_audio_selections seg (Some origin_s) = Inr selections"
  shows "length selections = length (sg_audio seg)"
    "k < length (sg_audio seg) \<Longrightarrow> sl_first_sample (selections ! k) = skipped origin_s seg (k + 1)
       \<and> sl_first_byte (selections ! k) = sum_list (map (unat \<circ> si_size) (take (skipped origin_s seg (k + 1)) (ts_samples (sg_audio seg ! k))))
       \<and> skipped origin_s seg (k + 1) \<le> length (ts_samples (sg_audio seg ! k))"
    "asked origin_s selections k timescale now = run_requested origin_s timescale seg (k + 1) now"
proof -
  have c: "collect (\<lambda>t. select_audio_after_replay_origin (ts_pts_start_s t) (ts_samples t) (length (ts_data t)) origin_s)
      (sg_audio seg) = Inr selections"
    using assms by (simp add: segment_audio_selections_def)
  then show len: "length selections = length (sg_audio seg)" by (rule collect_Inr_length)
  have sel: "sl_first_sample (selections ! k) = lead_in origin_s (sg_audio seg ! k)
      \<and> sl_pts_start_s (selections ! k) = lead_start origin_s (sg_audio seg ! k)
      \<and> sl_first_byte (selections ! k) = sum_list (map (unat \<circ> si_size) (take (lead_in origin_s (sg_audio seg ! k)) (ts_samples (sg_audio seg ! k))))
      \<and> lead_in origin_s (sg_audio seg ! k) \<le> length (ts_samples (sg_audio seg ! k))"
    if "k < length (sg_audio seg)" for k
    using select_audio_spec [OF collect_Inr_nth [OF c that]] by simp
  show "k < length (sg_audio seg) \<Longrightarrow> sl_first_sample (selections ! k) = skipped origin_s seg (k + 1)
       \<and> sl_first_byte (selections ! k) = sum_list (map (unat \<circ> si_size) (take (skipped origin_s seg (k + 1)) (ts_samples (sg_audio seg ! k))))
       \<and> skipped origin_s seg (k + 1) \<le> length (ts_samples (sg_audio seg ! k))"
    using sel by (simp add: skipped_def segment_track_def get_at_def)
  show "asked origin_s selections k timescale now = run_requested origin_s timescale seg (k + 1) now"
    using sel [of k] len
    by (cases "k < length (sg_audio seg)")
      (auto simp: asked_def run_requested_def first_pts_def segment_track_def get_at_def lead_start_def
        split: option.splits)
qed

lemma segment_fragment_refs_spec:
  assumes refs: "segment_fragment_refs seg selections video_cfg audio_cfgs lines = Inr per_track"
    and sel: "segment_audio_selections seg (Some origin_s) = Inr selections"
    and len: "length lines = 1 + length audio_cfgs" and i: "i < 1 + length audio_cfgs"
  shows "length per_track = 1 + length audio_cfgs
    \<and> track_ok_in origin_s (track_timescale ((Video video_cfg # map Audio audio_cfgs) ! i)) seg i (lines ! i) (per_track ! i)"
proof -
  let ?audio = "List.enumerate 0 (zip (sg_audio seg) audio_cfgs)"
  obtain video audio where v: "quantized_fragment_refs (segment_sample_slices seg) (sg_samples seg) (vt_timescale video_cfg) (lines ! 0) = Inr video"
    and a: "collect (\<lambda>(index, track, cfg). audio_fragment_refs selections lines index track cfg) ?audio = Inr audio"
    and p: "per_track = resize (1 + length audio_cfgs) (video # audio)"
    using refs len by (auto simp: segment_fragment_refs_def bind_out_Inr_iff get_at_def)
  have la: "length audio = min (length (sg_audio seg)) (length audio_cfgs)" using collect_Inr_length [OF a] by simp
  have nth: "per_track ! i = (if i < length (video # audio) then (video # audio) ! i else [])"
    unfolding p using i la by (intro resize_nth) auto
  have pl: "length per_track = 1 + length audio_cfgs" by (simp add: p)
  show ?thesis
  proof (cases i)
    case 0
    have "track_ok_in origin_s (vt_timescale video_cfg) seg 0 (lines ! 0) video"
      by (rule quantized_track_ok)
        (use v in \<open>simp add: skipped_def segment_track_def segment_infos_def track_sample_slices_def segment_sample_slices_def\<close>)
    with 0 nth pl show ?thesis by (simp add: track_timescale_def)
  next
    case (Suc k)
    then have k: "k < length audio_cfgs" using i by simp
    show ?thesis
    proof (cases "k < length (sg_audio seg)")
      case True
      then have kz: "k < length ?audio" using k by simp
      have "audio_fragment_refs selections lines k (sg_audio seg ! k) (audio_cfgs ! k) = Inr (audio ! k)"
        using collect_Inr_nth [OF a kz] True k by (simp add: nth_enumerate_eq)
      then have "quantized_fragment_refs (drop (skipped origin_s seg i) (track_sample_slices (sg_audio seg ! k)))
          (drop (skipped origin_s seg i) (ts_samples (sg_audio seg ! k))) (at_sample_rate (audio_cfgs ! k)) (lines ! i) = Inr (audio ! k)"
        using segment_selections_spec [OF sel] True len k Suc
        by (auto simp: audio_fragment_refs_def bind_out_Inr_iff get_from_def get_at_def split: if_splits)
      then have "track_ok_in origin_s (at_sample_rate (audio_cfgs ! k)) seg i (lines ! i) (audio ! k)"
        using True Suc by (intro quantized_track_ok) (simp add: segment_infos_def segment_track_def get_at_def)
      with Suc k True nth la pl show ?thesis by (simp add: track_timescale_def)
    next
      case False
      then have "segment_track seg i = \<lparr>ts_pts_start_s = None, ts_data = [], ts_samples = []\<rparr>"
        using Suc by (simp add: segment_track_def get_at_def)
      with False Suc nth la pl show ?thesis
        by (simp add: track_ok_in_def segment_infos_def segment_media_def track_sample_slices_def slice_samples_def)
    qed
  qed
qed

lemma write_fragment_clock:
  assumes "write_fragment_multi mw per_track = (mw', Inr ())" "writer_ok mw" "i < length (mw_tracks mw)"
  shows "decode_clock mw' i = decode_clock mw i + sum_list (map (unat \<circ> fs_duration) (per_track ! i))"
proof -
  have ok: "track_ok (mw_tracks mw ! i)" "decode_ok (mw_tracks mw ! i)"
    using writer_ok_tracks [OF assms(2)] assms(3) by auto
  have "length per_track = length (mw_tracks mw)" using write_fragment_multi_view [OF assms(2,1)] by simp
  from assms(1,3) this show ?thesis
  proof (cases rule: write_fragment_multi_nth)
    case (2 off ss)
    then have "map (unat \<circ> fi_duration) ss = map (unat \<circ> fs_duration) (per_track ! i)" by (metis map_map)
    with record_track_view [OF 2(1) ok] show ?thesis by simp
  qed simp
qed

text \<open>
  Writing segments is a run of the writer: \<open>segments_to\<close> relates the writer before and after to the
  operations between, the samples they hand over and the times they give them.
\<close>

definition segments_to ::
  "track_config list \<Rightarrow> f64 \<Rightarrow> segment list \<Rightarrow> mp4_writer \<Rightarrow> mp4_writer \<Rightarrow> writer_op list \<Rightarrow> bool" where
  "segments_to cfgs origin_s segs mw mw' ops \<longleftrightarrow> writer_ok mw' \<and> length (mw_tracks mw') = length (mw_tracks mw)
     \<and> (\<forall>more. writer_run mw (ops @ more) = writer_run mw' more)
     \<and> (\<forall>i < length cfgs. handed ops i = concat (map (\<lambda>s. segment_media origin_s s i) segs)
         \<and> paced origin_s (track_timescale (cfgs ! i)) i (decode_clock mw i) segs (scheduled ops i (decode_clock mw i))
         \<and> decode_clock mw' i = clock ops i (decode_clock mw i)
         \<and> clock ops i (decode_clock mw i) = foldl (\<lambda>now s. run_until origin_s (track_timescale (cfgs ! i)) s i now) (decode_clock mw i) segs)"

lemma segments_to_Nil: "writer_ok mw \<Longrightarrow> segments_to cfgs origin_s [] mw mw []"
  by (simp add: segments_to_def handed_def)

lemma segments_to_Cons:
  assumes "segments_to cfgs origin_s [s] mw mw1 ops1" "segments_to cfgs origin_s ss mw1 mw2 ops2"
  shows "segments_to cfgs origin_s (s # ss) mw mw2 (ops1 @ ops2)"
proof -
  have clk: "clock ops1 i (decode_clock mw i) = decode_clock mw1 i"
    "run_until origin_s (track_timescale (cfgs ! i)) s i (decode_clock mw i) = decode_clock mw1 i"
    if "i < length cfgs" for i
    using assms(1) that by (auto simp: segments_to_def)
  have "paced origin_s (track_timescale (cfgs ! i)) i (decode_clock mw i) (s # ss)
      (scheduled (ops1 @ ops2) i (decode_clock mw i))" if i: "i < length cfgs" for i
  proof -
    obtain ds where "scheduled ops1 i (decode_clock mw i) = start_times (run_from origin_s (track_timescale (cfgs ! i)) s i (decode_clock mw i)) ds"
      "length ds = length (segment_infos origin_s s i)" "\<forall>d \<in> set ds. 0 < d"
      "run_from origin_s (track_timescale (cfgs ! i)) s i (decode_clock mw i) + sum_list ds
        = run_until origin_s (track_timescale (cfgs ! i)) s i (decode_clock mw i)"
      using assms(1) i by (auto simp: segments_to_def)
    moreover have "paced origin_s (track_timescale (cfgs ! i)) i (decode_clock mw1 i) ss (scheduled ops2 i (decode_clock mw1 i))"
      using assms(2) i by (simp add: segments_to_def)
    ultimately show ?thesis using clk [OF i] by (auto simp: scheduled_append)
  qed
  with clk assms show ?thesis
    by (simp add: segments_to_def handed_append clock_append del: paced.simps)
qed

lemma fragment_segments_to:
  assumes sel: "segment_audio_selections seg (Some origin_s) = Inr selections"
    and set: "set_segment_decode_times mw (sg_pts_start_s seg) selections video_cfg audio_cfgs origin_s = Inr (mw1, lines)"
    and refs: "segment_fragment_refs seg selections video_cfg audio_cfgs lines = Inr per_track"
    and wr: "write_fragment_multi mw1 per_track = (mw', Inr ())"
    and ok: "writer_ok mw" and len: "length (mw_tracks mw) = 1 + length audio_cfgs"
  shows "\<exists>ops. segments_to (Video video_cfg # map Audio audio_cfgs) origin_s [seg] mw mw' ops"
proof -
  let ?cfgs = "Video video_cfg # map Audio audio_cfgs"
  obtain ops now where adv: "advances_to mw mw1 now ops" and ll: "length lines = 1 + length audio_cfgs"
    and l0: "fl_requested_start (lines ! 0) = pts_ticks (sg_pts_start_s seg) origin_s (vt_timescale video_cfg)"
    and lj: "\<And>j. j < length audio_cfgs \<Longrightarrow> fl_requested_start (lines ! (j + 1))
       = asked origin_s selections j (at_sample_rate (audio_cfgs ! j)) (decode_clock mw (j + 1))"
    and ls: "\<And>i. i < length lines \<Longrightarrow> fl_write_start (lines ! i) = max (decode_clock mw i) (fl_requested_start (lines ! i))
        \<and> now i = fl_write_start (lines ! i)"
    by (rule set_segment_decode_times_to [OF set ok len]) (rule that, assumption+)
  have ok1: "writer_ok mw1" and len1: "length (mw_tracks mw1) = length (mw_tracks mw)"
    using adv by (simp_all add: advances_to_def)
  note view = write_fragment_multi_view [OF ok1 wr]
  have len': "length (mw_tracks mw') = length (mw_tracks mw)"
  proof -
    have n: "length per_track = length (mw_tracks mw1)" using view by simp
    show ?thesis using arg_cong [OF conjunct2 [OF conjunct2 [OF view]], of length] n len1 by simp
  qed
  let ?ops = "ops @ [WriteFragment per_track]"
  have track: "handed ?ops i = segment_media origin_s seg i
      \<and> paced origin_s (track_timescale (?cfgs ! i)) i (decode_clock mw i) [seg] (scheduled ?ops i (decode_clock mw i))
      \<and> decode_clock mw' i = clock ?ops i (decode_clock mw i)
      \<and> clock ?ops i (decode_clock mw i) = run_until origin_s (track_timescale (?cfgs ! i)) seg i (decode_clock mw i)"
    if i: "i < length ?cfgs" for i
  proof -
    let ?rate = "track_timescale (?cfgs ! i)" and ?now = "decode_clock mw i"
    have "track_ok_in origin_s ?rate seg i (lines ! i) (per_track ! i)"
      using segment_fragment_refs_spec [OF refs sel ll, of i] i by simp
    then have media: "fragment_media (per_track ! i) = segment_media origin_s seg i"
      and n: "length (per_track ! i) = length (segment_infos origin_s seg i)"
      and pos: "\<forall>f \<in> set (per_track ! i). 0 < unat (fs_duration f)"
      and tot: "per_track ! i \<noteq> [] \<Longrightarrow> fl_write_start (lines ! i) + sum_list (map (unat \<circ> fs_duration) (per_track ! i))
        = max (fl_requested_start (lines ! i) + seconds_ticks (segment_infos origin_s seg i) ?rate)
            (fl_write_start (lines ! i) + length (per_track ! i))"
      by (simp_all add: track_ok_in_def)
    have req: "fl_requested_start (lines ! i) = run_requested origin_s ?rate seg i ?now"
    proof (cases i)
      case 0
      with l0 show ?thesis by (simp add: run_requested_def first_pts_def track_timescale_def)
    next
      case (Suc k)
      with lj [of k] i segment_selections_spec(3) [OF sel] show ?thesis by (simp add: track_timescale_def)
    qed
    have start: "fl_write_start (lines ! i) = run_from origin_s ?rate seg i ?now" "now i = run_from origin_s ?rate seg i ?now"
      using ls [of i] i ll req by (auto simp: run_from_def)
    have until: "run_from origin_s ?rate seg i ?now + sum_list (map (unat \<circ> fs_duration) (per_track ! i))
        = run_until origin_s ?rate seg i ?now"
      using tot n req start by (cases "per_track ! i = []") (auto simp: run_until_def Let_def)
    have at: "decode_clock mw1 i = run_from origin_s ?rate seg i ?now"
      using adv start(2) i len by (simp add: advances_to_def)
    have "decode_clock mw' i = run_until origin_s ?rate seg i ?now"
      using write_fragment_clock [OF wr ok1, of i] at until i len len1 by simp
    moreover have "clock ops i ?now = run_from origin_s ?rate seg i ?now" "scheduled ops i ?now = []" "handed ops i = []"
      using adv start(2) by (simp_all add: advances_to_def)
    moreover have "handed [WriteFragment per_track] i = fragment_media (per_track ! i)" by (simp add: handed_def)
    ultimately show ?thesis
      using until media n pos
      by (auto simp: handed_append clock_append scheduled_append intro!: exI [of _ "map (unat \<circ> fs_duration) (per_track ! i)"])
  qed
  have run: "writer_run mw (?ops @ more) = writer_run mw' more" for more
    using adv wr by (simp add: advances_to_def)
  have "segments_to ?cfgs origin_s [seg] mw mw' ?ops"
    using view len' run track by (auto simp: segments_to_def)
  then show ?thesis by blast
qed

lemma from_writer_Inr: "from_writer r = Inr mw \<longleftrightarrow> r = (mw, Inr ())"
  by (auto simp: from_writer_def split: prod.splits sum.splits)

lemma borrowed_eq: "write_fragment_multi_borrowed = write_fragment_multi"
  by (intro ext) (simp add: write_fragment_multi_borrowed_def write_fragment_multi_def)

lemma memory_segment_to:
  assumes "write_memory_replay_segment mw seg video_cfg audio_cfgs origin_s = Inr mw'" "writer_ok mw"
    "length (mw_tracks mw) = 1 + length audio_cfgs"
  shows "\<exists>ops. segments_to (Video video_cfg # map Audio audio_cfgs) origin_s [seg] mw mw' ops"
  using assms fragment_segments_to
  by (auto simp: write_memory_replay_segment_def bind_out_Inr_iff from_writer_Inr borrowed_eq)

lemma write_segments_to:
  assumes "write_segments (\<lambda>mw s. write_memory_replay_segment mw s video_cfg audio_cfgs origin_s) segs mw = Inr mw'"
    "writer_ok mw" "length (mw_tracks mw) = 1 + length audio_cfgs"
  shows "\<exists>ops. segments_to (Video video_cfg # map Audio audio_cfgs) origin_s segs mw mw' ops"
  using assms
proof (induction segs arbitrary: mw)
  case Nil
  then show ?case using segments_to_Nil by auto
next
  case (Cons s ss)
  then obtain mw1 where one: "write_memory_replay_segment mw s video_cfg audio_cfgs origin_s = Inr mw1"
    and rest: "write_segments (\<lambda>mw s. write_memory_replay_segment mw s video_cfg audio_cfgs origin_s) ss mw1 = Inr mw'"
    by (auto simp: bind_out_Inr_iff)
  obtain ops1 where ops1: "segments_to (Video video_cfg # map Audio audio_cfgs) origin_s [s] mw mw1 ops1"
    using memory_segment_to [OF one Cons.prems(2,3)] by blast
  then have "writer_ok mw1" "length (mw_tracks mw1) = 1 + length audio_cfgs"
    using Cons.prems(3) by (simp_all add: segments_to_def)
  with Cons.IH [OF rest] segments_to_Cons [OF ops1] show ?case by blast
qed

section \<open>A window\<close>

lemma finalize_ok_Inr: "or_panic (finalize mw) = Inr w \<longleftrightarrow> finalize mw = Some w" by simp

text \<open>A finished replay from memory is a recording of the window.\<close>

lemma saved_memory_replay:
  assumes save: "save_replay fs (Memory r) video_start video_cfg source_cfgs sink_new window_s exclude = Inr (w, end_pts)"
  obtains origin_s mw mw' ops segs where "segs = ring_save_window r window_s exclude" "segs \<noteq> []"
    "origin_s = sg_pts_start_s (hd segs)" "end_pts = segment_pts_end_s (last segs)"
    "writer_new_multi sink_new (Video video_cfg # map Audio (replay_audio_cfgs
       (replay_starts_at_stream_origin video_start origin_s) source_cfgs)) = Inr mw"
    "writer_run mw ops = Some mw'" "finalize mw' = Some w"
    "segments_to (Video video_cfg # map Audio (replay_audio_cfgs
       (replay_starts_at_stream_origin video_start origin_s) source_cfgs)) origin_s segs mw mw' ops"
    "\<And>i. i \<le> length source_cfgs \<Longrightarrow> decode_clock mw i = 0"
proof -
  define segs where "segs = ring_save_window r window_s exclude"
  define origin_s where "origin_s = sg_pts_start_s (hd segs)"
  let ?audio = "replay_audio_cfgs (replay_starts_at_stream_origin video_start origin_s) source_cfgs"
  let ?cfgs = "Video video_cfg # map Audio ?audio"
  obtain mw mw' where b: "segs \<noteq> []" "end_pts = segment_pts_end_s (last segs)"
    and new: "writer_new_multi sink_new ?cfgs = Inr mw"
    and wr: "write_segments (\<lambda>mw s. write_memory_replay_segment mw s video_cfg ?audio origin_s) segs mw = Inr mw'"
    and fin: "finalize mw' = Some w"
    using save by (auto simp: save_replay_def storage_save_window_def window_bounds_of_def segs_def origin_s_def
        Let_def bind_out_Inr_iff split: if_splits)
  have len: "length (mw_tracks mw) = 1 + length ?audio" and ok: "writer_ok mw"
    using writer_new_ok [OF new] by auto
  obtain ops where to: "segments_to ?cfgs origin_s segs mw mw' ops"
    using write_segments_to [OF wr ok len] by blast
  have "writer_run mw (ops @ []) = writer_run mw' []" using to unfolding segments_to_def by blast
  then have run: "writer_run mw ops = Some mw'" by simp
  have "decode_clock mw i = 0" if "i \<le> length source_cfgs" for i
  proof -
    have "mw_tracks mw = map track_state_new ?cfgs"
      using new by (auto simp: writer_new_multi_def bind_out_Inr_iff)
    moreover have "i < length ?cfgs" using that by (simp add: replay_audio_cfgs_def)
    ultimately show ?thesis by (simp add: track_state_new_def del: list.map)
  qed
  with b new run fin to show thesis by (intro that [OF segs_def _ origin_s_def])
qed

section \<open>A disk replay saves the same file\<close>

definition record_of :: "source_sample \<Rightarrow> sample_record" where
  "record_of s = \<lparr>sr_offset = ss_offset s, sr_size = ss_size s, sr_duration = ss_duration s,
     sr_is_sync = ss_is_sync s, sr_start_ticks = 0\<rparr>"

lemma to_source_record_of [simp]: "to_source_sample (record_of s) = s"
  by (simp add: record_of_def to_source_sample_def)

definition frag_from :: "bytes \<Rightarrow> source_sample \<Rightarrow> frag_sample" where
  "frag_from f s = frag_of f (record_of s)"

text \<open>
  \<open>agrees\<close>: the disk path fails when the memory path fails, and when they succeed the disk samples
  lie in the payload and read the bytes of the memory samples.
\<close>

abbreviation in_payload :: "bytes \<Rightarrow> source_sample list \<Rightarrow> bool" where
  "in_payload payload out \<equiv> list_all (\<lambda>s. ss_offset s + unat (ss_size s) \<le> length payload) out"

definition agrees :: "bytes \<Rightarrow> source_sample list piped \<Rightarrow> frag_sample list piped \<Rightarrow> bool" where
  "agrees payload disk mem = (case disk of Inl _ \<Rightarrow> \<exists>e. mem = Inl e
     | Inr out \<Rightarrow> mem = Inr (map (frag_from payload) out) \<and> in_payload payload out)"

definition agrees_all :: "bytes \<Rightarrow> source_sample list list piped \<Rightarrow> frag_sample list list piped \<Rightarrow> bool" where
  "agrees_all payload disk mem = (case disk of Inl _ \<Rightarrow> \<exists>e. mem = Inl e
     | Inr outs \<Rightarrow> mem = Inr (map (map (frag_from payload)) outs) \<and> list_all (in_payload payload) outs)"

lemma agrees_collect:
  "list_all2 (\<lambda>x y. agrees payload (f x) (g y)) xs ys \<Longrightarrow> agrees_all payload (collect f xs) (collect g ys)"
  by (induction xs ys rule: list_all2_induct)
    (auto simp: agrees_def agrees_all_def bind_out_def split: sum.splits)

text \<open>The offset walk reads the slices that the memory path takes from the payload.\<close>

lemma source_samples_slices:
  assumes "payload = pre @ data @ post" "length payload \<le> u64_max"
  shows "off \<le> length data \<Longrightarrow> length ds = length samples \<Longrightarrow>
    agrees payload (source_samples_from (length pre + length data) (length pre + off) (zip samples ds))
      (collect fragment_ref (zip (zip (slice_samples_from off data samples) samples) ds))"
proof (induction samples arbitrary: off ds)
  case Nil
  then show ?case by (simp add: agrees_def)
next
  case (Cons s ss)
  obtain d ds' where ds: "ds = d # ds'" "length ds' = length ss" using Cons.prems(2) by (cases ds) auto
  let ?next = "off + unat (si_size s)"
  show ?case
  proof (cases "?next \<le> length data")
    case False
    have "\<exists>e. source_samples_from (length pre + length data) (length pre + off) (zip (s # ss) ds) = Inl e"
      using False by (simp add: ds bind_out_def ok_or_def checked_add_u64_def add.assoc)
    moreover have "\<exists>e. collect fragment_ref (zip (zip (slice_samples_from off data (s # ss)) (s # ss)) ds) = Inl e"
      using False by (simp add: ds checked_add_usize_def get_range_def)
    ultimately show ?thesis by (auto simp: agrees_def)
  next
    case True
    have small: "length pre + ?next \<le> u64_max" "?next \<le> usize_max"
      using True assms by (auto simp: usize_max_def u64_max_def)
    have sl: "slice off ?next data = slice (length pre + off) (length pre + ?next) payload"
      using True by (simp add: assms(1) slice_append_right slice_append_left)
    have IH: "agrees payload (source_samples_from (length pre + length data) (length pre + ?next) (zip ss ds'))
      (collect fragment_ref (zip (zip (slice_samples_from ?next data ss) ss) ds'))"
      by (rule Cons.IH [OF True ds(2)])
    have frag: "frag_from payload \<lparr>ss_offset = length pre + off, ss_size = si_size s, ss_duration = d,
        ss_is_sync = si_is_sync s\<rparr> = \<lparr>fs_data = slice off ?next data, fs_duration = d, fs_is_sync = si_is_sync s\<rparr>"
      by (simp add: frag_from_def frag_of_def record_of_def sl add.assoc)
    have fit: "length pre + off + unat (si_size s) \<le> length payload" using True assms(1) by simp
    show ?thesis
      using True small IH frag fit
      by (auto simp: ds agrees_def checked_add_u64_def checked_add_usize_def get_range_def add.assoc bind_out_def
          split: sum.splits)
  qed
qed

lemma drop_slices:
  "k \<le> length ss \<Longrightarrow> off + sum_list (map (unat \<circ> si_size) (take k ss)) \<le> usize_max \<Longrightarrow>
     drop k (slice_samples_from off data ss)
       = slice_samples_from (off + sum_list (map (unat \<circ> si_size) (take k ss))) data (drop k ss)"
proof (induction ss arbitrary: off k)
  case (Cons s ss)
  show ?case
  proof (cases k)
    case (Suc j)
    with Cons show ?thesis by (simp add: checked_add_usize_def add.assoc)
  qed simp
qed simp

lemma quantized_agrees:
  assumes tr: "tr_offset tr = length pre" "tr_byte_len tr = length (ts_data t)" "tr_samples tr = ts_samples t"
    and payload: "payload = pre @ ts_data t @ post" "length payload \<le> u64_max"
    and sel: "sl_first_sample sel = k" "k \<le> length (ts_samples t)"
      "sl_first_byte sel = sum_list (map (unat \<circ> si_size) (take k (ts_samples t)))"
      "sl_first_byte sel \<le> length (ts_data t)"
  shows "agrees payload (quantized_source_samples tr sel timescale line)
    (quantized_fragment_refs (drop k (track_sample_slices t)) (drop k (ts_samples t)) timescale line)"
proof -
  have fb: "sl_first_byte sel \<le> usize_max" "length pre + length (ts_data t) \<le> u64_max"
      "length pre + sl_first_byte sel \<le> u64_max"
    using sel(4) payload by (auto simp: usize_max_def u64_max_def)
  have dr: "drop k (track_sample_slices t) = slice_samples_from (sl_first_byte sel) (ts_data t) (drop k (ts_samples t))"
    using drop_slices [OF sel(2), of 0] fb(1) sel(3) by (simp add: track_sample_slices_def slice_samples_def)
  show ?thesis
  proof (cases "quantized_sample_durations (drop k (ts_samples t)) timescale line")
    case (Inl e)
    then show ?thesis using tr sel fb
      by (auto simp: agrees_def quantized_source_samples_def quantized_fragment_refs_def get_from_def)
  next
    case (Inr ds)
    have "length ds = length (drop k (ts_samples t))" by (rule quantized_durations_exact [OF Inr])
    from source_samples_slices [OF payload sel(4) this] show ?thesis
      using tr sel(1,2,4) fb Inr
      by (simp add: quantized_source_samples_def quantized_fragment_refs_def dr get_from_def checked_add_u64_def)
  qed
qed

lemma select_audio_byte_bound:
  assumes "select_audio_after_replay_origin p samples n origin_s = Inr sel"
  shows "sl_first_byte sel \<le> n"
  using assms by (auto simp: select_audio_after_replay_origin_def no_selection_def bind_out_Inr_iff Let_def
      split: if_splits option.splits)

lemma collect_cong_nth:
  "length xs = length ys \<Longrightarrow> (\<And>i. i < length xs \<Longrightarrow> f (xs ! i) = g (ys ! i)) \<Longrightarrow> collect f xs = collect g ys"
proof (induction xs ys rule: list_induct2)
  case (Cons x xs y ys)
  have "f x = g y" using Cons.prems [of 0] by simp
  moreover have "collect f xs = collect g ys" using Cons.prems [of "Suc _"] by (intro Cons.IH) auto
  ultimately show ?case by simp
qed simp

lemma stored_audio_tracks:
  assumes "d = stored_segment p s"
  shows "length (audio_tracks d) = length (sg_audio s)"
    "k < length (sg_audio s) \<Longrightarrow> tr_pts_start_s (audio_tracks d ! k) = ts_pts_start_s (sg_audio s ! k)
       \<and> tr_samples (audio_tracks d ! k) = ts_samples (sg_audio s ! k)
       \<and> tr_byte_len (audio_tracks d ! k) = length (ts_data (sg_audio s ! k))
       \<and> tr_offset (audio_tracks d ! k) = length (sg_data s @ concat (map ts_data (take k (sg_audio s))))"
proof -
  have lay: "length (disk_layout off ts) = length ts" for off and ts :: "track_samples list"
    by (induction ts arbitrary: off) auto
  have nth: "disk_layout off ts ! k = \<lparr>dt_pts_start_s = ts_pts_start_s (ts ! k),
      dt_offset = off + length (concat (map ts_data (take k ts))), dt_len = length (ts_data (ts ! k)),
      dt_samples = ts_samples (ts ! k)\<rparr>" if "k < length ts" for k off and ts :: "track_samples list"
    using that
  proof (induction ts arbitrary: off k)
    case (Cons t ts)
    then show ?case by (cases k) (auto simp: add.assoc)
  qed simp
  show "length (audio_tracks d) = length (sg_audio s)"
    by (simp add: assms audio_tracks_def stored_segment_def lay)
  show "k < length (sg_audio s) \<Longrightarrow> tr_pts_start_s (audio_tracks d ! k) = ts_pts_start_s (sg_audio s ! k)
       \<and> tr_samples (audio_tracks d ! k) = ts_samples (sg_audio s ! k)
       \<and> tr_byte_len (audio_tracks d ! k) = length (ts_data (sg_audio s ! k))
       \<and> tr_offset (audio_tracks d ! k) = length (sg_data s @ concat (map ts_data (take k (sg_audio s))))"
    by (simp add: assms audio_tracks_def stored_segment_def lay nth)
qed

lemma disk_selections:
  "d = stored_segment p s \<Longrightarrow> disk_audio_selections d origin_s = segment_audio_selections s (Some origin_s)"
  unfolding disk_audio_selections_def segment_audio_selections_def
  by (rule collect_cong_nth) (auto simp: stored_audio_tracks)

lemma disk_samples_agree:
  assumes d: "d = stored_segment p s" and small: "length (payload_of s) \<le> u64_max"
    and sel: "segment_audio_selections s (Some origin_s) = Inr selections"
  shows "agrees_all (payload_of s) (disk_source_samples d selections video_cfg audio_cfgs lines)
    (segment_fragment_refs s selections video_cfg audio_cfgs lines)"
proof -
  let ?payload = "payload_of s"
  have audio: "agrees ?payload (quantized_source_samples (audio_tracks d ! k) (selections ! k) timescale line)
      (quantized_fragment_refs (drop (sl_first_sample (selections ! k)) (track_sample_slices (sg_audio s ! k)))
        (drop (sl_first_sample (selections ! k)) (ts_samples (sg_audio s ! k))) timescale line)"
    if k: "k < length (sg_audio s)" for k timescale line
  proof (rule quantized_agrees [where t = "sg_audio s ! k"])
    have "concat (map ts_data (sg_audio s)) = concat (map ts_data (take k (sg_audio s)))
        @ ts_data (sg_audio s ! k) @ concat (map ts_data (drop (Suc k) (sg_audio s)))"
      using arg_cong [OF id_take_nth_drop [OF k], of "\<lambda>l. concat (map ts_data l)"] by simp
    then show "?payload = (sg_data s @ concat (map ts_data (take k (sg_audio s)))) @ ts_data (sg_audio s ! k)
        @ concat (map ts_data (drop (Suc k) (sg_audio s)))"
      by (simp add: payload_of_def)
    have c: "collect (\<lambda>t. select_audio_after_replay_origin (ts_pts_start_s t) (ts_samples t) (length (ts_data t)) origin_s)
      (sg_audio s) = Inr selections"
      using sel by (simp add: segment_audio_selections_def)
    show "sl_first_byte (selections ! k) \<le> length (ts_data (sg_audio s ! k))"
      using collect_Inr_nth [OF c k] by (rule select_audio_byte_bound)
  qed (use stored_audio_tracks [OF d] segment_selections_spec(2) [OF sel k] k small in auto)
  have video: "agrees ?payload (quantized_source_samples (video_track d)
         \<lparr>sl_first_sample = 0, sl_first_byte = 0, sl_pts_start_s = tr_pts_start_s (video_track d)\<rparr>
         (vt_timescale video_cfg) line)
       (quantized_fragment_refs (segment_sample_slices s) (sg_samples s) (vt_timescale video_cfg) line)" for line
    using quantized_agrees [of "video_track d" "[]" "\<lparr>ts_pts_start_s = None, ts_data = sg_data s, ts_samples = sg_samples s\<rparr>"
        ?payload "concat (map ts_data (sg_audio s))" "\<lparr>sl_first_sample = 0, sl_first_byte = 0, sl_pts_start_s = tr_pts_start_s (video_track d)\<rparr>"
        0 "vt_timescale video_cfg" line] small
    by (simp add: video_track_def d stored_segment_def payload_of_def track_sample_slices_def segment_sample_slices_def)
  let ?f = "\<lambda>(index, (track, selection), cfg).
           bind_out (ok_or InvalidData (get_at lines (index + 1))) (\<lambda>timeline.
             quantized_source_samples track selection (at_sample_rate cfg) timeline)"
  let ?g = "\<lambda>(index, track, cfg). audio_fragment_refs selections lines index track cfg"
  let ?xs = "List.enumerate 0 (zip (zip (audio_tracks d) selections) audio_cfgs)"
  let ?ys = "List.enumerate 0 (zip (sg_audio s) audio_cfgs)"
  have tracks: "agrees_all ?payload (collect ?f ?xs) (collect ?g ?ys)"
  proof (rule agrees_collect, rule list_all2_all_nthI)
    note ls = segment_selections_spec(1) [OF sel] stored_audio_tracks(1) [OF d]
    show "length ?xs = length ?ys" using ls by simp
    fix k
    assume "k < length ?xs"
    then have k: "k < length (sg_audio s)" "k < length audio_cfgs" using ls by simp_all
    have first: "sl_first_sample (selections ! k) \<le> length (ts_samples (sg_audio s ! k))"
      using segment_selections_spec(2) [OF sel k(1)] by simp
    have x: "?xs ! k = (k, (audio_tracks d ! k, selections ! k), audio_cfgs ! k)"
      "?ys ! k = (k, sg_audio s ! k, audio_cfgs ! k)"
      using k ls by (simp_all add: nth_enumerate_eq)
    show "agrees ?payload (?f (?xs ! k)) (?g (?ys ! k))"
      unfolding x
      using audio [OF k(1)] k ls first
      by (cases "get_at lines (k + 1)")
        (simp_all add: audio_fragment_refs_def get_at_def [of selections] get_from_def agrees_def ok_or_def)
  qed
  have rs: "map (map g) (resize n xss) = resize n (map (map g) xss)" for g :: "source_sample \<Rightarrow> frag_sample" and n xss
    by (simp add: resize_def take_map)
  have ra: "list_all (in_payload ?payload) xss \<Longrightarrow> list_all (in_payload ?payload) (resize n xss)" for n xss
    by (auto simp: resize_def list_all_iff dest: in_set_takeD)
  show ?thesis
  proof (cases "get_at lines 0")
    case None
    then show ?thesis by (simp add: disk_source_samples_def segment_fragment_refs_def agrees_all_def ok_or_def)
  next
    case (Some line)
    show ?thesis
      using video [of line] tracks Some
      by (auto simp: disk_source_samples_def segment_fragment_refs_def agrees_all_def agrees_def bind_out_def rs
          intro!: ra split: sum.splits)
  qed
qed

lemma disk_segment_same:
  assumes rep: "represents fs d s" and small: "length (payload_of s) \<le> u64_max"
    and ok: "writer_ok mw" and len: "length (mw_tracks mw) = 1 + length audio_cfgs"
  shows "write_disk_replay_segment fs mw d video_cfg audio_cfgs origin_s = Inr mw' \<longleftrightarrow>
    write_memory_replay_segment mw s video_cfg audio_cfgs origin_s = Inr mw'"
proof -
  have d: "d = stored_segment (ds_path d) s" using rep by (simp add: represents_def)
  have pts: "ds_pts_start_s d = sg_pts_start_s s" by (subst d) (simp add: stored_segment_def)
  show ?thesis
  proof (cases "segment_audio_selections s (Some origin_s)")
    case (Inl e)
    then show ?thesis
      by (simp add: write_disk_replay_segment_def write_memory_replay_segment_def disk_selections [OF d])
  next
    case sel: (Inr selections)
    have "(case open_payload fs d of Inl e \<Rightarrow> Inl (Err (Payload e))
          | Inr source \<Rightarrow> from_writer (write_fragment_multi_from_source mw1 source outs))
        = from_writer (write_fragment_multi_borrowed mw1 (map (map (frag_from (payload_of s))) outs))"
      if to: "set_segment_decode_times mw (sg_pts_start_s s) selections video_cfg audio_cfgs origin_s = Inr (mw1, lines)"
        and outs: "list_all (in_payload (payload_of s)) outs" for mw1 lines outs
    proof -
      have "writer_ok mw1"
        by (rule set_segment_decode_times_to [OF to ok len]) (simp add: advances_to_def)
      then have "at_end (mw_w mw1)" by (auto simp: writer_ok_def)
      moreover have "all_in_file (payload_of s) (map (map record_of) outs)"
        using outs by (auto simp: list_all_iff in_file_def record_of_def)
      ultimately have "write_fragment_multi_from_source mw1 (payload_of s) (map (map to_source_sample) (map (map record_of) outs))
          = write_fragment_multi mw1 (map (map (frag_of (payload_of s))) (map (map record_of) outs))"
        by (rule copied_fragment)
      then show ?thesis
        by (simp add: represents_open [OF rep] borrowed_eq frag_from_def [abs_def] comp_def)
    qed
    note written = this
    show ?thesis
    proof (cases "set_segment_decode_times mw (sg_pts_start_s s) selections video_cfg audio_cfgs origin_s")
      case (Inr r)
      obtain mw1 lines where r: "r = (mw1, lines)" by (cases r)
      have to: "set_segment_decode_times mw (sg_pts_start_s s) selections video_cfg audio_cfgs origin_s = Inr (mw1, lines)"
        using Inr r by simp
      note agree = disk_samples_agree [OF d small sel, of video_cfg audio_cfgs lines]
      show ?thesis
      proof (cases "disk_source_samples d selections video_cfg audio_cfgs lines")
        case (Inl e)
        with agree show ?thesis
          by (auto simp: agrees_all_def write_disk_replay_segment_def write_memory_replay_segment_def
              disk_selections [OF d] pts sel to)
      next
        case (Inr outs)
        with agree written [OF to, of outs] show ?thesis
          by (simp add: agrees_all_def write_disk_replay_segment_def write_memory_replay_segment_def
              disk_selections [OF d] pts sel to)
      qed
    qed (simp add: write_disk_replay_segment_def write_memory_replay_segment_def disk_selections [OF d] pts sel)
  qed
qed

lemma disk_window_same:
  assumes "list_all2 (represents fs) ds segs" "\<forall>s \<in> set segs. length (payload_of s) \<le> u64_max"
    "writer_ok mw" "length (mw_tracks mw) = 1 + length audio_cfgs"
  shows "write_segments (\<lambda>mw d. write_disk_replay_segment fs mw d video_cfg audio_cfgs origin_s) ds mw = Inr mw' \<longleftrightarrow>
    write_segments (\<lambda>mw s. write_memory_replay_segment mw s video_cfg audio_cfgs origin_s) segs mw = Inr mw'"
  using assms
proof (induction ds segs arbitrary: mw rule: list_all2_induct)
  case (Cons d ds s ss)
  have same: "write_disk_replay_segment fs mw d video_cfg audio_cfgs origin_s = Inr mw1 \<longleftrightarrow>
      write_memory_replay_segment mw s video_cfg audio_cfgs origin_s = Inr mw1" for mw1
    using disk_segment_same [OF Cons.hyps(1)] Cons.prems by simp
  have IH: "write_segments (\<lambda>mw d. write_disk_replay_segment fs mw d video_cfg audio_cfgs origin_s) ds mw1 = Inr mw' \<longleftrightarrow>
      write_segments (\<lambda>mw s. write_memory_replay_segment mw s video_cfg audio_cfgs origin_s) ss mw1 = Inr mw'"
    if mem: "write_memory_replay_segment mw s video_cfg audio_cfgs origin_s = Inr mw1" for mw1
  proof -
    obtain ops where "segments_to (Video video_cfg # map Audio audio_cfgs) origin_s [s] mw mw1 ops"
      using memory_segment_to [OF mem] Cons.prems by blast
    then show ?thesis using Cons.prems by (intro Cons.IH) (auto simp: segments_to_def)
  qed
  show ?case using same IH by (auto simp: bind_out_Inr_iff)
qed simp

lemma represents_bounds:
  "list_all2 (represents fs) ds ss \<Longrightarrow> window_bounds_of (DiskWindow ds) = window_bounds_of (MemoryWindow ss)"
proof -
  assume rel: "list_all2 (represents fs) ds ss"
  have view: "ds_pts_start_s d = sg_pts_start_s s \<and> disk_pts_end_s d = segment_pts_end_s s" if "represents fs d s" for d s
    using represents_view [OF that] by (simp add: same_view_def disk_ops_def)
  have "list_all2 (\<lambda>d s. ds_pts_start_s d = sg_pts_start_s s \<and> disk_pts_end_s d = segment_pts_end_s s) ds ss"
    using rel view by (rule list_all2_mono)
  then have "length ds = length ss" "\<forall>i < length ds. ds_pts_start_s (ds ! i) = sg_pts_start_s (ss ! i)
      \<and> disk_pts_end_s (ds ! i) = segment_pts_end_s (ss ! i)"
    by (simp_all add: list_all2_conv_all_nth)
  then show ?thesis by (cases "ds = []") (auto simp: window_bounds_of_def hd_conv_nth last_conv_nth)
qed

lemma saved_disk_replay:
  assumes ref: "disk_refines r fs m" and small: "\<forall>s \<in> set (rr_segments m). length (payload_of s) \<le> u64_max"
  shows "save_replay fs (Disk r) video_start video_cfg source_cfgs sink_new window_s exclude = Inr out \<longleftrightarrow>
    save_replay fs' (Memory m) video_start video_cfg source_cfgs sink_new window_s exclude = Inr out"
proof -
  let ?ds = "disk_save_window r window_s exclude" and ?ss = "ring_save_window m window_s exclude"
  have rel: "list_all2 (represents fs) ?ds ?ss" by (rule disk_save_refines [OF ref])
  have sub: "set ?ss \<subseteq> set (rr_segments m)"
    by (auto simp: ring_save_window_def split: option.splits dest: in_set_dropD)
  show ?thesis
  proof (cases "window_bounds_of (MemoryWindow ?ss)")
    case None
    then show ?thesis using represents_bounds [OF rel]
      by (simp add: save_replay_def storage_save_window_def)
  next
    case (Some b)
    obtain origin_s end_pts where b: "b = (origin_s, end_pts)" by (cases b)
    let ?audio = "replay_audio_cfgs (replay_starts_at_stream_origin video_start origin_s) source_cfgs"
    have same: "write_segments (\<lambda>mw d. write_disk_replay_segment fs mw d video_cfg ?audio origin_s) ?ds mw = Inr mw' \<longleftrightarrow>
        write_segments (\<lambda>mw s. write_memory_replay_segment mw s video_cfg ?audio origin_s) ?ss mw = Inr mw'"
      if "writer_new_multi sink_new (Video video_cfg # map Audio ?audio) = Inr mw" for mw mw'
      using writer_new_ok [OF that] small sub by (intro disk_window_same [OF rel]) auto
    show ?thesis
      using represents_bounds [OF rel] same Some b
      by (simp add: save_replay_def storage_save_window_def bind_out_Inr_iff Let_def) blast
  qed
qed

end
