(* ===== verification/Pipeline_Session.thy ===== *)
theory Pipeline_Session
  imports Pipeline_Save_Correct
begin

text \<open>
  The full-session recording (crates/clipline-capture/src/pipeline.rs): the recorder hands sealed
  segments to a writer thread over a bounded channel, under a byte budget that both threads keep in
  one atomic counter.  The operations are the atomic steps of the two threads; \<open>session_step\<close>
  interleaves them.
\<close>

section \<open>The shared channel\<close>

datatype session_error = QueueByteBudget | QueueSegmentLimit | WriterStopped

record session_segment =
  sm_video_cfg :: video_track_config
  sm_audio_cfgs :: "audio_track_config list"
  sm_segment :: segment
  sm_reserved_bytes :: nat

datatype session_msg = SegmentMsg session_segment | FinishMsg

text \<open>
  \<open>mpsc::sync_channel\<close>, whether its receiver is alive, and the atomic \<open>queued_bytes\<close>.
\<close>

record session_channel =
  ch_messages :: "session_msg list"
  ch_capacity :: nat
  ch_receiver :: bool
  ch_queued_bytes :: nat

definition session_channel_new :: "nat \<Rightarrow> session_channel" where
  "session_channel_new max_queue_segments = \<lparr>ch_messages = [], ch_capacity = max_queue_segments,
     ch_receiver = True, ch_queued_bytes = 0\<rparr>"

text \<open>\<open>AtomicUsize::fetch_sub\<close> wraps.\<close>

definition fetch_sub_usize :: "nat \<Rightarrow> nat \<Rightarrow> nat" where
  "fetch_sub_usize a b = (a + (2 ^ 64 - b)) mod 2 ^ 64"

definition try_reserve_queue_bytes :: "nat \<Rightarrow> nat \<Rightarrow> nat \<Rightarrow> nat option" where
  "try_reserve_queue_bytes queued bytes max_bytes = (case checked_add_usize queued bytes of
     None \<Rightarrow> None | Some next_bytes \<Rightarrow> if next_bytes \<le> max_bytes then Some next_bytes else None)"

definition release_message_reservation :: "session_channel \<Rightarrow> session_msg \<Rightarrow> session_channel" where
  "release_message_reservation ch msg = (case msg of
       SegmentMsg m \<Rightarrow> ch\<lparr>ch_queued_bytes := fetch_sub_usize (ch_queued_bytes ch) (sm_reserved_bytes m)\<rparr>
     | FinishMsg \<Rightarrow> ch)"

section \<open>The recorder's side\<close>

record session_sink =
  sn_max_queue_bytes :: nat
  sn_audio_cfgs :: "audio_track_config list"
  sn_video_cfg :: "video_track_config option"
  sn_start_s :: "f64 option"
  sn_end_s :: "f64 option"
  sn_send_error :: "session_error option"

definition full_session_queue_max_bytes :: nat where
  "full_session_queue_max_bytes = 128 * 1024 * 1024"

definition full_session_queue_max_segments :: nat where
  "full_session_queue_max_segments = 8"

definition session_sink_new :: "nat \<Rightarrow> audio_track_config list \<Rightarrow> session_sink" where
  "session_sink_new max_queue_bytes audio_cfgs = \<lparr>sn_max_queue_bytes = max_queue_bytes,
     sn_audio_cfgs = audio_cfgs, sn_video_cfg = None, sn_start_s = None, sn_end_s = None,
     sn_send_error = None\<rparr>"

definition start_full_session_with_limits ::
  "(session_sink \<times> session_channel) option \<Rightarrow> audio_track_config list \<Rightarrow> nat \<Rightarrow> nat
     \<Rightarrow> (session_sink \<times> session_channel) piped" where
  "start_full_session_with_limits running audio_cfgs max_queue_bytes max_queue_segments =
     (if running \<noteq> None then Inl (Err AlreadyExists)
      else if max_queue_bytes = 0 \<or> max_queue_segments = 0 then Inl (Err InvalidInput)
      else Inr (session_sink_new max_queue_bytes audio_cfgs, session_channel_new max_queue_segments))"

definition start_full_session ::
  "(session_sink \<times> session_channel) option \<Rightarrow> audio_track_config list
     \<Rightarrow> (session_sink \<times> session_channel) piped" where
  "start_full_session running audio_cfgs =
     start_full_session_with_limits running audio_cfgs full_session_queue_max_bytes
       full_session_queue_max_segments"

text \<open>
  \<open>queue_full_session_segment\<close>: the reservation of the bytes and the \<open>try_send\<close> are two atomic steps;
  \<open>between\<close> is what the writer thread does to the channel in between.
\<close>

definition reserve_segment ::
  "video_track_config \<Rightarrow> segment \<Rightarrow> session_sink \<Rightarrow> session_channel
     \<Rightarrow> (session_sink \<times> session_channel) \<times> session_segment option" where
  "reserve_segment encoder_cfg seg sn ch =
     (if sn_send_error sn \<noteq> None then ((sn, ch), None)
      else case try_reserve_queue_bytes (ch_queued_bytes ch) (segment_byte_len seg) (sn_max_queue_bytes sn) of
        None \<Rightarrow> ((sn\<lparr>sn_send_error := Some QueueByteBudget\<rparr>, ch), None)
      | Some next_bytes \<Rightarrow>
          let video_cfg = (case sn_video_cfg sn of None \<Rightarrow> encoder_cfg | Some cfg \<Rightarrow> cfg)
          in ((sn\<lparr>sn_video_cfg := Some video_cfg\<rparr>, ch\<lparr>ch_queued_bytes := next_bytes\<rparr>),
              Some \<lparr>sm_video_cfg = video_cfg, sm_audio_cfgs = sn_audio_cfgs sn, sm_segment = seg,
                    sm_reserved_bytes = segment_byte_len seg\<rparr>))"

definition send_segment ::
  "session_segment \<Rightarrow> session_sink \<Rightarrow> session_channel \<Rightarrow> session_sink \<times> session_channel" where
  "send_segment m sn ch =
     (if \<not> ch_receiver ch
      then (sn\<lparr>sn_send_error := Some WriterStopped\<rparr>, release_message_reservation ch (SegmentMsg m))
      else if ch_capacity ch \<le> length (ch_messages ch)
      then (sn\<lparr>sn_send_error := Some QueueSegmentLimit\<rparr>, release_message_reservation ch (SegmentMsg m))
      else (sn\<lparr>sn_start_s := (case sn_start_s sn of None \<Rightarrow> Some (sg_pts_start_s (sm_segment m)) | Some s \<Rightarrow> Some s),
               sn_end_s := Some (segment_pts_end_s (sm_segment m))\<rparr>,
            ch\<lparr>ch_messages := ch_messages ch @ [SegmentMsg m]\<rparr>))"

definition queue_full_session_segment ::
  "(session_channel \<Rightarrow> session_channel) \<Rightarrow> video_track_config \<Rightarrow> segment \<Rightarrow> session_sink \<times> session_channel
     \<Rightarrow> session_sink \<times> session_channel" where
  "queue_full_session_segment between encoder_cfg seg session =
     (case reserve_segment encoder_cfg seg (fst session) (snd session) of
        (session', None) \<Rightarrow> session'
      | ((sn, ch), Some m) \<Rightarrow> send_segment m sn (between ch))"

section \<open>The writer thread\<close>

record session_writer =
  sw_target :: "sink option"
  sw_writer :: "mp4_writer option"
  sw_timeline_origin_s :: "f64 option"
  sw_first_error :: "pipeline_error option"

definition session_writer_new :: "sink \<Rightarrow> session_writer" where
  "session_writer_new target = \<lparr>sw_target = Some target, sw_writer = None,
     sw_timeline_origin_s = None, sw_first_error = None\<rparr>"

text \<open>The writer of the session, created for the first segment.\<close>

definition session_mp4_writer ::
  "session_writer \<Rightarrow> session_segment \<Rightarrow> session_writer \<times> mp4_writer piped" where
  "session_mp4_writer sw m = (case sw_writer sw of
       Some mw \<Rightarrow> (sw, Inr mw)
     | None \<Rightarrow> (case sw_target sw of
           None \<Rightarrow> (sw, Inl (Err BrokenPipe))
         | Some target \<Rightarrow> (sw\<lparr>sw_target := None\<rparr>, map_err Mux (writer_new_multi target
             (Video (sm_video_cfg m) # map Audio (sm_audio_cfgs m))))))"

definition write_full_session_segment ::
  "session_writer \<Rightarrow> session_segment \<Rightarrow> session_writer \<times> (pipeline_error, unit) outcome" where
  "write_full_session_segment sw m =
     (let seg = sm_segment m;
          origin_s = (case sw_timeline_origin_s sw of None \<Rightarrow> sg_pts_start_s seg | Some s \<Rightarrow> s)
      in case session_mp4_writer (sw\<lparr>sw_timeline_origin_s := Some origin_s\<rparr>) m of
           (sw', Inl e) \<Rightarrow> (sw', Inl e)
         | (sw', Inr mw) \<Rightarrow>
             (case bind_out (segment_audio_selections seg (Some origin_s)) (\<lambda>selections.
                   bind_out (set_segment_decode_times mw (sg_pts_start_s seg) selections (sm_video_cfg m)
                     (sm_audio_cfgs m) origin_s) (\<lambda>(mw, timelines).
                   bind_out (segment_fragment_refs seg selections (sm_video_cfg m) (sm_audio_cfgs m) timelines)
                     (\<lambda>per_track. from_writer (write_fragment_multi_borrowed mw per_track)))) of
                Inl e \<Rightarrow> (sw', Inl e)
              | Inr mw' \<Rightarrow> (sw'\<lparr>sw_writer := Some mw'\<rparr>, Inr ())))"

text \<open>The \<open>Segment\<close> arm of the loop: \<open>None\<close> when the thread panics.\<close>

definition handle_segment :: "session_writer \<Rightarrow> session_segment \<Rightarrow> session_writer option" where
  "handle_segment sw m =
     (if sw_first_error sw \<noteq> None then Some sw
      else case write_full_session_segment sw m of
        (sw', Inr _) \<Rightarrow> Some sw'
      | (sw', Inl (Err e)) \<Rightarrow> Some (sw'\<lparr>sw_first_error := Some e, sw_writer := None\<rparr>)
      | (sw', Inl Panic) \<Rightarrow> None)"

text \<open>The \<open>Finish\<close> arm: the result it replies with, and the finalized file.\<close>

definition handle_finish :: "session_writer \<Rightarrow> sink option piped" where
  "handle_finish sw = (case sw_first_error sw of
       Some e \<Rightarrow> Inl (Err e)
     | None \<Rightarrow> (case sw_writer sw of
           None \<Rightarrow> Inr None
         | Some mw \<Rightarrow> bind_out (or_panic (finalize mw)) (\<lambda>w. Inr (Some w))))"

section \<open>Finishing\<close>

record full_session_summary =
  fs_start_s :: f64
  fs_end_s :: f64
  fs_duration_s :: f64

text \<open>
  \<open>finish_full_session_writer\<close>: \<open>reply\<close> is what the thread left: \<open>None\<close> when it was gone before the
  message or before its reply, or its result.
\<close>

definition finish_full_session_writer :: "sink option piped option \<Rightarrow> sink option piped" where
  "finish_full_session_writer reply = (case reply of
       None \<Rightarrow> Inl (Err BrokenPipe)
     | Some (Inl Panic) \<Rightarrow> Inl (Err BrokenPipe)
     | Some (Inl (Err e)) \<Rightarrow> Inl (Err e)
     | Some (Inr w) \<Rightarrow> Inr w)"

definition finish_full_session ::
  "session_sink option \<Rightarrow> sink option piped option \<Rightarrow> full_session_summary option piped" where
  "finish_full_session running reply = (case running of
       None \<Rightarrow> Inr None
     | Some sn \<Rightarrow>
         bind_out (finish_full_session_writer reply) (\<lambda>_.
           if sn_send_error sn \<noteq> None then Inl (Err BrokenPipe)
           else case sn_start_s sn of
             None \<Rightarrow> Inr None
           | Some start_s \<Rightarrow>
               let end_s = (case sn_end_s sn of None \<Rightarrow> start_s | Some e \<Rightarrow> e)
               in Inr (Some \<lparr>fs_start_s = start_s, fs_end_s = end_s, fs_duration_s = fsub end_s start_s\<rparr>)))"

section \<open>The two threads\<close>

text \<open>
  The recorder is idle, between its reservation and its \<open>try_send\<close>, or waiting for the reply; the
  thread waits for a message, handles a segment, has stopped with a result, or has panicked.
\<close>

datatype recorder_phase = Idle | Sending session_segment | AwaitingReply

datatype writer_phase = Receiving | Handling session_segment | Stopped "sink option piped"

record session_system =
  sy_sink :: session_sink
  sy_channel :: session_channel
  sy_recorder :: recorder_phase
  sy_thread :: session_writer
  sy_writer :: writer_phase

definition session_start :: "session_sink \<Rightarrow> nat \<Rightarrow> sink \<Rightarrow> session_system" where
  "session_start sn max_queue_segments target = \<lparr>sy_sink = sn, sy_channel = session_channel_new max_queue_segments,
     sy_recorder = Idle, sy_thread = session_writer_new target, sy_writer = Receiving\<rparr>"

text \<open>What the thread does next; a panic drops the receiver and releases nothing.\<close>

definition writer_turn :: "session_system \<Rightarrow> session_system" where
  "writer_turn sy = (case sy_writer sy of
       Receiving \<Rightarrow> (case ch_messages (sy_channel sy) of
           [] \<Rightarrow> sy
         | SegmentMsg m # rest \<Rightarrow> sy\<lparr>sy_channel := (sy_channel sy)\<lparr>ch_messages := rest\<rparr>, sy_writer := Handling m\<rparr>
         | FinishMsg # rest \<Rightarrow> sy\<lparr>sy_channel := (sy_channel sy)\<lparr>ch_messages := rest, ch_receiver := False\<rparr>,
             sy_writer := Stopped (handle_finish (sy_thread sy))\<rparr>)
     | Handling m \<Rightarrow> (case handle_segment (sy_thread sy) m of
           None \<Rightarrow> sy\<lparr>sy_channel := (sy_channel sy)\<lparr>ch_receiver := False\<rparr>, sy_writer := Stopped (Inl Panic)\<rparr>
         | Some sw \<Rightarrow> sy\<lparr>sy_channel := release_message_reservation (sy_channel sy) (SegmentMsg m),
             sy_thread := sw, sy_writer := Receiving\<rparr>)
     | Stopped r \<Rightarrow> sy)"

text \<open>
  The steps with what they make visible: a segment the recorder offers, one accepted by the channel,
  or one handled by the thread.  The recorder does not queue while it awaits the reply: \<open>finish_full_session\<close> took the sink.
\<close>

datatype session_event = Offered segment | Accepted session_segment | Handled session_segment | Silent

inductive session_step :: "session_system \<Rightarrow> session_event \<Rightarrow> session_system \<Rightarrow> bool" where
  reserved: "sy_recorder sy = Idle \<Longrightarrow>
     reserve_segment encoder_cfg seg (sy_sink sy) (sy_channel sy) = ((sn, ch), Some m) \<Longrightarrow>
     session_step sy (Offered seg) (sy\<lparr>sy_sink := sn, sy_channel := ch, sy_recorder := Sending m\<rparr>)"
| refused: "sy_recorder sy = Idle \<Longrightarrow>
     reserve_segment encoder_cfg seg (sy_sink sy) (sy_channel sy) = ((sn, ch), None) \<Longrightarrow>
     session_step sy (Offered seg) (sy\<lparr>sy_sink := sn, sy_channel := ch\<rparr>)"
| sent: "sy_recorder sy = Sending m \<Longrightarrow> send_segment m (sy_sink sy) (sy_channel sy) = (sn, ch) \<Longrightarrow>
     session_step sy (if sn_send_error sn = None then Accepted m else Silent)
       (sy\<lparr>sy_sink := sn, sy_channel := ch, sy_recorder := Idle\<rparr>)"
| finishing: "sy_recorder sy = Idle \<Longrightarrow> ch_receiver (sy_channel sy) \<Longrightarrow>
     length (ch_messages (sy_channel sy)) < ch_capacity (sy_channel sy) \<Longrightarrow>
     session_step sy Silent (sy\<lparr>sy_recorder := AwaitingReply,
       sy_channel := (sy_channel sy)\<lparr>ch_messages := ch_messages (sy_channel sy) @ [FinishMsg]\<rparr>\<rparr>)"
| handled: "sy_writer sy = Handling m \<Longrightarrow> session_step sy (Handled m) (writer_turn sy)"
| received: "sy_writer sy = Receiving \<Longrightarrow> ch_messages (sy_channel sy) \<noteq> [] \<Longrightarrow>
     session_step sy Silent (writer_turn sy)"

inductive session_run :: "session_system \<Rightarrow> session_event list \<Rightarrow> session_system \<Rightarrow> bool" where
  start: "session_run sy [] sy"
| step: "session_run sy es sy1 \<Longrightarrow> session_step sy1 e sy2 \<Longrightarrow> session_run sy (es @ [e]) sy2"

section \<open>The steps, case by case\<close>

fun accepted :: "session_event list \<Rightarrow> session_segment list" where
  "accepted [] = []"
| "accepted (Accepted m # es) = m # accepted es"
| "accepted (e # es) = accepted es"

fun offered :: "session_event list \<Rightarrow> segment list" where
  "offered [] = []"
| "offered (Offered seg # es) = seg # offered es"
| "offered (e # es) = offered es"

fun handled_segments :: "session_event list \<Rightarrow> session_segment list" where
  "handled_segments [] = []"
| "handled_segments (Handled m # es) = m # handled_segments es"
| "handled_segments (e # es) = handled_segments es"

fun queued_segments :: "session_msg list \<Rightarrow> session_segment list" where
  "queued_segments [] = []"
| "queued_segments (SegmentMsg m # ms) = m # queued_segments ms"
| "queued_segments (FinishMsg # ms) = queued_segments ms"

lemma accepted_append [simp]: "accepted (xs @ ys) = accepted xs @ accepted ys"
  by (induction xs rule: accepted.induct) auto

lemma offered_append [simp]: "offered (xs @ ys) = offered xs @ offered ys"
  by (induction xs rule: offered.induct) auto

lemma handled_append' [simp]: "handled_segments (xs @ ys) = handled_segments xs @ handled_segments ys"
  by (induction xs rule: handled_segments.induct) auto

lemma queued_append [simp]: "queued_segments (xs @ ys) = queued_segments xs @ queued_segments ys"
  by (induction xs rule: queued_segments.induct) auto

lemma session_step_consider:
  assumes "session_step sy e sy'"
  obtains (Reserve) encoder_cfg seg sn ch m where "sy_recorder sy = Idle" "e = Offered seg"
      "reserve_segment encoder_cfg seg (sy_sink sy) (sy_channel sy) = ((sn, ch), Some m)"
      "sy' = sy\<lparr>sy_sink := sn, sy_channel := ch, sy_recorder := Sending m\<rparr>"
  | (Refuse) encoder_cfg seg sn ch where "sy_recorder sy = Idle" "e = Offered seg"
      "reserve_segment encoder_cfg seg (sy_sink sy) (sy_channel sy) = ((sn, ch), None)"
      "sy' = sy\<lparr>sy_sink := sn, sy_channel := ch\<rparr>"
  | (Send) m sn ch where "sy_recorder sy = Sending m" "send_segment m (sy_sink sy) (sy_channel sy) = (sn, ch)"
      "e = (if sn_send_error sn = None then Accepted m else Silent)"
      "sy' = sy\<lparr>sy_sink := sn, sy_channel := ch, sy_recorder := Idle\<rparr>"
  | (Finish) "sy_recorder sy = Idle" "e = Silent" "ch_receiver (sy_channel sy)"
      "length (ch_messages (sy_channel sy)) < ch_capacity (sy_channel sy)"
      "sy' = sy\<lparr>sy_recorder := AwaitingReply,
         sy_channel := (sy_channel sy)\<lparr>ch_messages := ch_messages (sy_channel sy) @ [FinishMsg]\<rparr>\<rparr>"
  | (Panicked) m where "sy_writer sy = Handling m" "e = Handled m" "handle_segment (sy_thread sy) m = None"
      "sy' = sy\<lparr>sy_channel := (sy_channel sy)\<lparr>ch_receiver := False\<rparr>, sy_writer := Stopped (Inl Panic)\<rparr>"
  | (Handle) m sw where "sy_writer sy = Handling m" "e = Handled m" "handle_segment (sy_thread sy) m = Some sw"
      "sy' = sy\<lparr>sy_channel := release_message_reservation (sy_channel sy) (SegmentMsg m), sy_thread := sw,
         sy_writer := Receiving\<rparr>"
  | (Receive) m rest where "sy_writer sy = Receiving" "e = Silent" "ch_messages (sy_channel sy) = SegmentMsg m # rest"
      "sy' = sy\<lparr>sy_channel := (sy_channel sy)\<lparr>ch_messages := rest\<rparr>, sy_writer := Handling m\<rparr>"
  | (Close) rest where "sy_writer sy = Receiving" "e = Silent" "ch_messages (sy_channel sy) = FinishMsg # rest"
      "sy' = sy\<lparr>sy_channel := (sy_channel sy)\<lparr>ch_messages := rest, ch_receiver := False\<rparr>,
         sy_writer := Stopped (handle_finish (sy_thread sy))\<rparr>"
  using assms
proof (cases rule: session_step.cases)
  case (handled m)
  then show thesis
    using that(5,6) by (cases "handle_segment (sy_thread sy) m") (auto simp: writer_turn_def)
next
  case received
  then obtain msg rest where m: "ch_messages (sy_channel sy) = msg # rest" by (cases "ch_messages (sy_channel sy)") auto
  then show thesis
    using received that(7,8) by (cases msg) (auto simp: writer_turn_def)
qed (use that(1-4) in blast)+

section \<open>The byte budget\<close>

definition sending :: "session_system \<Rightarrow> session_segment list" where
  "sending sy = (case sy_recorder sy of Sending m \<Rightarrow> [m] | _ \<Rightarrow> [])"

definition handling :: "session_system \<Rightarrow> session_segment list" where
  "handling sy = (case sy_writer sy of Handling m \<Rightarrow> [m] | _ \<Rightarrow> [])"

text \<open>The bytes of every segment between its reservation and its release.\<close>

definition held_bytes :: "session_system \<Rightarrow> nat" where
  "held_bytes sy = sum_list (map sm_reserved_bytes (sending sy @ queued_segments (ch_messages (sy_channel sy)) @ handling sy))"

definition writer_panicked :: "session_system \<Rightarrow> bool" where
  "writer_panicked sy \<longleftrightarrow> sy_writer sy = Stopped (Inl Panic)"

definition budget_ok :: "session_system \<Rightarrow> bool" where
  "budget_ok sy \<longleftrightarrow> held_bytes sy \<le> ch_queued_bytes (sy_channel sy)
     \<and> (\<not> writer_panicked sy \<longrightarrow> ch_queued_bytes (sy_channel sy) = held_bytes sy)
     \<and> ch_queued_bytes (sy_channel sy) \<le> sn_max_queue_bytes (sy_sink sy)
     \<and> length (ch_messages (sy_channel sy)) \<le> ch_capacity (sy_channel sy)"

lemma fetch_sub_ok: "b \<le> a \<Longrightarrow> a \<le> usize_max \<Longrightarrow> fetch_sub_usize a b = a - b"
proof -
  assume ab: "b \<le> a" "a \<le> usize_max"
  then have "a + (2 ^ 64 - b) = (a - b) + 2 ^ 64" "a - b < 2 ^ 64" by (auto simp: usize_max_def)
  then show ?thesis unfolding fetch_sub_usize_def by (metis mod_add_self2 mod_less)
qed

lemma reserve_segment_Some:
  assumes "reserve_segment encoder_cfg seg sn ch = ((sn', ch'), Some m)"
  shows "sn_send_error sn = None \<and> ch' = ch\<lparr>ch_queued_bytes := ch_queued_bytes ch + segment_byte_len seg\<rparr>
    \<and> ch_queued_bytes ch + segment_byte_len seg \<le> sn_max_queue_bytes sn
    \<and> sn' = sn\<lparr>sn_video_cfg := Some (sm_video_cfg m)\<rparr> \<and> sm_segment m = seg
    \<and> sm_audio_cfgs m = sn_audio_cfgs sn \<and> sm_reserved_bytes m = segment_byte_len seg
    \<and> (sn_video_cfg sn = None \<or> sn_video_cfg sn = Some (sm_video_cfg m))"
  using assms by (auto simp: reserve_segment_def try_reserve_queue_bytes_def checked_simps Let_def
      split: option.splits if_splits)

lemma reserve_segment_None:
  assumes "reserve_segment encoder_cfg seg sn ch = ((sn', ch'), None)"
  shows "ch' = ch \<and> (sn' = sn \<or> sn' = sn\<lparr>sn_send_error := Some QueueByteBudget\<rparr>)"
  using assms by (auto simp: reserve_segment_def Let_def split: option.splits if_splits)

lemma budget_step:
  assumes "session_step sy e sy'" "budget_ok sy" "sn_max_queue_bytes (sy_sink sy) \<le> usize_max"
  shows "budget_ok sy' \<and> sn_max_queue_bytes (sy_sink sy') = sn_max_queue_bytes (sy_sink sy)
    \<and> ch_capacity (sy_channel sy') = ch_capacity (sy_channel sy)"
  using assms(1)
proof (cases rule: session_step_consider)
  case (Reserve encoder_cfg seg sn ch m)
  with reserve_segment_Some [OF Reserve(3)] assms(2) show ?thesis
    by (auto simp: budget_ok_def held_bytes_def sending_def handling_def writer_panicked_def)
next
  case (Refuse encoder_cfg seg sn ch)
  with reserve_segment_None [OF Refuse(3)] assms(2) show ?thesis
    by (auto simp: budget_ok_def held_bytes_def sending_def handling_def writer_panicked_def)
next
  case (Send m sn ch)
  have m: "sm_reserved_bytes m \<le> ch_queued_bytes (sy_channel sy)" "ch_queued_bytes (sy_channel sy) \<le> usize_max"
    using Send(1) assms(2,3) by (auto simp: budget_ok_def held_bytes_def sending_def)
  from Send m assms(2) show ?thesis
    by (auto simp: budget_ok_def held_bytes_def sending_def handling_def writer_panicked_def send_segment_def
        release_message_reservation_def fetch_sub_ok split: if_splits)
next
  case (Handle m sw)
  have m: "sm_reserved_bytes m \<le> ch_queued_bytes (sy_channel sy)" "ch_queued_bytes (sy_channel sy) \<le> usize_max"
    using Handle(1) assms(2,3) by (auto simp: budget_ok_def held_bytes_def handling_def)
  from Handle m assms(2) show ?thesis
    by (auto simp: budget_ok_def held_bytes_def sending_def handling_def writer_panicked_def
        release_message_reservation_def fetch_sub_ok)
next
  case (Close rest)
  with assms(2) show ?thesis
    by (auto simp: budget_ok_def held_bytes_def sending_def handling_def writer_panicked_def split: if_splits)
qed (use assms(2) in \<open>auto simp: budget_ok_def held_bytes_def sending_def handling_def writer_panicked_def\<close>)

lemma budget_run:
  "session_run sy es sy' \<Longrightarrow> budget_ok sy \<Longrightarrow> sn_max_queue_bytes (sy_sink sy) \<le> usize_max \<Longrightarrow>
     budget_ok sy' \<and> sn_max_queue_bytes (sy_sink sy') = sn_max_queue_bytes (sy_sink sy)
       \<and> ch_capacity (sy_channel sy') = ch_capacity (sy_channel sy)"
  by (induction rule: session_run.induct) (auto dest: budget_step)

lemma budget_start: "budget_ok (session_start (session_sink_new max_bytes audio_cfgs) n target)"
  by (simp add: budget_ok_def session_start_def session_channel_new_def held_bytes_def sending_def handling_def)

section \<open>The order of the segments\<close>

text \<open>Segments are handled in the order in which the channel accepted them.\<close>

definition fifo :: "session_event list \<Rightarrow> session_system \<Rightarrow> bool" where
  "fifo es sy \<longleftrightarrow> accepted es = handled_segments es @ handling sy @ queued_segments (ch_messages (sy_channel sy))"

text \<open>\<open>Finish\<close> is the last message, and the thread leaves none behind when it stops on it.\<close>

definition closing_ok :: "session_system \<Rightarrow> bool" where
  "closing_ok sy \<longleftrightarrow> FinishMsg \<notin> set (butlast (ch_messages (sy_channel sy)))
     \<and> (sy_recorder sy \<noteq> AwaitingReply \<longrightarrow> FinishMsg \<notin> set (ch_messages (sy_channel sy)))
     \<and> (sy_recorder sy = AwaitingReply \<and> (\<forall>r. sy_writer sy \<noteq> Stopped r) \<longrightarrow> FinishMsg \<in> set (ch_messages (sy_channel sy)))
     \<and> (\<forall>r. sy_writer sy = Stopped r \<longrightarrow> \<not> ch_receiver (sy_channel sy)
          \<and> (r \<noteq> Inl Panic \<longrightarrow> ch_messages (sy_channel sy) = [] \<and> sy_recorder sy = AwaitingReply))"

text \<open>
  All segments carry the configurations of the first one, and the summary of the sink names the
  first and the last accepted segment.
\<close>

definition sink_ok :: "session_event list \<Rightarrow> session_system \<Rightarrow> bool" where
  "sink_ok es sy \<longleftrightarrow>
     (\<forall>m \<in> set (accepted es @ sending sy). sn_video_cfg (sy_sink sy) = Some (sm_video_cfg m)
          \<and> sm_audio_cfgs m = sn_audio_cfgs (sy_sink sy))
     \<and> sn_start_s (sy_sink sy) = (if accepted es = [] then None else Some (sg_pts_start_s (sm_segment (hd (accepted es)))))
     \<and> sn_end_s (sy_sink sy) = (if accepted es = [] then None else Some (segment_pts_end_s (sm_segment (last (accepted es)))))
     \<and> (sending sy \<noteq> [] \<longrightarrow> sn_send_error (sy_sink sy) = None)"

lemma send_segment_cases:
  assumes "send_segment m sn ch = (sn', ch')" "sn_send_error sn = None"
  obtains (sent) "ch_receiver ch" "length (ch_messages ch) < ch_capacity ch" "sn_send_error sn' = None"
      "ch' = ch\<lparr>ch_messages := ch_messages ch @ [SegmentMsg m]\<rparr>"
      "sn' = sn\<lparr>sn_start_s := (case sn_start_s sn of None \<Rightarrow> Some (sg_pts_start_s (sm_segment m)) | Some s \<Rightarrow> Some s),
               sn_end_s := Some (segment_pts_end_s (sm_segment m))\<rparr>"
  | (failed) e where "sn' = sn\<lparr>sn_send_error := Some e\<rparr>"
      "ch' = ch\<lparr>ch_queued_bytes := fetch_sub_usize (ch_queued_bytes ch) (sm_reserved_bytes m)\<rparr>"
  using assms by (auto simp: send_segment_def release_message_reservation_def not_le split: if_splits)

lemmas session_defs = sending_def handling_def release_message_reservation_def

lemma fifo_step:
  assumes "session_step sy e sy'" "fifo es sy" "sending sy \<noteq> [] \<longrightarrow> sn_send_error (sy_sink sy) = None"
  shows "fifo (es @ [e]) sy'"
  using assms(1)
proof (cases rule: session_step_consider)
  case (Reserve encoder_cfg seg sn ch m)
  with reserve_segment_Some [OF Reserve(3)] assms(2) show ?thesis by (simp add: fifo_def session_defs)
next
  case (Refuse encoder_cfg seg sn ch)
  with reserve_segment_None [OF Refuse(3)] assms(2) show ?thesis by (simp add: fifo_def session_defs)
next
  case (Send m sn ch)
  have "sn_send_error (sy_sink sy) = None" using Send(1) assms(3) by (simp add: session_defs)
  with Send(2) show ?thesis
    by (cases rule: send_segment_cases) (use Send assms(2) in \<open>simp_all add: fifo_def session_defs\<close>)
qed (use assms(2) in \<open>simp_all add: fifo_def session_defs\<close>)

lemma closing_step:
  assumes "session_step sy e sy'" "closing_ok sy" "sending sy \<noteq> [] \<longrightarrow> sn_send_error (sy_sink sy) = None"
  shows "closing_ok sy'"
  using assms(1)
proof (cases rule: session_step_consider)
  case (Reserve encoder_cfg seg sn ch m)
  with reserve_segment_Some [OF Reserve(3)] assms(2) show ?thesis by (auto simp: closing_ok_def)
next
  case (Refuse encoder_cfg seg sn ch)
  with reserve_segment_None [OF Refuse(3)] assms(2) show ?thesis by (auto simp: closing_ok_def)
next
  case (Send m sn ch)
  have "sn_send_error (sy_sink sy) = None" using Send(1) assms(3) by (simp add: session_defs)
  with Send(2) show ?thesis
    by (cases rule: send_segment_cases) (use Send assms(2) in \<open>auto simp: closing_ok_def\<close>)
next
  case Finish
  with assms(2) show ?thesis by (auto simp: closing_ok_def)
next
  case (Receive m rest)
  with assms(2) show ?thesis by (auto simp: closing_ok_def dest: in_set_butlastD split: if_splits)
next
  case (Close rest)
  then have "rest = []" using assms(2) by (auto simp: closing_ok_def split: if_splits)
  with Close assms(2) show ?thesis by (auto simp: closing_ok_def)
next
  case (Panicked m)
  with assms(2) show ?thesis by (auto simp: closing_ok_def)
next
  case (Handle m sw)
  with assms(2) show ?thesis by (auto simp: closing_ok_def session_defs)
qed

lemma sink_step:
  assumes "session_step sy e sy'" "sink_ok es sy"
  shows "sink_ok (es @ [e]) sy'"
  using assms(1)
proof (cases rule: session_step_consider)
  case (Reserve encoder_cfg seg sn ch m)
  have no: "sending sy = []" using Reserve(1) by (simp add: session_defs)
  with Reserve reserve_segment_Some [OF Reserve(3)] assms(2) show ?thesis by (auto simp: sink_ok_def sending_def)
next
  case (Refuse encoder_cfg seg sn ch)
  with reserve_segment_None [OF Refuse(3)] assms(2) show ?thesis by (auto simp: sink_ok_def sending_def)
next
  case (Send m sn ch)
  have "sn_send_error (sy_sink sy) = None" using Send(1) assms(2) by (simp add: sink_ok_def sending_def)
  with Send(2) show ?thesis
    by (cases rule: send_segment_cases) (use Send assms(2) in \<open>auto simp: sink_ok_def sending_def split: option.splits\<close>)
qed (use assms(2) in \<open>simp_all add: sink_ok_def sending_def\<close>)

text \<open>As long as no send failed, every offered segment is accepted or about to be sent.\<close>

definition offers_ok :: "session_event list \<Rightarrow> session_system \<Rightarrow> bool" where
  "offers_ok es sy \<longleftrightarrow> sn_send_error (sy_sink sy) = None \<longrightarrow> offered es = map sm_segment (accepted es @ sending sy)"

lemma offers_step:
  assumes "session_step sy e sy'" "offers_ok es sy"
  shows "offers_ok (es @ [e]) sy'"
  using assms(1)
proof (cases rule: session_step_consider)
  case (Reserve encoder_cfg seg sn ch m)
  with reserve_segment_Some [OF Reserve(3)] assms(2) show ?thesis by (auto simp: offers_ok_def sending_def)
next
  case (Refuse encoder_cfg seg sn ch)
  have "sn_send_error sn \<noteq> None"
    using Refuse(3) by (auto simp: reserve_segment_def Let_def split: option.splits if_splits)
  with Refuse(4) show ?thesis by (auto simp: offers_ok_def)
next
  case (Send m sn ch)
  have "sn_send_error sn = None \<Longrightarrow> sn_send_error (sy_sink sy) = None"
    using Send(2) by (auto simp: send_segment_def split: if_splits)
  with Send assms(2) show ?thesis by (auto simp: offers_ok_def sending_def)
qed (use assms(2) in \<open>simp_all add: offers_ok_def sending_def\<close>)

lemma offers_run: "session_run sy es sy' \<Longrightarrow> offers_ok [] sy \<Longrightarrow> offers_ok es sy'"
  by (induction rule: session_run.induct) (auto dest: offers_step)

definition order_ok :: "session_event list \<Rightarrow> session_system \<Rightarrow> bool" where
  "order_ok es sy \<longleftrightarrow> fifo es sy \<and> closing_ok sy \<and> sink_ok es sy"

lemma order_step: "session_step sy e sy' \<Longrightarrow> order_ok es sy \<Longrightarrow> order_ok (es @ [e]) sy'"
proof -
  assume st: "session_step sy e sy'" and ok: "order_ok es sy"
  then have "sending sy \<noteq> [] \<longrightarrow> sn_send_error (sy_sink sy) = None" by (simp add: order_ok_def sink_ok_def)
  with fifo_step [OF st] closing_step [OF st] sink_step [OF st] ok show ?thesis by (simp add: order_ok_def)
qed

lemma order_run: "session_run sy es sy' \<Longrightarrow> order_ok [] sy \<Longrightarrow> order_ok es sy'"
  by (induction rule: session_run.induct) (auto dest: order_step)

lemma order_start: "order_ok [] (session_start (session_sink_new max_bytes audio_cfgs) n target)"
  by (simp add: order_ok_def fifo_def closing_ok_def sink_ok_def session_start_def session_channel_new_def
      sending_def handling_def session_sink_new_def)

section \<open>The file of the session\<close>

text \<open>The file a thread writes when it handles \<open>segs\<close> without an error, as one sequential save.\<close>

definition session_mux ::
  "sink \<Rightarrow> video_track_config \<Rightarrow> audio_track_config list \<Rightarrow> segment list \<Rightarrow> mp4_writer piped" where
  "session_mux target video_cfg audio_cfgs segs =
     bind_out (map_err Mux (writer_new_multi target (Video video_cfg # map Audio audio_cfgs))) (\<lambda>mw.
       write_segments (\<lambda>mw s. write_memory_replay_segment mw s video_cfg audio_cfgs (sg_pts_start_s (hd segs))) segs mw)"

definition content_ok :: "sink \<Rightarrow> session_writer \<Rightarrow> session_segment list \<Rightarrow> bool" where
  "content_ok target sw ms \<longleftrightarrow> sw_first_error sw \<noteq> None
     \<or> ms = [] \<and> sw = session_writer_new target
     \<or> ms \<noteq> [] \<and> sw_timeline_origin_s sw = Some (sg_pts_start_s (sm_segment (hd ms)))
        \<and> (\<exists>mw. sw_writer sw = Some mw
             \<and> session_mux target (sm_video_cfg (hd ms)) (sm_audio_cfgs (hd ms)) (map sm_segment ms) = Inr mw)"

lemma write_segments_append:
  "write_segments f (xs @ ys) mw = bind_out (write_segments f xs mw) (write_segments f ys)"
proof (induction xs arbitrary: mw)
  case (Cons x xs)
  show ?case by (cases "f mw x") (simp_all add: Cons)
qed simp

lemma write_full_session_segment_eq:
  "write_full_session_segment sw m =
     (let origin_s = (case sw_timeline_origin_s sw of None \<Rightarrow> sg_pts_start_s (sm_segment m) | Some s \<Rightarrow> s)
      in case session_mp4_writer (sw\<lparr>sw_timeline_origin_s := Some origin_s\<rparr>) m of
           (sw', Inl e) \<Rightarrow> (sw', Inl e)
         | (sw', Inr mw) \<Rightarrow>
             (case write_memory_replay_segment mw (sm_segment m) (sm_video_cfg m) (sm_audio_cfgs m) origin_s of
                Inl e \<Rightarrow> (sw', Inl e)
              | Inr mw' \<Rightarrow> (sw'\<lparr>sw_writer := Some mw'\<rparr>, Inr ())))"
  unfolding write_full_session_segment_def write_memory_replay_segment_def Let_def ..

lemma handle_content:
  assumes h: "handle_segment sw m = Some sw'" and ok: "content_ok target sw ms"
    and same: "\<forall>m' \<in> set ms. sm_video_cfg m' = sm_video_cfg m \<and> sm_audio_cfgs m' = sm_audio_cfgs m"
  shows "content_ok target sw' (ms @ [m])"
proof (cases "sw_first_error sw' = None")
  case True
  then have none: "sw_first_error sw = None" using h by (auto simp: handle_segment_def split: if_splits)
  then have w: "write_full_session_segment sw m = (sw', Inr ())"
    using h True by (auto simp: handle_segment_def split: prod.splits sum.splits fault.splits)
  show ?thesis
  proof (cases "ms = []")
    case True
    then have sw: "sw = session_writer_new target" using ok none by (simp add: content_ok_def)
    from w obtain mw mw' where "writer_new_multi target (Video (sm_video_cfg m) # map Audio (sm_audio_cfgs m)) = Inr mw"
      "write_memory_replay_segment mw (sm_segment m) (sm_video_cfg m) (sm_audio_cfgs m) (sg_pts_start_s (sm_segment m)) = Inr mw'"
      "sw_writer sw' = Some mw'" "sw_timeline_origin_s sw' = Some (sg_pts_start_s (sm_segment m))"
      by (auto simp: write_full_session_segment_eq session_mp4_writer_def sw session_writer_new_def Let_def
          split: sum.splits)
    then show ?thesis by (simp add: content_ok_def True session_mux_def)
  next
    case False
    then obtain mw where mw: "sw_writer sw = Some mw" "sw_timeline_origin_s sw = Some (sg_pts_start_s (sm_segment (hd ms)))"
      and mux: "session_mux target (sm_video_cfg (hd ms)) (sm_audio_cfgs (hd ms)) (map sm_segment ms) = Inr mw"
      using ok none by (auto simp: content_ok_def)
    obtain mw' where mw': "write_memory_replay_segment mw (sm_segment m) (sm_video_cfg m) (sm_audio_cfgs m)
        (sg_pts_start_s (sm_segment (hd ms))) = Inr mw'" "sw_writer sw' = Some mw'"
        "sw_timeline_origin_s sw' = Some (sg_pts_start_s (sm_segment (hd ms)))"
      using w mw by (auto simp: write_full_session_segment_eq session_mp4_writer_def Let_def split: sum.splits)
    have "sm_video_cfg (hd ms) = sm_video_cfg m" "sm_audio_cfgs (hd ms) = sm_audio_cfgs m" using same False by auto
    with mux mw'(1) False
    have "session_mux target (sm_video_cfg (hd ms)) (sm_audio_cfgs (hd ms)) (map sm_segment (ms @ [m])) = Inr mw'"
      by (auto simp: session_mux_def bind_out_Inr_iff write_segments_append hd_map)
    with mw'(2,3) False show ?thesis by (simp add: content_ok_def)
  qed
qed (simp add: content_ok_def)

definition thread_ok :: "sink \<Rightarrow> session_event list \<Rightarrow> session_system \<Rightarrow> bool" where
  "thread_ok target es sy \<longleftrightarrow> writer_panicked sy \<or> content_ok target (sy_thread sy) (handled_segments es)
     \<and> (\<forall>r. sy_writer sy = Stopped r \<longrightarrow> r = handle_finish (sy_thread sy))"

lemma thread_step:
  assumes "session_step sy e sy'" "order_ok es sy" "thread_ok target es sy"
  shows "thread_ok target (es @ [e]) sy'"
  using assms(1)
proof (cases rule: session_step_consider)
  case (Handle m sw)
  have acc: "\<forall>m' \<in> set (accepted es). sn_video_cfg (sy_sink sy) = Some (sm_video_cfg m') \<and> sm_audio_cfgs m' = sn_audio_cfgs (sy_sink sy)"
    and f: "accepted es = handled_segments es @ [m] @ queued_segments (ch_messages (sy_channel sy))"
    using assms(2) Handle(1) by (auto simp: order_ok_def sink_ok_def fifo_def handling_def)
  have same: "\<forall>m' \<in> set (handled_segments es). sm_video_cfg m' = sm_video_cfg m \<and> sm_audio_cfgs m' = sm_audio_cfgs m"
    using acc unfolding f by (metis UnCI append_Cons list.set_intros(1) option.inject set_append)
  have "content_ok target (sy_thread sy) (handled_segments es)"
    using assms(3) Handle(1) by (simp add: thread_ok_def writer_panicked_def)
  with handle_content [OF Handle(3) this same] Handle show ?thesis by (simp add: thread_ok_def)
next
  case (Send m sn ch)
  with assms(3) show ?thesis by (auto simp: thread_ok_def writer_panicked_def)
qed (use assms(3) in \<open>auto simp: thread_ok_def writer_panicked_def\<close>)

lemma thread_run:
  "session_run sy es sy' \<Longrightarrow> order_ok [] sy \<Longrightarrow> thread_ok target [] sy \<Longrightarrow> order_ok es sy' \<and> thread_ok target es sy'"
  by (induction rule: session_run.induct) (auto dest: order_step thread_step)

lemma thread_start: "thread_ok target [] (session_start sn n target)"
  by (simp add: thread_ok_def content_ok_def session_start_def)

text \<open>A session that finishes without an error wrote exactly the segments it accepted.\<close>

lemma session_file_ok:
  assumes run: "session_run (session_start (session_sink_new max_bytes audio_cfgs) n target) es sy"
    and done_: "sy_writer sy = Stopped (Inr file)"
  shows "case file of None \<Rightarrow> accepted es = []
    | Some w \<Rightarrow> accepted es \<noteq> [] \<and> (\<exists>video_cfg mw. sn_video_cfg (sy_sink sy) = Some video_cfg
        \<and> session_mux target video_cfg audio_cfgs (map sm_segment (accepted es)) = Inr mw \<and> finalize mw = Some w)"
proof -
  have ok: "order_ok es sy" "thread_ok target es sy"
    using thread_run [OF run order_start thread_start] by auto
  have cfg: "sn_audio_cfgs (sy_sink sy) = audio_cfgs"
    using run
  proof (induction "session_start (session_sink_new max_bytes audio_cfgs) n target" es sy rule: session_run.induct)
    case start
    then show ?case by (simp add: session_start_def session_sink_new_def)
  next
    case (step es sy1 e sy2)
    from step.hyps(3) show ?case
    proof (cases rule: session_step_consider)
      case (Reserve encoder_cfg seg sn ch m)
      with reserve_segment_Some [OF Reserve(3)] step.hyps(2) show ?thesis by simp
    next
      case (Refuse encoder_cfg seg sn ch)
      with reserve_segment_None [OF Refuse(3)] step.hyps(2) show ?thesis by auto
    next
      case (Send m sn ch)
      with step.hyps(2) show ?thesis by (auto simp: send_segment_def split: if_splits)
    qed (use step.hyps(2) in simp_all)
  qed
  have acc: "accepted es = handled_segments es"
    using ok(1) done_ by (simp add: order_ok_def fifo_def closing_ok_def handling_def)
  have c: "content_ok target (sy_thread sy) (accepted es)" "handle_finish (sy_thread sy) = Inr file"
    using ok(2) done_ acc by (simp_all add: thread_ok_def writer_panicked_def)
  have none: "sw_first_error (sy_thread sy) = None"
    using c(2) by (auto simp: handle_finish_def split: option.splits)
  show ?thesis
  proof (cases "accepted es = []")
    case True
    with c none show ?thesis by (auto simp: content_ok_def handle_finish_def session_writer_new_def)
  next
    case False
    then obtain mw where mw: "sw_writer (sy_thread sy) = Some mw"
      "session_mux target (sm_video_cfg (hd (accepted es))) (sm_audio_cfgs (hd (accepted es))) (map sm_segment (accepted es)) = Inr mw"
      using c(1) none by (auto simp: content_ok_def)
    have "hd (accepted es) \<in> set (accepted es)" using False by simp
    then have "sn_video_cfg (sy_sink sy) = Some (sm_video_cfg (hd (accepted es)))" "sm_audio_cfgs (hd (accepted es)) = audio_cfgs"
      using ok(1) cfg unfolding order_ok_def sink_ok_def by auto
    with mw False c(2) none show ?thesis by (auto simp: handle_finish_def bind_out_Inr_iff)
  qed
qed

section \<open>The thread replies\<close>

text \<open>How many turns the thread still takes.\<close>

definition pending_turns :: "session_system \<Rightarrow> nat" where
  "pending_turns sy = (case sy_writer sy of
       Stopped _ \<Rightarrow> 0
     | Receiving \<Rightarrow> 2 * length (ch_messages (sy_channel sy))
     | Handling _ \<Rightarrow> 2 * length (ch_messages (sy_channel sy)) + 1)"

lemma writer_turn_step:
  assumes "closing_ok sy" "sy_recorder sy = AwaitingReply" "\<forall>r. sy_writer sy \<noteq> Stopped r"
  shows "closing_ok (writer_turn sy) \<and> sy_recorder (writer_turn sy) = AwaitingReply
    \<and> pending_turns (writer_turn sy) < pending_turns sy"
proof -
  have fin: "FinishMsg \<in> set (ch_messages (sy_channel sy))" using assms by (simp add: closing_ok_def)
  have "\<exists>e. session_step sy e (writer_turn sy)"
    using assms(3) fin session_step.handled session_step.received by (cases "sy_writer sy") force+
  then obtain e where st: "session_step sy e (writer_turn sy)" by blast
  have "sending sy = []" using assms(2) by (simp add: sending_def)
  with closing_step [OF st assms(1)] have "closing_ok (writer_turn sy)" by simp
  moreover have "sy_recorder (writer_turn sy) = AwaitingReply" "pending_turns (writer_turn sy) < pending_turns sy"
    using assms(2,3) fin
    by (auto simp: writer_turn_def pending_turns_def release_message_reservation_def
        split: writer_phase.splits list.splits session_msg.splits option.splits)
  ultimately show ?thesis by simp
qed

lemma writer_turn_stopped: "sy_writer sy = Stopped r \<Longrightarrow> (writer_turn ^^ n) sy = sy"
proof (induction n)
  case (Suc n)
  then show ?case by (simp add: writer_turn_def)
qed simp

lemma writer_drains:
  "closing_ok sy \<Longrightarrow> sy_recorder sy = AwaitingReply \<Longrightarrow> pending_turns sy \<le> n \<Longrightarrow>
     \<exists>r. sy_writer ((writer_turn ^^ n) sy) = Stopped r"
proof (induction n arbitrary: sy)
  case 0
  then have z: "pending_turns sy = 0" by simp
  show ?case
  proof (cases "\<exists>r. sy_writer sy = Stopped r")
    case False
    then have "FinishMsg \<in> set (ch_messages (sy_channel sy))" using 0 by (auto simp: closing_ok_def)
    with z False show ?thesis by (cases "sy_writer sy") (auto simp: pending_turns_def)
  qed simp
next
  case (Suc n)
  show ?case
  proof (cases "\<exists>r. sy_writer sy = Stopped r")
    case True
    then show ?thesis using writer_turn_stopped by metis
  next
    case False
    then have "closing_ok (writer_turn sy)" "sy_recorder (writer_turn sy) = AwaitingReply"
      "pending_turns (writer_turn sy) \<le> n"
      using writer_turn_step [OF Suc.prems(1,2)] Suc.prems(3) by auto
    from Suc.IH [OF this] show ?thesis by (simp add: funpow_swap1)
  qed
qed

end
