(* ===== verification/Pipeline_Recorder.thy ===== *)
theory Pipeline_Recorder
  imports Pipeline_Session
begin

text \<open>
  The recorder (crates/clipline-capture/src/pipeline.rs): captured frames are encoded, encoded
  packets collect into GOPs, a keyframe seals the GOP before it together with the audio that ends
  before it, and the sealed segment goes to the replay ring and to the full session.

  The traits \<open>CaptureEngine\<close>, \<open>Encoder\<close> and \<open>AudioSource\<close> (traits.rs) are implemented by the platform
  back ends: what they return is the input of every operation.
\<close>

section \<open>State\<close>

record recorder =
  rd_ring :: replay_storage
  rd_fs :: file_system
  rd_pending :: "encoded_packet list"
  rd_pending_bytes :: nat
  rd_pending_audio_bytes :: nat
  rd_pending_byte_budget :: nat
  rd_pre_keyframe_bytes :: nat
  rd_pending_video_frames :: nat
  rd_nominal_video_duration_s :: "f64 option"
  rd_audio_cfgs :: "audio_track_config list"
  rd_pending_audio :: "audio_packet list list"
  rd_video_start_pts_s :: "f64 option"
  rd_full_session :: "(session_sink \<times> session_channel) option"

text \<open>
  The surroundings of one operation: the encoder's track configuration, the disk's behaviour while
  it stores the segment with a given number, and what the session's thread does to the channel
  before a segment is queued and between its reservation and its \<open>try_send\<close>.
\<close>

record surroundings =
  su_video_cfg :: video_track_config
  su_io :: "nat \<Rightarrow> io_env"
  su_before :: "segment \<Rightarrow> session_channel \<Rightarrow> session_channel"
  su_between :: "segment \<Rightarrow> session_channel \<Rightarrow> session_channel"

definition max_pending_gop_bytes :: nat where
  "max_pending_gop_bytes = 64 * 1024 * 1024"

definition pending_byte_budget :: "nat \<Rightarrow> nat" where
  "pending_byte_budget max_buffer_bytes = max 1 (min max_buffer_bytes max_pending_gop_bytes)"

definition max_pending_gop_duration_s :: f64 where
  "max_pending_gop_duration_s = Fin 10"

definition recorder_with :: "replay_storage \<Rightarrow> file_system \<Rightarrow> nat \<Rightarrow> recorder" where
  "recorder_with ring fs max_bytes =
     \<lparr>rd_ring = ring, rd_fs = fs, rd_pending = [], rd_pending_bytes = 0, rd_pending_audio_bytes = 0,
      rd_pending_byte_budget = pending_byte_budget max_bytes, rd_pre_keyframe_bytes = 0,
      rd_pending_video_frames = 0, rd_nominal_video_duration_s = None, rd_audio_cfgs = [],
      rd_pending_audio = [], rd_video_start_pts_s = None, rd_full_session = None\<rparr>"

definition recorder_with_retention :: "nat \<Rightarrow> f64 \<Rightarrow> recorder" where
  "recorder_with_retention max_buffer_bytes retention_s =
     recorder_with (Memory (ring_with_retention max_buffer_bytes retention_s)) (\<lambda>_. None) max_buffer_bytes"

definition recorder_new :: "nat \<Rightarrow> recorder" where
  "recorder_new max_buffer_bytes = recorder_with_retention max_buffer_bytes (Infinity False)"

text \<open>The configuration of the storage; creating and clearing the directory is the disk ring's.\<close>

datatype replay_storage_config = MemoryConfig nat f64 | DiskConfig nat f64 path

definition recorder_new_with_replay_storage :: "file_system \<Rightarrow> replay_storage_config \<Rightarrow> recorder" where
  "recorder_new_with_replay_storage fs storage = (case storage of
       MemoryConfig max_bytes retention_s \<Rightarrow>
         recorder_with (Memory (ring_with_retention max_bytes retention_s)) fs max_bytes
     | DiskConfig max_bytes retention_s dir \<Rightarrow>
         recorder_with (Disk (disk_ring_with_retention max_bytes retention_s dir)) fs max_bytes)"

definition with_audio :: "recorder \<Rightarrow> audio_track_config \<Rightarrow> recorder" where
  "with_audio rd cfg = rd\<lparr>rd_audio_cfgs := rd_audio_cfgs rd @ [cfg], rd_pending_audio := rd_pending_audio rd @ [[]]\<rparr>"

section \<open>Byte accounting\<close>

definition packets_bytes :: "nat \<Rightarrow> audio_packet list \<Rightarrow> nat" where
  "packets_bytes tot packets = foldl (\<lambda>tot p. saturating_add_usize tot (length (ap_data p))) tot packets"

definition recount_pending_audio_bytes :: "recorder \<Rightarrow> recorder" where
  "recount_pending_audio_bytes rd =
     rd\<lparr>rd_pending_audio_bytes := packets_bytes 0 (concat (rd_pending_audio rd))\<rparr>"

definition pending_payload_bytes :: "recorder \<Rightarrow> nat" where
  "pending_payload_bytes rd = saturating_add_usize
     (saturating_add_usize (rd_pre_keyframe_bytes rd) (rd_pending_bytes rd)) (rd_pending_audio_bytes rd)"

definition note_pending_video_frame :: "recorder \<Rightarrow> encoded_packet \<Rightarrow> recorder" where
  "note_pending_video_frame rd p =
     (let rd = rd\<lparr>rd_pending_video_frames := saturating_add_usize (rd_pending_video_frames rd) 1\<rparr>
      in if rd_nominal_video_duration_s rd = None \<and> is_finite (ep_duration_s p) \<and> flt (Fin 0) (ep_duration_s p)
         then rd\<lparr>rd_nominal_video_duration_s := Some (ep_duration_s p)\<rparr> else rd)"

definition validate_pending_limits :: "recorder \<Rightarrow> unit piped" where
  "validate_pending_limits rd =
     (if rd_pending_byte_budget rd < pending_payload_bytes rd then Inl (Err Backend)
      else case rd_nominal_video_duration_s rd of
        None \<Rightarrow> Inr ()
      | Some frame_duration_s \<Rightarrow>
          let duration_s = fmul (f64_of_nat (rd_pending_video_frames rd)) frame_duration_s
          in if is_finite duration_s \<and> flt max_pending_gop_duration_s duration_s then Inl (Err Backend)
             else Inr ())"

section \<open>Audio\<close>

text \<open>
  The loop of \<open>poll_audio_until\<close> and \<open>finish_audio_until\<close> over the sources' answers: an error leaves
  the packets of the earlier sources in place, but their bytes are not added up.
\<close>

fun extend_audio ::
  "(capture_error + audio_packet list) list \<Rightarrow> audio_packet list list \<Rightarrow> nat
     \<Rightarrow> audio_packet list list \<times> nat piped" where
  "extend_audio (Inl e # answers) (pending # tracks) added = (pending # tracks, Inl (Err (Capture e)))"
| "extend_audio (Inr packets # answers) (pending # tracks) added =
     (case extend_audio answers tracks (packets_bytes added packets) of
        (tracks', r) \<Rightarrow> ((pending @ packets) # tracks', r))"
| "extend_audio answers tracks added = (tracks, Inr added)"

definition poll_audio_until ::
  "(capture_error + audio_packet list) list \<Rightarrow> recorder \<Rightarrow> recorder \<times> unit piped" where
  "poll_audio_until answers rd = (case extend_audio answers (rd_pending_audio rd) 0 of
       (tracks, Inl e) \<Rightarrow> (rd\<lparr>rd_pending_audio := tracks\<rparr>, Inl e)
     | (tracks, Inr added) \<Rightarrow>
         (rd\<lparr>rd_pending_audio := tracks,
             rd_pending_audio_bytes := saturating_add_usize (rd_pending_audio_bytes rd) added\<rparr>, Inr ()))"

definition finish_audio_until ::
  "(capture_error + audio_packet list) list \<Rightarrow> recorder \<Rightarrow> recorder \<times> unit piped" where
  "finish_audio_until answers rd = (case extend_audio answers (rd_pending_audio rd) 0 of
       (tracks, Inl e) \<Rightarrow> (rd\<lparr>rd_pending_audio := tracks\<rparr>, Inl e)
     | (tracks, Inr added) \<Rightarrow>
         (rd\<lparr>rd_pending_audio := tracks,
             rd_pending_audio_bytes := saturating_add_usize (rd_pending_audio_bytes rd) added\<rparr>, Inr ()))"

definition on_timeline :: "f64 \<Rightarrow> audio_packet \<Rightarrow> bool" where
  "on_timeline timeline_start_s p = fle (fsub timeline_start_s nano) (ap_pts_s p)"

definition drop_audio_before_timeline :: "audio_packet list list \<Rightarrow> f64 \<Rightarrow> audio_packet list list" where
  "drop_audio_before_timeline pending_audio timeline_start_s = map (filter (on_timeline timeline_start_s)) pending_audio"

text \<open>The packets before the first one that ends after the boundary, as a track of the segment.\<close>

definition split_audio :: "f64 \<Rightarrow> audio_packet list \<Rightarrow> audio_packet list" where
  "split_audio boundary_pts_s pending =
     takeWhile (\<lambda>p. \<not> flt (fadd boundary_pts_s nano) (fadd (ap_pts_s p) (ap_duration_s p))) pending"

definition audio_track_samples :: "audio_packet list \<Rightarrow> track_samples" where
  "audio_track_samples packets =
     \<lparr>ts_pts_start_s = (case packets of [] \<Rightarrow> None | p # _ \<Rightarrow> Some (ap_pts_s p)),
      ts_data = concat (map ap_data packets),
      ts_samples = map (\<lambda>p. \<lparr>si_size = word_of_nat (length (ap_data p)), si_duration_s = ap_duration_s p,
        si_is_sync = True\<rparr>) packets\<rparr>"

section \<open>Sealing a GOP\<close>

definition push_segment ::
  "surroundings \<Rightarrow> recorder \<Rightarrow> segment \<Rightarrow> recorder \<times> unit piped" where
  "push_segment su rd seg = (case rd_ring rd of
       Memory r \<Rightarrow> (rd\<lparr>rd_ring := Memory (ring_push_shared r seg)\<rparr>, Inr ())
     | Disk r \<Rightarrow> (case disk_push_ref (su_io su (dr_next_id r)) r (rd_fs rd) seg of
           ((r', fs'), result) \<Rightarrow> (rd\<lparr>rd_ring := Disk r', rd_fs := fs'\<rparr>, map_err DiskIo result)))"

definition queue_segment :: "surroundings \<Rightarrow> segment \<Rightarrow> recorder \<Rightarrow> recorder" where
  "queue_segment su seg rd = (case rd_full_session rd of
       None \<Rightarrow> rd
     | Some (sn, ch) \<Rightarrow> rd\<lparr>rd_full_session :=
         Some (queue_full_session_segment (su_between su seg) (su_video_cfg su) seg (sn, su_before su seg ch))\<rparr>)"

definition sealed_segment :: "encoded_packet list \<Rightarrow> f64 list \<Rightarrow> audio_packet list list \<Rightarrow> segment" where
  "sealed_segment packets ds audio =
     \<lparr>sg_starts_with_keyframe = ep_is_keyframe (hd packets), sg_pts_start_s = ep_pts_s (hd packets),
      sg_duration_s = fsum ds, sg_data = concat (map ep_data packets),
      sg_samples = map (\<lambda>(p, d). \<lparr>si_size = word_of_nat (length (ep_data p)), si_duration_s = d,
        si_is_sync = ep_is_keyframe p\<rparr>) (zip packets ds),
      sg_audio = map audio_track_samples audio\<rparr>"

definition seal_pending :: "surroundings \<Rightarrow> f64 \<Rightarrow> recorder \<Rightarrow> recorder \<times> unit piped" where
  "seal_pending su boundary_pts_s rd = (case rd_pending rd of
       [] \<Rightarrow> (rd, Inl Panic)
     | first # _ \<Rightarrow>
         (case sealed_video_durations (rd_pending rd) boundary_pts_s (vt_timescale (su_video_cfg su)) of
            Inl e \<Rightarrow> (rd, Inl e)
          | Inr ds \<Rightarrow>
              let timeline_start = (case rd_video_start_pts_s rd of None \<Rightarrow> ep_pts_s first | Some s \<Rightarrow> s);
                  pending_audio = drop_audio_before_timeline (rd_pending_audio rd) timeline_start;
                  taken = map (split_audio boundary_pts_s) pending_audio;
                  seg = sealed_segment (rd_pending rd) ds taken;
                  rd1 = recount_pending_audio_bytes
                    (rd\<lparr>rd_pending := [], rd_pending_bytes := 0,
                        rd_pending_audio := map (\<lambda>pending. drop (length (split_audio boundary_pts_s pending)) pending)
                          pending_audio\<rparr>);
                  rd2 = rd1\<lparr>rd_pending_video_frames := 0\<rparr>;
                  queue = (case rd_full_session rd2 of None \<Rightarrow> False | Some (sn, _) \<Rightarrow> sn_send_error sn = None)
              in (case push_segment su rd2 seg of
                    (rd3, Inl e) \<Rightarrow> (rd3, Inl e)
                  | (rd3, Inr _) \<Rightarrow> (if queue then queue_segment su seg rd3 else rd3, Inr ()))))"

section \<open>Packets and frames\<close>

text \<open>\<open>?\<close> between operations on the recorder.\<close>

definition then_do ::
  "recorder \<times> unit piped \<Rightarrow> (recorder \<Rightarrow> recorder \<times> unit piped) \<Rightarrow> recorder \<times> unit piped" where
  "then_do r next_op = (case r of (rd, Inl e) \<Rightarrow> (rd, Inl e) | (rd, Inr _) \<Rightarrow> next_op rd)"

definition check_limits :: "recorder \<Rightarrow> recorder \<times> unit piped" where
  "check_limits rd = (rd, validate_pending_limits rd)"

definition append_packet :: "encoded_packet \<Rightarrow> recorder \<Rightarrow> recorder" where
  "append_packet pkt rd =
     (let rd = note_pending_video_frame rd pkt
      in rd\<lparr>rd_pending_bytes := saturating_add_usize (rd_pending_bytes rd) (length (ep_data pkt)),
            rd_pending := rd_pending rd @ [pkt]\<rparr>)"

definition begin_timeline :: "encoded_packet \<Rightarrow> recorder \<Rightarrow> recorder" where
  "begin_timeline pkt rd = recount_pending_audio_bytes
     (rd\<lparr>rd_video_start_pts_s := Some (ep_pts_s pkt), rd_pre_keyframe_bytes := 0, rd_pending_video_frames := 0,
         rd_pending_audio := drop_audio_before_timeline (rd_pending_audio rd) (ep_pts_s pkt)\<rparr>)"

definition push_encoded_packet :: "surroundings \<Rightarrow> encoded_packet \<Rightarrow> recorder \<Rightarrow> recorder \<times> unit piped" where
  "push_encoded_packet su pkt rd =
     (if rd_video_start_pts_s rd = None \<and> \<not> ep_is_keyframe pkt
      then let rd = note_pending_video_frame rd pkt
           in (rd\<lparr>rd_pre_keyframe_bytes := saturating_add_usize (rd_pre_keyframe_bytes rd) (length (ep_data pkt))\<rparr>,
               Inr ())
      else
        let rd = (if rd_video_start_pts_s rd = None then begin_timeline pkt rd else rd)
        in then_do (if ep_is_keyframe pkt \<and> rd_pending rd \<noteq> []
                    then then_do (check_limits rd) (seal_pending su (ep_pts_s pkt)) else (rd, Inr ()))
             (\<lambda>rd. (append_packet pkt rd, Inr ())))"

fun push_packets :: "surroundings \<Rightarrow> encoded_packet list \<Rightarrow> recorder \<Rightarrow> recorder \<times> unit piped" where
  "push_packets su [] rd = (rd, Inr ())"
| "push_packets su (pkt # pkts) rd = then_do (push_encoded_packet su pkt rd) (push_packets su pkts)"

text \<open>
  What capture, sources and encoder answer in one step: the frame's time stamp (\<open>None\<close> when the
  capture ended), an answer for every source, and the packets (\<open>None\<close> when the encoder failed).
\<close>

record step_input =
  in_frame :: "capture_error + f64 option"
  in_audio :: "(capture_error + audio_packet list) list"
  in_packets :: "encoded_packet list option"

definition encoded :: "encoded_packet list option \<Rightarrow> (encoded_packet list \<Rightarrow> recorder \<Rightarrow> recorder \<times> unit piped)
    \<Rightarrow> recorder \<Rightarrow> recorder \<times> unit piped" where
  "encoded packets push rd = (case packets of None \<Rightarrow> (rd, Inl (Err Backend)) | Some ps \<Rightarrow> push ps rd)"

definition step_with_frame :: "surroundings \<Rightarrow> step_input \<Rightarrow> recorder \<Rightarrow> recorder \<times> bool piped" where
  "step_with_frame su inp rd = (case in_frame inp of
       Inl e \<Rightarrow> (rd, Inl (Err (Capture e)))
     | Inr None \<Rightarrow> (rd, Inr False)
     | Inr (Some _) \<Rightarrow>
         (case then_do (poll_audio_until (in_audio inp) rd) (\<lambda>rd.
               then_do (encoded (in_packets inp) (push_packets su) rd) check_limits) of
            (rd, Inl e) \<Rightarrow> (rd, Inl e)
          | (rd, Inr _) \<Rightarrow> (rd, Inr True)))"

definition finish_stream ::
  "surroundings \<Rightarrow> encoded_packet list option \<Rightarrow> (capture_error + audio_packet list) list
     \<Rightarrow> recorder \<Rightarrow> recorder \<times> unit piped" where
  "finish_stream su packets answers rd =
     then_do (encoded packets (push_packets su) rd) (\<lambda>rd.
       if rd_pending rd = [] \<and> rd_video_start_pts_s rd = None \<and> 0 < pending_payload_bytes rd
       then (rd, Inl (Err Backend))
       else if rd_pending rd = [] then (rd, Inr ())
       else then_do (finish_audio_until answers rd) (\<lambda>rd.
            then_do (check_limits rd) (seal_pending su (Infinity False))))"

fun run_to_end ::
  "(surroundings \<times> step_input) list \<Rightarrow> surroundings \<Rightarrow> encoded_packet list option
     \<Rightarrow> (capture_error + audio_packet list) list \<Rightarrow> recorder \<Rightarrow> recorder \<times> unit piped" where
  "run_to_end [] su packets answers rd = finish_stream su packets answers rd"
| "run_to_end ((su1, inp) # rest) su packets answers rd = (case step_with_frame su1 inp rd of
       (rd, Inl e) \<Rightarrow> (rd, Inl e)
     | (rd, Inr goes_on) \<Rightarrow> if goes_on then run_to_end rest su packets answers rd else finish_stream su packets answers rd)"

end
