(* ===== verification/Pipeline_Recorder_Correct.thy ===== *)
theory Pipeline_Recorder_Correct
  imports Pipeline_Recorder
begin

text \<open>
  The recorder loses nothing (crates/clipline-capture/src/pipeline.rs): its byte counters are exact,
  every sealed segment is one GOP of the encoder's packets, and every audio packet of the recording
  timeline goes to exactly one segment, in order.
\<close>

section \<open>The byte counters\<close>

definition capped :: "nat \<Rightarrow> nat" where
  "capped n = min n usize_max"

lemma saturating_capped: "saturating_add_usize (capped a) b = capped (a + b)"
  by (simp add: saturating_add_usize_def capped_def)

lemma packets_bytes_capped:
  "packets_bytes (capped a) ps = capped (a + sum_list (map (length \<circ> ap_data) ps))"
  unfolding packets_bytes_def by (induction ps arbitrary: a) (simp_all add: saturating_capped add.assoc)

lemma capped_0 [simp]: "capped 0 = 0"
  by (simp add: capped_def)

definition video_bytes :: "recorder \<Rightarrow> nat" where
  "video_bytes rd = sum_list (map (length \<circ> ep_data) (rd_pending rd))"

definition audio_bytes :: "recorder \<Rightarrow> nat" where
  "audio_bytes rd = sum_list (map (length \<circ> ap_data) (concat (rd_pending_audio rd)))"

text \<open>The counters are the bytes held, and nothing is pending before the first keyframe.\<close>

definition counted :: "recorder \<Rightarrow> bool" where
  "counted rd \<longleftrightarrow> rd_pending_bytes rd = capped (video_bytes rd)
     \<and> rd_pending_audio_bytes rd = capped (audio_bytes rd)
     \<and> (rd_video_start_pts_s rd = None \<longrightarrow> rd_pending rd = [])
     \<and> (rd_video_start_pts_s rd \<noteq> None \<longrightarrow> rd_pre_keyframe_bytes rd = 0)"

lemma recount_capped:
  "recount_pending_audio_bytes rd = rd\<lparr>rd_pending_audio_bytes := capped (audio_bytes rd)\<rparr>"
  using packets_bytes_capped [of 0 "concat (rd_pending_audio rd)"]
  by (simp add: recount_pending_audio_bytes_def audio_bytes_def)

lemma note_frame_simps [simp]:
  "rd_pending (note_pending_video_frame rd p) = rd_pending rd"
  "rd_pending_bytes (note_pending_video_frame rd p) = rd_pending_bytes rd"
  "rd_pending_audio (note_pending_video_frame rd p) = rd_pending_audio rd"
  "rd_pending_audio_bytes (note_pending_video_frame rd p) = rd_pending_audio_bytes rd"
  "rd_video_start_pts_s (note_pending_video_frame rd p) = rd_video_start_pts_s rd"
  "rd_pre_keyframe_bytes (note_pending_video_frame rd p) = rd_pre_keyframe_bytes rd"
  "rd_ring (note_pending_video_frame rd p) = rd_ring rd"
  "rd_fs (note_pending_video_frame rd p) = rd_fs rd"
  "rd_audio_cfgs (note_pending_video_frame rd p) = rd_audio_cfgs rd"
  "rd_pending_byte_budget (note_pending_video_frame rd p) = rd_pending_byte_budget rd"
  by (simp_all add: note_pending_video_frame_def Let_def)

lemma queue_segment_simps [simp]:
  "rd_pending (queue_segment su seg rd) = rd_pending rd"
  "rd_pending_bytes (queue_segment su seg rd) = rd_pending_bytes rd"
  "rd_pending_audio (queue_segment su seg rd) = rd_pending_audio rd"
  "rd_pending_audio_bytes (queue_segment su seg rd) = rd_pending_audio_bytes rd"
  "rd_video_start_pts_s (queue_segment su seg rd) = rd_video_start_pts_s rd"
  "rd_pre_keyframe_bytes (queue_segment su seg rd) = rd_pre_keyframe_bytes rd"
  "rd_ring (queue_segment su seg rd) = rd_ring rd"
  "rd_fs (queue_segment su seg rd) = rd_fs rd"
  "rd_audio_cfgs (queue_segment su seg rd) = rd_audio_cfgs rd"
  "rd_pending_byte_budget (queue_segment su seg rd) = rd_pending_byte_budget rd"
  by (simp_all add: queue_segment_def split: option.splits prod.splits)

lemma push_segment_simps:
  assumes "push_segment su rd seg = (rd', r)"
  shows "rd_pending rd' = rd_pending rd \<and> rd_pending_bytes rd' = rd_pending_bytes rd
    \<and> rd_pending_audio rd' = rd_pending_audio rd \<and> rd_pending_audio_bytes rd' = rd_pending_audio_bytes rd
    \<and> rd_video_start_pts_s rd' = rd_video_start_pts_s rd \<and> rd_pre_keyframe_bytes rd' = rd_pre_keyframe_bytes rd
    \<and> rd_audio_cfgs rd' = rd_audio_cfgs rd \<and> rd_pending_byte_budget rd' = rd_pending_byte_budget rd"
  using assms by (auto simp: push_segment_def split: replay_storage.splits prod.splits)

text \<open>
  A seal that gets past the durations takes the whole GOP, splits the audio at the boundary, and
  hands one segment to the ring.
\<close>

definition timeline_audio :: "encoded_packet list \<Rightarrow> recorder \<Rightarrow> audio_packet list list" where
  "timeline_audio gop rd = drop_audio_before_timeline (rd_pending_audio rd)
     (case rd_video_start_pts_s rd of None \<Rightarrow> ep_pts_s (hd gop) | Some s \<Rightarrow> s)"

lemma seal_pending_cases:
  assumes "seal_pending su boundary rd = (rd', r)"
  obtains (empty) "rd_pending rd = []" "rd' = rd" "r = Inl Panic"
  | (bad) e where "rd_pending rd \<noteq> []" "rd' = rd" "r = Inl e"
      "sealed_video_durations (rd_pending rd) boundary (vt_timescale (su_video_cfg su)) = Inl e"
  | (sealed) ds rd2 rd3 taken where "rd_pending rd \<noteq> []"
      "sealed_video_durations (rd_pending rd) boundary (vt_timescale (su_video_cfg su)) = Inr ds"
      "taken = map (split_audio boundary) (timeline_audio (rd_pending rd) rd)"
      "rd_ring rd2 = rd_ring rd" "rd_fs rd2 = rd_fs rd"
      "push_segment su rd2 (sealed_segment (rd_pending rd) ds taken) = (rd3, r)"
      "rd_ring rd' = rd_ring rd3" "rd_fs rd' = rd_fs rd3"
      "rd_pending rd' = []" "rd_pending_bytes rd' = 0"
      "rd_pending_audio rd' = map (\<lambda>pending. drop (length (split_audio boundary pending)) pending) (timeline_audio (rd_pending rd) rd)"
      "rd_pending_audio_bytes rd' = capped (audio_bytes rd')"
      "rd_video_start_pts_s rd' = rd_video_start_pts_s rd" "rd_pre_keyframe_bytes rd' = rd_pre_keyframe_bytes rd"
      "rd_audio_cfgs rd' = rd_audio_cfgs rd" "rd_pending_byte_budget rd' = rd_pending_byte_budget rd"
proof (cases "rd_pending rd")
  case Nil
  with assms show thesis by (intro empty) (simp_all add: seal_pending_def)
next
  case (Cons first more_packets)
  show thesis
  proof (cases "sealed_video_durations (rd_pending rd) boundary (vt_timescale (su_video_cfg su))")
    case (Inl e)
    with assms Cons show thesis by (intro bad [of e]) (simp_all add: seal_pending_def)
  next
    case (Inr ds)
    define rd2 where "rd2 = (recount_pending_audio_bytes
        (rd\<lparr>rd_pending := [], rd_pending_bytes := 0,
            rd_pending_audio := map (\<lambda>pending. drop (length (split_audio boundary pending)) pending)
              (timeline_audio (rd_pending rd) rd)\<rparr>))\<lparr>rd_pending_video_frames := 0\<rparr>"
    define taken where "taken = map (split_audio boundary) (timeline_audio (rd_pending rd) rd)"
    obtain rd3 r3 where push: "push_segment su rd2 (sealed_segment (rd_pending rd) ds taken) = (rd3, r3)"
      by (cases "push_segment su rd2 (sealed_segment (rd_pending rd) ds taken)")
    have "seal_pending su boundary rd = (case push_segment su rd2 (sealed_segment (rd_pending rd) ds taken) of
          (rd3, Inl e) \<Rightarrow> (rd3, Inl e)
        | (rd3, Inr _) \<Rightarrow> (if (case rd_full_session rd2 of None \<Rightarrow> False | Some (sn, _) \<Rightarrow> sn_send_error sn = None)
            then queue_segment su (sealed_segment (rd_pending rd) ds taken) rd3 else rd3, Inr ()))"
      unfolding seal_pending_def Let_def timeline_audio_def rd2_def taken_def Cons list.case list.sel(1)
        Inr [unfolded Cons] sum.case ..
    then have r: "r = r3 \<and> (rd' = rd3 \<or> (\<exists>seg. rd' = queue_segment su seg rd3))"
      unfolding assms push by (cases r3) auto
    note p = push_segment_simps [OF push]
    have f2: "rd_pending rd2 = []" "rd_pending_bytes rd2 = 0"
      "rd_pending_audio rd2 = map (\<lambda>pending. drop (length (split_audio boundary pending)) pending) (timeline_audio (rd_pending rd) rd)"
      "rd_pending_audio_bytes rd2 = capped (audio_bytes rd2)" "rd_video_start_pts_s rd2 = rd_video_start_pts_s rd"
      "rd_pre_keyframe_bytes rd2 = rd_pre_keyframe_bytes rd" "rd_ring rd2 = rd_ring rd" "rd_fs rd2 = rd_fs rd"
      "rd_audio_cfgs rd2 = rd_audio_cfgs rd" "rd_pending_byte_budget rd2 = rd_pending_byte_budget rd"
      by (simp_all add: rd2_def recount_capped audio_bytes_def)
    have "audio_bytes rd' = audio_bytes rd2" using r p by (auto simp: audio_bytes_def)
    with r p f2 Cons Inr push show thesis
      by (intro sealed [where ?rd2.0 = rd2 and ?rd3.0 = rd3, OF _ Inr taken_def f2(7,8)]) auto
  qed
qed

lemma seal_pending_counted:
  assumes "seal_pending su boundary rd = (rd', r)" "counted rd"
  shows "counted rd'"
  using assms(1)
proof (cases rule: seal_pending_cases)
  case (sealed ds rd2 rd3 taken)
  with assms(2) show ?thesis by (auto simp: counted_def video_bytes_def)
qed (use assms(2) in auto)

lemma append_packet_counted:
  assumes "counted rd" "rd_video_start_pts_s rd \<noteq> None"
  shows "counted (append_packet p rd)"
  using assms by (auto simp: counted_def append_packet_def Let_def saturating_capped video_bytes_def audio_bytes_def)

lemma begin_timeline_counted:
  "counted rd \<Longrightarrow> counted (begin_timeline p rd)"
  by (auto simp: counted_def begin_timeline_def recount_capped video_bytes_def audio_bytes_def)

lemma push_packet_counted:
  assumes push: "push_encoded_packet su p rd = (rd', r)" and ok: "counted rd"
  shows "counted rd'"
proof (cases "rd_video_start_pts_s rd = None \<and> \<not> ep_is_keyframe p")
  case True
  with push ok show ?thesis
    by (auto simp: push_encoded_packet_def Let_def counted_def video_bytes_def audio_bytes_def)
next
  case False
  define rd1 where "rd1 = (if rd_video_start_pts_s rd = None then begin_timeline p rd else rd)"
  have one: "counted rd1" "rd_video_start_pts_s rd1 \<noteq> None"
    using ok begin_timeline_counted by (auto simp: rd1_def begin_timeline_def recount_capped)
  let ?mid = "if ep_is_keyframe p \<and> rd_pending rd1 \<noteq> []
      then then_do (check_limits rd1) (seal_pending su (ep_pts_s p)) else (rd1, Inr ())"
  obtain rd2 r2 where mid: "?mid = (rd2, r2)" by (cases ?mid)
  have two: "counted rd2" "rd_video_start_pts_s rd2 \<noteq> None"
  proof -
    have "counted rd2 \<and> rd_video_start_pts_s rd2 \<noteq> None" if s: "seal_pending su (ep_pts_s p) rd1 = (rd2, r2)"
      using s seal_pending_counted [OF s one(1)] one(2) by (cases rule: seal_pending_cases) auto
    then show "counted rd2" "rd_video_start_pts_s rd2 \<noteq> None"
      using mid one by (auto simp: then_do_def check_limits_def split: if_splits sum.splits)
  qed
  have "(rd', r) = then_do (rd2, r2) (\<lambda>rd. (append_packet p rd, Inr ()))"
    using push False unfolding push_encoded_packet_def Let_def rd1_def [symmetric] mid by simp
  then show ?thesis using two append_packet_counted by (auto simp: then_do_def split: sum.splits)
qed

lemma extend_audio_bytes:
  "extend_audio answers tracks (capped a) = (tracks', Inr added) \<Longrightarrow>
     \<exists>n. added = capped (a + n) \<and> sum_list (map (length \<circ> ap_data) (concat tracks'))
       = sum_list (map (length \<circ> ap_data) (concat tracks)) + n"
proof (induction answers tracks "capped a" arbitrary: a tracks' rule: extend_audio.induct)
  case (2 packets answers pending tracks)
  obtain rest where r: "extend_audio answers tracks (capped (a + sum_list (map (length \<circ> ap_data) packets))) = (rest, Inr added)"
    "tracks' = (pending @ packets) # rest"
    using "2.prems" by (auto simp: packets_bytes_capped split: prod.splits)
  from "2.hyps" [OF _ r(1)] r(2) show ?case by (auto simp: packets_bytes_capped add.assoc)
qed auto

lemma poll_audio_counted:
  assumes "poll_audio_until answers rd = (rd', Inr u)" "counted rd"
  shows "counted rd'"
proof -
  obtain tracks added where e: "extend_audio answers (rd_pending_audio rd) (capped 0) = (tracks, Inr added)"
    and rd': "rd' = rd\<lparr>rd_pending_audio := tracks,
      rd_pending_audio_bytes := saturating_add_usize (rd_pending_audio_bytes rd) added\<rparr>"
    using assms(1) by (auto simp: poll_audio_until_def split: prod.splits sum.splits)
  from extend_audio_bytes [OF e] obtain n where n: "added = capped n"
    "sum_list (map (length \<circ> ap_data) (concat tracks)) = audio_bytes rd + n"
    by (auto simp: audio_bytes_def)
  have "saturating_add_usize (capped (audio_bytes rd)) (capped n) = capped (audio_bytes rd + n)"
    by (simp add: saturating_add_usize_def capped_def)
  with assms(2) n rd' show ?thesis by (auto simp: counted_def video_bytes_def audio_bytes_def)
qed

lemma finish_audio_eq: "finish_audio_until = poll_audio_until"
  by (intro ext) (simp add: finish_audio_until_def poll_audio_until_def)

section \<open>GOPs\<close>

text \<open>The packets of an encoder, from the first keyframe on, as GOPs.\<close>

definition add_packet :: "encoded_packet list list \<Rightarrow> encoded_packet \<Rightarrow> encoded_packet list list" where
  "add_packet gs p = (if ep_is_keyframe p then gs @ [[p]]
     else if gs = [] then [] else butlast gs @ [last gs @ [p]])"

definition gops :: "encoded_packet list \<Rightarrow> encoded_packet list list" where
  "gops packets = foldl add_packet [] packets"

definition is_gop :: "encoded_packet list \<Rightarrow> bool" where
  "is_gop g \<longleftrightarrow> (\<exists>p ps. g = p # ps \<and> ep_is_keyframe p \<and> list_all (\<lambda>q. \<not> ep_is_keyframe q) ps)"

lemma gops_snoc: "gops (ps @ [p]) = add_packet (gops ps) p"
  by (simp add: gops_def)

lemma gops_spec:
  "concat (gops packets) = dropWhile (\<lambda>p. \<not> ep_is_keyframe p) packets \<and> list_all is_gop (gops packets)"
proof (induction packets rule: rev_induct)
  case (snoc p ps)
  let ?key = "\<lambda>p. \<not> ep_is_keyframe p"
  have drop_: "dropWhile ?key (ps @ [p]) = (if gops ps = [] then dropWhile ?key [p] else dropWhile ?key ps @ [p])"
  proof (cases "gops ps = []")
    case True
    then have "dropWhile ?key ps = []" using snoc by simp
    then show ?thesis using True by (simp add: dropWhile_append)
  next
    case False
    then obtain g where g: "g \<in> set (gops ps)" by fastforce
    have "is_gop g" using g snoc by (simp add: list_all_iff)
    then have "concat (gops ps) \<noteq> []" using g by (auto simp: is_gop_def)
    then show ?thesis using False snoc by (simp add: dropWhile_append)
  qed
  show ?case
  proof (cases "gops ps = []")
    case True
    then show ?thesis by (simp add: gops_snoc add_packet_def drop_ is_gop_def)
  next
    case False
    have g: "gops ps = butlast (gops ps) @ [last (gops ps)]" using False by simp
    have last_gop: "is_gop (last (gops ps))" using snoc False by (simp add: list_all_iff)
    have butl: "list_all is_gop (butlast (gops ps))"
      using snoc by (auto simp: list_all_iff dest: in_set_butlastD)
    have cat: "concat (butlast (gops ps)) @ last (gops ps) = dropWhile ?key ps"
      using snoc arg_cong [OF g, of concat] by simp
    have one: "ep_is_keyframe p \<Longrightarrow> is_gop [p]" by (simp add: is_gop_def)
    have add: "\<not> ep_is_keyframe p \<Longrightarrow> is_gop (last (gops ps) @ [p])" using last_gop by (auto simp: is_gop_def)
    show ?thesis
      using False snoc cat butl add one by (auto simp: gops_snoc add_packet_def drop_)
  qed
qed (simp add: gops_def)

section \<open>What a run of the recorder leaves\<close>

datatype recorder_op =
    Polled "(capture_error + audio_packet list) list"
  | Pushed surroundings encoded_packet

fun recorder_op_result :: "recorder_op \<Rightarrow> recorder \<Rightarrow> recorder \<times> unit piped" where
  "recorder_op_result (Polled answers) rd = poll_audio_until answers rd"
| "recorder_op_result (Pushed su p) rd = push_encoded_packet su p rd"

fun recorder_run :: "recorder_op list \<Rightarrow> recorder \<Rightarrow> recorder option" where
  "recorder_run [] rd = Some rd"
| "recorder_run (op # ops) rd = (case recorder_op_result op rd of
     (rd', Inr _) \<Rightarrow> recorder_run ops rd' | (_, Inl _) \<Rightarrow> None)"

fun pushed :: "recorder_op list \<Rightarrow> encoded_packet list" where
  "pushed [] = []"
| "pushed (Pushed su p # ops) = p # pushed ops"
| "pushed (Polled a # ops) = pushed ops"

definition answer :: "(capture_error + audio_packet list) list \<Rightarrow> nat \<Rightarrow> audio_packet list" where
  "answer answers k = (case get_at answers k of Some (Inr ps) \<Rightarrow> ps | _ \<Rightarrow> [])"

fun polled :: "recorder_op list \<Rightarrow> nat \<Rightarrow> audio_packet list" where
  "polled [] k = []"
| "polled (Polled a # ops) k = answer a k @ polled ops k"
| "polled (Pushed su p # ops) k = polled ops k"

lemma pushed_append [simp]: "pushed (xs @ ys) = pushed xs @ pushed ys"
  by (induction xs rule: pushed.induct) auto

lemma polled_append [simp]: "polled (xs @ ys) k = polled xs k @ polled ys k"
  by (induction xs k rule: polled.induct) auto

text \<open>The ring of the recorder holds what a memory ring holds.\<close>

definition storage_is :: "recorder \<Rightarrow> replay_ring \<Rightarrow> bool" where
  "storage_is rd m = (case rd_ring rd of Memory r \<Rightarrow> r = m | Disk r \<Rightarrow> disk_refines r (rd_fs rd) m)"

lemma storage_is_cong: "rd_ring a = rd_ring b \<Longrightarrow> rd_fs a = rd_fs b \<Longrightarrow> storage_is a m = storage_is b m"
  by (cases "rd_ring b") (simp_all add: storage_is_def)

type_synonym sealed_gop = "encoded_packet list \<times> f64 list \<times> audio_packet list list"

definition sealed_segments :: "sealed_gop list \<Rightarrow> segment list" where
  "sealed_segments hist = map (\<lambda>(gop, ds, audio). sealed_segment gop ds audio) hist"

definition sealed_audio :: "sealed_gop list \<Rightarrow> nat \<Rightarrow> audio_packet list" where
  "sealed_audio hist k = concat (map (\<lambda>(gop, ds, audio). audio ! k) hist)"

definition audio_kept ::
  "f64 option \<Rightarrow> audio_packet list \<Rightarrow> audio_packet list \<Rightarrow> audio_packet list \<Rightarrow> bool" where
  "audio_kept start taken pending audio \<longleftrightarrow> (case start of None \<Rightarrow> pending = audio
     | Some s \<Rightarrow> taken @ filter (on_timeline s) pending = filter (on_timeline s) audio)"

text \<open>
  \<open>recorded\<close>: the sealed GOPs \<open>hist\<close> and the pending one are the GOPs of the encoder's packets, the
  ring was given one segment for each sealed GOP, and the audio of the timeline is split between the
  sealed segments and what is pending, in order.
\<close>

definition recorded ::
  "replay_ring \<Rightarrow> nat \<Rightarrow> encoded_packet list \<Rightarrow> (nat \<Rightarrow> audio_packet list) \<Rightarrow> sealed_gop list \<Rightarrow> recorder \<Rightarrow> bool" where
  "recorded m n packets audio hist rd \<longleftrightarrow>
     storage_is rd (ring_push_all m (sealed_segments hist))
     \<and> length (rd_pending_audio rd) = n
     \<and> (\<forall>(gop, ds, taken) \<in> set hist. length ds = length gop \<and> length taken = n)
     \<and> gops packets = map fst hist @ (if rd_pending rd = [] then [] else [rd_pending rd])
     \<and> rd_video_start_pts_s rd = (if gops packets = [] then None else Some (ep_pts_s (hd (hd (gops packets)))))
     \<and> (\<forall>k < n. audio_kept (rd_video_start_pts_s rd) (sealed_audio hist k) (rd_pending_audio rd ! k) (audio k))"

definition gop_open :: "recorder \<Rightarrow> bool" where
  "gop_open rd \<longleftrightarrow> (rd_video_start_pts_s rd \<noteq> None \<longrightarrow> rd_pending rd \<noteq> [])"

lemma extend_audio_nth:
  "extend_audio answers tracks added = (tracks', Inr a) \<Longrightarrow> length tracks' = length tracks
     \<and> (\<forall>k < length tracks. tracks' ! k = tracks ! k @ answer answers k)"
proof (induction answers tracks added arbitrary: tracks' rule: extend_audio.induct)
  case (2 packets answers pending tracks added)
  then obtain rest where r: "extend_audio answers tracks (packets_bytes added packets) = (rest, Inr a)"
    "tracks' = (pending @ packets) # rest" by (auto split: prod.splits)
  note IH = "2.IH" [OF r(1)]
  have "tracks' ! k = (pending # tracks) ! k @ answer (Inr packets # answers) k"
    if "k < length (pending # tracks)" for k
    using that r(2) IH by (cases k) (auto simp: answer_def get_at_def)
  with IH r(2) show ?case by simp
qed (auto simp: answer_def get_at_def)

lemma poll_recorded:
  assumes poll: "poll_audio_until answers rd = (rd', Inr u)" and rec: "recorded m n packets audio hist rd"
  shows "recorded m n packets (\<lambda>k. audio k @ answer answers k) hist rd' \<and> gop_open rd' = gop_open rd"
proof -
  obtain tracks added where e: "extend_audio answers (rd_pending_audio rd) 0 = (tracks, Inr added)"
    and rd': "rd' = rd\<lparr>rd_pending_audio := tracks,
      rd_pending_audio_bytes := saturating_add_usize (rd_pending_audio_bytes rd) added\<rparr>"
    using poll by (auto simp: poll_audio_until_def split: prod.splits sum.splits)
  note ext = extend_audio_nth [OF e]
  have kept: "audio_kept start taken (pending @ more_audio) (given @ more_audio)" if "audio_kept start taken pending given"
    for start taken pending more_audio given
    using that by (auto simp: audio_kept_def split: option.splits simp flip: append_assoc)
  have fields: "rd_ring rd' = rd_ring rd" "rd_fs rd' = rd_fs rd" "rd_pending rd' = rd_pending rd"
    "rd_video_start_pts_s rd' = rd_video_start_pts_s rd" "rd_pending_audio rd' = tracks"
    by (simp_all add: rd')
  have "\<forall>k < n. audio_kept (rd_video_start_pts_s rd) (sealed_audio hist k) (tracks ! k) (audio k @ answer answers k)"
    using rec ext kept by (auto simp: recorded_def)
  moreover have "length tracks = n" using rec ext by (simp add: recorded_def)
  ultimately show ?thesis
    using rec unfolding recorded_def gop_open_def storage_is_def fields by blast
qed

lemma push_segment_storage:
  assumes "push_segment su rd seg = (rd', Inr u)" "storage_is rd m"
  shows "storage_is rd' (ring_push m seg)"
proof (cases "rd_ring rd")
  case (Memory r)
  with assms show ?thesis by (auto simp: push_segment_def storage_is_def ring_push_def)
next
  case (Disk r)
  obtain r' fs' res where push: "disk_push_ref (su_io su (dr_next_id r)) r (rd_fs rd) seg = ((r', fs'), res)"
    by (metis prod.exhaust)
  then have "res = Inr ()" "rd_ring rd' = Disk r'" "rd_fs rd' = fs'"
    using assms(1) Disk by (auto simp: push_segment_def)
  moreover have "disk_refines r (rd_fs rd) m" using assms(2) Disk by (simp add: storage_is_def)
  ultimately show ?thesis using disk_push_refines [OF _ push] by (auto simp: storage_is_def)
qed

lemma ring_push_all_snoc: "ring_push_all m (xs @ [x]) = ring_push (ring_push_all m xs) x"
  by (simp add: ring_push_all_def)

lemma split_audio_drop: "drop (length (split_audio b xs)) xs = dropWhile (\<lambda>p. \<not> flt (fadd b nano) (fadd (ap_pts_s p) (ap_duration_s p))) xs"
  by (simp add: split_audio_def dropWhile_eq_drop)

lemma split_audio_append: "split_audio b xs @ drop (length (split_audio b xs)) xs = xs"
  unfolding split_audio_drop by (simp add: split_audio_def)

lemma audio_kept_sealed:
  assumes "audio_kept (Some s) taken pending audio"
  shows "audio_kept (Some s) (taken @ split_audio b (filter (on_timeline s) pending))
    (drop (length (split_audio b (filter (on_timeline s) pending))) (filter (on_timeline s) pending)) audio"
proof -
  let ?xs = "filter (on_timeline s) pending"
  have "filter (on_timeline s) (drop n ?xs) = drop n ?xs" for n
    by (auto intro!: filter_True dest: in_set_dropD)
  then show ?thesis using assms split_audio_append [of b ?xs] by (simp add: audio_kept_def)
qed

lemma seal_recorded:
  assumes seal: "seal_pending su b rd = (rd', Inr u)" and rec: "recorded m n packets audio hist rd"
  obtains ds taken where "recorded m n packets audio (hist @ [(rd_pending rd, ds, taken)]) rd'"
    "rd_pending rd' = []" "rd_video_start_pts_s rd' = rd_video_start_pts_s rd" "rd_pending rd \<noteq> []"
  using seal
proof (cases rule: seal_pending_cases)
  case (sealed ds rd2 rd3 taken)
  have g: "gops packets = map fst hist @ [rd_pending rd]" using rec sealed(1) by (simp add: recorded_def)
  then obtain s where s: "rd_video_start_pts_s rd = Some s"
    using rec by (simp add: recorded_def)
  have t: "timeline_audio (rd_pending rd) rd = map (filter (on_timeline s)) (rd_pending_audio rd)"
    by (simp add: timeline_audio_def s drop_audio_before_timeline_def)
  have "storage_is rd2 (ring_push_all m (sealed_segments hist))"
    using rec storage_is_cong [OF sealed(4,5)] by (simp add: recorded_def)
  from push_segment_storage [OF sealed(6) this]
  have st: "storage_is rd' (ring_push_all m (sealed_segments (hist @ [(rd_pending rd, ds, taken)])))"
    using storage_is_cong [OF sealed(7,8)] by (simp add: sealed_segments_def ring_push_all_snoc)
  have n: "length (rd_pending_audio rd) = n" using rec by (simp add: recorded_def)
  have dl: "length ds = length (rd_pending rd)" by (rule sealed_durations_length [OF sealed(2)])
  have kept: "audio_kept (Some s) (sealed_audio (hist @ [(rd_pending rd, ds, taken)]) k) (rd_pending_audio rd' ! k) (audio k)"
    if k: "k < n" for k
  proof -
    have "audio_kept (Some s) (sealed_audio hist k) (rd_pending_audio rd ! k) (audio k)"
      using rec k unfolding recorded_def s by blast
    from audio_kept_sealed [OF this, of b] show ?thesis
      using k n by (simp add: sealed_audio_def sealed(3,11) t)
  qed
  have "recorded m n packets audio (hist @ [(rd_pending rd, ds, taken)]) rd'"
    unfolding recorded_def sealed(13)
    using rec st g s dl n kept sealed(3,9,11) t by (auto simp: recorded_def)
  then show thesis using that sealed(1,9,13) by blast
qed simp_all

lemma append_packet_recorded:
  assumes rec: "recorded m n packets audio hist rd" and s: "rd_video_start_pts_s rd \<noteq> None"
    and p: "ep_is_keyframe p \<longleftrightarrow> rd_pending rd = []"
  shows "recorded m n (packets @ [p]) audio hist (append_packet p rd) \<and> gop_open (append_packet p rd)"
proof -
  have g: "gops packets = map fst hist @ (if rd_pending rd = [] then [] else [rd_pending rd])" "gops packets \<noteq> []"
    using rec s by (simp_all add: recorded_def split: if_splits)
  have g': "gops (packets @ [p]) = map fst hist @ [rd_pending rd @ [p]]"
    using g p by (auto simp: gops_snoc add_packet_def)
  have "hd (hd (gops (packets @ [p]))) = hd (hd (gops packets))"
    unfolding g' using g by (cases hist) (auto split: if_splits)
  then have V: "rd_video_start_pts_s rd
      = (if gops (packets @ [p]) = [] then None else Some (ep_pts_s (hd (hd (gops (packets @ [p]))))))"
    using rec g(2) g' by (simp add: recorded_def)
  have P: "gops (packets @ [p]) = map fst hist @ (if rd_pending rd @ [p] = [] then [] else [rd_pending rd @ [p]])"
    using g' by simp
  have fields: "storage_is (append_packet p rd) x = storage_is rd x" "rd_pending (append_packet p rd) = rd_pending rd @ [p]"
    "rd_pending_audio (append_packet p rd) = rd_pending_audio rd"
    "rd_video_start_pts_s (append_packet p rd) = rd_video_start_pts_s rd" for x
    by (auto intro!: storage_is_cong simp: append_packet_def Let_def)
  show ?thesis
    using rec V P unfolding recorded_def gop_open_def fields by blast
qed

lemma push_recorded:
  assumes push: "push_encoded_packet su p rd = (rd', Inr u)" and rec: "recorded m n packets audio hist rd"
    and open_: "gop_open rd"
  shows "\<exists>hist'. recorded m n (packets @ [p]) audio hist' rd' \<and> gop_open rd'"
proof (cases "rd_video_start_pts_s rd")
  case None
  then have g: "gops packets = []" "hist = []" "rd_pending rd = []"
    using rec by (auto simp: recorded_def split: if_splits)
  show ?thesis
  proof (cases "ep_is_keyframe p")
    case False
    with push None have "rd' = (note_pending_video_frame rd p)\<lparr>rd_pre_keyframe_bytes :=
        saturating_add_usize (rd_pre_keyframe_bytes (note_pending_video_frame rd p)) (length (ep_data p))\<rparr>"
      by (simp add: push_encoded_packet_def Let_def)
    note rd' = this
    have "storage_is rd' x = storage_is rd x" for x by (rule storage_is_cong) (simp_all add: rd')
    then have "recorded m n (packets @ [p]) audio hist rd'"
      using rec None g False by (simp add: recorded_def rd' gops_snoc add_packet_def)
    moreover have "gop_open rd'" using None by (simp add: gop_open_def rd')
    ultimately show ?thesis by blast
  next
    case True
    have b: "rd_pending (begin_timeline p rd) = []" using g(3) by (simp add: begin_timeline_def recount_capped)
    with push None True have rd': "rd' = append_packet p (begin_timeline p rd)"
      by (simp add: push_encoded_packet_def then_do_def)
    have kept: "audio_kept None (sealed_audio [] k) (rd_pending_audio rd ! k) (audio k)" if "k < n" for k
      using rec that None g(2) by (simp add: recorded_def)
    have "storage_is rd' x = storage_is rd x" for x
      by (rule storage_is_cong) (simp_all add: rd' append_packet_def begin_timeline_def recount_capped Let_def)
    then have "recorded m n (packets @ [p]) audio [] rd'"
      using rec g True kept
      by (auto simp: recorded_def rd' append_packet_def begin_timeline_def recount_capped gops_snoc
          add_packet_def audio_kept_def sealed_audio_def drop_audio_before_timeline_def Let_def)
    moreover have "gop_open rd'" by (simp add: rd' gop_open_def append_packet_def)
    ultimately show ?thesis by blast
  qed
next
  case (Some s)
  then have pend: "rd_pending rd \<noteq> []" using open_ by (simp add: gop_open_def)
  show ?thesis
  proof (cases "ep_is_keyframe p")
    case False
    with push Some have rd': "rd' = append_packet p rd"
      by (auto simp: push_encoded_packet_def then_do_def Let_def)
    show ?thesis
      using append_packet_recorded [OF rec] Some False pend unfolding rd' by blast
  next
    case True
    with push Some pend obtain rd1 where seal: "seal_pending su (ep_pts_s p) rd = (rd1, Inr ())" and rd': "rd' = append_packet p rd1"
      by (auto simp: push_encoded_packet_def then_do_def check_limits_def Let_def split: prod.splits sum.splits)
    obtain ds taken where one: "recorded m n packets audio (hist @ [(rd_pending rd, ds, taken)]) rd1"
      "rd_pending rd1 = []" "rd_video_start_pts_s rd1 = rd_video_start_pts_s rd"
      using seal_recorded [OF seal rec] by metis
    from append_packet_recorded [OF one(1)] one(2,3) Some True show ?thesis unfolding rd' by auto
  qed
qed

lemma run_recorded:
  "recorder_run ops rd = Some rd' \<Longrightarrow> recorded m n packets audio hist rd \<Longrightarrow> gop_open rd \<Longrightarrow>
     \<exists>hist'. recorded m n (packets @ pushed ops) (\<lambda>k. audio k @ polled ops k) hist' rd' \<and> gop_open rd'"
proof (induction ops arbitrary: rd packets audio hist)
  case (Cons op ops)
  obtain rd1 u where one: "recorder_op_result op rd = (rd1, Inr u)" and run: "recorder_run ops rd1 = Some rd'"
    using Cons.prems(1) by (auto split: prod.splits sum.splits)
  show ?case
  proof (cases op)
    case (Polled answers)
    with one have "poll_audio_until answers rd = (rd1, Inr u)" by simp
    note poll_recorded [OF this Cons.prems(2)]
    with Cons.IH [OF run, of packets "\<lambda>k. audio k @ answer answers k" hist] Cons.prems(3) Polled show ?thesis by simp
  next
    case (Pushed su p)
    with one have "push_encoded_packet su p rd = (rd1, Inr u)" by simp
    from push_recorded [OF this Cons.prems(2,3)] obtain hist1 where
      "recorded m n (packets @ [p]) audio hist1 rd1" "gop_open rd1" by blast
    from Cons.IH [OF run this] Pushed show ?thesis by simp
  qed
qed auto

section \<open>Whole recordings\<close>

text \<open>A recorder before its first frame.\<close>

definition fresh_recorder :: "replay_ring \<Rightarrow> nat \<Rightarrow> recorder \<Rightarrow> bool" where
  "fresh_recorder m n rd \<longleftrightarrow> storage_is rd m \<and> rd_pending rd = [] \<and> rd_pending_bytes rd = 0 \<and> rd_pending_audio_bytes rd = 0
     \<and> rd_pending_audio rd = replicate n [] \<and> rd_video_start_pts_s rd = None"

lemma fresh_recorded: "fresh_recorder m n rd \<Longrightarrow> recorded m n [] (\<lambda>_. []) [] rd \<and> gop_open rd \<and> counted rd"
  by (simp add: fresh_recorder_def recorded_def gop_open_def gops_def sealed_segments_def ring_push_all_def audio_kept_def
      counted_def video_bytes_def audio_bytes_def sum_list_replicate)

lemma fresh_recorder:
  "fresh_recorder (ring_with_retention max_bytes ret) (length cfgs)
     (foldl with_audio (recorder_new_with_replay_storage fs (MemoryConfig max_bytes ret)) cfgs)"
  "fresh_recorder (ring_with_retention max_bytes ret) (length cfgs)
     (foldl with_audio (recorder_new_with_replay_storage fs (DiskConfig max_bytes ret dir)) cfgs)"
proof -
  have attach: "fresh_recorder m (n + length cfgs) (foldl with_audio rd cfgs)" if "fresh_recorder m n rd" for m n rd
    using that
  proof (induction cfgs arbitrary: n rd)
    case (Cons c cs)
    have "storage_is (with_audio rd c) m = storage_is rd m"
      by (rule storage_is_cong) (simp_all add: with_audio_def)
    then have "fresh_recorder m (Suc n) (with_audio rd c)"
      using Cons.prems by (simp add: fresh_recorder_def with_audio_def replicate_append_same)
    from Cons.IH [OF this] show ?case by simp
  qed simp
  have "fresh_recorder (ring_with_retention max_bytes ret) 0 (recorder_new_with_replay_storage fs (MemoryConfig max_bytes ret))"
    "fresh_recorder (ring_with_retention max_bytes ret) 0 (recorder_new_with_replay_storage fs (DiskConfig max_bytes ret dir))"
    by (simp_all add: fresh_recorder_def recorder_new_with_replay_storage_def recorder_with_def storage_is_def disk_refines_def
        disk_ring_with_retention_def)
  from attach [OF this(1)] attach [OF this(2)]
  show "fresh_recorder (ring_with_retention max_bytes ret) (length cfgs)
     (foldl with_audio (recorder_new_with_replay_storage fs (MemoryConfig max_bytes ret)) cfgs)"
    "fresh_recorder (ring_with_retention max_bytes ret) (length cfgs)
     (foldl with_audio (recorder_new_with_replay_storage fs (DiskConfig max_bytes ret dir)) cfgs)" by simp_all
qed

lemma run_counted: "recorder_run ops rd = Some rd' \<Longrightarrow> counted rd \<Longrightarrow> counted rd'"
proof (induction ops arbitrary: rd)
  case (Cons op ops)
  obtain rd1 u where one: "recorder_op_result op rd = (rd1, Inr u)" and run: "recorder_run ops rd1 = Some rd'"
    using Cons.prems(1) by (auto split: prod.splits sum.splits)
  have "counted rd1" using one Cons.prems(2) poll_audio_counted push_packet_counted by (cases op) auto
  with Cons.IH [OF run] show ?case by simp
qed simp

lemma recorder_run_append:
  "recorder_run (xs @ ys) rd = (case recorder_run xs rd of None \<Rightarrow> None | Some rd' \<Rightarrow> recorder_run ys rd')"
proof (induction xs arbitrary: rd)
  case (Cons x xs)
  obtain rd1 r where "recorder_op_result x rd = (rd1, r)" by (cases "recorder_op_result x rd")
  then show ?case using Cons by (cases r) simp_all
qed simp

lemma push_packets_run:
  "push_packets su ps rd = (rd', Inr u) \<Longrightarrow> recorder_run (map (Pushed su) ps) rd = Some rd'"
  by (induction ps arbitrary: rd) (auto simp: then_do_def split: prod.splits sum.splits)

text \<open>The operations of a step that captured a frame, and those of a stream of frames.\<close>

definition step_ops :: "surroundings \<times> step_input \<Rightarrow> recorder_op list" where
  "step_ops s = (case s of (su, inp) \<Rightarrow> Polled (in_audio inp) # map (Pushed su) (case in_packets inp of None \<Rightarrow> [] | Some ps \<Rightarrow> ps))"

definition captured :: "step_input \<Rightarrow> bool" where
  "captured inp \<longleftrightarrow> (\<exists>pts. in_frame inp = Inr (Some pts))"

lemma step_run:
  assumes "step_with_frame su inp rd = (rd', Inr b)" "captured inp"
  shows "recorder_run (step_ops (su, inp)) rd = Some rd' \<and> b \<and> validate_pending_limits rd' = Inr ()"
proof -
  obtain rd1 ps rd2 u v where "poll_audio_until (in_audio inp) rd = (rd1, Inr u)" "in_packets inp = Some ps"
    "push_packets su ps rd1 = (rd2, Inr v)" "rd' = rd2" "validate_pending_limits rd2 = Inr ()" b
    using assms by (auto simp: step_with_frame_def captured_def then_do_def encoded_def check_limits_def
        split: prod.splits sum.splits option.splits)
  with push_packets_run show ?thesis by (simp add: step_ops_def)
qed

text \<open>The counters stay exact and the budget is never changed, whatever a step ends with, when every source answers.\<close>

definition sources_answer :: "step_input \<Rightarrow> bool" where
  "sources_answer inp \<longleftrightarrow> list_all (\<lambda>a. \<exists>packets. a = Inr packets) (in_audio inp)"

lemma extend_audio_answered:
  "list_all (\<lambda>a. \<exists>packets. a = Inr packets) answers \<Longrightarrow> \<exists>tracks' n. extend_audio answers tracks added = (tracks', Inr n)"
  by (induction answers tracks added rule: extend_audio.induct) (auto split: prod.splits)

lemma poll_audio_answered:
  assumes "list_all (\<lambda>a. \<exists>packets. a = Inr packets) answers"
  shows "\<exists>rd'. poll_audio_until answers rd = (rd', Inr ())"
proof -
  obtain tracks n where "extend_audio answers (rd_pending_audio rd) 0 = (tracks, Inr n)"
    using extend_audio_answered [OF assms] by blast
  then show ?thesis by (simp add: poll_audio_until_def)
qed

lemma poll_audio_budget: "poll_audio_until answers rd = (rd', r) \<Longrightarrow> rd_pending_byte_budget rd' = rd_pending_byte_budget rd"
  by (auto simp: poll_audio_until_def split: prod.splits sum.splits)

lemma seal_pending_budget: "seal_pending su boundary rd = (rd', r) \<Longrightarrow> rd_pending_byte_budget rd' = rd_pending_byte_budget rd"
  by (erule seal_pending_cases) auto

lemma push_packet_budget:
  assumes "push_encoded_packet su p rd = (rd', r)"
  shows "rd_pending_byte_budget rd' = rd_pending_byte_budget rd"
proof -
  define rd1 where "rd1 = (if rd_video_start_pts_s rd = None then begin_timeline p rd else rd)"
  let ?mid = "if ep_is_keyframe p \<and> rd_pending rd1 \<noteq> []
      then then_do (check_limits rd1) (seal_pending su (ep_pts_s p)) else (rd1, Inr ())"
  obtain rd2 r2 where mid: "?mid = (rd2, r2)" by (cases ?mid)
  have "rd_pending_byte_budget rd1 = rd_pending_byte_budget rd" by (simp add: rd1_def begin_timeline_def recount_capped)
  moreover have "rd_pending_byte_budget rd2 = rd_pending_byte_budget rd1"
    using mid seal_pending_budget [of su "ep_pts_s p" rd1 rd2 r2] by (auto simp: then_do_def check_limits_def split: if_splits sum.splits)
  moreover have "rd_pending_byte_budget (append_packet p g) = rd_pending_byte_budget g" for g by (simp add: append_packet_def Let_def)
  moreover have "\<not> (rd_video_start_pts_s rd = None \<and> \<not> ep_is_keyframe p) \<Longrightarrow>
      (rd', r) = then_do (rd2, r2) (\<lambda>rd. (append_packet p rd, Inr ()))"
    using assms unfolding push_encoded_packet_def Let_def rd1_def [symmetric] mid by (simp only: if_False)
  moreover have "rd_video_start_pts_s rd = None \<and> \<not> ep_is_keyframe p \<Longrightarrow> rd_pending_byte_budget rd' = rd_pending_byte_budget rd"
    using assms by (auto simp: push_encoded_packet_def Let_def)
  ultimately show ?thesis
    by (cases "rd_video_start_pts_s rd = None \<and> \<not> ep_is_keyframe p"; cases r2) (auto simp: then_do_def)
qed

definition budgeted :: "nat \<Rightarrow> recorder \<Rightarrow> bool" where
  "budgeted budget rd \<longleftrightarrow> counted rd \<and> rd_pending_byte_budget rd = budget"

lemma push_packets_budgeted: "push_packets su ps rd = (rd', r) \<Longrightarrow> budgeted budget rd \<Longrightarrow> budgeted budget rd'"
proof (induction ps arbitrary: rd)
  case (Cons p ps)
  obtain rd1 r1 where one: "push_encoded_packet su p rd = (rd1, r1)" by (cases "push_encoded_packet su p rd")
  have "budgeted budget rd1"
    using push_packet_counted [OF one] push_packet_budget [OF one] Cons.prems(2) by (simp add: budgeted_def)
  then show ?case using Cons one by (cases r1) (auto simp: then_do_def)
qed simp

lemma step_budgeted:
  assumes "budgeted budget rd" "sources_answer inp"
  shows "budgeted budget (fst (step_with_frame su inp rd))"
proof -
  obtain rd1 where p: "poll_audio_until (in_audio inp) rd = (rd1, Inr ())"
    using poll_audio_answered assms(2) unfolding sources_answer_def by blast
  have one: "budgeted budget rd1"
    using poll_audio_counted [OF p] poll_audio_budget [OF p] assms(1) by (simp add: budgeted_def)
  have "budgeted budget rd2" if "push_packets su ps rd1 = (rd2, r)" for ps rd2 r
    by (rule push_packets_budgeted [OF that one])
  then have "budgeted budget (fst (then_do (encoded (in_packets inp) (push_packets su) rd1) check_limits))"
    using one by (auto simp: encoded_def then_do_def check_limits_def split: option.splits prod.splits sum.splits)
  then show ?thesis
    using assms(1) p by (auto simp: step_with_frame_def then_do_def split: sum.splits option.splits prod.splits)
qed

text \<open>
  The steps of a recorder one after another, whatever each returns; before a step the full session may
  have been started or finished, and its thread may have moved on.
\<close>

type_synonym step_turn = "(session_sink \<times> session_channel) option \<times> surroundings \<times> step_input"

definition recorder_turn :: "recorder \<Rightarrow> step_turn \<Rightarrow> recorder \<times> bool piped" where
  "recorder_turn rd turn = (case turn of (session, su, inp) \<Rightarrow> step_with_frame su inp (rd\<lparr>rd_full_session := session\<rparr>))"

lemma turn_budgeted: "budgeted budget rd \<Longrightarrow> sources_answer (snd (snd turn)) \<Longrightarrow> budgeted budget (fst (recorder_turn rd turn))"
proof -
  assume b: "budgeted budget rd" and ok: "sources_answer (snd (snd turn))"
  have "budgeted budget (rd\<lparr>rd_full_session := session\<rparr>)" for session
    using b by (simp add: budgeted_def counted_def video_bytes_def audio_bytes_def)
  with ok show ?thesis by (cases turn) (simp add: recorder_turn_def step_budgeted)
qed

lemma turns_budgeted:
  "budgeted budget rd \<Longrightarrow> \<forall>turn \<in> set turns. sources_answer (snd (snd turn))
     \<Longrightarrow> budgeted budget (foldl (\<lambda>rd turn. fst (recorder_turn rd turn)) rd turns)"
  by (induction turns arbitrary: rd) (auto intro: turn_budgeted)

definition config_max_bytes :: "replay_storage_config \<Rightarrow> nat" where
  "config_max_bytes storage = (case storage of MemoryConfig max_bytes _ \<Rightarrow> max_bytes | DiskConfig max_bytes _ _ \<Rightarrow> max_bytes)"

lemma new_recorder_budgeted:
  "budgeted (pending_byte_budget (config_max_bytes storage)) (foldl with_audio (recorder_new_with_replay_storage fs storage) cfgs)"
proof -
  have audio: "budgeted b rd \<Longrightarrow> budgeted b (with_audio rd cfg)" for b rd cfg
    by (simp add: budgeted_def counted_def with_audio_def video_bytes_def audio_bytes_def)
  have "budgeted (pending_byte_budget (config_max_bytes storage)) (recorder_new_with_replay_storage fs storage)"
    by (cases storage) (simp_all add: budgeted_def counted_def video_bytes_def audio_bytes_def recorder_new_with_replay_storage_def
        recorder_with_def config_max_bytes_def)
  then show ?thesis by (induction cfgs rule: rev_induct) (simp_all add: audio)
qed

text \<open>A step that processed a frame has checked the limits.\<close>

lemma turn_within_budget:
  assumes "recorder_turn rd turn = (rd', Inr True)" "budgeted budget rd" "budget \<le> max_pending_gop_bytes"
  shows "rd_pending_bytes rd' = video_bytes rd' \<and> rd_pending_audio_bytes rd' = audio_bytes rd'
    \<and> rd_pre_keyframe_bytes rd' + video_bytes rd' + audio_bytes rd' \<le> budget"
proof -
  obtain session su inp where turn: "turn = (session, su, inp)" by (cases turn)
  let ?rd = "rd\<lparr>rd_full_session := session\<rparr>"
  have b: "budgeted budget ?rd" using assms(2) by (simp add: budgeted_def counted_def video_bytes_def audio_bytes_def)
  have step: "step_with_frame su inp ?rd = (rd', Inr True)" using assms(1) by (simp add: recorder_turn_def turn)
  obtain rd1 ps v where poll: "poll_audio_until (in_audio inp) ?rd = (rd1, Inr ())"
    and push: "push_packets su ps rd1 = (rd', Inr v)" and valid: "validate_pending_limits rd' = Inr ()"
    using step by (auto simp: step_with_frame_def then_do_def encoded_def check_limits_def split: prod.splits sum.splits option.splits)
  have "budgeted budget rd1" using poll_audio_counted [OF poll] poll_audio_budget [OF poll] b by (simp add: budgeted_def)
  then have c: "counted rd'" "rd_pending_byte_budget rd' = budget" using push_packets_budgeted [OF push] by (simp_all add: budgeted_def)
  have "pending_payload_bytes rd' \<le> budget" using valid c(2) by (auto simp: validate_pending_limits_def split: if_splits)
  with assms(3) c(1) show ?thesis
    by (auto simp: counted_def pending_payload_bytes_def saturating_add_usize_def capped_def usize_max_def
        max_pending_gop_bytes_def min_def split: if_splits)
qed

text \<open>The final seal takes all the audio.\<close>

lemma after_infinity: "\<not> flt (fadd (Infinity False) x) y"
proof -
  have "fadd (Infinity False) x \<in> {Infinity False, NaN}" by (cases x) (auto simp: fadd_def)
  then show ?thesis by (cases y) (auto simp: flt_def)
qed

lemma split_audio_all: "split_audio (Infinity False) ps = ps"
  by (simp add: split_audio_def takeWhile_eq_all_conv after_infinity)

lemma finish_stream_recorded:
  assumes fin: "finish_stream su (Some ps) answers rd = (rd', Inr u)" and rec: "recorded m n packets audio hist rd"
    and open_: "gop_open rd"
  shows "\<exists>hist'. recorded m n (packets @ ps) (\<lambda>k. audio k @ (if gops (packets @ ps) = [] then [] else answer answers k)) hist' rd'
    \<and> map fst hist' = gops (packets @ ps)
    \<and> (\<forall>k < n. \<forall>s. rd_video_start_pts_s rd' = Some s \<longrightarrow> sealed_audio hist' k = filter (on_timeline s) (audio k @ answer answers k))"
proof -
  obtain rd1 v where push: "push_packets su ps rd = (rd1, Inr v)"
    and rest: "(if rd_pending rd1 = [] \<and> rd_video_start_pts_s rd1 = None \<and> 0 < pending_payload_bytes rd1
       then (rd1, Inl (Err Backend))
       else if rd_pending rd1 = [] then (rd1, Inr ())
       else then_do (finish_audio_until answers rd1) (\<lambda>rd.
            then_do (check_limits rd) (seal_pending su (Infinity False)))) = (rd', Inr u)"
    using fin by (auto simp: finish_stream_def then_do_def encoded_def split: prod.splits sum.splits)
  have run: "recorder_run (map (Pushed su) ps) rd = Some rd1" by (rule push_packets_run [OF push])
  have pk: "pushed (map (Pushed su) ps) = ps" "polled (map (Pushed su) ps) k = []" for k
    by (induction ps) auto
  from run_recorded [OF run rec open_] obtain hist1 where one: "recorded m n (packets @ ps) audio hist1 rd1" "gop_open rd1"
    by (auto simp: pk)
  show ?thesis
  proof (cases "rd_pending rd1 = []")
    case True
    then have "rd_video_start_pts_s rd1 = None" using one(2) by (simp add: gop_open_def)
    then have "gops (packets @ ps) = []" using one(1) by (simp add: recorded_def split: if_splits)
    moreover have "rd' = rd1" using rest True by (simp split: if_splits)
    ultimately show ?thesis
      using one(1) True \<open>rd_video_start_pts_s rd1 = None\<close> by (intro exI [of _ hist1]) (auto simp: recorded_def)
  next
    case False
    then have ne: "gops (packets @ ps) \<noteq> []" using one(1) by (simp add: recorded_def)
    obtain rd2 where poll: "poll_audio_until answers rd1 = (rd2, Inr ())"
      and seal: "seal_pending su (Infinity False) rd2 = (rd', Inr u)"
      using rest False by (auto simp: then_do_def check_limits_def finish_audio_eq split: prod.splits sum.splits)
    have two: "recorded m n (packets @ ps) (\<lambda>k. audio k @ answer answers k) hist1 rd2"
      using poll_recorded [OF poll one(1)] by simp
    obtain ds taken where three: "recorded m n (packets @ ps) (\<lambda>k. audio k @ answer answers k) (hist1 @ [(rd_pending rd2, ds, taken)]) rd'"
      "rd_pending rd' = []" by (rule seal_recorded [OF seal two])
    have "rd_pending_audio rd' ! k = []" if "k < n" for k
      using seal
    proof (cases rule: seal_pending_cases)
      case (sealed ds rd2 rd3 taken)
      have "length (rd_pending_audio rd') = n" using three(1) by (simp add: recorded_def)
      then show ?thesis using that sealed(11) by (simp add: split_audio_all)
    qed auto
    then have kept: "sealed_audio (hist1 @ [(rd_pending rd2, ds, taken)]) k = filter (on_timeline s) (audio k @ answer answers k)"
      if "k < n" "rd_video_start_pts_s rd' = Some s" for k s
      using three(1) that unfolding recorded_def audio_kept_def by force
    have "map fst (hist1 @ [(rd_pending rd2, ds, taken)]) = gops (packets @ ps)"
      using three by (simp add: recorded_def)
    with three(1) kept ne show ?thesis
      by (intro exI [of _ "hist1 @ [(rd_pending rd2, ds, taken)]"]) simp
  qed
qed

definition stream_ops :: "(surroundings \<times> step_input) list \<Rightarrow> recorder_op list" where
  "stream_ops inputs = concat (map step_ops inputs)"

lemma stream_recorded:
  assumes "run_to_end inputs su (Some ps) answers rd = (rd', Inr u)" "\<forall>i \<in> set inputs. captured (snd i)"
    "recorded m n packets audio hist rd" "gop_open rd"
  shows "\<exists>hist'. storage_is rd' (ring_push_all m (sealed_segments hist'))
    \<and> (\<forall>(gop, ds, taken) \<in> set hist'. length ds = length gop \<and> length taken = n)
    \<and> map fst hist' = gops (packets @ pushed (stream_ops inputs) @ ps)
    \<and> (\<forall>k < n. \<forall>s. rd_video_start_pts_s rd' = Some s \<longrightarrow>
          sealed_audio hist' k = filter (on_timeline s) (audio k @ polled (stream_ops inputs) k @ answer answers k))
    \<and> rd_video_start_pts_s rd' = (if map fst hist' = [] then None else Some (ep_pts_s (hd (hd (map fst hist')))))"
  using assms
proof (induction inputs arbitrary: rd packets audio hist)
  case Nil
  then have "finish_stream su (Some ps) answers rd = (rd', Inr u)" by simp
  from finish_stream_recorded [OF this Nil.prems(3,4)] obtain hist' where
    h: "recorded m n (packets @ ps) (\<lambda>k. audio k @ (if gops (packets @ ps) = [] then [] else answer answers k)) hist' rd'"
    "map fst hist' = gops (packets @ ps)"
    "\<forall>k < n. \<forall>s. rd_video_start_pts_s rd' = Some s \<longrightarrow> sealed_audio hist' k = filter (on_timeline s) (audio k @ answer answers k)"
    by blast
  have "rd_video_start_pts_s rd' = (if map fst hist' = [] then None else Some (ep_pts_s (hd (hd (map fst hist')))))"
    unfolding h(2) using h(1) unfolding recorded_def by blast
  with h show ?case unfolding recorded_def by (intro exI [of _ hist']) (simp add: stream_ops_def)
next
  case (Cons i inputs)
  obtain su1 inp where i: "i = (su1, inp)" by (cases i)
  obtain rd1 b where step: "step_with_frame su1 inp rd = (rd1, Inr b)"
    and more: "(if b then run_to_end inputs su (Some ps) answers rd1 else finish_stream su (Some ps) answers rd1) = (rd', Inr u)"
    using Cons.prems(1) by (auto simp: i split: prod.splits sum.splits)
  have cap: "captured inp" "\<forall>i \<in> set inputs. captured (snd i)" using Cons.prems(2) i by simp_all
  have run: "recorder_run (step_ops i) rd = Some rd1" "b"
    using step_run [OF step cap(1)] i by simp_all
  from run_recorded [OF run(1) Cons.prems(3,4)] obtain hist1 where
    one: "recorded m n (packets @ pushed (step_ops i)) (\<lambda>k. audio k @ polled (step_ops i) k) hist1 rd1" "gop_open rd1" by blast
  have "run_to_end inputs su (Some ps) answers rd1 = (rd', Inr u)" using more run(2) by simp
  from Cons.IH [OF this cap(2) one] show ?case by (simp add: stream_ops_def)
qed

section \<open>The samples of a sealed segment\<close>

lemma ring_push_all_suffix: "\<exists>old. rr_segments m @ segs = old @ rr_segments (ring_push_all m segs)"
proof (induction segs rule: rev_induct)
  case (snoc s segs)
  then obtain old where old: "rr_segments m @ segs = old @ rr_segments (ring_push_all m segs)" by blast
  obtain old' where "rr_segments (ring_push_all m segs) @ [s] = old' @ rr_segments (ring_push (ring_push_all m segs) s)"
    using mem.push_keeps_order [OF refl] by blast
  with old have "rr_segments m @ segs @ [s] = (old @ old') @ rr_segments (ring_push_all m (segs @ [s]))"
    by (metis append.assoc ring_push_all_snoc)
  then show ?case by blast
qed (simp add: ring_push_all_def)

lemma saved_suffix_of:
  "\<exists>old. rr_segments m @ segs = old @ ring_save_window (ring_push_all m segs) window_s exclude"
proof -
  obtain a where "rr_segments m @ segs = a @ rr_segments (ring_push_all m segs)" using ring_push_all_suffix by blast
  moreover obtain b where "rr_segments (ring_push_all m segs) = b @ ring_save_window (ring_push_all m segs) window_s exclude"
    using mem.saved_suffix by blast
  ultimately have "rr_segments m @ segs = (a @ b) @ ring_save_window (ring_push_all m segs) window_s exclude" by simp
  then show ?thesis by blast
qed

lemma packet_slices:
  assumes "\<forall>b \<in> set bs. length b < 2 ^ 32" "length (concat bs) \<le> usize_max" "map si_size ss = map (word_of_nat \<circ> length) bs"
  shows "slice_samples (concat bs) ss = map Inr bs"
proof (rule slice_samples_indexes [OF _ assms(2)])
  have "map (unat \<circ> si_size) ss = map unat (map (word_of_nat \<circ> length :: bytes \<Rightarrow> u32) bs)"
    using assms(3) by (metis map_map)
  also have "\<dots> = map length bs"
    using assms(1) by (auto simp: unat_word_of_nat_less)
  finally show "indexes ss bs" by (simp add: indexes_def)
qed

lemma sealed_video_media:
  assumes "\<forall>p \<in> set gop. length (ep_data p) < 2 ^ 32" "length (concat (map ep_data gop)) \<le> usize_max" "length ds = length gop"
  shows "segment_media origin_s (sealed_segment gop ds audio) 0 = map (\<lambda>p. (ep_data p, ep_is_keyframe p)) gop"
proof -
  let ?seg = "sealed_segment gop ds audio"
  have infos: "map si_size (sg_samples ?seg) = map (word_of_nat \<circ> length) (map ep_data gop)"
    "map si_is_sync (sg_samples ?seg) = map ep_is_keyframe gop"
    using assms(3) by (auto simp: sealed_segment_def intro!: nth_equalityI)
  have "track_sample_slices (segment_track ?seg 0) = map Inr (map ep_data gop)"
    using packet_slices [of "map ep_data gop" "sg_samples ?seg"] assms(1,2) infos(1)
    by (simp add: track_sample_slices_def segment_track_def sealed_segment_def)
  then have m: "map slice_bytes (track_sample_slices (segment_track ?seg 0)) = map ep_data gop"
    by (simp add: slice_bytes_def comp_def)
  have t: "ts_samples (segment_track ?seg 0) = sg_samples ?seg" by (simp add: segment_track_def)
  show ?thesis
    by (simp add: segment_media_def skipped_def segment_infos_def m t infos(2) zip_map_map zip_same_conv_map)
qed

lemma sealed_audio_media:
  assumes k: "k < length audio" and small: "\<forall>p \<in> set (audio ! k). length (ap_data p) < 2 ^ 32"
    "length (concat (map ap_data (audio ! k))) \<le> usize_max"
  shows "segment_media origin_s (sealed_segment gop ds audio) (Suc k)
    = drop (skipped origin_s (sealed_segment gop ds audio) (Suc k)) (map (\<lambda>p. (ap_data p, True)) (audio ! k))"
proof -
  let ?seg = "sealed_segment gop ds audio" and ?t = "audio_track_samples (audio ! k)"
  have t: "segment_track ?seg (Suc k) = ?t"
    using k by (simp add: segment_track_def sealed_segment_def get_at_def)
  have sl: "track_sample_slices ?t = map Inr (map ap_data (audio ! k))"
    using packet_slices [of "map ap_data (audio ! k)" "ts_samples ?t"] small
    by (simp add: track_sample_slices_def audio_track_samples_def comp_def)
  have sy: "map si_is_sync (ts_samples ?t) = map (\<lambda>_. True) (audio ! k)"
    by (simp add: audio_track_samples_def comp_def)
  have "zip (map slice_bytes (drop j (map Inr (map ap_data xs)))) (map si_is_sync (drop j ys)) = drop j (map (\<lambda>p. (ap_data p, True)) xs)"
    if "map si_is_sync ys = map (\<lambda>_. True) xs" for j and xs :: "audio_packet list" and ys :: "sample_info list"
  proof -
    have "map si_is_sync (drop j ys) = drop j (map (\<lambda>_. True) xs)" using that by (metis drop_map)
    then show ?thesis by (simp add: drop_map slice_bytes_def comp_def zip_map_map zip_same_conv_map)
  qed
  from this [OF sy] show ?thesis by (simp add: segment_media_def segment_infos_def t sl)
qed

end
