(* ===== verification/Pipeline_Properties.thy ===== *)
theory Pipeline_Properties
  imports Pipeline_Recorder_Correct Mp4_Reader_Properties
begin

text \<open>
  The properties of the capture pipeline (crates/clipline-capture/src/pipeline.rs): from encoded
  packets to sealed segments, from the ring to a saved file, and the full-session thread.
\<close>

section \<open>A sample recording\<close>

text \<open>One tick per second, an AV1 key frame every second, no audio.\<close>

definition sample_video_cfg :: video_track_config where
  "sample_video_cfg = \<lparr>vt_width = 64, vt_height = 48, vt_timescale = 1, vt_codec = Av1 [0x0A, 2, 0x58, 0x80]\<rparr>"

definition sample_audio_cfg :: audio_track_config where
  "sample_audio_cfg = \<lparr>at_channels = 2, at_sample_rate = 48000, at_pre_skip = 312\<rparr>"

definition sample_surroundings :: surroundings where
  "sample_surroundings = \<lparr>su_video_cfg = sample_video_cfg,
     su_io = (\<lambda>_. \<lparr>env_create = True, env_write_fails = None, env_flush = True, env_rename = True,
       env_remove = (\<lambda>_. True), env_cleanup = True\<rparr>), su_before = (\<lambda>_ ch. ch), su_between = (\<lambda>_ ch. ch)\<rparr>"

definition sample_packet :: "nat \<Rightarrow> bytes \<Rightarrow> encoded_packet" where
  "sample_packet n bs = \<lparr>ep_data = bs, ep_pts_s = Fin (of_nat n), ep_duration_s = Fin 1, ep_is_keyframe = True\<rparr>"

definition sample_sealed :: segment where
  "sample_sealed = sealed_segment [sample_packet 0 [1, 2, 3]] [Fin 1] []"

lemma floor_3_2: "\<lfloor>3 / 2 :: rat\<rfloor> = 1"
  by (simp add: floor_eq_iff)

lemma sample_arith: "fsub (Fin 1) (Fin 0) = Fin 1" "fmax (Fin 1) (Fin 0) = Fin 1" "round_u64 (Fin 1) = 1"
  "fsub (Fin 0) (Fin 0) = Fin 0" "fmax (Fin 0) (Fin 0) = Fin 0" "fmul (Fin 0) (Fin 1) = Fin 0" "round_u64 (Fin 0) = 0"
  "fadd (Fin 0) (Fin 1) = Fin 1" "flt (Fin 0) (Fin 1)" "\<not> flt (Fin 10) (Fin 1)" "fadd NZero (Fin 1) = Fin 1"
  "fle (Fin 0) (Fin 1)" "fle (Fin 0) (Fin 0)" "\<not> flt (Fin 1) (Fin 0)" "\<not> flt (Fin 0) (Fin 0)"
  by (simp_all add: f64_eval f64_of_nat_def fdiv_def fmul_def f64_val_def f64_rank_def round_u64_def u64_max_def
      signed_zero_def sign_bit_def floor_3_2)

lemma past_u64_simps: "\<not> past_u64 (Fin 1)" "\<not> past_u64 (Fin 0)"
proof -
  show "\<not> past_u64 (Fin 1)" using not_past_u64_max by (simp add: past_u64_def)
  have "fle (Fin 0) (f64_of_nat u64_max)"
    using f64_of_rat_mono [of 0 "of_nat u64_max"] by (simp add: f64_of_nat_def f64_of_rat_exact)
  then show "\<not> past_u64 (Fin 0)" using fle_not_nan not_fle unfolding past_u64_def by blast
qed

lemmas recorder_eval = sample_arith past_u64_simps sample_f64 recorder_new_def recorder_with_retention_def recorder_with_def
  push_encoded_packet_def then_do_def check_limits_def begin_timeline_def recount_pending_audio_bytes_def
  packets_bytes_def drop_audio_before_timeline_def append_packet_def note_pending_video_frame_def
  validate_pending_limits_def pending_payload_bytes_def pending_byte_budget_def max_pending_gop_bytes_def
  max_pending_gop_duration_s_def saturating_add_usize_def usize_max_def seal_pending_def sealed_video_durations_def
  next_pts_def clamp_def push_segment_def queue_segment_def fsum_def

lemma sample_recorder_run:
  obtains rd where "recorder_run [Pushed sample_surroundings (sample_packet 0 [1, 2, 3]),
      Pushed sample_surroundings (sample_packet 1 [4, 5])] (recorder_new 100) = Some rd"
    "rd_ring rd = Memory (ring_push (ring_new 100) sample_sealed)"
  by (simp add: recorder_eval sample_packet_def sample_surroundings_def sample_video_cfg_def is_finite_def Let_def
      ring_push_def ring_new_def sample_sealed_def)

text \<open>The sample segment, saved.\<close>

lemma sample_sealed_simps [simp]:
  "sg_starts_with_keyframe sample_sealed" "sg_pts_start_s sample_sealed = Fin 0" "segment_pts_end_s sample_sealed = Fin 1"
  "sg_audio sample_sealed = []" "segment_byte_len sample_sealed = 3" "sg_data sample_sealed = [1, 2, 3]"
  "sg_samples sample_sealed = [\<lparr>si_size = 3, si_duration_s = Fin 1, si_is_sync = True\<rparr>]"
  by (simp_all add: sample_sealed_def sealed_segment_def sample_packet_def segment_pts_end_s_def segment_byte_len_def
      fsum_def sample_arith)

lemma sample_ring_segments: "rr_segments (ring_push (ring_new 100) sample_sealed) = [sample_sealed]"
  using mem.pushed_segs [OF refl, of "ring_new 100" sample_sealed] by (simp add: ring_new_def)

lemma sample_window: "ring_save_window (ring_push (ring_new 100) sample_sealed) (Infinity False) None = [sample_sealed]"
proof -
  let ?w = "ring_save_window (ring_push (ring_new 100) sample_sealed) (Infinity False) None"
  obtain pre where "[sample_sealed] = pre @ ?w"
    using mem.saved_suffix [of "ring_push (ring_new 100) sample_sealed"] sample_ring_segments by metis
  moreover have "?w \<noteq> []"
    by (simp add: mem.saved_window sample_ring_segments window_from_empty)
  ultimately show ?thesis by (cases pre) auto
qed

lemma negated_below: "fle (Fin 0) x \<Longrightarrow> \<not> flt (Fin 0) (fneg x)"
  by (cases x) (auto simp: fneg_def flt_def fle_def)

lemma not_before_origin: "\<not> flt (Fin 0) (fneg nano)"
proof -
  have "fle (Fin 0) nano"
    unfolding nano_def using f64_of_rat_mono [of 0 "1 / 10 ^ 9"] by (simp add: f64_of_rat_exact)
  then show ?thesis by (rule negated_below)
qed

lemma sample_fragment_run:
  assumes "mw_tracks mw = [track_state_new sample_av1]" "mw_next_sequence mw = 1"
    "mw_free_offset mw = 28" "sk_pos (mw_w mw) < 1000" "length (sk_data (mw_w mw)) < 1000"
  obtains mw' w where "write_fragment_multi mw [[\<lparr>fs_data = [1, 2, 3], fs_duration = 1, fs_is_sync = True\<rparr>]] = (mw', Inr ())"
    "finalize mw' = Some w" "length (sk_data w) < 4000"
  using assms
  by (simp add: write_eval finalize_eval sample_av1_def video_eval)

lemma sample_durations:
  "quantized_sample_durations [\<lparr>si_size = 3, si_duration_s = Fin 1, si_is_sync = True\<rparr>] 1
     \<lparr>fl_requested_start = 0, fl_write_start = 0\<rparr> = Inr [1]"
  by (simp add: quantized_sample_durations_def sample_arith sample_f64 past_u64_simps is_finite_def
      checked_add_u64_def u64_max_def clamp_def try_u32_def Let_def)

lemma sample_write_segment:
  assumes "mw_tracks mw = [track_state_new sample_av1]"
  shows "write_memory_replay_segment mw sample_sealed sample_video_cfg [] (Fin 0)
    = from_writer (write_fragment_multi mw [[\<lparr>fs_data = [1, 2, 3], fs_duration = 1, fs_is_sync = True\<rparr>]])"
proof -
  have ticks: "relative_pts_ticks (Fin 0) (Fin 0) 1 = Inr 0"
    using not_before_origin by (simp add: relative_pts_ticks_def sample_arith sample_f64 past_u64_simps is_finite_def)
  show ?thesis
    using assms
    by (simp add: write_memory_replay_segment_def segment_audio_selections_def set_segment_decode_times_def
        sample_video_cfg_def ticks advance_track_decode_time_def track_decode_time_def get_at_def track_state_new_def
        segment_fragment_refs_def quantized_fragment_refs_def sample_durations segment_sample_slices_def
        slice_samples_def checked_add_usize_def usize_max_def get_range_def slice_def resize_def borrowed_eq)
qed

lemma sample_mux:
  obtains mw mw' w where "writer_new_multi sink_new [sample_av1] = Inr mw"
    "write_memory_replay_segment mw sample_sealed sample_video_cfg [] (Fin 0) = Inr mw'"
    "finalize mw' = Some w" "length (sk_data w) < 4000"
proof -
  obtain mw where mw: "writer_new_multi sink_new [sample_av1] = Inr mw"
    "mw_tracks mw = [track_state_new sample_av1]" "mw_next_sequence mw = 1"
    "mw_free_offset mw = 28" "sk_pos (mw_w mw) < 1000" "length (sk_data (mw_w mw)) < 1000"
    by (rule sample_video_new)
  obtain mw' w where run: "write_fragment_multi mw [[\<lparr>fs_data = [1, 2, 3], fs_duration = 1, fs_is_sync = True\<rparr>]] = (mw', Inr ())"
    "finalize mw' = Some w" "length (sk_data w) < 4000"
    using mw(2-) by (rule sample_fragment_run)
  from run(1) have "write_memory_replay_segment mw sample_sealed sample_video_cfg [] (Fin 0) = Inr mw'"
    by (simp add: sample_write_segment [OF mw(2)] from_writer_def)
  with mw(1) run(2,3) show thesis by (intro that)
qed

lemma sample_save:
  obtains w where "save_replay fs (Memory (ring_push (ring_new 100) sample_sealed)) start sample_video_cfg []
      sink_new (Infinity False) None = Inr (w, Fin 1)" "length (sk_data w) < 4000"
proof -
  obtain mw mw' w where s: "writer_new_multi sink_new [sample_av1] = Inr mw"
    "write_memory_replay_segment mw sample_sealed sample_video_cfg [] (Fin 0) = Inr mw'"
    "finalize mw' = Some w" "length (sk_data w) < 4000"
    by (rule sample_mux)
  have cfg: "Video sample_video_cfg = sample_av1" by (simp add: sample_video_cfg_def sample_av1_def)
  from s show thesis
    by (intro that) (simp_all add: save_replay_def storage_save_window_def sample_window window_bounds_of_def
        replay_audio_cfgs_def cfg Let_def)
qed

section \<open>Saved replays\<close>

definition saved_rate :: "video_track_config \<Rightarrow> audio_track_config list \<Rightarrow> nat \<Rightarrow> u32" where
  "saved_rate video_cfg source_cfgs i = (case i of 0 \<Rightarrow> vt_timescale video_cfg | Suc k \<Rightarrow> at_sample_rate (source_cfgs ! k))"

text \<open>A save reads the window of the memory ring that the storage stands for.\<close>

lemma save_from_memory:
  assumes st: "storage_is rd m" and small: "\<forall>s \<in> set (rr_segments m). segment_byte_len s \<le> u64_max"
    and save: "save_replay (rd_fs rd) (rd_ring rd) start video_cfg source_cfgs sink_new window_s exclude = Inr out"
  shows "save_replay (rd_fs rd) (Memory m) start video_cfg source_cfgs sink_new window_s exclude = Inr out"
proof (cases "rd_ring rd")
  case (Memory r)
  with st save show ?thesis by (simp add: storage_is_def)
next
  case (Disk r)
  with st have "disk_refines r (rd_fs rd) m" by (simp add: storage_is_def)
  from saved_disk_replay [OF this] small save Disk show ?thesis by (simp add: length_payload)
qed

text \<open>A run of the writer over segments, finalized, reads back as the segments.\<close>

definition fits_file :: "f64 \<Rightarrow> video_track_config \<Rightarrow> audio_track_config list \<Rightarrow> segment list \<Rightarrow> bool" where
  "fits_file origin_s video_cfg source_cfgs segs \<longleftrightarrow> (\<forall>i \<le> length source_cfgs.
     concat (map (\<lambda>s. segment_media origin_s s i) segs) \<noteq> []
     \<and> length (concat (map (\<lambda>s. segment_media origin_s s i) segs)) \<le> max_parsed_samples
     \<and> unat (saved_rate video_cfg source_cfgs i) dvd 720000
     \<and> foldl (\<lambda>now s. run_until origin_s (saved_rate video_cfg source_cfgs i) s i now) 0 segs * 720000 \<le> u64_max)"

definition holds_segments ::
  "bytes \<Rightarrow> f64 \<Rightarrow> video_track_config \<Rightarrow> audio_track_config list \<Rightarrow> segment list \<Rightarrow> bool" where
  "holds_segments f origin_s video_cfg source_cfgs segs \<longleftrightarrow>
     (\<exists>ms. parse_movie f = Inr ms \<and> length ms = 1 + length source_cfgs
      \<and> (\<forall>i \<le> length source_cfgs. media f (pt_samples (ms ! i)) = concat (map (\<lambda>s. segment_media origin_s s i) segs)
          \<and> paced origin_s (saved_rate video_cfg source_cfgs i) i 0 segs (map sr_start_ticks (pt_samples (ms ! i)))))"

lemma muxed_holds_segments:
  assumes new: "writer_new_multi sink_new (Video video_cfg # map Audio cfgs) = Inr mw" and fin: "finalize mw' = Some w"
    and to: "segments_to (Video video_cfg # map Audio cfgs) origin_s segs mw mw' ops"
    and cfgs: "map at_sample_rate cfgs = map at_sample_rate source_cfgs"
    and small: "length (sk_data w) \<le> u64_max" and fits: "fits_file origin_s video_cfg source_cfgs segs"
  shows "holds_segments (sk_data w) origin_s video_cfg source_cfgs segs"
proof -
  let ?cfgs = "Video video_cfg # map Audio cfgs"
  have n: "length cfgs = length source_cfgs" using map_eq_imp_length_eq [OF cfgs] .
  have rate: "track_timescale (?cfgs ! i) = saved_rate video_cfg source_cfgs i" if i: "i < length ?cfgs" for i
  proof (cases i)
    case (Suc k)
    then have k: "k < length cfgs" using i by simp
    then have "at_sample_rate (cfgs ! k) = at_sample_rate (source_cfgs ! k)"
      using arg_cong [OF cfgs, of "\<lambda>l. l ! k"] n by simp
    with Suc k show ?thesis by (simp add: track_timescale_def saved_rate_def)
  qed (simp add: track_timescale_def saved_rate_def)
  have "writer_run mw (ops @ []) = writer_run mw' []" using to unfolding segments_to_def by blast
  then have run: "writer_run mw ops = Some mw'" by simp
  have zero: "decode_clock mw i = 0" if "i < length ?cfgs" for i
  proof -
    have "mw_tracks mw = map track_state_new ?cfgs" using new by (auto simp: writer_new_multi_def bind_out_Inr_iff)
    then show ?thesis using that by (simp add: track_state_new_def del: list.map)
  qed
  have tr: "handed ops i = concat (map (\<lambda>s. segment_media origin_s s i) segs)
      \<and> paced origin_s (saved_rate video_cfg source_cfgs i) i 0 segs (scheduled ops i 0)
      \<and> clock ops i 0 = foldl (\<lambda>now s. run_until origin_s (saved_rate video_cfg source_cfgs i) s i now) 0 segs"
    if i: "i < length ?cfgs" for i
    using to i zero [OF i] rate [OF i] unfolding segments_to_def by metis
  have upto: "i < length ?cfgs \<longleftrightarrow> i \<le> length source_cfgs" for i using n by auto
  obtain ms where ms: "parse_movie (sk_data w) = Inr ms" "length ms = length ?cfgs"
    "\<And>i. i < length ?cfgs \<Longrightarrow> pt_cfg (ms ! i) = ?cfgs ! i \<and> pt_timescale (ms ! i) = track_timescale (?cfgs ! i)
       \<and> parsed_view (sk_data w) (ms ! i) = (handed ops i, scheduled ops i 0)"
    by (rule recording_parses [OF new run fin small]) (use tr rate fits upto in \<open>auto simp: fits_file_def\<close>)
  have "media (sk_data w) (pt_samples (ms ! i)) = concat (map (\<lambda>s. segment_media origin_s s i) segs)
      \<and> paced origin_s (saved_rate video_cfg source_cfgs i) i 0 segs (map sr_start_ticks (pt_samples (ms ! i)))"
    if "i \<le> length source_cfgs" for i
    using ms(3) [of i] tr [of i] that upto [of i] by (simp add: parsed_view_media)
  then show ?thesis using ms n unfolding holds_segments_def by auto
qed

text \<open>
  C6: a saved replay, from memory or from disk, is a finalized file that reads back as the save
  window - when every track, each audio track too, has at least one and at most \<open>MAX_PARSED_SAMPLES\<close>
  samples in the window, its timescale divides the movie timescale 720000, its clock at the end of the
  window times 720000 fits 64 bits, and the file and every segment are at most 2^64 - 1 bytes long (a
  track without a sample makes the file unreadable, C39).  Every track holds exactly the samples of the window's segments, in order: all of the
  video, and the audio from the first sample that starts within a nanosecond of the origin.  Each
  segment's run starts at its capture time relative to the window, or at the end of the run before
  when rounding made them overlap, every sample lasts at least a tick, and the run ends at its own
  rounded end, so that no rounding error survives a segment.
\<close>

theorem saved_replay_reads_back:
  assumes "storage_is rd m" "\<forall>s \<in> set (rr_segments m). segment_byte_len s \<le> u64_max"
    and "save_replay (rd_fs rd) (rd_ring rd) start video_cfg source_cfgs sink_new window_s exclude = Inr (w, end_pts)"
    and "segs = ring_save_window m window_s exclude" "length (sk_data w) \<le> u64_max"
    and "fits_file (sg_pts_start_s (hd segs)) video_cfg source_cfgs segs"
  shows "end_pts = segment_pts_end_s (last segs)
    \<and> holds_segments (sk_data w) (sg_pts_start_s (hd segs)) video_cfg source_cfgs segs"
proof -
  note mem = save_from_memory [OF assms(1-3)]
  obtain o' mw mw' ops segs' where r: "segs' = ring_save_window m window_s exclude" "segs' \<noteq> []"
    "o' = sg_pts_start_s (hd segs')" "end_pts = segment_pts_end_s (last segs')"
    "writer_new_multi sink_new (Video video_cfg # map Audio (replay_audio_cfgs (replay_starts_at_stream_origin start o') source_cfgs)) = Inr mw"
    "writer_run mw ops = Some mw'" "finalize mw' = Some w"
    "segments_to (Video video_cfg # map Audio (replay_audio_cfgs (replay_starts_at_stream_origin start o') source_cfgs)) o' segs' mw mw' ops"
    by (rule saved_memory_replay [OF mem]) (rule that, assumption+)
  have so: "segs' = segs" "o' = sg_pts_start_s (hd segs)" using r(1,3) assms(4) by simp_all
  have "map at_sample_rate (replay_audio_cfgs b source_cfgs) = map at_sample_rate source_cfgs" for b
    by (simp add: replay_audio_cfgs_def)
  from muxed_holds_segments [OF r(5,7,8) this assms(5)] assms(6) r(4) so show ?thesis by simp
qed

theorem saved_replay_reads_back_witness:
  "\<exists>w ms. parse_movie (sk_data (w :: sink)) = Inr ms \<and> length ms = 1
     \<and> media (sk_data w) (pt_samples (ms ! 0)) = [([1, 2, 3], True)]"
proof -
  let ?rd = "(recorder_new 100)\<lparr>rd_ring := Memory (ring_push (ring_new 100) sample_sealed)\<rparr>"
  obtain w where w: "save_replay (rd_fs ?rd) (rd_ring ?rd) None sample_video_cfg [] sink_new (Infinity False) None = Inr (w, Fin 1)"
    "length (sk_data w) < 4000" by (rule sample_save [of "rd_fs ?rd" None]) (rule that, simp_all)
  have media: "segment_media (Fin 0) sample_sealed 0 = [([1, 2, 3], True)]"
    by (simp add: segment_media_def skipped_def segment_infos_def segment_track_def track_sample_slices_def
        slice_samples_def checked_add_usize_def usize_max_def get_range_def slice_def slice_bytes_def)
  have until: "run_until (Fin 0) 1 sample_sealed 0 0 = 1"
    by (simp add: run_until_def run_from_def run_requested_def first_pts_def pts_ticks_def seconds_ticks_def
        segment_infos_def skipped_def segment_track_def sample_arith sample_f64)
  have st: "storage_is ?rd (ring_push (ring_new 100) sample_sealed)" by (simp add: storage_is_def)
  have small: "\<forall>s \<in> set (rr_segments (ring_push (ring_new 100) sample_sealed)). segment_byte_len s \<le> u64_max"
    "length (sk_data w) \<le> u64_max" using w(2) by (simp_all add: sample_ring_segments u64_max_def)
  have rate: "saved_rate sample_video_cfg [] 0 = 1" by (simp add: saved_rate_def sample_video_cfg_def)
  have tracks: "fits_file (Fin 0) sample_video_cfg [] [sample_sealed]"
    by (simp add: fits_file_def media until rate max_parsed_samples_def u64_max_def)
  from saved_replay_reads_back [OF st small(1) w(1) sample_window [symmetric] small(2)] tracks
  obtain ms where "parse_movie (sk_data w) = Inr ms" "length ms = 1"
    "media (sk_data w) (pt_samples (ms ! 0)) = concat (map (\<lambda>s. segment_media (Fin 0) s 0) [sample_sealed])"
    by (auto simp: holds_segments_def)
  then show ?thesis by (intro exI [of _ w] exI [of _ ms]) (simp add: media)
qed

text \<open>
  C7: the disk buffer behaves as the memory buffer.  A disk ring that refines a memory ring reports
  the same length, bytes, span and save window, and \<open>save_replay\<close> on it, which copies the samples
  from the segment files by offset, returns exactly the file the memory ring's save builds from its
  slices.
\<close>

theorem disk_replay_saves_the_same_file:
  assumes "disk_refines r fs m" "\<forall>s \<in> set (rr_segments m). segment_byte_len s \<le> u64_max"
  shows "(save_replay fs (Disk r) start video_cfg source_cfgs sink_new window_s exclude = Inr out \<longleftrightarrow>
      save_replay fs (Memory m) start video_cfg source_cfgs sink_new window_s exclude = Inr out)
    \<and> storage_len (Disk r) = storage_len (Memory m) \<and> storage_bytes (Disk r) = storage_bytes (Memory m)
    \<and> buffered_span_s (Disk r) = buffered_span_s (Memory m)
    \<and> save_window_bounds (Disk r) window_s exclude = save_window_bounds (Memory m) window_s exclude
    \<and> save_window_bytes (Disk r) window_s exclude = save_window_bytes (Memory m) window_s exclude"
proof (intro conjI)
  have rel: "list_all2 (represents fs) (dr_segments r) (rr_segments m)"
    "list_all2 (represents fs) (disk_save_window r window_s exclude) (ring_save_window m window_s exclude)"
    using assms(1) disk_save_refines by (auto simp: disk_refines_def)
  have view: "map ds_byte_len ds = map segment_byte_len ss
      \<and> map (\<lambda>d. (ds_pts_start_s d, disk_pts_end_s d)) ds = map (\<lambda>s. (sg_pts_start_s s, segment_pts_end_s s)) ss"
    if "list_all2 (represents fs) ds ss" for ds ss
    using that by (induction ds ss rule: list_all2_induct) (auto dest!: represents_view simp: same_view_def disk_ops_def)
  show "save_replay fs (Disk r) start video_cfg source_cfgs sink_new window_s exclude = Inr out \<longleftrightarrow>
      save_replay fs (Memory m) start video_cfg source_cfgs sink_new window_s exclude = Inr out"
    by (rule saved_disk_replay [OF assms(1)]) (use assms(2) in \<open>simp add: length_payload\<close>)
  show "storage_len (Disk r) = storage_len (Memory m)" "storage_bytes (Disk r) = storage_bytes (Memory m)"
    using assms(1) list_all2_lengthD [OF rel(1)] by (simp_all add: storage_len_def storage_bytes_def ring_len_def disk_refines_def)
  show "buffered_span_s (Disk r) = buffered_span_s (Memory m)"
    using view [OF rel(1)] by (simp add: buffered_span_s_def)
  show "save_window_bounds (Disk r) window_s exclude = save_window_bounds (Memory m) window_s exclude"
    using represents_bounds [OF rel(2)] by (simp add: save_window_bounds_def storage_save_window_def)
  show "save_window_bytes (Disk r) window_s exclude = save_window_bytes (Memory m) window_s exclude"
    using view [OF rel(2)] by (simp add: save_window_bytes_def storage_save_window_def window_bytes_def)
qed

lemma sample_disk:
  obtains r fs where "disk_push_ref (su_io sample_surroundings 0) (disk_ring_with_retention 100 (Infinity False) [''d'']) (\<lambda>_. None) sample_sealed
      = ((r, fs), Inr ())" "disk_refines r fs (ring_push (ring_new 100) sample_sealed)"
proof -
  let ?r = "disk_ring_with_retention 100 (Infinity False) [''d'']"
  have plan: "eviction_plan disk_ops [] b s m t = 0" for b s m t using eviction_plan_le [of disk_ops "[]"] by simp
  obtain r fs where push: "disk_push_ref (su_io sample_surroundings 0) ?r (\<lambda>_. None) sample_sealed = ((r, fs), Inr ())"
    by (simp add: disk_push_ref_def sample_surroundings_def disk_ring_with_retention_def plan Let_def)
  have "disk_refines ?r (\<lambda>_. None) (ring_new 100)"
    by (simp add: disk_refines_def disk_ring_with_retention_def ring_new_def)
  from disk_push_refines [OF this push] push show thesis by (intro that) auto
qed

theorem disk_replay_saves_the_same_file_witness:
  "\<exists>r fs w. save_replay fs (Disk r) None sample_video_cfg [] sink_new (Infinity False) None = Inr (w, Fin 1)
     \<and> length (dr_segments r) = 1"
proof -
  obtain r fs where r: "disk_push_ref (su_io sample_surroundings 0) (disk_ring_with_retention 100 (Infinity False) [''d'']) (\<lambda>_. None) sample_sealed
      = ((r, fs), Inr ())" "disk_refines r fs (ring_push (ring_new 100) sample_sealed)" by (rule sample_disk)
  obtain w where w: "save_replay fs (Memory (ring_push (ring_new 100) sample_sealed)) None sample_video_cfg []
      sink_new (Infinity False) None = Inr (w, Fin 1)" by (rule sample_save)
  have small: "\<forall>s \<in> set (rr_segments (ring_push (ring_new 100) sample_sealed)). segment_byte_len s \<le> u64_max"
    by (simp add: sample_ring_segments u64_max_def)
  note same = disk_replay_saves_the_same_file [OF r(2) small]
  from same w have "save_replay fs (Disk r) None sample_video_cfg [] sink_new (Infinity False) None = Inr (w, Fin 1)" by blast
  moreover have "length (dr_segments r) = 1"
    using same by (simp add: storage_len_def ring_len_def sample_ring_segments)
  ultimately show ?thesis by blast
qed

section \<open>From the encoder to the ring\<close>

text \<open>
  C5: a recording loses nothing and duplicates nothing.  A recorder that starts fresh and records
  until its capture ends has handed the ring one segment for each GOP of the encoder's packets -
  from the first keyframe on, split at every keyframe, the last partial one included - and every
  audio packet of the timeline (from a nanosecond before the first keyframe) is in exactly one
  segment, in the order in which its source delivered it.
\<close>

theorem recorder_keeps_every_packet:
  assumes "fresh_recorder m n rd" "\<forall>i \<in> set inputs. captured (snd i)"
    and "run_to_end inputs su (Some final) answers rd = (rd', Inr ())"
    and "packets = pushed (stream_ops inputs) @ final"
  shows "\<exists>hist. storage_is rd' (ring_push_all m (sealed_segments hist)) \<and> map fst hist = gops packets
    \<and> list_all is_gop (map fst hist) \<and> concat (map fst hist) = dropWhile (\<lambda>p. \<not> ep_is_keyframe p) packets
    \<and> (\<forall>k < n. hist \<noteq> [] \<longrightarrow> sealed_audio hist k
        = filter (on_timeline (ep_pts_s (hd (concat (map fst hist))))) (polled (stream_ops inputs) k @ answer answers k))"
proof -
  obtain hist where h: "storage_is rd' (ring_push_all m (sealed_segments hist))" "map fst hist = gops packets"
    "\<forall>k < n. \<forall>s. rd_video_start_pts_s rd' = Some s \<longrightarrow>
        sealed_audio hist k = filter (on_timeline s) (polled (stream_ops inputs) k @ answer answers k)"
    "rd_video_start_pts_s rd' = (if map fst hist = [] then None else Some (ep_pts_s (hd (hd (map fst hist)))))"
  proof -
    have rc: "recorded m n [] (\<lambda>_. []) [] rd" "gop_open rd" using fresh_recorded [OF assms(1)] by simp_all
    note that' = that
    from stream_recorded [OF assms(3,2) rc] obtain hist where
      "storage_is rd' (ring_push_all m (sealed_segments hist))"
      "map fst hist = gops ([] @ pushed (stream_ops inputs) @ final)"
      "\<forall>k < n. \<forall>s. rd_video_start_pts_s rd' = Some s \<longrightarrow>
          sealed_audio hist k = filter (on_timeline s) ([] @ polled (stream_ops inputs) k @ answer answers k)"
      "rd_video_start_pts_s rd' = (if map fst hist = [] then None else Some (ep_pts_s (hd (hd (map fst hist)))))"
      by blast
    then show thesis unfolding append_Nil assms(4) [symmetric] by (rule that')
  qed
  have "list_all is_gop (map fst hist)" "concat (map fst hist) = dropWhile (\<lambda>p. \<not> ep_is_keyframe p) packets"
    using gops_spec [of packets] h(2) by simp_all
  moreover have "sealed_audio hist k = filter (on_timeline (ep_pts_s (hd (concat (map fst hist)))))
      (polled (stream_ops inputs) k @ answer answers k)" if k: "k < n" and ne: "hist \<noteq> []" for k
  proof -
    obtain h0 hs where hist: "hist = h0 # hs" using ne by (cases hist) auto
    then have "is_gop (fst h0)" using calculation(1) by simp
    then have first: "hd (hd (map fst hist)) = hd (concat (map fst hist))" using hist by (auto simp: is_gop_def)
    have "rd_video_start_pts_s rd' = Some (ep_pts_s (hd (hd (map fst hist))))" using h(4) ne by simp
    then show ?thesis using h(3) k unfolding first by blast
  qed
  ultimately show ?thesis using h(1,2) by (intro exI [of _ hist] conjI allI impI) auto
qed

lemma sample_answers: "rd_pending_audio (recorder_new 100) = []" "rd_video_start_pts_s (recorder_new 100) = None"
  by (simp_all add: recorder_new_def recorder_with_retention_def recorder_with_def)

theorem recorder_keeps_every_packet_witness:
  "\<exists>rd' hist. run_to_end [(sample_surroundings, \<lparr>in_frame = Inr (Some (Fin 0)), in_audio = [],
       in_packets = Some [sample_packet 0 [1, 2, 3]]\<rparr>)] sample_surroundings (Some [sample_packet 1 [4, 5]]) []
       (recorder_new 100) = (rd', Inr ())
     \<and> map fst hist = [[sample_packet 0 [1, 2, 3]], [sample_packet 1 [4, 5]]]
     \<and> storage_is rd' (ring_push_all (ring_new 100) (sealed_segments hist))"
proof -
  let ?inputs = "[(sample_surroundings, \<lparr>in_frame = Inr (Some (Fin 0)), in_audio = [],
       in_packets = Some [sample_packet 0 [1, 2, 3]]\<rparr>)]"
  have run: "\<exists>rd'. run_to_end ?inputs sample_surroundings (Some [sample_packet 1 [4, 5]]) [] (recorder_new 100) = (rd', Inr ())"
    by (simp add: recorder_eval sample_packet_def sample_surroundings_def sample_video_cfg_def is_finite_def Let_def
        step_with_frame_def poll_audio_until_def encoded_def finish_stream_def finish_audio_until_def)
  then obtain rd' where rd': "run_to_end ?inputs sample_surroundings (Some [sample_packet 1 [4, 5]]) [] (recorder_new 100) = (rd', Inr ())"
    by blast
  have fresh: "fresh_recorder (ring_new 100) 0 (recorder_new 100)"
    by (simp add: fresh_recorder_def storage_is_def recorder_new_def recorder_with_retention_def recorder_with_def ring_new_def)
  have cap: "\<forall>i \<in> set ?inputs. captured (snd i)" by (simp add: captured_def)
  have packets: "[sample_packet 0 [1, 2, 3], sample_packet 1 [4, 5]] = pushed (stream_ops ?inputs) @ [sample_packet 1 [4, 5]]"
    by (simp add: stream_ops_def step_ops_def)
  have "gops [sample_packet 0 [1, 2, 3], sample_packet 1 [4, 5]] = [[sample_packet 0 [1, 2, 3]], [sample_packet 1 [4, 5]]]"
    by (simp add: gops_def add_packet_def sample_packet_def)
  with recorder_keeps_every_packet [OF fresh cap rd' packets] obtain hist where
    "map fst hist = [[sample_packet 0 [1, 2, 3]], [sample_packet 1 [4, 5]]]"
    "storage_is rd' (ring_push_all (ring_new 100) (sealed_segments hist))" by metis
  with rd' show ?thesis by (intro exI [of _ rd'] exI [of _ hist] conjI)
qed

lemma sealed_segments_split: "sealed_segments hist = xs @ ys \<Longrightarrow> \<exists>h1 h2. hist = h1 @ h2 \<and> sealed_segments h2 = ys"
  unfolding sealed_segments_def map_eq_append_conv by blast

text \<open>
  C11: the video of every save is whole GOPs of the encoder.  At any moment of a recording that had
  no error, whatever window is asked for and whatever was evicted, the video samples that a save
  hands to the file are the payloads and keyframe flags of consecutive GOPs of the encoder's
  packets, up to the newest sealed one - nothing but the GOP still being recorded is newer.
\<close>

theorem saved_video_is_whole_gops:
  assumes "fresh_recorder m n rd0" "rr_segments m = []" "recorder_run ops rd0 = Some rd"
    and "\<forall>p \<in> set (pushed ops). length (ep_data p) < 2 ^ 32"
    and "length (concat (map ep_data (pushed ops))) \<le> usize_max"
  shows "\<exists>m'. storage_is rd m' \<and> (\<forall>window_s exclude origin_s. \<exists>old gs newest.
    gops (pushed ops) = old @ gs @ newest \<and> length newest \<le> 1
    \<and> map (\<lambda>s. segment_media origin_s s 0) (ring_save_window m' window_s exclude)
        = map (map (\<lambda>p. (ep_data p, ep_is_keyframe p))) gs)"
proof -
  have rc: "recorded m n [] (\<lambda>_. []) [] rd0" "gop_open rd0" using fresh_recorded [OF assms(1)] by simp_all
  obtain hist where h: "recorded m n (pushed ops) (\<lambda>k. polled ops k) hist rd"
    using run_recorded [OF assms(3) rc] by auto
  let ?m = "ring_push_all m (sealed_segments hist)"
  have g: "gops (pushed ops) = map fst hist @ (if rd_pending rd = [] then [] else [rd_pending rd])"
    using h unfolding recorded_def by blast
  have "\<exists>old gs newest. gops (pushed ops) = old @ gs @ newest \<and> length newest \<le> 1
    \<and> map (\<lambda>s. segment_media origin_s s 0) (ring_save_window ?m window_s exclude)
        = map (map (\<lambda>p. (ep_data p, ep_is_keyframe p))) gs" for window_s exclude origin_s
  proof -
    obtain before where "sealed_segments hist = before @ ring_save_window ?m window_s exclude"
      using saved_suffix_of [of m "sealed_segments hist" window_s exclude] assms(2) by auto
    from sealed_segments_split [OF this] obtain h1 h2 where
      h12: "hist = h1 @ h2" "sealed_segments h2 = ring_save_window ?m window_s exclude" by blast
    have media: "segment_media origin_s (sealed_segment gop ds audio) 0 = map (\<lambda>p. (ep_data p, ep_is_keyframe p)) gop"
      if "(gop, ds, audio) \<in> set h2" for gop ds audio
    proof (rule sealed_video_media)
      have "(gop, ds, audio) \<in> set hist" using that h12(1) by simp
      then have "fst (gop, ds, audio) \<in> set (map fst hist)" unfolding set_map by (rule imageI)
      then have mem: "gop \<in> set (gops (pushed ops))" unfolding g by (simp only: fst_conv set_append Un_iff simp_thms)
      obtain xs ys where split: "gops (pushed ops) = xs @ gop # ys" using split_list [OF mem] by blast
      have cat: "concat (gops (pushed ops)) = dropWhile (\<lambda>p. \<not> ep_is_keyframe p) (pushed ops)"
        using gops_spec [of "pushed ops"] by blast
      have "set gop \<subseteq> set (concat (gops (pushed ops)))" using split by auto
      then show "\<forall>p \<in> set gop. length (ep_data p) < 2 ^ 32"
        using assms(4) cat set_dropWhileD by (metis subsetD)
      have "pushed ops = takeWhile (\<lambda>p. \<not> ep_is_keyframe p) (pushed ops) @ concat (gops (pushed ops))"
        unfolding cat by simp
      then have "length (concat (map ep_data (pushed ops))) = length (concat (map ep_data
          (takeWhile (\<lambda>p. \<not> ep_is_keyframe p) (pushed ops) @ concat xs @ gop @ concat ys)))"
        using split by (metis concat.simps(2) concat_append)
      then show "length (concat (map ep_data gop)) \<le> usize_max" using assms(5) by simp
      show "length ds = length gop" using that h h12(1) unfolding recorded_def by force
    qed
    have "map (\<lambda>s. segment_media origin_s s 0) (sealed_segments h2) = map (map (\<lambda>p. (ep_data p, ep_is_keyframe p))) (map fst h2)"
      using media by (auto simp: sealed_segments_def)
    then show ?thesis
      using g h12 by (intro exI [of _ "map fst h1"] exI [of _ "map fst h2"]
          exI [of _ "if rd_pending rd = [] then [] else [rd_pending rd]"]) simp
  qed
  moreover have "storage_is rd ?m" using h unfolding recorded_def by blast
  ultimately show ?thesis by blast
qed

theorem saved_video_is_whole_gops_witness:
  "\<exists>rd m'. recorder_run [Pushed sample_surroundings (sample_packet 0 [1, 2, 3]),
      Pushed sample_surroundings (sample_packet 1 [4, 5])] (recorder_new 100) = Some rd \<and> storage_is rd m'"
proof -
  obtain rd where rd: "recorder_run [Pushed sample_surroundings (sample_packet 0 [1, 2, 3]),
      Pushed sample_surroundings (sample_packet 1 [4, 5])] (recorder_new 100) = Some rd" by (rule sample_recorder_run)
  have fresh: "fresh_recorder (ring_new 100) 0 (recorder_new 100)" "rr_segments (ring_new 100) = []"
    by (simp_all add: fresh_recorder_def storage_is_def recorder_new_def recorder_with_retention_def recorder_with_def ring_new_def)
  from saved_video_is_whole_gops [OF fresh rd] rd show ?thesis
    by (auto simp: sample_packet_def usize_max_def)
qed




text \<open>
  C40: a poll that fails half-way keeps the packets of the sources before the failing one and drops
  nothing, but it does not count them: the byte counter stays where it was, and the pending budget
  does not see these packets until the next seal recounts.
\<close>

theorem failed_poll_is_uncounted:
  assumes "poll_audio_until answers rd = (rd', Inl e)"
  shows "rd_pending_audio_bytes rd' = rd_pending_audio_bytes rd
    \<and> (\<exists>j c. get_at answers j = Some (Inl c) \<and> e = Err (Capture c) \<and> j < length (rd_pending_audio rd)
        \<and> length (rd_pending_audio rd') = length (rd_pending_audio rd)
        \<and> (\<forall>k < length (rd_pending_audio rd). rd_pending_audio rd' ! k
            = (if k < j then rd_pending_audio rd ! k @ answer answers k else rd_pending_audio rd ! k)))"
proof -
  have "extend_audio answers tracks added = (tracks', Inl e) \<Longrightarrow> \<exists>j c. get_at answers j = Some (Inl c)
      \<and> e = Err (Capture c) \<and> j < length tracks \<and> length tracks' = length tracks
      \<and> (\<forall>k < length tracks. tracks' ! k = (if k < j then tracks ! k @ answer answers k else tracks ! k))"
    for tracks added tracks'
  proof (induction answers tracks added arbitrary: tracks' rule: extend_audio.induct)
    case (1 c answers pending tracks added)
    then show ?case by (intro exI [of _ 0] exI [of _ c]) (auto simp: get_at_def)
  next
    case (2 packets answers pending tracks added)
    then obtain rest where r: "extend_audio answers tracks (packets_bytes added packets) = (rest, Inl e)"
      "tracks' = (pending @ packets) # rest" by (auto split: prod.splits)
    from "2.IH" [OF r(1)] obtain j c where j: "get_at answers j = Some (Inl c)" "e = Err (Capture c)" "j < length tracks"
      "length rest = length tracks"
      "\<forall>k < length tracks. rest ! k = (if k < j then tracks ! k @ answer answers k else tracks ! k)" by blast
    have "tracks' ! k = (if k < Suc j then (pending # tracks) ! k @ answer (Inr packets # answers) k else (pending # tracks) ! k)"
      if "k < length (pending # tracks)" for k
      using that j(5) r(2) by (cases k) (auto simp: answer_def get_at_def)
    moreover have "get_at (Inr packets # answers) (Suc j) = Some (Inl c)"
      using j(1) by (auto simp: get_at_def split: if_splits)
    ultimately show ?case using j(2-4) r(2) by (intro exI [of _ "Suc j"] exI [of _ c] conjI allI impI) simp_all
  qed auto
  from this [of "rd_pending_audio rd" 0] assms show ?thesis
    by (auto simp: poll_audio_until_def split: prod.splits sum.splits)
qed

theorem failed_poll_is_uncounted_witness:
  "\<exists>rd'. poll_audio_until [Inr [\<lparr>ap_data = [1, 2, 3], ap_pts_s = Fin 0, ap_duration_s = Fin 1\<rparr>], Inl Timeout]
       (with_audio (with_audio (recorder_new 100) sample_audio_cfg) sample_audio_cfg) = (rd', Inl (Err (Capture Timeout)))
     \<and> rd_pending_audio_bytes rd' = 0 \<and> audio_bytes rd' = 3"
proof -
  obtain rd' where rd': "poll_audio_until [Inr [\<lparr>ap_data = [1, 2, 3], ap_pts_s = Fin 0, ap_duration_s = Fin 1\<rparr>], Inl Timeout]
       (with_audio (with_audio (recorder_new 100) sample_audio_cfg) sample_audio_cfg) = (rd', Inl (Err (Capture Timeout)))"
    "audio_bytes rd' = 3"
    by (simp add: poll_audio_until_def with_audio_def recorder_new_def recorder_with_retention_def recorder_with_def audio_bytes_def)
  moreover have "rd_pending_audio_bytes (with_audio (with_audio (recorder_new 100) sample_audio_cfg) sample_audio_cfg) = 0"
    by (simp add: with_audio_def recorder_new_def recorder_with_retention_def recorder_with_def)
  ultimately show ?thesis using failed_poll_is_uncounted [OF rd'(1)] by auto
qed

end
