(* ===== verification/Pipeline_Session_Properties.thy ===== *)
theory Pipeline_Session_Properties
  imports Pipeline_Properties
begin

text \<open>
  The properties of the full-session recording (crates/clipline-capture/src/pipeline.rs): what the
  thread writes, the byte budget of the channel and the reply to \<open>Finish\<close>, over every interleaving
  of the recorder with the thread; and the durations that seal a GOP.
\<close>

section \<open>A sample session\<close>

definition sample_message :: session_segment where
  "sample_message = \<lparr>sm_video_cfg = sample_video_cfg, sm_audio_cfgs = [], sm_segment = sample_sealed, sm_reserved_bytes = 3\<rparr>"

definition sample_session_start :: session_system where
  "sample_session_start = session_start (session_sink_new 100 []) 8 sink_new"

definition sample_session_sink :: session_sink where
  "sample_session_sink = \<lparr>sn_max_queue_bytes = 100, sn_audio_cfgs = [], sn_video_cfg = Some sample_video_cfg,
     sn_start_s = Some (Fin 0), sn_end_s = Some (Fin 1), sn_send_error = None\<rparr>"

lemma step_to: "session_run sy es sy1 \<Longrightarrow> session_step sy1 e sy2 \<Longrightarrow> sy' = sy2 \<Longrightarrow> session_run sy (es @ [e]) sy'"
  by (simp add: session_run.step)

definition sample_asked_system :: session_system where
  "sample_asked_system =
     \<lparr>sy_sink = sample_session_sink,
      sy_channel = \<lparr>ch_messages = [SegmentMsg sample_message, FinishMsg], ch_capacity = 8, ch_receiver = True, ch_queued_bytes = 3\<rparr>,
      sy_recorder = AwaitingReply, sy_thread = session_writer_new sink_new, sy_writer = Receiving\<rparr>"

text \<open>Reserve, send, then ask the thread to finish; the thread has done nothing yet.\<close>

lemma sample_asked:
  "session_run sample_session_start [Offered sample_sealed, Accepted sample_message, Silent]
 sample_asked_system"
proof -
  let ?sy1 = "sample_session_start\<lparr>sy_sink := (session_sink_new 100 [])\<lparr>sn_video_cfg := Some sample_video_cfg\<rparr>,
      sy_channel := (session_channel_new 8)\<lparr>ch_queued_bytes := 3\<rparr>, sy_recorder := Sending sample_message\<rparr>"
  let ?sy2 = "?sy1\<lparr>sy_sink := sample_session_sink,
      sy_channel := (session_channel_new 8)\<lparr>ch_queued_bytes := 3, ch_messages := [SegmentMsg sample_message]\<rparr>, sy_recorder := Idle\<rparr>"
  have "reserve_segment sample_video_cfg sample_sealed (sy_sink sample_session_start) (sy_channel sample_session_start)
      = (((session_sink_new 100 [])\<lparr>sn_video_cfg := Some sample_video_cfg\<rparr>, (session_channel_new 8)\<lparr>ch_queued_bytes := 3\<rparr>), Some sample_message)"
    by (simp add: reserve_segment_def sample_session_start_def session_start_def session_sink_new_def session_channel_new_def
        try_reserve_queue_bytes_def checked_add_usize_def usize_max_def sample_message_def)
  from session_run.step [OF session_run.start session_step.reserved [OF _ this]]
  have run1: "session_run sample_session_start [Offered sample_sealed] ?sy1"
    by (simp add: sample_session_start_def session_start_def)
  have send: "send_segment sample_message (sy_sink ?sy1) (sy_channel ?sy1)
      = (sample_session_sink, (session_channel_new 8)\<lparr>ch_queued_bytes := 3, ch_messages := [SegmentMsg sample_message]\<rparr>)"
    by (simp add: send_segment_def session_sink_new_def session_channel_new_def sample_message_def sample_session_sink_def)
  have "sy_recorder ?sy1 = Sending sample_message" by simp
  from session_run.step [OF run1 session_step.sent [OF this send]]
  have run2: "session_run sample_session_start [Offered sample_sealed, Accepted sample_message] ?sy2"
    by (simp add: sample_session_sink_def)
  have fin: "sy_recorder ?sy2 = Idle" "ch_receiver (sy_channel ?sy2)"
    "length (ch_messages (sy_channel ?sy2)) < ch_capacity (sy_channel ?sy2)"
    by (simp_all add: session_channel_new_def)
  from session_run.step [OF run2 session_step.finishing [OF fin]] show ?thesis
    by (simp add: sample_session_start_def session_start_def session_channel_new_def sample_asked_system_def)
qed

text \<open>The thread takes the segment, writes it, takes \<open>Finish\<close> and replies with the file.\<close>

lemma sample_session:
  obtains es sy w where "session_run sample_session_start es sy" "sy_writer sy = Stopped (Inr (Some w))"
    "accepted es = [sample_message]" "sy_sink sy = sample_session_sink" "length (sk_data w) < 4000"
proof -
  obtain mw mw' w where s: "writer_new_multi sink_new [sample_av1] = Inr mw"
    "write_memory_replay_segment mw sample_sealed sample_video_cfg [] (Fin 0) = Inr mw'"
    "finalize mw' = Some w" "length (sk_data w) < 4000"
    by (rule sample_mux)
  have cfg: "Video sample_video_cfg = sample_av1" by (simp add: sample_video_cfg_def sample_av1_def)
  let ?sw = "\<lparr>sw_target = None, sw_writer = Some mw', sw_timeline_origin_s = Some (Fin 0), sw_first_error = None\<rparr>"
  have handle: "handle_segment (session_writer_new sink_new) sample_message = Some ?sw"
    using s(1,2) by (simp add: handle_segment_def write_full_session_segment_eq session_writer_new_def
        session_mp4_writer_def sample_message_def cfg)
  have finish: "handle_finish ?sw = Inr (Some w)" using s(3) by (simp add: handle_finish_def)
  let ?ch = "\<lambda>ms rec queued. \<lparr>ch_messages = ms, ch_capacity = 8, ch_receiver = rec, ch_queued_bytes = queued\<rparr>"
  let ?sys = "\<lambda>ch sw wr. \<lparr>sy_sink = sample_session_sink, sy_channel = ch, sy_recorder = AwaitingReply, sy_thread = sw, sy_writer = wr\<rparr>"
  let ?es = "[Offered sample_sealed, Accepted sample_message, Silent]"
  let ?a = "?sys (?ch [SegmentMsg sample_message, FinishMsg] True 3) (session_writer_new sink_new) Receiving"
  let ?b = "?sys (?ch [FinishMsg] True 3) (session_writer_new sink_new) (Handling sample_message)"
  let ?c = "?sys (?ch [FinishMsg] True 0) ?sw Receiving"
  let ?d = "?sys (?ch [] False 0) ?sw (Stopped (Inr (Some w)))"
  have turns: "writer_turn ?a = ?b" "writer_turn ?b = ?c" "writer_turn ?c = ?d"
    using handle finish
    by (simp_all add: writer_turn_def release_message_reservation_def sample_message_def fetch_sub_usize_def)
  have "session_step ?a Silent ?b"
    using session_step.received [of ?a] turns(1) by simp
  from session_run.step [OF sample_asked [unfolded sample_asked_system_def] this] have "session_run sample_session_start (?es @ [Silent]) ?b" by simp
  moreover have "session_step ?b (Handled sample_message) ?c"
    using session_step.handled [of ?b] turns(2) by simp
  ultimately have "session_run sample_session_start ((?es @ [Silent]) @ [Handled sample_message]) ?c"
    by (rule session_run.step)
  moreover have "session_step ?c Silent ?d"
    using session_step.received [of ?c] turns(3) by simp
  ultimately have "session_run sample_session_start (((?es @ [Silent]) @ [Handled sample_message]) @ [Silent]) ?d"
    by (rule session_run.step)
  from that [OF this] s(4) show thesis by simp
qed

section \<open>The full session\<close>

lemma session_held: "fits_file (Fin 0) sample_video_cfg [] [sample_sealed]"
proof -
  have media: "segment_media (Fin 0) sample_sealed 0 = [([1, 2, 3], True)]"
    by (simp add: segment_media_def skipped_def segment_infos_def segment_track_def track_sample_slices_def
        slice_samples_def checked_add_usize_def usize_max_def get_range_def slice_def slice_bytes_def)
  have until: "run_until (Fin 0) 1 sample_sealed 0 0 = 1"
    by (simp add: run_until_def run_from_def run_requested_def first_pts_def pts_ticks_def seconds_ticks_def
        segment_infos_def skipped_def segment_track_def sample_arith sample_f64)
  have rate: "saved_rate sample_video_cfg [] 0 = 1" by (simp add: saved_rate_def sample_video_cfg_def)
  show ?thesis by (simp add: fits_file_def media until rate max_parsed_samples_def u64_max_def)
qed

lemma session_mux_segments_to:
  assumes "session_mux sink_new video_cfg audio_cfgs segs = Inr mw'"
  obtains mw ops where "writer_new_multi sink_new (Video video_cfg # map Audio audio_cfgs) = Inr mw"
    "segments_to (Video video_cfg # map Audio audio_cfgs) (sg_pts_start_s (hd segs)) segs mw mw' ops"
proof -
  obtain mw where mw: "writer_new_multi sink_new (Video video_cfg # map Audio audio_cfgs) = Inr mw"
    "write_segments (\<lambda>mw s. write_memory_replay_segment mw s video_cfg audio_cfgs (sg_pts_start_s (hd segs))) segs mw = Inr mw'"
    using assms by (auto simp: session_mux_def bind_out_Inr_iff)
  have "writer_ok mw" "length (mw_tracks mw) = 1 + length audio_cfgs"
    using writer_new_ok [OF mw(1)] by auto
  from write_segments_to [OF mw(2) this] mw(1) that show thesis by blast
qed

text \<open>
  C8: a session that succeeds is complete.  Take any interleaving of the recorder and the writer
  thread at whose end the thread replies with a file of at most 2^64 - 1 bytes, and let every track, each
  audio track too, have at least one and at most \<open>MAX_PARSED_SAMPLES\<close> samples in the segments that were
  accepted, its timescale divide the movie timescale 720000 and its clock times 720000 fit 64 bits (a
  track without a sample makes the file unreadable, C39).  Then the file reads back as the accepted
  segments, in order, none dropped and none twice, with their times relative to the first one.  When no
  send failed these are all the segments the recorder sealed since the start of the session, and
  \<open>finish_full_session\<close> reports the start of the first and the end of the last; when a send failed, it
  reports an error instead.
\<close>

theorem session_file_reads_back:
  assumes "session_run (session_start (session_sink_new max_bytes audio_cfgs) n sink_new) es sy"
    and "sy_writer sy = Stopped (Inr (Some w))" "sn_video_cfg (sy_sink sy) = Some video_cfg"
    and "length (sk_data w) \<le> u64_max" "segs = map sm_segment (accepted es)"
    and "fits_file (sg_pts_start_s (hd segs)) video_cfg audio_cfgs segs"
  shows "segs \<noteq> [] \<and> holds_segments (sk_data w) (sg_pts_start_s (hd segs)) video_cfg audio_cfgs segs
    \<and> (if sn_send_error (sy_sink sy) = None
       then offered es = segs
         \<and> finish_full_session (Some (sy_sink sy)) (Some (Inr (Some w))) = Inr (Some \<lparr>fs_start_s = sg_pts_start_s (hd segs),
             fs_end_s = segment_pts_end_s (last segs), fs_duration_s = fsub (segment_pts_end_s (last segs)) (sg_pts_start_s (hd segs))\<rparr>)
       else finish_full_session (Some (sy_sink sy)) (Some (Inr (Some w))) = Inl (Err BrokenPipe))"
proof -
  obtain mw' where ne: "accepted es \<noteq> []" and mux: "session_mux sink_new video_cfg audio_cfgs segs = Inr mw'" "finalize mw' = Some w"
    using session_file_ok [OF assms(1,2)] assms(3,5) by auto
  obtain mw ops where to: "writer_new_multi sink_new (Video video_cfg # map Audio audio_cfgs) = Inr mw"
    "segments_to (Video video_cfg # map Audio audio_cfgs) (sg_pts_start_s (hd segs)) segs mw mw' ops"
    using mux(1) by (rule session_mux_segments_to)
  have holds: "holds_segments (sk_data w) (sg_pts_start_s (hd segs)) video_cfg audio_cfgs segs"
    using muxed_holds_segments [OF to(1) mux(2) to(2) refl assms(4,6)] .
  have ok: "order_ok es sy" "offers_ok es sy"
    using order_run [OF assms(1) order_start] offers_run [OF assms(1)]
    by (simp_all add: offers_ok_def session_start_def sending_def)
  then have "sending sy = []" using assms(2) by (auto simp: order_ok_def closing_ok_def sending_def)
  with ok ne holds assms(5) show ?thesis
    by (auto simp: order_ok_def sink_ok_def offers_ok_def finish_full_session_def finish_full_session_writer_def
        hd_map last_map Let_def)
qed

theorem session_file_reads_back_witness:
  "\<exists>es sy w ms. session_run sample_session_start es sy \<and> sy_writer sy = Stopped (Inr (Some (w :: sink)))
     \<and> offered es = [sample_sealed] \<and> parse_movie (sk_data w) = Inr ms \<and> length ms = 1"
proof -
  obtain es sy w where s: "session_run sample_session_start es sy" "sy_writer sy = Stopped (Inr (Some w))"
    "accepted es = [sample_message]" "sy_sink sy = sample_session_sink" "length (sk_data w) < 4000"
    by (rule sample_session)
  have run: "session_run (session_start (session_sink_new 100 []) 8 sink_new) es sy"
    using s(1) by (simp add: sample_session_start_def)
  have cfg: "sn_video_cfg (sy_sink sy) = Some sample_video_cfg" by (simp add: s(4) sample_session_sink_def)
  have small: "length (sk_data w) \<le> u64_max" using s(5) by (simp add: u64_max_def)
  have segs: "[sample_sealed] = map sm_segment (accepted es)" by (simp add: s(3) sample_message_def)
  have fits: "fits_file (sg_pts_start_s (hd [sample_sealed])) sample_video_cfg [] [sample_sealed]" by (simp add: session_held)
  from session_file_reads_back [OF run s(2) cfg small segs fits] s(1,2,4) show ?thesis
    by (auto simp: holds_segments_def sample_session_sink_def)
qed

text \<open>
  C9: the channel stays within its limits under every interleaving.  The queued bytes never exceed
  the byte budget and the messages never exceed the segment limit; and while the thread has not
  panicked the atomic counter is exactly the bytes of the segments that are reserved, queued or
  being written: no reservation leaks and none is released twice.
\<close>

theorem session_stays_within_budget:
  assumes "session_run (session_start (session_sink_new max_bytes audio_cfgs) n target) es sy" "max_bytes \<le> usize_max"
  shows "ch_queued_bytes (sy_channel sy) \<le> max_bytes \<and> held_bytes sy \<le> ch_queued_bytes (sy_channel sy)
    \<and> length (ch_messages (sy_channel sy)) \<le> n
    \<and> (\<not> writer_panicked sy \<longrightarrow> ch_queued_bytes (sy_channel sy) = held_bytes sy)"
proof -
  have start: "sn_max_queue_bytes (sy_sink (session_start (session_sink_new max_bytes audio_cfgs) n target)) = max_bytes"
    "ch_capacity (sy_channel (session_start (session_sink_new max_bytes audio_cfgs) n target)) = n"
    by (simp_all add: session_start_def session_sink_new_def session_channel_new_def)
  from budget_run [OF assms(1) budget_start] start assms(2) show ?thesis by (simp add: budget_ok_def)
qed

theorem session_stays_within_budget_witness:
  "\<exists>es sy. session_run sample_session_start es sy \<and> held_bytes sy = 3 \<and> ch_queued_bytes (sy_channel sy) = 3"
proof -
  have "ch_queued_bytes (sy_channel sample_asked_system) = held_bytes sample_asked_system"
    using session_stays_within_budget [OF sample_asked [unfolded sample_session_start_def]]
    by (simp add: usize_max_def writer_panicked_def sample_asked_system_def)
  with sample_asked show ?thesis
    by (intro exI [of _ "[Offered sample_sealed, Accepted sample_message, Silent]"] exI [of _ sample_asked_system])
      (simp add: sample_asked_system_def)
qed

text \<open>
  C10: \<open>finish_full_session\<close> does not hang.  Once \<open>Finish\<close> is queued, whatever was queued before it and
  whatever the thread was doing, the thread replies within 2 n + 1 of its own turns, n the segment
  limit of the channel: with the file, with the first error, or by a panic that closes the channel.
\<close>

theorem session_thread_replies:
  assumes "session_run (session_start (session_sink_new max_bytes audio_cfgs) n target) es sy"
    and "sy_recorder sy = AwaitingReply" "max_bytes \<le> usize_max"
  shows "\<exists>r. sy_writer ((writer_turn ^^ (2 * n + 1)) sy) = Stopped r"
proof (rule writer_drains [OF _ assms(2)])
  show "closing_ok sy" using order_run [OF assms(1) order_start] by (simp add: order_ok_def)
  have "length (ch_messages (sy_channel sy)) \<le> n"
    using budget_run [OF assms(1) budget_start] assms(3)
    by (simp add: budget_ok_def session_start_def session_sink_new_def session_channel_new_def)
  then show "pending_turns sy \<le> 2 * n + 1" by (simp add: pending_turns_def split: writer_phase.splits)
qed

theorem session_thread_replies_witness:
  "\<exists>es sy r. session_run sample_session_start es sy \<and> sy_writer sy = Receiving
     \<and> sy_writer ((writer_turn ^^ 17) sy) = Stopped r"
proof -
  have await: "sy_recorder sample_asked_system = AwaitingReply" "(100 :: nat) \<le> usize_max"
    by (simp_all add: sample_asked_system_def usize_max_def)
  have "\<exists>r. sy_writer ((writer_turn ^^ (2 * 8 + 1)) sample_asked_system) = Stopped r"
    by (rule session_thread_replies [OF sample_asked [unfolded sample_session_start_def] await])
  then obtain r where "sy_writer ((writer_turn ^^ 17) sample_asked_system) = Stopped r"
    by (simp only: mult_numeral_1_right arith_simps numeral_One [symmetric]) blast
  moreover have "sy_writer sample_asked_system = Receiving" by (simp add: sample_asked_system_def)
  ultimately show ?thesis using sample_asked by blast
qed

section \<open>Sealing a GOP\<close>

text \<open>
  Sealing never panics, and loses no time.  With a finite boundary, every packet of the sealed
  GOP gets a duration of a whole number of ticks of the video time scale, at least one each, and
  the ticks add up to the rounded time from the GOP's first packet to the boundary, or to one tick
  per packet when that is more.
\<close>

theorem sealed_gop_durations:
  assumes "is_finite boundary" "packets \<noteq> []"
  shows "sealed_video_durations packets boundary timescale \<noteq> Inl Panic
    \<and> (\<forall>ds. sealed_video_durations packets boundary timescale = Inr ds \<longrightarrow>
        (\<exists>ticks. ds = map (\<lambda>d. fdiv (f64_of_nat d) (f64_of_nat (unat timescale))) ticks
          \<and> length ticks = length packets \<and> (\<forall>d \<in> set ticks. 0 < d)
          \<and> sum_list ticks = max (round_u64 (fmax (fmul (fsub boundary (ep_pts_s (hd packets)))
              (f64_of_nat (unat timescale))) (Fin 0))) (length packets)))"
  using sealed_durations_no_panic sealed_durations_exact [OF assms] by metis

theorem sealed_gop_durations_witness:
  "\<exists>ds. sealed_video_durations [sample_packet 0 [1, 2, 3]] (Fin 1) 1 = Inr ds \<and> length ds = 1"
proof -
  obtain ds where ds: "sealed_video_durations [sample_packet 0 [1, 2, 3]] (Fin 1) 1 = Inr ds"
    by (simp add: sealed_video_durations_def sample_packet_def is_finite_def recorder_eval Let_def)
  have "is_finite (Fin 1)" by (simp add: is_finite_def)
  from sealed_gop_durations [OF this, of "[sample_packet 0 [1, 2, 3]]" 1] ds show ?thesis by auto
qed

end
