(* ===== verification/Storage_Fs.thy ===== *)
theory Storage_Fs
  imports Prelude
begin

text \<open>
  The file system as crates/clipline-storage sees it: paths with the operations of \<open>std::path\<close>, a
  tree of files, directories and links, and the calls of \<open>std::fs\<close>.  Whether the operating system
  refuses a call, what a link leads to and what a path resolves to are the environment's.
\<close>

section \<open>Paths\<close>

text \<open>A path is its components; a file name is a string of bytes.\<close>

type_synonym path = "string list"

definition file_name :: "path \<Rightarrow> string option" where
  "file_name p = (if p = [] \<or> last p = ''..'' then None else Some (last p))"

text \<open>Stem and extension of a name: the last dot divides them, unless it is the first character.\<close>

definition split_name :: "string \<Rightarrow> string \<times> string option" where
  "split_name name = (if name = ''..'' then (name, None)
     else case last_index (\<lambda>c. c = CHR ''.'') name of
       None \<Rightarrow> (name, None)
     | Some i \<Rightarrow> if i = 0 then (name, None) else (take i name, Some (drop (i + 1) name)))"

definition file_stem :: "path \<Rightarrow> string option" where
  "file_stem p = map_option (fst \<circ> split_name) (file_name p)"

definition path_extension :: "path \<Rightarrow> string option" where
  "path_extension p = Option.bind (file_name p) (snd \<circ> split_name)"

definition with_file_name :: "path \<Rightarrow> string \<Rightarrow> path" where
  "with_file_name p name = (case file_name p of None \<Rightarrow> p @ [name] | Some _ \<Rightarrow> butlast p @ [name])"

definition with_extension :: "path \<Rightarrow> string \<Rightarrow> path" where
  "with_extension p ext = (case file_stem p of None \<Rightarrow> p
     | Some stem \<Rightarrow> butlast p @ [stem @ (if ext = [] then [] else CHR ''.'' # ext)])"

definition path_parent :: "path \<Rightarrow> path option" where
  "path_parent p = (if p = [] then None else Some (butlast p))"

definition path_starts_with :: "path \<Rightarrow> path \<Rightarrow> bool" where
  "path_starts_with p base \<longleftrightarrow> take (length base) p = base"

section \<open>ASCII\<close>

definition ascii_lower :: "char \<Rightarrow> char" where
  "ascii_lower c = (let n = of_char c :: nat in if 65 \<le> n \<and> n \<le> 90 then char_of (n + 32) else c)"

definition eq_ignore_case :: "string \<Rightarrow> string \<Rightarrow> bool" where
  "eq_ignore_case a b \<longleftrightarrow> map ascii_lower a = map ascii_lower b"

definition ends_with :: "string \<Rightarrow> string \<Rightarrow> bool" where
  "ends_with s suffix \<longleftrightarrow> length suffix \<le> length s \<and> drop (length s - length suffix) s = suffix"

definition is_digit :: "char \<Rightarrow> bool" where
  "is_digit c \<longleftrightarrow> 48 \<le> (of_char c :: nat) \<and> (of_char c :: nat) \<le> 57"

definition strip_prefix :: "string \<Rightarrow> string \<Rightarrow> string option" where
  "strip_prefix prefix s = (if take (length prefix) s = prefix then Some (drop (length prefix) s) else None)"

text \<open>\<open>str::split\<close> on one character.\<close>

fun split_on :: "char \<Rightarrow> string \<Rightarrow> string list" where
  "split_on d [] = [[]]"
| "split_on d (c # cs) = (if c = d then [] # split_on d cs
     else case split_on d cs of [] \<Rightarrow> [[c]] | part # parts \<Rightarrow> (c # part) # parts)"

text \<open>\<open>parse\<close> of a string of digits into an integer with the given maximum.\<close>

definition parse_digits :: "nat \<Rightarrow> string \<Rightarrow> nat option" where
  "parse_digits limit s = (if s \<noteq> [] \<and> list_all is_digit s \<and> undecimal s \<le> limit then Some (undecimal s) else None)"

lemma split_on_ne [simp]: "split_on d s \<noteq> []"
  by (induction s) (auto split: list.splits)

lemma split_on_none: "d \<notin> set s \<Longrightarrow> split_on d s = [s]"
  by (induction s) auto

lemma split_on_append: "d \<notin> set a \<Longrightarrow> split_on d (a @ d # b) = a # split_on d b"
  by (induction a) auto

lemma is_digit_digit_char: "d < 10 \<Longrightarrow> is_digit (digit_char d)"
  by (simp add: is_digit_def of_char_digit)

lemma decimal_digits [simp]: "list_all is_digit (decimal n)" "decimal n \<noteq> []"
proof -
  show "list_all is_digit (decimal n)"
    by (induction n rule: decimal.induct) (simp add: decimal.simps is_digit_digit_char)
  show "decimal n \<noteq> []" by (simp add: decimal.simps [of n])
qed

lemma digit_not: "is_digit c \<Longrightarrow> c \<noteq> CHR ''-'' \<and> c \<noteq> CHR ''_'' \<and> c \<noteq> CHR ''.''"
  by (auto simp: is_digit_def)

lemma decimal_free: "CHR ''-'' \<notin> set (decimal n)" "CHR ''_'' \<notin> set (decimal n)" "CHR ''.'' \<notin> set (decimal n)"
  using decimal_digits(1) [of n] digit_not by (auto simp: list_all_iff)

lemma parse_decimal [simp]: "n \<le> limit \<Longrightarrow> parse_digits limit (decimal n) = Some n"
  by (simp add: parse_digits_def undecimal_decimal)

lemma digit_range: "is_digit c \<Longrightarrow> digit_char (of_char c - 48) = c"
  by (simp add: is_digit_def digit_char_def)

section \<open>The tree\<close>

datatype node = FileNode bytes nat | DirNode | LinkNode

text \<open>
  The entries in the order in which a directory lists them; a path occurs once.
\<close>

type_synonym fs = "(path \<times> node) list"

definition node_at :: "fs \<Rightarrow> path \<Rightarrow> node option" where
  "node_at fs p = map_of fs p"

definition entries_of :: "fs \<Rightarrow> path \<Rightarrow> path list" where
  "entries_of fs d = map fst (filter (\<lambda>(p, _). p \<noteq> [] \<and> butlast p = d) fs)"

definition without :: "fs \<Rightarrow> path \<Rightarrow> fs" where
  "without fs p = filter (\<lambda>(q, _). q \<noteq> p) fs"

definition placed :: "fs \<Rightarrow> path \<Rightarrow> node \<Rightarrow> fs" where
  "placed fs p n = without fs p @ [(p, n)]"

datatype fs_error = NotFound | Exists | BadInput | BadData | Refused

type_synonym 'a io = "fs_error + 'a"

record fs_env =
  ev_follow :: "path \<Rightarrow> node option"
  ev_canon :: "fs \<Rightarrow> path \<Rightarrow> path option"
  ev_stat :: "path \<Rightarrow> bool"
  ev_list :: "path \<Rightarrow> bool"
  ev_entry :: "path \<Rightarrow> bool"
  ev_remove :: "path \<Rightarrow> bool"
  ev_create :: "path \<Rightarrow> bool"
  ev_write :: "path \<Rightarrow> bool"
  ev_move :: "path \<Rightarrow> path \<Rightarrow> bool"
  ev_now :: nat
  ev_now_nanos :: nat

text \<open>\<open>symlink_metadata\<close> and \<open>metadata\<close>.\<close>

definition lstat :: "fs_env \<Rightarrow> fs \<Rightarrow> path \<Rightarrow> node io" where
  "lstat env fs p = (case node_at fs p of None \<Rightarrow> Inl NotFound
     | Some n \<Rightarrow> if ev_stat env p then Inr n else Inl Refused)"

definition stat :: "fs_env \<Rightarrow> fs \<Rightarrow> path \<Rightarrow> node io" where
  "stat env fs p = (case lstat env fs p of
       Inr LinkNode \<Rightarrow> (case ev_follow env p of None \<Rightarrow> Inl NotFound | Some n \<Rightarrow> Inr n)
     | r \<Rightarrow> r)"

definition is_file :: "fs_env \<Rightarrow> fs \<Rightarrow> path \<Rightarrow> bool" where
  "is_file env fs p = (case stat env fs p of Inr (FileNode _ _) \<Rightarrow> True | _ \<Rightarrow> False)"

definition path_exists :: "fs_env \<Rightarrow> fs \<Rightarrow> path \<Rightarrow> bool" where
  "path_exists env fs p = (case stat env fs p of Inr _ \<Rightarrow> True | Inl _ \<Rightarrow> False)"

definition read_dir :: "fs_env \<Rightarrow> fs \<Rightarrow> path \<Rightarrow> path list io" where
  "read_dir env fs p = (case stat env fs p of
       Inr DirNode \<Rightarrow> if ev_list env p then Inr (entries_of fs p) else Inl Refused
     | Inr _ \<Rightarrow> Inl Refused
     | Inl e \<Rightarrow> Inl e)"

definition remove_file :: "fs_env \<Rightarrow> fs \<Rightarrow> path \<Rightarrow> fs \<times> unit io" where
  "remove_file env fs p = (case node_at fs p of
       None \<Rightarrow> (fs, Inl NotFound)
     | Some DirNode \<Rightarrow> (fs, Inl Refused)
     | Some _ \<Rightarrow> if ev_remove env p then (without fs p, Inr ()) else (fs, Inl Refused))"

definition remove_dir :: "fs_env \<Rightarrow> fs \<Rightarrow> path \<Rightarrow> fs \<times> unit io" where
  "remove_dir env fs p = (case node_at fs p of
       None \<Rightarrow> (fs, Inl NotFound)
     | Some DirNode \<Rightarrow> if entries_of fs p = [] \<and> ev_remove env p then (without fs p, Inr ()) else (fs, Inl Refused)
     | Some _ \<Rightarrow> (fs, Inl Refused))"

text \<open>\<open>rename\<close> replaces a file at its destination, not a directory.\<close>

definition rename_file :: "fs_env \<Rightarrow> fs \<Rightarrow> path \<Rightarrow> path \<Rightarrow> fs \<times> unit io" where
  "rename_file env fs p q = (case node_at fs p of
       None \<Rightarrow> (fs, Inl NotFound)
     | Some n \<Rightarrow> if node_at fs q = Some DirNode \<or> \<not> ev_move env p q then (fs, Inl Refused)
               else (placed (without fs p) q n, Inr ()))"

definition create_new :: "fs_env \<Rightarrow> fs \<Rightarrow> path \<Rightarrow> fs \<times> unit io" where
  "create_new env fs p = (if node_at fs p \<noteq> None then (fs, Inl Exists)
     else if ev_create env p then (placed fs p (FileNode [] (ev_now env)), Inr ()) else (fs, Inl Refused))"

definition write_all_to :: "fs_env \<Rightarrow> fs \<Rightarrow> path \<Rightarrow> bytes \<Rightarrow> fs \<times> unit io" where
  "write_all_to env fs p content = (if ev_write env p
     then (map (\<lambda>(q, n). if q = p then (q, FileNode content (ev_now env)) else (q, n)) fs, Inr ())
     else (fs, Inl Refused))"

definition remove_file_if_exists :: "fs_env \<Rightarrow> fs \<Rightarrow> path \<Rightarrow> fs \<times> unit io" where
  "remove_file_if_exists env fs p = (case remove_file env fs p of
       (fs', Inl e) \<Rightarrow> (fs', if e = NotFound then Inr () else Inl e)
     | r \<Rightarrow> r)"

section \<open>What the calls change\<close>

lemma node_at_without [simp]: "node_at (without fs p) q = (if q = p then None else node_at fs q)"
  unfolding node_at_def without_def by (induction fs) auto

lemma node_at_placed [simp]: "node_at (placed fs p n) q = (if q = p then Some n else node_at fs q)"
  unfolding placed_def node_at_def map_of_append map_add_def
  using node_at_without [of fs p q] by (auto simp: node_at_def split: option.splits)

lemma remove_file_elsewhere: "q \<noteq> p \<Longrightarrow> node_at (fst (remove_file env fs p)) q = node_at fs q"
  by (simp add: remove_file_def split: option.splits node.splits)

lemma remove_file_if_exists_elsewhere: "q \<noteq> p \<Longrightarrow> node_at (fst (remove_file_if_exists env fs p)) q = node_at fs q"
  using remove_file_elsewhere [of q p env fs]
  by (auto simp: remove_file_if_exists_def split: prod.splits sum.splits)

lemma remove_dir_elsewhere: "q \<noteq> p \<Longrightarrow> node_at (fst (remove_dir env fs p)) q = node_at fs q"
  by (simp add: remove_dir_def split: option.splits node.splits)

lemma entries_of_in: "p \<in> set (entries_of fs d) \<Longrightarrow> p \<noteq> [] \<and> butlast p = d \<and> node_at fs p \<noteq> None"
  by (auto simp: entries_of_def node_at_def map_of_eq_None_iff intro: rev_image_eqI)

lemma entries_of_iff: "p \<in> set (entries_of fs d) \<longleftrightarrow> p \<noteq> [] \<and> butlast p = d \<and> node_at fs p \<noteq> None"
  by (auto simp: entries_of_def node_at_def map_of_eq_None_iff)

lemma read_dir_entries: "read_dir env fs d = Inr ps \<Longrightarrow> ps = entries_of fs d"
  by (auto simp: read_dir_def split: sum.splits node.splits if_splits)

end
