(* ===== verification/Storage.thy ===== *)
theory Storage
  imports Storage_Fs
begin

text \<open>
  The clip library on disk (crates/clipline-storage): which files Clipline owns, the inventory of
  the media folder, quota collection, deletion and the recovery of unfinished recordings.
\<close>

section \<open>Names\<close>

definition is_mp4 :: "path \<Rightarrow> bool" where
  "is_mp4 p = (case path_extension p of None \<Rightarrow> False | Some ext \<Rightarrow> eq_ignore_case ext ''mp4'')"

definition is_recording_mp4 :: "path \<Rightarrow> bool" where
  "is_recording_mp4 p = (case file_name p of None \<Rightarrow> False | Some name \<Rightarrow> ends_with (map ascii_lower name) ''.mp4.recording'')"

text \<open>The suffix starts with a dot, so a cut inside a character cannot match it.\<close>

definition recording_final_path :: "path \<Rightarrow> path option" where
  "recording_final_path p = (case file_name p of None \<Rightarrow> None
     | Some name \<Rightarrow> if length name < length ''.recording'' then None
         else let split = length name - length ''.recording''
              in if eq_ignore_case (drop split name) ''.recording'' then Some (with_file_name p (take split name)) else None)"

definition clip_ownership_marker_path :: "path \<Rightarrow> path io" where
  "clip_ownership_marker_path p =
     (case (if is_recording_mp4 p then recording_final_path p else Some p) of
        None \<Rightarrow> Inl BadInput
      | Some clip \<Rightarrow> if is_mp4 clip then Inr (with_extension clip ''clipline.json'') else Inl BadInput)"

definition generated_part :: "string \<Rightarrow> string option" where
  "generated_part stem = (case strip_prefix ''clip_'' stem of Some g \<Rightarrow> Some g | None \<Rightarrow> strip_prefix ''session_'' stem)"

definition is_generated_tail :: "string \<Rightarrow> bool" where
  "is_generated_tail generated = (case split_on (CHR ''_'') generated of
       [] \<Rightarrow> False
     | timestamp # parts \<Rightarrow> 9 \<le> length timestamp \<and> length timestamp \<le> 20 \<and> list_all is_digit timestamp
         \<and> (case parts of [] \<Rightarrow> True | [attempt] \<Rightarrow> attempt \<noteq> [] \<and> list_all is_digit attempt | _ \<Rightarrow> False))"

definition is_legacy_generated_clip :: "path \<Rightarrow> bool" where
  "is_legacy_generated_clip p =
     (case (if is_recording_mp4 p then recording_final_path p else Some p) of
        None \<Rightarrow> False
      | Some candidate \<Rightarrow> (case file_stem candidate of
            None \<Rightarrow> False
          | Some stem \<Rightarrow> (case generated_part stem of None \<Rightarrow> False | Some generated \<Rightarrow> is_generated_tail generated)))"

definition replay_cache_run_prefix :: string where
  "replay_cache_run_prefix = ''clipline-replay-cache-''"

definition replay_cache_run_identity :: "string \<Rightarrow> (nat \<times> nat) option" where
  "replay_cache_run_identity name = (case strip_prefix replay_cache_run_prefix name of
       None \<Rightarrow> None
     | Some suffix \<Rightarrow> (case split_on (CHR ''-'') suffix of
           [created_at, pid, attempt] \<Rightarrow>
             (case (parse_digits (2 ^ 128 - 1) created_at, parse_digits (2 ^ 32 - 1) pid, parse_digits (2 ^ 32 - 1) attempt) of
                (Some c, Some i, Some _) \<Rightarrow> Some (c, i)
              | _ \<Rightarrow> None)
         | _ \<Rightarrow> None))"

definition is_replay_cache_run_name :: "string \<Rightarrow> bool" where
  "is_replay_cache_run_name name \<longleftrightarrow> replay_cache_run_identity name \<noteq> None"

text \<open>\<open>split_once\<close> divides at the first colon.\<close>

definition replay_cache_owner_identity :: "string \<Rightarrow> (nat \<times> nat) option" where
  "replay_cache_owner_identity process_instance_id =
     (case position (\<lambda>c. c = CHR '':'') process_instance_id of
        None \<Rightarrow> None
      | Some i \<Rightarrow>
          (case (parse_digits (2 ^ 32 - 1) (take i process_instance_id),
                 parse_digits (2 ^ 64 - 1) (drop (i + 1) process_instance_id)) of
             (Some pid, Some creation_time) \<Rightarrow> Some (pid, creation_time)
           | _ \<Rightarrow> None))"

section \<open>Ownership\<close>

definition is_managed_clip :: "fs_env \<Rightarrow> fs \<Rightarrow> path \<Rightarrow> bool" where
  "is_managed_clip env fs p = (case clip_ownership_marker_path p of
       Inl _ \<Rightarrow> False
     | Inr marker \<Rightarrow> is_file env fs marker
         \<or> (if is_recording_mp4 p then is_legacy_generated_clip p
            else is_file env fs (with_extension p ''markers.json'')
              \<or> is_file env fs (with_extension p ''osu-enrichment.json'') \<or> is_legacy_generated_clip p))"

definition ensure_clip_owned :: "fs_env \<Rightarrow> fs \<Rightarrow> path \<Rightarrow> fs \<times> bool io" where
  "ensure_clip_owned env fs p = (case clip_ownership_marker_path p of
       Inl e \<Rightarrow> (fs, Inl e)
     | Inr marker \<Rightarrow> (case create_new env fs marker of
           (fs', Inr _) \<Rightarrow> (case write_all_to env fs' marker [0x7B, 0x7D] of
               (fs'', Inr _) \<Rightarrow> (fs'', Inr True)
             | (fs'', Inl e) \<Rightarrow> (fst (remove_file env fs'' marker), Inl e))
         | (fs', Inl e) \<Rightarrow> if e = Exists
             then (case stat env fs' marker of
                 Inl e \<Rightarrow> (fs', Inl e)
               | Inr (FileNode _ _) \<Rightarrow> (fs', Inr False)
               | Inr _ \<Rightarrow> (fs', Inl Exists))
             else (fs', Inl e)))"

definition remove_clip_ownership_marker :: "fs_env \<Rightarrow> fs \<Rightarrow> path \<Rightarrow> fs \<times> unit io" where
  "remove_clip_ownership_marker env fs p = (case clip_ownership_marker_path p of
       Inl e \<Rightarrow> (fs, Inl e)
     | Inr marker \<Rightarrow> remove_file_if_exists env fs marker)"

text \<open>Equal canonical paths, or equal as written when one of them has none.\<close>

definition same_path :: "fs_env \<Rightarrow> fs \<Rightarrow> path \<Rightarrow> path \<Rightarrow> bool" where
  "same_path env fs a b = (case (ev_canon env fs a, ev_canon env fs b) of
       (Some x, Some y) \<Rightarrow> x = y
     | _ \<Rightarrow> a = b)"

section \<open>The inventory\<close>

record clip_file =
  cf_path :: path
  cf_sidecars :: "path list"
  cf_mp4_bytes :: nat
  cf_sidecar_bytes :: nat
  cf_modified :: nat
  cf_recording :: bool

text \<open>Sums of \<open>u64\<close> wrap.\<close>

definition total_bytes :: "clip_file \<Rightarrow> nat" where
  "total_bytes c = (cf_mp4_bytes c + cf_sidecar_bytes c) mod 2 ^ 64"

definition sum_u64 :: "nat list \<Rightarrow> nat" where
  "sum_u64 ns = sum_list ns mod 2 ^ 64"

definition sidecar_path :: "path \<Rightarrow> path" where
  "sidecar_path p = with_extension p ''markers.json''"

definition clip_metadata_path :: "path \<Rightarrow> path" where
  "clip_metadata_path p = with_extension p ''clipline.json''"

definition osu_pending_path :: "path \<Rightarrow> path" where
  "osu_pending_path p = with_extension p ''osu-enrichment.json''"

definition poster_path :: "path \<Rightarrow> path" where
  "poster_path p = with_extension p ''poster.jpg''"

definition sidecar_candidates :: "path \<Rightarrow> path list" where
  "sidecar_candidates p = [sidecar_path p, clip_metadata_path p, osu_pending_path p, poster_path p]"

definition optional_file_len :: "fs_env \<Rightarrow> fs \<Rightarrow> path \<Rightarrow> nat io" where
  "optional_file_len env fs p = (case stat env fs p of
       Inr (FileNode content _) \<Rightarrow> Inr (length content)
     | Inr _ \<Rightarrow> Inr 0
     | Inl e \<Rightarrow> if e = NotFound then Inr 0 else Inl e)"

fun present_sidecars :: "fs_env \<Rightarrow> fs \<Rightarrow> path list \<Rightarrow> (path list \<times> nat) io" where
  "present_sidecars env fs [] = Inr ([], 0)"
| "present_sidecars env fs (p # ps) = (case optional_file_len env fs p of
       Inl e \<Rightarrow> Inl e
     | Inr len \<Rightarrow> (case present_sidecars env fs ps of
           Inl e \<Rightarrow> Inl e
         | Inr (sidecars, bytes) \<Rightarrow> if 0 < len \<or> path_exists env fs p
             then Inr (p # sidecars, (len + bytes) mod 2 ^ 64) else Inr (sidecars, bytes)))"

definition clip_sidecars :: "fs_env \<Rightarrow> fs \<Rightarrow> path \<Rightarrow> (path list \<times> nat) io" where
  "clip_sidecars env fs clip = present_sidecars env fs (sidecar_candidates clip)"

fun collect_entries :: "fs_env \<Rightarrow> fs \<Rightarrow> path option \<Rightarrow> path list \<Rightarrow> clip_file list \<Rightarrow> clip_file list \<times> unit io" where
  "collect_entries env fs include [] clips = (clips, Inr ())"
| "collect_entries env fs include (p # ps) clips =
     (if \<not> ev_entry env p then (clips, Inl Refused)
      else if \<not> is_mp4 p \<and> \<not> is_recording_mp4 p then collect_entries env fs include ps clips
      else if \<not> is_managed_clip env fs p
          \<and> \<not> (case include of None \<Rightarrow> False | Some candidate \<Rightarrow> same_path env fs p candidate)
      then collect_entries env fs include ps clips
      else (case lstat env fs p of
          Inl e \<Rightarrow> (clips, Inl e)
        | Inr (FileNode content modified) \<Rightarrow>
            (case (if is_recording_mp4 p then Inr ([], 0) else clip_sidecars env fs p) of
               Inl e \<Rightarrow> (clips, Inl e)
             | Inr (sidecars, sidecar_bytes) \<Rightarrow> collect_entries env fs include ps
                 (clips @ [\<lparr>cf_path = p, cf_sidecars = sidecars, cf_mp4_bytes = length content,
                            cf_sidecar_bytes = sidecar_bytes, cf_modified = modified,
                            cf_recording = is_recording_mp4 p\<rparr>]))
        | Inr _ \<Rightarrow> collect_entries env fs include ps clips))"

definition collect_clips :: "fs_env \<Rightarrow> fs \<Rightarrow> path option \<Rightarrow> path \<Rightarrow> clip_file list \<Rightarrow> clip_file list \<times> unit io" where
  "collect_clips env fs include dir clips = (case read_dir env fs dir of
       Inl e \<Rightarrow> (clips, Inl e)
     | Inr entries \<Rightarrow> collect_entries env fs include entries clips)"

text \<open>
  \<open>visit_media_dirs\<close>: the folder itself, then its subdirectories that are not links.  \<open>fs_of\<close> reads
  the tree from the state of the visitor.
\<close>

fun visit_entries ::
  "fs_env \<Rightarrow> ('s \<Rightarrow> fs) \<Rightarrow> (path \<Rightarrow> 's \<Rightarrow> 's \<times> unit io) \<Rightarrow> path list \<Rightarrow> 's \<Rightarrow> 's \<times> unit io" where
  "visit_entries env fs_of f [] s = (s, Inr ())"
| "visit_entries env fs_of f (p # ps) s =
     (if \<not> ev_entry env p then (s, Inl Refused)
      else if lstat env (fs_of s) p \<noteq> Inr DirNode then visit_entries env fs_of f ps s
      else (case f p s of (s', Inl e) \<Rightarrow> (s', Inl e) | (s', Inr _) \<Rightarrow> visit_entries env fs_of f ps s'))"

definition visit_media_dirs ::
  "fs_env \<Rightarrow> ('s \<Rightarrow> fs) \<Rightarrow> (path \<Rightarrow> 's \<Rightarrow> 's \<times> unit io) \<Rightarrow> path \<Rightarrow> 's \<Rightarrow> 's \<times> unit io" where
  "visit_media_dirs env fs_of f dir s = (case f dir s of
       (s', Inl e) \<Rightarrow> (s', Inl e)
     | (s', Inr _) \<Rightarrow> (case read_dir env (fs_of s') dir of
           Inl e \<Rightarrow> (s', Inl e)
         | Inr entries \<Rightarrow> visit_entries env fs_of f entries s'))"

definition inventory :: "fs_env \<Rightarrow> fs \<Rightarrow> path \<Rightarrow> path option \<Rightarrow> clip_file list io" where
  "inventory env fs dir include = (case visit_media_dirs env (\<lambda>_. fs) (collect_clips env fs include) dir [] of
       (clips, Inl e) \<Rightarrow> Inl e
     | (clips, Inr _) \<Rightarrow> Inr clips)"

record status_record =
  st_clip_count :: nat
  st_total_bytes :: nat
  st_quota_bytes :: "nat option"

definition is_over_quota :: "status_record \<Rightarrow> bool" where
  "is_over_quota s = (case st_quota_bytes s of None \<Rightarrow> False | Some quota \<Rightarrow> quota < st_total_bytes s)"

definition status_from_clips :: "clip_file list \<Rightarrow> nat option \<Rightarrow> status_record" where
  "status_from_clips clips quota_bytes = \<lparr>st_clip_count = length (filter (\<lambda>c. \<not> cf_recording c) clips),
     st_total_bytes = sum_u64 (map total_bytes clips), st_quota_bytes = quota_bytes\<rparr>"

definition storage_status :: "fs_env \<Rightarrow> fs \<Rightarrow> path \<Rightarrow> nat option \<Rightarrow> status_record io" where
  "storage_status env fs dir quota_bytes = map_sum id (\<lambda>clips. status_from_clips clips quota_bytes) (inventory env fs dir None)"

section \<open>Deleting a clip\<close>

text \<open>The three moments at which the caller is asked whether a file is protected.\<close>

datatype moment = Planning | Choosing | Failed

type_synonym leases = "moment \<Rightarrow> path \<Rightarrow> bool"

definition can_delete :: "fs_env \<Rightarrow> fs \<Rightarrow> path option \<Rightarrow> (path \<Rightarrow> bool) \<Rightarrow> clip_file \<Rightarrow> bool" where
  "can_delete env fs protect additionally_protected c \<longleftrightarrow> \<not> cf_recording c
     \<and> \<not> (case protect of None \<Rightarrow> False | Some p \<Rightarrow> same_path env fs (cf_path c) p)
     \<and> \<not> additionally_protected (cf_path c)"

datatype deleted_clip = Removed | AlreadyGone | Skipped

definition session_meta_file :: string where
  "session_meta_file = ''clipline-session.json''"

definition is_within_media_root :: "fs_env \<Rightarrow> fs \<Rightarrow> path \<Rightarrow> path \<Rightarrow> bool" where
  "is_within_media_root env fs p media_root = (case ev_canon env fs media_root of
       None \<Rightarrow> False
     | Some root \<Rightarrow> (case ev_canon env fs p of
           Some p' \<Rightarrow> path_starts_with p' root
         | None \<Rightarrow> (case path_parent p of
               None \<Rightarrow> False
             | Some parent \<Rightarrow> (case ev_canon env fs parent of
                   None \<Rightarrow> False
                 | Some parent' \<Rightarrow> path_starts_with parent' root \<or> parent' = root))))"

fun any_managed :: "fs_env \<Rightarrow> fs \<Rightarrow> path list \<Rightarrow> bool io" where
  "any_managed env fs [] = Inr False"
| "any_managed env fs (p # ps) = (if \<not> ev_entry env p then Inl Refused
     else if (is_mp4 p \<or> is_recording_mp4 p) \<and> is_managed_clip env fs p then Inr True else any_managed env fs ps)"

definition session_dir_has_managed_clips :: "fs_env \<Rightarrow> fs \<Rightarrow> path \<Rightarrow> bool io" where
  "session_dir_has_managed_clips env fs dir = (case read_dir env fs dir of
       Inl e \<Rightarrow> Inl e
     | Inr entries \<Rightarrow> any_managed env fs entries)"

definition remove_sidecars :: "fs_env \<Rightarrow> path list \<Rightarrow> fs \<Rightarrow> fs" where
  "remove_sidecars env sidecars fs = foldl (\<lambda>fs p. fst (remove_file_if_exists env fs p)) fs sidecars"

definition remove_empty_session :: "fs_env \<Rightarrow> path \<Rightarrow> path \<Rightarrow> fs \<Rightarrow> fs" where
  "remove_empty_session env media_root clip fs = (case path_parent clip of
       None \<Rightarrow> fs
     | Some parent \<Rightarrow>
         if parent \<noteq> media_root \<and> session_dir_has_managed_clips env fs parent = Inr False
         then fst (remove_dir env (fst (remove_file_if_exists env fs (parent @ [session_meta_file]))) parent)
         else fs)"

definition delete_inventoried_clip ::
  "fs_env \<Rightarrow> (path \<Rightarrow> bool) \<Rightarrow> path \<Rightarrow> clip_file \<Rightarrow> fs \<Rightarrow> fs \<times> deleted_clip io" where
  "delete_inventoried_clip env additionally_protected media_root c fs =
     (if \<not> is_within_media_root env fs (cf_path c) media_root then (fs, Inr Skipped)
      else case remove_file env fs (cf_path c) of
        (fs', Inl e) \<Rightarrow> if e = NotFound then (fs', Inr AlreadyGone)
          else if additionally_protected (cf_path c) then (fs', Inr Skipped) else (fs', Inl e)
      | (fs', Inr _) \<Rightarrow>
          (remove_empty_session env media_root (cf_path c) (remove_sidecars env (cf_sidecars c) fs'), Inr Removed))"

section \<open>Quota\<close>

record gc_report =
  gc_deleted_clips :: nat
  gc_freed_bytes :: nat
  gc_status :: status_record

text \<open>Names compare by their bytes.\<close>

fun bytes_le :: "string \<Rightarrow> string \<Rightarrow> bool" where
  "bytes_le [] t = True"
| "bytes_le (c # cs) [] = False"
| "bytes_le (c # cs) (d # ds) = (if c = d then bytes_le cs ds else (of_char c :: nat) < of_char d)"

definition name_le :: "string option \<Rightarrow> string option \<Rightarrow> bool" where
  "name_le a b = (case (a, b) of (None, _) \<Rightarrow> True | (Some _, None) \<Rightarrow> False | (Some x, Some y) \<Rightarrow> bytes_le x y)"

definition older :: "clip_file \<Rightarrow> clip_file \<Rightarrow> bool" where
  "older a b \<longleftrightarrow> (if cf_modified a = cf_modified b then name_le (file_name (cf_path a)) (file_name (cf_path b))
     else cf_modified a < cf_modified b)"

text \<open>
  The collection loop.  \<open>meanwhile p\<close> is what the rest of the system does to the tree before the
  turn of the clip \<open>p\<close>.
\<close>

fun collect_garbage ::
  "fs_env \<Rightarrow> leases \<Rightarrow> path option \<Rightarrow> (path \<Rightarrow> fs \<Rightarrow> fs) \<Rightarrow> path \<Rightarrow> nat \<Rightarrow> clip_file list
     \<Rightarrow> nat \<Rightarrow> nat \<Rightarrow> nat \<Rightarrow> fs \<Rightarrow> fs \<times> (nat \<times> nat) io" where
  "collect_garbage env leased protect meanwhile dir quota [] used freed_bytes deleted_clips fs = (fs, Inr (deleted_clips, freed_bytes))"
| "collect_garbage env leased protect meanwhile dir quota (c # cs) used freed_bytes deleted_clips fs =
     (if used \<le> quota then (fs, Inr (deleted_clips, freed_bytes))
      else let fs = meanwhile (cf_path c) fs in
        if \<not> can_delete env fs protect (leased Choosing) c
        then collect_garbage env leased protect meanwhile dir quota cs used freed_bytes deleted_clips fs
        else case delete_inventoried_clip env (leased Failed) dir c fs of
          (fs', Inl e) \<Rightarrow> (fs', Inl e)
        | (fs', Inr Removed) \<Rightarrow> collect_garbage env leased protect meanwhile dir quota cs (used - total_bytes c)
            ((freed_bytes + total_bytes c) mod 2 ^ 64) (deleted_clips + 1) fs'
        | (fs', Inr AlreadyGone) \<Rightarrow>
            collect_garbage env leased protect meanwhile dir quota cs (used - total_bytes c) freed_bytes deleted_clips fs'
        | (fs', Inr Skipped) \<Rightarrow> collect_garbage env leased protect meanwhile dir quota cs used freed_bytes deleted_clips fs')"

definition enforce_quota_with_protection ::
  "fs_env \<Rightarrow> leases \<Rightarrow> (path \<Rightarrow> fs \<Rightarrow> fs) \<Rightarrow> path \<Rightarrow> nat option \<Rightarrow> path option \<Rightarrow> fs \<Rightarrow> fs \<times> gc_report io" where
  "enforce_quota_with_protection env leased meanwhile dir quota_bytes protect fs = (case quota_bytes of
       None \<Rightarrow> (fs, map_sum id (\<lambda>s. \<lparr>gc_deleted_clips = 0, gc_freed_bytes = 0, gc_status = s\<rparr>) (storage_status env fs dir None))
     | Some quota \<Rightarrow> (case inventory env fs dir protect of
           Inl e \<Rightarrow> (fs, Inl e)
         | Inr clips \<Rightarrow>
             if quota < sum_u64 (map total_bytes (filter (\<lambda>c. \<not> can_delete env fs protect (leased Planning) c) clips))
             then (fs, Inr \<lparr>gc_deleted_clips = 0, gc_freed_bytes = 0, gc_status = status_from_clips clips quota_bytes\<rparr>)
             else case collect_garbage env leased protect meanwhile dir quota (sort_by older clips)
                 (sum_u64 (map total_bytes clips)) 0 0 fs of
               (fs', Inl e) \<Rightarrow> (fs', Inl e)
             | (fs', Inr (deleted_clips, freed_bytes)) \<Rightarrow>
                 (fs', map_sum id (\<lambda>after. \<lparr>gc_deleted_clips = deleted_clips, gc_freed_bytes = freed_bytes,
                   gc_status = status_from_clips after quota_bytes\<rparr>) (inventory env fs' dir protect))))"

definition enforce_quota :: "fs_env \<Rightarrow> (path \<Rightarrow> fs \<Rightarrow> fs) \<Rightarrow> path \<Rightarrow> nat option \<Rightarrow> path option \<Rightarrow> fs \<Rightarrow> fs \<times> gc_report io" where
  "enforce_quota env = enforce_quota_with_protection env (\<lambda>_ _. False)"

section \<open>Deleting everything\<close>

definition first_error :: "fs_error option \<Rightarrow> unit io \<Rightarrow> fs_error option" where
  "first_error first r = (case first of Some e \<Rightarrow> Some e | None \<Rightarrow> (case r of Inl e \<Rightarrow> Some e | Inr _ \<Rightarrow> None))"

fun collect_children ::
  "fs_env \<Rightarrow> fs \<Rightarrow> path list \<Rightarrow> clip_file list \<Rightarrow> fs_error option \<Rightarrow> clip_file list \<times> fs_error option" where
  "collect_children env fs [] clips first = (clips, first)"
| "collect_children env fs (p # ps) clips first =
     (if \<not> ev_entry env p then collect_children env fs ps clips (first_error first (Inl Refused))
      else case lstat env fs p of
        Inl e \<Rightarrow> collect_children env fs ps clips (first_error first (Inl e))
      | Inr DirNode \<Rightarrow> (case collect_clips env fs None p clips of
            (clips', r) \<Rightarrow> collect_children env fs ps clips' (first_error first r))
      | Inr _ \<Rightarrow> collect_children env fs ps clips first)"

fun delete_clips :: "fs_env \<Rightarrow> path \<Rightarrow> clip_file list \<Rightarrow> fs \<Rightarrow> fs_error option \<Rightarrow> fs \<times> fs_error option" where
  "delete_clips env dir [] fs first = (fs, first)"
| "delete_clips env dir (c # cs) fs first =
     (let sidecar_clip = (case recording_final_path (cf_path c) of None \<Rightarrow> cf_path c | Some p \<Rightarrow> p);
          (c', first') = (if \<not> cf_recording c then (c, first)
            else case clip_sidecars env fs sidecar_clip of
              Inr (sidecars, bytes) \<Rightarrow> (c\<lparr>cf_sidecars := sidecars, cf_sidecar_bytes := bytes\<rparr>, first)
            | Inl e \<Rightarrow> (c, first_error first (Inl e)))
      in case delete_inventoried_clip env (\<lambda>_. False) dir c' fs of
           (fs', r) \<Rightarrow> delete_clips env dir cs fs' (first_error first' (map_sum id (\<lambda>_. ()) r)))"

definition delete_all_managed_media :: "fs_env \<Rightarrow> path \<Rightarrow> fs \<Rightarrow> fs \<times> unit io" where
  "delete_all_managed_media env dir fs = (case lstat env fs dir of
       Inl e \<Rightarrow> (fs, Inl e)
     | Inr LinkNode \<Rightarrow> (fs, Inl Refused)
     | Inr _ \<Rightarrow>
         let (clips, r) = collect_clips env fs None dir [];
             first = first_error None r;
             (clips', first') = (case read_dir env fs dir of
                 Inl e \<Rightarrow> (clips, first_error first (Inl e))
               | Inr entries \<Rightarrow> collect_children env fs entries clips first);
             (fs', first'') = delete_clips env dir clips' fs first'
         in (fs', case first'' of None \<Rightarrow> Inr () | Some e \<Rightarrow> Inl e))"

section \<open>Recovering unfinished recordings\<close>

definition recovery_destination_available :: "fs_env \<Rightarrow> fs \<Rightarrow> path \<Rightarrow> path \<Rightarrow> bool" where
  "recovery_destination_available env fs p current_marker \<longleftrightarrow> \<not> path_exists env fs p
     \<and> (case clip_ownership_marker_path p of Inl _ \<Rightarrow> False
        | Inr marker \<Rightarrow> marker = current_marker \<or> \<not> path_exists env fs marker)"

definition recovered_name :: "string \<Rightarrow> nat \<Rightarrow> string" where
  "recovered_name stem attempt =
     (if attempt = 0 then stem @ ''_recovered.mp4'' else stem @ ''_recovered_'' @ decimal attempt @ ''.mp4'')"

definition unique_recovered_path :: "fs_env \<Rightarrow> fs \<Rightarrow> path \<Rightarrow> path \<Rightarrow> path" where
  "unique_recovered_path env fs candidate current_marker =
     (if recovery_destination_available env fs candidate current_marker then candidate
      else let parent = (case path_parent candidate of None \<Rightarrow> [] | Some d \<Rightarrow> d);
               stem = (case file_stem candidate of None \<Rightarrow> ''session'' | Some s \<Rightarrow> s)
           in case find (\<lambda>attempt. recovery_destination_available env fs (parent @ [recovered_name stem attempt]) current_marker)
                [0..<1024] of
                Some attempt \<Rightarrow> parent @ [recovered_name stem attempt]
              | None \<Rightarrow> parent @ [stem @ ''_recovered_'' @ decimal (ev_now_nanos env) @ ''.mp4''])"

record recovery_report =
  rp_recovered :: "path list"
  rp_deleted_empty :: nat

text \<open>An empty recording is deleted together with its marker; another one is moved with its marker.\<close>

definition recover_empty :: "fs_env \<Rightarrow> path \<Rightarrow> fs \<times> recovery_report \<Rightarrow> (fs \<times> recovery_report) \<times> unit io" where
  "recover_empty env p s = (case s of (fs1, report) \<Rightarrow>
     (case remove_file_if_exists env fs1 p of
        (fs2, Inl e) \<Rightarrow> ((fs2, report), Inl e)
      | (fs2, Inr _) \<Rightarrow> (case remove_clip_ownership_marker env fs2 p of
            (fs3, Inl e) \<Rightarrow> ((fs3, report), Inl e)
          | (fs3, Inr _) \<Rightarrow> ((fs3, report\<lparr>rp_deleted_empty := rp_deleted_empty report + 1\<rparr>), Inr ()))))"

definition move_recording ::
  "fs_env \<Rightarrow> path \<Rightarrow> path \<Rightarrow> path \<Rightarrow> path \<Rightarrow> fs \<times> recovery_report \<Rightarrow> (fs \<times> recovery_report) \<times> unit io" where
  "move_recording env p old_marker final_path final_marker s = (case s of (fs1, report) \<Rightarrow>
     let moved = report\<lparr>rp_recovered := rp_recovered report @ [final_path]\<rparr> in
     (case rename_file env fs1 p final_path of
        (fs2, Inl e) \<Rightarrow> ((fs2, report), Inl e)
      | (fs2, Inr _) \<Rightarrow>
          if old_marker = final_marker then ((fs2, moved), Inr ())
          else (case rename_file env fs2 old_marker final_marker of
              (fs3, Inr _) \<Rightarrow> ((fs3, moved), Inr ())
            | (fs3, Inl e) \<Rightarrow> ((fst (rename_file env fs3 final_path p), report), Inl e))))"

definition recover_content :: "fs_env \<Rightarrow> path \<Rightarrow> path \<Rightarrow> fs \<times> recovery_report \<Rightarrow> (fs \<times> recovery_report) \<times> unit io" where
  "recover_content env p old_marker s = (case recording_final_path p of
       None \<Rightarrow> (s, Inl BadData)
     | Some candidate \<Rightarrow>
         let final_path = unique_recovered_path env (fst s) candidate old_marker
         in case clip_ownership_marker_path final_path of
              Inl e \<Rightarrow> (s, Inl e)
            | Inr final_marker \<Rightarrow> move_recording env p old_marker final_path final_marker s)"

text \<open>One entry of the loop: \<open>continue\<close> returns the state unchanged.\<close>

definition recover_entry :: "fs_env \<Rightarrow> path \<Rightarrow> fs \<times> recovery_report \<Rightarrow> (fs \<times> recovery_report) \<times> unit io" where
  "recover_entry env p s = (case s of (fs, report) \<Rightarrow>
     if \<not> is_recording_mp4 p \<or> \<not> is_managed_clip env fs p then (s, Inr ())
     else case lstat env fs p of
       Inl e \<Rightarrow> (s, Inl e)
     | Inr (FileNode content _) \<Rightarrow> (case clip_ownership_marker_path p of
           Inl e \<Rightarrow> (s, Inl e)
         | Inr old_marker \<Rightarrow>
             (case (if is_file env fs old_marker then (fs, Inr True) else ensure_clip_owned env fs p) of
                (fs1, Inl e) \<Rightarrow> ((fs1, report), Inl e)
              | (fs1, Inr _) \<Rightarrow> if content = [] then recover_empty env p (fs1, report)
                  else recover_content env p old_marker (fs1, report)))
     | Inr _ \<Rightarrow> (s, Inr ()))"

fun recover_entries :: "fs_env \<Rightarrow> path list \<Rightarrow> fs \<times> recovery_report \<Rightarrow> (fs \<times> recovery_report) \<times> unit io" where
  "recover_entries env [] s = (s, Inr ())"
| "recover_entries env (p # ps) s = (if \<not> ev_entry env p then (s, Inl Refused)
     else case recover_entry env p s of (s', Inl e) \<Rightarrow> (s', Inl e) | (s', Inr _) \<Rightarrow> recover_entries env ps s')"

definition recover_dir :: "fs_env \<Rightarrow> path \<Rightarrow> fs \<times> recovery_report \<Rightarrow> (fs \<times> recovery_report) \<times> unit io" where
  "recover_dir env dir s = (case read_dir env (fst s) dir of
       Inl e \<Rightarrow> (s, Inl e)
     | Inr entries \<Rightarrow> recover_entries env entries s)"

definition recover_recording_files :: "fs_env \<Rightarrow> path \<Rightarrow> fs \<Rightarrow> fs \<times> recovery_report io" where
  "recover_recording_files env dir fs =
     (case visit_media_dirs env fst (recover_dir env) dir (fs, \<lparr>rp_recovered = [], rp_deleted_empty = 0\<rparr>) of
        ((fs', report), Inl e) \<Rightarrow> (fs', Inl e)
      | ((fs', report), Inr _) \<Rightarrow> (fs', Inr report))"

section \<open>Sessions\<close>

record session_tracker =
  stk_run_label :: string
  stk_match_label :: "string option"

definition session_tracker_new :: "string \<Rightarrow> session_tracker" where
  "session_tracker_new run_label = \<lparr>stk_run_label = run_label, stk_match_label = None\<rparr>"

definition match_started :: "session_tracker \<Rightarrow> string \<Rightarrow> session_tracker" where
  "match_started t label = t\<lparr>stk_match_label := Some label\<rparr>"

definition match_ended :: "session_tracker \<Rightarrow> session_tracker" where
  "match_ended t = t\<lparr>stk_match_label := None\<rparr>"

definition current_session :: "session_tracker \<Rightarrow> string" where
  "current_session t = (case stk_match_label t of Some label \<Rightarrow> label | None \<Rightarrow> stk_run_label t)"

text \<open>\<open>session_label\<close>: a zero-padded date and time; a sign counts towards the width.\<close>

definition zero_padded :: "nat \<Rightarrow> nat \<Rightarrow> string" where
  "zero_padded width n = replicate (width - length (decimal n)) (CHR ''0'') @ decimal n"

definition session_label :: "int \<Rightarrow> nat \<Rightarrow> nat \<Rightarrow> nat \<Rightarrow> nat \<Rightarrow> bool \<Rightarrow> string" where
  "session_label year month day hour minute league_match =
     (let base = (if year < 0 then CHR ''-'' # zero_padded 3 (nat (- year)) else zero_padded 4 (nat year)) @ ''-'' @ zero_padded 2 month @ ''-''
            @ zero_padded 2 day @ '' '' @ zero_padded 2 hour @ ''-'' @ zero_padded 2 minute
      in if league_match then base @ '' league'' else base)"

end
