(* ===== verification/Storage_Correct.thy ===== *)
theory Storage_Correct
  imports Storage
begin

text \<open>
  The lemmas on the clip library: what the inventory lists, what deleting a clip touches, and which
  clips a quota collection takes.
\<close>

section \<open>The inventory\<close>

text \<open>The media folder and its direct subfolders that are not links.\<close>

definition media_dir :: "fs \<Rightarrow> path \<Rightarrow> path \<Rightarrow> bool" where
  "media_dir fs dir d \<longleftrightarrow> d = dir \<or> d \<noteq> [] \<and> butlast d = dir \<and> node_at fs d = Some DirNode"

definition listed_clip :: "fs_env \<Rightarrow> fs \<Rightarrow> path \<Rightarrow> path option \<Rightarrow> clip_file \<Rightarrow> bool" where
  "listed_clip env fs dir include c \<longleftrightarrow> cf_path c \<noteq> [] \<and> media_dir fs dir (butlast (cf_path c))
     \<and> (is_mp4 (cf_path c) \<or> is_recording_mp4 (cf_path c))
     \<and> (is_managed_clip env fs (cf_path c) \<or> (\<exists>a. include = Some a \<and> same_path env fs (cf_path c) a))
     \<and> (\<exists>content. node_at fs (cf_path c) = Some (FileNode content (cf_modified c)) \<and> cf_mp4_bytes c = length content)
     \<and> cf_recording c = is_recording_mp4 (cf_path c) \<and> set (cf_sidecars c) \<subseteq> set (sidecar_candidates (cf_path c))"

lemma present_sidecars_subset: "present_sidecars env fs ps = Inr (sidecars, n) \<Longrightarrow> set sidecars \<subseteq> set ps"
  by (induction ps arbitrary: sidecars n) (auto split: sum.splits prod.splits if_splits)

lemma lstat_Inr: "lstat env fs p = Inr n \<longleftrightarrow> node_at fs p = Some n \<and> ev_stat env p"
  by (auto simp: lstat_def split: option.splits)

lemma new_clip_listed:
  assumes "p \<noteq> []" "media_dir fs dir (butlast p)" "is_mp4 p \<or> is_recording_mp4 p"
    "is_managed_clip env fs p \<or> (case include of None \<Rightarrow> False | Some a \<Rightarrow> same_path env fs p a)"
    "lstat env fs p = Inr (FileNode content t)"
    "(if is_recording_mp4 p then Inr ([], 0) else clip_sidecars env fs p) = Inr (sidecars, n)"
  shows "listed_clip env fs dir include \<lparr>cf_path = p, cf_sidecars = sidecars, cf_mp4_bytes = length content,
     cf_sidecar_bytes = n, cf_modified = t, cf_recording = is_recording_mp4 p\<rparr>"
proof -
  have "set sidecars \<subseteq> set (sidecar_candidates p)"
    using assms(6) present_sidecars_subset by (auto simp: clip_sidecars_def split: if_splits)
  then show ?thesis using assms by (auto simp: listed_clip_def lstat_Inr split: option.splits)
qed

lemma collect_entries_clip:
  assumes "ev_entry env p" "is_mp4 p \<or> is_recording_mp4 p"
    "is_managed_clip env fs p \<or> (case include of None \<Rightarrow> False | Some a \<Rightarrow> same_path env fs p a)"
    "lstat env fs p = Inr (FileNode content t)"
  shows "collect_entries env fs include (p # ps) clips
    = (case (if is_recording_mp4 p then Inr ([], 0) else clip_sidecars env fs p) of
         Inl e \<Rightarrow> (clips, Inl e)
       | Inr (sidecars, n) \<Rightarrow> collect_entries env fs include ps
           (clips @ [\<lparr>cf_path = p, cf_sidecars = sidecars, cf_mp4_bytes = length content,
             cf_sidecar_bytes = n, cf_modified = t, cf_recording = is_recording_mp4 p\<rparr>]))"
proof -
  have "\<not> (\<not> is_mp4 p \<and> \<not> is_recording_mp4 p)"
    "\<not> (\<not> is_managed_clip env fs p \<and> \<not> (case include of None \<Rightarrow> False | Some a \<Rightarrow> same_path env fs p a))"
    using assms(2,3) by blast+
  then show ?thesis by (simp only: collect_entries.simps assms(1,4) simp_thms if_False sum.case node.case)
qed

lemma collect_entries_listed:
  assumes "collect_entries env fs include ps clips = (clips', r)" "\<forall>p \<in> set ps. p \<noteq> [] \<and> butlast p = d"
    "media_dir fs dir d" "\<forall>c \<in> set clips. listed_clip env fs dir include c"
  shows "\<forall>c \<in> set clips'. listed_clip env fs dir include c"
  using assms
proof (induction ps arbitrary: clips)
  case (Cons p ps)
  have p: "p \<noteq> []" "media_dir fs dir (butlast p)" "\<forall>p \<in> set ps. p \<noteq> [] \<and> butlast p = d" using Cons.prems(2,3) by auto
  have go: "\<And>clips. collect_entries env fs include ps clips = (clips', r) \<Longrightarrow>
      \<forall>c \<in> set clips. listed_clip env fs dir include c \<Longrightarrow> ?case"
    by (rule Cons.IH [OF _ p(3) Cons.prems(3)])
  show ?case
  proof (cases "ev_entry env p \<and> (is_mp4 p \<or> is_recording_mp4 p)
      \<and> (is_managed_clip env fs p \<or> (case include of None \<Rightarrow> False | Some a \<Rightarrow> same_path env fs p a))")
    case False
    show ?thesis
    proof (cases "ev_entry env p")
      case True
      with False have "collect_entries env fs include (p # ps) clips = collect_entries env fs include ps clips" by auto
      with Cons.prems(1,4) go show ?thesis by metis
    qed (use Cons.prems(1,4) in simp)
  next
    case True
    show ?thesis
    proof (cases "\<exists>content t. lstat env fs p = Inr (FileNode content t)")
      case False
      show ?thesis
      proof (cases "lstat env fs p")
        case (Inl e)
        with True Cons.prems(1,4) show ?thesis by (simp split: if_splits)
      next
        case (Inr n)
        with True False have "collect_entries env fs include (p # ps) clips = collect_entries env fs include ps clips"
          by (cases n) auto
        with Cons.prems(1,4) go show ?thesis by metis
      qed
    next
      case is_f: True
      then obtain content t where fl: "lstat env fs p = Inr (FileNode content t)" by blast
      have T: "ev_entry env p" "is_mp4 p \<or> is_recording_mp4 p"
        "is_managed_clip env fs p \<or> (case include of None \<Rightarrow> False | Some a \<Rightarrow> same_path env fs p a)"
        using True by blast+
      note step = collect_entries_clip [OF T fl, of ps clips]
      show ?thesis
      proof (cases "if is_recording_mp4 p then Inr ([], 0) else clip_sidecars env fs p")
        case (Inl e)
        then have "collect_entries env fs include (p # ps) clips = (clips, Inl e)" unfolding step by (simp only: sum.case)
        with Cons.prems(1,4) show ?thesis by simp
      next
        case (Inr sn)
        then obtain sidecars n where s: "(if is_recording_mp4 p then Inr ([], 0) else clip_sidecars env fs p) = Inr (sidecars, n)"
          by (cases sn) auto
        let ?c = "\<lparr>cf_path = p, cf_sidecars = sidecars, cf_mp4_bytes = length content,
          cf_sidecar_bytes = n, cf_modified = t, cf_recording = is_recording_mp4 p\<rparr>"
        have new: "listed_clip env fs dir include ?c"
          using new_clip_listed [OF p(1,2) _ _ fl s] True by blast
        have "collect_entries env fs include ps (clips @ [?c]) = (clips', r)"
        proof -
          have "collect_entries env fs include (p # ps) clips = collect_entries env fs include ps (clips @ [?c])"
            unfolding step s sum.case prod.case ..
          then show ?thesis using Cons.prems(1) by argo
        qed
        then show ?thesis by (rule go) (use new Cons.prems(4) in \<open>simp add: ball_Un\<close>)
      qed
    qed
  qed
qed auto

lemma collect_clips_listed:
  assumes "collect_clips env fs include d clips = (clips', r)" "media_dir fs dir d" "\<forall>c \<in> set clips. listed_clip env fs dir include c"
  shows "\<forall>c \<in> set clips'. listed_clip env fs dir include c"
proof (cases "read_dir env fs d")
  case (Inl e)
  with assms show ?thesis by (simp add: collect_clips_def)
next
  case (Inr ps)
  then have "\<forall>p \<in> set ps. p \<noteq> [] \<and> butlast p = d" using read_dir_entries entries_of_in by blast
  with collect_entries_listed [OF _ this assms(2,3)] assms(1) Inr show ?thesis by (simp add: collect_clips_def)
qed

lemma visit_entries_inv:
  assumes "visit_entries env fs_of f ps s = (s', r)" "inva s"
    "\<And>p s s' r. p \<in> set ps \<Longrightarrow> inva s \<Longrightarrow> lstat env (fs_of s) p = Inr DirNode \<Longrightarrow> f p s = (s', r) \<Longrightarrow> inva s'"
  shows "inva s'"
  using assms
proof (induction ps arbitrary: s)
  case (Cons p ps)
  have step: "inva s1" if "lstat env (fs_of s) p = Inr DirNode" "f p s = (s1, r1)" for s1 r1
    using Cons.prems(3) [of p s s1 r1] Cons.prems(2) that by simp
  have go: "visit_entries env fs_of f ps s1 = (s', r) \<Longrightarrow> inva s1 \<Longrightarrow> inva s'" for s1
    using Cons.IH [of s1] Cons.prems(3) by (meson list.set_intros(2))
  show ?case
  proof (cases "ev_entry env p \<and> lstat env (fs_of s) p = Inr DirNode")
    case True
    obtain s1 r1 where "f p s = (s1, r1)" by (cases "f p s")
    with True Cons.prems(1) step [of s1 r1] go [of s1] show ?thesis by (cases r1) auto
  next
    case False
    with Cons.prems(1,2) go [of s] show ?thesis by (cases "ev_entry env p") auto
  qed
qed auto

lemma visit_media_dirs_inv:
  assumes "visit_media_dirs env fs_of f dir s = (s', r)" "inva s"
    "\<And>s s' r. inva s \<Longrightarrow> f dir s = (s', r) \<Longrightarrow> inva s'"
    "\<And>p s s' r. p \<noteq> [] \<Longrightarrow> butlast p = dir \<Longrightarrow> inva s \<Longrightarrow> lstat env (fs_of s) p = Inr DirNode \<Longrightarrow> f p s = (s', r) \<Longrightarrow> inva s'"
  shows "inva s'"
proof -
  obtain s1 r1 where f: "f dir s = (s1, r1)" by (cases "f dir s")
  then have s1: "inva s1" using assms(2,3) by blast
  show ?thesis
  proof (cases "\<exists>ps. r1 = Inr () \<and> read_dir env (fs_of s1) dir = Inr ps")
    case True
    then obtain ps where ps: "r1 = Inr ()" "read_dir env (fs_of s1) dir = Inr ps" by blast
    have in_dir: "\<And>p. p \<in> set ps \<Longrightarrow> p \<noteq> [] \<and> butlast p = dir" using read_dir_entries [OF ps(2)] entries_of_in by blast
    have "visit_entries env fs_of f ps s1 = (s', r)" using assms(1) f ps by (simp add: visit_media_dirs_def)
    from visit_entries_inv [where inva = inva, OF this s1] assms(4) in_dir show ?thesis by blast
  next
    case False
    with assms(1) f s1 show ?thesis by (auto simp: visit_media_dirs_def split: sum.splits)
  qed
qed

lemma inventory_listed:
  assumes "inventory env fs dir include = Inr clips" "c \<in> set clips"
  shows "listed_clip env fs dir include c"
proof -
  obtain clips' r where v: "visit_media_dirs env (\<lambda>_. fs) (collect_clips env fs include) dir [] = (clips', r)" "clips' = clips"
    using assms(1) by (auto simp: inventory_def split: prod.splits sum.splits)
  have "\<forall>c \<in> set clips'. listed_clip env fs dir include c"
  proof (rule visit_media_dirs_inv [where inva = "\<lambda>cs. \<forall>c \<in> set cs. listed_clip env fs dir include c", OF v(1)])
    fix s s' r assume "\<forall>c \<in> set s. listed_clip env fs dir include c" "collect_clips env fs include dir s = (s', r)"
    then show "\<forall>c \<in> set s'. listed_clip env fs dir include c"
      using collect_clips_listed [of env fs "include" dir s s' r dir] by (simp add: media_dir_def)
  next
    fix p s s' r assume "p \<noteq> []" "butlast p = dir" "\<forall>c \<in> set s. listed_clip env fs dir include c"
      "lstat env fs p = Inr DirNode" "collect_clips env fs include p s = (s', r)"
    then show "\<forall>c \<in> set s'. listed_clip env fs dir include c"
      using collect_clips_listed [of env fs "include" p s s' r dir] by (simp add: media_dir_def lstat_Inr)
  qed simp
  with assms(2) v(2) show ?thesis by blast
qed

section \<open>What a deletion touches\<close>

definition belongs :: "path \<Rightarrow> clip_file \<Rightarrow> path \<Rightarrow> bool" where
  "belongs dir c q \<longleftrightarrow> q = cf_path c \<or> q \<in> set (cf_sidecars c)
     \<or> (cf_path c \<noteq> [] \<and> butlast (cf_path c) \<noteq> dir \<and> (q = butlast (cf_path c) \<or> q = butlast (cf_path c) @ [session_meta_file]))"

lemma remove_sidecars_elsewhere: "q \<notin> set ps \<Longrightarrow> node_at (remove_sidecars env ps fs) q = node_at fs q"
  unfolding remove_sidecars_def
  by (induction ps arbitrary: fs) (auto simp: remove_file_if_exists_elsewhere)

lemma remove_empty_session_elsewhere:
  "p = [] \<or> butlast p = dir \<or> (q \<noteq> butlast p \<and> q \<noteq> butlast p @ [session_meta_file]) \<Longrightarrow>
     node_at (remove_empty_session env dir p fs) q = node_at fs q"
  by (auto simp: remove_empty_session_def path_parent_def remove_dir_elsewhere remove_file_if_exists_elsewhere)

lemma delete_elsewhere:
  assumes "\<not> belongs dir c q"
  shows "node_at (fst (delete_inventoried_clip env leased dir c fs)) q = node_at fs q"
proof -
  have q: "q \<noteq> cf_path c" "q \<notin> set (cf_sidecars c)"
    "cf_path c = [] \<or> butlast (cf_path c) = dir \<or> (q \<noteq> butlast (cf_path c) \<and> q \<noteq> butlast (cf_path c) @ [session_meta_file])"
    using assms by (auto simp: belongs_def)
  obtain fs1 r where r: "remove_file env fs (cf_path c) = (fs1, r)" by (cases "remove_file env fs (cf_path c)")
  then have "node_at fs1 q = node_at fs q" using remove_file_elsewhere [OF q(1)] by (metis fst_conv)
  then show ?thesis
    using r remove_empty_session_elsewhere [OF q(3)] remove_sidecars_elsewhere [OF q(2)]
    by (cases r) (simp_all add: delete_inventoried_clip_def)
qed

end
