(* ===== verification/Storage_Quota.thy ===== *)
theory Storage_Quota
  imports Storage_Correct
begin

text \<open>
  Quota collection: which files it can touch, under any interference, and which clips it takes when
  nothing interferes.
\<close>

section \<open>Only what belongs to a deletable clip\<close>

lemma same_path_refl [simp]: "same_path env fs p p"
  by (simp add: same_path_def split: option.splits)

definition taken_from :: "leases \<Rightarrow> path option \<Rightarrow> path \<Rightarrow> clip_file \<Rightarrow> path \<Rightarrow> bool" where
  "taken_from leased protect dir c q \<longleftrightarrow> \<not> cf_recording c \<and> \<not> leased Choosing (cf_path c)
     \<and> protect \<noteq> Some (cf_path c) \<and> belongs dir c q"

lemma collect_garbage_changes:
  assumes "collect_garbage env leased protect meanwhile dir quota cs used freed n fs = (fs', r)"
    "\<forall>p g. node_at (meanwhile p g) q = node_at g q" "node_at fs' q \<noteq> node_at fs q"
  shows "\<exists>c \<in> set cs. taken_from leased protect dir c q"
  using assms
proof (induction cs arbitrary: used freed n fs)
  case (Cons c cs)
  let ?g = "meanwhile (cf_path c) fs"
  have g: "node_at ?g q = node_at fs q" using Cons.prems(2) by blast
  have IH: "collect_garbage env leased protect meanwhile dir quota cs used freed n g' = (fs', r) \<Longrightarrow>
      node_at g' q = node_at fs q \<Longrightarrow> \<exists>c \<in> set (c # cs). taken_from leased protect dir c q" for used freed n g'
    using Cons.IH [of used freed n g'] Cons.prems(2,3) by auto
  show ?case
  proof (cases "used \<le> quota")
    case True
    with Cons.prems(1,3) show ?thesis by simp
  next
    case over: False
    show ?thesis
    proof (cases "can_delete env ?g protect (leased Choosing) c")
      case False
      with over Cons.prems(1) have "collect_garbage env leased protect meanwhile dir quota cs used freed n ?g = (fs', r)"
        by (simp add: Let_def)
      from IH [OF this g] show ?thesis .
    next
      case True
      then have ok: "\<not> cf_recording c" "\<not> leased Choosing (cf_path c)" "protect \<noteq> Some (cf_path c)"
        by (auto simp: can_delete_def)
      obtain g' d where d: "delete_inventoried_clip env (leased Failed) dir c ?g = (g', d)"
        by (cases "delete_inventoried_clip env (leased Failed) dir c ?g")
      show ?thesis
      proof (cases "node_at g' q = node_at fs q")
        case False
        then have "belongs dir c q" using delete_elsewhere [of dir c q env "leased Failed" ?g] d g by auto
        with ok show ?thesis by (auto simp: taken_from_def)
      next
        case same: True
        have "d = Inl e \<Longrightarrow> False" for e
          using Cons.prems(1,3) over True d same by (simp add: Let_def)
        then obtain o' where o': "d = Inr o'" by (cases d) auto
        show ?thesis
          using Cons.prems(1) over True d o' IH [OF _ same] by (cases o') (auto simp: Let_def)
      qed
    qed
  qed
qed auto

lemma belongs_candidates:
  assumes "listed_clip env fs dir include c" "belongs dir c q"
  shows "q = cf_path c \<or> q \<in> set (sidecar_candidates (cf_path c))
    \<or> (butlast (cf_path c) \<noteq> dir \<and> (q = butlast (cf_path c) \<or> q = butlast (cf_path c) @ [session_meta_file]))"
  using assms by (auto simp: belongs_def listed_clip_def)

section \<open>Names of sidecars\<close>

lemma last_index_append: "\<forall>x \<in> set ys. \<not> P x \<Longrightarrow> P x \<Longrightarrow> last_index P (xs @ x # ys) = Some (length xs)"
proof -
  assume none: "\<forall>y \<in> set ys. \<not> P y" and x: "P x"
  then have "last_index P ys = None" by (simp add: last_index_None_iff)
  then have "last_index P (x # ys) = Some 0" using x by simp
  then show ?thesis by (induction xs) simp_all
qed

lemma split_name_dot:
  "CHR ''.'' \<notin> set ext \<Longrightarrow> stem \<noteq> [] \<Longrightarrow> ext \<noteq> [] \<Longrightarrow> split_name (stem @ CHR ''.'' # ext) = (stem, Some ext)"
proof -
  assume a: "CHR ''.'' \<notin> set ext" "stem \<noteq> []" "ext \<noteq> []"
  have "last_index (\<lambda>c. c = CHR ''.'') (stem @ CHR ''.'' # ext) = Some (length stem)"
    by (rule last_index_append) (use a in auto)
  moreover have "stem @ CHR ''.'' # ext \<noteq> ''..''" using a by (cases stem; cases ext) auto
  ultimately show ?thesis using a by (simp add: split_name_def)
qed

definition plain_name :: "path \<Rightarrow> bool" where
  "plain_name p \<longleftrightarrow> (\<exists>stem. file_stem p = Some stem \<and> stem \<noteq> [] \<and> p \<noteq> [])"

lemma with_extension_name:
  assumes "plain_name p" "CHR ''.'' \<notin> set e" "e \<noteq> []"
  shows "path_extension (with_extension p (a @ CHR ''.'' # e)) = Some e"
    "file_name (with_extension p (a @ CHR ''.'' # e)) = Some (the (file_stem p) @ CHR ''.'' # a @ CHR ''.'' # e)"
proof -
  obtain stem where stem: "file_stem p = Some stem" "stem \<noteq> []" using assms(1) by (auto simp: plain_name_def)
  have "split_name ((stem @ CHR ''.'' # a) @ CHR ''.'' # e) = (stem @ CHR ''.'' # a, Some e)"
    by (rule split_name_dot) (use assms(2,3) in auto)
  moreover have "stem @ CHR ''.'' # a @ CHR ''.'' # e \<noteq> ''..''" using stem assms(3) by (cases stem; cases a) auto
  ultimately show "path_extension (with_extension p (a @ CHR ''.'' # e)) = Some e"
    "file_name (with_extension p (a @ CHR ''.'' # e)) = Some (the (file_stem p) @ CHR ''.'' # a @ CHR ''.'' # e)"
    using stem by (simp_all add: path_extension_def with_extension_def file_name_def)
qed

lemma is_mp4_plain: "is_mp4 p \<Longrightarrow> plain_name p"
  by (auto simp: is_mp4_def plain_name_def path_extension_def file_stem_def file_name_def split_name_def
      split: option.splits if_splits bind_splits)

lemma ends_with_iff: "ends_with s suffix \<longleftrightarrow> (\<exists>pre. s = pre @ suffix)"
  by (auto simp: ends_with_def) (metis append_take_drop_id)

lemma lower_dot [simp]: "ascii_lower c = CHR ''.'' \<longleftrightarrow> c = CHR ''.''"
proof -
  have "of_char (ascii_lower c) = (46 :: nat) \<Longrightarrow> of_char c = (46 :: nat)"
    by (auto simp: ascii_lower_def Let_def of_char_of take_bit_nat_def split: if_splits)
  then show ?thesis by (auto simp: ascii_lower_def)
qed

lemma lower_eval: "ascii_lower (CHR ''j'') = CHR ''j''" "ascii_lower (CHR ''s'') = CHR ''s''" "ascii_lower (CHR ''o'') = CHR ''o''"
  "ascii_lower (CHR ''n'') = CHR ''n''" "ascii_lower (CHR ''p'') = CHR ''p''" "ascii_lower (CHR ''g'') = CHR ''g''"
  "ascii_lower (CHR ''m'') = CHR ''m''" "ascii_lower (CHR ''4'') = CHR ''4''"
  by (simp_all add: ascii_lower_def)

lemma json_not_media:
  assumes "file_name q = Some name" "name = pre @ ''.json'' \<or> name = pre @ ''.jpg''" "pre \<noteq> []"
  shows "\<not> is_mp4 q \<and> \<not> is_recording_mp4 q"
proof -
  have "split_name name = (pre, Some ''json'') \<or> split_name name = (pre, Some ''jpg'')"
    using assms(2,3) split_name_dot [of "''json''" pre] split_name_dot [of "''jpg''" pre] by auto
  then have "\<not> is_mp4 q"
    using assms(1) by (auto simp: is_mp4_def path_extension_def eq_ignore_case_def lower_eval)
  moreover have "\<not> ends_with (map ascii_lower name) ''.mp4.recording''"
  proof
    assume "ends_with (map ascii_lower name) ''.mp4.recording''"
    then obtain y where "rev (map ascii_lower name) = rev (y @ ''.mp4.recording'')" by (auto simp: ends_with_iff)
    with assms(2) show False by (auto simp: lower_eval)
  qed
  ultimately show ?thesis using assms(1) by (simp add: is_recording_mp4_def)
qed

lemma is_recording_plain: "is_recording_mp4 p \<Longrightarrow> plain_name p"
proof -
  assume rec: "is_recording_mp4 p"
  then obtain name y where n: "file_name p = Some name" "map ascii_lower name = y @ ''.mp4.recording''"
    by (auto simp: is_recording_mp4_def ends_with_iff split: option.splits)
  then obtain a b where ab: "name = a @ b" "map ascii_lower b = ''.mp4.recording''" by (auto simp: map_eq_append_conv)
  have lens: "length b = 14" using arg_cong [OF ab(2), of length] by simp
  have dot: "b ! 4 = CHR ''.''" using arg_cong [OF ab(2), of "\<lambda>l. l ! 4"] lens by simp
  have "fst (split_name name) \<noteq> []"
  proof (cases "last_index (\<lambda>c. c = CHR ''.'') name")
    case (Some i)
    have "\<not> (i < length a + 4)"
      using Some dot lens ab(1) by (auto simp: last_index_Some_iff nth_append dest: spec [where x = "length a + 4"])
    then have "i \<noteq> 0" "take i name \<noteq> []" using ab(1) lens by auto
    then show ?thesis using Some ab(1) lens by (auto simp: split_name_def)
  qed (use ab(1) lens in \<open>auto simp: split_name_def\<close>)
  then show "plain_name p" using n(1) by (auto simp: plain_name_def file_stem_def file_name_def split: if_splits)
qed

lemma sidecar_not_media:
  assumes "is_mp4 p \<or> is_recording_mp4 p" "q \<in> set (sidecar_candidates p)"
  shows "\<not> is_mp4 q \<and> \<not> is_recording_mp4 q"
proof -
  have plain: "plain_name p" using assms(1) is_mp4_plain is_recording_plain by blast
  obtain s where s: "file_stem p = Some s" "s \<noteq> []" using plain by (auto simp: plain_name_def)
  note name = with_extension_name(2) [OF plain]
  from assms(2) consider "q = with_extension p (''markers'' @ CHR ''.'' # ''json'')" | "q = with_extension p (''clipline'' @ CHR ''.'' # ''json'')"
    | "q = with_extension p (''osu-enrichment'' @ CHR ''.'' # ''json'')" | "q = with_extension p (''poster'' @ CHR ''.'' # ''jpg'')"
    by (auto simp: sidecar_candidates_def sidecar_path_def clip_metadata_path_def osu_pending_path_def poster_path_def)
  then show ?thesis
  proof cases
    case 1
    then show ?thesis using name [of "''json''" "''markers''"] s(1)
      by (intro json_not_media [of q _ "s @ ''.markers''"]) auto
  next
    case 2
    then show ?thesis using name [of "''json''" "''clipline''"] s(1)
      by (intro json_not_media [of q _ "s @ ''.clipline''"]) auto
  next
    case 3
    then show ?thesis using name [of "''json''" "''osu-enrichment''"] s(1)
      by (intro json_not_media [of q _ "s @ ''.osu-enrichment''"]) auto
  next
    case 4
    then show ?thesis using name [of "''jpg''" "''poster''"] s(1)
      by (intro json_not_media [of q _ "s @ ''.poster''"]) auto
  qed
qed

lemma session_meta_not_media: "\<not> is_mp4 (d @ [session_meta_file]) \<and> \<not> is_recording_mp4 (d @ [session_meta_file])"
  by (rule json_not_media [of _ session_meta_file "''clipline-session''"]) (simp_all add: file_name_def session_meta_file_def)

text \<open>To evaluate names.\<close>

lemmas name_eval = is_mp4_def is_recording_mp4_def path_extension_def file_name_def file_stem_def split_name_def last_index_def
  eq_ignore_case_def ascii_lower_def ends_with_def with_extension_def clip_ownership_marker_path_def
  is_legacy_generated_clip_def generated_part_def is_generated_tail_def strip_prefix_def is_digit_def
section \<open>A quiet collection\<close>

lemma remove_file_file: "node_at fs p = Some (FileNode content t) \<Longrightarrow> ev_remove env p \<Longrightarrow> remove_file env fs p = (without fs p, Inr ())"
  by (simp add: remove_file_def)

lemma remove_dir_keeps_files: "node_at fs q = Some (FileNode content t) \<Longrightarrow> node_at (fst (remove_dir env fs p)) q = Some (FileNode content t)"
  by (cases "q = p") (auto simp: remove_dir_def split: option.splits node.splits)

lemma deletion_keeps_media:
  assumes "listed_clip env fs0 dir include c" "is_mp4 q \<or> is_recording_mp4 q" "q \<noteq> cf_path c"
    "node_at fs q = Some (FileNode content t)"
  shows "node_at (fst (delete_inventoried_clip env leased dir c fs)) q = Some (FileNode content t)"
proof -
  have c: "is_mp4 (cf_path c) \<or> is_recording_mp4 (cf_path c)" "set (cf_sidecars c) \<subseteq> set (sidecar_candidates (cf_path c))"
    using assms(1) by (simp_all add: listed_clip_def)
  have side: "q \<notin> set (cf_sidecars c)" using c sidecar_not_media assms(2) by blast
  have meta: "q \<noteq> d @ [session_meta_file]" for d using session_meta_not_media assms(2) by blast
  obtain fs1 r where r: "remove_file env fs (cf_path c) = (fs1, r)" by (cases "remove_file env fs (cf_path c)")
  then have q1: "node_at fs1 q = Some (FileNode content t)" using remove_file_elsewhere [OF assms(3)] assms(4) by (metis fst_conv)
  then have q2: "node_at (remove_sidecars env (cf_sidecars c) fs1) q = Some (FileNode content t)"
    using remove_sidecars_elsewhere [OF side] by simp
  then have "node_at (remove_empty_session env dir p (remove_sidecars env (cf_sidecars c) fs1)) q = Some (FileNode content t)" for p
    using meta by (auto simp: remove_empty_session_def remove_file_if_exists_elsewhere remove_dir_keeps_files split: option.splits)
  then show ?thesis using r q1 assms(4) by (cases r) (simp_all add: delete_inventoried_clip_def)
qed

lemma gone_stays:
  assumes "node_at g q = None"
  shows "node_at (fst (remove_file env g p)) q = None" "node_at (fst (remove_file_if_exists env g p)) q = None"
    "node_at (fst (remove_dir env g p)) q = None"
proof -
  show "node_at (fst (remove_file env g p)) q = None"
    using assms by (simp add: remove_file_def split: option.splits node.splits)
  then show "node_at (fst (remove_file_if_exists env g p)) q = None"
    by (auto simp: remove_file_if_exists_def split: prod.splits sum.splits)
  show "node_at (fst (remove_dir env g p)) q = None"
    using assms by (simp add: remove_dir_def split: option.splits node.splits)
qed

lemma gone_stays_sidecars: "node_at g q = None \<Longrightarrow> node_at (remove_sidecars env ps g) q = None"
  unfolding remove_sidecars_def by (induction ps arbitrary: g) (simp_all add: gone_stays)

lemma deletion_removes:
  assumes "node_at fs (cf_path c) = Some (FileNode content t)" "is_within_media_root env fs (cf_path c) dir"
    "ev_remove env (cf_path c)"
  obtains fs' where "delete_inventoried_clip env leased dir c fs = (fs', Inr Removed)" "node_at fs' (cf_path c) = None"
proof -
  let ?g = "remove_sidecars env (cf_sidecars c) (without fs (cf_path c))"
  have "node_at ?g (cf_path c) = None" by (rule gone_stays_sidecars) simp
  then have "node_at (remove_empty_session env dir (cf_path c) ?g) (cf_path c) = None"
    by (auto simp: remove_empty_session_def gone_stays split: option.splits)
  then show thesis
    using that assms by (simp add: delete_inventoried_clip_def remove_file_file)
qed

fun oldest_first :: "nat \<Rightarrow> nat \<Rightarrow> clip_file list \<Rightarrow> clip_file list" where
  "oldest_first quota used [] = []"
| "oldest_first quota used (c # cs) = (if used \<le> quota then [] else c # oldest_first quota (used - total_bytes c) cs)"

lemma oldest_first_prefix:
  "\<exists>k \<le> length cs. oldest_first quota used cs = take k cs
     \<and> (\<forall>j < k. quota < used - sum_list (map total_bytes (take j cs)))
     \<and> (k = length cs \<or> used - sum_list (map total_bytes (take k cs)) \<le> quota)"
proof (induction cs arbitrary: used)
  case (Cons c cs)
  show ?case
  proof (cases "used \<le> quota")
    case True
    then show ?thesis by (intro exI [of _ 0]) simp
  next
    case False
    obtain k where k: "k \<le> length cs" "oldest_first quota (used - total_bytes c) cs = take k cs"
      "\<forall>j < k. quota < used - total_bytes c - sum_list (map total_bytes (take j cs))"
      "k = length cs \<or> used - total_bytes c - sum_list (map total_bytes (take k cs)) \<le> quota"
      using Cons.IH [of "used - total_bytes c"] by blast
    have "\<forall>j < Suc k. quota < used - sum_list (map total_bytes (take j (c # cs)))"
      using k(3) False by (auto simp: less_Suc_eq_0_disj)
    then show ?thesis using k False by (intro exI [of _ "Suc k"]) auto
  qed
qed simp


lemma distinct_take_oldest: "distinct cs \<Longrightarrow> distinct (oldest_first quota used cs) \<and> set (oldest_first quota used cs) \<subseteq> set cs"
  using oldest_first_prefix [of cs quota used] by (metis distinct_take set_take_subset)

lemma oldest_first_done [simp]: "used \<le> quota \<Longrightarrow> oldest_first quota used cs = []"
  by (cases cs) simp_all

lemma can_delete_canon:
  "(\<And>g p. ev_canon env g p = canon p) \<Longrightarrow> can_delete env fs protect lease c = can_delete env fs0 protect lease c"
  by (simp add: can_delete_def same_path_def split: option.splits)

text \<open>
  When names keep resolving to the same files and no removal is refused, the loop takes the oldest
  deletable clips until the rest fits.
\<close>

lemma quiet_collection:
  assumes canon: "\<And>g p. ev_canon env g p = canon p" and rem: "\<And>p. ev_remove env p" and lease: "\<And>m p. leased m p = lease p"
    and listed: "\<forall>c \<in> set cs. listed_clip env fs0 dir include c" and dist: "distinct (map cf_path cs)"
    and here: "\<forall>c \<in> set cs. \<exists>content t. node_at fs (cf_path c) = Some (FileNode content t)"
    and inside: "\<forall>c \<in> set cs. \<forall>g. is_within_media_root env g (cf_path c) dir"
    and small: "freed < 2 ^ 64"
  shows "\<exists>fs'. collect_garbage env leased protect (\<lambda>_ g. g) dir quota cs used freed n fs
      = (fs', Inr (n + length (oldest_first quota used (filter (can_delete env fs0 protect lease) cs)),
          (freed + sum_list (map total_bytes (oldest_first quota used (filter (can_delete env fs0 protect lease) cs)))) mod 2 ^ 64))
    \<and> (\<forall>q. is_mp4 q \<or> is_recording_mp4 q \<longrightarrow> (\<exists>content t. node_at fs q = Some (FileNode content t)) \<longrightarrow>
        node_at fs' q = (if q \<in> cf_path ` set (oldest_first quota used (filter (can_delete env fs0 protect lease) cs)) then None else node_at fs q))
    \<and> (\<forall>q. node_at fs q = None \<longrightarrow> node_at fs' q = None)"
  using dist here listed inside small
proof (induction cs arbitrary: used freed n fs)
  case (Cons c cs)
  let ?D = "\<lambda>used cs. oldest_first quota used (filter (can_delete env fs0 protect lease) cs)"
  have prems: "distinct (map cf_path cs)" "\<forall>c \<in> set cs. listed_clip env fs0 dir include c"
    "\<forall>c \<in> set cs. \<forall>g. is_within_media_root env g (cf_path c) dir" using Cons.prems by simp_all
  note IH = Cons.IH [OF prems(1) _ prems(2,3)]
  note can = can_delete_canon [of env canon fs protect lease c fs0, OF canon]
  have l: "leased Choosing = lease" "leased Failed = lease" using lease by (simp_all add: fun_eq_iff)
  show ?case
  proof (cases "used \<le> quota \<or> \<not> can_delete env fs0 protect lease c")
    case True
    then show ?thesis
    proof
      assume "used \<le> quota"
      then show ?thesis using Cons.prems(5) by simp
    next
      assume keep: "\<not> can_delete env fs0 protect lease c"
      show ?thesis
      proof (cases "used \<le> quota")
        case True
        then show ?thesis using Cons.prems(5) by simp
      next
        case False
        have "\<forall>c \<in> set cs. \<exists>content t. node_at fs (cf_path c) = Some (FileNode content t)" using Cons.prems(2) by simp
        from IH [OF this Cons.prems(5)] keep False can l show ?thesis by simp
      qed
    qed
  next
    case False
    obtain content t where f: "node_at fs (cf_path c) = Some (FileNode content t)" using Cons.prems(2) by auto
    obtain fs1 where d: "delete_inventoried_clip env lease dir c fs = (fs1, Inr Removed)" "node_at fs1 (cf_path c) = None"
      by (rule deletion_removes [OF f _ rem]) (use Cons.prems(4) in auto)
    have listed_c: "listed_clip env fs0 dir include c" using Cons.prems(3) by simp
    then have media_c: "is_mp4 (cf_path c) \<or> is_recording_mp4 (cf_path c)" by (simp add: listed_clip_def)
    have keeps: "node_at fs1 q = Some (FileNode content t)"
      if "is_mp4 q \<or> is_recording_mp4 q" "q \<noteq> cf_path c" "node_at fs q = Some (FileNode content t)" for q content t
      using deletion_keeps_media [OF listed_c that, of lease] d(1) by simp
    have here1: "\<forall>c \<in> set cs. \<exists>content t. node_at fs1 (cf_path c) = Some (FileNode content t)"
    proof
      fix c2 assume c2: "c2 \<in> set cs"
      then obtain content t where f2: "node_at fs (cf_path c2) = Some (FileNode content t)" using Cons.prems(2) by auto
      have "is_mp4 (cf_path c2) \<or> is_recording_mp4 (cf_path c2)" using c2 prems(2) by (simp add: listed_clip_def)
      moreover have "cf_path c2 \<noteq> cf_path c" using imageI [OF c2, of cf_path] Cons.prems(1) by auto
      ultimately show "\<exists>content t. node_at fs1 (cf_path c2) = Some (FileNode content t)" using keeps f2 by blast
    qed
    obtain fs' where fs': "collect_garbage env leased protect (\<lambda>_ g. g) dir quota cs (used - total_bytes c)
        ((freed + total_bytes c) mod 2 ^ 64) (n + 1) fs1
        = (fs', Inr (n + 1 + length (?D (used - total_bytes c) cs),
            ((freed + total_bytes c) mod 2 ^ 64 + sum_list (map total_bytes (?D (used - total_bytes c) cs))) mod 2 ^ 64))"
      "\<forall>q. is_mp4 q \<or> is_recording_mp4 q \<longrightarrow> (\<exists>content t. node_at fs1 q = Some (FileNode content t)) \<longrightarrow>
        node_at fs' q = (if q \<in> cf_path ` set (?D (used - total_bytes c) cs) then None else node_at fs1 q)"
      "\<forall>q. node_at fs1 q = None \<longrightarrow> node_at fs' q = None"
      using IH [OF here1, of "(freed + total_bytes c) mod 2 ^ 64" "used - total_bytes c" "n + 1"] by auto
    have D: "?D used (c # cs) = c # ?D (used - total_bytes c) cs" using False by simp
    have run: "collect_garbage env leased protect (\<lambda>_ g. g) dir quota (c # cs) used freed n fs
        = (fs', Inr (n + length (?D used (c # cs)), (freed + sum_list (map total_bytes (?D used (c # cs)))) mod 2 ^ 64))"
      using False d(1) fs'(1) can l by (simp add: D mod_simps add.assoc)
    have media: "node_at fs' q = (if q \<in> cf_path ` set (?D used (c # cs)) then None else node_at fs q)"
      if q: "is_mp4 q \<or> is_recording_mp4 q" "node_at fs q = Some (FileNode content t)" for q content t
    proof (cases "q = cf_path c")
      case True
      then show ?thesis using fs'(3) d(2) D by simp
    next
      case False
      with keeps [OF q(1) False q(2)] fs'(2) q D show ?thesis by auto
    qed
    have gone: "node_at fs' q = None" if "node_at fs q = None" for q
    proof -
      have "node_at fs1 q = None"
      proof (cases "belongs dir c q")
        case False
        then show ?thesis using delete_elsewhere [OF False, of env lease fs] d(1) that by simp
      next
        case True
        show ?thesis using d(1) that rem f Cons.prems(4)
          by (auto simp: delete_inventoried_clip_def remove_file_file remove_empty_session_def gone_stays gone_stays_sidecars
              split: option.splits)
      qed
      then show ?thesis using fs'(3) by blast
    qed
    show ?thesis
      by (rule exI [of _ fs'], intro conjI allI impI) (fact run, use media in blast, use gone in blast)
  qed
qed simp

section \<open>What a collection changes\<close>

lemma enforced_quota_changes:
  assumes "enforce_quota_with_protection env leased meanwhile dir quota_bytes protect fs = (fs', r)"
    and "\<forall>p g. node_at (meanwhile p g) q = node_at g q" "node_at fs' q \<noteq> node_at fs q"
  shows "\<exists>p content t. p \<noteq> [] \<and> media_dir fs dir (butlast p) \<and> node_at fs p = Some (FileNode content t)
    \<and> is_mp4 p \<and> \<not> is_recording_mp4 p
    \<and> (is_managed_clip env fs p \<or> (\<exists>a. protect = Some a \<and> a \<noteq> p \<and> same_path env fs p a))
    \<and> \<not> leased Choosing p \<and> protect \<noteq> Some p
    \<and> (q = p \<or> q \<in> set (sidecar_candidates p)
        \<or> (butlast p \<noteq> dir \<and> (q = butlast p \<or> q = butlast p @ [session_meta_file])))"
proof -
  obtain quota where quota: "quota_bytes = Some quota"
    using assms(1,3) by (cases quota_bytes) (auto simp: enforce_quota_with_protection_def)
  obtain clips where clips: "inventory env fs dir protect = Inr clips"
    using assms(1,3) quota by (cases "inventory env fs dir protect") (auto simp: enforce_quota_with_protection_def)
  obtain r' where run: "collect_garbage env leased protect meanwhile dir quota (sort_by older clips)
      (sum_u64 (map total_bytes clips)) 0 0 fs = (fs', r')"
    using assms(1,3) quota clips
    by (auto simp: enforce_quota_with_protection_def split: if_splits prod.splits sum.splits)
  obtain c where c: "c \<in> set clips" "taken_from leased protect dir c q"
    using collect_garbage_changes [OF run assms(2,3)] by auto
  have l: "listed_clip env fs dir protect c" using inventory_listed [OF clips c(1)] .
  have "belongs dir c q" using c(2) by (simp add: taken_from_def)
  from belongs_candidates [OF l this] l c(2) show ?thesis
    by (intro exI [of _ "cf_path c"]) (auto simp: listed_clip_def taken_from_def)
qed

text \<open>A clip that is to be kept is kept with its content.\<close>

lemma protected_clip_stays:
  assumes "enforce_quota_with_protection env leased meanwhile dir quota_bytes (Some q) fs = (fs', r)"
    "\<forall>p g. node_at (meanwhile p g) q = node_at g q" "is_mp4 q" "node_at fs q = Some (FileNode content t)"
  shows "node_at fs' q = Some (FileNode content t)"
proof (rule ccontr)
  assume "node_at fs' q \<noteq> Some (FileNode content t)"
  then have "node_at fs' q \<noteq> node_at fs q" using assms(4) by simp
  from enforced_quota_changes [OF assms(1,2) this] obtain p where p: "media_dir fs dir (butlast p)" "is_mp4 p"
    "Some q \<noteq> Some p" "q = p \<or> q \<in> set (sidecar_candidates p)
      \<or> (butlast p \<noteq> dir \<and> (q = butlast p \<or> q = butlast p @ [session_meta_file]))" by auto
  have "q \<notin> set (sidecar_candidates p)" using sidecar_not_media [of p q] p(2) assms(3) by blast
  moreover have "q \<noteq> butlast p @ [session_meta_file]" using session_meta_not_media assms(3) by blast
  moreover have "butlast p \<noteq> dir \<Longrightarrow> q \<noteq> butlast p" using p(1) assms(4) by (auto simp: media_dir_def)
  ultimately show False using p(3,4) by blast
qed

end
