(* ===== verification/Storage_Recovery.thy ===== *)
theory Storage_Recovery
  imports Storage_Quota
begin

text \<open>
  Recovery of unfinished recordings keeps every video: each nonempty video before the recovery is one
  of the videos after it, with the same content, and no two become the same one.
\<close>

section \<open>What it means to keep the videos\<close>

definition video_path :: "path \<Rightarrow> bool" where
  "video_path p \<longleftrightarrow> is_mp4 p \<or> is_recording_mp4 p"

definition videos :: "fs \<Rightarrow> path set" where
  "videos fs = {p. video_path p \<and> (\<exists>content t. content \<noteq> [] \<and> node_at fs p = Some (FileNode content t))}"

definition keeps_videos :: "fs \<Rightarrow> fs \<Rightarrow> bool" where
  "keeps_videos fs fs' \<longleftrightarrow>
     (\<exists>f. inj_on f (videos fs) \<and> (\<forall>p \<in> videos fs. f p \<in> videos fs' \<and> node_at fs' (f p) = node_at fs p))"

text \<open>The name of last resort carries the time and is not looked up.\<close>

definition clock_named :: "fs_env \<Rightarrow> path \<Rightarrow> bool" where
  "clock_named env p \<longleftrightarrow> (\<exists>d stem. p = d @ [stem @ ''_recovered_'' @ decimal (ev_now_nanos env) @ ''.mp4''])"

definition recovers :: "fs_env \<Rightarrow> fs \<times> recovery_report \<Rightarrow> fs \<times> recovery_report \<Rightarrow> bool" where
  "recovers env s s' \<longleftrightarrow> set (rp_recovered (snd s)) \<subseteq> set (rp_recovered (snd s'))
     \<and> ((\<forall>p \<in> set (rp_recovered (snd s')). \<not> clock_named env p) \<longrightarrow> keeps_videos (fst s) (fst s'))"

lemma keeps_same: "\<forall>q \<in> videos fs. node_at fs' q = node_at fs q \<Longrightarrow> keeps_videos fs fs'"
  unfolding keeps_videos_def by (rule exI [of _ id]) (auto simp: videos_def)

lemma outside: "q \<in> videos fs \<Longrightarrow> \<not> video_path m \<Longrightarrow> q \<noteq> m"
  by (auto simp: videos_def)

lemma keeps_refl: "keeps_videos fs fs"
  by (rule keeps_same) simp

lemma keeps_trans:
  assumes "keeps_videos fs fs'" "keeps_videos fs' fs''"
  shows "keeps_videos fs fs''"
proof -
  obtain f where f: "inj_on f (videos fs)" "\<forall>p \<in> videos fs. f p \<in> videos fs' \<and> node_at fs' (f p) = node_at fs p"
    using assms(1) by (auto simp: keeps_videos_def)
  obtain g where g: "inj_on g (videos fs')" "\<forall>p \<in> videos fs'. g p \<in> videos fs'' \<and> node_at fs'' (g p) = node_at fs' p"
    using assms(2) by (auto simp: keeps_videos_def)
  have "f ` videos fs \<subseteq> videos fs'" using f(2) by blast
  then have "inj_on (g \<circ> f) (videos fs)" using f(1) g(1) comp_inj_on inj_on_subset by blast
  moreover have "\<forall>p \<in> videos fs. (g \<circ> f) p \<in> videos fs'' \<and> node_at fs'' ((g \<circ> f) p) = node_at fs p" using f(2) g(2) by simp
  ultimately show ?thesis unfolding keeps_videos_def by blast
qed

lemma recovers_refl: "recovers env s s"
  by (simp add: recovers_def keeps_refl)

lemma recovers_trans: "recovers env s s' \<Longrightarrow> recovers env s' s'' \<Longrightarrow> recovers env s s''"
  unfolding recovers_def using keeps_trans by blast

section \<open>One entry\<close>

lemma marker_not_video: "clip_ownership_marker_path p = Inr m \<Longrightarrow> \<not> video_path m"
proof -
  assume m: "clip_ownership_marker_path p = Inr m"
  then obtain clip where "is_mp4 clip" "m = with_extension clip ''clipline.json''"
    by (auto simp: clip_ownership_marker_path_def split: option.splits if_splits)
  then show ?thesis
    using sidecar_not_media [of clip m] by (simp add: video_path_def sidecar_candidates_def clip_metadata_path_def)
qed

lemma marker_video: "clip_ownership_marker_path p = Inr m \<Longrightarrow> video_path p"
  by (auto simp: clip_ownership_marker_path_def video_path_def split: option.splits if_splits)

lemma create_new_elsewhere: "create_new env fs p = (fs', r) \<Longrightarrow> q \<noteq> p \<Longrightarrow> node_at fs' q = node_at fs q"
  by (auto simp: create_new_def split: if_splits)

lemma write_all_to_elsewhere: "write_all_to env fs p content = (fs', r) \<Longrightarrow> q \<noteq> p \<Longrightarrow> node_at fs' q = node_at fs q"
proof -
  assume w: "write_all_to env fs p content = (fs', r)" and q: "q \<noteq> p"
  have "map_of (map (\<lambda>(q, n). if q = p then (q, FileNode content (ev_now env)) else (q, n)) g) q = map_of g q" for g
    by (induction g) (use q in auto)
  then show ?thesis using w by (auto simp: write_all_to_def node_at_def split: if_splits)
qed

lemma ensure_clip_owned_elsewhere:
  assumes "ensure_clip_owned env fs p = (fs', r)" "clip_ownership_marker_path p = Inr m" "q \<noteq> m"
  shows "node_at fs' q = node_at fs q"
proof -
  obtain fs1 r1 where c: "create_new env fs m = (fs1, r1)" by (cases "create_new env fs m")
  obtain fs2 r2 where w: "write_all_to env fs1 m [0x7B, 0x7D] = (fs2, r2)" by (cases "write_all_to env fs1 m [0x7B, 0x7D]")
  have "fs' = fs1 \<or> fs' = fs2 \<or> fs' = fst (remove_file env fs2 m)"
    using assms(1,2) c w by (auto simp: ensure_clip_owned_def split: sum.splits if_splits node.splits)
  then show ?thesis
    using create_new_elsewhere [OF c assms(3)] write_all_to_elsewhere [OF w assms(3)] remove_file_elsewhere [OF assms(3)] by auto
qed

lemma rename_file_keeps:
  assumes "rename_file env fs p q = (fs', Inr ())" "p \<noteq> q" "video_path q"
    "\<forall>content t. node_at fs q \<noteq> Some (FileNode content t)"
  shows "keeps_videos fs fs'"
proof -
  obtain n where n: "node_at fs p = Some n" "fs' = placed (without fs p) q n"
    using assms(1) by (auto simp: rename_file_def split: option.splits if_splits)
  let ?f = "\<lambda>x. if x = p then q else x"
  have q: "q \<notin> videos fs" using assms(4) by (auto simp: videos_def)
  then have "inj_on ?f (videos fs)" by (auto simp: inj_on_def)
  moreover have "\<forall>x \<in> videos fs. ?f x \<in> videos fs' \<and> node_at fs' (?f x) = node_at fs x"
    using n q assms(2,3) by (auto simp: videos_def)
  ultimately show ?thesis unfolding keeps_videos_def by blast
qed

lemma rename_file_elsewhere: "rename_file env fs p q = (fs', r) \<Longrightarrow> x \<noteq> p \<Longrightarrow> x \<noteq> q \<Longrightarrow> node_at fs' x = node_at fs x"
  by (auto simp: rename_file_def split: option.splits if_splits)

lemma unique_recovered_path_free:
  assumes "\<forall>p. ev_stat env p" "\<not> clock_named env (unique_recovered_path env fs candidate m)"
  shows "\<forall>content t. node_at fs (unique_recovered_path env fs candidate m) \<noteq> Some (FileNode content t)"
proof -
  let ?q = "unique_recovered_path env fs candidate m"
  have free: "recovery_destination_available env fs p m \<Longrightarrow> node_at fs p \<noteq> Some (FileNode content t)" for p content t
    using assms(1) by (auto simp: recovery_destination_available_def path_exists_def stat_def lstat_def)
  have "recovery_destination_available env fs ?q m"
  proof (cases "recovery_destination_available env fs candidate m")
    case True
    then show ?thesis by (simp add: unique_recovered_path_def)
  next
    case False
    define parent where "parent = (case path_parent candidate of None \<Rightarrow> [] | Some d \<Rightarrow> d)"
    define stem where "stem = (case file_stem candidate of None \<Rightarrow> ''session'' | Some s \<Rightarrow> s)"
    let ?found = "find (\<lambda>attempt. recovery_destination_available env fs (parent @ [recovered_name stem attempt]) m) [0..<1024]"
    have q: "?q = (case ?found of Some attempt \<Rightarrow> parent @ [recovered_name stem attempt]
      | None \<Rightarrow> parent @ [stem @ ''_recovered_'' @ decimal (ev_now_nanos env) @ ''.mp4''])"
      unfolding unique_recovered_path_def parent_def stem_def Let_def using False by (simp only: if_False)
    show ?thesis
    proof (cases ?found)
      case None
      with q have "clock_named env ?q" unfolding clock_named_def by (intro exI) simp
      with assms(2) show ?thesis by simp
    next
      case (Some attempt)
      then have "recovery_destination_available env fs (parent @ [recovered_name stem attempt]) m" unfolding find_Some_iff by blast
      with q Some show ?thesis by simp
    qed
  qed
  with free show ?thesis by blast
qed

lemma move_recording_recovers:
  assumes "move_recording env p old_marker q final_marker s = (s', Inr ())" "\<not> video_path old_marker" "\<not> video_path final_marker"
    "video_path q" "p \<noteq> q" "\<not> clock_named env q \<Longrightarrow> \<forall>content t. node_at (fst s) q \<noteq> Some (FileNode content t)"
  shows "recovers env s s'"
proof -
  obtain fs report where s: "s = (fs, report)" by (cases s)
  obtain fs1 r1 where mv: "rename_file env fs p q = (fs1, r1)" by (cases "rename_file env fs p q")
  have ok: "r1 = Inr ()" using assms(1) mv s by (cases r1) (simp_all add: move_recording_def)
  obtain fs2 r2 where mk: "rename_file env fs1 old_marker final_marker = (fs2, r2)" by (cases "rename_file env fs1 old_marker final_marker")
  have run: "(if old_marker = final_marker then ((fs1, report\<lparr>rp_recovered := rp_recovered report @ [q]\<rparr>), Inr ())
      else case r2 of Inr _ \<Rightarrow> ((fs2, report\<lparr>rp_recovered := rp_recovered report @ [q]\<rparr>), Inr ())
        | Inl e \<Rightarrow> ((fst (rename_file env fs2 q p), report), Inl e)) = (s', Inr ())"
    using assms(1) by (simp only: move_recording_def s mv ok mk prod.case sum.case Let_def)
  have s': "snd s' = report\<lparr>rp_recovered := rp_recovered report @ [q]\<rparr>" and fs': "fst s' = fs1 \<or> fst s' = fs2"
    using run by (cases r2; auto split: if_splits)+
  have same: "node_at (fst s') x = node_at fs1 x" if "x \<noteq> old_marker" "x \<noteq> final_marker" for x
    using fs' rename_file_elsewhere [OF mk that] by auto
  have "keeps_videos fs fs1" if "\<not> clock_named env q"
    using rename_file_keeps [OF mv [unfolded ok] assms(5,4)] assms(6) that s by simp
  moreover have "keeps_videos fs1 (fst s')" by (rule keeps_same) (use same outside assms(2,3) in blast)
  ultimately show ?thesis using s s' keeps_trans by (auto simp: recovers_def)
qed

lemma recover_empty_recovers:
  assumes "recover_empty env p s = (s', Inr ())" "clip_ownership_marker_path p = Inr m"
    "node_at (fst s) p = Some (FileNode [] t)"
  shows "recovers env s s'"
proof -
  obtain fs report where s: "s = (fs, report)" by (cases s)
  have "rp_recovered (snd s') = rp_recovered report"
    using assms(1) s by (auto simp: recover_empty_def split: prod.splits sum.splits)
  moreover have "node_at (fst s') x = node_at fs x" if "x \<noteq> p" "x \<noteq> m" for x
  proof -
    have "fst s' = fst (remove_file_if_exists env (fst (remove_file_if_exists env fs p)) m)"
      using assms(1,2) s by (auto simp: recover_empty_def remove_clip_ownership_marker_def split: prod.splits sum.splits)
    then show ?thesis using that by (simp add: remove_file_if_exists_elsewhere)
  qed
  then have "keeps_videos fs (fst s')"
  proof (intro keeps_same ballI)
    fix q assume same: "\<And>x. x \<noteq> p \<Longrightarrow> x \<noteq> m \<Longrightarrow> node_at (fst s') x = node_at fs x" and q: "q \<in> videos fs"
    have "q \<noteq> m" using q marker_not_video [OF assms(2)] by (auto simp: videos_def)
    moreover have "q \<noteq> p" using q assms(3) s by (auto simp: videos_def)
    ultimately show "node_at (fst s') q = node_at fs q" using same by blast
  qed
  ultimately show ?thesis using s by (simp add: recovers_def)
qed

lemma recording_not_clock_named: "is_recording_mp4 p \<Longrightarrow> \<not> clock_named env p"
proof
  assume r: "is_recording_mp4 p" and "clock_named env p"
  then obtain d stem where p: "p = d @ [stem @ ''_recovered_'' @ decimal (ev_now_nanos env) @ ''.mp4'']" by (auto simp: clock_named_def)
  have "file_name p = Some (stem @ ''_recovered_'' @ decimal (ev_now_nanos env) @ ''.mp4'')"
    by (simp add: p file_name_def)
  with r obtain y where "map ascii_lower (stem @ ''_recovered_'' @ decimal (ev_now_nanos env) @ ''.mp4'') = y @ ''.mp4.recording''"
    by (auto simp: is_recording_mp4_def ends_with_iff)
  then have "rev (map ascii_lower (stem @ ''_recovered_'' @ decimal (ev_now_nanos env) @ ''.mp4'')) = rev (y @ ''.mp4.recording'')" by (rule arg_cong)
  then show False by (simp add: lower_eval)
qed

lemma recover_entry_recovers:
  assumes "recover_entry env p s = (s', Inr ())" "\<forall>p. ev_stat env p"
  shows "recovers env s s'"
proof -
  obtain fs report where s: "s = (fs, report)" by (cases s)
  show ?thesis
  proof (cases "\<not> is_recording_mp4 p \<or> \<not> is_managed_clip env fs p \<or> (\<forall>content t. lstat env fs p \<noteq> Inr (FileNode content t))")
    case True
    then have "s' = s" using assms(1) s by (auto simp: recover_entry_def split: if_splits sum.splits node.splits)
    then show ?thesis by (simp add: recovers_refl)
  next
    case False
    then obtain content t where n: "is_recording_mp4 p" "is_managed_clip env fs p" "lstat env fs p = Inr (FileNode content t)" by blast
    obtain m where m: "clip_ownership_marker_path p = Inr m"
      using n(2) by (auto simp: is_managed_clip_def split: sum.splits)
    obtain fs1 r1 where own: "(if is_file env fs m then (fs, Inr True) else ensure_clip_owned env fs p) = (fs1, r1)"
      by (cases "if is_file env fs m then (fs, Inr True) else ensure_clip_owned env fs p")
    have same: "node_at fs1 x = node_at fs x" if "x \<noteq> m" for x
      using own ensure_clip_owned_elsewhere [OF _ m that] by (auto split: if_splits)
    have run: "(if content = [] then recover_empty env p (fs1, report) else recover_content env p m (fs1, report)) = (s', Inr ())"
      using assms(1) s n m own by (cases r1) (simp_all add: recover_entry_def)
    have p: "node_at fs p = Some (FileNode content t)" using n(3) by (auto simp: lstat_def split: option.splits if_splits)
    have pm: "p \<noteq> m" using marker_not_video [OF m] n(1) by (auto simp: video_path_def)
    have "keeps_videos fs fs1"
      by (rule keeps_same) (use same outside marker_not_video [OF m] in blast)
    then have start: "recovers env s (fs1, report)" using s by (simp add: recovers_def)
    have "recovers env (fs1, report) s'"
    proof (cases "content = []")
      case True
      show ?thesis by (rule recover_empty_recovers [OF _ m]) (use run True p pm same in auto)
    next
      case False
      then obtain candidate where c: "recording_final_path p = Some candidate"
        using run by (cases "recording_final_path p") (auto simp: recover_content_def)
      let ?q = "unique_recovered_path env fs1 candidate m"
      obtain fm where fm: "clip_ownership_marker_path ?q = Inr fm"
        and mv: "move_recording env p m ?q fm (fs1, report) = (s', Inr ())"
        using run False c by (auto simp: recover_content_def Let_def split: sum.splits)
      have free: "\<forall>content t. node_at fs1 ?q \<noteq> Some (FileNode content t)" if "\<not> clock_named env ?q"
        using unique_recovered_path_free [OF assms(2) that] .
      have "p \<noteq> ?q"
      proof
        assume e: "p = ?q"
        have "\<not> clock_named env p" using n(1) recording_not_clock_named by blast
        with free e p pm same show False by metis
      qed
      with move_recording_recovers [OF mv marker_not_video [OF m] marker_not_video [OF fm] marker_video [OF fm]] free
      show ?thesis by simp
    qed
    with start show ?thesis by (rule recovers_trans)
  qed
qed

section \<open>The whole recovery\<close>

lemma recover_entries_recovers:
  "recover_entries env ps s = (s', Inr ()) \<Longrightarrow> \<forall>p. ev_stat env p \<Longrightarrow> recovers env s s'"
proof (induction ps arbitrary: s)
  case (Cons p ps)
  then obtain s1 where s1: "recover_entry env p s = (s1, Inr ())" "recover_entries env ps s1 = (s', Inr ())"
    by (auto split: if_splits prod.splits sum.splits)
  then show ?case using Cons recover_entry_recovers recovers_trans by blast
qed (simp add: recovers_refl)

lemma recover_dir_recovers: "recover_dir env d s = (s', Inr ()) \<Longrightarrow> \<forall>p. ev_stat env p \<Longrightarrow> recovers env s s'"
  using recover_entries_recovers by (auto simp: recover_dir_def split: sum.splits)

lemma visit_entries_recovers:
  "visit_entries env fst (recover_dir env) ps s = (s', Inr ()) \<Longrightarrow> \<forall>p. ev_stat env p \<Longrightarrow> recovers env s s'"
proof (induction ps arbitrary: s)
  case (Cons p ps)
  show ?case
  proof (cases "lstat env (fst s) p = Inr DirNode")
    case True
    then obtain s1 where "recover_dir env p s = (s1, Inr ())" "visit_entries env fst (recover_dir env) ps s1 = (s', Inr ())"
      using Cons.prems(1) by (auto split: if_splits prod.splits sum.splits)
    then show ?thesis using Cons.IH Cons.prems(2) recover_dir_recovers recovers_trans by blast
  next
    case False
    then show ?thesis using Cons by (auto split: if_splits)
  qed
qed (simp add: recovers_refl)

lemma recover_recording_files_recovers:
  assumes "recover_recording_files env dir fs = (fs', Inr report)" "\<forall>p. ev_stat env p"
  shows "recovers env (fs, \<lparr>rp_recovered = [], rp_deleted_empty = 0\<rparr>) (fs', report)"
proof -
  let ?s = "(fs, \<lparr>rp_recovered = [], rp_deleted_empty = 0\<rparr>)"
  have v: "visit_media_dirs env fst (recover_dir env) dir ?s = ((fs', report), Inr ())"
    using assms(1) by (auto simp: recover_recording_files_def split: prod.splits sum.splits)
  then obtain s1 es where s1: "recover_dir env dir ?s = (s1, Inr ())"
    "visit_entries env fst (recover_dir env) es s1 = ((fs', report), Inr ())"
    by (auto simp: visit_media_dirs_def split: prod.splits sum.splits)
  show ?thesis
    using recover_dir_recovers [OF s1(1) assms(2)] visit_entries_recovers [OF s1(2) assms(2)] recovers_trans by blast
qed

end
