(* ===== verification/Storage_Properties.thy ===== *)
theory Storage_Properties
  imports Storage_Quota Storage_Recovery
begin

text \<open>
  The properties of the clip library (crates/clipline-storage): quota collection touches only owned
  clips and takes the oldest first, and recovery keeps every video.
\<close>

section \<open>The paths of the inventory\<close>

lemma collect_entries_step:
  obtains (stop) r where "collect_entries env fs incl (p # ps) clips = (clips, r)"
  | (skip) "collect_entries env fs incl (p # ps) clips = collect_entries env fs incl ps clips"
  | (add) c where "cf_path c = p" "collect_entries env fs incl (p # ps) clips = collect_entries env fs incl ps (clips @ [c])"
proof -
  consider "\<not> ev_entry env p" | "ev_entry env p" "\<not> is_mp4 p \<and> \<not> is_recording_mp4 p
      \<or> \<not> is_managed_clip env fs p \<and> \<not> (case incl of None \<Rightarrow> False | Some a \<Rightarrow> same_path env fs p a)"
    | "ev_entry env p" "\<not> (\<not> is_mp4 p \<and> \<not> is_recording_mp4 p)"
      "\<not> (\<not> is_managed_clip env fs p \<and> \<not> (case incl of None \<Rightarrow> False | Some a \<Rightarrow> same_path env fs p a))" by blast
  then show thesis
  proof cases
    case 1
    then show ?thesis using stop by simp
  next
    case 2
    then show ?thesis using skip by (simp only: collect_entries.simps simp_thms if_False if_True) (metis (full_types))
  next
    case 3
    show ?thesis
    proof (cases "lstat env fs p")
      case (Inl e)
      then have "collect_entries env fs incl (p # ps) clips = (clips, Inl e)"
        using 3 by (simp only: collect_entries.simps simp_thms if_False sum.case)
      then show ?thesis by (rule stop)
    next
      case (Inr n)
      show ?thesis
      proof (cases n)
        case (FileNode content t)
        have kinds: "is_mp4 p \<or> is_recording_mp4 p"
          "is_managed_clip env fs p \<or> (case incl of None \<Rightarrow> False | Some a \<Rightarrow> same_path env fs p a)" using 3 by blast+
        note eq = collect_entries_clip [OF 3(1) kinds Inr [unfolded FileNode], of ps clips]
        show ?thesis
        proof (cases "if is_recording_mp4 p then Inr ([], 0) else clip_sidecars env fs p")
          case (Inl e)
          show ?thesis by (rule stop) (use eq in \<open>simp only: Inl sum.case\<close>)
        next
          case (Inr y)
          obtain sidecars k where y: "y = (sidecars, k)" by (cases y)
          show ?thesis by (rule add [rotated]) (use eq in \<open>simp only: Inr y sum.case prod.case\<close>, simp)
        qed
      next
        case DirNode
        then have "collect_entries env fs incl (p # ps) clips = collect_entries env fs incl ps clips"
          using 3 Inr by (simp only: collect_entries.simps simp_thms if_False sum.case node.case)
        then show ?thesis by (rule skip)
      next
        case LinkNode
        then have "collect_entries env fs incl (p # ps) clips = collect_entries env fs incl ps clips"
          using 3 Inr by (simp only: collect_entries.simps simp_thms if_False sum.case node.case)
        then show ?thesis by (rule skip)
      qed
    qed
  qed
qed

lemma collect_entries_paths:
  "collect_entries env fs incl ps clips = (clips', r) \<Longrightarrow>
     \<exists>new. clips' = clips @ new \<and> set (map cf_path new) \<subseteq> set ps \<and> (distinct ps \<longrightarrow> distinct (map cf_path new))"
proof (induction ps arbitrary: clips)
  case (Cons p ps)
  show ?case
  proof (cases rule: collect_entries_step [of env fs incl p ps clips])
    case (stop r')
    with Cons.prems show ?thesis by simp
  next
    case skip
    with Cons.prems Cons.IH [of clips] show ?thesis by (metis distinct.simps(2) list.set_intros(2) subset_iff)
  next
    case (add c)
    with Cons.prems Cons.IH [of "clips @ [c]"] obtain new where
      "clips' = clips @ c # new" "set (map cf_path new) \<subseteq> set ps" "distinct ps \<longrightarrow> distinct (map cf_path new)" by auto
    with add(1) show ?thesis by (intro exI [of _ "c # new"]) auto
  qed
qed simp

lemma distinct_entries: "distinct (map fst fs) \<Longrightarrow> distinct (entries_of fs d)"
  unfolding entries_of_def by (rule distinct_map_filter)

text \<open>Every visited directory adds clips of its own.\<close>

lemma visit_entries_distinct:
  assumes "visit_entries env (\<lambda>_. fs) (collect_clips env fs incl) ps clips = (clips', r)" "distinct (map fst fs)" "distinct ps"
    "distinct (map cf_path clips)" "\<forall>c \<in> set clips. butlast (cf_path c) \<notin> set ps"
  shows "distinct (map cf_path clips')"
  using assms
proof (induction ps arbitrary: clips)
  case (Cons p ps)
  show ?case
  proof (cases "ev_entry env p \<and> lstat env fs p = Inr DirNode")
    case True
    obtain clips1 r1 where c: "collect_clips env fs incl p clips = (clips1, r1)" by (cases "collect_clips env fs incl p clips")
    have "\<exists>new. clips1 = clips @ new \<and> set (map cf_path new) \<subseteq> set (entries_of fs p) \<and> distinct (map cf_path new)"
    proof (cases "read_dir env fs p")
      case (Inl e)
      with c show ?thesis by (simp add: collect_clips_def)
    next
      case (Inr es)
      with c collect_entries_paths [of env fs incl es clips clips1 r1] read_dir_entries [OF Inr] distinct_entries [OF Cons.prems(2)]
      show ?thesis by (auto simp: collect_clips_def)
    qed
    then obtain new where new: "clips1 = clips @ new" "set (map cf_path new) \<subseteq> set (entries_of fs p)" "distinct (map cf_path new)" by blast
    then have in_p: "\<forall>c \<in> set new. butlast (cf_path c) = p" using entries_of_in by fastforce
    have "distinct (map cf_path clips1)"
      using new(1,3) in_p Cons.prems(4,5) by auto
    moreover have "\<forall>c \<in> set clips1. butlast (cf_path c) \<notin> set ps"
      using new(1) in_p Cons.prems(3,5) by auto
    ultimately show ?thesis
      using Cons.IH [of clips1] Cons.prems(1-3) True c by (cases r1) auto
  next
    case False
    with Cons show ?thesis by (auto split: if_splits)
  qed
qed simp

lemma inventory_distinct:
  assumes "inventory env fs dir incl = Inr clips" "distinct (map fst fs)"
  shows "distinct (map cf_path clips)"
proof -
  obtain clips1 r1 where c: "collect_clips env fs incl dir [] = (clips1, r1)" by (cases "collect_clips env fs incl dir []")
  have r1: "r1 = Inr ()"
    using assms(1) c by (cases r1) (auto simp: inventory_def visit_media_dirs_def)
  obtain es where es: "read_dir env fs dir = Inr es" "visit_entries env (\<lambda>_. fs) (collect_clips env fs incl) es clips1 = (clips, Inr ())"
    using assms(1) c r1 by (auto simp: inventory_def visit_media_dirs_def split: sum.splits prod.splits)
  have e: "es = entries_of fs dir" using read_dir_entries [OF es(1)] .
  have new: "set (map cf_path clips1) \<subseteq> set es \<and> distinct (map cf_path clips1)"
    using collect_entries_paths [of env fs incl es "[]" clips1 r1] c es(1) distinct_entries [OF assms(2), of dir] e
    by (auto simp: collect_clips_def)
  have "butlast (cf_path c) \<notin> set es" if "c \<in> set clips1" for c
  proof
    assume "butlast (cf_path c) \<in> set es"
    then have "butlast (butlast (cf_path c)) = dir" "butlast (cf_path c) \<noteq> []" using entries_of_in e by blast+
    moreover have "butlast (cf_path c) = dir" using that new entries_of_in e by fastforce
    ultimately show False by (metis append_butlast_last_id length_append_singleton n_not_Suc_n)
  qed
  with visit_entries_distinct [OF es(2) assms(2)] distinct_entries [OF assms(2)] e new show ?thesis by blast
qed

section \<open>The order of collection\<close>

lemma char_eq_code: "(of_char c :: nat) = of_char d \<longleftrightarrow> c = d"
  by (metis char_of_char)

lemma bytes_le_total: "bytes_le a b \<or> bytes_le b a"
proof (induction a b rule: bytes_le.induct)
  case (3 c cs d ds)
  then show ?case using char_eq_code [of c d] by (cases "(of_char c :: nat)" "(of_char d :: nat)" rule: linorder_cases) auto
qed auto

lemma bytes_le_trans: "bytes_le a b \<Longrightarrow> bytes_le b c \<Longrightarrow> bytes_le a c"
proof (induction a b arbitrary: c rule: bytes_le.induct)
  case (3 x xs y ys)
  then obtain z zs where c: "c = z # zs" by (cases c) auto
  then show ?case using 3 by (auto split: if_splits)
qed auto

lemma name_le_total: "name_le a b \<or> name_le b a"
  using bytes_le_total by (auto simp: name_le_def split: option.splits)

lemma name_le_trans: "name_le a b \<Longrightarrow> name_le b c \<Longrightarrow> name_le a c"
  using bytes_le_trans by (auto simp: name_le_def split: option.splits)

lemma older_sorts: "sorted_wrt older (sort_by older clips)"
proof (rule sorted_sort_by)
  fix a b c
  assume "older a b" "older b c"
  then show "older a c"
    using name_le_trans by (auto simp: older_def split: if_splits)
next
  fix a b
  show "older a b \<or> older b a" using name_le_total by (auto simp: older_def)
qed

lemma older_first: "sorted_wrt (\<lambda>a b. cf_modified a \<le> cf_modified b) (filter P (sort_by older clips))"
  by (rule sorted_wrt_filter, rule sorted_wrt_mono_rel [OF _ older_sorts]) (auto simp: older_def split: if_splits)

section \<open>A sample library\<close>

definition library_env :: fs_env where
  "library_env = \<lparr>ev_follow = (\<lambda>_. None), ev_canon = (\<lambda>_ p. Some p), ev_stat = (\<lambda>_. True), ev_list = (\<lambda>_. True),
     ev_entry = (\<lambda>_. True), ev_remove = (\<lambda>_. True), ev_create = (\<lambda>_. True), ev_write = (\<lambda>_. True),
     ev_move = (\<lambda>_ _. True), ev_now = 9, ev_now_nanos = 9000000000\<rparr>"

definition sample_library :: fs where
  "sample_library = [([''m''], DirNode), ([''m'', ''clip_200000000.mp4''], FileNode [1, 2, 3, 4] 2),
     ([''m'', ''notes.mp4''], FileNode [7, 7, 7, 7, 7, 7, 7, 7, 7] 0),
     ([''m'', ''clip_100000000.mp4''], FileNode [1, 2, 3] 1)]"

lemma sample_mp4: "is_mp4 [''m'', ''clip_100000000.mp4'']" "is_mp4 [''m'', ''clip_200000000.mp4'']" "is_mp4 [''m'', ''notes.mp4'']"
  "\<not> is_mp4 [''m'']" by (simp_all add: name_eval)
lemma sample_not_recording: "\<not> is_recording_mp4 [''m'', ''clip_100000000.mp4'']" "\<not> is_recording_mp4 [''m'', ''clip_200000000.mp4'']" "\<not> is_recording_mp4 [''m'', ''notes.mp4'']"
  "\<not> is_recording_mp4 [''m'']" by (simp_all add: name_eval)
lemma sample_generated: "is_legacy_generated_clip [''m'', ''clip_100000000.mp4'']" "is_legacy_generated_clip [''m'', ''clip_200000000.mp4'']"
  "\<not> is_legacy_generated_clip [''m'', ''notes.mp4'']" by (simp_all add: name_eval)
lemma sample_extension: "with_extension [''m'', ''clip_100000000.mp4''] e = [''m'', ''clip_100000000'' @ (if e = [] then [] else CHR ''.'' # e)]"
 "with_extension [''m'', ''clip_200000000.mp4''] e = [''m'', ''clip_200000000'' @ (if e = [] then [] else CHR ''.'' # e)]" 
 "with_extension [''m'', ''notes.mp4''] e = [''m'', ''notes'' @ (if e = [] then [] else CHR ''.'' # e)]" by (simp_all add: name_eval)
lemmas fs_eval = is_managed_clip_def clip_ownership_marker_path_def is_file_def stat_def lstat_def node_at_def
lemma sample_managed: "is_managed_clip library_env sample_library [''m'', ''clip_100000000.mp4'']" "is_managed_clip library_env sample_library [''m'', ''clip_200000000.mp4'']"
  "\<not> is_managed_clip library_env sample_library [''m'', ''notes.mp4'']"
  by (simp_all add: fs_eval sample_mp4 sample_not_recording sample_generated sample_extension library_env_def sample_library_def)
lemma sample_inventory: "inventory library_env sample_library [''m''] None = Inr [\<lparr>cf_path = [''m'', ''clip_200000000.mp4''], cf_sidecars = [], cf_mp4_bytes = 4, cf_sidecar_bytes = 0,
     cf_modified = 2, cf_recording = False\<rparr>, \<lparr>cf_path = [''m'', ''clip_100000000.mp4''], cf_sidecars = [], cf_mp4_bytes = 3, cf_sidecar_bytes = 0,
     cf_modified = 1, cf_recording = False\<rparr>]"
proof -
  have e: "read_dir library_env sample_library [''m''] = Inr [[''m'', ''clip_200000000.mp4''], [''m'', ''notes.mp4''], [''m'', ''clip_100000000.mp4'']]"
    by (simp add: read_dir_def stat_def lstat_def node_at_def library_env_def sample_library_def entries_of_def)
  have s: "clip_sidecars library_env sample_library [''m'', ''clip_100000000.mp4''] = Inr ([], 0)"
    "clip_sidecars library_env sample_library [''m'', ''clip_200000000.mp4''] = Inr ([], 0)"
    by (simp_all add: clip_sidecars_def sidecar_candidates_def sidecar_path_def clip_metadata_path_def osu_pending_path_def poster_path_def sample_extension
      optional_file_len_def path_exists_def stat_def lstat_def node_at_def sample_library_def)
  have l: "lstat library_env sample_library [''m'', ''clip_200000000.mp4''] = Inr (FileNode [1, 2, 3, 4] 2)"
     "lstat library_env sample_library [''m'', ''clip_100000000.mp4''] = Inr (FileNode [1, 2, 3] 1)"
     "lstat library_env sample_library [''m'', ''notes.mp4''] = Inr (FileNode [7, 7, 7, 7, 7, 7, 7, 7, 7] 0)"
    by (simp_all add: lstat_def node_at_def sample_library_def library_env_def)
  have v: "ev_entry library_env p" for p by (simp add: library_env_def)
  show ?thesis
    by (simp add: inventory_def visit_media_dirs_def collect_clips_def e sample_mp4 sample_not_recording sample_managed s l v)
qed

text \<open>With a quota of five bytes the older clip goes and the newer one stays, as does the file of the user.\<close>

lemma library_run:
  "enforce_quota_with_protection library_env (\<lambda>_ _. False) (\<lambda>_ g. g) [''m''] (Some 5) None sample_library
     = (without sample_library [''m'', ''clip_100000000.mp4''],
        map_sum id (\<lambda>after. \<lparr>gc_deleted_clips = 1, gc_freed_bytes = 3, gc_status = status_from_clips after (Some 5)\<rparr>)
          (inventory library_env (without sample_library [''m'', ''clip_100000000.mp4'']) [''m''] None))"
proof -
  have within: "is_within_media_root library_env g (''m'' # p) [''m'']" for g p
    by (simp add: is_within_media_root_def path_starts_with_def library_env_def)
  have rm: "remove_file library_env sample_library [''m'', ''clip_100000000.mp4''] = (without sample_library [''m'', ''clip_100000000.mp4''], Inr ())"
    by (simp add: remove_file_def node_at_def sample_library_def library_env_def)
  have del: "delete_inventoried_clip library_env (\<lambda>_. False) [''m''] \<lparr>cf_path = [''m'', ''clip_100000000.mp4''], cf_sidecars = [],
       cf_mp4_bytes = 3, cf_sidecar_bytes = 0, cf_modified = 1, cf_recording = False\<rparr> sample_library
     = (without sample_library [''m'', ''clip_100000000.mp4''], Inr Removed)"
    by (simp add: delete_inventoried_clip_def within rm remove_sidecars_def remove_empty_session_def path_parent_def)
  show ?thesis
    by (simp add: enforce_quota_with_protection_def sample_inventory sort_by_def older_def total_bytes_def sum_u64_def can_delete_def del [simplified])
qed

section \<open>Quota\<close>

text \<open>
  C3: quota collection never touches a file it does not own.  Whatever other programs do to the rest
  of the tree meanwhile, whatever the system refuses and whatever is leased: if a file, a folder or
  a link that the others leave alone is different afterwards, then it is a clip directly in the media
  folder or in one of its subfolders that is no link, an MP4 that is not being recorded, that
  Clipline owns (or that was an alias of the protected clip when the collection began), is not
  protected and not leased; or it is a sidecar of such a clip, or the session folder of such a clip
  or that folder's description.
\<close>

theorem quota_touches_only_owned_clips:
  assumes "enforce_quota_with_protection env leased meanwhile dir quota_bytes protect fs = (fs', r)"
    and "\<forall>p g. node_at (meanwhile p g) q = node_at g q" "node_at fs' q \<noteq> node_at fs q"
  shows "\<exists>p content t. p \<noteq> [] \<and> media_dir fs dir (butlast p) \<and> node_at fs p = Some (FileNode content t)
    \<and> is_mp4 p \<and> \<not> is_recording_mp4 p
    \<and> (is_managed_clip env fs p \<or> (\<exists>a. protect = Some a \<and> a \<noteq> p \<and> same_path env fs p a))
    \<and> \<not> leased Choosing p \<and> protect \<noteq> Some p
    \<and> (q = p \<or> q \<in> set (sidecar_candidates p)
        \<or> (butlast p \<noteq> dir \<and> (q = butlast p \<or> q = butlast p @ [session_meta_file])))"
  using assms by (rule enforced_quota_changes)

theorem quota_touches_only_owned_clips_witness:
  "is_managed_clip library_env sample_library [''m'', ''clip_100000000.mp4'']
   \<and> fst (enforce_quota_with_protection library_env (\<lambda>_ _. False) (\<lambda>_ g. g) [''m''] (Some 5) None sample_library)
     = [([''m''], DirNode), ([''m'', ''clip_200000000.mp4''], FileNode [1, 2, 3, 4] 2),
        ([''m'', ''notes.mp4''], FileNode [7, 7, 7, 7, 7, 7, 7, 7, 7] 0)]"
proof -
  let ?run = "enforce_quota_with_protection library_env (\<lambda>_ _. False) (\<lambda>_ g. g) [''m''] (Some 5) None sample_library"
  have run: "fst ?run = [([''m''], DirNode), ([''m'', ''clip_200000000.mp4''], FileNode [1, 2, 3, 4] 2),
        ([''m'', ''notes.mp4''], FileNode [7, 7, 7, 7, 7, 7, 7, 7, 7] 0)]"
    unfolding library_run by (simp add: without_def sample_library_def)
  have gone: "node_at (fst ?run) [''m'', ''clip_100000000.mp4''] \<noteq> node_at sample_library [''m'', ''clip_100000000.mp4'']"
    unfolding run by (simp add: node_at_def sample_library_def)
  obtain p content t where p: "is_mp4 p" "is_managed_clip library_env sample_library p" "media_dir sample_library [''m''] (butlast p)"
    "[''m'', ''clip_100000000.mp4''] = p \<or> [''m'', ''clip_100000000.mp4''] \<in> set (sidecar_candidates p)
     \<or> (butlast p \<noteq> [''m''] \<and> ([''m'', ''clip_100000000.mp4''] = butlast p \<or> [''m'', ''clip_100000000.mp4''] = butlast p @ [session_meta_file]))"
    using quota_touches_only_owned_clips [OF surjective_pairing _ gone] by auto
  have "[''m'', ''clip_100000000.mp4''] \<notin> set (sidecar_candidates p)" using sidecar_not_media p(1) sample_mp4(1) by blast
  moreover have "[''m'', ''clip_100000000.mp4''] \<noteq> butlast p"
  proof
    assume e: "[''m'', ''clip_100000000.mp4''] = butlast p"
    have "node_at sample_library [''m'', ''clip_100000000.mp4''] = Some (FileNode [1, 2, 3] 1)"
      by (simp add: node_at_def sample_library_def)
    with p(3) e show False by (auto simp: media_dir_def)
  qed
  ultimately have "p = [''m'', ''clip_100000000.mp4'']" using p(4) by (auto simp: session_meta_file_def)
  with p(2) run show ?thesis by simp
qed

text \<open>
  C2: quota collection frees enough and no more.  With nothing else touching the tree, names that
  keep their meaning and no removal refused: when what may not be deleted is over the quota by
  itself, nothing is deleted.  Otherwise the report counts the k oldest deletable clips and their
  bytes, exactly these videos are gone and every other video is as before, what is left fits the
  quota, and before each of the k deletions it did not.
\<close>

theorem quota_collects_oldest_first:
  assumes "inventory env fs dir protect = Inr clips" "distinct (map fst fs)"
    and "\<forall>g p. ev_canon env g p = canon p" "\<forall>p. ev_remove env p" "\<forall>m p. leased m p = lease p"
    and "\<forall>c \<in> set clips. \<forall>g. is_within_media_root env g (cf_path c) dir"
    and "sum_list (map total_bytes clips) < 2 ^ 64"
    and "(fs', r) = enforce_quota_with_protection env leased (\<lambda>_ g. g) dir (Some quota) protect fs"
  shows "if quota < sum_list (map total_bytes (filter (\<lambda>c. \<not> can_delete env fs protect lease c) clips))
    then fs' = fs \<and> r = Inr \<lparr>gc_deleted_clips = 0, gc_freed_bytes = 0, gc_status = status_from_clips clips (Some quota)\<rparr>
    else \<exists>k. let order = filter (can_delete env fs protect lease) (sort_by older clips);
                  freed = (\<lambda>j. sum_list (map total_bytes (take j order)));
                  all_bytes = sum_list (map total_bytes clips)
      in sorted_wrt (\<lambda>a b. cf_modified a \<le> cf_modified b) order \<and> k \<le> length order \<and> all_bytes - freed k \<le> quota \<and> (\<forall>j < k. quota < all_bytes - freed j)
        \<and> r = map_sum id (\<lambda>after. \<lparr>gc_deleted_clips = k, gc_freed_bytes = freed k,
              gc_status = status_from_clips after (Some quota)\<rparr>) (inventory env fs' dir protect)
        \<and> (\<forall>q content t. is_mp4 q \<or> is_recording_mp4 q \<longrightarrow> node_at fs q = Some (FileNode content t) \<longrightarrow>
              node_at fs' q = (if q \<in> cf_path ` set (take k order) then None else Some (FileNode content t)))"
proof -
  let ?can = "can_delete env fs protect lease"
  let ?order = "filter ?can (sort_by older clips)"
  let ?all = "sum_list (map total_bytes clips)"
  have l: "leased Planning = lease" using assms(5) by (simp add: fun_eq_iff)
  have mset: "sum_list (map total_bytes (filter P xs)) \<le> sum_list (map total_bytes xs)" for P and xs :: "clip_file list"
    by (induction xs) auto
  have kept: "sum_u64 (map total_bytes (filter (\<lambda>c. \<not> ?can c) clips)) = sum_list (map total_bytes (filter (\<lambda>c. \<not> ?can c) clips))"
    using le_less_trans [OF mset assms(7)] by (simp add: sum_u64_def)
  have all_: "sum_u64 (map total_bytes clips) = ?all" using assms(7) by (simp add: sum_u64_def)
  show ?thesis
  proof (cases "quota < sum_list (map total_bytes (filter (\<lambda>c. \<not> ?can c) clips))")
    case True
    with assms(1,8) l kept show ?thesis by (simp add: enforce_quota_with_protection_def)
  next
    case False
    have listed: "\<forall>c \<in> set (sort_by older clips). listed_clip env fs dir protect c" using inventory_listed [OF assms(1)] by simp
    then have here: "\<forall>c \<in> set (sort_by older clips). \<exists>content t. node_at fs (cf_path c) = Some (FileNode content t)"
      by (auto simp: listed_clip_def)
    have dist: "distinct (map cf_path (sort_by older clips))"
      using inventory_distinct [OF assms(1,2)] mset_sort_by [of older clips] by (metis mset_eq_imp_distinct_iff mset_map)
    have inside: "\<forall>c \<in> set (sort_by older clips). \<forall>g. is_within_media_root env g (cf_path c) dir" using assms(6) by simp
    let ?D = "oldest_first quota ?all ?order"
    obtain g where g: "collect_garbage env leased protect (\<lambda>_ g. g) dir quota (sort_by older clips) ?all 0 0 fs
        = (g, Inr (0 + length ?D, (0 + sum_list (map total_bytes ?D)) mod 2 ^ 64))"
      and media: "\<forall>q. is_mp4 q \<or> is_recording_mp4 q \<longrightarrow> (\<exists>content t. node_at fs q = Some (FileNode content t)) \<longrightarrow>
        node_at g q = (if q \<in> cf_path ` set ?D then None else node_at fs q)"
      using quiet_collection [where canon = canon and lease = lease and leased = leased and env = env and dir = dir
          and protect = protect and quota = quota and used = ?all and cs = "sort_by older clips" and freed = 0 and n = 0 and fs = fs and fs0 = fs,
          OF spec [OF spec [OF assms(3)]] spec [OF assms(4)] spec [OF spec [OF assms(5)]] listed dist here inside] by auto
    obtain k where k: "k \<le> length ?order" "?D = take k ?order"
      "\<forall>j < k. quota < ?all - sum_list (map total_bytes (take j ?order))"
      "k = length ?order \<or> ?all - sum_list (map total_bytes (take k ?order)) \<le> quota"
      using oldest_first_prefix [of ?order quota ?all] by blast
    have split_: "?all = sum_list (map total_bytes ?order) + sum_list (map total_bytes (filter (\<lambda>c. \<not> ?can c) clips))"
    proof -
      have "sum_list (map total_bytes ?order) = sum_mset (image_mset total_bytes (filter_mset ?can (mset clips)))"
        by (metis mset_filter mset_map mset_sort_by sum_mset_sum_list)
      moreover have "sum_list (map total_bytes (filter (\<lambda>c. \<not> ?can c) clips))
          = sum_mset (image_mset total_bytes (filter_mset (\<lambda>c. \<not> ?can c) (mset clips)))"
        by (metis mset_filter mset_map sum_mset_sum_list)
      moreover have "?all = sum_mset (image_mset total_bytes (mset clips))" by (metis mset_map sum_mset_sum_list)
      ultimately show ?thesis by (metis image_mset_union multiset_partition sum_mset.union)
    qed
    have fits: "?all - sum_list (map total_bytes (take k ?order)) \<le> quota" using k(4) split_ False by auto
    have "sum_list (map total_bytes (take k ?order)) \<le> ?all"
      using sum_list_take_le [of k "map total_bytes ?order"] split_ by (simp add: take_map)
    then have small: "sum_list (map total_bytes (take k ?order)) mod 2 ^ 64 = sum_list (map total_bytes (take k ?order))"
      using assms(7) by simp
    have e: "(fs', r) = (g, map_sum id (\<lambda>after. \<lparr>gc_deleted_clips = k, gc_freed_bytes = sum_list (map total_bytes (take k ?order)),
        gc_status = status_from_clips after (Some quota)\<rparr>) (inventory env g dir protect))"
      using assms(1,8) l kept all_ False g k(1,2) small
      by (simp add: enforce_quota_with_protection_def min_absorb2)
    have "\<forall>q content t. is_mp4 q \<or> is_recording_mp4 q \<longrightarrow> node_at fs q = Some (FileNode content t) \<longrightarrow>
              node_at g q = (if q \<in> cf_path ` set (take k ?order) then None else Some (FileNode content t))"
      using media k(2) by auto
    with e fits k(1,3) False show ?thesis by (auto simp: Let_def older_first intro!: exI [of _ k])
  qed
qed

theorem quota_collects_oldest_first_witness:
  "\<exists>k. k \<le> 2 \<and> (7::nat) - sum_list (take k [3, 4]) \<le> 5 \<and> (\<forall>j < k. (5::nat) < 7 - sum_list (take j [3, 4]))
    \<and> (\<forall>q content t. is_mp4 q \<longrightarrow> node_at sample_library q = Some (FileNode content t) \<longrightarrow>
        node_at (fst (enforce_quota_with_protection library_env (\<lambda>_ _. False) (\<lambda>_ g. g) [''m''] (Some 5) None sample_library)) q
          = (if q \<in> set (take k [[''m'', ''clip_100000000.mp4''], [''m'', ''clip_200000000.mp4'']]) then None
             else Some (FileNode content t)))"
proof -
  let ?run = "enforce_quota_with_protection library_env (\<lambda>_ _. False) (\<lambda>_ g. g) [''m''] (Some 5) None sample_library"
  let ?new = "\<lparr>cf_path = [''m'', ''clip_200000000.mp4''], cf_sidecars = [], cf_mp4_bytes = 4, cf_sidecar_bytes = 0, cf_modified = 2, cf_recording = False\<rparr>"
  let ?old = "\<lparr>cf_path = [''m'', ''clip_100000000.mp4''], cf_sidecars = [], cf_mp4_bytes = 3, cf_sidecar_bytes = 0, cf_modified = 1, cf_recording = False\<rparr>"
  have within: "\<forall>c \<in> set [?new, ?old]. \<forall>g. is_within_media_root library_env g (cf_path c) [''m'']"
    by (simp add: is_within_media_root_def path_starts_with_def library_env_def)
  have dist: "distinct (map fst sample_library)" by (simp add: sample_library_def)
  have env: "\<forall>g p. ev_canon library_env g p = Some p" "\<forall>p. ev_remove library_env p" by (simp_all add: library_env_def)
  have small: "sum_list (map total_bytes [?new, ?old]) < 2 ^ 64" by (simp add: total_bytes_def)
  have order: "filter (can_delete library_env sample_library None (\<lambda>_. False)) (sort_by older [?new, ?old]) = [?old, ?new]"
    by (simp add: can_delete_def sort_by_def older_def)
  have kept: "filter (\<lambda>c. \<not> can_delete library_env sample_library None (\<lambda>_. False) c) [?new, ?old] = []"
    by (simp add: can_delete_def)
  obtain k where k: "k \<le> length [?old, ?new]"
    "sum_list (map total_bytes [?new, ?old]) - sum_list (map total_bytes (take k [?old, ?new])) \<le> 5"
    "\<forall>j < k. 5 < sum_list (map total_bytes [?new, ?old]) - sum_list (map total_bytes (take j [?old, ?new]))"
    "\<forall>q content t. is_mp4 q \<or> is_recording_mp4 q \<longrightarrow> node_at sample_library q = Some (FileNode content t) \<longrightarrow>
        node_at (fst ?run) q = (if q \<in> cf_path ` set (take k [?old, ?new]) then None else Some (FileNode content t))"
    using quota_collects_oldest_first [OF sample_inventory dist env _ within small, of "\<lambda>_ _. False" "\<lambda>_. False" "fst ?run" "snd ?run" 5,
      unfolded order kept Let_def] by auto
  have e: "map total_bytes [?old, ?new] = [3, 4]" "map cf_path [?old, ?new] = [[''m'', ''clip_100000000.mp4''], [''m'', ''clip_200000000.mp4'']]"
    "sum_list (map total_bytes [?new, ?old]) = 7" by (simp_all add: total_bytes_def)
  have s: "cf_path ` set (take k [?old, ?new]) = set (take k [[''m'', ''clip_100000000.mp4''], [''m'', ''clip_200000000.mp4'']])"
    unfolding e(2) [symmetric] take_map by simp
  show ?thesis
    using k unfolding s take_map [symmetric] e by (intro exI [of _ k]) (simp only: list.size simp_thms; auto)
qed

section \<open>Recovery\<close>

text \<open>
  C4: recovery loses no video.  After a successful recovery every video of the library that is not
  empty, finished or not, is still there with its content and its time, possibly under a new name,
  and no two of them have become one, even where a finished recording already has the name; provided
  the system answers for every path and no recording needed the unchecked name of last resort.
\<close>

theorem recovery_keeps_every_video:
  assumes "recover_recording_files env dir fs = (fs', Inr report)" "\<forall>p. ev_stat env p"
    and "\<forall>p \<in> set (rp_recovered report). \<not> clock_named env p"
  shows "\<exists>moved. inj_on moved (videos fs) \<and> (\<forall>p \<in> videos fs. moved p \<in> videos fs' \<and> node_at fs' (moved p) = node_at fs p)"
  using recover_recording_files_recovers [OF assms(1,2)] assms(3) by (simp add: recovers_def keeps_videos_def)

definition unfinished_library :: fs where
  "unfinished_library = [([''m''], DirNode), ([''m'', ''clip_100000000.mp4.recording''], FileNode [1, 2, 3] 2)]"

lemma unfinished_run:
  "recover_recording_files library_env [''m''] unfinished_library =
     ([([''m''], DirNode), ([''m'', ''clip_100000000.clipline.json''], FileNode [0x7B, 0x7D] 9),
       ([''m'', ''clip_100000000.mp4''], FileNode [1, 2, 3] 2)],
      Inr \<lparr>rp_recovered = [[''m'', ''clip_100000000.mp4'']], rp_deleted_empty = 0\<rparr>)"
proof -
  let ?p = "[''m'', ''clip_100000000.mp4.recording'']"
  let ?c = "[''m'', ''clip_100000000.mp4'']"
  let ?k = "[''m'', ''clip_100000000.clipline.json'']"
  let ?fs1 = "unfinished_library @ [(?k, FileNode [0x7B, 0x7D] 9)]"
  have rec: "is_recording_mp4 ?p" "recording_final_path ?p = Some ?c" "\<not> is_recording_mp4 ?c"
    by (simp_all add: name_eval recording_final_path_def with_file_name_def)
  have gen: "is_legacy_generated_clip ?p" by (simp add: is_legacy_generated_clip_def rec) (simp add: name_eval)
  have marker: "clip_ownership_marker_path ?p = Inr ?k" "clip_ownership_marker_path ?c = Inr ?k"
    by (simp_all add: clip_ownership_marker_path_def rec sample_mp4 sample_extension)
  have owned: "is_managed_clip library_env unfinished_library ?p" by (simp add: is_managed_clip_def marker rec gen)
  have node: "lstat library_env unfinished_library ?p = Inr (FileNode [1, 2, 3] 2)" "\<not> is_file library_env unfinished_library ?k"
    by (simp_all add: is_file_def stat_def lstat_def node_at_def unfinished_library_def library_env_def)
  have own: "ensure_clip_owned library_env unfinished_library ?p = (?fs1, Inr True)"
    by (simp add: ensure_clip_owned_def marker create_new_def write_all_to_def placed_def without_def node_at_def
        unfinished_library_def library_env_def)
  have dest: "unique_recovered_path library_env ?fs1 ?c ?k = ?c"
    by (simp add: unique_recovered_path_def recovery_destination_available_def marker path_exists_def stat_def lstat_def node_at_def
        unfinished_library_def)
  have mv: "rename_file library_env ?fs1 ?p ?c = (([''m''], DirNode) # (?k, FileNode [0x7B, 0x7D] 9) # [(?c, FileNode [1, 2, 3] 2)], Inr ())"
    by (simp add: rename_file_def node_at_def placed_def without_def unfinished_library_def library_env_def)
  have entry: "recover_entry library_env ?p (unfinished_library, \<lparr>rp_recovered = [], rp_deleted_empty = 0\<rparr>)
     = ((([''m''], DirNode) # (?k, FileNode [0x7B, 0x7D] 9) # [(?c, FileNode [1, 2, 3] 2)],
         \<lparr>rp_recovered = [?c], rp_deleted_empty = 0\<rparr>), Inr ())"
    by (simp add: recover_entry_def rec owned node marker own recover_content_def dest move_recording_def mv Let_def)
  have dir: "read_dir library_env unfinished_library [''m''] = Inr [?p]"
    "read_dir library_env (([''m''], DirNode) # (?k, FileNode [0x7B, 0x7D] 9) # [(?c, FileNode [1, 2, 3] 2)]) [''m''] = Inr [?k, ?c]"
    by (simp_all add: read_dir_def stat_def lstat_def node_at_def entries_of_def unfinished_library_def library_env_def)
  have v: "ev_entry library_env p" for p by (simp add: library_env_def)
  have kinds: "lstat library_env (([''m''], DirNode) # (?k, FileNode [0x7B, 0x7D] 9) # [(?c, FileNode [1, 2, 3] 2)]) ?k \<noteq> Inr DirNode"
    "lstat library_env (([''m''], DirNode) # (?k, FileNode [0x7B, 0x7D] 9) # [(?c, FileNode [1, 2, 3] 2)]) ?c \<noteq> Inr DirNode"
    by (simp_all add: lstat_def node_at_def)
  have first: "recover_dir library_env [''m''] (unfinished_library, \<lparr>rp_recovered = [], rp_deleted_empty = 0\<rparr>)
     = ((([''m''], DirNode) # (?k, FileNode [0x7B, 0x7D] 9) # [(?c, FileNode [1, 2, 3] 2)],
         \<lparr>rp_recovered = [?c], rp_deleted_empty = 0\<rparr>), Inr ())"
    by (simp add: recover_dir_def dir v entry)
  show ?thesis
    by (simp add: recover_recording_files_def visit_media_dirs_def first dir v kinds)
qed

theorem recovery_keeps_every_video_witness:
  "\<exists>moved. moved [''m'', ''clip_100000000.mp4.recording''] = [''m'', ''clip_100000000.mp4'']
     \<and> inj_on moved (videos unfinished_library)"
proof -
  let ?p = "[''m'', ''clip_100000000.mp4.recording'']"
  have p: "?p \<in> videos unfinished_library"
    by (simp add: videos_def video_path_def is_recording_mp4_def name_eval unfinished_library_def node_at_def)
  have stat: "\<forall>p. ev_stat library_env p" by (simp add: library_env_def)
  have "CHR ''v'' \<in> set (last p)" if "clock_named library_env p" for p using that by (auto simp: clock_named_def)
  from this [of "[''m'', ''clip_100000000.mp4'']"] have plain: "\<not> clock_named library_env [''m'', ''clip_100000000.mp4'']" by auto
  obtain moved where moved: "inj_on moved (videos unfinished_library)"
    "moved ?p \<in> videos (fst (recover_recording_files library_env [''m''] unfinished_library))"
    using recovery_keeps_every_video [OF unfinished_run] p stat plain by (auto simp: unfinished_run)
  have "\<not> video_path [''m'', ''clip_100000000.clipline.json'']"
    by (simp add: video_path_def name_eval)
  with moved(2) have "moved ?p = [''m'', ''clip_100000000.mp4'']"
    unfolding unfinished_run by (auto simp: videos_def node_at_def split: if_splits)
  with moved(1) show ?thesis by blast
qed

end
