(* ===== verification/Match_Poller.thy ===== *)
theory Match_Poller
  imports Lol_Normalize Markers Storage
begin

text \<open>
  The League event source of the application (apps/clipline-app/src/markers.rs): match boundaries,
  queue lookups and one turn of the polling loop, and the part of the recorder service
  (service.rs) that receives its messages.
\<close>

section \<open>Match lifecycle\<close>

datatype match_boundary = MatchStarts | MatchEnds

record poll_decision =
  pd_before_events :: "match_boundary list"
  pd_end_after_events :: bool

record match_lifecycle =
  mc_observed_match :: bool
  mc_match_active :: bool
  mc_consecutive_failures :: nat

definition lifecycle_default :: match_lifecycle where
  "lifecycle_default = \<lparr>mc_observed_match = False, mc_match_active = False, mc_consecutive_failures = 0\<rparr>"

definition match_absence_failures :: nat where
  "match_absence_failures = 6"

definition poll_succeeded :: "match_lifecycle \<Rightarrow> bool \<Rightarrow> bool \<Rightarrow> match_lifecycle \<times> poll_decision" where
  "poll_succeeded l new_match has_game_end =
     (let l0 = l\<lparr>mc_consecutive_failures := 0\<rparr>;
          (l1, before) =
            (if \<not> mc_observed_match l0 then (l0\<lparr>mc_observed_match := True, mc_match_active := True\<rparr>, [MatchStarts])
             else if new_match then (l0\<lparr>mc_match_active := True\<rparr>,
               (if mc_match_active l0 then [MatchEnds] else []) @ [MatchStarts])
             else (l0, []))
      in if has_game_end \<and> mc_match_active l1
         then (l1\<lparr>mc_match_active := False\<rparr>, \<lparr>pd_before_events = before, pd_end_after_events = True\<rparr>)
         else (l1, \<lparr>pd_before_events = before, pd_end_after_events = False\<rparr>))"

definition poll_failed :: "match_lifecycle \<Rightarrow> match_lifecycle \<times> match_boundary option" where
  "poll_failed l =
     (let l1 = l\<lparr>mc_consecutive_failures := min (mc_consecutive_failures l + 1) (2 ^ 32 - 1)\<rparr>
      in if mc_match_active l1 \<and> mc_consecutive_failures l1 = match_absence_failures
         then (l1\<lparr>mc_match_active := False\<rparr>, Some MatchEnds) else (l1, None))"

definition failure_backoff :: "nat \<Rightarrow> nat" where
  "failure_backoff consecutive_failures = min (2 ^ min (consecutive_failures - 1) 3) 5"

section \<open>Queue lookups\<close>

record queue_lookup_state =
  ql_generation :: u64
  ql_attempts :: nat
  ql_in_flight :: bool
  ql_resolved :: bool

definition lookup_default :: queue_lookup_state where
  "lookup_default = \<lparr>ql_generation = 0, ql_attempts = 0, ql_in_flight = False, ql_resolved = False\<rparr>"

definition max_queue_lookup_attempts :: nat where
  "max_queue_lookup_attempts = 5"

definition lookup_reset :: "queue_lookup_state \<Rightarrow> queue_lookup_state" where
  "lookup_reset q = \<lparr>ql_generation = ql_generation q + 1, ql_attempts = 0, ql_in_flight = False, ql_resolved = False\<rparr>"

definition lookup_begin :: "queue_lookup_state \<Rightarrow> queue_lookup_state \<times> u64 option" where
  "lookup_begin q = (if ql_resolved q \<or> ql_in_flight q \<or> max_queue_lookup_attempts \<le> ql_attempts q then (q, None)
     else (q\<lparr>ql_attempts := ql_attempts q + 1, ql_in_flight := True\<rparr>, Some (ql_generation q)))"

definition lookup_complete :: "queue_lookup_state \<Rightarrow> u64 \<Rightarrow> bool \<Rightarrow> queue_lookup_state \<times> bool" where
  "lookup_complete q generation success =
     (if generation \<noteq> ql_generation q \<or> \<not> ql_in_flight q then (q, False)
      else (q\<lparr>ql_in_flight := False, ql_resolved := ql_resolved q \<or> success\<rparr>, success))"

section \<open>Messages\<close>

datatype poller_msg = EventMsg game_event | PlayerSummaryMsg player_summary | QueueMsg league_queue
  | MatchStartedMsg | MatchEndedMsg | HeartbeatMsg

definition boundary_message :: "match_boundary \<Rightarrow> poller_msg" where
  "boundary_message b = (case b of MatchStarts \<Rightarrow> MatchStartedMsg | MatchEnds \<Rightarrow> MatchEndedMsg)"

text \<open>
  A send fails once the receiver is gone: \<open>accepts n\<close> tells whether it is still there for the nth
  message.  The result says whether every message was taken.
\<close>

definition send_message :: "(nat \<Rightarrow> bool) \<Rightarrow> poller_msg list \<Rightarrow> poller_msg \<Rightarrow> poller_msg list \<times> bool" where
  "send_message accepts sent m = (if accepts (length sent) then (sent @ [m], True) else (sent, False))"

fun send_messages :: "(nat \<Rightarrow> bool) \<Rightarrow> poller_msg list \<Rightarrow> poller_msg list \<Rightarrow> poller_msg list \<times> bool" where
  "send_messages accepts sent [] = (sent, True)"
| "send_messages accepts sent (m # ms) = (case send_message accepts sent m of
       (sent', True) \<Rightarrow> send_messages accepts sent' ms
     | (sent', False) \<Rightarrow> (sent', False))"

text \<open>\<open>send_match_boundaries\<close> repeats a detected replay queue after every start.\<close>

definition match_boundaries :: "match_boundary list \<Rightarrow> league_queue option \<Rightarrow> poller_msg list" where
  "match_boundaries boundaries replay_queue = concat (map (\<lambda>b. boundary_message b #
     (case replay_queue of Some queue \<Rightarrow> if b = MatchStarts then [QueueMsg queue] else [] | None \<Rightarrow> [])) boundaries)"

section \<open>The polling loop\<close>

record poller =
  po_tracker :: event_tracker
  po_lifecycle :: match_lifecycle
  po_local_player :: "string option"
  po_queue_lookup :: queue_lookup_state

definition poller_new :: "league_queue option \<Rightarrow> poller" where
  "poller_new replay_queue = \<lparr>po_tracker = tracker_default, po_lifecycle = lifecycle_default, po_local_player = None,
     po_queue_lookup = lookup_default\<lparr>ql_resolved := replay_queue \<noteq> None\<rparr>\<rparr>"

text \<open>What one turn of the loop is answered: the finished lookups, then the requests to the client.\<close>

record turn_input =
  ti_results :: "(u64 \<times> (unit + league_queue)) list"
  ti_player_name :: "unit + string"
  ti_game_time :: "unit + f64"
  ti_sampled_at :: instant
  ti_data :: "unit + raw_event list"
  ti_summary :: "unit + player_summary option"

fun drain_results :: "bool \<Rightarrow> queue_lookup_state \<Rightarrow> (u64 \<times> (unit + league_queue)) list \<Rightarrow> queue_lookup_state \<times> poller_msg list" where
  "drain_results active q [] = (q, [])"
| "drain_results active q ((generation, Inr queue) # rs) =
     (let (q1, done) = lookup_complete q generation True;
          (q2, ms) = drain_results active q1 rs
      in (q2, (if done \<and> active then [QueueMsg queue] else []) @ ms))"
| "drain_results active q ((generation, Inl e) # rs) = drain_results active (fst (lookup_complete q generation False)) rs"

definition polled_batch ::
  "league_queue option \<Rightarrow> bool \<Rightarrow> unit + player_summary option \<Rightarrow> poll_batch \<Rightarrow> poller \<Rightarrow> poller \<times> poller_msg list \<times> u64 option" where
  "polled_batch replay_queue has_executable summary batch p =
     (let has_game_end = list_ex (\<lambda>e. ge_kind e = GameEnd) (pb_events batch);
          (l, decision) = poll_succeeded (po_lifecycle p) (pb_new_match batch) has_game_end;
          q1 = (if MatchStarts \<in> set (pd_before_events decision) \<and> replay_queue = None
                then lookup_reset (po_queue_lookup p) else po_queue_lookup p);
          (q2, lookup) = (if mc_match_active l \<and> has_executable then lookup_begin q1 else (q1, None))
      in (p\<lparr>po_lifecycle := l, po_queue_lookup := q2\<rparr>,
          match_boundaries (pd_before_events decision) replay_queue
          @ (case summary of Inr (Some s) \<Rightarrow> [PlayerSummaryMsg s] | _ \<Rightarrow> [])
          @ map EventMsg (pb_events batch)
          @ (if pd_end_after_events decision then [MatchEndedMsg] else []), lookup))"

definition missed_poll :: "poller \<Rightarrow> poller \<times> poller_msg list" where
  "missed_poll p =
     (let (l, boundary) = poll_failed (po_lifecycle p)
      in (p\<lparr>po_lifecycle := l, po_local_player :=
            (if match_absence_failures \<le> mc_consecutive_failures l then None else po_local_player p)\<rparr>,
          (case boundary of None \<Rightarrow> [] | Some b \<Rightarrow> [boundary_message b]) @ [HeartbeatMsg]))"

text \<open>
  A turn: its messages in order, the lookup it starts and the seconds it sleeps.  The requests name
  the player, then poll; without a player there is no poll.
\<close>

record turn_outcome =
  to_messages :: "poller_msg list"
  to_lookup :: "u64 option"
  to_sleep_s :: nat

definition poller_turn ::
  "text_ops \<Rightarrow> instant \<Rightarrow> league_queue option \<Rightarrow> bool \<Rightarrow> turn_input \<Rightarrow> poller \<Rightarrow> poller \<times> turn_outcome" where
  "poller_turn tx recording_t0 replay_queue has_executable input p =
     (let (q, drained) = drain_results (mc_match_active (po_lifecycle p)) (po_queue_lookup p) (ti_results input);
          p1 = p\<lparr>po_queue_lookup := q\<rparr>
      in case (case po_local_player p1 of Some name \<Rightarrow> Inr name | None \<Rightarrow> ti_player_name input) of
           Inl _ \<Rightarrow> (p1, \<lparr>to_messages = drained @ [HeartbeatMsg], to_lookup = None, to_sleep_s = 5\<rparr>)
         | Inr player \<Rightarrow>
             (let p2 = p1\<lparr>po_local_player := Some player\<rparr>
              in case poll_once_with_continuity tx (ti_game_time input) (ti_sampled_at input) (ti_data input)
                   (po_tracker p2) player recording_t0 (Fin 0) of
                   (t, Inr batch) \<Rightarrow>
                     (let (p3, ms, lookup) = polled_batch replay_queue has_executable (ti_summary input) batch (p2\<lparr>po_tracker := t\<rparr>)
                      in (p3, \<lparr>to_messages = drained @ ms, to_lookup = lookup, to_sleep_s = 1\<rparr>))
                 | (t, Inl _) \<Rightarrow>
                     (let (p3, ms) = missed_poll (p2\<lparr>po_tracker := t\<rparr>)
                      in (p3, \<lparr>to_messages = drained @ ms, to_lookup = None,
                              to_sleep_s = failure_backoff (mc_consecutive_failures (po_lifecycle p3))\<rparr>))))"

text \<open>The thread: the queue of a replay first, then turns until a message is not taken.\<close>

fun poller_turns ::
  "text_ops \<Rightarrow> instant \<Rightarrow> league_queue option \<Rightarrow> bool \<Rightarrow> (nat \<Rightarrow> bool) \<Rightarrow> turn_input list \<Rightarrow> poller \<Rightarrow> poller_msg list
     \<Rightarrow> poller \<times> poller_msg list \<times> bool" where
  "poller_turns tx t0 replay_queue exe accepts [] p sent = (p, sent, True)"
| "poller_turns tx t0 replay_queue exe accepts (i # is) p sent =
     (case poller_turn tx t0 replay_queue exe i p of
        (p', out) \<Rightarrow> (case send_messages accepts sent (to_messages out) of
            (sent', False) \<Rightarrow> (p', sent', False)
          | (sent', True) \<Rightarrow> poller_turns tx t0 replay_queue exe accepts is p' sent'))"

definition poller_run ::
  "text_ops \<Rightarrow> instant \<Rightarrow> league_queue option \<Rightarrow> bool \<Rightarrow> (nat \<Rightarrow> bool) \<Rightarrow> turn_input list \<Rightarrow> poller \<times> poller_msg list \<times> bool" where
  "poller_run tx t0 replay_queue exe accepts is =
     (case send_messages accepts [] (case replay_queue of None \<Rightarrow> [] | Some queue \<Rightarrow> [QueueMsg queue]) of
        (sent, False) \<Rightarrow> (poller_new replay_queue, sent, False)
      | (sent, True) \<Rightarrow> poller_turns tx t0 replay_queue exe accepts is (poller_new replay_queue) sent)"

section \<open>The receiving side\<close>

record player_summary_state =
  ps_in_match :: bool
  ps_active_replay :: "player_summary option"
  ps_full_session :: "player_summary option"

definition summary_state_default :: player_summary_state where
  "summary_state_default = \<lparr>ps_in_match = False, ps_active_replay = None, ps_full_session = None\<rparr>"

definition summary_match_started :: "player_summary_state \<Rightarrow> player_summary_state" where
  "summary_match_started s = \<lparr>ps_in_match = True, ps_active_replay = None, ps_full_session = None\<rparr>"

definition summary_update :: "player_summary_state \<Rightarrow> player_summary \<Rightarrow> player_summary_state" where
  "summary_update s summary =
     (let s1 = (if ps_in_match s then s\<lparr>ps_active_replay := Some summary\<rparr> else s)
      in if ps_in_match s1 \<or> ps_full_session s1 \<noteq> None then s1\<lparr>ps_full_session := Some summary\<rparr> else s1)"

definition summary_match_ended :: "player_summary_state \<Rightarrow> player_summary_state" where
  "summary_match_ended s = s\<lparr>ps_in_match := False, ps_active_replay := None\<rparr>"

definition active_replay_summary :: "player_summary_state \<Rightarrow> player_summary option" where
  "active_replay_summary s = ps_active_replay s"

definition full_session_player_summary :: "player_summary_state \<Rightarrow> player_summary option" where
  "full_session_player_summary s = (case ps_active_replay s of Some x \<Rightarrow> Some x | None \<Rightarrow> ps_full_session s)"

record match_view =
  mv_marker_log :: marker_log
  mv_player_summary :: player_summary_state
  mv_session :: session_tracker
  mv_league_queue :: "league_queue option"

definition match_view_new :: "string \<Rightarrow> match_view" where
  "match_view_new run_label = \<lparr>mv_marker_log = marker_log_new, mv_player_summary = summary_state_default,
     mv_session = session_tracker_new run_label, mv_league_queue = None\<rparr>"

text \<open>
  The message loop of the service.  \<open>label\<close> names the folder of a match that starts now; the session
  description that a queue message rewrites is the business of the folder, not of this state.
\<close>

definition handle_message :: "string \<Rightarrow> match_view \<Rightarrow> poller_msg \<Rightarrow> match_view" where
  "handle_message label v m = (case m of
       EventMsg event \<Rightarrow>
         (let v1 = (if ge_kind event = GameEnd
                    then v\<lparr>mv_player_summary := summary_match_ended (mv_player_summary v),
                           mv_session := match_ended (mv_session v), mv_league_queue := None\<rparr> else v)
          in if is_review_event event then v1\<lparr>mv_marker_log := log_push (mv_marker_log v1) event\<rparr> else v1)
     | PlayerSummaryMsg summary \<Rightarrow> v\<lparr>mv_player_summary := summary_update (mv_player_summary v) summary\<rparr>
     | QueueMsg queue \<Rightarrow> v\<lparr>mv_league_queue := Some queue\<rparr>
     | MatchStartedMsg \<Rightarrow> v\<lparr>mv_league_queue := None, mv_player_summary := summary_match_started (mv_player_summary v),
         mv_session := match_started (mv_session v) label\<rparr>
     | MatchEndedMsg \<Rightarrow> v\<lparr>mv_league_queue := None, mv_player_summary := summary_match_ended (mv_player_summary v),
         mv_session := match_ended (mv_session v)\<rparr>
     | HeartbeatMsg \<Rightarrow> v)"

text \<open>The service takes the messages one after another; the nth one meets the label \<open>labels n\<close>.\<close>

fun handle_messages :: "(nat \<Rightarrow> string) \<Rightarrow> nat \<Rightarrow> match_view \<Rightarrow> poller_msg list \<Rightarrow> match_view" where
  "handle_messages labels n v [] = v"
| "handle_messages labels n v (m # ms) = handle_messages labels (n + 1) (handle_message (labels n) v m) ms"

end
