(* ===== verification/Match_Poller_Correct.thy ===== *)
theory Match_Poller_Correct
  imports Match_Poller
begin

text \<open>
  What the poller promises: its boundaries alternate, the service is in a match exactly while the
  poller is, and an absent client ends the match.
\<close>

section \<open>Boundaries\<close>

text \<open>Starts and ends in turn; \<open>running\<close> tells whether a match runs at the front.\<close>

fun alternating :: "bool \<Rightarrow> poller_msg list \<Rightarrow> bool" where
  "alternating running [] = True"
| "alternating running (m # ms) = (case m of
       MatchStartedMsg \<Rightarrow> \<not> running \<and> alternating True ms
     | MatchEndedMsg \<Rightarrow> running \<and> alternating False ms
     | _ \<Rightarrow> alternating running ms)"

fun running_after :: "bool \<Rightarrow> poller_msg list \<Rightarrow> bool" where
  "running_after running [] = running"
| "running_after running (m # ms) = (case m of
       MatchStartedMsg \<Rightarrow> running_after True ms
     | MatchEndedMsg \<Rightarrow> running_after False ms
     | _ \<Rightarrow> running_after running ms)"

definition no_boundary :: "poller_msg \<Rightarrow> bool" where
  "no_boundary m \<longleftrightarrow> m \<noteq> MatchStartedMsg \<and> m \<noteq> MatchEndedMsg"

lemma alternating_append: "alternating b (xs @ ys) \<longleftrightarrow> alternating b xs \<and> alternating (running_after b xs) ys"
  by (induction xs arbitrary: b) (auto split: poller_msg.splits)

lemma running_after_append: "running_after b (xs @ ys) = running_after (running_after b xs) ys"
  by (induction xs arbitrary: b) (auto split: poller_msg.splits)

lemma no_boundary_runs: "list_all no_boundary ms \<Longrightarrow> alternating b ms \<and> running_after b ms = b"
  by (induction ms arbitrary: b) (auto simp: no_boundary_def split: poller_msg.splits)

lemma drain_results_plain: "drain_results active q rs = (q', ms) \<Longrightarrow> list_all (\<lambda>m. active \<and> (\<exists>queue. m = QueueMsg queue)) ms"
  by (induction active q rs arbitrary: q' ms rule: drain_results.induct) (auto simp: Let_def split: prod.splits)

lemma drained_no_boundary: "drain_results active q rs = (q', ms) \<Longrightarrow> list_all no_boundary ms"
  using drain_results_plain [of active q rs q' ms] by (auto simp: list_all_iff no_boundary_def)

lemma poll_succeeded_eq:
  "poll_succeeded l new_match has_game_end =
     (let started = (\<not> mc_observed_match l \<or> new_match);
          running = (started \<or> mc_match_active l)
      in (\<lparr>mc_observed_match = True, mc_match_active = (running \<and> \<not> has_game_end), mc_consecutive_failures = 0\<rparr>,
          \<lparr>pd_before_events = (if started then (if mc_observed_match l \<and> mc_match_active l then [MatchEnds] else []) @ [MatchStarts] else []),
            pd_end_after_events = (running \<and> has_game_end)\<rparr>))"
  by (cases l) (simp add: poll_succeeded_def Let_def)

lemma boundaries_run:
  assumes "poll_succeeded l new_match has_game_end = (l', d)" "mc_match_active l \<longrightarrow> mc_observed_match l"
  shows "alternating (mc_match_active l) (match_boundaries (pd_before_events d) rq)
    \<and> running_after (mc_match_active l) (match_boundaries (pd_before_events d) rq) = (mc_match_active l' \<or> pd_end_after_events d)
    \<and> (pd_end_after_events d \<longrightarrow> has_game_end \<and> \<not> mc_match_active l') \<and> (has_game_end \<longrightarrow> \<not> mc_match_active l')
    \<and> mc_observed_match l'"
  using assms unfolding poll_succeeded_eq Let_def
  by (cases "mc_observed_match l"; cases new_match; cases "mc_match_active l"; cases rq)
    (auto simp: match_boundaries_def boundary_message_def)

text \<open>A match that is active was observed.\<close>

definition observed :: "poller \<Rightarrow> bool" where
  "observed p \<longleftrightarrow> (mc_match_active (po_lifecycle p) \<longrightarrow> mc_observed_match (po_lifecycle p))"

lemma polled_batch_parts:
  assumes "polled_batch rq exe summary batch p = (p', ms, lookup)"
  obtains l d where "poll_succeeded (po_lifecycle p) (pb_new_match batch) (list_ex (\<lambda>e. ge_kind e = GameEnd) (pb_events batch)) = (l, d)"
    "po_lifecycle p' = l" "ms = match_boundaries (pd_before_events d) rq
      @ ((case summary of Inr (Some s) \<Rightarrow> [PlayerSummaryMsg s] | _ \<Rightarrow> []) @ map EventMsg (pb_events batch))
      @ (if pd_end_after_events d then [MatchEndedMsg] else [])"
    "po_local_player p' = po_local_player p"
  using assms that by (auto simp: polled_batch_def Let_def split: prod.splits)

lemma polled_batch_runs:
  assumes "polled_batch rq exe summary batch p = (p', ms, lookup)" "observed p"
  shows "alternating (mc_match_active (po_lifecycle p)) ms
    \<and> running_after (mc_match_active (po_lifecycle p)) ms = mc_match_active (po_lifecycle p') \<and> observed p'"
  using assms(1)
proof (cases rule: polled_batch_parts)
  case (1 l d)
  define mid where "mid = (case summary of Inr (Some s) \<Rightarrow> [PlayerSummaryMsg s] | _ \<Rightarrow> []) @ map EventMsg (pb_events batch)"
  have plain: "list_all no_boundary mid"
    by (auto simp: mid_def list_all_iff no_boundary_def split: sum.splits option.splits)
  note b = boundaries_run [OF 1(1), of rq] and m = no_boundary_runs [OF plain]
  show ?thesis
    unfolding 1(3) mid_def [symmetric] alternating_append running_after_append
    using b m assms(2) 1(2) by (cases "pd_end_after_events d") (simp_all add: observed_def)
qed

lemma missed_poll_runs:
  assumes "missed_poll p = (p', ms)"
  shows "alternating (mc_match_active (po_lifecycle p)) ms
    \<and> running_after (mc_match_active (po_lifecycle p)) ms = mc_match_active (po_lifecycle p')
    \<and> (observed p \<longrightarrow> observed p')"
  using assms by (auto simp: observed_def missed_poll_def poll_failed_def Let_def boundary_message_def split: if_splits)

lemma poller_turn_cases:
  assumes "poller_turn tx t0 rq exe i p = (p', out)"
  obtains (absent) q ms where "drain_results (mc_match_active (po_lifecycle p)) (po_queue_lookup p) (ti_results i) = (q, ms)"
      "po_local_player p = None" "p' = p\<lparr>po_queue_lookup := q\<rparr>" "to_messages out = ms @ [HeartbeatMsg]"
  | (batch) q ms player t b ms' lookup where "drain_results (mc_match_active (po_lifecycle p)) (po_queue_lookup p) (ti_results i) = (q, ms)"
      "poll_once_with_continuity tx (ti_game_time i) (ti_sampled_at i) (ti_data i) (po_tracker p) player t0 (Fin 0) = (t, Inr b)"
      "polled_batch rq exe (ti_summary i) b (p\<lparr>po_queue_lookup := q, po_local_player := Some player, po_tracker := t\<rparr>) = (p', ms', lookup)"
      "to_messages out = ms @ ms'"
  | (missed) q ms player t ms' where "drain_results (mc_match_active (po_lifecycle p)) (po_queue_lookup p) (ti_results i) = (q, ms)"
      "missed_poll (p\<lparr>po_queue_lookup := q, po_local_player := Some player, po_tracker := t\<rparr>) = (p', ms')"
      "to_messages out = ms @ ms'"
      "to_sleep_s out = failure_backoff (mc_consecutive_failures (po_lifecycle p'))"
proof -
  obtain q ms where d: "drain_results (mc_match_active (po_lifecycle p)) (po_queue_lookup p) (ti_results i) = (q, ms)"
    by (cases "drain_results (mc_match_active (po_lifecycle p)) (po_queue_lookup p) (ti_results i)")
  let ?name = "case po_local_player p of Some name \<Rightarrow> Inr name | None \<Rightarrow> ti_player_name i"
  show thesis
  proof (cases ?name)
    case (Inl e)
    then have "po_local_player p = None" by (cases "po_local_player p") auto
    with assms d Inl absent show ?thesis by (auto simp: poller_turn_def Let_def)
  next
    case (Inr player)
    obtain t r where r: "poll_once_with_continuity tx (ti_game_time i) (ti_sampled_at i) (ti_data i) (po_tracker p) player t0 (Fin 0) = (t, r)"
      by (cases "poll_once_with_continuity tx (ti_game_time i) (ti_sampled_at i) (ti_data i) (po_tracker p) player t0 (Fin 0)")
    show ?thesis
    proof (cases r)
      case (Inl e)
      note r_Inl = Inl
      obtain p3 ms' where m: "missed_poll (p\<lparr>po_queue_lookup := q, po_local_player := Some player, po_tracker := t\<rparr>) = (p3, ms')"
        by (cases "missed_poll (p\<lparr>po_queue_lookup := q, po_local_player := Some player, po_tracker := t\<rparr>)")
      have "p' = p3" "to_messages out = ms @ ms'" "to_sleep_s out = failure_backoff (mc_consecutive_failures (po_lifecycle p3))"
        using assms d Inr r r_Inl m by (auto simp: poller_turn_def Let_def)
      then show ?thesis using missed [OF d] m by blast
    next
      case (Inr b)
      note r_Inr = Inr
      obtain p3 ms' l where m: "polled_batch rq exe (ti_summary i) b (p\<lparr>po_queue_lookup := q, po_local_player := Some player, po_tracker := t\<rparr>) = (p3, ms', l)"
        by (metis prod_cases3)
      have "p' = p3" "to_messages out = ms @ ms'"
        using assms d \<open>?name = Inr player\<close> r r_Inr m by (auto simp: poller_turn_def Let_def)
      then show ?thesis using batch [OF d] r r_Inr m by blast
    qed
  qed
qed

lemma poller_turn_runs:
  assumes "poller_turn tx t0 rq exe i p = (p', out)" "observed p"
  shows "alternating (mc_match_active (po_lifecycle p)) (to_messages out)
    \<and> running_after (mc_match_active (po_lifecycle p)) (to_messages out) = mc_match_active (po_lifecycle p') \<and> observed p'"
  using assms(1)
proof (cases rule: poller_turn_cases)
  case (absent q ms)
  then show ?thesis
    using no_boundary_runs [of "ms @ [HeartbeatMsg]"] drained_no_boundary [OF absent(1)] assms(2)
    by (simp add: no_boundary_def observed_def)
next
  case (batch q ms player t b ms' lookup)
  then show ?thesis
    using no_boundary_runs [OF drained_no_boundary [OF batch(1)]] polled_batch_runs [OF batch(3)] assms(2)
    by (simp add: alternating_append running_after_append observed_def)
next
  case (missed q ms player t ms')
  then show ?thesis
    using no_boundary_runs [OF drained_no_boundary [OF missed(1)]] missed_poll_runs [OF missed(2)] assms(2)
    by (simp add: alternating_append running_after_append observed_def)
qed

lemma send_messages_prefix:
  "send_messages accepts sent ms = (sent', ok) \<Longrightarrow> \<exists>k. sent' = sent @ take k ms \<and> (ok \<longrightarrow> take k ms = ms)"
proof (induction ms arbitrary: sent)
  case (Cons m ms)
  show ?case
  proof (cases "accepts (length sent)")
    case True
    with Cons.prems have "send_messages accepts (sent @ [m]) ms = (sent', ok)" by (simp add: send_message_def)
    from Cons.IH [OF this] obtain k where "sent' = sent @ m # take k ms" "ok \<longrightarrow> take k ms = ms" by auto
    then show ?thesis by (intro exI [of _ "Suc k"]) simp
  next
    case False
    with Cons.prems show ?thesis by (intro exI [of _ 0]) (simp add: send_message_def)
  qed
qed simp

lemma poller_turns_alternate:
  assumes "poller_turns tx t0 rq exe accepts is p sent = (p', sent', ok)" "alternating False sent"
    "running_after False sent = mc_match_active (po_lifecycle p)" "observed p"
  shows "alternating False sent' \<and> (ok \<longrightarrow> running_after False sent' = mc_match_active (po_lifecycle p'))"
  using assms
proof (induction "is" arbitrary: p sent)
  case (Cons i "is")
  obtain p1 out where t: "poller_turn tx t0 rq exe i p = (p1, out)" by (cases "poller_turn tx t0 rq exe i p")
  obtain sent1 ok1 where s: "send_messages accepts sent (to_messages out) = (sent1, ok1)"
    by (cases "send_messages accepts sent (to_messages out)")
  obtain k where k: "sent1 = sent @ take k (to_messages out)" "ok1 \<longrightarrow> take k (to_messages out) = to_messages out"
    using send_messages_prefix [OF s] by blast
  note runs = poller_turn_runs [OF t Cons.prems(4)]
  have "alternating (mc_match_active (po_lifecycle p)) (take k (to_messages out))"
    using runs alternating_append [of "mc_match_active (po_lifecycle p)" "take k (to_messages out)" "drop k (to_messages out)"] by simp
  then have alt: "alternating False sent1"
    using Cons.prems(2,3) k(1) by (simp add: alternating_append)
  show ?case
  proof (cases ok1)
    case True
    then have "running_after False sent1 = mc_match_active (po_lifecycle p1)"
      using k Cons.prems(3) runs by (simp add: running_after_append)
    with Cons.IH [of p1 sent1] alt Cons.prems(1) t s True runs show ?thesis by simp
  next
    case False
    with Cons.prems(1) t s alt show ?thesis by auto
  qed
qed auto

lemma poller_run_alternates:
  assumes "poller_run tx t0 rq exe accepts is = (p, sent, ok)"
  shows "alternating False sent \<and> (ok \<longrightarrow> running_after False sent = mc_match_active (po_lifecycle p))"
proof -
  let ?first = "case rq of None \<Rightarrow> [] | Some queue \<Rightarrow> [QueueMsg queue]"
  obtain sent1 ok1 where s: "send_messages accepts [] ?first = (sent1, ok1)" by (cases "send_messages accepts [] ?first")
  have "list_all no_boundary sent1"
    using send_messages_prefix [OF s] by (auto simp: list_all_iff no_boundary_def dest: in_set_takeD split: option.splits)
  note start = no_boundary_runs [OF this, of False]
  show ?thesis
  proof (cases ok1)
    case True
    then show ?thesis
      using assms s start poller_turns_alternate [of tx t0 rq exe accepts "is" "poller_new rq" sent1 p sent ok]
      by (simp add: poller_run_def poller_new_def lifecycle_default_def observed_def)
  next
    case False
    with assms s start show ?thesis by (auto simp: poller_run_def)
  qed
qed

section \<open>Both sides agree\<close>

definition view_agrees :: "league_queue option \<Rightarrow> bool \<Rightarrow> match_view \<Rightarrow> bool" where
  "view_agrees replay_queue active v \<longleftrightarrow> ps_in_match (mv_player_summary v) = active
     \<and> (stk_match_label (mv_session v) \<noteq> None) = active
     \<and> (\<not> active \<longrightarrow> ps_active_replay (mv_player_summary v) = None)
     \<and> (\<not> active \<longrightarrow> replay_queue = None \<longrightarrow> mv_league_queue v = None)"

lemma handle_messages_append:
  "handle_messages labels n v (xs @ ys) = handle_messages labels (n + length xs) (handle_messages labels n v xs) ys"
  by (induction xs arbitrary: n v) auto

lemma handle_queues:
  "list_all (\<lambda>m. active \<and> (\<exists>queue. m = QueueMsg queue)) ms \<Longrightarrow> view_agrees rq active v \<Longrightarrow>
     view_agrees rq active (handle_messages labels n v ms)"
proof (induction ms arbitrary: n v)
  case (Cons m ms)
  then have "view_agrees rq active (handle_message (labels n) v m)" by (auto simp: handle_message_def view_agrees_def)
  moreover have "list_all (\<lambda>m. active \<and> (\<exists>queue. m = QueueMsg queue)) ms" using Cons.prems(1) by (auto simp: list_all_iff)
  ultimately show ?case using Cons.IH by (simp only: handle_messages.simps)
qed simp

lemma handle_events:
  "view_agrees rq active v \<Longrightarrow>
     view_agrees rq (active \<and> \<not> list_ex (\<lambda>e. ge_kind e = GameEnd) es) (handle_messages labels n v (map EventMsg es))"
proof (induction es arbitrary: n v active)
  case (Cons e es)
  have "view_agrees rq (active \<and> ge_kind e \<noteq> GameEnd) (handle_message (labels n) v (EventMsg e))"
    using Cons.prems by (auto simp: handle_message_def view_agrees_def Let_def summary_match_ended_def match_ended_def)
  from Cons.IH [OF this] show ?case by (simp add: conj_assoc)
qed simp

lemma handle_start: "view_agrees rq True (handle_message l v MatchStartedMsg)"
  by (simp add: handle_message_def view_agrees_def summary_match_started_def match_started_def)

lemma handle_end: "view_agrees rq False (handle_message l v MatchEndedMsg)"
  by (simp add: handle_message_def view_agrees_def summary_match_ended_def match_ended_def)

lemma handle_other:
  "view_agrees rq active v \<Longrightarrow> view_agrees rq active (handle_message l v HeartbeatMsg)"
  "view_agrees rq active v \<Longrightarrow> view_agrees rq active (handle_message l v (PlayerSummaryMsg s))"
  "view_agrees (Some q) active v \<Longrightarrow> view_agrees (Some q) active (handle_message l v (QueueMsg queue))"
  by (auto simp: handle_message_def view_agrees_def summary_update_def Let_def)

lemma handle_boundaries:
  assumes "poll_succeeded l new_match has_game_end = (l', d)" "view_agrees rq (mc_match_active l) v"
  shows "view_agrees rq (mc_match_active l' \<or> pd_end_after_events d)
    (handle_messages labels n v (match_boundaries (pd_before_events d) rq))"
  using assms unfolding poll_succeeded_eq Let_def
  by (cases "mc_observed_match l"; cases new_match; cases "mc_match_active l"; cases rq)
    (auto simp: match_boundaries_def boundary_message_def handle_start handle_other(3))

lemma handle_batch:
  assumes "polled_batch rq exe summary batch p = (p', ms, lookup)" "view_agrees rq (mc_match_active (po_lifecycle p)) v" "observed p"
  shows "view_agrees rq (mc_match_active (po_lifecycle p')) (handle_messages labels n v ms)"
  using assms(1)
proof (cases rule: polled_batch_parts)
  case (1 l d)
  let ?over = "list_ex (\<lambda>e. ge_kind e = GameEnd) (pb_events batch)"
  let ?s = "case summary of Inr (Some s) \<Rightarrow> [PlayerSummaryMsg s] | _ \<Rightarrow> []"
  let ?b = "match_boundaries (pd_before_events d) rq"
  define v2 where "v2 = handle_messages labels n v (?b @ ?s @ map EventMsg (pb_events batch))"
  have s: "view_agrees rq a w \<Longrightarrow> view_agrees rq a (handle_messages labels k w ?s)" for a w k
    using handle_other(2) by (auto split: sum.splits option.splits)
  have "view_agrees rq ((mc_match_active l \<or> pd_end_after_events d) \<and> \<not> ?over) v2"
    unfolding v2_def handle_messages_append using handle_events s handle_boundaries [OF 1(1) assms(2)] by blast
  moreover have "((mc_match_active l \<or> pd_end_after_events d) \<and> \<not> ?over) = mc_match_active l"
    "pd_end_after_events d \<longrightarrow> \<not> mc_match_active l"
    using boundaries_run [OF 1(1)] assms(3) by (auto simp: observed_def)
  ultimately have v2: "view_agrees rq (mc_match_active l) v2" "pd_end_after_events d \<longrightarrow> \<not> mc_match_active l" by simp_all
  have "handle_messages labels n v ms = (if pd_end_after_events d then handle_message (labels (n + length (?b @ ?s @ map EventMsg (pb_events batch)))) v2 MatchEndedMsg else v2)"
    unfolding 1(3) v2_def by (simp add: handle_messages_append add.assoc)
  then show ?thesis using v2 handle_end 1(2) by (cases "pd_end_after_events d") simp_all
qed

lemma handle_missed:
  assumes "missed_poll p = (p', ms)" "view_agrees rq (mc_match_active (po_lifecycle p)) v"
  shows "view_agrees rq (mc_match_active (po_lifecycle p')) (handle_messages labels n v ms)"
  using assms handle_end handle_other(1)
  by (auto simp: missed_poll_def poll_failed_def Let_def boundary_message_def split: if_splits)

lemma handle_turn:
  assumes "poller_turn tx t0 rq exe i p = (p', out)" "view_agrees rq (mc_match_active (po_lifecycle p)) v" "observed p"
  shows "view_agrees rq (mc_match_active (po_lifecycle p')) (handle_messages labels n v (to_messages out))"
  using assms(1)
proof (cases rule: poller_turn_cases)
  case (absent q ms)
  with handle_queues [OF drain_results_plain [OF absent(1)] assms(2)] show ?thesis
    by (simp add: handle_messages_append handle_other(1))
next
  case (batch q ms player t b ms' lookup)
  with handle_queues [OF drain_results_plain [OF batch(1)] assms(2)] handle_batch [OF batch(3)] assms(3) show ?thesis
    by (simp add: handle_messages_append observed_def)
next
  case (missed q ms player t ms')
  with handle_queues [OF drain_results_plain [OF missed(1)] assms(2)] handle_missed [OF missed(2)] show ?thesis
    by (simp add: handle_messages_append)
qed

lemma poller_turns_agree:
  assumes "poller_turns tx t0 rq exe accepts is p sent = (p', sent', True)"
    "view_agrees rq (mc_match_active (po_lifecycle p)) (handle_messages labels n v sent)" "observed p"
  shows "view_agrees rq (mc_match_active (po_lifecycle p')) (handle_messages labels n v sent')"
  using assms
proof (induction "is" arbitrary: p sent)
  case (Cons i "is")
  obtain p1 out where t: "poller_turn tx t0 rq exe i p = (p1, out)" by (cases "poller_turn tx t0 rq exe i p")
  obtain sent1 ok1 where s: "send_messages accepts sent (to_messages out) = (sent1, ok1)"
    by (cases "send_messages accepts sent (to_messages out)")
  have ok1: ok1 using Cons.prems(1) t s by (cases ok1) auto
  then have "sent1 = sent @ to_messages out" using send_messages_prefix [OF s] by auto
  with handle_turn [OF t Cons.prems(2,3)] Cons.IH [of p1 sent1] Cons.prems(1) t s ok1 poller_turn_runs [OF t Cons.prems(3)] show ?case
    by (simp add: handle_messages_append)
qed simp

lemma poller_run_agrees:
  assumes "poller_run tx t0 rq exe accepts is = (p, sent, True)"
  shows "view_agrees rq (mc_match_active (po_lifecycle p)) (handle_messages labels 0 (match_view_new run_label) sent)"
proof -
  let ?first = "case rq of None \<Rightarrow> [] | Some queue \<Rightarrow> [QueueMsg queue]"
  obtain sent1 ok1 where s: "send_messages accepts [] ?first = (sent1, ok1)" by (cases "send_messages accepts [] ?first")
  have ok1: ok1 using assms s by (cases ok1) (auto simp: poller_run_def)
  then have "sent1 = ?first" using send_messages_prefix [OF s] by auto
  then have "view_agrees rq (mc_match_active (po_lifecycle (poller_new rq))) (handle_messages labels 0 (match_view_new run_label) sent1)"
    by (cases rq) (simp_all add: view_agrees_def poller_new_def lifecycle_default_def match_view_new_def summary_state_default_def
        session_tracker_new_def handle_message_def)
  moreover have "observed (poller_new rq)" by (simp add: observed_def poller_new_def lifecycle_default_def)
  ultimately show ?thesis using poller_turns_agree assms s ok1 by (auto simp: poller_run_def)
qed

section \<open>An absent client ends the match\<close>

fun turn_outcomes :: "text_ops \<Rightarrow> instant \<Rightarrow> league_queue option \<Rightarrow> bool \<Rightarrow> turn_input list \<Rightarrow> poller \<Rightarrow> turn_outcome list" where
  "turn_outcomes tx t0 rq exe [] p = []"
| "turn_outcomes tx t0 rq exe (i # is) p = (case poller_turn tx t0 rq exe i p of (p', out) \<Rightarrow> out # turn_outcomes tx t0 rq exe is p')"

definition unanswered :: "turn_input \<Rightarrow> bool" where
  "unanswered i \<longleftrightarrow> isl (ti_game_time i) \<or> isl (ti_data i)"

definition tracked :: "poller \<Rightarrow> bool" where
  "tracked p \<longleftrightarrow> (mc_match_active (po_lifecycle p) \<longrightarrow>
     po_local_player p \<noteq> None \<and> mc_consecutive_failures (po_lifecycle p) < match_absence_failures)"

lemma tracked_turn:
  assumes "poller_turn tx t0 rq exe i p = (p', out)" "tracked p"
  shows "tracked p'"
  using assms(1)
proof (cases rule: poller_turn_cases)
  case (absent q ms)
  with assms(2) show ?thesis by (simp add: tracked_def)
next
  case (batch q ms player t b ms' lookup)
  from batch(3) show ?thesis
  proof (cases rule: polled_batch_parts)
    case (1 l d)
    have "mc_consecutive_failures l = 0" using 1(1) by (auto simp: poll_succeeded_eq Let_def)
    with 1 show ?thesis by (simp add: tracked_def match_absence_failures_def)
  qed
next
  case (missed q ms player t ms')
  with assms(2) show ?thesis
    by (auto simp: tracked_def missed_poll_def poll_failed_def Let_def match_absence_failures_def split: if_splits)
qed

lemma tracked_turns: "poller_turns tx t0 rq exe accepts is p sent = (p', sent', ok) \<Longrightarrow> tracked p \<Longrightarrow> tracked p'"
  by (induction "is" arbitrary: p sent) (auto split: prod.splits bool.splits intro: tracked_turn)

lemma tracked_run: "poller_run tx t0 rq exe accepts is = (p, sent, ok) \<Longrightarrow> tracked p"
  using tracked_turns [of tx t0 rq exe accepts "is" "poller_new rq"]
  by (auto simp: poller_run_def tracked_def poller_new_def lifecycle_default_def split: prod.splits bool.splits)

lemma unanswered_turn:
  assumes "unanswered i" "po_local_player p \<noteq> None" "mc_match_active (po_lifecycle p)"
    "mc_consecutive_failures (po_lifecycle p) < match_absence_failures" "poller_turn tx t0 rq exe i p = (p', out)"
  shows "let f = mc_consecutive_failures (po_lifecycle p) + 1 in to_sleep_s out = failure_backoff f
    \<and> (if f = match_absence_failures then MatchEndedMsg \<in> set (to_messages out)
       else po_local_player p' \<noteq> None \<and> mc_match_active (po_lifecycle p') \<and> mc_consecutive_failures (po_lifecycle p') = f)"
  using assms(5)
proof (cases rule: poller_turn_cases)
  case (absent q ms)
  with assms(2) show ?thesis by simp
next
  case (batch q ms player t b ms' lookup)
  have "\<nexists>t b. poll_once_with_continuity tx (ti_game_time i) (ti_sampled_at i) (ti_data i) (po_tracker p) player t0 (Fin 0) = (t, Inr b)"
    using assms(1) by (auto simp: unanswered_def poll_once_with_continuity_def Let_def split: sum.splits prod.splits)
  with batch(2) show ?thesis by blast
next
  case (missed q ms player t ms')
  with assms(3,4) show ?thesis
    by (auto simp: missed_poll_def poll_failed_def Let_def match_absence_failures_def boundary_message_def split: if_splits)
qed

lemma absence_ends_match:
  assumes "length is = match_absence_failures - mc_consecutive_failures (po_lifecycle p)" "list_all unanswered is"
    "po_local_player p \<noteq> None" "mc_match_active (po_lifecycle p)" "mc_consecutive_failures (po_lifecycle p) < match_absence_failures"
  shows "MatchEndedMsg \<in> set (to_messages (last (turn_outcomes tx t0 rq exe is p)))
    \<and> map to_sleep_s (turn_outcomes tx t0 rq exe is p)
      = map failure_backoff [mc_consecutive_failures (po_lifecycle p) + 1..<match_absence_failures + 1]"
  using assms
proof (induction "is" arbitrary: p)
  case (Cons i "is")
  obtain p1 out where t: "poller_turn tx t0 rq exe i p = (p1, out)" by (cases "poller_turn tx t0 rq exe i p")
  let ?f = "mc_consecutive_failures (po_lifecycle p)"
  have step: "to_sleep_s out = failure_backoff (?f + 1)"
    "if ?f + 1 = match_absence_failures then MatchEndedMsg \<in> set (to_messages out)
     else po_local_player p1 \<noteq> None \<and> mc_match_active (po_lifecycle p1) \<and> mc_consecutive_failures (po_lifecycle p1) = ?f + 1"
    using unanswered_turn [of i p tx t0 rq exe p1 out] Cons.prems t by (simp_all add: Let_def)
  have len: "length is = match_absence_failures - (?f + 1)" using Cons.prems(1) by simp
  show ?case
  proof (cases "?f + 1 = match_absence_failures")
    case True
    with len have "is = []" by simp
    with True step t show ?thesis by (simp add: upt_rec)
  next
    case False
    then have less: "?f + 1 < match_absence_failures" using Cons.prems(5) by simp
    with step(2) have p1: "po_local_player p1 \<noteq> None" "mc_match_active (po_lifecycle p1)" "mc_consecutive_failures (po_lifecycle p1) = ?f + 1"
      by auto
    have ne: "turn_outcomes tx t0 rq exe is p1 \<noteq> []" using len less by (cases "is") (auto split: prod.splits)
    from Cons.IH [of p1] p1 len less Cons.prems(2) ne t step(1) show ?thesis
      by (simp add: upt_conv_Cons)
  qed
qed simp

end
