(* ===== verification/Service_Files.thy ===== *)
theory Service_Files
  imports Match_Poller Mp4_Writer
begin

text \<open>
  The file side of the recorder service (apps/clipline-app/src/service.rs): room under the quota, the
  names of new clips, the reservation of a full session and what becomes of its file.  Functions
  return the tree, the events they sent and their result.
\<close>

datatype service_event =
    MediaRootResolved path bool
  | StatusEvent bool bool nat f64 f64 bool string string
  | SavedEvent path f64 "int option" "int option" nat bool nat "nat option" bool
  | StorageQuotaFull nat nat nat
  | BookmarkAdded f64 "f64 option"
  | LibraryChanged
  | ErrorEvent

section \<open>More of the file system\<close>

definition try_exists :: "fs_env \<Rightarrow> fs \<Rightarrow> path \<Rightarrow> bool io" where
  "try_exists env fs p = (case stat env fs p of Inr _ \<Rightarrow> Inr True | Inl e \<Rightarrow> if e = NotFound then Inr False else Inl e)"

text \<open>\<open>std::fs::write\<close> and \<open>File::create\<close>: a new file, or the content of an existing one replaced.\<close>

definition write_file :: "fs_env \<Rightarrow> fs \<Rightarrow> path \<Rightarrow> bytes \<Rightarrow> fs \<times> unit io" where
  "write_file env fs p content = (case node_at fs p of
       None \<Rightarrow> if ev_create env p then (placed fs p (FileNode content (ev_now env)), Inr ()) else (fs, Inl Refused)
     | Some (FileNode _ _) \<Rightarrow> write_all_to env fs p content
     | Some _ \<Rightarrow> (fs, Inl Refused))"

text \<open>\<open>create_dir_all\<close>: the missing directories from the top down.\<close>

fun create_dirs :: "fs_env \<Rightarrow> path list \<Rightarrow> fs \<Rightarrow> fs \<times> unit io" where
  "create_dirs env [] fs = (fs, Inr ())"
| "create_dirs env (p # ps) fs = (case stat env fs p of
       Inr DirNode \<Rightarrow> create_dirs env ps fs
     | Inr _ \<Rightarrow> (fs, Inl Exists)
     | Inl e \<Rightarrow> if e = NotFound \<and> node_at fs p = None \<and> ev_create env p
               then create_dirs env ps (placed fs p DirNode) else (fs, Inl Refused))"

definition create_dir_all :: "fs_env \<Rightarrow> fs \<Rightarrow> path \<Rightarrow> fs \<times> unit io" where
  "create_dir_all env fs p = create_dirs env (map (\<lambda>n. take n p) [1..<length p + 1]) fs"

section \<open>Room under the quota\<close>

definition quota_would_be_exceeded :: "nat \<Rightarrow> nat option \<Rightarrow> nat \<Rightarrow> bool" where
  "quota_would_be_exceeded all_bytes quota_bytes required_bytes = (case quota_bytes of
       None \<Rightarrow> False
     | Some quota \<Rightarrow> quota < all_bytes \<or> quota - all_bytes < required_bytes)"

definition storage_quota_event_for_usage :: "nat \<Rightarrow> nat option \<Rightarrow> nat \<Rightarrow> service_event option" where
  "storage_quota_event_for_usage all_bytes quota_bytes required_bytes =
     (if quota_would_be_exceeded all_bytes quota_bytes required_bytes
      then Some (StorageQuotaFull all_bytes (the quota_bytes) required_bytes) else None)"

definition storage_status_or_warn :: "fs_env \<Rightarrow> fs \<Rightarrow> path \<Rightarrow> nat option \<Rightarrow> status_record option" where
  "storage_status_or_warn env fs clips_dir quota_bytes = (case storage_status env fs clips_dir quota_bytes of
       Inr status \<Rightarrow> Some status | Inl _ \<Rightarrow> None)"

text \<open>\<open>leased\<close> answers \<open>is_active_upload_source\<close>, \<open>meanwhile\<close> is the rest of the system during a collection.\<close>

definition make_room_for_quota ::
  "fs_env \<Rightarrow> leases \<Rightarrow> (path \<Rightarrow> fs \<Rightarrow> fs) \<Rightarrow> path \<Rightarrow> nat option \<Rightarrow> nat \<Rightarrow> path option \<Rightarrow> fs
     \<Rightarrow> fs \<times> service_event list \<times> (status_record \<times> nat) option" where
  "make_room_for_quota env leased meanwhile clips_dir quota_bytes required_bytes protect fs = (case quota_bytes of
       None \<Rightarrow> (fs, [], map_option (\<lambda>status. (status, 0)) (storage_status_or_warn env fs clips_dir None))
     | Some quota \<Rightarrow>
         let before_bytes = map_option st_total_bytes (storage_status_or_warn env fs clips_dir quota_bytes);
             (fs1, r) = enforce_quota_with_protection env leased meanwhile clips_dir (Some (quota - required_bytes)) protect fs;
             deleted_clips = (case r of Inr report \<Rightarrow> gc_deleted_clips report | Inl _ \<Rightarrow> 0)
         in case storage_status_or_warn env fs1 clips_dir quota_bytes of
              None \<Rightarrow> (fs1, [], None)
            | Some status \<Rightarrow>
                let shrunk = (case before_bytes of Some b \<Rightarrow> st_total_bytes status < b | None \<Rightarrow> False);
                    deleted = (if deleted_clips = 0 \<and> shrunk then 1 else deleted_clips)
                in (fs1, if 0 < deleted then [LibraryChanged] else [], Some (status, deleted)))"

definition storage_quota_full_event ::
  "fs_env \<Rightarrow> leases \<Rightarrow> (path \<Rightarrow> fs \<Rightarrow> fs) \<Rightarrow> path \<Rightarrow> nat option \<Rightarrow> nat \<Rightarrow> bool \<Rightarrow> fs
     \<Rightarrow> fs \<times> service_event list \<times> service_event option" where
  "storage_quota_full_event env leased meanwhile clips_dir quota_bytes required_bytes auto_delete fs =
     (case storage_status_or_warn env fs clips_dir quota_bytes of
        None \<Rightarrow> (fs, [], None)
      | Some status \<Rightarrow>
          if \<not> quota_would_be_exceeded (st_total_bytes status) quota_bytes required_bytes then (fs, [], None)
          else if auto_delete
          then (case make_room_for_quota env leased meanwhile clips_dir quota_bytes required_bytes None fs of
              (fs1, evs, cleaned) \<Rightarrow>
                let status1 = (case cleaned of Some (s, _) \<Rightarrow> s | None \<Rightarrow> status)
                in if \<not> quota_would_be_exceeded (st_total_bytes status1) quota_bytes required_bytes then (fs1, evs, None)
                   else (fs1, evs, storage_quota_event_for_usage (st_total_bytes status1) quota_bytes required_bytes))
          else (fs, [], storage_quota_event_for_usage (st_total_bytes status) quota_bytes required_bytes))"

section \<open>Names of new clips\<close>

definition media_name :: "string \<Rightarrow> nat \<Rightarrow> nat \<Rightarrow> string" where
  "media_name prefix stamp attempt =
     (if attempt = 0 then prefix @ ''_'' @ decimal stamp @ ''.mp4''
      else prefix @ ''_'' @ decimal stamp @ ''_'' @ decimal attempt @ ''.mp4'')"

definition unique_media_path_at :: "fs_env \<Rightarrow> fs \<Rightarrow> path \<Rightarrow> string \<Rightarrow> nat \<Rightarrow> path" where
  "unique_media_path_at env fs session_dir prefix stamp =
     (case find (\<lambda>attempt. let candidate = session_dir @ [media_name prefix stamp attempt];
                marker_exists = (case clip_ownership_marker_path candidate of Inr marker \<Rightarrow> path_exists env fs marker | Inl _ \<Rightarrow> False)
            in \<not> path_exists env fs candidate \<and> \<not> marker_exists) [0..<1024] of
        Some attempt \<Rightarrow> session_dir @ [media_name prefix stamp attempt]
      | None \<Rightarrow> session_dir @ [prefix @ ''_'' @ decimal (ev_now_nanos env) @ ''.mp4''])"

definition remove_discarded_clip :: "fs_env \<Rightarrow> path \<Rightarrow> fs \<Rightarrow> fs" where
  "remove_discarded_clip env p fs = fst (remove_clip_ownership_marker env (fst (remove_file env fs p)) p)"

text \<open>
  The reservation loop.  Other programs may change the tree at any moment: \<open>reserve\<close> is the creation of
  the temporary file with what happens around it, \<open>meanwhile\<close> what happens before each later look.
\<close>

definition reserve_attempt ::
  "fs_env \<Rightarrow> (path \<Rightarrow> path \<Rightarrow> fs \<Rightarrow> fs \<times> unit io) \<Rightarrow> (nat \<Rightarrow> fs \<Rightarrow> fs) \<Rightarrow> path \<Rightarrow> fs
     \<Rightarrow> fs \<times> (path \<times> path) option io" where
  "reserve_attempt env reserve meanwhile final_path fs =
     (let temp_path = with_extension final_path ''mp4.recording''
      in case reserve final_path temp_path fs of
           (fs1, Inl e) \<Rightarrow> (fs1, if e = Exists then Inr None else Inl e)
         | (fs1, Inr _) \<Rightarrow>
             (let fs2 = meanwhile 1 fs1
              in case try_exists env fs2 final_path of
                   Inl e \<Rightarrow> (fst (remove_file env fs2 temp_path), Inl e)
                 | Inr True \<Rightarrow> (case remove_file env fs2 temp_path of
                       (fs3, Inl e) \<Rightarrow> (fs3, Inl e) | (fs3, Inr _) \<Rightarrow> (fs3, Inr None))
                 | Inr False \<Rightarrow> (case ensure_clip_owned env fs2 temp_path of
                       (fs3, Inl e) \<Rightarrow> (fst (remove_file env fs3 temp_path), Inl e)
                     | (fs3, Inr False) \<Rightarrow> (case remove_file env fs3 temp_path of
                           (fs4, Inl e) \<Rightarrow> (fs4, Inl e) | (fs4, Inr _) \<Rightarrow> (fs4, Inr None))
                     | (fs3, Inr True) \<Rightarrow>
                         (let fs4 = meanwhile 2 fs3
                          in case try_exists env fs4 final_path of
                               Inr False \<Rightarrow> (fs4, Inr (Some (final_path, temp_path)))
                             | Inr True \<Rightarrow> (remove_discarded_clip env temp_path fs4, Inr None)
                             | Inl e \<Rightarrow> (remove_discarded_clip env temp_path fs4, Inl e)))))"

fun reserve_attempts ::
  "fs_env \<Rightarrow> (path \<Rightarrow> path \<Rightarrow> fs \<Rightarrow> fs \<times> unit io) \<Rightarrow> (nat \<Rightarrow> fs \<Rightarrow> fs) \<Rightarrow> path \<Rightarrow> string \<Rightarrow> nat \<Rightarrow> nat list \<Rightarrow> fs
     \<Rightarrow> fs \<times> (path \<times> path) io" where
  "reserve_attempts env reserve meanwhile session_dir prefix stamp [] fs = (fs, Inl Exists)"
| "reserve_attempts env reserve meanwhile session_dir prefix stamp (attempt # rest) fs =
     (let final_path = session_dir @ [media_name prefix stamp attempt]; fs0 = meanwhile 0 fs
      in case try_exists env fs0 final_path of
           Inl e \<Rightarrow> (fs0, Inl e)
         | Inr True \<Rightarrow> reserve_attempts env reserve meanwhile session_dir prefix stamp rest fs0
         | Inr False \<Rightarrow> (case clip_ownership_marker_path final_path of
               Inl e \<Rightarrow> (fs0, Inl e)
             | Inr marker \<Rightarrow> (case try_exists env fs0 marker of
                   Inl e \<Rightarrow> (fs0, Inl e)
                 | Inr True \<Rightarrow> reserve_attempts env reserve meanwhile session_dir prefix stamp rest fs0
                 | Inr False \<Rightarrow> (case reserve_attempt env reserve meanwhile final_path fs0 of
                       (fs1, Inl e) \<Rightarrow> (fs1, Inl e)
                     | (fs1, Inr (Some paths)) \<Rightarrow> (fs1, Inr paths)
                     | (fs1, Inr None) \<Rightarrow> reserve_attempts env reserve meanwhile session_dir prefix stamp rest fs1))))"

definition reserve_full_session_path_at_with ::
  "fs_env \<Rightarrow> (path \<Rightarrow> path \<Rightarrow> fs \<Rightarrow> fs \<times> unit io) \<Rightarrow> (nat \<Rightarrow> fs \<Rightarrow> fs) \<Rightarrow> path \<Rightarrow> string \<Rightarrow> nat \<Rightarrow> fs \<Rightarrow> fs \<times> (path \<times> path) io" where
  "reserve_full_session_path_at_with env reserve meanwhile session_dir prefix stamp fs =
     reserve_attempts env reserve meanwhile session_dir prefix stamp [0..<1024] fs"

definition reserve_full_session_path_at ::
  "fs_env \<Rightarrow> (nat \<Rightarrow> fs \<Rightarrow> fs) \<Rightarrow> path \<Rightarrow> string \<Rightarrow> nat \<Rightarrow> fs \<Rightarrow> fs \<times> (path \<times> path) io" where
  "reserve_full_session_path_at env meanwhile session_dir prefix stamp fs =
     reserve_full_session_path_at_with env (\<lambda>_ temp_path fs. create_new env fs temp_path) meanwhile session_dir prefix stamp fs"

section \<open>A full session\<close>

record full_session_recording =
  fr_final_path :: path
  fr_temp_path :: path
  fr_wall_start_unix :: int

record full_session_quota_outcome =
  fq_event :: "service_event option"
  fq_new_baseline_bytes :: "nat option"

text \<open>Sums of \<open>u64\<close> that saturate.\<close>

definition sat_add_u64 :: "nat \<Rightarrow> nat \<Rightarrow> nat" where
  "sat_add_u64 a b = min (a + b) (2 ^ 64 - 1)"

definition full_session_quota_check ::
  "fs_env \<Rightarrow> leases \<Rightarrow> (path \<Rightarrow> fs \<Rightarrow> fs) \<Rightarrow> path \<Rightarrow> full_session_recording \<Rightarrow> nat option \<Rightarrow> nat option \<Rightarrow> nat \<Rightarrow> bool \<Rightarrow> fs
     \<Rightarrow> fs \<times> service_event list \<times> full_session_quota_outcome" where
  "full_session_quota_check env leased meanwhile clips_dir recording baseline_bytes quota_bytes required_bytes auto_delete fs =
     (let nothing = \<lparr>fq_event = None, fq_new_baseline_bytes = None\<rparr>
      in case baseline_bytes of
           None \<Rightarrow> (fs, [], nothing)
         | Some baseline \<Rightarrow>
             (case stat env fs (fr_temp_path recording) of
                Inl _ \<Rightarrow> (fs, [], nothing)
              | Inr n \<Rightarrow>
                  let active_bytes = (case n of FileNode content _ \<Rightarrow> length content | _ \<Rightarrow> 0);
                      all_bytes = sat_add_u64 baseline active_bytes
                  in if \<not> quota_would_be_exceeded all_bytes quota_bytes required_bytes then (fs, [], nothing)
                     else let (fs1, evs, cleaned) = (if auto_delete
                            then make_room_for_quota env leased meanwhile clips_dir quota_bytes required_bytes None fs else (fs, [], None))
                     in case cleaned of
                          Some (status, _) \<Rightarrow> (fs1, evs,
                            \<lparr>fq_event = storage_quota_event_for_usage (st_total_bytes status) quota_bytes required_bytes,
                              fq_new_baseline_bytes = Some (st_total_bytes status - active_bytes)\<rparr>)
                        | None \<Rightarrow> (fs1, evs, \<lparr>fq_event = storage_quota_event_for_usage all_bytes quota_bytes required_bytes,
                            fq_new_baseline_bytes = None\<rparr>)))"

definition handle_full_session_finish_error :: "fs_env \<Rightarrow> path \<Rightarrow> fs \<Rightarrow> fs \<times> service_event list" where
  "handle_full_session_finish_error env temp_path fs = (case stat env fs temp_path of
       Inr (FileNode content _) \<Rightarrow> if content = [] then (remove_discarded_clip env temp_path fs, [ErrorEvent]) else (fs, [ErrorEvent])
     | Inr _ \<Rightarrow> (fs, [ErrorEvent])
     | Inl e \<Rightarrow> if e = NotFound then (fst (remove_clip_ownership_marker env fs temp_path), [ErrorEvent]) else (fs, [ErrorEvent]))"

definition rename_finalized_session :: "fs_env \<Rightarrow> full_session_recording \<Rightarrow> fs \<Rightarrow> fs \<times> service_event list \<times> bool" where
  "rename_finalized_session env recording fs = (case rename_file env fs (fr_temp_path recording) (fr_final_path recording) of
       (fs1, Inr _) \<Rightarrow> (fs1, [], True)
     | (fs1, Inl e) \<Rightarrow> if e = NotFound \<and> is_file env fs1 (fr_final_path recording) then (fs1, [], True) else (fs1, [ErrorEvent], False))"

text \<open>\<open>render\<close> serializes the sidecar; it may refuse.\<close>

definition write_marker_sidecar ::
  "fs_env \<Rightarrow> (clip_markers \<Rightarrow> bytes option) \<Rightarrow> marker_log \<Rightarrow> path \<Rightarrow> f64 \<Rightarrow> f64 \<Rightarrow> player_summary option \<Rightarrow> clip_audio_track list \<Rightarrow> fs
     \<Rightarrow> fs \<times> service_event list \<times> nat" where
  "write_marker_sidecar env render entries p start_s end_s summary audio_tracks fs =
     (let clip = (log_clip_markers entries start_s end_s);
          clip1 = clip\<lparr>ck_markers := filter (\<lambda>m. is_review_event (cm_event m)) (ck_markers clip),
                       ck_player_summary := summary, ck_audio_tracks := audio_tracks\<rparr>;
          markers = length (ck_markers clip1) + length (ck_bookmarks clip1)
      in if markers = 0 \<and> ck_player_summary clip1 = None \<and> ck_audio_tracks clip1 = [] \<and> ck_plays clip1 = [] then (fs, [], 0)
         else case render clip1 of
           None \<Rightarrow> (fs, [ErrorEvent], markers)
         | Some json \<Rightarrow> (case write_file env fs (with_extension p ''markers.json'') json of
               (fs1, Inr _) \<Rightarrow> (fs1, [], markers)
             | (fs1, Inl _) \<Rightarrow> (fs1, [ErrorEvent], markers)))"

record saved_clip_meta =
  sc_markers :: nat
  sc_full_session :: bool
  sc_recording_start_unix :: "int option"
  sc_recording_end_unix :: "int option"

definition emit_saved_clip ::
  "fs_env \<Rightarrow> leases \<Rightarrow> (path \<Rightarrow> fs \<Rightarrow> fs) \<Rightarrow> nat option \<Rightarrow> bool \<Rightarrow> path \<Rightarrow> path \<Rightarrow> f64 \<Rightarrow> saved_clip_meta \<Rightarrow> fs
     \<Rightarrow> fs \<times> service_event list \<times> status_record" where
  "emit_saved_clip env leased meanwhile quota_bytes auto_delete clips_dir p seconds meta fs =
     (let fallback = \<lparr>st_clip_count = 0, st_total_bytes = 0, st_quota_bytes = quota_bytes\<rparr>;
          (fs1, evs, status) =
            (if auto_delete
             then (case enforce_quota_with_protection env leased meanwhile clips_dir quota_bytes (Some p) fs of
                 (fs1, Inr report) \<Rightarrow> (fs1, [], gc_status report)
               | (fs1, Inl _) \<Rightarrow> (case storage_status env fs1 clips_dir quota_bytes of
                     Inr status \<Rightarrow> (fs1, [ErrorEvent], status)
                   | Inl _ \<Rightarrow> (fs1, [ErrorEvent, ErrorEvent], fallback)))
             else (case storage_status env fs clips_dir quota_bytes of
                 Inr status \<Rightarrow> (fs, [], status)
               | Inl _ \<Rightarrow> (fs, [ErrorEvent], fallback)))
      in (fs1, evs @ [SavedEvent p seconds (sc_recording_start_unix meta) (sc_recording_end_unix meta) (sc_markers meta)
            (sc_full_session meta) (st_total_bytes status) (st_quota_bytes status) (is_over_quota status)], status))"

text \<open>
  \<open>Recorder::finish_full_session\<close> waits for its writer thread: it writes the segments still queued and
  finalizes the file (\<open>finalize\<close> of clipline-mp4), appending the index and then overwriting the free box
  at its beginning.  How far it gets is an input: the bytes appended, and how much of the box is written.
\<close>

record session_ending =
  en_fragments :: bytes
  en_moov :: bytes
  en_header_bytes :: nat
  en_time :: nat

definition session_free_offset :: nat where
  "session_free_offset = 28"

definition end_session_content :: "session_ending \<Rightarrow> bytes \<Rightarrow> bytes" where
  "end_session_content ending content =
     (let w = write_all \<lparr>sk_data = content, sk_pos = length content\<rparr> (en_fragments ending);
          moov_offset = sk_pos w;
          w1 = write_all w (en_moov ending);
          hdr = be32 1 @ ascii ''mdat'' @ be64n (moov_offset - session_free_offset)
      in sk_data (if en_header_bytes ending = 0 then w1
                  else write_all (seek_start w1 session_free_offset) (take (en_header_bytes ending) hdr)))"

definition end_session_file :: "session_ending \<Rightarrow> path \<Rightarrow> fs \<Rightarrow> fs" where
  "end_session_file ending p fs = (case node_at fs p of
       Some (FileNode content _) \<Rightarrow> placed fs p (FileNode (end_session_content ending content) (en_time ending))
     | _ \<Rightarrow> fs)"

text \<open>
  \<open>finish_full_session_recording\<close>; \<open>finished\<close> is what \<open>Recorder::finish_full_session\<close> returns.
\<close>

record finish_context =
  fc_render :: "clip_markers \<Rightarrow> bytes option"
  fc_marker_log :: marker_log
  fc_player_summary :: "player_summary option"
  fc_audio_tracks :: "clip_audio_track list"
  fc_clips_dir :: path
  fc_disk_quota_bytes :: "nat option"
  fc_auto_delete :: bool
  fc_unix_now :: int

definition finish_full_session_recording ::
  "fs_env \<Rightarrow> leases \<Rightarrow> (path \<Rightarrow> fs \<Rightarrow> fs) \<Rightarrow> finish_context \<Rightarrow> session_ending \<Rightarrow> unit + (f64 \<times> f64 \<times> f64) option \<Rightarrow> full_session_recording option \<Rightarrow> fs
     \<Rightarrow> fs \<times> service_event list \<times> status_record option" where
  "finish_full_session_recording env leased meanwhile ctx ending finished recording fs = (case recording of
       None \<Rightarrow> (fs, [], None)
     | Some rec \<Rightarrow>
         (let fs0 = end_session_file ending (fr_temp_path rec) fs;
              failed = (case handle_full_session_finish_error env (fr_temp_path rec) fs0 of (fs1, evs) \<Rightarrow> (fs1, evs, None))
          in case finished of
               Inl _ \<Rightarrow> failed
             | Inr None \<Rightarrow> failed
             | Inr (Some (start_s, end_s, duration_s)) \<Rightarrow>
                 if is_finite duration_s \<and> fle duration_s (Fin 0) then failed
                 else let seconds = (if is_finite duration_s then duration_s else Fin 0);
                          warned = (if is_finite duration_s then [] else [ErrorEvent])
                 in case rename_finalized_session env rec fs0 of
                      (fs1, evs, False) \<Rightarrow> (fs1, warned @ evs, None)
                    | (fs1, evs, True) \<Rightarrow>
                        let (fs2, evs2, markers) = write_marker_sidecar env (fc_render ctx) (fc_marker_log ctx) (fr_final_path rec)
                              start_s end_s (fc_player_summary ctx) (fc_audio_tracks ctx) fs1;
                            (fs3, evs3, status) = emit_saved_clip env leased meanwhile (fc_disk_quota_bytes ctx) (fc_auto_delete ctx)
                              (fc_clips_dir ctx) (fr_final_path rec) seconds \<lparr>sc_markers = markers, sc_full_session = True,
                                sc_recording_start_unix = Some (fr_wall_start_unix rec), sc_recording_end_unix = Some (fc_unix_now ctx)\<rparr> fs2
                        in (fs3, warned @ evs @ evs2 @ evs3, Some status)))"

definition preserve_full_session_recording ::
  "fs_env \<Rightarrow> session_ending \<Rightarrow> unit + (f64 \<times> f64 \<times> f64) option \<Rightarrow> full_session_recording option \<Rightarrow> fs \<Rightarrow> fs \<times> service_event list" where
  "preserve_full_session_recording env ending finished recording fs = (case recording of
       None \<Rightarrow> (fs, [])
     | Some rec \<Rightarrow> (case handle_full_session_finish_error env (fr_temp_path rec) (end_session_file ending (fr_temp_path rec) fs) of
           (fs1, evs) \<Rightarrow> (fs1, (case finished of Inl _ \<Rightarrow> [ErrorEvent] | Inr _ \<Rightarrow> []) @ evs)))"

text \<open>\<open>shutdown_recorder\<close>; \<open>stream\<close> is the result of \<open>finish_stream\<close>, the value whether it failed.\<close>

definition shutdown_recorder ::
  "fs_env \<Rightarrow> leases \<Rightarrow> (path \<Rightarrow> fs \<Rightarrow> fs) \<Rightarrow> finish_context \<Rightarrow> unit + unit \<Rightarrow> session_ending \<Rightarrow> unit + (f64 \<times> f64 \<times> f64) option \<Rightarrow> full_session_recording option
     \<Rightarrow> fs \<Rightarrow> fs \<times> service_event list \<times> bool" where
  "shutdown_recorder env leased meanwhile ctx stream ending finished recording fs = (case stream of
       Inr _ \<Rightarrow> (case finish_full_session_recording env leased meanwhile ctx ending finished recording fs of (fs1, evs, _) \<Rightarrow> (fs1, evs, False))
     | Inl _ \<Rightarrow> (case preserve_full_session_recording env ending finished recording fs of (fs1, evs) \<Rightarrow> (fs1, ErrorEvent # evs, True)))"

end
