(* ===== verification/Service_Files_Correct.thy ===== *)
theory Service_Files_Correct
  imports Service_Files Storage_Recovery Mp4_Session
begin

text \<open>
  What the service promises about files: a reservation leaves every other file alone, finishing a
  full session keeps its footage, and no quota event means that there is room.
\<close>

section \<open>Names\<close>

lemma lower_recording: "map ascii_lower (s @ ''.mp4.recording'') = map ascii_lower s @ ''.mp4.recording''"
  by (simp add: ascii_lower_def)

lemma media_name_mp4: "is_mp4 (d @ [media_name prefix stamp attempt])"
  "file_stem (d @ [media_name prefix stamp attempt]) = Some (prefix @ ''_'' @ decimal stamp @ (if attempt = 0 then [] else ''_'' @ decimal attempt))"
proof -
  let ?stem = "prefix @ ''_'' @ decimal stamp @ (if attempt = 0 then [] else ''_'' @ decimal attempt)"
  have n: "media_name prefix stamp attempt = ?stem @ CHR ''.'' # ''mp4''" by (simp add: media_name_def)
  have s: "split_name (?stem @ CHR ''.'' # ''mp4'') = (?stem, Some ''mp4'')" by (rule split_name_dot) simp_all
  have f: "file_name (d @ [media_name prefix stamp attempt]) = Some (?stem @ CHR ''.'' # ''mp4'')"
    unfolding n by (simp add: file_name_def)
  show "is_mp4 (d @ [media_name prefix stamp attempt])"
    by (simp add: is_mp4_def path_extension_def f s [simplified] eq_ignore_case_def)
  show "file_stem (d @ [media_name prefix stamp attempt]) = Some ?stem"
    unfolding file_stem_def f by (simp add: s [simplified])
qed

lemma temp_is_recording: "is_recording_mp4 (with_extension (d @ [media_name prefix stamp attempt]) ''mp4.recording'')"
proof -
  have "file_name (with_extension (d @ [media_name prefix stamp attempt]) ''mp4.recording'')
      = Some (the (file_stem (d @ [media_name prefix stamp attempt])) @ ''.mp4.recording'')"
    by (simp add: with_extension_def media_name_mp4(2) file_name_def)
  then show ?thesis unfolding is_recording_mp4_def by (simp only: option.case lower_recording ends_with_iff) blast
qed

lemma recording_not_mp4: "is_recording_mp4 q \<Longrightarrow> \<not> is_mp4 q"
proof
  assume r: "is_recording_mp4 q" and m: "is_mp4 q"
  from r obtain name y where n: "file_name q = Some name" "map ascii_lower name = y @ ''.mp4.recording''"
    by (auto simp: is_recording_mp4_def ends_with_iff split: option.splits)
  then obtain a b where ab: "name = a @ b" "map ascii_lower b = ''.mp4.recording''" by (auto simp: map_eq_append_conv)
  obtain e where e: "path_extension q = Some e" "map ascii_lower e = map ascii_lower ''mp4''"
    using m by (auto simp: is_mp4_def eq_ignore_case_def split: option.splits)
  obtain i where i: "last_index (\<lambda>c. c = CHR ''.'') name = Some i" "e = drop (i + 1) name"
    using e(1) n(1) by (auto simp: path_extension_def split_name_def split: if_splits option.splits)
  have "length e = 3" using arg_cong [OF e(2), of length] by simp
  then have "i + 1 = length name - 3" unfolding i(2) by simp
  then have "drop (length (map ascii_lower name) - 3) (map ascii_lower name) = map ascii_lower e"
    unfolding i(2) by (simp add: drop_map)
  moreover have "drop (length (map ascii_lower name) - 3) (map ascii_lower name) = ''ing''" by (simp add: n(2))
  ultimately show False using e(2) by (simp add: ascii_lower_def)
qed

lemma mp4_not_recording: "is_mp4 p \<Longrightarrow> is_recording_mp4 q \<Longrightarrow> q \<noteq> p"
  using recording_not_mp4 by blast

section \<open>Files that are left alone\<close>

lemma remove_clip_ownership_marker_elsewhere:
  "clip_ownership_marker_path p = Inr m \<Longrightarrow> q \<noteq> m \<Longrightarrow> node_at (fst (remove_clip_ownership_marker env fs p)) q = node_at fs q"
  by (simp add: remove_clip_ownership_marker_def remove_file_if_exists_elsewhere)

lemma remove_marker_keeps_media:
  "is_mp4 q \<or> is_recording_mp4 q \<Longrightarrow> node_at (fst (remove_clip_ownership_marker env fs p)) q = node_at fs q"
  using marker_not_video [of p] remove_file_if_exists_elsewhere [of q _ env fs]
  by (fastforce simp: remove_clip_ownership_marker_def video_path_def split: sum.splits)

lemma write_file_elsewhere: "write_file env fs p content = (fs', r) \<Longrightarrow> q \<noteq> p \<Longrightarrow> node_at fs' q = node_at fs q"
  using write_all_to_elsewhere by (auto simp: write_file_def split: option.splits node.splits if_splits)

lemma ensure_clip_owned_new:
  "ensure_clip_owned env fs p = (fs', Inr True) \<Longrightarrow> clip_ownership_marker_path p = Inr m \<Longrightarrow>
     node_at fs m = None \<and> node_at fs' m = Some (FileNode [0x7B, 0x7D] (ev_now env))"
proof -
  assume e: "ensure_clip_owned env fs p = (fs', Inr True)" "clip_ownership_marker_path p = Inr m"
  obtain fs1 r1 where c: "create_new env fs m = (fs1, r1)" by (cases "create_new env fs m")
  have r1: "r1 = Inr ()" using e c by (cases r1) (auto simp: ensure_clip_owned_def split: if_splits sum.splits node.splits)
  then have fs1: "node_at fs m = None" "fs1 = placed fs m (FileNode [] (ev_now env))"
    using c by (auto simp: create_new_def split: if_splits)
  have "fs' = fst (write_all_to env fs1 m [0x7B, 0x7D])" "ev_write env m"
    using e c r1 by (auto simp: ensure_clip_owned_def write_all_to_def split: if_splits)
  moreover have "map_of (map (\<lambda>(q, n). if q = m then (q, FileNode [0x7B, 0x7D] (ev_now env)) else (q, n)) g) m
      = map_option (\<lambda>_. FileNode [0x7B, 0x7D] (ev_now env)) (map_of g m)" for g
    by (induction g) auto
  ultimately show ?thesis
    using fs1 node_at_placed [of fs m "FileNode [] (ev_now env)" m] by (simp add: write_all_to_def node_at_def)
qed

text \<open>A file that was there before is not the one that gets created.\<close>

lemma ensure_clip_owned_keeps:
  assumes "ensure_clip_owned env fs p = (fs', r)" "node_at fs q \<noteq> None"
  shows "node_at fs' q = node_at fs q"
proof (cases "clip_ownership_marker_path p")
  case (Inl e)
  with assms(1) show ?thesis by (simp add: ensure_clip_owned_def)
next
  case (Inr m)
  show ?thesis
  proof (cases "q = m")
    case True
    then have "create_new env fs m = (fs, Inl Exists)" using assms(2) by (simp add: create_new_def)
    then have "fs' = fs" using assms(1) Inr by (auto simp: ensure_clip_owned_def split: sum.splits node.splits)
    then show ?thesis by simp
  next
    case False
    show ?thesis by (rule ensure_clip_owned_elsewhere [OF assms(1) Inr False])
  qed
qed

lemma reserve_attempt_keeps:
  assumes "reserve_attempt env (\<lambda>_ temp fs. create_new env fs temp) meanwhile final fs = (fs', r)"
    "\<forall>k g. node_at (meanwhile k g) q = node_at g q" "node_at fs q \<noteq> None"
  shows "node_at fs' q = node_at fs q"
proof -
  let ?temp = "with_extension final ''mp4.recording''"
  obtain fs1 r1 where c: "create_new env fs ?temp = (fs1, r1)" by (cases "create_new env fs ?temp")
  show ?thesis
  proof (cases r1)
    case (Inl e)
    then have "fs' = fs1" using assms(1) c by (simp add: reserve_attempt_def)
    then show ?thesis using c Inl by (auto simp: create_new_def split: if_splits)
  next
    case (Inr u)
    then have absent: "node_at fs ?temp = None" and q1: "node_at fs1 q = node_at fs q"
      using c assms(3) by (auto simp: create_new_def split: if_splits)
    then have qt: "q \<noteq> ?temp" using assms(3) by auto
    let ?fs2 = "meanwhile 1 fs1"
    have q2: "node_at ?fs2 q = node_at fs q" using q1 assms(2) by simp
    have rm2: "node_at (fst (remove_file env ?fs2 ?temp)) q = node_at fs q" using remove_file_elsewhere [OF qt] q2 by simp
    obtain fs3 r3 where o: "ensure_clip_owned env ?fs2 ?temp = (fs3, r3)" by (cases "ensure_clip_owned env ?fs2 ?temp")
    have q3: "node_at fs3 q = node_at fs q" using ensure_clip_owned_keeps [OF o] q2 assms(3) by simp
    then have rm3: "node_at (fst (remove_file env fs3 ?temp)) q = node_at fs q" using remove_file_elsewhere [OF qt] by simp
    let ?fs4 = "meanwhile 2 fs3"
    have q4: "node_at ?fs4 q = node_at fs q" using q3 assms(2) by simp
    have discard: "node_at (remove_discarded_clip env ?temp ?fs4) q = node_at fs q" if owned: "r3 = Inr True"
    proof -
      obtain m where m: "clip_ownership_marker_path ?temp = Inr m"
        using o [unfolded owned] by (cases "clip_ownership_marker_path ?temp") (auto simp: ensure_clip_owned_def)
      have "node_at ?fs2 m = None" using ensure_clip_owned_new [OF o [unfolded owned] m] by simp
      then have "q \<noteq> m" using q2 assms(3) by auto
      then show ?thesis
        using remove_clip_ownership_marker_elsewhere [OF m] remove_file_elsewhere [OF qt] q4 by (simp add: remove_discarded_clip_def)
    qed
    have "fs' = fst (remove_file env ?fs2 ?temp) \<or> fs' = fst (remove_file env fs3 ?temp) \<or> fs' = ?fs4
        \<or> (r3 = Inr True \<and> fs' = remove_discarded_clip env ?temp ?fs4)"
      using assms(1) c Inr o
      by (auto simp: reserve_attempt_def Let_def split: sum.splits bool.splits prod.splits)
    then show ?thesis using rm2 rm3 q4 discard by blast
  qed
qed

lemma reserve_attempts_keep:
  "reserve_attempts env (\<lambda>_ temp fs. create_new env fs temp) meanwhile dir prefix stamp as fs = (fs', r) \<Longrightarrow>
     \<forall>k g. node_at (meanwhile k g) q = node_at g q \<Longrightarrow> node_at fs q \<noteq> None \<Longrightarrow> node_at fs' q = node_at fs q"
proof (induction as arbitrary: fs)
  case (Cons a as)
  let ?final = "dir @ [media_name prefix stamp a]" and ?fs0 = "meanwhile 0 fs"
  have q0: "node_at ?fs0 q = node_at fs q" using Cons.prems(2) by simp
  obtain fs1 r1 where t: "reserve_attempt env (\<lambda>_ temp fs. create_new env fs temp) meanwhile ?final ?fs0 = (fs1, r1)"
    by (cases "reserve_attempt env (\<lambda>_ temp fs. create_new env fs temp) meanwhile ?final ?fs0")
  have q1: "node_at fs1 q = node_at fs q" using reserve_attempt_keeps [OF t Cons.prems(2)] q0 Cons.prems(3) by simp
  have "fs' = ?fs0 \<or> fs' = fs1
      \<or> reserve_attempts env (\<lambda>_ temp fs. create_new env fs temp) meanwhile dir prefix stamp as ?fs0 = (fs', r)
      \<or> reserve_attempts env (\<lambda>_ temp fs. create_new env fs temp) meanwhile dir prefix stamp as fs1 = (fs', r)"
    using Cons.prems(1) t by (simp only: reserve_attempts.simps Let_def) (auto split: sum.splits bool.splits option.splits)
  then show ?case using Cons.IH [of ?fs0] Cons.IH [of fs1] q0 q1 Cons.prems(2,3) by auto
qed simp

section \<open>A successful reservation\<close>

lemma reserve_attempt_quiet:
  assumes "reserve_attempt env (\<lambda>_ temp fs. create_new env fs temp) (\<lambda>_ g. g) final fs = (fs', Inr (Some (f, temp)))"
  shows "f = final \<and> temp = with_extension final ''mp4.recording'' \<and> node_at fs temp = None
    \<and> try_exists env fs' final = Inr False
    \<and> (\<exists>m. clip_ownership_marker_path temp = Inr m \<and> node_at fs m = None
        \<and> node_at fs' m = Some (FileNode [0x7B, 0x7D] (ev_now env)) \<and> node_at fs' temp = Some (FileNode [] (ev_now env))
        \<and> (\<forall>q. q \<noteq> m \<longrightarrow> q \<noteq> temp \<longrightarrow> node_at fs' q = node_at fs q))"
proof -
  let ?temp = "with_extension final ''mp4.recording''"
  obtain fs1 r1 where c: "create_new env fs ?temp = (fs1, r1)" by (cases "create_new env fs ?temp")
  obtain fs3 r3 where o: "ensure_clip_owned env fs1 ?temp = (fs3, r3)" by (cases "ensure_clip_owned env fs1 ?temp")
  have r1: "r1 = Inr ()" using assms c by (cases r1) (auto simp: reserve_attempt_def split: if_splits)
  have e: "try_exists env fs1 final = Inr False \<and> r3 = Inr True \<and> try_exists env fs3 final = Inr False \<and> fs' = fs3 \<and> f = final \<and> temp = ?temp"
    using assms c r1 o by (auto simp: reserve_attempt_def Let_def split: sum.splits bool.splits prod.splits)
  have fs1: "node_at fs ?temp = None" "fs1 = placed fs ?temp (FileNode [] (ev_now env))"
    using c r1 by (auto simp: create_new_def split: if_splits)
  obtain m where m: "clip_ownership_marker_path ?temp = Inr m"
    using o e by (cases "clip_ownership_marker_path ?temp") (auto simp: ensure_clip_owned_def)
  note new = ensure_clip_owned_new [OF o [unfolded e [THEN conjunct2, THEN conjunct1]] m]
  have tm: "?temp \<noteq> m" using new fs1(2) by auto
  have "node_at fs3 q = node_at fs q" if "q \<noteq> m" "q \<noteq> ?temp" for q
    using ensure_clip_owned_elsewhere [OF o m that(1)] fs1(2) that(2) by simp
  moreover have "node_at fs3 ?temp = Some (FileNode [] (ev_now env))"
    using ensure_clip_owned_elsewhere [OF o m tm] fs1(2) by simp
  moreover have "node_at fs m = None" using new fs1(2) tm by simp
  ultimately show ?thesis using e m new fs1(1) by auto
qed

text \<open>An attempt that gives its name up leaves no trace.\<close>

lemma ensure_clip_owned_other: "ensure_clip_owned env fs p = (fs', Inr False) \<Longrightarrow> fs' = fs"
  by (auto simp: ensure_clip_owned_def create_new_def split: sum.splits node.splits prod.splits if_splits)

lemma remove_file_quiet: "remove_file env fs p = (fs', Inr u) \<Longrightarrow> node_at fs' q = (if q = p then None else node_at fs q)"
  by (auto simp: remove_file_def split: option.splits node.splits if_splits)

lemma try_exists_same: "node_at fs' p = node_at fs p \<Longrightarrow> try_exists env fs' p = try_exists env fs p"
  by (simp add: try_exists_def stat_def lstat_def)

lemma reserve_attempt_none:
  assumes "reserve_attempt env (\<lambda>_ temp fs. create_new env fs temp) (\<lambda>_ g. g) final fs = (fs', Inr None)"
    "try_exists env fs final = Inr False" "is_mp4 final" "is_recording_mp4 (with_extension final ''mp4.recording'')"
  shows "node_at fs' q = node_at fs q"
proof -
  let ?temp = "with_extension final ''mp4.recording''"
  obtain fs1 r1 where c: "create_new env fs ?temp = (fs1, r1)" by (cases "create_new env fs ?temp")
  show ?thesis
  proof (cases r1)
    case (Inl e)
    then show ?thesis using assms(1) c by (auto simp: reserve_attempt_def create_new_def split: if_splits)
  next
    case (Inr u)
    then have new: "node_at fs ?temp = None" "fs1 = placed fs ?temp (FileNode [] (ev_now env))"
      using c by (auto simp: create_new_def split: if_splits)
    have ft: "final \<noteq> ?temp" using recording_not_mp4 assms(3,4) by metis
    then have free1: "try_exists env fs1 final = Inr False" using try_exists_same [of fs1 final fs env] assms(2) new(2) by simp
    obtain fs3 r3 where o: "ensure_clip_owned env fs1 ?temp = (fs3, r3)" by (cases "ensure_clip_owned env fs1 ?temp")
    have free3: "try_exists env fs3 final = Inr False" if owned: "r3 = Inr True"
    proof -
      obtain m where m: "clip_ownership_marker_path ?temp = Inr m"
        using o [unfolded owned] by (cases "clip_ownership_marker_path ?temp") (auto simp: ensure_clip_owned_def)
      have "final \<noteq> m" using marker_not_video [OF m] assms(3) by (auto simp: video_path_def)
      then show ?thesis using ensure_clip_owned_elsewhere [OF o m] try_exists_same free1 by metis
    qed
    obtain v where d: "r3 = Inr False" "remove_file env fs3 ?temp = (fs', Inr v)"
      using assms(1) c Inr o free1 free3 by (auto simp: reserve_attempt_def Let_def split: sum.splits bool.splits prod.splits)
    have "fs3 = fs1" using ensure_clip_owned_other o d(1) by blast
    then show ?thesis using remove_file_quiet [OF d(2)] new by simp
  qed
qed

lemma reserve_attempts_quiet:
  "reserve_attempts env (\<lambda>_ temp fs. create_new env fs temp) (\<lambda>_ g. g) dir prefix stamp as fs = (fs', Inr (final, temp)) \<Longrightarrow>
     \<exists>a \<in> set as. \<exists>fs1. final = dir @ [media_name prefix stamp a]
       \<and> reserve_attempt env (\<lambda>_ temp fs. create_new env fs temp) (\<lambda>_ g. g) final fs1 = (fs', Inr (Some (final, temp)))
       \<and> (\<forall>q. node_at fs1 q = node_at fs q)"
proof (induction as arbitrary: fs)
  case (Cons a as)
  let ?final = "dir @ [media_name prefix stamp a]"
  let ?all = "reserve_attempts env (\<lambda>_ temp fs. create_new env fs temp) (\<lambda>_ g. g) dir prefix stamp"
  obtain fs1 r1 where t: "reserve_attempt env (\<lambda>_ temp fs. create_new env fs temp) (\<lambda>_ g. g) ?final fs = (fs1, r1)"
    by (cases "reserve_attempt env (\<lambda>_ temp fs. create_new env fs temp) (\<lambda>_ g. g) ?final fs")
  have "(?all as fs = (fs', Inr (final, temp)))
      \<or> (r1 = Inr None \<and> try_exists env fs ?final = Inr False \<and> ?all as fs1 = (fs', Inr (final, temp)))
      \<or> (r1 = Inr (Some (final, temp)) \<and> fs' = fs1)"
    using Cons.prems t by (simp only: reserve_attempts.simps Let_def) (auto split: sum.splits bool.splits option.splits)
  then show ?case
  proof (elim disjE conjE)
    assume "?all as fs = (fs', Inr (final, temp))"
    from Cons.IH [OF this] show ?thesis by auto
  next
    assume r: "r1 = Inr None" "try_exists env fs ?final = Inr False" "?all as fs1 = (fs', Inr (final, temp))"
    have "\<forall>q. node_at fs1 q = node_at fs q"
      using reserve_attempt_none [OF t [unfolded r(1)] r(2) media_name_mp4(1) temp_is_recording] by blast
    then show ?thesis using Cons.IH [OF r(3)] by auto
  next
    assume "r1 = Inr (Some (final, temp))" "fs' = fs1"
    moreover from this have "final = ?final" using reserve_attempt_quiet t by blast
    ultimately show ?thesis using t by auto
  qed
qed simp

section \<open>Finishing keeps the footage\<close>

text \<open>What the writer thread does at the end is the finalization of the MP4 writer, when it gets that far.\<close>

lemma header_length [simp]: "length (be32 1 @ ascii ''mdat'' @ be64n n) = 16"
  by (simp add: ascii_def)

lemma session_ending_finalizes:
  assumes "writer_ok mw" "finalize mw = Some w"
  shows "\<exists>moov. final_moov mw = Some moov
    \<and> sk_data w = end_session_content \<lparr>en_fragments = [], en_moov = moov, en_header_bytes = 16, en_time = t\<rparr> (sk_data (mw_w mw))"
proof -
  obtain ft fr rest where hdr: "ftyp = Some ft" "free_placeholder = Some fr" "sk_data (mw_w mw) = ft @ fr @ rest"
    "mw_free_offset mw = length ft" and pos: "sk_pos (mw_w mw) = length (sk_data (mw_w mw))"
    using assms(1) by (auto simp: writer_ok_def)
  have free: "mw_free_offset mw = session_free_offset" using hdr(1,2,4) ftyp_free_length by (simp add: session_free_offset_def)
  obtain moov where moov: "final_moov mw = Some moov" using assms(2) by (auto simp: finalize_def bind_eq_Some_conv)
  have sink: "\<lparr>sk_data = sk_data (mw_w mw), sk_pos = length (sk_data (mw_w mw))\<rparr> = mw_w mw" using pos by (cases "mw_w mw") simp
  have "sk_data w = end_session_content \<lparr>en_fragments = [], en_moov = moov, en_header_bytes = 16, en_time = t\<rparr> (sk_data (mw_w mw))"
    using assms(2) moov pos free
    by (simp add: finalize_def end_session_content_def sink write_all_end [OF pos] Let_def take_all del: append_assoc)
  with moov show ?thesis by blast
qed

text \<open>Appending keeps all bytes, and the header replaces the 16 bytes from offset 28 on.\<close>

lemma end_session_keeps_bytes:
  "length content \<le> length (end_session_content e content)
     \<and> (\<forall>i < length content. i < session_free_offset \<or> session_free_offset + 16 \<le> i \<longrightarrow> end_session_content e content ! i = content ! i)"
proof -
  have over: "length d \<le> length (take n d @ replicate (n - length d) 0 @ h @ drop (n + length h) d)
    \<and> (\<forall>i < length d. i < n \<or> n + length h \<le> i \<longrightarrow> (take n d @ replicate (n - length d) 0 @ h @ drop (n + length h) d) ! i = d ! i)"
    for n and h d :: bytes
    by (auto simp: nth_append)
  define d where "d = content @ en_fragments e @ en_moov e"
  define h where "h = take (en_header_bytes e) (be32 1 @ ascii ''mdat'' @ be64n (length (content @ en_fragments e) - session_free_offset))"
  have h: "length h \<le> 16" unfolding h_def by (simp del: append_assoc)
  have d: "length content \<le> length d" "i < length content \<Longrightarrow> d ! i = content ! i" for i
    by (simp_all add: d_def nth_append)
  have c: "end_session_content e content = (if en_header_bytes e = 0 then d
      else take session_free_offset d @ replicate (session_free_offset - length d) 0 @ h @ drop (session_free_offset + length h) d)"
    by (simp add: end_session_content_def Let_def write_all_def seek_start_def d_def h_def)
  have "length d \<le> length (end_session_content e content)" using over [of d session_free_offset h] by (auto simp: c)
  moreover have "end_session_content e content ! i = content ! i"
    if "i < length content" "i < session_free_offset \<or> session_free_offset + 16 \<le> i" for i
  proof -
    have "i < session_free_offset \<or> session_free_offset + length h \<le> i" using that(2) h by linarith
    then have "end_session_content e content ! i = d ! i" using over [of d session_free_offset h] that(1) d(1) by (auto simp: c)
    then show ?thesis using d(2) that(1) by simp
  qed
  ultimately show ?thesis using d(1) by auto
qed

lemma end_session_nonempty: "content \<noteq> [] \<Longrightarrow> end_session_content e content \<noteq> []"
  using end_session_keeps_bytes [of content e] by auto

lemma end_session_file_at: "node_at fs p = Some (FileNode content t) \<Longrightarrow>
    node_at (end_session_file e p fs) p = Some (FileNode (end_session_content e content) (en_time e))"
  by (simp add: end_session_file_def)

definition footage_kept :: "full_session_recording \<Rightarrow> bytes \<Rightarrow> nat \<Rightarrow> fs \<Rightarrow> bool" where
  "footage_kept rec content t fs \<longleftrightarrow> node_at fs (fr_temp_path rec) = Some (FileNode content t)
     \<or> node_at fs (fr_final_path rec) = Some (FileNode content t)"

lemma finish_error_keeps:
  assumes "node_at fs temp = Some (FileNode content t)" "content \<noteq> []" "is_recording_mp4 temp"
  shows "node_at (fst (handle_full_session_finish_error env temp fs)) temp = Some (FileNode content t)"
  using assms by (auto simp: handle_full_session_finish_error_def stat_def lstat_def remove_marker_keeps_media split: sum.splits)

lemma write_marker_sidecar_keeps:
  assumes "write_marker_sidecar env render entries p s e summary tracks fs = (fs', evs, n)" "is_mp4 p"
  shows "node_at fs' p = node_at fs p"
proof -
  have "p \<noteq> with_extension p ''markers.json''"
    using sidecar_not_media [of p "with_extension p ''markers.json''"] assms(2) by (auto simp: sidecar_candidates_def sidecar_path_def)
  then have "write_file env fs (with_extension p ''markers.json'') json = (g, r) \<Longrightarrow> node_at g p = node_at fs p" for json g r
    using write_file_elsewhere by blast
  with assms(1) show ?thesis
    by (auto simp: write_marker_sidecar_def Let_def split: if_splits option.splits prod.splits sum.splits)
qed

lemma emit_saved_clip_keeps:
  assumes "emit_saved_clip env leased meanwhile quota auto dir p seconds meta fs = (fs', evs, status)" "is_mp4 p"
    "\<forall>k g. node_at (meanwhile k g) p = node_at g p" "node_at fs p = Some (FileNode content t)"
  shows "node_at fs' p = Some (FileNode content t)"
proof (cases auto)
  case True
  obtain fs1 r where q: "enforce_quota_with_protection env leased meanwhile dir quota (Some p) fs = (fs1, r)"
    by (cases "enforce_quota_with_protection env leased meanwhile dir quota (Some p) fs")
  have "fs' = fs1" using assms(1) True q by (auto simp: emit_saved_clip_def Let_def split: sum.splits)
  with protected_clip_stays [OF q assms(3,2,4)] show ?thesis by simp
next
  case False
  then have "fs' = fs" using assms(1) by (auto simp: emit_saved_clip_def Let_def split: sum.splits)
  with assms(4) show ?thesis by simp
qed

lemma finish_keeps:
  assumes "finish_full_session_recording env leased meanwhile ctx ending finished (Some rec) fs = (fs', evs, status)"
    "node_at (end_session_file ending (fr_temp_path rec) fs) (fr_temp_path rec) = Some (FileNode content t)" "content \<noteq> []"
    "is_recording_mp4 (fr_temp_path rec)" "is_mp4 (fr_final_path rec)"
    "\<forall>k g. node_at (meanwhile k g) (fr_final_path rec) = node_at g (fr_final_path rec)"
  shows "footage_kept rec content t fs'"
proof -
  let ?fs0 = "end_session_file ending (fr_temp_path rec) fs"
  let ?failed = "case handle_full_session_finish_error env (fr_temp_path rec) ?fs0 of (fs1, evs) \<Rightarrow> (fs1, evs, None)"
  have failed: "footage_kept rec content t (fst ?failed)"
    using finish_error_keeps [OF assms(2-4)] by (simp add: footage_kept_def split: prod.splits) (metis fst_conv)
  consider "(fs', evs, status) = ?failed"
    | s e d where "finished = Inr (Some (s, e, d))" "\<not> (is_finite d \<and> fle d (Fin 0))"
  proof (cases finished)
    case (Inr x)
    then show ?thesis using assms(1) that by (cases x) (auto simp: finish_full_session_recording_def Let_def split: if_splits)
  qed (use assms(1) that in \<open>auto simp: finish_full_session_recording_def Let_def\<close>)
  then show ?thesis
  proof cases
    case 1
    with failed show ?thesis by (metis fst_conv)
  next
    case (2 s e d)
    obtain fs1 evs1 ok where rn: "rename_finalized_session env rec ?fs0 = (fs1, evs1, ok)" by (metis prod_cases3)
    show ?thesis
    proof (cases ok)
      case False
      then have "fs' = fs1" using assms(1) 2 rn by (auto simp: finish_full_session_recording_def Let_def)
      moreover have "fs1 = ?fs0"
        using rn False by (auto simp: rename_finalized_session_def rename_file_def split: option.splits if_splits)
      ultimately show ?thesis using assms(2) by (simp add: footage_kept_def)
    next
      case True
      have fs1: "node_at fs1 (fr_final_path rec) = Some (FileNode content t)"
        using rn True assms(2) by (auto simp: rename_finalized_session_def rename_file_def split: option.splits if_splits)
      obtain fs2 evs2 n where w: "write_marker_sidecar env (fc_render ctx) (fc_marker_log ctx) (fr_final_path rec)
          s e (fc_player_summary ctx) (fc_audio_tracks ctx) fs1 = (fs2, evs2, n)" by (metis prod_cases3)
      have fs2: "node_at fs2 (fr_final_path rec) = Some (FileNode content t)"
        using write_marker_sidecar_keeps [OF w assms(5)] fs1 by simp
      obtain g evs3 st where em: "emit_saved_clip env leased meanwhile (fc_disk_quota_bytes ctx) (fc_auto_delete ctx)
          (fc_clips_dir ctx) (fr_final_path rec) (if is_finite d then d else Fin 0) \<lparr>sc_markers = n, sc_full_session = True,
             sc_recording_start_unix = Some (fr_wall_start_unix rec), sc_recording_end_unix = Some (fc_unix_now ctx)\<rparr> fs2
          = (g, evs3, st)" by (metis prod_cases3)
      then have "fs' = g"
        using assms(1) 2 rn True w by (auto simp: finish_full_session_recording_def Let_def split: if_splits)
      then have "node_at fs' (fr_final_path rec) = Some (FileNode content t)"
        using emit_saved_clip_keeps [OF em assms(5,6) fs2] by simp
      then show ?thesis by (simp add: footage_kept_def)
    qed
  qed
qed

lemma shutdown_keeps:
  assumes "shutdown_recorder env leased meanwhile ctx stream ending finished (Some rec) fs = (fs', evs, failed)"
    "node_at fs (fr_temp_path rec) = Some (FileNode content t)" "end_session_content ending content \<noteq> []"
    "is_recording_mp4 (fr_temp_path rec)" "is_mp4 (fr_final_path rec)"
    "\<forall>k g. node_at (meanwhile k g) (fr_final_path rec) = node_at g (fr_final_path rec)"
  shows "footage_kept rec (end_session_content ending content) (en_time ending) fs'"
proof -
  note after = end_session_file_at [OF assms(2), of ending]
  show ?thesis
  proof (cases stream)
    case (Inl e)
    then have "fs' = fst (handle_full_session_finish_error env (fr_temp_path rec) (end_session_file ending (fr_temp_path rec) fs))"
      using assms(1) by (auto simp: shutdown_recorder_def preserve_full_session_recording_def split: prod.splits)
    with finish_error_keeps [OF after assms(3,4)] show ?thesis by (simp add: footage_kept_def)
  next
    case (Inr u)
    obtain g evs1 st where f: "finish_full_session_recording env leased meanwhile ctx ending finished (Some rec) fs = (g, evs1, st)" by (metis prod_cases3)
    then have "fs' = g" using assms(1) Inr by (simp add: shutdown_recorder_def)
    with finish_keeps [OF f after assms(3-6)] show ?thesis by simp
  qed
qed

section \<open>Room under the quota\<close>

lemma quota_room: "\<not> quota_would_be_exceeded used (Some quota) required \<longleftrightarrow> used + required \<le> quota"
  by (auto simp: quota_would_be_exceeded_def)

lemma quota_event_None: "storage_quota_event_for_usage used (Some quota) required = None \<longleftrightarrow> used + required \<le> quota"
  by (simp add: storage_quota_event_for_usage_def quota_room [symmetric])

lemma no_event_means_room:
  assumes "storage_quota_full_event env leased meanwhile dir (Some quota) required auto fs = (fs', evs, None)"
    "storage_status env fs dir (Some quota) = Inr s0"
  shows "\<exists>s. storage_status env fs' dir (Some quota) = Inr s \<and> st_total_bytes s + required \<le> quota"
proof (cases "quota_would_be_exceeded (st_total_bytes s0) (Some quota) required")
  case False
  then have "fs' = fs" using assms by (simp add: storage_quota_full_event_def storage_status_or_warn_def)
  with assms(2) False show ?thesis by (simp add: quota_room)
next
  case True
  have a: auto using assms True by (cases auto) (simp_all add: storage_quota_full_event_def storage_status_or_warn_def storage_quota_event_for_usage_def)
  obtain g evs1 cleaned where m: "make_room_for_quota env leased meanwhile dir (Some quota) required None fs = (g, evs1, cleaned)" by (metis prod_cases3)
  obtain s n where c: "cleaned = Some (s, n)" "fs' = g" "\<not> quota_would_be_exceeded (st_total_bytes s) (Some quota) required"
    using assms True a m
    by (cases cleaned) (auto simp: storage_quota_full_event_def storage_status_or_warn_def storage_quota_event_for_usage_def Let_def
        split: if_splits)
  have "storage_status env g dir (Some quota) = Inr s"
    using m c(1) by (auto simp: make_room_for_quota_def storage_status_or_warn_def Let_def split: prod.splits sum.splits)
  with c show ?thesis by (auto simp: quota_room)
qed

end
