(* ===== verification/Service_Cache.thy ===== *)
theory Service_Cache
  imports Service_Files Storage_Correct
begin

text \<open>
  The folder of the replay cache (prepare_replay_storage and its helpers in service.rs): runs of
  earlier processes are swept, then the run of this process gets a folder of its own and a record
  that names its owner.
\<close>

section \<open>Whole directories\<close>

definition below :: "path \<Rightarrow> path \<Rightarrow> bool" where
  "below d p \<longleftrightarrow> path_starts_with p d"

text \<open>\<open>remove_dir_all\<close>: entries go until one is refused; the directory itself goes last.\<close>

definition remove_dir_all :: "fs_env \<Rightarrow> fs \<Rightarrow> path \<Rightarrow> fs \<times> unit io" where
  "remove_dir_all env fs d = (case node_at fs d of
       None \<Rightarrow> (fs, Inl NotFound)
     | Some DirNode \<Rightarrow>
         let gone = takeWhile (ev_remove env) (filter (below d) (rev (map fst fs)))
         in (filter (\<lambda>(q, _). q \<notin> set gone) fs, if list_all (ev_remove env) (filter (below d) (map fst fs)) then Inr () else Inl Refused)
     | Some _ \<Rightarrow> (fs, Inl Refused))"

text \<open>The size of a tree, links not followed; \<open>depth\<close> bounds the nesting below the directory.\<close>

fun replay_cache_run_size :: "fs_env \<Rightarrow> fs \<Rightarrow> nat \<Rightarrow> path \<Rightarrow> nat" where
  "replay_cache_run_size env fs depth p = (case lstat env fs p of
       Inr (FileNode content _) \<Rightarrow> length content
     | Inr DirNode \<Rightarrow> (case depth of 0 \<Rightarrow> 0
         | Suc d \<Rightarrow> (case read_dir env fs p of
             Inl _ \<Rightarrow> 0
           | Inr entries \<Rightarrow> foldl (\<lambda>n q. sat_add_u64 n (replay_cache_run_size env fs d q)) 0 (filter (ev_entry env) entries)))
     | _ \<Rightarrow> 0)"

definition tree_depth :: "fs \<Rightarrow> nat" where
  "tree_depth fs = Max (set (0 # map (length \<circ> fst) fs))"

section \<open>Sweeping\<close>

record replay_cache_owner =
  ro_process_instance_id :: string
  ro_created_at_unix :: nat

definition replay_cache_owner_file :: string where
  "replay_cache_owner_file = ''.clipline-run.json''"

definition ambiguous_replay_cache_max_age :: nat where
  "ambiguous_replay_cache_max_age = 24 * 60 * 60 * 1000000000"

text \<open>
  \<open>parse\<close> reads an ownership record, \<open>instances\<close> answers which instance a process number belongs to
  now, \<open>modified\<close> is the time of a directory; times count nanoseconds.
\<close>

record cache_env =
  ce_fs :: fs_env
  ce_parse :: "bytes \<Rightarrow> replay_cache_owner option"
  ce_render :: "replay_cache_owner \<Rightarrow> bytes"
  ce_instance :: "nat \<Rightarrow> string option"
  ce_modified :: "path \<Rightarrow> nat option"
  ce_now :: nat
  ce_created_at :: nat
  ce_pid :: nat
  ce_free_bytes :: "nat option"

definition read_owner :: "cache_env \<Rightarrow> fs \<Rightarrow> path \<Rightarrow> replay_cache_owner option" where
  "read_owner env fs run = (case stat (ce_fs env) fs (run @ [replay_cache_owner_file]) of
       Inr (FileNode content _) \<Rightarrow> ce_parse env content
     | _ \<Rightarrow> None)"

definition definitively_stale :: "cache_env \<Rightarrow> fs \<Rightarrow> path \<Rightarrow> bool option" where
  "definitively_stale env fs run = (case read_owner env fs run of
       None \<Rightarrow> None
     | Some owner \<Rightarrow> (case replay_cache_owner_identity (ro_process_instance_id owner) of
           None \<Rightarrow> None
         | Some (pid, _) \<Rightarrow> map_option (\<lambda>current. current \<noteq> ro_process_instance_id owner) (ce_instance env pid)))"

definition old_enough :: "cache_env \<Rightarrow> path \<Rightarrow> bool" where
  "old_enough env run = (case ce_modified env run of
       None \<Rightarrow> False
     | Some modified \<Rightarrow> modified \<le> ce_now env \<and> ambiguous_replay_cache_max_age \<le> ce_now env - modified)"

definition should_remove :: "cache_env \<Rightarrow> fs \<Rightarrow> path \<Rightarrow> bool" where
  "should_remove env fs run = (case definitively_stale env fs run of Some stale \<Rightarrow> stale | None \<Rightarrow> old_enough env run)"

fun sweep_entries :: "cache_env \<Rightarrow> path list \<Rightarrow> fs \<Rightarrow> nat \<Rightarrow> fs \<times> nat" where
  "sweep_entries env [] fs preserved_bytes = (fs, preserved_bytes)"
| "sweep_entries env (p # ps) fs preserved_bytes =
     (if \<not> ev_entry (ce_fs env) p then sweep_entries env ps fs preserved_bytes
      else case file_name p of
        None \<Rightarrow> sweep_entries env ps fs preserved_bytes
      | Some name \<Rightarrow>
          if \<not> is_replay_cache_run_name name \<or> lstat (ce_fs env) fs p \<noteq> Inr DirNode then sweep_entries env ps fs preserved_bytes
          else let (fs1, gone) = (if should_remove env fs p
                     then (case remove_dir_all (ce_fs env) fs p of (fs1, r) \<Rightarrow> (fs1, r = Inr ())) else (fs, False))
               in if gone then sweep_entries env ps fs1 preserved_bytes
                  else sweep_entries env ps fs1
                    (sat_add_u64 preserved_bytes (replay_cache_run_size (ce_fs env) fs1 (tree_depth fs1) p)))"

definition sweep_replay_cache_runs :: "cache_env \<Rightarrow> path \<Rightarrow> fs \<Rightarrow> fs \<times> nat io" where
  "sweep_replay_cache_runs env cache_root fs = (case read_dir (ce_fs env) fs cache_root of
       Inl e \<Rightarrow> (fs, Inl e)
     | Inr entries \<Rightarrow> (case sweep_entries env entries fs 0 of (fs1, preserved) \<Rightarrow> (fs1, Inr preserved)))"

section \<open>Preparing a run\<close>

datatype replay_storage_options = MemoryStorage | DiskStorage path nat

record prepared_replay_storage =
  pr_run_dir :: "path option"
  pr_max_bytes :: nat
  pr_armed :: bool

definition prepared_memory :: "nat \<Rightarrow> prepared_replay_storage" where
  "prepared_memory max_bytes = \<lparr>pr_run_dir = None, pr_max_bytes = max_bytes, pr_armed = False\<rparr>"

definition prepared_disk :: "path \<Rightarrow> nat \<Rightarrow> prepared_replay_storage" where
  "prepared_disk run_dir max_bytes = \<lparr>pr_run_dir = Some run_dir, pr_max_bytes = max_bytes, pr_armed = True\<rparr>"

definition prepared_disarm :: "prepared_replay_storage \<Rightarrow> prepared_replay_storage" where
  "prepared_disarm p = p\<lparr>pr_armed := False\<rparr>"

definition prepared_drop :: "fs_env \<Rightarrow> prepared_replay_storage \<Rightarrow> fs \<Rightarrow> fs" where
  "prepared_drop env p fs = (case pr_run_dir p of
       Some run_dir \<Rightarrow> if pr_armed p then fst (remove_dir_all env fs run_dir) else fs
     | None \<Rightarrow> fs)"

definition low_replay_cache_disk_reserve_bytes :: nat where
  "low_replay_cache_disk_reserve_bytes = 2 * 1024 * 1024 * 1024"

definition ensure_replay_cache_free_space :: "cache_env \<Rightarrow> replay_storage_options \<Rightarrow> bool" where
  "ensure_replay_cache_free_space env storage = (case storage of
       MemoryStorage \<Rightarrow> True
     | DiskStorage _ _ \<Rightarrow> (case ce_free_bytes env of None \<Rightarrow> False | Some free \<Rightarrow> low_replay_cache_disk_reserve_bytes \<le> free))"

definition replay_cache_run_name :: "nat \<Rightarrow> nat \<Rightarrow> nat \<Rightarrow> string" where
  "replay_cache_run_name stamp pid attempt =
     replay_cache_run_prefix @ decimal stamp @ ''-'' @ decimal pid @ ''-'' @ decimal attempt"

definition create_dir :: "fs_env \<Rightarrow> fs \<Rightarrow> path \<Rightarrow> fs \<times> unit io" where
  "create_dir env fs p = (if node_at fs p \<noteq> None then (fs, Inl Exists)
     else if ev_create env p then (placed fs p DirNode, Inr ()) else (fs, Inl Refused))"

fun create_run_dir :: "cache_env \<Rightarrow> path \<Rightarrow> nat \<Rightarrow> nat list \<Rightarrow> fs \<Rightarrow> fs \<times> path io" where
  "create_run_dir env dir stamp [] fs = (fs, Inl Exists)"
| "create_run_dir env dir stamp (attempt # rest) fs =
     (let candidate = dir @ [replay_cache_run_name stamp (ce_pid env) attempt]
      in case create_dir (ce_fs env) fs candidate of
           (fs1, Inr _) \<Rightarrow> (fs1, Inr candidate)
         | (fs1, Inl e) \<Rightarrow> if e = Exists then create_run_dir env dir stamp rest fs1 else (fs1, Inl e))"

definition write_replay_cache_owner :: "cache_env \<Rightarrow> path \<Rightarrow> replay_cache_owner \<Rightarrow> fs \<Rightarrow> fs \<times> unit io" where
  "write_replay_cache_owner env run_dir owner fs =
     (let p = run_dir @ [replay_cache_owner_file]
      in case create_new (ce_fs env) fs p of
           (fs1, Inl e) \<Rightarrow> (fs1, Inl e)
         | (fs1, Inr _) \<Rightarrow> write_all_to (ce_fs env) fs1 p (ce_render env owner))"

text \<open>The smallest quota is 256 MiB; \<open>usize\<close> holds what is left of it.\<close>

definition prepare_replay_storage :: "cache_env \<Rightarrow> replay_storage_options \<Rightarrow> nat \<Rightarrow> fs \<Rightarrow> fs \<times> prepared_replay_storage io" where
  "prepare_replay_storage env storage buffer_bytes fs = (case storage of
       MemoryStorage \<Rightarrow> (fs, Inr (prepared_memory buffer_bytes))
     | DiskStorage dir quota_bytes \<Rightarrow>
         if quota_bytes < 256 * 1024 * 1024 then (fs, Inl BadInput)
         else (case create_dir_all (ce_fs env) fs dir of
             (fs1, Inl e) \<Rightarrow> (fs1, Inl e)
           | (fs1, Inr _) \<Rightarrow>
               if \<not> ensure_replay_cache_free_space env storage then (fs1, Inl Refused)
               else (case sweep_replay_cache_runs env dir fs1 of
                   (fs2, Inl e) \<Rightarrow> (fs2, Inl e)
                 | (fs2, Inr preserved_bytes) \<Rightarrow>
                     let available_quota = quota_bytes - preserved_bytes
                     in if available_quota = 0 then (fs2, Inl Refused)
                        else (case ce_instance env (ce_pid env) of
                            None \<Rightarrow> (fs2, Inl Refused)
                          | Some instance_id \<Rightarrow>
                              (case create_run_dir env dir (ce_created_at env) [0..<1024] fs2 of
                                 (fs3, Inl e) \<Rightarrow> (fs3, Inl e)
                               | (fs3, Inr run_dir) \<Rightarrow>
                                   (case write_replay_cache_owner env run_dir
                                        \<lparr>ro_process_instance_id = instance_id, ro_created_at_unix = ce_created_at env div 1000000000\<rparr> fs3 of
                                      (fs4, Inl e) \<Rightarrow> (fst (remove_dir_all (ce_fs env) fs4 run_dir), Inl e)
                                    | (fs4, Inr _) \<Rightarrow> (fs4, Inr (prepared_disk run_dir (min available_quota usize_max)))))))))"

section \<open>Names of runs\<close>

lemma run_name_round_trip:
  assumes "stamp < 2 ^ 128" "pid < 2 ^ 32" "attempt < 2 ^ 32"
  shows "replay_cache_run_identity (replay_cache_run_name stamp pid attempt) = Some (stamp, pid)"
proof -
  have "strip_prefix replay_cache_run_prefix (replay_cache_run_name stamp pid attempt)
      = Some (decimal stamp @ CHR ''-'' # decimal pid @ CHR ''-'' # decimal attempt)"
    by (simp add: strip_prefix_def replay_cache_run_name_def)
  then show ?thesis
    using assms by (simp add: replay_cache_run_identity_def split_on_append split_on_none decimal_free)
qed

section \<open>What a sweep removes\<close>

lemma below_refl [simp]: "below d d"
  by (simp add: below_def path_starts_with_def)

lemma remove_dir_all_outside:
  "remove_dir_all env fs d = (fs', r) \<Longrightarrow> \<not> below d q \<Longrightarrow> node_at fs' q = node_at fs q"
proof -
  assume a: "remove_dir_all env fs d = (fs', r)" "\<not> below d q"
  have "map_of (filter (\<lambda>(p, _). p \<notin> S) fs) q = map_of fs q" if "q \<notin> S" for S and fs :: fs
    using that by (induction fs) auto
  moreover have "q \<notin> set (takeWhile P (filter (below d) xs))" for P xs
    using a(2) by (auto dest: set_takeWhileD)
  ultimately show ?thesis using a(1) by (auto simp: remove_dir_all_def node_at_def Let_def split: option.splits node.splits)
qed

definition kept_run :: "cache_env \<Rightarrow> fs \<Rightarrow> path \<Rightarrow> bool" where
  "kept_run env fs p \<longleftrightarrow> (case file_name p of None \<Rightarrow> True | Some name \<Rightarrow> \<not> is_replay_cache_run_name name)
     \<or> node_at fs p \<noteq> Some DirNode \<or> \<not> should_remove env fs p"

lemma entry_below: "butlast p = d \<Longrightarrow> butlast p' = d \<Longrightarrow> p \<noteq> [] \<Longrightarrow> p' \<noteq> [] \<Longrightarrow> below p q \<Longrightarrow> below p' q \<Longrightarrow> p = p'"
proof -
  assume a: "butlast p = d" "butlast p' = d" "p \<noteq> []" "p' \<noteq> []" "below p q" "below p' q"
  have "length p = Suc (length d)" using a(1,3) by (cases p rule: rev_cases) auto
  moreover have "length p' = Suc (length d)" using a(2,4) by (cases p' rule: rev_cases) auto
  moreover have "take (length p) q = p" "take (length p') q = p'" using a(5,6) by (simp_all add: below_def path_starts_with_def)
  ultimately show ?thesis by simp
qed

lemma should_remove_cong:
  assumes "\<forall>q. below p q \<longrightarrow> node_at fs' q = node_at fs q"
  shows "should_remove env fs' p = should_remove env fs p"
proof -
  have "below p (p @ [replay_cache_owner_file])" by (simp add: below_def path_starts_with_def)
  with assms have "node_at fs' (p @ [replay_cache_owner_file]) = node_at fs (p @ [replay_cache_owner_file])" by blast
  then show ?thesis by (simp add: should_remove_def definitively_stale_def read_owner_def stat_def lstat_def)
qed

lemma sweep_entries_keep:
  assumes "sweep_entries env ps fs n = (fs', m)" "distinct ps" "\<forall>p \<in> set ps. p \<noteq> [] \<and> butlast p = cache_root"
    "\<forall>p \<in> set ps. below p q \<longrightarrow> kept_run env fs p"
  shows "node_at fs' q = node_at fs q"
  using assms
proof (induction ps arbitrary: fs n)
  case (Cons p ps)
  have rest: "distinct ps" "\<forall>p \<in> set ps. p \<noteq> [] \<and> butlast p = cache_root" "\<forall>p \<in> set ps. below p q \<longrightarrow> kept_run env fs p"
    using Cons.prems(2-4) by auto
  show ?case
  proof (cases "ev_entry (ce_fs env) p \<and> (\<exists>name. file_name p = Some name \<and> is_replay_cache_run_name name)
      \<and> lstat (ce_fs env) fs p = Inr DirNode \<and> should_remove env fs p")
    case False
    have "\<exists>n'. sweep_entries env (p # ps) fs n = sweep_entries env ps fs n'"
    proof (cases "ev_entry (ce_fs env) p")
      case entry: True
      show ?thesis
      proof (cases "file_name p")
        case (Some name)
        show ?thesis
        proof (cases "is_replay_cache_run_name name \<and> lstat (ce_fs env) fs p = Inr DirNode")
          case True
          with False Some entry have "\<not> should_remove env fs p" by blast
          with True Some entry show ?thesis by (simp add: Let_def) blast
        next
          case other: False
          then have "\<not> is_replay_cache_run_name name \<or> lstat (ce_fs env) fs p \<noteq> Inr DirNode" by blast
          then have "sweep_entries env (p # ps) fs n = sweep_entries env ps fs n"
            using Some entry by (simp only: sweep_entries.simps simp_thms if_False if_True option.case)
          then show ?thesis ..
        qed
      qed (auto simp: entry)
    qed auto
    then show ?thesis using Cons.IH rest Cons.prems(1) by metis
  next
    case True
    obtain fs1 r where rm: "remove_dir_all (ce_fs env) fs p = (fs1, r)" by (cases "remove_dir_all (ce_fs env) fs p")
    obtain name where name: "file_name p = Some name" "is_replay_cache_run_name name" using True by blast
    have "\<exists>n'. sweep_entries env (p # ps) fs n = sweep_entries env ps fs1 n'"
      using True name rm by (cases "r = Inr ()") (auto simp: Let_def)
    then have "\<exists>n'. sweep_entries env ps fs1 n' = (fs', m)" using Cons.prems(1) by auto
    then obtain n' where n': "sweep_entries env ps fs1 n' = (fs', m)" ..
    have "\<not> kept_run env fs p" using True by (auto simp: kept_run_def lstat_Inr)
    then have out: "\<not> below p q" using Cons.prems(4) by auto
    have "kept_run env fs1 p'" if p': "p' \<in> set ps" "below p' q" for p'
    proof -
      have ne: "p' \<noteq> p" "p' \<noteq> []" "p \<noteq> []" "butlast p' = cache_root" "butlast p = cache_root" using Cons.prems(2,3) p'(1) by auto
      have same: "node_at fs1 x = node_at fs x" if "below p' x" for x
      proof (rule remove_dir_all_outside [OF rm])
        show "\<not> below p x" using entry_below [of p cache_root p' x] ne that by blast
      qed
      have "kept_run env fs p'" using rest(3) p' by blast
      then show ?thesis
        using should_remove_cong [of p' fs1 fs env] same same [OF below_refl] by (auto simp: kept_run_def)
    qed
    then have "node_at fs' q = node_at fs1 q" using Cons.IH [OF n' rest(1,2)] by blast
    then show ?thesis using remove_dir_all_outside [OF rm out] by simp
  qed
qed simp

lemma sweep_keeps:
  assumes "sweep_replay_cache_runs env cache_root fs = (fs', r)" "distinct (map fst fs)"
    "\<forall>p. p \<noteq> [] \<longrightarrow> butlast p = cache_root \<longrightarrow> below p q \<longrightarrow> kept_run env fs p"
  shows "node_at fs' q = node_at fs q"
proof (cases "read_dir (ce_fs env) fs cache_root")
  case (Inl e)
  with assms(1) show ?thesis by (simp add: sweep_replay_cache_runs_def)
next
  case (Inr es)
  have es: "es = entries_of fs cache_root" using read_dir_entries [OF Inr] .
  obtain n where n: "sweep_entries env es fs 0 = (fs', n)"
    using assms(1) Inr by (auto simp: sweep_replay_cache_runs_def split: prod.splits)
  have "distinct es" unfolding es entries_of_def by (rule distinct_map_filter [OF assms(2)])
  moreover have e: "\<forall>p \<in> set es. p \<noteq> [] \<and> butlast p = cache_root" using entries_of_in es by blast
  moreover have "\<forall>p \<in> set es. below p q \<longrightarrow> kept_run env fs p" using e assms(3) by blast
  ultimately show ?thesis by (rule sweep_entries_keep [OF n])
qed

end
