(* ===== verification/Service_Capture.thy ===== *)
theory Service_Capture
  imports Pipeline_Time Schema
begin

text \<open>
  The capture side of the recorder service (apps/clipline-app/src/service.rs): the cadence that keeps
  the encoder moving while the screen is still, and the part of a display that a region covers.
\<close>

section \<open>Durations\<close>

text \<open>
  \<open>Duration::from_secs_f64\<close> in nanoseconds: to the nearest, ties to even; a negative value, a NaN and
  one past 2^64 seconds panic.
\<close>

definition from_secs_f64 :: "f64 \<Rightarrow> nat option" where
  "from_secs_f64 x = (case x of
       Fin q \<Rightarrow> if q < 0 then None
               else let n = round_even (q * 10 ^ 9) in if 2 ^ 64 * 10 ^ 9 \<le> n then None else Some (nat n)
     | NZero \<Rightarrow> Some 0
     | _ \<Rightarrow> None)"

text \<open>\<open>floor() as u64\<close>.\<close>

definition floor_u64 :: "f64 \<Rightarrow> nat" where
  "floor_u64 x = (case x of NaN \<Rightarrow> 0 | Infinity s \<Rightarrow> if s then 0 else u64_max | NZero \<Rightarrow> 0 | Fin q \<Rightarrow> min (nat \<lfloor>q\<rfloor>) u64_max)"

section \<open>The cadence\<close>

text \<open>Instants are nanoseconds of the monotonic clock, below 2^64 seconds; \<open>'d\<close> is a frame's data.\<close>

record 'd cadenced_capture =
  cc_frame_interval :: nat
  cc_frame_interval_s :: f64
  cc_last_data :: "'d option"
  cc_last_emit_pts_s :: "f64 option"
  cc_next_pts_s :: "f64 option"
  cc_last_emit_wall :: nat
  cc_retry_deadline :: "nat option"

definition cadence_step :: f64 where
  "cadence_step = f64_of_rat (1 / 10000)"

definition cadenced_new :: "nat \<Rightarrow> f64 \<Rightarrow> 'd \<Rightarrow> nat \<Rightarrow> 'd cadenced_capture option" where
  "cadenced_new fps seed_pts_s seed_data now =
     (let frame_interval_s = fdiv (Fin 1) (f64_of_nat (max fps 1))
      in map_option (\<lambda>frame_interval. \<lparr>cc_frame_interval = frame_interval, cc_frame_interval_s = frame_interval_s,
           cc_last_data = Some seed_data, cc_last_emit_pts_s = Some seed_pts_s,
           cc_next_pts_s = Some (fadd seed_pts_s frame_interval_s), cc_last_emit_wall = now, cc_retry_deadline = None\<rparr>)
         (from_secs_f64 frame_interval_s))"

definition instant_limit :: nat where
  "instant_limit = 2 ^ 64 * 10 ^ 9"

definition anchored_wall :: "'d cadenced_capture \<Rightarrow> f64 \<Rightarrow> nat \<Rightarrow> nat option" where
  "anchored_wall c pts_s now = (case cc_last_emit_pts_s c of
       None \<Rightarrow> Some now
     | Some last_pts \<Rightarrow>
         let delta = fsub pts_s last_pts
         in if \<not> (is_finite delta \<and> fle (Fin 0) delta) then Some now
            else map_option (\<lambda>d. if cc_last_emit_wall c + d < instant_limit then min (cc_last_emit_wall c + d) now else now)
              (from_secs_f64 delta))"

definition cadence_remember :: "'d cadenced_capture \<Rightarrow> f64 \<Rightarrow> 'd \<Rightarrow> nat \<Rightarrow> 'd cadenced_capture option" where
  "cadence_remember c pts_s data now = map_option (\<lambda>wall. c\<lparr>cc_last_emit_wall := wall, cc_last_data := Some data,
     cc_last_emit_pts_s := Some pts_s, cc_next_pts_s := Some (fadd pts_s (cc_frame_interval_s c))\<rparr>) (anchored_wall c pts_s now)"

datatype 'd source_answer = SourceFrame f64 'd | SourceEnded | SourceTimeout | SourceFailed

datatype 'd next_frame = NextFrame f64 'd | NoMoreFrames | RetryAfter nat | CaptureFailed

definition cadence_timeout :: "'d cadenced_capture \<Rightarrow> nat \<Rightarrow> nat" where
  "cadence_timeout c now =
     (let wall_remaining = cc_frame_interval c - (now - cc_last_emit_wall c)
      in case cc_retry_deadline c of None \<Rightarrow> wall_remaining | Some deadline \<Rightarrow> min (deadline - now) wall_remaining)"

text \<open>A frame that arrived: too early for its slot, it only replaces the picture.\<close>

definition cadence_frame :: "'d cadenced_capture \<Rightarrow> f64 \<Rightarrow> 'd \<Rightarrow> nat \<Rightarrow> nat \<Rightarrow> ('d cadenced_capture \<times> 'd next_frame) option" where
  "cadence_frame c pts_s data now2 now3 =
     (let deliver = (let pts = (case cc_last_emit_pts_s c of None \<Rightarrow> pts_s | Some last_pts \<Rightarrow> fmax pts_s (fadd last_pts cadence_step))
            in map_option (\<lambda>c'. (c', NextFrame pts data)) (cadence_remember c pts data now3))
      in case cc_next_pts_s c of
           None \<Rightarrow> deliver
         | Some next_pts_s \<Rightarrow>
             if flt pts_s next_pts_s
             then map_option (\<lambda>pts_remaining.
                 let wall_remaining = cc_frame_interval c - (now2 - cc_last_emit_wall c);
                     retry_after = min pts_remaining wall_remaining
                 in (c\<lparr>cc_last_data := Some data, cc_retry_deadline := Some (now2 + retry_after)\<rparr>, RetryAfter retry_after))
               (from_secs_f64 (fmax (fmin (fsub next_pts_s pts_s) (cc_frame_interval_s c)) (Fin 0)))
             else deliver)"

text \<open>A timeout: the last picture again, once its slot has come.\<close>

definition cadence_duplicate ::
  "'d cadenced_capture \<Rightarrow> nat option \<Rightarrow> nat \<Rightarrow> ('d cadenced_capture \<times> 'd next_frame) option" where
  "cadence_duplicate c retry_deadline now2 = (case cc_last_data c of
       None \<Rightarrow> Some (c, RetryAfter (cc_frame_interval c))
     | Some data \<Rightarrow>
         let elapsed = now2 - cc_last_emit_wall c
         in if elapsed < cc_frame_interval c
            then let wall_remaining = cc_frame_interval c - elapsed;
                     c1 = (case retry_deadline of Some deadline \<Rightarrow> if now2 < deadline then c\<lparr>cc_retry_deadline := retry_deadline\<rparr> else c
                           | None \<Rightarrow> c)
                 in Some (c1, RetryAfter (case retry_deadline of None \<Rightarrow> wall_remaining | Some deadline \<Rightarrow> min (deadline - now2) wall_remaining))
            else let intervals = max (floor_u64 (fdiv (as_secs_f64 elapsed) (cc_frame_interval_s c))) 1;
                     skipped = intervals - 1;
                     min_pts = (case cc_last_emit_pts_s c of None \<Rightarrow> Fin 0 | Some last_pts \<Rightarrow> fadd last_pts cadence_step);
                     pts_s = fmax (fadd (case cc_next_pts_s c of None \<Rightarrow> min_pts | Some next_pts_s \<Rightarrow> next_pts_s)
                                (fmul (f64_of_nat skipped) (cc_frame_interval_s c))) min_pts
                 in map_option (\<lambda>d. (c\<lparr>cc_last_emit_pts_s := Some pts_s, cc_next_pts_s := Some (fadd pts_s (cc_frame_interval_s c)),
                        cc_last_emit_wall := cc_last_emit_wall c + d\<rparr>, NextFrame pts_s data))
                      (from_secs_f64 (fmul (f64_of_nat intervals) (cc_frame_interval_s c))))"

text \<open>
  \<open>next_frame\<close>: \<open>answer\<close> is what the source says within the timeout, \<open>now2\<close> and \<open>now3\<close> the later readings
  of the clock.  \<open>None\<close> is a panic.
\<close>

definition cadence_next ::
  "'d cadenced_capture \<Rightarrow> 'd source_answer \<Rightarrow> nat \<Rightarrow> nat \<Rightarrow> ('d cadenced_capture \<times> 'd next_frame) option" where
  "cadence_next c answer now2 now3 =
     (let c1 = c\<lparr>cc_retry_deadline := None\<rparr>
      in case answer of
           SourceFrame pts_s data \<Rightarrow> cadence_frame c1 pts_s data now2 now3
         | SourceEnded \<Rightarrow> Some (c1, NoMoreFrames)
         | SourceTimeout \<Rightarrow> cadence_duplicate c1 (cc_retry_deadline c) now2
         | SourceFailed \<Rightarrow> Some (c1, CaptureFailed))"

fun cadence_run :: "'d cadenced_capture \<Rightarrow> ('d source_answer \<times> nat \<times> nat) list \<Rightarrow> ('d cadenced_capture \<times> 'd next_frame list) option" where
  "cadence_run c [] = Some (c, [])"
| "cadence_run c ((answer, now2, now3) # rest) = (case cadence_next c answer now2 now3 of
       None \<Rightarrow> None
     | Some (c1, r) \<Rightarrow> map_option (\<lambda>(c2, rs). (c2, r # rs)) (cadence_run c1 rest))"

definition frame_times :: "'d next_frame list \<Rightarrow> f64 list" where
  "frame_times rs = List.map_filter (\<lambda>r. case r of NextFrame pts _ \<Rightarrow> Some pts | _ \<Rightarrow> None) rs"

text \<open>Each time follows the one before it by the least step.\<close>

fun spaced_from :: "f64 \<Rightarrow> f64 list \<Rightarrow> bool" where
  "spaced_from a [] = True"
| "spaced_from a (b # bs) = (fle (fadd a cadence_step) b \<and> spaced_from b bs)"

lemma cadence_next_spaced:
  assumes "cadence_next c answer now2 now3 = Some (c1, r)" "cc_last_emit_pts_s c = Some a" "is_finite a"
  shows "\<exists>b. cc_last_emit_pts_s c1 = Some b
    \<and> (case r of NextFrame pts _ \<Rightarrow> pts = b \<and> fle (fadd a cadence_step) b
       | RetryAfter d \<Rightarrow> b = a \<and> d \<le> cc_frame_interval c | _ \<Rightarrow> b = a)
    \<and> cc_frame_interval c1 = cc_frame_interval c \<and> cc_frame_interval_s c1 = cc_frame_interval_s c"
proof -
  have "cadence_step \<noteq> NaN" by (simp add: cadence_step_def f64_of_rat_def Let_def)
  then have n: "fadd a cadence_step \<noteq> NaN" using assms(3) by (cases a; cases cadence_step) (simp_all add: fadd_def f64_of_rat_def Let_def is_finite_def)
  show ?thesis
  proof (cases answer)
    case (SourceFrame pts_s data)
    with assms(1,2) fle_fmax2 [OF n, of pts_s] show ?thesis
      by (auto simp: cadence_next_def cadence_frame_def cadence_remember_def Let_def split: if_splits option.splits)
  next
    case SourceTimeout
    with assms(1,2) fle_fmax2 [OF n] show ?thesis
      by (auto simp: cadence_next_def cadence_duplicate_def Let_def split: if_splits option.splits)
  qed (use assms in \<open>auto simp: cadence_next_def\<close>)
qed

lemma cadence_run_spaced:
  "cadence_run c steps = Some (c', rs) \<Longrightarrow> cc_last_emit_pts_s c = Some a \<Longrightarrow> is_finite a \<Longrightarrow>
     list_all is_finite (frame_times rs) \<Longrightarrow>
     spaced_from a (frame_times rs) \<and> (\<forall>d. RetryAfter d \<in> set rs \<longrightarrow> d \<le> cc_frame_interval c)"
proof (induction c steps arbitrary: c' rs a rule: cadence_run.induct)
  case (1 c)
  then show ?case by (simp add: frame_times_def List.map_filter_simps)
next
  case (2 c answer now2 now3 rest)
  obtain c1 r c2 rs' where r: "cadence_next c answer now2 now3 = Some (c1, r)" "cadence_run c1 rest = Some (c2, rs')" "rs = r # rs'"
    using "2.prems"(1) by (auto split: option.splits)
  obtain b where b: "cc_last_emit_pts_s c1 = Some b" "case r of NextFrame pts _ \<Rightarrow> pts = b \<and> fle (fadd a cadence_step) b
       | RetryAfter d \<Rightarrow> b = a \<and> d \<le> cc_frame_interval c | _ \<Rightarrow> b = a" "cc_frame_interval c1 = cc_frame_interval c"
    using cadence_next_spaced [OF r(1) "2.prems"(2,3)] by blast
  have fin: "is_finite b" "list_all is_finite (frame_times rs')"
    using "2.prems"(3,4) b(2) r(3) by (auto simp: frame_times_def List.map_filter_simps split: next_frame.splits)
  have "spaced_from b (frame_times rs') \<and> (\<forall>d. RetryAfter d \<in> set rs' \<longrightarrow> d \<le> cc_frame_interval c1)"
    using "2.IH" [OF r(1) refl r(2) b(1) fin] .
  with b r(3) show ?case by (auto simp: frame_times_def List.map_filter_simps split: next_frame.splits)
qed

section \<open>The region of a display\<close>

record capture_region =
  rg_display_id :: "string option"
  rg_x :: "32 word"
  rg_y :: "32 word"
  rg_width :: u32
  rg_height :: u32

record display_info =
  di_id :: string
  di_name :: string
  di_x :: "32 word"
  di_y :: "32 word"
  di_width :: u32
  di_height :: u32
  di_is_primary :: bool

record crop_rect =
  cr_x :: u32
  cr_y :: u32
  cr_width :: u32
  cr_height :: u32

text \<open>\<open>i32\<close> is a word read as signed; its subtraction wraps, the sums are taken in \<open>i64\<close>.\<close>

definition crop_for_region :: "capture_region \<Rightarrow> display_info \<Rightarrow> unit + crop_rect" where
  "crop_for_region region display =
     (if rg_width region < 2 \<or> rg_height region < 2 then Inl ()
      else let local_x = rg_x region - di_x display; local_y = rg_y region - di_y display
        in if sint local_x < 0 \<or> sint local_y < 0
             \<or> uint (di_width display) < sint local_x + uint (rg_width region)
             \<or> uint (di_height display) < sint local_y + uint (rg_height region)
           then Inl ()
           else Inr \<lparr>cr_x = local_x, cr_y = local_y, cr_width = rg_width region, cr_height = rg_height region\<rparr>)"

definition rebased_full_display_crop :: "capture_region \<Rightarrow> display_info \<Rightarrow> crop_rect option" where
  "rebased_full_display_crop region display =
     (if rg_width region = di_width display \<and> rg_height region = di_height display
      then Some \<lparr>cr_x = 0, cr_y = 0, cr_width = di_width display, cr_height = di_height display\<rparr> else None)"

definition clamped_region_crop :: "capture_region \<Rightarrow> display_info \<Rightarrow> unit + crop_rect option" where
  "clamped_region_crop region display =
     (if rg_width region < 2 \<or> rg_height region < 2 then Inl ()
      else let left = max (sint (rg_x region)) (sint (di_x display));
               upper = max (sint (rg_y region)) (sint (di_y display));
               right = min (sint (rg_x region) + uint (rg_width region)) (sint (di_x display) + uint (di_width display));
               bottom = min (sint (rg_y region) + uint (rg_height region)) (sint (di_y display) + uint (di_height display));
               width = right - left; height = bottom - upper
           in if width < 2 \<or> height < 2 then Inr None
              else Inr (Some \<lparr>cr_x = word_of_int (left - sint (di_x display)), cr_y = word_of_int (upper - sint (di_y display)),
                cr_width = word_of_int width, cr_height = word_of_int height\<rparr>))"

definition crop_for_region_or_full_display :: "capture_region \<Rightarrow> display_info \<Rightarrow> bool \<Rightarrow> unit + crop_rect \<times> bool" where
  "crop_for_region_or_full_display region display recovered_display =
     (let full = \<lparr>cr_x = 0, cr_y = 0, cr_width = di_width display, cr_height = di_height display\<rparr>
      in if rg_width region < 2 \<or> rg_height region < 2 then Inl ()
         else if recovered_display then Inr (full, True)
         else case rebased_full_display_crop region display of
           Some crop \<Rightarrow> Inr (crop, False)
         | None \<Rightarrow> (case crop_for_region region display of
             Inr crop \<Rightarrow> Inr (crop, False)
           | Inl _ \<Rightarrow> (case clamped_region_crop region display of
               Inl e \<Rightarrow> Inl e
             | Inr (Some crop) \<Rightarrow> Inr (crop, True)
             | Inr None \<Rightarrow> Inr (full, True))))"

definition crop_inside :: "crop_rect \<Rightarrow> display_info \<Rightarrow> bool" where
  "crop_inside crop display \<longleftrightarrow> uint (cr_x crop) + uint (cr_width crop) \<le> uint (di_width display)
     \<and> uint (cr_y crop) + uint (cr_height crop) \<le> uint (di_height display)"

lemma uint_of_nonneg: "0 \<le> sint (w :: 32 word) \<Longrightarrow> uint w = sint w"
proof -
  assume pos: "0 \<le> sint w"
  have u: "uint w < 2 ^ 32" using uint_lt2p [of w] by simp
  have "sint w = take_bit (Suc 31) (uint w) - 2 ^ Suc 31 * of_bool (bit (uint w) 31)"
    by (simp add: sint_uint signed_take_bit_eq_take_bit_minus)
  moreover have "take_bit (Suc 31) (uint w) = uint w" using u by (simp add: take_bit_int_eq_self)
  ultimately show ?thesis using pos u by (cases "bit (uint w) 31") simp_all
qed

lemma uint_word_of_int_u32: "0 \<le> n \<Longrightarrow> n < 2 ^ 32 \<Longrightarrow> uint (word_of_int n :: u32) = n"
  by (simp add: uint_word_of_int)

lemma crop_for_region_inside: "crop_for_region region display = Inr crop \<Longrightarrow> crop_inside crop display"
  by (auto simp: crop_for_region_def crop_inside_def Let_def uint_of_nonneg split: if_splits)

lemma u32_less: "uint (w :: u32) < 2 ^ 32"
  using uint_lt2p [of w] by simp

lemma clamped_region_inside:
  assumes "clamped_region_crop region display = Inr (Some crop)"
  shows "crop_inside crop display"
proof -
  have side: "uint (word_of_int (low - d) :: u32) + uint (word_of_int (high - low) :: u32) \<le> w"
    if "d \<le> low" "2 \<le> high - low" "high \<le> d + w" "w < 2 ^ 32" for low high d w :: int
    using that by (simp add: uint_word_of_int_u32 del: of_int_diff)
  define left where "left = max (sint (rg_x region)) (sint (di_x display))"
  define upper where "upper = max (sint (rg_y region)) (sint (di_y display))"
  define right where "right = min (sint (rg_x region) + uint (rg_width region)) (sint (di_x display) + uint (di_width display))"
  define bottom where "bottom = min (sint (rg_y region) + uint (rg_height region)) (sint (di_y display) + uint (di_height display))"
  note defs = left_def [symmetric] upper_def [symmetric] right_def [symmetric] bottom_def [symmetric]
  have "\<not> (right - left < 2 \<or> bottom - upper < 2) \<and> crop = \<lparr>cr_x = word_of_int (left - sint (di_x display)),
      cr_y = word_of_int (upper - sint (di_y display)), cr_width = word_of_int (right - left), cr_height = word_of_int (bottom - upper)\<rparr>"
    using assms unfolding clamped_region_crop_def Let_def defs by (auto split: if_splits simp del: of_int_diff)
  moreover have "right \<le> sint (di_x display) + uint (di_width display)" "bottom \<le> sint (di_y display) + uint (di_height display)"
    "sint (di_x display) \<le> left" "sint (di_y display) \<le> upper"
    by (simp_all add: left_def upper_def right_def bottom_def)
  ultimately show ?thesis
    using side [of "sint (di_x display)" left right "uint (di_width display)"]
      side [of "sint (di_y display)" upper bottom "uint (di_height display)"] u32_less
    by (simp add: crop_inside_def del: of_int_diff)
qed

lemma chosen_crop_inside: "crop_for_region_or_full_display region display recovered = Inr (crop, warned) \<Longrightarrow> crop_inside crop display"
  using crop_for_region_inside [of region display crop] clamped_region_inside [of region display crop]
  by (auto simp: crop_for_region_or_full_display_def rebased_full_display_crop_def Let_def crop_inside_def
      split: if_splits option.splits sum.splits)

lemma sint_minus_u32:
  fixes a b :: "32 word"
  assumes "0 \<le> sint a - sint b" "sint a - sint b < 2 ^ 31"
  shows "sint (a - b) = sint a - sint b"
proof -
  have "sint (a - b) = signed_take_bit 31 (sint a - sint b)" by (simp add: sint_word_diff)
  also have "\<dots> = sint a - sint b" using assms by (intro signed_take_bit_int_eq_self) auto
  finally show ?thesis .
qed

text \<open>A region that lies within its display is what is captured.\<close>

lemma inner_region_exact:
  assumes "2 \<le> rg_width region" "2 \<le> rg_height region"
    "sint (di_x display) \<le> sint (rg_x region)" "sint (rg_x region) + uint (rg_width region) \<le> sint (di_x display) + uint (di_width display)"
    "sint (di_y display) \<le> sint (rg_y region)" "sint (rg_y region) + uint (rg_height region) \<le> sint (di_y display) + uint (di_height display)"
    "uint (di_width display) < 2 ^ 31" "uint (di_height display) < 2 ^ 31"
  shows "crop_for_region_or_full_display region display False
    = Inr (\<lparr>cr_x = rg_x region - di_x display, cr_y = rg_y region - di_y display,
            cr_width = rg_width region, cr_height = rg_height region\<rparr>, False)"
proof -
  have small: "\<not> (rg_width region < 2 \<or> rg_height region < 2)" using assms(1,2) by auto
  have x: "sint (rg_x region - di_x display) = sint (rg_x region) - sint (di_x display)"
    using assms(3,4,7) uint_ge_0 [of "rg_width region"] by (intro sint_minus_u32) linarith+
  have y: "sint (rg_y region - di_y display) = sint (rg_y region) - sint (di_y display)"
    using assms(5,6,8) uint_ge_0 [of "rg_height region"] by (intro sint_minus_u32) linarith+
  have fits: "\<not> (sint (rg_x region - di_x display) < 0 \<or> sint (rg_y region - di_y display) < 0
      \<or> uint (di_width display) < sint (rg_x region - di_x display) + uint (rg_width region)
      \<or> uint (di_height display) < sint (rg_y region - di_y display) + uint (rg_height region))"
    unfolding x y using assms(3-6) by auto
  show ?thesis
  proof (cases "rg_width region = di_width display \<and> rg_height region = di_height display")
    case True
    then have "sint (rg_x region) = sint (di_x display)" "sint (rg_y region) = sint (di_y display)" using assms(3-6) by auto
    then have "rg_x region = di_x display" "rg_y region = di_y display" by (simp_all add: signed_word_eqI)
    with True small show ?thesis by (simp add: crop_for_region_or_full_display_def rebased_full_display_crop_def)
  next
    case False
    then have "rebased_full_display_crop region display = None" by (simp add: rebased_full_display_crop_def)
    moreover have "crop_for_region region display = Inr \<lparr>cr_x = rg_x region - di_x display, cr_y = rg_y region - di_y display,
        cr_width = rg_width region, cr_height = rg_height region\<rparr>"
      unfolding crop_for_region_def Let_def using small fits by (simp only: if_False)
    ultimately show ?thesis
      unfolding crop_for_region_or_full_display_def Let_def using small by (simp only: if_False option.case sum.case)
  qed
qed

end
