(* ===== verification/Service_Properties.thy ===== *)
theory Service_Properties
  imports Match_Poller_Correct Service_Files_Correct Service_Cache Service_Capture
begin

text \<open>
  The properties of the recorder service (apps/clipline-app): matches, files of a full session, the
  quota, the replay cache and the capture cadence.
\<close>

section \<open>Matches\<close>

definition service_text :: text_ops where
  "service_text = \<lparr>tx_trim = id, tx_to_lowercase = id\<rparr>"

definition answered_turn :: turn_input where
  "answered_turn = \<lparr>ti_results = [], ti_player_name = Inr ''Ann'', ti_game_time = Inr (Fin 1), ti_sampled_at = 5,
     ti_data = Inr [], ti_summary = Inl ()\<rparr>"

definition silent_turn :: turn_input where
  "silent_turn = answered_turn\<lparr>ti_game_time := Inl ()\<rparr>"

definition active_poller :: poller where
  "active_poller = \<lparr>po_tracker = \<lparr>et_last_seen = None, et_last_game_time_s = Some (Fin 1)\<rparr>,
     po_lifecycle = \<lparr>mc_observed_match = True, mc_match_active = True, mc_consecutive_failures = 0\<rparr>,
     po_local_player = Some ''Ann'', po_queue_lookup = lookup_reset lookup_default\<rparr>"

lemma answered_run:
  "poller_run service_text 3 None False (\<lambda>_. True) [answered_turn] = (active_poller, [MatchStartedMsg], True)"
  by (simp add: poller_run_def poller_turn_def answered_turn_def poller_new_def lookup_default_def poll_once_with_continuity_def
      recording_offset_s_def prepare_poll_def fresh_def tracker_default_def lifecycle_default_def clock_regressed_def
      event_ids_regressed_def sort_by_def f64_eval polled_batch_def poll_succeeded_def match_boundaries_def boundary_message_def
      send_message_def active_poller_def lookup_reset_def)

text \<open>
  C17: the service follows the poller.  Over any run of the poller - whatever the client answers, also
  after losing it - the starts and ends it sends alternate, beginning with a start; and once its
  messages are handled, the service is in a match, and saves into the folder of a match, exactly
  while the poller is: outside a match there is no summary to attach to a replay and, unless the game
  is a replay itself, no queue.
\<close>

theorem service_follows_the_poller:
  assumes "poller_run tx t0 replay_queue exe accepts inputs = (p, sent, True)"
  shows "alternating False sent
    \<and> (let v = handle_messages labels 0 (match_view_new run_label) sent; active = mc_match_active (po_lifecycle p)
       in ps_in_match (mv_player_summary v) = active \<and> (stk_match_label (mv_session v) \<noteq> None) = active
          \<and> (\<not> active \<longrightarrow> ps_active_replay (mv_player_summary v) = None)
          \<and> (\<not> active \<longrightarrow> replay_queue = None \<longrightarrow> mv_league_queue v = None))"
  using poller_run_alternates [OF assms] poller_run_agrees [OF assms, of labels run_label]
  by (simp add: view_agrees_def Let_def)

theorem service_follows_the_poller_witness:
  "ps_in_match (mv_player_summary (handle_messages (\<lambda>_. ''match'') 0 (match_view_new ''run'') [MatchStartedMsg]))"
  using service_follows_the_poller [OF answered_run, of "\<lambda>_. ''match''" "''run''"]
  by (simp add: active_poller_def Let_def)

lemma turn_outcomes_take: "turn_outcomes tx t0 rq exe (take n is) p = take n (turn_outcomes tx t0 rq exe is p)"
  by (induction "is" arbitrary: n p) (auto simp: take_Cons split: nat.splits prod.splits)

lemma length_turn_outcomes [simp]: "length (turn_outcomes tx t0 rq exe is p) = length is"
  by (induction "is" arbitrary: p) (auto split: prod.splits)

lemma backoff_sum: "f < 6 \<Longrightarrow> sum_list (map failure_backoff [f + 1..<6]) \<le> 17"
  by (cases "f = 0"; cases "f = 1"; cases "f = 2"; cases "f = 3"; cases "f = 4"; cases "f = 5")
    (simp_all add: failure_backoff_def upt_rec)

text \<open>
  C18: a client that stops answering ends the match.  In every state the poller can reach with a match
  running, six polls without an answer are enough for the end of the match to be sent, after at most
  17 seconds of waiting between them.
\<close>

theorem absent_client_ends_match:
  assumes "poller_run tx t0 replay_queue exe accepts inputs = (p, sent, ok)" "mc_match_active (po_lifecycle p)"
    and "length silence = 6" "list_all unanswered silence"
  shows "\<exists>k < 6. MatchEndedMsg \<in> set (to_messages (turn_outcomes tx t0 replay_queue exe silence p ! k))
    \<and> sum_list (map to_sleep_s (take k (turn_outcomes tx t0 replay_queue exe silence p))) \<le> 17"
proof -
  let ?outs = "turn_outcomes tx t0 replay_queue exe silence p"
  let ?f = "mc_consecutive_failures (po_lifecycle p)"
  have t: "po_local_player p \<noteq> None" "?f < match_absence_failures"
    using tracked_run [OF assms(1)] assms(2) by (simp_all add: tracked_def)
  define n where "n = 6 - ?f"
  have n: "0 < n" "n \<le> 6" using t(2) by (simp_all add: n_def match_absence_failures_def)
  have "list_all unanswered (take n silence)" using assms(4) by (auto simp: list_all_iff dest: in_set_takeD)
  moreover have "length (take n silence) = match_absence_failures - ?f" using assms(3) n by (simp add: n_def match_absence_failures_def)
  ultimately have e: "MatchEndedMsg \<in> set (to_messages (last (take n ?outs)))"
    "map to_sleep_s (take n ?outs) = map failure_backoff [?f + 1..<7]"
    using absence_ends_match [of "take n silence" p tx t0 replay_queue exe] t assms(2)
    by (simp_all add: turn_outcomes_take match_absence_failures_def)
  have "?outs \<noteq> []" using assms(3) by (metis length_turn_outcomes list.size(3) zero_neq_numeral)
  then have "last (take n ?outs) = ?outs ! (n - 1)" using n assms(3) by (simp add: last_conv_nth)
  moreover have "map to_sleep_s (take (n - 1) ?outs) = map failure_backoff [?f + 1..<6]"
  proof -
    have "map to_sleep_s (take (n - 1) ?outs) = take (n - 1) (map to_sleep_s (take n ?outs))" by (simp add: take_map min_def)
    also have "\<dots> = map failure_backoff (take (n - 1) [?f + 1..<7])" by (simp add: e(2) take_map)
    also have "take (n - 1) [?f + 1..<7] = [?f + 1..<6]" using t(2) by (simp add: n_def match_absence_failures_def take_upt)
    finally show ?thesis .
  qed
  moreover have "sum_list (map failure_backoff [?f + 1..<6]) \<le> 17" using t(2) backoff_sum [of ?f] by (simp add: match_absence_failures_def)
  ultimately show ?thesis using e(1) n by (intro exI [of _ "n - 1"]) auto
qed

theorem absent_client_ends_match_witness:
  "\<exists>k < 6. MatchEndedMsg \<in> set (to_messages (turn_outcomes service_text 3 None False (replicate 6 silent_turn) active_poller ! k))"
  using absent_client_ends_match [OF answered_run, of "replicate 6 silent_turn"]
  by (auto simp: active_poller_def list_all_iff unanswered_def silent_turn_def)

section \<open>The files of a full session\<close>

definition service_env :: fs_env where
  "service_env = \<lparr>ev_follow = (\<lambda>_. None), ev_canon = (\<lambda>_ p. Some p), ev_stat = (\<lambda>_. True), ev_list = (\<lambda>_. True),
     ev_entry = (\<lambda>_. True), ev_remove = (\<lambda>_. True), ev_create = (\<lambda>_. True), ev_write = (\<lambda>_. True),
     ev_move = (\<lambda>_ _. True), ev_now = 9, ev_now_nanos = 9000000000\<rparr>"

text \<open>
  Reserving the files of a full session overwrites and deletes nothing.  Whatever the outcome and
  whatever other programs do between its steps, a file, folder or link that existed before and that
  the others leave alone is unchanged.
\<close>

theorem reservation_touches_no_file:
  assumes "reserve_full_session_path_at env meanwhile session_dir prefix stamp fs = (fs', r)"
    and "\<forall>k g. node_at (meanwhile k g) q = node_at g q" "node_at fs q \<noteq> None"
  shows "node_at fs' q = node_at fs q"
  using reserve_attempts_keep [OF _ assms(2,3)] assms(1)
  unfolding reserve_full_session_path_at_def reserve_full_session_path_at_with_def by blast

theorem reservation_touches_no_file_witness:
  "node_at (fst (reserve_full_session_path_at service_env (\<lambda>k g. if k = 1 then placed g [''s'', ''new''] LinkNode else g) [''s''] ''session'' 7
      [([''s''], DirNode), ([''s'', ''session_7.mp4''], FileNode [1] 1)])) [''s'', ''session_7.mp4''] = Some (FileNode [1] 1)"
  using reservation_touches_no_file [OF surjective_pairing, of "\<lambda>k g. if k = 1 then placed g [''s'', ''new''] LinkNode else g" "[''s'', ''session_7.mp4'']"
      "[([''s''], DirNode), ([''s'', ''session_7.mp4''], FileNode [1] 1)]" service_env "[''s'']" "''session''" 7]
  by (simp add: node_at_def [of "[_, _]"] split: if_splits)

text \<open>
  C20: a reservation is exclusive, owned and leaves nothing else behind.  When nothing interferes, the
  system answers every question about a file, and the reservation succeeds - at the first name or after any
  number of attempts that were given up - the final name is free and exactly two files are new: the
  temporary file, empty, and the ownership marker of both names, neither of which existed before.  At every
  other path there is what was there before, and the recording is one that Clipline owns.
\<close>

theorem reservation_is_exclusive:
  assumes "reserve_full_session_path_at env (\<lambda>_ g. g) session_dir prefix stamp fs = (fs', Inr (final, temp))" "\<forall>p. ev_stat env p"
  shows "\<exists>attempt < 1024. final = session_dir @ [media_name prefix stamp attempt] \<and> temp = with_extension final ''mp4.recording''
    \<and> is_mp4 final \<and> is_recording_mp4 temp \<and> try_exists env fs' final = Inr False
    \<and> node_at fs temp = None \<and> node_at fs' temp = Some (FileNode [] (ev_now env))
    \<and> (\<exists>marker. clip_ownership_marker_path temp = Inr marker \<and> node_at fs marker = None
        \<and> node_at fs' marker = Some (FileNode [0x7B, 0x7D] (ev_now env))
        \<and> (\<forall>q. q \<noteq> temp \<longrightarrow> q \<noteq> marker \<longrightarrow> node_at fs' q = node_at fs q))
    \<and> is_managed_clip env fs' temp"
proof -
  obtain a fs1 where a: "a < 1024" "final = session_dir @ [media_name prefix stamp a]"
    "reserve_attempt env (\<lambda>_ temp fs. create_new env fs temp) (\<lambda>_ g. g) final fs1 = (fs', Inr (Some (final, temp)))"
    "\<forall>q. node_at fs1 q = node_at fs q"
    using reserve_attempts_quiet [of env session_dir prefix stamp "[0..<1024]" fs fs' final temp] assms(1)
    by (auto simp: reserve_full_session_path_at_def reserve_full_session_path_at_with_def)
  obtain m where m: "temp = with_extension final ''mp4.recording''" "node_at fs temp = None" "try_exists env fs' final = Inr False"
    "clip_ownership_marker_path temp = Inr m" "node_at fs m = None" "node_at fs' m = Some (FileNode [0x7B, 0x7D] (ev_now env))"
    "node_at fs' temp = Some (FileNode [] (ev_now env))" "\<forall>q. q \<noteq> temp \<longrightarrow> q \<noteq> m \<longrightarrow> node_at fs' q = node_at fs q"
    using reserve_attempt_quiet [OF a(3)] a(4) by auto
  have "is_managed_clip env fs' temp"
    using m(4,6) assms(2) by (simp add: is_managed_clip_def is_file_def stat_def lstat_def)
  then show ?thesis using a(1,2) m media_name_mp4(1) temp_is_recording by blast
qed

lemma decimal_seven: "decimal 7 = ''7''"
  by code_simp

lemma session_names:
  "media_name ''session'' 7 0 = ''session_7.mp4''"
  "with_extension [''s'', ''session_7.mp4''] e = [''s'', ''session_7'' @ (if e = [] then [] else CHR ''.'' # e)]"
  "is_mp4 [''s'', ''session_7.mp4'']" "\<not> is_recording_mp4 [''s'', ''session_7.mp4'']" "is_recording_mp4 [''s'', ''session_7.mp4.recording'']"
  "recording_final_path [''s'', ''session_7.mp4.recording''] = Some [''s'', ''session_7.mp4'']"
  by (simp_all add: media_name_def decimal_seven name_eval recording_final_path_def with_file_name_def)

lemma session_marker:
  "clip_ownership_marker_path [''s'', ''session_7.mp4''] = Inr [''s'', ''session_7.clipline.json'']"
  "clip_ownership_marker_path [''s'', ''session_7.mp4.recording''] = Inr [''s'', ''session_7.clipline.json'']"
  by (simp_all add: clip_ownership_marker_path_def session_names)

lemma reserved_session:
  "\<exists>fs'. reserve_full_session_path_at service_env (\<lambda>_ g. g) [''s''] ''session'' 7 [([''s''], DirNode)]
     = (fs', Inr ([''s'', ''session_7.mp4''], [''s'', ''session_7.mp4.recording'']))"
proof -
  have run: "\<exists>fs'. reserve_attempt service_env (\<lambda>_ temp fs. create_new service_env fs temp) (\<lambda>_ g. g) [''s'', ''session_7.mp4''] [([''s''], DirNode)]
      = (fs', Inr (Some ([''s'', ''session_7.mp4''], [''s'', ''session_7.mp4.recording''])))"
    by (simp add: reserve_attempt_def session_names session_marker create_new_def try_exists_def stat_def lstat_def node_at_def placed_def without_def
        ensure_clip_owned_def write_all_to_def service_env_def Let_def)
  have "[0..<1024] = 0 # [Suc 0..<1024]" by (rule upt_conv_Cons) simp
  moreover have "try_exists service_env [([''s''], DirNode)] [''s'', ''session_7.mp4''] = Inr False"
    "try_exists service_env [([''s''], DirNode)] [''s'', ''session_7.clipline.json''] = Inr False"
    by (simp_all add: try_exists_def stat_def lstat_def node_at_def)
  ultimately show ?thesis
    using run by (auto simp: reserve_full_session_path_at_def reserve_full_session_path_at_with_def session_names session_marker Let_def)
qed

theorem reservation_is_exclusive_witness:
  "\<exists>fs'. node_at fs' [''s'', ''session_7.mp4.recording''] = Some (FileNode [] 9)
     \<and> is_managed_clip service_env fs' [''s'', ''session_7.mp4.recording'']"
proof -
  obtain fs' where r: "reserve_full_session_path_at service_env (\<lambda>_ g. g) [''s''] ''session'' 7 [([''s''], DirNode)]
      = (fs', Inr ([''s'', ''session_7.mp4''], [''s'', ''session_7.mp4.recording'']))" using reserved_session by blast
  have "\<forall>p. ev_stat service_env p" "ev_now service_env = 9" by (simp_all add: service_env_def)
  with reservation_is_exclusive [OF r] show ?thesis by auto
qed

text \<open>
  C16: shutting down keeps the footage.  However the stream and the writer end - in time, without
  footage, with an error, with a duration that is no number - and whatever the collection of old
  clips then deletes, a full session that has bytes on disk once its writer thread has ended is
  afterwards at its temporary name or at its final one, exactly as the writer left it: with the last
  segments and the index behind what was there, and the header as far as it was written.
\<close>

theorem shutdown_keeps_footage:
  assumes "shutdown_recorder env leased meanwhile ctx stream ending finished (Some rec) fs = (fs', evs, failed)"
    and "node_at fs (fr_temp_path rec) = Some (FileNode content t)" "end_session_content ending content \<noteq> []"
    and "is_recording_mp4 (fr_temp_path rec)" "is_mp4 (fr_final_path rec)"
    and "\<forall>p g. node_at (meanwhile p g) (fr_final_path rec) = node_at g (fr_final_path rec)"
  shows "node_at fs' (fr_temp_path rec) = Some (FileNode (end_session_content ending content) (en_time ending))
    \<or> node_at fs' (fr_final_path rec) = Some (FileNode (end_session_content ending content) (en_time ending))"
  using shutdown_keeps [OF assms] by (simp add: footage_kept_def)

definition session_context :: finish_context where
  "session_context = \<lparr>fc_render = (\<lambda>_. None), fc_marker_log = marker_log_new, fc_player_summary = None, fc_audio_tracks = [],
     fc_clips_dir = [''s''], fc_disk_quota_bytes = Some 1, fc_auto_delete = True, fc_unix_now = 9\<rparr>"

definition short_ending :: session_ending where
  "short_ending = \<lparr>en_fragments = [3], en_moov = [4, 5], en_header_bytes = 0, en_time = 6\<rparr>"

theorem shutdown_keeps_footage_witness:
  "let fs' = fst (shutdown_recorder service_env (\<lambda>_ _. False) (\<lambda>_ g. g) session_context (Inr ()) short_ending (Inr (Some (Fin 0, Fin 5, Fin 5)))
       (Some \<lparr>fr_final_path = [''s'', ''session_7.mp4''], fr_temp_path = [''s'', ''session_7.mp4.recording''], fr_wall_start_unix = 1\<rparr>)
       [([''s''], DirNode), ([''s'', ''session_7.mp4.recording''], FileNode [1, 2] 3)])
   in node_at fs' [''s'', ''session_7.mp4.recording''] = Some (FileNode [1, 2, 3, 4, 5] 6)
     \<or> node_at fs' [''s'', ''session_7.mp4''] = Some (FileNode [1, 2, 3, 4, 5] 6)"
proof -
  let ?rec = "\<lparr>fr_final_path = [''s'', ''session_7.mp4''], fr_temp_path = [''s'', ''session_7.mp4.recording''], fr_wall_start_unix = 1\<rparr>"
  let ?fs = "[([''s''], DirNode), ([''s'', ''session_7.mp4.recording''], FileNode [1, 2] 3)]"
  obtain fs' evs failed where r: "shutdown_recorder service_env (\<lambda>_ _. False) (\<lambda>_ g. g) session_context (Inr ()) short_ending (Inr (Some (Fin 0, Fin 5, Fin 5)))
      (Some ?rec) ?fs = (fs', evs, failed)" by (metis prod_cases3)
  have "node_at ?fs (fr_temp_path ?rec) = Some (FileNode [1, 2] 3)" by (simp add: node_at_def)
  moreover have "end_session_content short_ending [1, 2] = [1, 2, 3, 4, 5]" "en_time short_ending = 6"
    by (simp_all add: end_session_content_def short_ending_def write_all_def)
  ultimately show ?thesis using shutdown_keeps_footage [OF r, of "[1, 2]" 3] by (simp add: r session_names Let_def)
qed

section \<open>Room under the quota\<close>

text \<open>
  C21: no quota event means that there is room.  When the check raises no event although the library
  can be measured - at once, or after deleting old clips, whatever was leased or refused meanwhile -
  the library measured afterwards leaves the required bytes free under the quota.
\<close>

theorem no_quota_event_means_room:
  assumes "storage_quota_full_event env leased meanwhile clips_dir (Some quota) required auto_delete fs = (fs', evs, None)"
    and "storage_status env fs clips_dir (Some quota) = Inr before"
  shows "\<exists>after. storage_status env fs' clips_dir (Some quota) = Inr after \<and> st_total_bytes after + required \<le> quota"
  using assms by (rule no_event_means_room)

theorem no_quota_event_means_room_witness:
  "\<exists>after. storage_status service_env [([''s''], DirNode)] [''s''] (Some 100) = Inr after \<and> st_total_bytes after + 40 \<le> 100"
proof -
  have s: "storage_status service_env [([''s''], DirNode)] [''s''] (Some 100) = Inr \<lparr>st_clip_count = 0, st_total_bytes = 0, st_quota_bytes = Some 100\<rparr>"
    by (simp add: storage_status_def inventory_def visit_media_dirs_def collect_clips_def read_dir_def stat_def lstat_def node_at_def
        entries_of_def service_env_def status_from_clips_def sum_u64_def)
  have "storage_quota_full_event service_env (\<lambda>_ _. False) (\<lambda>_ g. g) [''s''] (Some 100) 40 False [([''s''], DirNode)]
      = ([([''s''], DirNode)], [], None)"
    by (simp add: storage_quota_full_event_def storage_status_or_warn_def s quota_would_be_exceeded_def)
  from no_quota_event_means_room [OF this s] show ?thesis .
qed

section \<open>The replay cache\<close>

text \<open>
  C19: sweeping the replay cache removes only dead runs.  If anything in the tree changed, it lies in
  the folder of a run, directly in the cache folder and no link, whose owner is known and no longer
  the process of that number, or whose owner cannot be told and which is at least 24 hours old.
\<close>

theorem sweep_removes_only_dead_runs:
  assumes "sweep_replay_cache_runs env cache_root fs = (fs', r)" "distinct (map fst fs)" "node_at fs' q \<noteq> node_at fs q"
  shows "\<exists>run name. butlast run = cache_root \<and> below run q \<and> node_at fs run = Some DirNode
    \<and> file_name run = Some name \<and> is_replay_cache_run_name name
    \<and> ((\<exists>owner pid created current. read_owner env fs run = Some owner
          \<and> replay_cache_owner_identity (ro_process_instance_id owner) = Some (pid, created)
          \<and> ce_instance env pid = Some current \<and> current \<noteq> ro_process_instance_id owner)
       \<or> (definitively_stale env fs run = None
          \<and> (\<exists>modified. ce_modified env run = Some modified \<and> 24 * 60 * 60 * 1000000000 \<le> ce_now env - modified)))"
proof -
  obtain run where run: "run \<noteq> []" "butlast run = cache_root" "below run q" "\<not> kept_run env fs run"
    using sweep_keeps [OF assms(1,2)] assms(3) by blast
  obtain name where name: "file_name run = Some name" "is_replay_cache_run_name name" "node_at fs run = Some DirNode" "should_remove env fs run"
    using run(4) by (auto simp: kept_run_def split: option.splits)
  have "(\<exists>owner pid created current. read_owner env fs run = Some owner
          \<and> replay_cache_owner_identity (ro_process_instance_id owner) = Some (pid, created)
          \<and> ce_instance env pid = Some current \<and> current \<noteq> ro_process_instance_id owner)
       \<or> (definitively_stale env fs run = None \<and> old_enough env run)"
  proof (cases "definitively_stale env fs run")
    case None
    with name(4) show ?thesis by (simp add: should_remove_def)
  next
    case (Some stale)
    with name(4) have "definitively_stale env fs run = Some True" by (simp add: should_remove_def)
    then show ?thesis by (fastforce simp: definitively_stale_def split: option.splits prod.splits)
  qed
  then show ?thesis
    using run(2,3) name(1-3) by (auto simp: old_enough_def ambiguous_replay_cache_max_age_def split: option.splits)
qed

definition cache_sample_env :: cache_env where
  "cache_sample_env = \<lparr>ce_fs = service_env, ce_parse = (\<lambda>_. None), ce_render = (\<lambda>_. []), ce_instance = (\<lambda>_. None),
     ce_modified = (\<lambda>_. Some 0), ce_now = 24 * 60 * 60 * 1000000000, ce_created_at = 24 * 60 * 60 * 1000000000, ce_pid = 2, ce_free_bytes = None\<rparr>"

theorem sweep_removes_only_dead_runs_witness:
  "\<exists>run. butlast run = [''c''] \<and> below run [''c'', replay_cache_run_name 3 2 0]"
proof -
  let ?run = "[''c'', replay_cache_run_name 3 2 0]"
  let ?fs = "[([''c''], DirNode), (?run, DirNode)]"
  have n: "is_replay_cache_run_name (replay_cache_run_name 3 2 0)"
    using run_name_round_trip [of 3 2 0] by (simp add: is_replay_cache_run_name_def)
  have f: "file_name ?run = Some (replay_cache_run_name 3 2 0)"
    by (simp add: file_name_def replay_cache_run_name_def replay_cache_run_prefix_def)
  have dir: "read_dir service_env ?fs [''c''] = Inr [?run]"
    by (simp add: read_dir_def stat_def lstat_def node_at_def entries_of_def service_env_def)
  have stale: "should_remove cache_sample_env ?fs ?run"
    by (simp add: should_remove_def definitively_stale_def read_owner_def stat_def lstat_def node_at_def old_enough_def cache_sample_env_def
        ambiguous_replay_cache_max_age_def)
  have l: "lstat service_env ?fs ?run = Inr DirNode" "ev_entry service_env ?run" "ev_remove service_env p" for p
    by (simp_all add: lstat_def node_at_def service_env_def)
  have rm: "remove_dir_all service_env ?fs ?run = ([([''c''], DirNode)], Inr ())"
    by (simp add: remove_dir_all_def node_at_def below_def path_starts_with_def l(3))
  have env: "ce_fs cache_sample_env = service_env" by (simp add: cache_sample_env_def)
  have "sweep_replay_cache_runs cache_sample_env [''c''] ?fs = ([([''c''], DirNode)], Inr 0)"
    by (simp add: sweep_replay_cache_runs_def env dir l n f stale rm Let_def)
  from sweep_removes_only_dead_runs [OF this, of ?run] show ?thesis by (auto simp: node_at_def)
qed

text \<open>The name of a run tells the time and the process it was made for.\<close>

theorem replay_cache_run_name_round_trips:
  assumes "stamp < 2 ^ 128" "pid < 2 ^ 32" "attempt < 1024"
  shows "replay_cache_run_identity (replay_cache_run_name stamp pid attempt) = Some (stamp, pid)"
  using assms by (intro run_name_round_trip) auto

section \<open>Capture\<close>

text \<open>
  C22: the frames handed to the encoder are spaced.  From the first frame on, whatever the source delivers
  or leaves out and whatever the clock reads, every frame's time is at least the least step after the
  one before it, repeated pictures included, and no wait that is asked for is longer than a frame
  interval.
\<close>

theorem cadence_spaces_frames:
  assumes "cadenced_new fps seed_pts_s seed_data now = Some c" "is_finite seed_pts_s"
    and "cadence_run c steps = Some (c', rs)" "list_all is_finite (frame_times rs)"
  shows "spaced_from seed_pts_s (frame_times rs) \<and> (\<forall>d. RetryAfter d \<in> set rs \<longrightarrow> d \<le> cc_frame_interval c)"
proof (rule cadence_run_spaced [OF assms(3) _ assms(2,4)])
  show "cc_last_emit_pts_s c = Some seed_pts_s"
    using assms(1) by (auto simp: cadenced_new_def Let_def)
qed

definition still_cadence :: "nat cadenced_capture" where
  "still_cadence = \<lparr>cc_frame_interval = 1000000000, cc_frame_interval_s = Fin 1, cc_last_data = Some 0,
     cc_last_emit_pts_s = Some (Fin 0), cc_next_pts_s = Some (Fin 1), cc_last_emit_wall = 0, cc_retry_deadline = None\<rparr>"

lemma round_even_whole: "x = of_int n \<Longrightarrow> round_even x = n" by simp

lemma still_new: "cadenced_new 1 (Fin 0) 0 0 = Some still_cadence"
proof -
  have "round_even (10 ^ 9) = 10 ^ 9" by (rule round_even_whole) simp
  then have "from_secs_f64 (Fin 1) = Some 1000000000" by (simp add: from_secs_f64_def)
  then show ?thesis
    by (simp add: cadenced_new_def still_cadence_def fdiv_def f64_of_nat_def f64_of_int_def f64_eval Let_def)
qed

lemma cadence_step_small: "fle (fadd (Fin 0) cadence_step) (Fin 1)"
proof -
  have up: "fle (f64_of_rat (1 / 10000)) (Fin 1)" using f64_of_rat_mono [of "1 / 10000" 1] by (simp add: f64_of_rat_exact)
  have low: "fle (Fin 0) (f64_of_rat (1 / 10000))" using f64_of_rat_mono [of 0 "1 / 10000"] by (simp add: f64_of_rat_exact)
  have "fle (fadd (Fin 0) x) (Fin 1)" if "fle x (Fin 1)" "fle (Fin 0) x" for x
  proof (cases x)
    case (Fin q)
    then have "q \<le> 1" using that(1) by (simp add: fle_def)
    then have "fle (f64_of_rat q) (Fin 1)" using f64_of_rat_mono [of q 1] by (simp add: f64_of_rat_exact)
    with Fin show ?thesis by (simp add: fadd_def)
  qed (use that in \<open>auto simp: fadd_def fle_def split: if_splits\<close>)
  with up low show ?thesis by (simp add: cadence_step_def)
qed

lemma still_run: "\<exists>c'. cadence_run still_cadence [(SourceFrame (Fin 2) 5, 2000000000, 2000000000)] = Some (c', [NextFrame (Fin 2) 5])"
proof -
  have "round_even (2 * 10 ^ 9) = 2 * 10 ^ 9" by (rule round_even_whole) simp
  then have d: "from_secs_f64 (Fin 2) = Some 2000000000" by (simp add: from_secs_f64_def)
  have "\<not> flt (Fin 2) (fadd (Fin 0) cadence_step)"
    using cadence_step_small fle_flt_trans [of "fadd (Fin 0) cadence_step" "Fin 1" "Fin 2"] by (auto simp: fle_def flt_def)
  then have "fmax (Fin 2) (fadd (Fin 0) cadence_step) = Fin 2"
    using fle_not_nan [OF cadence_step_small] by (simp add: fmax_def)
  moreover have "fsub (Fin 2) (Fin 0) = Fin 2" "\<not> flt (Fin 2) (Fin 1)" "is_finite (Fin 2)" "fle (Fin 0) (Fin 2)" by (simp_all add: f64_eval)
  ultimately show ?thesis
    using d by (simp add: cadence_next_def cadence_frame_def cadence_remember_def anchored_wall_def still_cadence_def instant_limit_def Let_def)
qed

theorem cadence_spaces_frames_witness: "fle (fadd (Fin 0) cadence_step) (Fin 2)"
proof -
  obtain c' where "cadence_run still_cadence [(SourceFrame (Fin 2) 5, 2000000000, 2000000000)] = Some (c', [NextFrame (Fin 2) 5])"
    using still_run by blast
  from cadence_spaces_frames [OF still_new _ this] show ?thesis
    by (simp add: frame_times_def List.map_filter_simps is_finite_def)
qed

text \<open>
  C23: what is captured of a display lies inside it, whatever region was configured and for whichever
  display: 32-bit positions that wrap never lead outside.  On a display that was found, whose sides are
  below 2^31 pixels, a region of at least 2 x 2 pixels that lies within the display is captured as it is.
  When the display is a replacement for one that was not found, the whole display is captured, with a
  warning, whatever the region of at least 2 x 2 pixels.
\<close>

theorem captured_region_fits:
  shows "(\<forall>recovered crop warned. crop_for_region_or_full_display region display recovered = Inr (crop, warned) \<longrightarrow> crop_inside crop display)
    \<and> (2 \<le> rg_width region \<and> 2 \<le> rg_height region \<and> uint (di_width display) < 2 ^ 31 \<and> uint (di_height display) < 2 ^ 31
        \<and> sint (di_x display) \<le> sint (rg_x region) \<and> sint (rg_x region) + uint (rg_width region) \<le> sint (di_x display) + uint (di_width display)
        \<and> sint (di_y display) \<le> sint (rg_y region) \<and> sint (rg_y region) + uint (rg_height region) \<le> sint (di_y display) + uint (di_height display)
      \<longrightarrow> crop_for_region_or_full_display region display False
          = Inr (\<lparr>cr_x = rg_x region - di_x display, cr_y = rg_y region - di_y display,
                  cr_width = rg_width region, cr_height = rg_height region\<rparr>, False))
    \<and> (2 \<le> rg_width region \<and> 2 \<le> rg_height region
      \<longrightarrow> crop_for_region_or_full_display region display True
          = Inr (\<lparr>cr_x = 0, cr_y = 0, cr_width = di_width display, cr_height = di_height display\<rparr>, True))"
proof -
  have "crop_for_region_or_full_display region display True
      = Inr (\<lparr>cr_x = 0, cr_y = 0, cr_width = di_width display, cr_height = di_height display\<rparr>, True)"
    if "2 \<le> rg_width region \<and> 2 \<le> rg_height region"
    using that by (auto simp: crop_for_region_or_full_display_def Let_def not_less)
  then show ?thesis using chosen_crop_inside inner_region_exact by blast
qed

definition side_display :: display_info where
  "side_display = \<lparr>di_id = [], di_name = [], di_x = - 1920, di_y = 0, di_width = 1920, di_height = 1080, di_is_primary = False\<rparr>"

definition corner_region :: capture_region where
  "corner_region = \<lparr>rg_display_id = None, rg_x = - 100, rg_y = 80, rg_width = 100, rg_height = 1000\<rparr>"

theorem captured_region_fits_witness:
  "crop_for_region_or_full_display corner_region side_display False
     = Inr (\<lparr>cr_x = 1820, cr_y = 80, cr_width = 100, cr_height = 1000\<rparr>, False)"
  using captured_region_fits [of corner_region side_display]
  by (simp add: corner_region_def side_display_def)

end
