(* ===== verification/Service_Loop.thy ===== *)
theory Service_Loop
  imports Service_Cache Service_Files
begin

text \<open>
  The loop of the recorder service (\<open>run\<close> in service.rs) from its start on: a step of the recorder,
  the messages of the poller, a look at the quota once a second, then the commands.  What the recorder
  answers is an input, as is what the rest of the system does to the files.
\<close>

section \<open>Fixed for a run\<close>

record service_game =
  sg_id :: string
  sg_name :: string

record service_setup =
  su_env :: fs_env
  su_leased :: leases
  su_meanwhile :: "path \<Rightarrow> fs \<Rightarrow> fs"
  su_clips_dir :: path
  su_active_game :: "service_game option"
  su_disk_quota_bytes :: "nat option"
  su_auto_delete :: bool
  su_audio_tracks :: "clip_audio_track list"
  su_render_markers :: "clip_markers \<Rightarrow> bytes option"
  su_render_game :: "service_game \<Rightarrow> league_queue option \<Rightarrow> bytes option"
  su_disk_cache :: bool
  su_encoder_label :: string
  su_backend_label :: string

definition full_session_quota_reserve_bytes :: nat where
  "full_session_quota_reserve_bytes = 64 * 1024 * 1024"

definition replay_save_quota_reserve_bytes :: nat where
  "replay_save_quota_reserve_bytes = 4 * 1024 * 1024"

section \<open>State\<close>

record service_state =
  ss_view :: match_view
  ss_full_session :: "full_session_recording option"
  ss_baseline_bytes :: "nat option"
  ss_fs :: fs
  ss_events :: "service_event list"

text \<open>The run goes on, or returns well or with an error.\<close>

datatype service_exit = Running | ReturnedOk | ReturnedErr

definition send_events :: "service_event list \<Rightarrow> service_state \<Rightarrow> service_state" where
  "send_events evs s = s\<lparr>ss_events := ss_events s @ evs\<rparr>"

definition send_stopped :: "service_state \<Rightarrow> service_state" where
  "send_stopped = send_events [StatusEvent False False 0 (Fin 0) (Fin 0) False [] []]"

text \<open>The readings of the recorder for a status: segments, seconds and megabytes held.\<close>

record recorder_status =
  rs_ring_len :: nat
  rs_buffered_s :: f64
  rs_ring_bytes :: nat

definition send_recording_status :: "service_setup \<Rightarrow> recorder_status \<Rightarrow> service_state \<Rightarrow> service_state" where
  "send_recording_status su rs s = send_events [StatusEvent True False (rs_ring_len rs) (rs_buffered_s rs)
     (fdiv (f64_of_nat (rs_ring_bytes rs)) (f64_of_nat (1024 * 1024))) (ss_full_session s \<noteq> None)
     (su_encoder_label su) (su_backend_label su)] s"

text \<open>
  What the recorder answers when it is shut down or a session is finished, what its writer thread does
  to the file of the session until it has ended, and the time.
\<close>

record finish_answers =
  fa_stream :: "unit + unit"
  fa_ending :: session_ending
  fa_session :: "unit + (f64 \<times> f64 \<times> f64) option"
  fa_unix_now :: int

definition finish_context_of :: "service_setup \<Rightarrow> int \<Rightarrow> service_state \<Rightarrow> finish_context" where
  "finish_context_of su unix_now s = \<lparr>fc_render = su_render_markers su, fc_marker_log = mv_marker_log (ss_view s),
     fc_player_summary = full_session_player_summary (mv_player_summary (ss_view s)), fc_audio_tracks = su_audio_tracks su,
     fc_clips_dir = su_clips_dir su, fc_disk_quota_bytes = su_disk_quota_bytes su, fc_auto_delete = su_auto_delete su,
     fc_unix_now = unix_now\<rparr>"

definition shut_down :: "service_setup \<Rightarrow> finish_answers \<Rightarrow> service_state \<Rightarrow> service_state \<times> bool" where
  "shut_down su fa s = (case shutdown_recorder (su_env su) (su_leased su) (su_meanwhile su) (finish_context_of su (fa_unix_now fa) s)
        (fa_stream fa) (fa_ending fa) (fa_session fa) (ss_full_session s) (ss_fs s) of
     (fs, evs, failed) \<Rightarrow> (send_events evs (s\<lparr>ss_fs := fs, ss_full_session := None\<rparr>), failed))"

definition stop_service :: "service_setup \<Rightarrow> finish_answers \<Rightarrow> service_state \<Rightarrow> service_state \<times> service_exit" where
  "stop_service su fa s = (send_stopped (fst (shut_down su fa s)), ReturnedOk)"

definition fail_service :: "service_setup \<Rightarrow> finish_answers \<Rightarrow> service_state \<Rightarrow> service_state \<times> service_exit" where
  "fail_service su fa s = (fst (shut_down su fa s), ReturnedErr)"

section \<open>Descriptions of session folders\<close>

definition write_session_game_meta ::
  "service_setup \<Rightarrow> path \<Rightarrow> league_queue option \<Rightarrow> fs \<Rightarrow> fs" where
  "write_session_game_meta su session_dir queue fs = (case su_active_game su of
       None \<Rightarrow> fs
     | Some game \<Rightarrow>
         let meta_path = session_dir @ [session_meta_file]
         in if path_exists (su_env su) fs meta_path \<and> queue = None then fs
            else case su_render_game su game queue of
              None \<Rightarrow> fs
            | Some json \<Rightarrow> fst (write_file (su_env su) fs meta_path json))"

definition is_dir :: "fs_env \<Rightarrow> fs \<Rightarrow> path \<Rightarrow> bool" where
  "is_dir env fs p = (stat env fs p = Inr DirNode)"

text \<open>A queue message describes the folder of the match and, where it differs, of the full session.\<close>

definition describe_queue :: "service_setup \<Rightarrow> service_state \<Rightarrow> service_state" where
  "describe_queue su s =
     (let queue = mv_league_queue (ss_view s);
          replay_session_dir = su_clips_dir su @ [current_session (mv_session (ss_view s))];
          fs1 = (if is_dir (su_env su) (ss_fs s) replay_session_dir
                 then write_session_game_meta su replay_session_dir queue (ss_fs s) else ss_fs s);
          fs2 = (case ss_full_session s of
                   None \<Rightarrow> fs1
                 | Some rec \<Rightarrow> (case path_parent (fr_final_path rec) of
                     None \<Rightarrow> fs1
                   | Some d \<Rightarrow> if d \<noteq> replay_session_dir then write_session_game_meta su d queue fs1 else fs1))
      in s\<lparr>ss_fs := fs2\<rparr>)"

definition receive_message :: "service_setup \<Rightarrow> service_state \<Rightarrow> poller_msg \<times> string \<Rightarrow> service_state" where
  "receive_message su s m =
     (let s1 = s\<lparr>ss_view := handle_message (snd m) (ss_view s) (fst m)\<rparr>
      in case fst m of QueueMsg _ \<Rightarrow> describe_queue su s1 | _ \<Rightarrow> s1)"

section \<open>Starting a full session\<close>

record start_answers =
  sa_stamp :: nat
  sa_outside :: "nat \<Rightarrow> fs \<Rightarrow> fs"
  sa_started :: bool
  sa_unix_now :: int

definition begin_full_session_recording ::
  "service_setup \<Rightarrow> start_answers \<Rightarrow> service_state \<Rightarrow> service_state \<times> full_session_recording option" where
  "begin_full_session_recording su sa s =
     (let env = su_env su; session_dir = su_clips_dir su @ [current_session (mv_session (ss_view s))]
      in case create_dir_all env (ss_fs s) session_dir of
           (fs1, Inl _) \<Rightarrow> (send_events [ErrorEvent] (s\<lparr>ss_fs := fs1\<rparr>), None)
         | (fs1, Inr _) \<Rightarrow>
             let fs2 = write_session_game_meta su session_dir None fs1
             in case reserve_full_session_path_at env (sa_outside sa) session_dir ''session'' (sa_stamp sa) fs2 of
                  (fs3, Inl _) \<Rightarrow> (send_events [ErrorEvent] (s\<lparr>ss_fs := fs3\<rparr>), None)
                | (fs3, Inr (final_path, temp_path)) \<Rightarrow>
                    if sa_started sa
                    then (s\<lparr>ss_fs := fs3\<rparr>, Some \<lparr>fr_final_path = final_path, fr_temp_path = temp_path,
                           fr_wall_start_unix = sa_unix_now sa\<rparr>)
                    else (case handle_full_session_finish_error env temp_path fs3 of
                        (fs4, evs) \<Rightarrow> (send_events evs (s\<lparr>ss_fs := fs4\<rparr>), None)))"

section \<open>Saving a replay\<close>

text \<open>
  The answers of the recorder to a save: the bytes of the window, where it starts, and what \<open>save_replay\<close>
  leaves in the file with the end of the window or its failure.
\<close>

record save_answers =
  sv_window_bytes :: nat
  sv_window_start_s :: "f64 option"
  sv_written :: bytes
  sv_end_s :: "unit + f64"
  sv_stamp :: nat
  sv_finish :: finish_answers

definition save_clip :: "fs_env \<Rightarrow> path \<Rightarrow> save_answers \<Rightarrow> fs \<Rightarrow> fs \<times> (f64 \<times> f64) option" where
  "save_clip env p sv fs = (case ensure_clip_owned env fs p of
       (fs1, Inl _) \<Rightarrow> (fs1, None)
     | (fs1, Inr marker_created) \<Rightarrow>
         let (fs2, result) = (case write_file env fs1 p [] of
                 (fs2, Inl _) \<Rightarrow> (fs2, None)
               | (fs2, Inr _) \<Rightarrow> (fst (write_all_to env fs2 p (sv_written sv)), case sv_end_s sv of Inl _ \<Rightarrow> None | Inr e \<Rightarrow> Some e))
         in case result of
              None \<Rightarrow> (if marker_created then fst (remove_clip_ownership_marker env fs2 p) else fs2, None)
            | Some e \<Rightarrow> (fs2, Some (e, fsub e (case sv_window_start_s sv of Some start \<Rightarrow> start | None \<Rightarrow> e))))"

text \<open>After a save the baseline is the library without the file that is still being written.\<close>

definition baseline_after_save :: "service_setup \<Rightarrow> status_record \<Rightarrow> service_state \<Rightarrow> nat option" where
  "baseline_after_save su status s = (if st_clip_count status = 0 then ss_baseline_bytes s
     else case ss_full_session s of
       None \<Rightarrow> Some (st_total_bytes status)
     | Some rec \<Rightarrow> (case stat (su_env su) (ss_fs s) (fr_temp_path rec) of
           Inl _ \<Rightarrow> ss_baseline_bytes s
         | Inr n \<Rightarrow> Some (st_total_bytes status - (case n of FileNode content _ \<Rightarrow> length content | _ \<Rightarrow> 0))))"

definition saved_clip :: "service_setup \<Rightarrow> save_answers \<Rightarrow> path \<Rightarrow> f64 \<Rightarrow> f64 \<Rightarrow> service_state \<Rightarrow> service_state \<times> service_exit" where
  "saved_clip su sv p end_s seconds s =
     (let env = su_env su;
          (fs1, evs1, markers) = write_marker_sidecar env (su_render_markers su) (mv_marker_log (ss_view s)) p (fsub end_s seconds) end_s
            (active_replay_summary (mv_player_summary (ss_view s))) (su_audio_tracks su) (ss_fs s);
          (fs2, evs2, status) = emit_saved_clip env (su_leased su) (su_meanwhile su) (su_disk_quota_bytes su) (su_auto_delete su)
            (su_clips_dir su) p seconds \<lparr>sc_markers = markers, sc_full_session = False, sc_recording_start_unix = None,
              sc_recording_end_unix = None\<rparr> fs1;
          s1 = send_events (evs1 @ evs2) (s\<lparr>ss_fs := fs2\<rparr>);
          s2 = s1\<lparr>ss_baseline_bytes := baseline_after_save su status s1\<rparr>
      in if \<not> is_over_quota status then (s2, Running)
         else case storage_quota_full_event env (su_leased su) (su_meanwhile su) (su_clips_dir su) (su_disk_quota_bytes su) 0
             (su_auto_delete su) (ss_fs s2) of
           (fs3, evs3, full) \<Rightarrow> stop_service su (sv_finish sv)
             (send_events (evs3 @ (case full of Some e \<Rightarrow> [e] | None \<Rightarrow> [])) (s2\<lparr>ss_fs := fs3\<rparr>)))"

text \<open>The quota first: a full library ends the service before anything is written.\<close>

definition quota_check :: "service_setup \<Rightarrow> nat \<Rightarrow> service_state \<Rightarrow> service_state \<times> bool" where
  "quota_check su required s = (case storage_quota_full_event (su_env su) (su_leased su) (su_meanwhile su) (su_clips_dir su)
        (su_disk_quota_bytes su) required (su_auto_delete su) (ss_fs s) of
     (fs1, evs, full) \<Rightarrow> (send_events (evs @ (case full of Some e \<Rightarrow> [e] | None \<Rightarrow> [])) (s\<lparr>ss_fs := fs1\<rparr>), full \<noteq> None))"

definition save_to_folder :: "service_setup \<Rightarrow> save_answers \<Rightarrow> service_state \<Rightarrow> service_state \<times> service_exit" where
  "save_to_folder su sv s =
     (let env = su_env su; session_dir = su_clips_dir su @ [current_session (mv_session (ss_view s))]
      in case create_dir_all env (ss_fs s) session_dir of
           (fs1, Inl _) \<Rightarrow> (send_events [ErrorEvent] (s\<lparr>ss_fs := fs1\<rparr>), Running)
         | (fs1, Inr _) \<Rightarrow>
             let fs2 = write_session_game_meta su session_dir (mv_league_queue (ss_view s)) fs1;
                 p = unique_media_path_at env fs2 session_dir ''clip'' (sv_stamp sv)
             in case save_clip env p sv fs2 of
                  (fs3, None) \<Rightarrow> (send_events [ErrorEvent] (s\<lparr>ss_fs := fst (remove_file env fs3 p)\<rparr>), Running)
                | (fs3, Some (end_s, seconds)) \<Rightarrow> saved_clip su sv p end_s seconds (s\<lparr>ss_fs := fs3\<rparr>))"

definition handle_save :: "service_setup \<Rightarrow> save_answers \<Rightarrow> service_state \<Rightarrow> service_state \<times> service_exit" where
  "handle_save su sv s =
     (if 0 < sv_window_bytes sv
      then (case quota_check su (sat_add_u64 (min (sv_window_bytes sv) (2 ^ 64 - 1)) replay_save_quota_reserve_bytes) s of
          (s1, True) \<Rightarrow> stop_service su (sv_finish sv) s1
        | (s1, False) \<Rightarrow> save_to_folder su sv s1)
      else save_to_folder su sv s)"

section \<open>The other commands\<close>

definition handle_bookmark :: "f64 \<Rightarrow> f64 option \<Rightarrow> service_state \<Rightarrow> service_state" where
  "handle_bookmark t_s full_session_start_s s =
     (let v = ss_view s
      in send_events [BookmarkAdded t_s (map_option (\<lambda>start_s. fmax (fsub t_s start_s) (Fin 0)) full_session_start_s)]
           (s\<lparr>ss_view := v\<lparr>mv_marker_log := log_push_bookmark (mv_marker_log v) t_s\<rparr>\<rparr>))"

definition handle_start :: "service_setup \<Rightarrow> start_answers \<Rightarrow> recorder_status \<Rightarrow> finish_answers \<Rightarrow> service_state \<Rightarrow> service_state \<times> service_exit" where
  "handle_start su sa rs fa s =
     (if ss_full_session s \<noteq> None then (send_recording_status su rs s, Running)
      else case quota_check su full_session_quota_reserve_bytes s of
          (s1, True) \<Rightarrow> stop_service su fa s1
        | (s1, False) \<Rightarrow>
            (case begin_full_session_recording su sa s1 of
               (s2, full_session) \<Rightarrow>
                 let fs3 = (case full_session of
                       None \<Rightarrow> ss_fs s2
                     | Some rec \<Rightarrow> (case path_parent (fr_final_path rec) of
                         None \<Rightarrow> ss_fs s2
                       | Some d \<Rightarrow> write_session_game_meta su d (mv_league_queue (ss_view s2)) (ss_fs s2)))
                 in (send_recording_status su rs (s2\<lparr>ss_full_session := full_session, ss_fs := fs3\<rparr>), Running)))"

definition handle_stop_session :: "service_setup \<Rightarrow> finish_answers \<Rightarrow> recorder_status \<Rightarrow> service_state \<Rightarrow> service_state" where
  "handle_stop_session su fa rs s =
     (case finish_full_session_recording (su_env su) (su_leased su) (su_meanwhile su) (finish_context_of su (fa_unix_now fa) s)
         (fa_ending fa) (fa_session fa) (ss_full_session s) (ss_fs s) of
       (fs1, evs, status) \<Rightarrow>
         let s1 = send_events evs (s\<lparr>ss_fs := fs1, ss_full_session := None\<rparr>)
         in send_recording_status su rs
              (case status of Some st \<Rightarrow> s1\<lparr>ss_baseline_bytes := Some (st_total_bytes st)\<rparr> | None \<Rightarrow> s1))"

datatype service_command =
    SaveCmd save_answers
  | BookmarkCmd f64 "f64 option"
  | StartFullSessionCmd start_answers recorder_status finish_answers
  | StopFullSessionCmd finish_answers recorder_status
  | StopCmd bool finish_answers
  | DisconnectedCmd finish_answers

definition handle_command :: "service_setup \<Rightarrow> service_command \<Rightarrow> service_state \<Rightarrow> service_state \<times> service_exit" where
  "handle_command su cmd s = (case cmd of
       SaveCmd sv \<Rightarrow> handle_save su sv s
     | BookmarkCmd t_s start_s \<Rightarrow> (handle_bookmark t_s start_s s, Running)
     | StartFullSessionCmd sa rs fa \<Rightarrow> handle_start su sa rs fa s
     | StopFullSessionCmd fa rs \<Rightarrow> (handle_stop_session su fa rs s, Running)
     | StopCmd announce fa \<Rightarrow> (let s1 = fst (shut_down su fa s) in (if announce then send_stopped s1 else s1, ReturnedOk))
     | DisconnectedCmd fa \<Rightarrow> stop_service su fa s)"

text \<open>Before each command the rest of the system may have changed the files.\<close>

fun handle_commands :: "service_setup \<Rightarrow> ((fs \<Rightarrow> fs) \<times> service_command) list \<Rightarrow> service_state \<Rightarrow> service_state \<times> service_exit" where
  "handle_commands su [] s = (s, Running)"
| "handle_commands su ((outside, cmd) # cmds) s = (case handle_command su cmd (s\<lparr>ss_fs := outside (ss_fs s)\<rparr>) of
       (s1, Running) \<Rightarrow> handle_commands su cmds s1
     | (s1, e) \<Rightarrow> (s1, e))"

section \<open>The tick\<close>

record tick_answers =
  ta_oldest_media_s :: "f64 option"
  ta_status :: recorder_status
  ta_free_space :: bool
  ta_finish :: finish_answers

definition tick_quota :: "service_setup \<Rightarrow> service_state \<Rightarrow> service_state \<times> bool" where
  "tick_quota su s = (case ss_full_session s of
       None \<Rightarrow> (s, False)
     | Some rec \<Rightarrow> (case full_session_quota_check (su_env su) (su_leased su) (su_meanwhile su) (su_clips_dir su) rec (ss_baseline_bytes s)
            (su_disk_quota_bytes su) full_session_quota_reserve_bytes (su_auto_delete su) (ss_fs s) of
         (fs1, evs, check) \<Rightarrow>
           let s1 = s\<lparr>ss_fs := fs1, ss_baseline_bytes := (case fq_new_baseline_bytes check of Some b \<Rightarrow> Some b | None \<Rightarrow> ss_baseline_bytes s)\<rparr>
           in (send_events (evs @ (case fq_event check of Some e \<Rightarrow> [e] | None \<Rightarrow> [])) s1, fq_event check \<noteq> None)))"

definition service_tick :: "service_setup \<Rightarrow> tick_answers \<Rightarrow> service_state \<Rightarrow> service_state \<times> service_exit" where
  "service_tick su ta s = (case tick_quota su s of
       (s1, True) \<Rightarrow> stop_service su (ta_finish ta) s1
     | (s1, False) \<Rightarrow>
         let v = ss_view s1;
             s2 = (case (ss_full_session s1, ta_oldest_media_s ta) of
                 (None, Some oldest) \<Rightarrow> s1\<lparr>ss_view := v\<lparr>mv_marker_log := log_retain_from (mv_marker_log v) oldest\<rparr>\<rparr>
               | _ \<Rightarrow> s1);
             s3 = send_recording_status su (ta_status ta) s2
         in if su_disk_cache su \<and> \<not> ta_free_space ta then fail_service su (ta_finish ta) s3 else (s3, Running))"

section \<open>The loop\<close>

datatype recorder_step = StepDone | StepIdle | StepEnded | StepFailed

record loop_input =
  li_outside :: "fs \<Rightarrow> fs"
  li_step :: recorder_step
  li_messages :: "(poller_msg \<times> string) list"
  li_tick :: "tick_answers option"
  li_commands :: "((fs \<Rightarrow> fs) \<times> service_command) list"
  li_finish :: finish_answers

text \<open>After the loop a failed shutdown is the error of the run.\<close>

definition end_of_stream :: "service_setup \<Rightarrow> finish_answers \<Rightarrow> service_state \<Rightarrow> service_state \<times> service_exit" where
  "end_of_stream su fa s = (case shut_down su fa s of (s1, failed) \<Rightarrow> if failed then (s1, ReturnedErr) else (send_stopped s1, ReturnedOk))"

definition service_turn :: "service_setup \<Rightarrow> loop_input \<Rightarrow> service_state \<Rightarrow> service_state \<times> service_exit" where
  "service_turn su i s =
     (let s0 = s\<lparr>ss_fs := li_outside i (ss_fs s)\<rparr>
      in case li_step i of
           StepEnded \<Rightarrow> end_of_stream su (li_finish i) s0
         | StepFailed \<Rightarrow> fail_service su (li_finish i) s0
         | _ \<Rightarrow>
             let s1 = foldl (receive_message su) s0 (li_messages i)
             in case (case li_tick i of None \<Rightarrow> (s1, Running) | Some ta \<Rightarrow> service_tick su ta s1) of
                  (s2, Running) \<Rightarrow> handle_commands su (li_commands i) s2
                | (s2, e) \<Rightarrow> (s2, e))"

fun service_loop :: "service_setup \<Rightarrow> loop_input list \<Rightarrow> service_state \<Rightarrow> service_state \<times> service_exit" where
  "service_loop su [] s = (s, Running)"
| "service_loop su (i # is) s = (case service_turn su i s of
       (s1, Running) \<Rightarrow> service_loop su is s1
     | (s1, e) \<Rightarrow> (s1, e))"

text \<open>Before the loop: a full session starts when the mode asks for it, and the first status is sent.\<close>

definition service_start :: "service_setup \<Rightarrow> bool \<Rightarrow> start_answers \<Rightarrow> recorder_status \<Rightarrow> service_state \<Rightarrow> service_state" where
  "service_start su full_session_mode sa rs s =
     (let (s1, full_session) = (if full_session_mode then begin_full_session_recording su sa s else (s, None))
      in send_recording_status su rs (s1\<lparr>ss_full_session := full_session\<rparr>))"

text \<open>The thread of \<open>spawn\<close>: an error of the run is an event, and then the recorder has stopped too.\<close>

definition service_thread :: "service_setup \<Rightarrow> loop_input list \<Rightarrow> service_state \<Rightarrow> service_state \<times> service_exit" where
  "service_thread su is s = (case service_loop su is s of
       (s1, ReturnedErr) \<Rightarrow> (send_stopped (send_events [ErrorEvent] s1), ReturnedErr)
     | r \<Rightarrow> r)"

end
