(* ===== verification/Service_Loop_Correct.thy ===== *)
theory Service_Loop_Correct
  imports Service_Loop Service_Files_Correct
begin

text \<open>
  What the loop of the recorder service promises: it leaves the file of a running full session alone,
  and the last thing it tells is that it stopped.
\<close>

section \<open>A recording is left alone\<close>

text \<open>From one tree to the next the file at a path keeps its content.\<close>

definition keeps_file :: "path \<Rightarrow> fs \<Rightarrow> fs \<Rightarrow> bool" where
  "keeps_file q fs fs' \<longleftrightarrow> (\<forall>content t. node_at fs q = Some (FileNode content t) \<longrightarrow> node_at fs' q = Some (FileNode content t))"

lemma keeps_file_refl [simp]: "keeps_file q fs fs"
  by (simp add: keeps_file_def)

lemma keeps_file_trans: "keeps_file q fs fs' \<Longrightarrow> keeps_file q fs' fs'' \<Longrightarrow> keeps_file q fs fs''"
  by (simp add: keeps_file_def)

lemma keeps_file_same: "node_at fs' q = node_at fs q \<Longrightarrow> keeps_file q fs fs'"
  by (simp add: keeps_file_def)

lemma write_session_game_meta_keeps: "is_recording_mp4 q \<Longrightarrow> keeps_file q fs (write_session_game_meta su d queue fs)"
proof -
  assume q: "is_recording_mp4 q"
  then have n: "q \<noteq> d @ [session_meta_file]" using session_meta_not_media by blast
  have w: "keeps_file q fs (fst (write_file (su_env su) fs (d @ [session_meta_file]) json))" for json
    using write_file_elsewhere [OF surjective_pairing n] by (rule keeps_file_same)
  show ?thesis by (simp add: write_session_game_meta_def Let_def w split: option.splits)
qed

lemma create_dirs_keeps: "keeps_file q fs (fst (create_dirs env ps fs))"
proof (induction ps arbitrary: fs)
  case (Cons p ps)
  have "keeps_file q fs (placed fs p DirNode)" if "node_at fs p = None" using that by (auto simp: keeps_file_def)
  then show ?case using Cons.IH keeps_file_trans by (fastforce split: sum.splits node.splits)
qed simp

lemma create_dir_all_keeps: "keeps_file q fs (fst (create_dir_all env fs p))"
  unfolding create_dir_all_def by (rule create_dirs_keeps)

text \<open>A collection never takes a recording.\<close>

lemma recording_stays:
  assumes "enforce_quota_with_protection env leased meanwhile dir quota_bytes protect fs = (fs', r)"
    "\<forall>p g. node_at (meanwhile p g) q = node_at g q" "is_recording_mp4 q"
  shows "keeps_file q fs fs'"
  unfolding keeps_file_def
proof (intro allI impI, rule ccontr)
  fix content t
  assume n: "node_at fs q = Some (FileNode content t)" and "node_at fs' q \<noteq> Some (FileNode content t)"
  then have "node_at fs' q \<noteq> node_at fs q" by simp
  from enforced_quota_changes [OF assms(1,2) this] obtain p where p: "media_dir fs dir (butlast p)" "is_mp4 p" "\<not> is_recording_mp4 p"
    "q = p \<or> q \<in> set (sidecar_candidates p)
      \<or> (butlast p \<noteq> dir \<and> (q = butlast p \<or> q = butlast p @ [session_meta_file]))" by auto
  have "q \<notin> set (sidecar_candidates p)" using sidecar_not_media [of p q] p(2) assms(3) by blast
  moreover have "q \<noteq> butlast p @ [session_meta_file]" using session_meta_not_media assms(3) by blast
  moreover have "butlast p \<noteq> dir \<Longrightarrow> q \<noteq> butlast p" using p(1) n by (auto simp: media_dir_def)
  ultimately show False using p(3,4) assms(3) by blast
qed

lemma make_room_keeps:
  assumes "\<forall>p g. node_at (meanwhile p g) q = node_at g q" "is_recording_mp4 q"
  shows "keeps_file q fs (fst (make_room_for_quota env leased meanwhile dir quota_bytes required protect fs))"
  using recording_stays [OF _ assms]
  by (auto simp: make_room_for_quota_def Let_def split: option.splits prod.splits)

lemma quota_event_keeps:
  assumes "\<forall>p g. node_at (meanwhile p g) q = node_at g q" "is_recording_mp4 q"
  shows "keeps_file q fs (fst (storage_quota_full_event env leased meanwhile dir quota_bytes required auto fs))"
  using make_room_keeps [OF assms, of fs env leased dir quota_bytes required None]
  by (auto simp: storage_quota_full_event_def Let_def split: option.splits prod.splits)

lemma session_quota_keeps:
  assumes "\<forall>p g. node_at (meanwhile p g) q = node_at g q" "is_recording_mp4 q"
  shows "keeps_file q fs (fst (full_session_quota_check env leased meanwhile dir rec baseline quota_bytes required auto fs))"
  using make_room_keeps [OF assms, of fs env leased dir quota_bytes required None]
  by (auto simp: full_session_quota_check_def Let_def split: option.splits prod.splits sum.splits if_splits)

lemma sidecar_keeps:
  assumes "is_mp4 p" "is_recording_mp4 q"
  shows "keeps_file q fs (fst (write_marker_sidecar env render entries p s e summary tracks fs))"
proof -
  have "q \<noteq> with_extension p ''markers.json''"
    using sidecar_not_media [of p "with_extension p ''markers.json''"] assms by (auto simp: sidecar_candidates_def sidecar_path_def)
  then have "write_file env fs (with_extension p ''markers.json'') json = (g, r) \<Longrightarrow> keeps_file q fs g" for json g r
    using write_file_elsewhere keeps_file_same by blast
  then show ?thesis
    by (auto simp: write_marker_sidecar_def Let_def split: if_splits option.splits prod.splits sum.splits)
qed

lemma saved_event_keeps:
  assumes "\<forall>p g. node_at (meanwhile p g) q = node_at g q" "is_recording_mp4 q"
  shows "keeps_file q fs (fst (emit_saved_clip env leased meanwhile quota_bytes auto dir p seconds meta fs))"
  using recording_stays [OF _ assms]
  by (auto simp: emit_saved_clip_def Let_def split: prod.splits sum.splits)

lemma owned_keeps: "keeps_file q fs (fst (ensure_clip_owned env fs p))"
  using ensure_clip_owned_keeps [OF surjective_pairing [of "ensure_clip_owned env fs p"], of q] by (auto simp: keeps_file_def)


lemma save_clip_keeps:
  assumes "is_mp4 p" "is_recording_mp4 q"
  shows "keeps_file q fs (fst (save_clip env p sv fs))"
proof -
  have n: "q \<noteq> p" using assms by (rule mp4_not_recording)
  obtain fs1 r1 where o: "ensure_clip_owned env fs p = (fs1, r1)" by (cases "ensure_clip_owned env fs p")
  have k1: "keeps_file q fs fs1" using owned_keeps [of q fs env p] o by simp
  obtain fs2 r2 where w: "write_file env fs1 p [] = (fs2, r2)" by (cases "write_file env fs1 p []")
  have k2: "keeps_file q fs fs2" using keeps_file_trans [OF k1 keeps_file_same [OF write_file_elsewhere [OF w n]]] .
  have k3: "keeps_file q fs (fst (write_all_to env fs2 p content))" for content
    using keeps_file_trans [OF k2 keeps_file_same [OF write_all_to_elsewhere [OF surjective_pairing n]]] .
  have k4: "keeps_file q fs g \<Longrightarrow> keeps_file q fs (fst (remove_clip_ownership_marker env g p))" for g
    using keeps_file_trans keeps_file_same [OF remove_marker_keeps_media] assms(2) by blast
  show ?thesis using o w k1 k2 k3 k4
    by (auto simp: save_clip_def Let_def split: prod.splits sum.splits option.splits)
qed

lemma clip_name_mp4: "is_mp4 (unique_media_path_at env fs dir prefix stamp)"
proof -
  have "dir @ [prefix @ ''_'' @ decimal n @ ''.mp4''] = dir @ [media_name prefix n 0]" for n by (simp add: media_name_def)
  then show ?thesis
    by (auto simp: unique_media_path_at_def media_name_mp4(1) simp del: append_assoc split: option.splits)
qed

section \<open>The full session in the steps of the loop\<close>

text \<open>The full session runs on, and its file still begins with the content it had.\<close>

definition file_begins :: "path \<Rightarrow> bytes \<Rightarrow> fs \<Rightarrow> bool" where
  "file_begins p content fs \<longleftrightarrow> (\<exists>more t. node_at fs p = Some (FileNode (content @ more) t))"

definition recording_on :: "full_session_recording \<Rightarrow> bytes \<Rightarrow> service_state \<Rightarrow> bool" where
  "recording_on rec content s \<longleftrightarrow> ss_full_session s = Some rec \<and> file_begins (fr_temp_path rec) content (ss_fs s)"

text \<open>
  A file has the footage: its content is at least as long, and all bytes are there but the 16 of the free
  box at its beginning, which finalizing replaces.
\<close>

definition has_footage :: "bytes \<Rightarrow> bytes \<Rightarrow> bool" where
  "has_footage content c \<longleftrightarrow> length content \<le> length c
     \<and> (\<forall>i < length content. i < session_free_offset \<or> session_free_offset + 16 \<le> i \<longrightarrow> c ! i = content ! i)"

lemma ended_has_footage: "has_footage content (end_session_content e (content @ rest))"
proof -
  note k = end_session_keeps_bytes [of "content @ rest" e]
  have "end_session_content e (content @ rest) ! i = content ! i"
    if "i < length content" "i < session_free_offset \<or> session_free_offset + 16 \<le> i" for i
  proof -
    have "i < length (content @ rest)" using that(1) by simp
    with k that(2) have "end_session_content e (content @ rest) ! i = (content @ rest) ! i" by blast
    with that(1) show ?thesis by (simp add: nth_append)
  qed
  with k show ?thesis by (simp add: has_footage_def)
qed

definition footage_safe :: "full_session_recording \<Rightarrow> bytes \<Rightarrow> service_state \<Rightarrow> bool" where
  "footage_safe rec content s \<longleftrightarrow> (\<exists>p \<in> {fr_temp_path rec, fr_final_path rec}. \<exists>c t. node_at (ss_fs s) p = Some (FileNode c t) \<and> has_footage content c)"

text \<open>How a step ends: the run goes on with the session, or it is over and the footage is safe.\<close>

definition session_kept :: "full_session_recording \<Rightarrow> bytes \<Rightarrow> service_state \<times> service_exit \<Rightarrow> bool" where
  "session_kept rec content r \<longleftrightarrow> (case r of (s, e) \<Rightarrow> if e = Running then recording_on rec content s else footage_safe rec content s)"

text \<open>The files of a session, which nobody else touches while the loop collects.\<close>

definition session_files :: "service_setup \<Rightarrow> full_session_recording \<Rightarrow> bool" where
  "session_files su rec \<longleftrightarrow> is_recording_mp4 (fr_temp_path rec) \<and> is_mp4 (fr_final_path rec)
     \<and> (\<forall>p g. \<forall>q \<in> {fr_temp_path rec, fr_final_path rec}. node_at (su_meanwhile su p g) q = node_at g q)"

text \<open>A writer that only appends.\<close>

definition appends_only :: "path \<Rightarrow> (fs \<Rightarrow> fs) \<Rightarrow> bool" where
  "appends_only p f \<longleftrightarrow> (\<forall>g content t. node_at g p = Some (FileNode content t)
     \<longrightarrow> (\<exists>more t'. node_at (f g) p = Some (FileNode (content @ more) t')))"

lemma recording_on_safe: "recording_on rec content s \<Longrightarrow> footage_safe rec content s"
  unfolding recording_on_def file_begins_def footage_safe_def has_footage_def by (force simp: nth_append)

lemma begins_kept: "keeps_file p fs fs' \<Longrightarrow> file_begins p content fs \<Longrightarrow> file_begins p content fs'"
  by (auto simp: keeps_file_def file_begins_def)

lemma appends_begins: "appends_only p f \<Longrightarrow> file_begins p content fs \<Longrightarrow> file_begins p content (f fs)"
  unfolding appends_only_def file_begins_def by (metis append_assoc)

lemma send_events_fields [simp]:
  "ss_fs (send_events evs s) = ss_fs s" "ss_full_session (send_events evs s) = ss_full_session s"
  "ss_view (send_events evs s) = ss_view s" "ss_baseline_bytes (send_events evs s) = ss_baseline_bytes s"
  "ss_events (send_events evs s) = ss_events s @ evs"
  by (simp_all add: send_events_def)

lemma recording_on_events [simp]: "recording_on rec content (send_events evs s) = recording_on rec content s"
  "footage_safe rec content (send_events evs s) = footage_safe rec content s"
  by (simp_all add: recording_on_def footage_safe_def)

lemma recording_on_status [simp]: "recording_on rec content (send_recording_status su rs s) = recording_on rec content s"
  "footage_safe rec content (send_stopped s) = footage_safe rec content s"
  by (simp_all add: send_recording_status_def send_stopped_def)

lemma recording_on_kept:
  "recording_on rec content s \<Longrightarrow> ss_full_session s' = ss_full_session s \<Longrightarrow> keeps_file (fr_temp_path rec) (ss_fs s) (ss_fs s')
     \<Longrightarrow> recording_on rec content s'"
  using begins_kept by (auto simp: recording_on_def)

lemma shut_down_safe:
  assumes "session_files su rec" "recording_on rec content s" "content \<noteq> []"
  shows "footage_safe rec content (fst (shut_down su fa s))"
proof -
  obtain fs' evs failed where r: "shutdown_recorder (su_env su) (su_leased su) (su_meanwhile su) (finish_context_of su (fa_unix_now fa) s)
      (fa_stream fa) (fa_ending fa) (fa_session fa) (Some rec) (ss_fs s) = (fs', evs, failed)" by (metis prod_cases3)
  obtain more t where n: "node_at (ss_fs s) (fr_temp_path rec) = Some (FileNode (content @ more) t)"
    using assms(2) by (auto simp: recording_on_def file_begins_def)
  have "end_session_content (fa_ending fa) (content @ more) \<noteq> []" using assms(3) by (intro end_session_nonempty) simp
  then have "footage_kept rec (end_session_content (fa_ending fa) (content @ more)) (en_time (fa_ending fa)) fs'"
    using shutdown_keeps [OF r n] assms(1) by (simp add: session_files_def)
  then show ?thesis
    using r assms(2) ended_has_footage [of content "fa_ending fa" more]
    by (auto simp: shut_down_def recording_on_def footage_safe_def footage_kept_def)
qed

lemma stop_service_safe:
  assumes "session_files su rec" "recording_on rec content s" "content \<noteq> []"
  shows "session_kept rec content (stop_service su fa s)" "session_kept rec content (fail_service su fa s)"
  using shut_down_safe [OF assms] by (simp_all add: session_kept_def stop_service_def fail_service_def)


lemma describe_queue_keeps: "is_recording_mp4 q \<Longrightarrow> keeps_file q (ss_fs s) (ss_fs (describe_queue su s))"
  using write_session_game_meta_keeps [of q] keeps_file_trans
  by (auto simp: describe_queue_def Let_def split: option.splits) blast+

lemma receive_message_on:
  assumes "session_files su rec" "recording_on rec content s"
  shows "recording_on rec content (receive_message su s m)"
proof (rule recording_on_kept [OF assms(2)])
  show "ss_full_session (receive_message su s m) = ss_full_session s"
    by (simp add: receive_message_def describe_queue_def Let_def split: poller_msg.splits)
  show "keeps_file (fr_temp_path rec) (ss_fs s) (ss_fs (receive_message su s m))"
    using describe_queue_keeps [of "fr_temp_path rec" "s\<lparr>ss_view := handle_message (snd m) (ss_view s) (fst m)\<rparr>" su] assms(1)
    by (cases "fst m") (simp_all add: receive_message_def session_files_def Let_def)
qed

lemma receive_messages_on:
  "session_files su rec \<Longrightarrow> recording_on rec content s \<Longrightarrow> recording_on rec content (foldl (receive_message su) s ms)"
  by (induction ms arbitrary: s) (simp_all add: receive_message_on)

lemma tick_quota_on:
  assumes "session_files su rec" "recording_on rec content s"
  shows "recording_on rec content (fst (tick_quota su s))"
proof -
  have f: "ss_full_session s = Some rec" using assms(2) by (simp add: recording_on_def)
  have k: "keeps_file (fr_temp_path rec) (ss_fs s) (fst (full_session_quota_check (su_env su) (su_leased su) (su_meanwhile su) (su_clips_dir su) rec
      (ss_baseline_bytes s) (su_disk_quota_bytes su) full_session_quota_reserve_bytes (su_auto_delete su) (ss_fs s)))"
    using assms(1) by (intro session_quota_keeps) (simp_all add: session_files_def)
  show ?thesis
    by (rule recording_on_kept [OF assms(2)]; use k f in \<open>auto simp: tick_quota_def Let_def split: prod.splits option.splits\<close>)
qed

lemma service_tick_kept:
  assumes "session_files su rec" "recording_on rec content s" "content \<noteq> []"
  shows "session_kept rec content (service_tick su ta s)"
proof -
  obtain s1 full where q: "tick_quota su s = (s1, full)" by (cases "tick_quota su s")
  have on: "recording_on rec content s1" using tick_quota_on [OF assms(1,2)] q by simp
  have f: "ss_full_session s1 = Some rec" using on by (simp add: recording_on_def)
  show ?thesis
  proof (cases full)
    case True
    then show ?thesis using stop_service_safe(1) [OF assms(1) on assms(3)] q by (simp add: service_tick_def)
  next
    case False
    have on2: "recording_on rec content (send_recording_status su (ta_status ta) s1)" using on by simp
    show ?thesis
      using False q f stop_service_safe(2) [OF assms(1) on2 assms(3), of "ta_finish ta"] on2
      by (simp add: service_tick_def Let_def session_kept_def)
  qed
qed

lemma quota_check_on:
  assumes "session_files su rec" "recording_on rec content s"
  shows "recording_on rec content (fst (quota_check su required s))"
proof -
  have k: "keeps_file (fr_temp_path rec) (ss_fs s) (fst (storage_quota_full_event (su_env su) (su_leased su) (su_meanwhile su) (su_clips_dir su)
      (su_disk_quota_bytes su) required (su_auto_delete su) (ss_fs s)))"
    using assms(1) by (intro quota_event_keeps) (simp_all add: session_files_def)
  show ?thesis
    by (rule recording_on_kept [OF assms(2)]; use k in \<open>auto simp: quota_check_def split: prod.splits\<close>)
qed

lemma saved_clip_kept:
  assumes "session_files su rec" "recording_on rec content s" "content \<noteq> []" "is_mp4 p"
  shows "session_kept rec content (saved_clip su sv p end_s seconds s)"
proof -
  let ?temp = "fr_temp_path rec"
  have temp: "is_recording_mp4 ?temp" and quiet: "\<forall>p g. node_at (su_meanwhile su p g) ?temp = node_at g ?temp"
    using assms(1) by (simp_all add: session_files_def)
  obtain fs1 evs1 markers where w: "write_marker_sidecar (su_env su) (su_render_markers su) (mv_marker_log (ss_view s)) p (fsub end_s seconds) end_s
      (active_replay_summary (mv_player_summary (ss_view s))) (su_audio_tracks su) (ss_fs s) = (fs1, evs1, markers)" by (metis prod_cases3)
  obtain fs2 evs2 status where e: "emit_saved_clip (su_env su) (su_leased su) (su_meanwhile su) (su_disk_quota_bytes su) (su_auto_delete su)
      (su_clips_dir su) p seconds \<lparr>sc_markers = markers, sc_full_session = False, sc_recording_start_unix = None,
        sc_recording_end_unix = None\<rparr> fs1 = (fs2, evs2, status)" by (metis prod_cases3)
  have "keeps_file ?temp (ss_fs s) fs1" using sidecar_keeps [OF assms(4) temp] w by (metis fst_conv)
  moreover have "keeps_file ?temp fs1 fs2" using saved_event_keeps [OF quiet temp] e by (metis fst_conv)
  ultimately have k2: "keeps_file ?temp (ss_fs s) fs2" using keeps_file_trans by blast
  define s1 where "s1 = send_events (evs1 @ evs2) (s\<lparr>ss_fs := fs2\<rparr>)"
  define s2 where "s2 = s1\<lparr>ss_baseline_bytes := baseline_after_save su status s1\<rparr>"
  have on2: "recording_on rec content s2"
    by (rule recording_on_kept [OF assms(2)]) (simp_all add: s2_def s1_def k2)
  obtain fs3 evs3 full where q: "storage_quota_full_event (su_env su) (su_leased su) (su_meanwhile su) (su_clips_dir su) (su_disk_quota_bytes su) 0
      (su_auto_delete su) (ss_fs s2) = (fs3, evs3, full)" by (metis prod_cases3)
  have "keeps_file ?temp (ss_fs s2) fs3" using quota_event_keeps [OF quiet temp] q by (metis fst_conv)
  then have on3: "recording_on rec content (send_events (evs3 @ (case full of Some e \<Rightarrow> [e] | None \<Rightarrow> [])) (s2\<lparr>ss_fs := fs3\<rparr>))"
    by (intro recording_on_kept [OF on2]) simp_all
  have eq: "saved_clip su sv p end_s seconds s = (if \<not> is_over_quota status then (s2, Running)
      else stop_service su (sv_finish sv) (send_events (evs3 @ (case full of Some e \<Rightarrow> [e] | None \<Rightarrow> [])) (s2\<lparr>ss_fs := fs3\<rparr>)))"
    using w e q unfolding saved_clip_def s2_def s1_def by (simp add: Let_def)
  show ?thesis using stop_service_safe(1) [OF assms(1) on3 assms(3)] on2 by (simp add: eq session_kept_def)
qed

lemma save_to_folder_kept:
  assumes "session_files su rec" "recording_on rec content s" "content \<noteq> []"
  shows "session_kept rec content (save_to_folder su sv s)"
proof -
  let ?temp = "fr_temp_path rec" and ?dir = "su_clips_dir su @ [current_session (mv_session (ss_view s))]"
  have temp: "is_recording_mp4 ?temp" using assms(1) by (simp add: session_files_def)
  obtain fs1 r1 where c: "create_dir_all (su_env su) (ss_fs s) ?dir = (fs1, r1)" by (cases "create_dir_all (su_env su) (ss_fs s) ?dir")
  have k1: "keeps_file ?temp (ss_fs s) fs1" using create_dir_all_keeps [of ?temp "ss_fs s" "su_env su" ?dir] c by simp
  define fs2 where "fs2 = write_session_game_meta su ?dir (mv_league_queue (ss_view s)) fs1"
  define p where "p = unique_media_path_at (su_env su) fs2 ?dir ''clip'' (sv_stamp sv)"
  have mp4: "is_mp4 p" unfolding p_def by (rule clip_name_mp4)
  have k2: "keeps_file ?temp (ss_fs s) fs2"
    unfolding fs2_def using keeps_file_trans [OF k1 write_session_game_meta_keeps [OF temp]] .
  obtain fs3 r3 where v: "save_clip (su_env su) p sv fs2 = (fs3, r3)" by (cases "save_clip (su_env su) p sv fs2")
  have k3: "keeps_file ?temp (ss_fs s) fs3" using keeps_file_trans [OF k2] save_clip_keeps [OF mp4 temp, of fs2 "su_env su" sv] v by simp
  have k4: "keeps_file ?temp (ss_fs s) (fst (remove_file (su_env su) fs3 p))"
    using keeps_file_trans [OF k3 keeps_file_same [OF remove_file_elsewhere [OF mp4_not_recording [OF mp4 temp]]]] .
  have on: "recording_on rec content (s\<lparr>ss_fs := g\<rparr>)" if "keeps_file ?temp (ss_fs s) g" for g
    by (rule recording_on_kept [OF assms(2)]) (simp_all add: that)
  show ?thesis
  proof (cases r1)
    case (Inl e)
    then show ?thesis using c on [OF k1] by (simp add: save_to_folder_def session_kept_def Let_def)
  next
    case (Inr u)
    show ?thesis
    proof (cases r3)
      case None
      then show ?thesis using c Inr v on [OF k4] by (simp add: save_to_folder_def session_kept_def Let_def fs2_def p_def)
    next
      case (Some x)
      then show ?thesis
        using c Inr v saved_clip_kept [OF assms(1) on [OF k3] assms(3) mp4]
        by (cases x) (simp add: save_to_folder_def Let_def fs2_def [symmetric] p_def [symmetric])
    qed
  qed
qed


lemma handle_save_kept:
  assumes "session_files su rec" "recording_on rec content s" "content \<noteq> []"
  shows "session_kept rec content (handle_save su sv s)"
proof -
  let ?required = "sat_add_u64 (min (sv_window_bytes sv) (2 ^ 64 - 1)) replay_save_quota_reserve_bytes"
  obtain s1 full where q: "quota_check su ?required s = (s1, full)" by (cases "quota_check su ?required s")
  have on: "recording_on rec content s1" using quota_check_on [OF assms(1,2)] q by (metis fst_conv)
  show ?thesis
    using q save_to_folder_kept [OF assms(1) on assms(3)] save_to_folder_kept [OF assms] stop_service_safe(1) [OF assms(1) on assms(3)]
    by (cases full) (simp_all add: handle_save_def)
qed

text \<open>The command that ends a full session, and one that ends the run without a word.\<close>

definition stops_session :: "service_command \<Rightarrow> bool" where
  "stops_session cmd \<longleftrightarrow> (case cmd of StopFullSessionCmd _ _ \<Rightarrow> True | _ \<Rightarrow> False)"

definition silent_stop :: "service_command \<Rightarrow> bool" where
  "silent_stop cmd \<longleftrightarrow> (case cmd of StopCmd announce _ \<Rightarrow> \<not> announce | _ \<Rightarrow> False)"

lemma handle_command_kept:
  assumes "session_files su rec" "recording_on rec content s" "content \<noteq> []" "\<not> stops_session cmd"
  shows "session_kept rec content (handle_command su cmd s)"
proof (cases cmd)
  case (SaveCmd sv)
  then show ?thesis using handle_save_kept [OF assms(1-3)] by (simp add: handle_command_def)
next
  case (BookmarkCmd t_s start_s)
  have "recording_on rec content (s\<lparr>ss_view := v\<rparr>)" for v using assms(2) by (simp add: recording_on_def)
  with BookmarkCmd show ?thesis by (simp add: handle_command_def handle_bookmark_def session_kept_def Let_def)
next
  case (StartFullSessionCmd sa rs fa)
  then show ?thesis using assms(2) by (simp add: handle_command_def handle_start_def session_kept_def) (simp add: recording_on_def)
next
  case (StopFullSessionCmd fa rs)
  then show ?thesis using assms(4) by (simp add: stops_session_def)
next
  case (StopCmd announce fa)
  then show ?thesis using shut_down_safe [OF assms(1-3), of fa] by (simp add: handle_command_def session_kept_def Let_def)
next
  case (DisconnectedCmd fa)
  then show ?thesis using stop_service_safe(1) [OF assms(1-3)] by (simp add: handle_command_def)
qed

lemma outside_on: "appends_only (fr_temp_path rec) f \<Longrightarrow> recording_on rec content s \<Longrightarrow> recording_on rec content (s\<lparr>ss_fs := f (ss_fs s)\<rparr>)"
  by (simp add: recording_on_def appends_begins)

definition quiet_commands :: "full_session_recording \<Rightarrow> ((fs \<Rightarrow> fs) \<times> service_command) list \<Rightarrow> bool" where
  "quiet_commands rec cmds \<longleftrightarrow> list_all (\<lambda>(outside, cmd). appends_only (fr_temp_path rec) outside \<and> \<not> stops_session cmd) cmds"

lemma handle_commands_kept:
  "session_files su rec \<Longrightarrow> recording_on rec content s \<Longrightarrow> content \<noteq> [] \<Longrightarrow> quiet_commands rec cmds
     \<Longrightarrow> session_kept rec content (handle_commands su cmds s)"
proof (induction cmds arbitrary: s)
  case (Cons c cmds)
  obtain outside cmd where c: "c = (outside, cmd)" by (cases c)
  have on: "recording_on rec content (s\<lparr>ss_fs := outside (ss_fs s)\<rparr>)"
    using Cons.prems(2,4) c by (intro outside_on) (simp_all add: quiet_commands_def)
  obtain s1 e where h: "handle_command su cmd (s\<lparr>ss_fs := outside (ss_fs s)\<rparr>) = (s1, e)"
    by (cases "handle_command su cmd (s\<lparr>ss_fs := outside (ss_fs s)\<rparr>)")
  have k: "session_kept rec content (s1, e)"
    using handle_command_kept [OF Cons.prems(1) on Cons.prems(3)] Cons.prems(4) c h by (metis quiet_commands_def list.pred_inject(2) case_prod_conv)
  show ?case
    using k h c Cons.IH [OF Cons.prems(1) _ Cons.prems(3)] Cons.prems(4)
    by (cases e) (simp_all add: session_kept_def quiet_commands_def)
qed (simp add: session_kept_def)

definition quiet_input :: "full_session_recording \<Rightarrow> loop_input \<Rightarrow> bool" where
  "quiet_input rec i \<longleftrightarrow> appends_only (fr_temp_path rec) (li_outside i) \<and> quiet_commands rec (li_commands i)"

lemma service_turn_kept:
  assumes "session_files su rec" "recording_on rec content s" "content \<noteq> []" "quiet_input rec i"
  shows "session_kept rec content (service_turn su i s)"
proof -
  define s0 where "s0 = s\<lparr>ss_fs := li_outside i (ss_fs s)\<rparr>"
  have on0: "recording_on rec content s0"
    unfolding s0_def using outside_on assms(2,4) by (simp add: quiet_input_def)
  define s1 where "s1 = foldl (receive_message su) s0 (li_messages i)"
  have on1: "recording_on rec content s1" unfolding s1_def by (rule receive_messages_on [OF assms(1) on0])
  define r where "r = (case li_tick i of None \<Rightarrow> (s1, Running) | Some ta \<Rightarrow> service_tick su ta s1)"
  have r: "session_kept rec content r"
    using service_tick_kept [OF assms(1) on1 assms(3)] on1
    by (cases "li_tick i") (simp_all add: r_def session_kept_def [of _ _ "(s1, Running)"])
  have ended: "session_kept rec content (end_of_stream su (li_finish i) s0)"
    using shut_down_safe [OF assms(1) on0 assms(3), of "li_finish i"]
    by (cases "shut_down su (li_finish i) s0") (simp add: end_of_stream_def session_kept_def)
  have rest: "session_kept rec content (case r of (s2, Running) \<Rightarrow> handle_commands su (li_commands i) s2 | (s2, e) \<Rightarrow> (s2, e))"
    using r handle_commands_kept [OF assms(1) _ assms(3), of _ "li_commands i"] assms(4)
    by (cases r; cases "snd r") (simp_all add: session_kept_def quiet_input_def)
  show ?thesis
    using ended rest stop_service_safe(2) [OF assms(1) on0 assms(3), of "li_finish i"]
    unfolding service_turn_def Let_def s0_def [symmetric] s1_def [symmetric] r_def [symmetric]
    by (cases "li_step i") simp_all
qed

lemma service_loop_kept:
  "session_files su rec \<Longrightarrow> recording_on rec content s \<Longrightarrow> content \<noteq> [] \<Longrightarrow> list_all (quiet_input rec) is
     \<Longrightarrow> session_kept rec content (service_loop su is s)"
proof (induction "is" arbitrary: s)
  case (Cons i "is")
  obtain s1 e where h: "service_turn su i s = (s1, e)" by (cases "service_turn su i s")
  have "session_kept rec content (s1, e)" using service_turn_kept [OF Cons.prems(1-3)] Cons.prems(4) h by (metis list.pred_inject(2))
  then show ?case
    using h Cons.IH [OF Cons.prems(1) _ Cons.prems(3)] Cons.prems(4) by (cases e) (simp_all add: session_kept_def)
qed (simp add: session_kept_def)

section \<open>The names of a full session\<close>

lemma reserve_attempt_names:
  "reserve_attempt env reserve meanwhile final fs = (fs', Inr (Some (f, temp))) \<Longrightarrow> f = final \<and> temp = with_extension final ''mp4.recording''"
  by (auto simp: reserve_attempt_def Let_def split: prod.splits sum.splits bool.splits if_splits)

lemma reserve_attempts_names:
  "reserve_attempts env reserve meanwhile dir prefix stamp as fs = (fs', Inr (final, temp)) \<Longrightarrow>
     \<exists>a. final = dir @ [media_name prefix stamp a] \<and> temp = with_extension final ''mp4.recording''"
proof (induction as arbitrary: fs)
  case (Cons a as)
  obtain fs1 r1 where t: "reserve_attempt env reserve meanwhile (dir @ [media_name prefix stamp a]) (meanwhile 0 fs) = (fs1, r1)"
    by (cases "reserve_attempt env reserve meanwhile (dir @ [media_name prefix stamp a]) (meanwhile 0 fs)")
  show ?case
    using Cons.prems Cons.IH [of "meanwhile 0 fs"] Cons.IH [of fs1] t reserve_attempt_names [of env reserve meanwhile _ "meanwhile 0 fs" fs1]
    by (simp only: reserve_attempts.simps Let_def) (auto split: sum.splits bool.splits option.splits)
qed simp

text \<open>A running session is recorded to the temporary name of its clip.\<close>

definition well_named :: "full_session_recording option \<Rightarrow> bool" where
  "well_named r \<longleftrightarrow> (case r of None \<Rightarrow> True
     | Some rec \<Rightarrow> is_mp4 (fr_final_path rec) \<and> is_recording_mp4 (fr_temp_path rec)
         \<and> fr_temp_path rec = with_extension (fr_final_path rec) ''mp4.recording'')"

lemma begun_well_named: "well_named (snd (begin_full_session_recording su sa s))"
proof -
  let ?dir = "su_clips_dir su @ [current_session (mv_session (ss_view s))]"
  have r: "well_named (Some \<lparr>fr_final_path = final, fr_temp_path = temp, fr_wall_start_unix = now\<rparr>)"
    if reserved: "reserve_full_session_path_at (su_env su) (sa_outside sa) ?dir ''session'' (sa_stamp sa) fs = (fs', Inr (final, temp))" for fs fs' final temp now
  proof -
    obtain a where "final = ?dir @ [media_name ''session'' (sa_stamp sa) a]" "temp = with_extension final ''mp4.recording''"
      using reserve_attempts_names [OF reserved [unfolded reserve_full_session_path_at_def reserve_full_session_path_at_with_def]] by blast
    then show ?thesis using media_name_mp4(1) temp_is_recording by (simp add: well_named_def del: append_assoc)
  qed
  show ?thesis
    by (auto simp: begin_full_session_recording_def Let_def r well_named_def [of None] split: prod.splits sum.splits)
qed

lemma shut_down_session [simp]: "ss_full_session (fst (shut_down su fa s)) = None"
  by (simp add: shut_down_def split: prod.splits)

lemma status_session [simp]: "ss_full_session (send_recording_status su rs s) = ss_full_session s" "ss_full_session (send_stopped s) = ss_full_session s"
  by (simp_all add: send_recording_status_def send_stopped_def)

lemma ended_session [simp]: "ss_full_session (fst (stop_service su fa s)) = None" "ss_full_session (fst (fail_service su fa s)) = None"
  by (simp_all add: stop_service_def fail_service_def)

lemma quota_check_session: "quota_check su required s = (s', b) \<Longrightarrow> ss_full_session s' = ss_full_session s"
  by (auto simp: quota_check_def split: prod.splits)

lemma tick_quota_session: "tick_quota su s = (s', b) \<Longrightarrow> ss_full_session s' = ss_full_session s"
  by (auto simp: tick_quota_def Let_def split: prod.splits option.splits)

lemma saved_clip_session: "ss_full_session (fst (saved_clip su sv p end_s seconds s)) \<in> {ss_full_session s, None}"
  by (auto simp: saved_clip_def Let_def split: prod.splits)

lemma save_session: "ss_full_session (fst (save_to_folder su sv s)) \<in> {ss_full_session s, None}"
proof -
  have "ss_full_session (fst (saved_clip su sv p end_s seconds (s\<lparr>ss_fs := g\<rparr>))) \<in> {ss_full_session s, None}" for p end_s seconds g
    using saved_clip_session [of su sv p end_s seconds "s\<lparr>ss_fs := g\<rparr>"] by simp
  then show ?thesis by (auto simp: save_to_folder_def Let_def split: prod.splits sum.splits option.splits)
qed

lemma command_well_named: "well_named (ss_full_session s) \<Longrightarrow> well_named (ss_full_session (fst (handle_command su cmd s)))"
proof -
  assume w: "well_named (ss_full_session s)"
  have none: "well_named None" by (simp add: well_named_def)
  have save: "well_named (ss_full_session (fst (save_to_folder su sv s1)))" if "ss_full_session s1 = ss_full_session s" for sv s1
    using save_session [of su sv s1] w none that by auto
  show ?thesis
  proof (cases cmd)
    case (SaveCmd sv)
    then show ?thesis using save none
      by (auto simp: handle_command_def handle_save_def quota_check_session split: prod.splits bool.splits)
  next
    case (StartFullSessionCmd sa rs fa)
    then show ?thesis using w none begun_well_named [of su sa]
      by (auto simp: handle_command_def handle_start_def quota_check_session Let_def split: prod.splits bool.splits) (metis snd_conv)+
  next
    case (StopFullSessionCmd fa rs)
    then show ?thesis using none by (auto simp: handle_command_def handle_stop_session_def Let_def split: prod.splits option.splits)
  qed (use w none in \<open>auto simp: handle_command_def handle_bookmark_def Let_def\<close>)
qed

lemma commands_well_named: "well_named (ss_full_session s) \<Longrightarrow> well_named (ss_full_session (fst (handle_commands su cmds s)))"
proof (induction cmds arbitrary: s)
  case (Cons c cmds)
  obtain outside cmd where c: "c = (outside, cmd)" by (cases c)
  obtain s1 e where h: "handle_command su cmd (s\<lparr>ss_fs := outside (ss_fs s)\<rparr>) = (s1, e)"
    by (cases "handle_command su cmd (s\<lparr>ss_fs := outside (ss_fs s)\<rparr>)")
  have "well_named (ss_full_session s1)" using command_well_named [of "s\<lparr>ss_fs := outside (ss_fs s)\<rparr>" su cmd] Cons.prems h by simp
  then show ?case using Cons.IH h c by (cases e) simp_all
qed simp

lemma messages_session [simp]: "ss_full_session (foldl (receive_message su) s ms) = ss_full_session s"
  by (induction ms arbitrary: s) (simp_all add: receive_message_def describe_queue_def Let_def split: poller_msg.splits)

lemma tick_well_named: "well_named (ss_full_session s) \<Longrightarrow> well_named (ss_full_session (fst (service_tick su ta s)))"
  by (auto simp: service_tick_def Let_def well_named_def [of None] tick_quota_session split: prod.splits bool.splits option.splits)

lemma turn_well_named: "well_named (ss_full_session s) \<Longrightarrow> well_named (ss_full_session (fst (service_turn su i s)))"
proof -
  assume w: "well_named (ss_full_session s)"
  have none: "well_named None" by (simp add: well_named_def)
  have e: "ss_full_session (fst (end_of_stream su fa s1)) = None" for fa s1
    using shut_down_session [of su fa s1] by (cases "shut_down su fa s1") (simp add: end_of_stream_def)
  let ?s1 = "foldl (receive_message su) (s\<lparr>ss_fs := li_outside i (ss_fs s)\<rparr>) (li_messages i)"
  define r where "r = (case li_tick i of None \<Rightarrow> (?s1, Running) | Some ta \<Rightarrow> service_tick su ta ?s1)"
  have "well_named (ss_full_session (fst r))"
    using tick_well_named [of ?s1] w by (cases "li_tick i") (simp_all add: r_def)
  then have "well_named (ss_full_session (fst (case r of (s2, Running) \<Rightarrow> handle_commands su (li_commands i) s2 | (s2, e) \<Rightarrow> (s2, e))))"
    using commands_well_named by (cases r; cases "snd r") simp_all
  then show ?thesis using e none by (cases "li_step i") (simp_all add: service_turn_def Let_def r_def)
qed

lemma loop_well_named: "well_named (ss_full_session s) \<Longrightarrow> well_named (ss_full_session (fst (service_loop su is s)))"
proof (induction "is" arbitrary: s)
  case (Cons i "is")
  obtain s1 e where h: "service_turn su i s = (s1, e)" by (cases "service_turn su i s")
  have "well_named (ss_full_session s1)" using turn_well_named [OF Cons.prems, of su i] h by simp
  then show ?case using Cons.IH h by (cases e) simp_all
qed simp

lemma start_well_named: "well_named (ss_full_session (service_start su mode sa rs s))"
  using begun_well_named [of su sa s] by (auto simp: service_start_def well_named_def [of None] split: prod.splits)

section \<open>The last event\<close>

definition stopped_event :: service_event where
  "stopped_event = StatusEvent False False 0 (Fin 0) (Fin 0) False [] []"

text \<open>A run that returned well has said so.\<close>

definition told_stop :: "service_state \<times> service_exit \<Rightarrow> bool" where
  "told_stop r \<longleftrightarrow> (snd r = ReturnedOk \<longrightarrow> (\<exists>evs. ss_events (fst r) = evs @ [stopped_event]))"

lemma told_stop_service [simp]: "told_stop (stop_service su fa s)" "told_stop (fail_service su fa s)" "told_stop (s, Running)"
  "told_stop (s, ReturnedErr)" "told_stop (send_stopped s, e)"
  by (simp_all add: told_stop_def stop_service_def fail_service_def send_stopped_def stopped_event_def)

lemma told_saved_clip [simp]: "told_stop (saved_clip su sv p end_s seconds s)"
  by (simp add: saved_clip_def Let_def split: prod.splits)

lemma told_save [simp]: "told_stop (save_to_folder su sv s)"
  by (simp add: save_to_folder_def Let_def split: prod.splits sum.splits option.splits)

lemma told_command: "\<not> silent_stop cmd \<Longrightarrow> told_stop (handle_command su cmd s)"
  by (cases cmd) (auto simp: handle_command_def handle_save_def handle_start_def silent_stop_def Let_def split: prod.splits bool.splits)

lemma told_commands: "list_all (\<lambda>(outside, cmd). \<not> silent_stop cmd) cmds \<Longrightarrow> told_stop (handle_commands su cmds s)"
proof (induction cmds arbitrary: s)
  case (Cons c cmds)
  obtain outside cmd where c: "c = (outside, cmd)" by (cases c)
  have "told_stop (handle_command su cmd (s\<lparr>ss_fs := outside (ss_fs s)\<rparr>))" using Cons.prems c told_command by simp
  then show ?case using c Cons by (auto split: prod.splits service_exit.splits)
qed simp

lemma told_tick [simp]: "told_stop (service_tick su ta s)"
  by (simp add: service_tick_def Let_def split: prod.splits bool.splits)

lemma told_turn: "list_all (\<lambda>(outside, cmd). \<not> silent_stop cmd) (li_commands i) \<Longrightarrow> told_stop (service_turn su i s)"
proof -
  assume q: "list_all (\<lambda>(outside, cmd). \<not> silent_stop cmd) (li_commands i)"
  have e: "told_stop (end_of_stream su fa s)" for fa s by (simp add: end_of_stream_def split: prod.splits)
  have t: "told_stop (case li_tick i of None \<Rightarrow> (s1, Running) | Some ta \<Rightarrow> service_tick su ta s1)" for s1 by (simp split: option.splits)
  have c: "told_stop r \<Longrightarrow> told_stop (case r of (s2, Running) \<Rightarrow> handle_commands su (li_commands i) s2 | (s2, e) \<Rightarrow> (s2, e))" for r
    using told_commands [OF q] by (cases r; cases "snd r") simp_all
  show ?thesis using e c [OF t] by (cases "li_step i") (simp_all add: service_turn_def Let_def)
qed

lemma told_loop: "\<forall>i \<in> set is. list_all (\<lambda>(outside, cmd). \<not> silent_stop cmd) (li_commands i) \<Longrightarrow> told_stop (service_loop su is s)"
proof (induction "is" arbitrary: s)
  case (Cons i "is")
  then have "told_stop (service_turn su i s)" using told_turn by simp
  with Cons show ?case by (auto split: prod.splits service_exit.splits)
qed simp


lemma thread_stopped:
  assumes "service_thread su is s = (s', e)" "e \<noteq> Running"
    "\<forall>i \<in> set is. list_all (\<lambda>(outside, cmd). \<not> silent_stop cmd) (li_commands i)"
  shows "\<exists>evs. ss_events s' = evs @ [stopped_event]"
  using told_loop [OF assms(3), of su s] assms(1,2)
  by (auto simp: service_thread_def told_stop_def send_stopped_def stopped_event_def split: prod.splits service_exit.splits)

end
