(* ===== verification/Service_Open.thy ===== *)
theory Service_Open
  imports Service_Loop Service_Files_Correct
begin

text \<open>
  How a run of the recorder service begins: the media folder (apps/clipline-app/src/service/media_root.rs)
  and the first steps of \<open>run\<close> in service.rs, up to the opening of the capture.
\<close>

section \<open>The media folder\<close>

text \<open>
  \<open>synced\<close> answers \<open>sync_data\<close>; the probe counter is of the process and only grows.
\<close>

record probe_env =
  pe_fs :: fs_env
  pe_synced :: "path \<Rightarrow> bool"
  pe_process_id :: nat

definition default_clips_dir :: "path option \<Rightarrow> path \<Rightarrow> path" where
  "default_clips_dir user_profile temp_dir = (case user_profile of Some p \<Rightarrow> p | None \<Rightarrow> temp_dir) @ [''Videos'', ''Clipline'']"

definition clips_dir_of :: "fs_env \<Rightarrow> path \<Rightarrow> fs \<Rightarrow> fs \<times> path io" where
  "clips_dir_of env media fs = (case create_dir_all env fs media of
       (fs1, Inl e) \<Rightarrow> (fs1, Inl e)
     | (fs1, Inr _) \<Rightarrow> (fs1, Inr media))"

definition probe_name :: "nat \<Rightarrow> nat \<Rightarrow> string" where
  "probe_name pid unique = ''.clipline-write-probe-'' @ decimal pid @ ''-'' @ decimal unique @ ''.tmp''"

fun probe_attempts :: "probe_env \<Rightarrow> path \<Rightarrow> nat \<Rightarrow> nat \<Rightarrow> fs \<Rightarrow> fs \<times> unit io \<times> nat" where
  "probe_attempts env dir unique 0 fs = (fs, Inl Exists, unique)"
| "probe_attempts env dir unique (Suc n) fs =
     (let p = dir @ [probe_name (pe_process_id env) unique]
      in case create_new (pe_fs env) fs p of
           (fs1, Inl e) \<Rightarrow> if e = Exists then probe_attempts env dir (unique + 1) n fs1 else (fs1, Inl e, unique + 1)
         | (fs1, Inr _) \<Rightarrow>
             (case write_all_to (pe_fs env) fs1 p [0] of
                (fs2, written) \<Rightarrow>
                  let result = (case written of Inl e \<Rightarrow> Inl e | Inr _ \<Rightarrow> if pe_synced env p then Inr () else Inl Refused)
                  in case remove_file (pe_fs env) fs2 p of
                       (fs3, cleanup) \<Rightarrow> (fs3, (case result of Inl e \<Rightarrow> Inl e | Inr _ \<Rightarrow> cleanup), unique + 1)))"

definition probe_writable_directory :: "probe_env \<Rightarrow> path \<Rightarrow> nat \<Rightarrow> fs \<Rightarrow> fs \<times> unit io \<times> nat" where
  "probe_writable_directory env dir unique fs = probe_attempts env dir unique 16 fs"

definition prepare_writable_directory ::
  "probe_env \<Rightarrow> path \<Rightarrow> nat \<Rightarrow> fs \<Rightarrow> fs \<times> unit io \<times> nat" where
  "prepare_writable_directory env dir unique fs = (case create_dir_all (pe_fs env) fs dir of
       (fs1, Inl e) \<Rightarrow> (fs1, Inl e, unique)
     | (fs1, Inr _) \<Rightarrow> probe_writable_directory env dir unique fs1)"

definition clips_dir_resolved ::
  "probe_env \<Rightarrow> path \<Rightarrow> path \<Rightarrow> nat \<Rightarrow> fs \<Rightarrow> fs \<times> (path \<times> bool) io \<times> nat" where
  "clips_dir_resolved env media fallback unique fs = (case prepare_writable_directory env media unique fs of
       (fs1, Inr _, u1) \<Rightarrow> (fs1, Inr (media, False), u1)
     | (fs1, Inl _, u1) \<Rightarrow> (case prepare_writable_directory env fallback u1 fs1 of
           (fs2, Inl e, u2) \<Rightarrow> (fs2, Inl e, u2)
         | (fs2, Inr _, u2) \<Rightarrow> (fs2, Inr (fallback, True), u2)))"

definition normalized_path :: "fs_env \<Rightarrow> fs \<Rightarrow> path \<Rightarrow> path" where
  "normalized_path env fs p = (case ev_canon env fs p of Some q \<Rightarrow> q | None \<Rightarrow> p)"

definition is_within_temp :: "fs_env \<Rightarrow> fs \<Rightarrow> path \<Rightarrow> path \<Rightarrow> bool" where
  "is_within_temp env fs dir temp_dir = path_starts_with (normalized_path env fs dir) (normalized_path env fs temp_dir)"

section \<open>The beginning of a run\<close>

text \<open>Recovery happens once per process; the flag tells whether it did.\<close>

definition recover_abandoned_recordings :: "fs_env \<Rightarrow> path \<Rightarrow> bool \<Rightarrow> fs \<Rightarrow> fs \<times> service_event list \<times> bool" where
  "recover_abandoned_recordings env dir recovered_this_process fs =
     (if recovered_this_process then (fs, [], True)
      else case recover_recording_files env dir fs of
        (fs1, Inr report) \<Rightarrow> (fs1, (if rp_recovered report \<noteq> [] then [ErrorEvent] else [])
            @ (if 0 < rp_deleted_empty report then [ErrorEvent] else []), True)
      | (fs1, Inl _) \<Rightarrow> (fs1, [ErrorEvent], True))"

record open_options =
  op_media_dir :: path
  op_fallback :: path
  op_temp_dir :: path
  op_recover :: bool
  op_full_session :: bool
  op_disk_quota_bytes :: "nat option"
  op_auto_delete :: bool

text \<open>What the process remembers: the probe counter and whether it recovered.\<close>

record process_state =
  ps_probe :: nat
  ps_recovered :: bool

text \<open>The result: an end of the run, or the folder and the baseline for the quota.\<close>

definition open_service ::
  "probe_env \<Rightarrow> leases \<Rightarrow> (path \<Rightarrow> fs \<Rightarrow> fs) \<Rightarrow> open_options \<Rightarrow> process_state \<Rightarrow> fs
     \<Rightarrow> fs \<times> process_state \<times> service_event list \<times> (service_exit + path \<times> nat option)" where
  "open_service penv leased meanwhile opts ps fs =
     (let env = pe_fs penv in
      case clips_dir_resolved penv (op_media_dir opts) (op_fallback opts) (ps_probe ps) fs of
        (fs1, Inl _, u) \<Rightarrow> (fs1, ps\<lparr>ps_probe := u\<rparr>, [], Inl ReturnedErr)
      | (fs1, Inr (dir, fell_back), u) \<Rightarrow>
          let evs1 = MediaRootResolved dir fell_back # (if fell_back then [ErrorEvent] else [])
                @ (if is_within_temp env fs1 dir (op_temp_dir opts) then [ErrorEvent] else []);
              (fs2, evs2, recovered) = (if op_recover opts then recover_abandoned_recordings env dir (ps_recovered ps) fs1
                else (fs1, [], ps_recovered ps));
              startup_reserve = (if op_full_session opts then full_session_quota_reserve_bytes else 1);
              (fs3, evs3, full) = storage_quota_full_event env leased meanwhile dir (op_disk_quota_bytes opts) startup_reserve
                (op_auto_delete opts) fs2;
              ps' = \<lparr>ps_probe = u, ps_recovered = recovered\<rparr>
          in case full of
               Some event \<Rightarrow> (fs3, ps', evs1 @ evs2 @ evs3 @ [event, StatusEvent False False 0 (Fin 0) (Fin 0) False [] []], Inl ReturnedOk)
             | None \<Rightarrow> (fs3, ps', evs1 @ evs2 @ evs3,
                 Inr (dir, map_option st_total_bytes (storage_status_or_warn env fs3 dir (op_disk_quota_bytes opts)))))"

section \<open>What a probe leaves\<close>

lemma create_dirs_grow: "create_dirs env ps fs = (fs', r) \<Longrightarrow>
    node_at fs' q = node_at fs q \<or> (node_at fs q = None \<and> node_at fs' q = Some DirNode)"
proof (induction ps arbitrary: fs)
  case (Cons p ps)
  then consider "fs' = fs" | "create_dirs env ps fs = (fs', r)"
    | "node_at fs p = None" "create_dirs env ps (placed fs p DirNode) = (fs', r)"
    by (auto split: sum.splits node.splits if_splits)
  then show ?case using Cons.IH by cases (fastforce split: if_splits)+
qed simp

text \<open>A probe that succeeds leaves no file; one that fails leaves at most its own, which is new.\<close>

lemma probe_attempts_clean:
  "probe_attempts env dir unique n fs = (fs', r, u) \<Longrightarrow>
     (node_at fs q \<noteq> None \<longrightarrow> node_at fs' q = node_at fs q) \<and> (r = Inr () \<longrightarrow> node_at fs' q = node_at fs q) \<and> unique \<le> u"
proof (induction n arbitrary: unique fs)
  case (Suc n)
  let ?p = "dir @ [probe_name (pe_process_id env) unique]"
  obtain fs1 r1 where c: "create_new (pe_fs env) fs ?p = (fs1, r1)" by (cases "create_new (pe_fs env) fs ?p")
  show ?case
  proof (cases r1)
    case (Inl e)
    then have "fs1 = fs" using c by (auto simp: create_new_def split: if_splits)
    then show ?thesis using Suc.prems c Inl Suc.IH [of "unique + 1" fs] by (auto simp: Let_def split: if_splits)
  next
    case (Inr v)
    then have new: "node_at fs ?p = None" "fs1 = placed fs ?p (FileNode [] (ev_now (pe_fs env)))"
      using c by (auto simp: create_new_def split: if_splits)
    obtain fs2 w where w: "write_all_to (pe_fs env) fs1 ?p [0] = (fs2, w)" by (cases "write_all_to (pe_fs env) fs1 ?p [0]")
    obtain fs3 d where d: "remove_file (pe_fs env) fs2 ?p = (fs3, d)" by (cases "remove_file (pe_fs env) fs2 ?p")
    have e: "fs' = fs3" "u = unique + 1" "r = Inr () \<Longrightarrow> d = Inr ()"
      using Suc.prems c Inr w d by (auto simp: Let_def split: sum.splits if_splits)
    have "q \<noteq> ?p \<Longrightarrow> node_at fs2 q = node_at fs q"
      using write_all_to_elsewhere [OF w, of q] new(2) by simp
    moreover have "q \<noteq> ?p \<Longrightarrow> node_at fs3 q = node_at fs2 q" using remove_file_elsewhere [of q ?p "pe_fs env" fs2] d by simp
    moreover have "d = Inr () \<Longrightarrow> node_at fs3 ?p = None"
      using d by (auto simp: remove_file_def split: option.splits node.splits if_splits)
    ultimately show ?thesis using e new(1) by (cases "q = ?p") auto
  qed
qed auto


text \<open>Whatever was there stays; a folder taken at once is left without a trace but the folder itself.\<close>

lemma prepare_grows:
  assumes "prepare_writable_directory env dir unique fs = (fs', r, u)"
  shows "(node_at fs q \<noteq> None \<longrightarrow> node_at fs' q = node_at fs q) \<and> unique \<le> u
    \<and> (r = Inr () \<longrightarrow> node_at fs' q = node_at fs q \<or> (node_at fs q = None \<and> node_at fs' q = Some DirNode))"
proof -
  obtain fs1 c where c: "create_dir_all (pe_fs env) fs dir = (fs1, c)" by (cases "create_dir_all (pe_fs env) fs dir")
  have g: "node_at fs1 q = node_at fs q \<or> (node_at fs q = None \<and> node_at fs1 q = Some DirNode)"
    using create_dirs_grow c unfolding create_dir_all_def by blast
  show ?thesis
  proof (cases c)
    case (Inl e)
    then show ?thesis using assms c g by (auto simp: prepare_writable_directory_def)
  next
    case (Inr v)
    then have "probe_attempts env dir unique 16 fs1 = (fs', r, u)"
      using assms c by (simp add: prepare_writable_directory_def probe_writable_directory_def)
    from probe_attempts_clean [OF this, of q] show ?thesis using g by auto
  qed
qed

lemma resolved_grows:
  assumes "clips_dir_resolved env media fallback unique fs = (fs', r, u)"
  shows "(node_at fs q \<noteq> None \<longrightarrow> node_at fs' q = node_at fs q)
    \<and> (\<forall>dir fell_back. r = Inr (dir, fell_back) \<longrightarrow> dir = (if fell_back then fallback else media)
        \<and> (\<not> fell_back \<longrightarrow> node_at fs' q = node_at fs q \<or> (node_at fs q = None \<and> node_at fs' q = Some DirNode)))"
proof -
  obtain fs1 r1 u1 where a: "prepare_writable_directory env media unique fs = (fs1, r1, u1)" by (metis prod_cases3)
  obtain fs2 r2 u2 where b: "prepare_writable_directory env fallback u1 fs1 = (fs2, r2, u2)" by (metis prod_cases3)
  note ga = prepare_grows [OF a, of q] and gb = prepare_grows [OF b, of q]
  show ?thesis
  proof (cases r1)
    case (Inl e)
    then have "fs' = fs2" "\<And>dir fb. r = Inr (dir, fb) \<Longrightarrow> dir = fallback \<and> fb"
      using assms a b by (cases r2; simp add: clips_dir_resolved_def)+
    then show ?thesis using ga gb by auto
  next
    case (Inr v)
    then show ?thesis using assms a ga by (auto simp: clips_dir_resolved_def)
  qed
qed

text \<open>A run that goes on past the quota check knows the size of its library, and has its reserve.\<close>

lemma opened_has_room:
  assumes "open_service penv leased meanwhile opts ps fs = (fs', ps', evs, Inr (dir, Some baseline))"
    "op_disk_quota_bytes opts = Some quota"
  shows "baseline + (if op_full_session opts then full_session_quota_reserve_bytes else 1) \<le> quota
    \<and> (dir = op_media_dir opts \<or> dir = op_fallback opts)"
proof -
  let ?env = "pe_fs penv" and ?reserve = "if op_full_session opts then full_session_quota_reserve_bytes else 1"
  obtain fs1 r1 u where a: "clips_dir_resolved penv (op_media_dir opts) (op_fallback opts) (ps_probe ps) fs = (fs1, r1, u)" by (metis prod_cases3)
  obtain d fell_back where r1: "r1 = Inr (d, fell_back)"
    using assms(1) a by (cases r1) (auto simp: open_service_def)
  obtain fs2 evs2 recovered where b: "(if op_recover opts then recover_abandoned_recordings ?env d (ps_recovered ps) fs1
      else (fs1, [], ps_recovered ps)) = (fs2, evs2, recovered)" by (metis prod_cases3)
  obtain fs3 evs3 full where q: "storage_quota_full_event ?env leased meanwhile d (op_disk_quota_bytes opts) ?reserve (op_auto_delete opts) fs2
      = (fs3, evs3, full)" by (metis prod_cases3)
  have e: "full = None" "fs' = fs3" "dir = d"
    "map_option st_total_bytes (storage_status_or_warn ?env fs3 d (op_disk_quota_bytes opts)) = Some baseline"
    using assms(1) unfolding open_service_def Let_def a r1 prod.case sum.case b q
    by (auto split: option.splits)
  have "dir = op_media_dir opts \<or> dir = op_fallback opts"
    using resolved_grows [OF a] r1 e(3) by auto
  moreover have "baseline + ?reserve \<le> quota"
  proof (cases "storage_status ?env fs2 d (Some quota)")
    case (Inl err)
    then have "fs3 = fs2" using q assms(2) by (simp add: storage_quota_full_event_def storage_status_or_warn_def)
    then show ?thesis using e(4) Inl assms(2) by (simp add: storage_status_or_warn_def)
  next
    case (Inr s0)
    from no_event_means_room [OF q [unfolded e(1) assms(2)] Inr] e(4) assms(2) show ?thesis by (auto simp: storage_status_or_warn_def)
  qed
  ultimately show ?thesis by simp
qed

end
