(* ===== verification/Service_Loop_Properties.thy ===== *)
theory Service_Loop_Properties
  imports Service_Loop_Correct Service_Open Service_Properties
begin

text \<open>
  The properties of the loop of the recorder service: a running full session keeps its footage, and
  the end of a run is told.
\<close>

text \<open>
  C13: nothing the service does loses the footage of a running full session.  In any state the loop
  reaches with a session running, take the content of its file.  Over any further run of the loop -
  saves, bookmarks, more starts, messages, quota checks with their collections, an encoder that fails, a
  stop or a lost application - in which nobody asks for the session to be stopped, its file is only
  appended to, and while old clips are deleted the rest of the system leaves its temporary and its final
  file alone: while the run goes on the session goes on and its file begins with that content; when the
  run is over, the writer having ended the file however far it got, there is a file at the temporary name
  or at the final one with all those bytes but the 16 of the free box at offset 28, which finalizing
  overwrites with the header of the finished file.
\<close>

theorem running_footage_survives:
  assumes "service_loop su earlier (service_start su mode sa rs s0) = (s, Running)"
    and "ss_full_session s = Some rec" "node_at (ss_fs s) (fr_temp_path rec) = Some (FileNode content t)" "content \<noteq> []"
    and "\<forall>p g. \<forall>q \<in> {fr_temp_path rec, fr_final_path rec}. node_at (su_meanwhile su p g) q = node_at g q"
    and "list_all (quiet_input rec) later" "service_loop su later s = (s', e)"
  shows "(e = Running \<longrightarrow> ss_full_session s' = Some rec
      \<and> (\<exists>more t'. node_at (ss_fs s') (fr_temp_path rec) = Some (FileNode (content @ more) t')))
    \<and> (\<exists>p \<in> {fr_temp_path rec, fr_final_path rec}. \<exists>c t'. node_at (ss_fs s') p = Some (FileNode c t')
        \<and> length content \<le> length c \<and> (\<forall>i < length content. i < 28 \<or> 44 \<le> i \<longrightarrow> c ! i = content ! i))"
proof -
  have "well_named (Some rec)"
    using loop_well_named [OF start_well_named, of su earlier su mode sa rs s0] assms(1,2) by simp
  then have files: "session_files su rec" using assms(5) unfolding session_files_def well_named_def option.case by blast
  have "node_at (ss_fs s) (fr_temp_path rec) = Some (FileNode (content @ []) t)" using assms(3) by simp
  then have on: "recording_on rec content s" using assms(2) unfolding recording_on_def file_begins_def by blast
  have kept: "session_kept rec content (s', e)" using service_loop_kept [OF files on assms(4,6)] assms(7) by simp
  have foot: "has_footage content c \<longleftrightarrow> length content \<le> length c \<and> (\<forall>i < length content. i < 28 \<or> 44 \<le> i \<longrightarrow> c ! i = content ! i)" for c
    by (simp add: has_footage_def session_free_offset_def)
  have "footage_safe rec content s'"
    using kept recording_on_safe by (auto simp: session_kept_def split: if_splits)
  then show ?thesis
    using kept unfolding footage_safe_def foot by (auto simp: session_kept_def recording_on_def file_begins_def split: if_splits)
qed

definition sample_setup :: service_setup where
  "sample_setup = \<lparr>su_env = service_env, su_leased = (\<lambda>_ _. False), su_meanwhile = (\<lambda>_ g. g), su_clips_dir = [],
     su_active_game = None, su_disk_quota_bytes = None, su_auto_delete = False, su_audio_tracks = [],
     su_render_markers = (\<lambda>_. None), su_render_game = (\<lambda>_ _. None), su_disk_cache = False, su_encoder_label = [], su_backend_label = []\<rparr>"

definition sample_state :: service_state where
  "sample_state = \<lparr>ss_view = match_view_new ''s'', ss_full_session = None, ss_baseline_bytes = None,
     ss_fs = [([''s''], DirNode)], ss_events = []\<rparr>"

definition sample_start :: start_answers where
  "sample_start = \<lparr>sa_stamp = 7, sa_outside = (\<lambda>_ g. g), sa_started = True, sa_unix_now = 5\<rparr>"

definition sample_status :: recorder_status where
  "sample_status = \<lparr>rs_ring_len = 0, rs_buffered_s = Fin 0, rs_ring_bytes = 0\<rparr>"

definition sample_finish :: finish_answers where
  "sample_finish = \<lparr>fa_stream = Inr (), fa_ending = \<lparr>en_fragments = [8], en_moov = [9], en_header_bytes = 16, en_time = 8\<rparr>,
     fa_session = Inr (Some (Fin 0, Fin 5, Fin 5)), fa_unix_now = 9\<rparr>"

text \<open>The writer has written fifty bytes; then the user stops the service, and the file is finalized.\<close>

definition sample_footage :: bytes where
  "sample_footage = replicate 28 1 @ replicate 16 0 @ [2, 3, 4, 5, 6, 7]"

definition writing_turn :: loop_input where
  "writing_turn = \<lparr>li_outside = (\<lambda>g. placed g [''s'', ''session_7.mp4.recording''] (FileNode sample_footage 6)), li_step = StepDone,
     li_messages = [], li_tick = None, li_commands = [], li_finish = sample_finish\<rparr>"

definition stopping_turn :: loop_input where
  "stopping_turn = \<lparr>li_outside = id, li_step = StepIdle, li_messages = [(MatchStartedMsg, ''match'')], li_tick = None,
     li_commands = [(id, BookmarkCmd (Fin 2) (Some (Fin 0))), (id, StopCmd True sample_finish)], li_finish = sample_finish\<rparr>"

definition sample_recording :: full_session_recording where
  "sample_recording = \<lparr>fr_final_path = [''s'', ''session_7.mp4''], fr_temp_path = [''s'', ''session_7.mp4.recording''], fr_wall_start_unix = 5\<rparr>"

lemma sample_begin:
  "\<exists>fs'. begin_full_session_recording sample_setup sample_start sample_state = (sample_state\<lparr>ss_fs := fs'\<rparr>, Some sample_recording)"
proof -
  obtain fs' where r: "reserve_full_session_path_at service_env (\<lambda>_ g. g) [''s''] ''session'' 7 [([''s''], DirNode)]
     = (fs', Inr ([''s'', ''session_7.mp4''], [''s'', ''session_7.mp4.recording'']))" using reserved_session by blast
  have d: "create_dir_all service_env [([''s''], DirNode)] [''s''] = ([([''s''], DirNode)], Inr ())"
    by (simp add: create_dir_all_def stat_def lstat_def node_at_def service_env_def)
  show ?thesis
    by (simp add: begin_full_session_recording_def sample_setup_def sample_start_def sample_state_def match_view_new_def current_session_def
        session_tracker_new_def d r write_session_game_meta_def sample_recording_def)
qed

lemma sample_run:
  "\<exists>s. service_loop sample_setup [writing_turn] (service_start sample_setup True sample_start sample_status sample_state) = (s, Running)
     \<and> ss_full_session s = Some sample_recording
     \<and> node_at (ss_fs s) [''s'', ''session_7.mp4.recording''] = Some (FileNode sample_footage 6)"
  using sample_begin by (auto simp: service_start_def service_turn_def writing_turn_def send_recording_status_def)

lemma appends_id: "appends_only p id"
  unfolding appends_only_def id_apply by (metis append_Nil2)

theorem running_footage_survives_witness:
  "let s = fst (service_loop sample_setup [writing_turn] (service_start sample_setup True sample_start sample_status sample_state));
       s' = fst (service_loop sample_setup [stopping_turn] s)
   in \<exists>p \<in> {[''s'', ''session_7.mp4.recording''], [''s'', ''session_7.mp4'']}. \<exists>c t'. node_at (ss_fs s') p = Some (FileNode c t')
        \<and> 50 \<le> length c \<and> (\<forall>i < 50. i < 28 \<or> 44 \<le> i \<longrightarrow> c ! i = sample_footage ! i)"
proof -
  obtain s where s: "service_loop sample_setup [writing_turn] (service_start sample_setup True sample_start sample_status sample_state) = (s, Running)"
    "ss_full_session s = Some sample_recording"
    "node_at (ss_fs s) (fr_temp_path sample_recording) = Some (FileNode sample_footage 6)" using sample_run by (auto simp: sample_recording_def)
  have "list_all (quiet_input sample_recording) [stopping_turn]"
    by (simp add: quiet_input_def quiet_commands_def stopping_turn_def stops_session_def appends_id)
  moreover have "\<forall>p g. \<forall>q \<in> {fr_temp_path sample_recording, fr_final_path sample_recording}. node_at (su_meanwhile sample_setup p g) q = node_at g q"
    by (simp add: sample_setup_def)
  moreover have "sample_footage \<noteq> []" "length sample_footage = 50" by (simp_all add: sample_footage_def)
  ultimately show ?thesis
    using running_footage_survives [OF s(1,2,3) _ _ _ surjective_pairing, of "[stopping_turn]"] unfolding Let_def s(1) fst_conv
    by (simp add: sample_recording_def)
qed

text \<open>
  C14: the application always hears that the recorder stopped.  Whatever ends the recorder's thread -
  the stream, a failure, a full disk or quota, the loss of the application, a stop that is to be
  announced - the last event it sends is the status of a recorder that no longer records.
\<close>

theorem end_of_run_is_told:
  assumes "service_thread su inputs s = (s', e)" "e \<noteq> Running"
    and "\<forall>i \<in> set inputs. list_all (\<lambda>(outside, cmd). \<not> silent_stop cmd) (li_commands i)"
  shows "\<exists>evs. ss_events s' = evs @ [StatusEvent False False 0 (Fin 0) (Fin 0) False [] []]"
  using thread_stopped [OF assms] by (simp add: stopped_event_def)

theorem end_of_run_is_told_witness:
  "\<exists>evs. ss_events (fst (service_thread sample_setup [stopping_turn] sample_state)) = evs @ [StatusEvent False False 0 (Fin 0) (Fin 0) False [] []]"
proof -
  have e: "snd (service_thread sample_setup [stopping_turn] sample_state) \<noteq> Running"
    by (simp add: service_thread_def service_turn_def stopping_turn_def sample_state_def receive_message_def handle_command_def
        handle_bookmark_def Let_def shut_down_def sample_finish_def shutdown_recorder_def finish_full_session_recording_def)
  have "\<forall>i \<in> set [stopping_turn]. list_all (\<lambda>(outside, cmd). \<not> silent_stop cmd) (li_commands i)"
    by (simp add: stopping_turn_def silent_stop_def)
  from end_of_run_is_told [OF surjective_pairing e this] show ?thesis .
qed


text \<open>
  C15: a run that begins has its reserve.  When the service gets past its first checks under a quota and
  knows the size of its library - in the folder of the settings or in the one it fell back to, after
  recovery, after deleting old clips - that size leaves the startup reserve free, 64 MiB for a full session.
\<close>

theorem begun_run_has_its_reserve:
  assumes "open_service penv leased meanwhile opts ps fs = (fs', ps', evs, Inr (dir, Some baseline))"
    and "op_disk_quota_bytes opts = Some quota"
  shows "baseline + (if op_full_session opts then full_session_quota_reserve_bytes else 1) \<le> quota
    \<and> (dir = op_media_dir opts \<or> dir = op_fallback opts)"
  by (rule opened_has_room [OF assms])

definition sample_options :: open_options where
  "sample_options = \<lparr>op_media_dir = [''s''], op_fallback = [''f''], op_temp_dir = [''t''], op_recover = False, op_full_session = True,
     op_disk_quota_bytes = Some 70000000, op_auto_delete = True\<rparr>"

definition sample_probe_env :: probe_env where
  "sample_probe_env = \<lparr>pe_fs = service_env, pe_synced = (\<lambda>_. True), pe_process_id = 4\<rparr>"

lemma sample_resolved:
  "clips_dir_resolved sample_probe_env [''s''] [''f''] 0 [([''s''], DirNode)] = ([([''s''], DirNode)], Inr ([''s''], False), 1)"
proof -
  have "probe_attempts sample_probe_env [''s''] 0 (Suc 15) [([''s''], DirNode)] = ([([''s''], DirNode)], Inr (), 1)"
    by (simp only: probe_attempts.simps Let_def) (simp add: sample_probe_env_def service_env_def create_new_def write_all_to_def remove_file_def node_at_def placed_def without_def)
  then show ?thesis
    by (simp add: clips_dir_resolved_def prepare_writable_directory_def probe_writable_directory_def create_dir_all_def stat_def lstat_def
        node_at_def sample_probe_env_def service_env_def)
qed

theorem begun_run_has_its_reserve_witness:
  "\<exists>fs' ps' evs. open_service sample_probe_env (\<lambda>_ _. False) (\<lambda>_ g. g) sample_options \<lparr>ps_probe = 0, ps_recovered = False\<rparr> [([''s''], DirNode)]
      = (fs', ps', evs, Inr ([''s''], Some 0)) \<and> full_session_quota_reserve_bytes \<le> 70000000"
proof -
  have s: "storage_status service_env [([''s''], DirNode)] [''s''] (Some 70000000)
      = Inr \<lparr>st_clip_count = 0, st_total_bytes = 0, st_quota_bytes = Some 70000000\<rparr>"
    by (simp add: storage_status_def inventory_def visit_media_dirs_def collect_clips_def read_dir_def stat_def lstat_def node_at_def
        entries_of_def service_env_def status_from_clips_def sum_u64_def)
  have env: "pe_fs sample_probe_env = service_env" by (simp add: sample_probe_env_def)
  obtain fs' ps' evs where o: "open_service sample_probe_env (\<lambda>_ _. False) (\<lambda>_ g. g) sample_options \<lparr>ps_probe = 0, ps_recovered = False\<rparr>
      [([''s''], DirNode)] = (fs', ps', evs, Inr ([''s''], Some 0))"
    by (simp add: open_service_def sample_options_def sample_resolved env storage_quota_full_event_def storage_status_or_warn_def s
        quota_would_be_exceeded_def full_session_quota_reserve_bytes_def)
  from begun_run_has_its_reserve [OF this, of 70000000] o show ?thesis by (simp add: sample_options_def)
qed

end
