(* ===== verification/Spec2Isabelle.thy ===== *)
theory Spec2Isabelle
  imports Buffer_Properties Events_Properties Mp4_Properties Mp4_Reader_Properties Capture_Properties
    Pipeline_Properties Pipeline_Session_Properties Storage_Properties Service_Properties Service_Loop_Properties
begin

text \<open>
  Verification library for the Clipline recorder, the Rust workspace under src/crates.

  The program.  A capture source and an encoder deliver encoded packets, audio sources deliver Opus
  packets (clipline-capture).  The recorder seals them into segments of one GOP each and pushes them
  into a replay ring in memory or on disk (clipline-buffer), which evicts what is older than the
  retention window or over the byte budget.  Saving a replay writes the trailing segments as a
  hybrid MP4 (clipline-mp4); a full session writes every segment on a thread of its own.  Finalized
  files are read back to trim them or to keep some of their audio tracks.  The clip library
  (clipline-storage) counts what lies in the media folder, deletes the oldest clips over the quota
  and recovers unfinished recordings.  The recorder service of the application drives all of this:
  it paces the capture, reserves and finishes the files of full sessions, keeps room under the quota
  and follows the matches that the poller reports.  Beside this a poller turns
  the events of a running game into markers on the recording's clock (clipline-lol,
  clipline-events).

  Theories and code.
  \<^item> Prelude: lists, options, the result type \<open>outcome\<close> (a value, an error or a panic), checked and
    saturating arithmetic, big-endian words.  Float64: IEEE 754 binary64 over rationals, round to
    nearest even, the operations of f64 that the code uses.
  \<^item> Replay buffer (crates/clipline-buffer): Segment (segment.rs), Planning (planning.rs), Ring
    (ring.rs), Disk_Ring (disk.rs), Replay_Cache (run names), Disk_Refinement: every reachable disk
    ring with its files represents a memory ring.
  \<^item> Events (crates/clipline-events, crates/clipline-lol): Schema, Markers, Lol_Tracker, Lol_Normalize.
  \<^item> MP4 writing (crates/clipline-mp4): Mp4_Boxes, Bit_Read, Mp4_Codecs (hvcc.rs, av1c.rs), Mp4_Init,
    Mp4_Fragment, Mp4_Tables and Mp4_Tracks (the track state of writer.rs), Mp4_Writer;
    Mp4_Demux reads fragments back, Mp4_Writer_Correct carries the invariant \<open>writer_ok\<close>,
    Mp4_Session relates a run of operations to the samples that were handed to it.
  \<^item> MP4 reading (trim.rs): Mp4_Parse and its Mp4_Parse_Tables, Mp4_Parse_Track, Mp4_Parse_Config,
    Mp4_Parse_Movie, Mp4_Parse_File; Mp4_Timing and Mp4_Roundtrip: what the writer wrote is what the
    reader reads; Mp4_Trim, Mp4_Trim_Runs, Mp4_Trim_Copy, Mp4_Trim_Correct: trimming and remuxing, in
    memory and by copying from the file; the file operations refuse a target that is the source.
  \<^item> Bit streams (crates/clipline-capture): Annexb (annexb.rs, hevc.rs), Av1_Obu (av1.rs), Framing with
    Framer_Correct, Framer_Units, Framer_Pictures, Framer_Chunks, Ivf_Correct (framing.rs), Chunked;
    Avsync (clock.rs, avsync.rs).
  \<^item> The recorder (pipeline.rs, traits.rs): Pipeline_Time (durations in ticks), Pipeline_Save
    (\<open>save_replay\<close>), Pipeline_Session (the full-session thread as a step relation over the shared
    channel), Pipeline_Recorder (the recorder's state, its construction and its step), and Pipeline_Save_Correct,
    Pipeline_Recorder_Correct for the lemmas.
  \<^item> The clip library (crates/clipline-storage): Storage_Fs (paths and the calls of std::fs over a tree of
    files), Storage (lib.rs, sessions.rs), Storage_Correct and Storage_Quota (what a deletion and a
    collection change), Storage_Recovery.
  \<^item> The recorder service (apps/clipline-app): Match_Poller (markers.rs and the message loop of
    service.rs), Service_Files (quota checks, names, reservation and end of a full session, with what
    the finalization writes over its file),
    Service_Cache (the replay cache folder), Service_Capture (cadence and captured region),
    Service_Open (media_root.rs and how a run begins), Service_Loop (the loop of \<open>run\<close>: messages, ticks,
    commands), with Match_Poller_Correct, Service_Files_Correct and Service_Loop_Correct.
  \<^item> The properties stand in Buffer_Properties, Events_Properties, Mp4_Properties,
    Mp4_Reader_Properties, Capture_Properties, Pipeline_Properties, Pipeline_Session_Properties,
    Storage_Properties, Service_Properties and Service_Loop_Properties.

  How the code is modelled.  A struct is a record and an enum a datatype with the source's names.  A
  field of 8 to 64 bits is a word where the code computes on it at that width, a natural number with
  its limit written out elsewhere; usize is a natural number up to \<open>usize_max\<close> = 2^64 - 1.  An
  addition that the code checks is a \<open>checked_add\<close>; one it does not check wraps, as in a release
  build.  Indexing out of range, \<open>unwrap\<close> on nothing and an empty \<open>clamp\<close> range are the value
  \<open>Inl Panic\<close>, never an unspecified term.  Error messages are dropped, error kinds kept.  The answers of
  the outside - the operating system for files and directories, the capture source, the encoder,
  the audio sources, the codec text operations - are arguments of the definitions, without
  assumptions about them.  The interleaving of the recorder with its writer thread is arbitrary: a
  function between the two atomic steps of a send, and the relation \<open>session_step\<close>.

  What the lemmas show.
  \<^item> The ring: its counters are exact, it stays within its budget, over any run of pushes at later and
    later times it never loses what a save within the retention window needs, a save is decodable, and
    the disk ring simulates the memory ring.
  \<^item> The writer: \<open>writer_ok\<close> is kept by every operation, so a finalized file lists every handed sample
    at its bytes; the reader returns exactly those samples and times.
  \<^item> Trimming and remuxing keep the samples they select and copy what the in-memory version builds, or
    fail with its errors.
  \<^item> The framers: for every way of cutting the stream into chunks, the pictures that come out are the
    pictures that went in; the ceiling of 32 MiB bounds what is pending, never the stream.
  \<^item> The recorder: every packet from the first keyframe on is sealed into one segment, every audio
    packet on the timeline is kept once, a save reads back as the segments of its window, the byte
    budgets hold over every run of a constructed recorder, and the session thread writes what the channel accepted and always replies.
  \<^item> The clip library: whatever the system does meanwhile, a collection touches only owned clips and what
    belongs to them; undisturbed it takes the oldest first, as many as needed; recovery keeps every
    video.
  \<^item> The service: the match state of both threads agrees and an absent client ends a match; a reservation
    harms no file, the footage of a session survives whatever the loop does and however it ends
    (finishing appends the index and overwrites the free box, never the media), the end of a run is told, a sweep spares every run that may be alive.

  Bounds and fuel.  No definition takes fuel but the size of a cache run, bounded by the depth of the tree: the loops of the code recurse on the data they consume
  (bytes left, samples left, runs left), and each non-structural one has its termination proof.  The
  limits of the code are definitions with the source's numbers: 4,000,000 samples and 64 MiB of moov for a
  parsed file, 64 MiB and 10 s for an unsealed GOP, 128 MiB and 8 segments for the session queue,
  32 MiB for a framer's buffer.

  The id of the next segment of a disk ring is a natural number, since 2^64 segments are out of reach.

  Not modelled.  Write and seek errors of the MP4 sink and of files being copied, the temporary file
  through which a target is replaced (whether it can be created and moved is an answer), directory
  removal on drop, and error message texts: they are input and output.  The Opus mix of trim.rs and the PCM code compute with decoded audio samples; the Opus
  codec itself is foreign code.  The HTTP clients of clipline-lol, the ffmpeg and Windows back ends
  of clipline-capture and the rest of the desktop application under src/apps are glue around
  foreign interfaces.  Of the service, the opening of devices and encoders and the
  threads themselves are not modelled; what the client, the recorder and the serializers answer are
  inputs.
\<close>

end
